(* ===== verification/Telamon_Prelude.thy ===== *)
theory Telamon_Prelude
  imports Main "HOL-Library.Word" "HOL-Library.Monad_Syntax" "HOL-Library.Multiset"
begin

text \<open>
  The prelude of the development: names for the machine integers of the sources, the panic
  conventions, the checked and saturating arithmetic of Rust, the three-valued booleans of
  \<^verbatim>\<open>telamon-utils\<close> that every component returns, and generic lemmas on strictly sorted lists.

  Conventions used by every theory:
  \<^item> a Rust function that may panic (a failed assertion, an index out of range, an explicit
    \<^verbatim>\<open>panic!\<close>, an arithmetic overflow in a build with overflow checks) returns an \<open>option\<close>,
    and \<open>None\<close> is the panic;
  \<^item> a \<^verbatim>\<open>&mut self\<close> method takes the state and returns the updated state;
  \<^item> \<^verbatim>\<open>u16\<close>, \<^verbatim>\<open>u32\<close>, \<^verbatim>\<open>u64\<close> are words of that width, while \<^verbatim>\<open>usize\<close> positions in
    vectors are \<open>nat\<close> (a vector never has more than \<^verbatim>\<open>isize::MAX\<close> elements).
\<close>

unbundle bit_operations_syntax

named_theorems panic_simps \<open>unfolding rules of the checked operations\<close>

section \<open>Machine integers\<close>

type_synonym u8 = "8 word"
type_synonym u16 = "16 word"
type_synonym u32 = "32 word"
type_synonym u64 = "64 word"

definition u32_max :: u32 where
  "u32_max = - 1"

definition checked_add :: "'a::len word \<Rightarrow> 'a word \<Rightarrow> 'a word option" where
  "checked_add x y = (if unat x + unat y < 2 ^ LENGTH('a) then Some (x + y) else None)"

definition checked_sub :: "'a::len word \<Rightarrow> 'a word \<Rightarrow> 'a word option" where
  "checked_sub x y = (if y \<le> x then Some (x - y) else None)"

definition checked_mul :: "'a::len word \<Rightarrow> 'a word \<Rightarrow> 'a word option" where
  "checked_mul x y = (if unat x * unat y < 2 ^ LENGTH('a) then Some (x * y) else None)"

definition checked_div :: "'a::len word \<Rightarrow> 'a word \<Rightarrow> 'a word option" where
  "checked_div x y = (if y = 0 then None else Some (x div y))"

text \<open>The operator \<^verbatim>\<open><<\<close> panics when the shift amount is not smaller than the width.\<close>

definition checked_shl :: "'a::len word \<Rightarrow> nat \<Rightarrow> 'a word option" where
  "checked_shl x n = (if n < LENGTH('a) then Some (push_bit n x) else None)"

definition saturating_add :: "'a::len word \<Rightarrow> 'a word \<Rightarrow> 'a word" where
  "saturating_add x y = (if unat x + unat y < 2 ^ LENGTH('a) then x + y else - 1)"

definition saturating_sub :: "'a::len word \<Rightarrow> 'a word \<Rightarrow> 'a word" where
  "saturating_sub x y = (if y \<le> x then x - y else 0)"

lemma le_u32_max [simp]: "x \<le> u32_max"
  by (simp add: u32_max_def)

lemma saturating_add_one_le: "saturating_add v 1 \<le> x \<longleftrightarrow> (if v = u32_max then x = u32_max else v < x)" for v :: u32
proof -
  have max: "v = u32_max \<longleftrightarrow> unat v = 2 ^ 32 - 1"
    by (simp add: u32_max_def word_unat_eq_iff unsigned_minus_1_eq_mask mask_eq_exp_minus_1)
  have b: "unat v < 2 ^ 32" "unat x < 2 ^ 32" using unsigned_less [of v] unsigned_less [of x] by simp_all
  show ?thesis
  proof (cases "v = u32_max")
    case True
    then show ?thesis using max by (auto simp: saturating_add_def u32_max_def intro: order_antisym)
  next
    case False
    then have "unat v + 1 < 2 ^ 32" using max b by simp
    then have "unat (v + 1) = unat v + 1" by (simp add: unat_word_ariths)
    then show ?thesis using False \<open>unat v + 1 < 2 ^ 32\<close>
      by (simp add: saturating_add_def word_le_nat_alt word_less_nat_alt Suc_le_eq)
  qed
qed

lemma le_saturating_sub_one: "x \<le> saturating_sub v 1 \<longleftrightarrow> (if v = 0 then x = 0 else x < v)" for v :: u32
proof (cases "v = 0")
  case False
  then have "unat v \<noteq> 0" by (simp add: unat_eq_0)
  then have "1 \<le> v" by (simp add: word_le_nat_alt)
  moreover have "unat (v - 1) = unat v - 1" using \<open>1 \<le> v\<close> by (simp add: unat_sub)
  ultimately show ?thesis using \<open>unat v \<noteq> 0\<close> False
    by (auto simp: saturating_sub_def word_le_nat_alt word_less_nat_alt)
qed (simp add: saturating_sub_def)

lemma unat_checked_add:
  "checked_add x y = Some z \<longleftrightarrow> unat x + unat y < 2 ^ LENGTH('a) \<and> unat z = unat x + unat y"
  for x y z :: "'a::len word"
  by (auto simp: checked_add_def unat_add_lem word_unat_eq_iff split: if_splits)

lemma unat_checked_sub:
  "checked_sub x y = Some z \<longleftrightarrow> unat y \<le> unat x \<and> unat z = unat x - unat y"
  for x y z :: "'a::len word"
  by (auto simp: checked_sub_def word_le_nat_alt unat_sub word_unat_eq_iff split: if_splits)

lemma unat_checked_mul:
  "checked_mul x y = Some z \<longleftrightarrow> unat x * unat y < 2 ^ LENGTH('a) \<and> unat z = unat x * unat y"
  for x y z :: "'a::len word"
  by (auto simp: checked_mul_def unat_mult_lem word_unat_eq_iff split: if_splits)

lemma unat_checked_div:
  "checked_div x y = Some z \<longleftrightarrow> unat y \<noteq> 0 \<and> unat z = unat x div unat y"
  for x y z :: "'a::len word"
proof (cases "y = 0")
  case True
  then show ?thesis by (simp add: checked_div_def)
next
  case False
  then have "unat y \<noteq> 0" by (simp add: unat_eq_zero)
  moreover have "x div y = z \<longleftrightarrow> unat z = unat x div unat y"
    by (auto simp: word_unat_eq_iff unat_div)
  ultimately show ?thesis using False by (simp add: checked_div_def)
qed

section \<open>Ordering and binary search\<close>

text \<open>\<^verbatim>\<open>std::cmp::Ordering\<close> and \<^verbatim>\<open>Ord::cmp\<close>.\<close>

datatype ordering = Less | Equal | Greater

definition cmp :: "'a::linorder \<Rightarrow> 'a \<Rightarrow> ordering" where
  "cmp x y = (if x < y then Less else if x = y then Equal else Greater)"

lemma cmp_simps [simp]:
  "cmp x y = Less \<longleftrightarrow> x < y" "cmp x y = Equal \<longleftrightarrow> x = y" "cmp x y = Greater \<longleftrightarrow> y < x"
  by (auto simp: cmp_def)

lemma cmp_simps_sym [simp]:
  "Less = cmp x y \<longleftrightarrow> x < y" "Equal = cmp x y \<longleftrightarrow> x = y" "Greater = cmp x y \<longleftrightarrow> y < x"
  by (auto simp: cmp_def)

lemma cmp_cases:
  obtains (Less) "x < y" "cmp x y = Less" | (Equal) "x = y" "cmp x y = Equal"
    | (Greater) "y < x" "cmp x y = Greater"
  by (metis cmp_simps linorder_cases)

text \<open>
  \<^verbatim>\<open>slice::binary_search\<close>: the loop of the standard library, which halves the window
  \<open>[base, base + size)\<close>. The result is \<open>Inr i\<close> for \<^verbatim>\<open>Ok(i)\<close> and \<open>Inl i\<close> for \<^verbatim>\<open>Err(i)\<close>.
\<close>

function bs_loop :: "'a::linorder list \<Rightarrow> 'a \<Rightarrow> nat \<Rightarrow> nat \<Rightarrow> nat" where
  "bs_loop xs x base sz =
     (if sz > 1 then
        let half = sz div 2; mid = base + half
        in bs_loop xs x (if cmp (xs ! mid) x = Greater then base else mid) (sz - half)
      else base)"
  by pat_completeness auto
termination
  by (relation "measure (\<lambda>(xs, x, base, sz). sz)") auto

declare bs_loop.simps [simp del]

definition binary_search :: "'a::linorder list \<Rightarrow> 'a \<Rightarrow> nat + nat" where
  "binary_search xs x =
     (if xs = [] then Inl 0
      else let base = bs_loop xs x 0 (length xs) in
           case cmp (xs ! base) x of Equal \<Rightarrow> Inr base
             | Less \<Rightarrow> Inl (base + 1) | Greater \<Rightarrow> Inl base)"

text \<open>The number of elements smaller than \<open>x\<close>: the position the search has to return.\<close>

definition rank :: "'a::linorder list \<Rightarrow> 'a \<Rightarrow> nat" where
  "rank xs x = length (filter (\<lambda>y. y < x) xs)"

lemma rank_le [simp]: "rank xs x \<le> length xs"
  by (simp add: rank_def)

lemma rank_Nil [simp]: "rank [] x = 0"
  by (simp add: rank_def)

lemma rank_eqI:
  assumes "i \<le> length xs" "\<And>j. j < i \<Longrightarrow> xs ! j < x" "\<And>j. i \<le> j \<Longrightarrow> j < length xs \<Longrightarrow> x \<le> xs ! j"
  shows "rank xs x = i"
proof -
  have "filter (\<lambda>y. y < x) (take i xs) = take i xs"
    using assms(1,2) by (auto simp: filter_id_conv in_set_conv_nth)
  moreover have "filter (\<lambda>y. y < x) (drop i xs) = []"
    using assms(3) by (auto simp: filter_empty_conv in_set_conv_nth leD [OF assms(3)])
  ultimately have "filter (\<lambda>y. y < x) (take i xs @ drop i xs) = take i xs"
    by (simp only: filter_append append_Nil2)
  then show ?thesis using assms(1) by (simp add: rank_def)
qed

lemma rank_nth:
  assumes "sorted_wrt (<) xs" "j < length xs"
  shows "xs ! j < x \<longleftrightarrow> j < rank xs x"
proof -
  define i where "i = (LEAST i. i \<ge> length xs \<or> x \<le> xs ! i)"
  have ex: "\<exists>i. i \<ge> length xs \<or> x \<le> xs ! i" by blast
  have i: "i \<ge> length xs \<or> x \<le> xs ! i" unfolding i_def by (rule LeastI_ex [OF ex])
  have less: "xs ! k < x" if "k < i" for k
    using not_less_Least [of k "\<lambda>i. i \<ge> length xs \<or> x \<le> xs ! i"] that i_def by auto
  have len: "i \<le> length xs" unfolding i_def by (rule Least_le) simp
  have ge: "x \<le> xs ! k" if "i \<le> k" "k < length xs" for k
  proof (cases "k = i")
    case False
    then have "xs ! i < xs ! k"
      using that assms(1) sorted_wrt_nth_less by fastforce
    then show ?thesis using i that by auto
  qed (use i that in auto)
  have "rank xs x = i" by (rule rank_eqI) (use len less ge in auto)
  then show ?thesis using less ge assms(2) by (metis leD leI)
qed

lemma rank_mem:
  assumes "sorted_wrt (<) xs" "x \<in> set xs"
  shows "rank xs x < length xs" "xs ! rank xs x = x"
proof -
  obtain j where j: "j < length xs" "xs ! j = x" using assms(2) by (auto simp: in_set_conv_nth)
  have "rank xs x = j"
  proof (rule rank_eqI)
    show "xs ! i < x" if "i < j" for i using that j sorted_wrt_nth_less [OF assms(1)] by blast
    show "x \<le> xs ! i" if "j \<le> i" "i < length xs" for i
      using that j sorted_wrt_nth_less [OF assms(1), of j i] by (cases "i = j") auto
  qed (use j in simp)
  then show "rank xs x < length xs" "xs ! rank xs x = x" using j by simp_all
qed

lemma bs_loop_inv:
  assumes "sorted_wrt (<) xs" "1 \<le> sz" "base + sz \<le> length xs"
    and "base = 0 \<or> xs ! base \<le> x" "\<And>i. base + sz \<le> i \<Longrightarrow> i < length xs \<Longrightarrow> x < xs ! i"
  shows "bs_loop xs x base sz < length xs \<and>
    (bs_loop xs x base sz = 0 \<or> xs ! bs_loop xs x base sz \<le> x) \<and>
    (\<forall>i. bs_loop xs x base sz < i \<and> i < length xs \<longrightarrow> x < xs ! i)"
  using assms(2-)
proof (induction sz arbitrary: base rule: less_induct)
  case (less sz)
  show ?case
  proof (cases "sz > 1")
    case True
    define mid where "mid = base + sz div 2"
    have mid: "mid < length xs" "base < mid" "mid < base + sz"
      using less.prems(1,2) True by (auto simp: mid_def)
    have above: "x < xs ! i" if "x < xs ! mid" "mid \<le> i" "i < length xs" for i
      using that sorted_wrt_nth_less [OF assms(1), of mid i] by (cases "i = mid") auto
    show ?thesis
    proof (cases "x < xs ! mid")
      case gt: True
      have "bs_loop xs x base sz = bs_loop xs x base (sz - sz div 2)"
        using True gt by (simp add: bs_loop.simps [of xs x base sz] Let_def mid_def)
      moreover have "x < xs ! i" if "base + (sz - sz div 2) \<le> i" "i < length xs" for i
        using above [OF gt _ that(2)] that(1) by (simp add: mid_def)
      ultimately show ?thesis
        using less.IH [of "sz - sz div 2" base] less.prems True by simp
    next
      case le: False
      have "bs_loop xs x base sz = bs_loop xs x mid (sz - sz div 2)"
        using True le by (simp add: bs_loop.simps [of xs x base sz] Let_def mid_def)
      then show ?thesis
        using less.IH [of "sz - sz div 2" mid] less.prems True le mid
        by (simp add: mid_def Suc_le_eq not_less)
    qed
  next
    case False
    then have "bs_loop xs x base sz = base" "sz = 1"
      using less.prems(1) by (simp_all add: bs_loop.simps [of xs x base sz])
    then show ?thesis using less.prems by auto
  qed
qed

lemma binary_search_spec:
  assumes "sorted_wrt (<) xs"
  shows "binary_search xs x = (if x \<in> set xs then Inr (rank xs x) else Inl (rank xs x))"
proof (cases "xs = []")
  case True
  then show ?thesis by (simp add: binary_search_def)
next
  case False
  define b where "b = bs_loop xs x 0 (length xs)"
  have b: "b < length xs" "b = 0 \<or> xs ! b \<le> x" "\<And>i. b < i \<Longrightarrow> i < length xs \<Longrightarrow> x < xs ! i"
    using bs_loop_inv [OF assms, of "length xs" 0 x] False by (auto simp: b_def Suc_le_eq)
  have before: "xs ! i < x" if "i < b" for i
    using that b(1,2) sorted_wrt_nth_less [OF assms that] by auto
  have notin: "x \<notin> set xs" if "xs ! b \<noteq> x"
  proof
    assume "x \<in> set xs"
    then obtain i where i: "i < length xs" "xs ! i = x" by (auto simp: in_set_conv_nth)
    then show False using that before [of i] b(3) [of i] by (cases i b rule: linorder_cases) auto
  qed
  have srch: "binary_search xs x =
      (if xs ! b = x then Inr b else if xs ! b < x then Inl (b + 1) else Inl b)"
    using False by (simp add: binary_search_def b_def [symmetric] cmp_def)
  consider "xs ! b = x" | "xs ! b < x" | "x < xs ! b" by fastforce
  then show ?thesis
  proof cases
    case 1
    then have "rank xs x = b" using b before by (intro rank_eqI) (auto simp: le_less)
    then show ?thesis using 1 srch nth_mem [OF b(1)] by auto
  next
    case 2
    then have "rank xs x = Suc b" using b before by (intro rank_eqI) (auto simp: less_Suc_eq less_imp_le)
    then show ?thesis using 2 srch notin by auto
  next
    case 3
    then have "rank xs x = b" using b before by (intro rank_eqI) (auto simp: le_less)
    then show ?thesis using 3 srch notin by auto
  qed
qed

text \<open>Strictly sorted lists: positions, membership and the sets they stand for.\<close>

lemma sorted_wrt_less_distinct: "sorted_wrt (<) xs \<Longrightarrow> distinct xs"
  for xs :: "'a::linorder list"
  by (simp add: strict_sorted_iff)

lemma sorted_wrt_less_unique:
  "sorted_wrt (<) xs \<Longrightarrow> sorted_wrt (<) ys \<Longrightarrow> set xs = set ys \<Longrightarrow> xs = ys"
  for xs :: "'a::linorder list"
  by (simp add: sorted_distinct_set_unique strict_sorted_iff)

section \<open>Iterators\<close>

text \<open>
  A Rust iterator is a state and its \<^verbatim>\<open>next\<close> method. \<open>iter_collect nxt n s\<close> is the vector
  \<^verbatim>\<open>collect()\<close> builds from the state \<open>s\<close>, with at most \<open>n\<close> calls of \<^verbatim>\<open>next\<close>; \<open>None\<close> says
  that the iterator was not exhausted after \<open>n\<close> calls.
\<close>

primrec iter_collect :: "('s \<Rightarrow> 'a option \<times> 's) \<Rightarrow> nat \<Rightarrow> 's \<Rightarrow> 'a list option" where
  "iter_collect nxt 0 s = None"
| "iter_collect nxt (Suc n) s =
     (case nxt s of (None, _) \<Rightarrow> Some []
      | (Some x, s') \<Rightarrow> map_option ((#) x) (iter_collect nxt n s'))"

lemma iter_collect_mono:
  "iter_collect nxt n s = Some xs \<Longrightarrow> n \<le> m \<Longrightarrow> iter_collect nxt m s = Some xs"
proof (induction n arbitrary: m s xs)
  case (Suc n)
  then obtain m' where m: "m = Suc m'" "n \<le> m'" by (cases m) auto
  show ?case
    using Suc.prems(1) Suc.IH [OF _ m(2)] unfolding m(1)
    by (fastforce split: prod.splits option.splits)
qed simp

section \<open>Collecting options\<close>

lemma those_SomeD: "those (map f xs) = Some ys \<Longrightarrow> length ys = length xs \<and> (\<forall>i < length xs. f (xs ! i) = Some (ys ! i))"
proof (induction xs arbitrary: ys)
  case (Cons x xs)
  then obtain y zs where "f x = Some y" "those (map f xs) = Some zs" "ys = y # zs" by (auto split: option.splits)
  then show ?case using Cons.IH by (auto simp: nth_Cons split: nat.splits)
qed simp

section \<open>Memory\<close>

text \<open>\<^verbatim>\<open>std::ptr::copy\<close> of \<open>n\<close> cells from \<open>src\<close> to \<open>dst\<close> (overlap allowed).\<close>

definition ptr_copy :: "'a list \<Rightarrow> nat \<Rightarrow> nat \<Rightarrow> nat \<Rightarrow> 'a list" where
  "ptr_copy buf src dst n = take dst buf @ take n (drop src buf) @ drop (dst + n) buf"

section \<open>Folds that may panic\<close>

fun fold_option :: "('a \<Rightarrow> 's \<Rightarrow> 's option) \<Rightarrow> 'a list \<Rightarrow> 's \<Rightarrow> 's option" where
  "fold_option f [] s = Some s"
| "fold_option f (x # xs) s = do { s' \<leftarrow> f x s; fold_option f xs s' }"

lemma fold_option_inv:
  assumes "fold_option f xs s = Some s'" "P s" "\<And>x s s'. x \<in> set xs \<Longrightarrow> P s \<Longrightarrow> f x s = Some s' \<Longrightarrow> P s'"
  shows "P s'"
  using assms
proof (induction xs arbitrary: s)
  case (Cons x xs)
  then obtain t where t: "f x s = Some t" "fold_option f xs t = Some s'" by (auto simp: bind_eq_Some_conv)
  have "P t" by (rule Cons.prems(3) [OF _ Cons.prems(2) t(1)]) simp
  then show ?case by (rule Cons.IH [OF t(2)]) (rule Cons.prems(3), simp_all)
qed simp

end
