(* ===== verification/Vec_Set.thy ===== *)
theory Vec_Set
  imports Telamon_Prelude
begin

text \<open>
  \<^verbatim>\<open>telamon-utils/src/vec_set.rs\<close>: sets backed by ordered vectors. Each operation is
  translated with the cursors of the source, including \<^verbatim>\<open>relative_difference\<close>, which
  compacts both buffers in place through raw pointers. The invariant is that the vector is
  strictly increasing, and every operation is shown to compute the set operation its
  documentation names; \<^verbatim>\<open>partial_cmp\<close> is shown to decide set inclusion.
\<close>

section \<open>The data type and its operations\<close>

record 'a vec_set =
  data :: "'a list"

definition vs_new :: "'a::linorder list \<Rightarrow> 'a vec_set" where
  "vs_new d = \<lparr>data = remdups_adj (sort d)\<rparr>"

definition vs_is_empty :: "'a vec_set \<Rightarrow> bool" where
  "vs_is_empty s \<longleftrightarrow> data s = []"

definition vs_len :: "'a vec_set \<Rightarrow> nat" where
  "vs_len s = length (data s)"

definition vs_default :: "'a vec_set" where
  "vs_default = \<lparr>data = []\<rparr>"

definition vs_filter :: "'a vec_set \<Rightarrow> ('a \<Rightarrow> bool) \<Rightarrow> 'a vec_set" where
  "vs_filter s p = \<lparr>data = filter p (data s)\<rparr>"

definition vs_retain :: "'a vec_set \<Rightarrow> ('a \<Rightarrow> bool) \<Rightarrow> 'a vec_set" where
  "vs_retain s p = s\<lparr>data := filter p (data s)\<rparr>"

text \<open>\<^verbatim>\<open>Vec::insert\<close> at a position shifts the rest of the vector.\<close>

definition vs_insert :: "'a::linorder vec_set \<Rightarrow> 'a \<Rightarrow> bool \<times> 'a vec_set" where
  "vs_insert s item =
     (case binary_search (data s) item of
        Inr _ \<Rightarrow> (False, s)
      | Inl pos \<Rightarrow> (True, s\<lparr>data := take pos (data s) @ item # drop pos (data s)\<rparr>))"

definition vs_contains :: "'a::linorder vec_set \<Rightarrow> 'a \<Rightarrow> bool" where
  "vs_contains s item = (case binary_search (data s) item of Inr _ \<Rightarrow> True | Inl _ \<Rightarrow> False)"

subsection \<open>Union\<close>

function union_loop :: "'a::linorder list \<Rightarrow> 'a list \<Rightarrow> nat \<Rightarrow> nat \<Rightarrow> 'a list \<Rightarrow> 'a list" where
  "union_loop a b self_cursor other_cursor d =
     (if self_cursor < length a \<and> other_cursor < length b then
        (case cmp (a ! self_cursor) (b ! other_cursor) of
           Equal \<Rightarrow> union_loop a b (self_cursor + 1) (other_cursor + 1) (d @ [a ! self_cursor])
         | Less \<Rightarrow> union_loop a b (self_cursor + 1) other_cursor (d @ [a ! self_cursor])
         | Greater \<Rightarrow> union_loop a b self_cursor (other_cursor + 1) (d @ [b ! other_cursor]))
      else d @ drop self_cursor a @ drop other_cursor b)"
  by pat_completeness auto
termination
  by (relation "measure (\<lambda>(a, b, i, j, d). (length a - i) + (length b - j))") auto

declare union_loop.simps [simp del]

definition vs_union :: "'a::linorder vec_set \<Rightarrow> 'a vec_set \<Rightarrow> 'a vec_set" where
  "vs_union s other = \<lparr>data = union_loop (data s) (data other) 0 0 []\<rparr>"

subsection \<open>In-place intersection\<close>

text \<open>The closure given to \<^verbatim>\<open>Vec::retain\<close>: it advances a cursor of the other vector.\<close>

function intersect_keep :: "'a::linorder list \<Rightarrow> 'a \<Rightarrow> nat \<Rightarrow> bool \<times> nat" where
  "intersect_keep b item other_cursor =
     (if other_cursor \<ge> length b then (False, other_cursor)
      else if item < b ! other_cursor then (False, other_cursor)
      else if item = b ! other_cursor then (True, other_cursor)
      else intersect_keep b item (other_cursor + 1))"
  by pat_completeness auto
termination
  by (relation "measure (\<lambda>(b, item, c). length b - c)") auto

declare intersect_keep.simps [simp del]

fun intersect_retain :: "'a::linorder list \<Rightarrow> 'a list \<Rightarrow> nat \<Rightarrow> 'a list" where
  "intersect_retain b [] c = []"
| "intersect_retain b (item # rest) c =
     (let (keep, c') = intersect_keep b item c
      in if keep then item # intersect_retain b rest c' else intersect_retain b rest c')"

definition vs_intersect :: "'a::linorder vec_set \<Rightarrow> 'a vec_set \<Rightarrow> 'a vec_set" where
  "vs_intersect s other = s\<lparr>data := intersect_retain (data other) (data s) 0\<rparr>"

subsection \<open>Relative difference, in place\<close>

text \<open>
  The loop of \<^verbatim>\<open>relative_difference\<close>. The vectors are raw buffers: an element that is kept
  is copied \<open>lhs_del\<close> cells to the left when \<open>lhs_del > 0\<close>, an element that is in both is
  dropped by increasing the two deletion counters.
\<close>

function rel_diff_loop ::
  "'a::linorder list \<Rightarrow> 'a list \<Rightarrow> nat \<Rightarrow> nat \<Rightarrow> nat \<Rightarrow> nat
     \<Rightarrow> ('a list \<times> nat \<times> nat) \<times> ('a list \<times> nat \<times> nat)" where
  "rel_diff_loop a b lhs_idx lhs_del rhs_idx rhs_del =
     (if lhs_idx < length a \<and> rhs_idx < length b then
        (case cmp (a ! lhs_idx) (b ! rhs_idx) of
           Less \<Rightarrow>
             rel_diff_loop (if lhs_del > 0 then a[lhs_idx - lhs_del := a ! lhs_idx] else a) b
               (lhs_idx + 1) lhs_del rhs_idx rhs_del
         | Greater \<Rightarrow>
             rel_diff_loop a (if rhs_del > 0 then b[rhs_idx - rhs_del := b ! rhs_idx] else b)
               lhs_idx lhs_del (rhs_idx + 1) rhs_del
         | Equal \<Rightarrow>
             rel_diff_loop a b (lhs_idx + 1) (lhs_del + 1) (rhs_idx + 1) (rhs_del + 1))
      else ((a, lhs_idx, lhs_del), (b, rhs_idx, rhs_del)))"
  by pat_completeness auto
termination
  by (relation "measure (\<lambda>(a, b, i, _, j, _). (length a - i) + (length b - j))") auto

declare rel_diff_loop.simps [simp del]

text \<open>The copy of the part that was not explored, then \<^verbatim>\<open>set_len\<close>.\<close>

definition rel_diff_finish :: "'a list \<times> nat \<times> nat \<Rightarrow> 'a list" where
  "rel_diff_finish = (\<lambda>(buf, idx, del).
     take (length buf - del)
       (if idx < length buf \<and> del > 0 then ptr_copy buf idx (idx - del) (length buf - idx) else buf))"

definition vs_relative_difference ::
  "'a::linorder vec_set \<Rightarrow> 'a vec_set \<Rightarrow> 'a vec_set \<times> 'a vec_set" where
  "vs_relative_difference s other =
     (case rel_diff_loop (data s) (data other) 0 0 0 0 of (l, r) \<Rightarrow>
        (s\<lparr>data := rel_diff_finish l\<rparr>, other\<lparr>data := rel_diff_finish r\<rparr>))"

subsection \<open>Comparison\<close>

function partial_cmp_loop ::
  "'a::linorder list \<Rightarrow> 'a list \<Rightarrow> nat \<Rightarrow> nat \<Rightarrow> ordering \<Rightarrow> ordering option" where
  "partial_cmp_loop a b self_cursor other_cursor prev_ord =
     (if self_cursor \<ge> length a then
        (if length b = other_cursor then Some prev_ord
         else if prev_ord = Greater then None else Some Less)
      else if other_cursor \<ge> length b then
        (if prev_ord = Less then None else Some Greater)
      else
        (case (cmp (a ! self_cursor) (b ! other_cursor), prev_ord) of
           (Less, Less) \<Rightarrow> None
         | (Greater, Greater) \<Rightarrow> None
         | (Equal, _) \<Rightarrow> partial_cmp_loop a b (self_cursor + 1) (other_cursor + 1) prev_ord
         | (Less, _) \<Rightarrow> partial_cmp_loop a b (self_cursor + 1) other_cursor Greater
         | (Greater, _) \<Rightarrow> partial_cmp_loop a b self_cursor (other_cursor + 1) Less))"
  by pat_completeness auto
termination
  by (relation "measure (\<lambda>(a, b, i, j, _). (length a - i) + (length b - j))") auto

declare partial_cmp_loop.simps [simp del]

definition vs_partial_cmp :: "'a::linorder vec_set \<Rightarrow> 'a vec_set \<Rightarrow> ordering option" where
  "vs_partial_cmp s other = partial_cmp_loop (data s) (data other) 0 0 Equal"

subsection \<open>The lazy iterators\<close>

record 'a set_iter =
  lhs :: "'a vec_set"
  lhs_cursor :: nat
  rhs :: "'a vec_set"
  rhs_cursor :: nat

definition vs_difference :: "'a vec_set \<Rightarrow> 'a vec_set \<Rightarrow> 'a set_iter" where
  "vs_difference s other = \<lparr>lhs = s, lhs_cursor = 0, rhs = other, rhs_cursor = 0\<rparr>"

definition vs_intersection :: "'a vec_set \<Rightarrow> 'a vec_set \<Rightarrow> 'a set_iter" where
  "vs_intersection s other = \<lparr>lhs = s, lhs_cursor = 0, rhs = other, rhs_cursor = 0\<rparr>"

text \<open>The inner \<^verbatim>\<open>while\<close> of \<^verbatim>\<open>Difference::next\<close>; the flag says that it was left by
  \<^verbatim>\<open>continue 'lhs\<close>.\<close>

function difference_inner :: "'a::linorder list \<Rightarrow> 'a \<Rightarrow> nat \<Rightarrow> bool \<times> nat" where
  "difference_inner b item c =
     (if c < length b then
        (case cmp (b ! c) item of
           Less \<Rightarrow> difference_inner b item (c + 1)
         | Greater \<Rightarrow> (False, c)
         | Equal \<Rightarrow> (True, c))
      else (False, c))"
  by pat_completeness auto
termination
  by (relation "measure (\<lambda>(b, item, c). length b - c)") auto

declare difference_inner.simps [simp del]

text \<open>The cursor starts at 0 and stops at the length, so \<^verbatim>\<open>==\<close> and \<open>\<ge>\<close> agree on it.\<close>

function difference_next :: "'a::linorder set_iter \<Rightarrow> 'a option \<times> 'a set_iter" where
  "difference_next it =
     (if lhs_cursor it \<ge> length (data (lhs it)) then (None, it)
      else
        let item = data (lhs it) ! lhs_cursor it;
            (found, c) = difference_inner (data (rhs it)) item (rhs_cursor it);
            it' = it\<lparr>lhs_cursor := lhs_cursor it + 1, rhs_cursor := c\<rparr>
        in if found then difference_next it' else (Some item, it'))"
  by pat_completeness auto
termination
  by (relation "measure (\<lambda>it. length (data (lhs it)) - lhs_cursor it)") auto

declare difference_next.simps [simp del]

function intersection_next :: "'a::linorder set_iter \<Rightarrow> 'a option \<times> 'a set_iter" where
  "intersection_next it =
     (if lhs_cursor it \<ge> length (data (lhs it)) \<or> rhs_cursor it \<ge> length (data (rhs it))
      then (None, it)
      else
        let lhs_item = data (lhs it) ! lhs_cursor it in
        (case cmp lhs_item (data (rhs it) ! rhs_cursor it) of
           Less \<Rightarrow> intersection_next (it\<lparr>lhs_cursor := lhs_cursor it + 1\<rparr>)
         | Equal \<Rightarrow> (Some lhs_item,
              it\<lparr>lhs_cursor := lhs_cursor it + 1, rhs_cursor := rhs_cursor it + 1\<rparr>)
         | Greater \<Rightarrow> intersection_next (it\<lparr>rhs_cursor := rhs_cursor it + 1\<rparr>)))"
  by pat_completeness auto
termination
  by (relation "measure (\<lambda>it. (length (data (lhs it)) - lhs_cursor it)
        + (length (data (rhs it)) - rhs_cursor it))") auto

declare intersection_next.simps [simp del]

section \<open>Invariant and abstraction\<close>

definition vs_inv :: "'a::linorder vec_set \<Rightarrow> bool" where
  "vs_inv s \<longleftrightarrow> sorted_wrt (<) (data s)"

definition elems :: "'a vec_set \<Rightarrow> 'a set" where
  "elems s = set (data s)"

lemma vs_eqI: "vs_inv s \<Longrightarrow> vs_inv t \<Longrightarrow> elems s = elems t \<Longrightarrow> s = t"
  for s t :: "'a::linorder vec_set"
  by (cases s; cases t) (auto simp: vs_inv_def elems_def intro: sorted_wrt_less_unique)

text \<open>Suffixes of a strictly increasing list.\<close>

lemma drop_less_Cons:
  fixes xs :: "'a::linorder list"
  assumes "sorted_wrt (<) (drop i xs)" "i < length xs"
  shows "drop i xs = xs ! i # drop (Suc i) xs" "sorted_wrt (<) (drop (Suc i) xs)"
    "\<And>y. y \<in> set (drop (Suc i) xs) \<Longrightarrow> xs ! i < y"
  using assms Cons_nth_drop_Suc [OF assms(2)] by (metis sorted_wrt.simps(2))+

lemma below_drop:
  fixes xs :: "'a::linorder list"
  assumes "sorted_wrt (<) (drop i xs)" "i < length xs" "x < xs ! i"
  shows "x \<notin> set (drop i xs)"
  using drop_less_Cons(1) [OF assms(1,2)] drop_less_Cons(3) [OF assms(1,2), of x] assms(3)
  by (auto dest: less_asym)

lemma vs_inv_filter: "vs_inv s \<Longrightarrow> vs_inv \<lparr>data = filter p (data s)\<rparr>"
  by (simp add: vs_inv_def sorted_wrt_filter)

subsection \<open>Construction, membership, insertion\<close>

lemma sorted_dedup: "sorted xs \<Longrightarrow> sorted_wrt (<) (remdups_adj xs)"
  by (induction xs rule: remdups_adj.induct) (auto simp: le_less)

lemma vs_inv_new: "vs_inv (vs_new d)" and elems_new: "elems (vs_new d) = set d"
  by (simp_all add: vs_inv_def vs_new_def elems_def sorted_dedup)

lemma vs_contains_iff: "vs_inv s \<Longrightarrow> vs_contains s x \<longleftrightarrow> x \<in> elems s"
  by (simp add: vs_contains_def vs_inv_def elems_def binary_search_spec)

lemma sorted_insert_at_rank:
  assumes "sorted_wrt (<) xs" "x \<notin> set xs"
  shows "sorted_wrt (<) (take (rank xs x) xs @ x # drop (rank xs x) xs)"
proof -
  have lo: "y < x" if "y \<in> set (take (rank xs x) xs)" for y
    using that rank_nth [OF assms(1)] less_le_trans [OF _ rank_le [of xs x]]
    by (auto simp: in_set_conv_nth)
  have hi: "x < y" if y: "y \<in> set (drop (rank xs x) xs)" for y
  proof -
    obtain j where j: "j < length xs" "rank xs x \<le> j" "y = xs ! j"
      using y by (auto simp: in_set_conv_nth) (metis add.commute le_add1 less_diff_conv)
    then have "\<not> y < x" using rank_nth [OF assms(1) j(1)] by auto
    then show ?thesis using assms(2) in_set_dropD [OF y] by (metis neqE)
  qed
  show ?thesis
    using assms(1) lo hi
    by (auto simp: sorted_wrt_append sorted_wrt_take sorted_wrt_drop intro: order.strict_trans)
qed

lemma vs_insert_spec:
  assumes "vs_inv s"
  shows "vs_inv (snd (vs_insert s x))" "elems (snd (vs_insert s x)) = insert x (elems s)"
    "fst (vs_insert s x) \<longleftrightarrow> x \<notin> elems s"
proof -
  let ?r = "rank (data s) x"
  have "set (take ?r (data s)) \<union> set (drop ?r (data s)) = set (data s)"
    by (metis append_take_drop_id set_append)
  then show "vs_inv (snd (vs_insert s x))" "elems (snd (vs_insert s x)) = insert x (elems s)"
    "fst (vs_insert s x) \<longleftrightarrow> x \<notin> elems s"
    using assms sorted_insert_at_rank [of "data s" x]
    by (auto simp: vs_insert_def vs_inv_def elems_def binary_search_spec)
qed

subsection \<open>Union\<close>

text \<open>
  The reference definition of a merge, by recursion on the lists; the cursor loop is the
  merge of the two suffixes.
\<close>

fun merge :: "'a::linorder list \<Rightarrow> 'a list \<Rightarrow> 'a list" where
  "merge [] ys = ys"
| "merge xs [] = xs"
| "merge (x # xs) (y # ys) =
     (if x < y then x # merge xs (y # ys) else if x = y then x # merge xs ys
      else y # merge (x # xs) ys)"

lemma merge_Nil2 [simp]: "merge xs [] = xs"
  by (cases xs) auto

lemma set_merge [simp]: "set (merge xs ys) = set xs \<union> set ys"
  by (induction xs ys rule: merge.induct) auto

lemma sorted_merge: "sorted_wrt (<) xs \<Longrightarrow> sorted_wrt (<) ys \<Longrightarrow> sorted_wrt (<) (merge xs ys)"
proof (induction xs ys rule: merge.induct)
  case (3 x xs y ys)
  then show ?case by (cases x y rule: linorder_cases) (auto intro: order.strict_trans)
qed auto

lemma union_loop_merge: "union_loop a b i j d = d @ merge (drop i a) (drop j b)"
proof (induction a b i j d rule: union_loop.induct)
  case (1 a b i j d)
  show ?case
  proof (cases "i < length a \<and> j < length b")
    case True
    then have "drop i a = a ! i # drop (i + 1) a" "drop j b = b ! j # drop (j + 1) b"
      by (simp_all add: Cons_nth_drop_Suc)
    then show ?thesis
      using True "1.IH"
      by (cases "a ! i" "b ! j" rule: linorder_cases)
        (auto simp: union_loop.simps [of a b i j d] cmp_def)
  next
    case False
    then have "drop i a = [] \<or> drop j b = []" by auto
    then show ?thesis using False by (auto simp: union_loop.simps [of a b i j d])
  qed
qed

lemma vs_union_spec:
  assumes "vs_inv s" "vs_inv t"
  shows "vs_inv (vs_union s t)" "elems (vs_union s t) = elems s \<union> elems t"
  using assms by (simp_all add: vs_union_def vs_inv_def elems_def union_loop_merge sorted_merge)

subsection \<open>Relative difference\<close>

lemma take_update_below: "k < i \<Longrightarrow> take i (xs[k := v]) = (take i xs)[k := v]"
  by (simp add: take_update_swap)

lemma compact_step:
  assumes "del \<le> idx" "idx < length a"
  shows "take (Suc idx - del) (if del > 0 then a[idx - del := a ! idx] else a)
           = take (idx - del) a @ [a ! idx]"
    "drop (Suc idx) (if del > 0 then a[idx - del := a ! idx] else a) = drop (Suc idx) a"
    "length (if del > 0 then a[idx - del := a ! idx] else a) = length a"
  using assms by (auto simp: Suc_diff_le take_Suc_conv_app_nth)

lemma rel_diff_finish_eq:
  assumes "del \<le> idx" "idx \<le> length buf"
  shows "rel_diff_finish (buf, idx, del) = take (idx - del) buf @ drop idx buf"
proof (cases "idx < length buf \<and> del > 0")
  case True
  have "take (length buf - del) (ptr_copy buf idx (idx - del) (length buf - idx))
      = take (idx - del) buf @ drop idx buf"
    using True assms by (auto simp: ptr_copy_def min_def)
  then show ?thesis using True by (simp add: rel_diff_finish_def)
next
  case False
  then consider "del = 0" | "idx = length buf" using assms by linarith
  then show ?thesis using False by cases (auto simp: rel_diff_finish_def)
qed

lemma filter_notin_skip:
  "y \<notin> set xs \<Longrightarrow> filter (\<lambda>x. x \<noteq> y \<and> x \<notin> A) xs = filter (\<lambda>x. x \<notin> A) xs"
  by (rule filter_cong) auto

lemma filter_in_skip:
  "y \<notin> set xs \<Longrightarrow> filter (\<lambda>x. x = y \<or> x \<in> A) xs = filter (\<lambda>x. x \<in> A) xs"
  by (rule filter_cong) auto

lemma rel_diff_loop_spec:
  assumes "sorted_wrt (<) (drop i a)" "sorted_wrt (<) (drop j b)"
    and "di \<le> i" "dj \<le> j" "i \<le> length a" "j \<le> length b"
  shows "rel_diff_finish (fst (rel_diff_loop a b i di j dj))
           = take (i - di) a @ filter (\<lambda>x. x \<notin> set (drop j b)) (drop i a) \<and>
         rel_diff_finish (snd (rel_diff_loop a b i di j dj))
           = take (j - dj) b @ filter (\<lambda>x. x \<notin> set (drop i a)) (drop j b)"
  using assms
proof (induction a b i di j dj rule: rel_diff_loop.induct)
  case (1 a b i di j dj)
  show ?case
  proof (cases "i < length a \<and> j < length b")
    case True
    then have ij: "i < length a" "j < length b" by auto
    note da = drop_less_Cons [OF "1.prems"(1) ij(1)] and db = drop_less_Cons [OF "1.prems"(2) ij(2)]
    note ca = compact_step [OF "1.prems"(3) ij(1)] and cb = compact_step [OF "1.prems"(4) ij(2)]
    show ?thesis
    proof (cases rule: cmp_cases [of "a ! i" "b ! j"])
      case Less
      let ?a = "if di > 0 then a[i - di := a ! i] else a"
      have "rel_diff_loop a b i di j dj = rel_diff_loop ?a b (i + 1) di j dj"
        using True Less by (simp add: rel_diff_loop.simps [of a b i di j dj] cmp_def)
      moreover have "a ! i \<notin> set (drop j b)"
        using below_drop [OF "1.prems"(2) ij(2) Less(1)] .
      ultimately show ?thesis
        using "1.IH"(1) [OF True Less(2)] "1.prems" ca da(2) ij
        by (simp add: da(1) filter_notin_skip)
    next
      case Equal
      have "rel_diff_loop a b i di j dj = rel_diff_loop a b (i + 1) (di + 1) (j + 1) (dj + 1)"
        using True Equal by (simp add: rel_diff_loop.simps [of a b i di j dj] cmp_def)
      moreover have "a ! i \<notin> set (drop (Suc j) b)" "a ! i \<notin> set (drop (Suc i) a)"
        using da(3) db(3) Equal(1) by (metis order_less_irrefl)+
      ultimately show ?thesis
        using "1.IH"(2) [OF True Equal(2)] "1.prems" da(2) db(2) ij Equal(1)
        by (simp add: da(1) db(1) filter_notin_skip)
    next
      case Greater
      let ?b = "if dj > 0 then b[j - dj := b ! j] else b"
      have "rel_diff_loop a b i di j dj = rel_diff_loop a ?b i di (j + 1) dj"
        using True Greater by (simp add: rel_diff_loop.simps [of a b i di j dj] cmp_def)
      moreover have "b ! j \<notin> set (drop i a)"
        using below_drop [OF "1.prems"(1) ij(1) Greater(1)] .
      ultimately show ?thesis
        using "1.IH"(3) [OF True Greater(2)] "1.prems" cb db(2) ij
        by (simp add: db(1) filter_notin_skip)
    qed
  next
    case False
    then have "rel_diff_loop a b i di j dj = ((a, i, di), (b, j, dj))"
      by (auto simp: rel_diff_loop.simps [of a b i di j dj])
    moreover have "drop i a = [] \<or> drop j b = []" using False by auto
    ultimately show ?thesis using "1.prems" by (auto simp: rel_diff_finish_eq)
  qed
qed

lemma vs_relative_difference_spec:
  assumes "vs_inv s" "vs_inv t"
  shows "vs_relative_difference s t
    = (vs_filter s (\<lambda>x. x \<notin> elems t), vs_filter t (\<lambda>x. x \<notin> elems s))"
  using rel_diff_loop_spec [of 0 "data s" 0 "data t" 0 0] assms
  by (cases s; cases t)
    (simp add: vs_relative_difference_def vs_filter_def vs_inv_def elems_def split_beta)

subsection \<open>Intersection in place\<close>

lemma intersect_keep_spec:
  assumes "sorted_wrt (<) (drop c b)"
  shows "(fst (intersect_keep b x c) \<longleftrightarrow> x \<in> set (drop c b)) \<and> c \<le> snd (intersect_keep b x c) \<and>
    (\<forall>y. x < y \<longrightarrow> y \<in> set (drop c b) \<longleftrightarrow> y \<in> set (drop (snd (intersect_keep b x c)) b))"
  using assms
proof (induction b x c rule: intersect_keep.induct)
  case (1 b x c)
  show ?case
  proof (cases "c < length b")
    case True
    note db = drop_less_Cons [OF "1.prems" True]
    show ?thesis
    proof (cases x "b ! c" rule: linorder_cases)
      case less
      then show ?thesis using True below_drop [OF "1.prems" True less]
        by (simp add: intersect_keep.simps [of b x c])
    next
      case equal
      then show ?thesis using True db(1) by (simp add: intersect_keep.simps [of b "b ! c" c])
    next
      case greater
      then have "intersect_keep b x c = intersect_keep b x (c + 1)"
        using True by (auto simp: intersect_keep.simps [of b x c])
      moreover have "\<not> x < b ! c" "x \<noteq> b ! c" using greater by auto
      ultimately show ?thesis using "1.IH" True db greater by (auto intro: Suc_leD)
    qed
  next
    case False
    then show ?thesis by (simp add: intersect_keep.simps [of b x c])
  qed
qed

lemma sorted_wrt_drop_mono:
  "sorted_wrt P (drop c xs) \<Longrightarrow> c \<le> c' \<Longrightarrow> sorted_wrt P (drop c' xs)"
  by (metis drop_drop le_add_diff_inverse2 sorted_wrt_drop)

lemma intersect_retain_spec:
  assumes "sorted_wrt (<) xs" "sorted_wrt (<) (drop c b)"
  shows "intersect_retain b xs c = filter (\<lambda>x. x \<in> set (drop c b)) xs"
  using assms
proof (induction xs arbitrary: c)
  case (Cons x xs)
  obtain keep c' where k: "intersect_keep b x c = (keep, c')" by fastforce
  have "keep \<longleftrightarrow> x \<in> set (drop c b)" "c \<le> c'"
    and keeps: "\<And>y. x < y \<Longrightarrow> y \<in> set (drop c b) \<longleftrightarrow> y \<in> set (drop c' b)"
    using intersect_keep_spec [OF Cons.prems(2), of x] k by auto
  moreover have "intersect_retain b xs c' = filter (\<lambda>y. y \<in> set (drop c b)) xs"
    using Cons sorted_wrt_drop_mono [OF Cons.prems(2) \<open>c \<le> c'\<close>] keeps
    by (auto cong: filter_cong)
  ultimately show ?case using k by simp
qed simp

lemma vs_intersect_spec:
  assumes "vs_inv s" "vs_inv t"
  shows "vs_intersect s t = vs_filter s (\<lambda>x. x \<in> elems t)"
  using assms
  by (simp add: vs_intersect_def vs_filter_def vs_inv_def elems_def intersect_retain_spec)

subsection \<open>Comparison\<close>

text \<open>
  The order the loop still has to decide on the two suffixes, given what it has seen:
  \<open>prev = Greater\<close> when \<open>a\<close> had an element \<open>b\<close> does not have, \<open>Less\<close> in the opposite case.
\<close>

definition set_cmp :: "'a set \<Rightarrow> 'a set \<Rightarrow> ordering option" where
  "set_cmp A B = (if A = B then Some Equal else if A \<subset> B then Some Less
                  else if B \<subset> A then Some Greater else None)"

definition cmp_after :: "ordering \<Rightarrow> 'a set \<Rightarrow> 'a set \<Rightarrow> ordering option" where
  "cmp_after prev A B = (case prev of Equal \<Rightarrow> set_cmp A B
     | Less \<Rightarrow> (if A \<subseteq> B then Some Less else None)
     | Greater \<Rightarrow> (if B \<subseteq> A then Some Greater else None))"

lemma cmp_after_both: "x \<notin> A \<Longrightarrow> x \<notin> B \<Longrightarrow>
    cmp_after prev (insert x A) (insert x B) = cmp_after prev A B"
  unfolding cmp_after_def set_cmp_def 
  by (cases prev) (auto simp: psubset_eq insert_ident subset_insert)

lemma cmp_after_left: "x \<notin> A \<Longrightarrow> x \<notin> B \<Longrightarrow>
    cmp_after prev (insert x A) B = (if prev = Less then None else cmp_after Greater A B)"
  unfolding cmp_after_def set_cmp_def 
  by (cases prev) (auto simp: psubset_eq insert_ident subset_insert)

lemma cmp_after_right: "x \<notin> A \<Longrightarrow> x \<notin> B \<Longrightarrow>
    cmp_after prev A (insert x B) = (if prev = Greater then None else cmp_after Less A B)"
  unfolding cmp_after_def set_cmp_def 
  by (cases prev) (auto simp: psubset_eq insert_ident subset_insert)

lemma partial_cmp_loop_spec:
  assumes "sorted_wrt (<) (drop i a)" "sorted_wrt (<) (drop j b)" "i \<le> length a" "j \<le> length b"
  shows "partial_cmp_loop a b i j prev = cmp_after prev (set (drop i a)) (set (drop j b))"
  using assms
proof (induction a b i j prev rule: partial_cmp_loop.induct)
  case (1 a b i j prev)
  show ?case
  proof (cases "i < length a \<and> j < length b")
    case True
    then have ij: "i < length a" "j < length b" by auto
    note da = drop_less_Cons [OF "1.prems"(1) ij(1)] and db = drop_less_Cons [OF "1.prems"(2) ij(2)]
    show ?thesis
    proof (cases rule: cmp_cases [of "a ! i" "b ! j"])
      case Less
      have out: "a ! i \<notin> set (drop j b)" "a ! i \<notin> set (drop (Suc i) a)"
        using below_drop [OF "1.prems"(2) ij(2) Less(1)] da(3) by (auto dest: less_imp_neq)
      have "partial_cmp_loop a b i j prev =
          (if prev = Less then None else partial_cmp_loop a b (i + 1) j Greater)"
        using True Less by (cases prev) (simp_all add: partial_cmp_loop.simps [of a b i j] cmp_def)
      moreover have "partial_cmp_loop a b (i + 1) j Greater
          = cmp_after Greater (set (drop (Suc i) a)) (set (drop j b))" if "prev \<noteq> Less"
        using "1.IH" True Less that "1.prems" da(2) by (cases prev) auto
      ultimately show ?thesis using out by (simp add: da(1) cmp_after_left)
    next
      case Equal
      have out: "a ! i \<notin> set (drop (Suc j) b)" "a ! i \<notin> set (drop (Suc i) a)"
        using da(3) db(3) Equal(1) by (metis order_less_irrefl)+
      have "partial_cmp_loop a b i j prev = partial_cmp_loop a b (i + 1) (j + 1) prev"
        using True Equal by (cases prev) (simp_all add: partial_cmp_loop.simps [of a b i j] cmp_def)
      also have "\<dots> = cmp_after prev (set (drop (Suc i) a)) (set (drop (Suc j) b))"
        using "1.IH" True Equal "1.prems" da(2) db(2) by (cases prev) auto
      finally show ?thesis using out Equal(1) by (simp add: da(1) db(1) cmp_after_both)
    next
      case Greater
      have out: "b ! j \<notin> set (drop i a)" "b ! j \<notin> set (drop (Suc j) b)"
        using below_drop [OF "1.prems"(1) ij(1) Greater(1)] db(3) by (auto dest: less_imp_neq)
      have "partial_cmp_loop a b i j prev =
          (if prev = Greater then None else partial_cmp_loop a b i (j + 1) Less)"
        using True Greater by (cases prev) (simp_all add: partial_cmp_loop.simps [of a b i j] cmp_def)
      moreover have "partial_cmp_loop a b i (j + 1) Less
          = cmp_after Less (set (drop i a)) (set (drop (Suc j) b))" if "prev \<noteq> Greater"
        using "1.IH" True Greater that "1.prems" db(2) by (cases prev) auto
      ultimately show ?thesis using out by (simp add: db(1) cmp_after_right)
    qed
  next
    case False
    then consider "i = length a" "j = length b" | "i = length a" "j < length b"
      | "i < length a" "j = length b" using "1.prems"(3,4) by linarith
    then show ?thesis
    proof cases
      case 1
      then show ?thesis
        by (cases prev)
          (simp_all add: partial_cmp_loop.simps [of a b "length a" "length b"] cmp_after_def set_cmp_def)
    next
      case 2
      then have "set (drop j b) \<noteq> {}" by simp
      then show ?thesis using 2
        by (cases prev)
          (auto simp: partial_cmp_loop.simps [of a b "length a" j] cmp_after_def set_cmp_def)
    next
      case 3
      then have "set (drop i a) \<noteq> {}" by simp
      then show ?thesis using 3
        by (cases prev)
          (auto simp: partial_cmp_loop.simps [of a b i "length b"] cmp_after_def set_cmp_def)
    qed
  qed
qed

lemma vs_partial_cmp_spec:
  "vs_inv s \<Longrightarrow> vs_inv t \<Longrightarrow> vs_partial_cmp s t = set_cmp (elems s) (elems t)"
  using partial_cmp_loop_spec [of 0 "data s" 0 "data t" Equal]
  by (simp add: vs_partial_cmp_def vs_inv_def elems_def cmp_after_def)

subsection \<open>The iterators\<close>

lemma difference_inner_spec:
  assumes "sorted_wrt (<) (drop c b)"
  shows "(fst (difference_inner b x c) \<longleftrightarrow> x \<in> set (drop c b)) \<and> c \<le> snd (difference_inner b x c) \<and>
    (\<forall>y. x < y \<longrightarrow> y \<in> set (drop c b) \<longleftrightarrow> y \<in> set (drop (snd (difference_inner b x c)) b))"
proof -
  have "difference_inner b x c = intersect_keep b x c"
  proof (induction b x c rule: intersect_keep.induct)
    case (1 b x c)
    then show ?case
      by (cases "c < length b"; cases x "b ! c" rule: linorder_cases)
        (auto simp: difference_inner.simps [of b _ c] intersect_keep.simps [of b _ c] cmp_def)
  qed
  then show ?thesis using intersect_keep_spec [OF assms] by simp
qed

text \<open>What is still to be produced by a difference or an intersection iterator.\<close>

definition todo_diff :: "'a set_iter \<Rightarrow> 'a list" where
  "todo_diff it = filter (\<lambda>x. x \<notin> set (drop (rhs_cursor it) (data (rhs it))))
     (drop (lhs_cursor it) (data (lhs it)))"

definition todo_inter :: "'a set_iter \<Rightarrow> 'a list" where
  "todo_inter it = filter (\<lambda>x. x \<in> set (drop (rhs_cursor it) (data (rhs it))))
     (drop (lhs_cursor it) (data (lhs it)))"

definition iter_inv :: "'a::linorder set_iter \<Rightarrow> bool" where
  "iter_inv it \<longleftrightarrow> sorted_wrt (<) (drop (lhs_cursor it) (data (lhs it)))
     \<and> sorted_wrt (<) (drop (rhs_cursor it) (data (rhs it)))"

lemma difference_next_spec:
  "iter_inv it \<Longrightarrow> (case difference_next it of
     (None, _) \<Rightarrow> todo_diff it = []
   | (Some x, it') \<Rightarrow> todo_diff it = x # todo_diff it' \<and> iter_inv it')"
proof (induction it rule: difference_next.induct)
  case (1 it)
  show ?case
  proof (cases "lhs_cursor it < length (data (lhs it))")
    case True
    define a b i c where "a = data (lhs it)" "b = data (rhs it)" "i = lhs_cursor it" "c = rhs_cursor it"
    note defs = this
    obtain found c' where k: "difference_inner b (a ! i) c = (found, c')" by fastforce
    have srt: "sorted_wrt (<) (drop i a)" "sorted_wrt (<) (drop c b)" and il: "i < length a"
      using "1.prems" True by (auto simp: iter_inv_def defs)
    note da = drop_less_Cons [OF srt(1) il]
    have inner: "found \<longleftrightarrow> a ! i \<in> set (drop c b)" "c \<le> c'"
      "\<And>y. a ! i < y \<Longrightarrow> y \<in> set (drop c b) \<longleftrightarrow> y \<in> set (drop c' b)"
      using difference_inner_spec [OF srt(2), of "a ! i"] k by auto
    define it' where "it' = it\<lparr>lhs_cursor := i + 1, rhs_cursor := c'\<rparr>"
    have inv': "iter_inv it'"
      using da(2) sorted_wrt_drop_mono [OF srt(2) inner(2)] by (simp add: iter_inv_def it'_def defs)
    have todo: "todo_diff it = (if found then todo_diff it' else a ! i # todo_diff it')"
      using da inner by (auto simp: todo_diff_def it'_def defs [symmetric] cong: filter_cong)
    have nx: "difference_next it = (if found then difference_next it' else (Some (a ! i), it'))"
      using True k by (simp add: difference_next.simps [of it] defs it'_def Let_def)
    show ?thesis
    proof (cases found)
      case f: True
      then show ?thesis
        using "1.IH" [OF _ refl k [symmetric, unfolded defs] refl] True inv' nx todo
        by (auto simp: defs it'_def split: prod.splits option.splits)
    next
      case False
      then show ?thesis using nx todo inv' by simp
    qed
  next
    case False
    then show ?thesis by (simp add: difference_next.simps [of it] todo_diff_def)
  qed
qed

lemma intersection_next_spec:
  "iter_inv it \<Longrightarrow> (case intersection_next it of
     (None, _) \<Rightarrow> todo_inter it = []
   | (Some x, it') \<Rightarrow> todo_inter it = x # todo_inter it' \<and> iter_inv it')"
proof (induction it rule: intersection_next.induct)
  case (1 it)
  define a b i c where "a = data (lhs it)" "b = data (rhs it)" "i = lhs_cursor it" "c = rhs_cursor it"
  note defs = this
  show ?case
  proof (cases "i < length a \<and> c < length b")
    case True
    then have il: "i < length a" and cl: "c < length b" by auto
    have srt: "sorted_wrt (<) (drop i a)" "sorted_wrt (<) (drop c b)"
      using "1.prems" by (auto simp: iter_inv_def defs)
    note da = drop_less_Cons [OF srt(1) il] and db = drop_less_Cons [OF srt(2) cl]
    have guard: "\<not> (lhs_cursor it \<ge> length (data (lhs it)) \<or> rhs_cursor it \<ge> length (data (rhs it)))"
      using True by (auto simp: defs)
    show ?thesis
    proof (cases rule: cmp_cases [of "a ! i" "b ! c"])
      case Less
      let ?it = "it\<lparr>lhs_cursor := lhs_cursor it + 1\<rparr>"
      have "todo_inter it = todo_inter ?it" "iter_inv ?it"
        using below_drop [OF srt(2) cl Less(1)] da srt(2)
        by (simp_all add: todo_inter_def iter_inv_def defs)
      moreover have "intersection_next it = intersection_next ?it"
        using guard Less by (simp add: intersection_next.simps [of it] defs cmp_def)
      ultimately show ?thesis
        using "1.IH"(1) [OF guard refl] Less(1)
        by (auto simp: defs split: prod.splits option.splits)
    next
      case Equal
      have "a ! i \<notin> set (drop (Suc i) a)" using da(3) by (auto dest: less_imp_neq)
      then have "todo_inter it = a ! i # todo_inter
          (it\<lparr>lhs_cursor := lhs_cursor it + 1, rhs_cursor := rhs_cursor it + 1\<rparr>)"
        using da(1) db(1) Equal(1) by (simp add: todo_inter_def defs filter_in_skip)
      then show ?thesis using guard Equal da(2) db(2)
        by (simp add: intersection_next.simps [of it] defs cmp_def iter_inv_def)
    next
      case Greater
      let ?it = "it\<lparr>rhs_cursor := rhs_cursor it + 1\<rparr>"
      have "b ! c \<notin> set (drop i a)" by (rule below_drop [OF srt(1) il Greater(1)])
      then have "todo_inter it = todo_inter ?it" "iter_inv ?it"
        using db srt(1) by (simp_all add: todo_inter_def iter_inv_def defs filter_in_skip)
      moreover have "intersection_next it = intersection_next ?it"
        using guard Greater by (simp add: intersection_next.simps [of it] defs cmp_def)
      ultimately show ?thesis
        using "1.IH"(2) [OF guard refl] Greater(1)
        by (auto simp: defs split: prod.splits option.splits)
    qed
  next
    case False
    then show ?thesis by (auto simp: intersection_next.simps [of it] todo_inter_def defs)
  qed
qed

text \<open>A client of either iterator: collecting it produces what was still to do.\<close>

lemma iter_collect_todo:
  assumes step: "\<And>it. I it \<Longrightarrow> (case nxt it of (None, _) \<Rightarrow> todo it = []
      | (Some x, it') \<Rightarrow> todo it = x # todo it' \<and> I it')"
    and "I it" "length (todo it) < n"
  shows "iter_collect nxt n it = Some (todo it)"
  using assms(2,3)
proof (induction n arbitrary: it)
  case (Suc n)
  then show ?case using step [OF Suc.prems(1)] by (auto split: prod.splits option.splits)
qed simp

lemma vs_difference_collect:
  assumes "vs_inv s" "vs_inv t" "length (data s) < n"
  shows "iter_collect difference_next n (vs_difference s t)
    = Some (filter (\<lambda>x. x \<notin> elems t) (data s))"
proof -
  have "iter_collect difference_next n (vs_difference s t) = Some (todo_diff (vs_difference s t))"
  proof (rule iter_collect_todo [where I = iter_inv, OF difference_next_spec])
    show "iter_inv (vs_difference s t)"
      using assms by (simp add: iter_inv_def vs_difference_def vs_inv_def)
    show "length (todo_diff (vs_difference s t)) < n"
      using assms(3) le_less_trans [OF length_filter_le]
      by (auto simp: todo_diff_def vs_difference_def)
  qed
  then show ?thesis by (simp add: todo_diff_def vs_difference_def elems_def)
qed

lemma vs_intersection_collect:
  assumes "vs_inv s" "vs_inv t" "length (data s) < n"
  shows "iter_collect intersection_next n (vs_intersection s t)
    = Some (filter (\<lambda>x. x \<in> elems t) (data s))"
proof -
  have "iter_collect intersection_next n (vs_intersection s t) = Some (todo_inter (vs_intersection s t))"
  proof (rule iter_collect_todo [where I = iter_inv, OF intersection_next_spec])
    show "iter_inv (vs_intersection s t)"
      using assms by (simp add: iter_inv_def vs_intersection_def vs_inv_def)
    show "length (todo_inter (vs_intersection s t)) < n"
      using assms(3) le_less_trans [OF length_filter_le]
      by (auto simp: todo_inter_def vs_intersection_def)
  qed
  then show ?thesis by (simp add: todo_inter_def vs_intersection_def elems_def)
qed

section \<open>The set interface\<close>

text \<open>
  What the rest of the code relies on when it uses a \<^verbatim>\<open>VecSet\<close>: the operations act on the
  set of elements, keep the invariant, and the representation of a set is unique, so that
  \<^verbatim>\<open>==\<close> and \<^verbatim>\<open>Hash\<close>, derived on the vector, are those of the set.
\<close>

locale set_adt =
  fixes invar :: "'s \<Rightarrow> bool" and to_set :: "'s \<Rightarrow> 'a set" and empty :: 's
    and ins :: "'s \<Rightarrow> 'a \<Rightarrow> bool \<times> 's" and mem :: "'s \<Rightarrow> 'a \<Rightarrow> bool" and un :: "'s \<Rightarrow> 's \<Rightarrow> 's"
  assumes invar_empty: "invar empty" and to_set_empty: "to_set empty = {}"
    and invar_ins: "invar s \<Longrightarrow> invar (snd (ins s x))"
    and to_set_ins: "invar s \<Longrightarrow> to_set (snd (ins s x)) = insert x (to_set s)"
    and mem_iff: "invar s \<Longrightarrow> mem s x \<longleftrightarrow> x \<in> to_set s"
    and invar_un: "invar s \<Longrightarrow> invar t \<Longrightarrow> invar (un s t)"
    and to_set_un: "invar s \<Longrightarrow> invar t \<Longrightarrow> to_set (un s t) = to_set s \<union> to_set t"
    and unique: "invar s \<Longrightarrow> invar t \<Longrightarrow> to_set s = to_set t \<Longrightarrow> s = t"
begin

abbreviation ins_all :: "'a list \<Rightarrow> 's \<Rightarrow> 's" where
  "ins_all xs s \<equiv> fold (\<lambda>x s. snd (ins s x)) xs s"

lemma ins_all_spec: "invar s \<Longrightarrow> invar (ins_all xs s) \<and> to_set (ins_all xs s) = to_set s \<union> set xs"
  by (induction xs arbitrary: s) (auto simp: invar_ins to_set_ins)

lemma eq_ins_all: "invar s \<Longrightarrow> to_set s = set xs \<Longrightarrow> s = ins_all xs empty"
  using ins_all_spec [OF invar_empty, of xs] by (auto simp: to_set_empty intro: unique)

lemma ins_all_un: "invar s \<Longrightarrow> invar t \<Longrightarrow> to_set t = set xs \<Longrightarrow> un s t = ins_all xs s"
  using ins_all_spec [of s xs] by (auto simp: invar_un to_set_un intro: unique)

lemma un_comm: "invar s \<Longrightarrow> invar t \<Longrightarrow> un s t = un t s"
  by (rule unique) (auto simp: invar_un to_set_un)

end

lemma vs_default_spec: "vs_inv vs_default" "elems vs_default = {}"
  by (simp_all add: vs_inv_def elems_def vs_default_def)

interpretation vs: set_adt vs_inv elems vs_default vs_insert vs_contains vs_union
  by unfold_locales (simp_all add: vs_default_spec vs_insert_spec vs_contains_iff vs_union_spec vs_eqI)

section \<open>Properties\<close>

text \<open>C26: \<^verbatim>\<open>relative_difference\<close>, which moves the kept elements inside the two buffers through
  raw pointers, returns exactly the elements of each set that are not in the other, in order
  and without duplicates.
\<close>

theorem relative_difference_correct:
  assumes "vs_inv s" and "vs_inv t" and "vs_relative_difference s t = (l, r)"
  shows "vs_inv l \<and> vs_inv r \<and> elems l = elems s - elems t \<and> elems r = elems t - elems s"
proof -
  have "l = vs_filter s (\<lambda>x. x \<notin> elems t)" "r = vs_filter t (\<lambda>x. x \<notin> elems s)"
    using vs_relative_difference_spec [OF assms(1,2)] assms(3) by simp_all
  then show ?thesis
    using vs_inv_filter [OF assms(1)] vs_inv_filter [OF assms(2)]
    by (simp add: vs_filter_def elems_def set_diff_eq)
qed

theorem relative_difference_correct_witness:
  "elems (fst (vs_relative_difference (vs_new [0, 2, 3, 5::nat]) (vs_new [0, 1, 2, 4, 6]))) = {3, 5} \<and>
   elems (snd (vs_relative_difference (vs_new [0, 2, 3, 5::nat]) (vs_new [0, 1, 2, 4, 6]))) = {1, 4, 6}"
  using relative_difference_correct [OF vs_inv_new vs_inv_new surjective_pairing,
      of "[0, 2, 3, 5::nat]" "[0, 1, 2, 4, 6]"]
  by (simp add: elems_new insert_Diff_if)

text \<open>C27: \<^verbatim>\<open>partial_cmp\<close> decides the inclusion order of the two sets: \<^verbatim>\<open>Equal\<close> for equal sets,
  \<^verbatim>\<open>Less\<close> and \<^verbatim>\<open>Greater\<close> for strict inclusions, \<^verbatim>\<open>None\<close> for incomparable sets.
\<close>

theorem partial_cmp_decides_inclusion:
  assumes "vs_inv s" and "vs_inv t"
  shows "(vs_partial_cmp s t = Some Equal \<longleftrightarrow> elems s = elems t)
    \<and> (vs_partial_cmp s t = Some Less \<longleftrightarrow> elems s \<subset> elems t)
    \<and> (vs_partial_cmp s t = Some Greater \<longleftrightarrow> elems t \<subset> elems s)
    \<and> (vs_partial_cmp s t = None \<longleftrightarrow> \<not> elems s \<subseteq> elems t \<and> \<not> elems t \<subseteq> elems s)"
  using vs_partial_cmp_spec [OF assms] by (auto simp: set_cmp_def)

theorem partial_cmp_decides_inclusion_witness:
  "vs_partial_cmp (vs_new [0::nat]) (vs_new [0, 1]) = Some Less \<and>
   vs_partial_cmp (vs_new [0::nat]) (vs_new [1]) = None"
  using partial_cmp_decides_inclusion [OF vs_inv_new vs_inv_new, of "[0::nat]" "[0, 1]"]
    partial_cmp_decides_inclusion [OF vs_inv_new vs_inv_new, of "[0::nat]" "[1]"]
  by (auto simp: elems_new)

text \<open>the lazy iterators \<^verbatim>\<open>difference\<close> and \<^verbatim>\<open>intersection\<close> and the in-place
  \<^verbatim>\<open>intersect\<close> agree with the set operations: collecting the iterators ends after at most
  \<open>len + 1\<close> calls of \<^verbatim>\<open>next\<close> and yields the elements in increasing order.
\<close>

theorem set_iterators_correct:
  assumes "vs_inv s" and "vs_inv t" and "vs_len s < n"
  shows "(\<exists>xs. iter_collect difference_next n (vs_difference s t) = Some xs
          \<and> sorted_wrt (<) xs \<and> set xs = elems s - elems t)
    \<and> (\<exists>xs. iter_collect intersection_next n (vs_intersection s t) = Some xs
          \<and> sorted_wrt (<) xs \<and> set xs = elems s \<inter> elems t \<and> xs = data (vs_intersect s t))"
  using vs_difference_collect [OF assms(1,2)] vs_intersection_collect [OF assms(1,2)] assms
  by (auto simp: vs_len_def elems_def vs_inv_def sorted_wrt_filter vs_intersect_spec vs_filter_def)

theorem set_iterators_correct_witness:
  "\<exists>xs. iter_collect difference_next 3 (vs_difference (vs_new [1, 2::nat]) (vs_new [2])) = Some xs
      \<and> sorted_wrt (<) xs \<and> set xs = elems (vs_new [1, 2]) - elems (vs_new [2])"
  by (rule set_iterators_correct [OF vs_inv_new vs_inv_new, THEN conjunct1]) (simp add: vs_len_def vs_new_def)

text \<open>C39: \<^verbatim>\<open>VecSet::new\<close> (sort and deduplicate) builds the same vector as inserting the elements
  one by one by binary search, and \<^verbatim>\<open>union\<close> is the insertion of all the elements of the other
  set.
\<close>

theorem new_is_repeated_insert:
  "vs_new xs = fold (\<lambda>x s. snd (vs_insert s x)) xs vs_default
   \<and> vs_union (vs_new ys) (vs_new xs) = fold (\<lambda>x s. snd (vs_insert s x)) xs (vs_new ys)"
  by (rule conjI; rule vs.eq_ins_all vs.ins_all_un; simp add: vs_inv_new elems_new)+

text \<open>\<^verbatim>\<open>insert\<close> reports whether the element was new, keeps the vector strictly increasing,
  and afterwards \<^verbatim>\<open>contains\<close> holds of the element and of the previous ones only.
\<close>

theorem insert_then_contains:
  assumes "vs_inv s" and "vs_insert s x = (added, s')"
  shows "vs_inv s' \<and> (added \<longleftrightarrow> \<not> vs_contains s x)
    \<and> (vs_contains s' y \<longleftrightarrow> y = x \<or> vs_contains s y)
    \<and> vs_len s' = vs_len s + (if added then 1 else 0)"
proof -
  note spec = vs_insert_spec [OF assms(1), of x]
  have res: "vs_inv s'" "added \<longleftrightarrow> \<not> vs_contains s x" "vs_contains s' y \<longleftrightarrow> y = x \<or> vs_contains s y"
    using spec assms by (auto simp: vs_contains_iff)
  have "card (elems s') = card (elems s) + (if added then 1 else 0)"
    using spec assms(2) by (auto simp: elems_def insert_absorb)
  then have "vs_len s' = vs_len s + (if added then 1 else 0)"
    using assms(1) res(1)
    by (auto simp: elems_def vs_inv_def vs_len_def distinct_card sorted_wrt_less_distinct)
  then show ?thesis using res by blast
qed

theorem insert_then_contains_witness:
  "vs_contains (snd (vs_insert (vs_new [1, 4::nat]) 3)) 3 \<and>
   vs_len (snd (vs_insert (vs_new [1, 4::nat]) 3)) = 3"
proof -
  have "vs_len (vs_new [1, 4::nat]) = 2" by (simp add: vs_len_def vs_new_def)
  then show ?thesis
    using insert_then_contains [OF vs_inv_new surjective_pairing, of "[1, 4::nat]" 3 3]
    by (simp add: vs_insert_spec vs_inv_new elems_new)
qed

end
