(* ===== verification/Utils_Lib.thy ===== *)
theory Utils_Lib
  imports Telamon_Prelude
begin

text \<open>
  \<^verbatim>\<open>telamon-utils/src/lib.rs\<close>: the three-valued booleans (\<^verbatim>\<open>Trivalent\<close>) that domains and
  conditions return, and the integer helpers \<^verbatim>\<open>div_ceil\<close> and \<^verbatim>\<open>log2_u32\<close>. The connectives
  are shown to be the exact images of the boolean ones.
\<close>

section \<open>Trivalent\<close>

datatype trivalent = TFalse | TMaybe | TTrue

fun as_bool :: "trivalent \<Rightarrow> bool option" where
  "as_bool TFalse = Some False"
| "as_bool TMaybe = None"
| "as_bool TTrue = Some True"

definition maybe_true :: "trivalent \<Rightarrow> bool" where
  "maybe_true t \<longleftrightarrow> t \<noteq> TFalse"

definition maybe_false :: "trivalent \<Rightarrow> bool" where
  "maybe_false t \<longleftrightarrow> t \<noteq> TTrue"

definition is_true :: "trivalent \<Rightarrow> bool" where
  "is_true t \<longleftrightarrow> t = TTrue"

definition is_false :: "trivalent \<Rightarrow> bool" where
  "is_false t \<longleftrightarrow> t = TFalse"

definition is_maybe :: "trivalent \<Rightarrow> bool" where
  "is_maybe t \<longleftrightarrow> t = TMaybe"

fun tri_and :: "trivalent \<Rightarrow> trivalent \<Rightarrow> trivalent" where
  "tri_and TFalse _ = TFalse"
| "tri_and _ TFalse = TFalse"
| "tri_and TMaybe _ = TMaybe"
| "tri_and _ TMaybe = TMaybe"
| "tri_and TTrue TTrue = TTrue"

fun tri_or :: "trivalent \<Rightarrow> trivalent \<Rightarrow> trivalent" where
  "tri_or TTrue _ = TTrue"
| "tri_or _ TTrue = TTrue"
| "tri_or TMaybe _ = TMaybe"
| "tri_or _ TMaybe = TMaybe"
| "tri_or TFalse TFalse = TFalse"

fun tri_not :: "trivalent \<Rightarrow> trivalent" where
  "tri_not TFalse = TTrue"
| "tri_not TMaybe = TMaybe"
| "tri_not TTrue = TFalse"

text \<open>The booleans a trivalent stands for.\<close>

fun tri_vals :: "trivalent \<Rightarrow> bool set" where
  "tri_vals TFalse = {False}"
| "tri_vals TMaybe = UNIV"
| "tri_vals TTrue = {True}"

lemma tri_vals_iff:
  "True \<in> tri_vals t \<longleftrightarrow> maybe_true t" "False \<in> tri_vals t \<longleftrightarrow> maybe_false t"
  by (cases t; simp add: maybe_true_def maybe_false_def)+

section \<open>Integer helpers\<close>

text \<open>\<^verbatim>\<open>div_ceil\<close> at an unsigned type; the division panics when the divisor is 0.\<close>

definition div_ceil :: "'a::len word \<Rightarrow> 'a word \<Rightarrow> 'a word option" where
  "div_ceil l r = (if r = 0 then None else
     let quo = l div r; rem = l mod r in Some (if rem = 0 then quo else quo + 1))"

definition count_ones :: "'a::len word \<Rightarrow> nat" where
  "count_ones x = length (filter (bit x) [0..<LENGTH('a)])"

definition trailing_zeros :: "'a::len word \<Rightarrow> nat" where
  "trailing_zeros x = length (takeWhile (\<lambda>i. \<not> bit x i) [0..<LENGTH('a)])"

definition leading_zeros :: "'a::len word \<Rightarrow> nat" where
  "leading_zeros x = length (takeWhile (\<lambda>i. \<not> bit x i) (rev [0..<LENGTH('a)]))"

definition log2_u32 :: "u32 \<Rightarrow> nat option" where
  "log2_u32 x = (if count_ones x = 1 then Some (trailing_zeros x) else None)"

lemma trailing_zeros_bit:
  assumes "x \<noteq> (0::'a::len word)"
  shows "trailing_zeros x < LENGTH('a)" "bit x (trailing_zeros x)"
    "\<And>i. i < trailing_zeros x \<Longrightarrow> \<not> bit x i"
proof -
  let ?n = "LENGTH('a)"
  let ?tw = "takeWhile (\<lambda>i. \<not> bit x i) [0..<?n]"
  obtain k where k: "bit x k" using assms by (metis bit_eqI bit_0_eq bot_apply bot_bool_def)
  then have "k < ?n" by (rule bit_imp_le_length)
  then have "?tw \<noteq> [0..<?n]" using k by (auto simp: takeWhile_eq_all_conv)
  then have "length ?tw < length [0..<?n]"
    by (metis linorder_neqE_nat length_takeWhile_le not_less takeWhile_eq_take take_all)
  then show tz: "trailing_zeros x < ?n" by (simp add: trailing_zeros_def)
  show "bit x (trailing_zeros x)"
    using nth_length_takeWhile [of "\<lambda>i. \<not> bit x i" "[0..<?n]"] \<open>length ?tw < length [0..<?n]\<close>
    by (simp add: trailing_zeros_def)
  fix i assume i: "i < trailing_zeros x"
  then have "?tw ! i = i" using tz by (simp add: takeWhile_nth trailing_zeros_def)
  then show "\<not> bit x i"
    using i nth_mem [of i ?tw] set_takeWhileD by (fastforce simp: trailing_zeros_def)
qed

lemma leading_zeros_bit:
  assumes "x \<noteq> (0::'a::len word)"
  shows "leading_zeros x < LENGTH('a)" "bit x (LENGTH('a) - leading_zeros x - 1)"
    "\<And>i. LENGTH('a) - leading_zeros x - 1 < i \<Longrightarrow> \<not> bit x i"
proof -
  let ?n = "LENGTH('a)" and ?r = "rev [0..<LENGTH('a)]"
  let ?tw = "takeWhile (\<lambda>i. \<not> bit x i) ?r"
  obtain k where k: "bit x k" using assms by (metis bit_eqI bit_0_eq bot_apply bot_bool_def)
  then have "k < ?n" by (rule bit_imp_le_length)
  then have "?tw \<noteq> ?r" using k by (auto simp: takeWhile_eq_all_conv)
  then have len: "length ?tw < length ?r"
    by (metis linorder_neqE_nat length_takeWhile_le not_less takeWhile_eq_take take_all)
  then show lz: "leading_zeros x < ?n" by (simp add: leading_zeros_def)
  have "\<not> (\<not> bit x (?r ! length ?tw))" using nth_length_takeWhile [OF len] .
  then show "bit x (?n - leading_zeros x - 1)"
    using lz by (simp add: leading_zeros_def rev_nth)
  fix i assume i: "?n - leading_zeros x - 1 < i"
  show "\<not> bit x i"
  proof (cases "i < ?n")
    case True
    define j where "j = ?n - 1 - i"
    have j: "j < length ?tw" "?r ! j = i"
      using i lz True by (auto simp: j_def leading_zeros_def rev_nth)
    then have "i = ?tw ! j" by (simp add: takeWhile_nth)
    then show ?thesis using j(1) nth_mem [of j ?tw] set_takeWhileD by fastforce
  qed (auto dest: bit_imp_le_length)
qed

lemma count_ones_card: "count_ones x = card {i. bit x i}" for x :: "'a::len word"
proof -
  have "set (filter (bit x) [0..<LENGTH('a)]) = {i. bit x i}"
    by (auto dest: bit_imp_le_length)
  then show ?thesis by (metis count_ones_def distinct_card distinct_filter distinct_upt)
qed

text \<open>The rounded-up quotient on natural numbers, and that the word computation does not wrap.\<close>

lemma nat_div_ceil_least:
  fixes l r :: nat
  assumes "0 < r"
  shows "(LEAST k. l \<le> k * r) = l div r + (if l mod r = 0 then 0 else 1)"
proof (rule Least_equality)
  show "l \<le> (l div r + (if l mod r = 0 then 0 else 1)) * r"
  proof (cases "l mod r = 0")
    case True
    then show ?thesis by (simp add: mod_eq_0_iff_dvd)
  next
    case False
    have "l div r * r + l mod r = l" by (rule div_mult_mod_eq)
    moreover have "l mod r < r" using assms by (rule mod_less_divisor)
    ultimately have "l \<le> l div r * r + r" by linarith
    then show ?thesis using False by simp
  qed
  fix k assume k: "l \<le> k * r"
  show "l div r + (if l mod r = 0 then 0 else 1) \<le> k"
  proof (cases "l mod r = 0")
    case True
    then show ?thesis using div_le_mono [OF k, of r] assms by simp
  next
    case False
    have "l div r < k"
    proof (rule ccontr)
      assume "\<not> l div r < k"
      then have "k * r \<le> l div r * r" by (intro mult_le_mono1) simp
      then show False using k False div_mult_mod_eq [of l r] by linarith
    qed
    then show ?thesis using False by simp
  qed
qed

lemma unat_quot_succ:
  fixes l r :: "'a::len word"
  assumes "unat l mod unat r \<noteq> 0" "r \<noteq> 0"
  shows "unat (l div r + 1) = unat l div unat r + 1"
proof -
  have "0 < unat r" using assms(2) by (simp add: unat_gt_0)
  then have "1 < unat r" using assms(1) by (cases "unat r = 1") auto
  moreover have "0 < unat l" using assms(1) by (cases "unat l = 0") auto
  ultimately have "unat l div unat r < unat l" by simp
  then have "unat l div unat r + 1 < 2 ^ LENGTH('a)" using unsigned_less [of l] by (metis Suc_eq_plus1 Suc_leI order.strict_trans1)
  then show ?thesis by (simp add: unat_word_ariths unat_div)
qed

lemma div_ceil_unat:
  fixes l r :: "'a::len word"
  assumes "r \<noteq> 0"
  shows "\<exists>c. div_ceil l r = Some c \<and> unat c = (LEAST k. unat l \<le> k * unat r)"
proof (cases "l mod r = 0")
  case True
  then have "unat l mod unat r = 0" using unat_mod [of l r] by simp
  then show ?thesis using True assms
    by (simp add: div_ceil_def Let_def nat_div_ceil_least unat_gt_0 unat_div)
next
  case False
  then have "unat l mod unat r \<noteq> 0" using unat_mod [of l r] by (simp add: unat_eq_zero [symmetric])
  then show ?thesis using False assms
    by (simp add: div_ceil_def Let_def nat_div_ceil_least unat_gt_0 unat_quot_succ)
qed

section \<open>Properties\<close>

text \<open>the connectives of \<^verbatim>\<open>Trivalent\<close> are exact: the booleans that \<^verbatim>\<open>a & b\<close>, \<^verbatim>\<open>a | b\<close> and
  \<^verbatim>\<open>!a\<close> may take are exactly the conjunctions, disjunctions and negations of the booleans that
  the operands may take.
\<close>

theorem trivalent_connectives_exact:
  "tri_vals (tri_and a b) = {x \<and> y | x y. x \<in> tri_vals a \<and> y \<in> tri_vals b}
   \<and> tri_vals (tri_or a b) = {x \<or> y | x y. x \<in> tri_vals a \<and> y \<in> tri_vals b}
   \<and> tri_vals (tri_not a) = {\<not> x | x. x \<in> tri_vals a}"
  by (intro conjI; cases a; cases b; auto)

text \<open>\<^verbatim>\<open>div_ceil\<close> is the least integer whose product with the divisor covers the dividend,
  computed without overflow at any width; it fails only on a zero divisor.
\<close>

theorem div_ceil_least:
  fixes l r :: "'a::len word"
  shows "(div_ceil l r = None \<longleftrightarrow> r = 0)
    \<and> (div_ceil l r = Some q \<longleftrightarrow> r \<noteq> 0 \<and> unat q = (LEAST k. unat l \<le> k * unat r))"
proof
  show "div_ceil l r = None \<longleftrightarrow> r = 0" by (simp add: div_ceil_def Let_def)
  show "div_ceil l r = Some q \<longleftrightarrow> r \<noteq> 0 \<and> unat q = (LEAST k. unat l \<le> k * unat r)"
    using div_ceil_unat [of r l] by (cases "r = 0") (auto simp: div_ceil_def word_unat_eq_iff)
qed

text \<open>\<^verbatim>\<open>log2_u32\<close> returns the exponent of an exact power of two and \<^verbatim>\<open>None\<close> on every other
  value, 0 included.
\<close>

theorem log2_u32_exact: "log2_u32 x = Some n \<longleftrightarrow> n < 32 \<and> x = 2 ^ n"
proof
  assume a: "log2_u32 x = Some n"
  then have one: "card {i. bit x i} = 1" and n: "n = trailing_zeros x"
    by (auto simp: log2_u32_def count_ones_card split: if_splits)
  then have "x \<noteq> 0" by auto
  from trailing_zeros_bit [OF this] have tz: "n < 32" "bit x n" by (simp_all add: n)
  obtain m where "{i. bit x i} = {m}" using one by (rule card_1_singletonE)
  then have "{i. bit x i} = {n}" using tz(2) by auto
  then have "bit x i \<longleftrightarrow> i = n" for i by auto
  then have "x = 2 ^ n" using tz(1) by (intro bit_word_eqI) (auto simp: bit_exp_iff)
  then show "n < 32 \<and> x = 2 ^ n" using tz by simp
next
  assume a: "n < 32 \<and> x = 2 ^ n"
  then have b: "bit x i \<longleftrightarrow> i = n" for i by (auto simp: bit_exp_iff)
  then have one: "count_ones x = 1" by (simp add: count_ones_card)
  have "x \<noteq> 0" using b by (metis bit_0_eq bot_apply bot_bool_def)
  then have "bit x (trailing_zeros x)" by (rule trailing_zeros_bit)
  then show "log2_u32 x = Some n" using one b by (simp add: log2_u32_def)
qed

end
