(* ===== verification/Domains.thy ===== *)
theory Domains
  imports Utils_Lib
begin

text \<open>
  The runtime types that \<^verbatim>\<open>telamon-gen\<close> emits in front of every generated search space
  (\<^verbatim>\<open>telamon-gen/src/print/runtime/\<close>): the \<^verbatim>\<open>Domain\<close>, \<^verbatim>\<open>NumSet\<close> and \<^verbatim>\<open>NumDomain\<close> traits and
  their implementations \<^verbatim>\<open>Range\<close>, \<^verbatim>\<open>HalfRange\<close>, \<^verbatim>\<open>NumericSet\<close>, \<^verbatim>\<open>u32\<close> and \<^verbatim>\<open>&[u32]\<close>. A domain
  stands for the set of values a choice can still take; the laws of the traits are locales
  over that set of values, interpreted on each implementation.
\<close>

section \<open>The Domain trait\<close>

text \<open>The provided methods of \<^verbatim>\<open>Domain\<close>, over the required methods of an implementation.\<close>

definition domain_intersects :: "('d \<Rightarrow> bool) \<Rightarrow> ('d \<Rightarrow> 'd \<Rightarrow> 'd) \<Rightarrow> 'd \<Rightarrow> 'd \<Rightarrow> bool" where
  "domain_intersects is_failed restrict self other = (\<not> is_failed (restrict other self))"

definition domain_is :: "('d \<Rightarrow> bool) \<Rightarrow> ('d \<Rightarrow> 'd \<Rightarrow> 'd) \<Rightarrow> 'd \<Rightarrow> 'd \<Rightarrow> trivalent" where
  "domain_is is_failed restrict self other =
     (let other = restrict other self in
      if is_failed other then TFalse else if other = self then TTrue else TMaybe)"

section \<open>Range\<close>

record range =
  rmin :: u32
  rmax :: u32

definition range_ALL :: range where
  "range_ALL = \<lparr>rmin = 0, rmax = u32_max\<rparr>"

definition range_FAILED :: range where
  "range_FAILED = \<lparr>rmin = 1, rmax = 0\<rparr>"

definition range_insert :: "range \<Rightarrow> range \<Rightarrow> range" where
  "range_insert self other =
     \<lparr>rmin = min (rmin self) (rmin other), rmax = max (rmax self) (rmax other)\<rparr>"

definition range_get_diff_add :: "range \<Rightarrow> range \<Rightarrow> range option" where
  "range_get_diff_add self other = do {
     lo \<leftarrow> checked_sub (rmin other) (rmin self);
     hi \<leftarrow> checked_sub (rmax self) (rmax other);
     Some \<lparr>rmin = lo, rmax = hi\<rparr> }"

definition range_apply_diff_add :: "range \<Rightarrow> range \<Rightarrow> range option" where
  "range_apply_diff_add self diff = do {
     lo \<leftarrow> checked_add (rmin self) (rmin diff);
     hi \<leftarrow> checked_sub (rmax self) (rmax diff);
     Some \<lparr>rmin = lo, rmax = hi\<rparr> }"

definition range_get_diff_mul :: "range \<Rightarrow> range \<Rightarrow> range option" where
  "range_get_diff_mul self other = do {
     lo \<leftarrow> checked_div (rmin other) (rmin self);
     hi \<leftarrow> checked_div (rmax self) (rmax other);
     Some \<lparr>rmin = lo, rmax = hi\<rparr> }"

definition range_apply_diff_mul :: "range \<Rightarrow> range \<Rightarrow> range option" where
  "range_apply_diff_mul self diff = do {
     lo \<leftarrow> checked_mul (rmin self) (rmin diff);
     hi \<leftarrow> checked_div (rmax self) (rmax diff);
     Some \<lparr>rmin = lo, rmax = hi\<rparr> }"

definition range_add_add :: "range \<Rightarrow> range \<Rightarrow> range option" where
  "range_add_add self diff = do {
     lo \<leftarrow> checked_add (rmin self) (rmin diff);
     hi \<leftarrow> checked_add (rmax self) (rmax diff);
     Some \<lparr>rmin = lo, rmax = hi\<rparr> }"

definition range_add_mul :: "range \<Rightarrow> range \<Rightarrow> range option" where
  "range_add_mul self diff = do {
     lo \<leftarrow> checked_mul (rmin self) (rmin diff);
     hi \<leftarrow> checked_mul (rmax self) (rmax diff);
     Some \<lparr>rmin = lo, rmax = hi\<rparr> }"

definition range_sub_add :: "range \<Rightarrow> range \<Rightarrow> range option" where
  "range_sub_add self diff = do {
     lo \<leftarrow> checked_sub (rmin self) (rmin diff);
     hi \<leftarrow> checked_sub (rmax self) (rmax diff);
     Some \<lparr>rmin = lo, rmax = hi\<rparr> }"

definition range_sub_mul :: "range \<Rightarrow> range \<Rightarrow> range option" where
  "range_sub_mul self diff = do {
     lo \<leftarrow> checked_div (rmin self) (rmin diff);
     hi \<leftarrow> checked_div (rmax self) (rmax diff);
     Some \<lparr>rmin = lo, rmax = hi\<rparr> }"

definition range_as_fixed :: "range \<Rightarrow> u32 option" where
  "range_as_fixed self = (if rmin self = rmax self then Some (rmin self) else None)"

definition range_is_failed :: "range \<Rightarrow> bool" where
  "range_is_failed self \<longleftrightarrow> rmin self > rmax self"

definition range_is_constrained :: "range \<Rightarrow> bool" where
  "range_is_constrained self \<longleftrightarrow> rmin self = rmax self"

definition range_contains :: "range \<Rightarrow> range \<Rightarrow> bool" where
  "range_contains self other \<longleftrightarrow> rmin self \<le> rmin other \<and> rmax self \<ge> rmax other"

definition range_restrict :: "range \<Rightarrow> range \<Rightarrow> range" where
  "range_restrict self other =
     \<lparr>rmin = max (rmin self) (rmin other), rmax = min (rmax self) (rmax other)\<rparr>"

section \<open>HalfRange\<close>

record half_range =
  hmin :: u32

definition half_ALL :: half_range where
  "half_ALL = \<lparr>hmin = 0\<rparr>"

definition half_insert :: "half_range \<Rightarrow> half_range \<Rightarrow> half_range" where
  "half_insert self other = \<lparr>hmin = min (hmin self) (hmin other)\<rparr>"

definition half_get_diff_add :: "half_range \<Rightarrow> half_range \<Rightarrow> half_range option" where
  "half_get_diff_add self other = do { lo \<leftarrow> checked_sub (hmin other) (hmin self); Some \<lparr>hmin = lo\<rparr> }"

definition half_apply_diff_add :: "half_range \<Rightarrow> half_range \<Rightarrow> half_range option" where
  "half_apply_diff_add self diff = do { lo \<leftarrow> checked_add (hmin self) (hmin diff); Some \<lparr>hmin = lo\<rparr> }"

definition half_get_diff_mul :: "half_range \<Rightarrow> half_range \<Rightarrow> half_range option" where
  "half_get_diff_mul self other = do { lo \<leftarrow> checked_div (hmin other) (hmin self); Some \<lparr>hmin = lo\<rparr> }"

definition half_apply_diff_mul :: "half_range \<Rightarrow> half_range \<Rightarrow> half_range option" where
  "half_apply_diff_mul self diff = do { lo \<leftarrow> checked_mul (hmin self) (hmin diff); Some \<lparr>hmin = lo\<rparr> }"

definition half_add_add :: "half_range \<Rightarrow> half_range \<Rightarrow> half_range option" where
  "half_add_add self diff = do { lo \<leftarrow> checked_add (hmin self) (hmin diff); Some \<lparr>hmin = lo\<rparr> }"

definition half_add_mul :: "half_range \<Rightarrow> half_range \<Rightarrow> half_range option" where
  "half_add_mul self diff = do { lo \<leftarrow> checked_mul (hmin self) (hmin diff); Some \<lparr>hmin = lo\<rparr> }"

definition half_sub_add :: "half_range \<Rightarrow> half_range \<Rightarrow> half_range option" where
  "half_sub_add self diff = do { lo \<leftarrow> checked_sub (hmin self) (hmin diff); Some \<lparr>hmin = lo\<rparr> }"

definition half_sub_mul :: "half_range \<Rightarrow> half_range \<Rightarrow> half_range option" where
  "half_sub_mul self diff = do { lo \<leftarrow> checked_div (hmin self) (hmin diff); Some \<lparr>hmin = lo\<rparr> }"

definition half_is_failed :: "half_range \<Rightarrow> bool" where
  "half_is_failed self \<longleftrightarrow> False"

definition half_is_constrained :: "half_range \<Rightarrow> bool" where
  "half_is_constrained self \<longleftrightarrow> False"

definition half_contains :: "half_range \<Rightarrow> half_range \<Rightarrow> bool" where
  "half_contains self other \<longleftrightarrow> hmin self \<le> hmin other"

definition half_restrict :: "half_range \<Rightarrow> half_range \<Rightarrow> half_range" where
  "half_restrict self other = \<lparr>hmin = max (hmin self) (hmin other)\<rparr>"

section \<open>NumericSet: bit sets over a universe\<close>

record numeric_set =
  enabled_values :: u16

definition ns_FAILED :: numeric_set where
  "ns_FAILED = \<lparr>enabled_values = 0\<rparr>"

definition MAX_LEN :: nat where
  "MAX_LEN = 16"

text \<open>The expressions \<^verbatim>\<open>(1 << len) - 1\<close> and \<^verbatim>\<open>((1 << len) - 1) << start\<close> at type \<^verbatim>\<open>u16\<close>.\<close>

definition low_mask :: "nat \<Rightarrow> u16 option" where
  "low_mask len = do { x \<leftarrow> checked_shl 1 len; checked_sub x 1 }"

definition shifted_mask :: "nat \<Rightarrow> nat \<Rightarrow> u16 option" where
  "shifted_mask len start = do { x \<leftarrow> low_mask len; checked_shl x start }"

definition ns_all :: "u32 list \<Rightarrow> numeric_set option" where
  "ns_all univers = do { x \<leftarrow> low_mask (length univers); Some \<lparr>enabled_values = x\<rparr> }"

definition ns_insert :: "numeric_set \<Rightarrow> numeric_set \<Rightarrow> numeric_set" where
  "ns_insert self other = self\<lparr>enabled_values := enabled_values self OR enabled_values other\<rparr>"

definition ns_list :: "numeric_set \<Rightarrow> numeric_set list" where
  "ns_list self =
     map (\<lambda>x. \<lparr>enabled_values = x\<rparr>)
       (filter (\<lambda>x. enabled_values self AND x \<noteq> 0) (map (\<lambda>x. push_bit x 1) [0..<MAX_LEN]))"

text \<open>The iteration panics at a 17th element of the universe, where \<^verbatim>\<open>1u16 << i\<close> overflows.\<close>

fun ns_list_values_from :: "u16 \<Rightarrow> nat \<Rightarrow> u32 list \<Rightarrow> u32 list option" where
  "ns_list_values_from enabled i [] = Some []"
| "ns_list_values_from enabled i (v # vs) = do {
     x \<leftarrow> checked_shl 1 i;
     rest \<leftarrow> ns_list_values_from enabled (i + 1) vs;
     Some (if x AND enabled \<noteq> 0 then v # rest else rest) }"

definition ns_list_values :: "numeric_set \<Rightarrow> u32 list \<Rightarrow> u32 list option" where
  "ns_list_values self universe = ns_list_values_from (enabled_values self) 0 universe"

definition ns_complement :: "numeric_set \<Rightarrow> u32 list \<Rightarrow> numeric_set option" where
  "ns_complement self universe = do {
     mask \<leftarrow> ns_all universe;
     Some \<lparr>enabled_values = NOT (enabled_values self) AND enabled_values mask\<rparr> }"

definition ns_is_failed :: "numeric_set \<Rightarrow> bool" where
  "ns_is_failed self \<longleftrightarrow> enabled_values self = 0"

definition ns_is_constrained :: "numeric_set \<Rightarrow> bool" where
  "ns_is_constrained self \<longleftrightarrow> count_ones (enabled_values self) = 1"

definition ns_contains :: "numeric_set \<Rightarrow> numeric_set \<Rightarrow> bool" where
  "ns_contains self other \<longleftrightarrow> enabled_values self AND enabled_values other = enabled_values other"

definition ns_restrict :: "numeric_set \<Rightarrow> numeric_set \<Rightarrow> numeric_set" where
  "ns_restrict self other = self\<lparr>enabled_values := enabled_values self AND enabled_values other\<rparr>"

section \<open>The NumSet trait\<close>

text \<open>
  An implementation of \<^verbatim>\<open>NumSet\<close> for \<open>'d\<close> with universe \<open>'u\<close> is the record of its methods.
  The comparisons that no implementation overrides are functions over that record.
\<close>

record ('d, 'u) num_set_ops =
  min_value :: "'d \<Rightarrow> 'u \<Rightarrow> u32 option"
  max_value :: "'d \<Rightarrow> 'u \<Rightarrow> u32 option"
  into_num_set :: "'d \<Rightarrow> 'u \<Rightarrow> u32 list \<Rightarrow> numeric_set option"

text \<open>\<^verbatim>\<open>binary_search(..).unwrap_or_else(|x| x)\<close> and \<^verbatim>\<open>.map(|x| x+1).unwrap_or_else(|x| x)\<close>.\<close>

definition search_pos :: "u32 list \<Rightarrow> u32 \<Rightarrow> nat" where
  "search_pos u v = (case binary_search u v of Inr x \<Rightarrow> x | Inl x \<Rightarrow> x)"

definition search_pos_after :: "u32 list \<Rightarrow> u32 \<Rightarrow> nat" where
  "search_pos_after u v = (case binary_search u v of Inr x \<Rightarrow> x + 1 | Inl x \<Rightarrow> x)"

definition into_num_set_default ::
  "('d \<Rightarrow> 'u \<Rightarrow> u32 option) \<Rightarrow> ('d \<Rightarrow> 'u \<Rightarrow> u32 option) \<Rightarrow> 'd \<Rightarrow> 'u \<Rightarrow> u32 list \<Rightarrow> numeric_set option" where
  "into_num_set_default minv maxv self self_universe new_universe = do {
     lo \<leftarrow> minv self self_universe;
     let start = search_pos new_universe lo;
     hi \<leftarrow> maxv self self_universe;
     let stop = search_pos new_universe hi;
     len \<leftarrow> (if start \<le> stop then Some (stop - start + 1) else None);
     e \<leftarrow> shifted_mask len start;
     Some \<lparr>enabled_values = e\<rparr> }"

definition num_as_constrained :: "('d, 'u) num_set_ops \<Rightarrow> 'd \<Rightarrow> 'u \<Rightarrow> u32 option option" where
  "num_as_constrained ops self u = do {
     value \<leftarrow> min_value ops self u;
     hi \<leftarrow> max_value ops self u;
     Some (if value = hi then Some value else None) }"

definition num_is_lt ::
  "('d, 'u) num_set_ops \<Rightarrow> ('e, 'v) num_set_ops \<Rightarrow> 'd \<Rightarrow> 'u \<Rightarrow> 'e \<Rightarrow> 'v \<Rightarrow> bool option" where
  "num_is_lt ops ops' self u other u' = do {
     a \<leftarrow> max_value ops self u; b \<leftarrow> min_value ops' other u'; Some (a < b) }"

definition num_is_gt ::
  "('d, 'u) num_set_ops \<Rightarrow> ('e, 'v) num_set_ops \<Rightarrow> 'd \<Rightarrow> 'u \<Rightarrow> 'e \<Rightarrow> 'v \<Rightarrow> bool option" where
  "num_is_gt ops ops' self u other u' = do {
     a \<leftarrow> min_value ops self u; b \<leftarrow> max_value ops' other u'; Some (a > b) }"

definition num_is_leq ::
  "('d, 'u) num_set_ops \<Rightarrow> ('e, 'v) num_set_ops \<Rightarrow> 'd \<Rightarrow> 'u \<Rightarrow> 'e \<Rightarrow> 'v \<Rightarrow> bool option" where
  "num_is_leq ops ops' self u other u' = do {
     a \<leftarrow> max_value ops self u; b \<leftarrow> min_value ops' other u'; Some (a \<le> b) }"

definition num_is_geq ::
  "('d, 'u) num_set_ops \<Rightarrow> ('e, 'v) num_set_ops \<Rightarrow> 'd \<Rightarrow> 'u \<Rightarrow> 'e \<Rightarrow> 'v \<Rightarrow> bool option" where
  "num_is_geq ops ops' self u other u' = do {
     a \<leftarrow> min_value ops self u; b \<leftarrow> max_value ops' other u'; Some (a \<ge> b) }"

definition num_is_eq ::
  "('d, 'u) num_set_ops \<Rightarrow> ('e, 'v) num_set_ops \<Rightarrow> 'd \<Rightarrow> 'u \<Rightarrow> 'e \<Rightarrow> 'v \<Rightarrow> bool option" where
  "num_is_eq ops ops' self u other u' = do {
     a \<leftarrow> min_value ops self u; b \<leftarrow> max_value ops' other u';
     if a = b then do { c \<leftarrow> max_value ops self u; d \<leftarrow> min_value ops' other u'; Some (c = d) }
     else Some False }"

definition num_is_neq ::
  "('d, 'u) num_set_ops \<Rightarrow> ('e, 'v) num_set_ops \<Rightarrow> 'd \<Rightarrow> 'u \<Rightarrow> 'e \<Rightarrow> 'v \<Rightarrow> bool option" where
  "num_is_neq ops ops' self u other u' = do {
     a \<leftarrow> min_value ops self u; b \<leftarrow> max_value ops' other u';
     if a > b then Some True
     else do { c \<leftarrow> max_value ops self u; d \<leftarrow> min_value ops' other u'; Some (c < d) } }"

subsection \<open>Range, HalfRange and constants\<close>

definition range_ops :: "(range, unit) num_set_ops" where
  "range_ops = \<lparr>min_value = (\<lambda>d _. Some (rmin d)), max_value = (\<lambda>d _. Some (rmax d)),
     into_num_set = into_num_set_default (\<lambda>d _. Some (rmin d)) (\<lambda>d _. Some (rmax d))\<rparr>"

definition half_ops :: "(half_range, unit) num_set_ops" where
  "half_ops = \<lparr>min_value = (\<lambda>d _. Some (hmin d)), max_value = (\<lambda>_ _. Some u32_max),
     into_num_set = into_num_set_default (\<lambda>d _. Some (hmin d)) (\<lambda>_ _. Some u32_max)\<rparr>"

definition u32_ops :: "(u32, unit) num_set_ops" where
  "u32_ops = \<lparr>min_value = (\<lambda>d _. Some d), max_value = (\<lambda>d _. Some d),
     into_num_set = into_num_set_default (\<lambda>d _. Some d) (\<lambda>d _. Some d)\<rparr>"

subsection \<open>Slices of constants\<close>

definition slice_min :: "u32 list \<Rightarrow> u32" where
  "slice_min self = (if self = [] then 1 else self ! 0)"

definition slice_max :: "u32 list \<Rightarrow> u32" where
  "slice_max self = (if self = [] then 0 else self ! (length self - 1))"

text \<open>The \<^verbatim>\<open>while\<close> of \<^verbatim>\<open>into_num_set\<close>: \<open>None\<close> is \<^verbatim>\<open>break 'values\<close>.\<close>

function slice_advance :: "u32 list \<Rightarrow> u32 \<Rightarrow> nat \<Rightarrow> nat option" where
  "slice_advance universe value idx =
     (if idx \<ge> length universe then None
      else if universe ! idx < value then slice_advance universe value (idx + 1)
      else Some idx)"
  by pat_completeness auto
termination
  by (relation "measure (\<lambda>(u, v, i). length u - i)") auto

declare slice_advance.simps [simp del]

fun slice_into :: "u32 list \<Rightarrow> u32 list \<Rightarrow> nat \<Rightarrow> u16 \<Rightarrow> u16 option" where
  "slice_into universe [] idx enabled = Some enabled"
| "slice_into universe (value # rest) idx enabled =
     (case slice_advance universe value idx of
        None \<Rightarrow> Some enabled
      | Some idx \<Rightarrow>
          if universe ! idx = value then do {
            x \<leftarrow> checked_shl 1 idx;
            slice_into universe rest idx (enabled OR x) }
          else slice_into universe rest idx enabled)"

definition slice_ops :: "(u32 list, unit) num_set_ops" where
  "slice_ops = \<lparr>min_value = (\<lambda>d _. Some (slice_min d)), max_value = (\<lambda>d _. Some (slice_max d)),
     into_num_set = (\<lambda>d _ universe. do {
       e \<leftarrow> slice_into universe d 0 0; Some \<lparr>enabled_values = e\<rparr> })\<rparr>"

subsection \<open>Numeric sets\<close>

definition ns_min_value :: "numeric_set \<Rightarrow> u32 list \<Rightarrow> u32 option" where
  "ns_min_value self universe =
     (if ns_is_failed self then Some 0
      else let i = trailing_zeros (enabled_values self)
           in if i < length universe then Some (universe ! i) else None)"

definition ns_max_value :: "numeric_set \<Rightarrow> u32 list \<Rightarrow> u32 option" where
  "ns_max_value self universe =
     (if ns_is_failed self then Some u32_max
      else let i = MAX_LEN - leading_zeros (enabled_values self) - 1
           in if i < length universe then Some (universe ! i) else None)"

text \<open>The \<^verbatim>\<open>while\<close> of \<^verbatim>\<open>into_num_set\<close>: \<open>Some None\<close> is \<^verbatim>\<open>break 'values\<close>, \<open>None\<close> a shift that
  panics.\<close>

function ns_advance :: "u16 \<Rightarrow> u32 list \<Rightarrow> u32 \<Rightarrow> nat \<Rightarrow> nat option option" where
  "ns_advance enabled universe value self_idx =
     (if self_idx \<ge> length universe then Some None
      else case checked_shl 1 self_idx of None \<Rightarrow> None
        | Some x \<Rightarrow>
          if enabled AND x = 0 \<or> universe ! self_idx < value
          then ns_advance enabled universe value (self_idx + 1)
          else Some (Some self_idx))"
  by pat_completeness auto
termination
  by (relation "measure (\<lambda>(e, u, v, i). length u - i)") auto

declare ns_advance.simps [simp del]

fun ns_into :: "u16 \<Rightarrow> u32 list \<Rightarrow> u32 list \<Rightarrow> nat \<Rightarrow> nat \<Rightarrow> u16 \<Rightarrow> u16 option" where
  "ns_into self universe [] idx self_idx enabled = Some enabled"
| "ns_into self universe (value # rest) idx self_idx enabled =
     (case ns_advance self universe value self_idx of
        None \<Rightarrow> None
      | Some None \<Rightarrow> Some enabled
      | Some (Some self_idx) \<Rightarrow>
          if universe ! self_idx = value then do {
            x \<leftarrow> checked_shl 1 idx;
            ns_into self universe rest (idx + 1) self_idx (enabled OR x) }
          else ns_into self universe rest (idx + 1) self_idx enabled)"

definition ns_into_num_set :: "numeric_set \<Rightarrow> u32 list \<Rightarrow> u32 list \<Rightarrow> numeric_set option" where
  "ns_into_num_set self universe num_set_universe = do {
     e \<leftarrow> ns_into (enabled_values self) universe num_set_universe 0 0 0;
     Some \<lparr>enabled_values = e\<rparr> }"

definition ns_ops :: "(numeric_set, u32 list) num_set_ops" where
  "ns_ops = \<lparr>min_value = ns_min_value, max_value = ns_max_value, into_num_set = ns_into_num_set\<rparr>"

text \<open>\<^verbatim>\<open>NumericSet\<close> overrides \<^verbatim>\<open>is_neq\<close>.\<close>

definition ns_is_neq ::
  "('e, 'v) num_set_ops \<Rightarrow> numeric_set \<Rightarrow> u32 list \<Rightarrow> 'e \<Rightarrow> 'v \<Rightarrow> bool option" where
  "ns_is_neq ops' self u other u' = do {
     a \<leftarrow> ns_min_value self u; b \<leftarrow> max_value ops' other u';
     if a > b then Some True
     else do {
       c \<leftarrow> ns_max_value self u; d \<leftarrow> min_value ops' other u';
       if c < d then Some True
       else do { s \<leftarrow> into_num_set ops' other u' u; Some (ns_is_failed s) } } }"

section \<open>The NumDomain trait\<close>

definition range_new_gt :: "('e, 'v) num_set_ops \<Rightarrow> 'e \<Rightarrow> 'v \<Rightarrow> range option" where
  "range_new_gt ops d u = do {
     v \<leftarrow> min_value ops d u; Some (range_ALL\<lparr>rmin := saturating_add v 1\<rparr>) }"

definition range_new_lt :: "('e, 'v) num_set_ops \<Rightarrow> 'e \<Rightarrow> 'v \<Rightarrow> range option" where
  "range_new_lt ops d u = do {
     v \<leftarrow> max_value ops d u; Some (range_ALL\<lparr>rmax := saturating_sub v 1\<rparr>) }"

definition range_new_geq :: "('e, 'v) num_set_ops \<Rightarrow> 'e \<Rightarrow> 'v \<Rightarrow> range option" where
  "range_new_geq ops d u = do { v \<leftarrow> min_value ops d u; Some (range_ALL\<lparr>rmin := v\<rparr>) }"

definition range_new_leq :: "('e, 'v) num_set_ops \<Rightarrow> 'e \<Rightarrow> 'v \<Rightarrow> range option" where
  "range_new_leq ops d u = do { v \<leftarrow> max_value ops d u; Some (range_ALL\<lparr>rmax := v\<rparr>) }"

definition range_new_eq :: "('e, 'v) num_set_ops \<Rightarrow> 'e \<Rightarrow> 'v \<Rightarrow> range option" where
  "range_new_eq ops d u = do {
     hi \<leftarrow> max_value ops d u; lo \<leftarrow> min_value ops d u; Some \<lparr>rmin = lo, rmax = hi\<rparr> }"

definition half_new_gt :: "('e, 'v) num_set_ops \<Rightarrow> 'e \<Rightarrow> 'v \<Rightarrow> half_range option" where
  "half_new_gt ops d u = do { v \<leftarrow> min_value ops d u; Some \<lparr>hmin = saturating_add v 1\<rparr> }"

definition half_new_lt :: "('e, 'v) num_set_ops \<Rightarrow> 'e \<Rightarrow> 'v \<Rightarrow> half_range option" where
  "half_new_lt ops d u = Some half_ALL"

definition half_new_geq :: "('e, 'v) num_set_ops \<Rightarrow> 'e \<Rightarrow> 'v \<Rightarrow> half_range option" where
  "half_new_geq ops d u = do { v \<leftarrow> min_value ops d u; Some \<lparr>hmin = v\<rparr> }"

definition half_new_leq :: "('e, 'v) num_set_ops \<Rightarrow> 'e \<Rightarrow> 'v \<Rightarrow> half_range option" where
  "half_new_leq ops d u = Some half_ALL"

definition half_new_eq :: "('e, 'v) num_set_ops \<Rightarrow> 'e \<Rightarrow> 'v \<Rightarrow> half_range option" where
  "half_new_eq ops d u = do { v \<leftarrow> min_value ops d u; Some \<lparr>hmin = v\<rparr> }"

definition ns_new_gt :: "('e, 'v) num_set_ops \<Rightarrow> u32 list \<Rightarrow> 'e \<Rightarrow> 'v \<Rightarrow> numeric_set option" where
  "ns_new_gt ops universe d u = do {
     v \<leftarrow> min_value ops d u;
     let start = search_pos_after universe v;
     e \<leftarrow> shifted_mask (length universe - start) start;
     Some \<lparr>enabled_values = e\<rparr> }"

definition ns_new_lt :: "('e, 'v) num_set_ops \<Rightarrow> u32 list \<Rightarrow> 'e \<Rightarrow> 'v \<Rightarrow> numeric_set option" where
  "ns_new_lt ops universe d u = do {
     v \<leftarrow> max_value ops d u;
     e \<leftarrow> low_mask (search_pos universe v);
     Some \<lparr>enabled_values = e\<rparr> }"

definition ns_new_geq :: "('e, 'v) num_set_ops \<Rightarrow> u32 list \<Rightarrow> 'e \<Rightarrow> 'v \<Rightarrow> numeric_set option" where
  "ns_new_geq ops universe d u = do {
     v \<leftarrow> min_value ops d u;
     let start = search_pos universe v;
     e \<leftarrow> shifted_mask (length universe - start) start;
     Some \<lparr>enabled_values = e\<rparr> }"

definition ns_new_leq :: "('e, 'v) num_set_ops \<Rightarrow> u32 list \<Rightarrow> 'e \<Rightarrow> 'v \<Rightarrow> numeric_set option" where
  "ns_new_leq ops universe d u = do {
     v \<leftarrow> max_value ops d u;
     e \<leftarrow> low_mask (search_pos_after universe v);
     Some \<lparr>enabled_values = e\<rparr> }"

definition ns_new_eq :: "('e, 'v) num_set_ops \<Rightarrow> u32 list \<Rightarrow> 'e \<Rightarrow> 'v \<Rightarrow> numeric_set option" where
  "ns_new_eq ops universe d u = into_num_set ops d u universe"

end
