(* ===== verification/Domain_Laws.thy ===== *)
theory Domain_Laws
  imports Domains
begin

text \<open>
  The laws of the runtime domains. \<open>domain_laws\<close> is the contract of the \<^verbatim>\<open>Domain\<close> trait and
  \<open>num_set\<close> that of \<^verbatim>\<open>NumSet\<close>, each relative to the set of values a domain stands for. Both
  are interpreted on every implementation, and the facts about the provided methods
  (\<^verbatim>\<open>intersects\<close>, \<^verbatim>\<open>is\<close>, the comparisons) are proved once, inside the locales.
\<close>

section \<open>The contract of Domain\<close>

locale domain_laws =
  fixes gamma :: "'d \<Rightarrow> 'v set" and is_failed :: "'d \<Rightarrow> bool" and is_constrained :: "'d \<Rightarrow> bool"
    and contains :: "'d \<Rightarrow> 'd \<Rightarrow> bool" and restrict :: "'d \<Rightarrow> 'd \<Rightarrow> 'd"
  assumes failed_iff: "is_failed d \<longleftrightarrow> gamma d = {}"
    and constrained_single: "is_constrained d \<Longrightarrow> \<exists>v. gamma d = {v}"
    and contains_iff: "gamma e \<noteq> {} \<Longrightarrow> contains d e \<longleftrightarrow> gamma e \<subseteq> gamma d"
    and restrict_inter: "gamma (restrict d e) = gamma d \<inter> gamma e"
    and canonical: "gamma d = gamma e \<Longrightarrow> gamma d \<noteq> {} \<Longrightarrow> d = e"
begin

lemma intersects_iff: "domain_intersects is_failed restrict d e \<longleftrightarrow> gamma d \<inter> gamma e \<noteq> {}"
  by (auto simp: domain_intersects_def failed_iff restrict_inter)

lemma restrict_eq_iff: "gamma d \<noteq> {} \<Longrightarrow> restrict e d = d \<longleftrightarrow> gamma d \<subseteq> gamma e"
proof
  assume "restrict e d = d"
  then show "gamma d \<subseteq> gamma e" using restrict_inter [of e d] by auto
next
  assume "gamma d \<noteq> {}" "gamma d \<subseteq> gamma e"
  then show "restrict e d = d"
    using canonical [of d "restrict e d"] restrict_inter [of e d] by (simp add: inf.absorb2)
qed

lemma is_exact:
  "domain_is is_failed restrict d e =
     (if gamma d \<inter> gamma e = {} then TFalse else if gamma d \<subseteq> gamma e then TTrue else TMaybe)"
  using restrict_eq_iff [of d e]
  by (auto simp: domain_is_def failed_iff restrict_inter Let_def)

lemma restrict_contained: "gamma (restrict d e) \<noteq> {} \<Longrightarrow> contains d (restrict d e)"
  by (simp add: contains_iff) (simp add: restrict_inter)

end

subsection \<open>Range and HalfRange\<close>

definition range_vals :: "range \<Rightarrow> u32 set" where
  "range_vals d = {rmin d..rmax d}"

definition half_vals :: "half_range \<Rightarrow> u32 set" where
  "half_vals d = {hmin d..}"

interpretation rg: domain_laws range_vals range_is_failed range_is_constrained range_contains range_restrict
proof unfold_locales
  fix d e :: range
  show "range_is_failed d \<longleftrightarrow> range_vals d = {}"
    by (auto simp: range_is_failed_def range_vals_def)
  show "range_is_constrained d \<Longrightarrow> \<exists>v. range_vals d = {v}"
    by (auto simp: range_is_constrained_def range_vals_def)
  show "range_vals e \<noteq> {} \<Longrightarrow> range_contains d e \<longleftrightarrow> range_vals e \<subseteq> range_vals d"
    by (auto simp: range_contains_def range_vals_def)
  show "range_vals (range_restrict d e) = range_vals d \<inter> range_vals e"
    by (auto simp: range_restrict_def range_vals_def)
  show "range_vals d = range_vals e \<Longrightarrow> range_vals d \<noteq> {} \<Longrightarrow> d = e"
    by (cases d; cases e) (simp add: range_vals_def Icc_eq_Icc)
qed

interpretation hr: domain_laws half_vals half_is_failed half_is_constrained half_contains half_restrict
proof unfold_locales
  fix d e :: half_range
  show "half_is_failed d \<longleftrightarrow> half_vals d = {}"
    by (auto simp: half_is_failed_def half_vals_def)
  show "half_is_constrained d \<Longrightarrow> \<exists>v. half_vals d = {v}"
    by (auto simp: half_is_constrained_def)
  show "half_vals e \<noteq> {} \<Longrightarrow> half_contains d e \<longleftrightarrow> half_vals e \<subseteq> half_vals d"
    by (auto simp: half_contains_def half_vals_def)
  show "half_vals (half_restrict d e) = half_vals d \<inter> half_vals e"
    by (auto simp: half_restrict_def half_vals_def)
  show "half_vals d = half_vals e \<Longrightarrow> half_vals d \<noteq> {} \<Longrightarrow> d = e"
    by (cases d; cases e) (auto simp: half_vals_def)
qed

subsection \<open>NumericSet\<close>

text \<open>The positions of the universe that are enabled.\<close>

definition ns_bits :: "numeric_set \<Rightarrow> nat set" where
  "ns_bits s = {i. bit (enabled_values s) i}"

lemma and_absorb_iff: "a AND b = b \<longleftrightarrow> (\<forall>n. bit b n \<longrightarrow> bit a n)" for a b :: "'a::len word"
proof
  assume "a AND b = b"
  then have "bit (a AND b) n = bit b n" for n by simp
  then show "\<forall>n. bit b n \<longrightarrow> bit a n" unfolding bit_and_iff by blast
qed (auto intro: bit_word_eqI simp: bit_and_iff)

interpretation nsb: domain_laws ns_bits ns_is_failed ns_is_constrained ns_contains ns_restrict
proof unfold_locales
  fix d e :: numeric_set
  show "ns_is_failed d \<longleftrightarrow> ns_bits d = {}"
    by (auto simp: ns_is_failed_def ns_bits_def) (metis bit_eqI bit_0_eq bot_apply bot_bool_def)
  show "ns_is_constrained d \<Longrightarrow> \<exists>v. ns_bits d = {v}"
    by (auto simp: ns_is_constrained_def ns_bits_def count_ones_card card_1_singleton_iff)
  show "ns_bits e \<noteq> {} \<Longrightarrow> ns_contains d e \<longleftrightarrow> ns_bits e \<subseteq> ns_bits d"
    by (auto simp: ns_contains_def ns_bits_def and_absorb_iff)
  show "ns_bits (ns_restrict d e) = ns_bits d \<inter> ns_bits e"
    by (auto simp: ns_restrict_def ns_bits_def bit_and_iff)
  show "ns_bits d = ns_bits e \<Longrightarrow> ns_bits d \<noteq> {} \<Longrightarrow> d = e"
    by (cases d; cases e) (auto simp: ns_bits_def set_eq_iff intro: bit_word_eqI)
qed

section \<open>The contract of NumSet\<close>

text \<open>
  \<open>valid\<close> says which values are well formed for a universe; on these the bounds are defined,
  bound all values and are reached when there is a value.
\<close>

locale num_set =
  fixes ops :: "('d, 'u) num_set_ops" and valid :: "'d \<Rightarrow> 'u \<Rightarrow> bool" and gamma :: "'d \<Rightarrow> 'u \<Rightarrow> u32 set"
  assumes min_law: "valid d u \<Longrightarrow>
      \<exists>m. min_value ops d u = Some m \<and> (\<forall>v\<in>gamma d u. m \<le> v) \<and> (gamma d u \<noteq> {} \<longrightarrow> m \<in> gamma d u)"
    and max_law: "valid d u \<Longrightarrow>
      \<exists>m. max_value ops d u = Some m \<and> (\<forall>v\<in>gamma d u. v \<le> m) \<and> (gamma d u \<noteq> {} \<longrightarrow> m \<in> gamma d u)"
begin

lemma min_valueE:
  assumes "valid d u"
  obtains m where "min_value ops d u = Some m" "\<And>v. v \<in> gamma d u \<Longrightarrow> m \<le> v"
    "gamma d u \<noteq> {} \<Longrightarrow> m \<in> gamma d u"
  using min_law [OF assms] by blast

lemma max_valueE:
  assumes "valid d u"
  obtains m where "max_value ops d u = Some m" "\<And>v. v \<in> gamma d u \<Longrightarrow> v \<le> m"
    "gamma d u \<noteq> {} \<Longrightarrow> m \<in> gamma d u"
  using max_law [OF assms] by blast

end

text \<open>
  What a comparison method answers: on non-empty domains \<open>true\<close> exactly when every pair of
  values is in the relation; the answer \<open>true\<close> is sound on all domains.
\<close>

definition decides :: "bool option \<Rightarrow> (u32 \<Rightarrow> u32 \<Rightarrow> bool) \<Rightarrow> u32 set \<Rightarrow> u32 set \<Rightarrow> bool" where
  "decides r R A B \<longleftrightarrow> (\<exists>b. r = Some b \<and> (b \<longrightarrow> (\<forall>x\<in>A. \<forall>y\<in>B. R x y))
     \<and> (A \<noteq> {} \<longrightarrow> B \<noteq> {} \<longrightarrow> (\<forall>x\<in>A. \<forall>y\<in>B. R x y) \<longrightarrow> b))"

text \<open>Two number sets and the comparison methods between them.\<close>

locale num_set_pair = l: num_set ops valid gamma + r: num_set ops' valid' gamma'
  for ops :: "('d, 'u) num_set_ops" and valid gamma
    and ops' :: "('e, 'v) num_set_ops" and valid' gamma'
begin

lemma lt_decides:
  assumes "valid d u" "valid' e w"
  shows "decides (num_is_lt ops ops' d u e w) (<) (gamma d u) (gamma' e w)"
    "decides (num_is_leq ops ops' d u e w) (\<le>) (gamma d u) (gamma' e w)"
proof -
  obtain a b where "max_value ops d u = Some a" "min_value ops' e w = Some b"
    "\<And>x. x \<in> gamma d u \<Longrightarrow> x \<le> a" "\<And>y. y \<in> gamma' e w \<Longrightarrow> b \<le> y"
    "gamma d u \<noteq> {} \<Longrightarrow> a \<in> gamma d u" "gamma' e w \<noteq> {} \<Longrightarrow> b \<in> gamma' e w"
    using l.max_valueE [OF assms(1)] r.min_valueE [OF assms(2)] by metis
  then show "decides (num_is_lt ops ops' d u e w) (<) (gamma d u) (gamma' e w)"
    "decides (num_is_leq ops ops' d u e w) (\<le>) (gamma d u) (gamma' e w)"
    unfolding decides_def num_is_lt_def num_is_leq_def
    by auto (meson order.strict_trans1 order.strict_trans2 order.trans)+
qed

lemma gt_decides:
  assumes "valid d u" "valid' e w"
  shows "decides (num_is_gt ops ops' d u e w) (>) (gamma d u) (gamma' e w)"
    "decides (num_is_geq ops ops' d u e w) (\<ge>) (gamma d u) (gamma' e w)"
proof -
  obtain a b where "min_value ops d u = Some a" "max_value ops' e w = Some b"
    "\<And>x. x \<in> gamma d u \<Longrightarrow> a \<le> x" "\<And>y. y \<in> gamma' e w \<Longrightarrow> y \<le> b"
    "gamma d u \<noteq> {} \<Longrightarrow> a \<in> gamma d u" "gamma' e w \<noteq> {} \<Longrightarrow> b \<in> gamma' e w"
    using l.min_valueE [OF assms(1)] r.max_valueE [OF assms(2)] by metis
  then show "decides (num_is_gt ops ops' d u e w) (>) (gamma d u) (gamma' e w)"
    "decides (num_is_geq ops ops' d u e w) (\<ge>) (gamma d u) (gamma' e w)"
    unfolding decides_def num_is_gt_def num_is_geq_def
    by auto (meson order.strict_trans1 order.strict_trans2 order.trans)+
qed

lemma eq_decides:
  assumes "valid d u" "valid' e w"
  shows "decides (num_is_eq ops ops' d u e w) (=) (gamma d u) (gamma' e w)"
proof -
  obtain a b where ab: "min_value ops d u = Some a" "max_value ops' e w = Some b"
    "\<And>x. x \<in> gamma d u \<Longrightarrow> a \<le> x" "\<And>y. y \<in> gamma' e w \<Longrightarrow> y \<le> b"
    "gamma d u \<noteq> {} \<Longrightarrow> a \<in> gamma d u" "gamma' e w \<noteq> {} \<Longrightarrow> b \<in> gamma' e w"
    using l.min_valueE [OF assms(1)] r.max_valueE [OF assms(2)] by metis
  obtain c f where cf: "max_value ops d u = Some c" "min_value ops' e w = Some f"
    "\<And>x. x \<in> gamma d u \<Longrightarrow> x \<le> c" "\<And>y. y \<in> gamma' e w \<Longrightarrow> f \<le> y"
    "gamma d u \<noteq> {} \<Longrightarrow> c \<in> gamma d u" "gamma' e w \<noteq> {} \<Longrightarrow> f \<in> gamma' e w"
    using l.max_valueE [OF assms(1)] r.min_valueE [OF assms(2)] by metis
  have same: "x = y" if "a = b" "c = f" "x \<in> gamma d u" "y \<in> gamma' e w" for x y
  proof (rule order_antisym)
    show "x \<le> y" using that(2) cf(3) [OF that(3)] cf(4) [OF that(4)] by simp
    show "y \<le> x" using that(1) ab(3) [OF that(3)] ab(4) [OF that(4)] by simp
  qed
  have "num_is_eq ops ops' d u e w = Some (a = b \<and> c = f)"
    using ab(1,2) cf(1,2) by (simp add: num_is_eq_def)
  moreover have "a = b \<and> c = f"
    if "gamma d u \<noteq> {}" "gamma' e w \<noteq> {}" "\<forall>x\<in>gamma d u. \<forall>y\<in>gamma' e w. x = y"
    using that(3) ab(5) [OF that(1)] ab(6) [OF that(2)] cf(5) [OF that(1)] cf(6) [OF that(2)] by blast
  ultimately show ?thesis using same unfolding decides_def by blast
qed

text \<open>\<^verbatim>\<open>is_neq\<close> only compares the bounds: it is sound, and misses gaps in a domain.\<close>

lemma neq_sound:
  assumes "valid d u" "valid' e w"
  shows "\<exists>b. num_is_neq ops ops' d u e w = Some b \<and> (b \<longrightarrow> gamma d u \<inter> gamma' e w = {})"
proof -
  obtain a b where ab: "min_value ops d u = Some a" "max_value ops' e w = Some b"
    "\<And>x. x \<in> gamma d u \<Longrightarrow> a \<le> x" "\<And>y. y \<in> gamma' e w \<Longrightarrow> y \<le> b"
    using l.min_valueE [OF assms(1)] r.max_valueE [OF assms(2)] by metis
  obtain c f where cf: "max_value ops d u = Some c" "min_value ops' e w = Some f"
    "\<And>x. x \<in> gamma d u \<Longrightarrow> x \<le> c" "\<And>y. y \<in> gamma' e w \<Longrightarrow> f \<le> y"
    using l.max_valueE [OF assms(1)] r.min_valueE [OF assms(2)] by metis
  have "gamma d u \<inter> gamma' e w = {}" if "b < a \<or> c < f"
  proof (intro equals0I)
    fix v assume "v \<in> gamma d u \<inter> gamma' e w"
    then have "a \<le> v" "v \<le> b" "v \<le> c" "f \<le> v" using ab(3,4) cf(3,4) by simp_all
    then have "a \<le> b" "f \<le> c" by (auto intro: order.trans)
    then show False using that by auto
  qed
  then show ?thesis using ab(1,2) cf(1,2) by (auto simp: num_is_neq_def)
qed

end

subsection \<open>Implementations\<close>

definition slice_valid :: "u32 list \<Rightarrow> unit \<Rightarrow> bool" where
  "slice_valid d _ \<longleftrightarrow> sorted_wrt (<) d"

definition ns_valid :: "numeric_set \<Rightarrow> u32 list \<Rightarrow> bool" where
  "ns_valid s u \<longleftrightarrow> sorted_wrt (<) u \<and> length u \<le> MAX_LEN \<and> (\<forall>i\<in>ns_bits s. i < length u)"

definition ns_vals :: "numeric_set \<Rightarrow> u32 list \<Rightarrow> u32 set" where
  "ns_vals s u = {u ! i | i. i < length u \<and> i \<in> ns_bits s}"

interpretation rgn: num_set range_ops "\<lambda>_ _. True" "\<lambda>d _. range_vals d"
  by unfold_locales (auto simp: range_ops_def range_vals_def)

interpretation hrn: num_set half_ops "\<lambda>_ _. True" "\<lambda>d _. half_vals d"
  by unfold_locales (auto simp: half_ops_def half_vals_def)

interpretation u32n: num_set u32_ops "\<lambda>_ _. True" "\<lambda>d _. {d}"
  by unfold_locales (auto simp: u32_ops_def)

lemma sorted_bounds:
  fixes xs :: "'a::linorder list"
  assumes "sorted_wrt (<) xs" "i < length xs" "j < length xs" "i \<le> j"
  shows "xs ! i \<le> xs ! j"
  using sorted_wrt_nth_less [OF assms(1)] assms by (cases "i = j") (auto simp: less_imp_le)

interpretation sln: num_set slice_ops slice_valid "\<lambda>d _. set d"
proof unfold_locales
  fix d :: "u32 list" and u :: unit
  assume "slice_valid d u"
  then have srt: "sorted_wrt (<) d" by (simp add: slice_valid_def)
  show "\<exists>m. min_value slice_ops d u = Some m \<and> (\<forall>v\<in>set d. m \<le> v) \<and> (set d \<noteq> {} \<longrightarrow> m \<in> set d)"
    using sorted_bounds [OF srt, of 0] by (auto simp: slice_ops_def slice_min_def in_set_conv_nth)
  show "\<exists>m. max_value slice_ops d u = Some m \<and> (\<forall>v\<in>set d. v \<le> m) \<and> (set d \<noteq> {} \<longrightarrow> m \<in> set d)"
    using sorted_bounds [OF srt, of _ "length d - 1"] last_in_set [of d]
    by (auto simp: slice_ops_def slice_max_def in_set_conv_nth last_conv_nth)
qed

interpretation nsn: num_set ns_ops ns_valid ns_vals
proof unfold_locales
  fix s :: numeric_set and u :: "u32 list"
  assume "ns_valid s u"
  then have srt: "sorted_wrt (<) u" and len: "length u \<le> 16"
    and bits: "\<And>i. bit (enabled_values s) i \<Longrightarrow> i < length u"
    by (auto simp: ns_valid_def MAX_LEN_def ns_bits_def)
  let ?e = "enabled_values s"
  have empty: "ns_vals s u = {}" if "?e = 0" using that by (simp add: ns_vals_def ns_bits_def)
  show "\<exists>m. min_value ns_ops s u = Some m \<and> (\<forall>v\<in>ns_vals s u. m \<le> v)
      \<and> (ns_vals s u \<noteq> {} \<longrightarrow> m \<in> ns_vals s u)"
  proof (cases "?e = 0")
    case False
    note tz = trailing_zeros_bit [OF this]
    have "u ! trailing_zeros ?e \<le> u ! i" if "bit ?e i" for i
      using sorted_bounds [OF srt] bits that tz(2,3) by (meson not_le_imp_less)
    then show ?thesis using False tz(2) bits
      by (auto simp: ns_ops_def ns_min_value_def ns_is_failed_def ns_vals_def ns_bits_def)
  qed (simp add: ns_ops_def ns_min_value_def ns_is_failed_def empty)
  show "\<exists>m. max_value ns_ops s u = Some m \<and> (\<forall>v\<in>ns_vals s u. v \<le> m)
      \<and> (ns_vals s u \<noteq> {} \<longrightarrow> m \<in> ns_vals s u)"
  proof (cases "?e = 0")
    case False
    note lz = leading_zeros_bit [OF this, simplified]
    have "u ! i \<le> u ! (15 - leading_zeros ?e)" if "bit ?e i" for i
      using sorted_bounds [OF srt] bits that lz(2,3) by (metis not_le_imp_less)
    then show ?thesis using False lz(2) bits
      by (auto simp: ns_ops_def ns_max_value_def ns_is_failed_def ns_vals_def ns_bits_def MAX_LEN_def)
  qed (simp add: ns_ops_def ns_max_value_def ns_is_failed_def empty)
qed

section \<open>Masks and positions\<close>

lemma low_mask_eq: "low_mask len = (if len < 16 then Some (mask len) else None)"
proof -
  have "(2::u16) ^ len \<noteq> 0" if "len < 16"
    using that by (simp add: exp_eq_zero_iff)
  then have "1 \<le> (2::u16) ^ len" if "len < 16"
    using that by (simp add: word_le_nat_alt Suc_le_eq unat_gt_0)
  then show ?thesis by (simp add: low_mask_def checked_shl_def checked_sub_def mask_eq_exp_minus_1)
qed

lemma shifted_mask_eq:
  "shifted_mask len start = (if len < 16 \<and> start < 16 then Some (push_bit start (mask len)) else None)"
  by (simp add: shifted_mask_def low_mask_eq checked_shl_def)

lemma bits_low_mask: "ns_bits \<lparr>enabled_values = mask len\<rparr> = {i. i < len \<and> i < 16}"
  by (auto simp: ns_bits_def bit_mask_iff)

lemma bits_shifted_mask:
  "ns_bits \<lparr>enabled_values = push_bit start (mask len)\<rparr> = {i. start \<le> i \<and> i < start + len \<and> i < 16}"
  by (auto simp: ns_bits_def bit_push_bit_iff bit_mask_iff)

lemma search_pos_iff:
  assumes "sorted_wrt (<) u" "j < length u"
  shows "j < search_pos u v \<longleftrightarrow> u ! j < v" "j < search_pos_after u v \<longleftrightarrow> u ! j \<le> v"
proof -
  show lt: "j < search_pos u v \<longleftrightarrow> u ! j < v"
    using assms by (simp add: search_pos_def binary_search_spec rank_nth)
  show "j < search_pos_after u v \<longleftrightarrow> u ! j \<le> v"
  proof (cases "v \<in> set u")
    case True
    then have "j = rank u v \<longleftrightarrow> u ! j = v"
      using rank_mem [OF assms(1) True] assms nth_eq_iff_index_eq [OF sorted_wrt_less_distinct] by metis
    then show ?thesis
      using assms True by (auto simp: search_pos_after_def binary_search_spec rank_nth less_Suc_eq le_less)
  next
    case False
    then have "u ! j \<noteq> v" using assms(2) nth_mem by blast
    then show ?thesis
      using assms False by (auto simp: search_pos_after_def binary_search_spec rank_nth le_less)
  qed
qed

lemma search_pos_le [simp]:
  assumes "sorted_wrt (<) u"
  shows "search_pos u v \<le> length u" "search_pos_after u v \<le> length u"
  using rank_mem(1) [OF assms, of v] rank_le [of u v]
  by (auto simp: search_pos_def search_pos_after_def binary_search_spec [OF assms])

lemma ns_vals_intro:
  assumes "\<And>i. i < length u \<Longrightarrow> i \<in> ns_bits s \<longleftrightarrow> P (u ! i)"
  shows "ns_vals s u = {x \<in> set u. P x}"
  using assms by (auto simp: ns_vals_def in_set_conv_nth)

text \<open>The four order constructors, as functions of the bound they read.\<close>

lemma upper_mask:
  assumes "sorted_wrt (<) u" "length u < 16" "pos \<le> length u"
  shows "\<exists>e. shifted_mask (length u - pos) pos = Some e \<and> ns_valid \<lparr>enabled_values = e\<rparr> u
    \<and> (\<forall>i<length u. i \<in> ns_bits \<lparr>enabled_values = e\<rparr> \<longleftrightarrow> pos \<le> i)"
  using assms by (auto simp: shifted_mask_eq ns_valid_def bits_shifted_mask MAX_LEN_def)

lemma lower_mask:
  assumes "sorted_wrt (<) u" "length u < 16" "pos \<le> length u"
  shows "\<exists>e. low_mask pos = Some e \<and> ns_valid \<lparr>enabled_values = e\<rparr> u
    \<and> (\<forall>i<length u. i \<in> ns_bits \<lparr>enabled_values = e\<rparr> \<longleftrightarrow> i < pos)"
  using assms by (auto simp: low_mask_eq ns_valid_def bits_low_mask MAX_LEN_def)

context num_set
begin

lemma ex_less: "valid d w \<Longrightarrow> gamma d w \<noteq> {} \<Longrightarrow> min_value ops d w = Some v \<Longrightarrow>
    (\<exists>y\<in>gamma d w. y < x) \<longleftrightarrow> v < x"
  using min_law [of d w] by (metis option.inject order.strict_trans1)

lemma ex_le: "valid d w \<Longrightarrow> gamma d w \<noteq> {} \<Longrightarrow> min_value ops d w = Some v \<Longrightarrow>
    (\<exists>y\<in>gamma d w. y \<le> x) \<longleftrightarrow> v \<le> x"
  using min_law [of d w] by (metis option.inject order.trans)

lemma ex_greater: "valid d w \<Longrightarrow> gamma d w \<noteq> {} \<Longrightarrow> max_value ops d w = Some v \<Longrightarrow>
    (\<exists>y\<in>gamma d w. x < y) \<longleftrightarrow> x < v"
  using max_law [of d w] by (metis option.inject order.strict_trans2)

lemma ex_ge: "valid d w \<Longrightarrow> gamma d w \<noteq> {} \<Longrightarrow> max_value ops d w = Some v \<Longrightarrow>
    (\<exists>y\<in>gamma d w. x \<le> y) \<longleftrightarrow> x \<le> v"
  using max_law [of d w] by (metis option.inject order.trans)

lemma ns_new_gt_exact:
  assumes "valid d w" "gamma d w \<noteq> {}" "sorted_wrt (<) u" "length u < 16"
  shows "\<exists>s. ns_new_gt ops u d w = Some s \<and> ns_valid s u \<and> ns_vals s u = {x \<in> set u. \<exists>y\<in>gamma d w. y < x}"
proof -
  obtain v where v: "min_value ops d w = Some v" using min_law [OF assms(1)] by blast
  obtain e where e: "shifted_mask (length u - search_pos_after u v) (search_pos_after u v) = Some e"
    "ns_valid \<lparr>enabled_values = e\<rparr> u"
    "\<And>i. i < length u \<Longrightarrow> i \<in> ns_bits \<lparr>enabled_values = e\<rparr> \<longleftrightarrow> \<not> u ! i \<le> v"
    using upper_mask [OF assms(3,4) search_pos_le(2) [OF assms(3)], of v]
    by (auto simp: search_pos_iff(2) [OF assms(3), symmetric] not_less)
  then have "ns_vals \<lparr>enabled_values = e\<rparr> u = {x \<in> set u. v < x}"
    by (intro ns_vals_intro) auto
  then show ?thesis using v e by (simp add: ns_new_gt_def ex_less [OF assms(1,2) v])
qed

lemma ns_new_geq_exact:
  assumes "valid d w" "gamma d w \<noteq> {}" "sorted_wrt (<) u" "length u < 16"
  shows "\<exists>s. ns_new_geq ops u d w = Some s \<and> ns_valid s u \<and> ns_vals s u = {x \<in> set u. \<exists>y\<in>gamma d w. y \<le> x}"
proof -
  obtain v where v: "min_value ops d w = Some v" using min_law [OF assms(1)] by blast
  obtain e where e: "shifted_mask (length u - search_pos u v) (search_pos u v) = Some e"
    "ns_valid \<lparr>enabled_values = e\<rparr> u"
    "\<And>i. i < length u \<Longrightarrow> i \<in> ns_bits \<lparr>enabled_values = e\<rparr> \<longleftrightarrow> \<not> u ! i < v"
    using upper_mask [OF assms(3,4) search_pos_le(1) [OF assms(3)], of v]
    by (auto simp: search_pos_iff(1) [OF assms(3), symmetric] not_less)
  then have "ns_vals \<lparr>enabled_values = e\<rparr> u = {x \<in> set u. v \<le> x}"
    by (intro ns_vals_intro) auto
  then show ?thesis using v e by (simp add: ns_new_geq_def ex_le [OF assms(1,2) v])
qed

lemma ns_new_lt_exact:
  assumes "valid d w" "gamma d w \<noteq> {}" "sorted_wrt (<) u" "length u < 16"
  shows "\<exists>s. ns_new_lt ops u d w = Some s \<and> ns_valid s u \<and> ns_vals s u = {x \<in> set u. \<exists>y\<in>gamma d w. x < y}"
proof -
  obtain v where v: "max_value ops d w = Some v" using max_law [OF assms(1)] by blast
  obtain e where e: "low_mask (search_pos u v) = Some e" "ns_valid \<lparr>enabled_values = e\<rparr> u"
    "\<And>i. i < length u \<Longrightarrow> i \<in> ns_bits \<lparr>enabled_values = e\<rparr> \<longleftrightarrow> u ! i < v"
    using lower_mask [OF assms(3,4) search_pos_le(1) [OF assms(3)], of v]
    by (auto simp: search_pos_iff(1) [OF assms(3), symmetric])
  then have "ns_vals \<lparr>enabled_values = e\<rparr> u = {x \<in> set u. x < v}"
    by (intro ns_vals_intro) auto
  then show ?thesis using v e by (simp add: ns_new_lt_def ex_greater [OF assms(1,2) v])
qed

lemma ns_new_leq_exact:
  assumes "valid d w" "gamma d w \<noteq> {}" "sorted_wrt (<) u" "length u < 16"
  shows "\<exists>s. ns_new_leq ops u d w = Some s \<and> ns_valid s u \<and> ns_vals s u = {x \<in> set u. \<exists>y\<in>gamma d w. x \<le> y}"
proof -
  obtain v where v: "max_value ops d w = Some v" using max_law [OF assms(1)] by blast
  obtain e where e: "low_mask (search_pos_after u v) = Some e" "ns_valid \<lparr>enabled_values = e\<rparr> u"
    "\<And>i. i < length u \<Longrightarrow> i \<in> ns_bits \<lparr>enabled_values = e\<rparr> \<longleftrightarrow> u ! i \<le> v"
    using lower_mask [OF assms(3,4) search_pos_le(2) [OF assms(3)], of v]
    by (auto simp: search_pos_iff(2) [OF assms(3), symmetric])
  then have "ns_vals \<lparr>enabled_values = e\<rparr> u = {x \<in> set u. x \<le> v}"
    by (intro ns_vals_intro) auto
  then show ?thesis using v e by (simp add: ns_new_leq_def ex_ge [OF assms(1,2) v])
qed

end

end
