(* ===== verification/Domain_Conversions.thy ===== *)
theory Domain_Conversions
  imports Domain_Laws
begin

text \<open>
  Conversions of a domain to a bit set over another universe (\<^verbatim>\<open>NumSet::into_num_set\<close>), the
  listing of a bit set and the increments of counters (\<^verbatim>\<open>get_diff\<close>, \<^verbatim>\<open>apply_diff\<close>). The two
  merging loops are exact; the default method, that reads positions off the bounds, is a
  covering of the values from below and from above.
\<close>

lemma checked_shl_1_u16: "n < 16 \<Longrightarrow> checked_shl (1::u16) n = Some (2 ^ n)"
  by (simp add: checked_shl_def)

lemma bit_enable: "n < 16 \<Longrightarrow> bit (e OR 2 ^ n) i \<longleftrightarrow> bit e i \<or> i = n" for e :: u16
  by (auto simp: bit_or_iff bit_exp_iff)

section \<open>Slices\<close>

lemma slice_advance_spec:
  "case slice_advance u v i of
     None \<Rightarrow> \<forall>j. i \<le> j \<longrightarrow> j < length u \<longrightarrow> u ! j < v
   | Some k \<Rightarrow> i \<le> k \<and> k < length u \<and> \<not> u ! k < v \<and> (\<forall>j. i \<le> j \<longrightarrow> j < k \<longrightarrow> u ! j < v)"
proof (induction u v i rule: slice_advance.induct)
  case (1 u v i)
  show ?case
  proof (cases "i < length u \<and> u ! i < v")
    case True
    moreover have "i \<le> j \<longleftrightarrow> i = j \<or> Suc i \<le> j" for j by auto
    ultimately show ?thesis
      using 1 by (subst slice_advance.simps) (auto split: option.splits)
  next
    case False
    then show ?thesis by (subst slice_advance.simps) auto
  qed
qed

lemma slice_into_spec:
  assumes "sorted_wrt (<) u" "length u \<le> 16" "sorted_wrt (<) vs"
    "\<forall>j<idx. j < length u \<longrightarrow> (\<forall>v\<in>set vs. u ! j < v)"
  shows "\<exists>e'. slice_into u vs idx e = Some e'
    \<and> (\<forall>i. bit e' i \<longleftrightarrow> bit e i \<or> i < length u \<and> u ! i \<in> set vs)"
  using assms(3,4)
proof (induction vs arbitrary: idx e)
  case (Cons v vs)
  note adv = slice_advance_spec [where u = u and v = v and i = idx]
  show ?case
  proof (cases "slice_advance u v idx")
    case None
    then have "u ! j < w" if "j < length u" "w \<in> set (v # vs)" for j w
      using adv that Cons.prems order.strict_trans [of "u ! j" v w] by (cases "j < idx") auto
    then show ?thesis using None by (auto dest: less_imp_neq)
  next
    case (Some k)
    then have k: "k < length u" "v \<le> u ! k" and below: "\<And>j. j < k \<Longrightarrow> u ! j < v"
      using adv Cons.prems by (auto simp: not_less) (metis not_less)
    have pos: "i < length u \<Longrightarrow> u ! i = v \<Longrightarrow> i = k" for i
      using below [of i] k sorted_wrt_nth_less [OF assms(1), of k i]
      by (cases i k rule: linorder_cases) auto
    have inv: "\<forall>j<k. j < length u \<longrightarrow> (\<forall>w\<in>set vs. u ! j < w)"
      using below Cons.prems(1) by (auto intro: order.strict_trans [of _ v])
    show ?thesis
    proof (cases "u ! k = v")
      case True
      have "slice_into u (v # vs) idx e = slice_into u vs k (e OR 2 ^ k)"
        using Some True k assms(2) by (simp add: checked_shl_1_u16)
      moreover have "bit (e OR 2 ^ k) i \<longleftrightarrow> bit e i \<or> i < length u \<and> u ! i = v" for i
        using bit_enable [of k e i] less_le_trans [OF k(1) assms(2)] k(1) True pos by blast
      ultimately show ?thesis
        using Cons.IH [OF _ inv, of "e OR 2 ^ k"] Cons.prems(1) by auto
    next
      case False
      then show ?thesis using Some pos Cons.IH [OF _ inv, of e] Cons.prems(1) k by auto
    qed
  qed
qed simp

lemma slice_into_num_set_exact:
  assumes "slice_valid d w" "sorted_wrt (<) u" "length u \<le> MAX_LEN"
  shows "\<exists>s. into_num_set slice_ops d w u = Some s \<and> ns_valid s u \<and> ns_vals s u = set u \<inter> set d"
proof -
  have "\<exists>e'. slice_into u d 0 0 = Some e' \<and> (\<forall>i. bit e' i \<longleftrightarrow> i < length u \<and> u ! i \<in> set d)"
    using slice_into_spec [of u d 0 0] assms by (simp add: slice_valid_def MAX_LEN_def)
  then obtain e where e: "slice_into u d 0 0 = Some e" "\<And>i. bit e i \<longleftrightarrow> i < length u \<and> u ! i \<in> set d"
    by blast
  then have "ns_vals \<lparr>enabled_values = e\<rparr> u = set u \<inter> set d"
    by (subst ns_vals_intro [where P = "\<lambda>x. x \<in> set d"]) (auto simp: ns_bits_def)
  then show ?thesis
    using e assms by (auto simp: slice_ops_def ns_valid_def ns_bits_def)
qed

section \<open>Bit sets\<close>

lemma ns_advance_spec:
  assumes "length u \<le> 16"
  shows "case ns_advance e u v i of
     None \<Rightarrow> False
   | Some None \<Rightarrow> \<forall>j. i \<le> j \<longrightarrow> j < length u \<longrightarrow> bit e j \<longrightarrow> u ! j < v
   | Some (Some k) \<Rightarrow> i \<le> k \<and> k < length u \<and> bit e k \<and> \<not> u ! k < v
       \<and> (\<forall>j. i \<le> j \<longrightarrow> j < k \<longrightarrow> bit e j \<longrightarrow> u ! j < v)"
  using assms
proof (induction e u v i rule: ns_advance.induct)
  case (1 e u v i)
  have nz: "e AND 2 ^ i = 0 \<longleftrightarrow> \<not> bit e i" by (simp add: and_exp_eq_0_iff_not_bit)
  show ?case
  proof (cases "i < length u \<and> (\<not> bit e i \<or> u ! i < v)")
    case True
    have "i \<le> j \<longleftrightarrow> i = j \<or> Suc i \<le> j" for j by auto
    moreover have "ns_advance e u v i = ns_advance e u v (Suc i)"
      using True 1(2) nz by (subst ns_advance.simps) (auto simp: checked_shl_def)
    moreover have "checked_shl (1::u16) i = Some (2 ^ i)" using True 1(2) by (simp add: checked_shl_def)
    ultimately show ?thesis
      using 1(1) [of "2 ^ i"] True 1(2) nz
      by (fastforce split: option.splits)
  next
    case False
    then show ?thesis using 1(2) nz by (subst ns_advance.simps) (auto simp: checked_shl_def)
  qed
qed

lemma ns_into_spec:
  assumes "sorted_wrt (<) u" "length u \<le> 16"
  shows "sorted_wrt (<) t \<Longrightarrow> idx + length t \<le> 16 \<Longrightarrow>
    \<forall>j. j < sidx \<longrightarrow> j < length u \<longrightarrow> bit e j \<longrightarrow> (\<forall>v\<in>set t. u ! j < v) \<Longrightarrow>
    \<exists>e'. ns_into e u t idx sidx en = Some e'
      \<and> (\<forall>i. bit e' i \<longleftrightarrow> bit en i
           \<or> idx \<le> i \<and> i < idx + length t \<and> t ! (i - idx) \<in> ns_vals \<lparr>enabled_values = e\<rparr> u)"
proof (induction t arbitrary: idx sidx en)
  case (Cons v t)
  note adv = ns_advance_spec [OF assms(2), where e = e and v = v and i = sidx]
  let ?vals = "ns_vals \<lparr>enabled_values = e\<rparr> u"
  have split: "idx \<le> i \<and> i < idx + length (v # t) \<and> (v # t) ! (i - idx) \<in> ?vals \<longleftrightarrow>
      i = idx \<and> v \<in> ?vals \<or> Suc idx \<le> i \<and> i < Suc idx + length t \<and> t ! (i - Suc idx) \<in> ?vals" for i
    by (auto simp: Suc_le_eq nth_Cons')
  consider "ns_advance e u v sidx = Some None" | k where "ns_advance e u v sidx = Some (Some k)"
    using adv by (auto split: option.splits)
  then show ?case
  proof cases
    case 1
    have "u ! j < w" if "j < length u" "bit e j" "w \<in> set (v # t)" for j w
      using adv that Cons.prems 1 order.strict_trans [of "u ! j" v w] by (cases "j < sidx") auto
    then have "w \<notin> ?vals" if "w \<in> set (v # t)" for w
      using that by (fastforce simp: ns_vals_def ns_bits_def)
    moreover have "(v # t) ! (i - idx) \<in> set (v # t)" if "idx \<le> i" "i < idx + length (v # t)" for i
      using that by (intro nth_mem) simp
    ultimately show ?thesis using 1 by auto
  next
    case (2 k)
    then have k: "k < length u" "bit e k" "v \<le> u ! k" and below: "\<And>j. j < k \<Longrightarrow> bit e j \<Longrightarrow> u ! j < v"
      using adv Cons.prems by (auto simp: not_less) (metis not_less)
    have inv: "\<forall>j<k. j < length u \<longrightarrow> bit e j \<longrightarrow> (\<forall>w\<in>set t. u ! j < w)"
      using below Cons.prems(1) by (auto intro: order.strict_trans)
    have at: "i = k" if "i < length u" "bit e i" "u ! i = v" for i
      using below [of i] k that sorted_wrt_nth_less [OF assms(1), of k i]
      by (cases i k rule: linorder_cases) auto
    have vals: "w \<in> ?vals \<longleftrightarrow> (\<exists>i. i < length u \<and> bit e i \<and> u ! i = w)" for w
      by (auto simp: ns_vals_def ns_bits_def)
    have mem: "v \<in> ?vals \<longleftrightarrow> u ! k = v"
      using at k(1,2) vals by blast
    have prems: "sorted_wrt (<) t" "Suc idx + length t \<le> 16" using Cons.prems by simp_all
    show ?thesis
    proof (cases "u ! k = v")
      case True
      have "ns_into e u (v # t) idx sidx en = ns_into e u t (Suc idx) k (en OR 2 ^ idx)"
        using 2 True prems(2) by (simp add: checked_shl_1_u16)
      moreover have "bit (en OR 2 ^ idx) i \<longleftrightarrow> bit en i \<or> i = idx" for i
        using bit_enable prems(2) by simp
      ultimately show ?thesis
        unfolding split using Cons.IH [OF prems inv, of "en OR 2 ^ idx"] mem True by auto
    next
      case False
      then have "ns_into e u (v # t) idx sidx en = ns_into e u t (Suc idx) k en"
        using 2 by simp
      then show ?thesis unfolding split using Cons.IH [OF prems inv, of en] mem False by simp
    qed
  qed
qed auto

lemma ns_into_num_set_exact:
  assumes "ns_valid d w" "sorted_wrt (<) u" "length u \<le> MAX_LEN"
  shows "\<exists>s. into_num_set ns_ops d w u = Some s \<and> ns_valid s u \<and> ns_vals s u = set u \<inter> ns_vals d w"
proof -
  have "\<exists>e'. ns_into (enabled_values d) w u 0 0 0 = Some e'
      \<and> (\<forall>i. bit e' i \<longleftrightarrow> i < length u \<and> u ! i \<in> ns_vals d w)"
    using ns_into_spec [of w u 0 0 "enabled_values d" 0] assms
    by (cases d) (simp add: ns_valid_def MAX_LEN_def)
  then obtain e where e: "ns_into (enabled_values d) w u 0 0 0 = Some e"
    "\<And>i. bit e i \<longleftrightarrow> i < length u \<and> u ! i \<in> ns_vals d w"
    by blast
  then have "ns_vals \<lparr>enabled_values = e\<rparr> u = set u \<inter> ns_vals d w"
    by (subst ns_vals_intro [where P = "\<lambda>x. x \<in> ns_vals d w"]) (auto simp: ns_bits_def)
  then show ?thesis
    using e assms by (auto simp: ns_ops_def ns_into_num_set_def ns_valid_def ns_bits_def)
qed

section \<open>The default conversion\<close>

lemma search_pos_rank: "sorted_wrt (<) u \<Longrightarrow> search_pos u v = rank u v"
  by (simp add: search_pos_def binary_search_spec)

lemma rank_mono: "lo \<le> hi \<Longrightarrow> rank u lo \<le> rank u hi" for lo hi :: "'a::linorder"
  unfolding rank_def by (induction u) (auto intro: order.strict_trans2)

lemma into_num_set_default_spec:
  assumes "sorted_wrt (<) u" "length u < 15"
    "minv d w = Some lo" "maxv d w = Some hi" "lo \<le> hi"
  shows "\<exists>s. into_num_set_default minv maxv d w u = Some s
    \<and> ns_bits s = {i. rank u lo \<le> i \<and> i \<le> rank u hi}"
proof -
  have le: "rank u lo \<le> rank u hi" "rank u hi < 15"
    using rank_mono [OF assms(5), of u] le_less_trans [OF rank_le assms(2), of hi] by simp_all
  let ?e = "push_bit (rank u lo) (mask (rank u hi - rank u lo + 1)) :: u16"
  have "shifted_mask (rank u hi - rank u lo + 1) (rank u lo) = Some ?e"
    using le by (simp add: shifted_mask_eq)
  then have "into_num_set_default minv maxv d w u = Some \<lparr>enabled_values = ?e\<rparr>"
    using assms le by (simp add: into_num_set_default_def search_pos_rank Let_def)
  moreover have "ns_bits \<lparr>enabled_values = ?e\<rparr> = {i. rank u lo \<le> i \<and> i \<le> rank u hi}"
    using le by (auto simp: bits_shifted_mask)
  ultimately show ?thesis by blast
qed

section \<open>Comparisons between implementations\<close>

interpretation ns_rg: num_set_pair ns_ops ns_valid ns_vals range_ops "\<lambda>_ _. True" "\<lambda>d _. range_vals d"
  ..

interpretation ns_ns: num_set_pair ns_ops ns_valid ns_vals ns_ops ns_valid ns_vals
  ..

interpretation rg_sl: num_set_pair range_ops "\<lambda>_ _. True" "\<lambda>d _. range_vals d" slice_ops slice_valid "\<lambda>d _. set d"
  ..

section \<open>Properties\<close>

text \<open>On \<^verbatim>\<open>Range\<close>, \<^verbatim>\<open>HalfRange\<close> and \<^verbatim>\<open>NumericSet\<close>, \<^verbatim>\<open>Domain::is\<close> answers exactly how the values
  still allowed by one domain relate to those of another: \<^verbatim>\<open>False\<close> when they are disjoint,
  \<^verbatim>\<open>True\<close> when the first is non-empty and included in the second, \<^verbatim>\<open>Maybe\<close> otherwise.\<close>

theorem domain_is_exact:
  "(\<forall>d e. domain_is range_is_failed range_restrict d e =
      (if range_vals d \<inter> range_vals e = {} then TFalse
       else if range_vals d \<subseteq> range_vals e then TTrue else TMaybe))
   \<and> (\<forall>d e. domain_is half_is_failed half_restrict d e =
      (if half_vals d \<inter> half_vals e = {} then TFalse
       else if half_vals d \<subseteq> half_vals e then TTrue else TMaybe))
   \<and> (\<forall>d e. domain_is ns_is_failed ns_restrict d e =
      (if ns_bits d \<inter> ns_bits e = {} then TFalse
       else if ns_bits d \<subseteq> ns_bits e then TTrue else TMaybe))"
  using rg.is_exact hr.is_exact nsb.is_exact by blast

text \<open>The comparisons of a \<^verbatim>\<open>NumericSet\<close> with a \<^verbatim>\<open>Range\<close>, which read only the bounds, never panic on a
  well-formed set and decide the comparison of all pairs of values; \<^verbatim>\<open>is_neq\<close> answers true
  only for disjoint domains.\<close>

theorem numeric_comparisons_decide:
  assumes "ns_valid d u"
  shows "decides (num_is_lt ns_ops range_ops d u e ()) (<) (ns_vals d u) (range_vals e)
    \<and> decides (num_is_leq ns_ops range_ops d u e ()) (\<le>) (ns_vals d u) (range_vals e)
    \<and> decides (num_is_gt ns_ops range_ops d u e ()) (>) (ns_vals d u) (range_vals e)
    \<and> decides (num_is_geq ns_ops range_ops d u e ()) (\<ge>) (ns_vals d u) (range_vals e)
    \<and> decides (num_is_eq ns_ops range_ops d u e ()) (=) (ns_vals d u) (range_vals e)
    \<and> (\<exists>b. num_is_neq ns_ops range_ops d u e () = Some b
         \<and> (b \<longrightarrow> ns_vals d u \<inter> range_vals e = {}))"
  using ns_rg.lt_decides [OF assms TrueI] ns_rg.gt_decides [OF assms TrueI]
    ns_rg.eq_decides [OF assms TrueI] ns_rg.neq_sound [OF assms TrueI] by blast

lemma ns_valid_5: "ns_valid \<lparr>enabled_values = 5\<rparr> [1, 4, 9]"
proof -
  have "i < 3" if "bit (5::u16) i" for i
  proof (rule ccontr)
    assume "\<not> i < 3"
    then have "5 < (2::int) ^ i" using power_increasing [of 3 i "2::int"] by simp
    then have "\<not> bit (5::int) i" by (simp add: bit_iff_odd)
    then show False using that bit_uint_iff [of "5::u16" i] by simp
  qed
  then show ?thesis by (simp add: ns_valid_def ns_bits_def MAX_LEN_def numeral_3_eq_3)
qed

theorem numeric_comparisons_decide_witness:
  "decides (num_is_lt ns_ops range_ops \<lparr>enabled_values = 5\<rparr> [1, 4, 9] \<lparr>rmin = 10, rmax = 20\<rparr> ())
     (<) (ns_vals \<lparr>enabled_values = 5\<rparr> [1, 4, 9]) (range_vals \<lparr>rmin = 10, rmax = 20\<rparr>)"
  using numeric_comparisons_decide [OF ns_valid_5] by blast

text \<open>C38: The constructors of \<^verbatim>\<open>NumericSet\<close> from an order constraint are exact for universes of fewer than 16
  values: \<^verbatim>\<open>new_gt(universe, d)\<close> enables precisely the values of the universe that exceed some
  value of \<^verbatim>\<open>d\<close>, and \<^verbatim>\<open>new_geq\<close>, \<^verbatim>\<open>new_lt\<close>, \<^verbatim>\<open>new_leq\<close> likewise.\<close>

theorem ns_order_constructors_exact:
  assumes "ns_valid d w" "ns_vals d w \<noteq> {}" "sorted_wrt (<) u" "length u < 16"
  shows "(\<exists>s. ns_new_gt ns_ops u d w = Some s \<and> ns_valid s u
      \<and> ns_vals s u = {x \<in> set u. \<exists>y\<in>ns_vals d w. y < x})
    \<and> (\<exists>s. ns_new_geq ns_ops u d w = Some s \<and> ns_valid s u
      \<and> ns_vals s u = {x \<in> set u. \<exists>y\<in>ns_vals d w. y \<le> x})
    \<and> (\<exists>s. ns_new_lt ns_ops u d w = Some s \<and> ns_valid s u
      \<and> ns_vals s u = {x \<in> set u. \<exists>y\<in>ns_vals d w. x < y})
    \<and> (\<exists>s. ns_new_leq ns_ops u d w = Some s \<and> ns_valid s u
      \<and> ns_vals s u = {x \<in> set u. \<exists>y\<in>ns_vals d w. x \<le> y})"
  using nsn.ns_new_gt_exact [OF assms] nsn.ns_new_geq_exact [OF assms]
    nsn.ns_new_lt_exact [OF assms] nsn.ns_new_leq_exact [OF assms] by blast

lemma ns_vals_5: "1 \<in> ns_vals \<lparr>enabled_values = 5\<rparr> [1, 4, 9]"
  by (auto simp: ns_vals_def ns_bits_def intro!: exI [of _ 0])

theorem ns_order_constructors_exact_witness:
  "\<exists>s. ns_new_gt ns_ops [1, 2, 3] \<lparr>enabled_values = 5\<rparr> [1, 4, 9] = Some s \<and> ns_valid s [1, 2, 3]
      \<and> ns_vals s [1, 2, 3] = {x \<in> {1, 2, 3}. \<exists>y\<in>ns_vals \<lparr>enabled_values = 5\<rparr> [1, 4, 9]. y < x}"
  using ns_order_constructors_exact [OF ns_valid_5, of "[1, 2, 3]"] ns_vals_5 by auto

text \<open>\<^verbatim>\<open>into_num_set\<close> of a bit set or of a slice of constants, and so \<^verbatim>\<open>new_eq\<close> from them, keeps exactly the values that are in
  the new universe, for universes of up to 16 values.\<close>

theorem into_num_set_exact:
  assumes "sorted_wrt (<) u" "length u \<le> MAX_LEN"
  shows "(ns_valid d w \<longrightarrow> (\<exists>s. ns_new_eq ns_ops u d w = Some s \<and> ns_valid s u
      \<and> ns_vals s u = set u \<inter> ns_vals d w))
    \<and> (sorted_wrt (<) c \<longrightarrow> (\<exists>s. ns_new_eq slice_ops u c () = Some s \<and> ns_valid s u
      \<and> ns_vals s u = set u \<inter> set c))"
  using ns_into_num_set_exact [OF _ assms] slice_into_num_set_exact [OF _ assms]
  by (simp add: ns_new_eq_def slice_valid_def)

theorem into_num_set_exact_witness:
  "\<exists>s. ns_new_eq ns_ops [1, 2, 9] \<lparr>enabled_values = 5\<rparr> [1, 4, 9] = Some s \<and> ns_valid s [1, 2, 9]
      \<and> ns_vals s [1, 2, 9] = {1, 2, 9} \<inter> ns_vals \<lparr>enabled_values = 5\<rparr> [1, 4, 9]"
  using into_num_set_exact [of "[1, 2, 9]" "\<lparr>enabled_values = 5\<rparr>" "[1, 4, 9]" "[]"] ns_valid_5
  by (simp add: MAX_LEN_def)

text \<open>The default \<^verbatim>\<open>into_num_set\<close>, used for ranges and constants, on a universe of fewer than 15 values: it
  enables every universe value between the bounds and, when the upper bound is itself a
  universe value, nothing else; when it is not, the next larger position is enabled too.\<close>

theorem into_num_set_range_cover:
  assumes "sorted_wrt (<) u" "length u < 15" "rmin d \<le> rmax d"
  shows "\<exists>s. ns_new_eq range_ops u d () = Some s
    \<and> set u \<inter> range_vals d \<subseteq> ns_vals s u
    \<and> (rmax d \<in> set u \<longrightarrow> ns_vals s u = set u \<inter> range_vals d \<and> ns_valid s u)
    \<and> (rmax d \<notin> set u \<longrightarrow> rank u (rmax d) \<in> ns_bits s
         \<and> (rank u (rmax d) < length u \<longrightarrow> u ! rank u (rmax d) \<notin> range_vals d))"
proof -
  obtain s where s: "ns_new_eq range_ops u d () = Some s"
    "\<And>i. i \<in> ns_bits s \<longleftrightarrow> rank u (rmin d) \<le> i \<and> i \<le> rank u (rmax d)"
    using into_num_set_default_spec [where w = "()" and minv = "\<lambda>d _. Some (rmin d)"
        and maxv = "\<lambda>d _. Some (rmax d)", OF assms(1,2) refl refl assms(3)]
    unfolding ns_new_eq_def range_ops_def by auto
  have pos: "i < rank u x \<longleftrightarrow> u ! i < x" if "i < length u" for i x
    using rank_nth [OF assms(1) that] by simp
  have pos_le: "i \<le> rank u (rmax d) \<longleftrightarrow> u ! i \<le> rmax d" if "i < length u" "rmax d \<in> set u" for i
    using search_pos_iff(2) [OF assms(1) that(1), of "rmax d"] that(2)
    by (simp add: search_pos_after_def binary_search_spec [OF assms(1)] less_Suc_eq_le)
  have cover: "set u \<inter> range_vals d \<subseteq> ns_vals s u"
  proof
    fix x assume "x \<in> set u \<inter> range_vals d"
    then obtain i where i: "i < length u" "u ! i = x" "rmin d \<le> x" "x \<le> rmax d"
      by (auto simp: range_vals_def in_set_conv_nth)
    then have "rank u (rmin d) \<le> i" "i \<le> rank u (rmax d)"
      using pos [of i "rmin d"] pos [of i "rmax d"] search_pos_iff(2) [OF assms(1) i(1), of "rmax d"]
      by (auto simp: not_less search_pos_after_def binary_search_spec [OF assms(1)] split: if_splits)
    then show "x \<in> ns_vals s u" using i s(2) by (auto simp: ns_vals_def)
  qed
  have exact: "ns_vals s u = {x \<in> set u. rmin d \<le> x \<and> x \<le> rmax d}" if "rmax d \<in> set u"
    by (rule ns_vals_intro) (use that s(2) pos [of _ "rmin d"] pos_le in \<open>auto simp: not_less simp flip: not_le\<close>)
  have valid: "ns_valid s u" if "rmax d \<in> set u"
    using rank_mem(1) [OF assms(1) that] assms(1,2) s(2) by (auto simp: ns_valid_def MAX_LEN_def)
  have next_val: "u ! rank u (rmax d) \<notin> range_vals d" if "rmax d \<notin> set u" "rank u (rmax d) < length u"
    using pos [OF that(2), of "rmax d"] that by (auto simp: range_vals_def) (metis nth_mem order.antisym not_less)
  show ?thesis
    using s(1) cover exact valid next_val s(2) [of "rank u (rmax d)"] rank_mono [OF assms(3), of u]
    by (auto simp: range_vals_def)
qed

theorem into_num_set_range_cover_witness:
  "\<exists>s. ns_new_eq range_ops [1, 2, 4] \<lparr>rmin = 2, rmax = 3\<rparr> () = Some s
    \<and> {1, 2, 4} \<inter> range_vals \<lparr>rmin = 2, rmax = 3\<rparr> \<subseteq> ns_vals s [1, 2, 4]
    \<and> rank [1, 2, 4 :: u32] 3 \<in> ns_bits s"
  using into_num_set_range_cover [of "[1, 2, 4]" "\<lparr>rmin = 2, rmax = 3\<rparr>"] by auto

text \<open>A constant that is not a universe value is not skipped by \<^verbatim>\<open>into_num_set\<close>: for \<^verbatim>\<open>3\<close> and the
  universe \<^verbatim>\<open>[1, 2, 4]\<close> the resulting set is \<^verbatim>\<open>{4}\<close>, so a domain built by \<^verbatim>\<open>new_eq\<close> from the
  constant \<^verbatim>\<open>3\<close> is satisfied by \<^verbatim>\<open>4\<close>.\<close>

theorem into_num_set_constant_not_skipped:
  "ns_new_eq u32_ops [1, 2, 4] 3 () = Some \<lparr>enabled_values = 4\<rparr>
   \<and> ns_list_values \<lparr>enabled_values = 4\<rparr> [1, 2, 4] = Some [4]"
  by code_simp

text \<open>A universe of 16 values, the size \<^verbatim>\<open>NumericSet\<close> advertises, makes the mask computation
  \<^verbatim>\<open>(1 << 16) - 1\<close> overflow the \<^verbatim>\<open>u16\<close>: \<^verbatim>\<open>all\<close> panics for it, and returns the set of all
  values for every smaller sorted universe.\<close>

theorem ns_all_exact:
  "ns_all u = (if length u < MAX_LEN then Some \<lparr>enabled_values = mask (length u)\<rparr> else None)
   \<and> (\<forall>s. ns_all u = Some s \<longrightarrow> ns_vals s u = set u)"
proof -
  have "ns_vals \<lparr>enabled_values = mask (length u)\<rparr> u = {x \<in> set u. True}" if "length u < 16"
    by (rule ns_vals_intro) (use that in \<open>simp add: bits_low_mask\<close>)
  then show ?thesis by (auto simp: ns_all_def low_mask_eq MAX_LEN_def split: if_splits)
qed

theorem ns_all_exact_witness:
  "ns_vals \<lparr>enabled_values = 7\<rparr> [1, 4, 9] = {1, 4, 9}"
proof -
  have "ns_all [1, 4, 9] = Some \<lparr>enabled_values = 7\<rparr>" by code_simp
  then show ?thesis using ns_all_exact [of "[1, 4, 9]"] by simp
qed

lemma ns_list_values_from_spec:
  "i + length vs \<le> 16 \<Longrightarrow>
    ns_list_values_from e i vs = Some (map fst (filter (\<lambda>p. bit e (snd p)) (zip vs [i..<i + length vs])))"
proof (induction vs arbitrary: i)
  case (Cons v vs)
  then have "ns_list_values_from e (i + 1) vs
      = Some (map fst (filter (\<lambda>p. bit e (snd p)) (zip vs [Suc i..<i + length (v # vs)])))"
    by simp
  moreover have "2 ^ i AND e \<noteq> 0 \<longleftrightarrow> bit e i"
    by (simp add: and_exp_eq_0_iff_not_bit and.commute)
  ultimately show ?case
    using Cons.prems by (simp add: checked_shl_1_u16 upt_conv_Cons del: upt_Suc)
qed simp

lemma ns_list_values_spec:
  assumes "ns_valid s u"
  shows "\<exists>vs. ns_list_values s u = Some vs \<and> sorted_wrt (<) vs \<and> set vs = ns_vals s u"
proof -
  have u: "sorted_wrt (<) u" "length u \<le> 16" using assms by (auto simp: ns_valid_def MAX_LEN_def)
  let ?vs = "map fst (filter (\<lambda>p. bit (enabled_values s) (snd p)) (zip u [0..<length u]))"
  have "sorted_wrt (\<lambda>p q. fst p < fst q) (zip u [0..<length u])"
    using u(1) by (simp add: sorted_wrt_iff_nth_less)
  then have "sorted_wrt (<) ?vs" by (simp add: sorted_wrt_map sorted_wrt_filter)
  moreover have "set ?vs = ns_vals s u"
    by (force simp: ns_vals_def ns_bits_def set_zip)
  ultimately show ?thesis
    using ns_list_values_from_spec [of 0 u] u(2) by (simp add: ns_list_values_def)
qed

text \<open>On universes of fewer than 16 values \<^verbatim>\<open>complement\<close> is the set complement within the universe, and
  \<^verbatim>\<open>list_values\<close> lists the enabled values in increasing order.\<close>

theorem ns_complement_and_listing:
  assumes "ns_valid s u" "length u < MAX_LEN"
  shows "\<exists>c vs. ns_complement s u = Some c \<and> ns_valid c u \<and> ns_vals c u = set u - ns_vals s u
    \<and> ns_list_values s u = Some vs \<and> sorted_wrt (<) vs \<and> set vs = ns_vals s u"
proof -
  have u: "sorted_wrt (<) u" "length u < 16" using assms by (auto simp: ns_valid_def MAX_LEN_def)
  let ?c = "\<lparr>enabled_values = NOT (enabled_values s) AND mask (length u)\<rparr>"
  have bits: "ns_bits ?c = {i. i < length u \<and> i \<notin> ns_bits s}"
    using u(2) by (auto simp: ns_bits_def bit_and_iff bit_not_iff bit_mask_iff)
  have inj: "u ! i = u ! j \<longleftrightarrow> i = j" if "i < length u" "j < length u" for i j
    using nth_eq_iff_index_eq [OF sorted_wrt_less_distinct [OF u(1)]] that by blast
  have "ns_complement s u = Some ?c" using u(2) by (simp add: ns_complement_def ns_all_def low_mask_eq)
  moreover have "ns_valid ?c u" using u bits by (auto simp: ns_valid_def MAX_LEN_def)
  moreover have "ns_vals ?c u = set u - ns_vals s u"
    unfolding ns_vals_def bits using inj by (auto simp: in_set_conv_nth) metis
  moreover have "\<exists>vs. ns_list_values s u = Some vs \<and> sorted_wrt (<) vs \<and> set vs = ns_vals s u"
    by (rule ns_list_values_spec [OF assms(1)])
  ultimately show ?thesis by blast
qed

theorem ns_complement_and_listing_witness:
  "\<exists>c vs. ns_complement \<lparr>enabled_values = 5\<rparr> [1, 4, 9] = Some c \<and> ns_valid c [1, 4, 9]
    \<and> ns_vals c [1, 4, 9] = {1, 4, 9} - ns_vals \<lparr>enabled_values = 5\<rparr> [1, 4, 9]
    \<and> ns_list_values \<lparr>enabled_values = 5\<rparr> [1, 4, 9] = Some vs \<and> sorted_wrt (<) vs
    \<and> set vs = ns_vals \<lparr>enabled_values = 5\<rparr> [1, 4, 9]"
  using ns_complement_and_listing [OF ns_valid_5] by (simp add: MAX_LEN_def)

text \<open>The range built from an order constraint on a non-empty range \<^verbatim>\<open>d\<close> keeps every value that is in the relation
  to some value of \<^verbatim>\<open>d\<close>, and keeps nothing else unless the bound saturates
  (\<^verbatim>\<open>new_gt\<close> above \<^verbatim>\<open>u32::MAX\<close>, \<^verbatim>\<open>new_lt\<close> below zero), where the bound itself stays.\<close>

theorem range_order_constructors:
  assumes "range_vals d \<noteq> {}"
  shows "(\<exists>r. range_new_gt range_ops d () = Some r \<and> {x. \<exists>y\<in>range_vals d. y < x} \<subseteq> range_vals r
        \<and> range_vals r = (if rmin d = u32_max then {u32_max} else {x. \<exists>y\<in>range_vals d. y < x}))
    \<and> (\<exists>r. range_new_lt range_ops d () = Some r \<and> {x. \<exists>y\<in>range_vals d. x < y} \<subseteq> range_vals r
        \<and> range_vals r = (if rmax d = 0 then {0} else {x. \<exists>y\<in>range_vals d. x < y}))
    \<and> (\<exists>r. range_new_geq range_ops d () = Some r \<and> range_vals r = {x. \<exists>y\<in>range_vals d. y \<le> x})
    \<and> (\<exists>r. range_new_leq range_ops d () = Some r \<and> range_vals r = {x. \<exists>y\<in>range_vals d. x \<le> y})
    \<and> range_new_eq range_ops d () = Some d"
proof -
  have bounds: "min_value range_ops d () = Some (rmin d)" "max_value range_ops d () = Some (rmax d)"
    by (simp_all add: range_ops_def)
  have ex: "(\<exists>y\<in>range_vals d. y < x) \<longleftrightarrow> rmin d < x" "(\<exists>y\<in>range_vals d. x < y) \<longleftrightarrow> x < rmax d"
    "(\<exists>y\<in>range_vals d. y \<le> x) \<longleftrightarrow> rmin d \<le> x" "(\<exists>y\<in>range_vals d. x \<le> y) \<longleftrightarrow> x \<le> rmax d" for x
    using rgn.ex_less [OF TrueI assms bounds(1)] rgn.ex_le [OF TrueI assms bounds(1)]
      rgn.ex_greater [OF TrueI assms bounds(2)] rgn.ex_ge [OF TrueI assms bounds(2)] by blast+
  have gt: "{saturating_add (rmin d) 1..u32_max} = (if rmin d = u32_max then {u32_max} else {x. rmin d < x})"
    by (rule set_eqI) (auto simp: saturating_add_one_le)
  have lt: "{0..saturating_sub (rmax d) 1} = (if rmax d = 0 then {0} else {x. x < rmax d})"
    by (rule set_eqI) (auto simp: le_saturating_sub_one)
  have top: "{x. u32_max < x} = {}" by (simp add: leD)
  show ?thesis
    unfolding ex
    by (auto simp: range_new_gt_def range_new_lt_def range_new_geq_def range_new_leq_def range_new_eq_def
        range_ops_def range_ALL_def range_vals_def gt lt top
        intro: order_antisym)
qed

theorem range_order_constructors_witness:
  "\<exists>r. range_new_gt range_ops \<lparr>rmin = 3, rmax = 7\<rparr> () = Some r
     \<and> {x. \<exists>y\<in>range_vals \<lparr>rmin = 3, rmax = 7\<rparr>. y < x} \<subseteq> range_vals r"
proof -
  have "3 \<in> range_vals \<lparr>rmin = 3, rmax = 7\<rparr>" by (simp add: range_vals_def)
  then show ?thesis using range_order_constructors [of "\<lparr>rmin = 3, rmax = 7\<rparr>"] by blast
qed

text \<open>C40: Increments of counters: for \<^verbatim>\<open>other\<close> within \<^verbatim>\<open>self\<close>, the difference computed by
  \<^verbatim>\<open>get_diff_add\<close> exists and \<^verbatim>\<open>apply_diff_add\<close> turns \<^verbatim>\<open>self\<close> into \<^verbatim>\<open>other\<close> with it, without overflow; for
  multiplied counters the same holds when the bounds divide each other.\<close>

theorem diff_round_trip:
  assumes "range_contains self other"
  shows "(do { d \<leftarrow> range_get_diff_add self other; range_apply_diff_add self d }) = Some other
    \<and> (do { d \<leftarrow> half_get_diff_add \<lparr>hmin = rmin self\<rparr> \<lparr>hmin = rmin other\<rparr>;
            half_apply_diff_add \<lparr>hmin = rmin self\<rparr> d }) = Some \<lparr>hmin = rmin other\<rparr>
    \<and> (unat (rmin self) dvd unat (rmin other) \<longrightarrow> unat (rmax other) dvd unat (rmax self) \<longrightarrow>
        0 < rmin self \<longrightarrow> 0 < rmax self \<longrightarrow>
        (do { d \<leftarrow> range_get_diff_mul self other; range_apply_diff_mul self d }) = Some other)"
proof -
  have le: "rmin self \<le> rmin other" "rmax other \<le> rmax self"
    using assms by (auto simp: range_contains_def)
  have "(do { d \<leftarrow> range_get_diff_mul self other; range_apply_diff_mul self d }) = Some other"
    if dvd: "unat (rmin self) dvd unat (rmin other)" "unat (rmax other) dvd unat (rmax self)" "0 < rmin self" "0 < rmax self"
  proof -
    obtain k where k: "unat (rmin other) = unat (rmin self) * k" using dvd(1) by (rule dvdE)
    obtain l where l: "unat (rmax self) = unat (rmax other) * l" using dvd(2) by (rule dvdE)
    have pos: "0 < unat (rmin self)" "0 < unat (rmax self)" using dvd(3,4) by (simp_all add: unat_gt_0)
    then have "0 < unat (rmax other)" "0 < l" using l by (metis gr0I mult_is_0 not_gr0)+
    have m: "checked_mul (rmin self) (rmin other div rmin self) = Some (rmin other)"
      using k pos unsigned_less [of "rmin other", where 'a = nat]
      by (simp add: checked_mul_def word_unat_eq_iff unat_div unat_word_ariths)
    have "rmax self div (rmax self div rmax other) = rmax other" "rmax self div rmax other \<noteq> 0" "rmax other \<noteq> 0"
      using l pos \<open>0 < unat (rmax other)\<close> \<open>0 < l\<close>
      by (auto simp: word_unat_eq_iff unat_div unat_eq_0 [symmetric])
    then show ?thesis
      using m dvd(3) by (cases other) (auto simp: range_get_diff_mul_def range_apply_diff_mul_def checked_div_def)
  qed
  moreover have "checked_add a (b - a) = Some b" if "a \<le> b" for a b :: u32
    using that unsigned_less [of b, where 'a = nat] by (simp add: checked_add_def unat_sub word_le_nat_alt)
  ultimately show ?thesis
    using le by (cases other) (auto simp: range_get_diff_add_def range_apply_diff_add_def half_get_diff_add_def
        half_apply_diff_add_def checked_sub_def word_sub_le)
qed

theorem diff_round_trip_witness:
  "(do { d \<leftarrow> range_get_diff_mul \<lparr>rmin = 2, rmax = 12\<rparr> \<lparr>rmin = 4, rmax = 6\<rparr>;
         range_apply_diff_mul \<lparr>rmin = 2, rmax = 12\<rparr> d }) = Some \<lparr>rmin = 4, rmax = 6\<rparr>"
  using diff_round_trip [of "\<lparr>rmin = 2, rmax = 12\<rparr>" "\<lparr>rmin = 4, rmax = 6\<rparr>"]
  by (simp add: range_contains_def)

end
