(* ===== verification/IR_Types.thy ===== *)
theory IR_Types
  imports Utils_Lib "HOL-Library.FSet" "HOL-Library.List_Lexorder" "HOL-Library.Char_ord"
    "HOL-Library.Product_Lexorder" "HOL-Library.Multiset"
begin

text \<open>
  The data of the constraint description (\<^verbatim>\<open>telamon-gen/src/ir/\<close>): variables, sets of objects and
  their definitions, pieces of host code, sets of values, conditions, rules and filters, choices
  with the actions they trigger, enums and the description that holds them.

  Strings are lists of characters. An \<^verbatim>\<open>IndexMap\<close>, which iterates in insertion order, is an
  association list; a \<^verbatim>\<open>BTreeSet\<close> or \<^verbatim>\<open>FxHashSet\<close> of values is a finite set. A set definition
  is compared by its name (\<^verbatim>\<open>hash_from_key!(SetDef, SetDef::name)\<close>), so the equalities of the
  sources on sets are functions here (see \<open>IR_Set\<close>) and differ from equality of terms.
\<close>

section \<open>Variables and sets\<close>

datatype variable = Arg nat | Forall nat

datatype set_def_key = ItemType | IdType | ItemGetter | IdGetter | Iter | FromSuperset | Prefix
  | NewObjs | Reverse | AddToSet

text \<open>
  A set with a reverse owns the definition of the reverse (\<open>Explicit\<close>), which points back to its
  owner through a weak pointer (\<open>Implicit\<close>). The owner is immutable once built, so the back
  pointer is a copy of the owner, put in place when the reverse is read.
\<close>

datatype set_def = SetDef (sd_name: string) (sd_arg: "ir_set option") (sd_superset: "ir_set option")
    (sd_reverse: reverse_set) (sd_keys: "(set_def_key \<times> string) list") (sd_depth: nat)
    (sd_def_order: nat) (sd_disjoints: "string list")
  and ir_set = Set (s_def: set_def) (s_reverse_constraint: "ir_set option") (s_var: "variable option")
  and reverse_set = Explicit set_def | Implicit set_def | RevNone

section \<open>Values\<close>

record code =
  code_text :: string
  code_vars :: "(variable \<times> string) list"

datatype cmp_op = Lt | Gt | Leq | Geq | Eq | Neq

datatype value_type = VT_Enum string | VT_Range (is_half: bool) | VT_NumericSet code | VT_Constant

text \<open>The inputs of an enum set are the triples of an input, a negation and an inversion flag.\<close>

datatype value_set =
    VS_Enum (vs_enum_name: string) (vs_values: "string fset") (vs_inputs: "(nat \<times> bool \<times> bool) fset")
  | VS_Integer (vs_full: bool) (vs_cmp_inputs: "(cmp_op \<times> nat) fset")
      (vs_cmp_code: "(cmp_op \<times> code) fset") (vs_universe: value_type)

section \<open>Conditions, rules and filters\<close>

record choice_instance =
  ci_choice :: string
  ci_vars :: "variable list"

datatype condition =
    C_Code code bool
  | C_Enum nat "string fset" bool bool
  | C_Bool bool
  | C_CmpCode nat code cmp_op
  | C_CmpInput nat nat cmp_op bool

type_synonym set_constraints = "(variable \<times> ir_set) list"

record rule =
  conditions :: "condition list"
  alternatives :: value_set
  r_set_constraints :: set_constraints

datatype sub_filter = Switch nat "(value_set \<times> sub_filter) list" | Rules "rule list"

record filter_def =
  f_arguments :: "ir_set list"
  f_inputs :: "choice_instance list"
  f_rules :: sub_filter

section \<open>Choices and actions\<close>

datatype counter_kind = CK_Add | CK_Mul

datatype counter_visibility = NoMax | HiddenMax | Full

datatype counter_val = CV_Code code | CV_Choice choice_instance

datatype filter_ref = FR_Inline "rule list" | FR_Function string nat "variable list"

record filter_call =
  fc_forall_vars :: "ir_set list"
  fc_filter_ref :: filter_ref

record remote_filter_call =
  rf_choice :: choice_instance
  rf_filter :: filter_call

record choice_condition =
  cc_inputs :: "choice_instance list"
  cc_self_condition :: value_set
  cc_others_conditions :: "condition list"

datatype choice_action =
    FilterSelf
  | RemoteFilter remote_filter_call
  | IncrCounter choice_instance counter_val value_set
  | UpdateCounter choice_instance choice_instance value_set
  | TriggerAction nat choice_condition code bool

record on_change_action =
  oc_forall_vars :: "ir_set list"
  oc_set_constraints :: set_constraints
  oc_action :: choice_action

record filter_action =
  fa_set_constraints :: set_constraints
  fa_filter :: filter_call

datatype choice_arguments =
    Plain "(string \<times> ir_set) list"
  | Symmetric "string \<times> string" ir_set bool

datatype choice_def =
    CD_Enum string
  | CD_Counter counter_kind counter_val "ir_set list" choice_instance value_set counter_visibility code
  | CD_Number code

record choice =
  c_name :: string
  c_doc :: "string option"
  c_arguments :: choice_arguments
  c_choice_def :: choice_def
  c_on_change :: "on_change_action list"
  c_filter_actions :: "filter_action list"
  c_filters :: "filter_def list"
  c_no_propagate :: value_set

section \<open>Enums and the description\<close>

record enum_def =
  e_name :: string
  e_doc :: "string option"
  e_values :: "(string \<times> string option) list"
  e_aliases :: "(string \<times> (string fset \<times> string option)) list"
  e_inverse :: "(string \<times> string) list option"

record trigger =
  t_foralls :: "ir_set list"
  t_inputs :: "choice_instance list"
  t_conditions :: "condition list"
  t_code :: code

type_synonym on_new_object = "(ir_set list \<times> set_constraints \<times> remote_filter_call) list"

record ir_desc =
  ir_choices :: "(string \<times> choice) list"
  ir_enums :: "(string \<times> enum_def) list"
  ir_set_defs :: "(string \<times> (set_def \<times> on_new_object)) list"
  ir_triggers :: "trigger list"

section \<open>Orders\<close>

text \<open>The derived orders of \<^verbatim>\<open>Variable\<close> and \<^verbatim>\<open>CmpOp\<close>: by constructor, then by fields.\<close>

fun variable_key :: "variable \<Rightarrow> nat \<times> nat" where
  "variable_key (Arg i) = (0, i)"
| "variable_key (Forall i) = (1, i)"

lemma variable_key_inj: "variable_key v = variable_key w \<longleftrightarrow> v = w"
  by (cases v; cases w) auto

instantiation variable :: linorder
begin

definition less_eq_variable :: "variable \<Rightarrow> variable \<Rightarrow> bool" where
  "less_eq_variable v w \<longleftrightarrow> variable_key v \<le> variable_key w"

definition less_variable :: "variable \<Rightarrow> variable \<Rightarrow> bool" where
  "less_variable v w \<longleftrightarrow> variable_key v < variable_key w"

instance
  by standard (auto simp: less_eq_variable_def less_variable_def less_le simp flip: variable_key_inj)

end

fun cmp_op_key :: "cmp_op \<Rightarrow> nat" where
  "cmp_op_key Lt = 0" | "cmp_op_key Gt = 1" | "cmp_op_key Leq = 2"
| "cmp_op_key Geq = 3" | "cmp_op_key Eq = 4" | "cmp_op_key Neq = 5"

lemma cmp_op_key_inj: "cmp_op_key a = cmp_op_key b \<longleftrightarrow> a = b"
  by (cases a; cases b) auto

instantiation cmp_op :: linorder
begin

definition less_eq_cmp_op :: "cmp_op \<Rightarrow> cmp_op \<Rightarrow> bool" where
  "less_eq_cmp_op a b \<longleftrightarrow> cmp_op_key a \<le> cmp_op_key b"

definition less_cmp_op :: "cmp_op \<Rightarrow> cmp_op \<Rightarrow> bool" where
  "less_cmp_op a b \<longleftrightarrow> cmp_op_key a < cmp_op_key b"

instance
  by standard (auto simp: less_eq_cmp_op_def less_cmp_op_def cmp_op_key_inj)

end

text \<open>
  The derived order of \<^verbatim>\<open>Condition\<close> compares the constructors and then the fields from left to
  right. Conditions of the same constructor agree on the components they do not have, so it is
  the lexicographic order of the key below.
\<close>

type_synonym code_key = "string \<times> (variable \<times> string) list"

definition code_order_key :: "code \<Rightarrow> code_key" where
  "code_order_key c = (code_text c, code_vars c)"

type_synonym condition_order_key =
  "nat \<times> nat \<times> code_key \<times> nat \<times> nat \<times> string list \<times> bool \<times> bool"

fun condition_key :: "condition \<Rightarrow> condition_order_key" where
  "condition_key (C_Code c negate) = (0, 0, code_order_key c, 0, 0, [], negate, False)"
| "condition_key (C_Enum input values negate inversed) =
     (1, input, ([], []), 0, 0, sorted_list_of_fset values, negate, inversed)"
| "condition_key (C_Bool b) = (2, 0, ([], []), 0, 0, [], b, False)"
| "condition_key (C_CmpCode lhs rhs op) = (3, lhs, code_order_key rhs, 0, cmp_op_key op, [], False, False)"
| "condition_key (C_CmpInput lhs rhs op inversed) =
     (4, lhs, ([], []), rhs, cmp_op_key op, [], False, inversed)"

lemma code_order_key_inj [simp]: "code_order_key c = code_order_key d \<longleftrightarrow> c = d"
  by (cases c; cases d) (auto simp: code_order_key_def)

lemma sorted_list_of_fset_inj [simp]: "sorted_list_of_fset A = sorted_list_of_fset B \<longleftrightarrow> A = B"
  for A B :: "'a::linorder fset"
  by (metis fset_of_list_simps(1) sorted_list_of_fset_simps(2))

lemma condition_key_inj: "condition_key c = condition_key d \<longleftrightarrow> c = d"
  by (cases c; cases d) (auto simp: cmp_op_key_inj)

instantiation condition :: linorder
begin

definition less_eq_condition :: "condition \<Rightarrow> condition \<Rightarrow> bool" where
  "less_eq_condition c d \<longleftrightarrow> condition_key c \<le> condition_key d"

definition less_condition :: "condition \<Rightarrow> condition \<Rightarrow> bool" where
  "less_condition c d \<longleftrightarrow> condition_key c < condition_key d"

instance
  by standard (auto simp: less_eq_condition_def less_condition_def less_le simp flip: condition_key_inj)

end

end
