(* ===== verification/IR_Set.thy ===== *)
theory IR_Set
  imports IR_Types
begin

text \<open>
  Sets of objects (\<^verbatim>\<open>telamon-gen/src/ir/set.rs\<close>) and the renaming of variables and inputs between
  contexts (\<^verbatim>\<open>telamon-gen/src/ir/adaptator.rs\<close>). The lemmas show that the subset test is a partial order on the
  names of well-formed sets and how renaming acts on it.
\<close>

section \<open>Adaptator\<close>

record adaptator =
  ad_variables :: "variable \<rightharpoonup> variable"
  ad_inputs :: "nat \<rightharpoonup> nat \<times> bool"

definition ad_default :: adaptator where
  "ad_default = \<lparr>ad_variables = Map.empty, ad_inputs = Map.empty\<rparr>"

definition ad_from_arguments :: "variable list \<Rightarrow> adaptator" where
  "ad_from_arguments args =
     ad_default\<lparr>ad_variables := map_of (zip (map Arg [0..<length args]) args)\<rparr>"

definition ad_variable :: "adaptator \<Rightarrow> variable \<Rightarrow> variable" where
  "ad_variable ad var = (case ad_variables ad var of Some v \<Rightarrow> v | None \<Rightarrow> var)"

definition ad_input :: "adaptator \<Rightarrow> nat \<Rightarrow> nat \<times> bool" where
  "ad_input ad input = (case ad_inputs ad input of Some p \<Rightarrow> p | None \<Rightarrow> (input, False))"

definition ad_set_variable :: "adaptator \<Rightarrow> variable \<Rightarrow> variable \<Rightarrow> adaptator" where
  "ad_set_variable ad old new = ad\<lparr>ad_variables := (ad_variables ad)(old \<mapsto> new)\<rparr>"

definition ad_set_input :: "adaptator \<Rightarrow> nat \<Rightarrow> nat \<Rightarrow> adaptator" where
  "ad_set_input ad old new = ad\<lparr>ad_inputs := (ad_inputs ad)(old \<mapsto> (new, snd (ad_input ad old)))\<rparr>"

definition ad_set_inversed :: "adaptator \<Rightarrow> nat \<Rightarrow> adaptator" where
  "ad_set_inversed ad input = ad\<lparr>ad_inputs := (ad_inputs ad)(input \<mapsto> (fst (ad_input ad input), True))\<rparr>"

section \<open>Equality and inclusion of sets\<close>

definition sd_eq :: "set_def \<Rightarrow> set_def \<Rightarrow> bool" where
  "sd_eq d e \<longleftrightarrow> sd_name d = sd_name e"

text \<open>The derived equality of \<^verbatim>\<open>Set\<close> and \<^verbatim>\<open>SetRefImpl\<close>.\<close>

fun set_eq :: "ir_set \<Rightarrow> ir_set \<Rightarrow> bool" where
  "set_eq (Set d rc v) (Set d' rc' v') \<longleftrightarrow> sd_eq d d' \<and> v = v' \<and>
     (case (rc, rc') of (None, None) \<Rightarrow> True | (Some s, Some s') \<Rightarrow> set_eq s s' | _ \<Rightarrow> False)"

definition set_new :: "set_def \<Rightarrow> variable option \<Rightarrow> ir_set option" where
  "set_new def var = (if (var \<noteq> None) = (sd_arg def \<noteq> None) then Some (Set def None var) else None)"

text \<open>The direct superset; a superset with a parameter must name it \<^verbatim>\<open>Arg(0)\<close>.\<close>

definition set_superset :: "ir_set \<Rightarrow> ir_set option option" where
  "set_superset s =
     (case sd_superset (s_def s) of
        None \<Rightarrow> Some None
      | Some super \<Rightarrow>
          (case s_var super of
             None \<Rightarrow> Some (Some (Set (s_def super) None None))
           | Some v \<Rightarrow> (if v = Arg 0 \<and> s_var s \<noteq> None
                        then Some (Some (Set (s_def super) None (s_var s))) else None)))"

lemma set_superset_Some:
  "set_superset s = Some (Some s') \<Longrightarrow>
    \<exists>super v. sd_superset (s_def s) = Some super \<and> s' = Set (s_def super) None v"
  by (auto simp: set_superset_def split: option.splits if_splits)

lemma size_superset: "set_superset s = Some (Some s') \<Longrightarrow> size s' < size s"
proof -
  assume "set_superset s = Some (Some s')"
  then obtain super v where *: "sd_superset (s_def s) = Some super" "s' = Set (s_def super) None v"
    using set_superset_Some by blast
  have "size_option size rc \<noteq> 0" for rc :: "ir_set option" by (cases rc) auto
  then have "size s' \<le> size super" using *(2) by (cases super) (simp add: Suc_le_eq)
  also have "size super < size (s_def s)" using *(1) by (cases "s_def s") auto
  also have "size (s_def s) < size s" by (cases s) auto
  finally show ?thesis .
qed

lemma size_reverse_constraint: "s_reverse_constraint s = Some s' \<Longrightarrow> size s' < size s"
  by (cases s) auto

text \<open>The order of the disjunction is that of the code: a set that is found is never followed.\<close>

function set_is_subset_of :: "ir_set \<Rightarrow> ir_set \<Rightarrow> bool option" where
  "set_is_subset_of self other = do {
     is_subset \<leftarrow>
       (if set_eq self other then Some True
        else do {
          super \<leftarrow> set_superset self;
          in_sup \<leftarrow> (case super of None \<Rightarrow> Some False | Some s \<Rightarrow> set_is_subset_of s other);
          if in_sup then Some True
          else (case s_reverse_constraint self of None \<Rightarrow> Some False
                | Some s \<Rightarrow> set_is_subset_of s other) });
     Some (is_subset \<and> s_reverse_constraint other = None) }"
  by pat_completeness auto
termination
  by (relation "measure (\<lambda>(s, t). size s)") (auto simp: size_superset size_reverse_constraint)

declare set_is_subset_of.simps [simp del]

fun sd_is_subset_of_def :: "set_def \<Rightarrow> set_def \<Rightarrow> bool" where
  "sd_is_subset_of_def (SetDef n a super r k dp o' dj) other \<longleftrightarrow>
     sd_eq (SetDef n a super r k dp o' dj) other \<or>
     (case super of None \<Rightarrow> False | Some (Set d rc v) \<Rightarrow> sd_is_subset_of_def d other)"

fun set_is_subset_of_def :: "ir_set \<Rightarrow> ir_set \<Rightarrow> bool" where
  "set_is_subset_of_def (Set d rc v) other \<longleftrightarrow>
     (case rc of None \<Rightarrow> False | Some s \<Rightarrow> set_is_subset_of_def s other) \<or>
     sd_is_subset_of_def d (s_def other)"

definition set_without_reverse_constraints :: "ir_set \<Rightarrow> ir_set" where
  "set_without_reverse_constraints s = Set (s_def s) None (s_var s)"

text \<open>The loop of \<^verbatim>\<open>path_to_superset\<close>, with the path built so far.\<close>

function path_loop :: "ir_set \<Rightarrow> ir_set \<Rightarrow> ir_set list \<Rightarrow> ir_set list option" where
  "path_loop current superset out =
     (if set_eq current superset then Some out
      else case set_superset current of
          None \<Rightarrow> None
        | Some None \<Rightarrow> Some []
        | Some (Some s) \<Rightarrow> path_loop s superset (out @ [current]))"
  by pat_completeness auto
termination
  by (relation "measure (\<lambda>(s, t, out). size s)") (auto simp: size_superset)

declare path_loop.simps [simp del]

definition set_path_to_superset :: "ir_set \<Rightarrow> ir_set \<Rightarrow> ir_set list option" where
  "set_path_to_superset self superset = path_loop self superset []"

section \<open>Collisions\<close>

text \<open>The superset of a pair of a definition and an argument, with the assertion on its name.\<close>

definition super_pair :: "ir_set \<Rightarrow> variable option \<Rightarrow> (set_def \<times> variable option) option" where
  "super_pair super var =
     (case s_var super of
        None \<Rightarrow> Some (s_def super, None)
      | Some v \<Rightarrow> if v = Arg 0 \<and> var \<noteq> None then Some (s_def super, var) else None)"

lemma size_super_pair:
  "sd_superset d = Some super \<Longrightarrow> super_pair super v = Some (d', v') \<Longrightarrow> size d' < size d"
proof -
  assume "sd_superset d = Some super" "super_pair super v = Some (d', v')"
  moreover have "size (s_def super) < size super" by (cases super) auto
  moreover have "size super < size d" using calculation(1) by (cases d) auto
  ultimately show ?thesis by (auto simp: super_pair_def split: option.splits if_splits)
qed

text \<open>The search of a common ancestor: \<open>None\<close> is a panic, \<open>Some None\<close> the absence of one.\<close>

function collision_loop ::
  "set_def \<times> variable option \<Rightarrow> set_def \<times> variable option \<Rightarrow> set_def list \<Rightarrow> set_def list
    \<Rightarrow> (set_def \<times> set_def list \<times> set_def list) option option" where
  "collision_loop lhs rhs lhs_path rhs_path =
     (if sd_eq (fst lhs) (fst rhs) \<and> snd lhs = snd rhs then Some (Some (fst lhs, lhs_path, rhs_path))
      else if sd_depth (fst lhs) > sd_depth (fst rhs) then
        (case sd_superset (fst lhs) of
           None \<Rightarrow> None
         | Some super \<Rightarrow>
            (case super_pair super (snd lhs) of None \<Rightarrow> None
             | Some l \<Rightarrow> collision_loop l rhs (lhs_path @ [fst lhs]) rhs_path))
      else
        (case sd_superset (fst rhs) of
           None \<Rightarrow> Some None
         | Some super \<Rightarrow>
            (case super_pair super (snd rhs) of None \<Rightarrow> None
             | Some r \<Rightarrow> collision_loop lhs r lhs_path (rhs_path @ [fst rhs]))))"
  by pat_completeness auto
termination
  by (relation "measure (\<lambda>(l, r, _, _). size (fst l) + size (fst r))") (auto dest: size_super_pair)

declare collision_loop.simps [simp del]

definition disjoint_defs :: "set_def \<Rightarrow> set_def \<Rightarrow> bool" where
  "disjoint_defs l r \<longleftrightarrow> sd_name r \<in> set (sd_disjoints l) \<or> sd_name l \<in> set (sd_disjoints r)"

definition set_get_collision_level :: "ir_set \<Rightarrow> ir_set \<Rightarrow> set_def option option" where
  "set_get_collision_level self rhs =
     (case collision_loop (s_def self, s_var self) (s_def rhs, s_var rhs) [] [] of
        None \<Rightarrow> None
      | Some None \<Rightarrow> Some None
      | Some (Some (level, lhs_path, rhs_path)) \<Rightarrow>
          if \<exists>l\<in>set lhs_path. \<exists>r\<in>set rhs_path. disjoint_defs l r then Some None
          else Some (Some level))"

section \<open>Set definitions\<close>

text \<open>\<^verbatim>\<open>str::replace\<close> for a non-empty pattern: leftmost, non-overlapping occurrences.\<close>

function str_replace :: "string \<Rightarrow> string \<Rightarrow> string \<Rightarrow> string" where
  "str_replace text pat new =
     (if pat = [] \<or> text = [] then text
      else if take (length pat) text = pat then new @ str_replace (drop (length pat) text) pat new
      else hd text # str_replace (tl text) pat new)"
  by pat_completeness auto
termination
  by (relation "measure (\<lambda>(t, p, n). length t)") auto

declare str_replace.simps [simp del]

definition sd_build ::
  "string \<Rightarrow> ir_set option \<Rightarrow> ir_set option \<Rightarrow> reverse_set \<Rightarrow> (set_def_key \<times> string) list
    \<Rightarrow> string list \<Rightarrow> set_def" where
  "sd_build name arg superset revs keys disjoints =
     SetDef name arg superset revs keys
       (case superset of Some s \<Rightarrow> sd_depth (s_def s) + 1 | None \<Rightarrow> 0)
       (case arg of Some s \<Rightarrow> sd_def_order (s_def s) + 1 | None \<Rightarrow> 0)
       disjoints"

definition sd_reverse_def ::
  "ir_set option \<Rightarrow> ir_set \<Rightarrow> string \<Rightarrow> (set_def_key \<times> string) list \<Rightarrow> set_def option" where
  "sd_reverse_def arg rset iter keys = do {
     superset \<leftarrow> map_option s_def arg;
     from \<leftarrow> map_of keys FromSuperset;
     let from = str_replace (str_replace (str_replace from ''$item'' ''$tmp'') ''$var'' ''$item'') ''$tmp'' ''$var''
         @ ''.map(|_| $item)'';
     item_type \<leftarrow> map_of (sd_keys superset) ItemType;
     id_type \<leftarrow> map_of (sd_keys superset) IdType;
     item_getter \<leftarrow> map_of (sd_keys superset) ItemGetter;
     id_getter \<leftarrow> map_of (sd_keys superset) IdGetter;
     set_item \<leftarrow> map_of (sd_keys (s_def rset)) ItemType;
     key_item \<leftarrow> map_of keys ItemType;
     set_id \<leftarrow> map_of (sd_keys (s_def rset)) IdType;
     key_id \<leftarrow> map_of keys IdType;
     if set_item = key_item \<and> set_id = key_id then
       Some (sd_build [] (Some rset) arg RevNone
         [(ItemType, item_type), (IdType, id_type), (ItemGetter, item_getter), (IdGetter, id_getter),
          (Iter, iter), (FromSuperset, from)] [])
     else None }"

definition sd_new ::
  "string \<Rightarrow> ir_set option \<Rightarrow> ir_set option \<Rightarrow> (ir_set \<times> string) option
    \<Rightarrow> (set_def_key \<times> string) list \<Rightarrow> string list \<Rightarrow> set_def option" where
  "sd_new name arg superset revs keys disjoints = do {
     reverse_set \<leftarrow> (case revs of
         Some (rset, iter) \<Rightarrow> do { d \<leftarrow> sd_reverse_def arg rset iter keys; Some (Explicit d) }
       | None \<Rightarrow> Some RevNone);
     Some (sd_build name arg superset reverse_set keys disjoints) }"

fun sd_with_reverse :: "set_def \<Rightarrow> reverse_set \<Rightarrow> set_def" where
  "sd_with_reverse (SetDef n a super r k dp o' dj) revs = SetDef n a super revs k dp o' dj"

definition sd_get_reverse :: "set_def \<Rightarrow> set_def option" where
  "sd_get_reverse d =
     (case sd_reverse d of
        RevNone \<Rightarrow> None
      | Explicit r \<Rightarrow> Some (sd_with_reverse r (Implicit d))
      | Implicit owner \<Rightarrow> Some owner)"

definition sd_prefix :: "set_def \<Rightarrow> string" where
  "sd_prefix d = (case map_of (sd_keys d) Prefix of Some s \<Rightarrow> s | None \<Rightarrow> ''obj'')"

fun key_env :: "set_def_key \<Rightarrow> string list" where
  "key_env ItemType = []" | "key_env IdType = []" | "key_env Prefix = []"
| "key_env ItemGetter = [''fun'', ''id'']"
| "key_env IdGetter = [''fun'', ''item'']"
| "key_env Iter = [''fun'']"
| "key_env FromSuperset = [''fun'', ''item'']"
| "key_env NewObjs = [''objs'']"
| "key_env Reverse = [''fun'']"
| "key_env AddToSet = [''fun'', ''item'']"

definition key_is_arg_in_env :: "set_def_key \<Rightarrow> bool" where
  "key_is_arg_in_env k \<longleftrightarrow> k \<in> {ItemGetter, Iter, FromSuperset, AddToSet}"

definition key_REQUIRED :: "set_def_key list" where
  "key_REQUIRED = [ItemType, IdType, ItemGetter, IdGetter, Iter, NewObjs]"

text \<open>\<^verbatim>\<open>Set::reverse\<close>: the outer \<open>None\<close> is a panic.\<close>

definition set_reverse :: "ir_set \<Rightarrow> variable \<Rightarrow> ir_set \<Rightarrow> (ir_set \<times> ir_set) option option" where
  "set_reverse self self_var arg =
     (case sd_get_reverse (s_def self) of
        None \<Rightarrow> Some None
      | Some reverse_def \<Rightarrow> do {
          superset \<leftarrow> (case s_reverse_constraint self of Some s \<Rightarrow> Some s | None \<Rightarrow> sd_arg reverse_def);
          rset \<leftarrow> set_new reverse_def (Some self_var);
          inside \<leftarrow> set_is_subset_of rset arg;
          Some (Some (superset,
            if inside then rset else Set (s_def rset) (Some arg) (s_var rset))) })"

fun set_adapt :: "adaptator \<Rightarrow> ir_set \<Rightarrow> ir_set" where
  "set_adapt ad (Set d rc v) =
     Set d (case rc of None \<Rightarrow> None | Some s \<Rightarrow> Some (set_adapt ad s)) (map_option (ad_variable ad) v)"

section \<open>Laws of inclusion\<close>

lemma sd_eq_refl [simp]: "sd_eq d d"
  by (simp add: sd_eq_def)

text \<open>The derived equality compares the chains of names and arguments.\<close>

fun set_key :: "ir_set \<Rightarrow> (string \<times> variable option) list" where
  "set_key (Set d rc v) = (sd_name d, v) # (case rc of None \<Rightarrow> [] | Some s \<Rightarrow> set_key s)"

lemma set_key_Nil [simp]: "set_key s \<noteq> []" "[] \<noteq> set_key s"
  by (cases s; simp)+

lemma set_eq_key: "set_eq s t \<longleftrightarrow> set_key s = set_key t"
proof (induction s arbitrary: t rule: set_key.induct)
  case (1 d rc v)
  show ?case using 1 by (cases t) (auto simp: sd_eq_def split: option.splits)
qed

lemma set_eq_refl [simp]: "set_eq s s"
  by (simp add: set_eq_key)

lemma set_eq_sym: "set_eq s t \<Longrightarrow> set_eq t s"
  by (simp add: set_eq_key)

lemma set_eq_trans: "set_eq s t \<Longrightarrow> set_eq t u \<Longrightarrow> set_eq s u"
  by (simp add: set_eq_key)

lemma set_key_adapt:
  "set_key (set_adapt ad s) = map (map_prod id (map_option (ad_variable ad))) (set_key s)"
  by (induction ad s rule: set_adapt.induct) (auto split: option.splits)

text \<open>The sets reached from a set through supersets and reverse constraints.\<close>

inductive ancestor :: "ir_set \<Rightarrow> ir_set \<Rightarrow> bool" where
  self: "ancestor s s"
| super: "set_superset s = Some (Some t) \<Longrightarrow> ancestor t u \<Longrightarrow> ancestor s u"
| constr: "s_reverse_constraint s = Some t \<Longrightarrow> ancestor t u \<Longrightarrow> ancestor s u"

inductive_cases ancestorE: "ancestor s u"

lemma ancestor_step:
  "ancestor s u \<longleftrightarrow> u = s \<or> (\<exists>t. set_superset s = Some (Some t) \<and> ancestor t u)
     \<or> (\<exists>t. s_reverse_constraint s = Some t \<and> ancestor t u)"
  by (auto elim: ancestorE intro: ancestor.intros)

lemma set_superset_adapt:
  "set_superset (set_adapt ad s) = map_option (map_option (set_adapt ad)) (set_superset s)"
  by (cases s) (auto simp: set_superset_def split: option.splits)

lemma reverse_constraint_adapt [simp]:
  "s_reverse_constraint (set_adapt ad s) = map_option (set_adapt ad) (s_reverse_constraint s)"
  by (cases s) (auto split: option.splits)

lemma set_eq_adapt: "set_eq s t \<Longrightarrow> set_eq (set_adapt ad s) (set_adapt ad t)"
  by (simp add: set_eq_key set_key_adapt)

lemma subset_unfold:
  assumes "set_is_subset_of s t = Some b" "\<not> set_eq s t"
  obtains sup' b1 b2 where "set_superset s = Some sup'"
    "(case sup' of None \<Rightarrow> Some False | Some s' \<Rightarrow> set_is_subset_of s' t) = Some b1"
    "(if b1 then Some True else case s_reverse_constraint s of None \<Rightarrow> Some False
      | Some s' \<Rightarrow> set_is_subset_of s' t) = Some b2"
    "b \<longleftrightarrow> b2 \<and> s_reverse_constraint t = None"
  using assms by (subst (asm) set_is_subset_of.simps) (auto simp: bind_eq_Some_conv)

lemma subset_defined:
  "(\<And>a. ancestor s a \<Longrightarrow> set_superset a \<noteq> None) \<Longrightarrow> set_is_subset_of s t \<noteq> None"
proof (induction s t rule: set_is_subset_of.induct)
  case (1 s t)
  obtain sup' where super: "set_superset s = Some sup'" using 1(3) [OF ancestor.self] by blast
  show ?case
  proof (cases "set_eq s t")
    case False
    have in_super: "set_is_subset_of x t \<noteq> None" if "sup' = Some x" for x
      using 1(1) [OF False super that] 1(3) ancestor.super super that by blast
    obtain b1 where b1: "(case sup' of None \<Rightarrow> Some False | Some s' \<Rightarrow> set_is_subset_of s' t) = Some b1"
      using in_super by (cases sup') auto
    have "set_is_subset_of x t \<noteq> None" if "s_reverse_constraint s = Some x" "\<not> b1" for x
      using 1(2) [OF False super b1 that(2,1)] 1(3) ancestor.constr that(1) by blast
    then show ?thesis
      using False super b1 by (subst set_is_subset_of.simps) (auto split: option.splits)
  qed (subst set_is_subset_of.simps, simp)
qed

lemma subset_exact:
  "set_is_subset_of s t = Some b \<Longrightarrow>
    b \<longleftrightarrow> s_reverse_constraint t = None \<and> (\<exists>a. ancestor s a \<and> set_eq a t)"
proof (induction s t arbitrary: b rule: set_is_subset_of.induct)
  case (1 s t)
  note eqn = set_is_subset_of.simps [of s t]
  show ?case
  proof (cases "set_eq s t")
    case True
    then show ?thesis using 1(3) eqn by (auto intro: ancestor.self)
  next
    case False
    obtain sup' b1 b2 where r: "set_superset s = Some sup'"
      "(case sup' of None \<Rightarrow> Some False | Some s' \<Rightarrow> set_is_subset_of s' t) = Some b1"
      "(if b1 then Some True else case s_reverse_constraint s of None \<Rightarrow> Some False
        | Some s' \<Rightarrow> set_is_subset_of s' t) = Some b2"
      "b \<longleftrightarrow> b2 \<and> s_reverse_constraint t = None"
      using 1(3) False by (rule subset_unfold)
    have ih1: "b1 \<and> s_reverse_constraint t = None \<longleftrightarrow> s_reverse_constraint t = None
        \<and> (\<exists>x a. sup' = Some x \<and> ancestor x a \<and> set_eq a t)"
      using r(2) 1(1) [OF False r(1)] by (cases sup') auto
    have ih2: "b2 \<and> s_reverse_constraint t = None \<longleftrightarrow> s_reverse_constraint t = None
        \<and> (\<exists>x a. s_reverse_constraint s = Some x \<and> ancestor x a \<and> set_eq a t)" if "\<not> b1"
      using r(3) 1(2) [OF False r(1,2) that] that by (cases "s_reverse_constraint s") auto
    have found: "(\<exists>a. ancestor s a \<and> set_eq a t) \<longleftrightarrow>
        (\<exists>x a. sup' = Some x \<and> ancestor x a \<and> set_eq a t)
        \<or> (\<exists>x a. s_reverse_constraint s = Some x \<and> ancestor x a \<and> set_eq a t)"
      using ancestor_step [of s] r(1) False by (metis option.inject)
    show ?thesis
    proof (cases b1)
      case True
      then show ?thesis using r(3,4) ih1 unfolding found by auto
    next
      case False
      then show ?thesis using r(4) ih1 ih2 unfolding found by blast
    qed
  qed
qed

lemma subset_adapt:
  "set_is_subset_of s t = Some b \<Longrightarrow>
    \<exists>b'. set_is_subset_of (set_adapt ad s) (set_adapt ad t) = Some b' \<and> (b \<longrightarrow> b')"
proof (induction s t arbitrary: b rule: set_is_subset_of.induct)
  case (1 s t)
  let ?s = "set_adapt ad s" and ?t = "set_adapt ad t"
  show ?case
  proof (cases "set_eq ?s ?t")
    case True
    then have "set_is_subset_of ?s ?t = Some (s_reverse_constraint t = None)"
      by (subst set_is_subset_of.simps) simp
    moreover have "b \<longrightarrow> s_reverse_constraint t = None" using subset_exact [OF 1(3)] by simp
    ultimately show ?thesis by blast
  next
    case F: False
    then have False: "\<not> set_eq s t" using set_eq_adapt by blast
    obtain sup' b1 b2 where r: "set_superset s = Some sup'"
      "(case sup' of None \<Rightarrow> Some False | Some s' \<Rightarrow> set_is_subset_of s' t) = Some b1"
      "(if b1 then Some True else case s_reverse_constraint s of None \<Rightarrow> Some False
        | Some s' \<Rightarrow> set_is_subset_of s' t) = Some b2"
      "b \<longleftrightarrow> b2 \<and> s_reverse_constraint t = None"
      using 1(3) False by (rule subset_unfold)
    obtain b1' where b1': "(case map_option (set_adapt ad) sup' of None \<Rightarrow> Some False
        | Some s' \<Rightarrow> set_is_subset_of s' ?t) = Some b1'" "b1 \<longrightarrow> b1'"
      using r(2) 1(1) [OF False r(1)] by (cases sup') auto
    have "\<exists>b2'. (if b1' then Some True else case s_reverse_constraint ?s of None \<Rightarrow> Some False
        | Some s' \<Rightarrow> set_is_subset_of s' ?t) = Some b2' \<and> (b2 \<longrightarrow> b2')"
    proof (cases b1)
      case True
      then show ?thesis using b1'(2) by auto
    next
      case b1: False
      then show ?thesis
        using r(3) 1(2) [OF False r(1,2) b1] by (cases "s_reverse_constraint s") auto
    qed
    then show ?thesis
      using F r(1,4) b1' by (subst set_is_subset_of.simps) (auto simp: set_superset_adapt)
  qed
qed

section \<open>Reverse sets\<close>

lemma sd_name_with_reverse [simp]:
  "sd_name (sd_with_reverse d r) = sd_name d" "sd_arg (sd_with_reverse d r) = sd_arg d"
  "sd_superset (sd_with_reverse d r) = sd_superset d" "sd_reverse (sd_with_reverse d r) = r"
  by (cases d; simp)+

lemma sd_build_sel [simp]:
  "sd_name (sd_build n a s r k dj) = n" "sd_arg (sd_build n a s r k dj) = a"
  "sd_superset (sd_build n a s r k dj) = s" "sd_reverse (sd_build n a s r k dj) = r"
  by (simp_all add: sd_build_def)

lemma get_reverse_get_reverse:
  "sd_get_reverse d = Some r \<Longrightarrow> (\<And>r'. sd_reverse d \<noteq> Implicit r') \<Longrightarrow> sd_get_reverse r = Some d"
  by (auto simp: sd_get_reverse_def split: reverse_set.splits)

lemma sd_reverse_def_sel:
  "sd_reverse_def arg rset iter keys = Some r \<Longrightarrow>
    sd_name r = [] \<and> sd_arg r = Some rset \<and> sd_superset r = arg \<and> arg \<noteq> None"
  by (auto simp: sd_reverse_def_def bind_eq_Some_conv Let_def split: if_splits)

lemma sd_new_reverse:
  assumes "sd_new name arg superset (Some (rset, iter)) keys disjoints = Some d"
  shows "\<exists>r. sd_get_reverse d = Some r \<and> sd_get_reverse r = Some d \<and> sd_name r = []
    \<and> sd_arg r = Some rset \<and> sd_superset r = arg \<and> sd_arg d = arg \<and> arg \<noteq> None"
proof -
  obtain r where r: "sd_reverse_def arg rset iter keys = Some r"
    "d = sd_build name arg superset (Explicit r) keys disjoints"
    using assms by (auto simp: sd_new_def bind_eq_Some_conv)
  then show ?thesis using sd_reverse_def_sel [OF r(1)] by (auto simp: sd_get_reverse_def)
qed

section \<open>Collision levels\<close>

text \<open>The pairs reached by following supersets, and the invariant that \<^verbatim>\<open>SetDef::build\<close> establishes on depths.\<close>

inductive pair_anc :: "set_def \<times> variable option \<Rightarrow> set_def \<times> variable option \<Rightarrow> bool" where
  refl: "pair_anc p p"
| step: "pair_anc p (d, v) \<Longrightarrow> sd_superset d = Some s \<Longrightarrow> super_pair s v = Some q \<Longrightarrow> pair_anc p q"

definition pair_ok :: "set_def \<times> variable option \<Rightarrow> bool" where
  "pair_ok p \<longleftrightarrow> (\<forall>d v. pair_anc p (d, v) \<longrightarrow>
     (case sd_superset d of None \<Rightarrow> sd_depth d = 0
      | Some s \<Rightarrow> sd_depth d = sd_depth (s_def s) + 1 \<and> super_pair s v \<noteq> None))"

lemma pair_anc_trans: "pair_anc q r \<Longrightarrow> pair_anc p q \<Longrightarrow> pair_anc p r"
  by (induction rule: pair_anc.induct) (auto intro: pair_anc.step)

lemma pair_ok_super:
  assumes "pair_ok (d, v)" "sd_superset d = Some s" "super_pair s v = Some q"
  shows "pair_ok q" "pair_anc (d, v) q"
proof -
  show "pair_anc (d, v) q" using pair_anc.step [OF pair_anc.refl assms(2,3)] .
  then show "pair_ok q" using assms(1) pair_anc_trans by (fastforce simp: pair_ok_def)
qed

lemma collision_loop_sound:
  assumes "pair_ok lhs" "pair_ok rhs"
  shows "\<exists>res. collision_loop lhs rhs lp rp = Some res \<and>
    (\<forall>level lp' rp'. res = Some (level, lp', rp') \<longrightarrow>
      (\<exists>r v. pair_anc lhs (level, v) \<and> pair_anc rhs (r, v) \<and> sd_eq level r))"
  using assms
proof (induction lhs rhs lp rp rule: collision_loop.induct)
  case (1 lhs rhs lp rp)
  obtain dl vl dr vr where pairs: "lhs = (dl, vl)" "rhs = (dr, vr)" by (metis surj_pair)
  show ?case
  proof (cases "sd_eq dl dr \<and> vl = vr")
    case True
    then show ?thesis using pairs by (subst collision_loop.simps) (auto intro: pair_anc.refl)
  next
    case ne: False
    show ?thesis
    proof (cases "sd_depth dr < sd_depth dl")
      case True
      obtain s q where s: "sd_superset dl = Some s" "super_pair s vl = Some q"
        using 1(3) True pairs pair_anc.refl [of "(dl, vl)"] unfolding pair_ok_def
        by (fastforce split: option.splits)
      note q = pair_ok_super [OF 1(3) [unfolded pairs(1)] s]
      have eq: "collision_loop lhs rhs lp rp = collision_loop q rhs (lp @ [dl]) rp"
        using ne True pairs s by (subst collision_loop.simps) auto
      have ih: "\<exists>res. collision_loop q rhs (lp @ [dl]) rp = Some res \<and> (\<forall>level lp' rp'.
          res = Some (level, lp', rp') \<longrightarrow>
          (\<exists>r v. pair_anc q (level, v) \<and> pair_anc rhs (r, v) \<and> sd_eq level r))"
        using 1(1) [of s q] ne True pairs s 1(4) q(1) by simp
      show ?thesis unfolding eq using ih pair_anc_trans [OF _ q(2)] pairs(1) by meson
    next
      case False
      show ?thesis
      proof (cases "sd_superset dr")
        case None
        then show ?thesis using ne False pairs by (subst collision_loop.simps) auto
      next
        case (Some s)
        obtain q where s: "super_pair s vr = Some q"
          using 1(4) Some pairs pair_anc.refl [of "(dr, vr)"] unfolding pair_ok_def
          by (fastforce split: option.splits)
        note q = pair_ok_super [OF 1(4) [unfolded pairs(2)] Some s]
        have eq: "collision_loop lhs rhs lp rp = collision_loop lhs q lp (rp @ [dr])"
          using ne False pairs s Some by (subst collision_loop.simps) auto
        have ih: "\<exists>res. collision_loop lhs q lp (rp @ [dr]) = Some res \<and> (\<forall>level lp' rp'.
            res = Some (level, lp', rp') \<longrightarrow>
            (\<exists>r v. pair_anc lhs (level, v) \<and> pair_anc q (r, v) \<and> sd_eq level r))"
          using 1(2) [of s q] ne False pairs s Some 1(3) q(1) by simp
        show ?thesis unfolding eq using ih pair_anc_trans [OF _ q(2)] pairs(2) by meson
      qed
    qed
  qed
qed

section \<open>Properties\<close>

text \<open>A set is well formed when every set on its chains passes its parameter on as \<^verbatim>\<open>Arg(0)\<close>.\<close>

function set_wf :: "ir_set \<Rightarrow> bool" where
  "set_wf s \<longleftrightarrow> (case set_superset s of None \<Rightarrow> False
     | Some sup' \<Rightarrow> (case sup' of None \<Rightarrow> True | Some t \<Rightarrow> set_wf t))
     \<and> (case s_reverse_constraint s of None \<Rightarrow> True | Some t \<Rightarrow> set_wf t)"
  by pat_completeness auto
termination
  by (relation "measure size") (auto simp: size_superset size_reverse_constraint)

declare set_wf.simps [simp del]

lemma set_wf_ancestor: "ancestor s a \<Longrightarrow> set_wf s \<Longrightarrow> set_superset a \<noteq> None"
proof (induction rule: ancestor.induct)
  case (self s)
  then show ?case by (auto simp: set_wf.simps [of s] split: option.splits)
next
  case (super s t u)
  then show ?case by (simp add: set_wf.simps [of s])
next
  case (constr s t u)
  then show ?case by (simp add: set_wf.simps [of s])
qed

text \<open>C30: On well-formed sets \<^verbatim>\<open>is_subset_of\<close> never panics and holds exactly when the other set has no reverse constraint
  and equals a set that is reached through supersets and reverse constraints; the answer is
  kept by every renaming of variables.\<close>

theorem subset_decides_reachability:
  assumes "set_wf s"
  shows "set_is_subset_of s t = Some (s_reverse_constraint t = None \<and> (\<exists>a. ancestor s a \<and> set_eq a t))
    \<and> (set_is_subset_of s t = Some True \<longrightarrow> set_is_subset_of (set_adapt ad s) (set_adapt ad t) = Some True)"
proof -
  obtain b where b: "set_is_subset_of s t = Some b"
    using subset_defined [of s t] set_wf_ancestor assms by blast
  have "set_is_subset_of (set_adapt ad s) (set_adapt ad t) = Some True" if "set_is_subset_of s t = Some True"
    using subset_adapt [OF that, of ad] by auto
  then show ?thesis using b subset_exact [OF b] by blast
qed

definition ex_insts :: set_def where
  "ex_insts = sd_build ''Instructions'' None None RevNone [] []"

definition ex_mem_insts :: set_def where
  "ex_mem_insts = sd_build ''MemInsts'' None (Some (Set ex_insts None None)) RevNone [] [''Blocks'']"

theorem subset_decides_reachability_witness:
  "set_is_subset_of (Set ex_mem_insts None None) (Set ex_insts None None)
    = Some (\<exists>a. ancestor (Set ex_mem_insts None None) a \<and> set_eq a (Set ex_insts None None))"
proof -
  have "set_wf (Set ex_mem_insts None None)"
    by (simp add: set_wf.simps ex_mem_insts_def ex_insts_def set_superset_def)
  then show ?thesis using subset_decides_reachability [of "Set ex_mem_insts None None"] by simp
qed

text \<open>A definition created with a reverse and its reverse refer to each other: reading the reverse of the reverse gives the
  definition back, the reverse is parametrised by the given set and its superset is the
  parameter of the definition.\<close>

theorem reverse_of_reverse:
  assumes "sd_new name arg superset (Some (rset, iter)) keys disjoints = Some d"
  shows "\<exists>r. sd_get_reverse d = Some r \<and> sd_get_reverse r = Some d
    \<and> sd_arg r = Some rset \<and> sd_superset r = arg \<and> sd_arg d = arg \<and> sd_name r = []"
  using sd_new_reverse [OF assms] by blast

definition ex_dims :: set_def where
  "ex_dims = sd_build ''Dimensions'' None None RevNone
     [(ItemType, ''Dim''), (IdType, ''DimId''), (ItemGetter, ''f.dim($id)''), (IdGetter, ''$item.id()'')] []"

definition ex_keys :: "(set_def_key \<times> string) list" where
  "ex_keys = [(ItemType, ''Dim''), (IdType, ''DimId''), (FromSuperset, ''f($item, $var)'')]"

theorem reverse_of_reverse_witness:
  "\<exists>d r. sd_new ''IterDims'' (Some (Set ex_dims None None)) (Some (Set ex_dims None None))
      (Some (Set ex_dims None None, ''it'')) ex_keys [] = Some d
    \<and> sd_get_reverse d = Some r \<and> sd_get_reverse r = Some d"
proof -
  obtain d where d: "sd_new ''IterDims'' (Some (Set ex_dims None None)) (Some (Set ex_dims None None))
      (Some (Set ex_dims None None, ''it'')) ex_keys [] = Some d"
    by (simp add: sd_new_def sd_reverse_def_def ex_keys_def ex_dims_def sd_build_def Let_def)
  then show ?thesis using reverse_of_reverse [OF d] by blast
qed

text \<open>With the depths that \<^verbatim>\<open>SetDef::build\<close> computes, \<^verbatim>\<open>get_collision_level\<close> never
  panics, and a level it returns is reached from both sets.\<close>

theorem collision_level_sound:
  assumes "pair_ok (s_def s, s_var s)" "pair_ok (s_def t, s_var t)"
  shows "\<exists>res. set_get_collision_level s t = Some res \<and> (\<forall>level. res = Some level \<longrightarrow>
    (\<exists>r v. pair_anc (s_def s, s_var s) (level, v) \<and> pair_anc (s_def t, s_var t) (r, v)
      \<and> sd_name level = sd_name r))"
proof -
  obtain res where res: "collision_loop (s_def s, s_var s) (s_def t, s_var t) [] [] = Some res"
    "\<And>level lp rp. res = Some (level, lp, rp) \<Longrightarrow> \<exists>r v. pair_anc (s_def s, s_var s) (level, v)
       \<and> pair_anc (s_def t, s_var t) (r, v) \<and> sd_eq level r"
    using collision_loop_sound [OF assms, of "[]" "[]"] by blast
  show ?thesis
  proof (cases res)
    case None
    then show ?thesis using res(1) by (simp add: set_get_collision_level_def)
  next
    case (Some p)
    obtain level lp rp where "p = (level, lp, rp)" using prod_cases3 by blast
    then show ?thesis using res Some by (auto simp: set_get_collision_level_def sd_eq_def)
  qed
qed

lemma pair_ok_root: "sd_superset d = None \<Longrightarrow> sd_depth d = 0 \<Longrightarrow> pair_ok (d, v)"
proof -
  assume a: "sd_superset d = None" "sd_depth d = 0"
  have "q = (d, v)" if "pair_anc p q" "p = (d, v)" for p q
    using that by (induction rule: pair_anc.induct) (auto simp: a)
  then have only: "d' = d" if "pair_anc (d, v) (d', v')" for d' v' using that by blast
  show ?thesis unfolding pair_ok_def by (auto dest!: only simp: a)
qed

theorem collision_level_sound_witness:
  "\<exists>res. set_get_collision_level (Set ex_insts None None) (Set ex_dims None None) = Some res"
  using collision_level_sound [of "Set ex_insts None None" "Set ex_dims None None"]
    pair_ok_root [of ex_insts None] pair_ok_root [of ex_dims None]
  by (auto simp: ex_insts_def ex_dims_def sd_build_def)

end
