(* ===== verification/IR_Filter.thy ===== *)
theory IR_Filter
  imports IR_Set "HOL-Library.Monad_Syntax"
begin

text \<open>
  Enums, sets of values, conditions and rules of \<^verbatim>\<open>telamon-gen/src/ir/filter.rs\<close> and of the \<^verbatim>\<open>Enum\<close>
  and accessor parts of \<^verbatim>\<open>ir/mod.rs\<close> and \<^verbatim>\<open>ir/choice.rs\<close>. A function that may panic returns an option; where
  the source itself returns an option, the outer \<open>None\<close> is the panic.
\<close>

section \<open>Enums\<close>

definition enum_new :: "string \<Rightarrow> string option \<Rightarrow> (string \<times> string) list option \<Rightarrow> enum_def" where
  "enum_new name doc inverse_map =
     \<lparr>e_name = name, e_doc = doc, e_values = [], e_aliases = [], e_inverse = inverse_map\<rparr>"

definition enum_add_value :: "enum_def \<Rightarrow> string \<Rightarrow> string option \<Rightarrow> enum_def option" where
  "enum_add_value e name doc =
     (if map_of (e_aliases e) name = None \<and> map_of (e_values e) name = None
      then Some (e\<lparr>e_values := e_values e @ [(name, doc)]\<rparr>) else None)"

definition enum_add_alias ::
  "enum_def \<Rightarrow> string \<Rightarrow> string fset \<Rightarrow> string option \<Rightarrow> enum_def option" where
  "enum_add_alias e name vals doc =
     (if map_of (e_values e) name = None \<and> map_of (e_aliases e) name = None
      then Some (e\<lparr>e_aliases := e_aliases e @ [(name, (vals, doc))]\<rparr>) else None)"

definition enum_keys :: "enum_def \<Rightarrow> string list" where
  "enum_keys e = map fst (e_values e)"

definition enum_expand :: "enum_def \<Rightarrow> string list \<Rightarrow> string fset" where
  "enum_expand e vals =
     fold (\<lambda>alias acc. case map_of (e_aliases e) alias of
         Some (alias_set, _) \<Rightarrow> acc |\<union>| alias_set
       | None \<Rightarrow> finsert alias acc) vals {||}"

fun inverse_lookup :: "(string \<times> string) list \<Rightarrow> string \<Rightarrow> string" where
  "inverse_lookup [] x = x"
| "inverse_lookup ((lhs, rhs) # mapping) x =
     (if lhs = x then rhs else if rhs = x then lhs else inverse_lookup mapping x)"

definition enum_inverse :: "enum_def \<Rightarrow> string \<Rightarrow> string" where
  "enum_inverse e x = (case e_inverse e of Some mapping \<Rightarrow> inverse_lookup mapping x | None \<Rightarrow> x)"

section \<open>Lookups in the description\<close>

definition get_enum :: "ir_desc \<Rightarrow> string \<Rightarrow> enum_def option" where
  "get_enum ir name = map_of (ir_enums ir) name"

definition get_choice :: "ir_desc \<Rightarrow> string \<Rightarrow> choice option" where
  "get_choice ir name = map_of (ir_choices ir) name"

fun cd_as_enum :: "choice_def \<Rightarrow> string option" where
  "cd_as_enum (CD_Enum name) = Some name"
| "cd_as_enum _ = None"

fun cd_is_counter :: "choice_def \<Rightarrow> bool" where
  "cd_is_counter (CD_Counter _ _ _ _ _ _ _) = True"
| "cd_is_counter _ = False"

fun cd_value_type :: "choice_def \<Rightarrow> value_type" where
  "cd_value_type (CD_Enum name) = VT_Enum name"
| "cd_value_type (CD_Counter _ _ _ _ _ visibility _) = VT_Range (visibility = NoMax)"
| "cd_value_type (CD_Number universe) = VT_NumericSet universe"

fun cd_is_valid_operator :: "choice_def \<Rightarrow> cmp_op \<Rightarrow> bool" where
  "cd_is_valid_operator (CD_Enum _) op = (op = Eq \<or> op = Neq)"
| "cd_is_valid_operator (CD_Counter _ _ _ _ _ visibility _) op =
     (visibility = Full \<or> op = Lt \<or> op = Leq)"
| "cd_is_valid_operator (CD_Number _) op = True"

fun vt_full_type :: "value_type \<Rightarrow> value_type" where
  "vt_full_type (VT_Range _) = VT_Range False"
| "vt_full_type t = t"

fun vt_as_enum :: "value_type \<Rightarrow> string option" where
  "vt_as_enum (VT_Enum name) = Some name"
| "vt_as_enum _ = None"

fun args_len :: "choice_arguments \<Rightarrow> nat" where
  "args_len (Plain vars) = length vars"
| "args_len (Symmetric _ _ _) = 2"

fun args_is_symmetric :: "choice_arguments \<Rightarrow> bool" where
  "args_is_symmetric (Plain _) = False"
| "args_is_symmetric (Symmetric _ _ _) = True"

fun args_sets :: "choice_arguments \<Rightarrow> ir_set list" where
  "args_sets (Plain vars) = map snd vars"
| "args_sets (Symmetric _ t _) = [t, t]"

fun args_names :: "choice_arguments \<Rightarrow> string list" where
  "args_names (Plain vars) = map fst vars"
| "args_names (Symmetric names _ _) = [fst names, snd names]"

fun args_get :: "choice_arguments \<Rightarrow> nat \<Rightarrow> (string \<times> ir_set) option" where
  "args_get (Plain vars) i = (if i < length vars then Some (vars ! i) else None)"
| "args_get (Symmetric names t _) i =
     (if i = 0 then Some (fst names, t) else if i = 1 then Some (snd names, t) else None)"

text \<open>\<^verbatim>\<open>ChoiceArguments::new\<close>: the two sets of a symmetric choice must be equal.\<close>

definition args_new :: "(string \<times> ir_set) list \<Rightarrow> bool \<Rightarrow> bool \<Rightarrow> choice_arguments option" where
  "args_new vars symmetric inversed =
     (if symmetric then
        (case vars of
           [(lhs, t0), (rhs, t1)] \<Rightarrow> if set_eq t0 t1 then Some (Symmetric (lhs, rhs) t0 inversed) else None
         | _ \<Rightarrow> None)
      else if inversed then None else Some (Plain vars))"

section \<open>Comparison operators and code\<close>

fun op_negate :: "cmp_op \<Rightarrow> cmp_op" where
  "op_negate Lt = Geq" | "op_negate Gt = Leq" | "op_negate Leq = Gt"
| "op_negate Geq = Lt" | "op_negate Eq = Neq" | "op_negate Neq = Eq"

fun op_inverse :: "cmp_op \<Rightarrow> cmp_op" where
  "op_inverse Lt = Gt" | "op_inverse Gt = Lt" | "op_inverse Leq = Geq"
| "op_inverse Geq = Leq" | "op_inverse Eq = Eq" | "op_inverse Neq = Neq"

fun op_allows_eq :: "cmp_op \<Rightarrow> bool" where
  "op_allows_eq Lt = False" | "op_allows_eq Gt = False" | "op_allows_eq Neq = False"
| "op_allows_eq Leq = True" | "op_allows_eq Geq = True" | "op_allows_eq Eq = True"

text \<open>Decimal digits, for the names that \<^verbatim>\<open>Variable\<close> displays.\<close>

fun nat_digits :: "nat \<Rightarrow> string" where
  "nat_digits n = (if n < 10 then [char_of (48 + n)] else nat_digits (n div 10) @ [char_of (48 + n mod 10)])"

declare nat_digits.simps [simp del]

fun variable_display :: "variable \<Rightarrow> string" where
  "variable_display (Arg i) = ''arg_'' @ nat_digits i"
| "variable_display (Forall i) = ''var_'' @ nat_digits i"

text \<open>\<^verbatim>\<open>Vec::dedup\<close> removes consecutive equal elements.\<close>

definition code_normalize :: "code \<Rightarrow> code" where
  "code_normalize c =
     (let renamed = map (\<lambda>(var, _). (var, variable_display var)) (code_vars c);
          text = fold (\<lambda>(var, old_name) t. str_replace t (CHR ''$'' # old_name) (CHR ''$'' # variable_display var))
                   (code_vars c) (code_text c)
      in \<lparr>code_text = text, code_vars = remdups_adj (sort_key fst renamed)\<rparr>)"

definition code_adapt :: "adaptator \<Rightarrow> code \<Rightarrow> code" where
  "code_adapt ad c = c\<lparr>code_vars := map (\<lambda>(var, name). (ad_variable ad var, name)) (code_vars c)\<rparr>"

fun vt_adapt :: "adaptator \<Rightarrow> value_type \<Rightarrow> value_type" where
  "vt_adapt ad (VT_NumericSet uni) = VT_NumericSet (code_adapt ad uni)"
| "vt_adapt ad t = t"

section \<open>Sets of values\<close>

definition normalize_values :: "string fset \<Rightarrow> bool \<Rightarrow> bool \<Rightarrow> enum_def \<Rightarrow> string fset" where
  "normalize_values values negate inversed choice =
     (let values = (if inversed then enum_inverse choice |`| values else values)
      in if negate then ffilter (\<lambda>x. x |\<notin>| values) (fset_of_list (enum_keys choice)) else values)"

definition vs_enum_values :: "string \<Rightarrow> string fset \<Rightarrow> value_set" where
  "vs_enum_values enum_name values = VS_Enum enum_name values {||}"

definition normalized_enum_set :: "string fset \<Rightarrow> bool \<Rightarrow> bool \<Rightarrow> enum_def \<Rightarrow> value_set" where
  "normalized_enum_set values negate inversed choice =
     vs_enum_values (e_name choice) (normalize_values values negate inversed choice)"

fun vs_empty :: "value_type \<Rightarrow> value_set option" where
  "vs_empty (VT_Enum name) = Some (VS_Enum name {||} {||})"
| "vs_empty (VT_Range h) = Some (VS_Integer False {||} {||} (vt_full_type (VT_Range h)))"
| "vs_empty (VT_NumericSet u) = Some (VS_Integer False {||} {||} (vt_full_type (VT_NumericSet u)))"
| "vs_empty VT_Constant = None"

fun vs_from_properties :: "value_type \<Rightarrow> bool \<Rightarrow> bool \<Rightarrow> ir_desc \<Rightarrow> value_set option" where
  "vs_from_properties (VT_Enum name) is_eq is_inv ir = do {
     e \<leftarrow> get_enum ir name;
     Some (if is_inv
       then normalized_enum_set (ffilter (\<lambda>v. enum_inverse e v = v) (fset_of_list (enum_keys e))) (\<not> is_eq) False e
       else normalized_enum_set {||} is_eq False e) }"
| "vs_from_properties VT_Constant is_eq is_inv ir = None"
| "vs_from_properties t is_eq is_inv ir =
     (if is_inv then None
      else if is_eq then Some (VS_Integer True {||} {||} (vt_full_type t)) else vs_empty t)"

fun vs_from_input :: "value_type \<Rightarrow> nat \<Rightarrow> cmp_op \<Rightarrow> bool \<Rightarrow> value_set option" where
  "vs_from_input (VT_Enum name) input op inversed =
     Some (VS_Enum name {||} {|(input, op = Neq, inversed)|})"
| "vs_from_input (VT_Range h) input op inversed =
     (if h \<or> inversed then None
      else Some (VS_Integer False {|(op, input)|} {||} (vt_full_type (VT_Range h))))"
| "vs_from_input (VT_NumericSet u) input op inversed =
     (if inversed then None
      else Some (VS_Integer False {|(op, input)|} {||} (vt_full_type (VT_NumericSet u))))"
| "vs_from_input VT_Constant input op inversed = None"

fun vset_is_empty :: "value_set \<Rightarrow> bool" where
  "vset_is_empty (VS_Enum _ values inputs) = (values = {||} \<and> inputs = {||})"
| "vset_is_empty (VS_Integer full cmp_inputs cmp_code _) = (\<not> full \<and> cmp_inputs = {||} \<and> cmp_code = {||})"

fun vs_is_full :: "ir_desc \<Rightarrow> value_set \<Rightarrow> bool option" where
  "vs_is_full ir (VS_Enum name values _) = do { e \<leftarrow> get_enum ir name; Some (length (e_values e) = fcard values) }"
| "vs_is_full ir (VS_Integer full _ _ _) = Some full"

fun vs_is_constrained :: "value_set \<Rightarrow> trivalent" where
  "vs_is_constrained (VS_Enum _ values inputs) =
     (if inputs = {||} then if fcard values = 1 then TTrue else TFalse
      else if values = {||} then if fcard inputs = 1 then TTrue else TFalse
      else TMaybe)"
| "vs_is_constrained (VS_Integer _ _ _ _) = TMaybe"

fun vs_extend :: "value_set \<Rightarrow> value_set \<Rightarrow> value_set option" where
  "vs_extend (VS_Enum name values inputs) (VS_Enum _ values' inputs') =
     Some (VS_Enum name (values |\<union>| values') (inputs |\<union>| inputs'))"
| "vs_extend (VS_Integer full ins code' u) (VS_Integer full' ins' code'' _) =
     Some (if full \<or> full' then VS_Integer True ins code' u
           else VS_Integer False (ins |\<union>| ins') (code' |\<union>| code'') u)"
| "vs_extend _ _ = None"

text \<open>\<^verbatim>\<open>intersect\<close>: whether the sets could be merged, and the new value of \<^verbatim>\<open>self\<close>.\<close>

fun vs_intersect_with :: "value_set \<Rightarrow> value_set \<Rightarrow> (bool \<times> value_set) option" where
  "vs_intersect_with (VS_Enum name values inputs) (VS_Enum name' values' inputs') =
     Some (if inputs = {||} \<and> inputs' = {||}
       then (True, VS_Enum name (ffilter (\<lambda>v. v |\<in>| values') values) inputs)
       else (False, VS_Enum name values inputs))"
| "vs_intersect_with (VS_Integer full ins code' u) other =
     (if full then Some (True, other)
      else case other of
          VS_Integer full' ins' code'' u' \<Rightarrow>
            Some (if full' then (True, VS_Integer full ins code' u)
              else if ins' |\<subseteq>| ins \<and> code'' |\<subseteq>| code' then (True, VS_Integer full ins' code'' u)
              else (ins |\<subseteq>| ins' \<and> code' |\<subseteq>| code'', VS_Integer full ins code' u))
        | VS_Enum _ _ _ \<Rightarrow> None)"
| "vs_intersect_with (VS_Enum name values inputs) (VS_Integer full _ _ _) =
     (if full then Some (True, VS_Enum name values inputs) else None)"

fun vs_inverse :: "ir_desc \<Rightarrow> value_set \<Rightarrow> value_set option" where
  "vs_inverse ir (VS_Enum name values inputs) = do {
     e \<leftarrow> get_enum ir name;
     Some (VS_Enum name (enum_inverse e |`| values) ((\<lambda>(id, neg, i). (id, neg, \<not> i)) |`| inputs)) }"
| "vs_inverse ir (VS_Integer _ _ _ _) = None"

text \<open>The assignment of value sets to inputs.\<close>

type_synonym input_mapping = "nat \<rightharpoonup> value_set"

text \<open>One turn of the loop of \<^verbatim>\<open>instantiate\<close> on the inputs of an enum set.\<close>

fun instantiate_input ::
  "ir_desc \<Rightarrow> input_mapping \<Rightarrow> enum_def \<Rightarrow> nat \<times> bool \<times> bool
    \<Rightarrow> string fset \<times> (nat \<times> bool \<times> bool) fset \<Rightarrow> (string fset \<times> (nat \<times> bool \<times> bool) fset) option" where
  "instantiate_input ir mapping e (input, negate, inversed) (new_values, new_inputs) =
     (case mapping input of
        None \<Rightarrow> Some (new_values, finsert (input, negate, inversed) new_inputs)
      | Some assigned \<Rightarrow> do {
          assigned \<leftarrow> (if inversed then vs_inverse ir assigned else Some assigned);
          (case assigned of
             VS_Enum _ values inputs \<Rightarrow>
               Some (new_values |\<union>|
                   (if negate then ffilter (\<lambda>v. v |\<notin>| values) (fset_of_list (enum_keys e)) else values),
                 new_inputs |\<union>| (\<lambda>(input', neg', i). (input', negate \<noteq> neg', i)) |`| inputs)
           | VS_Integer _ _ _ _ \<Rightarrow> None) })"

fun vs_instantiate :: "ir_desc \<Rightarrow> input_mapping \<Rightarrow> value_set \<Rightarrow> value_set option" where
  "vs_instantiate ir mapping (VS_Enum name values inputs) = do {
     e \<leftarrow> get_enum ir name;
     (new_values, new_inputs) \<leftarrow>
       fold_option (instantiate_input ir mapping e) (sorted_list_of_fset inputs) (values, {||});
     Some (VS_Enum name new_values new_inputs) }"
| "vs_instantiate ir mapping (VS_Integer full ins code' u) = Some (VS_Integer full ins code' u)"

fun vs_is :: "value_set \<Rightarrow> value_set \<Rightarrow> trivalent option" where
  "vs_is (VS_Enum _ values inputs) (VS_Enum _ values' inputs') =
     (if inputs = {||} \<and> inputs' = {||} then
        Some (if values |\<subseteq>| values' then TTrue else if values |\<inter>| values' = {||} then TFalse else TMaybe)
      else None)"
| "vs_is _ _ = None"

fun vs_t :: "value_set \<Rightarrow> value_type" where
  "vs_t (VS_Enum name _ _) = VT_Enum name"
| "vs_t (VS_Integer _ _ _ u) = u"

text \<open>The assertion of \<^verbatim>\<open>adapt\<close> that no integer input is inversed is on every pair of the set.\<close>

fun vs_adapt :: "adaptator \<Rightarrow> value_set \<Rightarrow> value_set option" where
  "vs_adapt ad (VS_Enum name values inputs) =
     Some (VS_Enum name values
       ((\<lambda>(input, negate, i). (fst (ad_input ad input), negate, i \<noteq> snd (ad_input ad input))) |`| inputs))"
| "vs_adapt ad (VS_Integer full ins code' u) =
     (if \<exists>p |\<in>| ins. snd (ad_input ad (snd p)) then None
      else Some (VS_Integer full ((\<lambda>(op, input). (op, fst (ad_input ad input))) |`| ins)
             ((\<lambda>(op, c). (op, code_adapt ad c)) |`| code') (vt_adapt ad u)))"

text \<open>\<^verbatim>\<open>lhs.is(rhs)\<close> is evaluated before \<^verbatim>\<open>rhs.is(lhs)\<close>; the operators are not lazy.\<close>

fun op_evaluate :: "cmp_op \<Rightarrow> value_set \<Rightarrow> value_set \<Rightarrow> trivalent option" where
  "op_evaluate Eq lhs rhs = do {
     a \<leftarrow> vs_is lhs rhs; b \<leftarrow> vs_is rhs lhs;
     Some (if is_true (vs_is_constrained lhs) then tri_and a b else tri_and (tri_and a b) TMaybe) }"
| "op_evaluate Neq lhs rhs = do {
     a \<leftarrow> vs_is lhs rhs; b \<leftarrow> vs_is rhs lhs; Some (tri_or (tri_not a) (tri_not b)) }"
| "op_evaluate _ lhs rhs = Some TMaybe"

section \<open>Choice instances and set constraints\<close>

definition ci_self_choice :: "choice \<Rightarrow> choice_instance" where
  "ci_self_choice c = \<lparr>ci_choice = c_name c, ci_vars = map Arg [0..<args_len (c_arguments c)]\<rparr>"

text \<open>\<^verbatim>\<open>normalize\<close>: whether the input must be inversed, and the normalised instance.\<close>

definition ci_normalize :: "ir_desc \<Rightarrow> choice_instance \<Rightarrow> (bool \<times> choice_instance) option" where
  "ci_normalize ir ci = do {
     c \<leftarrow> get_choice ir (ci_choice ci);
     (case c_arguments c of
        Plain _ \<Rightarrow> Some (False, ci)
      | Symmetric _ _ inversed \<Rightarrow>
          (case ci_vars ci of
             [v0, v1] \<Rightarrow> Some (if v0 > v1 then (inversed, ci\<lparr>ci_vars := [v1, v0]\<rparr>) else (False, ci))
           | _ \<Rightarrow> None)) }"

definition ci_value_type :: "ir_desc \<Rightarrow> choice_instance \<Rightarrow> value_type option" where
  "ci_value_type ir ci = do {
     c \<leftarrow> get_choice ir (ci_choice ci);
     Some (vt_adapt (ad_from_arguments (ci_vars ci)) (cd_value_type (c_choice_def c))) }"

definition ci_adapt :: "adaptator \<Rightarrow> choice_instance \<Rightarrow> choice_instance" where
  "ci_adapt ad ci = ci\<lparr>ci_vars := map (ad_variable ad) (ci_vars ci)\<rparr>"

definition sc_new :: "(variable \<times> ir_set) list \<Rightarrow> set_constraints" where
  "sc_new constraints = sort_key (\<lambda>(v, s). (sd_def_order (s_def s), v)) constraints"

definition sc_find_set :: "set_constraints \<Rightarrow> variable \<Rightarrow> ir_set option" where
  "sc_find_set constraints var = map_of constraints var"

definition sc_adapt :: "adaptator \<Rightarrow> set_constraints \<Rightarrow> set_constraints" where
  "sc_adapt ad constraints = sc_new (map (\<lambda>(v, s). (ad_variable ad v, set_adapt ad s)) constraints)"

text \<open>The derived equality of \<^verbatim>\<open>SetConstraints\<close>.\<close>

definition sc_eq :: "set_constraints \<Rightarrow> set_constraints \<Rightarrow> bool" where
  "sc_eq = list_all2 (\<lambda>(v, s) (v', s'). v = v' \<and> set_eq s s')"

section \<open>Conditions\<close>

fun cond_negate :: "condition \<Rightarrow> condition" where
  "cond_negate (C_Code c negate) = C_Code c (\<not> negate)"
| "cond_negate (C_Bool b) = C_Bool (\<not> b)"
| "cond_negate (C_Enum input values negate inversed) = C_Enum input values (\<not> negate) inversed"
| "cond_negate (C_CmpCode lhs rhs op) = C_CmpCode lhs rhs (op_negate op)"
| "cond_negate (C_CmpInput lhs rhs op inversed) = C_CmpInput lhs rhs (op_negate op) inversed"

fun alternatives_of :: "ir_desc \<Rightarrow> nat \<Rightarrow> value_type \<Rightarrow> condition \<Rightarrow> value_set option option" where
  "alternatives_of ir input_id t (C_Enum input values negate inversed) =
     (if input_id = input then do {
        name \<leftarrow> vt_as_enum t;
        e \<leftarrow> get_enum ir name;
        Some (Some (normalized_enum_set values negate inversed e)) }
      else Some None)"
| "alternatives_of ir input_id t (C_CmpCode lhs rhs op) =
     (if lhs = input_id then Some (Some (VS_Integer False {||} {|(op, rhs)|} (vt_full_type t)))
      else Some None)"
| "alternatives_of ir input_id t (C_CmpInput lhs rhs op inversed) =
     (if input_id = lhs \<and> input_id = rhs then
        map_option Some (vs_from_properties t (op_allows_eq op) inversed ir)
      else if input_id = lhs then map_option Some (vs_from_input t rhs op inversed)
      else if input_id = rhs then map_option Some (vs_from_input t lhs (op_inverse op) inversed)
      else Some None)"
| "alternatives_of ir input_id t _ = Some None"

text \<open>The enum of an input, with the panics on an index or a choice that is not one.\<close>

definition input_enum :: "ir_desc \<Rightarrow> choice_instance list \<Rightarrow> nat \<Rightarrow> enum_def option" where
  "input_enum ir inputs input = do {
     ci \<leftarrow> (if input < length inputs then Some (inputs ! input) else None);
     c \<leftarrow> get_choice ir (ci_choice ci);
     name \<leftarrow> cd_as_enum (c_choice_def c);
     get_enum ir name }"

fun cond_evaluate ::
  "ir_desc \<Rightarrow> choice_instance list \<Rightarrow> input_mapping \<Rightarrow> condition \<Rightarrow> trivalent option" where
  "cond_evaluate ir inputs mapping (C_Bool b) = Some (if b then TTrue else TFalse)"
| "cond_evaluate ir inputs mapping (C_Code _ _) = Some TMaybe"
| "cond_evaluate ir inputs mapping (C_CmpCode _ _ _) = Some TMaybe"
| "cond_evaluate ir inputs mapping (C_Enum input values negate inversed) = do {
     e \<leftarrow> input_enum ir inputs input;
     let values = normalized_enum_set values negate inversed e;
     (case mapping input of Some i \<Rightarrow> vs_is i values | None \<Rightarrow> Some TMaybe) }"
| "cond_evaluate ir inputs mapping (C_CmpInput lhs rhs op inversed) =
     (case (mapping lhs, mapping rhs) of
        (Some l, Some r) \<Rightarrow> do {
          l \<leftarrow> (if inversed then vs_inverse ir l else Some l);
          op_evaluate op l r }
      | _ \<Rightarrow> Some TMaybe)"

definition cond_instantiate ::
  "ir_desc \<Rightarrow> choice_instance list \<Rightarrow> input_mapping \<Rightarrow> condition \<Rightarrow> condition option" where
  "cond_instantiate ir inputs mapping cond = do {
     t \<leftarrow> cond_evaluate ir inputs mapping cond;
     Some (case as_bool t of Some b \<Rightarrow> C_Bool b | None \<Rightarrow> cond) }"

fun cond_normalize :: "ir_desc \<Rightarrow> choice_instance list \<Rightarrow> condition \<Rightarrow> condition option" where
  "cond_normalize ir inputs (C_Bool b) = Some (C_Bool b)"
| "cond_normalize ir inputs (C_CmpInput lhs rhs op inversed) =
     Some (if lhs > rhs then C_CmpInput rhs lhs (op_inverse op) inversed else C_CmpInput lhs rhs op inversed)"
| "cond_normalize ir inputs (C_CmpCode lhs rhs op) = Some (C_CmpCode lhs (code_normalize rhs) op)"
| "cond_normalize ir inputs (C_Code c negate) = Some (C_Code (code_normalize c) negate)"
| "cond_normalize ir inputs (C_Enum input values negate inversed) = do {
     e \<leftarrow> input_enum ir inputs input;
     Some (C_Enum input (normalize_values values negate inversed e) False False) }"

fun cond_adapt :: "adaptator \<Rightarrow> condition \<Rightarrow> condition option" where
  "cond_adapt ad (C_Bool b) = Some (C_Bool b)"
| "cond_adapt ad (C_Enum input values negate inversed) =
     (let (input', i) = ad_input ad input in Some (C_Enum input' values negate (inversed \<noteq> i)))"
| "cond_adapt ad (C_Code c negate) = Some (C_Code (code_adapt ad c) negate)"
| "cond_adapt ad (C_CmpCode lhs rhs op) =
     (let (lhs', i) = ad_input ad lhs in if i then None else Some (C_CmpCode lhs' (code_adapt ad rhs) op))"
| "cond_adapt ad (C_CmpInput lhs rhs op inversed) =
     (let (lhs', li) = ad_input ad lhs; (rhs', ri) = ad_input ad rhs
      in Some (C_CmpInput lhs' rhs' op ((inversed \<noteq> li) \<noteq> ri)))"

section \<open>Rules\<close>

text \<open>The loop of \<^verbatim>\<open>Rule::instantiate\<close>: \<open>Some None\<close> is the early return of a false condition.\<close>

fun conds_instantiate ::
  "ir_desc \<Rightarrow> choice_instance list \<Rightarrow> input_mapping \<Rightarrow> condition list \<Rightarrow> condition list option option" where
  "conds_instantiate ir inputs mapping [] = Some (Some [])"
| "conds_instantiate ir inputs mapping (c # cs) = do {
     c' \<leftarrow> cond_instantiate ir inputs mapping c;
     (case c' of
        C_Bool False \<Rightarrow> Some None
      | _ \<Rightarrow> do {
          rest \<leftarrow> conds_instantiate ir inputs mapping cs;
          Some (map_option (\<lambda>cs'. if c' = C_Bool True then cs' else c' # cs') rest) }) }"

definition rule_instantiate ::
  "ir_desc \<Rightarrow> choice_instance list \<Rightarrow> input_mapping \<Rightarrow> rule \<Rightarrow> rule option option" where
  "rule_instantiate ir inputs mapping r = do {
     conds \<leftarrow> conds_instantiate ir inputs mapping (conditions r);
     (case conds of
        None \<Rightarrow> Some None
      | Some cs \<Rightarrow> do {
          alts \<leftarrow> vs_instantiate ir mapping (alternatives r);
          Some (Some (r\<lparr>conditions := cs, alternatives := alts\<rparr>)) }) }"

definition rule_normalize :: "ir_desc \<Rightarrow> choice_instance list \<Rightarrow> rule \<Rightarrow> rule option" where
  "rule_normalize ir inputs r = do {
     cs \<leftarrow> those (map (cond_normalize ir inputs) (conditions r));
     Some (r\<lparr>conditions := sort cs\<rparr>) }"

definition rule_adapt :: "adaptator \<Rightarrow> rule \<Rightarrow> rule option" where
  "rule_adapt ad r = do {
     cs \<leftarrow> those (map (cond_adapt ad) (conditions r));
     alts \<leftarrow> vs_adapt ad (alternatives r);
     Some \<lparr>conditions = cs, alternatives = alts, r_set_constraints = sc_adapt ad (r_set_constraints r)\<rparr> }"

end
