(* ===== verification/IR_Semantics.thy ===== *)
theory IR_Semantics
  imports IR_Filter
begin

text \<open>
  The meaning of conditions, sets of values, rules and filters in a context that assigns a value
  to every input, and the lemmas that instantiation, normalisation and intersection of
  \<^verbatim>\<open>ir/filter.rs\<close> keep it. Host code is opaque text: its value in a context is given by the
  functions \<open>ctx_code\<close> and \<open>ctx_num\<close>.
\<close>

section \<open>Contexts\<close>

datatype val = EVal string | IVal int

record ctx =
  ctx_input :: "nat \<Rightarrow> val"
  ctx_code :: "code \<Rightarrow> bool"
  ctx_num :: "code \<Rightarrow> int"
  ctx_sets :: "variable \<Rightarrow> ir_set"

fun op_holds :: "cmp_op \<Rightarrow> int \<Rightarrow> int \<Rightarrow> bool" where
  "op_holds Lt a b = (a < b)" | "op_holds Gt a b = (a > b)" | "op_holds Leq a b = (a \<le> b)"
| "op_holds Geq a b = (a \<ge> b)" | "op_holds Eq a b = (a = b)" | "op_holds Neq a b = (a \<noteq> b)"

fun op_holds_enum :: "cmp_op \<Rightarrow> string \<Rightarrow> string \<Rightarrow> bool" where
  "op_holds_enum Eq a b = (a = b)" | "op_holds_enum Neq a b = (a \<noteq> b)" | "op_holds_enum _ a b = False"

definition inverse_if :: "bool \<Rightarrow> enum_def option \<Rightarrow> string \<Rightarrow> string" where
  "inverse_if b e x = (case e of Some e \<Rightarrow> if b then enum_inverse e x else x | None \<Rightarrow> x)"

fun cond_holds :: "ir_desc \<Rightarrow> choice_instance list \<Rightarrow> ctx \<Rightarrow> condition \<Rightarrow> bool" where
  "cond_holds ir inputs cx (C_Bool b) = b"
| "cond_holds ir inputs cx (C_Code c negate) = (ctx_code cx c \<noteq> negate)"
| "cond_holds ir inputs cx (C_Enum input values negate inversed) =
     (case (ctx_input cx input, input_enum ir inputs input) of
        (EVal x, Some e) \<Rightarrow> x |\<in>| normalize_values values negate inversed e
      | _ \<Rightarrow> False)"
| "cond_holds ir inputs cx (C_CmpCode lhs rhs op) =
     (case ctx_input cx lhs of IVal n \<Rightarrow> op_holds op n (ctx_num cx rhs) | EVal _ \<Rightarrow> False)"
| "cond_holds ir inputs cx (C_CmpInput lhs rhs op inversed) =
     (case (ctx_input cx lhs, ctx_input cx rhs) of
        (IVal a, IVal b) \<Rightarrow> op_holds op a b
      | (EVal a, EVal b) \<Rightarrow> op_holds_enum op (inverse_if inversed (input_enum ir inputs lhs) a) b
      | _ \<Rightarrow> False)"

text \<open>The values of a set; a negated input stands for the other values of the enum.\<close>

definition input_member :: "enum_def option \<Rightarrow> ctx \<Rightarrow> string \<Rightarrow> nat \<times> bool \<times> bool \<Rightarrow> bool" where
  "input_member e cx x = (\<lambda>(i, negate, inversed).
     (case ctx_input cx i of
        EVal y \<Rightarrow> if negate then (case e of Some e \<Rightarrow> x \<in> set (enum_keys e) | None \<Rightarrow> False)
                   \<and> x \<noteq> inverse_if inversed e y
                 else x = inverse_if inversed e y
      | IVal _ \<Rightarrow> False))"

fun vs_member :: "ir_desc \<Rightarrow> ctx \<Rightarrow> value_set \<Rightarrow> val \<Rightarrow> bool" where
  "vs_member ir cx (VS_Enum name values inputs) v =
     (case v of EVal x \<Rightarrow> x |\<in>| values \<or> (\<exists>t |\<in>| inputs. input_member (get_enum ir name) cx x t)
      | IVal _ \<Rightarrow> False)"
| "vs_member ir cx (VS_Integer full ins code' u) v =
     (full \<or> (case v of
        IVal n \<Rightarrow> (\<exists>p |\<in>| ins. case ctx_input cx (snd p) of IVal m \<Rightarrow> op_holds (fst p) n m | EVal _ \<Rightarrow> False)
          \<or> (\<exists>p |\<in>| code'. op_holds (fst p) n (ctx_num cx (snd p)))
      | EVal _ \<Rightarrow> False))"

definition sc_holds :: "ctx \<Rightarrow> set_constraints \<Rightarrow> bool" where
  "sc_holds cx constraints \<longleftrightarrow>
     (\<forall>(v, t) \<in> set constraints. set_is_subset_of (ctx_sets cx v) t = Some True)"

definition rule_allows :: "ir_desc \<Rightarrow> choice_instance list \<Rightarrow> ctx \<Rightarrow> rule \<Rightarrow> val \<Rightarrow> bool" where
  "rule_allows ir inputs cx r v \<longleftrightarrow>
     ((\<forall>c \<in> set (conditions r). cond_holds ir inputs cx c) \<and> sc_holds cx (r_set_constraints r)
      \<longrightarrow> vs_member ir cx (alternatives r) v)"

definition rules_allow :: "ir_desc \<Rightarrow> choice_instance list \<Rightarrow> ctx \<Rightarrow> rule list \<Rightarrow> val \<Rightarrow> bool" where
  "rules_allow ir inputs cx rs v \<longleftrightarrow> (\<forall>r \<in> set rs. rule_allows ir inputs cx r v)"

fun filter_allows :: "ir_desc \<Rightarrow> choice_instance list \<Rightarrow> ctx \<Rightarrow> sub_filter \<Rightarrow> val \<Rightarrow> bool" where
  "filter_allows ir inputs cx (Rules rs) v \<longleftrightarrow> rules_allow ir inputs cx rs v"
| "filter_allows ir inputs cx (Switch input cases) v \<longleftrightarrow>
     (\<exists>c \<in> set cases. vs_member ir cx (fst c) (ctx_input cx input) \<and> filter_allows ir inputs cx (snd c) v)"

section \<open>Well-formed enums, inputs and rules\<close>

definition enum_wf :: "enum_def \<Rightarrow> bool" where
  "enum_wf e \<longleftrightarrow> (case e_inverse e of None \<Rightarrow> True
     | Some m \<Rightarrow> distinct (map fst m @ map snd m))"

lemma inverse_lookup_involution:
  "distinct (map fst m @ map snd m) \<Longrightarrow> inverse_lookup m (inverse_lookup m x) = x"
proof -
  have notin: "x \<notin> fst ` set m \<Longrightarrow> x \<notin> snd ` set m \<Longrightarrow> inverse_lookup m x = x" for x
    by (induction m x rule: inverse_lookup.induct) auto
  have mem: "(a, b) \<in> set m \<Longrightarrow> distinct (map fst m @ map snd m) \<Longrightarrow>
      inverse_lookup m a = b \<and> inverse_lookup m b = a" for a b
  proof (induction m)
    case (Cons p m)
    obtain l r where p: "p = (l, r)" by (cases p)
    show ?case using Cons p by (auto simp: rev_image_eqI)
  qed simp
  assume d: "distinct (map fst m @ map snd m)"
  show ?thesis
  proof (cases "x \<in> fst ` set m \<or> x \<in> snd ` set m")
    case True
    then show ?thesis using mem d by fastforce
  next
    case False
    then show ?thesis using notin by simp
  qed
qed

lemma enum_inverse_involution: "enum_wf e \<Longrightarrow> enum_inverse e (enum_inverse e x) = x"
  using inverse_lookup_involution by (auto simp: enum_wf_def enum_inverse_def split: option.splits)

lemma enum_inverse_eq_iff: "enum_wf e \<Longrightarrow> enum_inverse e a = b \<longleftrightarrow> a = enum_inverse e b"
  using enum_inverse_involution by metis

text \<open>
  A condition is well formed when the inputs it names exist, those of an enum condition are enum
  inputs, and an inversed comparison is between inputs of one enum.
\<close>

fun cond_wf :: "ir_desc \<Rightarrow> choice_instance list \<Rightarrow> condition \<Rightarrow> bool" where
  "cond_wf ir inputs (C_Enum input values negate inversed) \<longleftrightarrow> input_enum ir inputs input \<noteq> None"
| "cond_wf ir inputs (C_CmpInput lhs rhs op inversed) \<longleftrightarrow>
     (inversed \<longrightarrow> input_enum ir inputs lhs = input_enum ir inputs rhs \<and>
       (case input_enum ir inputs lhs of Some e \<Rightarrow> enum_wf e | None \<Rightarrow> True))"
| "cond_wf ir inputs _ \<longleftrightarrow> True"

fun vs_wf :: "ir_desc \<Rightarrow> choice_instance list \<Rightarrow> value_set \<Rightarrow> bool" where
  "vs_wf ir inputs (VS_Enum name values ins) \<longleftrightarrow>
     (case get_enum ir name of None \<Rightarrow> False
      | Some e \<Rightarrow> \<forall>t |\<in>| ins. input_enum ir inputs (fst t) = Some e)"
| "vs_wf ir inputs (VS_Integer _ _ _ _) \<longleftrightarrow> True"

definition rule_wf :: "ir_desc \<Rightarrow> choice_instance list \<Rightarrow> rule \<Rightarrow> bool" where
  "rule_wf ir inputs r \<longleftrightarrow> (\<forall>c \<in> set (conditions r). cond_wf ir inputs c) \<and> vs_wf ir inputs (alternatives r)"

text \<open>
  A description is well formed when every enum is registered under its own name. The values of a
  context agree with the types of the inputs.
\<close>

definition ir_wf :: "ir_desc \<Rightarrow> bool" where
  "ir_wf ir \<longleftrightarrow> (\<forall>(n, e) \<in> set (ir_enums ir). e_name e = n \<and> enum_wf e \<and> distinct (enum_keys e))"

definition ctx_typed :: "ir_desc \<Rightarrow> choice_instance list \<Rightarrow> ctx \<Rightarrow> bool" where
  "ctx_typed ir inputs cx \<longleftrightarrow> (\<forall>i<length inputs. case input_enum ir inputs i of
     Some e \<Rightarrow> (\<exists>x \<in> set (enum_keys e). ctx_input cx i = EVal x) | None \<Rightarrow> True)"

lemma ir_wfD: "ir_wf ir \<Longrightarrow> get_enum ir n = Some e \<Longrightarrow> e_name e = n \<and> enum_wf e \<and> distinct (enum_keys e)"
  by (auto simp: ir_wf_def get_enum_def dest: map_of_SomeD)

text \<open>An assignment that agrees with a context: singletons of the value of an enum input.\<close>

definition mapping_ok :: "ir_desc \<Rightarrow> choice_instance list \<Rightarrow> ctx \<Rightarrow> input_mapping \<Rightarrow> bool" where
  "mapping_ok ir inputs cx m \<longleftrightarrow> (\<forall>i s. m i = Some s \<longrightarrow>
     (\<exists>e x. input_enum ir inputs i = Some e \<and> get_enum ir (e_name e) = Some e
        \<and> ctx_input cx i = EVal x \<and> s = VS_Enum (e_name e) {|x|} {||}))"

section \<open>Evaluation of conditions\<close>

lemma mapping_okE:
  assumes "mapping_ok ir inputs cx m" "m i = Some s"
  obtains e x where "input_enum ir inputs i = Some e" "get_enum ir (e_name e) = Some e"
    "ctx_input cx i = EVal x" "s = VS_Enum (e_name e) {|x|} {||}"
  using assms unfolding mapping_ok_def by blast

lemma vs_is_single:
  "vs_is (VS_Enum n {|x|} {||}) (VS_Enum n' vals {||}) = Some (if x |\<in>| vals then TTrue else TFalse)"
  by auto

lemma op_evaluate_single:
  assumes "op_evaluate op (VS_Enum n {|x|} {||}) (VS_Enum n' {|y|} {||}) = Some t"
  shows "t = TTrue \<Longrightarrow> op_holds_enum op x y" and "t = TFalse \<Longrightarrow> \<not> op_holds_enum op x y"
  using assms by (cases op; auto simp: is_true_def split: if_splits)+

lemma op_evaluate_defined:
  "\<exists>t. op_evaluate op (VS_Enum n {|x|} {||}) (VS_Enum n' {|y|} {||}) = Some t"
  by (cases op) auto

lemma cond_evaluate_sound:
  assumes "mapping_ok ir inputs cx m" "cond_wf ir inputs c"
  shows "\<exists>t. cond_evaluate ir inputs m c = Some t
    \<and> (t = TTrue \<longrightarrow> cond_holds ir inputs cx c) \<and> (t = TFalse \<longrightarrow> \<not> cond_holds ir inputs cx c)"
proof (cases c)
  case (C_Enum i vals negate inversed)
  then obtain e where e: "input_enum ir inputs i = Some e" using assms(2) by auto
  show ?thesis
  proof (cases "m i")
    case (Some s)
    then obtain e' x where "input_enum ir inputs i = Some e'" "ctx_input cx i = EVal x"
      "s = VS_Enum (e_name e') {|x|} {||}"
      using mapping_okE [OF assms(1)] by metis
    then show ?thesis
      using C_Enum Some e vs_is_single by (simp add: normalized_enum_set_def vs_enum_values_def)
  qed (simp add: C_Enum e)
next
  case (C_CmpInput l r op inversed)
  show ?thesis
  proof (cases "m l = None \<or> m r = None")
    case False
    then obtain sl sr where m: "m l = Some sl" "m r = Some sr" by auto
    obtain el x where l: "input_enum ir inputs l = Some el" "get_enum ir (e_name el) = Some el"
      "ctx_input cx l = EVal x" "sl = VS_Enum (e_name el) {|x|} {||}"
      using mapping_okE [OF assms(1) m(1)] by metis
    obtain er :: enum_def and y where r: "ctx_input cx r = EVal y" "sr = VS_Enum (e_name er) {|y|} {||}"
      using mapping_okE [OF assms(1) m(2)] by metis
    let ?x = "if inversed then enum_inverse el x else x"
    have inv: "(if inversed then vs_inverse ir sl else Some sl) = Some (VS_Enum (e_name el) {|?x|} {||})"
      using l by simp
    obtain t where t: "op_evaluate op (VS_Enum (e_name el) {|?x|} {||}) (VS_Enum (e_name er) {|y|} {||}) = Some t"
      using op_evaluate_defined by blast
    have "cond_evaluate ir inputs m c = Some t" using C_CmpInput m inv t r(2) by simp
    moreover have "cond_holds ir inputs cx c \<longleftrightarrow> op_holds_enum op ?x y"
      using C_CmpInput l r by (simp add: inverse_if_def)
    ultimately show ?thesis using op_evaluate_single [OF t] by auto
  qed (auto simp: C_CmpInput split: option.splits)
qed auto

lemma cond_instantiate_sound:
  assumes "mapping_ok ir inputs cx m" "cond_wf ir inputs c"
  shows "\<exists>c'. cond_instantiate ir inputs m c = Some c' \<and> cond_wf ir inputs c'
    \<and> (cond_holds ir inputs cx c' \<longleftrightarrow> cond_holds ir inputs cx c)"
proof -
  obtain t where t: "cond_evaluate ir inputs m c = Some t"
    "t = TTrue \<longrightarrow> cond_holds ir inputs cx c" "t = TFalse \<longrightarrow> \<not> cond_holds ir inputs cx c"
    using cond_evaluate_sound [OF assms] by blast
  then show ?thesis using assms(2) by (cases t) (auto simp: cond_instantiate_def)
qed

lemma conds_instantiate_sound:
  assumes "mapping_ok ir inputs cx m" "\<forall>c \<in> set cs. cond_wf ir inputs c"
  shows "\<exists>res. conds_instantiate ir inputs m cs = Some res \<and>
    (case res of None \<Rightarrow> \<not> (\<forall>c \<in> set cs. cond_holds ir inputs cx c)
     | Some cs' \<Rightarrow> (\<forall>c \<in> set cs'. cond_wf ir inputs c) \<and>
         ((\<forall>c \<in> set cs'. cond_holds ir inputs cx c) \<longleftrightarrow> (\<forall>c \<in> set cs. cond_holds ir inputs cx c)))"
  using assms(2)
proof (induction cs)
  case (Cons c cs)
  obtain c' where c: "cond_instantiate ir inputs m c = Some c'" "cond_wf ir inputs c'"
    "cond_holds ir inputs cx c' \<longleftrightarrow> cond_holds ir inputs cx c"
    using cond_instantiate_sound [OF assms(1), of c] Cons.prems by auto
  obtain res where res: "conds_instantiate ir inputs m cs = Some res" and
    ih: "case res of None \<Rightarrow> \<not> (\<forall>c \<in> set cs. cond_holds ir inputs cx c)
     | Some cs' \<Rightarrow> (\<forall>c \<in> set cs'. cond_wf ir inputs c) \<and>
         ((\<forall>c \<in> set cs'. cond_holds ir inputs cx c) \<longleftrightarrow> (\<forall>c \<in> set cs. cond_holds ir inputs cx c))"
    using Cons by auto
  show ?case
  proof (cases "c' = C_Bool False")
    case True
    then show ?thesis using c by simp
  next
    case False
    then have step: "conds_instantiate ir inputs m (c # cs)
        = Some (map_option (\<lambda>cs'. if c' = C_Bool True then cs' else c' # cs') res)"
      using c(1) res by (auto split: condition.splits bool.splits)
    show ?thesis unfolding step using c(2,3) ih by (cases res) auto
  qed
qed simp

section \<open>Instantiation of sets\<close>

lemma instantiate_input_sound:
  assumes "mapping_ok ir inputs cx m" "get_enum ir n = Some e" "e_name e = n"
    "input_enum ir inputs (fst t) = Some e" "\<forall>u |\<in>| ins. input_enum ir inputs (fst u) = Some e"
  shows "\<exists>vals' ins'. instantiate_input ir m e t (vals, ins) = Some (vals', ins')
    \<and> (\<forall>u |\<in>| ins'. input_enum ir inputs (fst u) = Some e)
    \<and> (\<forall>x. (x |\<in>| vals' \<or> (\<exists>u |\<in>| ins'. input_member (Some e) cx x u)) \<longleftrightarrow>
         (x |\<in>| vals \<or> (\<exists>u |\<in>| ins. input_member (Some e) cx x u) \<or> input_member (Some e) cx x t))"
proof -
  obtain i negate inversed where t: "t = (i, negate, inversed)" by (cases t)
  show ?thesis
  proof (cases "m i")
    case None
    then show ?thesis using assms(4,5) t by auto
  next
    case (Some s)
    obtain e' y where s: "input_enum ir inputs i = Some e'" "get_enum ir (e_name e') = Some e'"
      "ctx_input cx i = EVal y" "s = VS_Enum (e_name e') {|y|} {||}"
      using mapping_okE [OF assms(1) Some] by metis
    then have e': "e' = e" using assms(4) t by simp
    let ?y = "if inversed then enum_inverse e y else y"
    have "(if inversed then vs_inverse ir s else Some s) = Some (VS_Enum (e_name e) {|?y|} {||})"
      using s e' assms(2,3) by simp
    then show ?thesis
      using Some t assms(5) s(3) by (auto simp: input_member_def inverse_if_def fset_of_list_elem)
  qed
qed

lemma instantiate_fold_sound:
  assumes "mapping_ok ir inputs cx m" "get_enum ir n = Some e" "e_name e = n"
    "\<forall>t \<in> set ts. input_enum ir inputs (fst t) = Some e" "\<forall>u |\<in>| ins. input_enum ir inputs (fst u) = Some e"
  shows "\<exists>vals' ins'. fold_option (instantiate_input ir m e) ts (vals, ins) = Some (vals', ins')
    \<and> (\<forall>u |\<in>| ins'. input_enum ir inputs (fst u) = Some e)
    \<and> (\<forall>x. (x |\<in>| vals' \<or> (\<exists>u |\<in>| ins'. input_member (Some e) cx x u)) \<longleftrightarrow>
         (x |\<in>| vals \<or> (\<exists>u |\<in>| ins. input_member (Some e) cx x u) \<or> (\<exists>t \<in> set ts. input_member (Some e) cx x t)))"
  using assms(4,5)
proof (induction ts arbitrary: vals ins)
  case (Cons t ts)
  obtain v1 i1 where 1: "instantiate_input ir m e t (vals, ins) = Some (v1, i1)"
    "\<forall>u |\<in>| i1. input_enum ir inputs (fst u) = Some e"
    "\<And>x. (x |\<in>| v1 \<or> (\<exists>u |\<in>| i1. input_member (Some e) cx x u)) \<longleftrightarrow>
         (x |\<in>| vals \<or> (\<exists>u |\<in>| ins. input_member (Some e) cx x u) \<or> input_member (Some e) cx x t)"
    using instantiate_input_sound [OF assms(1,2,3), of t ins vals] Cons.prems by auto
  obtain v2 i2 where 2: "fold_option (instantiate_input ir m e) ts (v1, i1) = Some (v2, i2)"
    "\<forall>u |\<in>| i2. input_enum ir inputs (fst u) = Some e"
    "\<And>x. (x |\<in>| v2 \<or> (\<exists>u |\<in>| i2. input_member (Some e) cx x u)) \<longleftrightarrow>
         (x |\<in>| v1 \<or> (\<exists>u |\<in>| i1. input_member (Some e) cx x u) \<or> (\<exists>t \<in> set ts. input_member (Some e) cx x t))"
    using Cons.IH [of i1 v1] Cons.prems 1(2) by auto
  have "fold_option (instantiate_input ir m e) (t # ts) (vals, ins) = Some (v2, i2)"
    using 1(1) 2(1) by simp
  moreover have "(x |\<in>| v2 \<or> (\<exists>u |\<in>| i2. input_member (Some e) cx x u)) \<longleftrightarrow>
      (x |\<in>| vals \<or> (\<exists>u |\<in>| ins. input_member (Some e) cx x u) \<or> (\<exists>t \<in> set (t # ts). input_member (Some e) cx x t))" for x
    using 1(3) [of x] 2(3) [of x] by auto
  ultimately show ?case using 2(2) by blast
qed auto

lemma vs_instantiate_sound:
  assumes "ir_wf ir" "mapping_ok ir inputs cx m" "vs_wf ir inputs s"
  shows "\<exists>s'. vs_instantiate ir m s = Some s' \<and> vs_wf ir inputs s'
    \<and> (\<forall>v. vs_member ir cx s' v \<longleftrightarrow> vs_member ir cx s v)"
proof (cases s)
  case (VS_Enum n vals ins)
  then obtain e where e: "get_enum ir n = Some e" "\<forall>t |\<in>| ins. input_enum ir inputs (fst t) = Some e"
    using assms(3) by (auto split: option.splits)
  obtain v' i' where f: "fold_option (instantiate_input ir m e) (sorted_list_of_fset ins) (vals, {||}) = Some (v', i')"
    "\<forall>u |\<in>| i'. input_enum ir inputs (fst u) = Some e"
    "\<And>x. (x |\<in>| v' \<or> (\<exists>u |\<in>| i'. input_member (Some e) cx x u)) \<longleftrightarrow>
         (x |\<in>| vals \<or> (\<exists>t |\<in>| ins. input_member (Some e) cx x t))"
    using instantiate_fold_sound [OF assms(2) e(1), of "sorted_list_of_fset ins" "{||}" vals]
      e(2) ir_wfD [OF assms(1) e(1)] by auto
  then show ?thesis using VS_Enum e(1) by (auto split: val.splits)
qed simp

lemma rule_instantiate_sound:
  assumes "ir_wf ir" "mapping_ok ir inputs cx m" "rule_wf ir inputs r"
  shows "\<exists>res. rule_instantiate ir inputs m r = Some res \<and>
    (case res of None \<Rightarrow> \<forall>v. rule_allows ir inputs cx r v
     | Some r' \<Rightarrow> rule_wf ir inputs r' \<and> (\<forall>v. rule_allows ir inputs cx r' v \<longleftrightarrow> rule_allows ir inputs cx r v))"
proof -
  obtain res where res: "conds_instantiate ir inputs m (conditions r) = Some res" and
    cs: "case res of None \<Rightarrow> \<not> (\<forall>c \<in> set (conditions r). cond_holds ir inputs cx c)
     | Some cs' \<Rightarrow> (\<forall>c \<in> set cs'. cond_wf ir inputs c) \<and>
         ((\<forall>c \<in> set cs'. cond_holds ir inputs cx c) \<longleftrightarrow> (\<forall>c \<in> set (conditions r). cond_holds ir inputs cx c))"
    using conds_instantiate_sound [OF assms(2), of "conditions r"] assms(3) by (auto simp: rule_wf_def)
  obtain s' where "vs_instantiate ir m (alternatives r) = Some s'" "vs_wf ir inputs s'"
    "\<forall>v. vs_member ir cx s' v \<longleftrightarrow> vs_member ir cx (alternatives r) v"
    using vs_instantiate_sound [OF assms(1,2), of "alternatives r"] assms(3) by (auto simp: rule_wf_def)
  then show ?thesis
    using res cs by (cases res) (auto simp: rule_instantiate_def rule_allows_def rule_wf_def)
qed

section \<open>Normalisation and intersection\<close>

lemma op_holds_inverse: "op_holds (op_inverse op) b a \<longleftrightarrow> op_holds op a b"
  by (cases op) auto

lemma op_holds_negate: "op_holds (op_negate op) a b \<longleftrightarrow> \<not> op_holds op a b"
  by (cases op) auto

lemma op_holds_enum_inverse: "op_holds_enum (op_inverse op) b a \<longleftrightarrow> op_holds_enum op a b"
  by (cases op) auto

lemma normalize_values_plain [simp]: "normalize_values vals False False e = vals"
  by (simp add: normalize_values_def)

text \<open>The host code keeps its meaning when its variables are renamed by \<^verbatim>\<open>Code::normalize\<close>.\<close>

definition code_stable :: "ctx \<Rightarrow> condition \<Rightarrow> bool" where
  "code_stable cx c \<longleftrightarrow> (case c of
     C_Code c _ \<Rightarrow> ctx_code cx (code_normalize c) = ctx_code cx c
   | C_CmpCode _ c _ \<Rightarrow> ctx_num cx (code_normalize c) = ctx_num cx c
   | _ \<Rightarrow> True)"

lemma cond_normalize_sound:
  assumes "cond_wf ir inputs c" "code_stable cx c"
  shows "\<exists>c'. cond_normalize ir inputs c = Some c'
    \<and> (cond_holds ir inputs cx c' \<longleftrightarrow> cond_holds ir inputs cx c)"
proof (cases c)
  case (C_CmpInput l r op inversed)
  show ?thesis
  proof (cases "l > r")
    case True
    have flip: "op_holds_enum op (inverse_if inversed (input_enum ir inputs l) a) b \<longleftrightarrow>
        op_holds_enum (op_inverse op) (inverse_if inversed (input_enum ir inputs r) b) a" for a b
      using assms(1) C_CmpInput enum_inverse_eq_iff
      by (cases op) (auto simp: inverse_if_def split: option.splits)
    then show ?thesis
      using True C_CmpInput op_holds_inverse by (auto split: val.splits)
  qed (simp add: C_CmpInput)
qed (use assms in \<open>auto simp: code_stable_def split: val.splits\<close>)

lemma conds_normalize_sound:
  assumes "\<forall>c \<in> set cs. cond_wf ir inputs c \<and> code_stable cx c"
  shows "\<exists>cs'. those (map (cond_normalize ir inputs) cs) = Some cs'
    \<and> ((\<forall>c \<in> set cs'. cond_holds ir inputs cx c) \<longleftrightarrow> (\<forall>c \<in> set cs. cond_holds ir inputs cx c))"
  using assms
proof (induction cs)
  case (Cons c cs)
  obtain c' where "cond_normalize ir inputs c = Some c'"
    "cond_holds ir inputs cx c' \<longleftrightarrow> cond_holds ir inputs cx c"
    using cond_normalize_sound [of ir inputs c cx] Cons.prems by auto
  then show ?case using Cons by auto
qed simp

lemma rule_normalize_sound:
  assumes "rule_wf ir inputs r" "\<forall>c \<in> set (conditions r). code_stable cx c"
  shows "\<exists>r'. rule_normalize ir inputs r = Some r' \<and> alternatives r' = alternatives r
    \<and> r_set_constraints r' = r_set_constraints r
    \<and> (\<forall>v. rule_allows ir inputs cx r' v \<longleftrightarrow> rule_allows ir inputs cx r v)"
proof -
  obtain cs' where "those (map (cond_normalize ir inputs) (conditions r)) = Some cs'"
    "(\<forall>c \<in> set cs'. cond_holds ir inputs cx c) \<longleftrightarrow> (\<forall>c \<in> set (conditions r). cond_holds ir inputs cx c)"
    using conds_normalize_sound [of "conditions r" ir inputs cx] assms by (auto simp: rule_wf_def)
  then show ?thesis by (simp add: rule_normalize_def rule_allows_def)
qed

text \<open>The sets of one kind: intersecting an enum set with an integer set that is not full panics.\<close>

fun same_kind :: "value_set \<Rightarrow> value_set \<Rightarrow> bool" where
  "same_kind (VS_Enum _ _ _) (VS_Enum _ _ _) = True"
| "same_kind (VS_Integer _ _ _ _) (VS_Integer _ _ _ _) = True"
| "same_kind _ _ = False"

lemma int_member_mono:
  "ins |\<subseteq>| ins' \<Longrightarrow> code1 |\<subseteq>| code2 \<Longrightarrow> vs_member ir cx (VS_Integer f ins code1 u) v \<Longrightarrow>
    vs_member ir cx (VS_Integer f ins' code2 u') v"
  by (cases v) (auto 0 3)

lemma vs_intersect_sound:
  assumes "same_kind s t"
  shows "\<exists>ok s'. vs_intersect_with s t = Some (ok, s') \<and> same_kind s s'
    \<and> (if ok then \<forall>v. vs_member ir cx s' v \<longleftrightarrow> vs_member ir cx s v \<and> vs_member ir cx t v else s' = s)"
proof (cases s)
  case (VS_Enum n vals ins)
  then obtain n' vals' ins' where "t = VS_Enum n' vals' ins'" using assms by (cases t) auto
  then show ?thesis using VS_Enum by (auto split: val.splits)
next
  case (VS_Integer full ins code' u)
  then obtain full' ins' code'' u' where t: "t = VS_Integer full' ins' code'' u'" using assms by (cases t) auto
  consider "full" | "\<not> full" "full'" | "\<not> full" "\<not> full'" "ins' |\<subseteq>| ins \<and> code'' |\<subseteq>| code'"
    | "\<not> full" "\<not> full'" "\<not> (ins' |\<subseteq>| ins \<and> code'' |\<subseteq>| code')" by blast
  then show ?thesis
  proof cases
    case 3
    then show ?thesis
      using VS_Integer t int_member_mono [of ins' ins code'' code' ir cx False u'] by auto
  next
    case 4
    then show ?thesis
      using VS_Integer t int_member_mono [of ins ins' code' code'' ir cx False u] by auto
  qed (use VS_Integer t in auto)
qed

lemma vset_is_empty_member: "vset_is_empty s \<Longrightarrow> \<not> vs_member ir cx s v"
  by (cases s) (auto split: val.splits)

lemma vs_extend_member:
  assumes "same_kind s t" "vs_enum_name s = vs_enum_name t \<or> vs_inputs t = {||}"
  shows "\<exists>s'. vs_extend s t = Some s' \<and>
    (\<forall>v. vs_member ir cx s' v \<longleftrightarrow> vs_member ir cx s v \<or> vs_member ir cx t v)"
  using assms by (cases s; cases t) (auto split: val.splits)

end
