(* ===== verification/ND_Array.thy ===== *)
theory ND_Array
  imports Telamon_Prelude "HOL-Library.Monad_Syntax"
begin

text \<open>
  Arrays with a variable number of dimensions, ranges of indexes and mutable views
  (\<^verbatim>\<open>telamon-utils/src/ndarray.rs\<close>). A view refers to its array through a raw pointer: here the array is an
  argument of the operations of the view, and a write returns the new array. Sizes and
  indexes are natural numbers.
\<close>

section \<open>Arrays\<close>

record 'a nd_array =
  nd_dims :: "nat list"
  nd_data :: "'a list"

definition nd_new :: "nat list \<Rightarrow> 'a list \<Rightarrow> 'a nd_array option" where
  "nd_new ds xs = (if length xs = prod_list ds then Some \<lparr>nd_dims = ds, nd_data = xs\<rparr> else None)"

definition nd_init_default :: "'a \<Rightarrow> nat list \<Rightarrow> 'a nd_array" where
  "nd_init_default dflt ds = \<lparr>nd_dims = ds, nd_data = map (\<lambda>_. dflt) [0..<prod_list ds]\<rparr>"

definition nd_num_dims :: "'a nd_array \<Rightarrow> nat" where
  "nd_num_dims arr = length (nd_dims arr)"

definition nd_to_1d :: "'a nd_array \<Rightarrow> nat list \<Rightarrow> nat option" where
  "nd_to_1d arr indexes =
     (if length (nd_dims arr) = length indexes
      then Some (fold (\<lambda>(y, z) x. x * y + z) (zip (nd_dims arr) indexes) 0) else None)"

definition nd_index :: "'a nd_array \<Rightarrow> nat list \<Rightarrow> 'a option" where
  "nd_index arr indexes = do {
     i \<leftarrow> nd_to_1d arr indexes;
     if i < length (nd_data arr) then Some (nd_data arr ! i) else None }"

text \<open>A write through the reference that \<^verbatim>\<open>index_mut\<close> returns.\<close>

definition nd_index_mut :: "'a nd_array \<Rightarrow> nat list \<Rightarrow> 'a \<Rightarrow> 'a nd_array option" where
  "nd_index_mut arr indexes v = do {
     i \<leftarrow> nd_to_1d arr indexes;
     if i < length (nd_data arr) then Some (arr\<lparr>nd_data := (nd_data arr)[i := v]\<rparr>) else None }"

section \<open>Ranges\<close>

record nd_range =
  nr_max :: "nat list"
  nr_current :: "nat list option"

definition nd_range_new :: "nat list \<Rightarrow> nd_range" where
  "nd_range_new bounds =
     \<lparr>nr_max = bounds,
      nr_current = (if \<exists>x\<in>set bounds. x = 0 then None else Some (map (\<lambda>_. 0) [0..<length bounds]))\<rparr>"

text \<open>The \<^verbatim>\<open>loop\<close> of \<^verbatim>\<open>next\<close>, from position \<open>i\<close> down.\<close>

fun nd_incr :: "nat list \<Rightarrow> nat list \<Rightarrow> nat \<Rightarrow> nat list" where
  "nd_incr bounds current i =
     (let current = current[i := current ! i + 1] in
      if current ! i \<noteq> bounds ! i then current
      else (case i of 0 \<Rightarrow> current | Suc j \<Rightarrow> nd_incr bounds (current[i := 0]) j))"

declare nd_incr.simps [simp del]

definition nd_range_next :: "nd_range \<Rightarrow> nat list option \<times> nd_range" where
  "nd_range_next self =
     (let out = nr_current self;
          stepped = map_option (\<lambda>current. if current = [] then current
            else nd_incr (nr_max self) current (length current - 1)) (nr_current self)
      in (out, self\<lparr>nr_current :=
            (case stepped of
               None \<Rightarrow> None
             | Some x \<Rightarrow> if x = [] \<or> x ! 0 = nr_max self ! 0 then None else Some x)\<rparr>))"

section \<open>Views\<close>

record nd_view =
  v_bounds :: "nat list"
  v_fixed :: "(nat \<times> nat) list"

definition nd_view_mut :: "'a nd_array \<Rightarrow> nd_view" where
  "nd_view_mut arr = \<lparr>v_bounds = nd_dims arr, v_fixed = []\<rparr>"

definition view_num_dims :: "nd_view \<Rightarrow> nat" where
  "view_num_dims v = length (v_bounds v)"

text \<open>\<^verbatim>\<open>Vec::remove\<close> and \<^verbatim>\<open>Vec::insert\<close> at a position within the vector.\<close>

definition vec_remove :: "nat \<Rightarrow> 'a list \<Rightarrow> 'a list" where
  "vec_remove i xs = take i xs @ drop (Suc i) xs"

definition vec_insert :: "nat \<Rightarrow> 'a \<Rightarrow> 'a list \<Rightarrow> 'a list" where
  "vec_insert i x xs = take i xs @ x # drop i xs"

text \<open>\<^verbatim>\<open>position(|(fixed_pos, &(raw_pos, _))| fixed_pos + logical_dim < raw_pos)\<close>, or the length.\<close>

fun fixed_position :: "nat \<Rightarrow> nat \<Rightarrow> (nat \<times> nat) list \<Rightarrow> nat" where
  "fixed_position logical_dim fixed_pos [] = 0"
| "fixed_position logical_dim fixed_pos ((raw_pos, _) # fixed) =
     (if fixed_pos + logical_dim < raw_pos then 0 else Suc (fixed_position logical_dim (Suc fixed_pos) fixed))"

definition view_split :: "nd_view \<Rightarrow> nat \<Rightarrow> nd_view list option" where
  "view_split v logical_dim =
     (if logical_dim < length (v_bounds v) then
        (let dim_len = v_bounds v ! logical_dim;
             pos = fixed_position logical_dim 0 (v_fixed v);
             raw_dim = pos + logical_dim
         in Some (map (\<lambda>idx. \<lparr>v_bounds = vec_remove logical_dim (v_bounds v),
                v_fixed = vec_insert pos (raw_dim, idx) (v_fixed v)\<rparr>) [0..<dim_len]))
      else None)"

text \<open>The loop of \<^verbatim>\<open>flat_index\<close> over the dimensions of the array.\<close>

fun flat_loop ::
  "nat list \<Rightarrow> nat \<Rightarrow> (nat \<times> nat) list \<Rightarrow> nat list \<Rightarrow> nat \<Rightarrow> nat option" where
  "flat_loop [] dim_id fixed indexes flat = Some flat"
| "flat_loop (dim_size # ds) dim_id fixed indexes flat =
     (if fixed \<noteq> [] \<and> fst (hd fixed) = dim_id
      then flat_loop ds (Suc dim_id) (tl fixed) indexes (flat * dim_size + snd (hd fixed))
      else (case indexes of
          [] \<Rightarrow> None
        | idx # indexes' \<Rightarrow> flat_loop ds (Suc dim_id) fixed indexes' (flat * dim_size + idx)))"

definition view_flat_index :: "'a nd_array \<Rightarrow> nd_view \<Rightarrow> nat list \<Rightarrow> nat option" where
  "view_flat_index arr v indexes = flat_loop (nd_dims arr) 0 (v_fixed v) indexes 0"

definition view_index :: "'a nd_array \<Rightarrow> nd_view \<Rightarrow> nat list \<Rightarrow> 'a option" where
  "view_index arr v indexes = do {
     i \<leftarrow> view_flat_index arr v indexes;
     if i < length (nd_data arr) then Some (nd_data arr ! i) else None }"

definition view_index_mut :: "'a nd_array \<Rightarrow> nd_view \<Rightarrow> nat list \<Rightarrow> 'a \<Rightarrow> 'a nd_array option" where
  "view_index_mut arr v indexes x = do {
     i \<leftarrow> view_flat_index arr v indexes;
     if i < length (nd_data arr) then Some (arr\<lparr>nd_data := (nd_data arr)[i := x]\<rparr>) else None }"

text \<open>The iterator over a view: the range over its bounds, read through the view.\<close>

definition view_iter_next ::
  "'a nd_array \<Rightarrow> nd_view \<Rightarrow> nd_range \<Rightarrow> 'a option option \<times> nd_range" where
  "view_iter_next arr v r =
     (case nd_range_next r of
        (None, r') \<Rightarrow> (None, r')
      | (Some idx, r') \<Rightarrow> (Some (view_index arr v idx), r'))"

definition view_enumerate_next ::
  "'a nd_array \<Rightarrow> nd_view \<Rightarrow> nd_range \<Rightarrow> (nat list \<times> 'a option) option \<times> nd_range" where
  "view_enumerate_next arr v r =
     (case nd_range_next r of
        (None, r') \<Rightarrow> (None, r')
      | (Some idx, r') \<Rightarrow> (Some (idx, view_index arr v idx), r'))"

section \<open>Flat indexes\<close>

text \<open>Positions in row-major order, and the indexes of a box in lexicographic order.\<close>

fun flat :: "nat list \<Rightarrow> nat list \<Rightarrow> nat" where
  "flat (d # ds) (i # is) = i * prod_list ds + flat ds is"
| "flat _ _ = 0"

fun in_box :: "nat list \<Rightarrow> nat list \<Rightarrow> bool" where
  "in_box [] [] = True"
| "in_box (d # ds) (i # is) = (i < d \<and> in_box ds is)"
| "in_box _ _ = False"

fun all_indexes :: "nat list \<Rightarrow> nat list list" where
  "all_indexes [] = [[]]"
| "all_indexes (d # ds) = concat (map (\<lambda>i. map ((#) i) (all_indexes ds)) [0..<d])"

lemma in_box_length: "in_box ds is \<Longrightarrow> length is = length ds"
  by (induction ds "is" rule: in_box.induct) auto

lemma in_box_Cons: "in_box (d # ds) x \<longleftrightarrow> (\<exists>i is. x = i # is \<and> i < d \<and> in_box ds is)"
  by (cases x) auto

lemma in_box_Nil [simp]: "in_box [] x \<longleftrightarrow> x = []"
  by (cases x) auto

lemma set_all_indexes: "set (all_indexes ds) = {is. in_box ds is}"
  by (induction ds) (auto simp: in_box_Cons)

lemma flat_less: "in_box ds is \<Longrightarrow> flat ds is < prod_list ds"
proof (induction ds "is" rule: in_box.induct)
  case (2 d ds i "is")
  then have "flat ds is < prod_list ds" "Suc i \<le> d" by auto
  then have "i * prod_list ds + flat ds is < Suc i * prod_list ds" by simp
  also have "... \<le> d * prod_list ds" using \<open>Suc i \<le> d\<close> mult_le_mono1 by blast
  finally show ?case by simp
qed auto

lemma flat_inj: "in_box ds is \<Longrightarrow> in_box ds js \<Longrightarrow> flat ds is = flat ds js \<Longrightarrow> is = js"
proof (induction ds "is" arbitrary: js rule: in_box.induct)
  case (2 d ds i "is")
  then obtain j js' where js: "js = j # js'" "in_box ds js'" by (cases js) auto
  have "flat ds is < prod_list ds" "flat ds js' < prod_list ds" using 2 js flat_less by auto
  moreover have "i * prod_list ds + flat ds is = j * prod_list ds + flat ds js'" using 2 js by simp
  moreover have "(k * n + f) div n = k" "(k * n + f) mod n = f" if "f < n" for k n f :: nat
    using that by simp_all
  ultimately have "i = j \<and> flat ds is = flat ds js'" by metis
  then show ?case using 2 js by auto
qed (auto elim: in_box.elims)

lemma map_flat_all_indexes: "map (flat ds) (all_indexes ds) = [0..<prod_list ds]"
proof (induction ds)
  case (Cons d ds)
  have "map (flat (d # ds)) (all_indexes (d # ds))
      = concat (map (\<lambda>i. map (\<lambda>x. i * prod_list ds + x) [0..<prod_list ds]) [0..<d])"
    by (simp add: map_concat comp_def flip: Cons.IH)
  also have "... = [0..<d * prod_list ds]"
  proof (induction d)
    case (Suc d)
    have "map (\<lambda>x. d * prod_list ds + x) [0..<prod_list ds] = [d * prod_list ds..<Suc d * prod_list ds]"
      using map_add_upt [of "d * prod_list ds" "prod_list ds"] by (simp add: add.commute)
    moreover have "[0..<Suc d * prod_list ds] = [0..<d * prod_list ds] @ [d * prod_list ds..<Suc d * prod_list ds]"
      using upt_add_eq_append [of 0 "d * prod_list ds" "prod_list ds"] by (simp add: add.commute)
    ultimately show ?case using Suc by simp
  qed simp
  finally show ?case by simp
qed simp

lemma fold_flat:
  "length ds = length is \<Longrightarrow>
    fold (\<lambda>(y, z) x. x * y + z) (zip ds is) a = a * prod_list ds + flat ds is"
  by (induction ds "is" arbitrary: a rule: list_induct2) (auto simp: algebra_simps)

lemma nd_to_1d_flat: "length is = length (nd_dims arr) \<Longrightarrow> nd_to_1d arr is = Some (flat (nd_dims arr) is)"
  by (simp add: nd_to_1d_def fold_flat)

lemma flat_update:
  "length is = length ds \<Longrightarrow> i < length is \<Longrightarrow>
    flat ds (is[i := x]) + is ! i * prod_list (drop (Suc i) ds) = flat ds is + x * prod_list (drop (Suc i) ds)"
proof (induction ds arbitrary: "is" i)
  case (Cons d ds)
  obtain j js where js: "is = j # js" using Cons.prems by (cases "is") auto
  show ?case
  proof (cases i)
    case (Suc k)
    then show ?thesis using Cons.IH [of js k] Cons.prems js by auto
  qed (simp add: js)
qed simp

lemma in_box_nth: "in_box ds is \<longleftrightarrow> length is = length ds \<and> (\<forall>i<length ds. is ! i < ds ! i)"
proof (induction ds arbitrary: "is")
  case (Cons d ds)
  show ?case using Cons.IH by (cases "is") (auto simp: less_Suc_eq_0_disj nth_Cons')
qed auto

text \<open>One step of the odometer adds one to the flat index; only the first digit may reach its bound.\<close>

lemma nd_incr_flat:
  "length cur = length ds \<Longrightarrow> i < length ds \<Longrightarrow>
    \<forall>j<length ds. 0 < ds ! j \<Longrightarrow> \<forall>j<length ds. cur ! j < ds ! j \<Longrightarrow>
    length (nd_incr ds cur i) = length ds
    \<and> flat ds (nd_incr ds cur i) = flat ds cur + prod_list (drop (Suc i) ds)
    \<and> (\<forall>j<length ds. j \<noteq> 0 \<longrightarrow> nd_incr ds cur i ! j < ds ! j)
    \<and> nd_incr ds cur i ! 0 \<le> ds ! 0"
proof (induction i arbitrary: cur)
  case 0
  have "nd_incr ds cur 0 = cur[0 := cur ! 0 + 1]" by (subst nd_incr.simps) (simp add: Let_def)
  then show ?case using 0 flat_update [of cur ds 0 "cur ! 0 + 1"] by (auto simp: Suc_le_eq)
next
  case (Suc i)
  let ?k = "Suc i"
  have w: "prod_list (drop ?k ds) = ds ! ?k * prod_list (drop (Suc ?k) ds)"
    using Suc.prems(2) by (simp add: Cons_nth_drop_Suc [symmetric])
  show ?case
  proof (cases "cur ! ?k + 1 = ds ! ?k")
    case True
    have eq: "nd_incr ds cur ?k = nd_incr ds (cur[?k := 0]) i"
      using True Suc.prems(1,2) by (subst nd_incr.simps) (simp add: Let_def)
    have fl: "flat ds (cur[?k := 0]) + cur ! ?k * prod_list (drop (Suc ?k) ds) = flat ds cur"
      using flat_update [of cur ds ?k 0] Suc.prems(1,2) by simp
    have "prod_list (drop ?k ds) = cur ! ?k * prod_list (drop (Suc ?k) ds) + prod_list (drop (Suc ?k) ds)"
      using w True by (metis add.commute mult_Suc Suc_eq_plus1)
    then show ?thesis
      unfolding eq using Suc.IH [of "cur[?k := 0]"] Suc.prems fl by (auto simp: nth_list_update)
  next
    case False
    have eq: "nd_incr ds cur ?k = cur[?k := cur ! ?k + 1]"
      using False Suc.prems(1,2) by (subst nd_incr.simps) (simp add: Let_def)
    have "Suc (cur ! ?k) < ds ! ?k" using False Suc.prems by (auto simp: Suc_lessI)
    moreover have "cur ! 0 < ds ! 0" using Suc.prems(2,4) by (metis gr0I not_less0)
    ultimately show ?thesis
      unfolding eq using Suc.prems flat_update [of cur ds ?k "cur ! ?k + 1"]
      by (auto simp: nth_list_update)
  qed
qed

lemma last_index:
  assumes "length cur = length ds" "cur \<noteq> []" "cur ! 0 = ds ! 0"
  shows "prod_list ds \<le> flat ds cur"
  using assms by (cases ds; cases cur) auto

text \<open>The state of a range after \<open>k\<close> steps: the digits of \<open>k\<close>, until all positions are consumed.\<close>

definition range_at :: "nat list \<Rightarrow> nat \<Rightarrow> nd_range \<Rightarrow> bool" where
  "range_at ds k r \<longleftrightarrow> nr_max r = ds \<and>
     (if k < prod_list ds then \<exists>cur. nr_current r = Some cur \<and> in_box ds cur \<and> flat ds cur = k
      else nr_current r = None)"

lemma prod_pos: "0 < prod_list ds \<longleftrightarrow> (\<forall>j<length ds. 0 < ds ! j)" for ds :: "nat list"
  by (induction ds) (auto simp: less_Suc_eq_0_disj nth_Cons')

lemma range_at_new: "range_at ds 0 (nd_range_new ds)"
proof (cases "\<exists>x\<in>set ds. x = 0")
  case True
  then have "prod_list ds = 0" by (simp add: prod_list_zero_iff)
  then show ?thesis using True by (simp add: range_at_def nd_range_new_def)
next
  case False
  then have pos: "\<forall>j<length ds. 0 < ds ! j" by (metis gr0I nth_mem)
  have "flat ds (map (\<lambda>_. 0) [0..<length ds]) = 0"
    by (induction ds) (simp_all add: map_replicate_const)
  then show ?thesis
    using False pos prod_pos [of ds] by (auto simp: range_at_def nd_range_new_def in_box_nth)
qed

lemma range_at_next:
  assumes "range_at ds k r" "k < prod_list ds"
  shows "\<exists>cur r'. nd_range_next r = (Some cur, r') \<and> in_box ds cur \<and> flat ds cur = k \<and> range_at ds (Suc k) r'"
proof -
  obtain cur where cur: "nr_max r = ds" "nr_current r = Some cur" "in_box ds cur" "flat ds cur = k"
    using assms by (auto simp: range_at_def)
  show ?thesis
  proof (cases "cur = []")
    case True
    then have "ds = []" using cur(3) in_box_length by fastforce
    then show ?thesis using cur True by (auto simp: nd_range_next_def range_at_def)
  next
    case False
    let ?n = "nd_incr ds cur (length cur - 1)"
    have box: "length cur = length ds" "\<forall>j<length ds. cur ! j < ds ! j" "\<forall>j<length ds. 0 < ds ! j"
      using cur(3) by (auto simp: in_box_nth)
    have "0 < length ds" using False box(1) by auto
    then have n: "length ?n = length ds" "flat ds ?n = Suc k"
      "\<forall>j<length ds. j \<noteq> 0 \<longrightarrow> ?n ! j < ds ! j" "?n ! 0 \<le> ds ! 0"
      using nd_incr_flat [OF box(1) _ box(3,2), of "length cur - 1"] cur(4) box(1) by auto
    show ?thesis
    proof (cases "?n ! 0 = ds ! 0")
      case True
      then have "prod_list ds \<le> Suc k" using last_index [of ?n ds] n False box(1) by force
      then show ?thesis using cur False True by (auto simp: nd_range_next_def range_at_def)
    next
      case ne: False
      have "in_box ds ?n" unfolding in_box_nth using n ne by (metis le_neq_implies_less)
      then have "Suc k < prod_list ds" using flat_less n(2) by metis
      moreover have "?n \<noteq> []" using n(1) \<open>0 < length ds\<close> by auto
      ultimately show ?thesis
        using cur False ne n(2) \<open>in_box ds ?n\<close> by (auto simp: nd_range_next_def range_at_def)
    qed
  qed
qed

lemma collect_range_at:
  assumes "range_at ds k r" "prod_list ds - k < n"
  shows "iter_collect nd_range_next n r = Some (drop k (all_indexes ds))"
  using assms
proof (induction n arbitrary: k r)
  case (Suc n)
  have len: "length (all_indexes ds) = prod_list ds"
    using arg_cong [OF map_flat_all_indexes [of ds], of length] by simp
  show ?case
  proof (cases "k < prod_list ds")
    case True
    obtain cur r' where r: "nd_range_next r = (Some cur, r')" "in_box ds cur" "flat ds cur = k" "range_at ds (Suc k) r'"
      using range_at_next [OF Suc.prems(1) True] by blast
    have mem: "all_indexes ds ! k \<in> set (all_indexes ds)" using True len by simp
    have "flat ds (all_indexes ds ! k) = k"
      using arg_cong [OF map_flat_all_indexes [of ds], of "\<lambda>xs. xs ! k"] True len by simp
    then have "cur = all_indexes ds ! k"
      using flat_inj [OF r(2), of "all_indexes ds ! k"] r(3) mem by (simp add: set_all_indexes)
    then have "drop k (all_indexes ds) = cur # drop (Suc k) (all_indexes ds)"
      using True len by (simp add: Cons_nth_drop_Suc)
    then show ?thesis using Suc.IH [OF r(4)] Suc.prems(2) True r(1) by simp
  next
    case False
    then show ?thesis using Suc.prems(1) len by (simp add: range_at_def nd_range_next_def)
  qed
qed simp

section \<open>The cells of a view\<close>

text \<open>
  A view is described by a pattern: one entry per dimension of the array, \<open>Some v\<close> when the
  dimension is fixed to \<open>v\<close>.
\<close>

fun fixed_of :: "nat \<Rightarrow> nat option list \<Rightarrow> (nat \<times> nat) list" where
  "fixed_of off [] = []"
| "fixed_of off (Some v # ps) = (off, v) # fixed_of (Suc off) ps"
| "fixed_of off (None # ps) = fixed_of (Suc off) ps"

fun bounds_of :: "nat list \<Rightarrow> nat option list \<Rightarrow> nat list" where
  "bounds_of (d # ds) (None # ps) = d # bounds_of ds ps"
| "bounds_of (d # ds) (Some v # ps) = bounds_of ds ps"
| "bounds_of _ _ = []"

fun fill :: "nat option list \<Rightarrow> nat list \<Rightarrow> nat list" where
  "fill [] is = []"
| "fill (Some v # ps) is = v # fill ps is"
| "fill (None # ps) [] = []"
| "fill (None # ps) (i # is) = i # fill ps is"

fun set_free :: "nat \<Rightarrow> nat \<Rightarrow> nat option list \<Rightarrow> nat option list" where
  "set_free d k [] = []"
| "set_free d k (Some v # ps) = Some v # set_free d k ps"
| "set_free 0 k (None # ps) = Some k # ps"
| "set_free (Suc d) k (None # ps) = None # set_free d k ps"

fun fixed_in :: "nat list \<Rightarrow> nat option list \<Rightarrow> bool" where
  "fixed_in [] [] = True"
| "fixed_in (d # ds) (p # ps) = ((case p of Some v \<Rightarrow> v < d | None \<Rightarrow> True) \<and> fixed_in ds ps)"
| "fixed_in _ _ = False"

definition view_ok :: "nat list \<Rightarrow> nat option list \<Rightarrow> nd_view \<Rightarrow> bool" where
  "view_ok ds pat v \<longleftrightarrow> fixed_in ds pat \<and> v_fixed v = fixed_of 0 pat \<and> v_bounds v = bounds_of ds pat"

lemma fixed_in_length: "fixed_in ds pat \<Longrightarrow> length pat = length ds"
  by (induction ds pat rule: fixed_in.induct) auto

lemma fixed_of_ge: "(j, x) \<in> set (fixed_of off pat) \<Longrightarrow> off \<le> j"
  by (induction off pat rule: fixed_of.induct) fastforce+

lemma fixed_of_hd: "fixed_of (Suc off) pat \<noteq> [] \<Longrightarrow> fst (hd (fixed_of (Suc off) pat)) \<noteq> off"
  using fixed_of_ge [of _ _ "Suc off" pat] by (metis list.set_sel(1) prod.collapse Suc_n_not_le_n)

lemma flat_loop_fill:
  "length pat = length ds \<Longrightarrow> length is = length (bounds_of ds pat) \<Longrightarrow>
    flat_loop ds off (fixed_of off pat) is a = Some (a * prod_list ds + flat ds (fill pat is))"
proof (induction pat arbitrary: ds "is" off a)
  case (Cons p pat)
  obtain d ds' where ds: "ds = d # ds'" using Cons.prems by (cases ds) auto
  show ?case
  proof (cases p)
    case None
    then obtain i js where js: "is = i # js" using Cons.prems ds by (cases "is") auto
    show ?thesis
      using Cons.IH [of ds' js "Suc off" "a * d + i"] Cons.prems ds js None fixed_of_hd [of off pat]
      by (auto simp: algebra_simps)
  next
    case (Some x)
    then show ?thesis
      using Cons.IH [of ds' "is" "Suc off" "a * d + x"] Cons.prems ds by (simp add: algebra_simps)
  qed
qed simp

lemma fill_in_box: "fixed_in ds pat \<Longrightarrow> in_box (bounds_of ds pat) is \<Longrightarrow> in_box ds (fill pat is)"
proof (induction pat arbitrary: ds "is")
  case (Cons p pat)
  then show ?case by (cases ds; cases p; cases "is") auto
qed (auto elim: fixed_in.elims)

lemma view_index_fill:
  assumes "view_ok (nd_dims arr) pat v" "in_box (v_bounds v) is" "length (nd_data arr) = prod_list (nd_dims arr)"
  shows "view_flat_index arr v is = Some (flat (nd_dims arr) (fill pat is))"
    and "view_index arr v is = Some (nd_data arr ! flat (nd_dims arr) (fill pat is))"
proof -
  have box: "in_box (nd_dims arr) (fill pat is)"
    using assms(1,2) fill_in_box by (simp add: view_ok_def)
  show f: "view_flat_index arr v is = Some (flat (nd_dims arr) (fill pat is))"
    using assms(1,2) flat_loop_fill [of pat "nd_dims arr" "is" 0 0]
    by (simp add: view_flat_index_def view_ok_def fixed_in_length in_box_length)
  show "view_index arr v is = Some (nd_data arr ! flat (nd_dims arr) (fill pat is))"
    using f flat_less [OF box] assms(3) by (simp add: view_index_def)
qed

subsection \<open>Splitting\<close>

lemma fixed_position_0:
  assumes "\<And>j x. (j, x) \<in> set fixed \<Longrightarrow> c + d < j"
  shows "fixed_position d c fixed = 0"
proof (cases fixed)
  case (Cons p fixed')
  then show ?thesis using assms [of "fst p" "snd p"] by (cases p) auto
qed simp

lemma bounds_of_length: "length (bounds_of ds pat) \<le> length pat"
  by (induction ds pat rule: bounds_of.induct) auto

lemma fixed_of_set_free:
  "d < length (bounds_of ds pat) \<Longrightarrow> length pat = length ds \<Longrightarrow>
    fixed_of (c + m) (set_free d k pat) =
      vec_insert (fixed_position (m + d) c (fixed_of (c + m) pat))
        (c + fixed_position (m + d) c (fixed_of (c + m) pat) + (m + d), k) (fixed_of (c + m) pat)"
proof (induction pat arbitrary: ds d c m)
  case (Cons p pat)
  obtain e ds' where ds: "ds = e # ds'" using Cons.prems by (cases ds) auto
  show ?case
  proof (cases p)
    case (Some x)
    then show ?thesis
      using Cons.IH [of d ds' "Suc c" m] Cons.prems ds by (simp add: vec_insert_def)
  next
    case None
    show ?thesis
    proof (cases d)
      case 0
      have "fixed_position m c (fixed_of (Suc (c + m)) pat) = 0"
        by (rule fixed_position_0) (use fixed_of_ge in fastforce)
      then show ?thesis using None 0 by (simp add: vec_insert_def)
    next
      case (Suc d')
      then show ?thesis using Cons.IH [of d' ds' c "Suc m"] Cons.prems ds None by simp
    qed
  qed
qed simp

lemma bounds_of_set_free:
  "d < length (bounds_of ds pat) \<Longrightarrow> length pat = length ds \<Longrightarrow>
    bounds_of ds (set_free d k pat) = vec_remove d (bounds_of ds pat)"
proof (induction pat arbitrary: ds d)
  case (Cons p pat)
  then show ?case by (cases ds; cases p; cases d) (auto simp: vec_remove_def)
qed simp

lemma fixed_in_set_free:
  "d < length (bounds_of ds pat) \<Longrightarrow> k < bounds_of ds pat ! d \<Longrightarrow> fixed_in ds pat \<Longrightarrow>
    fixed_in ds (set_free d k pat)"
proof (induction pat arbitrary: ds d)
  case (Cons p pat)
  then show ?case by (cases ds; cases p; cases d) auto
qed simp

lemma fill_set_free:
  "d < length (bounds_of ds pat) \<Longrightarrow> length pat = length ds \<Longrightarrow> Suc (length is) = length (bounds_of ds pat) \<Longrightarrow>
    fill (set_free d k pat) is = fill pat (vec_insert d k is)"
proof (induction pat arbitrary: ds d "is")
  case (Cons p pat)
  then show ?case by (cases ds; cases p; cases d; cases "is") (auto simp: vec_insert_def)
qed simp

lemma view_split_ok:
  assumes "view_ok ds pat v" "d < length (v_bounds v)"
  shows "\<exists>vs. view_split v d = Some vs \<and> length vs = v_bounds v ! d
    \<and> (\<forall>k<length vs. view_ok ds (set_free d k pat) (vs ! k))"
proof -
  note len = fixed_in_length [of ds pat]
  have "view_ok ds (set_free d k pat) \<lparr>v_bounds = vec_remove d (v_bounds v),
      v_fixed = vec_insert (fixed_position d 0 (v_fixed v)) (fixed_position d 0 (v_fixed v) + d, k) (v_fixed v)\<rparr>"
    if "k < v_bounds v ! d" for k
    using assms that fixed_in_set_free [of d ds pat k] bounds_of_set_free [of d ds pat k] len
      fixed_of_set_free [of d ds pat 0 0 k]
    by (simp add: view_ok_def)
  then show ?thesis using assms(2) by (simp add: view_split_def Let_def)
qed

lemma view_mut_ok: "view_ok (nd_dims arr) (map (\<lambda>_. None) (nd_dims arr)) (nd_view_mut arr)"
proof -
  have "fixed_in ds (map (\<lambda>_. None) ds)" "fixed_of off (map (\<lambda>_. None) ds) = []"
    "bounds_of ds (map (\<lambda>_. None) ds) = ds" for ds :: "nat list" and off
    by (induction ds arbitrary: off) auto
  then show ?thesis by (simp add: view_ok_def nd_view_mut_def)
qed

subsection \<open>Reachable views\<close>

text \<open>The views that \<^verbatim>\<open>view_mut\<close> and repeated splits can produce.\<close>

inductive view_of :: "nat list \<Rightarrow> nd_view \<Rightarrow> bool" for ds :: "nat list" where
  root: "view_of ds \<lparr>v_bounds = ds, v_fixed = []\<rparr>"
| split: "view_of ds v \<Longrightarrow> view_split v d = Some vs \<Longrightarrow> k < length vs \<Longrightarrow> view_of ds (vs ! k)"

lemma view_of_ok: "view_of ds v \<Longrightarrow> \<exists>pat. view_ok ds pat v"
proof (induction rule: view_of.induct)
  case root
  then show ?case
    using view_mut_ok [of "\<lparr>nd_dims = ds, nd_data = []\<rparr>"] by (auto simp: nd_view_mut_def)
next
  case (split v d vs k)
  then obtain pat where pat: "view_ok ds pat v" by blast
  have "d < length (v_bounds v)" using split(2) by (auto simp: view_split_def split: if_splits)
  then show ?case using view_split_ok [OF pat, of d] split(2,3) by auto
qed

lemma in_box_insert:
  "d < length ds \<Longrightarrow> in_box (vec_remove d ds) is \<Longrightarrow> k < ds ! d \<Longrightarrow> in_box ds (vec_insert d k is)"
proof (induction d arbitrary: ds "is")
  case 0
  then show ?case by (cases ds) (auto simp: vec_remove_def vec_insert_def)
next
  case (Suc d)
  then obtain e ds' where ds: "ds = e # ds'" by (cases ds) auto
  with Suc.prems obtain i is' where "is = i # is'" by (cases "is") (auto simp: vec_remove_def)
  then show ?case using Suc.IH [of ds' is'] Suc.prems ds by (auto simp: vec_remove_def vec_insert_def)
qed

lemma fill_inj: "length is = length (bounds_of ds pat) \<Longrightarrow> length js = length (bounds_of ds pat) \<Longrightarrow>
    length pat = length ds \<Longrightarrow> fill pat is = fill pat js \<Longrightarrow> is = js"
proof (induction pat arbitrary: ds "is" js)
  case (Cons p pat)
  obtain d ds' where ds: "ds = d # ds'" using Cons.prems by (cases ds) auto
  show ?case
  proof (cases p)
    case None
    then obtain i is' j js' where "is = i # is'" "js = j # js'"
      using Cons.prems ds by (cases "is"; cases js) auto
    then show ?thesis using Cons.prems Cons.IH [of is' ds' js'] ds None by simp
  next
    case (Some x)
    then show ?thesis using Cons.prems Cons.IH [of "is" ds' js] ds by simp
  qed
qed simp

lemma in_box_remove:
  "d < length ds \<Longrightarrow> in_box ds js \<Longrightarrow>
    in_box (vec_remove d ds) (vec_remove d js) \<and> js ! d < ds ! d \<and> js = vec_insert d (js ! d) (vec_remove d js)"
proof (induction d arbitrary: ds js)
  case 0
  then show ?case by (cases ds; cases js) (auto simp: vec_remove_def vec_insert_def)
next
  case (Suc d)
  then obtain e ds' j js' where "ds = e # ds'" "js = j # js'" by (cases ds; cases js) auto
  then show ?case using Suc.IH [of ds' js'] Suc.prems by (auto simp: vec_remove_def vec_insert_def)
qed

text \<open>The positions of the underlying vector that a view covers, in the order of its iterator.\<close>

definition view_positions :: "'a nd_array \<Rightarrow> nd_view \<Rightarrow> nat list" where
  "view_positions arr v = map (\<lambda>is. the (view_flat_index arr v is)) (all_indexes (v_bounds v))"

definition nd_wf :: "'a nd_array \<Rightarrow> bool" where
  "nd_wf arr \<longleftrightarrow> length (nd_data arr) = prod_list (nd_dims arr)"

lemma view_split_index:
  assumes "nd_wf arr" "view_ok (nd_dims arr) pat v" "view_split v d = Some vs" "k < length vs"
    "in_box (v_bounds (vs ! k)) is"
  shows "view_flat_index arr (vs ! k) is = view_flat_index arr v (vec_insert d k is)"
    and "in_box (v_bounds v) (vec_insert d k is)"
proof -
  have d: "d < length (v_bounds v)" using assms(3) by (auto simp: view_split_def split: if_splits)
  have ok: "view_ok (nd_dims arr) (set_free d k pat) (vs ! k)" "length vs = v_bounds v ! d"
    using view_split_ok [OF assms(2) d] assms(3,4) by auto
  have b: "v_bounds (vs ! k) = vec_remove d (v_bounds v)"
    using assms(3,4) d by (auto simp: view_split_def Let_def)
  show box: "in_box (v_bounds v) (vec_insert d k is)"
    using in_box_insert [OF d] assms(4,5) ok(2) b by auto
  have len: "Suc (length is) = length (bounds_of (nd_dims arr) pat)"
    using in_box_length [OF box] d assms(2) by (simp add: view_ok_def vec_insert_def)
  have "fill (set_free d k pat) is = fill pat (vec_insert d k is)"
    using fill_set_free [OF _ _ len] d assms(2) by (simp add: view_ok_def fixed_in_length)
  then show "view_flat_index arr (vs ! k) is = view_flat_index arr v (vec_insert d k is)"
    using view_index_fill(1) [OF ok(1) assms(5)] view_index_fill(1) [OF assms(2) box] assms(1)
    by (simp add: nd_wf_def)
qed

lemma view_positions_distinct:
  assumes "nd_wf arr" "view_ok (nd_dims arr) pat v" "in_box (v_bounds v) is" "in_box (v_bounds v) js"
    "view_flat_index arr v is = view_flat_index arr v js"
  shows "is = js"
proof -
  have "flat (nd_dims arr) (fill pat is) = flat (nd_dims arr) (fill pat js)"
    using view_index_fill(1) [OF assms(2)] assms(1,3,4,5) by (simp add: nd_wf_def)
  moreover have "in_box (nd_dims arr) (fill pat is)" "in_box (nd_dims arr) (fill pat js)"
    using fill_in_box assms(2,3,4) by (auto simp: view_ok_def)
  ultimately have "fill pat is = fill pat js" using flat_inj by blast
  then show ?thesis
    using fill_inj [of "is" "nd_dims arr" pat js] assms(2,3,4)
    by (simp add: view_ok_def fixed_in_length in_box_length)
qed

section \<open>Properties\<close>

text \<open>C28: Collecting an \<^verbatim>\<open>NDRange\<close> ends and yields every index vector within the bounds
  exactly once, in lexicographic order: one empty vector without dimensions, nothing when a
  bound is zero.\<close>

theorem ndrange_enumerates:
  assumes "prod_list ds < n"
  shows "\<exists>xs. iter_collect nd_range_next n (nd_range_new ds) = Some xs
    \<and> distinct xs \<and> set xs = {is. in_box ds is} \<and> length xs = prod_list ds
    \<and> map (flat ds) xs = [0..<prod_list ds]"
proof -
  have "distinct (all_indexes ds)"
    using map_flat_all_indexes [of ds] by (metis distinct_map distinct_upt)
  moreover have "length (all_indexes ds) = prod_list ds"
    using arg_cong [OF map_flat_all_indexes [of ds], of length] by simp
  ultimately show ?thesis
    using collect_range_at [OF range_at_new, of ds n] assms map_flat_all_indexes set_all_indexes by simp
qed

theorem ndrange_enumerates_witness:
  "\<exists>xs. iter_collect nd_range_next 7 (nd_range_new [2, 3]) = Some xs \<and> length xs = 6
    \<and> set xs = {is. in_box [2, 3] is}"
  using ndrange_enumerates [of "[2, 3]" 7] by auto

text \<open>Reading an array after a write through an index within the bounds gives the
  written value at that index and the old one at every other index within the bounds.\<close>

theorem nd_read_after_write:
  assumes "nd_new ds xs = Some arr" "in_box ds is" "in_box ds js"
  shows "\<exists>arr'. nd_index_mut arr is x = Some arr'
    \<and> nd_index arr' js = (if js = is then Some x else nd_index arr js)
    \<and> nd_index arr js \<noteq> None"
proof -
  have arr: "arr = \<lparr>nd_dims = ds, nd_data = xs\<rparr>" "length xs = prod_list ds"
    using assms(1) by (auto simp: nd_new_def split: if_splits)
  have "flat ds is < length xs" "flat ds js < length xs" using assms(2,3) flat_less arr(2) by auto
  moreover have "flat ds js = flat ds is \<longleftrightarrow> js = is" using flat_inj assms(2,3) by blast
  ultimately show ?thesis
    using in_box_length [OF assms(2)] in_box_length [OF assms(3)] arr
    by (auto simp: nd_index_mut_def nd_index_def nd_to_1d_flat nth_list_update)
qed

theorem nd_read_after_write_witness:
  "\<exists>arr'. nd_index_mut \<lparr>nd_dims = [2, 2], nd_data = [10, 11, 12, 13::nat]\<rparr> [1, 0] 7 = Some arr'
    \<and> nd_index arr' [0, 1] = Some 11"
  using nd_read_after_write [of "[2, 2]" "[10, 11, 12, 13]" "\<lparr>nd_dims = [2, 2], nd_data = [10, 11, 12, 13]\<rparr>"
      "[1, 0]" "[0, 1]" "7::nat"]
  by (auto simp: nd_new_def nd_index_def nd_to_1d_flat)

text \<open>C29: Splitting a view of a well-formed array yields one view per value of the dimension. Reading the
  view of value \<open>k\<close> is reading the original view with \<open>k\<close> inserted in the index, no
  two of the views share a position of the array, and together they cover the original view.\<close>

theorem view_split_partitions:
  assumes "nd_wf arr" "view_of (nd_dims arr) v" "d < view_num_dims v"
  shows "\<exists>vs. view_split v d = Some vs \<and> length vs = v_bounds v ! d
    \<and> (\<forall>k<length vs. \<forall>is. in_box (v_bounds (vs ! k)) is \<longrightarrow>
         view_index arr (vs ! k) is = view_index arr v (vec_insert d k is)
         \<and> view_index arr (vs ! k) is \<noteq> None)
    \<and> (\<forall>k<length vs. \<forall>l<length vs. \<forall>is js. k \<noteq> l \<longrightarrow> in_box (v_bounds (vs ! k)) is \<longrightarrow>
         in_box (v_bounds (vs ! l)) js \<longrightarrow>
         view_flat_index arr (vs ! k) is \<noteq> view_flat_index arr (vs ! l) js)
    \<and> (\<forall>js. in_box (v_bounds v) js \<longrightarrow>
         (\<exists>k<length vs. \<exists>is. in_box (v_bounds (vs ! k)) is \<and> js = vec_insert d k is))"
proof -
  obtain pat where pat: "view_ok (nd_dims arr) pat v" using view_of_ok [OF assms(2)] by blast
  have d: "d < length (v_bounds v)" using assms(3) by (simp add: view_num_dims_def)
  obtain vs where vs: "view_split v d = Some vs" "length vs = v_bounds v ! d"
    using view_split_ok [OF pat d] by blast
  note idx = view_split_index [OF assms(1) pat vs(1)]
  have read: "view_index arr (vs ! k) is = view_index arr v (vec_insert d k is)
      \<and> view_index arr (vs ! k) is \<noteq> None"
    if "k < length vs" "in_box (v_bounds (vs ! k)) is" for k "is"
    using idx [OF that] view_index_fill(2) [OF pat idx(2) [OF that]] assms(1)
    by (simp add: view_index_def nd_wf_def)
  have apart: "view_flat_index arr (vs ! k) is \<noteq> view_flat_index arr (vs ! l) js"
    if "k < length vs" "l < length vs" "k \<noteq> l" "in_box (v_bounds (vs ! k)) is" "in_box (v_bounds (vs ! l)) js"
    for k l "is" js
  proof
    assume "view_flat_index arr (vs ! k) is = view_flat_index arr (vs ! l) js"
    then have "vec_insert d k is = vec_insert d l js"
      using idx [OF that(1,4)] idx [OF that(2,5)] view_positions_distinct [OF assms(1) pat] by metis
    moreover have "d \<le> length is" "d \<le> length js"
      using in_box_length [OF idx(2) [OF that(1,4)]] in_box_length [OF idx(2) [OF that(2,5)]] d
      by (auto simp: vec_insert_def)
    then have "vec_insert d k is ! d = k" "vec_insert d l js ! d = l"
      by (simp_all add: vec_insert_def nth_append)
    ultimately show False using that(3) by simp
  qed
  have bounds: "v_bounds (vs ! k) = vec_remove d (v_bounds v)" if "k < length vs" for k
    using vs(1) d that by (auto simp: view_split_def Let_def)
  have cover: "\<exists>k<length vs. \<exists>is. in_box (v_bounds (vs ! k)) is \<and> js = vec_insert d k is"
    if "in_box (v_bounds v) js" for js
    using in_box_remove [OF d that] vs(2) bounds by metis
  show ?thesis using vs read apart cover by blast
qed

theorem view_split_partitions_witness:
  "\<exists>vs. view_split \<lparr>v_bounds = [2, 3], v_fixed = []\<rparr> 0 = Some vs \<and> length vs = 2"
  using view_split_partitions [of "\<lparr>nd_dims = [2, 3], nd_data = [0, 1, 2, 3, 4, 5::nat]\<rparr>"
      "\<lparr>v_bounds = [2, 3], v_fixed = []\<rparr>" 0] view_of.root [of "[2, 3]"]
  by (auto simp: nd_wf_def view_num_dims_def)

end
