(* ===== verification/Truth_Table.thy ===== *)
theory Truth_Table
  imports IR_Semantics ND_Array
begin

text \<open>
  The compilation of rules into decision trees (\<^verbatim>\<open>telamon-gen/src/truth_table.rs\<close>): a table with one cell of
  rules per combination of the enum inputs, and the recursive choice of the input to branch on.
  The raw pointers of the views become an array that is passed along; extracting the rules of a
  cell empties it, as \<^verbatim>\<open>drain\<close> does.
\<close>

section \<open>Cells\<close>

type_synonym rule_conds = "condition list \<times> set_constraints"

text \<open>An \<^verbatim>\<open>FxHashMap\<close> is the list of its entries; the order in which it is drained is a parameter.\<close>

type_synonym cell = "(rule_conds \<times> value_set list) list"

definition rule_conds_eq :: "rule_conds \<Rightarrow> rule_conds \<Rightarrow> bool" where
  "rule_conds_eq k k' \<longleftrightarrow> fst k = fst k' \<and> sc_eq (snd k) (snd k')"

fun cell_lookup :: "cell \<Rightarrow> rule_conds \<Rightarrow> value_set list option" where
  "cell_lookup [] k = None"
| "cell_lookup ((k', sets) # c) k = (if rule_conds_eq k' k then Some sets else cell_lookup c k)"

text \<open>The occupied entry: the first set that accepts the intersection, or a new set.\<close>

fun intersect_first :: "value_set list \<Rightarrow> value_set \<Rightarrow> value_set list option" where
  "intersect_first [] alts = Some [alts]"
| "intersect_first (s # ss) alts = do {
     (success, s') \<leftarrow> vs_intersect_with s alts;
     if success then Some (s' # ss)
     else do { ss' \<leftarrow> intersect_first ss alts; Some (s' # ss') } }"

fun cell_insert :: "cell \<Rightarrow> rule_conds \<Rightarrow> value_set \<Rightarrow> cell option" where
  "cell_insert [] k alts = Some [(k, [alts])]"
| "cell_insert ((k', sets) # c) k alts =
     (if rule_conds_eq k' k then do { sets' \<leftarrow> intersect_first sets alts; Some ((k', sets') # c) }
      else do { c' \<leftarrow> cell_insert c k alts; Some ((k', sets) # c') })"

definition cell_add_rule :: "ir_desc \<Rightarrow> choice_instance list \<Rightarrow> rule \<Rightarrow> cell \<Rightarrow> cell option" where
  "cell_add_rule ir inputs r c = do {
     r' \<leftarrow> rule_normalize ir inputs r;
     cell_insert c (conditions r', r_set_constraints r') (alternatives r') }"

definition cell_build :: "rule list \<Rightarrow> choice_instance list \<Rightarrow> ir_desc \<Rightarrow> cell option" where
  "cell_build rules inputs ir = fold_option (cell_add_rule ir inputs) rules []"

definition cell_extract_rules :: "(cell \<Rightarrow> cell) \<Rightarrow> cell \<Rightarrow> rule list \<times> cell" where
  "cell_extract_rules drain c =
     (concat (map (\<lambda>((conds, set_conds), alts).
        map (\<lambda>a. \<lparr>conditions = conds, alternatives = a, r_set_constraints = set_conds\<rparr>) alts) (drain c)), [])"

definition cell_is_empty :: "cell \<Rightarrow> bool" where
  "cell_is_empty c = (case cell_lookup c ([], []) of Some sets \<Rightarrow> \<exists>s\<in>set sets. vset_is_empty s | None \<Rightarrow> False)"

text \<open>Equality of hash maps: as many entries, and every entry of the first is one of the second.\<close>

definition cell_eq :: "cell \<Rightarrow> cell \<Rightarrow> bool" where
  "cell_eq c d \<longleftrightarrow> length c = length d \<and> (\<forall>(k, sets)\<in>set c. cell_lookup d k = Some sets)"

section \<open>Tables\<close>

type_synonym input_table = "(nat \<times> value_set list) list"

record truth_table =
  tt_values :: input_table
  tt_rules :: "cell nd_array"

text \<open>The values of one input; \<open>Some None\<close> leaves it out of the table.\<close>

definition input_values :: "ir_desc \<Rightarrow> nat \<times> choice_instance \<Rightarrow> (nat \<times> value_set list) option option" where
  "input_values ir = (\<lambda>(id, input). do {
     c \<leftarrow> get_choice ir (ci_choice input);
     if \<not> vset_is_empty (c_no_propagate c) then Some None
     else (case c_choice_def c of
         CD_Enum name \<Rightarrow> do {
           e \<leftarrow> get_enum ir name;
           Some (Some (id, map (\<lambda>v. vs_enum_values name {|v|}) (enum_keys e))) }
       | _ \<Rightarrow> Some None) })"

definition table_values :: "ir_desc \<Rightarrow> choice_instance list \<Rightarrow> input_table option" where
  "table_values ir inputs = do {
     vs \<leftarrow> those (map (input_values ir) (zip [0..<length inputs] inputs));
     Some (List.map_filter id vs) }"

text \<open>Collecting a range; the fuel is one more than the number of its elements.\<close>

definition nd_range_collect :: "nat list \<Rightarrow> nat list list option" where
  "nd_range_collect bounds = iter_collect nd_range_next (Suc (prod_list bounds)) (nd_range_new bounds)"

definition index_mapping :: "input_table \<Rightarrow> nat list \<Rightarrow> input_mapping" where
  "index_mapping values index =
     map_of (map (\<lambda>(i, (input, sets)). (input, sets ! i)) (zip index values))"

definition rules_instantiate ::
  "ir_desc \<Rightarrow> choice_instance list \<Rightarrow> input_mapping \<Rightarrow> rule list \<Rightarrow> rule list option" where
  "rules_instantiate ir inputs mapping rules = do {
     rs \<leftarrow> those (map (rule_instantiate ir inputs mapping) rules);
     Some (List.map_filter id rs) }"

definition tt_build :: "choice_instance list \<Rightarrow> rule list \<Rightarrow> ir_desc \<Rightarrow> truth_table option" where
  "tt_build inputs rules ir = do {
     values \<leftarrow> table_values ir inputs;
     let sizes = map (length \<circ> snd) values;
     indexes \<leftarrow> nd_range_collect sizes;
     cells \<leftarrow> those (map (\<lambda>index. do {
         rs \<leftarrow> rules_instantiate ir inputs (index_mapping values index) rules;
         cell_build rs inputs ir }) indexes);
     arr \<leftarrow> nd_new sizes cells;
     Some \<lparr>tt_values = values, tt_rules = arr\<rparr> }"

record table_view =
  tv_dim_map :: "nat list"
  tv_view :: nd_view

definition tt_view :: "truth_table \<Rightarrow> table_view" where
  "tt_view t = \<lparr>tv_dim_map = [0..<length (tt_values t)], tv_view = nd_view_mut (tt_rules t)\<rparr>"

definition tv_num_inputs :: "table_view \<Rightarrow> nat" where
  "tv_num_inputs tv = length (tv_dim_map tv)"

definition tv_input_from_pos :: "input_table \<Rightarrow> table_view \<Rightarrow> nat \<Rightarrow> nat option" where
  "tv_input_from_pos values tv pos =
     (if pos < length (tv_dim_map tv) \<and> tv_dim_map tv ! pos < length values
      then Some (fst (values ! (tv_dim_map tv ! pos))) else None)"

text \<open>\<^verbatim>\<open>zip_eq\<close> panics when the lengths differ.\<close>

definition tv_instantiate ::
  "input_table \<Rightarrow> table_view \<Rightarrow> nat \<Rightarrow> (value_set \<times> table_view) list option" where
  "tv_instantiate values tv pos =
     (if pos < length (tv_dim_map tv) \<and> tv_dim_map tv ! pos < length values then do {
        views \<leftarrow> view_split (tv_view tv) pos;
        let sets = snd (values ! (tv_dim_map tv ! pos));
        if length sets = length views
        then Some (zip sets (map (\<lambda>v. \<lparr>tv_dim_map = vec_remove pos (tv_dim_map tv), tv_view = v\<rparr>) views))
        else None }
      else None)"

definition tv_cells :: "cell nd_array \<Rightarrow> table_view \<Rightarrow> cell list option" where
  "tv_cells arr tv = do {
     indexes \<leftarrow> nd_range_collect (v_bounds (tv_view tv));
     those (map (view_index arr (tv_view tv)) indexes) }"

definition tv_equal_content :: "cell nd_array \<Rightarrow> table_view \<Rightarrow> table_view \<Rightarrow> bool option" where
  "tv_equal_content arr tv tv' = do {
     cs \<leftarrow> tv_cells arr tv; cs' \<leftarrow> tv_cells arr tv'; Some (list_all2 cell_eq cs cs') }"

definition tv_is_empty :: "cell nd_array \<Rightarrow> table_view \<Rightarrow> bool option" where
  "tv_is_empty arr tv = do { cs \<leftarrow> tv_cells arr tv; Some (\<forall>c\<in>set cs. cell_is_empty c) }"

section \<open>Branching\<close>

text \<open>The inner loop over the instances found so far: extends the first with the same content.\<close>

fun merge_value ::
  "cell nd_array \<Rightarrow> nat \<Rightarrow> value_set \<Rightarrow> table_view \<Rightarrow> (value_set \<times> nat \<times> table_view) list
    \<Rightarrow> (value_set \<times> nat \<times> table_view) list option" where
  "merge_value arr pos value sub [] = Some [(value, pos, sub)]"
| "merge_value arr pos value sub ((other_values, other_pos, other) # instances) = do {
     same \<leftarrow> tv_equal_content arr sub other;
     if same then do { vals \<leftarrow> vs_extend other_values value; Some ((vals, other_pos, other) # instances) }
     else do { rest \<leftarrow> merge_value arr pos value sub instances;
               Some ((other_values, other_pos, other) # rest) } }"

fun merge_branches ::
  "cell nd_array \<Rightarrow> nat \<Rightarrow> (value_set \<times> table_view) list \<Rightarrow> (value_set \<times> nat \<times> table_view) list \<Rightarrow> bool
    \<Rightarrow> ((value_set \<times> nat \<times> table_view) list \<times> bool) option" where
  "merge_branches arr pos [] instances forward = Some (instances, forward)"
| "merge_branches arr pos ((value, sub) # split) instances forward = do {
     empty \<leftarrow> tv_is_empty arr sub;
     if empty then merge_branches arr (Suc pos) split instances False
     else do { instances' \<leftarrow> merge_value arr pos value sub instances;
               merge_branches arr (Suc pos) split instances' forward } }"

datatype table_split =
    TS_Switch nat "(value_set \<times> table_view) list"
  | TS_Forward table_view

text \<open>The views of the chosen configuration: \<^verbatim>\<open>find\<close> consumes the iterator up to the match.\<close>

fun pick_views ::
  "cell nd_array \<Rightarrow> (value_set \<times> nat) list \<Rightarrow> (nat \<times> (value_set \<times> table_view)) list
    \<Rightarrow> (value_set \<times> table_view) list option" where
  "pick_views arr [] views = Some []"
| "pick_views arr ((values, pos) # config) views =
     (case dropWhile (\<lambda>(other_pos, _). pos \<noteq> other_pos) views of
        [] \<Rightarrow> None
      | (_, (_, view)) # rest \<Rightarrow> do {
          empty \<leftarrow> tv_is_empty arr view;
          if empty then None
          else do { cases \<leftarrow> pick_views arr config rest; Some ((values, view) # cases) } })"

text \<open>The loop over the positions; \<open>Some None\<close> is the result \<^verbatim>\<open>None\<close> of a table without inputs.\<close>

function min_split_loop ::
  "input_table \<Rightarrow> cell nd_array \<Rightarrow> table_view \<Rightarrow> nat \<Rightarrow> (nat \<times> (value_set \<times> nat) list) option
    \<Rightarrow> table_split option option" where
  "min_split_loop values arr tv pos best =
     (if pos < tv_num_inputs tv then do {
        split \<leftarrow> tv_instantiate values tv pos;
        (instances, forward) \<leftarrow> merge_branches arr 0 split [] True;
        let best' = (if (case best of None \<Rightarrow> True | Some b \<Rightarrow> length (snd b) > length instances)
          then Some (pos, map (\<lambda>(vals, vpos, _). (vals, vpos)) instances) else best);
        if forward \<and> length instances = 1 then do {
          again \<leftarrow> tv_instantiate values tv pos;
          if again = [] then None else Some (Some (TS_Forward (snd (last again)))) }
        else min_split_loop values arr tv (Suc pos) best' }
      else (case best of
          None \<Rightarrow> Some None
        | Some (pos, config) \<Rightarrow> do {
            input \<leftarrow> tv_input_from_pos values tv pos;
            views \<leftarrow> tv_instantiate values tv pos;
            cases \<leftarrow> pick_views arr config (zip [0..<length views] views);
            Some (Some (TS_Switch input cases)) }))"
  by pat_completeness auto
termination
  by (relation "measure (\<lambda>(_, _, tv, pos, _). tv_num_inputs tv - pos)") auto

declare min_split_loop.simps [simp del]

definition table_min_split ::
  "input_table \<Rightarrow> cell nd_array \<Rightarrow> table_view \<Rightarrow> table_split option option" where
  "table_min_split values arr tv = min_split_loop values arr tv 0 None"

primrec map_state :: "('a \<Rightarrow> 's \<Rightarrow> ('b \<times> 's) option) \<Rightarrow> 'a list \<Rightarrow> 's \<Rightarrow> ('b list \<times> 's) option" where
  "map_state f [] s = Some ([], s)"
| "map_state f (x # xs) s = do {
     (y, s') \<leftarrow> f x s; (ys, s'') \<leftarrow> map_state f xs s'; Some (y # ys, s'') }"

text \<open>
  The recursion of \<^verbatim>\<open>truth_table_to_filter\<close>, with fuel for the number of calls that are nested: each call fixes one more
  input, so one more than the number of inputs is enough.
\<close>

primrec truth_table_to_filter ::
  "nat \<Rightarrow> (cell \<Rightarrow> cell) \<Rightarrow> input_table \<Rightarrow> table_view \<Rightarrow> cell nd_array \<Rightarrow> (sub_filter \<times> cell nd_array) option" where
  "truth_table_to_filter 0 drain values tv arr = None"
| "truth_table_to_filter (Suc n) drain values tv arr =
     (if tv_num_inputs tv = 0 then do {
        idx \<leftarrow> fst (nd_range_next (nd_range_new (v_bounds (tv_view tv))));
        c \<leftarrow> view_index arr (tv_view tv) idx;
        let (rules, c') = cell_extract_rules drain c;
        arr' \<leftarrow> view_index_mut arr (tv_view tv) idx c';
        Some (Rules rules, arr') }
      else do {
        split \<leftarrow> table_min_split values arr tv;
        split \<leftarrow> split;
        (case split of
           TS_Forward sub_view \<Rightarrow> truth_table_to_filter n drain values sub_view arr
         | TS_Switch input cases \<Rightarrow> do {
             (sub_filters, arr') \<leftarrow> map_state (\<lambda>(vals, view) arr. do {
                 (f, arr') \<leftarrow> truth_table_to_filter n drain values view arr;
                 Some ((vals, f), arr') }) cases arr;
             Some (Switch input sub_filters, arr') }) })"

definition opt_rules ::
  "(cell \<Rightarrow> cell) \<Rightarrow> choice_instance list \<Rightarrow> rule list \<Rightarrow> ir_desc \<Rightarrow> sub_filter option" where
  "opt_rules drain inputs rules ir =
     (if length rules = 1 then Some (Rules rules)
      else do {
        table \<leftarrow> tt_build inputs rules ir;
        (f, _) \<leftarrow> truth_table_to_filter (Suc (length (tt_values table))) drain (tt_values table)
          (tt_view table) (tt_rules table);
        Some f })"

end
