(* ===== verification/Truth_Table_Cells.thy ===== *)
theory Truth_Table_Cells
  imports Truth_Table
begin

text \<open>
  The meaning of the cells of the truth table: the values that a cell allows in a context, and
  that building, comparing and emptying cells and instantiating rules keep it.
\<close>

section \<open>Cells\<close>

definition key_holds :: "ir_desc \<Rightarrow> choice_instance list \<Rightarrow> ctx \<Rightarrow> rule_conds \<Rightarrow> bool" where
  "key_holds ir inputs cx k \<longleftrightarrow> (\<forall>c\<in>set (fst k). cond_holds ir inputs cx c) \<and> sc_holds cx (snd k)"

definition cell_allows :: "ir_desc \<Rightarrow> choice_instance list \<Rightarrow> ctx \<Rightarrow> cell \<Rightarrow> val \<Rightarrow> bool" where
  "cell_allows ir inputs cx c v \<longleftrightarrow>
     (\<forall>(k, sets)\<in>set c. key_holds ir inputs cx k \<longrightarrow> (\<forall>s\<in>set sets. vs_member ir cx s v))"

text \<open>Keys are compared through the names of the sets they constrain.\<close>

definition canon :: "rule_conds \<Rightarrow> condition list \<times> (variable \<times> (string \<times> variable option) list) list" where
  "canon k = (fst k, map (\<lambda>(v, s). (v, set_key s)) (snd k))"

lemma sc_eq_canon: "sc_eq a b \<longleftrightarrow> map (\<lambda>(v, s). (v, set_key s)) a = map (\<lambda>(v, s). (v, set_key s)) b"
  by (auto simp: sc_eq_def set_eq_key list_all2_conv_all_nth list_eq_iff_nth_eq split: prod.splits)

lemma rule_conds_eq_canon: "rule_conds_eq k k' \<longleftrightarrow> canon k = canon k'"
  by (auto simp: rule_conds_eq_def canon_def sc_eq_canon)

lemma reverse_constraint_key: "s_reverse_constraint t = None \<longleftrightarrow> length (set_key t) = 1"
  by (cases t) (auto split: option.splits)

lemma subset_key: "set_key t = set_key t' \<Longrightarrow> set_is_subset_of s t = set_is_subset_of s t'"
proof (induction s t rule: set_is_subset_of.induct)
  case (1 s t)
  have eq: "set_eq s t \<longleftrightarrow> set_eq s t'" "s_reverse_constraint t = None \<longleftrightarrow> s_reverse_constraint t' = None"
    using 1(3) by (simp_all add: set_eq_key reverse_constraint_key)
  show ?case
  proof (cases "set_eq s t")
    case False
    show ?thesis
    proof (cases "set_superset s")
      case (Some sup')
      have in_super: "(case sup' of None \<Rightarrow> Some False | Some x \<Rightarrow> set_is_subset_of x t)
          = (case sup' of None \<Rightarrow> Some False | Some x \<Rightarrow> set_is_subset_of x t')"
        using 1(1) [OF False Some _ 1(3)] by (cases sup') auto
      show ?thesis
      proof (cases "case sup' of None \<Rightarrow> Some False | Some x \<Rightarrow> set_is_subset_of x t")
        case None
        then show ?thesis using False eq Some in_super
          by (subst (1 2) set_is_subset_of.simps) simp
      next
        case b: (Some b)
        have "(case s_reverse_constraint s of None \<Rightarrow> Some False | Some x \<Rightarrow> set_is_subset_of x t)
            = (case s_reverse_constraint s of None \<Rightarrow> Some False | Some x \<Rightarrow> set_is_subset_of x t')" if "\<not> b"
          using 1(2) [OF False Some b that _ 1(3)] by (cases "s_reverse_constraint s") auto
        moreover have "(case sup' of None \<Rightarrow> Some False | Some x \<Rightarrow> set_is_subset_of x t') = Some b"
          using in_super b by simp
        ultimately show ?thesis using False eq Some b
          by (subst (1 2) set_is_subset_of.simps) (cases b; simp)
      qed
    qed (use False eq in \<open>subst (1 2) set_is_subset_of.simps, simp\<close>)
  qed (use eq in \<open>subst (1 2) set_is_subset_of.simps, simp\<close>)
qed

lemma sc_holds_canon:
  assumes "map (\<lambda>(v, s). (v, set_key s)) a = map (\<lambda>(v, s). (v, set_key s)) b" "sc_holds cx a"
  shows "sc_holds cx b"
  unfolding sc_holds_def
proof safe
  fix v t assume "(v, t) \<in> set b"
  then have "(v, set_key t) \<in> set (map (\<lambda>(v, s). (v, set_key s)) a)"
    unfolding assms(1) by force
  then obtain t' where "(v, t') \<in> set a" "set_key t' = set_key t" by auto
  then show "set_is_subset_of (ctx_sets cx v) t = Some True"
    using assms(2) subset_key [of t t'] unfolding sc_holds_def by force
qed

lemma key_holds_canon: "canon k = canon k' \<Longrightarrow> key_holds ir inputs cx k \<longleftrightarrow> key_holds ir inputs cx k'"
  using sc_holds_canon [of "snd k" "snd k'" cx] sc_holds_canon [of "snd k'" "snd k" cx]
  by (auto simp: key_holds_def canon_def)

definition cell_wf :: "cell \<Rightarrow> bool" where
  "cell_wf c \<longleftrightarrow> distinct (map (canon \<circ> fst) c)"

definition cell_map :: "cell \<Rightarrow> (condition list \<times> (variable \<times> (string \<times> variable option) list) list) \<rightharpoonup> value_set list" where
  "cell_map c = map_of (map (\<lambda>(k, sets). (canon k, sets)) c)"

lemma cell_lookup_map: "cell_lookup c k = cell_map c (canon k)"
  by (induction c k rule: cell_lookup.induct) (auto simp: cell_map_def rule_conds_eq_canon)

lemma cell_map_entries:
  assumes "cell_wf c"
  shows "cell_map c kk = Some sets \<longleftrightarrow> (\<exists>k. canon k = kk \<and> (k, sets) \<in> set c)"
proof -
  have "distinct (map fst (map (\<lambda>(k, sets). (canon k, sets)) c))"
    using assms by (simp add: cell_wf_def comp_def case_prod_unfold)
  then show ?thesis unfolding cell_map_def by (force simp: map_of_eq_Some_iff)
qed

lemma cell_allows_map:
  assumes "cell_wf c"
  shows "cell_allows ir inputs cx c v \<longleftrightarrow>
    (\<forall>k sets. cell_map c (canon k) = Some sets \<longrightarrow> key_holds ir inputs cx k \<longrightarrow> (\<forall>s\<in>set sets. vs_member ir cx s v))"
  unfolding cell_map_entries [OF assms] cell_allows_def using key_holds_canon by blast

lemma cell_eq_map:
  assumes "cell_wf c" "cell_wf d" "cell_eq c d"
  shows "cell_map c = cell_map d"
proof -
  have sub: "cell_map c \<subseteq>\<^sub>m cell_map d"
  proof (unfold map_le_def, safe)
    fix kk sets assume "cell_map c kk = Some sets"
    then obtain k where "canon k = kk" "(k, sets) \<in> set c" using cell_map_entries [OF assms(1)] by blast
    then have "cell_lookup d k = Some sets" using assms(3) by (auto simp: cell_eq_def)
    then show "cell_map c kk = cell_map d kk"
      using \<open>canon k = kk\<close> \<open>cell_map c kk = Some sets\<close> by (simp add: cell_lookup_map)
  qed
  have card: "card (dom (cell_map c)) = length c" if "cell_wf c" for c
  proof -
    have "dom (cell_map c) = set (map (canon \<circ> fst) c)"
      by (force simp: cell_map_def dom_map_of_conv_image_fst)
    then show ?thesis using that by (simp add: cell_wf_def distinct_card del: set_map)
  qed
  have fin: "finite (dom (cell_map d))" by (simp add: cell_map_def finite_dom_map_of)
  have "dom (cell_map c) = dom (cell_map d)"
    using card_subset_eq [OF fin] map_le_implies_dom_le [OF sub] card [OF assms(1)] card [OF assms(2)] assms(3)
    by (simp add: cell_eq_def)
  then show ?thesis using sub by (metis map_le_antisym map_le_def)
qed

lemma cell_eq_allows:
  "cell_wf c \<Longrightarrow> cell_wf d \<Longrightarrow> cell_eq c d \<Longrightarrow> cell_allows ir inputs cx c v \<longleftrightarrow> cell_allows ir inputs cx d v"
  by (simp add: cell_allows_map cell_eq_map)

lemma cell_is_empty_allows: "cell_wf c \<Longrightarrow> cell_is_empty c \<Longrightarrow> \<not> cell_allows ir inputs cx c v"
proof -
  assume wf: "cell_wf c" and "cell_is_empty c"
  then obtain sets s where "cell_map c (canon ([], [])) = Some sets" "s \<in> set sets" "vset_is_empty s"
    by (auto simp: cell_is_empty_def cell_lookup_map split: option.splits)
  moreover have "key_holds ir inputs cx ([], [])" by (simp add: key_holds_def sc_holds_def)
  ultimately show ?thesis using cell_allows_map [OF wf] vset_is_empty_member by blast
qed

lemma extract_allows:
  assumes "set (drain c) = set c"
  shows "rules_allow ir inputs cx (fst (cell_extract_rules drain c)) v \<longleftrightarrow> cell_allows ir inputs cx c v"
  using assms
  by (force simp: cell_extract_rules_def rules_allow_def rule_allows_def cell_allows_def key_holds_def)

subsection \<open>Building cells\<close>

definition cell_kind :: "bool \<Rightarrow> cell \<Rightarrow> bool" where
  "cell_kind b c \<longleftrightarrow> (\<forall>(k, sets)\<in>set c. \<forall>s\<in>set sets. is_VS_Enum s = b)"

lemma same_kind_iff: "same_kind s t \<longleftrightarrow> is_VS_Enum s = is_VS_Enum t"
  by (cases s; cases t) auto

lemma intersect_first_sound:
  assumes "\<forall>s\<in>set ss. is_VS_Enum s = is_VS_Enum alts"
  shows "\<exists>ss'. intersect_first ss alts = Some ss' \<and> (\<forall>s\<in>set ss'. is_VS_Enum s = is_VS_Enum alts)
    \<and> (\<forall>v. (\<forall>s\<in>set ss'. vs_member ir cx s v) \<longleftrightarrow> (\<forall>s\<in>set ss. vs_member ir cx s v) \<and> vs_member ir cx alts v)"
  using assms
proof (induction ss)
  case (Cons s ss)
  obtain ok s' where i: "vs_intersect_with s alts = Some (ok, s')" "same_kind s s'"
    "if ok then \<forall>v. vs_member ir cx s' v \<longleftrightarrow> vs_member ir cx s v \<and> vs_member ir cx alts v else s' = s"
    using vs_intersect_sound [of s alts ir cx] Cons.prems by (auto simp: same_kind_iff)
  then show ?case using Cons by (cases ok) (auto simp: same_kind_iff)
qed simp

lemma cell_insert_keys:
  "cell_insert c k alts = Some c' \<Longrightarrow> map (canon \<circ> fst) c' =
    (if canon k \<in> set (map (canon \<circ> fst) c) then map (canon \<circ> fst) c else map (canon \<circ> fst) c @ [canon k])"
proof (induction c arbitrary: c')
  case (Cons p c)
  obtain k' sets where p: "p = (k', sets)" by (cases p)
  show ?case
  proof (cases "rule_conds_eq k' k")
    case True
    then show ?thesis using Cons.prems p by (auto simp: rule_conds_eq_canon bind_eq_Some_conv)
  next
    case False
    then obtain c'' where "cell_insert c k alts = Some c''" "c' = (k', sets) # c''"
      using Cons.prems p by (auto simp: bind_eq_Some_conv)
    then show ?thesis using Cons.IH [of c''] False p by (auto simp: rule_conds_eq_canon)
  qed
qed auto

lemma cell_insert_sound:
  assumes "cell_kind b c" "is_VS_Enum alts = b"
  shows "\<exists>c'. cell_insert c k alts = Some c' \<and> cell_kind b c' \<and> (cell_wf c \<longrightarrow> cell_wf c')
    \<and> (\<forall>v. cell_allows ir inputs cx c' v \<longleftrightarrow>
         cell_allows ir inputs cx c v \<and> (key_holds ir inputs cx k \<longrightarrow> vs_member ir cx alts v))"
proof -
  have "\<exists>c'. cell_insert c k alts = Some c' \<and> cell_kind b c' \<and> (\<forall>v. cell_allows ir inputs cx c' v \<longleftrightarrow>
         cell_allows ir inputs cx c v \<and> (key_holds ir inputs cx k \<longrightarrow> vs_member ir cx alts v))"
    using assms(1)
  proof (induction c)
    case Nil
    then show ?case using assms(2) by (simp add: cell_kind_def cell_allows_def)
  next
    case (Cons p c)
    obtain k' sets where p: "p = (k', sets)" by (cases p)
    have tail: "cell_kind b c" and hd: "\<forall>s\<in>set sets. is_VS_Enum s = is_VS_Enum alts"
      using Cons.prems assms(2) p by (auto simp: cell_kind_def)
    show ?case
    proof (cases "rule_conds_eq k' k")
      case True
      obtain ss' where "intersect_first sets alts = Some ss'" "\<forall>s\<in>set ss'. is_VS_Enum s = is_VS_Enum alts"
        "\<forall>v. (\<forall>s\<in>set ss'. vs_member ir cx s v) \<longleftrightarrow> (\<forall>s\<in>set sets. vs_member ir cx s v) \<and> vs_member ir cx alts v"
        using intersect_first_sound [OF hd] by blast
      then show ?thesis
        using True p tail assms(2) key_holds_canon [of k' k ir inputs cx]
        by (auto simp: rule_conds_eq_canon cell_kind_def cell_allows_def)
    next
      case False
      obtain c' where "cell_insert c k alts = Some c'" "cell_kind b c'" "\<forall>v. cell_allows ir inputs cx c' v \<longleftrightarrow>
         cell_allows ir inputs cx c v \<and> (key_holds ir inputs cx k \<longrightarrow> vs_member ir cx alts v)"
        using Cons.IH [OF tail] by blast
      then show ?thesis using False p hd assms(2) by (auto simp: cell_kind_def cell_allows_def)
    qed
  qed
  then show ?thesis using cell_insert_keys [of c k alts] by (auto simp: cell_wf_def)
qed

definition rule_ok :: "ir_desc \<Rightarrow> choice_instance list \<Rightarrow> ctx \<Rightarrow> bool \<Rightarrow> rule \<Rightarrow> bool" where
  "rule_ok ir inputs cx b r \<longleftrightarrow> rule_wf ir inputs r \<and> (\<forall>c\<in>set (conditions r). code_stable cx c)
     \<and> is_VS_Enum (alternatives r) = b"

lemma cell_build_sound:
  assumes "\<forall>r\<in>set rs. rule_ok ir inputs cx b r"
  shows "\<exists>c. cell_build rs inputs ir = Some c \<and> cell_wf c
    \<and> (\<forall>v. cell_allows ir inputs cx c v \<longleftrightarrow> rules_allow ir inputs cx rs v)"
proof -
  have "\<exists>c'. fold_option (cell_add_rule ir inputs) rs c = Some c' \<and> cell_wf c'
      \<and> (\<forall>v. cell_allows ir inputs cx c' v \<longleftrightarrow> cell_allows ir inputs cx c v \<and> rules_allow ir inputs cx rs v)"
    if "cell_wf c" "cell_kind b c" for c
    using assms that
  proof (induction rs arbitrary: c)
    case (Cons r rs)
    have ok: "rule_ok ir inputs cx b r" using Cons.prems(1) by simp
    obtain r' where r: "rule_normalize ir inputs r = Some r'" "alternatives r' = alternatives r"
      "\<forall>v. rule_allows ir inputs cx r' v \<longleftrightarrow> rule_allows ir inputs cx r v"
      using rule_normalize_sound [of ir inputs r cx] ok by (auto simp: rule_ok_def)
    obtain c1 where c1: "cell_insert c (conditions r', r_set_constraints r') (alternatives r') = Some c1"
      "cell_kind b c1" "cell_wf c1" "\<forall>v. cell_allows ir inputs cx c1 v \<longleftrightarrow> cell_allows ir inputs cx c v \<and>
        (key_holds ir inputs cx (conditions r', r_set_constraints r') \<longrightarrow> vs_member ir cx (alternatives r') v)"
      using cell_insert_sound [of b c "alternatives r'" "(conditions r', r_set_constraints r')" ir inputs cx]
        Cons.prems(2,3) ok r(2) by (auto simp: rule_ok_def)
    then have "\<forall>v. cell_allows ir inputs cx c1 v \<longleftrightarrow> cell_allows ir inputs cx c v \<and> rule_allows ir inputs cx r v"
      using r(3) by (simp add: rule_allows_def key_holds_def)
    then show ?case
      using Cons.IH [of c1] Cons.prems(1) c1 r(1) by (auto simp: cell_add_rule_def rules_allow_def)
  qed (simp add: rules_allow_def)
  from this [of "[]"] show ?thesis
    by (auto simp: cell_build_def cell_wf_def cell_kind_def cell_allows_def)
qed

subsection \<open>Instantiating rules\<close>

lemma code_stable_instantiate:
  assumes "conds_instantiate ir inputs m cs = Some (Some cs')" "\<forall>c\<in>set cs. code_stable cx c"
  shows "\<forall>c\<in>set cs'. code_stable cx c"
  using assms
proof (induction cs arbitrary: cs')
  case (Cons c cs)
  obtain c' where c: "cond_instantiate ir inputs m c = Some c'"
    using Cons.prems(1) by (auto simp: bind_eq_Some_conv)
  then have stable: "code_stable cx c'"
    using Cons.prems(2) by (auto simp: cond_instantiate_def code_stable_def bind_eq_Some_conv split: option.splits)
  have "c' \<noteq> C_Bool False" using Cons.prems(1) c by auto
  then obtain rest where "conds_instantiate ir inputs m cs = Some (Some rest)"
    "cs' = (if c' = C_Bool True then rest else c' # rest)"
    using Cons.prems(1) c by (auto simp: bind_eq_Some_conv split: condition.splits bool.splits)
  then show ?case using Cons.IH [of rest] Cons.prems(2) stable by auto
qed simp

lemma vs_instantiate_kind: "vs_instantiate ir m s = Some s' \<Longrightarrow> is_VS_Enum s' = is_VS_Enum s"
  by (cases s) (auto simp: bind_eq_Some_conv)

lemma rule_instantiate_ok:
  assumes "rule_instantiate ir inputs m r = Some (Some r')" "rule_ok ir inputs cx b r" "rule_wf ir inputs r'"
  shows "rule_ok ir inputs cx b r'"
proof -
  obtain cs alts where "conds_instantiate ir inputs m (conditions r) = Some (Some cs)"
    "vs_instantiate ir m (alternatives r) = Some alts" "r' = r\<lparr>conditions := cs, alternatives := alts\<rparr>"
    using assms(1) by (auto simp: rule_instantiate_def bind_eq_Some_conv split: option.splits)
  then show ?thesis
    using assms(2,3) code_stable_instantiate vs_instantiate_kind by (auto simp: rule_ok_def)
qed

lemma rules_instantiate_sound:
  assumes "ir_wf ir" "mapping_ok ir inputs cx m" "\<forall>r\<in>set rs. rule_ok ir inputs cx b r"
  shows "\<exists>rs'. rules_instantiate ir inputs m rs = Some rs' \<and> (\<forall>r\<in>set rs'. rule_ok ir inputs cx b r)
    \<and> (\<forall>v. rules_allow ir inputs cx rs' v \<longleftrightarrow> rules_allow ir inputs cx rs v)"
  using assms(3)
proof (induction rs)
  case (Cons r rs)
  obtain res where res: "rule_instantiate ir inputs m r = Some res"
    "case res of None \<Rightarrow> \<forall>v. rule_allows ir inputs cx r v
     | Some r' \<Rightarrow> rule_wf ir inputs r' \<and> (\<forall>v. rule_allows ir inputs cx r' v \<longleftrightarrow> rule_allows ir inputs cx r v)"
    using rule_instantiate_sound [OF assms(1,2), of r] Cons.prems by (auto simp: rule_ok_def)
  obtain rs' where rs': "rules_instantiate ir inputs m rs = Some rs'" "\<forall>r\<in>set rs'. rule_ok ir inputs cx b r"
    "\<forall>v. rules_allow ir inputs cx rs' v \<longleftrightarrow> rules_allow ir inputs cx rs v"
    using Cons by auto
  have step: "rules_instantiate ir inputs m (r # rs) = Some ((case res of None \<Rightarrow> [] | Some r' \<Rightarrow> [r']) @ rs')"
    using res(1) rs'(1) by (cases res) (auto simp: rules_instantiate_def bind_eq_Some_conv map_filter_simps)
  show ?case
  proof (cases res)
    case None
    then show ?thesis using step rs'(2,3) res(2) by (simp add: rules_allow_def)
  next
    case (Some r')
    then have "rule_ok ir inputs cx b r'" using rule_instantiate_ok [of ir inputs m r r'] res Cons.prems by simp
    then show ?thesis using step rs'(2,3) res(2) Some by (simp add: rules_allow_def)
  qed
qed (simp add: rules_instantiate_def rules_allow_def map_filter_simps)

end
