(* ===== verification/Truth_Table_Correct.thy ===== *)
theory Truth_Table_Correct
  imports Truth_Table_Cells
begin

text \<open>
  Correctness of the compilation of rules into decision trees: in every context the filter that
  \<^verbatim>\<open>opt_rules\<close> builds allows exactly the values that the rules allow, and the compilation never panics on
  well-formed rules. Merged branches have the same content, the split views do not overlap, and
  the recursion ends because each call fixes one more input.
\<close>

section \<open>Tables and contexts\<close>

definition values_ok :: "input_table \<Rightarrow> bool" where
  "values_ok values \<longleftrightarrow> (\<forall>p\<in>set values. \<exists>n keys. distinct keys \<and> snd p = map (\<lambda>v. VS_Enum n {|v|} {||}) keys)"

text \<open>The index of the table at which the values of a context are found.\<close>

definition ctx_at :: "input_table \<Rightarrow> ctx \<Rightarrow> nat list \<Rightarrow> bool" where
  "ctx_at values cx idx \<longleftrightarrow> list_all2 (\<lambda>k p. k < length (snd p) \<and>
     (\<exists>x n. ctx_input cx (fst p) = EVal x \<and> snd p ! k = VS_Enum n {|x|} {||})) idx values"

definition dims_of :: "input_table \<Rightarrow> nat list" where
  "dims_of values = map (length \<circ> snd) values"

definition table_ok :: "input_table \<Rightarrow> cell nd_array \<Rightarrow> bool" where
  "table_ok values arr \<longleftrightarrow> nd_wf arr \<and> nd_dims arr = dims_of values \<and> (\<forall>c\<in>set (nd_data arr). cell_wf c)"

definition tv_ok :: "input_table \<Rightarrow> table_view \<Rightarrow> bool" where
  "tv_ok values tv \<longleftrightarrow> view_of (dims_of values) (tv_view tv)
     \<and> v_bounds (tv_view tv) = map ((!) (dims_of values)) (tv_dim_map tv)
     \<and> (\<forall>d\<in>set (tv_dim_map tv). d < length values)"

definition ctx_index :: "nat list \<Rightarrow> table_view \<Rightarrow> nat list" where
  "ctx_index idx tv = map ((!) idx) (tv_dim_map tv)"

lemma range_collect: "nd_range_collect ds = Some (all_indexes ds)"
  using collect_range_at [OF range_at_new, of ds "Suc (prod_list ds)"] by (simp add: nd_range_collect_def)

lemma ctx_atD:
  assumes "ctx_at values cx idx" "d < length values"
  shows "idx ! d < length (snd (values ! d))"
    "\<exists>x n. ctx_input cx (fst (values ! d)) = EVal x \<and> snd (values ! d) ! (idx ! d) = VS_Enum n {|x|} {||}"
  using assms by (auto simp: ctx_at_def list_all2_conv_all_nth)

lemma ctx_index_in_box:
  assumes "ctx_at values cx idx" "tv_ok values tv"
  shows "in_box (v_bounds (tv_view tv)) (ctx_index idx tv)"
  using assms ctx_atD(1) [OF assms(1)]
  by (auto simp: in_box_nth tv_ok_def ctx_index_def dims_of_def)

text \<open>A value of the table contains the value of the context only at its index.\<close>

lemma value_at_ctx:
  assumes "values_ok values" "ctx_at values cx idx" "d < length values" "k < length (snd (values ! d))"
  shows "vs_member ir cx (snd (values ! d) ! k) (ctx_input cx (fst (values ! d))) \<longleftrightarrow> k = idx ! d"
proof -
  obtain n keys where keys: "distinct keys" "snd (values ! d) = map (\<lambda>v. VS_Enum n {|v|} {||}) keys"
    using assms(1,3) nth_mem unfolding values_ok_def by blast
  obtain x n' where x: "ctx_input cx (fst (values ! d)) = EVal x"
    "snd (values ! d) ! (idx ! d) = VS_Enum n' {|x|} {||}" "idx ! d < length (snd (values ! d))"
    using ctx_atD [OF assms(2,3)] by blast
  then have "keys ! (idx ! d) = x" using keys(2) by simp
  then show ?thesis
    using keys x assms(4) nth_eq_iff_index_eq [OF keys(1), of k "idx ! d"] by auto
qed

lemma view_index_ok:
  assumes "table_ok values arr" "tv_ok values tv" "in_box (v_bounds (tv_view tv)) is"
  shows "\<exists>c. view_index arr (tv_view tv) is = Some c \<and> cell_wf c"
proof -
  obtain pat where pat: "view_ok (nd_dims arr) pat (tv_view tv)"
    using assms(1,2) view_of_ok [of "nd_dims arr" "tv_view tv"] by (auto simp: table_ok_def tv_ok_def)
  have "in_box (nd_dims arr) (fill pat is)" using pat assms(3) fill_in_box by (auto simp: view_ok_def)
  then have "flat (nd_dims arr) (fill pat is) < length (nd_data arr)"
    using flat_less assms(1) by (auto simp: table_ok_def nd_wf_def)
  then show ?thesis
    using view_index_fill(2) [OF pat assms(3)] assms(1) by (auto simp: table_ok_def nd_wf_def)
qed

lemma those_map_Some: "(\<And>x. x \<in> set xs \<Longrightarrow> f x \<noteq> None) \<Longrightarrow> those (map f xs) = Some (map (the \<circ> f) xs)"
  by (induction xs) fastforce+

lemma tv_cells_eq:
  assumes "table_ok values arr" "tv_ok values tv"
  shows "tv_cells arr tv = Some (map (the \<circ> view_index arr (tv_view tv)) (all_indexes (v_bounds (tv_view tv))))"
proof -
  have "view_index arr (tv_view tv) x \<noteq> None" if "x \<in> set (all_indexes (v_bounds (tv_view tv)))" for x
    using view_index_ok [OF assms, of x] that by (auto simp: set_all_indexes)
  then show ?thesis unfolding tv_cells_def range_collect by (simp add: those_map_Some)
qed

lemma tv_is_empty_spec:
  assumes "table_ok values arr" "tv_ok values tv"
  shows "\<exists>e. tv_is_empty arr tv = Some e \<and>
    (e \<longrightarrow> (\<forall>is. in_box (v_bounds (tv_view tv)) is \<longrightarrow> cell_is_empty (the (view_index arr (tv_view tv) is))))"
  using tv_cells_eq [OF assms] by (simp add: tv_is_empty_def set_all_indexes)

lemma tv_equal_content_spec:
  assumes "table_ok values arr" "tv_ok values tv" "tv_ok values tv'" "tv_dim_map tv = tv_dim_map tv'"
  shows "\<exists>e. tv_equal_content arr tv tv' = Some e \<and> (e \<longrightarrow> (\<forall>is. in_box (v_bounds (tv_view tv)) is \<longrightarrow>
    cell_eq (the (view_index arr (tv_view tv) is)) (the (view_index arr (tv_view tv') is))))"
proof -
  have same: "v_bounds (tv_view tv') = v_bounds (tv_view tv)" using assms(2-4) by (simp add: tv_ok_def)
  show ?thesis
    using tv_cells_eq [OF assms(1,2)] tv_cells_eq [OF assms(1,3)]
    by (auto simp: tv_equal_content_def same list_all2_map1 list_all2_map2 list_all2_same
        set_all_indexes)
qed

subsection \<open>Fixing one input\<close>

lemma vec_remove_map: "vec_remove i (map f xs) = map f (vec_remove i xs)"
  by (simp add: vec_remove_def take_map drop_map)

lemma set_vec_remove: "set (vec_remove i xs) \<subseteq> set xs"
  by (auto simp: vec_remove_def dest: in_set_takeD in_set_dropD)

text \<open>What \<^verbatim>\<open>instantiate\<close> returns: one table per value, with the position fixed.\<close>

definition split_of :: "input_table \<Rightarrow> cell nd_array \<Rightarrow> table_view \<Rightarrow> nat \<Rightarrow> (value_set \<times> table_view) list \<Rightarrow> bool" where
  "split_of values arr tv pos split \<longleftrightarrow>
     length split = length (snd (values ! (tv_dim_map tv ! pos))) \<and>
     (\<forall>k<length split. fst (split ! k) = snd (values ! (tv_dim_map tv ! pos)) ! k
        \<and> tv_ok values (snd (split ! k)) \<and> tv_dim_map (snd (split ! k)) = vec_remove pos (tv_dim_map tv)
        \<and> (\<forall>is. in_box (v_bounds (tv_view (snd (split ! k)))) is \<longrightarrow>
             in_box (v_bounds (tv_view tv)) (vec_insert pos k is) \<and>
             view_flat_index arr (tv_view (snd (split ! k))) is = view_flat_index arr (tv_view tv) (vec_insert pos k is)))"

lemma tv_instantiate_spec:
  assumes "table_ok values arr" "tv_ok values tv" "pos < tv_num_inputs tv"
  shows "\<exists>split. tv_instantiate values tv pos = Some split \<and> split_of values arr tv pos split"
proof -
  let ?v = "tv_view tv" and ?dm = "tv_dim_map tv"
  have pos: "pos < length ?dm" "?dm ! pos < length values"
    using assms(2,3) by (auto simp: tv_num_inputs_def tv_ok_def)
  have b: "v_bounds ?v ! pos = length (snd (values ! (?dm ! pos)))" "pos < length (v_bounds ?v)"
    using assms(2) pos by (auto simp: tv_ok_def dims_of_def)
  have dims: "nd_dims arr = dims_of values" "nd_wf arr" using assms(1) by (auto simp: table_ok_def)
  obtain pat where pat: "view_ok (nd_dims arr) pat ?v"
    using assms(2) view_of_ok [of "nd_dims arr" ?v] dims by (auto simp: tv_ok_def)
  obtain vs where vs: "view_split ?v pos = Some vs" "length vs = v_bounds ?v ! pos"
    using view_split_ok [OF pat b(2)] by blast
  let ?sets = "snd (values ! (?dm ! pos))"
  let ?split = "zip ?sets (map (\<lambda>v. \<lparr>tv_dim_map = vec_remove pos ?dm, tv_view = v\<rparr>) vs)"
  have inst: "tv_instantiate values tv pos = Some ?split"
    using pos vs b(1) by (simp add: tv_instantiate_def Let_def)
  have nth: "?split ! k = (?sets ! k, \<lparr>tv_dim_map = vec_remove pos ?dm, tv_view = vs ! k\<rparr>)" if "k < length vs" for k
    using that vs(2) b(1) by simp
  have ok: "tv_ok values \<lparr>tv_dim_map = vec_remove pos ?dm, tv_view = vs ! k\<rparr>" if "k < length vs" for k
  proof -
    have "view_of (dims_of values) (vs ! k)"
      using view_of.split [OF _ vs(1) that] assms(2) by (auto simp: tv_ok_def)
    moreover have "v_bounds (vs ! k) = vec_remove pos (v_bounds ?v)"
      using vs(1) that b(2) by (auto simp: view_split_def Let_def)
    ultimately show ?thesis
      using assms(2) set_vec_remove [of pos ?dm] by (auto simp: tv_ok_def vec_remove_map)
  qed
  show ?thesis
    using inst nth ok vs(2) b(1) view_split_index [OF dims(2) pat vs(1)] by (auto simp: split_of_def)
qed

lemma split_ctx:
  assumes "split_of values arr tv pos split" "tv_ok values tv" "pos < tv_num_inputs tv" "ctx_at values cx idx"
  defines "k \<equiv> idx ! (tv_dim_map tv ! pos)"
  shows "k < length split"
    and "view_index arr (tv_view (snd (split ! k))) (ctx_index idx (snd (split ! k)))
       = view_index arr (tv_view tv) (ctx_index idx tv)"
proof -
  have d: "tv_dim_map tv ! pos < length values" "pos < length (tv_dim_map tv)"
    using assms(2,3) by (auto simp: tv_num_inputs_def tv_ok_def)
  show k: "k < length split" using ctx_atD(1) [OF assms(4) d(1)] assms(1) by (simp add: split_of_def k_def)
  let ?t = "snd (split ! k)"
  have t: "tv_ok values ?t" "tv_dim_map ?t = vec_remove pos (tv_dim_map tv)"
    using assms(1) k by (auto simp: split_of_def)
  have box: "in_box (v_bounds (tv_view ?t)) (ctx_index idx ?t)" using ctx_index_in_box [OF assms(4) t(1)] .
  have "pos < length (v_bounds (tv_view tv))" using assms(2) d(2) by (simp add: tv_ok_def)
  then have "ctx_index idx tv = vec_insert pos (ctx_index idx tv ! pos) (vec_remove pos (ctx_index idx tv))"
    using in_box_remove ctx_index_in_box [OF assms(4,2)] by blast
  then have "ctx_index idx tv = vec_insert pos k (ctx_index idx ?t)"
    using d(2) t(2) by (simp add: ctx_index_def k_def vec_remove_map)
  then show "view_index arr (tv_view ?t) (ctx_index idx ?t) = view_index arr (tv_view tv) (ctx_index idx tv)"
    using assms(1) k box by (simp add: split_of_def view_index_def)
qed

subsection \<open>Merging branches\<close>

lemma merge_value_shape:
  assumes "\<forall>(vals, p, t)\<in>set inst. \<exists>e. tv_equal_content arr sub t = Some e"
    "\<forall>(vals, p, t)\<in>set inst. \<exists>n V. vals = VS_Enum n V {||}" "value = VS_Enum m W {||}"
  shows "\<exists>inst'. merge_value arr pos value sub inst = Some inst' \<and>
    (inst' = inst @ [(value, pos, sub)] \<or>
     (\<exists>pre n V p t post. inst = pre @ (VS_Enum n V {||}, p, t) # post \<and> tv_equal_content arr sub t = Some True
        \<and> inst' = pre @ (VS_Enum n (V |\<union>| W) {||}, p, t) # post))"
  using assms(1,2)
proof (induction inst)
  case (Cons i inst)
  obtain vals p t where i: "i = (vals, p, t)" by (cases i)
  obtain e n V where e: "tv_equal_content arr sub t = Some e" "vals = VS_Enum n V {||}"
    using Cons.prems i by auto
  show ?case
  proof (cases e)
    case True
    have "merge_value arr pos value sub (i # inst) = Some ((VS_Enum n (V |\<union>| W) {||}, p, t) # inst)"
      using e True i assms(3) by simp
    then show ?thesis using e True i by (metis append_Nil)
  next
    case False
    have prems: "\<forall>(vals, p, t)\<in>set inst. \<exists>e. tv_equal_content arr sub t = Some e"
      "\<forall>(vals, p, t)\<in>set inst. \<exists>n V. vals = VS_Enum n V {||}"
      using Cons.prems by auto
    obtain inst' where inst': "merge_value arr pos value sub inst = Some inst'"
      "inst' = inst @ [(value, pos, sub)] \<or>
       (\<exists>pre n V p t post. inst = pre @ (VS_Enum n V {||}, p, t) # post \<and> tv_equal_content arr sub t = Some True
          \<and> inst' = pre @ (VS_Enum n (V |\<union>| W) {||}, p, t) # post)"
      using Cons.IH [OF prems] by blast
    have step: "merge_value arr pos value sub (i # inst) = Some (i # inst')"
      using e(1) False i inst'(1) by simp
    show ?thesis unfolding step using inst'(2) by (metis append_Cons)
  qed
qed simp

text \<open>
  The state of the merge after the first \<open>m\<close> values: every value is empty or represented by one
  instance, and an instance holds only values whose tables have its content.
\<close>

definition like :: "cell nd_array \<Rightarrow> (value_set \<times> table_view) list \<Rightarrow> nat \<Rightarrow> nat \<Rightarrow> bool" where
  "like arr split k p \<longleftrightarrow> k = p \<or> tv_equal_content arr (snd (split ! k)) (snd (split ! p)) = Some True"

definition inst_ok :: "cell nd_array \<Rightarrow> (value_set \<times> table_view) list \<Rightarrow> nat \<Rightarrow> value_set \<times> nat \<times> table_view \<Rightarrow> bool" where
  "inst_ok arr split m i \<longleftrightarrow> (case i of (vals, p, t) \<Rightarrow> p < m \<and> t = snd (split ! p)
     \<and> tv_is_empty arr t = Some False \<and> vs_inputs vals = {||} \<and> is_VS_Enum vals
     \<and> (\<forall>x |\<in>| vs_values vals. \<exists>k<m. x |\<in>| vs_values (fst (split ! k)) \<and> like arr split k p))"

definition covered :: "cell nd_array \<Rightarrow> (value_set \<times> table_view) list \<Rightarrow> (value_set \<times> nat \<times> table_view) list \<Rightarrow> nat \<Rightarrow> bool" where
  "covered arr split inst k \<longleftrightarrow> (\<exists>(vals, p, t)\<in>set inst.
     vs_values (fst (split ! k)) |\<subseteq>| vs_values vals \<and> like arr split k p)"

definition merge_inv ::
  "cell nd_array \<Rightarrow> (value_set \<times> table_view) list \<Rightarrow> nat \<Rightarrow> (value_set \<times> nat \<times> table_view) list \<Rightarrow> bool \<Rightarrow> bool" where
  "merge_inv arr split m inst fw \<longleftrightarrow> (\<forall>i\<in>set inst. inst_ok arr split m i)
     \<and> sorted_wrt (<) (map (fst \<circ> snd) inst)
     \<and> (\<forall>k<m. (tv_is_empty arr (snd (split ! k)) = Some True \<and> \<not> fw) \<or> covered arr split inst k)"

lemma inst_ok_mono: "inst_ok arr split m i \<Longrightarrow> inst_ok arr split (Suc m) i"
  unfolding inst_ok_def by (auto split: prod.splits) (meson less_Suc_eq)

lemma merge_value_inv:
  assumes "merge_inv arr split m inst fw" "m < length split"
    "\<forall>k<length split. \<forall>l<length split. \<exists>e. tv_equal_content arr (snd (split ! k)) (snd (split ! l)) = Some e"
    "tv_is_empty arr (snd (split ! m)) = Some False" "fst (split ! m) = VS_Enum n {|x|} {||}"
  shows "\<exists>inst'. merge_value arr m (fst (split ! m)) (snd (split ! m)) inst = Some inst'
    \<and> merge_inv arr split (Suc m) inst' fw"
proof -
  let ?sub = "snd (split ! m)"
  have ok: "inst_ok arr split m i" if "i \<in> set inst" for i using assms(1) that by (simp add: merge_inv_def)
  have content: "\<forall>(vals, p, t)\<in>set inst. \<exists>e. tv_equal_content arr ?sub t = Some e"
    using ok assms(2,3) by (auto simp: inst_ok_def) (metis order.strict_trans)
  have enums: "\<forall>(vals, p, t)\<in>set inst. \<exists>n V. vals = VS_Enum n V {||}"
    using ok by (fastforce simp: inst_ok_def is_VS_Enum_def)
  obtain inst' where inst': "merge_value arr m (fst (split ! m)) ?sub inst = Some inst'"
    "inst' = inst @ [(fst (split ! m), m, ?sub)] \<or>
     (\<exists>pre n' V p t post. inst = pre @ (VS_Enum n' V {||}, p, t) # post \<and> tv_equal_content arr ?sub t = Some True
        \<and> inst' = pre @ (VS_Enum n' (V |\<union>| {|x|}) {||}, p, t) # post)"
    using merge_value_shape [OF content enums assms(5), of m] by blast
  have "merge_inv arr split (Suc m) inst' fw"
    using inst'(2)
  proof (elim disjE exE conjE)
    assume new: "inst' = inst @ [(fst (split ! m), m, ?sub)]"
    have "inst_ok arr split (Suc m) (fst (split ! m), m, ?sub)"
      using assms(4,5) by (auto simp: inst_ok_def like_def)
    moreover have "\<forall>i\<in>set inst. fst (snd i) < m" using ok by (auto simp: inst_ok_def)
    ultimately show ?thesis
      using assms(1) new inst_ok_mono
      by (auto simp: merge_inv_def sorted_wrt_append covered_def less_Suc_eq like_def)
  next
    fix pre n' V p t post
    assume old: "inst = pre @ (VS_Enum n' V {||}, p, t) # post" "tv_equal_content arr ?sub t = Some True"
      "inst' = pre @ (VS_Enum n' (V |\<union>| {|x|}) {||}, p, t) # post"
    have i: "inst_ok arr split m (VS_Enum n' V {||}, p, t)" using ok old(1) by simp
    then have "like arr split m p" using old(2) by (simp add: like_def inst_ok_def)
    then have "inst_ok arr split (Suc m) (VS_Enum n' (V |\<union>| {|x|}) {||}, p, t)"
      using inst_ok_mono [OF i] assms(5) by (auto simp: inst_ok_def)
    moreover have "covered arr split inst' k" if "covered arr split inst k" for k
      using that old(1,3) by (auto simp: covered_def)
    moreover have "covered arr split inst' m"
      using \<open>like arr split m p\<close> old(3) assms(5) by (auto simp: covered_def)
    ultimately show ?thesis
      using assms(1) old(1,3) inst_ok_mono by (auto simp: merge_inv_def less_Suc_eq)
  qed
  then show ?thesis using inst'(1) by blast
qed

lemma merge_branches_inv:
  assumes "\<forall>k<length split. \<forall>l<length split. \<exists>e. tv_equal_content arr (snd (split ! k)) (snd (split ! l)) = Some e"
    "\<forall>k<length split. \<exists>e. tv_is_empty arr (snd (split ! k)) = Some e"
    "\<forall>k<length split. \<exists>n x. fst (split ! k) = VS_Enum n {|x|} {||}"
    "merge_inv arr split m inst fw" "m \<le> length split"
  shows "\<exists>inst' fw'. merge_branches arr m (drop m split) inst fw = Some (inst', fw')
    \<and> merge_inv arr split (length split) inst' fw'"
  using assms(4,5)
proof (induction "length split - m" arbitrary: m inst fw)
  case 0
  then show ?case by simp
next
  case (Suc d)
  then have m: "m < length split" by simp
  obtain vl sub where p: "split ! m = (vl, sub)" by (cases "split ! m")
  have drop: "drop m split = (vl, sub) # drop (Suc m) split"
    using m p by (metis Cons_nth_drop_Suc)
  obtain e where e: "tv_is_empty arr (snd (split ! m)) = Some e" using assms(2) m by blast
  show ?case
  proof (cases e)
    case True
    have "merge_inv arr split (Suc m) inst False"
      using Suc.prems(1) e True inst_ok_mono by (auto simp: merge_inv_def less_Suc_eq)
    then show ?thesis using Suc.hyps(1) [of "Suc m" inst False] Suc.hyps(2) m e True drop p by simp
  next
    case False
    obtain n x where "fst (split ! m) = VS_Enum n {|x|} {||}" using assms(3) m by blast
    then obtain inst' where "merge_value arr m (fst (split ! m)) (snd (split ! m)) inst = Some inst'"
      "merge_inv arr split (Suc m) inst' fw"
      using merge_value_inv [OF Suc.prems(1) m assms(1)] e False by auto
    then show ?thesis using Suc.hyps(1) [of "Suc m" inst' fw] Suc.hyps(2) m e False drop p by simp
  qed
qed

subsection \<open>Choosing the split\<close>

lemma pick_views_sorted:
  assumes "sorted_wrt (<) (map snd config)" "\<forall>(vals, p)\<in>set config. m \<le> p \<and> p < length split
      \<and> tv_is_empty arr (snd (split ! p)) = Some False"
  shows "pick_views arr config (zip [m..<length split] (drop m split))
    = Some (map (\<lambda>(vals, p). (vals, snd (split ! p))) config)"
  using assms
proof (induction config arbitrary: m)
  case (Cons c config)
  obtain vals p where c: "c = (vals, p)" by (cases c)
  have p: "m \<le> p" "p < length split" "tv_is_empty arr (snd (split ! p)) = Some False"
    using Cons.prems(2) c by auto
  have "dropWhile (\<lambda>(other_pos, _). p \<noteq> other_pos) (zip [m..<length split] (drop m split))
      = (p, split ! p) # zip [Suc p..<length split] (drop (Suc p) split)"
    using p(1,2)
  proof (induction "p - m" arbitrary: m)
    case 0
    then have "m = p" by simp
    moreover have "zip [p..<length split] (drop p split) = (p, split ! p) # zip [Suc p..<length split] (drop (Suc p) split)"
      using p(2) Cons_nth_drop_Suc [OF p(2)] upt_conv_Cons [OF p(2)] by (metis zip_Cons_Cons)
    ultimately show ?case by simp
  next
    case (Suc d)
    then have m: "m < length split" "p \<noteq> m" by auto
    have "zip [m..<length split] (drop m split) = (m, split ! m) # zip [Suc m..<length split] (drop (Suc m) split)"
      using Cons_nth_drop_Suc [OF m(1)] upt_conv_Cons [OF m(1)] by (metis zip_Cons_Cons)
    then show ?case using Suc.hyps(1) [of "Suc m"] Suc.hyps(2) Suc.prems m by simp
  qed
  moreover have "pick_views arr config (zip [Suc p..<length split] (drop (Suc p) split))
      = Some (map (\<lambda>(vals, p). (vals, snd (split ! p))) config)"
    using Cons.prems c by (intro Cons.IH) force+
  ultimately show ?case using c p(3) by (cases "split ! p") simp
qed simp

text \<open>The outcome of the search: a table that ignores one input, or a complete list of branches.\<close>

definition good_split :: "input_table \<Rightarrow> cell nd_array \<Rightarrow> table_view \<Rightarrow> table_split \<Rightarrow> bool" where
  "good_split values arr tv s \<longleftrightarrow> (\<exists>pos split inst fw. pos < tv_num_inputs tv
     \<and> tv_instantiate values tv pos = Some split \<and> merge_inv arr split (length split) inst fw
     \<and> (case s of
          TS_Forward sub \<Rightarrow> fw \<and> length inst = 1 \<and> split \<noteq> [] \<and> sub = snd (last split)
        | TS_Switch input cases \<Rightarrow> input = fst (values ! (tv_dim_map tv ! pos))
            \<and> cases = map (\<lambda>(vals, p, t). (vals, t)) inst))"

lemma split_merges:
  assumes "values_ok values" "table_ok values arr" "tv_ok values tv" "pos < tv_num_inputs tv"
  shows "\<exists>split inst fw. tv_instantiate values tv pos = Some split
    \<and> merge_branches arr 0 split [] True = Some (inst, fw) \<and> merge_inv arr split (length split) inst fw"
proof -
  obtain split where split: "tv_instantiate values tv pos = Some split" "split_of values arr tv pos split"
    using tv_instantiate_spec [OF assms(2-4)] by blast
  have d: "tv_dim_map tv ! pos < length values"
    using assms(3,4) by (auto simp: tv_ok_def tv_num_inputs_def)
  have sub: "tv_ok values (snd (split ! k))" "tv_dim_map (snd (split ! k)) = vec_remove pos (tv_dim_map tv)"
    if "k < length split" for k
    using split(2) that by (auto simp: split_of_def)
  have "\<exists>e. tv_equal_content arr (snd (split ! k)) (snd (split ! l)) = Some e"
    if "k < length split" "l < length split" for k l
    using tv_equal_content_spec [OF assms(2) sub(1) [OF that(1)] sub(1) [OF that(2)]] sub(2) that by auto
  moreover have "\<exists>e. tv_is_empty arr (snd (split ! k)) = Some e" if "k < length split" for k
    using tv_is_empty_spec [OF assms(2) sub(1) [OF that]] by blast
  moreover have "\<exists>n x. fst (split ! k) = VS_Enum n {|x|} {||}" if k: "k < length split" for k
  proof -
    obtain n keys where "snd (values ! (tv_dim_map tv ! pos)) = map (\<lambda>v. VS_Enum n {|v|} {||}) keys"
      using assms(1) nth_mem [OF d] unfolding values_ok_def by blast
    then show ?thesis using split(2) k by (auto simp: split_of_def)
  qed
  moreover have "merge_inv arr split 0 [] True" by (simp add: merge_inv_def)
  ultimately obtain inst fw where "merge_branches arr 0 (drop 0 split) [] True = Some (inst, fw)"
    "merge_inv arr split (length split) inst fw"
    using merge_branches_inv [of split arr 0 "[]" True] by blast
  then show ?thesis using split(1) by auto
qed

definition good_best :: "input_table \<Rightarrow> cell nd_array \<Rightarrow> table_view \<Rightarrow> nat \<times> (value_set \<times> nat) list \<Rightarrow> bool" where
  "good_best values arr tv = (\<lambda>(pos, config). \<exists>split inst fw. pos < tv_num_inputs tv
     \<and> tv_instantiate values tv pos = Some split \<and> merge_inv arr split (length split) inst fw
     \<and> config = map (\<lambda>(vals, vpos, _). (vals, vpos)) inst)"

lemma best_becomes_switch:
  assumes "good_best values arr tv (pos, config)" "tv_ok values tv"
  shows "\<exists>s. (do { input \<leftarrow> tv_input_from_pos values tv pos;
            views \<leftarrow> tv_instantiate values tv pos;
            cases \<leftarrow> pick_views arr config (zip [0..<length views] views);
            Some (Some (TS_Switch input cases)) }) = Some (Some s) \<and> good_split values arr tv s"
proof -
  obtain split inst fw where *: "pos < tv_num_inputs tv" "tv_instantiate values tv pos = Some split"
    "merge_inv arr split (length split) inst fw" "config = map (\<lambda>(vals, vpos, _). (vals, vpos)) inst"
    using assms(1) by (auto simp: good_best_def)
  have inst: "inst_ok arr split (length split) i" if "i \<in> set inst" for i
    using *(3) that by (simp add: merge_inv_def)
  have "map snd config = map (fst \<circ> snd) inst" using *(4) by (simp add: comp_def case_prod_unfold)
  then have sorted: "sorted_wrt (<) (map snd config)" using *(3) by (simp add: merge_inv_def)
  have "pick_views arr config (zip [0..<length split] (drop 0 split))
      = Some (map (\<lambda>(vals, p). (vals, snd (split ! p))) config)"
    using inst *(4) by (intro pick_views_sorted [OF sorted]) (fastforce simp: inst_ok_def)
  moreover have "map (\<lambda>(vals, p). (vals, snd (split ! p))) config = map (\<lambda>(vals, p, t). (vals, t)) inst"
    using inst *(4) by (fastforce simp: inst_ok_def)
  moreover have "tv_input_from_pos values tv pos = Some (fst (values ! (tv_dim_map tv ! pos)))"
    using *(1) assms(2) by (auto simp: tv_input_from_pos_def tv_num_inputs_def tv_ok_def)
  moreover have "good_split values arr tv (TS_Switch (fst (values ! (tv_dim_map tv ! pos)))
      (map (\<lambda>(vals, p, t). (vals, t)) inst))"
    unfolding good_split_def using *(1-3) by auto
  ultimately show ?thesis using *(2) by simp
qed

lemma min_split_loop_good:
  assumes "values_ok values" "table_ok values arr" "tv_ok values tv"
    "case best of None \<Rightarrow> pos = 0 \<and> 0 < tv_num_inputs tv | Some b \<Rightarrow> good_best values arr tv b"
  shows "\<exists>s. min_split_loop values arr tv pos best = Some (Some s) \<and> good_split values arr tv s"
  using assms(4)
proof (induction "tv_num_inputs tv - pos" arbitrary: pos best)
  case 0
  then obtain p config where best: "best = Some (p, config)" "\<not> pos < tv_num_inputs tv"
    by (cases best) auto
  then show ?case
    using best_becomes_switch [OF _ assms(3), of arr p config] 0(2) by (simp add: min_split_loop.simps)
next
  case (Suc d)
  then have pos: "pos < tv_num_inputs tv" by simp
  obtain split inst fw where split: "tv_instantiate values tv pos = Some split"
    "merge_branches arr 0 split [] True = Some (inst, fw)" "merge_inv arr split (length split) inst fw"
    using split_merges [OF assms(1-3) pos] by blast
  show ?case
  proof (cases "fw \<and> length inst = 1")
    case True
    then obtain i where "i \<in> set inst" by (cases inst) auto
    then have "split \<noteq> []" using split(3) by (auto simp: merge_inv_def inst_ok_def)
    then have "min_split_loop values arr tv pos best = Some (Some (TS_Forward (snd (last split))))"
      using pos split(1,2) True by (subst min_split_loop.simps) simp
    moreover have "good_split values arr tv (TS_Forward (snd (last split)))"
      unfolding good_split_def using pos split(1,3) True \<open>split \<noteq> []\<close> by auto
    ultimately show ?thesis by blast
  next
    case False
    let ?best = "if (case best of None \<Rightarrow> True | Some b \<Rightarrow> length (snd b) > length inst)
          then Some (pos, map (\<lambda>(vals, vpos, _). (vals, vpos)) inst) else best"
    have "min_split_loop values arr tv pos best = min_split_loop values arr tv (Suc pos) ?best"
      using pos split(1,2) False by (subst min_split_loop.simps) (auto simp: Let_def)
    moreover have "good_best values arr tv (pos, map (\<lambda>(vals, vpos, _). (vals, vpos)) inst)"
      using pos split(1,3) by (auto simp: good_best_def)
    then have "case ?best of None \<Rightarrow> Suc pos = 0 \<and> 0 < tv_num_inputs tv | Some b \<Rightarrow> good_best values arr tv b"
      using Suc.prems by (auto split: option.splits)
    ultimately show ?thesis using Suc.hyps(1) [of "Suc pos" ?best] Suc.hyps(2) by simp
  qed
qed

section \<open>The decision tree\<close>

definition tv_positions :: "cell nd_array \<Rightarrow> table_view \<Rightarrow> nat set" where
  "tv_positions arr tv = {q. \<exists>is. in_box (v_bounds (tv_view tv)) is \<and> view_flat_index arr (tv_view tv) is = Some q}"

definition ctx_cell :: "cell nd_array \<Rightarrow> nat list \<Rightarrow> table_view \<Rightarrow> cell" where
  "ctx_cell arr idx tv = the (view_index arr (tv_view tv) (ctx_index idx tv))"

definition same_outside :: "nat set \<Rightarrow> cell nd_array \<Rightarrow> cell nd_array \<Rightarrow> bool" where
  "same_outside P arr arr' \<longleftrightarrow> (\<forall>q. q \<notin> P \<longrightarrow> nd_data arr' ! q = nd_data arr ! q)"

lemma same_dims:
  assumes "table_ok values arr" "table_ok values arr'"
  shows "view_flat_index arr' v is = view_flat_index arr v is" "tv_positions arr' tv = tv_positions arr tv"
    "length (nd_data arr') = length (nd_data arr)"
  using assms by (simp_all add: table_ok_def nd_wf_def view_flat_index_def tv_positions_def)

lemma ctx_cell_same:
  assumes "table_ok values arr" "table_ok values arr'" "same_outside P arr arr'"
    "tv_positions arr tv \<inter> P = {}" "tv_ok values tv" "ctx_at values cx idx"
  shows "ctx_cell arr' idx tv = ctx_cell arr idx tv"
proof -
  have box: "in_box (v_bounds (tv_view tv)) (ctx_index idx tv)" using ctx_index_in_box [OF assms(6,5)] .
  obtain c where "view_index arr (tv_view tv) (ctx_index idx tv) = Some c"
    using view_index_ok [OF assms(1,5) box] by blast
  then obtain q where q: "view_flat_index arr (tv_view tv) (ctx_index idx tv) = Some q" "q < length (nd_data arr)"
    by (auto simp: view_index_def bind_eq_Some_conv split: if_splits)
  then have "q \<notin> P" using assms(4) box by (auto simp: tv_positions_def)
  then show ?thesis
    using q assms(3) same_dims [OF assms(1,2)]
    by (simp add: ctx_cell_def view_index_def same_outside_def)
qed

lemma split_positions:
  assumes "split_of values arr tv pos split" "k < length split"
  shows "tv_positions arr (snd (split ! k)) \<subseteq> tv_positions arr tv"
  using assms unfolding split_of_def tv_positions_def by fastforce

lemma split_disjoint:
  assumes "table_ok values arr" "tv_ok values tv" "pos < tv_num_inputs tv" "split_of values arr tv pos split"
    "k < length split" "l < length split" "k \<noteq> l"
  shows "tv_positions arr (snd (split ! k)) \<inter> tv_positions arr (snd (split ! l)) = {}"
proof (rule ccontr)
  assume "tv_positions arr (snd (split ! k)) \<inter> tv_positions arr (snd (split ! l)) \<noteq> {}"
  then obtain q "is" js where q: "in_box (v_bounds (tv_view (snd (split ! k)))) is"
    "view_flat_index arr (tv_view (snd (split ! k))) is = Some q"
    "in_box (v_bounds (tv_view (snd (split ! l)))) js"
    "view_flat_index arr (tv_view (snd (split ! l))) js = Some q"
    by (auto simp: tv_positions_def)
  have box: "in_box (v_bounds (tv_view tv)) (vec_insert pos k is)" "in_box (v_bounds (tv_view tv)) (vec_insert pos l js)"
    "view_flat_index arr (tv_view tv) (vec_insert pos k is) = view_flat_index arr (tv_view tv) (vec_insert pos l js)"
    using assms(4-6) q by (auto simp: split_of_def)
  have dims: "nd_dims arr = dims_of values" "nd_wf arr" using assms(1) by (auto simp: table_ok_def)
  obtain pat where pat: "view_ok (nd_dims arr) pat (tv_view tv)"
    using assms(2) view_of_ok [of "nd_dims arr"] dims by (auto simp: tv_ok_def)
  have eq: "vec_insert pos k is = vec_insert pos l js"
    using view_positions_distinct [OF dims(2) pat box] .
  have "pos < length (v_bounds (tv_view tv))" using assms(2,3) by (simp add: tv_ok_def tv_num_inputs_def)
  then have "pos \<le> length is" "pos \<le> length js"
    using in_box_length [OF box(1)] in_box_length [OF box(2)] by (auto simp: vec_insert_def)
  then have "vec_insert pos k is ! pos = k" "vec_insert pos l js ! pos = l"
    by (simp_all add: vec_insert_def nth_append)
  then show False using eq assms(7) by simp
qed

text \<open>What one call of \<^verbatim>\<open>truth_table_to_filter\<close> guarantees.\<close>

definition compiles ::
  "ir_desc \<Rightarrow> choice_instance list \<Rightarrow> ctx \<Rightarrow> input_table \<Rightarrow> nat list \<Rightarrow> cell nd_array \<Rightarrow> table_view
    \<Rightarrow> sub_filter \<Rightarrow> cell nd_array \<Rightarrow> bool" where
  "compiles ir inputs cx values idx arr tv f arr' \<longleftrightarrow> table_ok values arr' \<and> same_outside (tv_positions arr tv) arr arr'
     \<and> (\<forall>v. filter_allows ir inputs cx f v \<longleftrightarrow> cell_allows ir inputs cx (ctx_cell arr idx tv) v)"

definition compile_case ::
  "nat \<Rightarrow> (cell \<Rightarrow> cell) \<Rightarrow> input_table \<Rightarrow> value_set \<times> table_view \<Rightarrow> cell nd_array
    \<Rightarrow> ((value_set \<times> sub_filter) \<times> cell nd_array) option" where
  "compile_case n drain values = (\<lambda>(vals, view) arr. do {
     (f, arr') \<leftarrow> truth_table_to_filter n drain values view arr; Some ((vals, f), arr') })"

lemma map_state_cases:
  assumes "\<And>tv arr. (\<exists>vals. (vals, tv) \<in> set cases) \<Longrightarrow> table_ok values arr \<Longrightarrow>
      \<exists>f arr'. truth_table_to_filter n drain values tv arr = Some (f, arr') \<and> compiles ir inputs cx values idx arr tv f arr'"
    "table_ok values arr" "\<forall>(vals, t)\<in>set cases. tv_ok values t"
    "sorted_wrt (\<lambda>a b. tv_positions arr (snd a) \<inter> tv_positions arr (snd b) = {}) cases"
    "ctx_at values cx idx"
  shows "\<exists>fs arr'. map_state (compile_case n drain values) cases arr = Some (fs, arr')
    \<and> table_ok values arr' \<and> same_outside (\<Union>(vals, t)\<in>set cases. tv_positions arr t) arr arr'
    \<and> list_all2 (\<lambda>(vals, t) (vals', f). vals' = vals \<and>
         (\<forall>v. filter_allows ir inputs cx f v \<longleftrightarrow> cell_allows ir inputs cx (ctx_cell arr idx t) v)) cases fs"
  using assms
proof (induction cases arbitrary: arr)
  case (Cons c cases)
  obtain vals t where c: "c = (vals, t)" by (cases c)
  obtain f arr1 where f: "truth_table_to_filter n drain values t arr = Some (f, arr1)"
    "compiles ir inputs cx values idx arr t f arr1"
    using Cons.prems(1) [of t arr] Cons.prems(2) c by auto
  then have arr1: "table_ok values arr1" "same_outside (tv_positions arr t) arr arr1" by (auto simp: compiles_def)
  note dims = same_dims [OF Cons.prems(2) arr1(1)]
  have disj: "tv_positions arr t' \<inter> tv_positions arr t = {}" "tv_ok values t'" if "(vals', t') \<in> set cases" for vals' t'
    using Cons.prems(3,4) that c by fastforce+
  have step: "\<exists>f arr'. truth_table_to_filter n drain values tv arr = Some (f, arr')
      \<and> compiles ir inputs cx values idx arr tv f arr'"
    if "\<exists>vals. (vals, tv) \<in> set cases" "table_ok values arr" for tv arr
    using Cons.prems(1) [OF _ that(2)] that(1) by fastforce
  have tail: "\<forall>(vals, t)\<in>set cases. tv_ok values t" using disj(2) by blast
  obtain fs arr' where fs: "map_state (compile_case n drain values) cases arr1 = Some (fs, arr')" "table_ok values arr'"
    "same_outside (\<Union>(vals, t)\<in>set cases. tv_positions arr1 t) arr1 arr'"
    "list_all2 (\<lambda>(vals, t) (vals', f). vals' = vals \<and>
         (\<forall>v. filter_allows ir inputs cx f v \<longleftrightarrow> cell_allows ir inputs cx (ctx_cell arr1 idx t) v)) cases fs"
    using Cons.IH [OF step arr1(1) tail] Cons.prems(4,5) dims(2) by simp blast
  have same: "ctx_cell arr1 idx t' = ctx_cell arr idx t'" if "(vals', t') \<in> set cases" for vals' t'
    using ctx_cell_same [OF Cons.prems(2) arr1 disj [OF that] Cons.prems(5)] .
  have "list_all2 (\<lambda>(vals, t) (vals', f). vals' = vals \<and>
      (\<forall>v. filter_allows ir inputs cx f v \<longleftrightarrow> cell_allows ir inputs cx (ctx_cell arr idx t) v)) cases fs"
  proof (rule list.rel_mono_strong [OF fs(4)])
    fix a b assume "a \<in> set cases" and "(case a of (vals, t) \<Rightarrow> \<lambda>(vals', f). vals' = vals \<and>
      (\<forall>v. filter_allows ir inputs cx f v \<longleftrightarrow> cell_allows ir inputs cx (ctx_cell arr1 idx t) v)) b"
    then show "(case a of (vals, t) \<Rightarrow> \<lambda>(vals', f). vals' = vals \<and>
      (\<forall>v. filter_allows ir inputs cx f v \<longleftrightarrow> cell_allows ir inputs cx (ctx_cell arr idx t) v)) b"
      using same [of "fst a" "snd a"] by (simp add: case_prod_unfold)
  qed
  moreover have "same_outside (\<Union>(vals, t)\<in>set (c # cases). tv_positions arr t) arr arr'"
    using arr1(2) fs(3) c dims(2) by (auto simp: same_outside_def)
  ultimately show ?case
    using f fs(1,2) c by (auto simp: compile_case_def compiles_def)
qed (simp add: same_outside_def)

lemma like_allows:
  assumes "table_ok values arr" "split_of values arr tv pos split" "ctx_at values cx idx"
    "k < length split" "p < length split" "like arr split k p"
  shows "cell_allows ir inputs cx (ctx_cell arr idx (snd (split ! k))) v
    \<longleftrightarrow> cell_allows ir inputs cx (ctx_cell arr idx (snd (split ! p))) v"
proof (cases "k = p")
  case False
  let ?t = "snd (split ! k)" and ?u = "snd (split ! p)"
  have ok: "tv_ok values ?t" "tv_ok values ?u" "tv_dim_map ?t = tv_dim_map ?u"
    using assms(2,4,5) by (auto simp: split_of_def)
  have box: "in_box (v_bounds (tv_view ?t)) (ctx_index idx ?t)" "in_box (v_bounds (tv_view ?u)) (ctx_index idx ?u)"
    "ctx_index idx ?u = ctx_index idx ?t"
    using ctx_index_in_box [OF assms(3) ok(1)] ctx_index_in_box [OF assms(3) ok(2)] ok(3)
    by (simp_all add: ctx_index_def)
  have "tv_equal_content arr ?t ?u = Some True" using assms(6) False by (simp add: like_def)
  then have "cell_eq (ctx_cell arr idx ?t) (ctx_cell arr idx ?u)"
    using tv_equal_content_spec [OF assms(1) ok] box by (auto simp: ctx_cell_def)
  then show ?thesis
    using view_index_ok [OF assms(1) ok(1) box(1)] view_index_ok [OF assms(1) ok(2) box(2)] cell_eq_allows
    by (auto simp: ctx_cell_def)
qed simp

lemma forward_cell:
  assumes "table_ok values arr" "tv_ok values tv" "ctx_at values cx idx" "good_split values arr tv (TS_Forward sub)"
  shows "tv_ok values sub \<and> Suc (tv_num_inputs sub) = tv_num_inputs tv \<and> tv_positions arr sub \<subseteq> tv_positions arr tv
    \<and> (\<forall>v. cell_allows ir inputs cx (ctx_cell arr idx sub) v \<longleftrightarrow> cell_allows ir inputs cx (ctx_cell arr idx tv) v)"
proof -
  obtain pos split inst where *: "pos < tv_num_inputs tv" "tv_instantiate values tv pos = Some split"
    "merge_inv arr split (length split) inst True" "length inst = 1" "split \<noteq> []" "sub = snd (last split)"
    using assms(4) by (auto simp: good_split_def)
  have split: "split_of values arr tv pos split" using tv_instantiate_spec [OF assms(1,2) *(1)] *(2) by auto
  obtain vals p t where inst: "inst = [(vals, p, t)]" using *(4) by (cases inst) auto
  then have p: "p < length split" "like arr split k p" if "k < length split" for k
    using *(3) that by (auto simp: merge_inv_def inst_ok_def covered_def)
  let ?last = "length split - 1" and ?k = "idx ! (tv_dim_map tv ! pos)"
  have last: "?last < length split" "sub = snd (split ! ?last)" using *(5,6) by (auto simp: last_conv_nth)
  have k: "?k < length split" "ctx_cell arr idx (snd (split ! ?k)) = ctx_cell arr idx tv"
    using split_ctx [OF split assms(2) *(1) assms(3)] by (auto simp: ctx_cell_def)
  have "tv_ok values sub" "tv_dim_map sub = vec_remove pos (tv_dim_map tv)"
    using split last by (auto simp: split_of_def)
  then show ?thesis
    using like_allows [OF assms(1) split assms(3) last(1) p [OF last(1)]] *(1)
      like_allows [OF assms(1) split assms(3) k(1) p [OF k(1)]] k(2) last split_positions [OF split last(1)]
    by (auto simp: tv_num_inputs_def vec_remove_def)
qed

text \<open>The branch taken in a context leads to the cell of the context.\<close>

lemma switch_cell:
  assumes "values_ok values" "table_ok values arr" "tv_ok values tv" "ctx_at values cx idx" "pos < tv_num_inputs tv"
    "split_of values arr tv pos split" "merge_inv arr split (length split) inst fw"
  shows "(\<exists>(vals, p, t)\<in>set inst. vs_member ir cx vals (ctx_input cx (fst (values ! (tv_dim_map tv ! pos))))
      \<and> cell_allows ir inputs cx (ctx_cell arr idx t) v) \<longleftrightarrow> cell_allows ir inputs cx (ctx_cell arr idx tv) v"
proof -
  let ?d = "tv_dim_map tv ! pos"
  let ?k = "idx ! ?d" and ?x = "ctx_input cx (fst (values ! ?d))"
  have d: "?d < length values" using assms(3,5) by (auto simp: tv_ok_def tv_num_inputs_def)
  have k: "?k < length split" "ctx_cell arr idx (snd (split ! ?k)) = ctx_cell arr idx tv"
    using split_ctx [OF assms(6,3,5,4)] by (auto simp: ctx_cell_def)
  have fst_split: "fst (split ! j) = snd (values ! ?d) ! j" "j < length (snd (values ! ?d))" if "j < length split" for j
    using assms(6) that by (auto simp: split_of_def)
  obtain x n where x: "?x = EVal x" "snd (values ! ?d) ! ?k = VS_Enum n {|x|} {||}"
    using ctx_atD(2) [OF assms(4) d] by blast
  have only: "j = ?k" if "j < length split" "x |\<in>| vs_values (fst (split ! j))" "vs_inputs (fst (split ! j)) = {||}"
      "is_VS_Enum (fst (split ! j))" for j
  proof -
    have "vs_member ir cx (fst (split ! j)) ?x" using that(2-4) x(1) by (cases "fst (split ! j)") auto
    then show ?thesis
      using value_at_ctx [OF assms(1,4) d fst_split(2) [OF that(1)]] fst_split(1) [OF that(1)] by simp
  qed
  have enum: "vs_inputs (fst (split ! j)) = {||}" "is_VS_Enum (fst (split ! j))" if "j < length split" for j
  proof -
    obtain m keys where "snd (values ! ?d) = map (\<lambda>v. VS_Enum m {|v|} {||}) keys"
      using assms(1) nth_mem [OF d] unfolding values_ok_def by blast
    then show "vs_inputs (fst (split ! j)) = {||}" "is_VS_Enum (fst (split ! j))"
      using fst_split [OF that] by auto
  qed
  have inst: "p < length split" "t = snd (split ! p)"
    "vs_member ir cx vals ?x \<longleftrightarrow> x |\<in>| vs_values vals"
    "\<forall>y |\<in>| vs_values vals. \<exists>j<length split. y |\<in>| vs_values (fst (split ! j)) \<and> like arr split j p"
    if "(vals, p, t) \<in> set inst" for vals p t
    using assms(7) that x(1) by (cases vals; auto simp: merge_inv_def inst_ok_def)+
  show ?thesis
  proof
    assume "\<exists>(vals, p, t)\<in>set inst. vs_member ir cx vals ?x \<and> cell_allows ir inputs cx (ctx_cell arr idx t) v"
    then obtain vals p t where i: "(vals, p, t) \<in> set inst" "vs_member ir cx vals ?x"
      "cell_allows ir inputs cx (ctx_cell arr idx t) v" by blast
    then obtain j where "j < length split" "x |\<in>| vs_values (fst (split ! j))" "like arr split j p"
      using inst(3,4) [OF i(1)] by blast
    then have "like arr split ?k p" using only enum by blast
    then show "cell_allows ir inputs cx (ctx_cell arr idx tv) v"
      using like_allows [OF assms(2,6,4) k(1) inst(1) [OF i(1)]] i(3) inst(2) [OF i(1)] k(2) by auto
  next
    assume allowed: "cell_allows ir inputs cx (ctx_cell arr idx tv) v"
    have sub: "tv_ok values (snd (split ! ?k))" using assms(6) k(1) by (simp add: split_of_def)
    have box: "in_box (v_bounds (tv_view (snd (split ! ?k)))) (ctx_index idx (snd (split ! ?k)))"
      using ctx_index_in_box [OF assms(4) sub] .
    have "\<not> cell_is_empty (ctx_cell arr idx (snd (split ! ?k)))"
      using allowed k(2) view_index_ok [OF assms(2) sub box] cell_is_empty_allows by (auto simp: ctx_cell_def)
    then have "tv_is_empty arr (snd (split ! ?k)) \<noteq> Some True"
      using tv_is_empty_spec [OF assms(2) sub] box by (auto simp: ctx_cell_def)
    then have "covered arr split inst ?k" using assms(7) k(1) by (auto simp: merge_inv_def)
    then obtain vals p t where i: "(vals, p, t) \<in> set inst" "vs_values (fst (split ! ?k)) |\<subseteq>| vs_values vals"
      "like arr split ?k p" by (auto simp: covered_def)
    have "x |\<in>| vs_values vals" using i(2) x(2) fst_split(1) [OF k(1)] by auto
    then show "\<exists>(vals, p, t)\<in>set inst. vs_member ir cx vals ?x \<and> cell_allows ir inputs cx (ctx_cell arr idx t) v"
      using like_allows [OF assms(2,6,4) k(1) inst(1) [OF i(1)] i(3)] i(1) inst(2,3) [OF i(1)] allowed k(2) by fastforce
  qed
qed

lemma leaf_compiles:
  assumes "table_ok values arr" "tv_ok values tv" "ctx_at values cx idx" "tv_num_inputs tv = 0" "\<And>c. set (drain c) = set c"
  shows "\<exists>f arr'. truth_table_to_filter (Suc n) drain values tv arr = Some (f, arr')
    \<and> compiles ir inputs cx values idx arr tv f arr'"
proof -
  have nil: "v_bounds (tv_view tv) = []" "ctx_index idx tv = []"
    using assms(2,4) by (auto simp: tv_num_inputs_def tv_ok_def ctx_index_def)
  have box: "in_box (v_bounds (tv_view tv)) []" using nil by simp
  obtain c where c: "view_index arr (tv_view tv) [] = Some c" "cell_wf c"
    using view_index_ok [OF assms(1,2) box] by blast
  then obtain q where q: "view_flat_index arr (tv_view tv) [] = Some q" "q < length (nd_data arr)"
    by (auto simp: view_index_def bind_eq_Some_conv split: if_splits)
  let ?arr = "arr\<lparr>nd_data := (nd_data arr)[q := []]\<rparr>"
  let ?rules = "fst (cell_extract_rules drain c)"
  have first: "fst (nd_range_next (nd_range_new [])) = Some []"
    by (simp add: nd_range_new_def nd_range_next_def)
  have "truth_table_to_filter (Suc n) drain values tv arr = Some (Rules ?rules, ?arr)"
    using assms(4) c(1) q first nil(1) by (simp add: view_index_mut_def cell_extract_rules_def)
  moreover have "table_ok values ?arr"
    using assms(1) by (auto simp: table_ok_def nd_wf_def cell_wf_def dest!: set_update_subset_insert [THEN subsetD])
  moreover have "same_outside (tv_positions arr tv) arr ?arr"
    using q(1) box by (auto simp: same_outside_def tv_positions_def nth_list_update_neq)
  ultimately show ?thesis
    using extract_allows [of drain c, OF assms(5)] c(1) nil(2) by (auto simp: compiles_def ctx_cell_def)
qed

lemma switch_compiles:
  assumes "values_ok values" "table_ok values arr" "tv_ok values tv" "ctx_at values cx idx"
    "good_split values arr tv (TS_Switch input cases)"
    "\<And>tv' arr. Suc (tv_num_inputs tv') = tv_num_inputs tv \<Longrightarrow> table_ok values arr \<Longrightarrow> tv_ok values tv' \<Longrightarrow>
      \<exists>f arr'. truth_table_to_filter n drain values tv' arr = Some (f, arr') \<and> compiles ir inputs cx values idx arr tv' f arr'"
  shows "\<exists>fs arr'. map_state (compile_case n drain values) cases arr = Some (fs, arr')
    \<and> compiles ir inputs cx values idx arr tv (Switch input fs) arr'"
proof -
  obtain pos split inst fw where *: "pos < tv_num_inputs tv" "tv_instantiate values tv pos = Some split"
    "merge_inv arr split (length split) inst fw" "input = fst (values ! (tv_dim_map tv ! pos))"
    "cases = map (\<lambda>(vals, p, t). (vals, t)) inst"
    using assms(5) by (auto simp: good_split_def)
  have split: "split_of values arr tv pos split" using tv_instantiate_spec [OF assms(2,3) *(1)] *(2) by auto
  have inst: "p < length split" "t = snd (split ! p)" if "(vals, p, t) \<in> set inst" for vals p t
    using *(3) that by (auto simp: merge_inv_def inst_ok_def)
  have sub: "tv_ok values t" "Suc (tv_num_inputs t) = tv_num_inputs tv" "tv_positions arr t \<subseteq> tv_positions arr tv"
    if t: "(vals, t) \<in> set cases" for vals t
  proof -
    obtain p where p: "p < length split" "t = snd (split ! p)" using t *(5) inst by force
    then have "tv_ok values t" "tv_dim_map t = vec_remove pos (tv_dim_map tv)" using split by (auto simp: split_of_def)
    then show "tv_ok values t" "Suc (tv_num_inputs t) = tv_num_inputs tv" "tv_positions arr t \<subseteq> tv_positions arr tv"
      using *(1) split_positions [OF split p(1)] p(2) by (auto simp: tv_num_inputs_def vec_remove_def)
  qed
  have "sorted_wrt (\<lambda>a b. fst (snd a) < fst (snd b)) inst" using *(3) by (simp add: merge_inv_def sorted_wrt_map)
  then have "sorted_wrt (\<lambda>a b. tv_positions arr (snd (snd a)) \<inter> tv_positions arr (snd (snd b)) = {}) inst"
  proof (rule sorted_wrt_mono_rel [rotated])
    fix a b assume "a \<in> set inst" "b \<in> set inst" "fst (snd a) < fst (snd b)"
    then show "tv_positions arr (snd (snd a)) \<inter> tv_positions arr (snd (snd b)) = {}"
      using inst [of "fst a" "fst (snd a)" "snd (snd a)"] inst [of "fst b" "fst (snd b)" "snd (snd b)"]
        split_disjoint [OF assms(2,3) *(1) split, of "fst (snd a)" "fst (snd b)"] by simp
  qed
  then have disj: "sorted_wrt (\<lambda>a b. tv_positions arr (snd a) \<inter> tv_positions arr (snd b) = {}) cases"
    using *(5) by (simp add: sorted_wrt_map case_prod_unfold)
  obtain fs arr' where fs: "map_state (compile_case n drain values) cases arr = Some (fs, arr')" "table_ok values arr'"
    "same_outside (\<Union>(vals, t)\<in>set cases. tv_positions arr t) arr arr'"
    "list_all2 (\<lambda>(vals, t) (vals', f). vals' = vals \<and>
         (\<forall>v. filter_allows ir inputs cx f v \<longleftrightarrow> cell_allows ir inputs cx (ctx_cell arr idx t) v)) cases fs"
    using map_state_cases [of cases "values" n drain ir inputs cx idx arr] assms(2,4,6) sub disj by blast
  have "filter_allows ir inputs cx (Switch input fs) v \<longleftrightarrow> (\<exists>(vals, t)\<in>set cases.
      vs_member ir cx vals (ctx_input cx input) \<and> cell_allows ir inputs cx (ctx_cell arr idx t) v)" for v
    using fs(4) by (induction cases fs rule: list_all2_induct) auto
  moreover have "(\<exists>(vals, t)\<in>set cases. vs_member ir cx vals (ctx_input cx input) \<and> cell_allows ir inputs cx (ctx_cell arr idx t) v)
      \<longleftrightarrow> cell_allows ir inputs cx (ctx_cell arr idx tv) v" for v
    using switch_cell [OF assms(1-4) *(1) split *(3), of ir inputs v] *(4,5) by (simp add: case_prod_unfold)
  moreover have "same_outside (tv_positions arr tv) arr arr'"
    using fs(3) sub(3) unfolding same_outside_def by blast
  ultimately show ?thesis using fs(1,2) by (auto simp: compiles_def simp del: filter_allows.simps)
qed

lemma compiles_sub:
  assumes "compiles ir inputs cx values idx arr sub f arr'" "tv_positions arr sub \<subseteq> tv_positions arr tv"
    "\<And>v. cell_allows ir inputs cx (ctx_cell arr idx sub) v \<longleftrightarrow> cell_allows ir inputs cx (ctx_cell arr idx tv) v"
  shows "compiles ir inputs cx values idx arr tv f arr'"
  using assms unfolding compiles_def same_outside_def by blast

lemma to_filter_compiles:
  assumes "values_ok values" "ctx_at values cx idx" "\<And>c. set (drain c) = set c"
    "table_ok values arr" "tv_ok values tv" "tv_num_inputs tv < n"
  shows "\<exists>f arr'. truth_table_to_filter n drain values tv arr = Some (f, arr')
    \<and> compiles ir inputs cx values idx arr tv f arr'"
  using assms(4-6)
proof (induction n arbitrary: tv arr)
  case (Suc n)
  show ?case
  proof (cases "tv_num_inputs tv = 0")
    case True
    then show ?thesis using leaf_compiles [OF Suc.prems(1,2) assms(2) _ assms(3)] by blast
  next
    case False
    then obtain s where s: "table_min_split values arr tv = Some (Some s)" "good_split values arr tv s"
      using min_split_loop_good [OF assms(1) Suc.prems(1,2), of 0 None] by (auto simp: table_min_split_def)
    have IH: "\<exists>f arr'. truth_table_to_filter n drain values tv' arr = Some (f, arr') \<and> compiles ir inputs cx values idx arr tv' f arr'"
      if "Suc (tv_num_inputs tv') = tv_num_inputs tv" "table_ok values arr" "tv_ok values tv'" for tv' arr
      using Suc.IH [OF that(2,3)] that(1) Suc.prems(3) by simp
    show ?thesis
    proof (cases s)
      case (TS_Forward sub)
      have sub: "tv_ok values sub" "Suc (tv_num_inputs sub) = tv_num_inputs tv"
        "tv_positions arr sub \<subseteq> tv_positions arr tv"
        "\<And>v. cell_allows ir inputs cx (ctx_cell arr idx sub) v \<longleftrightarrow> cell_allows ir inputs cx (ctx_cell arr idx tv) v"
        using forward_cell [OF Suc.prems(1,2) assms(2)] s(2) TS_Forward by blast+
      have "truth_table_to_filter (Suc n) drain values tv arr = truth_table_to_filter n drain values sub arr"
        using False s(1) TS_Forward by simp
      then show ?thesis
        using IH [OF sub(2) Suc.prems(1) sub(1)] compiles_sub [OF _ sub(3,4)] by (simp del: truth_table_to_filter.simps) blast
    next
      case (TS_Switch input cases)
      have "truth_table_to_filter (Suc n) drain values tv arr = do {
          (fs, arr') \<leftarrow> map_state (compile_case n drain values) cases arr; Some (Switch input fs, arr') }"
        using False s(1) TS_Switch by (simp add: compile_case_def)
      then show ?thesis
        using switch_compiles [OF assms(1) Suc.prems(1,2) assms(2) _ IH] s(2) TS_Switch by fastforce
    qed
  qed
qed simp

section \<open>Building the table\<close>

text \<open>The inputs name choices of the description, and the enums of these exist.\<close>

definition inputs_known :: "ir_desc \<Rightarrow> choice_instance list \<Rightarrow> bool" where
  "inputs_known ir inputs \<longleftrightarrow> (\<forall>ci\<in>set inputs. case get_choice ir (ci_choice ci) of None \<Rightarrow> False
     | Some c \<Rightarrow> (case cd_as_enum (c_choice_def c) of None \<Rightarrow> True | Some n \<Rightarrow> get_enum ir n \<noteq> None))"

definition entry_ok :: "ir_desc \<Rightarrow> choice_instance list \<Rightarrow> nat \<times> value_set list \<Rightarrow> bool" where
  "entry_ok ir inputs p \<longleftrightarrow> (\<exists>e. input_enum ir inputs (fst p) = Some e \<and> get_enum ir (e_name e) = Some e
     \<and> fst p < length inputs \<and> snd p = map (\<lambda>v. VS_Enum (e_name e) {|v|} {||}) (enum_keys e))"

lemma input_values_spec:
  assumes "ir_wf ir" "inputs_known ir inputs" "i < length inputs"
  shows "\<exists>r. input_values ir (i, inputs ! i) = Some r \<and> (\<forall>p. r = Some p \<longrightarrow> fst p = i \<and> entry_ok ir inputs p)"
proof -
  obtain c where c: "get_choice ir (ci_choice (inputs ! i)) = Some c"
    "\<forall>n. c_choice_def c = CD_Enum n \<longrightarrow> get_enum ir n \<noteq> None"
    using assms(2,3) nth_mem [OF assms(3)] unfolding inputs_known_def by (force split: option.splits)
  have "entry_ok ir inputs (i, map (\<lambda>v. VS_Enum n {|v|} {||}) (enum_keys e))"
    if "c_choice_def c = CD_Enum n" "get_enum ir n = Some e" for n e
    using that c assms(3) ir_wfD [OF assms(1) that(2)] by (auto simp: entry_ok_def input_enum_def)
  then show ?thesis using c by (cases "c_choice_def c") (auto simp: input_values_def vs_enum_values_def)
qed

lemma table_values_spec:
  assumes "ir_wf ir" "inputs_known ir inputs"
  shows "\<exists>values. table_values ir inputs = Some values \<and> distinct (map fst values)
    \<and> (\<forall>p\<in>set values. entry_ok ir inputs p)"
proof -
  let ?f = "\<lambda>i. the (input_values ir (i, inputs ! i))"
  have in_values: "input_values ir (i, inputs ! i) = Some (?f i)" "?f i = Some p \<Longrightarrow> fst p = i \<and> entry_ok ir inputs p"
    if "i < length inputs" for i p
    using input_values_spec [OF assms that] by (cases p; auto)+
  have zip: "zip [0..<length inputs] inputs = map (\<lambda>i. (i, inputs ! i)) [0..<length inputs]"
    by (rule nth_equalityI) auto
  have "those (map (input_values ir) (zip [0..<length inputs] inputs)) = Some (map ?f [0..<length inputs])"
    unfolding zip map_map
    by (subst those_map_Some) (use in_values(1) in \<open>auto simp: comp_def\<close>)
  then have vs: "table_values ir inputs = Some (List.map_filter ?f [0..<length inputs])"
    by (simp add: table_values_def map_filter_def comp_def filter_map)
  have entries: "distinct (map fst (List.map_filter ?f is)) \<and> (\<forall>p\<in>set (List.map_filter ?f is). fst p \<in> set is \<and> entry_ok ir inputs p)"
    if "distinct is" "set is \<subseteq> {0..<length inputs}" for "is"
    using that
  proof (induction "is")
    case (Cons i "is")
    then have i: "i < length inputs" by simp
    show ?case
    proof (cases "?f i")
      case (Some p)
      then show ?thesis using Cons in_values(2) [OF i Some] by (auto simp: map_filter_simps)
    qed (use Cons in \<open>auto simp: map_filter_simps\<close>)
  qed (simp add: map_filter_simps)
  show ?thesis using vs entries [of "[0..<length inputs]"] by auto
qed

lemma entries_values_ok:
  assumes "ir_wf ir" "\<forall>p\<in>set values. entry_ok ir inputs p"
  shows "values_ok values"
  unfolding values_ok_def
proof
  fix p assume "p \<in> set values"
  then obtain e where "get_enum ir (e_name e) = Some e" "snd p = map (\<lambda>v. VS_Enum (e_name e) {|v|} {||}) (enum_keys e)"
    using assms(2) by (auto simp: entry_ok_def)
  then show "\<exists>n keys. distinct keys \<and> snd p = map (\<lambda>v. VS_Enum n {|v|} {||}) keys"
    using ir_wfD [OF assms(1)] by blast
qed

lemma typed_ctx_at:
  assumes "\<forall>p\<in>set values. entry_ok ir inputs p" "ctx_typed ir inputs cx"
  shows "\<exists>idx. ctx_at values cx idx"
  using assms(1)
proof (induction "values")
  case (Cons p ps)
  obtain e where e: "input_enum ir inputs (fst p) = Some e" "fst p < length inputs"
    "snd p = map (\<lambda>v. VS_Enum (e_name e) {|v|} {||}) (enum_keys e)"
    using Cons.prems by (auto simp: entry_ok_def)
  obtain x where x: "x \<in> set (enum_keys e)" "ctx_input cx (fst p) = EVal x"
    using assms(2) e(1,2) by (fastforce simp: ctx_typed_def)
  then obtain k where "k < length (enum_keys e)" "enum_keys e ! k = x" by (auto simp: in_set_conv_nth)
  moreover obtain idx where "ctx_at ps cx idx" using Cons by auto
  ultimately have "ctx_at (p # ps) cx (k # idx)" using e(3) x(2) by (simp add: ctx_at_def)
  then show ?case by blast
qed (simp add: ctx_at_def exI [of _ "[]"])

lemma ctx_at_mapping_ok:
  assumes "\<forall>p\<in>set values. entry_ok ir inputs p" "ctx_at values cx idx"
  shows "mapping_ok ir inputs cx (index_mapping values idx)"
  unfolding mapping_ok_def
proof safe
  fix i s assume "index_mapping values idx i = Some s"
  then obtain j sets where j: "j < length values" "j < length idx" "values ! j = (i, sets)" "s = sets ! (idx ! j)"
    by (auto simp: index_mapping_def in_set_zip dest!: map_of_SomeD)
  obtain e where e: "input_enum ir inputs i = Some e" "get_enum ir (e_name e) = Some e"
    "sets = map (\<lambda>v. VS_Enum (e_name e) {|v|} {||}) (enum_keys e)"
    using assms(1) nth_mem [OF j(1)] j(3) by (auto simp: entry_ok_def)
  have "idx ! j < length sets" "\<exists>x n. ctx_input cx i = EVal x \<and> sets ! (idx ! j) = VS_Enum n {|x|} {||}"
    using ctx_atD [OF assms(2) j(1)] j(3) by auto
  then show "\<exists>e x. input_enum ir inputs i = Some e \<and> get_enum ir (e_name e) = Some e
      \<and> ctx_input cx i = EVal x \<and> s = VS_Enum (e_name e) {|x|} {||}"
    using e j(4) by auto
qed

text \<open>Every index of the table is the index of some context.\<close>

lemma index_has_ctx:
  assumes "values_ok values" "distinct (map fst values)" "in_box (dims_of values) idx"
  shows "\<exists>f. ctx_at values (cx\<lparr>ctx_input := f\<rparr>) idx"
proof -
  let ?f = "\<lambda>i. EVal (fthe_elem (vs_values (the (index_mapping values idx i))))"
  have len: "length idx = length values" "\<forall>j<length values. idx ! j < length (snd (values ! j))"
    using assms(3) by (auto simp: in_box_nth dims_of_def)
  have at: "index_mapping values idx (fst (values ! j)) = Some (snd (values ! j) ! (idx ! j))" if "j < length values" for j
  proof -
    have "map fst (map (\<lambda>(i, (input, sets)). (input, sets ! i)) (zip idx values)) = map fst values"
      using len(1) by (auto simp: list_eq_iff_nth_eq case_prod_unfold)
    then have "distinct (map fst (map (\<lambda>(i, (input, sets)). (input, sets ! i)) (zip idx values)))"
      using assms(2) by simp
    moreover have "(fst (values ! j), snd (values ! j) ! (idx ! j))
        \<in> set (map (\<lambda>(i, (input, sets)). (input, sets ! i)) (zip idx values))"
      using nth_mem [of j "map (\<lambda>(i, (input, sets)). (input, sets ! i)) (zip idx values)"] that len(1)
      by (simp add: case_prod_unfold)
    ultimately show ?thesis unfolding index_mapping_def by (rule map_of_is_SomeI)
  qed
  have "\<exists>x n. ?f (fst (values ! j)) = EVal x \<and> snd (values ! j) ! (idx ! j) = VS_Enum n {|x|} {||}" if j: "j < length values" for j
  proof -
    obtain n keys where "snd (values ! j) = map (\<lambda>v. VS_Enum n {|v|} {||}) keys"
      using assms(1) nth_mem [OF j] unfolding values_ok_def by blast
    then show ?thesis using at [OF j] len(2) j by auto
  qed
  then have "ctx_at values (cx\<lparr>ctx_input := ?f\<rparr>) idx"
    using len by (simp add: ctx_at_def list_all2_conv_all_nth)
  then show ?thesis by blast
qed

lemma rule_ok_input [simp]: "rule_ok ir inputs (cx\<lparr>ctx_input := f\<rparr>) b r = rule_ok ir inputs cx b r"
  by (auto simp: rule_ok_def code_stable_def split: condition.splits)

definition cell_at :: "choice_instance list \<Rightarrow> rule list \<Rightarrow> ir_desc \<Rightarrow> input_table \<Rightarrow> nat list \<Rightarrow> cell option" where
  "cell_at inputs rules ir values index = do {
     rs \<leftarrow> rules_instantiate ir inputs (index_mapping values index) rules; cell_build rs inputs ir }"

lemma cell_at_ctx:
  assumes "ir_wf ir" "\<forall>p\<in>set values. entry_ok ir inputs p" "\<forall>r\<in>set rules. rule_ok ir inputs cx b r"
    "ctx_at values cx idx"
  shows "\<exists>c. cell_at inputs rules ir values idx = Some c \<and> cell_wf c
    \<and> (\<forall>v. cell_allows ir inputs cx c v \<longleftrightarrow> rules_allow ir inputs cx rules v)"
proof -
  obtain rs where rs: "rules_instantiate ir inputs (index_mapping values idx) rules = Some rs"
    "\<forall>r\<in>set rs. rule_ok ir inputs cx b r" "\<forall>v. rules_allow ir inputs cx rs v \<longleftrightarrow> rules_allow ir inputs cx rules v"
    using rules_instantiate_sound [OF assms(1) ctx_at_mapping_ok [OF assms(2,4)] assms(3)] by blast
  show ?thesis using cell_build_sound [OF rs(2)] rs(1,3) by (auto simp: cell_at_def)
qed

lemma nth_all_indexes:
  assumes "in_box ds is"
  shows "flat ds is < length (all_indexes ds)" "all_indexes ds ! flat ds is = is"
proof -
  have len: "length (all_indexes ds) = prod_list ds"
    using arg_cong [OF map_flat_all_indexes [of ds], of length] by simp
  then show less: "flat ds is < length (all_indexes ds)" using flat_less [OF assms] by simp
  have "flat ds (all_indexes ds ! flat ds is) = flat ds is"
    using arg_cong [OF map_flat_all_indexes [of ds], of "\<lambda>l. l ! flat ds is"] less len by simp
  moreover have "in_box ds (all_indexes ds ! flat ds is)"
    using nth_mem [OF less] by (simp add: set_all_indexes)
  ultimately show "all_indexes ds ! flat ds is = is" using flat_inj assms by blast
qed

lemma root_view_index:
  assumes "nd_wf arr" "in_box (nd_dims arr) is"
  shows "view_index arr (nd_view_mut arr) is = Some (nd_data arr ! flat (nd_dims arr) is)"
proof -
  have "fill (map (\<lambda>_. None) ds) is = is" if "length is = length ds" for ds :: "nat list" and "is"
    using that by (induction ds arbitrary: "is") (auto simp: length_Suc_conv)
  then show ?thesis
    using view_index_fill(2) [OF view_mut_ok, of arr "is"] assms in_box_length [OF assms(2)]
    by (simp add: nd_wf_def nd_view_mut_def)
qed

lemma tt_build_spec:
  assumes "ir_wf ir" "inputs_known ir inputs" "\<forall>r\<in>set rules. rule_ok ir inputs cx b r" "ctx_typed ir inputs cx"
  shows "\<exists>t idx. tt_build inputs rules ir = Some t \<and> values_ok (tt_values t) \<and> ctx_at (tt_values t) cx idx
    \<and> table_ok (tt_values t) (tt_rules t) \<and> tv_ok (tt_values t) (tt_view t)
    \<and> (\<forall>v. cell_allows ir inputs cx (ctx_cell (tt_rules t) idx (tt_view t)) v \<longleftrightarrow> rules_allow ir inputs cx rules v)"
proof -
  obtain vals where vals: "table_values ir inputs = Some vals" "distinct (map fst vals)" "\<forall>p\<in>set vals. entry_ok ir inputs p"
    using table_values_spec [OF assms(1,2)] by blast
  have ok: "values_ok vals" using entries_values_ok [OF assms(1) vals(3)] .
  obtain idx where idx: "ctx_at vals cx idx" using typed_ctx_at [OF vals(3) assms(4)] by blast
  let ?ds = "dims_of vals" and ?cell = "cell_at inputs rules ir vals"
  have cells: "?cell is \<noteq> None \<and> cell_wf (the (?cell is))" if box: "in_box ?ds is" for "is"
  proof -
    obtain f where "ctx_at vals (cx\<lparr>ctx_input := f\<rparr>) is" using index_has_ctx [OF ok vals(2) box] by blast
    then show ?thesis using cell_at_ctx [OF assms(1) vals(3), of rules "cx\<lparr>ctx_input := f\<rparr>" b "is"] assms(3) by auto
  qed
  let ?data = "map (the \<circ> ?cell) (all_indexes ?ds)"
  have len: "length (all_indexes ?ds) = prod_list ?ds"
    using arg_cong [OF map_flat_all_indexes [of ?ds], of length] by simp
  let ?arr = "\<lparr>nd_dims = ?ds, nd_data = ?data\<rparr>" and ?t = "\<lparr>tt_values = vals, tt_rules = \<lparr>nd_dims = ?ds, nd_data = ?data\<rparr>\<rparr>"
  have "those (map ?cell (all_indexes ?ds)) = Some ?data"
    using cells by (intro those_map_Some) (auto simp: set_all_indexes)
  then have build: "tt_build inputs rules ir = Some ?t"
    using len vals(1) range_collect [of ?ds]
    by (simp add: tt_build_def nd_new_def dims_of_def cell_at_def [abs_def] Let_def)
  have table: "table_ok vals ?arr" using cells len by (auto simp: table_ok_def nd_wf_def set_all_indexes)
  have view: "tv_ok vals (tt_view ?t)"
    using view_of.root [of ?ds] by (auto simp: tv_ok_def tt_view_def nd_view_mut_def dims_of_def intro: nth_equalityI)
  have root: "ctx_index idx (tt_view ?t) = idx"
    using idx by (auto simp: ctx_index_def tt_view_def ctx_at_def map_nth list_all2_lengthD [symmetric])
  then have box: "in_box ?ds idx" using ctx_index_in_box [OF idx view] by (simp add: tt_view_def nd_view_mut_def)
  have "ctx_cell ?arr idx (tt_view ?t) = the (?cell idx)"
    using root_view_index [of ?arr idx] table box nth_all_indexes [OF box] root
    by (simp add: ctx_cell_def tt_view_def table_ok_def)
  then have "\<forall>v. cell_allows ir inputs cx (ctx_cell ?arr idx (tt_view ?t)) v \<longleftrightarrow> rules_allow ir inputs cx rules v"
    using cell_at_ctx [OF assms(1) vals(3) assms(3) idx] by (metis option.sel)
  then show ?thesis using build ok idx table view by (intro exI [of _ ?t] exI [of _ idx]) simp
qed

section \<open>An example\<close>

text \<open>Two inputs of a boolean enum and the rules \<open>a = t \<or> b = t\<close> and \<open>a = b\<close> implies the value of \<open>b\<close>.\<close>

definition bool_enum :: enum_def where
  "bool_enum = \<lparr>e_name = ''Bool'', e_doc = None, e_values = [(''f'', None), (''t'', None)], e_aliases = [], e_inverse = None\<rparr>"

definition bool_choice :: choice where
  "bool_choice = \<lparr>c_name = ''c'', c_doc = None, c_arguments = Plain [], c_choice_def = CD_Enum ''Bool'', c_on_change = [],
     c_filter_actions = [], c_filters = [], c_no_propagate = VS_Enum ''Bool'' {||} {||}\<rparr>"

definition bool_ir :: ir_desc where
  "bool_ir = \<lparr>ir_choices = [(''c'', bool_choice)], ir_enums = [(''Bool'', bool_enum)], ir_set_defs = [], ir_triggers = []\<rparr>"

definition bool_inputs :: "choice_instance list" where
  "bool_inputs = [\<lparr>ci_choice = ''c'', ci_vars = []\<rparr>, \<lparr>ci_choice = ''c'', ci_vars = []\<rparr>]"

definition bool_rules :: "rule list" where
  "bool_rules =
     [\<lparr>conditions = [C_Enum 0 {|''f''|} False False, C_Enum 1 {|''f''|} False False],
       alternatives = VS_Enum ''Bool'' {||} {||}, r_set_constraints = []\<rparr>,
      \<lparr>conditions = [C_CmpInput 0 1 Eq False],
       alternatives = VS_Enum ''Bool'' {||} {|(1, False, False)|}, r_set_constraints = []\<rparr>]"

definition bool_ctx :: ctx where
  "bool_ctx = \<lparr>ctx_input = (\<lambda>i. EVal ''t''), ctx_code = (\<lambda>_. False), ctx_num = (\<lambda>_. 0),
     ctx_sets = (\<lambda>_. Set (SetDef ''S'' None None RevNone [] 0 0 []) None None)\<rparr>"

section \<open>Properties\<close>

text \<open>C1: On well-formed rules \<^verbatim>\<open>opt_rules\<close> returns a filter, whatever order the hash maps are drained in, and in every
  context that gives each enum input one of its values the filter allows exactly the values
  that all the rules allow.\<close>
theorem opt_rules_correct:
  assumes "ir_wf ir" "inputs_known ir inputs" "ctx_typed ir inputs cx"
    "\<forall>r\<in>set rules. rule_ok ir inputs cx b r" "\<And>c. set (drain c) = set c"
  shows "\<exists>f. opt_rules drain inputs rules ir = Some f
    \<and> (\<forall>v. filter_allows ir inputs cx f v \<longleftrightarrow> rules_allow ir inputs cx rules v)"
proof (cases "length rules = 1")
  case False
  obtain t idx where t: "tt_build inputs rules ir = Some t" "values_ok (tt_values t)" "ctx_at (tt_values t) cx idx"
    "table_ok (tt_values t) (tt_rules t)" "tv_ok (tt_values t) (tt_view t)"
    "\<forall>v. cell_allows ir inputs cx (ctx_cell (tt_rules t) idx (tt_view t)) v \<longleftrightarrow> rules_allow ir inputs cx rules v"
    using tt_build_spec [OF assms(1,2,4,3)] by blast
  have "tv_num_inputs (tt_view t) < Suc (length (tt_values t))" by (simp add: tv_num_inputs_def tt_view_def)
  then obtain f arr' where "truth_table_to_filter (Suc (length (tt_values t))) drain (tt_values t) (tt_view t) (tt_rules t)
      = Some (f, arr')" "compiles ir inputs cx (tt_values t) idx (tt_rules t) (tt_view t) f arr'"
    using to_filter_compiles [OF t(2,3) assms(5) t(4,5)] by blast
  then show ?thesis using False t(1,6) by (simp add: opt_rules_def compiles_def del: truth_table_to_filter.simps)
qed (simp add: opt_rules_def)

theorem opt_rules_correct_witness:
  "\<exists>f. opt_rules rev bool_inputs bool_rules bool_ir = Some f
    \<and> filter_allows bool_ir bool_inputs bool_ctx f (EVal ''t'') \<and> \<not> filter_allows bool_ir bool_inputs bool_ctx f (EVal ''f'')"
proof -
  have "ir_wf bool_ir" by (simp add: ir_wf_def bool_ir_def bool_enum_def enum_wf_def enum_keys_def)
  moreover have "inputs_known bool_ir bool_inputs"
    by (simp add: inputs_known_def bool_inputs_def bool_ir_def get_choice_def get_enum_def bool_choice_def)
  moreover have enum: "input_enum bool_ir bool_inputs i = Some bool_enum" if "i < 2" for i
    using that by (auto simp: less_2_cases_iff input_enum_def bool_inputs_def bool_ir_def get_choice_def get_enum_def bool_choice_def)
  then have "ctx_typed bool_ir bool_inputs bool_ctx"
    by (simp add: ctx_typed_def bool_inputs_def bool_ctx_def bool_enum_def enum_keys_def)
  moreover have "\<forall>r\<in>set bool_rules. rule_ok bool_ir bool_inputs bool_ctx True r"
    using enum [of 0] enum [of 1]
    by (auto simp: bool_rules_def rule_ok_def rule_wf_def code_stable_def get_enum_def bool_ir_def)
  ultimately obtain f where "opt_rules rev bool_inputs bool_rules bool_ir = Some f"
    "\<And>v. filter_allows bool_ir bool_inputs bool_ctx f v \<longleftrightarrow> rules_allow bool_ir bool_inputs bool_ctx bool_rules v"
    using opt_rules_correct [of bool_ir bool_inputs bool_ctx bool_rules True rev] by auto
  then show ?thesis using enum [of 0] enum [of 1]
    by (auto simp: bool_rules_def rules_allow_def rule_allows_def sc_holds_def bool_ctx_def input_member_def inverse_if_def
        get_enum_def bool_ir_def)
qed

end
