(* ===== verification/Util_Iterators.thy ===== *)
theory Util_Iterators
  imports Telamon_Prelude "HOL-Library.List_Lexorder" "HOL-Library.Multiset"
begin

text \<open>
  \<^verbatim>\<open>telamon-utils/src/iterator.rs\<close>: \<^verbatim>\<open>zip_copy\<close>, \<^verbatim>\<open>at_most_one\<close>, \<^verbatim>\<open>to_map\<close> and the iterator over the partial permutations of
  a collection, with the copies it makes through raw pointers. The iterator is shown to yield every
  partial permutation once, in lexicographic order.
\<close>

section \<open>Small combinators\<close>

record ('a, 'b) zip_copy =
  zc_it :: "'a list"
  zc_object :: "'b option"

definition zip_copy_new :: "'a list \<Rightarrow> 'b \<Rightarrow> ('a, 'b) zip_copy" where
  "zip_copy_new it object = \<lparr>zc_it = it, zc_object = (if it = [] then None else Some object)\<rparr>"

text \<open>\<open>None\<close> is the panic of \<^verbatim>\<open>unwrap\<close>; the object is moved out with the last element.\<close>

definition zip_copy_next :: "('a, 'b) zip_copy \<Rightarrow> (('a \<times> 'b) option \<times> ('a, 'b) zip_copy) option" where
  "zip_copy_next z =
     (case zc_it z of
        [] \<Rightarrow> Some (None, z)
      | lhs # rest \<Rightarrow>
          (case zc_object z of
             None \<Rightarrow> None
           | Some object \<Rightarrow> Some (Some (lhs, object),
               \<lparr>zc_it = rest, zc_object = (if rest = [] then None else Some object)\<rparr>)))"

definition at_most_one :: "'a list \<Rightarrow> 'a option option" where
  "at_most_one it = (case it of [] \<Rightarrow> Some None | [x] \<Rightarrow> Some (Some x) | _ \<Rightarrow> None)"

definition to_map :: "('k \<times> 'v) list \<Rightarrow> ('v \<Rightarrow> 'v \<Rightarrow> 'v) \<Rightarrow> 'k \<rightharpoonup> 'v" where
  "to_map it merge =
     fold (\<lambda>(k, v) m. m(k \<mapsto> (case m k of Some old \<Rightarrow> merge old v | None \<Rightarrow> v))) it Map.empty"

section \<open>Partial permutations\<close>

record 'a partial_permutations =
  pp_permutation :: "'a list"
  pp_finished :: bool
  pp_k :: nat

definition pp_new :: "'a::linorder list \<Rightarrow> nat \<Rightarrow> 'a partial_permutations" where
  "pp_new vals k =
     (let vals = sort vals;
          vals = (if k < length vals then take k vals @ rev (drop k vals) else vals)
      in \<lparr>pp_permutation = vals, pp_finished = (k > length vals), pp_k = k\<rparr>)"

text \<open>The \<^verbatim>\<open>while\<close> loop of \<^verbatim>\<open>next\<close>.\<close>

fun pp_pivot :: "'a::linorder list \<Rightarrow> nat \<Rightarrow> nat" where
  "pp_pivot perm 0 = 0"
| "pp_pivot perm (Suc i) = (if perm ! i > perm ! Suc i then pp_pivot perm i else Suc i)"

definition rposition :: "('a \<Rightarrow> bool) \<Rightarrow> 'a list \<Rightarrow> nat option" where
  "rposition P xs =
     (let js = filter (\<lambda>j. P (xs ! j)) [0..<length xs] in if js = [] then None else Some (last js))"

definition vec_swap :: "'a list \<Rightarrow> nat \<Rightarrow> nat \<Rightarrow> 'a list" where
  "vec_swap xs i j = xs[i := xs ! j, j := xs ! i]"

text \<open>The block of raw copies: the end goes to a buffer, the unused values move to the end, and the
  buffer is written back in reverse order.\<close>

definition pp_reorder :: "nat \<Rightarrow> nat \<Rightarrow> 'a list \<Rightarrow> 'a list" where
  "pp_reorder k i perm =
     (let n = length perm;
          buffer = take (k - i) (drop (n - k + i) perm);
          perm = ptr_copy perm i k (n - k)
      in fold (\<lambda>j perm. perm[k - j - 1 := buffer ! j]) [0..<k - i] perm)"

definition pp_next ::
  "'a::linorder partial_permutations \<Rightarrow> ('a list option \<times> 'a partial_permutations) option" where
  "pp_next s =
     (if pp_finished s then Some (None, s)
      else
        let perm = pp_permutation s;
            combination = take (pp_k s) perm;
            i = pp_pivot perm (min (pp_k s) (length perm - 1))
        in if i = 0 then Some (Some combination, s\<lparr>pp_finished := True\<rparr>)
           else (case rposition (\<lambda>x. x > perm ! (i - 1)) perm of
               None \<Rightarrow> None
             | Some swap_id \<Rightarrow> Some (Some combination,
                 s\<lparr>pp_permutation := pp_reorder (pp_k s) i (vec_swap perm (i - 1) swap_id)\<rparr>)))"

text \<open>Collecting an iterator whose \<^verbatim>\<open>next\<close> may panic.\<close>

primrec try_collect :: "('s \<Rightarrow> ('a option \<times> 's) option) \<Rightarrow> nat \<Rightarrow> 's \<Rightarrow> 'a list option" where
  "try_collect nxt 0 s = None"
| "try_collect nxt (Suc n) s =
     (case nxt s of
        None \<Rightarrow> None
      | Some (None, _) \<Rightarrow> Some []
      | Some (Some x, s') \<Rightarrow> map_option ((#) x) (try_collect nxt n s'))"

section \<open>The step of the iterator\<close>

lemma pivot_spec:
  assumes "sorted_wrt (>) (drop j perm)" "j < length perm" "distinct perm"
  shows "pp_pivot perm j \<le> j \<and> sorted_wrt (>) (drop (pp_pivot perm j) perm)
    \<and> (\<forall>i. pp_pivot perm j = Suc i \<longrightarrow> perm ! i < perm ! Suc i)"
  using assms(1,2)
proof (induction j)
  case (Suc j)
  show ?case
  proof (cases "perm ! j > perm ! Suc j")
    case True
    have drop: "drop j perm = perm ! j # drop (Suc j) perm" using Suc.prems(2) by (simp add: Cons_nth_drop_Suc)
    have "drop (Suc j) perm = perm ! Suc j # drop (Suc (Suc j)) perm"
      using Suc.prems(2) by (simp add: Cons_nth_drop_Suc)
    then have "sorted_wrt (>) (drop j perm)"
      using Suc.prems(1) True unfolding drop by (auto intro: less_trans)
    then show ?thesis using Suc.IH Suc.prems(2) True by auto
  next
    case False
    then have "perm ! j < perm ! Suc j"
      using assms(3) Suc.prems(2) nth_eq_iff_index_eq [of perm j "Suc j"] by force
    then show ?thesis using Suc.prems(1) False by simp
  qed
qed simp

lemma rposition_append:
  assumes "P b" "\<forall>x\<in>set zs. \<not> P x"
  shows "rposition P (xs @ b # zs) = Some (length xs)"
proof -
  let ?l = "xs @ b # zs"
  have "[0..<length ?l] = [0..<length xs] @ length xs # [Suc (length xs)..<length ?l]"
    using upt_add_eq_append [of 0 "length xs" "Suc (length zs)"] by (simp add: upt_conv_Cons del: upt_Suc)
  moreover have "filter (\<lambda>j. P (?l ! j)) [Suc (length xs)..<length ?l] = []"
    using assms(2) by (auto simp: filter_empty_conv nth_append nth_Cons split: nat.splits)
  ultimately show ?thesis using assms(1) by (simp add: rposition_def)
qed

lemma vec_swap_parts:
  "vec_swap (u @ a # w1 @ b # w2) (length u) (Suc (length u) + length w1) = u @ b # w1 @ a # w2"
  by (simp add: vec_swap_def nth_append list_update_append)

lemma write_back:
  assumes "m \<le> k" "k \<le> length xs" "length buffer = m"
  shows "fold (\<lambda>j xs. xs[k - j - 1 := buffer ! j]) [0..<m] xs = take (k - m) xs @ rev buffer @ drop k xs"
  using assms
proof (induction m arbitrary: buffer)
  case (Suc m)
  obtain bs b where b: "buffer = bs @ [b]" using Suc.prems(3) by (cases buffer rule: rev_cases) auto
  have len: "length bs = m" using b Suc.prems(3) by simp
  have "fold (\<lambda>j xs. xs[k - j - 1 := buffer ! j]) [0..<m] xs = fold (\<lambda>j xs. xs[k - j - 1 := bs ! j]) [0..<m] xs"
    using len b by (intro fold_cong) (auto simp: nth_append)
  also have "\<dots> = take (k - m) xs @ rev bs @ drop k xs" using Suc.IH [of bs] Suc.prems len by simp
  finally have eq: "fold (\<lambda>j xs. xs[k - j - 1 := buffer ! j]) [0..<Suc m] xs
      = (take (k - m) xs @ rev bs @ drop k xs)[k - Suc m := b]"
    using b len nth_append_length [of bs b] by simp
  have "take (k - m) xs = take (k - Suc m) xs @ [xs ! (k - Suc m)]"
    using Suc.prems take_Suc_conv_app_nth [of "k - Suc m" xs] by (simp add: Suc_diff_Suc)
  then show ?case unfolding eq using b Suc.prems by (simp add: list_update_append)
qed simp

lemma pp_reorder_eq:
  assumes "length u = i" "i \<le> k" "k \<le> length (u @ w)"
  shows "pp_reorder k i (u @ w) =
    u @ rev (drop (length (u @ w) - k) w) @ take (length (u @ w) - k) w"
proof -
  let ?n = "length (u @ w)"
  have buffer: "take (k - i) (drop (?n - k + i) (u @ w)) = drop (?n - k) w"
    using assms by simp
  have copy: "ptr_copy (u @ w) i k (?n - k) = take k (u @ w) @ take (?n - k) w"
    using assms by (simp add: ptr_copy_def)
  have "fold (\<lambda>j perm. perm[k - j - 1 := drop (?n - k) w ! j]) [0..<k - i] (ptr_copy (u @ w) i k (?n - k))
      = take (k - (k - i)) (ptr_copy (u @ w) i k (?n - k)) @ rev (drop (?n - k) w) @ drop k (ptr_copy (u @ w) i k (?n - k))"
    using assms by (intro write_back) (auto simp: ptr_copy_def)
  then show ?thesis using assms unfolding pp_reorder_def Let_def buffer copy by simp
qed

section \<open>Lexicographic order\<close>

lemma lex_split:
  assumes "xs < ys" "length xs = length ys"
  obtains u x y v w where "xs = u @ x # v" "ys = u @ y # w" "x < (y :: 'a::linorder)"
  using assms unfolding list_less_def lexord_def by force

lemma lex_same_prefix: "u @ x # v < u @ y # w" if "x < (y :: 'a::linorder)"
  using that by (simp add: list_less_def lexord_append_leftI)

lemma lex_append_le: "xs \<le> ys \<Longrightarrow> u @ xs \<le> u @ (ys :: 'a::linorder list)"
  by (auto simp: list_le_def list_less_def intro: lexord_append_leftI)

text \<open>The smallest values in order are below every other selection.\<close>

lemma least_selection:
  assumes "sorted_wrt (<) zs" "distinct v" "set v \<subseteq> set zs"
  shows "take (length v) zs \<le> (v :: 'a::linorder list)"
  using assms
proof (induction v arbitrary: zs)
  case (Cons y v)
  then obtain z zs' where zs: "zs = z # zs'" by (cases zs) auto
  show ?case
  proof (cases "y = z")
    case True
    have "set v \<subseteq> set zs'" using Cons.prems(2,3) zs True by auto
    then show ?thesis using Cons.IH [of zs'] Cons.prems(1,2) zs True by simp
  next
    case False
    then have "z < y" using Cons.prems(1,3) zs by auto
    then show ?thesis using zs lex_same_prefix [of z y "[]"] by (simp add: less_imp_le)
  qed
qed simp

definition k_perms :: "nat \<Rightarrow> 'a set \<Rightarrow> 'a list set" where
  "k_perms k S = {q. length q = k \<and> distinct q \<and> set q \<subseteq> S}"

lemma finite_k_perms: "finite S \<Longrightarrow> finite (k_perms k S)"
  by (rule finite_subset [OF _ finite_lists_length_eq [of S k]]) (auto simp: k_perms_def)

lemma take_split:
  assumes "take k p = u @ x # v"
  shows "length u < k" "length u < length p" "u = take (length u) p" "p ! length u = x"
proof -
  have p: "p = u @ x # v @ drop k p" using append_take_drop_id [of k p] assms by simp
  show "length u < k" using arg_cong [OF assms, of length] by simp
  show "length u < length p" "u = take (length u) p" "p ! length u = x"
    by (subst p, simp)+
qed

text \<open>The positions after the pivot are descending, so nothing larger remains to be placed there.\<close>

lemma no_larger_after:
  assumes "distinct (u @ w)" "sorted_wrt (>) w" "q \<in> k_perms k (set (u @ w))" "k \<le> length (u @ w)"
    "take k (u @ w) = u0 @ x # v1" "q = u0 @ y # v2" "x < (y :: 'a::linorder)" "length u \<le> length u0"
  shows False
proof -
  note u0 = take_split [OF assms(5)]
  define d where "d = length u0 - length u"
  have w: "u0 = u @ take d w" "w ! d = x" "d < length w"
    using u0 assms(8) by (auto simp: d_def nth_append)
  have "y \<in> set (u @ w)" "y \<notin> set u0" using assms(3,6) by (auto simp: k_perms_def)
  then have "y \<in> set (drop d w)"
    using w(1) by (metis Un_iff append_take_drop_id set_append)
  moreover have "drop d w = x # drop (Suc d) w" using w(2,3) by (metis Cons_nth_drop_Suc)
  moreover have "sorted_wrt (>) (drop d w)" using assms(2) by (rule sorted_wrt_drop)
  ultimately show False using assms(7) by (auto dest: less_asym)
qed

lemma last_permutation:
  assumes "distinct p" "sorted_wrt (>) p" "q \<in> k_perms k (set p)" "k \<le> length p"
  shows "q \<le> take k (p :: 'a::linorder list)"
proof (rule ccontr)
  assume "\<not> q \<le> take k p"
  then have "take k p < q" by simp
  moreover have "length (take k p) = length q" using assms(3,4) by (simp add: k_perms_def)
  ultimately obtain u0 x y v1 v2 where "take k p = u0 @ x # v1" "q = u0 @ y # v2" "x < y"
    by (rule lex_split)
  then show False using no_larger_after [of "[]" p q k u0 x v1 y v2] assms by simp
qed

text \<open>The successor: the pivot \<open>a\<close> is replaced by the next larger value \<open>b\<close> of the end.\<close>

lemma next_permutation:
  assumes p: "p = u @ a # w1 @ b # w2" and d: "distinct p" and desc: "sorted_wrt (>) (w1 @ b # w2)"
    and a: "a < (b :: 'a::linorder)" "\<forall>x\<in>set w2. x < a" and k: "length u < k" "k \<le> length p"
    and q: "q \<in> k_perms k (set p)" "take k p < q"
  defines "w \<equiv> w1 @ a # w2"
  shows "u @ b # rev (drop (length p - k) w) \<le> q"
proof -
  have len: "length (take k p) = length q" using q(1) k(2) by (simp add: k_perms_def)
  obtain u0 x y v1 v2 where lex: "take k p = u0 @ x # v1" "q = u0 @ y # v2" "x < y"
    by (rule lex_split [OF q(2) len])
  note u0 = take_split [OF lex(1)]
  have y: "y \<in> set p" "y \<notin> set u0" using q(1) lex(2) by (auto simp: k_perms_def)
  consider (before) "length u0 < length u" | (at) "length u0 = length u" | (after) "length u < length u0" by linarith
  then show ?thesis
  proof cases
    case before
    then have "take (length u0) u = u0" "u ! length u0 = x" using u0(3,4) p by (simp_all add: nth_append)
    then have "u = u0 @ x # drop (Suc (length u0)) u" using before id_take_nth_drop by metis
    then have "u @ b # rev (drop (length p - k) w) < q"
      unfolding lex(2) using lex_same_prefix [OF lex(3)] by (metis append_Cons append_assoc)
    then show ?thesis by simp
  next
    case at
    then have ua: "u0 = u" "x = a" using u0(3,4) p by simp_all
    then have "y \<in> set (w1 @ b # w2)" using y p lex(3) by auto
    then have "y \<in> set (w1 @ [b])" using a(2) lex(3) ua(2) by (auto dest: less_asym)
    then have "b \<le> y" using desc by (auto simp: sorted_wrt_append less_imp_le)
    show ?thesis
    proof (cases "y = b")
      case True
      let ?zs = "rev w"
      have "sorted_wrt (<) ?zs"
        using desc a unfolding w_def by (auto simp: sorted_wrt_append sorted_wrt_rev intro: less_trans)
      moreover have "set v2 \<subseteq> set ?zs" "distinct v2"
        using q(1) lex(2) True ua p d unfolding w_def by (auto simp: k_perms_def)
      ultimately have "take (length v2) ?zs \<le> v2" using least_selection by blast
      moreover have "length p - k = length w - length v2"
        using len lex(2) k p ua(1) by (auto simp: w_def)
      then have "rev (drop (length p - k) w) = take (length v2) ?zs" by (simp add: take_rev)
      ultimately show ?thesis using lex(2) True ua(1) lex_append_le [of _ v2 "u @ [b]"] by simp
    next
      case False
      then have "b < y" using \<open>b \<le> y\<close> by simp
      then show ?thesis using lex_same_prefix [OF \<open>b < y\<close>] lex(2) ua(1) less_imp_le by metis
    qed
  next
    case after
    have "p = (u @ [a]) @ (w1 @ b # w2)" using p by simp
    then show ?thesis using no_larger_after [of "u @ [a]" "w1 @ b # w2" q k u0 x v1 y v2] d desc q(1) k(2) lex after by auto
  qed
qed

section \<open>The whole iteration\<close>

definition pp_ok :: "nat \<Rightarrow> 'a::linorder set \<Rightarrow> 'a partial_permutations \<Rightarrow> bool" where
  "pp_ok k S s \<longleftrightarrow> pp_k s = k \<and> \<not> pp_finished s \<and> distinct (pp_permutation s) \<and> set (pp_permutation s) = S
     \<and> k \<le> length (pp_permutation s) \<and> sorted_wrt (>) (drop k (pp_permutation s))"

lemma descending_split:
  assumes "sorted_wrt (>) w" "w \<noteq> []" "hd w > (a :: 'a::linorder)" "a \<notin> set w"
  obtains w1 b w2 where "w = w1 @ b # w2" "a < b" "\<forall>x\<in>set w2. x < a"
proof -
  let ?l = "takeWhile ((<) a) w" and ?r = "dropWhile ((<) a) w"
  have ne: "?l \<noteq> []" using assms(2,3) by (cases w) auto
  then have w: "w = butlast ?l @ last ?l # ?r" by (metis append.assoc append_Cons append_Nil append_butlast_last_id takeWhile_dropWhile_id)
  have "a < last ?l" using last_in_set [OF ne] set_takeWhileD by metis
  moreover have "x < a" if x: "x \<in> set ?r" for x
  proof -
    obtain y r where Cons: "?r = y # r" using x by (cases ?r) auto
    then have "y < a" using hd_dropWhile [of "(<) a" w] assms(4) set_dropWhileD [of y "(<) a" w] by (cases "y = a") auto
    moreover have "sorted_wrt (>) (?l @ ?r)" using assms(1) by simp
    then have "x \<le> y" using x Cons unfolding sorted_wrt_append by auto
    ultimately show ?thesis by simp
  qed
  ultimately show ?thesis using that [OF w] by blast
qed

lemma pp_next_step:
  assumes "pp_ok k S s"
  shows "(\<exists>s'. pp_next s = Some (Some (take k (pp_permutation s)), s') \<and> pp_finished s'
      \<and> (\<forall>q\<in>k_perms k S. q \<le> take k (pp_permutation s)))
    \<or> (\<exists>s'. pp_next s = Some (Some (take k (pp_permutation s)), s') \<and> pp_ok k S s'
      \<and> take k (pp_permutation s) < take k (pp_permutation s')
      \<and> (\<forall>q\<in>k_perms k S. take k (pp_permutation s) < q \<longrightarrow> take k (pp_permutation s') \<le> q))"
proof -
  define p where "p = pp_permutation s"
  define j where "j = min k (length p - 1)"
  define i where "i = pp_pivot p j"
  have ok: "pp_k s = k" "\<not> pp_finished s" "distinct p" "set p = S" "k \<le> length p" "sorted_wrt (>) (drop k p)"
    using assms by (auto simp: pp_ok_def p_def)
  show ?thesis
  proof (cases "p = []")
    case True
    then have "pp_next s = Some (Some (take k p), s\<lparr>pp_finished := True\<rparr>)"
      using ok(1,2) by (simp add: pp_next_def Let_def p_def)
    then show ?thesis using True ok by (auto simp: k_perms_def p_def)
  next
    case False
    then have "j < length p" by (cases p) (auto simp: j_def)
    moreover have "sorted_wrt (>) (drop j p)"
    proof (cases "k < length p")
      case False
      then have "length (drop j p) = 1" using \<open>p \<noteq> []\<close> by (simp add: j_def Suc_le_eq)
      then obtain x where "drop j p = [x]" by (metis One_nat_def length_0_conv length_Suc_conv)
      then show ?thesis by simp
    qed (use ok(6) in \<open>simp add: j_def\<close>)
    ultimately have piv: "i \<le> j" "sorted_wrt (>) (drop i p)" "\<forall>h. i = Suc h \<longrightarrow> p ! h < p ! Suc h"
      using pivot_spec [of j p] ok(3) by (auto simp: i_def)
    show ?thesis
    proof (cases i)
      case 0
      then have "pp_next s = Some (Some (take k p), s\<lparr>pp_finished := True\<rparr>)"
        using ok(1,2) by (simp add: pp_next_def Let_def p_def i_def j_def)
      moreover have "\<forall>q\<in>k_perms k S. q \<le> take k p"
        using last_permutation [OF ok(3) _ _ ok(5)] piv(2) 0 ok(4) by simp
      ultimately show ?thesis by (auto simp: p_def)
    next
      case (Suc h)
      let ?u = "take h p" and ?a = "p ! h"
      have h: "Suc h < length p" "Suc h \<le> k" using piv(1) \<open>j < length p\<close> Suc by (auto simp: j_def)
      have pd: "p = ?u @ ?a # drop (Suc h) p" using h(1) by (simp add: id_take_nth_drop)
      have "?a \<notin> set (drop (Suc h) p)" using ok(3) pd by (metis distinct.simps(2) distinct_append)
      then obtain w1 b w2 where w: "drop (Suc h) p = w1 @ b # w2" "?a < b" "\<forall>x\<in>set w2. x < ?a"
        using descending_split [of "drop (Suc h) p" ?a] piv(2,3) Suc h(1) by (auto simp: hd_drop_conv_nth)
      have p: "p = ?u @ ?a # w1 @ b # w2" using pd w(1) by simp
      define w where "w = w1 @ ?a # w2"
      have desc: "sorted_wrt (>) (w1 @ b # w2)" using piv(2) Suc w(1) by simp
      then have "sorted_wrt (>) w" unfolding w_def using w(2,3) by (auto simp: sorted_wrt_append intro: less_trans)
      have len: "length ?u = h" using h(1) by simp
      have "rposition (\<lambda>x. x > ?a) p = Some (Suc h + length w1)"
        using rposition_append [of "\<lambda>x. x > ?a" b w2 "?u @ ?a # w1"] p w(2,3) len by (auto dest: less_asym)
      moreover have swap: "vec_swap p h (Suc h + length w1) = (?u @ [b]) @ w"
        using vec_swap_parts [of ?u ?a w1 b w2] p len by (simp add: w_def)
      moreover have total: "length ((?u @ [b]) @ w) = length p"
        using arg_cong [OF p, of length] by (simp add: w_def)
      have reorder: "pp_reorder k i ((?u @ [b]) @ w) = (?u @ [b]) @ rev (drop (length p - k) w) @ take (length p - k) w"
        using pp_reorder_eq [of "?u @ [b]" i k w] h Suc len total ok(5) by simp
      define p' where "p' = (?u @ [b]) @ rev (drop (length p - k) w) @ take (length p - k) w"
      ultimately have "pp_next s = Some (Some (take k p), s\<lparr>pp_permutation := p'\<rparr>)"
        using ok(1,2) Suc reorder by (simp add: pp_next_def Let_def p_def i_def j_def)
      moreover have take_p': "take k p' = ?u @ b # rev (drop (length p - k) w)" and drop_p': "drop k p' = take (length p - k) w"
      proof -
        let ?new = "?u @ b # rev (drop (length p - k) w)"
        have "length ?new = k" using total len h ok(5) by simp
        then show "take k p' = ?new" "drop k p' = take (length p - k) w"
          using append_eq_conv_conj [of ?new "take (length p - k) w" p'] by (simp_all add: p'_def)
      qed
      moreover have "mset p' = mset p"
      proof -
        have "mset (rev (drop m w)) + mset (take m w) = mset w" for m
          by (metis append_take_drop_id mset_append mset_rev union_commute)
        then have "mset p' = mset (?u @ [b]) + mset w" unfolding p'_def by (metis mset_append)
        also have "\<dots> = mset (?u @ ?a # w1 @ b # w2)" by (simp add: w_def)
        finally show ?thesis using p by simp
      qed
      then have "distinct p'" "set p' = S" "length p' = length p"
        using ok(3,4) mset_eq_imp_distinct_iff mset_eq_setD mset_eq_length by blast+
      then have "pp_ok k S (s\<lparr>pp_permutation := p'\<rparr>)"
        using ok drop_p' sorted_wrt_take [OF \<open>sorted_wrt (>) w\<close>] by (simp add: pp_ok_def)
      moreover have "take k p < take k p'"
      proof -
        have "take k p = ?u @ ?a # take (k - Suc h) (drop (Suc h) p)"
          using h len by (subst p) (simp add: w(1) take_Cons' del: take_append add: take_append)
        then show ?thesis using take_p' lex_same_prefix [OF w(2)] by simp
      qed
      moreover have "take k p' \<le> q" if "q \<in> k_perms k S" "take k p < q" for q
        using next_permutation [OF p ok(3) desc w(2,3) _ ok(5), of q] that h(2) len take_p' ok(4) by (simp add: w_def)
      ultimately show ?thesis by (auto simp: p_def)
    qed
  qed
qed

lemma pp_collect:
  assumes "pp_ok k S s" "finite S" "card {q \<in> k_perms k S. take k (pp_permutation s) \<le> q} < n"
  shows "\<exists>xs. try_collect pp_next n s = Some xs \<and> sorted_wrt (<) xs
    \<and> set xs = {q \<in> k_perms k S. take k (pp_permutation s) \<le> q}"
  using assms(1,3)
proof (induction n arbitrary: s)
  case (Suc n)
  let ?c = "take k (pp_permutation s)"
  have c: "?c \<in> k_perms k S"
    using Suc.prems(1) set_take_subset [of k "pp_permutation s"] by (auto simp: pp_ok_def k_perms_def)
  have fin: "finite {q \<in> k_perms k S. ?c \<le> q}" using finite_k_perms [OF assms(2)] by simp
  from pp_next_step [OF Suc.prems(1)] show ?case
  proof (elim disjE exE conjE)
    fix s' assume s': "pp_next s = Some (Some ?c, s')" "pp_finished s'" "\<forall>q\<in>k_perms k S. q \<le> ?c"
    have "0 < card {q \<in> k_perms k S. ?c \<le> q}" using c fin card_gt_0_iff by blast
    then obtain m where "n = Suc m" using Suc.prems(2) by (cases n) auto
    then have "try_collect pp_next (Suc n) s = Some [?c]" using s'(1,2) by (simp add: pp_next_def)
    then show ?thesis using c s'(3) by (auto intro: order.antisym)
  next
    fix s' :: "'a partial_permutations" let ?c' = "take k (pp_permutation s')"
    assume s': "pp_next s = Some (Some ?c, s')" "pp_ok k S s'" "?c < ?c'"
      "\<forall>q\<in>k_perms k S. ?c < q \<longrightarrow> ?c' \<le> q"
    have split: "{q \<in> k_perms k S. ?c \<le> q} = insert ?c {q \<in> k_perms k S. ?c' \<le> q}"
      using c s'(3,4) by (auto simp: order.order_iff_strict intro: less_trans)
    then have "card {q \<in> k_perms k S. ?c' \<le> q} < n"
      using Suc.prems(2) fin s'(3) [folded not_le] by (simp add: card_insert_if)
    then obtain xs where "try_collect pp_next n s' = Some xs" "sorted_wrt (<) xs"
      "set xs = {q \<in> k_perms k S. ?c' \<le> q}"
      using Suc.IH [OF s'(2)] by blast
    then show ?thesis using s'(1,3) split by (auto intro: less_le_trans)
  qed
qed simp

section \<open>Properties\<close>

text \<open>C31: Collecting the partial permutations of distinct values ends without a panic and yields, in strict
  lexicographic order, every arrangement of \<open>k\<close> of the values exactly once; there is none when \<open>k\<close> exceeds the
  number of values.\<close>
theorem partial_permutations_enumerate:
  assumes "distinct (vals :: 'a::linorder list)" "card {q. length q = k \<and> distinct q \<and> set q \<subseteq> set vals} < n"
  shows "\<exists>xs. try_collect pp_next n (pp_new vals k) = Some xs \<and> sorted_wrt (<) xs
    \<and> set xs = {q. length q = k \<and> distinct q \<and> set q \<subseteq> set vals}"
proof (cases "k \<le> length vals")
  case True
  let ?s = "pp_new vals k" and ?v = "sort vals"
  let ?p = "take k ?v @ rev (drop k ?v)"
  have perm: "pp_permutation ?s = ?p" using True by (cases "k < length vals") (auto simp: pp_new_def Let_def)
  have strict: "sorted_wrt (<) ?v"
    using assms(1) by (simp add: strict_sorted_iff)
  have "mset ?p = mset ?v" by (metis append_take_drop_id mset_append mset_rev)
  then have "distinct ?p" "set ?p = set vals"
    using assms(1) mset_eq_imp_distinct_iff mset_eq_setD by (metis distinct_sort, metis set_sort)
  moreover have "sorted_wrt (>) (drop k ?p)"
    using sorted_wrt_drop [OF strict, of k] True by (simp add: sorted_wrt_rev)
  ultimately have ok: "pp_ok k (set vals) ?s"
    using True unfolding pp_ok_def perm by (simp add: pp_new_def Let_def)
  have "take k ?p \<le> q" if "q \<in> k_perms k (set vals)" for q
    using least_selection [OF strict, of q] that True by (auto simp: k_perms_def)
  then have "{q \<in> k_perms k (set vals). take k (pp_permutation ?s) \<le> q} = k_perms k (set vals)"
    unfolding perm by blast
  then show ?thesis using pp_collect [OF ok, of n] assms(2) by (simp add: k_perms_def)
next
  case False
  have none: "{q. length q = k \<and> distinct q \<and> set q \<subseteq> set vals} = {}"
  proof (rule ccontr)
    assume "{q. length q = k \<and> distinct q \<and> set q \<subseteq> set vals} \<noteq> {}"
    then obtain q where q: "length q = k" "distinct q" "set q \<subseteq> set vals" by blast
    then have "k \<le> card (set vals)" using card_mono [of "set vals" "set q"] distinct_card [of q] by simp
    then show False using False card_length [of vals] by simp
  qed
  obtain m where "n = Suc m" using assms(2) by (cases n) auto
  then have "try_collect pp_next n (pp_new vals k) = Some []"
    using False by (simp add: pp_next_def pp_new_def Let_def)
  then show ?thesis unfolding none by simp
qed

theorem partial_permutations_enumerate_witness:
  "\<exists>xs. try_collect pp_next 7 (pp_new [3, 1, 2 :: nat] 2) = Some xs \<and> sorted_wrt (<) xs \<and> [3, 2] \<in> set xs"
proof -
  have "card {q. length q = 2 \<and> distinct q \<and> set q \<subseteq> set [3, 1, 2 :: nat]} = 6"
    using card_lists_distinct_length_eq [of "{3, 1, 2 :: nat}" 2] by (simp add: atLeastAtMost_insertL numeral_eq_Suc)
  then show ?thesis using partial_permutations_enumerate [of "[3, 1, 2 :: nat]" 2 7] by auto
qed

text \<open>With two equal values the first step of the iterator panics whenever it has something to permute: the
  pivot is found at the equal pair, and no value is larger.\<close>
theorem partial_permutations_duplicate_panics:
  "pp_next (pp_new [x, x :: 'a::linorder] k) = None \<longleftrightarrow> k = 1 \<or> k = 2"
proof -
  consider "k = 0" | "k = 1" | "k = 2" | "2 < k" by linarith
  then show ?thesis by cases (simp_all add: pp_new_def pp_next_def Let_def rposition_def numeral_2_eq_2)
qed

end
