(* ===== verification/IR_Desc.thy ===== *)
theory IR_Desc
  imports IR_Filter
begin

text \<open>
  Actions on choices (\<^verbatim>\<open>telamon-gen/src/ir/choice.rs\<close>) and the operations that build the description of the decisions
  (\<^verbatim>\<open>telamon-gen/src/ir/mod.rs\<close>). A change to the description returns the new one, or \<open>None\<close> where the source panics. A
  hash map from variables to sets is the list of its entries, whose keys are distinct.
\<close>

section \<open>Choices\<close>

definition choice_new :: "string \<Rightarrow> string option \<Rightarrow> choice_arguments \<Rightarrow> choice_def \<Rightarrow> choice option" where
  "choice_new name doc arguments def = do {
     no_propagate \<leftarrow> vs_empty (cd_value_type def);
     Some \<lparr>c_name = name, c_doc = doc, c_arguments = arguments, c_choice_def = def, c_on_change = [],
       c_filter_actions = [], c_filters = [], c_no_propagate = no_propagate\<rparr> }"

definition dummy_choice :: "choice option" where
  "dummy_choice = choice_new ''DUMMY'' None (Plain []) (CD_Enum ''Bool'')"

definition c_value_type :: "choice \<Rightarrow> value_type" where
  "c_value_type c = cd_value_type (c_choice_def c)"

definition c_add_filter_action :: "filter_action \<Rightarrow> choice \<Rightarrow> choice" where
  "c_add_filter_action action c = c\<lparr>c_filter_actions := c_filter_actions c @ [action]\<rparr>"

definition c_add_onchange :: "on_change_action \<Rightarrow> choice \<Rightarrow> choice" where
  "c_add_onchange action c = c\<lparr>c_on_change := c_on_change c @ [action]\<rparr>"

text \<open>The new filter is found at the returned identifier.\<close>

definition c_add_filter :: "filter_def \<Rightarrow> choice \<Rightarrow> nat \<times> choice" where
  "c_add_filter f c = (let fs = c_filters c @ [f] in (length fs - 1, c\<lparr>c_filters := fs\<rparr>))"

definition c_add_fragile_values :: "value_set \<Rightarrow> choice \<Rightarrow> choice option" where
  "c_add_fragile_values vals c = do {
     s \<leftarrow> vs_extend (c_no_propagate c) vals; Some (c\<lparr>c_no_propagate := s\<rparr>) }"

section \<open>Renaming of actions\<close>

definition vars_adapt :: "adaptator \<Rightarrow> ir_set list \<Rightarrow> ir_set list" where
  "vars_adapt ad = map (set_adapt ad)"

fun cv_adapt :: "adaptator \<Rightarrow> counter_val \<Rightarrow> counter_val" where
  "cv_adapt ad (CV_Code c) = CV_Code (code_adapt ad c)"
| "cv_adapt ad (CV_Choice ci) = CV_Choice (ci_adapt ad ci)"

fun fr_adapt :: "adaptator \<Rightarrow> filter_ref \<Rightarrow> filter_ref option" where
  "fr_adapt ad (FR_Inline rules) = do { rs \<leftarrow> those (map (rule_adapt ad) rules); Some (FR_Inline rs) }"
| "fr_adapt ad (FR_Function choice fid args) = Some (FR_Function choice fid (map (ad_variable ad) args))"

definition fc_adapt :: "adaptator \<Rightarrow> filter_call \<Rightarrow> filter_call option" where
  "fc_adapt ad fc = do {
     r \<leftarrow> fr_adapt ad (fc_filter_ref fc);
     Some \<lparr>fc_forall_vars = vars_adapt ad (fc_forall_vars fc), fc_filter_ref = r\<rparr> }"

definition rf_adapt :: "adaptator \<Rightarrow> remote_filter_call \<Rightarrow> remote_filter_call option" where
  "rf_adapt ad rf = do {
     f \<leftarrow> fc_adapt ad (rf_filter rf);
     Some \<lparr>rf_choice = ci_adapt ad (rf_choice rf), rf_filter = f\<rparr> }"

definition cc_adapt :: "adaptator \<Rightarrow> choice_condition \<Rightarrow> choice_condition option" where
  "cc_adapt ad cc = do {
     self \<leftarrow> vs_adapt ad (cc_self_condition cc);
     others \<leftarrow> those (map (cond_adapt ad) (cc_others_conditions cc));
     Some \<lparr>cc_inputs = map (ci_adapt ad) (cc_inputs cc), cc_self_condition = self, cc_others_conditions = others\<rparr> }"

fun ca_adapt :: "adaptator \<Rightarrow> choice_action \<Rightarrow> choice_action option" where
  "ca_adapt ad FilterSelf = Some FilterSelf"
| "ca_adapt ad (RemoteFilter rf) = do { rf' \<leftarrow> rf_adapt ad rf; Some (RemoteFilter rf') }"
| "ca_adapt ad (IncrCounter counter val incr_condition) = do {
     cond \<leftarrow> vs_adapt ad incr_condition;
     Some (IncrCounter (ci_adapt ad counter) (cv_adapt ad val) cond) }"
| "ca_adapt ad (UpdateCounter counter incr incr_condition) = do {
     cond \<leftarrow> vs_adapt ad incr_condition;
     Some (UpdateCounter (ci_adapt ad counter) (ci_adapt ad incr) cond) }"
| "ca_adapt ad (TriggerAction tid condition code inverse_self_cond) = do {
     cond \<leftarrow> cc_adapt ad condition;
     Some (TriggerAction tid cond (code_adapt ad code) inverse_self_cond) }"

definition oc_adapt :: "adaptator \<Rightarrow> on_change_action \<Rightarrow> on_change_action option" where
  "oc_adapt ad oc = do {
     action \<leftarrow> ca_adapt ad (oc_action oc);
     Some \<lparr>oc_forall_vars = vars_adapt ad (oc_forall_vars oc),
       oc_set_constraints = sc_adapt ad (oc_set_constraints oc), oc_action = action\<rparr> }"

section \<open>Symmetric choices\<close>

fun ca_applies_to_symmetric :: "choice_action \<Rightarrow> bool" where
  "ca_applies_to_symmetric FilterSelf = False"
| "ca_applies_to_symmetric (RemoteFilter _) = False"
| "ca_applies_to_symmetric _ = True"

fun ca_variables :: "choice_action \<Rightarrow> ir_set list" where
  "ca_variables (RemoteFilter rf) = fc_forall_vars (rf_filter rf)"
| "ca_variables _ = []"

fun ca_inputs :: "choice_action \<Rightarrow> choice_instance list" where
  "ca_inputs (TriggerAction _ condition _ _) = cc_inputs condition"
| "ca_inputs _ = []"

fun ca_inverse_self :: "ir_desc \<Rightarrow> choice_action \<Rightarrow> choice_action option" where
  "ca_inverse_self ir (TriggerAction tid condition code inverse_self_cond) =
     Some (TriggerAction tid condition code (\<not> inverse_self_cond))"
| "ca_inverse_self ir (IncrCounter counter val incr_condition) = do {
     cond \<leftarrow> vs_inverse ir incr_condition; Some (IncrCounter counter val cond) }"
| "ca_inverse_self ir (UpdateCounter counter incr incr_condition) = do {
     cond \<leftarrow> vs_inverse ir incr_condition; Some (UpdateCounter counter incr cond) }"
| "ca_inverse_self ir action = Some action"

text \<open>The adaptator that exchanges the two arguments of a symmetric choice.\<close>

definition swap_args :: adaptator where
  "swap_args = ad_set_variable (ad_set_variable ad_default (Arg 0) (Arg 1)) (Arg 1) (Arg 0)"

definition oc_inverse :: "ir_desc \<Rightarrow> on_change_action \<Rightarrow> on_change_action option" where
  "oc_inverse ir oc = do {
     out \<leftarrow> oc_adapt swap_args oc;
     action \<leftarrow> ca_inverse_self ir (oc_action out);
     Some (out\<lparr>oc_action := action\<rparr>) }"

section \<open>The description\<close>

fun counter_zero :: "counter_kind \<Rightarrow> nat" where
  "counter_zero CK_Add = 0"
| "counter_zero CK_Mul = 1"

definition ir_add_choice :: "ir_desc \<Rightarrow> choice \<Rightarrow> ir_desc option" where
  "ir_add_choice ir c =
     (if get_choice ir (c_name c) = None then Some (ir\<lparr>ir_choices := ir_choices ir @ [(c_name c, c)]\<rparr>) else None)"

definition ir_add_enum :: "ir_desc \<Rightarrow> enum_def \<Rightarrow> ir_desc option" where
  "ir_add_enum ir e =
     (if get_enum ir (e_name e) = None then Some (ir\<lparr>ir_enums := ir_enums ir @ [(e_name e, e)]\<rparr>) else None)"

definition ir_add_set_def :: "ir_desc \<Rightarrow> set_def \<Rightarrow> ir_desc option" where
  "ir_add_set_def ir def =
     (if map_of (ir_set_defs ir) (sd_name def) = None
      then Some (ir\<lparr>ir_set_defs := ir_set_defs ir @ [(sd_name def, (def, []))]\<rparr>) else None)"

definition ir_get_set_def :: "ir_desc \<Rightarrow> string \<Rightarrow> set_def option" where
  "ir_get_set_def ir name = map_option fst (map_of (ir_set_defs ir) name)"

definition ir_add_trigger :: "ir_desc \<Rightarrow> trigger \<Rightarrow> nat \<times> ir_desc" where
  "ir_add_trigger ir t = (length (ir_triggers ir), ir\<lparr>ir_triggers := ir_triggers ir @ [t]\<rparr>)"

definition ir_default :: "ir_desc option" where
  "ir_default = do {
     e \<leftarrow> enum_add_value (enum_new ''Bool'' None None) ''TRUE'' None;
     e \<leftarrow> enum_add_value e ''FALSE'' None;
     ir_add_enum \<lparr>ir_choices = [], ir_enums = [], ir_set_defs = [], ir_triggers = []\<rparr> e }"

text \<open>\<^verbatim>\<open>get_mut\<close> followed by an update of the entry.\<close>

definition update_entry :: "('k \<times> 'v) list \<Rightarrow> 'k \<Rightarrow> ('v \<Rightarrow> 'v) \<Rightarrow> ('k \<times> 'v) list option" where
  "update_entry m k f =
     (if map_of m k = None then None else Some (map (\<lambda>(k', v). (k', if k' = k then f v else v)) m))"

definition ir_update_choice :: "string \<Rightarrow> (choice \<Rightarrow> choice) \<Rightarrow> ir_desc \<Rightarrow> ir_desc option" where
  "ir_update_choice name f ir = do {
     cs \<leftarrow> update_entry (ir_choices ir) name f; Some (ir\<lparr>ir_choices := cs\<rparr>) }"

section \<open>Changes of point of view\<close>

type_synonym var_env = "(variable \<times> ir_set) list"

text \<open>The loop on the arguments of the target: the set of each variable is taken out of the environment.\<close>

fun env_args ::
  "(variable \<times> ir_set) list \<Rightarrow> nat \<Rightarrow> var_env \<Rightarrow> set_constraints \<Rightarrow> adaptator
    \<Rightarrow> (var_env \<times> set_constraints \<times> adaptator) option" where
  "env_args [] arg_id vars constraints ad = Some (vars, constraints, ad)"
| "env_args ((mapped_var, given_set) # src) arg_id vars constraints ad = do {
     expected_set \<leftarrow> map_of vars mapped_var;
     env_args src (Suc arg_id) (filter (\<lambda>(v, _). v \<noteq> mapped_var) vars)
       (if set_eq expected_set given_set then constraints else constraints @ [(Arg arg_id, expected_set)])
       (ad_set_variable ad mapped_var (Arg arg_id)) }"

fun env_foralls :: "nat \<Rightarrow> var_env \<Rightarrow> adaptator \<Rightarrow> adaptator" where
  "env_foralls forall_id [] ad = ad"
| "env_foralls forall_id ((mapped_var, _) # vars) ad =
     env_foralls (Suc forall_id) vars (ad_set_variable ad mapped_var (Forall forall_id))"

fun is_arg :: "variable \<Rightarrow> bool" where
  "is_arg (Arg _) = True"
| "is_arg (Forall _) = False"

text \<open>The reversal of the constraints whose parameter is one of the foralls.\<close>

fun reverse_constraints ::
  "set_constraints \<Rightarrow> ir_set list \<Rightarrow> ir_set list \<Rightarrow> (set_constraints \<times> ir_set list \<times> ir_set list) option" where
  "reverse_constraints [] arg_foralls other_foralls = Some ([], arg_foralls, other_foralls)"
| "reverse_constraints ((var, s) # constraints) arg_foralls other_foralls =
     (case s_var s of
        Some (Forall forall_id) \<Rightarrow> do {
          let n = length arg_foralls;
          forall \<leftarrow> (if forall_id < n then Some (arg_foralls ! forall_id)
            else if forall_id - n < length other_foralls then Some (other_foralls ! (forall_id - n)) else None);
          reversed \<leftarrow> set_reverse s var forall;
          (superset, reverse_set) \<leftarrow> reversed;
          if s_var superset = None then do {
            (cs, afs, ofs) \<leftarrow>
              (if forall_id < n then reverse_constraints constraints (arg_foralls[forall_id := reverse_set]) other_foralls
               else reverse_constraints constraints arg_foralls (other_foralls[forall_id - n := reverse_set]));
            Some ((var, superset) # cs, afs, ofs) }
          else None }
      | _ \<Rightarrow> do {
          (cs, afs, ofs) \<leftarrow> reverse_constraints constraints arg_foralls other_foralls;
          Some ((var, s) # cs, afs, ofs) })"

definition retain_constraint :: "choice_arguments \<Rightarrow> variable \<times> ir_set \<Rightarrow> bool option" where
  "retain_constraint args = (\<lambda>(var, s).
     (case s_var s of
        Some (Forall _) \<Rightarrow>
          (case var of
             Arg arg_id \<Rightarrow> do { given \<leftarrow> args_get args arg_id; Some (\<not> set_is_subset_of_def (snd given) s) }
           | Forall _ \<Rightarrow> None)
      | _ \<Rightarrow> Some True))"

fun filter_option :: "('a \<Rightarrow> bool option) \<Rightarrow> 'a list \<Rightarrow> 'a list option" where
  "filter_option p [] = Some []"
| "filter_option p (x # xs) = do {
     keep \<leftarrow> p x; ys \<leftarrow> filter_option p xs; Some (if keep then x # ys else ys) }"

definition adapt_env_ext ::
  "ir_desc \<Rightarrow> var_env \<Rightarrow> choice_instance \<Rightarrow> (ir_set list \<times> ir_set list \<times> set_constraints \<times> adaptator) option" where
  "adapt_env_ext ir vars ci = do {
     target \<leftarrow> get_choice ir (ci_choice ci);
     let args = args_sets (c_arguments target);
     if length (ci_vars ci) = length args then do {
       (vars, constraints, ad) \<leftarrow> env_args (zip (ci_vars ci) args) 0 vars [] ad_default;
       let vars = sort_key fst vars;
       let ad = env_foralls 0 vars ad;
       let arg_foralls = map snd (filter (is_arg \<circ> fst) vars);
       let other_foralls = map snd (filter (Not \<circ> is_arg \<circ> fst) vars);
       (constraints, arg_foralls, other_foralls) \<leftarrow>
         reverse_constraints (map (\<lambda>(v, s). (v, set_adapt ad s)) constraints)
           (vars_adapt ad arg_foralls) (vars_adapt ad other_foralls);
       constraints \<leftarrow> filter_option (retain_constraint (c_arguments target)) constraints;
       Some (arg_foralls, other_foralls, sc_new constraints, ad) }
     else None }"

definition adapt_env ::
  "ir_desc \<Rightarrow> var_env \<Rightarrow> choice_instance \<Rightarrow> (ir_set list \<times> set_constraints \<times> adaptator) option" where
  "adapt_env ir vars ci = do {
     (arg_foralls, other_foralls, constraints, ad) \<leftarrow> adapt_env_ext ir vars ci;
     Some (arg_foralls @ other_foralls, constraints, ad) }"

text \<open>The lazy \<^verbatim>\<open>map\<close> of \<^verbatim>\<open>adapt_to_var_context\<close>: each set is adapted with the names given so far.\<close>

fun context_foralls :: "nat \<Rightarrow> var_env \<Rightarrow> adaptator \<Rightarrow> ir_set list \<times> adaptator" where
  "context_foralls forall_index [] ad = ([], ad)"
| "context_foralls forall_index ((old_id, s) # vars) ad =
     (let ad = ad_set_variable ad old_id (Forall forall_index);
          (sets, ad') = context_foralls (Suc forall_index) vars ad
      in (set_adapt ad s # sets, ad'))"

definition context_vars :: "ir_set list \<Rightarrow> ir_set list \<Rightarrow> var_env" where
  "context_vars args foralls = zip (map Arg [0..<length args]) args @ zip (map Forall [0..<length foralls]) foralls"

definition adapt_to_var_context ::
  "ir_set list \<Rightarrow> ir_set list \<Rightarrow> variable \<Rightarrow> bool \<Rightarrow> (ir_set list \<times> adaptator) option" where
  "adapt_to_var_context args foralls var reversed = do {
     let ad = ad_set_variable ad_default var (Arg (if reversed then 1 else 0));
     s \<leftarrow> map_of (context_vars args foralls) var;
     let arg_var = s_var s;
     ad \<leftarrow> (case arg_var of
         Some arg \<Rightarrow> Some (ad_set_variable ad arg (Arg (if reversed then 0 else 1)))
       | None \<Rightarrow> if reversed then None else Some ad);
     Some (context_foralls 0
       (filter (\<lambda>(v, _). v \<noteq> var \<and> Some v \<noteq> arg_var) (context_vars args foralls)) ad) }"

section \<open>Registering filters\<close>

definition gen_filter_call_action ::
  "ir_desc \<Rightarrow> string \<Rightarrow> nat \<Rightarrow> choice_instance \<Rightarrow> var_env \<Rightarrow> nat \<Rightarrow> on_change_action option" where
  "gen_filter_call_action ir filtered fid changed env num_foralls = do {
     (choice_foralls, filter_foralls, constraints, ad) \<leftarrow> adapt_env_ext ir env changed;
     c \<leftarrow> get_choice ir filtered;
     let num_args = args_len (c_arguments c);
     let args = map (ad_variable ad) (map Arg [0..<num_args] @ map Forall [0..<num_foralls]);
     let remote = \<lparr>rf_choice = \<lparr>ci_choice = filtered, ci_vars = map (ad_variable ad \<circ> Arg) [0..<num_args]\<rparr>,
       rf_filter = \<lparr>fc_forall_vars = filter_foralls, fc_filter_ref = FR_Function filtered fid args\<rparr>\<rparr>;
     Some \<lparr>oc_forall_vars = choice_foralls, oc_set_constraints = constraints, oc_action = RemoteFilter remote\<rparr> }"

definition ir_add_onchange :: "string \<Rightarrow> on_change_action \<Rightarrow> ir_desc \<Rightarrow> ir_desc option" where
  "ir_add_onchange choice action ir = do {
     inversed \<leftarrow> (if ca_applies_to_symmetric (oc_action action) then do {
         c \<leftarrow> get_choice ir choice;
         if args_is_symmetric (c_arguments c) then map_option Some (oc_inverse ir action) else Some None }
       else Some None);
     ir \<leftarrow> ir_update_choice choice (c_add_onchange action) ir;
     (case inversed of
        Some action' \<Rightarrow> ir_update_choice choice (c_add_onchange action') ir
      | None \<Rightarrow> Some ir) }"

definition filter_env :: "choice \<Rightarrow> ir_set list \<Rightarrow> set_constraints \<Rightarrow> var_env" where
  "filter_env c foralls constraints =
     map (\<lambda>(v, s). (v, case sc_find_set constraints v of Some s' \<Rightarrow> s' | None \<Rightarrow> s))
       (context_vars (args_sets (c_arguments c)) foralls)"

definition register_filter_call ::
  "string \<Rightarrow> nat \<Rightarrow> ir_set list \<Rightarrow> set_constraints \<Rightarrow> choice_instance \<Rightarrow> ir_desc \<Rightarrow> ir_desc option" where
  "register_filter_call filtered filter_id foralls constraints changed ir = do {
     c \<leftarrow> get_choice ir filtered;
     let env = filter_env c foralls constraints;
     other \<leftarrow> get_choice ir (ci_choice changed);
     ir \<leftarrow> (if args_is_symmetric (c_arguments other) then
         (case ci_vars changed of
            v0 # v1 # _ \<Rightarrow> do {
              let sym = \<lparr>ci_choice = ci_choice changed, ci_vars = [v1, v0]\<rparr>;
              action \<leftarrow> gen_filter_call_action ir filtered filter_id sym env (length foralls);
              ir_add_onchange (ci_choice changed) action ir }
          | _ \<Rightarrow> None)
       else Some ir);
     action \<leftarrow> gen_filter_call_action ir filtered filter_id changed env (length foralls);
     ir_add_onchange (ci_choice changed) action ir }"

fun apply_constraints :: "set_constraints \<Rightarrow> ir_set list \<Rightarrow> ir_set list option" where
  "apply_constraints [] args = Some args"
| "apply_constraints ((Arg i, s) # constraints) args =
     (if i < length args then apply_constraints constraints (args[i := s]) else None)"
| "apply_constraints ((Forall _, _) # _) args = None"

text \<open>One turn of the loop on the foralls of a filter: the object added to \<open>s\<close> runs the filter.\<close>

definition register_on_new_obj ::
  "choice \<Rightarrow> filter_ref \<Rightarrow> ir_set list \<Rightarrow> ir_set list \<Rightarrow> nat \<times> ir_set \<Rightarrow> ir_desc \<Rightarrow> ir_desc option" where
  "register_on_new_obj c fr choice_args foralls = (\<lambda>(i, s) ir. do {
     let reversed = (sd_name (s_def s) = []);
     (arg_set, s) \<leftarrow> (if reversed then do {
         arg \<leftarrow> sd_arg (s_def s);
         r \<leftarrow> set_reverse s (Forall i) arg;
         (rev_arg_set, rev_set) \<leftarrow> r;
         Some (Some rev_arg_set, rev_set) }
       else (case s_var s of
           None \<Rightarrow> Some (None, s)
         | Some v \<Rightarrow> do { a \<leftarrow> map_of (context_vars choice_args foralls) v; Some (Some a, s) }));
     (new_foralls, ad) \<leftarrow> adapt_to_var_context choice_args foralls (Forall i) reversed;
     constraints \<leftarrow> (case arg_set of
         None \<Rightarrow> Some []
       | Some a \<Rightarrow> do {
           param \<leftarrow> sd_arg (s_def s);
           inside \<leftarrow> set_is_subset_of param a;
           Some (if inside then [] else sc_new [(Arg 1, set_adapt ad a)]) });
     fr' \<leftarrow> fr_adapt ad fr;
     let remote = \<lparr>rf_choice = ci_adapt ad (ci_self_choice c),
       rf_filter = \<lparr>fc_forall_vars = [], fc_filter_ref = fr'\<rparr>\<rparr>;
     defs \<leftarrow> update_entry (ir_set_defs ir) (sd_name (s_def s))
       (\<lambda>(def, on_new). (def, on_new @ [(new_foralls, constraints, remote)]));
     Some (ir\<lparr>ir_set_defs := defs\<rparr>) })"

definition register_filter_on_new_objs ::
  "filter_ref \<Rightarrow> string \<Rightarrow> ir_set list \<Rightarrow> set_constraints \<Rightarrow> ir_desc \<Rightarrow> ir_desc option" where
  "register_filter_on_new_objs fr choice foralls constraints ir = do {
     c \<leftarrow> get_choice ir choice;
     choice_args \<leftarrow> apply_constraints constraints (args_sets (c_arguments c));
     fold_option (register_on_new_obj c fr choice_args foralls) (zip [0..<length foralls] foralls) ir }"

definition ir_add_filter ::
  "string \<Rightarrow> filter_def \<Rightarrow> ir_set list \<Rightarrow> set_constraints \<Rightarrow> ir_desc \<Rightarrow> ir_desc option" where
  "ir_add_filter choice f forall_vars constraints ir = do {
     (fr, ir) \<leftarrow> (if f_inputs f = [] then
         (case f_rules f of Rules rules \<Rightarrow> Some (FR_Inline rules, ir) | Switch _ _ \<Rightarrow> None)
       else do {
         c \<leftarrow> get_choice ir choice;
         let (filter_id, c') = c_add_filter f c;
         ir \<leftarrow> ir_update_choice choice (\<lambda>_. c') ir;
         ir \<leftarrow> fold_option (register_filter_call choice filter_id forall_vars constraints) (f_inputs f) ir;
         c \<leftarrow> get_choice ir choice;
         Some (FR_Function choice filter_id
           (map Arg [0..<args_len (c_arguments c)] @ map Forall [0..<length forall_vars]), ir) });
     ir \<leftarrow> register_filter_on_new_objs fr choice forall_vars constraints ir;
     ir_update_choice choice (c_add_filter_action
       \<lparr>fa_set_constraints = constraints, fa_filter = \<lparr>fc_forall_vars = forall_vars, fc_filter_ref = fr\<rparr>\<rparr>) ir }"

section \<open>Conditions from the point of view of a choice\<close>

text \<open>\<^verbatim>\<open>Vec::swap_remove\<close>: the last element takes the place of the removed one.\<close>

definition swap_remove :: "nat \<Rightarrow> 'a list \<Rightarrow> ('a \<times> 'a list) option" where
  "swap_remove i xs =
     (if i < length xs then Some (xs ! i, butlast (xs[i := last xs])) else None)"

fun split_conditions ::
  "ir_desc \<Rightarrow> nat \<Rightarrow> value_type \<Rightarrow> adaptator \<Rightarrow> condition list \<Rightarrow> value_set \<Rightarrow> (value_set \<times> condition list) option" where
  "split_conditions ir self_id t ad [] self = Some (self, [])"
| "split_conditions ir self_id t ad (c # cs) self = do {
     alternatives \<leftarrow> alternatives_of ir self_id t c;
     (case alternatives of
        Some alts \<Rightarrow> do {
          alts \<leftarrow> vs_adapt ad alts;
          self \<leftarrow> vs_extend self alts;
          split_conditions ir self_id t ad cs self }
      | None \<Rightarrow> do {
          c' \<leftarrow> cond_adapt ad c;
          (self, others) \<leftarrow> split_conditions ir self_id t ad cs self;
          Some (self, c' # others) }) }"

definition cc_new ::
  "ir_desc \<Rightarrow> choice_instance list \<Rightarrow> nat \<Rightarrow> condition list \<Rightarrow> var_env
    \<Rightarrow> (ir_set list \<times> set_constraints \<times> choice_condition \<times> adaptator) option" where
  "cc_new ir inputs self_id conds env = do {
     (removed, rest) \<leftarrow> swap_remove self_id inputs;
     (foralls, constraints, ad) \<leftarrow> adapt_env ir env removed;
     let ad = ad_set_input ad (length rest) self_id;
     c \<leftarrow> get_choice ir (ci_choice removed);
     let t = vt_adapt ad (c_value_type c);
     self \<leftarrow> vs_empty t;
     (self, others) \<leftarrow> split_conditions ir self_id t ad conds self;
     Some (foralls, constraints,
       \<lparr>cc_inputs = map (ci_adapt ad) rest, cc_self_condition = self, cc_others_conditions = others\<rparr>, ad) }"

end
