(* ===== verification/Flat_Filters.thy ===== *)
theory Flat_Filters
  imports IR_Desc Util_Iterators
begin

text \<open>
  Constraints and the filters generated from them (\<^verbatim>\<open>telamon-gen/src/constraint.rs\<close>, \<^verbatim>\<open>telamon-gen/src/flat_filter.rs\<close>). A
  constraint is a disjunction of conditions on its inputs; the filter of an input has one rule, which
  allows the values that satisfy a condition on the input when all the other conditions fail.
\<close>

section \<open>Flat filters\<close>

record flat_filter =
  ff_vars :: "ir_set list"
  ff_inputs :: "choice_instance list"
  ff_rules :: "rule list"
  ff_set_constraints :: set_constraints

text \<open>The loop that normalises the inputs, shared by \<^verbatim>\<open>FlatFilter::new\<close> and \<^verbatim>\<open>dedup_inputs\<close>.\<close>

fun normalize_inputs ::
  "ir_desc \<Rightarrow> nat \<Rightarrow> choice_instance list \<Rightarrow> adaptator \<Rightarrow> (choice_instance list \<times> adaptator) option" where
  "normalize_inputs ir pos [] ad = Some ([], ad)"
| "normalize_inputs ir pos (input # inputs) ad = do {
     (inversed, input) \<leftarrow> ci_normalize ir input;
     (inputs, ad) \<leftarrow> normalize_inputs ir (Suc pos) inputs (if inversed then ad_set_inversed ad pos else ad);
     Some (input # inputs, ad) }"

definition ff_new ::
  "ir_set list \<Rightarrow> choice_instance list \<Rightarrow> rule list \<Rightarrow> set_constraints \<Rightarrow> ir_desc \<Rightarrow> flat_filter option" where
  "ff_new vars inputs rules constraints ir = do {
     (inputs, ad) \<leftarrow> normalize_inputs ir 0 inputs ad_default;
     rules \<leftarrow> those (map (rule_adapt ad) rules);
     Some \<lparr>ff_vars = vars, ff_inputs = inputs, ff_rules = rules, ff_set_constraints = constraints\<rparr> }"

definition ff_deconstruct ::
  "flat_filter \<Rightarrow> ir_set list \<times> choice_instance list \<times> rule list \<times> set_constraints" where
  "ff_deconstruct f = (ff_vars f, ff_inputs f, ff_rules f, ff_set_constraints f)"

text \<open>The inverse of a rule for an antisymmetric choice.\<close>

definition rule_inverse :: "bool \<Rightarrow> ir_desc \<Rightarrow> rule \<Rightarrow> rule option" where
  "rule_inverse antisymmetric ir old_rule = do {
     r \<leftarrow> rule_adapt swap_args old_rule;
     if antisymmetric then do { alts \<leftarrow> vs_inverse ir (alternatives r); Some (r\<lparr>alternatives := alts\<rparr>) }
     else Some r }"

definition ff_inverse :: "bool \<Rightarrow> ir_desc \<Rightarrow> flat_filter \<Rightarrow> flat_filter option" where
  "ff_inverse antisymmetric ir f = do {
     rules \<leftarrow> those (map (rule_inverse antisymmetric ir) (ff_rules f));
     ff_new (vars_adapt swap_args (ff_vars f)) (map (ci_adapt swap_args) (ff_inputs f)) rules
       (sc_adapt swap_args (ff_set_constraints f)) ir }"

section \<open>Merging\<close>

text \<open>The check that the mapped variables range over equal sets; \<open>None\<close> continues with the next mapping.\<close>

fun map_variables :: "ir_set list \<Rightarrow> ir_set list \<Rightarrow> nat \<Rightarrow> nat list \<Rightarrow> adaptator \<Rightarrow> adaptator option" where
  "map_variables self_vars other_vars old_id [] ad = Some ad"
| "map_variables self_vars other_vars old_id (new_id # var_map) ad =
     (if set_eq (other_vars ! old_id) (self_vars ! new_id)
      then map_variables self_vars other_vars (Suc old_id) var_map (ad_set_variable ad (Forall old_id) (Forall new_id))
      else None)"

text \<open>The inputs of the other filter; the inner \<open>None\<close> is an input that is not one of \<^verbatim>\<open>self\<close>.\<close>

fun map_inputs ::
  "ir_desc \<Rightarrow> (choice_instance \<rightharpoonup> nat) \<Rightarrow> nat \<Rightarrow> choice_instance list \<Rightarrow> adaptator \<Rightarrow> adaptator option option" where
  "map_inputs ir input_map old_id [] ad = Some (Some ad)"
| "map_inputs ir input_map old_id (input # inputs) ad = do {
     (inversed, new_input) \<leftarrow> ci_normalize ir (ci_adapt ad input);
     let ad = (if inversed then ad_set_inversed ad old_id else ad);
     (case input_map new_input of
        Some new_id \<Rightarrow> map_inputs ir input_map (Suc old_id) inputs (ad_set_input ad old_id new_id)
      | None \<Rightarrow> Some None) }"

fun merge_mappings ::
  "ir_desc \<Rightarrow> flat_filter \<Rightarrow> (choice_instance \<rightharpoonup> nat) \<Rightarrow> nat list list \<Rightarrow> flat_filter \<Rightarrow> bool \<Rightarrow> (bool \<times> flat_filter) option" where
  "merge_mappings ir other input_map [] self merged = Some (merged, self)"
| "merge_mappings ir other input_map (var_map # var_maps) self merged =
     (case map_variables (ff_vars self) (ff_vars other) 0 var_map ad_default of
        None \<Rightarrow> merge_mappings ir other input_map var_maps self merged
      | Some ad \<Rightarrow> do {
          mapped \<leftarrow> map_inputs ir input_map 0 (ff_inputs other) ad;
          (case mapped of
             None \<Rightarrow> merge_mappings ir other input_map var_maps self merged
           | Some ad \<Rightarrow> do {
               rules \<leftarrow> those (map (rule_adapt ad) (ff_rules other));
               let self = self\<lparr>ff_rules := ff_rules self @ rules\<rparr>;
               if length (ff_vars self) = length (ff_vars other) then
                 if ff_inputs self = [] then Some (True, self)
                 else merge_mappings ir other input_map var_maps self True
               else merge_mappings ir other input_map var_maps self merged }) })"

text \<open>The mappings of variables are collected first: the merge changes only the rules. There are at
  most \<open>n!\<close> of them for \<open>n\<close> variables.\<close>

definition var_mappings :: "nat \<Rightarrow> nat \<Rightarrow> nat list list option" where
  "var_mappings n k = try_collect pp_next (Suc (fact n)) (pp_new [0..<n] k)"

definition ff_try_merge :: "ir_desc \<Rightarrow> flat_filter \<Rightarrow> flat_filter \<Rightarrow> (bool \<times> flat_filter) option" where
  "ff_try_merge ir other self =
     (if (ff_inputs self = []) \<noteq> (ff_inputs other = []) then Some (False, self)
      else if \<not> sc_eq (ff_set_constraints self) (ff_set_constraints other) then Some (False, self)
      else do {
        var_maps \<leftarrow> var_mappings (length (ff_vars self)) (length (ff_vars other));
        merge_mappings ir other (map_of (rev (zip (ff_inputs self) [0..<length (ff_inputs self)]))) var_maps self False })"

text \<open>The inner loop of \<^verbatim>\<open>merge\<close>: a filter is merged into every filter that accepts it.\<close>

fun merge_into :: "ir_desc \<Rightarrow> flat_filter \<Rightarrow> flat_filter list \<Rightarrow> bool \<Rightarrow> (bool \<times> flat_filter list) option" where
  "merge_into ir f [] merged = Some (merged, [])"
| "merge_into ir f (other # others) merged = do {
     (m, other) \<leftarrow> ff_try_merge ir f other;
     (merged, others) \<leftarrow> merge_into ir f others (merged \<or> m);
     Some (merged, other # others) }"

definition merge_filter :: "ir_desc \<Rightarrow> flat_filter \<Rightarrow> flat_filter list \<Rightarrow> flat_filter list option" where
  "merge_filter ir f merged_filters = do {
     (merged, fs) \<leftarrow> merge_into ir f merged_filters False;
     Some (if merged then fs else fs @ [f]) }"

definition ff_merge :: "ir_desc \<Rightarrow> flat_filter list \<Rightarrow> flat_filter list option" where
  "ff_merge ir filters = fold_option (merge_filter ir) (rev (sort_key (length \<circ> ff_inputs) filters)) []"

section \<open>Constraints\<close>

record ir_constraint =
  co_vars :: "ir_set list"
  co_inputs :: "choice_instance list"
  co_conditions :: "condition list"
  co_restrict_fragile :: bool

text \<open>\<^verbatim>\<open>entry(input).or_insert(next_pos)\<close>.\<close>

fun assign_positions :: "nat \<Rightarrow> choice_instance list \<Rightarrow> (choice_instance \<times> nat) list \<Rightarrow> adaptator \<Rightarrow> adaptator" where
  "assign_positions old_pos [] input_map ad = ad"
| "assign_positions old_pos (input # inputs) input_map ad =
     (let next_pos = length input_map
      in case map_of input_map input of
          Some new_pos \<Rightarrow> assign_positions (Suc old_pos) inputs input_map (ad_set_input ad old_pos new_pos)
        | None \<Rightarrow> assign_positions (Suc old_pos) inputs (input_map @ [(input, next_pos)])
            (ad_set_input ad old_pos next_pos))"

fun new_inputs :: "adaptator \<Rightarrow> nat \<Rightarrow> choice_instance list \<Rightarrow> choice_instance list \<Rightarrow> choice_instance list" where
  "new_inputs ad old_pos [] defs = defs"
| "new_inputs ad old_pos (input # inputs) defs =
     new_inputs ad (Suc old_pos) inputs
       (if fst (ad_input ad old_pos) = length defs then defs @ [input] else defs)"

definition dedup_inputs ::
  "choice_instance list \<Rightarrow> ir_desc \<Rightarrow> (choice_instance list \<times> adaptator) option" where
  "dedup_inputs inputs ir = do {
     (inputs, ad) \<leftarrow> normalize_inputs ir 0 inputs ad_default;
     let ad = assign_positions 0 inputs [] ad;
     Some (new_inputs ad 0 inputs [], ad) }"

definition co_dedup_inputs :: "ir_desc \<Rightarrow> ir_constraint \<Rightarrow> ir_constraint option" where
  "co_dedup_inputs ir co = do {
     (inputs, ad) \<leftarrow> dedup_inputs (co_inputs co) ir;
     conds \<leftarrow> those (map (cond_adapt ad) (co_conditions co));
     Some (co\<lparr>co_inputs := inputs, co_conditions := conds\<rparr>) }"

text \<open>The first test of the loop on the set constraints: the first position of the variable in an
  input decides.\<close>

fun used_by_inputs :: "ir_desc \<Rightarrow> ir_set \<Rightarrow> variable \<Rightarrow> choice_instance list \<Rightarrow> bool option" where
  "used_by_inputs ir given_set var [] = Some False"
| "used_by_inputs ir given_set var (input # inputs) =
     (case List.find (\<lambda>p. fst p = var) (zip (ci_vars input) [0..<length (ci_vars input)]) of
        None \<Rightarrow> used_by_inputs ir given_set var inputs
      | Some (_, pos) \<Rightarrow> do {
          c \<leftarrow> get_choice ir (ci_choice input);
          expected \<leftarrow> args_get (c_arguments c) pos;
          if \<not> set_is_subset_of_def given_set (snd expected) then Some True
          else used_by_inputs ir given_set var inputs })"

text \<open>The second test: \<^verbatim>\<open>any\<close> stops at the first set whose parameter is not a superset of the given one.\<close>

fun used_by_sets :: "ir_set \<Rightarrow> variable \<Rightarrow> ir_set list \<Rightarrow> bool option" where
  "used_by_sets given_set var [] = Some False"
| "used_by_sets given_set var (s # sets) =
     (if s_var s = Some var then do {
        param \<leftarrow> sd_arg (s_def s);
        inside \<leftarrow> set_is_subset_of given_set param;
        if inside then used_by_sets given_set var sets else Some True }
      else used_by_sets given_set var sets)"

text \<open>The loop on the reversed set constraints; the two lists are built in reverse order.\<close>

fun split_constraints ::
  "ir_desc \<Rightarrow> choice \<Rightarrow> choice_instance list \<Rightarrow> ir_set list \<Rightarrow> set_constraints
    \<Rightarrow> set_constraints \<Rightarrow> set_constraints \<Rightarrow> (set_constraints \<times> set_constraints) option" where
  "split_constraints ir c inputs foralls [] outer inner = Some (outer, inner)"
| "split_constraints ir c inputs foralls ((var, sub) # rest) outer inner =
     (case var of
        Forall _ \<Rightarrow> None
      | Arg i \<Rightarrow> do {
          given \<leftarrow> args_get (c_arguments c) i;
          by_inputs \<leftarrow> used_by_inputs ir (snd given) var inputs;
          by_sets \<leftarrow> used_by_sets (snd given) var
            (map snd outer @ foralls @ List.map_filter s_reverse_constraint foralls);
          if by_inputs \<or> by_sets then split_constraints ir c inputs foralls rest (outer @ [(var, sub)]) inner
          else split_constraints ir c inputs foralls rest outer (inner @ [(var, sub)]) })"

definition gen_flat_filter :: "ir_desc \<Rightarrow> ir_constraint \<Rightarrow> nat \<Rightarrow> flat_filter option option" where
  "gen_flat_filter ir co input_id =
     (if input_id < length (co_inputs co) then do {
        c \<leftarrow> get_choice ir (ci_choice (co_inputs co ! input_id));
        let env = zip (map Forall [0..<length (co_vars co)]) (co_vars co);
        (foralls, all_constraints, conds, _) \<leftarrow> cc_new ir (co_inputs co) input_id (co_conditions co) env;
        self_condition \<leftarrow> (if co_restrict_fragile co then Some (cc_self_condition conds)
          else vs_extend (cc_self_condition conds) (c_no_propagate c));
        full \<leftarrow> vs_is_full ir self_condition;
        if full then Some None
        else do {
          let others = map cond_negate (cc_others_conditions conds);
          (outer, inner) \<leftarrow> split_constraints ir c (cc_inputs conds) foralls (rev all_constraints) [] [];
          let r = \<lparr>conditions = others, alternatives = self_condition, r_set_constraints = sc_new (rev inner)\<rparr>;
          f \<leftarrow> ff_new foralls (cc_inputs conds) [r] (sc_new (rev outer)) ir;
          Some (Some f) } }
      else None)"

text \<open>One turn of the loop of \<^verbatim>\<open>gen_filters\<close>: the inverse filter comes first.\<close>

definition gen_input_filters :: "ir_desc \<Rightarrow> ir_constraint \<Rightarrow> nat \<Rightarrow> (string \<times> flat_filter) list option" where
  "gen_input_filters ir co input_id = do {
     f \<leftarrow> gen_flat_filter ir co input_id;
     (case f of
        None \<Rightarrow> Some []
      | Some f \<Rightarrow> do {
          let name = ci_choice (co_inputs co ! input_id);
          c \<leftarrow> get_choice ir name;
          (case c_arguments c of
             Plain _ \<Rightarrow> Some [(name, f)]
           | Symmetric _ _ inversed \<Rightarrow> do { g \<leftarrow> ff_inverse inversed ir f; Some [(name, g), (name, f)] }) }) }"

definition gen_filters :: "ir_desc \<Rightarrow> ir_constraint \<Rightarrow> (string \<times> flat_filter) list option" where
  "gen_filters ir co = map_option concat (those (map (gen_input_filters ir co) [0..<length (co_inputs co)]))"

end
