(* ===== verification/Filter_Semantics.thy ===== *)
theory Filter_Semantics
  imports IR_Semantics Flat_Filters
begin

text \<open>
  The meaning of the filters generated from constraints: renaming inputs and variables keeps the
  truth of conditions, the alternatives extracted from a condition are the values that satisfy it,
  removing duplicate inputs keeps a constraint, and the rule generated for an input allows exactly
  the values that satisfy the constraint.
\<close>

section \<open>Typed conditions\<close>

text \<open>The enums of a description are well formed, and inverses of values are values.\<close>

definition ir_closed :: "ir_desc \<Rightarrow> bool" where
  "ir_closed ir \<longleftrightarrow> ir_wf ir \<and> (\<forall>(n, e) \<in> set (ir_enums ir). \<forall>x \<in> set (enum_keys e). enum_inverse e x \<in> set (enum_keys e))"

definition typed_val :: "enum_def option \<Rightarrow> val \<Rightarrow> bool" where
  "typed_val e v \<longleftrightarrow> (case e of Some e \<Rightarrow> \<exists>x \<in> set (enum_keys e). v = EVal x | None \<Rightarrow> \<exists>n. v = IVal n)"

fun cond_inputs :: "condition \<Rightarrow> nat set" where
  "cond_inputs (C_Enum i _ _ _) = {i}"
| "cond_inputs (C_CmpCode i _ _) = {i}"
| "cond_inputs (C_CmpInput l r _ _) = {l, r}"
| "cond_inputs _ = {}"

text \<open>The types that the checks on the source of the constraint enforce.\<close>

fun cond_typed :: "ir_desc \<Rightarrow> choice_instance list \<Rightarrow> condition \<Rightarrow> bool" where
  "cond_typed ir inputs (C_Enum i vals negate inversed) \<longleftrightarrow>
     (case input_enum ir inputs i of Some e \<Rightarrow> fset vals \<subseteq> set (enum_keys e) | None \<Rightarrow> False)"
| "cond_typed ir inputs (C_CmpCode i c op) \<longleftrightarrow> i < length inputs \<and> input_enum ir inputs i = None"
| "cond_typed ir inputs (C_CmpInput l r op inversed) \<longleftrightarrow> l < length inputs \<and> r < length inputs
     \<and> input_enum ir inputs l = input_enum ir inputs r
     \<and> (if input_enum ir inputs l = None then \<not> inversed else op = Eq \<or> op = Neq)"
| "cond_typed ir inputs _ \<longleftrightarrow> True"

definition val_inverse :: "bool \<Rightarrow> enum_def option \<Rightarrow> val \<Rightarrow> val" where
  "val_inverse b e v = (case v of EVal x \<Rightarrow> EVal (inverse_if b e x) | IVal n \<Rightarrow> IVal n)"

lemma ir_closedD:
  assumes "ir_closed ir" "get_enum ir n = Some e"
  shows "e_name e = n" "enum_wf e" "distinct (enum_keys e)" "x \<in> set (enum_keys e) \<Longrightarrow> enum_inverse e x \<in> set (enum_keys e)"
  using assms ir_wfD [of ir n e] by (auto simp: ir_closed_def get_enum_def dest!: map_of_SomeD)

lemma input_enum_get: "input_enum ir inputs i = Some e \<Longrightarrow> \<exists>n. get_enum ir n = Some e"
  by (auto simp: input_enum_def bind_eq_Some_conv)

lemma input_enum_length: "input_enum ir inputs i = Some e \<Longrightarrow> i < length inputs"
  by (auto simp: input_enum_def bind_eq_Some_conv split: if_splits)

text \<open>The enum of an input depends on its choice only.\<close>

lemma input_enum_choice:
  assumes "i < length inputs" "j < length inputs'" "ci_choice (inputs ! i) = ci_choice (inputs' ! j)"
  shows "input_enum ir inputs i = input_enum ir inputs' j"
  using assms by (simp add: input_enum_def)

lemma inverse_if_simps [simp]: "inverse_if False e x = x" "inverse_if b None x = x" "inverse_if True (Some e') x = enum_inverse e' x"
  by (auto simp: inverse_if_def split: option.splits)

lemma inverse_if_twice:
  "enum_wf e \<Longrightarrow> inverse_if a (Some e) (inverse_if b (Some e) x) = inverse_if (a \<noteq> b) (Some e) x"
  by (cases a; cases b) (simp_all add: enum_inverse_involution)

lemma inverse_if_eq_iff: "enum_wf e \<Longrightarrow> inverse_if b (Some e) x = y \<longleftrightarrow> x = inverse_if b (Some e) y"
  using enum_inverse_eq_iff by (cases b) auto

lemma normalize_values_inverse:
  assumes "enum_wf e" "\<And>x. x \<in> set (enum_keys e) \<Longrightarrow> enum_inverse e x \<in> set (enum_keys e)"
  shows "x |\<in>| normalize_values vals negate (inversed \<noteq> b) e \<longleftrightarrow>
    inverse_if b (Some e) x |\<in>| normalize_values vals negate inversed e"
proof -
  have img: "y |\<in>| (if a then enum_inverse e |`| vals else vals) \<longleftrightarrow> inverse_if a (Some e) y |\<in>| vals" for a y
    using enum_inverse_involution [OF assms(1)] by (cases a) (auto simp: image_iff, metis)
  have keys: "inverse_if b (Some e) x \<in> set (enum_keys e) \<longleftrightarrow> x \<in> set (enum_keys e)"
    using assms(2) enum_inverse_involution [OF assms(1)] by (cases b) (simp_all, metis)
  show ?thesis
    using keys inverse_if_twice [OF assms(1), of inversed b x]
    by (auto simp: normalize_values_def Let_def img fset_of_list_elem)
qed

section \<open>Renaming\<close>

text \<open>Two contexts related by an adaptator on the inputs \<open>I\<close>.\<close>

definition adapts ::
  "ir_desc \<Rightarrow> nat set \<Rightarrow> choice_instance list \<Rightarrow> choice_instance list \<Rightarrow> adaptator \<Rightarrow> ctx \<Rightarrow> ctx \<Rightarrow> bool" where
  "adapts ir I inputs inputs' ad cx cx' \<longleftrightarrow>
     (\<forall>i \<in> I. i < length inputs \<longrightarrow> fst (ad_input ad i) < length inputs'
        \<and> input_enum ir inputs' (fst (ad_input ad i)) = input_enum ir inputs i
        \<and> (snd (ad_input ad i) \<longrightarrow> input_enum ir inputs i \<noteq> None)
        \<and> ctx_input cx i = val_inverse (snd (ad_input ad i)) (input_enum ir inputs i) (ctx_input cx' (fst (ad_input ad i))))
     \<and> (\<forall>c. ctx_code cx' (code_adapt ad c) = ctx_code cx c) \<and> (\<forall>c. ctx_num cx' (code_adapt ad c) = ctx_num cx c)"

lemma adaptsD:
  assumes "adapts ir I inputs inputs' ad cx cx'" "i \<in> I" "i < length inputs"
  shows "fst (ad_input ad i) < length inputs'" "input_enum ir inputs' (fst (ad_input ad i)) = input_enum ir inputs i"
    "snd (ad_input ad i) \<Longrightarrow> input_enum ir inputs i \<noteq> None"
    "ctx_input cx i = val_inverse (snd (ad_input ad i)) (input_enum ir inputs i) (ctx_input cx' (fst (ad_input ad i)))"
  using assms by (auto simp: adapts_def)

lemma cond_adapt_sound:
  assumes closed: "ir_closed ir" and ad: "adapts ir I inputs inputs' ad cx cx'"
    and c: "cond_typed ir inputs c" "cond_inputs c \<subseteq> I"
  shows "\<exists>c'. cond_adapt ad c = Some c' \<and> cond_typed ir inputs' c'
    \<and> (cond_holds ir inputs' cx' c' \<longleftrightarrow> cond_holds ir inputs cx c)"
proof (cases c)
  case (C_Enum i vals negate inversed)
  then obtain e where e: "input_enum ir inputs i = Some e" "fset vals \<subseteq> set (enum_keys e)"
    using c(1) by (auto split: option.splits)
  obtain n where n: "get_enum ir n = Some e" using input_enum_get [OF e(1)] by blast
  obtain j b where j: "ad_input ad i = (j, b)" by fastforce
  have i: "input_enum ir inputs' j = Some e" "ctx_input cx i = val_inverse b (Some e) (ctx_input cx' j)"
    using adaptsD [OF ad, of i] c(2) C_Enum input_enum_length [OF e(1)] e(1) j by auto
  have "cond_holds ir inputs' cx' (C_Enum j vals negate (inversed \<noteq> b)) \<longleftrightarrow> cond_holds ir inputs cx c"
    using normalize_values_inverse [OF ir_closedD(2,4) [OF closed n]] C_Enum e(1) i
    by (auto simp: val_inverse_def split: val.splits)
  then show ?thesis using C_Enum j i(1) e(2) by simp
next
  case (C_CmpCode i rhs op)
  then have i: "i \<in> I" "i < length inputs" "input_enum ir inputs i = None" using c by auto
  have "\<not> snd (ad_input ad i)" using adaptsD(3) [OF ad i(1,2)] i(3) by auto
  then have "ctx_input cx i = ctx_input cx' (fst (ad_input ad i))"
    using adaptsD(4) [OF ad i(1,2)] by (auto simp: val_inverse_def split: val.splits)
  moreover have "ctx_num cx' (code_adapt ad rhs) = ctx_num cx rhs" using ad by (simp add: adapts_def)
  ultimately show ?thesis
    using C_CmpCode \<open>\<not> snd (ad_input ad i)\<close> adaptsD(1,2) [OF ad i(1,2)] i(3)
    by (auto simp: case_prod_unfold Let_def split: val.splits)
next
  case (C_CmpInput l r op inversed)
  then have lr: "l \<in> I" "l < length inputs" "r \<in> I" "r < length inputs"
    "input_enum ir inputs l = input_enum ir inputs r" using c by auto
  obtain l' a where l: "ad_input ad l = (l', a)" by fastforce
  obtain r' b where r: "ad_input ad r = (r', b)" by fastforce
  let ?c' = "C_CmpInput l' r' op ((inversed \<noteq> a) \<noteq> b)"
  have L: "l' < length inputs'" "input_enum ir inputs' l' = input_enum ir inputs l" "a \<longrightarrow> input_enum ir inputs l \<noteq> None"
    "ctx_input cx l = val_inverse a (input_enum ir inputs l) (ctx_input cx' l')"
    using adaptsD [OF ad lr(1,2)] l by auto
  have R: "r' < length inputs'" "input_enum ir inputs' r' = input_enum ir inputs l" "b \<longrightarrow> input_enum ir inputs l \<noteq> None"
    "ctx_input cx r = val_inverse b (input_enum ir inputs l) (ctx_input cx' r')"
    using adaptsD [OF ad lr(3,4)] lr(5) r by auto
  have "cond_holds ir inputs' cx' ?c' \<longleftrightarrow> cond_holds ir inputs cx c"
  proof (cases "input_enum ir inputs l")
    case None
    then show ?thesis using L R C_CmpInput c(1) by (auto simp: val_inverse_def split: val.splits)
  next
    case (Some e)
    then have op: "op = Eq \<or> op = Neq" using C_CmpInput c(1) by auto
    obtain n where n: "get_enum ir n = Some e" using input_enum_get [OF Some] by blast
    note wf = ir_closedD(2) [OF closed n]
    have "inverse_if ((inversed \<noteq> a) \<noteq> b) (Some e) x = y \<longleftrightarrow>
        inverse_if inversed (Some e) (inverse_if a (Some e) x) = inverse_if b (Some e) y" for x y
    proof -
      have "((inversed \<noteq> a) \<noteq> b) = (b \<noteq> (inversed \<noteq> a))" by auto
      then show ?thesis
        using inverse_if_twice [OF wf, of b "inversed \<noteq> a" x] inverse_if_twice [OF wf, of inversed a x]
          inverse_if_eq_iff [OF wf, of b "inverse_if (inversed \<noteq> a) (Some e) x" y] by simp
    qed
    then show ?thesis using op L R Some C_CmpInput
      by (auto simp: val_inverse_def split: val.splits)
  qed
  moreover have "cond_typed ir inputs' ?c'" using c(1) C_CmpInput L R by (auto split: if_splits)
  ultimately show ?thesis using C_CmpInput l r by simp
qed (use ad in \<open>auto simp: adapts_def\<close>)

lemma conds_adapt_sound:
  assumes "ir_closed ir" "adapts ir I inputs inputs' ad cx cx'"
    "\<forall>c\<in>set cs. cond_typed ir inputs c \<and> cond_inputs c \<subseteq> I"
  shows "\<exists>cs'. those (map (cond_adapt ad) cs) = Some cs'
    \<and> list_all2 (\<lambda>c c'. cond_typed ir inputs' c' \<and> (cond_holds ir inputs' cx' c' \<longleftrightarrow> cond_holds ir inputs cx c)) cs cs'"
  using assms(3)
proof (induction cs)
  case (Cons c cs)
  then show ?case using cond_adapt_sound [OF assms(1,2), of c] by fastforce
qed simp

text \<open>The inputs that a set of values refers to, and their types.\<close>

fun vs_typed :: "ir_desc \<Rightarrow> choice_instance list \<Rightarrow> nat set \<Rightarrow> value_set \<Rightarrow> bool" where
  "vs_typed ir inputs I (VS_Enum n vals ins) \<longleftrightarrow>
     (case get_enum ir n of None \<Rightarrow> False
      | Some e \<Rightarrow> \<forall>t |\<in>| ins. fst t \<in> I \<and> input_enum ir inputs (fst t) = Some e)"
| "vs_typed ir inputs I (VS_Integer full ins code' u) \<longleftrightarrow>
     (\<forall>p |\<in>| ins. snd p \<in> I \<and> snd p < length inputs \<and> input_enum ir inputs (snd p) = None)"

lemma vs_adapt_sound:
  assumes closed: "ir_closed ir" and ad: "adapts ir I inputs inputs' ad cx cx'" and s: "vs_typed ir inputs I s"
  shows "\<exists>s'. vs_adapt ad s = Some s' \<and> same_kind s s' \<and> (\<forall>v. vs_member ir cx' s' v \<longleftrightarrow> vs_member ir cx s v)
    \<and> (is_VS_Enum s \<longrightarrow> vs_enum_name s' = vs_enum_name s \<and> vs_values s' = vs_values s)
    \<and> vs_typed ir inputs' UNIV s'"
proof (cases s)
  case (VS_Enum n vals ins)
  then obtain e where e: "get_enum ir n = Some e" "\<forall>t |\<in>| ins. fst t \<in> I \<and> input_enum ir inputs (fst t) = Some e"
    using s by (auto split: option.splits)
  let ?f = "\<lambda>(input, negate, i). (fst (ad_input ad input), negate, i \<noteq> snd (ad_input ad input))"
  have mem: "input_member (Some e) cx' x (?f t) \<longleftrightarrow> input_member (Some e) cx x t" if t: "t |\<in>| ins" for t x
  proof -
    obtain i negate inversed where i: "t = (i, negate, inversed)" by (cases t)
    then have ie: "i \<in> I" "input_enum ir inputs i = Some e" using e(2) t by auto
    have "ctx_input cx i = val_inverse (snd (ad_input ad i)) (Some e) (ctx_input cx' (fst (ad_input ad i)))"
      using adaptsD(4) [OF ad ie(1) input_enum_length [OF ie(2)]] ie(2) by simp
    then show ?thesis
      using i inverse_if_twice [OF ir_closedD(2) [OF closed e(1)], of inversed "snd (ad_input ad i)"]
      by (auto simp: input_member_def val_inverse_def split: val.splits)
  qed
  have "vs_member ir cx' (VS_Enum n vals (?f |`| ins)) v \<longleftrightarrow> vs_member ir cx s v" for v
    using mem VS_Enum e(1) by (cases v) auto
  moreover have "\<forall>t |\<in>| ?f |`| ins. input_enum ir inputs' (fst t) = Some e"
    using e(2) adaptsD(2) [OF ad] input_enum_length by fastforce
  ultimately show ?thesis using VS_Enum e(1) by simp
next
  case (VS_Integer full ins cs u)
  have i: "\<not> snd (ad_input ad (snd p))" "ctx_input cx (snd p) = ctx_input cx' (fst (ad_input ad (snd p)))"
    "input_enum ir inputs' (fst (ad_input ad (snd p))) = None" "fst (ad_input ad (snd p)) < length inputs'"
    if "p |\<in>| ins" for p
    using s that VS_Integer adaptsD [OF ad, of "snd p"] by (auto simp: val_inverse_def split: val.splits)
  have num: "ctx_num cx' (code_adapt ad c) = ctx_num cx c" for c using ad by (simp add: adapts_def)
  let ?s = "VS_Integer full ((\<lambda>(op, input). (op, fst (ad_input ad input))) |`| ins)
      ((\<lambda>(op, c). (op, code_adapt ad c)) |`| cs) (vt_adapt ad u)"
  have "vs_adapt ad s = Some ?s" using i(1) VS_Integer by auto
  moreover have "vs_member ir cx' ?s v \<longleftrightarrow> vs_member ir cx s v" for v
  proof (cases v)
    case (IVal m)
    let ?Q = "\<lambda>cx p. case ctx_input cx (snd p) of EVal _ \<Rightarrow> False | IVal k \<Rightarrow> op_holds (fst p) m k"
    have "?Q cx' ((\<lambda>(op, input). (op, fst (ad_input ad input))) p) \<longleftrightarrow> ?Q cx p" if "p |\<in>| ins" for p
      using i(2) [OF that] by (cases p) (auto split: val.splits)
    then have "(\<exists>p |\<in>| (\<lambda>(op, input). (op, fst (ad_input ad input))) |`| ins. ?Q cx' p) \<longleftrightarrow> (\<exists>p |\<in>| ins. ?Q cx p)"
      by blast
    then show ?thesis using VS_Integer IVal num by (auto simp: case_prod_unfold)
  qed (use VS_Integer in simp)
  ultimately show ?thesis using VS_Integer i(3,4) by (auto simp: case_prod_unfold)
qed

section \<open>Alternatives of a condition\<close>

lemma cond_holds_negate:
  assumes "ir_closed ir" "cond_typed ir inputs c" "\<forall>i\<in>cond_inputs c. typed_val (input_enum ir inputs i) (ctx_input cx i)"
  shows "cond_holds ir inputs cx (cond_negate c) \<longleftrightarrow> \<not> cond_holds ir inputs cx c"
    and "cond_typed ir inputs (cond_negate c)" and "cond_inputs (cond_negate c) = cond_inputs c"
proof -
  show "cond_holds ir inputs cx (cond_negate c) \<longleftrightarrow> \<not> cond_holds ir inputs cx c"
  proof (cases c)
    case (C_Enum i vals negate inversed)
    then obtain e x where "input_enum ir inputs i = Some e" "ctx_input cx i = EVal x" "x \<in> set (enum_keys e)"
      using assms(2,3) by (auto simp: typed_val_def split: option.splits)
    moreover obtain n where n: "get_enum ir n = Some e" using input_enum_get [OF calculation(1)] by blast
    ultimately show ?thesis
      using C_Enum assms(2) ir_closedD(4) [OF assms(1) n]
      by (auto simp: normalize_values_def Let_def fset_of_list_elem)
  next
    case (C_CmpCode i rhs op)
    then show ?thesis using assms(2,3) by (auto simp: typed_val_def op_holds_negate)
  next
    case (C_CmpInput l r op inversed)
    then have eq: "input_enum ir inputs r = input_enum ir inputs l" using assms(2) by simp
    have typed: "typed_val (input_enum ir inputs l) (ctx_input cx l)" "typed_val (input_enum ir inputs l) (ctx_input cx r)"
      using assms(3) C_CmpInput eq by (metis cond_inputs.simps(3) insertCI)+
    show ?thesis
    proof (cases "input_enum ir inputs l")
      case None
      then show ?thesis using typed C_CmpInput by (auto simp: typed_val_def op_holds_negate)
    next
      case (Some e)
      then have "op = Eq \<or> op = Neq" using assms(2) C_CmpInput by auto
      then show ?thesis using typed C_CmpInput Some by (auto simp: typed_val_def)
    qed
  qed auto
  show "cond_typed ir inputs (cond_negate c)" using assms(2) by (cases c) (auto split: if_splits)
  show "cond_inputs (cond_negate c) = cond_inputs c" by (cases c) auto
qed

lemma from_input_sound:
  assumes closed: "ir_closed ir" and t: "case input_enum ir inputs j of Some e \<Rightarrow> t = VT_Enum (e_name e) | None \<Rightarrow> vt_as_enum t = None \<and> t \<noteq> VT_Range True \<and> t \<noteq> VT_Constant"
    and op: "if input_enum ir inputs j = None then \<not> inversed else op = Eq \<or> op = Neq"
    and typed: "typed_val (input_enum ir inputs j) v" "typed_val (input_enum ir inputs j) (ctx_input cx j)" "j < length inputs" "j \<in> I"
  shows "\<exists>s. vs_from_input t j op inversed = Some s \<and> vs_typed ir inputs I s \<and> vs_t s = vt_full_type t
    \<and> (vs_member ir cx s v \<longleftrightarrow>
        (case (v, ctx_input cx j) of
           (IVal a, IVal b) \<Rightarrow> op_holds op a b
         | (EVal a, EVal b) \<Rightarrow> op_holds_enum op (inverse_if inversed (input_enum ir inputs j) a) b
         | _ \<Rightarrow> False))"
proof (cases "input_enum ir inputs j")
  case None
  then obtain a b where "v = IVal a" "ctx_input cx j = IVal b" using typed by (auto simp: typed_val_def)
  then show ?thesis using None t op typed(3,4) by (cases t) auto
next
  case (Some e)
  then obtain x y where x: "v = EVal x" "x \<in> set (enum_keys e)" "ctx_input cx j = EVal y"
    using typed by (auto simp: typed_val_def)
  obtain n where n: "get_enum ir n = Some e" using input_enum_get [OF Some] by blast
  have e: "get_enum ir (e_name e) = Some e" using ir_closedD(1) [OF closed n] n by simp
  have "x = inverse_if inversed (Some e) y \<longleftrightarrow> inverse_if inversed (Some e) x = y"
    using inverse_if_eq_iff [OF ir_closedD(2) [OF closed n]] by metis
  then show ?thesis using Some t op x e typed(4) by (auto simp: input_member_def)
qed

lemma from_properties_sound:
  assumes closed: "ir_closed ir" and t: "case en of Some e \<Rightarrow> t = VT_Enum (e_name e) \<and> get_enum ir (e_name e) = Some e | None \<Rightarrow> vt_as_enum t = None \<and> t \<noteq> VT_Constant"
    and op: "if en = None then \<not> inversed else op = Eq \<or> op = Neq" and typed: "typed_val en v"
  shows "\<exists>s. vs_from_properties t (op_allows_eq op) inversed ir = Some s \<and> vs_typed ir inputs I s \<and> vs_t s = vt_full_type t
    \<and> (vs_member ir cx s v \<longleftrightarrow>
        (case v of IVal a \<Rightarrow> op_holds op a a | EVal a \<Rightarrow> op_holds_enum op (inverse_if inversed en a) a))"
proof (cases en)
  case None
  then obtain a where "v = IVal a" using typed by (auto simp: typed_val_def)
  moreover have "op_allows_eq op \<longleftrightarrow> op_holds op a a" by (cases op) auto
  ultimately show ?thesis using None t op by (cases t) auto
next
  case (Some e)
  then obtain x where x: "v = EVal x" "x \<in> set (enum_keys e)" using typed by (auto simp: typed_val_def)
  show ?thesis
    using Some t op x
    by (cases inversed)
      (auto simp: normalized_enum_set_def vs_enum_values_def normalize_values_def fset_of_list_elem)
qed

text \<open>The type of the values of the input that the alternatives are computed for.\<close>

definition self_type :: "ir_desc \<Rightarrow> choice_instance list \<Rightarrow> nat \<Rightarrow> value_type \<Rightarrow> bool" where
  "self_type ir inputs self t \<longleftrightarrow> self < length inputs \<and> (case input_enum ir inputs self of
     Some e \<Rightarrow> t = VT_Enum (e_name e)
   | None \<Rightarrow> vt_as_enum t = None \<and> t \<noteq> VT_Range True \<and> t \<noteq> VT_Constant)"

definition ctx_types :: "ir_desc \<Rightarrow> choice_instance list \<Rightarrow> ctx \<Rightarrow> bool" where
  "ctx_types ir inputs cx \<longleftrightarrow> (\<forall>i<length inputs. typed_val (input_enum ir inputs i) (ctx_input cx i))"

lemma cond_inputs_length: "cond_typed ir inputs c \<Longrightarrow> i \<in> cond_inputs c \<Longrightarrow> i < length inputs"
  by (cases c) (auto dest: input_enum_length split: option.splits)

lemma alternatives_cmp_sound:
  assumes closed: "ir_closed ir" and self: "self_type ir inputs self t" and types: "ctx_types ir inputs cx"
    and c: "c = C_CmpInput l r op inversed" "cond_typed ir inputs c" "self = l \<or> self = r"
  shows "\<exists>s. alternatives_of ir self t c = Some (Some s) \<and> vs_typed ir inputs {i. i \<noteq> self} s \<and> vs_t s = vt_full_type t
    \<and> (vs_member ir cx s (ctx_input cx self) \<longleftrightarrow> cond_holds ir inputs cx c)"
proof -
  have lr: "l < length inputs" "r < length inputs" "input_enum ir inputs l = input_enum ir inputs r"
    "if input_enum ir inputs self = None then \<not> inversed else op = Eq \<or> op = Neq"
    using c by (auto split: if_splits)
  then have en: "input_enum ir inputs l = input_enum ir inputs self" "input_enum ir inputs r = input_enum ir inputs self"
    using c(3) by auto
  have typed: "typed_val (input_enum ir inputs self) (ctx_input cx l)" "typed_val (input_enum ir inputs self) (ctx_input cx r)"
    using types lr en unfolding ctx_types_def by metis+
  have "\<exists>n. get_enum ir n = Some e" if "input_enum ir inputs self = Some e" for e using input_enum_get [OF that] .
  then have named: "get_enum ir (e_name e) = Some e" if "input_enum ir inputs self = Some e" for e
    using ir_closedD(1) [OF closed] that by metis
  consider (both) "self = l" "self = r" | (left) "self = l" "self \<noteq> r" | (right) "self = r" "self \<noteq> l"
    using c(3) by blast
  then show ?thesis
  proof cases
    case both
    have "case input_enum ir inputs self of Some e \<Rightarrow> t = VT_Enum (e_name e) \<and> get_enum ir (e_name e) = Some e
        | None \<Rightarrow> vt_as_enum t = None \<and> t \<noteq> VT_Constant"
      using self named by (auto simp: self_type_def split: option.splits)
    from from_properties_sound [OF closed this lr(4) typed(1), of inputs "{i. i \<noteq> self}" cx]
    obtain s where s: "vs_from_properties t (op_allows_eq op) inversed ir = Some s" "vs_typed ir inputs {i. i \<noteq> self} s"
      "vs_t s = vt_full_type t" "vs_member ir cx s (ctx_input cx l) \<longleftrightarrow> (case ctx_input cx l of
         IVal a \<Rightarrow> op_holds op a a | EVal a \<Rightarrow> op_holds_enum op (inverse_if inversed (input_enum ir inputs self) a) a)"
      by blast
    have "cond_holds ir inputs cx c \<longleftrightarrow> vs_member ir cx s (ctx_input cx self)"
      unfolding c(1) both(1) [symmetric] both(2) [symmetric] s(4) [unfolded both(1) [symmetric]] by (simp split: val.splits)
    moreover have "alternatives_of ir self t c = Some (Some s)" using s(1) c(1) both by simp
    ultimately show ?thesis using s(2,3) by blast
  next
    case left
    have t: "case input_enum ir inputs r of Some e \<Rightarrow> t = VT_Enum (e_name e)
        | None \<Rightarrow> vt_as_enum t = None \<and> t \<noteq> VT_Range True \<and> t \<noteq> VT_Constant"
      using self unfolding self_type_def en by blast
    have op: "if input_enum ir inputs r = None then \<not> inversed else op = Eq \<or> op = Neq"
      using lr(4) unfolding en(2) .
    have typed': "typed_val (input_enum ir inputs r) (ctx_input cx self)" "typed_val (input_enum ir inputs r) (ctx_input cx r)"
      using typed unfolding en(2) left(1) [symmetric] by blast+
    obtain s where s: "vs_from_input t r op inversed = Some s" "vs_typed ir inputs {i. i \<noteq> self} s"
      "vs_t s = vt_full_type t" "vs_member ir cx s (ctx_input cx self) \<longleftrightarrow>
        (case (ctx_input cx self, ctx_input cx r) of
           (IVal a, IVal b) \<Rightarrow> op_holds op a b
         | (EVal a, EVal b) \<Rightarrow> op_holds_enum op (inverse_if inversed (input_enum ir inputs r) a) b
         | _ \<Rightarrow> False)"
      using from_input_sound [OF closed t op typed' lr(2), of "{i. i \<noteq> self}"] left(2) by auto
    have "alternatives_of ir self t c = Some (Some s)" using s(1) c(1) left by simp
    moreover have "cond_holds ir inputs cx c \<longleftrightarrow> vs_member ir cx s (ctx_input cx self)"
      unfolding left(1) c(1) cond_holds.simps lr(3) s(4) [unfolded left(1)] by (auto split: val.splits)
    ultimately show ?thesis using s(2,3) by blast
  next
    case right
    have t: "case input_enum ir inputs l of Some e \<Rightarrow> t = VT_Enum (e_name e)
        | None \<Rightarrow> vt_as_enum t = None \<and> t \<noteq> VT_Range True \<and> t \<noteq> VT_Constant"
      using self unfolding self_type_def en by blast
    have op: "if input_enum ir inputs l = None then \<not> inversed else op_inverse op = Eq \<or> op_inverse op = Neq"
      using lr(4) unfolding en(1) by (auto split: if_splits)
    have typed': "typed_val (input_enum ir inputs l) (ctx_input cx self)" "typed_val (input_enum ir inputs l) (ctx_input cx l)"
      using typed unfolding en(1) right(1) [symmetric] by blast+
    obtain s where s: "vs_from_input t l (op_inverse op) inversed = Some s" "vs_typed ir inputs {i. i \<noteq> self} s"
      "vs_t s = vt_full_type t" "vs_member ir cx s (ctx_input cx self) \<longleftrightarrow>
        (case (ctx_input cx self, ctx_input cx l) of
           (IVal a, IVal b) \<Rightarrow> op_holds (op_inverse op) a b
         | (EVal a, EVal b) \<Rightarrow> op_holds_enum (op_inverse op) (inverse_if inversed (input_enum ir inputs l) a) b
         | _ \<Rightarrow> False)"
      using from_input_sound [OF closed t op typed' lr(1), of "{i. i \<noteq> self}"] right(2) by auto
    have "inverse_if inversed (input_enum ir inputs l) a = b \<longleftrightarrow> inverse_if inversed (input_enum ir inputs l) b = a" for a b
    proof (cases "input_enum ir inputs l")
      case (Some e)
      then have "get_enum ir (e_name e) = Some e" using named unfolding en(1) by blast
      then show ?thesis using inverse_if_eq_iff [OF ir_closedD(2) [OF closed]] Some by metis
    qed auto
    then have enum: "op_holds_enum (op_inverse op) (inverse_if inversed (input_enum ir inputs l) a) b \<longleftrightarrow>
        op_holds_enum op (inverse_if inversed (input_enum ir inputs l) b) a" for a b
      by (cases op) auto
    have "alternatives_of ir self t c = Some (Some s)" using s(1) c(1) right by simp
    moreover have "cond_holds ir inputs cx c \<longleftrightarrow> vs_member ir cx s (ctx_input cx self)"
      unfolding c(1) right(1) [symmetric] s(4) using enum op_holds_inverse by (simp split: val.splits)
    ultimately show ?thesis using s(2,3) by blast
  qed
qed

lemma alternatives_of_sound:
  assumes closed: "ir_closed ir" and self: "self_type ir inputs self t" and types: "ctx_types ir inputs cx"
    and c: "cond_typed ir inputs c"
  shows "\<exists>res. alternatives_of ir self t c = Some res \<and>
    (case res of None \<Rightarrow> self \<notin> cond_inputs c
     | Some s \<Rightarrow> vs_typed ir inputs {i. i \<noteq> self} s \<and> vs_t s = vt_full_type t
         \<and> (vs_member ir cx s (ctx_input cx self) \<longleftrightarrow> cond_holds ir inputs cx c))"
proof (cases "self \<in> cond_inputs c")
  case True
  show ?thesis
  proof (cases c)
    case (C_Enum i vals negate inversed)
    then obtain e where e: "input_enum ir inputs i = Some e" "self = i" "t = VT_Enum (e_name e)"
      using c self True by (auto simp: self_type_def split: option.splits)
    obtain n where "get_enum ir n = Some e" using input_enum_get [OF e(1)] by blast
    then have "get_enum ir (e_name e) = Some e" using ir_closedD(1) [OF closed] by metis
    moreover obtain x where "ctx_input cx i = EVal x"
      using types e(1) input_enum_length [OF e(1)] by (fastforce simp: ctx_types_def typed_val_def)
    ultimately show ?thesis
      using C_Enum e by (simp add: normalized_enum_set_def vs_enum_values_def)
  next
    case (C_CmpCode i rhs op)
    then have "i = self" "input_enum ir inputs i = None" "i < length inputs" using True c by auto
    moreover then obtain m where "ctx_input cx i = IVal m"
      using types by (fastforce simp: ctx_types_def typed_val_def)
    ultimately show ?thesis using C_CmpCode self by (auto simp: self_type_def)
  next
    case (C_CmpInput l r op inversed)
    then show ?thesis using alternatives_cmp_sound [OF closed self types C_CmpInput c] True by fastforce
  qed (use True in auto)
next
  case False
  then show ?thesis by (cases c) auto
qed

section \<open>Sets of a type\<close>

definition vs_fits :: "ir_desc \<Rightarrow> value_type \<Rightarrow> value_set \<Rightarrow> bool" where
  "vs_fits ir t s \<longleftrightarrow> (case s of
     VS_Enum n vals ins \<Rightarrow> t = VT_Enum n \<and> (\<exists>e. get_enum ir n = Some e \<and> fset vals \<subseteq> set (enum_keys e))
   | VS_Integer _ _ _ _ \<Rightarrow> vt_as_enum t = None)"

lemma normalize_values_keys:
  assumes "fset vals \<subseteq> set (enum_keys e)" "\<And>x. x \<in> set (enum_keys e) \<Longrightarrow> enum_inverse e x \<in> set (enum_keys e)"
  shows "fset (normalize_values vals negate inversed e) \<subseteq> set (enum_keys e)"
  using assms by (auto simp: normalize_values_def Let_def fset_of_list_elem split: if_splits)

lemma alternatives_fit:
  assumes "ir_closed ir" "self_type ir inputs self t" "cond_typed ir inputs c" "alternatives_of ir self t c = Some (Some s)"
  shows "vs_fits ir t s"
proof (cases t)
  case (VT_Enum n)
  then obtain e where e: "input_enum ir inputs self = Some e" "n = e_name e"
    using assms(2) by (auto simp: self_type_def split: option.splits)
  obtain m where "get_enum ir m = Some e" using input_enum_get [OF e(1)] by blast
  then have get: "get_enum ir n = Some e" using ir_closedD(1) [OF assms(1)] e(2) by metis
  note keys = ir_closedD(4) [OF assms(1) get]
  show ?thesis
  proof (cases c)
    case (C_Enum i vals negate inversed)
    then show ?thesis
      using assms(3,4) VT_Enum get e normalize_values_keys [of vals e negate inversed] keys
      by (auto simp: vs_fits_def normalized_enum_set_def vs_enum_values_def split: if_splits)
  next
    case (C_CmpCode i rhs op)
    then show ?thesis using assms(3,4) e(1) by (auto split: if_splits)
  next
    case (C_CmpInput l r op inversed)
    then show ?thesis
      using assms(4) VT_Enum get e
      by (auto simp: vs_fits_def normalized_enum_set_def vs_enum_values_def fset_of_list_elem normalize_values_def Let_def
          split: if_splits)
  qed (use assms(4) in auto)
next
  case VT_Constant
  then show ?thesis using assms(2) by (auto simp: self_type_def split: option.splits)
qed (use assms in \<open>cases c; auto simp: vs_fits_def self_type_def split: if_splits option.splits bind_splits\<close>)+

lemma fits_extend:
  assumes "vs_fits ir t s" "vs_fits ir t s'" "vs_typed ir inputs I s" "vs_typed ir inputs I s'"
  shows "\<exists>u. vs_extend s s' = Some u \<and> vs_fits ir t u \<and> vs_typed ir inputs I u
    \<and> (\<forall>v. vs_member ir cx u v \<longleftrightarrow> vs_member ir cx s v \<or> vs_member ir cx s' v)"
proof -
  obtain u where u: "vs_extend s s' = Some u" "\<forall>v. vs_member ir cx u v \<longleftrightarrow> vs_member ir cx s v \<or> vs_member ir cx s' v"
  proof (cases s)
    case (VS_Enum n vals ins)
    then obtain vals' ins' where "s' = VS_Enum n vals' ins'" using assms(1,2) by (cases s') (auto simp: vs_fits_def)
    then show ?thesis using that vs_extend_member [of s s' ir cx] VS_Enum by auto
  next
    case (VS_Integer full ins cs t')
    then obtain full' ins' cs' u' where "s' = VS_Integer full' ins' cs' u'" using assms(1,2) by (cases s') (auto simp: vs_fits_def)
    then have "\<exists>u. vs_extend s s' = Some u \<and> (\<forall>v. vs_member ir cx u v \<longleftrightarrow> vs_member ir cx s v \<or> vs_member ir cx s' v)"
      using VS_Integer by (auto split: val.splits)
    then show ?thesis using that by blast
  qed
  have "vs_fits ir t u" using u(1) assms(1,2) by (cases s; cases s') (auto simp: vs_fits_def split: if_splits)
  moreover have "vs_typed ir inputs I u"
    using u(1) assms by (cases s; cases s') (auto simp: vs_fits_def split: if_splits)
  ultimately show ?thesis using u by blast
qed

lemma fits_adapt:
  assumes "ir_closed ir" "adapts ir I inputs inputs' ad cx cx'" "vs_typed ir inputs I s" "vs_fits ir t s"
  shows "\<exists>s'. vs_adapt ad s = Some s' \<and> vs_fits ir t s' \<and> vs_typed ir inputs' UNIV s'
    \<and> (\<forall>v. vs_member ir cx' s' v \<longleftrightarrow> vs_member ir cx s v)"
proof -
  obtain s' where s': "vs_adapt ad s = Some s'" "same_kind s s'" "\<forall>v. vs_member ir cx' s' v \<longleftrightarrow> vs_member ir cx s v"
    "is_VS_Enum s \<longrightarrow> vs_enum_name s' = vs_enum_name s \<and> vs_values s' = vs_values s" "vs_typed ir inputs' UNIV s'"
    using vs_adapt_sound [OF assms(1-3)] by blast
  have "vs_fits ir t s'" using s'(2,4) assms(4) by (cases s; cases s') (auto simp: vs_fits_def)
  then show ?thesis using s' by blast
qed

text \<open>The conditions on the input are gathered in one set, the others are renamed.\<close>

lemma split_conditions_sound:
  assumes closed: "ir_closed ir" and self: "self_type ir inputs self t" and types: "ctx_types ir inputs cx"
    and ad: "adapts ir {i. i \<noteq> self} inputs inputs' ad cx cx'" and cs: "\<forall>c\<in>set cs. cond_typed ir inputs c"
    and s: "vs_fits ir t s" "vs_typed ir inputs' UNIV s"
  shows "\<exists>s' others. split_conditions ir self t ad cs s = Some (s', others) \<and> vs_fits ir t s' \<and> vs_typed ir inputs' UNIV s'
    \<and> (\<forall>c\<in>set others. cond_typed ir inputs' c)
    \<and> (vs_member ir cx' s' (ctx_input cx self) \<or> (\<exists>c\<in>set others. cond_holds ir inputs' cx' c)
       \<longleftrightarrow> vs_member ir cx' s (ctx_input cx self) \<or> (\<exists>c\<in>set cs. cond_holds ir inputs cx c))"
  using cs s
proof (induction cs arbitrary: s)
  case (Cons c cs)
  have c: "cond_typed ir inputs c" and cs: "\<forall>c\<in>set cs. cond_typed ir inputs c" using Cons.prems(1) by auto
  obtain res where res: "alternatives_of ir self t c = Some res"
    "case res of None \<Rightarrow> self \<notin> cond_inputs c
     | Some s \<Rightarrow> vs_typed ir inputs {i. i \<noteq> self} s \<and> vs_t s = vt_full_type t
         \<and> (vs_member ir cx s (ctx_input cx self) \<longleftrightarrow> cond_holds ir inputs cx c)"
    using alternatives_of_sound [OF closed self types c] by blast
  show ?case
  proof (cases res)
    case None
    have "cond_inputs c \<subseteq> {i. i \<noteq> self}" using res(2) None by auto
    then obtain c' where c': "cond_adapt ad c = Some c'" "cond_typed ir inputs' c'"
      "cond_holds ir inputs' cx' c' \<longleftrightarrow> cond_holds ir inputs cx c"
      using cond_adapt_sound [OF closed ad c] by blast
    obtain s' others where IH: "split_conditions ir self t ad cs s = Some (s', others)" "vs_fits ir t s'"
      "vs_typed ir inputs' UNIV s'" "\<forall>c\<in>set others. cond_typed ir inputs' c"
      "vs_member ir cx' s' (ctx_input cx self) \<or> (\<exists>c\<in>set others. cond_holds ir inputs' cx' c)
       \<longleftrightarrow> vs_member ir cx' s (ctx_input cx self) \<or> (\<exists>c\<in>set cs. cond_holds ir inputs cx c)"
      using Cons.IH [OF cs Cons.prems(2,3)] by blast
    have "split_conditions ir self t ad (c # cs) s = Some (s', c' # others)" using res(1) None c'(1) IH(1) by simp
    moreover have "vs_member ir cx' s' (ctx_input cx self) \<or> (\<exists>c\<in>set (c' # others). cond_holds ir inputs' cx' c)
       \<longleftrightarrow> vs_member ir cx' s (ctx_input cx self) \<or> (\<exists>c\<in>set (c # cs). cond_holds ir inputs cx c)"
      using IH(5) c'(3) by auto
    ultimately show ?thesis using c'(2) IH(2-4) by (metis set_ConsD)
  next
    case (Some alts)
    have alts: "vs_typed ir inputs {i. i \<noteq> self} alts"
      "vs_member ir cx alts (ctx_input cx self) \<longleftrightarrow> cond_holds ir inputs cx c"
      using res(2) Some by auto
    obtain a where a: "vs_adapt ad alts = Some a" "vs_fits ir t a" "vs_typed ir inputs' UNIV a"
      "\<forall>v. vs_member ir cx' a v \<longleftrightarrow> vs_member ir cx alts v"
      using fits_adapt [OF closed ad alts(1) alternatives_fit [OF closed self c]] res(1) Some by blast
    obtain u where u: "vs_extend s a = Some u" "vs_fits ir t u" "vs_typed ir inputs' UNIV u"
      "\<forall>v. vs_member ir cx' u v \<longleftrightarrow> vs_member ir cx' s v \<or> vs_member ir cx' a v"
      using fits_extend [OF Cons.prems(2) a(2) Cons.prems(3) a(3)] by blast
    have step: "split_conditions ir self t ad (c # cs) s = split_conditions ir self t ad cs u"
      using res(1) Some a(1) u(1) by simp
    have "vs_member ir cx' s (ctx_input cx self) \<or> (\<exists>c\<in>set (c # cs). cond_holds ir inputs cx c)
       \<longleftrightarrow> vs_member ir cx' u (ctx_input cx self) \<or> (\<exists>c\<in>set cs. cond_holds ir inputs cx c)"
      using u(4) a(4) alts(2) by auto
    then show ?thesis unfolding step using Cons.IH [OF cs u(2,3)] by simp
  qed
qed auto

end
