(* ===== verification/Constraint_Correct.thy ===== *)
theory Constraint_Correct
  imports Filter_Semantics
begin

text \<open>
  Correctness of the translation of constraints (\<^verbatim>\<open>telamon-gen/src/constraint.rs\<close>): removing the duplicates among the inputs
  keeps a constraint, and the filter generated for an input allows exactly the values that satisfy it.
\<close>

section \<open>Valuations of choice instances\<close>

definition choice_enum :: "ir_desc \<Rightarrow> string \<Rightarrow> enum_def option" where
  "choice_enum ir name = do { c \<leftarrow> get_choice ir name; n \<leftarrow> cd_as_enum (c_choice_def c); get_enum ir n }"

lemma input_enum_choice_enum: "i < length inputs \<Longrightarrow> input_enum ir inputs i = choice_enum ir (ci_choice (inputs ! i))"
  by (simp add: input_enum_def choice_enum_def)

text \<open>An instance is applied to the right number of arguments, and only enum choices are antisymmetric.\<close>

definition ci_ok :: "ir_desc \<Rightarrow> choice_instance \<Rightarrow> bool" where
  "ci_ok ir ci \<longleftrightarrow> (case get_choice ir (ci_choice ci) of None \<Rightarrow> False
     | Some c \<Rightarrow> (case c_arguments c of Plain _ \<Rightarrow> True
         | Symmetric _ _ inversed \<Rightarrow> length (ci_vars ci) = 2 \<and> (inversed \<longrightarrow> choice_enum ir (ci_choice ci) \<noteq> None)))"

text \<open>A valuation gives an instance and its normal form the same value, up to the inverse.\<close>

definition val_respects :: "ir_desc \<Rightarrow> (choice_instance \<Rightarrow> val) \<Rightarrow> bool" where
  "val_respects ir val \<longleftrightarrow> (\<forall>ci b ci'. ci_normalize ir ci = Some (b, ci') \<longrightarrow>
     val ci = val_inverse b (choice_enum ir (ci_choice ci)) (val ci'))"

definition inst_ctx ::
  "(choice_instance \<Rightarrow> val) \<Rightarrow> (code \<Rightarrow> bool) \<Rightarrow> (code \<Rightarrow> int) \<Rightarrow> (variable \<Rightarrow> ir_set) \<Rightarrow> choice_instance list \<Rightarrow> ctx" where
  "inst_ctx val codes nums sets inputs =
     \<lparr>ctx_input = (\<lambda>i. val (inputs ! i)), ctx_code = codes, ctx_num = nums, ctx_sets = sets\<rparr>"

lemma inst_ctx_simps [simp]:
  "ctx_input (inst_ctx val codes nums sets inputs) = (\<lambda>i. val (inputs ! i))"
  "ctx_code (inst_ctx val codes nums sets inputs) = codes" "ctx_num (inst_ctx val codes nums sets inputs) = nums"
  "ctx_sets (inst_ctx val codes nums sets inputs) = sets"
  by (simp_all add: inst_ctx_def)

lemma ci_normalize_ok:
  assumes "ci_ok ir ci"
  shows "\<exists>b ci'. ci_normalize ir ci = Some (b, ci') \<and> ci_choice ci' = ci_choice ci \<and> ci_ok ir ci'
    \<and> (b \<longrightarrow> choice_enum ir (ci_choice ci) \<noteq> None)"
proof -
  obtain c where c: "get_choice ir (ci_choice ci) = Some c" using assms by (auto simp: ci_ok_def split: option.splits)
  show ?thesis
  proof (cases "c_arguments c")
    case (Symmetric names t inversed)
    then obtain v0 v1 where "ci_vars ci = [v0, v1]" "inversed \<longrightarrow> choice_enum ir (ci_choice ci) \<noteq> None"
      using assms c by (auto simp: ci_ok_def numeral_2_eq_2 length_Suc_conv)
    then show ?thesis using c Symmetric by (auto simp: ci_normalize_def ci_ok_def)
  qed (use c assms in \<open>auto simp: ci_normalize_def\<close>)
qed

lemma ad_input_set_inversed: "ad_input (ad_set_inversed ad p) i = (if i = p then (fst (ad_input ad p), True) else ad_input ad i)"
  by (simp add: ad_input_def ad_set_inversed_def)

lemma ad_input_set_input: "ad_input (ad_set_input ad p q) i = (if i = p then (q, snd (ad_input ad p)) else ad_input ad i)"
  by (simp add: ad_input_def ad_set_input_def)

lemma ad_variables_set [simp]:
  "ad_variables (ad_set_inversed ad p) = ad_variables ad" "ad_variables (ad_set_input ad p q) = ad_variables ad"
  by (simp_all add: ad_set_inversed_def ad_set_input_def)

lemma code_adapt_id: "ad_variables ad = Map.empty \<Longrightarrow> code_adapt ad c = c"
  by (simp add: code_adapt_def ad_variable_def case_prod_unfold)

lemma normalize_inputs_spec:
  assumes "\<forall>ci\<in>set cis. ci_ok ir ci" "\<forall>i\<ge>pos. ad_input ad i = (i, False)"
  shows "\<exists>cis' ad'. normalize_inputs ir pos cis ad = Some (cis', ad') \<and> length cis' = length cis
    \<and> ad_variables ad' = ad_variables ad \<and> (\<forall>ci\<in>set cis'. ci_ok ir ci)
    \<and> (\<forall>i<pos. ad_input ad' i = ad_input ad i)
    \<and> (\<forall>j<length cis. \<exists>b. ci_normalize ir (cis ! j) = Some (b, cis' ! j) \<and> ci_choice (cis' ! j) = ci_choice (cis ! j)
         \<and> ad_input ad' (pos + j) = (pos + j, b) \<and> (b \<longrightarrow> choice_enum ir (ci_choice (cis ! j)) \<noteq> None))"
  using assms
proof (induction cis arbitrary: pos ad)
  case (Cons ci cis)
  obtain b ci' where ci: "ci_normalize ir ci = Some (b, ci')" "ci_choice ci' = ci_choice ci" "ci_ok ir ci'"
    "b \<longrightarrow> choice_enum ir (ci_choice ci) \<noteq> None"
    using ci_normalize_ok [of ir ci] Cons.prems(1) by auto
  let ?ad = "if b then ad_set_inversed ad pos else ad"
  have at: "ad_input ?ad pos = (pos, b)" "\<And>i. i \<noteq> pos \<Longrightarrow> ad_input ?ad i = ad_input ad i"
    using Cons.prems(2) by (auto simp: ad_input_set_inversed)
  obtain cis' ad' where IH: "normalize_inputs ir (Suc pos) cis ?ad = Some (cis', ad')" "length cis' = length cis"
    "ad_variables ad' = ad_variables ?ad" "\<forall>ci\<in>set cis'. ci_ok ir ci" "\<forall>i<Suc pos. ad_input ad' i = ad_input ?ad i"
    "\<forall>j<length cis. \<exists>b. ci_normalize ir (cis ! j) = Some (b, cis' ! j) \<and> ci_choice (cis' ! j) = ci_choice (cis ! j)
         \<and> ad_input ad' (Suc pos + j) = (Suc pos + j, b) \<and> (b \<longrightarrow> choice_enum ir (ci_choice (cis ! j)) \<noteq> None)"
    using Cons.IH [of "Suc pos" ?ad] Cons.prems at(2) by auto
  have head: "ad_input ad' pos = (pos, b)" using IH(5) at(1) by simp
  have "\<exists>b. ci_normalize ir ((ci # cis) ! j) = Some (b, (ci' # cis') ! j) \<and> ci_choice ((ci' # cis') ! j) = ci_choice ((ci # cis) ! j)
         \<and> ad_input ad' (pos + j) = (pos + j, b) \<and> (b \<longrightarrow> choice_enum ir (ci_choice ((ci # cis) ! j)) \<noteq> None)"
    if "j < length (ci # cis)" for j
    using that IH(6) ci head by (cases j) auto
  moreover have "\<forall>i<pos. ad_input ad' i = ad_input ad i" using IH(5) at(2) by auto
  ultimately show ?case using ci(1,3) IH(1-4) by simp
qed simp

text \<open>Normalising the inputs relates the contexts of one valuation.\<close>

lemma normalize_inputs_adapts:
  assumes "\<forall>ci\<in>set cis. ci_ok ir ci" "val_respects ir val"
  shows "\<exists>cis' ad. normalize_inputs ir 0 cis ad_default = Some (cis', ad) \<and> length cis' = length cis
    \<and> ad_variables ad = Map.empty \<and> (\<forall>ci\<in>set cis'. ci_ok ir ci)
    \<and> adapts ir UNIV cis cis' ad (inst_ctx val codes nums sets cis) (inst_ctx val codes nums sets cis')"
proof -
  have "\<forall>i\<ge>0. ad_input ad_default i = (i, False)" by (simp add: ad_input_def ad_default_def)
  then obtain cis' ad where n: "normalize_inputs ir 0 cis ad_default = Some (cis', ad)" "length cis' = length cis"
    "ad_variables ad = Map.empty" "\<forall>ci\<in>set cis'. ci_ok ir ci"
    "\<forall>j<length cis. \<exists>b. ci_normalize ir (cis ! j) = Some (b, cis' ! j) \<and> ci_choice (cis' ! j) = ci_choice (cis ! j)
         \<and> ad_input ad j = (j, b) \<and> (b \<longrightarrow> choice_enum ir (ci_choice (cis ! j)) \<noteq> None)"
    using normalize_inputs_spec [OF assms(1), of 0 ad_default] by (auto simp: ad_default_def)
  have "fst (ad_input ad i) < length cis' \<and> input_enum ir cis' (fst (ad_input ad i)) = input_enum ir cis i
      \<and> (snd (ad_input ad i) \<longrightarrow> input_enum ir cis i \<noteq> None)
      \<and> val (cis ! i) = val_inverse (snd (ad_input ad i)) (input_enum ir cis i) (val (cis' ! fst (ad_input ad i)))"
    if i: "i < length cis" for i
  proof -
    obtain b where "ci_normalize ir (cis ! i) = Some (b, cis' ! i)" "ci_choice (cis' ! i) = ci_choice (cis ! i)"
      "ad_input ad i = (i, b)" "b \<longrightarrow> choice_enum ir (ci_choice (cis ! i)) \<noteq> None"
      using n(5) i by blast
    then show ?thesis using assms(2) i n(2) by (simp add: val_respects_def input_enum_choice_enum)
  qed
  then show ?thesis using n(1-4) code_adapt_id [OF n(3)] by (simp add: adapts_def)
qed

lemma list_all2_truth:
  assumes "list_all2 (\<lambda>x y. T y \<and> (P y \<longleftrightarrow> Q x)) xs ys"
  shows "(\<forall>y\<in>set ys. P y) \<longleftrightarrow> (\<forall>x\<in>set xs. Q x)" "(\<exists>y\<in>set ys. P y) \<longleftrightarrow> (\<exists>x\<in>set xs. Q x)" "\<forall>y\<in>set ys. T y"
  using assms by (induction xs ys rule: list_all2_induct) auto

section \<open>Removing duplicate inputs\<close>

definition first_uses :: "'a list \<Rightarrow> 'a list \<Rightarrow> 'a list" where
  "first_uses ds xs = fold (\<lambda>x ds. if x \<in> set ds then ds else ds @ [x]) xs ds"

lemma first_uses_simps [simp]:
  "first_uses ds [] = ds"
  "first_uses ds (x # xs) = first_uses (if x \<in> set ds then ds else ds @ [x]) xs"
  by (simp_all add: first_uses_def)

lemma first_uses_distinct: "distinct ds \<Longrightarrow> distinct (first_uses ds xs)"
  by (induction xs arbitrary: ds) auto

lemma first_uses_extends: "\<exists>es. first_uses ds xs = ds @ es"
proof (induction xs arbitrary: ds)
  case (Cons x xs)
  show ?case using Cons [of "ds @ [x]"] Cons [of ds] by auto
qed simp

lemma first_uses_nth: "p < length ds \<Longrightarrow> p < length (first_uses ds xs) \<and> first_uses ds xs ! p = ds ! p"
  using first_uses_extends [of ds xs] by (auto simp: nth_append)

lemma set_first_uses: "set (first_uses ds xs) = set ds \<union> set xs"
  by (induction xs arbitrary: ds) auto

lemma positions_lookup:
  assumes "distinct ds"
  shows "case map_of (zip ds [0..<length ds]) x of
      Some p \<Rightarrow> p < length ds \<and> ds ! p = x | None \<Rightarrow> x \<notin> set ds"
proof (cases "map_of (zip ds [0..<length ds]) x")
  case (Some p)
  then have "(x, p) \<in> set (zip ds [0..<length ds])" by (rule map_of_SomeD)
  then show ?thesis using Some by (auto simp: in_set_zip)
next
  case None
  then have "x \<notin> set ds" using map_of_zip_is_None [of ds "[0..<length ds]"] by simp
  then show ?thesis unfolding None by simp
qed

lemma assign_positions_spec:
  fixes pos :: nat and xs :: "choice_instance list" and ad :: adaptator
  assumes "distinct ds"
  defines "ad' \<equiv> assign_positions pos xs (zip ds [0..<length ds]) ad"
  shows "ad_variables ad' = ad_variables ad"
    and "i < pos \<Longrightarrow> ad_input ad' i = ad_input ad i"
    and "j < length xs \<Longrightarrow> fst (ad_input ad' (pos + j)) < length (first_uses ds xs)
      \<and> first_uses ds xs ! fst (ad_input ad' (pos + j)) = xs ! j \<and> snd (ad_input ad' (pos + j)) = snd (ad_input ad (pos + j))"
proof -
  have "ad_variables (assign_positions pos xs (zip ds [0..<length ds]) ad) = ad_variables ad
    \<and> (\<forall>i<pos. ad_input (assign_positions pos xs (zip ds [0..<length ds]) ad) i = ad_input ad i)
    \<and> (\<forall>j<length xs. fst (ad_input (assign_positions pos xs (zip ds [0..<length ds]) ad) (pos + j)) < length (first_uses ds xs)
      \<and> first_uses ds xs ! fst (ad_input (assign_positions pos xs (zip ds [0..<length ds]) ad) (pos + j)) = xs ! j
      \<and> snd (ad_input (assign_positions pos xs (zip ds [0..<length ds]) ad) (pos + j)) = snd (ad_input ad (pos + j)))"
    using assms(1)
  proof (induction xs arbitrary: pos ds ad)
    case (Cons x xs)
    define p where "p = (case map_of (zip ds [0..<length ds]) x of Some p \<Rightarrow> p | None \<Rightarrow> length ds)"
    define ds' where "ds' = (if x \<in> set ds then ds else ds @ [x])"
    have "p < length ds' \<and> ds' ! p = x"
    proof (cases "map_of (zip ds [0..<length ds]) x")
      case None
      then have "x \<notin> set ds" using positions_lookup [OF Cons.prems, of x] unfolding None by simp
      then show ?thesis unfolding p_def None by (simp add: ds'_def)
    next
      case (Some i)
      then have "i < length ds" "ds ! i = x" using positions_lookup [OF Cons.prems, of x] by auto
      then show ?thesis using Some nth_mem [of i ds] by (simp add: p_def ds'_def)
    qed
    then have p: "p < length ds'" "ds' ! p = x" by auto
    have zip: "zip (ds @ [x]) [0..<length (ds @ [x])] = zip ds [0..<length ds] @ [(x, length ds)]" by simp
    have step: "assign_positions pos (x # xs) (zip ds [0..<length ds]) ad
        = assign_positions (Suc pos) xs (zip ds' [0..<length ds']) (ad_set_input ad pos p)"
    proof (cases "map_of (zip ds [0..<length ds]) x")
      case None
      then have "x \<notin> set ds" using positions_lookup [OF Cons.prems, of x] unfolding None by simp
      then show ?thesis
        using zip unfolding assign_positions.simps p_def Let_def None by (simp add: ds'_def del: upt_Suc)
    next
      case (Some i)
      then have "x \<in> set ds" using positions_lookup [OF Cons.prems, of x] nth_mem [of i ds] by auto
      then show ?thesis unfolding assign_positions.simps p_def Let_def Some by (simp add: ds'_def)
    qed
    have d: "distinct ds'" using Cons.prems by (simp add: ds'_def)
    note IH = Cons.IH [OF d, of "Suc pos" "ad_set_input ad pos p"]
    have fu: "first_uses ds (x # xs) = first_uses ds' xs" by (simp add: ds'_def)
    show ?case
    proof (intro conjI allI impI)
      show "ad_variables (assign_positions pos (x # xs) (zip ds [0..<length ds]) ad) = ad_variables ad"
        unfolding step using IH by simp
    next
      fix i assume "i < pos"
      then show "ad_input (assign_positions pos (x # xs) (zip ds [0..<length ds]) ad) i = ad_input ad i"
        unfolding step using IH by (simp add: ad_input_set_input)
    next
      fix j assume j: "j < length (x # xs)"
      have zero: "ad_input (assign_positions (Suc pos) xs (zip ds' [0..<length ds']) (ad_set_input ad pos p)) pos
          = (p, snd (ad_input ad pos))"
        using IH by (simp add: ad_input_set_input)
      have at: "fst (ad_input (assign_positions (Suc pos) xs (zip ds' [0..<length ds']) (ad_set_input ad pos p)) (pos + j))
            < length (first_uses ds' xs)
          \<and> first_uses ds' xs ! fst (ad_input (assign_positions (Suc pos) xs (zip ds' [0..<length ds']) (ad_set_input ad pos p)) (pos + j))
            = (x # xs) ! j
          \<and> snd (ad_input (assign_positions (Suc pos) xs (zip ds' [0..<length ds']) (ad_set_input ad pos p)) (pos + j))
            = snd (ad_input ad (pos + j))"
      proof (cases j)
        case 0
        then show ?thesis using zero p first_uses_nth [OF p(1), of xs] by simp
      next
        case (Suc k)
        then show ?thesis using IH j by (auto simp: ad_input_set_input)
      qed
      then show "fst (ad_input (assign_positions pos (x # xs) (zip ds [0..<length ds]) ad) (pos + j)) < length (first_uses ds (x # xs))"
        "first_uses ds (x # xs) ! fst (ad_input (assign_positions pos (x # xs) (zip ds [0..<length ds]) ad) (pos + j)) = (x # xs) ! j"
        "snd (ad_input (assign_positions pos (x # xs) (zip ds [0..<length ds]) ad) (pos + j)) = snd (ad_input ad (pos + j))"
        unfolding step fu by blast+
    qed
  qed simp
  then show "ad_variables ad' = ad_variables ad" "i < pos \<Longrightarrow> ad_input ad' i = ad_input ad i"
    "j < length xs \<Longrightarrow> fst (ad_input ad' (pos + j)) < length (first_uses ds xs)
      \<and> first_uses ds xs ! fst (ad_input ad' (pos + j)) = xs ! j \<and> snd (ad_input ad' (pos + j)) = snd (ad_input ad (pos + j))"
    by (simp_all add: ad'_def)
qed

lemma new_inputs_spec:
  assumes "distinct ds" "\<forall>j<length xs. fst (ad_input ad (pos + j)) < length (first_uses ds xs)
      \<and> first_uses ds xs ! fst (ad_input ad (pos + j)) = xs ! j"
  shows "new_inputs ad pos xs ds = first_uses ds xs"
  using assms
proof (induction xs arbitrary: pos ds)
  case (Cons x xs)
  define ds' where "ds' = (if x \<in> set ds then ds else ds @ [x])"
  have fu: "first_uses ds (x # xs) = first_uses ds' xs" by (simp add: ds'_def)
  have d: "distinct ds'" "distinct (first_uses ds' xs)" using Cons.prems(1) first_uses_distinct by (auto simp: ds'_def)
  obtain q where q: "q < length ds'" "ds' ! q = x" "q = length ds \<longleftrightarrow> x \<notin> set ds"
  proof (cases "x \<in> set ds")
    case True
    then obtain i where "i < length ds" "ds ! i = x" by (auto simp: in_set_conv_nth)
    then show ?thesis using that [of i] True by (simp add: ds'_def)
  qed (use that [of "length ds"] in \<open>simp add: ds'_def\<close>)
  have "fst (ad_input ad pos) < length (first_uses ds' xs)" "first_uses ds' xs ! fst (ad_input ad pos) = x"
    using Cons.prems(2) [unfolded fu, rule_format, of 0] by simp_all
  then have "fst (ad_input ad pos) = q"
    using first_uses_nth [OF q(1), of xs] q(2) nth_eq_iff_index_eq [OF d(2), of _ q] by metis
  then have "(if fst (ad_input ad pos) = length ds then ds @ [x] else ds) = ds'" using q(3) by (simp add: ds'_def)
  moreover have "\<forall>j<length xs. fst (ad_input ad (Suc pos + j)) < length (first_uses ds' xs)
      \<and> first_uses ds' xs ! fst (ad_input ad (Suc pos + j)) = xs ! j"
    using Cons.prems(2) [unfolded fu] by (metis Suc_less_eq add_Suc_shift length_Cons nth_Cons_Suc)
  ultimately show ?case using Cons.IH [OF d(1), of "Suc pos"] fu by simp
qed simp

text \<open>A constraint holds under a valuation when one of its conditions does.\<close>

definition constraint_holds ::
  "ir_desc \<Rightarrow> (choice_instance \<Rightarrow> val) \<Rightarrow> (code \<Rightarrow> bool) \<Rightarrow> (code \<Rightarrow> int) \<Rightarrow> (variable \<Rightarrow> ir_set) \<Rightarrow> ir_constraint \<Rightarrow> bool" where
  "constraint_holds ir val codes nums sets co \<longleftrightarrow> (\<exists>c\<in>set (co_conditions co).
     cond_holds ir (co_inputs co) (inst_ctx val codes nums sets (co_inputs co)) c)"

definition constraint_ok :: "ir_desc \<Rightarrow> ir_constraint \<Rightarrow> bool" where
  "constraint_ok ir co \<longleftrightarrow> (\<forall>ci\<in>set (co_inputs co). ci_ok ir ci) \<and> (\<forall>c\<in>set (co_conditions co). cond_typed ir (co_inputs co) c)"

lemma adapts_trans_positions:
  assumes "adapts ir UNIV xs ys ad cx cx1" "length ys = length xs" "\<forall>i<length xs. fst (ad_input ad i) = i"
    "\<forall>i<length xs. fst (ad_input ad' i) < length zs \<and> zs ! fst (ad_input ad' i) = ys ! i \<and> snd (ad_input ad' i) = snd (ad_input ad i)"
    "\<forall>i<length xs. ctx_input cx' (fst (ad_input ad' i)) = ctx_input cx1 i"
    "ctx_code cx' = ctx_code cx1" "ctx_num cx' = ctx_num cx1" "ad_variables ad' = ad_variables ad"
  shows "adapts ir UNIV xs zs ad' cx cx'"
proof -
  have "code_adapt ad' c = code_adapt ad c" for c using assms(8) by (simp add: code_adapt_def ad_variable_def)
  moreover have "input_enum ir zs (fst (ad_input ad' i)) = input_enum ir ys i" if "i < length xs" for i
    using that assms(2,4) by (simp add: input_enum_choice_enum)
  ultimately show ?thesis using assms unfolding adapts_def by auto
qed

lemma dedup_inputs_spec:
  assumes "\<forall>ci\<in>set xs. ci_ok ir ci" "val_respects ir val"
  shows "\<exists>zs ad. dedup_inputs xs ir = Some (zs, ad) \<and> distinct zs \<and> (\<forall>ci\<in>set zs. ci_ok ir ci)
    \<and> ad_variables ad = Map.empty
    \<and> adapts ir UNIV xs zs ad (inst_ctx val codes nums sets xs) (inst_ctx val codes nums sets zs)"
proof -
  have default: "\<forall>i\<ge>0. ad_input ad_default i = (i, False)" by (simp add: ad_input_def ad_default_def)
  obtain ys ad where ys: "normalize_inputs ir 0 xs ad_default = Some (ys, ad)" "length ys = length xs"
    "ad_variables ad = Map.empty" "\<forall>ci\<in>set ys. ci_ok ir ci"
    "adapts ir UNIV xs ys ad (inst_ctx val codes nums sets xs) (inst_ctx val codes nums sets ys)"
    using normalize_inputs_adapts [OF assms] by blast
  have same: "\<forall>i<length xs. fst (ad_input ad i) = i"
    using normalize_inputs_spec [OF assms(1) default] ys(1) by fastforce
  define ad' where "ad' = assign_positions 0 ys [] ad"
  have pos: "ad_variables ad' = ad_variables ad" "\<And>j. j < length ys \<Longrightarrow> fst (ad_input ad' j) < length (first_uses [] ys)
      \<and> first_uses [] ys ! fst (ad_input ad' j) = ys ! j \<and> snd (ad_input ad' j) = snd (ad_input ad j)"
    using assign_positions_spec(1,3) [where ds = "[]" and pos = 0 and xs = ys and ad = ad] by (simp_all add: ad'_def)
  have at: "\<forall>i<length xs. fst (ad_input ad' i) < length (first_uses [] ys)
      \<and> first_uses [] ys ! fst (ad_input ad' i) = ys ! i \<and> snd (ad_input ad' i) = snd (ad_input ad i)"
    using pos(2) ys(2) by simp
  have "new_inputs ad' 0 ys [] = first_uses [] ys" using new_inputs_spec [of "[]" ys ad' 0] at ys(2) by simp
  then have "dedup_inputs xs ir = Some (first_uses [] ys, ad')" using ys(1) by (simp add: dedup_inputs_def ad'_def Let_def)
  moreover have "adapts ir UNIV xs (first_uses [] ys) ad' (inst_ctx val codes nums sets xs)
      (inst_ctx val codes nums sets (first_uses [] ys))"
    using at by (intro adapts_trans_positions [OF ys(5,2) same at]) (simp_all add: pos(1))
  ultimately show ?thesis
    using first_uses_distinct [of "[]" ys] ys(3,4) pos(1) set_first_uses [of "[]" ys] by auto
qed

section \<open>The point of view of an input\<close>

lemma env_args_inputs: "env_args src n vars sc ad = Some (vars', sc', ad') \<Longrightarrow> ad_inputs ad' = ad_inputs ad"
  by (induction src n vars sc ad rule: env_args.induct) (auto simp: bind_eq_Some_conv ad_set_variable_def)

lemma env_foralls_inputs: "ad_inputs (env_foralls n vars ad) = ad_inputs ad"
  by (induction n vars ad rule: env_foralls.induct) (auto simp: ad_set_variable_def)

lemma adapt_env_inputs:
  assumes "adapt_env ir env ci = Some (foralls, sc, ad)"
  shows "ad_inputs ad = Map.empty"
proof -
  obtain afs ofs where "adapt_env_ext ir env ci = Some (afs, ofs, sc, ad)"
    using assms by (auto simp: adapt_env_def bind_eq_Some_conv)
  then show ?thesis
    by (auto simp: adapt_env_ext_def Let_def bind_eq_Some_conv env_foralls_inputs ad_default_def
        dest!: env_args_inputs split: if_splits)
qed

text \<open>The context of the constraint, with the value \<open>v\<close> for the input and the renamed instances for the
  others.\<close>

definition pov_ctx ::
  "adaptator \<Rightarrow> (choice_instance \<Rightarrow> val) \<Rightarrow> (code \<Rightarrow> bool) \<Rightarrow> (code \<Rightarrow> int) \<Rightarrow> (variable \<Rightarrow> ir_set)
    \<Rightarrow> choice_instance list \<Rightarrow> nat \<Rightarrow> val \<Rightarrow> ctx" where
  "pov_ctx ad val codes nums sets inputs self v =
     \<lparr>ctx_input = (\<lambda>i. if i = self then v else val (ci_adapt ad (inputs ! i))),
      ctx_code = codes \<circ> code_adapt ad, ctx_num = nums \<circ> code_adapt ad, ctx_sets = sets\<rparr>"

definition val_typed :: "ir_desc \<Rightarrow> (choice_instance \<Rightarrow> val) \<Rightarrow> bool" where
  "val_typed ir val \<longleftrightarrow> (\<forall>ci. ci_ok ir ci \<longrightarrow> typed_val (choice_enum ir (ci_choice ci)) (val ci))"

lemma ci_adapt_simps [simp]: "ci_choice (ci_adapt ad ci) = ci_choice ci" "ci_ok ir (ci_adapt ad ci) = ci_ok ir ci"
  by (auto simp: ci_adapt_def ci_ok_def split: option.splits choice_arguments.splits)

definition pov_adaptator :: "adaptator \<Rightarrow> nat \<Rightarrow> nat \<Rightarrow> adaptator" where
  "pov_adaptator ad n self = ad_set_input ad n self"

text \<open>Removing an input by swapping in the last one relates the contexts.\<close>

lemma swap_remove_adapts:
  assumes "swap_remove self inputs = Some (removed, rest)" "ad_inputs ad0 = Map.empty"
  defines "ad \<equiv> pov_adaptator ad0 (length rest) self"
  shows "adapts ir {i. i \<noteq> self} inputs (map (ci_adapt ad) rest) ad (pov_ctx ad val codes nums sets inputs self v)
    (inst_ctx val codes nums sets (map (ci_adapt ad) rest))"
proof -
  have self: "self < length inputs" "rest = butlast (inputs[self := last inputs])"
    using assms(1) by (auto simp: swap_remove_def split: if_splits)
  have len: "length rest = length inputs - 1" using self by simp
  have plain: "ad_input ad0 j = (j, False)" for j using assms(2) by (simp add: ad_input_def)
  have "fst (ad_input ad i) < length rest \<and> \<not> snd (ad_input ad i) \<and> rest ! fst (ad_input ad i) = inputs ! i"
    if "i \<noteq> self" "i < length inputs" for i
  proof (cases "i = length rest")
    case True
    then have "ad_input ad i = (self, False)" using plain by (simp add: ad_def pov_adaptator_def ad_input_set_input)
    moreover have "self < length rest" using that True len self(1) by simp
    moreover have "rest ! self = last inputs" using self \<open>self < length rest\<close> by (simp add: nth_butlast)
    moreover have "last inputs = inputs ! i" using True len last_conv_nth [of inputs] self(1) by force
    ultimately show ?thesis by simp
  next
    case False
    then have "ad_input ad i = (i, False)" using plain by (simp add: ad_def pov_adaptator_def ad_input_set_input)
    moreover have "i < length rest" using False that(2) len by simp
    ultimately show ?thesis using self(2) that(1) by (simp add: nth_butlast)
  qed
  then show ?thesis
    by (auto simp: adapts_def pov_ctx_def val_inverse_def input_enum_choice_enum split: val.splits)
qed

lemma vs_empty_fits:
  assumes "self_type ir inputs self t" "ir_closed ir"
  shows "\<exists>s. vs_empty t = Some s \<and> vs_fits ir t s \<and> vs_typed ir inputs' I s \<and> (\<forall>cx v. \<not> vs_member ir cx s v)"
proof (cases "input_enum ir inputs self")
  case None
  then show ?thesis using assms(1) by (cases t) (auto simp: self_type_def vs_fits_def split: val.splits)
next
  case (Some e)
  obtain n where n: "get_enum ir n = Some e" using input_enum_get [OF Some] by blast
  then have "get_enum ir (e_name e) = Some e" using ir_closedD(1) [OF assms(2) n] by simp
  then show ?thesis using assms(1) Some by (auto simp: self_type_def vs_fits_def split: val.splits)
qed

lemma self_type_choice:
  assumes "self < length inputs" "get_choice ir (ci_choice (inputs ! self)) = Some c" "ir_closed ir"
    "c_value_type c \<noteq> VT_Range True" "\<forall>n. c_choice_def c = CD_Enum n \<longrightarrow> get_enum ir n \<noteq> None"
  shows "self_type ir inputs self (vt_adapt ad (c_value_type c))"
proof (cases "c_choice_def c")
  case (CD_Enum n)
  then obtain e where e: "get_enum ir n = Some e" using assms(5) by blast
  then have "input_enum ir inputs self = Some e" using assms(1,2) CD_Enum by (simp add: input_enum_def)
  then show ?thesis using ir_closedD(1) [OF assms(3) e] CD_Enum assms(1) by (simp add: self_type_def c_value_type_def)
qed (use assms in \<open>auto simp: self_type_def c_value_type_def input_enum_def\<close>)

text \<open>The value types of the inputs, for the values that \<open>pov_ctx\<close> gives them.\<close>

lemma pov_ctx_types:
  assumes "\<forall>ci\<in>set inputs. ci_ok ir ci" "val_typed ir val" "self < length inputs"
    "typed_val (choice_enum ir (ci_choice (inputs ! self))) v"
  shows "ctx_types ir inputs (pov_ctx ad val codes nums sets inputs self v)"
  unfolding ctx_types_def
proof safe
  fix i assume i: "i < length inputs"
  then have "ci_ok ir (ci_adapt ad (inputs ! i))" using assms(1) by simp
  then have "typed_val (choice_enum ir (ci_choice (inputs ! i))) (val (ci_adapt ad (inputs ! i)))"
    using assms(2) unfolding val_typed_def by fastforce
  then show "typed_val (input_enum ir inputs i) (ctx_input (pov_ctx ad val codes nums sets inputs self v) i)"
    using i assms(4) by (simp add: input_enum_choice_enum pov_ctx_def)
qed

definition constraint_allows ::
  "ir_desc \<Rightarrow> adaptator \<Rightarrow> (choice_instance \<Rightarrow> val) \<Rightarrow> (code \<Rightarrow> bool) \<Rightarrow> (code \<Rightarrow> int) \<Rightarrow> (variable \<Rightarrow> ir_set) \<Rightarrow> ir_constraint \<Rightarrow> nat \<Rightarrow> val \<Rightarrow> bool" where
  "constraint_allows ir ad val codes nums sets co self v \<longleftrightarrow> (\<exists>c\<in>set (co_conditions co).
     cond_holds ir (co_inputs co) (pov_ctx ad val codes nums sets (co_inputs co) self v) c)"

lemma cc_new_sound:
  assumes closed: "ir_closed ir" and co: "constraint_ok ir co" and self: "self < length (co_inputs co)"
    and c: "get_choice ir (ci_choice (co_inputs co ! self)) = Some c" "c_value_type c \<noteq> VT_Range True"
      "\<forall>n. c_choice_def c = CD_Enum n \<longrightarrow> get_enum ir n \<noteq> None"
    and sw: "swap_remove self (co_inputs co) = Some (removed, rest)"
    and env: "adapt_env ir env removed = Some (foralls, sc, ad0)"
    and val: "val_typed ir val" "typed_val (choice_enum ir (ci_choice (co_inputs co ! self))) v"
  defines "ad \<equiv> pov_adaptator ad0 (length rest) self"
  shows "\<exists>s others. cc_new ir (co_inputs co) self (co_conditions co) env = Some (foralls, sc,
      \<lparr>cc_inputs = map (ci_adapt ad) rest, cc_self_condition = s, cc_others_conditions = others\<rparr>, ad)
    \<and> vs_fits ir (vt_adapt ad (c_value_type c)) s \<and> vs_typed ir (map (ci_adapt ad) rest) UNIV s
    \<and> (\<forall>c\<in>set others. cond_typed ir (map (ci_adapt ad) rest) c)
    \<and> (vs_member ir (inst_ctx val codes nums sets (map (ci_adapt ad) rest)) s v
        \<or> (\<exists>c\<in>set others. cond_holds ir (map (ci_adapt ad) rest) (inst_ctx val codes nums sets (map (ci_adapt ad) rest)) c)
       \<longleftrightarrow> constraint_allows ir ad val codes nums sets co self v)"
proof -
  let ?inputs = "co_inputs co" and ?t = "vt_adapt ad (c_value_type c)"
  let ?cx = "pov_ctx ad val codes nums sets (co_inputs co) self v"
  have removed: "removed = ?inputs ! self" using sw by (auto simp: swap_remove_def split: if_splits)
  have t: "self_type ir ?inputs self ?t" using self_type_choice [OF self c(1) closed c(2,3)] .
  obtain s0 where s0: "vs_empty ?t = Some s0" "vs_fits ir ?t s0" "vs_typed ir (map (ci_adapt ad) rest) UNIV s0"
    "\<forall>cx v. \<not> vs_member ir cx s0 v"
    using vs_empty_fits [OF t closed] by blast
  have types: "ctx_types ir ?inputs ?cx" using pov_ctx_types [OF _ val(1) self val(2)] co by (simp add: constraint_ok_def)
  have ad: "adapts ir {i. i \<noteq> self} ?inputs (map (ci_adapt ad) rest) ad ?cx
      (inst_ctx val codes nums sets (map (ci_adapt ad) rest))"
    unfolding ad_def by (rule swap_remove_adapts [OF sw adapt_env_inputs [OF env]])
  have "ctx_input ?cx self = v" by (simp add: pov_ctx_def)
  then obtain s others where s: "split_conditions ir self ?t ad (co_conditions co) s0 = Some (s, others)"
    "vs_fits ir ?t s" "vs_typed ir (map (ci_adapt ad) rest) UNIV s" "\<forall>c\<in>set others. cond_typed ir (map (ci_adapt ad) rest) c"
    "vs_member ir (inst_ctx val codes nums sets (map (ci_adapt ad) rest)) s v
        \<or> (\<exists>c\<in>set others. cond_holds ir (map (ci_adapt ad) rest) (inst_ctx val codes nums sets (map (ci_adapt ad) rest)) c)
       \<longleftrightarrow> (\<exists>c\<in>set (co_conditions co). cond_holds ir ?inputs ?cx c)"
    using split_conditions_sound [OF closed t types ad _ s0(2,3), of "co_conditions co"] co s0(4)
    by (auto simp: constraint_ok_def)
  have "cc_new ir ?inputs self (co_conditions co) env = Some (foralls, sc,
      \<lparr>cc_inputs = map (ci_adapt ad) rest, cc_self_condition = s, cc_others_conditions = others\<rparr>, ad)"
    using sw env c(1) s0(1) s(1) removed by (simp add: cc_new_def Let_def ad_def pov_adaptator_def)
  then show ?thesis using s(2-5) by (auto simp: constraint_allows_def)
qed

text \<open>The rule of a filter, after the inputs of the filter are normalised.\<close>

lemma rule_normal_inputs:
  assumes closed: "ir_closed ir" and ok: "\<forall>ci\<in>set cis. ci_ok ir ci" and val: "val_respects ir val"
    and r: "\<forall>c\<in>set (conditions r). cond_typed ir cis c" "vs_typed ir cis UNIV (alternatives r)" "vs_fits ir t (alternatives r)"
  shows "\<exists>f r'. ff_new foralls cis [r] outer ir = Some f \<and> ff_rules f = [r'] \<and> ff_set_constraints f = outer
    \<and> ((\<forall>c\<in>set (conditions r'). cond_holds ir (ff_inputs f) (inst_ctx val codes nums sets (ff_inputs f)) c)
        \<longleftrightarrow> (\<forall>c\<in>set (conditions r). cond_holds ir cis (inst_ctx val codes nums sets cis) c))
    \<and> (\<forall>v. vs_member ir (inst_ctx val codes nums sets (ff_inputs f)) (alternatives r') v
        \<longleftrightarrow> vs_member ir (inst_ctx val codes nums sets cis) (alternatives r) v)"
proof -
  obtain cis' ad where n: "normalize_inputs ir 0 cis ad_default = Some (cis', ad)"
    "adapts ir UNIV cis cis' ad (inst_ctx val codes nums sets cis) (inst_ctx val codes nums sets cis')"
    using normalize_inputs_adapts [OF ok val] by blast
  obtain cs where cs: "those (map (cond_adapt ad) (conditions r)) = Some cs"
    "list_all2 (\<lambda>c c'. cond_typed ir cis' c' \<and> (cond_holds ir cis' (inst_ctx val codes nums sets cis') c'
      \<longleftrightarrow> cond_holds ir cis (inst_ctx val codes nums sets cis) c)) (conditions r) cs"
    using conds_adapt_sound [OF closed n(2), of "conditions r"] r(1) by auto
  obtain alts where alts: "vs_adapt ad (alternatives r) = Some alts"
    "\<forall>v. vs_member ir (inst_ctx val codes nums sets cis') alts v \<longleftrightarrow> vs_member ir (inst_ctx val codes nums sets cis) (alternatives r) v"
    using fits_adapt [OF closed n(2) r(2,3)] by blast
  have "(\<forall>c\<in>set cs. cond_holds ir cis' (inst_ctx val codes nums sets cis') c)
      \<longleftrightarrow> (\<forall>c\<in>set (conditions r). cond_holds ir cis (inst_ctx val codes nums sets cis) c)"
    using list_all2_truth [OF cs(2)] by blast
  then show ?thesis using n(1) cs(1) alts by (simp add: ff_new_def rule_adapt_def)
qed

lemma full_set_member:
  assumes "vs_fits ir t s" "vs_is_full ir s = Some True" "ir_closed ir" "case t of VT_Enum n \<Rightarrow> typed_val (get_enum ir n) v | _ \<Rightarrow> True"
  shows "vs_member ir cx s v"
proof (cases s)
  case (VS_Enum n vals ins)
  then obtain e where e: "get_enum ir n = Some e" "fset vals \<subseteq> set (enum_keys e)" "t = VT_Enum n"
    "length (e_values e) = fcard vals"
    using assms(1,2) by (auto simp: vs_fits_def)
  have "card (set (enum_keys e)) = card (fset vals)"
    using e(4) distinct_card [OF ir_closedD(3) [OF assms(3) e(1)]] by (simp add: enum_keys_def fcard.rep_eq)
  then have "fset vals = set (enum_keys e)" using card_subset_eq [OF _ e(2)] by simp
  moreover obtain x where "v = EVal x" "x \<in> set (enum_keys e)" using assms(4) e(1,3) by (auto simp: typed_val_def)
  ultimately show ?thesis using VS_Enum by simp
qed (use assms(2) in simp)

lemma vs_is_full_defined: "vs_fits ir t s \<Longrightarrow> \<exists>b. vs_is_full ir s = Some b"
  by (cases s) (auto simp: vs_fits_def)

text \<open>The fragile values of a choice name no input.\<close>

definition fragile_ok :: "ir_desc \<Rightarrow> choice \<Rightarrow> bool" where
  "fragile_ok ir c \<longleftrightarrow> vs_fits ir (c_value_type c) (c_no_propagate c) \<and> vs_typed ir [] {} (c_no_propagate c)"

lemma fragile_member:
  assumes "vs_typed ir [] {} s"
  shows "vs_member ir (inst_ctx val codes nums sets xs) s v \<longleftrightarrow> vs_member ir (inst_ctx val codes nums sets []) s v"
    "vs_typed ir xs UNIV s"
  using assms by (cases s; auto split: val.splits option.splits)+

lemma vs_fits_adapt_type: "vs_fits ir (vt_adapt ad t) s = vs_fits ir t s"
  by (cases t; cases s) (auto simp: vs_fits_def)

text \<open>The alternatives of the rule, with the fragile values that it does not restrict.\<close>

lemma self_condition_sound:
  assumes "fragile_ok ir c" "vs_fits ir (vt_adapt ad (c_value_type c)) s" "vs_typed ir xs UNIV s"
  shows "\<exists>s'. (if b then Some s else vs_extend s (c_no_propagate c)) = Some s' \<and> vs_fits ir (vt_adapt ad (c_value_type c)) s'
    \<and> vs_typed ir xs UNIV s' \<and> (\<forall>v. vs_member ir (inst_ctx val codes nums sets xs) s' v \<longleftrightarrow>
      vs_member ir (inst_ctx val codes nums sets xs) s v \<or> \<not> b \<and> vs_member ir (inst_ctx val codes nums sets []) (c_no_propagate c) v)"
proof (cases b)
  case False
  have frag: "vs_fits ir (vt_adapt ad (c_value_type c)) (c_no_propagate c)" "vs_typed ir [] {} (c_no_propagate c)"
    using assms(1) by (auto simp: fragile_ok_def vs_fits_adapt_type)
  show ?thesis
    using fits_extend [OF assms(2) frag(1) assms(3) fragile_member(2) [OF frag(2)], of "inst_ctx val codes nums sets xs"]
      fragile_member(1) [OF frag(2)] False by fastforce
qed (use assms in simp)

section \<open>An example\<close>

text \<open>An antisymmetric order of the objects and its transitivity, with an input that is given twice, once inversed.\<close>

definition order_enum :: enum_def where
  "order_enum = \<lparr>e_name = ''Order'', e_doc = None, e_values = [(''Before'', None), (''After'', None)], e_aliases = [],
     e_inverse = Some [(''Before'', ''After'')]\<rparr>"

definition order_objs :: ir_set where
  "order_objs = Set (SetDef ''Objs'' None None RevNone [] 0 0 []) None None"

definition order_choice :: choice where
  "order_choice = \<lparr>c_name = ''order'', c_doc = None, c_arguments = Symmetric (''a'', ''b'') order_objs True,
     c_choice_def = CD_Enum ''Order'', c_on_change = [], c_filter_actions = [], c_filters = [],
     c_no_propagate = VS_Enum ''Order'' {||} {||}\<rparr>"

definition order_ir :: ir_desc where
  "order_ir = \<lparr>ir_choices = [(''order'', order_choice)], ir_enums = [(''Order'', order_enum)],
     ir_set_defs = [], ir_triggers = []\<rparr>"

definition order_input :: "nat \<Rightarrow> nat \<Rightarrow> choice_instance" where
  "order_input i j = \<lparr>ci_choice = ''order'', ci_vars = [Forall i, Forall j]\<rparr>"

definition order_transitive :: ir_constraint where
  "order_transitive = \<lparr>co_vars = [order_objs, order_objs, order_objs],
     co_inputs = [order_input 0 1, order_input 2 1, order_input 0 2, order_input 1 2],
     co_conditions = [C_Enum 0 {|''Before''|} True False, C_Enum 1 {|''After''|} True False,
       C_Enum 3 {|''Before''|} True False, C_Enum 2 {|''Before''|} False False],
     co_restrict_fragile = True\<rparr>"

definition order_val :: "choice_instance \<Rightarrow> val" where
  "order_val ci = (case ci_vars ci of [v, w] \<Rightarrow> EVal (if v \<le> w then ''Before'' else ''After'') | _ \<Rightarrow> EVal ''Before'')"

lemma order_simps [simp]:
  "get_choice order_ir n = (if n = ''order'' then Some order_choice else None)"
  "get_enum order_ir n = (if n = ''Order'' then Some order_enum else None)"
  "choice_enum order_ir n = (if n = ''order'' then Some order_enum else None)"
  "enum_keys order_enum = [''Before'', ''After'']"
  "enum_inverse order_enum ''Before'' = ''After''" "enum_inverse order_enum ''After'' = ''Before''"
  by (auto simp: order_ir_def get_choice_def get_enum_def choice_enum_def order_choice_def enum_keys_def order_enum_def
      enum_inverse_def)

lemma order_closed: "ir_closed order_ir"
  by (simp add: ir_closed_def ir_wf_def order_ir_def enum_wf_def) (simp add: order_enum_def)

lemma order_constraint_ok: "constraint_ok order_ir order_transitive"
  by (auto simp: constraint_ok_def order_transitive_def order_input_def ci_ok_def input_enum_choice_enum)
    (simp_all add: order_choice_def)

lemma order_val_ok: "val_respects order_ir order_val" "val_typed order_ir order_val"
  by (auto simp: val_respects_def val_typed_def ci_normalize_def order_val_def typed_val_def val_inverse_def inverse_if_def
      ci_ok_def bind_eq_Some_conv order_choice_def split: list.splits choice_arguments.splits option.splits if_splits)

section \<open>Properties\<close>

lemma co_dedup_inputs_spec:
  assumes "ir_closed ir" "constraint_ok ir co" "val_respects ir val"
  shows "\<exists>co'. co_dedup_inputs ir co = Some co' \<and> distinct (co_inputs co') \<and> constraint_ok ir co'
    \<and> (constraint_holds ir val codes nums sets co' \<longleftrightarrow> constraint_holds ir val codes nums sets co)"
proof -
  obtain zs ad where zs: "dedup_inputs (co_inputs co) ir = Some (zs, ad)" "distinct zs" "\<forall>ci\<in>set zs. ci_ok ir ci"
    "adapts ir UNIV (co_inputs co) zs ad (inst_ctx val codes nums sets (co_inputs co)) (inst_ctx val codes nums sets zs)"
    using dedup_inputs_spec [OF _ assms(3), of "co_inputs co"] assms(2) unfolding constraint_ok_def by blast
  obtain cs where cs: "those (map (cond_adapt ad) (co_conditions co)) = Some cs"
    "list_all2 (\<lambda>c c'. cond_typed ir zs c' \<and> (cond_holds ir zs (inst_ctx val codes nums sets zs) c'
      \<longleftrightarrow> cond_holds ir (co_inputs co) (inst_ctx val codes nums sets (co_inputs co)) c)) (co_conditions co) cs"
    using conds_adapt_sound [OF assms(1) zs(4), of "co_conditions co"] assms(2) by (auto simp: constraint_ok_def)
  have "co_dedup_inputs ir co = Some (co\<lparr>co_inputs := zs, co_conditions := cs\<rparr>)" using zs(1) cs(1) by (simp add: co_dedup_inputs_def)
  then show ?thesis using zs(2,3) list_all2_truth [OF cs(2)] by (simp add: constraint_ok_def constraint_holds_def)
qed

text \<open>C3: Removing the duplicates among the inputs of a well-typed constraint never panics, leaves distinct inputs, and
  keeps the constraint: under every valuation of the choice instances that is symmetric where the choices are, the new
  constraint holds exactly when the old one does.\<close>
theorem dedup_keeps_constraint:
  assumes "ir_closed ir" "constraint_ok ir co" "val_respects ir val"
  shows "\<exists>co'. co_dedup_inputs ir co = Some co' \<and> distinct (co_inputs co') \<and> constraint_ok ir co'
    \<and> (constraint_holds ir val codes nums sets co' \<longleftrightarrow> constraint_holds ir val codes nums sets co)"
  by (rule co_dedup_inputs_spec [OF assms])

theorem dedup_keeps_constraint_witness:
  "\<exists>co'. co_dedup_inputs order_ir order_transitive = Some co' \<and> distinct (co_inputs co')
    \<and> constraint_holds order_ir order_val (\<lambda>_. True) (\<lambda>_. 0) (\<lambda>_. order_objs) co'"
proof -
  have "constraint_holds order_ir order_val (\<lambda>_. True) (\<lambda>_. 0) (\<lambda>_. order_objs) order_transitive"
    by (simp add: constraint_holds_def order_transitive_def order_input_def order_val_def less_eq_variable_def
        input_enum_choice_enum)
  then show ?thesis using dedup_keeps_constraint [OF order_closed order_constraint_ok order_val_ok(1)] by blast
qed

text \<open>C2: Once the environment of the constraint is seen from the choice of an input and the set constraints are sorted, generating the filter of
  the input never panics. When no filter is generated the constraint or the fragile values allow every value; otherwise
  the filter has one rule, and where the set constraints of the rule hold it allows exactly the values that satisfy the
  constraint, or that are fragile when these are not restricted.\<close>
theorem gen_flat_filter_exact:
  assumes closed: "ir_closed ir" and co: "constraint_ok ir co" and self: "self < length (co_inputs co)"
    and c: "get_choice ir (ci_choice (co_inputs co ! self)) = Some c" "c_value_type c \<noteq> VT_Range True"
      "\<forall>n. c_choice_def c = CD_Enum n \<longrightarrow> get_enum ir n \<noteq> None" "fragile_ok ir c"
    and sw: "swap_remove self (co_inputs co) = Some (removed, rest)"
    and env: "adapt_env ir (zip (map Forall [0..<length (co_vars co)]) (co_vars co)) removed = Some (foralls, sc, ad0)"
    and ad: "ad = pov_adaptator ad0 (length rest) self"
    and sc: "split_constraints ir c (map (ci_adapt ad) rest) foralls (rev sc) [] [] = Some (outer, inner)"
    and val: "val_respects ir val" "val_typed ir val" "typed_val (choice_enum ir (ci_choice (co_inputs co ! self))) v"
  shows "\<exists>res. gen_flat_filter ir co self = Some res \<and> (case res of
      None \<Rightarrow> constraint_allows ir ad val codes nums sets co self v
        \<or> \<not> co_restrict_fragile co \<and> vs_member ir (inst_ctx val codes nums sets []) (c_no_propagate c) v
    | Some f \<Rightarrow> \<exists>r. ff_rules f = [r] \<and> (sc_holds (inst_ctx val codes nums sets (ff_inputs f)) (r_set_constraints r) \<longrightarrow>
        (rule_allows ir (ff_inputs f) (inst_ctx val codes nums sets (ff_inputs f)) r v \<longleftrightarrow>
          constraint_allows ir ad val codes nums sets co self v
          \<or> \<not> co_restrict_fragile co \<and> vs_member ir (inst_ctx val codes nums sets []) (c_no_propagate c) v)))"
proof -
  let ?xs = "map (ci_adapt ad) rest" and ?t = "vt_adapt ad (c_value_type c)"
  let ?cx = "inst_ctx val codes nums sets ?xs"
  obtain s others where cc: "cc_new ir (co_inputs co) self (co_conditions co) (zip (map Forall [0..<length (co_vars co)]) (co_vars co))
      = Some (foralls, sc, \<lparr>cc_inputs = ?xs, cc_self_condition = s, cc_others_conditions = others\<rparr>, ad)"
    "vs_fits ir ?t s" "vs_typed ir ?xs UNIV s" "\<forall>c\<in>set others. cond_typed ir ?xs c"
    "vs_member ir ?cx s v \<or> (\<exists>c\<in>set others. cond_holds ir ?xs ?cx c) \<longleftrightarrow> constraint_allows ir ad val codes nums sets co self v"
    using cc_new_sound [OF closed co self c(1-3) sw env val(2,3), of codes nums sets] unfolding ad by blast
  obtain s' where s': "(if co_restrict_fragile co then Some s else vs_extend s (c_no_propagate c)) = Some s'"
    "vs_fits ir ?t s'" "vs_typed ir ?xs UNIV s'" "\<forall>v. vs_member ir ?cx s' v \<longleftrightarrow> vs_member ir ?cx s v
      \<or> \<not> co_restrict_fragile co \<and> vs_member ir (inst_ctx val codes nums sets []) (c_no_propagate c) v"
    using self_condition_sound [OF c(4) cc(2,3)] by blast
  obtain full where full: "vs_is_full ir s' = Some full" using vs_is_full_defined [OF s'(2)] by blast
  show ?thesis
  proof (cases full)
    case True
    have "case ?t of VT_Enum n \<Rightarrow> typed_val (get_enum ir n) v | _ \<Rightarrow> True"
      using val(3) c(1) by (cases "c_choice_def c") (auto simp: c_value_type_def choice_enum_def)
    then have "vs_member ir ?cx s' v" using full_set_member [OF s'(2) _ closed] full True by simp
    moreover have "gen_flat_filter ir co self = Some None"
      using self c(1) cc(1) s'(1) full True
      by (cases "co_restrict_fragile co") (simp_all add: gen_flat_filter_def Let_def)
    ultimately show ?thesis using s'(4) cc(5) by auto
  next
    case False
    let ?r = "\<lparr>conditions = map cond_negate others, alternatives = s', r_set_constraints = sc_new (rev inner)\<rparr>"
    have ok: "\<forall>ci\<in>set ?xs. ci_ok ir ci"
    proof -
      have "set rest \<subseteq> set (co_inputs co)"
        using sw by (auto simp: swap_remove_def dest!: in_set_butlastD set_update_subset_insert [THEN subsetD] split: if_splits)
          (metis last_in_set length_greater_0_conv less_zeroE gr_zeroI)
      then show ?thesis using co by (auto simp: constraint_ok_def)
    qed
    have types: "\<forall>i\<in>cond_inputs c. typed_val (input_enum ir ?xs i) (ctx_input ?cx i)" if "c \<in> set others" for c
      using cond_inputs_length [of ir ?xs c] cc(4) that ok val(2) unfolding val_typed_def
      by (auto simp: input_enum_choice_enum) (metis ci_adapt_simps nth_mem)
    have neg: "\<forall>c\<in>set others. cond_typed ir ?xs (cond_negate c) \<and> (cond_holds ir ?xs ?cx (cond_negate c) \<longleftrightarrow> \<not> cond_holds ir ?xs ?cx c)"
      using cond_holds_negate [OF closed _ types] cc(4) by blast
    obtain f r where f: "ff_new foralls ?xs [?r] (sc_new (rev outer)) ir = Some f" "ff_rules f = [r]"
      "(\<forall>c\<in>set (conditions r). cond_holds ir (ff_inputs f) (inst_ctx val codes nums sets (ff_inputs f)) c)
        \<longleftrightarrow> (\<forall>c\<in>set (map cond_negate others). cond_holds ir ?xs ?cx c)"
      "\<forall>v. vs_member ir (inst_ctx val codes nums sets (ff_inputs f)) (alternatives r) v \<longleftrightarrow> vs_member ir ?cx s' v"
    proof -
      have r: "\<forall>c\<in>set (conditions ?r). cond_typed ir ?xs c" using neg by simp
      have s: "vs_typed ir ?xs UNIV (alternatives ?r)" "vs_fits ir ?t (alternatives ?r)" using s'(2,3) by simp_all
      show ?thesis 
        using rule_normal_inputs [OF closed ok val(1) r s, of foralls "sc_new (rev outer)" codes nums sets]
        unfolding rule.simps using that by blast
    qed
    have "gen_flat_filter ir co self = Some (Some f)"
      using self c(1) cc(1) s'(1) full False sc f(1)
      by (cases "co_restrict_fragile co") (simp_all add: gen_flat_filter_def Let_def)
    moreover have "(\<forall>c\<in>set (map cond_negate others). cond_holds ir ?xs ?cx c) \<longleftrightarrow> \<not> (\<exists>c\<in>set others. cond_holds ir ?xs ?cx c)"
      using neg by auto
    ultimately show ?thesis using f(2-4) s'(4) cc(5) by (auto simp: rule_allows_def)
  qed
qed

lemma order_env:
  "\<exists>ad. adapt_env order_ir (zip (map Forall [0..<length (co_vars order_transitive)]) (co_vars order_transitive)) (order_input 0 2)
    = Some ([order_objs], [], ad)"
proof -
  have "set_adapt ad order_objs = order_objs" for ad by (simp add: order_objs_def)
  then show ?thesis
    by (simp add: adapt_env_def adapt_env_ext_def order_choice_def order_input_def upt_rec sc_new_def vars_adapt_def
        order_transitive_def Let_def)
qed

theorem gen_flat_filter_exact_witness:
  "\<exists>ad res. gen_flat_filter order_ir order_transitive 2 = Some res \<and> (case res of
      None \<Rightarrow> constraint_allows order_ir ad order_val (\<lambda>_. True) (\<lambda>_. 0) (\<lambda>_. order_objs) order_transitive 2 (EVal ''After'')
    | Some f \<Rightarrow> \<exists>r. ff_rules f = [r] \<and> (sc_holds (inst_ctx order_val (\<lambda>_. True) (\<lambda>_. 0) (\<lambda>_. order_objs) (ff_inputs f)) (r_set_constraints r) \<longrightarrow>
        (rule_allows order_ir (ff_inputs f) (inst_ctx order_val (\<lambda>_. True) (\<lambda>_. 0) (\<lambda>_. order_objs) (ff_inputs f)) r (EVal ''After'') \<longleftrightarrow>
          constraint_allows order_ir ad order_val (\<lambda>_. True) (\<lambda>_. 0) (\<lambda>_. order_objs) order_transitive 2 (EVal ''After''))))"
proof -
  obtain ad0 where "adapt_env order_ir (zip (map Forall [0..<length (co_vars order_transitive)]) (co_vars order_transitive))
      (order_input 0 2) = Some ([order_objs], [], ad0)"
    using order_env by blast
  note env = this
  have pre: "2 < length (co_inputs order_transitive)" "get_choice order_ir (ci_choice (co_inputs order_transitive ! 2)) = Some order_choice"
    "c_value_type order_choice \<noteq> VT_Range True" "\<forall>n. c_choice_def order_choice = CD_Enum n \<longrightarrow> get_enum order_ir n \<noteq> None"
    "fragile_ok order_ir order_choice"
    "swap_remove 2 (co_inputs order_transitive) = Some (order_input 0 2, [order_input 0 1, order_input 2 1, order_input 1 2])"
    "split_constraints order_ir order_choice inputs [order_objs] (rev []) [] [] = Some ([], [])"
    "typed_val (choice_enum order_ir (ci_choice (co_inputs order_transitive ! 2))) (EVal ''After'')" for inputs
    by (auto simp: order_transitive_def order_input_def order_choice_def swap_remove_def c_value_type_def
        fragile_ok_def vs_fits_def typed_val_def)
  have frag: "co_restrict_fragile order_transitive" by (simp add: order_transitive_def)
  show ?thesis
    using gen_flat_filter_exact [OF order_closed order_constraint_ok pre(1-6) env HOL.refl pre(7) order_val_ok pre(8),
      of "\<lambda>_. True" "\<lambda>_. 0" "\<lambda>_. order_objs"]
    unfolding eqTrueI [OF frag] not_True_eq_False simp_thms by blast
qed

end
