(* ===== verification/Dag.thy ===== *)
theory Dag
  imports Vec_Set "HOL-Library.Monad_Syntax"
begin

text \<open>
  The directed acyclic graph of a partial order (\<^verbatim>\<open>telamon-utils/src/dag.rs\<close>). \<^verbatim>\<open>Dag::from_order\<close> compares the nodes pairwise,
  drops all but the first of equal nodes, sorts the rest by the number of lesser nodes and keeps the edges of the
  covering relation only. What it needs of the comparison is the locale \<open>comparison\<close>.

  \<open>None\<close> is a panic or a read of uninitialised memory. The iteration order of a hash set is the parameter \<open>iter\<close>.
\<close>

section \<open>The graph\<close>

record 'a dag =
  nodes :: "'a list"
  before :: "nat list list"
  after :: "nat list list"

type_synonym 'a comparator = "'a \<Rightarrow> 'a \<Rightarrow> ordering option"

text \<open>The pairs \<open>(i, j)\<close> with \<open>j < i\<close>, in the order of the two loops.\<close>

definition index_pairs :: "nat \<Rightarrow> (nat \<times> nat) list" where
  "index_pairs n = concat (map (\<lambda>i. map (Pair i) [0..<i]) [0..<n])"

definition order_step :: "'a comparator \<Rightarrow> 'a list \<Rightarrow> nat \<times> nat \<Rightarrow> nat set list \<times> bool list \<Rightarrow> nat set list \<times> bool list" where
  "order_step compare ns = (\<lambda>(i, j) (lesser_than, is_duplicate).
     (case compare (ns ! i) (ns ! j) of
        Some Less \<Rightarrow> (lesser_than[j := insert i (lesser_than ! j)], is_duplicate)
      | Some Equal \<Rightarrow> (lesser_than, is_duplicate[max i j := True])
      | Some Greater \<Rightarrow> (lesser_than[i := insert j (lesser_than ! i)], is_duplicate)
      | None \<Rightarrow> (lesser_than, is_duplicate)))"

definition compare_nodes :: "'a comparator \<Rightarrow> 'a list \<Rightarrow> nat set list \<times> bool list" where
  "compare_nodes compare ns =
     fold (order_step compare ns) (index_pairs (length ns)) (map (\<lambda>_. {}) ns, map (\<lambda>_. False) ns)"

definition node_permutation :: "nat set list \<Rightarrow> bool list \<Rightarrow> nat \<Rightarrow> nat list" where
  "node_permutation lesser_than is_duplicate n =
     filter (\<lambda>i. \<not> is_duplicate ! i) (sort_key (\<lambda>i. card (lesser_than ! i)) [0..<n])"

definition invert_permutation :: "nat list \<Rightarrow> nat \<Rightarrow> nat list" where
  "invert_permutation permutation n =
     fold (\<lambda>(new_pos, old_pos) inv_permutation. inv_permutation[old_pos := new_pos])
       (enumerate 0 permutation) (replicate n n)"

text \<open>The unsafe block: the cells of the new vector are uninitialised (\<open>None\<close>) until a node is moved there.\<close>

definition move_nodes :: "'a list \<Rightarrow> nat list \<Rightarrow> nat \<Rightarrow> 'a option list" where
  "move_nodes ns inv_permutation m =
     fold (\<lambda>(old_pos, new_pos) new_nodes.
         if new_pos = length inv_permutation then new_nodes else new_nodes[new_pos := Some (ns ! old_pos)])
       (enumerate 0 inv_permutation) (replicate m None)"

definition minimal_lesser :: "nat set list \<Rightarrow> nat \<Rightarrow> nat \<Rightarrow> bool" where
  "minimal_lesser lesser_than old_pos lesser \<longleftrightarrow>
     \<not> (\<exists>other_lesser \<in> lesser_than ! old_pos. lesser \<in> lesser_than ! other_lesser)"

definition node_before :: "(nat set \<Rightarrow> nat list) \<Rightarrow> nat set list \<Rightarrow> nat list \<Rightarrow> nat \<Rightarrow> nat list" where
  "node_before iter lesser_than inv_permutation old_pos =
     filter (\<lambda>lesser. lesser \<noteq> length inv_permutation)
       (map (\<lambda>old_lesser. inv_permutation ! old_lesser)
         (filter (minimal_lesser lesser_than old_pos) (iter (lesser_than ! old_pos))))"

text \<open>\<^verbatim>\<open>after[before_id].push(after_id)\<close>, which panics when the index is out of range.\<close>

fun push_after :: "nat \<Rightarrow> nat list \<Rightarrow> nat list list \<Rightarrow> nat list list option" where
  "push_after after_id [] aft = Some aft"
| "push_after after_id (before_id # ids) aft =
     (if before_id < length aft then push_after after_id ids (aft[before_id := aft ! before_id @ [after_id]]) else None)"

fun invert_edges :: "nat \<Rightarrow> nat list list \<Rightarrow> nat list list \<Rightarrow> nat list list option" where
  "invert_edges after_id [] aft = Some aft"
| "invert_edges after_id (before_ids # bef) aft = do {
     aft' \<leftarrow> push_after after_id before_ids aft;
     invert_edges (Suc after_id) bef aft' }"

definition from_order :: "(nat set \<Rightarrow> nat list) \<Rightarrow> 'a list \<Rightarrow> 'a comparator \<Rightarrow> 'a dag option" where
  "from_order iter ns compare = do {
     let (lesser_than, is_duplicate) = compare_nodes compare ns;
     let permutation = node_permutation lesser_than is_duplicate (length ns);
     let inv_permutation = invert_permutation permutation (length ns);
     new_nodes \<leftarrow> those (move_nodes ns inv_permutation (length permutation));
     let bef = map (node_before iter lesser_than inv_permutation) permutation;
     aft \<leftarrow> invert_edges 0 bef (map (\<lambda>_. []) new_nodes);
     Some \<lparr>nodes = new_nodes, before = bef, after = aft\<rparr> }"

definition minima :: "'a dag \<Rightarrow> nat list" where
  "minima d = map fst (filter (\<lambda>x. snd x = []) (enumerate 0 (before d)))"

text \<open>The traversal of \<^verbatim>\<open>predecessors\<close>: the inner loop, then the loop on the stack.\<close>

fun visit_before :: "nat list \<Rightarrow> bool list \<Rightarrow> nat list \<Rightarrow> nat list \<Rightarrow> (bool list \<times> nat list \<times> nat list) option" where
  "visit_before [] visited stack preds = Some (visited, stack, preds)"
| "visit_before (b # bs) visited stack preds =
     (if b < length visited then
        if visited ! b then visit_before bs visited stack preds
        else visit_before bs (visited[b := True]) (b # stack) (preds @ [b])
      else None)"

definition unvisited :: "bool list \<Rightarrow> nat" where
  "unvisited visited = length (filter Not visited)"

lemma unvisited_update: "b < length visited \<Longrightarrow> \<not> visited ! b \<Longrightarrow> unvisited (visited[b := True]) < unvisited visited"
proof -
  assume b: "b < length visited" "\<not> visited ! b"
  have "visited = take b visited @ visited ! b # drop (Suc b) visited" using b(1) by (rule id_take_nth_drop)
  then have "unvisited visited = unvisited (take b visited @ visited ! b # drop (Suc b) visited)" by (rule arg_cong)
  then show "unvisited (visited[b := True]) < unvisited visited"
    using b by (simp add: upd_conv_take_nth_drop unvisited_def)
qed

lemma visit_before_measure:
  "visit_before bs visited stack preds = Some (visited', stack', preds') \<Longrightarrow>
    visited' = visited \<and> stack' = stack \<or> unvisited visited' < unvisited visited"
proof (induction bs arbitrary: visited stack preds)
  case (Cons b bs)
  then show ?case using unvisited_update [of b visited]
    by (auto split: if_splits) (metis order.strict_trans)+
qed simp

function predecessors_loop :: "'a dag \<Rightarrow> bool list \<Rightarrow> nat list \<Rightarrow> nat list \<Rightarrow> nat list option" where
  "predecessors_loop d visited [] preds = Some preds"
| "predecessors_loop d visited (v # stack) preds =
     (if v < length (before d) then
        (case visit_before (before d ! v) visited stack preds of
           None \<Rightarrow> None
         | Some (visited', stack', preds') \<Rightarrow> predecessors_loop d visited' stack' preds')
      else None)"
  by pat_completeness auto
termination
  by (relation "measures [\<lambda>(d, visited, stack, preds). unvisited visited, \<lambda>(d, visited, stack, preds). length stack]")
    (auto dest!: visit_before_measure)

definition predecessors :: "'a dag \<Rightarrow> nat \<Rightarrow> nat list option" where
  "predecessors d v = predecessors_loop d (replicate v False) [v] []"

section \<open>Loops\<close>

lemma set_index_pairs: "set (index_pairs n) = {(i, j). j < i \<and> i < n}"
  by (auto simp: index_pairs_def)

lemma order_steps:
  assumes "\<forall>(i, j) \<in> set ps. j < i \<and> i < length ns" "length L = length ns" "length D = length ns"
    "fold (order_step compare ns) ps (L, D) = (L', D')"
  shows "length L' = length ns \<and> length D' = length ns \<and> (\<forall>k < length ns.
    L' ! k = L ! k \<union> {i. (i, k) \<in> set ps \<and> compare (ns ! i) (ns ! k) = Some Less}
      \<union> {j. (k, j) \<in> set ps \<and> compare (ns ! k) (ns ! j) = Some Greater}
    \<and> (D' ! k \<longleftrightarrow> D ! k \<or> (\<exists>j. (k, j) \<in> set ps \<and> compare (ns ! k) (ns ! j) = Some Equal)))"
  using assms
proof (induction ps arbitrary: L D)
  case (Cons p ps)
  obtain i j where p: "p = (i, j)" "j < i" "i < length ns" using Cons.prems(1) by auto
  obtain L1 D1 where s: "order_step compare ns p (L, D) = (L1, D1)" by fastforce
  have len: "length L1 = length ns" "length D1 = length ns"
    using s Cons.prems(2,3) by (auto simp: order_step_def p(1) split: option.splits ordering.splits)
  have one: "L1 ! k = L ! k \<union> {i'. (i', k) = p \<and> compare (ns ! i') (ns ! k) = Some Less}
      \<union> {j'. (k, j') = p \<and> compare (ns ! k) (ns ! j') = Some Greater}"
    "D1 ! k \<longleftrightarrow> D ! k \<or> (\<exists>j'. (k, j') = p \<and> compare (ns ! k) (ns ! j') = Some Equal)" if "k < length ns" for k
    using s Cons.prems(2,3) p that
    by (auto simp: order_step_def nth_list_update max_def split: option.splits ordering.splits if_splits)
  have "fold (order_step compare ns) ps (L1, D1) = (L', D')" using Cons.prems(4) s by simp
  with Cons.IH [OF _ len] Cons.prems(1) show ?case by (auto simp: one)
qed auto

lemma invert_permutation_spec:
  assumes "distinct perm" "set perm \<subseteq> {..<n}"
  shows "length (invert_permutation perm n) = n" "p < length perm \<Longrightarrow> invert_permutation perm n ! (perm ! p) = p"
    "i < n \<Longrightarrow> i \<notin> set perm \<Longrightarrow> invert_permutation perm n ! i = n"
proof -
  have gen: "length (fold (\<lambda>(new, old) inv. inv[old := new]) (enumerate k perm) xs) = length xs
    \<and> (\<forall>p < length perm. fold (\<lambda>(new, old) inv. inv[old := new]) (enumerate k perm) xs ! (perm ! p) = k + p)
    \<and> (\<forall>i. i \<notin> set perm \<longrightarrow> fold (\<lambda>(new, old) inv. inv[old := new]) (enumerate k perm) xs ! i = xs ! i)"
    if "length xs = n" for k and xs :: "nat list"
    using assms that
  proof (induction perm arbitrary: k xs)
    case (Cons a perm)
    have IH: "length (fold (\<lambda>(new, old) inv. inv[old := new]) (enumerate (Suc k) perm) (xs[a := k])) = n
      \<and> (\<forall>p < length perm. fold (\<lambda>(new, old) inv. inv[old := new]) (enumerate (Suc k) perm) (xs[a := k]) ! (perm ! p) = Suc k + p)
      \<and> (\<forall>i. i \<notin> set perm \<longrightarrow> fold (\<lambda>(new, old) inv. inv[old := new]) (enumerate (Suc k) perm) (xs[a := k]) ! i = xs[a := k] ! i)"
      using Cons.IH [of "xs[a := k]" "Suc k"] Cons.prems by simp
    show ?case
    proof (intro conjI allI impI)
      fix p assume "p < length (a # perm)"
      then show "fold (\<lambda>(new, old) inv. inv[old := new]) (enumerate k (a # perm)) xs ! ((a # perm) ! p) = k + p"
        using IH Cons.prems by (cases p) auto
    qed (use IH Cons.prems in auto)
  qed simp
  show "length (invert_permutation perm n) = n" "p < length perm \<Longrightarrow> invert_permutation perm n ! (perm ! p) = p"
    "i < n \<Longrightarrow> i \<notin> set perm \<Longrightarrow> invert_permutation perm n ! i = n"
    using gen [of "replicate n n" 0] by (simp_all add: invert_permutation_def)
qed

lemma move_nodes_spec:
  assumes "distinct perm" "set perm \<subseteq> {..<length ns}" "length perm \<le> length ns"
  shows "those (move_nodes ns (invert_permutation perm (length ns)) (length perm)) = Some (map ((!) ns) perm)"
proof -
  let ?inv = "invert_permutation perm (length ns)" and ?n = "length ns"
  let ?f = "\<lambda>(old, new) new_nodes. if new = ?n then new_nodes else new_nodes[new := Some (ns ! old)]"
  note inv = invert_permutation_spec [OF assms(1,2)]
  have gen: "length (fold ?f xs ys) = length ys \<and> (\<forall>p < length ys.
      fold ?f xs ys ! p = (if \<exists>old. (old, p) \<in> set xs then Some (ns ! (perm ! p)) else ys ! p))"
    if "\<forall>(old, new) \<in> set xs. new \<noteq> ?n \<longrightarrow> new < length perm \<and> old = perm ! new" "length ys = length perm"
    for xs and ys :: "'a option list"
    using that
  proof (induction xs arbitrary: ys)
    case (Cons x xs)
    obtain old new where x: "x = (old, new)" by fastforce
    let ?ys = "if new = ?n then ys else ys[new := Some (ns ! old)]"
    have "length ?ys = length perm" using Cons.prems(2) by simp
    from Cons.IH [OF _ this] Cons.prems x assms(3) show ?case by (auto simp: nth_list_update)
  qed simp
  have mem: "(old, new) \<in> set (enumerate 0 ?inv) \<longleftrightarrow> old < ?n \<and> new = ?inv ! old" for old new
    using inv(1) by (auto simp: in_set_enumerate_eq)
  have old_of: "?inv ! old < length perm \<and> old = perm ! (?inv ! old)" if "old < ?n" "?inv ! old \<noteq> ?n" for old
    using inv(2,3) that by (metis in_set_conv_nth)
  have "move_nodes ns ?inv (length perm) = map (Some \<circ> ((!) ns)) perm"
  proof (rule nth_equalityI)
    have pre: "\<forall>(old, new) \<in> set (enumerate 0 ?inv). new \<noteq> ?n \<longrightarrow> new < length perm \<and> old = perm ! new"
      using mem old_of by auto
    show "length (move_nodes ns ?inv (length perm)) = length (map (Some \<circ> ((!) ns)) perm)"
      using gen [OF pre, of "replicate (length perm) None"] by (simp add: move_nodes_def inv(1))
    fix p assume "p < length (move_nodes ns ?inv (length perm))"
    then have p: "p < length perm" using gen [OF pre, of "replicate (length perm) None"] by (simp add: move_nodes_def inv(1))
    have "(perm ! p, p) \<in> set (enumerate 0 ?inv)" using mem inv(2) [OF p] nth_mem [OF p] assms(2) by auto
    then show "move_nodes ns ?inv (length perm) ! p = map (Some \<circ> ((!) ns)) perm ! p"
      using gen [OF pre, of "replicate (length perm) None"] p by (auto simp: move_nodes_def inv(1))
  qed
  moreover have "those (map (Some \<circ> f) xs) = Some (map f xs)" for f :: "nat \<Rightarrow> 'a" and xs by (induction xs) auto
  ultimately show ?thesis by simp
qed

lemma push_after_spec:
  "set ids \<subseteq> {..<length aft} \<Longrightarrow> \<exists>aft'. push_after a ids aft = Some aft' \<and> length aft' = length aft
    \<and> (\<forall>b < length aft. set (aft' ! b) = set (aft ! b) \<union> (if b \<in> set ids then {a} else {}))"
proof (induction ids arbitrary: aft)
  case (Cons i ids)
  then show ?case using Cons.IH [of "aft[i := aft ! i @ [a]]"] by (auto simp: nth_list_update)
qed simp

lemma invert_edges_spec:
  "\<forall>ids \<in> set bef. set ids \<subseteq> {..<length aft} \<Longrightarrow> \<exists>aft'. invert_edges k bef aft = Some aft' \<and> length aft' = length aft
    \<and> (\<forall>b < length aft. set (aft' ! b) = set (aft ! b) \<union> {a. k \<le> a \<and> a - k < length bef \<and> b \<in> set (bef ! (a - k))})"
proof (induction bef arbitrary: aft k)
  case (Cons ids bef)
  obtain aft1 where 1: "push_after k ids aft = Some aft1" "length aft1 = length aft"
    "\<forall>b < length aft. set (aft1 ! b) = set (aft ! b) \<union> (if b \<in> set ids then {k} else {})"
    using push_after_spec [of ids aft k] Cons.prems by auto
  obtain aft2 where 2: "invert_edges (Suc k) bef aft1 = Some aft2" "length aft2 = length aft"
    "\<forall>b < length aft. set (aft2 ! b) = set (aft1 ! b) \<union> {a. Suc k \<le> a \<and> a - Suc k < length bef \<and> b \<in> set (bef ! (a - Suc k))}"
    using Cons.IH [of aft1 "Suc k"] Cons.prems 1(2) by auto
  have "{a. k \<le> a \<and> a - k < length (ids # bef) \<and> b \<in> set ((ids # bef) ! (a - k))} =
      (if b \<in> set ids then {k} else {}) \<union> {a. Suc k \<le> a \<and> a - Suc k < length bef \<and> b \<in> set (bef ! (a - Suc k))}" for b
  proof -
    have "k \<le> a \<and> a - k < length (ids # bef) \<and> b \<in> set ((ids # bef) ! (a - k)) \<longleftrightarrow>
        a = k \<and> b \<in> set ids \<or> Suc k \<le> a \<and> a - Suc k < length bef \<and> b \<in> set (bef ! (a - Suc k))" for a
    proof (cases "a \<le> k")
      case False
      then have "a - k = Suc (a - Suc k)" by simp
      then show ?thesis using False by auto
    qed auto
    then show ?thesis by (auto split: if_splits)
  qed
  then show ?case using 1 2 by (intro exI [of _ aft2]) auto
qed simp

section \<open>The traversal\<close>

text \<open>The edges from a node to its predecessors, for lists of predecessors that only name earlier nodes.\<close>

definition edges :: "nat list list \<Rightarrow> (nat \<times> nat) set" where
  "edges bef = {(b, a). a < length bef \<and> b \<in> set (bef ! a)}"

definition topological :: "nat list list \<Rightarrow> bool" where
  "topological bef \<longleftrightarrow> (\<forall>(b, a) \<in> edges bef. b < a)"

lemma visit_before_spec:
  assumes "set bs \<subseteq> {..<length visited}" "distinct preds" "set preds = {b. b < length visited \<and> visited ! b}"
  shows "\<exists>visited' new. visit_before bs visited stack preds = Some (visited', rev new @ stack, preds @ new)
    \<and> length visited' = length visited \<and> distinct (preds @ new) \<and> set new = set bs - set preds
    \<and> set (preds @ new) = {b. b < length visited' \<and> visited' ! b}"
  using assms
proof (induction bs arbitrary: visited stack preds)
  case (Cons b bs)
  show ?case
  proof (cases "visited ! b")
    case True
    then show ?thesis using Cons.IH [of visited preds stack] Cons.prems by auto
  next
    case False
    then have "set (preds @ [b]) = {c. c < length (visited[b := True]) \<and> visited[b := True] ! c}" "b \<notin> set preds"
      using Cons.prems by (auto simp: nth_list_update)
    with Cons.prems Cons.IH [of "visited[b := True]" "preds @ [b]" "b # stack"] obtain visited' new where
      "visit_before bs (visited[b := True]) (b # stack) (preds @ [b]) = Some (visited', rev new @ b # stack, (preds @ [b]) @ new)"
      "length visited' = length visited" "distinct ((preds @ [b]) @ new)" "set new = set bs - set (preds @ [b])"
      "set ((preds @ [b]) @ new) = {c. c < length visited' \<and> visited' ! c}"
      by auto
    then show ?thesis using Cons.prems False \<open>b \<notin> set preds\<close>
      by (intro exI [of _ visited'] exI [of _ "b # new"]) auto
  qed
qed simp

lemma predecessors_loop_spec:
  assumes "topological (before d)" "v < length (before d)"
    "length visited = v" "distinct preds" "set preds = {b. b < length visited \<and> visited ! b}"
    "set stack \<subseteq> insert v (set preds)" "set preds \<subseteq> {b. (b, v) \<in> (edges (before d))\<^sup>+}"
    "\<forall>a \<in> insert v (set preds) - set stack. set (before d ! a) \<subseteq> set preds"
  shows "\<exists>ps. predecessors_loop d visited stack preds = Some ps \<and> distinct ps \<and> set ps = {b. (b, v) \<in> (edges (before d))\<^sup>+}"
  using assms
proof (induction d visited stack preds rule: predecessors_loop.induct)
  case (1 d visited preds)
  have "b \<in> set preds" if "(b, v) \<in> (edges (before d))\<^sup>+" for b
    using that
  proof (induction rule: converse_trancl_induct)
    case (base b)
    then show ?case using "1.prems"(8) by (auto simp: edges_def)
  next
    case (step b c)
    then show ?case using "1.prems"(8) by (auto simp: edges_def)
  qed
  then show ?case using "1.prems" by auto
next
  case (2 d visited a stack preds)
  let ?E = "edges (before d)"
  have a: "a = v \<or> a \<in> set preds" "a \<le> v" using "2.prems"(3,5,6) by auto
  then have len: "a < length (before d)" using "2.prems"(2) by simp
  have reach: "(a, v) \<in> ?E\<^sup>*" using a(1) "2.prems"(7) by auto
  have range: "set (before d ! a) \<subseteq> {..<length visited}"
    using "2.prems"(1,3) a(2) len by (fastforce simp: topological_def edges_def)
  obtain visited' new where n: "visit_before (before d ! a) visited stack preds = Some (visited', rev new @ stack, preds @ new)"
    "length visited' = length visited" "distinct (preds @ new)" "set new = set (before d ! a) - set preds"
    "set (preds @ new) = {b. b < length visited' \<and> visited' ! b}"
    using visit_before_spec [OF range "2.prems"(4,5)] by blast
  have "set (before d ! a) \<subseteq> {b. (b, v) \<in> ?E\<^sup>+}" using len reach by (auto simp: edges_def intro: rtrancl_into_trancl2)
  then have sub: "set (preds @ new) \<subseteq> {b. (b, v) \<in> ?E\<^sup>+}" using n(4) "2.prems"(7) by auto
  have stk: "set (rev new @ stack) \<subseteq> insert v (set (preds @ new))" using "2.prems"(6) by auto
  have closed: "\<forall>x \<in> insert v (set (preds @ new)) - set (rev new @ stack). set (before d ! x) \<subseteq> set (preds @ new)"
  proof
    fix x assume x: "x \<in> insert v (set (preds @ new)) - set (rev new @ stack)"
    show "set (before d ! x) \<subseteq> set (preds @ new)"
    proof (cases "x = a")
      case True
      then show ?thesis using n(4) by auto
    next
      case False
      then have "x \<in> insert v (set preds) - set (a # stack)" using x by auto
      then show ?thesis using "2.prems"(8) by auto
    qed
  qed
  have "length visited' = v" using n(2) "2.prems"(3) by simp
  from "2.IH" [OF len n(1) HOL.refl HOL.refl "2.prems"(1,2) this n(3,5) stk sub closed]
  have "\<exists>ps. predecessors_loop d visited' (rev new @ stack) (preds @ new) = Some ps \<and> distinct ps \<and> set ps = {b. (b, v) \<in> ?E\<^sup>+}" .
  then show ?case using len n(1) by simp
qed

lemma predecessors_spec:
  assumes "topological (before d)" "v < length (before d)"
  shows "\<exists>ps. predecessors d v = Some ps \<and> distinct ps \<and> set ps = {b. (b, v) \<in> (edges (before d))\<^sup>+}"
  unfolding predecessors_def by (rule predecessors_loop_spec [OF assms]) auto

section \<open>Partial orders\<close>

text \<open>
  The minimal graph of the nodes: one node of each class of equal nodes, lesser nodes first, and the edges are the pairs
  without a node between them.
\<close>

definition minimal_dag :: "'a comparator \<Rightarrow> 'a list \<Rightarrow> 'a dag \<Rightarrow> bool" where
  "minimal_dag compare ns d \<longleftrightarrow>
     set (nodes d) \<subseteq> set ns \<and> (\<forall>a \<in> set ns. \<exists>b \<in> set (nodes d). compare a b = Some Equal)
     \<and> (\<forall>q < length (nodes d). \<forall>p < length (nodes d). compare (nodes d ! p) (nodes d ! q) = Some Equal \<longrightarrow> p = q)
     \<and> (\<forall>q < length (nodes d). \<forall>p < length (nodes d). compare (nodes d ! p) (nodes d ! q) = Some Less \<longrightarrow> p < q)
     \<and> length (before d) = length (nodes d) \<and> length (after d) = length (nodes d)
     \<and> (\<forall>q < length (nodes d). distinct (before d ! q) \<and> set (before d ! q) = {p. p < length (nodes d)
          \<and> compare (nodes d ! p) (nodes d ! q) = Some Less
          \<and> \<not> (\<exists>r < length (nodes d). compare (nodes d ! p) (nodes d ! r) = Some Less \<and> compare (nodes d ! r) (nodes d ! q) = Some Less)})
     \<and> (\<forall>p < length (nodes d). set (after d ! p) = {q. q < length (nodes d) \<and> p \<in> set (before d ! q)})"

text \<open>What \<^verbatim>\<open>from_order\<close> needs of the comparison, on the values it is used with.\<close>

locale comparison =
  fixes valid :: "'a \<Rightarrow> bool" and compare :: "'a comparator"
  assumes compare_refl: "valid a \<Longrightarrow> compare a a = Some Equal"
    and flip: "valid a \<Longrightarrow> valid b \<Longrightarrow> compare a b = Some Greater \<longleftrightarrow> compare b a = Some Less"
    and eq_sym: "valid a \<Longrightarrow> valid b \<Longrightarrow> compare a b = Some Equal \<Longrightarrow> compare b a = Some Equal"
    and eq_trans: "valid a \<Longrightarrow> valid b \<Longrightarrow> valid c \<Longrightarrow> compare a b = Some Equal \<Longrightarrow> compare b c = Some Equal \<Longrightarrow> compare a c = Some Equal"
    and less_trans: "valid a \<Longrightarrow> valid b \<Longrightarrow> valid c \<Longrightarrow> compare a b = Some Less \<Longrightarrow> compare b c = Some Less \<Longrightarrow> compare a c = Some Less"
    and eq_less: "valid a \<Longrightarrow> valid b \<Longrightarrow> valid c \<Longrightarrow> compare a b = Some Equal \<Longrightarrow> compare b c = Some Less \<Longrightarrow> compare a c = Some Less"
    and less_eq: "valid a \<Longrightarrow> valid b \<Longrightarrow> valid c \<Longrightarrow> compare a b = Some Less \<Longrightarrow> compare b c = Some Equal \<Longrightarrow> compare a c = Some Less"
begin

abbreviation less_at :: "'a list \<Rightarrow> nat \<Rightarrow> nat \<Rightarrow> bool" where
  "less_at ns i j \<equiv> compare (ns ! i) (ns ! j) = Some Less"

lemma compare_nodes_spec:
  assumes "\<forall>a \<in> set ns. valid a" "compare_nodes compare ns = (L, D)"
  shows "length L = length ns \<and> length D = length ns \<and> (\<forall>k < length ns.
    L ! k = {i. i < length ns \<and> less_at ns i k} \<and> (D ! k \<longleftrightarrow> (\<exists>j < k. compare (ns ! k) (ns ! j) = Some Equal)))"
proof -
  have v: "valid (ns ! i)" if "i < length ns" for i using assms(1) that by simp
  have irrefl: "\<not> less_at ns i i" if "i < length ns" for i using compare_refl [OF v [OF that]] by simp
  have "length L = length ns \<and> length D = length ns \<and> (\<forall>k < length ns.
    L ! k = {i. (i, k) \<in> set (index_pairs (length ns)) \<and> less_at ns i k}
      \<union> {j. (k, j) \<in> set (index_pairs (length ns)) \<and> compare (ns ! k) (ns ! j) = Some Greater}
    \<and> (D ! k \<longleftrightarrow> (\<exists>j. (k, j) \<in> set (index_pairs (length ns)) \<and> compare (ns ! k) (ns ! j) = Some Equal)))"
    using order_steps [of "index_pairs (length ns)" ns "map (\<lambda>_. {}) ns" "map (\<lambda>_. False) ns" compare L D] assms(2)
    by (simp add: set_index_pairs compare_nodes_def)
  moreover have "{i. k < i \<and> i < length ns \<and> less_at ns i k} \<union> {j. j < k \<and> compare (ns ! k) (ns ! j) = Some Greater}
      = {i. i < length ns \<and> less_at ns i k}" if "k < length ns" for k
    using that flip [OF v v] irrefl by (auto simp: not_less le_less)
  ultimately show ?thesis by (simp add: set_index_pairs conj_assoc)
qed

lemma kept_nodes:
  assumes "\<forall>a \<in> set ns. valid a" "compare_nodes compare ns = (L, D)"
  defines "perm \<equiv> node_permutation L D (length ns)"
  shows "distinct perm" "set perm = {i. i < length ns \<and> \<not> D ! i}"
    "q < length perm \<Longrightarrow> p < length perm \<Longrightarrow> less_at ns (perm ! p) (perm ! q) \<Longrightarrow> p < q"
    "q < length perm \<Longrightarrow> p < length perm \<Longrightarrow> compare (ns ! (perm ! p)) (ns ! (perm ! q)) = Some Equal \<Longrightarrow> p = q"
    "i < length ns \<Longrightarrow> \<exists>p < length perm. compare (ns ! i) (ns ! (perm ! p)) = Some Equal"
proof -
  let ?n = "length ns"
  have v: "valid (ns ! i)" if "i < ?n" for i using assms(1) that by simp
  have L: "L ! k = {i. i < ?n \<and> less_at ns i k}" and D: "D ! k \<longleftrightarrow> (\<exists>j < k. compare (ns ! k) (ns ! j) = Some Equal)"
    if "k < ?n" for k using compare_nodes_spec [OF assms(1,2)] that by auto
  show dist: "distinct perm" and set: "set perm = {i. i < ?n \<and> \<not> D ! i}" by (auto simp: perm_def node_permutation_def)
  have lt: "perm ! p < ?n" "\<not> D ! (perm ! p)" if "p < length perm" for p using nth_mem [OF that] set by auto
  have card: "card (L ! i) < card (L ! j)" if "i < ?n" "j < ?n" "less_at ns i j" for i j
  proof (rule psubset_card_mono)
    have "i \<notin> L ! i" using that(1) L compare_refl [OF v [OF that(1)]] by auto
    then show "L ! i \<subset> L ! j" using L that less_trans [OF v v v] by blast
  qed (simp add: L that)
  have sorted: "sorted (map (\<lambda>i. card (L ! i)) perm)"
    unfolding perm_def node_permutation_def by (rule sorted_filter) simp
  show "p < q" if "q < length perm" "p < length perm" "less_at ns (perm ! p) (perm ! q)"
    using card [OF lt(1) lt(1) that(3)] sorted_nth_mono [OF sorted, of q p] that by (cases "p < q") auto
  show "p = q" if "q < length perm" "p < length perm" "compare (ns ! (perm ! p)) (ns ! (perm ! q)) = Some Equal"
  proof -
    have "\<not> perm ! q < perm ! p" using D [OF lt(1)] lt(2) that by blast
    moreover have "\<not> perm ! p < perm ! q" using D [OF lt(1)] lt(2) that eq_sym [OF v v that(3)] lt(1) by blast
    ultimately have "perm ! p = perm ! q" by simp
    then show ?thesis using dist that by (simp add: nth_eq_iff_index_eq)
  qed
  show "\<exists>p < length perm. compare (ns ! i) (ns ! (perm ! p)) = Some Equal" if "i < ?n"
    using that
  proof (induction i rule: less_induct)
    case (less i)
    show ?case
    proof (cases "D ! i")
      case True
      then obtain j where j: "j < i" "compare (ns ! i) (ns ! j) = Some Equal" using D less.prems by blast
      then obtain p where "p < length perm" "compare (ns ! j) (ns ! (perm ! p)) = Some Equal" using less by force
      then show ?thesis using j eq_trans [OF v v v] lt(1) less.prems by (meson order.strict_trans)
    next
      case False
      then have "i \<in> set perm" using set less.prems by simp
      then show ?thesis using compare_refl [OF v [OF less.prems]] by (metis in_set_conv_nth)
    qed
  qed
qed

lemma node_before_spec:
  assumes ns: "\<forall>a \<in> set ns. valid a" "compare_nodes compare ns = (L, D)"
    and iter: "\<forall>A. finite A \<longrightarrow> set (iter A) = A \<and> distinct (iter A)"
  defines "perm \<equiv> node_permutation L D (length ns)"
  assumes q: "q < length perm"
  shows "distinct (node_before iter L (invert_permutation perm (length ns)) (perm ! q))"
    "set (node_before iter L (invert_permutation perm (length ns)) (perm ! q)) = {p. p < length perm
      \<and> less_at ns (perm ! p) (perm ! q)
      \<and> \<not> (\<exists>r < length perm. less_at ns (perm ! p) (perm ! r) \<and> less_at ns (perm ! r) (perm ! q))}"
proof -
  let ?n = "length ns" and ?inv = "invert_permutation perm (length ns)"
  note kept = kept_nodes [OF ns, folded perm_def]
  have v: "valid (ns ! i)" if "i < ?n" for i using ns(1) that by simp
  have L: "L ! k = {i. i < ?n \<and> less_at ns i k}" if "k < ?n" for k using compare_nodes_spec [OF ns] that by auto
  have inv: "length ?inv = ?n" "\<And>p. p < length perm \<Longrightarrow> ?inv ! (perm ! p) = p"
    "\<And>i. i < ?n \<Longrightarrow> i \<notin> set perm \<Longrightarrow> ?inv ! i = ?n"
    using invert_permutation_spec [OF kept(1), of ?n] kept(2) by auto
  have lt: "perm ! p < ?n" if "p < length perm" for p using nth_mem [OF that] kept(2) by auto
  let ?m = "\<lambda>l. minimal_lesser L (perm ! q) l"
  have min: "?m l \<longleftrightarrow> \<not> (\<exists>r < length perm. less_at ns l (perm ! r) \<and> less_at ns (perm ! r) (perm ! q))" if "l < ?n" for l
  proof -
    have "(\<exists>o' < ?n. less_at ns o' (perm ! q) \<and> less_at ns l o') \<longleftrightarrow>
        (\<exists>r < length perm. less_at ns l (perm ! r) \<and> less_at ns (perm ! r) (perm ! q))"
    proof
      assume "\<exists>o' < ?n. less_at ns o' (perm ! q) \<and> less_at ns l o'"
      then obtain o' where o': "o' < ?n" "less_at ns o' (perm ! q)" "less_at ns l o'" by blast
      obtain r where r: "r < length perm" "compare (ns ! o') (ns ! (perm ! r)) = Some Equal" using kept(5) [OF o'(1)] by blast
      have "less_at ns l (perm ! r)" using less_eq [OF v v v o'(3) r(2)] that o'(1) lt r(1) by simp
      moreover have "less_at ns (perm ! r) (perm ! q)"
        using eq_less [OF v v v eq_sym [OF v v r(2)] o'(2)] lt r(1) o'(1) q by simp
      ultimately show "\<exists>r < length perm. less_at ns l (perm ! r) \<and> less_at ns (perm ! r) (perm ! q)" using r(1) by blast
    qed (use lt in blast)
    moreover have "?m l \<longleftrightarrow> \<not> (\<exists>o' < ?n. less_at ns o' (perm ! q) \<and> less_at ns l o')"
      using L [OF lt [OF q]] L that by (auto simp: minimal_lesser_def)
    ultimately show ?thesis by blast
  qed
  have it: "set (iter (L ! (perm ! q))) = {i. i < ?n \<and> less_at ns i (perm ! q)}" "distinct (iter (L ! (perm ! q)))"
    using iter L [OF lt [OF q]] by auto
  have nb: "node_before iter L ?inv (perm ! q) = filter (\<lambda>l. l \<noteq> ?n) (map ((!) ?inv) (filter ?m (iter (L ! (perm ! q)))))"
    by (simp add: node_before_def inv(1) comp_def)
  have fil: "filter (\<lambda>l. l \<noteq> ?n) (map ((!) ?inv) xs) = map ((!) ?inv) (filter (\<lambda>i. i \<in> set perm) xs)"
    if "set xs \<subseteq> {..<?n}" for xs
    using that
  proof (induction xs)
    case (Cons x xs)
    have "?inv ! x \<noteq> ?n \<longleftrightarrow> x \<in> set perm"
    proof
      assume "x \<in> set perm"
      then obtain p where p: "p < length perm" "x = perm ! p" by (auto simp: in_set_conv_nth)
      have "length perm \<le> ?n" using kept(1,2) distinct_card [OF kept(1)] card_mono [of "{..<?n}" "set perm"] by auto
      then show "?inv ! x \<noteq> ?n" using p inv(2) by simp
    qed (use inv(3) Cons.prems in auto)
    then show ?case using Cons by simp
  qed simp
  let ?ks = "filter (\<lambda>i. i \<in> set perm) (filter ?m (iter (L ! (perm ! q))))"
  have nb': "node_before iter L ?inv (perm ! q) = map ((!) ?inv) ?ks" unfolding nb by (rule fil) (use it(1) in auto)
  have "inj_on ((!) ?inv) (set perm)" by (rule inj_onI) (metis in_set_conv_nth inv(2))
  then have "inj_on ((!) ?inv) (set ?ks)" by (rule inj_on_subset) auto
  then show "distinct (node_before iter L ?inv (perm ! q))" using it(2) by (simp add: nb' distinct_map)
  have ks: "set ?ks = (!) perm ` {p. p < length perm \<and> less_at ns (perm ! p) (perm ! q) \<and> ?m (perm ! p)}"
    using it(1) lt by (auto simp: in_set_conv_nth image_iff)
  have "set (node_before iter L ?inv (perm ! q)) = (!) ?inv ` set ?ks" by (simp add: nb')
  also have "\<dots> = {p. p < length perm \<and> less_at ns (perm ! p) (perm ! q) \<and> ?m (perm ! p)}"
    unfolding ks image_image using inv(2) by auto
  finally show "set (node_before iter L ?inv (perm ! q)) = {p. p < length perm
      \<and> less_at ns (perm ! p) (perm ! q)
      \<and> \<not> (\<exists>r < length perm. less_at ns (perm ! p) (perm ! r) \<and> less_at ns (perm ! r) (perm ! q))}"
    using min lt by auto
qed

lemma from_order_minimal:
  assumes ns: "\<forall>a \<in> set ns. valid a" and iter: "\<forall>A. finite A \<longrightarrow> set (iter A) = A \<and> distinct (iter A)"
  shows "\<exists>d. from_order iter ns compare = Some d \<and> minimal_dag compare ns d"
proof -
  obtain L D where LD: "compare_nodes compare ns = (L, D)" by fastforce
  let ?n = "length ns"
  define perm where "perm = node_permutation L D ?n"
  define bef where "bef = map (node_before iter L (invert_permutation perm ?n)) perm"
  let ?ds = "map ((!) ns) perm"
  note kept = kept_nodes [OF ns LD, folded perm_def]
  note nb = node_before_spec [OF ns LD iter, folded perm_def]
  have perm: "set perm \<subseteq> {..<?n}" using kept(2) by auto
  have len: "length perm \<le> ?n" using distinct_card [OF kept(1)] card_mono [OF _ perm] by simp
  have bef: "length bef = length perm" "\<And>q. q < length perm \<Longrightarrow> bef ! q = node_before iter L (invert_permutation perm ?n) (perm ! q)"
    by (simp_all add: bef_def)
  have "\<forall>ids \<in> set bef. set ids \<subseteq> {..<length (map (\<lambda>_. []) ?ds)}"
    using nb(2) bef by (fastforce simp: in_set_conv_nth)
  from invert_edges_spec [OF this, of 0] obtain aft where aft:
    "invert_edges 0 bef (map (\<lambda>_. []) ?ds) = Some aft" "length aft = length perm"
    "\<And>p. p < length perm \<Longrightarrow> set (aft ! p) = {q. q < length perm \<and> p \<in> set (bef ! q)}"
    by (auto simp: bef(1))
  have "from_order iter ns compare = Some \<lparr>nodes = ?ds, before = bef, after = aft\<rparr>"
    using move_nodes_spec [OF kept(1) perm len] aft(1) unfolding from_order_def LD
    by (simp add: perm_def [symmetric] bef_def [symmetric] Let_def)
  moreover have "minimal_dag compare ns \<lparr>nodes = ?ds, before = bef, after = aft\<rparr>"
  proof -
    have "\<forall>a \<in> set ns. \<exists>b \<in> set ?ds. compare a b = Some Equal"
    proof
      fix a assume "a \<in> set ns"
      then obtain i where "i < ?n" "a = ns ! i" by (auto simp: in_set_conv_nth)
      then show "\<exists>b \<in> set ?ds. compare a b = Some Equal" using kept(5) [of i] by auto
    qed
    moreover have "set ?ds \<subseteq> set ns" using perm by auto
    ultimately show ?thesis unfolding minimal_dag_def using kept(3,4) bef nb aft(2,3) by (simp cong: conj_cong)
  qed
  ultimately show ?thesis by blast
qed

lemma minimal_dag_edges:
  assumes ns: "\<forall>a \<in> set ns. valid a" and d: "minimal_dag compare ns d"
  shows "topological (before d)" "(edges (before d))\<^sup>+ = {(p, q). p < length (nodes d) \<and> q < length (nodes d) \<and> less_at (nodes d) p q}"
proof -
  let ?m = "length (nodes d)"
  have sub: "set (nodes d) \<subseteq> set ns" using d by (simp add: minimal_dag_def)
  have v: "valid (nodes d ! p)" if "p < ?m" for p using nth_mem [OF that] sub ns by blast
  have sorted: "p < q" if "p < ?m" "q < ?m" "less_at (nodes d) p q" for p q using that d by (simp add: minimal_dag_def)
  have bef: "length (before d) = ?m" "\<forall>q < ?m. set (before d ! q) = {p. p < ?m \<and> less_at (nodes d) p q
      \<and> \<not> (\<exists>r < ?m. less_at (nodes d) p r \<and> less_at (nodes d) r q)}"
    using d by (simp_all add: minimal_dag_def)
  have edge: "(p, q) \<in> edges (before d) \<longleftrightarrow> p < ?m \<and> q < ?m \<and> less_at (nodes d) p q
      \<and> \<not> (\<exists>r < ?m. less_at (nodes d) p r \<and> less_at (nodes d) r q)" for p q
    using bef unfolding edges_def by fastforce
  show "topological (before d)" using edge sorted by (auto simp: topological_def)
  have "p < ?m \<and> q < ?m \<and> less_at (nodes d) p q" if "(p, q) \<in> (edges (before d))\<^sup>+" for p q
    using that
  proof (induction rule: trancl_induct)
    case (step r q)
    then show ?case using less_trans [OF v v v] edge by blast
  qed (use edge in blast)
  moreover have "(p, q) \<in> (edges (before d))\<^sup>+" if "p < ?m" "q < ?m" "less_at (nodes d) p q" for p q
    using that
  proof (induction "q - p" arbitrary: p q rule: less_induct)
    case less
    show ?case
    proof (cases "\<exists>r < ?m. less_at (nodes d) p r \<and> less_at (nodes d) r q")
      case True
      then obtain r where r: "r < ?m" "less_at (nodes d) p r" "less_at (nodes d) r q" by blast
      then have lt: "p < r" "r < q" using sorted less.prems by simp_all
      then have "r - p < q - p" "q - r < q - p" by simp_all
      then have "(p, r) \<in> (edges (before d))\<^sup>+" "(r, q) \<in> (edges (before d))\<^sup>+"
        using less.hyps [OF _ less.prems(1) r(1,2)] less.hyps [OF _ r(1) less.prems(2) r(3)] by blast+
      then show ?thesis by (rule trancl_trans)
    next
      case False
      then have "(p, q) \<in> edges (before d)" using edge less.prems by simp
      then show ?thesis by (rule r_into_trancl)
    qed
  qed
  ultimately show "(edges (before d))\<^sup>+ = {(p, q). p < ?m \<and> q < ?m \<and> less_at (nodes d) p q}"
    by blast
qed

lemma predecessors_lesser:
  assumes "\<forall>a \<in> set ns. valid a" "minimal_dag compare ns d" "q < length (nodes d)"
  shows "\<exists>ps. predecessors d q = Some ps \<and> distinct ps \<and> set ps = {p. p < length (nodes d) \<and> less_at (nodes d) p q}"
proof -
  have "q < length (before d)" using assms(2,3) by (simp add: minimal_dag_def)
  from predecessors_spec [OF minimal_dag_edges(1) [OF assms(1,2)] this] show ?thesis
    using assms(3) by (simp add: minimal_dag_edges(2) [OF assms(1,2)])
qed

lemma minima_minimal:
  assumes "\<forall>a \<in> set ns. valid a" "minimal_dag compare ns d"
  shows "set (minima d) = {q. q < length (nodes d) \<and> \<not> (\<exists>p < length (nodes d). less_at (nodes d) p q)}"
proof -
  let ?m = "length (nodes d)"
  have bef: "length (before d) = ?m" using assms(2) by (simp add: minimal_dag_def)
  have "before d ! q = [] \<longleftrightarrow> \<not> (\<exists>p < ?m. less_at (nodes d) p q)" if "q < ?m" for q
  proof -
    have "(\<exists>p. (p, q) \<in> edges (before d)) \<longleftrightarrow> (\<exists>p. (p, q) \<in> (edges (before d))\<^sup>+)" by (meson r_into_trancl tranclD2)
    also have "\<dots> \<longleftrightarrow> (\<exists>p < ?m. less_at (nodes d) p q)" using that by (auto simp: minimal_dag_edges(2) [OF assms])
    finally show ?thesis using that bef by (auto simp: edges_def)
  qed
  moreover have "set (minima d) = {q. q < ?m \<and> before d ! q = []}"
    by (auto simp: minima_def in_set_enumerate_eq bef image_iff)
  ultimately show ?thesis by auto
qed

end

text \<open>The inclusion of vector sets, as \<^verbatim>\<open>VecSet::partial_cmp\<close> decides it.\<close>

interpretation vec_sets: comparison vs_inv vs_partial_cmp
  by unfold_locales (auto simp: vs_partial_cmp_spec set_cmp_def split: if_splits)

section \<open>Properties\<close>

text \<open>C32: For every comparison that is a partial order on the nodes, \<^verbatim>\<open>from_order\<close> never panics nor reads uninitialised
  memory, and builds the minimal graph: one node of each class of equal nodes, lesser nodes first, whose edges are exactly the
  pairs with no node in between.\<close>
theorem from_order_builds_minimal_dag:
  assumes "comparison valid compare" "\<forall>a \<in> set ns. valid a" "\<forall>A. finite A \<longrightarrow> set (iter A) = A \<and> distinct (iter A)"
  shows "\<exists>d. from_order iter ns compare = Some d \<and> minimal_dag compare ns d"
  by (rule comparison.from_order_minimal [OF assms])

theorem from_order_builds_minimal_dag_witness:
  "\<exists>d. from_order sorted_list_of_set [vs_new [1, 2], vs_new [1], vs_new [2, 1], vs_new [3 :: nat]] vs_partial_cmp = Some d
    \<and> minimal_dag vs_partial_cmp [vs_new [1, 2], vs_new [1], vs_new [2, 1], vs_new [3]] d"
  by (rule from_order_builds_minimal_dag [OF vec_sets.comparison_axioms]) (auto simp: vs_inv_new)

text \<open>C33: In such a graph \<^verbatim>\<open>predecessors\<close> ends without panic and lists exactly the nodes that are lesser than the given one, each
  once, and \<^verbatim>\<open>minima\<close> lists the nodes without a lesser one.\<close>
theorem predecessors_are_lesser:
  assumes "comparison valid compare" "\<forall>a \<in> set ns. valid a" "minimal_dag compare ns d" "q < length (nodes d)"
  shows "\<exists>ps. predecessors d q = Some ps \<and> distinct ps
    \<and> set ps = {p. p < length (nodes d) \<and> compare (nodes d ! p) (nodes d ! q) = Some Less}
    \<and> (q \<in> set (minima d) \<longleftrightarrow> ps = [])"
proof -
  obtain ps where ps: "predecessors d q = Some ps" "distinct ps"
    "set ps = {p. p < length (nodes d) \<and> compare (nodes d ! p) (nodes d ! q) = Some Less}"
    using comparison.predecessors_lesser [OF assms] by blast
  moreover have "q \<in> set (minima d) \<longleftrightarrow> ps = []"
    unfolding set_empty [symmetric] comparison.minima_minimal [OF assms(1-3)] ps(3) using assms(4) by simp
  ultimately show ?thesis by blast
qed

theorem predecessors_are_lesser_witness:
  "\<exists>d ps. minimal_dag vs_partial_cmp [vs_new [1 :: nat], vs_new [2]] d \<and> predecessors d 0 = Some ps \<and> distinct ps
    \<and> (0 \<in> set (minima d) \<longleftrightarrow> ps = [])"
proof -
  obtain d where d: "minimal_dag vs_partial_cmp [vs_new [1 :: nat], vs_new [2]] d"
    using vec_sets.from_order_minimal [of "[vs_new [1 :: nat], vs_new [2]]" sorted_list_of_set] by (auto simp: vs_inv_new)
  then have "0 < length (nodes d)" by (auto simp: minimal_dag_def)
  then show ?thesis using predecessors_are_lesser [OF vec_sets.comparison_axioms _ d, of 0] d by (auto simp: vs_inv_new)
qed

end
