(* ===== verification/Perf_Bounds.thy ===== *)
theory Perf_Bounds
  imports IR_Filter
begin

text \<open>
  Bounds of the performance model and the pressure on the hardware they come from (\<^verbatim>\<open>src/model/hw_pressure.rs\<close>).

  The operations on \<^verbatim>\<open>f64\<close> are an argument, the record \<open>f64_ops\<close>: nothing here depends on how floats are rounded. The
  names of the bottlenecks of the device and the conversion of a level to its dimensions are arguments too.
\<close>

section \<open>Floats\<close>

record 'f f64_ops =
  f_zero :: 'f
  f_tolerance :: 'f
  f_add :: "'f \<Rightarrow> 'f \<Rightarrow> 'f"
  f_mul :: "'f \<Rightarrow> 'f \<Rightarrow> 'f"
  f_div :: "'f \<Rightarrow> 'f \<Rightarrow> 'f"
  f_max :: "'f \<Rightarrow> 'f \<Rightarrow> 'f"
  f_min :: "'f \<Rightarrow> 'f \<Rightarrow> 'f"
  f_less :: "'f \<Rightarrow> 'f \<Rightarrow> bool"
  f_eq :: "'f \<Rightarrow> 'f \<Rightarrow> bool"
  f_is_nan :: "'f \<Rightarrow> bool"
  f_of_u64 :: "64 word \<Rightarrow> 'f"
  f_sub :: "'f \<Rightarrow> 'f \<Rightarrow> 'f"
  f_abs :: "'f \<Rightarrow> 'f"
  f_epsilon :: 'f
  f_infinity :: 'f
  f_is_finite :: "'f \<Rightarrow> bool"
  f_is_infinite :: "'f \<Rightarrow> bool"
  f_to_usize :: "'f \<Rightarrow> nat"

text \<open>\<^verbatim>\<open>partial_cmp\<close> on floats; \<open>f_tolerance\<close> is the constant \<^verbatim>\<open>1.0 + 1.0e-6\<close>.\<close>

definition f_partial_cmp :: "'f f64_ops \<Rightarrow> 'f \<Rightarrow> 'f \<Rightarrow> ordering option" where
  "f_partial_cmp fl a b = (if f_less fl a b then Some Less else if f_less fl b a then Some Greater
     else if f_eq fl a b then Some Equal else None)"

section \<open>Bounds\<close>

datatype bottleneck_level = BL_Global | BL_Block | BL_Thread

datatype 'f fast_origin =
    FO_Latency
  | FO_Bottleneck nat bottleneck_level
  | FO_Loop (fo_level: nat) (fo_iterations: "64 word") (fo_inner: "'f fast_origin")
  | FO_Chain (fo_before: "'f fast_bound") (fo_mid_point: nat) (fo_after: "'f fast_bound")
  | FO_Scale "'f fast_origin" 'f
  and 'f fast_bound = FastBound (fb_value: 'f) (fb_size: nat) (fb_origin: "'f fast_origin")

definition fb_is_better_than :: "'f f64_ops \<Rightarrow> 'f fast_bound \<Rightarrow> 'f fast_bound \<Rightarrow> bool" where
  "fb_is_better_than fl self other =
     (if f_less fl (f_mul fl (f_tolerance fl) (fb_value other)) (fb_value self) then True
      else if f_less fl (f_mul fl (f_tolerance fl) (fb_value self)) (fb_value other) then False
      else fb_size self < fb_size other)"

definition fb_cmp :: "'f f64_ops \<Rightarrow> 'f fast_bound \<Rightarrow> 'f fast_bound \<Rightarrow> ordering option" where
  "fb_cmp fl self other = f_partial_cmp fl (fb_value self) (fb_value other)"

text \<open>\<^verbatim>\<open>cmp::max\<close>, which returns its second argument when the two are equal, and panics when they cannot be compared.\<close>

definition fb_max :: "'f f64_ops \<Rightarrow> 'f fast_bound \<Rightarrow> 'f fast_bound \<Rightarrow> 'f fast_bound option" where
  "fb_max fl a b = do { ord \<leftarrow> fb_cmp fl a b; Some (if ord = Greater then a else b) }"

definition fb_new :: "'f f64_ops \<Rightarrow> 'f \<Rightarrow> 'f fast_origin \<Rightarrow> 'f fast_bound option" where
  "fb_new fl v origin = (if f_is_nan fl v then None else Some (FastBound v 1 origin))"

definition fb_zero :: "'f f64_ops \<Rightarrow> 'f fast_bound option" where
  "fb_zero fl = fb_new fl (f_zero fl) FO_Latency"

definition fb_iterate :: "'f f64_ops \<Rightarrow> 64 word \<Rightarrow> nat \<Rightarrow> 'f fast_bound \<Rightarrow> 'f fast_bound" where
  "fb_iterate fl iterations level self =
     FastBound (f_mul fl (fb_value self) (f_of_u64 fl iterations)) (fb_size self + 1) (FO_Loop level iterations (fb_origin self))"

definition fb_chain :: "'f f64_ops \<Rightarrow> 'f fast_bound \<Rightarrow> nat \<Rightarrow> 'f fast_bound \<Rightarrow> 'f fast_bound" where
  "fb_chain fl self mid_point other =
     FastBound (f_add fl (fb_value self) (fb_value other)) (fb_size self + fb_size other) (FO_Chain self mid_point other)"

definition fb_scale :: "'f f64_ops \<Rightarrow> 64 word \<Rightarrow> 64 word \<Rightarrow> 64 word \<Rightarrow> 'f fast_bound \<Rightarrow> 'f fast_bound option" where
  "fb_scale fl hw_parallelism iterations max_par self = do {
     num_waves \<leftarrow> div_ceil max_par hw_parallelism;
     let scale = f_div fl (f_mul fl (f_of_u64 fl num_waves) (f_of_u64 fl iterations)) (f_of_u64 fl max_par);
     Some (FastBound (f_mul fl (fb_value self) scale) (fb_size self + 1) (FO_Scale (fb_origin self) scale)) }"

section \<open>Explanations\<close>

text \<open>Origins that do not refer to the model: a point is the set of dimensions of its level.\<close>

datatype code_point = CP_Inst nat | CP_LevelEntry nat | CP_LevelExit nat

datatype point = Pt_Inst nat | Pt_Entry "nat list" | Pt_Exit "nat list"

datatype 'f origin =
    Or_Latency
  | Or_Bottleneck string bottleneck_level
  | Or_Loop "nat list" "64 word" "'f origin"
  | Or_Chain "'f explained" point "'f explained"
  | Or_Scale "'f origin" 'f
  | Or_HardwareEvaluation
  and 'f explained = Explained (ex_value: 'f) (ex_size: nat) (ex_origin: "'f origin")

fun convert_point :: "nat list list \<Rightarrow> code_point \<Rightarrow> point option" where
  "convert_point levels (CP_Inst i) = Some (Pt_Inst i)"
| "convert_point levels (CP_LevelEntry i) = (if i < length levels then Some (Pt_Entry (levels ! i)) else None)"
| "convert_point levels (CP_LevelExit i) = (if i < length levels then Some (Pt_Exit (levels ! i)) else None)"

fun origin_simplify :: "'f f64_ops \<Rightarrow> 'f origin \<Rightarrow> bool \<times> 'f origin \<times> bool" where
  "origin_simplify fl (Or_Loop dims iterations inner) =
     (if iterations = 0 then (True, Or_Latency, True)
      else (True, Or_Loop dims iterations (fst (snd (origin_simplify fl inner))), True))"
| "origin_simplify fl (Or_Scale inner scale) = (False, Or_Scale (fst (snd (origin_simplify fl inner))) scale, False)"
| "origin_simplify fl (Or_Chain (Explained bv bs bo) mid_point (Explained av as ao)) =
     (let (trim_preds, before_origin, trim_after) = origin_simplify fl bo;
          (trim_before, after_origin, trim_succs) = origin_simplify fl ao;
          trim_preds = (trim_preds \<or> f_eq fl bv (f_zero fl));
          trim_succs = (trim_succs \<or> f_eq fl av (f_zero fl))
      in if trim_before \<and> f_eq fl bv (f_zero fl) then (True, after_origin, trim_succs)
         else if trim_after \<and> f_eq fl av (f_zero fl) then (trim_preds, before_origin, True)
         else (trim_preds, Or_Chain (Explained bv bs before_origin) mid_point (Explained av bs after_origin), trim_succs))"
| "origin_simplify fl x = (False, x, False)"

text \<open>\<^verbatim>\<open>FastOrigin::explain\<close> and \<^verbatim>\<open>FastBound::explain\<close>; an index out of range panics.\<close>

fun fo_explain :: "'f f64_ops \<Rightarrow> string list \<Rightarrow> nat list list \<Rightarrow> code_point list \<Rightarrow> 'f fast_origin \<Rightarrow> 'f origin option"
  and fb_explain :: "'f f64_ops \<Rightarrow> string list \<Rightarrow> nat list list \<Rightarrow> code_point list \<Rightarrow> 'f fast_bound \<Rightarrow> 'f explained option" where
  "fo_explain fl names levels points FO_Latency = Some Or_Latency"
| "fo_explain fl names levels points (FO_Bottleneck i level) = (if i < length names then Some (Or_Bottleneck (names ! i) level) else None)"
| "fo_explain fl names levels points (FO_Chain bef mid_point aft) = do {
     mid_point \<leftarrow> (if mid_point < length points then convert_point levels (points ! mid_point) else None);
     b \<leftarrow> fb_explain fl names levels points bef;
     a \<leftarrow> fb_explain fl names levels points aft;
     Some (Or_Chain b mid_point a) }"
| "fo_explain fl names levels points (FO_Loop level iterations inner) = do {
     inner \<leftarrow> fo_explain fl names levels points inner;
     if level < length levels then Some (Or_Loop (levels ! level) iterations inner) else None }"
| "fo_explain fl names levels points (FO_Scale inner scale) = do {
     inner \<leftarrow> fo_explain fl names levels points inner;
     Some (Or_Scale inner scale) }"
| "fb_explain fl names levels points (FastBound v n origin) = do {
     origin \<leftarrow> fo_explain fl names levels points origin;
     Some (Explained v n (fst (snd (origin_simplify fl origin)))) }"

definition from_actual_time :: "'f \<Rightarrow> 'f explained" where
  "from_actual_time v = Explained v 1 Or_HardwareEvaluation"

section \<open>Pressure on the hardware\<close>

record 'f hw_pressure =
  hw_latency :: 'f
  bottlenecks :: "'f list"

definition hw_zero :: "'f f64_ops \<Rightarrow> string list \<Rightarrow> 'f hw_pressure" where
  "hw_zero fl names = \<lparr>hw_latency = f_zero fl, bottlenecks = map (\<lambda>_. f_zero fl) names\<rparr>"

text \<open>\<^verbatim>\<open>zip_eq\<close> panics on lists of different lengths.\<close>

definition zip_eq :: "'a list \<Rightarrow> 'b list \<Rightarrow> ('a \<times> 'b) list option" where
  "zip_eq xs ys = (if length xs = length ys then Some (zip xs ys) else None)"

text \<open>\<^verbatim>\<open>Iterator::max\<close> keeps the last of equal elements.\<close>

fun fb_max_list :: "'f f64_ops \<Rightarrow> 'f fast_bound \<Rightarrow> 'f fast_bound list \<Rightarrow> 'f fast_bound option" where
  "fb_max_list fl acc [] = Some acc"
| "fb_max_list fl acc (b # bs) = do { acc \<leftarrow> fb_max fl acc b; fb_max_list fl acc bs }"

definition hw_bound :: "'f f64_ops \<Rightarrow> bottleneck_level \<Rightarrow> 'f hw_pressure \<Rightarrow> 'f hw_pressure \<Rightarrow> 'f fast_bound option" where
  "hw_bound fl level rates self = do {
     latency \<leftarrow> fb_new fl (f_div fl (hw_latency self) (hw_latency rates)) FO_Latency;
     pairs \<leftarrow> zip_eq (bottlenecks self) (bottlenecks rates);
     bs \<leftarrow> those (map (\<lambda>(i, (v, rate)). fb_new fl (f_div fl v rate) (FO_Bottleneck i level)) (enumerate 0 pairs));
     (case bs @ [latency] of b # bs \<Rightarrow> fb_max_list fl b bs | [] \<Rightarrow> None) }"

definition hw_zip :: "('f \<Rightarrow> 'f \<Rightarrow> 'f) \<Rightarrow> 'f hw_pressure \<Rightarrow> 'f hw_pressure \<Rightarrow> 'f list option" where
  "hw_zip f other self = do {
     pairs \<leftarrow> zip_eq (bottlenecks other) (bottlenecks self);
     Some (map (\<lambda>(o', b). f b o') pairs) }"

definition hw_add_parallel :: "'f f64_ops \<Rightarrow> 'f hw_pressure \<Rightarrow> 'f hw_pressure \<Rightarrow> 'f hw_pressure option" where
  "hw_add_parallel fl other self = do {
     bs \<leftarrow> hw_zip (f_add fl) other self;
     Some \<lparr>hw_latency = f_max fl (hw_latency self) (hw_latency other), bottlenecks = bs\<rparr> }"

definition hw_add_sequential :: "'f f64_ops \<Rightarrow> 'f hw_pressure \<Rightarrow> 'f hw_pressure \<Rightarrow> 'f hw_pressure option" where
  "hw_add_sequential fl other self = do {
     bs \<leftarrow> hw_zip (f_add fl) other self;
     Some \<lparr>hw_latency = f_add fl (hw_latency self) (hw_latency other), bottlenecks = bs\<rparr> }"

definition hw_repeat_parallel :: "'f f64_ops \<Rightarrow> 'f \<Rightarrow> 'f hw_pressure \<Rightarrow> 'f hw_pressure" where
  "hw_repeat_parallel fl x self = self\<lparr>bottlenecks := map (\<lambda>b. f_mul fl b x) (bottlenecks self)\<rparr>"

definition hw_repeat_and_add_bottlenecks :: "'f f64_ops \<Rightarrow> 'f \<Rightarrow> 'f hw_pressure \<Rightarrow> 'f hw_pressure \<Rightarrow> 'f hw_pressure option" where
  "hw_repeat_and_add_bottlenecks fl x other self = do {
     bs \<leftarrow> hw_zip (\<lambda>b o'. f_add fl b (f_mul fl o' x)) other self;
     Some (self\<lparr>bottlenecks := bs\<rparr>) }"

definition hw_repeat_sequential :: "'f f64_ops \<Rightarrow> 'f \<Rightarrow> 'f hw_pressure \<Rightarrow> 'f hw_pressure" where
  "hw_repeat_sequential fl x self =
     \<lparr>hw_latency = f_mul fl (hw_latency self) x, bottlenecks = map (\<lambda>b. f_mul fl b x) (bottlenecks self)\<rparr>"

definition hw_minimize :: "'f f64_ops \<Rightarrow> 'f hw_pressure \<Rightarrow> 'f hw_pressure \<Rightarrow> 'f hw_pressure option" where
  "hw_minimize fl other self = do {
     bs \<leftarrow> hw_zip (f_min fl) other self;
     Some \<lparr>hw_latency = f_min fl (hw_latency self) (hw_latency other), bottlenecks = bs\<rparr> }"

text \<open>The inner option is \<^verbatim>\<open>None\<close> for an empty iterator.\<close>

definition hw_min :: "'f f64_ops \<Rightarrow> 'f hw_pressure list \<Rightarrow> 'f hw_pressure option option" where
  "hw_min fl ps = (case ps of [] \<Rightarrow> Some None | p # ps \<Rightarrow> map_option Some (fold_option (hw_minimize fl) ps p))"

definition hw_multiply :: "'f f64_ops \<Rightarrow> 'f hw_pressure \<Rightarrow> 'f hw_pressure \<Rightarrow> 'f hw_pressure option" where
  "hw_multiply fl other self = do {
     bs \<leftarrow> hw_zip (f_mul fl) other self;
     Some \<lparr>hw_latency = f_mul fl (hw_latency self) (hw_latency other), bottlenecks = bs\<rparr> }"

section \<open>Properties\<close>

text \<open>Simplifying the explanation of a chain gives the second bound the recorded size of the first one.\<close>
theorem simplify_copies_before_size:
  "\<exists>p q. origin_simplify fl (Or_Chain (Explained v m Or_Latency) mid_point (Explained w n Or_Latency))
    = (p, Or_Chain (Explained v m Or_Latency) mid_point (Explained w m Or_Latency), q)"
  by simp

end
