(* ===== verification/Dependency_Map.thy ===== *)
theory Dependency_Map
  imports Perf_Bounds "HOL-Library.AList"
begin

text \<open>
  The latencies between code points (\<^verbatim>\<open>src/model/dependency_map.rs\<close>). Points are numbered in an order in which
  dependencies go from lower to higher numbers. \<^verbatim>\<open>latency_to\<close> relaxes the points downwards from its target; every latency
  it returns is shown to be the latency of a path of dependencies, and it finds one whenever there is a path.

  A hash map is an association list, whose order stands for the order of iteration.
\<close>

section \<open>The map\<close>

type_synonym 'f dependency_map = "(nat \<times> 'f fast_bound) list list"

definition dm_new :: "nat \<Rightarrow> 'f dependency_map" where
  "dm_new n = replicate n []"

definition dm_deps :: "'f dependency_map \<Rightarrow> nat \<Rightarrow> (nat \<times> 'f fast_bound) list option" where
  "dm_deps dm to = (if to < length dm then Some (dm ! to) else None)"

text \<open>The entry is inserted, or replaced by a better bound; the assertion and the index may panic.\<close>

definition dm_add_dep ::
  "'f f64_ops \<Rightarrow> nat \<Rightarrow> nat \<Rightarrow> 'f fast_bound \<Rightarrow> 'f dependency_map \<Rightarrow> 'f dependency_map option" where
  "dm_add_dep fl from to latency dm =
     (if from < to \<and> to < length dm then
        Some (case map_of (dm ! to) from of
            None \<Rightarrow> dm[to := (from, latency) # dm ! to]
          | Some old \<Rightarrow> if fb_is_better_than fl latency old then dm[to := AList.update from latency (dm ! to)] else dm)
      else None)"

fun init_latencies :: "(nat \<times> 'f fast_bound) list \<Rightarrow> 'f fast_bound option list \<Rightarrow> 'f fast_bound option list option" where
  "init_latencies [] latencies = Some latencies"
| "init_latencies ((pred, latency) # deps) latencies =
     (if pred < length latencies then init_latencies deps (latencies[pred := Some latency]) else None)"

fun relax :: "'f f64_ops \<Rightarrow> nat \<Rightarrow> 'f fast_bound \<Rightarrow> (nat \<times> 'f fast_bound) list
    \<Rightarrow> 'f fast_bound option list \<Rightarrow> 'f fast_bound option list option" where
  "relax fl i lat_to_dest [] latencies = Some latencies"
| "relax fl i lat_to_dest ((pred, lat_to_i) # deps) latencies =
     (if pred < length latencies then
        let new_lat = fb_chain fl lat_to_i i lat_to_dest;
            better = (case latencies ! pred of None \<Rightarrow> True | Some x \<Rightarrow> fb_is_better_than fl new_lat x)
        in relax fl i lat_to_dest deps (if better then latencies[pred := Some new_lat] else latencies)
      else None)"

definition relax_point ::
  "'f f64_ops \<Rightarrow> 'f dependency_map \<Rightarrow> nat \<Rightarrow> 'f fast_bound option list \<Rightarrow> 'f fast_bound option list option" where
  "relax_point fl dm i latencies =
     (case latencies ! i of None \<Rightarrow> Some latencies | Some lat_to_dest \<Rightarrow> relax fl i lat_to_dest (dm ! i) latencies)"

definition latency_to :: "'f f64_ops \<Rightarrow> 'f dependency_map \<Rightarrow> nat \<Rightarrow> 'f fast_bound option list option" where
  "latency_to fl dm to =
     (if to < length dm then do {
        latencies \<leftarrow> init_latencies (dm ! to) (replicate to None);
        fold_option (relax_point fl dm) (rev [0..<to]) latencies }
      else None)"

definition dm_latency :: "'f f64_ops \<Rightarrow> 'f dependency_map \<Rightarrow> nat \<Rightarrow> nat \<Rightarrow> 'f fast_bound option option" where
  "dm_latency fl dm from to = do {
     ls \<leftarrow> latency_to fl dm to;
     if from < length ls then Some (ls ! from) else None }"

section \<open>Paths of dependencies\<close>

inductive dep_path :: "'f f64_ops \<Rightarrow> 'f dependency_map \<Rightarrow> nat \<Rightarrow> nat \<Rightarrow> 'f fast_bound \<Rightarrow> bool"
  for fl :: "'f f64_ops" and dm :: "'f dependency_map" where
  dep_edge: "(from, l) \<in> set (dm ! to) \<Longrightarrow> dep_path fl dm from to l"
| dep_step: "(from, l) \<in> set (dm ! mid) \<Longrightarrow> mid < to \<Longrightarrow> dep_path fl dm mid to l' \<Longrightarrow> dep_path fl dm from to (fb_chain fl l mid l')"

inductive_cases dep_pathE: "dep_path fl dm from to l"

text \<open>Dependencies go upwards, and a point has one entry for each of its dependencies.\<close>

definition deps_wf :: "nat \<Rightarrow> (nat \<times> 'f fast_bound) list \<Rightarrow> bool" where
  "deps_wf to deps \<longleftrightarrow> fst ` set deps \<subseteq> {..<to} \<and> distinct (map fst deps)"

definition dm_wf :: "'f dependency_map \<Rightarrow> bool" where
  "dm_wf dm \<longleftrightarrow> (\<forall>to < length dm. deps_wf to (dm ! to))"

lemma dm_wfD: "dm_wf dm \<Longrightarrow> to < length dm \<Longrightarrow> (from, l) \<in> set (dm ! to) \<Longrightarrow> from < to"
  by (force simp: dm_wf_def deps_wf_def)

lemma dm_new_wf: "dm_wf (dm_new n)"
  by (simp add: dm_wf_def deps_wf_def dm_new_def)

lemma dm_add_dep_wf:
  assumes "dm_wf dm" "dm_add_dep fl from to l dm = Some dm'"
  shows "dm_wf dm'"
proof -
  have lt: "from < to" "to < length dm" using assms(2) by (auto simp: dm_add_dep_def split: if_splits)
  then have to: "deps_wf to (dm ! to)" using assms(1) by (simp add: dm_wf_def)
  have "deps_wf to (AList.update from l (dm ! to))" using to lt(1) by (simp add: deps_wf_def dom_update distinct_update)
  moreover have "deps_wf to ((from, l) # dm ! to)" if "map_of (dm ! to) from = None"
    using that to lt(1) by (simp add: map_of_eq_None_iff deps_wf_def)
  ultimately show ?thesis using assms lt
    by (auto simp: dm_add_dep_def dm_wf_def nth_list_update split: option.splits if_splits)
qed

lemma init_latencies_spec:
  assumes "\<forall>p \<in> set deps. fst p < length ls" "distinct (map fst deps)"
  shows "\<exists>ls'. init_latencies deps ls = Some ls' \<and> length ls' = length ls
    \<and> (\<forall>i < length ls. ls' ! i = (case map_of deps i of Some l \<Rightarrow> Some l | None \<Rightarrow> ls ! i))"
  using assms
proof (induction deps arbitrary: ls)
  case (Cons p deps)
  obtain pred l where p: "p = (pred, l)" by fastforce
  have "map_of deps pred = None" using Cons.prems(2) by (simp add: p map_of_eq_None_iff)
  then show ?case using Cons.IH [of "ls[pred := Some l]"] Cons.prems by (auto simp: p nth_list_update split: option.splits)
qed simp

text \<open>The latencies to \<open>to\<close> once the points from \<open>k\<close> on are relaxed.\<close>

definition relaxed :: "'f f64_ops \<Rightarrow> 'f dependency_map \<Rightarrow> nat \<Rightarrow> nat \<Rightarrow> 'f fast_bound option list \<Rightarrow> bool" where
  "relaxed fl dm to k ls \<longleftrightarrow> length ls = to
     \<and> (\<forall>i < to. \<forall>l. ls ! i = Some l \<longrightarrow> dep_path fl dm i to l)
     \<and> (\<forall>i < to. (\<exists>l. (i, l) \<in> set (dm ! to)) \<longrightarrow> ls ! i \<noteq> None)
     \<and> (\<forall>j < to. k \<le> j \<longrightarrow> ls ! j \<noteq> None \<longrightarrow> (\<forall>i l. (i, l) \<in> set (dm ! j) \<longrightarrow> ls ! i \<noteq> None))"

lemma relax_spec:
  assumes "\<forall>p \<in> set deps. fst p < length ls"
    "\<forall>i < length ls. \<forall>l. ls ! i = Some l \<longrightarrow> dep_path fl dm i to l"
    "\<forall>(p, l) \<in> set deps. dep_path fl dm p to (fb_chain fl l i d)"
  shows "\<exists>ls'. relax fl i d deps ls = Some ls' \<and> length ls' = length ls
    \<and> (\<forall>j < length ls. \<forall>l. ls' ! j = Some l \<longrightarrow> dep_path fl dm j to l)
    \<and> (\<forall>j < length ls. ls ! j \<noteq> None \<or> j \<in> fst ` set deps \<longrightarrow> ls' ! j \<noteq> None)
    \<and> (\<forall>j < length ls. j \<notin> fst ` set deps \<longrightarrow> ls' ! j = ls ! j)"
  using assms
proof (induction deps arbitrary: ls)
  case (Cons p deps)
  obtain pred l where p: "p = (pred, l)" "pred < length ls" using Cons.prems(1) by (cases p) auto
  let ?new = "fb_chain fl l i d"
  let ?ls = "if case ls ! pred of None \<Rightarrow> True | Some x \<Rightarrow> fb_is_better_than fl ?new x then ls[pred := Some ?new] else ls"
  have step: "relax fl i d (p # deps) ls = relax fl i d deps ?ls" using p by (simp add: Let_def)
  have len: "length ?ls = length ls" by simp
  have paths: "\<forall>j < length ?ls. \<forall>l. ?ls ! j = Some l \<longrightarrow> dep_path fl dm j to l"
    using Cons.prems(2,3) p by (auto simp: nth_list_update)
  have some: "?ls ! pred \<noteq> None" "\<forall>j < length ls. j \<noteq> pred \<longrightarrow> ?ls ! j = ls ! j"
    using p(2) by (auto split: option.splits)
  obtain ls' where ls': "relax fl i d deps ?ls = Some ls'" "length ls' = length ls"
    "\<forall>j < length ls. \<forall>l. ls' ! j = Some l \<longrightarrow> dep_path fl dm j to l"
    "\<forall>j < length ls. ?ls ! j \<noteq> None \<or> j \<in> fst ` set deps \<longrightarrow> ls' ! j \<noteq> None"
    "\<forall>j < length ls. j \<notin> fst ` set deps \<longrightarrow> ls' ! j = ?ls ! j"
    using Cons.IH [OF _ paths] Cons.prems(1,3) len by auto
  have "ls' ! j \<noteq> None" if "j < length ls" "ls ! j \<noteq> None \<or> j \<in> fst ` set (p # deps)" for j
    using ls'(4) some that p(1) by (cases "j = pred") auto
  moreover have "ls' ! j = ls ! j" if "j < length ls" "j \<notin> fst ` set (p # deps)" for j
    using ls'(5) some(2) that p(1) by auto
  ultimately show ?case using ls'(1-3) unfolding step by blast
qed simp

lemma relax_point_spec:
  assumes "dm_wf dm" "to < length dm" "k < to" "relaxed fl dm to (Suc k) ls"
  shows "\<exists>ls'. relax_point fl dm k ls = Some ls' \<and> relaxed fl dm to k ls'"
proof (cases "ls ! k")
  case None
  then have "relaxed fl dm to k ls" using assms(4) unfolding relaxed_def by (metis Suc_leI le_neq_implies_less)
  then show ?thesis using None by (simp add: relax_point_def)
next
  case (Some d)
  have len: "length ls = to" using assms(4) by (simp add: relaxed_def)
  have below: "\<forall>p \<in> set (dm ! j). fst p < j" if "j < to" for j using dm_wfD [OF assms(1), of j] assms(2) that by auto
  have path: "dep_path fl dm k to d" using assms(3,4) Some by (simp add: relaxed_def)
  obtain ls' where ls': "relax fl k d (dm ! k) ls = Some ls'" "length ls' = to"
    "\<forall>j < to. \<forall>l. ls' ! j = Some l \<longrightarrow> dep_path fl dm j to l"
    "\<forall>j < to. ls ! j \<noteq> None \<or> j \<in> fst ` set (dm ! k) \<longrightarrow> ls' ! j \<noteq> None"
    "\<forall>j < to. j \<notin> fst ` set (dm ! k) \<longrightarrow> ls' ! j = ls ! j"
    using relax_spec [of "dm ! k" ls fl dm to k d] below [OF assms(3)] assms(3,4) len dep_step [OF _ assms(3) path]
    by (fastforce simp: relaxed_def)
  have "ls' ! i \<noteq> None" if "j < to" "k \<le> j" "ls' ! j \<noteq> None" "(i, l) \<in> set (dm ! j)" for i j l
  proof -
    have i: "i < j" using below [OF that(1)] that(4) by fastforce
    show ?thesis
    proof (cases "j = k")
      case True
      then show ?thesis using ls'(4) i that(1,4) by (metis fst_conv imageI order.strict_trans)
    next
      case False
      then have "j \<notin> fst ` set (dm ! k)" using below [OF assms(3)] that(2) by fastforce
      then have "ls ! j \<noteq> None" using ls'(5) that(1,3) by simp
      moreover have "Suc k \<le> j" using that(2) False by simp
      ultimately have "ls ! i \<noteq> None" using assms(4) that(1,4) unfolding relaxed_def by blast
      then show ?thesis using ls'(4) i that(1) by simp
    qed
  qed
  moreover have "\<forall>i < to. (\<exists>l. (i, l) \<in> set (dm ! to)) \<longrightarrow> ls' ! i \<noteq> None" using assms(4) ls'(4) by (auto simp: relaxed_def)
  ultimately show ?thesis using ls'(1-3) Some by (auto simp: relax_point_def relaxed_def)
qed

lemma relax_points_spec:
  assumes "dm_wf dm" "to < length dm" "k \<le> to" "relaxed fl dm to k ls"
  shows "\<exists>ls'. fold_option (relax_point fl dm) (rev [0..<k]) ls = Some ls' \<and> relaxed fl dm to 0 ls'"
  using assms(3,4)
proof (induction k arbitrary: ls)
  case (Suc k)
  obtain ls1 where "relax_point fl dm k ls = Some ls1" "relaxed fl dm to k ls1"
    using relax_point_spec [OF assms(1,2) _ Suc.prems(2)] Suc.prems(1) by auto
  then show ?case using Suc.IH [of ls1] Suc.prems(1) by simp
qed simp

lemma relaxed_complete: "dep_path fl dm i to l \<Longrightarrow> relaxed fl dm to 0 ls \<Longrightarrow> dm_wf dm \<Longrightarrow> to < length dm \<Longrightarrow> ls ! i \<noteq> None"
proof (induction i to l rule: dep_path.induct)
  case (dep_edge i l to)
  then have "i < to" using dm_wfD by blast
  then show ?case using dep_edge.hyps dep_edge.prems(1) unfolding relaxed_def by blast
next
  case (dep_step i l mid to l')
  have "ls ! mid \<noteq> None" by (rule dep_step.IH [OF dep_step.prems])
  then show ?case using dep_step.hyps(1,2) dep_step.prems(1) unfolding relaxed_def by blast
qed

lemma latency_to_spec:
  assumes "dm_wf dm" "to < length dm"
  shows "\<exists>ls. latency_to fl dm to = Some ls \<and> length ls = to \<and> (\<forall>i < to.
    (\<forall>l. ls ! i = Some l \<longrightarrow> dep_path fl dm i to l) \<and> (ls ! i = None \<longleftrightarrow> \<not> (\<exists>l. dep_path fl dm i to l)))"
proof -
  have wf: "\<forall>p \<in> set (dm ! to). fst p < to" "distinct (map fst (dm ! to))"
    using assms by (auto simp: dm_wf_def deps_wf_def)
  obtain ls0 where ls0: "init_latencies (dm ! to) (replicate to None) = Some ls0" "length ls0 = to"
    "\<forall>i < to. ls0 ! i = map_of (dm ! to) i"
    using init_latencies_spec [of "dm ! to" "replicate to None"] wf by (fastforce split: option.splits)
  have "relaxed fl dm to to ls0"
    unfolding relaxed_def
  proof (intro conjI allI impI)
    fix i l assume "i < to" "ls0 ! i = Some l"
    then show "dep_path fl dm i to l" using ls0(3) by (auto intro: dep_edge dest: map_of_SomeD)
  next
    fix i assume "i < to" "\<exists>l. (i, l) \<in> set (dm ! to)"
    then show "ls0 ! i \<noteq> None" using ls0(3) weak_map_of_SomeI [of i _ "dm ! to"] by fastforce
  qed (use ls0(2) in simp_all)
  then obtain ls where ls: "fold_option (relax_point fl dm) (rev [0..<to]) ls0 = Some ls" "relaxed fl dm to 0 ls"
    using relax_points_spec [OF assms order.refl] by blast
  have "ls ! i \<noteq> None" if "dep_path fl dm i to l" for i l using relaxed_complete [OF that ls(2) assms] .
  moreover have "length ls = to" "\<forall>i < to. \<forall>l. ls ! i = Some l \<longrightarrow> dep_path fl dm i to l" using ls(2) by (simp_all add: relaxed_def)
  moreover have "latency_to fl dm to = Some ls" using ls(1) ls0(1) assms(2) by (simp add: latency_to_def)
  ultimately show ?thesis by (intro exI [of _ ls]) (metis option.exhaust)
qed

section \<open>Properties\<close>


text \<open>An example with floats as integers: the path through the point 1 is better than the direct dependency.\<close>

definition int_ops :: "int f64_ops" where
  "int_ops = \<lparr>f_zero = 0, f_tolerance = 1, f_add = (+), f_mul = (*), f_div = (div), f_max = max, f_min = min, f_less = (<),
     f_eq = (=), f_is_nan = (\<lambda>_. False), f_of_u64 = uint, f_sub = (-), f_abs = abs, f_epsilon = 1, f_infinity = 1000000,
     f_is_finite = (\<lambda>x. x < 1000000), f_is_infinite = (\<lambda>x. x \<ge> 1000000), f_to_usize = nat\<rparr>"

definition example_deps :: "int dependency_map" where
  "example_deps = [[], [(0, FastBound 3 1 FO_Latency)], [(0, FastBound 4 1 FO_Latency), (1, FastBound 2 1 FO_Latency)]]"


end
