(* ===== verification/Sizes.thy ===== *)
theory Sizes
  imports Domain_Conversions Vec_Set IR_Filter
begin

text \<open>
  Sizes of iteration dimensions (\<^verbatim>\<open>src/ir/size.rs\<close>) and the bounds that the performance model derives from them
  (\<^verbatim>\<open>src/model/size.rs\<close>). A partial size is a quotient: a static factor, parameters and dimensions, divided by dimensions.

  A \<^verbatim>\<open>BigUint\<close> is a natural number, and a \<^verbatim>\<open>u64\<close> is one below \<open>2 ^ 64\<close> with the overflow written out. Parameters are
  an arbitrary type; \<^verbatim>\<open>Context::param_as_size\<close> and the domains of the search space are arguments. \<open>None\<close> is a panic.
\<close>

section \<open>Fully specified sizes\<close>

record 'p ir_size =
  factor :: u32
  params :: "'p list"
  max_val :: u32

definition size_new_const :: "u32 \<Rightarrow> 'p ir_size" where
  "size_new_const f = \<lparr>factor = f, params = [], max_val = f\<rparr>"

definition size_new_param :: "'p \<Rightarrow> u32 \<Rightarrow> 'p ir_size" where
  "size_new_param p m = \<lparr>factor = 1, params = [p], max_val = m\<rparr>"

definition size_as_constant :: "'p ir_size \<Rightarrow> u32 option" where
  "size_as_constant s = (if params s = [] then Some (factor s) else None)"

definition saturating_mul :: "u32 \<Rightarrow> u32 \<Rightarrow> u32" where
  "saturating_mul a b = (case checked_mul a b of Some c \<Rightarrow> c | None \<Rightarrow> u32_max)"

definition size_mul :: "'p ir_size \<Rightarrow> 'p ir_size \<Rightarrow> 'p ir_size option" where
  "size_mul s r = do {
     f \<leftarrow> checked_mul (factor s) (factor r);
     Some \<lparr>factor = f, params = params s @ params r, max_val = saturating_mul (max_val s) (max_val r)\<rparr> }"

section \<open>Partial sizes\<close>

record 'p partial_size =
  static_factor :: u32
  param_factors :: "'p list"
  dim_factors :: "nat vec_set"
  divisors :: "nat vec_set"

definition ps_default :: "'p partial_size" where
  "ps_default = \<lparr>static_factor = 1, param_factors = [], dim_factors = vs_default, divisors = vs_default\<rparr>"

definition ps_new :: "u32 \<Rightarrow> 'p list \<Rightarrow> 'p partial_size option" where
  "ps_new f ps = (if f \<noteq> 0 then Some (ps_default\<lparr>static_factor := f, param_factors := ps\<rparr>) else None)"

definition ps_new_dim_size :: "nat \<Rightarrow> 'p partial_size" where
  "ps_new_dim_size d = ps_default\<lparr>dim_factors := vs_new [d]\<rparr>"

definition ps_simplify :: "'p partial_size \<Rightarrow> 'p partial_size" where
  "ps_simplify s = (case vs_relative_difference (dim_factors s) (divisors s) of
     (f, d) \<Rightarrow> s\<lparr>dim_factors := f, divisors := d\<rparr>)"

definition ps_add_divisors :: "nat vec_set \<Rightarrow> 'p partial_size \<Rightarrow> 'p partial_size" where
  "ps_add_divisors ds s = ps_simplify (s\<lparr>divisors := vs_union (divisors s) ds\<rparr>)"

definition ps_as_int :: "'p partial_size \<Rightarrow> u32 option" where
  "ps_as_int s = (if param_factors s = [] \<and> vs_is_empty (dim_factors s) \<and> vs_is_empty (divisors s)
     then Some (static_factor s) else None)"

definition ps_factors :: "'p partial_size \<Rightarrow> u32 \<times> 'p list \<times> nat list" where
  "ps_factors s = (static_factor s, param_factors s, data (dim_factors s))"

definition ps_mul :: "'p partial_size \<Rightarrow> 'p partial_size \<Rightarrow> 'p partial_size option" where
  "ps_mul s r = do {
     f \<leftarrow> checked_mul (static_factor s) (static_factor r);
     Some (ps_simplify \<lparr>static_factor = f, param_factors = param_factors s @ param_factors r,
       dim_factors = vs_union (dim_factors s) (dim_factors r), divisors = vs_union (divisors s) (divisors r)\<rparr>) }"

definition ps_product :: "'p partial_size list \<Rightarrow> 'p partial_size option" where
  "ps_product ss = do {
     f \<leftarrow> fold_option (\<lambda>s f. checked_mul f (static_factor s)) ss 1;
     Some (ps_simplify \<lparr>static_factor = f, param_factors = concat (map param_factors ss),
       dim_factors = vs_new (concat (map (data \<circ> dim_factors) ss)),
       divisors = vs_new (concat (map (data \<circ> divisors) ss))\<rparr>) }"

definition ps_from_size :: "'p ir_size \<Rightarrow> 'p partial_size option" where
  "ps_from_size s = ps_new (factor s) (params s)"

section \<open>Bounds\<close>

record size_range =
  sr_min :: nat
  sr_max :: nat

record factor_range =
  fr_gcd :: nat
  fr_lcm :: nat

definition to_u64 :: "nat \<Rightarrow> nat option" where
  "to_u64 n = (if n < 2 ^ 64 then Some n else None)"

definition u64_mul :: "nat \<Rightarrow> nat \<Rightarrow> nat option" where
  "u64_mul a b = to_u64 (a * b)"

text \<open>The search space gives a dimension its domain and the values of the universe, if it is a static dimension.\<close>

record dim_space =
  get_size :: "nat \<Rightarrow> numeric_set"
  possible_sizes :: "nat \<Rightarrow> u32 list option"

definition dim_bounds :: "dim_space \<Rightarrow> nat \<Rightarrow> size_range option" where
  "dim_bounds space d = do {
     u \<leftarrow> possible_sizes space d;
     lo \<leftarrow> ns_min_value (get_size space d) u;
     hi \<leftarrow> ns_max_value (get_size space d) u;
     Some \<lparr>sr_min = unat lo, sr_max = unat hi\<rparr> }"

text \<open>\<^verbatim>\<open>NumericSet::gcd\<close> and \<^verbatim>\<open>NumericSet::lcm\<close>: the least common multiple may overflow.\<close>

definition ns_gcd :: "numeric_set \<Rightarrow> u32 list \<Rightarrow> nat option" where
  "ns_gcd s u = do {
     vs \<leftarrow> ns_list_values s u;
     Some (case map unat vs of [] \<Rightarrow> 1 | v # vs \<Rightarrow> fold (\<lambda>x acc. gcd acc x) vs v) }"

definition u32_lcm :: "nat \<Rightarrow> nat \<Rightarrow> nat option" where
  "u32_lcm a b = (if lcm a b < 2 ^ 32 then Some (lcm a b) else None)"

definition ns_lcm :: "numeric_set \<Rightarrow> u32 list \<Rightarrow> nat option" where
  "ns_lcm s u = do {
     vs \<leftarrow> ns_list_values s u;
     (case map unat vs of [] \<Rightarrow> Some 1 | v # vs \<Rightarrow> fold_option (\<lambda>x acc. u32_lcm acc x) vs v) }"

definition dim_factor_range :: "dim_space \<Rightarrow> nat \<Rightarrow> factor_range option" where
  "dim_factor_range space d = do {
     u \<leftarrow> possible_sizes space d;
     g \<leftarrow> ns_gcd (get_size space d) u;
     l \<leftarrow> ns_lcm (get_size space d) u;
     Some \<lparr>fr_gcd = g, fr_lcm = l\<rparr> }"

definition param_factor :: "('p \<Rightarrow> u32 option) \<Rightarrow> 'p partial_size \<Rightarrow> nat option" where
  "param_factor param_as_size s = do {
     ps \<leftarrow> those (map param_as_size (param_factors s));
     f \<leftarrow> fold_option (\<lambda>p f. u64_mul f (unat p)) ps 1;
     u64_mul f (unat (static_factor s)) }"

fun mul_bounds :: "dim_space \<Rightarrow> nat list \<Rightarrow> nat \<times> nat \<Rightarrow> (nat \<times> nat) option" where
  "mul_bounds space [] (total_min, total_max) = Some (total_min, total_max)"
| "mul_bounds space (d # ds) (total_min, total_max) = do {
     r \<leftarrow> dim_bounds space d;
     mul_bounds space ds (total_min * sr_min r, total_max * sr_max r) }"

text \<open>A division by zero panics.\<close>

fun div_bounds :: "dim_space \<Rightarrow> nat list \<Rightarrow> nat \<times> nat \<Rightarrow> (nat \<times> nat) option" where
  "div_bounds space [] (total_min, total_max) = Some (total_min, total_max)"
| "div_bounds space (d # ds) (total_min, total_max) = do {
     r \<leftarrow> dim_bounds space d;
     let g = gcd (sr_max r) total_min;
     if g = 0 \<or> sr_min r = 0 then None
     else div_bounds space ds (total_min div g, total_max div sr_min r) }"

definition bounds :: "dim_space \<Rightarrow> ('p \<Rightarrow> u32 option) \<Rightarrow> 'p partial_size \<Rightarrow> size_range option" where
  "bounds space param_as_size s = do {
     f \<leftarrow> param_factor param_as_size s;
     t \<leftarrow> mul_bounds space (data (dim_factors s)) (f, f);
     (total_min, total_max) \<leftarrow> div_bounds space (data (divisors s)) t;
     if total_min = 0 \<or> total_max = 0 then None
     else do {
       lo \<leftarrow> to_u64 total_min;
       hi \<leftarrow> to_u64 total_max;
       Some \<lparr>sr_min = lo, sr_max = hi\<rparr> } }"

fun mul_factors :: "dim_space \<Rightarrow> nat list \<Rightarrow> nat \<times> nat \<Rightarrow> (nat \<times> nat) option" where
  "mul_factors space [] (total_gcd, total_lcm) = Some (total_gcd, total_lcm)"
| "mul_factors space (d # ds) (total_gcd, total_lcm) = do {
     r \<leftarrow> dim_factor_range space d;
     mul_factors space ds (total_gcd * fr_gcd r, total_lcm * fr_lcm r) }"

fun div_factors :: "dim_space \<Rightarrow> nat list \<Rightarrow> nat \<times> nat \<Rightarrow> (nat \<times> nat) option" where
  "div_factors space [] (total_gcd, total_lcm) = Some (total_gcd, total_lcm)"
| "div_factors space (d # ds) (total_gcd, total_lcm) = do {
     r \<leftarrow> dim_factor_range space d;
     let g = gcd (fr_lcm r) total_gcd;
     if g = 0 \<or> fr_gcd r = 0 then None
     else div_factors space ds (total_gcd div g, total_lcm div fr_gcd r) }"

definition factors :: "dim_space \<Rightarrow> ('p \<Rightarrow> u32 option) \<Rightarrow> 'p partial_size \<Rightarrow> factor_range option" where
  "factors space param_as_size s = do {
     f \<leftarrow> param_factor param_as_size s;
     t \<leftarrow> mul_factors space (data (dim_factors s)) (f, f);
     (total_gcd, total_lcm) \<leftarrow> div_factors space (data (divisors s)) t;
     g \<leftarrow> to_u64 total_gcd;
     l \<leftarrow> to_u64 total_lcm;
     Some \<lparr>fr_gcd = g, fr_lcm = l\<rparr> }"

section \<open>The value of a size\<close>

text \<open>The sizes of the dimensions are drawn from their domains.\<close>

definition sizes_ok :: "dim_space \<Rightarrow> (nat \<Rightarrow> nat) \<Rightarrow> nat set \<Rightarrow> bool" where
  "sizes_ok space v ds \<longleftrightarrow> (\<forall>d \<in> ds. \<exists>u. possible_sizes space d = Some u \<and> ns_valid (get_size space d) u
     \<and> v d \<in> unat ` ns_vals (get_size space d) u \<and> v d \<noteq> 0)"

text \<open>\<open>n\<close> is the size when the product of the divisors times \<open>n\<close> is the product of the factors.\<close>

definition is_size :: "(nat \<Rightarrow> nat) \<Rightarrow> nat \<Rightarrow> 'p partial_size \<Rightarrow> nat \<Rightarrow> bool" where
  "is_size v f s n \<longleftrightarrow> n * prod v (elems (divisors s)) = f * prod v (elems (dim_factors s))"

lemma dim_bounds_sound:
  assumes "sizes_ok space v {d}" "dim_bounds space d = Some r"
  shows "sr_min r \<le> v d \<and> v d \<le> sr_max r"
proof -
  obtain u x where u: "possible_sizes space d = Some u" "ns_valid (get_size space d) u"
    "x \<in> ns_vals (get_size space d) u" "v d = unat x"
    using assms(1) by (auto simp: sizes_ok_def)
  obtain lo where "ns_min_value (get_size space d) u = Some lo" "lo \<le> x"
    using nsn.min_valueE [OF u(2)] u(3) by (auto simp: ns_ops_def)
  moreover obtain hi where "ns_max_value (get_size space d) u = Some hi" "x \<le> hi"
    using nsn.max_valueE [OF u(2)] u(3) by (auto simp: ns_ops_def)
  ultimately show ?thesis using assms(2) u(1,4) by (auto simp: dim_bounds_def word_le_nat_alt)
qed

lemma fold_gcd_dvd: "fold (\<lambda>x acc. gcd acc x) xs (a::nat) dvd a \<and> (\<forall>x \<in> set xs. fold (\<lambda>x acc. gcd acc x) xs a dvd x)"
  by (induction xs arbitrary: a) (auto intro: dvd_trans gcd_dvd1 gcd_dvd2)

lemma fold_lcm_dvd:
  "fold_option (\<lambda>x acc. u32_lcm acc x) xs a = Some l \<Longrightarrow> a dvd l \<and> (\<forall>x \<in> set xs. x dvd l)"
  by (induction xs arbitrary: a) (auto simp: u32_lcm_def bind_eq_Some_conv split: if_splits intro: dvd_trans)

lemma dim_factor_range_sound:
  assumes "sizes_ok space v {d}" "dim_factor_range space d = Some r"
  shows "fr_gcd r dvd v d \<and> v d dvd fr_lcm r"
proof -
  obtain u x where u: "possible_sizes space d = Some u" "ns_valid (get_size space d) u"
    "x \<in> ns_vals (get_size space d) u" "v d = unat x"
    using assms(1) by (auto simp: sizes_ok_def)
  obtain vs where vs: "ns_list_values (get_size space d) u = Some vs" "x \<in> set vs"
    using ns_list_values_spec [OF u(2)] u(3) by auto
  then obtain w ws where w: "map unat vs = w # ws" "v d \<in> set (w # ws)" using u(4) by (cases vs) auto
  show ?thesis
    using assms(2) u(1) vs(1) w fold_gcd_dvd [of ws w] fold_lcm_dvd [of ws w]
    by (auto simp: dim_factor_range_def ns_gcd_def ns_lcm_def bind_eq_Some_conv)
qed

lemma sizes_ok_Cons:
  assumes "sizes_ok space v (set (d # ds))"
  shows "sizes_ok space v {d}" "sizes_ok space v (set ds)"
  using assms by (auto simp: sizes_ok_def)

lemma mul_bounds_sound:
  assumes "sizes_ok space v (set ds)" "mul_bounds space ds (a, b) = Some (a', b')" "a \<le> x" "x \<le> b"
  shows "a' \<le> x * prod_list (map v ds) \<and> x * prod_list (map v ds) \<le> b'"
  using assms
proof (induction ds arbitrary: a b x)
  case (Cons d ds)
  note ok = sizes_ok_Cons [OF Cons.prems(1)]
  obtain r where r: "dim_bounds space d = Some r" "mul_bounds space ds (a * sr_min r, b * sr_max r) = Some (a', b')"
    using Cons.prems(2) by (auto simp: bind_eq_Some_conv)
  have "a * sr_min r \<le> x * v d" "x * v d \<le> b * sr_max r"
    using dim_bounds_sound [OF ok(1) r(1)] Cons.prems(3,4) by (auto intro: mult_le_mono)
  from Cons.IH [OF ok(2) r(2) this] show ?case by (simp add: mult.assoc)
qed simp

lemma div_bounds_max:
  assumes "sizes_ok space v (set ds)" "div_bounds space ds (a, b) = Some (a', b')" "n * prod_list (map v ds) \<le> b"
  shows "n \<le> b'"
  using assms
proof (induction ds arbitrary: a b)
  case (Cons d ds)
  note ok = sizes_ok_Cons [OF Cons.prems(1)]
  obtain r where r: "dim_bounds space d = Some r" "sr_min r \<noteq> 0"
    "div_bounds space ds (a div gcd (sr_max r) a, b div sr_min r) = Some (a', b')"
    using Cons.prems(2) by (auto simp: bind_eq_Some_conv Let_def split: if_splits)
  have "n * prod_list (map v ds) * sr_min r \<le> n * prod_list (map v ds) * v d"
    using dim_bounds_sound [OF ok(1) r(1)] by (auto intro: mult_le_mono2)
  also have "\<dots> \<le> b" using Cons.prems(3) by (simp add: ac_simps)
  finally have "n * prod_list (map v ds) \<le> b div sr_min r" using r(2) by (simp add: less_eq_div_iff_mult_less_eq)
  from Cons.IH [OF ok(2) r(3) this] show ?case .
qed simp

text \<open>The lower bound is the exact quotient when the largest divisors divide the smallest factors.\<close>

definition max_divisor :: "dim_space \<Rightarrow> nat \<Rightarrow> nat" where
  "max_divisor space d = (case dim_bounds space d of Some r \<Rightarrow> sr_max r | None \<Rightarrow> 1)"

definition min_factor :: "dim_space \<Rightarrow> nat \<Rightarrow> nat" where
  "min_factor space d = (case dim_bounds space d of Some r \<Rightarrow> sr_min r | None \<Rightarrow> 1)"

lemma mul_bounds_min: "mul_bounds space ds (x, y) = Some (a, b) \<Longrightarrow> a = x * prod_list (map (min_factor space) ds)"
proof (induction ds arbitrary: x y)
  case (Cons d ds)
  then obtain r where "dim_bounds space d = Some r" "mul_bounds space ds (x * sr_min r, y * sr_max r) = Some (a, b)"
    by (auto simp: bind_eq_Some_conv)
  with Cons.IH [OF this(2)] show ?case by (simp add: min_factor_def mult.assoc)
qed simp

lemma div_bounds_min:
  assumes "sizes_ok space v (set ds)" "div_bounds space ds (a, b) = Some (a', b')" "a \<le> n * prod_list (map v ds)"
    "prod_list (map (max_divisor space) ds) dvd a"
  shows "a' \<le> n"
  using assms
proof (induction ds arbitrary: a b)
  case (Cons d ds)
  note ok = sizes_ok_Cons [OF Cons.prems(1)]
  obtain r where r: "dim_bounds space d = Some r" "gcd (sr_max r) a \<noteq> 0"
    "div_bounds space ds (a div gcd (sr_max r) a, b div sr_min r) = Some (a', b')"
    using Cons.prems(2) by (auto simp: bind_eq_Some_conv Let_def split: if_splits)
  have m: "max_divisor space d = sr_max r" by (simp add: max_divisor_def r(1))
  have "sr_max r dvd a" using Cons.prems(4) m by (auto dest: dvd_mult_left)
  then have g: "gcd (sr_max r) a = sr_max r" by (simp add: gcd_nat.absorb1)
  have pos: "0 < sr_max r" using r(2) g by simp
  obtain k where k: "a = sr_max r * k" using \<open>sr_max r dvd a\<close> by (auto elim: dvdE)
  have "a \<le> n * prod_list (map v ds) * sr_max r"
  proof -
    have "a \<le> n * prod_list (map v ds) * v d" using Cons.prems(3) by (simp add: ac_simps)
    also have "\<dots> \<le> n * prod_list (map v ds) * sr_max r"
      using dim_bounds_sound [OF ok(1) r(1)] by (intro mult_le_mono2) simp
    finally show ?thesis .
  qed
  then have "k \<le> n * prod_list (map v ds)" using pos by (simp add: k mult.commute)
  moreover have "prod_list (map (max_divisor space) ds) dvd k" using Cons.prems(4) pos by (simp add: m k)
  moreover have "a div sr_max r = k" using pos by (simp add: k)
  ultimately show ?case using Cons.IH [OF ok(2) r(3)] by (simp add: g)
qed simp

lemma div_gcd_dvd_mult:
  assumes "a dvd p * l" "gcd a l \<noteq> (0::nat)"
  shows "a div gcd a l dvd p"
proof -
  obtain a1 l1 where c: "a = a1 * gcd a l" "l = l1 * gcd a l" "coprime a1 l1" using gcd_coprime_exists [OF assms(2)] by blast
  then have "a1 * gcd a l dvd (p * l1) * gcd a l" using assms(1) by (metis mult.assoc)
  then have "a1 dvd p * l1" using assms(2) by (metis dvd_times_right_cancel_iff)
  then have "a1 dvd p" using c(3) by (simp add: coprime_dvd_mult_left_iff)
  moreover have "a div gcd a l = a1" using c(1) assms(2) by (metis nonzero_mult_div_cancel_right)
  ultimately show ?thesis by simp
qed

lemma mul_factors_sound:
  assumes "sizes_ok space v (set ds)" "mul_factors space ds (a, b) = Some (a', b')" "a dvd x" "x dvd b"
  shows "a' dvd x * prod_list (map v ds) \<and> x * prod_list (map v ds) dvd b'"
  using assms
proof (induction ds arbitrary: a b x)
  case (Cons d ds)
  note ok = sizes_ok_Cons [OF Cons.prems(1)]
  obtain r where r: "dim_factor_range space d = Some r" "mul_factors space ds (a * fr_gcd r, b * fr_lcm r) = Some (a', b')"
    using Cons.prems(2) by (auto simp: bind_eq_Some_conv)
  have "a * fr_gcd r dvd x * v d" "x * v d dvd b * fr_lcm r"
    using dim_factor_range_sound [OF ok(1) r(1)] Cons.prems(3,4) by (auto intro: mult_dvd_mono)
  from Cons.IH [OF ok(2) r(2) this] show ?case by (simp add: mult.assoc)
qed simp

lemma div_factors_sound:
  assumes "sizes_ok space v (set ds)" "div_factors space ds (a, b) = Some (a', b')"
    "a dvd n * prod_list (map v ds)" "n * prod_list (map v ds) dvd b"
  shows "a' dvd n \<and> n dvd b'"
  using assms
proof (induction ds arbitrary: a b)
  case (Cons d ds)
  note ok = sizes_ok_Cons [OF Cons.prems(1)]
  let ?p = "n * prod_list (map v ds)"
  obtain r where r: "dim_factor_range space d = Some r" "fr_gcd r \<noteq> 0" "gcd (fr_lcm r) a \<noteq> 0"
    "div_factors space ds (a div gcd (fr_lcm r) a, b div fr_gcd r) = Some (a', b')"
    using Cons.prems(2) by (auto simp: bind_eq_Some_conv Let_def split: if_splits)
  have v: "fr_gcd r dvd v d" "v d dvd fr_lcm r" using dim_factor_range_sound [OF ok(1) r(1)] by auto
  have "a dvd ?p * fr_lcm r"
    using dvd_trans [OF Cons.prems(3), of "?p * fr_lcm r"] mult_dvd_mono [OF dvd_refl v(2), of ?p] by (simp add: ac_simps)
  then have "a div gcd (fr_lcm r) a dvd ?p" using r(3) by (simp add: gcd.commute div_gcd_dvd_mult)
  moreover have "?p dvd b div fr_gcd r"
  proof -
    have "?p * fr_gcd r dvd b"
      using dvd_trans [OF mult_dvd_mono [OF dvd_refl v(1), of ?p], of b] Cons.prems(4) by (simp add: ac_simps)
    then show ?thesis using r(2) by (auto elim!: dvdE simp: ac_simps)
  qed
  ultimately show ?case by (rule Cons.IH [OF ok(2) r(4)])
qed simp

section \<open>Properties\<close>

lemma prod_data: "vs_inv s \<Longrightarrow> prod_list (map v (data s)) = prod v (elems s)" for v :: "nat \<Rightarrow> nat"
  by (simp add: elems_def vs_inv_def prod.distinct_set_conv_list sorted_wrt_less_distinct)

text \<open>C36: The upper bound of \<^verbatim>\<open>bounds\<close> holds for every choice of the dimension sizes, and the lower bound holds when
  the largest values of the divisors divide the factors at their smallest values.\<close>
theorem bounds_sound:
  assumes "bounds space param_as_size s = Some r" "param_factor param_as_size s = Some f"
    and "vs_inv (dim_factors s)" "vs_inv (divisors s)"
    and "sizes_ok space v (elems (dim_factors s) \<union> elems (divisors s))" "is_size v f s n"
  shows "n \<le> sr_max r \<and> (prod (max_divisor space) (elems (divisors s)) dvd
      f * prod (min_factor space) (elems (dim_factors s)) \<longrightarrow> sr_min r \<le> n)"
proof -
  obtain a b a' b' where m: "mul_bounds space (data (dim_factors s)) (f, f) = Some (a, b)"
    "div_bounds space (data (divisors s)) (a, b) = Some (a', b')" "sr_min r = a'" "sr_max r = b'"
    using assms(1,2) by (auto simp: bounds_def to_u64_def bind_eq_Some_conv split: if_splits)
  have ok: "sizes_ok space v (set (data (dim_factors s)))" "sizes_ok space v (set (data (divisors s)))"
    using assms(5) by (auto simp: sizes_ok_def elems_def)
  have n: "n * prod_list (map v (data (divisors s))) = f * prod_list (map v (data (dim_factors s)))"
    using assms(6) by (simp add: is_size_def prod_data assms(3,4))
  have ab: "a \<le> n * prod_list (map v (data (divisors s)))" "n * prod_list (map v (data (divisors s))) \<le> b"
    using mul_bounds_sound [OF ok(1) m(1), of f] unfolding n by auto
  have a: "a = f * prod_list (map (min_factor space) (data (dim_factors s)))" by (rule mul_bounds_min [OF m(1)])
  show ?thesis using div_bounds_max [OF ok(2) m(2) ab(2)] div_bounds_min [OF ok(2) m(2) ab(1)] m(3,4)
    by (simp add: prod_data assms(3,4) a)
qed

text \<open>The size \<open>12 / (d\<^sub>0 * d\<^sub>1)\<close>, where \<open>d\<^sub>0\<close> is 3 or 4 and \<open>d\<^sub>1\<close> is 4.\<close>

definition tile_space :: dim_space where
  "tile_space = \<lparr>get_size = \<lambda>d. if d = 0 then \<lparr>enabled_values = 3\<rparr> else \<lparr>enabled_values = 2\<rparr>,
     possible_sizes = \<lambda>_. Some [3, 4]\<rparr>"

definition tile_size :: "unit partial_size" where
  "tile_size = \<lparr>static_factor = 12, param_factors = [], dim_factors = vs_default, divisors = vs_new [0, 1]\<rparr>"

definition tile_sizes :: "nat \<Rightarrow> nat" where
  "tile_sizes d = (if d = 0 then 3 else 4)"

lemma tile_zeros:
  "trailing_zeros (3 :: u16) = 0" "trailing_zeros (2 :: u16) = 1" "leading_zeros (3 :: u16) = 14" "leading_zeros (2 :: u16) = 14"
  by (simp_all add: trailing_zeros_def leading_zeros_def upt_rec [of _ 16] bit_numeral_word_iff)

lemma tile_dim_bounds:
  "dim_bounds tile_space 0 = Some \<lparr>sr_min = 3, sr_max = 4\<rparr>" "dim_bounds tile_space (Suc 0) = Some \<lparr>sr_min = 4, sr_max = 4\<rparr>"
  by (simp_all add: dim_bounds_def tile_space_def ns_min_value_def ns_max_value_def ns_is_failed_def tile_zeros MAX_LEN_def)

lemma tile_bounds: "bounds tile_space (\<lambda>_. None) tile_size = Some \<lparr>sr_min = 3, sr_max = 1\<rparr>"
  by (simp add: bounds_def tile_size_def param_factor_def vs_default_def vs_new_def tile_dim_bounds u64_mul_def to_u64_def
      Let_def gcd.commute [of "4::nat"] gcd_nat.simps)

lemma tile_bits: "bit (2 :: u16) i \<longleftrightarrow> i = 1" "bit (3 :: u16) i \<longleftrightarrow> i = 0 \<or> i = 1"
proof -
  show "bit (2 :: u16) i \<longleftrightarrow> i = 1" by (cases i; cases "i - 1") (auto simp: bit_Suc)
  show "bit (3 :: u16) i \<longleftrightarrow> i = 0 \<or> i = 1" by (cases i; cases "i - 1") (auto simp: bit_Suc)
qed

lemma tile_ns_bits: "ns_bits \<lparr>enabled_values = 3\<rparr> = {0, 1}" "ns_bits \<lparr>enabled_values = 2\<rparr> = {1}"
  by (simp_all only: ns_bits_def numeric_set.simps tile_bits) auto

lemma tile_sizes_ok: "sizes_ok tile_space tile_sizes {0, 1}"
proof -
  have "ns_valid \<lparr>enabled_values = 3\<rparr> [3, 4]" "ns_valid \<lparr>enabled_values = 2\<rparr> [3, 4]"
    by (auto simp: ns_valid_def tile_ns_bits MAX_LEN_def)
  moreover have "3 \<in> ns_vals \<lparr>enabled_values = 3\<rparr> [3, 4]" by (auto simp: ns_vals_def tile_ns_bits intro: exI [of _ 0])
  moreover have "4 \<in> ns_vals \<lparr>enabled_values = 2\<rparr> [3, 4]" by (auto simp: ns_vals_def tile_ns_bits intro: exI [of _ 1])
  ultimately show ?thesis
    using image_eqI [of 3 unat "3 :: u32"] image_eqI [of 4 unat "4 :: u32"] by (simp add: sizes_ok_def tile_space_def tile_sizes_def)
qed

text \<open>The lower bound does not hold in general: with the size \<open>12 / (d\<^sub>0 * d\<^sub>1)\<close>, where \<open>d\<^sub>0\<close> is 3 or 4 and \<open>d\<^sub>1\<close> is 4,
  the lower bound is 3, above the upper bound 1, and the sizes 3 and 4 give 1.\<close>
theorem bounds_min_unsound:
  "\<exists>r. bounds tile_space (\<lambda>_. None) tile_size = Some r \<and> sizes_ok tile_space tile_sizes {0, 1}
    \<and> is_size tile_sizes 12 tile_size 1 \<and> sr_max r = 1 \<and> 1 < sr_min r"
  using tile_bounds tile_sizes_ok
  by (simp add: is_size_def tile_size_def elems_new) (simp add: tile_sizes_def elems_def vs_default_def)

text \<open>C37: \<^verbatim>\<open>factors\<close> returns a divisor and a multiple of the size, for every choice of the dimension sizes.\<close>
theorem factors_sound:
  assumes "factors space param_as_size s = Some r" "param_factor param_as_size s = Some f"
    and "vs_inv (dim_factors s)" "vs_inv (divisors s)"
    and "sizes_ok space v (elems (dim_factors s) \<union> elems (divisors s))" "is_size v f s n"
  shows "fr_gcd r dvd n \<and> n dvd fr_lcm r"
proof -
  obtain a b a' b' where m: "mul_factors space (data (dim_factors s)) (f, f) = Some (a, b)"
    "div_factors space (data (divisors s)) (a, b) = Some (a', b')" "fr_gcd r = a'" "fr_lcm r = b'"
    using assms(1,2) by (auto simp: factors_def to_u64_def bind_eq_Some_conv split: if_splits)
  have ok: "sizes_ok space v (set (data (dim_factors s)))" "sizes_ok space v (set (data (divisors s)))"
    using assms(5) by (auto simp: sizes_ok_def elems_def)
  have n: "n * prod_list (map v (data (divisors s))) = f * prod_list (map v (data (dim_factors s)))"
    using assms(6) by (simp add: is_size_def prod_data assms(3,4))
  show ?thesis
    using div_factors_sound [OF ok(2) m(2), of n] mul_factors_sound [OF ok(1) m(1), of f] unfolding n m(3,4) by auto
qed

lemma tile_factors: "dim_factor_range tile_space (Suc 0) = Some \<lparr>fr_gcd = 4, fr_lcm = 4\<rparr>"
  by (simp add: dim_factor_range_def tile_space_def ns_gcd_def ns_lcm_def ns_list_values_def checked_shl_1_u16)

theorem bounds_sound_witness:
  "\<exists>r. bounds tile_space (\<lambda>_. None) (tile_size\<lparr>divisors := vs_new [1]\<rparr>) = Some r \<and> 3 \<le> sr_max r \<and> sr_min r \<le> 3"
proof -
  let ?s = "tile_size\<lparr>divisors := vs_new [1]\<rparr>"
  have b: "bounds tile_space (\<lambda>_. None) ?s = Some \<lparr>sr_min = 3, sr_max = 3\<rparr>"
    by (simp add: bounds_def tile_size_def param_factor_def vs_default_def vs_new_def tile_dim_bounds u64_mul_def to_u64_def
        Let_def gcd.commute [of "4::nat"] gcd_nat.simps)
  have f: "param_factor (\<lambda>_. None) ?s = Some 12" by (simp add: param_factor_def tile_size_def u64_mul_def to_u64_def)
  have "sizes_ok tile_space tile_sizes (elems (dim_factors ?s) \<union> elems (divisors ?s))"
    using tile_sizes_ok by (simp add: sizes_ok_def tile_size_def elems_new) (simp add: elems_def vs_default_def)
  moreover have "is_size tile_sizes 12 ?s 3"
    by (simp add: is_size_def tile_size_def elems_new) (simp add: tile_sizes_def elems_def vs_default_def)
  ultimately show ?thesis
    using bounds_sound [OF b f, of tile_sizes 3] b
    by (simp add: tile_size_def vs_inv_new vs_default_spec elems_new max_divisor_def tile_dim_bounds)
qed

theorem factors_sound_witness:
  "\<exists>r. factors tile_space (\<lambda>_. None) (tile_size\<lparr>divisors := vs_new [1]\<rparr>) = Some r \<and> fr_gcd r dvd 3 \<and> 3 dvd fr_lcm r"
proof -
  let ?s = "tile_size\<lparr>divisors := vs_new [1]\<rparr>"
  have b: "factors tile_space (\<lambda>_. None) ?s = Some \<lparr>fr_gcd = 3, fr_lcm = 3\<rparr>"
    by (simp add: factors_def tile_size_def param_factor_def vs_default_def vs_new_def tile_factors u64_mul_def to_u64_def
        Let_def gcd.commute [of "4::nat"] gcd_nat.simps)
  have f: "param_factor (\<lambda>_. None) ?s = Some 12" by (simp add: param_factor_def tile_size_def u64_mul_def to_u64_def)
  have "sizes_ok tile_space tile_sizes (elems (dim_factors ?s) \<union> elems (divisors ?s))"
    using tile_sizes_ok by (simp add: sizes_ok_def tile_size_def elems_new) (simp add: elems_def vs_default_def)
  moreover have "is_size tile_sizes 12 ?s 3"
    by (simp add: is_size_def tile_size_def elems_new) (simp add: tile_sizes_def elems_def vs_default_def)
  ultimately show ?thesis
    using factors_sound [OF b f, of tile_sizes 3] b by (simp add: tile_size_def vs_inv_new vs_default_spec)
qed

text \<open>The product of two sizes has the product of their values, when no dimension is a factor of both or a divisor of
  both; a dimension that is a factor of one and a divisor of the other cancels out.\<close>
theorem ps_mul_value:
  assumes "vs_inv (dim_factors a)" "vs_inv (dim_factors b)" "vs_inv (divisors a)" "vs_inv (divisors b)"
    and "elems (dim_factors a) \<inter> elems (dim_factors b) = {}" "elems (divisors a) \<inter> elems (divisors b) = {}"
    and "is_size v f a m" "is_size v g b n" "\<forall>d. v d \<noteq> 0" "ps_mul a b = Some c"
  shows "is_size v (f * g) c (m * n) \<and> elems (dim_factors c) \<inter> elems (divisors c) = {}"
proof -
  let ?F = "elems (dim_factors a) \<union> elems (dim_factors b)" and ?D = "elems (divisors a) \<union> elems (divisors b)"
  let ?u = "vs_union (dim_factors a) (dim_factors b)" and ?w = "vs_union (divisors a) (divisors b)"
  have u: "vs_inv ?u" "elems ?u = ?F" "vs_inv ?w" "elems ?w = ?D"
    using vs_union_spec [OF assms(1,2)] vs_union_spec [OF assms(3,4)] by auto
  have "dim_factors c = vs_filter ?u (\<lambda>x. x \<notin> elems ?w)" "divisors c = vs_filter ?w (\<lambda>x. x \<notin> elems ?u)"
    using assms(10) vs_relative_difference_spec [OF u(1,3)] by (auto simp: ps_mul_def ps_simplify_def bind_eq_Some_conv)
  then have c: "elems (dim_factors c) = ?F - ?D" "elems (divisors c) = ?D - ?F"
    using u(2,4) by (auto simp: vs_filter_def elems_def)
  have fin: "finite ?F" "finite ?D" by (simp_all add: elems_def)
  have "(m * prod v (elems (divisors a))) * (n * prod v (elems (divisors b)))
      = (f * prod v (elems (dim_factors a))) * (g * prod v (elems (dim_factors b)))"
    using assms(7,8) by (simp add: is_size_def)
  then have "m * n * prod v ?D = f * g * prod v ?F"
    using assms(5,6) by (simp add: prod.union_disjoint elems_def ac_simps)
  moreover have "prod v ?D = prod v (?D - ?F) * prod v (?F \<inter> ?D)" "prod v ?F = prod v (?F - ?D) * prod v (?F \<inter> ?D)"
    using prod.Int_Diff [OF fin(2), of v ?F] prod.Int_Diff [OF fin(1), of v ?D] by (simp_all add: ac_simps Int_commute)
  moreover have "prod v (?F \<inter> ?D) \<noteq> 0" using assms(9) fin by simp
  ultimately have "m * n * prod v (?D - ?F) * prod v (?F \<inter> ?D) = f * g * prod v (?F - ?D) * prod v (?F \<inter> ?D)"
    by (simp only: mult.assoc)
  then have "m * n * prod v (?D - ?F) = f * g * prod v (?F - ?D)" using \<open>prod v (?F \<inter> ?D) \<noteq> 0\<close> by simp
  then show ?thesis unfolding is_size_def c by blast
qed

theorem ps_mul_value_witness:
  "\<exists>c. ps_mul (ps_new_dim_size 0) (ps_new_dim_size 1 :: unit partial_size) = Some c \<and> is_size (\<lambda>_. 2) (1 * 1) c (2 * 2)"
proof -
  have c: "ps_mul (ps_new_dim_size 0) (ps_new_dim_size 1 :: unit partial_size) =
      Some (the (ps_mul (ps_new_dim_size 0) (ps_new_dim_size 1)))"
    by (simp add: ps_mul_def ps_new_dim_size_def ps_default_def checked_mul_def)
  have "is_size (\<lambda>_. 2) 1 (ps_new_dim_size d :: unit partial_size) 2" for d
    by (simp add: is_size_def ps_new_dim_size_def ps_default_def vs_default_spec elems_new)
  then show ?thesis
    using ps_mul_value [OF _ _ _ _ _ _ _ _ _ c, of "\<lambda>_. 2" 1 2 1 2] c
    by (simp add: ps_new_dim_size_def ps_default_def vs_default_spec vs_inv_new elems_new) blast
qed

text \<open>A dimension that is a factor of both sizes is counted once: the product of the size of a dimension with
  itself is the size of the dimension, and not its square.\<close>
theorem ps_mul_loses_factor:
  "ps_mul (ps_new_dim_size d) (ps_new_dim_size d) = Some (ps_new_dim_size d)"
proof -
  let ?s = "vs_new [d] :: nat vec_set"
  have "vs_union ?s ?s = ?s" "vs_union vs_default vs_default = (vs_default :: nat vec_set)"
    by (rule vs_eqI; simp add: vs_union_spec vs_inv_new vs_default_spec)+
  moreover have "vs_relative_difference ?s vs_default = (?s, vs_default)"
    using vs_relative_difference_spec [OF vs_inv_new vs_default_spec(1), of "[d]"]
    by (simp add: vs_filter_def vs_default_def elems_def)
  ultimately show ?thesis by (simp add: ps_mul_def ps_new_dim_size_def ps_default_def ps_simplify_def checked_mul_def)
qed

end
