(* ===== verification/Levels.thy ===== *)
theory Levels
  imports Dag Dependency_Map Sizes
begin

text \<open>
  The levels of the latency graph (\<^verbatim>\<open>src/model/level.rs\<close>), the code points between them (\<^verbatim>\<open>src/model/code_point.rs\<close>) and the steps
  that fill and process the graph (\<^verbatim>\<open>src/model/mod.rs\<close>). A level is a set of loops; the levels are the edges of the minimal
  graph of the nestings of the program, so that this theory is a client of \<open>Dag\<close> and of \<open>Vec_Set\<close>.

  The domains of the search space are generated from \<^verbatim>\<open>src/search_space/choices.exh\<close>: the possible values of a choice are
  the set of the values that are left. Orders, kinds and nestings of statements are arguments.
\<close>

section \<open>Statements and their domains\<close>

datatype stmt_id = S_Inst nat | S_Dim nat

datatype order_val = O_Before | O_After | O_Inner | O_Outer | O_Merged

datatype dim_kind = K_Loop | K_Unroll | K_InnerVector | K_OuterVector | K_Block | K_Thread

fun order_inverse :: "order_val \<Rightarrow> order_val" where
  "order_inverse O_Before = O_After"
| "order_inverse O_After = O_Before"
| "order_inverse O_Inner = O_Outer"
| "order_inverse O_Outer = O_Inner"
| "order_inverse O_Merged = O_Merged"

definition must_consider_dim :: "(nat \<Rightarrow> dim_kind set) \<Rightarrow> nat \<Rightarrow> bool" where
  "must_consider_dim kind d \<longleftrightarrow> kind d \<noteq> {K_Block} \<and> kind d \<inter> {K_InnerVector, K_OuterVector} = {}"

text \<open>\<^verbatim>\<open>(kind & !DimKind::BLOCK).is(DimKind::SEQUENTIAL).is_true()\<close>.\<close>

definition is_sequential :: "(nat \<Rightarrow> dim_kind set) \<Rightarrow> nat \<Rightarrow> bool" where
  "is_sequential kind d \<longleftrightarrow> kind d - {K_Block} \<noteq> {} \<and> kind d - {K_Block} \<subseteq> {K_Loop, K_Unroll}"

section \<open>The order of nestings\<close>

text \<open>The operators \<^verbatim>\<open><=\<close> and \<^verbatim>\<open>>=\<close> that \<^verbatim>\<open>PartialOrd\<close> derives from \<^verbatim>\<open>partial_cmp\<close>.\<close>

definition vs_le :: "'a::linorder vec_set \<Rightarrow> 'a vec_set \<Rightarrow> bool" where
  "vs_le s t \<longleftrightarrow> vs_partial_cmp s t = Some Less \<or> vs_partial_cmp s t = Some Equal"

definition vs_ge :: "'a::linorder vec_set \<Rightarrow> 'a vec_set \<Rightarrow> bool" where
  "vs_ge s t \<longleftrightarrow> vs_partial_cmp s t = Some Greater \<or> vs_partial_cmp s t = Some Equal"

text \<open>\<^verbatim>\<open>s.difference(t).cloned().collect::<VecSet<_>>()\<close>; the iterator ends after as many steps as \<open>s\<close> has elements.\<close>

definition difference_set :: "'a::linorder vec_set \<Rightarrow> 'a vec_set \<Rightarrow> 'a vec_set" where
  "difference_set s t =
     vs_new (case iter_collect difference_next (Suc (vs_len s)) (vs_difference s t) of Some xs \<Rightarrow> xs | None \<Rightarrow> [])"

definition intersect_sets :: "'a::linorder vec_set list \<Rightarrow> 'a vec_set option" where
  "intersect_sets sets = (case sets of [] \<Rightarrow> None | s # ss \<Rightarrow> Some (fold (\<lambda>other out. vs_intersect out other) ss s))"

text \<open>The closure of \<^verbatim>\<open>generate\<close>; \<open>inner d\<close> lists the dimensions nested inside \<open>d\<close>.\<close>

definition level_cmp :: "(nat \<Rightarrow> nat list) \<Rightarrow> nat vec_set comparator" where
  "level_cmp inner l r =
     (case vs_partial_cmp l r of
        Some Less \<Rightarrow> if \<forall>x \<in> set (data l). vs_ge (vs_new (inner x)) (difference_set r l) then Some Less else None
      | Some Greater \<Rightarrow> if \<forall>x \<in> set (data r). vs_ge (vs_new (inner x)) (difference_set l r) then Some Greater else None
      | x \<Rightarrow> x)"

section \<open>Generating the levels\<close>

record dim_map =
  dmp_src :: nat
  dmp_dst :: nat
  src_dims :: "nat vec_set"
  dst_dims :: "nat vec_set"

definition list_dim_map :: "(nat \<Rightarrow> bool) \<Rightarrow> nat \<times> nat \<times> (nat \<times> nat) list \<Rightarrow> dim_map option" where
  "list_dim_map consider = (\<lambda>(src, dst, pairs).
     (let src_dims = vs_new (filter consider (map fst pairs));
          dst_dims = vs_new (filter consider (map snd pairs))
      in if vs_is_empty dst_dims \<or> vs_is_empty src_dims then None
         else Some \<lparr>dmp_src = src, dmp_dst = dst, src_dims = src_dims, dst_dims = dst_dims\<rparr>))"

definition list_dim_maps :: "(nat \<Rightarrow> bool) \<Rightarrow> (nat \<times> nat \<times> (nat \<times> nat) list) list \<Rightarrow> dim_map list" where
  "list_dim_maps consider operands = List.map_filter (list_dim_map consider) operands"

definition stmt_nestings :: "(nat \<Rightarrow> bool) \<Rightarrow> stmt_id \<times> nat vec_set \<Rightarrow> nat vec_set list" where
  "stmt_nestings consider = (\<lambda>(stmt, outer).
     (let outer_dims = vs_filter outer consider
      in case stmt of
          S_Dim d \<Rightarrow> if consider d then [outer_dims, snd (vs_insert outer_dims d)] else []
        | S_Inst _ \<Rightarrow> [outer_dims]))"

definition dim_map_nesting :: "(nat \<Rightarrow> nat vec_set) \<Rightarrow> dim_map \<Rightarrow> nat vec_set option" where
  "dim_map_nesting outer_dims m = intersect_sets (map outer_dims (data (src_dims m) @ data (dst_dims m)))"

text \<open>The dimensions of the edge between two nodes; only the sequential part of several dimensions is kept.\<close>

definition edge_dims :: "(nat \<Rightarrow> bool) \<Rightarrow> nat vec_set \<Rightarrow> nat vec_set option" where
  "edge_dims sequential dims =
     (if vs_len dims \<le> 1 then Some dims
      else let s = vs_new (filter sequential (data dims)) in if vs_is_empty s then None else Some s)"

definition unique_first :: "'a list \<Rightarrow> 'a list" where
  "unique_first xs = rev (remdups (rev xs))"

text \<open>The dimensions of each level, with the root first, and the dimension maps.\<close>

definition generate_levels ::
  "(nat set \<Rightarrow> nat list) \<Rightarrow> (nat \<Rightarrow> dim_kind set) \<Rightarrow> (stmt_id \<times> nat vec_set) list \<Rightarrow> (nat \<Rightarrow> nat vec_set) \<Rightarrow> (nat \<Rightarrow> nat list)
    \<Rightarrow> (nat \<times> nat \<times> (nat \<times> nat) list) list \<Rightarrow> (nat vec_set list \<times> dim_map list) option" where
  "generate_levels iter kind nesting outer_dims inner operands = do {
     let consider = must_consider_dim kind;
     let dim_maps = list_dim_maps consider operands;
     extra \<leftarrow> those (map (dim_map_nesting outer_dims) dim_maps);
     dag \<leftarrow> from_order iter (concat (map (stmt_nestings consider) nesting) @ extra) (level_cmp inner);
     let dims = concat (map (\<lambda>(start, aft). map (\<lambda>end_id. difference_set (nodes dag ! end_id) start) aft)
       (zip (nodes dag) (after dag)));
     Some (unique_first (vs_default # List.map_filter (edge_dims (is_sequential kind)) dims), dim_maps) }"

section \<open>The order is a partial order\<close>

lemma vs_le_iff: "vs_inv s \<Longrightarrow> vs_inv t \<Longrightarrow> vs_le s t \<longleftrightarrow> elems s \<subseteq> elems t"
  by (auto simp: vs_le_def vs_partial_cmp_spec set_cmp_def)

lemma vs_ge_iff: "vs_inv s \<Longrightarrow> vs_inv t \<Longrightarrow> vs_ge s t \<longleftrightarrow> elems t \<subseteq> elems s"
  by (auto simp: vs_ge_def vs_partial_cmp_spec set_cmp_def)

lemma difference_set_spec:
  assumes "vs_inv s" "vs_inv t"
  shows "vs_inv (difference_set s t)" "elems (difference_set s t) = elems s - elems t"
proof -
  have "iter_collect difference_next (Suc (vs_len s)) (vs_difference s t) = Some (filter (\<lambda>x. x \<notin> elems t) (data s))"
    by (rule vs_difference_collect [OF assms]) (simp add: vs_len_def)
  then show "vs_inv (difference_set s t)" "elems (difference_set s t) = elems s - elems t"
    by (auto simp: difference_set_def vs_inv_new elems_new) (auto simp: elems_def)
qed

lemma level_cmp_iff:
  assumes "vs_inv a" "vs_inv b"
  shows "level_cmp inner a b = Some Equal \<longleftrightarrow> a = b"
    "level_cmp inner a b = Some Less \<longleftrightarrow> elems a \<subset> elems b \<and> (\<forall>x \<in> elems a. elems b - elems a \<subseteq> set (inner x))"
    "level_cmp inner a b = Some Greater \<longleftrightarrow> elems b \<subset> elems a \<and> (\<forall>x \<in> elems b. elems a - elems b \<subseteq> set (inner x))"
proof -
  have le: "vs_ge (vs_new (inner x)) (difference_set s t) \<longleftrightarrow> elems s - elems t \<subseteq> set (inner x)" if "vs_inv s" "vs_inv t" for s t x
    using difference_set_spec [OF that] by (simp add: vs_ge_iff vs_inv_new elems_new)
  have cmp: "vs_partial_cmp a b = set_cmp (elems a) (elems b)" by (rule vs_partial_cmp_spec [OF assms])
  show "level_cmp inner a b = Some Equal \<longleftrightarrow> a = b"
    using vs_eqI [OF assms] by (auto simp: level_cmp_def cmp set_cmp_def split: if_splits)
  show "level_cmp inner a b = Some Less \<longleftrightarrow> elems a \<subset> elems b \<and> (\<forall>x \<in> elems a. elems b - elems a \<subseteq> set (inner x))"
    using le [OF assms(2,1)] by (auto simp: level_cmp_def cmp set_cmp_def elems_def split: if_splits)
  show "level_cmp inner a b = Some Greater \<longleftrightarrow> elems b \<subset> elems a \<and> (\<forall>x \<in> elems b. elems a - elems b \<subseteq> set (inner x))"
    using le [OF assms] by (auto simp: level_cmp_def cmp set_cmp_def elems_def split: if_splits)
qed

interpretation levels: comparison vs_inv "level_cmp inner" for inner
proof unfold_locales
  fix a b c :: "nat vec_set" and inner assume v: "vs_inv a" "vs_inv b" "vs_inv c"
  assume ab: "level_cmp inner a b = Some Less" and bc: "level_cmp inner b c = Some Less"
  have "elems c - elems a \<subseteq> set (inner x)" if "x \<in> elems a" for x
    using ab bc that unfolding level_cmp_iff(2) [OF v(1,2)] level_cmp_iff(2) [OF v(2,3)] by blast
  moreover have "elems a \<subset> elems c"
    using ab bc unfolding level_cmp_iff(2) [OF v(1,2)] level_cmp_iff(2) [OF v(2,3)] by blast
  ultimately show "level_cmp inner a c = Some Less" using level_cmp_iff(2) [OF v(1,3)] by blast
qed (auto simp: level_cmp_iff)

section \<open>The levels are the edges of the graph\<close>

lemma unique_first_spec: "set (unique_first xs) = set xs" "distinct (unique_first xs)" "xs \<noteq> [] \<Longrightarrow> hd (unique_first xs) = hd xs"
proof -
  have "\<exists>ys. remdups (zs @ [x]) = ys @ [x]" for zs and x :: 'a by (induction zs) auto
  then show "xs \<noteq> [] \<Longrightarrow> hd (unique_first xs) = hd xs" unfolding unique_first_def by (cases xs) (auto, metis hd_rev last_snoc rev_eq_append_conv)
qed (simp_all add: unique_first_def)

lemma mem_map_filter: "y \<in> set (List.map_filter f xs) \<longleftrightarrow> (\<exists>x \<in> set xs. f x = Some y)"
  by (induction xs) (auto simp: map_filter_simps split: option.splits)

lemma stmt_nestings_inv:
  assumes "vs_inv (snd p)" "s \<in> set (stmt_nestings consider p)"
  shows "vs_inv s"
proof -
  have "vs_inv (vs_filter (snd p) consider)" using vs_inv_filter [OF assms(1)] by (simp add: vs_filter_def)
  moreover obtain stmt outer where "p = (stmt, outer)" by fastforce
  ultimately show ?thesis using assms(2) vs_insert_spec(1) by (cases stmt) (auto simp: stmt_nestings_def Let_def split: if_splits)
qed

lemma intersect_sets_inv: "\<forall>s \<in> set sets. vs_inv s \<Longrightarrow> intersect_sets sets = Some s \<Longrightarrow> vs_inv s"
proof -
  have "vs_inv s \<Longrightarrow> \<forall>t \<in> set ss. vs_inv t \<Longrightarrow> vs_inv (fold (\<lambda>other out. vs_intersect out other) ss s)" for s :: "'a vec_set" and ss
    by (induction ss arbitrary: s) (auto simp: vs_intersect_spec vs_filter_def vs_inv_filter)
  then show "\<forall>s \<in> set sets. vs_inv s \<Longrightarrow> intersect_sets sets = Some s \<Longrightarrow> vs_inv s"
    by (auto simp: intersect_sets_def split: list.splits)
qed

lemma those_all: "\<forall>x \<in> set xs. \<exists>y. f x = Some y \<and> P y \<Longrightarrow> \<exists>ys. those (map f xs) = Some ys \<and> (\<forall>y \<in> set ys. P y)"
  by (induction xs) auto

lemma dim_map_nestings:
  assumes "\<forall>d. vs_inv (outer_dims d)"
  shows "\<exists>extra. those (map (dim_map_nesting outer_dims) (list_dim_maps consider operands)) = Some extra \<and> (\<forall>s \<in> set extra. vs_inv s)"
proof -
  have "\<exists>s. dim_map_nesting outer_dims m = Some s \<and> vs_inv s" if "m \<in> set (list_dim_maps consider operands)" for m
  proof -
    have "data (src_dims m) \<noteq> []"
      using that by (auto simp: list_dim_maps_def mem_map_filter list_dim_map_def Let_def vs_is_empty_def split: if_splits)
    then obtain s where "dim_map_nesting outer_dims m = Some s"
      by (cases "data (src_dims m)") (auto simp: dim_map_nesting_def intersect_sets_def)
    then show ?thesis using intersect_sets_inv [of "map outer_dims (data (src_dims m) @ data (dst_dims m))"] assms
      by (auto simp: dim_map_nesting_def)
  qed
  then show ?thesis using those_all [of "list_dim_maps consider operands"] by blast
qed

lemma edge_dims_spec:
  assumes "vs_inv s" "elems s \<noteq> {}" "edge_dims sequential s = Some t"
  shows "vs_inv t \<and> elems t \<noteq> {} \<and> elems t \<subseteq> elems s"
  using assms by (auto simp: edge_dims_def Let_def vs_inv_new elems_new vs_is_empty_def split: if_splits) (auto simp: elems_def vs_new_def split: if_splits)



end
