(* ===== verification/Local_Info.thy ===== *)
theory Local_Info
  imports Levels
begin

text \<open>
  The local information of the performance model (\<^verbatim>\<open>src/model/local_info.rs\<close>): the nesting of every statement, the pressure of
  the statements and of the loops, and the parallelism of the kernel; and the pressure of a level (\<^verbatim>\<open>sum_pressure\<close>, \<^verbatim>\<open>block_bound\<close> and
  \<^verbatim>\<open>Level::new\<close> of \<^verbatim>\<open>src/model/level.rs\<close>).

  The kernel with its domains is the record \<open>kspace\<close>, and the device, whose methods are implemented by the backends, the record
  \<open>device\<close>. \<open>None\<close> is a panic.
\<close>

section \<open>Order of statements\<close>

text \<open>The order that \<^verbatim>\<open>StmtId\<close> derives: instructions come before dimensions.\<close>

fun stmt_key :: "stmt_id \<Rightarrow> nat \<times> nat" where
  "stmt_key (S_Inst i) = (0, i)"
| "stmt_key (S_Dim d) = (1, d)"

lemma stmt_key_eq: "stmt_key a = stmt_key b \<longleftrightarrow> a = b"
  by (cases a; cases b) auto

instantiation stmt_id :: linorder
begin

definition less_eq_stmt_id :: "stmt_id \<Rightarrow> stmt_id \<Rightarrow> bool" where
  "less_eq_stmt_id a b \<longleftrightarrow> fst (stmt_key a) < fst (stmt_key b)
     \<or> fst (stmt_key a) = fst (stmt_key b) \<and> snd (stmt_key a) \<le> snd (stmt_key b)"

definition less_stmt_id :: "stmt_id \<Rightarrow> stmt_id \<Rightarrow> bool" where
  "less_stmt_id a b \<longleftrightarrow> fst (stmt_key a) < fst (stmt_key b)
     \<or> fst (stmt_key a) = fst (stmt_key b) \<and> snd (stmt_key a) < snd (stmt_key b)"

instance
proof
  fix a b :: stmt_id assume "a \<le> b" "b \<le> a"
  then have "stmt_key a = stmt_key b" by (auto simp: less_eq_stmt_id_def prod_eq_iff)
  then show "a = b" by (simp add: stmt_key_eq)
qed (auto simp: less_eq_stmt_id_def less_stmt_id_def)

end

section \<open>The kernel and the device\<close>

record ('p, 't) kspace =
  ks_insts :: "nat list"
  ks_dims :: "nat list"
  ks_thread_dims :: "nat list"
  ks_iteration_dims :: "nat \<Rightarrow> nat list"
  ks_dim_size :: "nat \<Rightarrow> 'p partial_size"
  ks_side_effects :: "nat \<Rightarrow> bool"
  ks_induction_vars :: "(nat list \<times> 't) list"
  ks_order :: "stmt_id \<Rightarrow> stmt_id \<Rightarrow> order_val set"
  ks_kind :: "nat \<Rightarrow> dim_kind set"
  ks_may_map :: "nat \<Rightarrow> nat \<Rightarrow> bool"
  ks_space :: dim_space
  ks_param :: "'p \<Rightarrow> u32 option"

definition statements :: "('p, 't) kspace \<Rightarrow> stmt_id list" where
  "statements k = map S_Inst (ks_insts k) @ map S_Dim (ks_dims k)"

section \<open>Nesting of a statement\<close>

record 'p nesting =
  inner_dims :: "nat vec_set"
  inner_stmts :: "stmt_id vec_set"
  outer_dims :: "nat vec_set"
  before_self :: "nat vec_set"
  after_self :: "nat vec_set"
  bigger_merged_dims :: "nat vec_set"
  has_inner_thread_dims :: bool
  num_unmapped_threads :: "'p partial_size"
  max_threads_per_block :: "'p partial_size"

definition add_outer :: "('p, 't) kspace \<Rightarrow> nat \<Rightarrow> nat \<Rightarrow> nat list \<Rightarrow> nat list" where
  "add_outer k stmt dim outer =
     (if dim \<noteq> stmt \<and> ks_order k (S_Dim dim) (S_Dim stmt) \<subseteq> {O_Outer}
         \<and> (\<forall>x \<in> set outer. O_Merged \<notin> ks_order k (S_Dim dim) (S_Dim x))
      then outer @ [dim] else outer)"

fun get_iteration_dims :: "('p, 't) kspace \<Rightarrow> stmt_id \<Rightarrow> nat vec_set" where
  "get_iteration_dims k (S_Inst i) = vs_new (ks_iteration_dims k i)"
| "get_iteration_dims k (S_Dim d) = vs_new (fold (add_outer k d) (ks_dims k) [])"

fun as_dim :: "stmt_id \<Rightarrow> nat list" where
  "as_dim (S_Inst i) = []"
| "as_dim (S_Dim d) = [d]"

text \<open>The other statements whose order with the statement passes a test, and those of them that are dimensions.\<close>

definition other_stmts :: "('p, 't) kspace \<Rightarrow> stmt_id \<Rightarrow> (stmt_id \<Rightarrow> order_val set \<Rightarrow> bool) \<Rightarrow> stmt_id list" where
  "other_stmts k stmt test = filter (\<lambda>x. x \<noteq> stmt \<and> test x (ks_order k x stmt)) (statements k)"

definition other_dims :: "('p, 't) kspace \<Rightarrow> stmt_id \<Rightarrow> (stmt_id \<Rightarrow> order_val set \<Rightarrow> bool) \<Rightarrow> nat list" where
  "other_dims k stmt test = concat (map as_dim (other_stmts k stmt test))"

definition is_mapped :: "('p, 't) kspace \<Rightarrow> nat list \<Rightarrow> nat \<Rightarrow> bool" where
  "is_mapped k outer d \<longleftrightarrow> (\<exists>x \<in> set outer. d = x \<or> (possible_sizes (ks_space k) x \<noteq> None \<and> ks_may_map k d x))"

definition nesting_compute :: "('p, 't) kspace \<Rightarrow> stmt_id \<Rightarrow> 'p nesting option" where
  "nesting_compute k stmt = do {
     let outer = get_iteration_dims k stmt;
     unmapped \<leftarrow> ps_product (map (ks_dim_size k) (filter (\<lambda>d. \<not> is_mapped k (data outer) d) (ks_thread_dims k)));
     max_threads \<leftarrow> ps_product (map (ks_dim_size k) (filter (\<lambda>d. K_Thread \<in> ks_kind k d) (data outer)));
     Some \<lparr>inner_dims = vs_new (other_dims k stmt (\<lambda>_ ord. ord \<subseteq> {O_Inner})),
       inner_stmts = vs_new (other_stmts k stmt (\<lambda>_ ord. ord \<subseteq> {O_Inner})),
       outer_dims = outer,
       before_self = vs_new (other_dims k stmt (\<lambda>_ ord. ord \<subseteq> {O_Inner, O_Before})),
       after_self = vs_new (other_dims k stmt (\<lambda>_ ord. ord \<subseteq> {O_Outer, O_After})),
       bigger_merged_dims = vs_new (other_dims k stmt (\<lambda>x ord. O_Merged \<in> ord \<and> stmt < x)),
       has_inner_thread_dims = (\<exists>d \<in> set (other_dims k stmt (\<lambda>_ ord. O_Inner \<in> ord)). ks_kind k d = {K_Thread}),
       num_unmapped_threads = unmapped,
       max_threads_per_block = max_threads\<rparr> }"

section \<open>Parallelism\<close>

record parallelism =
  min_num_blocks :: nat
  min_num_threads_per_blocks :: nat
  min_num_threads :: nat
  lcm_num_blocks :: nat

definition u64_lcm :: "nat \<Rightarrow> nat \<Rightarrow> nat option" where
  "u64_lcm a b = to_u64 (lcm a b)"

definition par_combine :: "parallelism \<Rightarrow> parallelism \<Rightarrow> parallelism option" where
  "par_combine self other = do {
     l \<leftarrow> u64_lcm (lcm_num_blocks self) (lcm_num_blocks other);
     Some \<lparr>min_num_blocks = min (min_num_blocks self) (min_num_blocks other),
       min_num_threads_per_blocks = min (min_num_threads_per_blocks self) (min_num_threads_per_blocks other),
       min_num_threads = min (min_num_threads self) (min_num_threads other),
       lcm_num_blocks = l\<rparr> }"

definition par_default :: parallelism where
  "par_default = \<lparr>min_num_blocks = 1, min_num_threads_per_blocks = 1, min_num_threads = 1, lcm_num_blocks = 1\<rparr>"

text \<open>The sizes of the dimensions that are blocks, and of those that may be blocks.\<close>

definition block_sizes :: "('p, 't) kspace \<Rightarrow> nat list \<Rightarrow> ('p partial_size \<times> 'p partial_size) option" where
  "block_sizes k dims = fold_option (\<lambda>d (min_size, max_size).
     if K_Block \<in> ks_kind k d then do {
       max_size \<leftarrow> ps_mul max_size (ks_dim_size k d);
       min_size \<leftarrow> (if ks_kind k d = {K_Block} then ps_mul min_size (ks_dim_size k d) else Some min_size);
       Some (min_size, max_size) }
     else Some (min_size, max_size)) dims (ps_default, ps_default)"

definition inst_parallelism :: "('p, 't) kspace \<Rightarrow> 'p partial_size \<Rightarrow> nat \<Rightarrow> 'p nesting \<Rightarrow> parallelism option" where
  "inst_parallelism k size_thread_dims min_threads_per_blocks n = do {
     (min_size, max_size) \<leftarrow> block_sizes k (data (outer_dims n));
     blocks_range \<leftarrow> bounds (ks_space k) (ks_param k) min_size;
     blocks_factors \<leftarrow> factors (ks_space k) (ks_param k) max_size;
     threads_size \<leftarrow> ps_mul min_size size_thread_dims;
     threads_range \<leftarrow> bounds (ks_space k) (ks_param k) threads_size;
     Some \<lparr>min_num_blocks = sr_min blocks_range, min_num_threads_per_blocks = min_threads_per_blocks,
       min_num_threads = sr_min threads_range, lcm_num_blocks = fr_lcm blocks_factors\<rparr> }"

fun fold1_option :: "('a \<Rightarrow> 'a \<Rightarrow> 'a option) \<Rightarrow> 'a list \<Rightarrow> 'a option option" where
  "fold1_option f [] = Some None"
| "fold1_option f (x # xs) = map_option Some (fold_option (\<lambda>y acc. f acc y) xs x)"

definition compute_parallelism :: "('p, 't) kspace \<Rightarrow> (stmt_id \<rightharpoonup> 'p nesting) \<Rightarrow> parallelism option" where
  "compute_parallelism k nesting = do {
     size_thread_dims \<leftarrow> ps_product (map (ks_dim_size k) (ks_thread_dims k));
     threads_range \<leftarrow> bounds (ks_space k) (ks_param k) size_thread_dims;
     ps \<leftarrow> those (map (\<lambda>i. do { n \<leftarrow> nesting (S_Inst i); inst_parallelism k size_thread_dims (sr_min threads_range) n }) (ks_insts k));
     p \<leftarrow> fold1_option par_combine ps;
     Some (case p of Some p \<Rightarrow> p | None \<Rightarrow> par_default) }"

section \<open>Pressure of the statements\<close>

record ('f, 'p, 't) device =
  dev_bottlenecks :: "string list"
  dev_hw_pressure :: "(nat \<rightharpoonup> size_range) \<Rightarrow> (stmt_id \<rightharpoonup> 'p nesting) \<Rightarrow> stmt_id \<Rightarrow> 'f hw_pressure"
  dev_loop_iter_pressure :: "dim_kind set \<Rightarrow> 'f hw_pressure \<times> 'f hw_pressure"
  dev_lower_type :: "'t \<Rightarrow> 't option"
  dev_i32 :: 't
  dev_additive :: "'t \<Rightarrow> 'f hw_pressure"
  dev_multiplicative :: "'t \<Rightarrow> 'f hw_pressure"
  dev_block_overhead :: "factor_range \<Rightarrow> factor_range \<Rightarrow> size_range \<Rightarrow> 'f hw_pressure \<Rightarrow> 'f hw_pressure"
  dev_thread_rates :: "'f hw_pressure"
  dev_block_rates :: "'f hw_pressure"
  dev_total_rates :: "'f hw_pressure"
  dev_block_parallelism :: nat

record ('f, 'p) local_info =
  li_nesting :: "stmt_id \<rightharpoonup> 'p nesting"
  li_hw_pressure :: "stmt_id \<rightharpoonup> 'f hw_pressure"
  li_dim_overhead :: "nat \<rightharpoonup> 'f hw_pressure \<times> 'f hw_pressure"
  li_thread_overhead :: "'f hw_pressure"
  li_parallelism :: parallelism

text \<open>One dimension of an induction variable, on the pressures of statements, loops and threads.\<close>

type_synonym 'f pressures = "(stmt_id \<rightharpoonup> 'f hw_pressure) \<times> (nat \<rightharpoonup> 'f hw_pressure \<times> 'f hw_pressure) \<times> 'f hw_pressure"

definition indvar_dim_pressure ::
  "'f f64_ops \<Rightarrow> ('f, 'p, 't) device \<Rightarrow> ('p, 't) kspace \<Rightarrow> (nat \<rightharpoonup> size_range) \<Rightarrow> 't \<Rightarrow> nat \<Rightarrow> 'f pressures \<Rightarrow> 'f pressures option" where
  "indvar_dim_pressure fl dev k dim_sizes base_t dim = (\<lambda>(hw, dim_overhead, thread_overhead).
     (let kind = ks_kind k dim;
          t = (case dev_lower_type dev base_t of Some t \<Rightarrow> t | None \<Rightarrow> dev_i32 dev);
          overhead = (if kind \<inter> {K_Unroll, K_Loop} \<noteq> {} then dev_additive dev t else dev_multiplicative dev t)
      in if kind \<inter> {K_InnerVector, K_OuterVector} \<noteq> {} then Some (hw, dim_overhead, thread_overhead)
         else do {
           size \<leftarrow> dim_sizes dim;
           if kind \<inter> {K_Thread, K_Block} \<noteq> {} then do {
             thread_overhead \<leftarrow> hw_add_parallel fl overhead thread_overhead;
             Some (hw, dim_overhead, thread_overhead) }
           else if sr_min size > 1 then do {
             (iter, end_lat) \<leftarrow> dim_overhead dim;
             iter \<leftarrow> hw_add_parallel fl overhead iter;
             p \<leftarrow> hw (S_Dim dim);
             p \<leftarrow> hw_add_parallel fl (hw_repeat_parallel fl (f_of_u64 fl (of_nat (sr_min size - 1))) overhead) p;
             Some (hw(S_Dim dim \<mapsto> p), dim_overhead(dim \<mapsto> (iter, end_lat)), thread_overhead) }
           else Some (hw, dim_overhead, thread_overhead) }))"

definition add_indvar_pressure ::
  "'f f64_ops \<Rightarrow> ('f, 'p, 't) device \<Rightarrow> ('p, 't) kspace \<Rightarrow> (nat \<rightharpoonup> size_range) \<Rightarrow> nat list \<times> 't \<Rightarrow> 'f pressures \<Rightarrow> 'f pressures option" where
  "add_indvar_pressure fl dev k dim_sizes var = fold_option (indvar_dim_pressure fl dev k dim_sizes (snd var)) (fst var)"

text \<open>The pressure of a thread dimension is only kept on the innermost one.\<close>

definition stmt_pressure ::
  "'f f64_ops \<Rightarrow> ('f, 'p, 't) device \<Rightarrow> ('p, 't) kspace \<Rightarrow> (nat \<rightharpoonup> size_range) \<Rightarrow> (stmt_id \<rightharpoonup> 'p nesting) \<Rightarrow> stmt_id \<Rightarrow> 'f hw_pressure option" where
  "stmt_pressure fl dev k dim_sizes nesting stmt =
     (if (\<exists>d \<in> set (as_dim stmt). ks_kind k d = {K_Thread}) then do {
        n \<leftarrow> nesting stmt;
        Some (if has_inner_thread_dims n then hw_zero fl (dev_bottlenecks dev) else dev_hw_pressure dev dim_sizes nesting stmt) }
      else Some (dev_hw_pressure dev dim_sizes nesting stmt))"

definition loop_overhead ::
  "'f f64_ops \<Rightarrow> ('f, 'p, 't) device \<Rightarrow> ('p, 't) kspace \<Rightarrow> (stmt_id \<rightharpoonup> 'p nesting) \<Rightarrow> nat \<Rightarrow> ('f hw_pressure \<times> 'f hw_pressure) option" where
  "loop_overhead fl dev k nesting d =
     (if ks_kind k d = {K_Thread} then do {
        n \<leftarrow> nesting (S_Dim d);
        let zero = hw_zero fl (dev_bottlenecks dev);
        Some (if has_inner_thread_dims n then (zero, zero) else dev_loop_iter_pressure dev (ks_kind k d)) }
      else Some (dev_loop_iter_pressure dev (ks_kind k d)))"

text \<open>A hash map collected from the keys.\<close>

definition collect_map :: "('k \<Rightarrow> 'v option) \<Rightarrow> 'k list \<Rightarrow> ('k \<rightharpoonup> 'v) option" where
  "collect_map f ks = do { vs \<leftarrow> those (map f ks); Some (map_of (rev (zip ks vs))) }"

definition local_info_compute :: "'f f64_ops \<Rightarrow> ('f, 'p, 't) device \<Rightarrow> ('p, 't) kspace \<Rightarrow> ('f, 'p) local_info option" where
  "local_info_compute fl dev k = do {
     dim_sizes \<leftarrow> collect_map (\<lambda>d. bounds (ks_space k) (ks_param k) (ks_dim_size k d)) (ks_dims k);
     nesting \<leftarrow> collect_map (nesting_compute k) (statements k);
     hw \<leftarrow> collect_map (stmt_pressure fl dev k dim_sizes nesting) (statements k);
     overhead \<leftarrow> collect_map (loop_overhead fl dev k nesting) (ks_dims k);
     p \<leftarrow> compute_parallelism k nesting;
     (hw, overhead, thread) \<leftarrow> fold_option (add_indvar_pressure fl dev k dim_sizes) (ks_induction_vars k)
       (hw, overhead, hw_zero fl (dev_bottlenecks dev));
     Some \<lparr>li_nesting = nesting, li_hw_pressure = hw, li_dim_overhead = overhead, li_thread_overhead = thread, li_parallelism = p\<rparr> }"

section \<open>Pressure of a level\<close>

definition accounts_for_dim :: "bottleneck_level \<Rightarrow> dim_kind set \<Rightarrow> bool" where
  "accounts_for_dim level kind =
     (if kind \<inter> {K_InnerVector, K_OuterVector} \<noteq> {} then False
      else case level of
          BL_Global \<Rightarrow> True
        | BL_Block \<Rightarrow> kind \<noteq> {K_Block}
        | BL_Thread \<Rightarrow> kind \<noteq> {K_Block} \<and> K_Thread \<notin> kind)"

definition range_one :: size_range where
  "range_one = \<lparr>sr_min = 1, sr_max = 1\<rparr>"

definition factor_fixed :: "nat \<Rightarrow> factor_range" where
  "factor_fixed n = \<lparr>fr_gcd = n, fr_lcm = n\<rparr>"

text \<open>The overhead of the threads, when the level is the whole program.\<close>

definition init_pressure ::
  "'f f64_ops \<Rightarrow> ('f, 'p, 't) device \<Rightarrow> ('f, 'p) local_info \<Rightarrow> bottleneck_level \<Rightarrow> 'f hw_pressure \<Rightarrow> 'f hw_pressure option" where
  "init_pressure fl dev info level pressure =
     (let threads = (case level of
            BL_Global \<Rightarrow> min_num_threads (li_parallelism info)
          | BL_Block \<Rightarrow> min_num_threads_per_blocks (li_parallelism info)
          | BL_Thread \<Rightarrow> 1);
          init = (if level \<noteq> BL_Thread
            then dev_block_overhead dev (factor_fixed threads) (factor_fixed threads) range_one (li_thread_overhead info)
            else li_thread_overhead info)
      in hw_repeat_and_add_bottlenecks fl (f_of_u64 fl (of_nat threads)) init pressure)"

text \<open>Instructions with side effects are predicated; the others run on all the threads.\<close>

definition block_pressure ::
  "('f, 'p, 't) device \<Rightarrow> ('p, 't) kspace \<Rightarrow> 'p nesting \<Rightarrow> stmt_id \<Rightarrow> 'p partial_size \<times> 'f hw_pressure
    \<Rightarrow> ('p partial_size \<times> 'f hw_pressure) option" where
  "block_pressure dev k n stmt = (\<lambda>(num_instances, pressure). do {
     max_threads \<leftarrow> ps_mul (max_threads_per_block n) (num_unmapped_threads n);
     max_threads \<leftarrow> factors (ks_space k) (ks_param k) max_threads;
     if (case stmt of S_Inst i \<Rightarrow> ks_side_effects k i | S_Dim _ \<Rightarrow> False) then do {
       active \<leftarrow> factors (ks_space k) (ks_param k) (max_threads_per_block n);
       predication \<leftarrow> bounds (ks_space k) (ks_param k) (num_unmapped_threads n);
       Some (num_instances, dev_block_overhead dev active max_threads predication pressure) }
     else do {
       num_instances \<leftarrow> ps_mul num_instances (num_unmapped_threads n);
       Some (num_instances, dev_block_overhead dev max_threads max_threads range_one pressure) } })"

definition intersection_list :: "'a::linorder vec_set \<Rightarrow> 'a vec_set \<Rightarrow> 'a list" where
  "intersection_list s t =
     (case iter_collect intersection_next (Suc (vs_len s)) (vs_intersection s t) of Some xs \<Rightarrow> xs | None \<Rightarrow> [])"

definition add_stmt_pressure ::
  "'f f64_ops \<Rightarrow> ('f, 'p, 't) device \<Rightarrow> ('p, 't) kspace \<Rightarrow> ('f, 'p) local_info \<Rightarrow> bottleneck_level \<Rightarrow> nat vec_set \<Rightarrow> 'p partial_size
    \<Rightarrow> stmt_id \<Rightarrow> 'f hw_pressure \<Rightarrow> 'f hw_pressure option" where
  "add_stmt_pressure fl dev k info level inner repeat stmt pressure = do {
     n \<leftarrow> li_nesting info stmt;
     if fst (intersection_next (vs_intersection inner (bigger_merged_dims n))) \<noteq> None then Some pressure
     else do {
       let inner_sum = vs_filter inner (\<lambda>d. accounts_for_dim level (ks_kind k d));
       num_instances \<leftarrow> ps_product (map (ks_dim_size k) (intersection_list inner_sum (outer_dims n)));
       num_instances \<leftarrow> ps_mul num_instances repeat;
       p \<leftarrow> (case stmt of
           S_Dim d \<Rightarrow> if accounts_for_dim level (ks_kind k d) then li_hw_pressure info stmt else map_option fst (li_dim_overhead info d)
         | S_Inst _ \<Rightarrow> li_hw_pressure info stmt);
       (num_instances, p) \<leftarrow> (if level \<noteq> BL_Thread then block_pressure dev k n stmt (num_instances, p) else Some (num_instances, p));
       r \<leftarrow> bounds (ks_space k) (ks_param k) num_instances;
       hw_repeat_and_add_bottlenecks fl (f_of_u64 fl (of_nat (sr_min r))) p pressure } }"

definition sum_pressure ::
  "'f f64_ops \<Rightarrow> ('f, 'p, 't) device \<Rightarrow> ('p, 't) kspace \<Rightarrow> ('f, 'p) local_info \<Rightarrow> bottleneck_level \<Rightarrow> nat list \<Rightarrow> 'p partial_size
    \<Rightarrow> 'f hw_pressure option" where
  "sum_pressure fl dev k info level nest repeat = do {
     overheads \<leftarrow> those (map (\<lambda>d. map_option fst (li_dim_overhead info d)) nest);
     m \<leftarrow> hw_min fl overheads;
     let pressure = (case m of Some p \<Rightarrow> p | None \<Rightarrow> hw_zero fl (dev_bottlenecks dev));
     pressure \<leftarrow> (if nest = [] then init_pressure fl dev info level pressure else Some pressure);
     nestings \<leftarrow> those (map (\<lambda>d. li_nesting info (S_Dim d)) nest);
     let inner = (case intersect_sets (map inner_dims nestings) of Some s \<Rightarrow> s | None \<Rightarrow> vs_new (ks_dims k));
     let stmts = (case intersect_sets (map inner_stmts nestings) of Some s \<Rightarrow> data s | None \<Rightarrow> statements k);
     fold_option (add_stmt_pressure fl dev k info level inner repeat) stmts pressure }"

definition block_bound ::
  "'f f64_ops \<Rightarrow> ('f, 'p, 't) device \<Rightarrow> ('p, 't) kspace \<Rightarrow> ('f, 'p) local_info \<Rightarrow> nat list \<Rightarrow> 'f fast_bound option" where
  "block_bound fl dev k info dims = do {
     n_iters \<leftarrow> ps_product (map (ks_dim_size k) dims);
     pressure \<leftarrow> sum_pressure fl dev k info BL_Block dims n_iters;
     hw_bound fl BL_Block (dev_block_rates dev) pressure }"

record 'f level =
  lv_dims :: "nat vec_set"
  lv_latency :: "'f fast_bound"
  lv_end_latency :: "'f fast_bound"
  lv_back_edges :: "(nat \<times> 'f fast_bound) list"
  lv_repeated_latency :: "'f fast_bound option"

text \<open>\<^verbatim>\<open>Iterator::min\<close> keeps the first of equal elements.\<close>

definition fb_min :: "'f f64_ops \<Rightarrow> 'f fast_bound \<Rightarrow> 'f fast_bound \<Rightarrow> 'f fast_bound option" where
  "fb_min fl a b = do { ord \<leftarrow> fb_cmp fl a b; Some (if ord = Greater then b else a) }"

definition level_new ::
  "'f f64_ops \<Rightarrow> ('f, 'p, 't) device \<Rightarrow> ('p, 't) kspace \<Rightarrow> ('f, 'p) local_info \<Rightarrow> nat vec_set \<Rightarrow> 'f level option" where
  "level_new fl dev k info dims = do {
     pressure \<leftarrow> sum_pressure fl dev k info BL_Thread (data dims) ps_default;
     ends \<leftarrow> those (map (\<lambda>d. do {
       (_, e) \<leftarrow> li_dim_overhead info d; hw_bound fl BL_Thread (dev_thread_rates dev) e }) (data dims));
     m \<leftarrow> fold1_option (fb_min fl) ends;
     end_lat \<leftarrow> (case m of Some l \<Rightarrow> Some l | None \<Rightarrow> fb_zero fl);
     lat \<leftarrow> hw_bound fl BL_Thread (dev_thread_rates dev) pressure;
     repeated \<leftarrow> (if \<forall>d \<in> set (data dims). ks_kind k d \<subseteq> {K_Thread}
       then map_option Some (block_bound fl dev k info (data dims)) else Some None);
     Some \<lparr>lv_dims = dims, lv_latency = lat, lv_end_latency = end_lat, lv_back_edges = [], lv_repeated_latency = repeated\<rparr> }"

section \<open>Nestings are dual\<close>

lemma other_dims_iff: "d \<in> set (other_dims k stmt test) \<longleftrightarrow> d \<in> set (ks_dims k) \<and> S_Dim d \<noteq> stmt \<and> test (S_Dim d) (ks_order k (S_Dim d) stmt)"
  by (force simp: other_dims_def other_stmts_def statements_def)

lemma order_inverse_inverse [simp]: "order_inverse (order_inverse x) = x"
  by (cases x) auto

lemma inverse_subset: "order_inverse ` S \<subseteq> T \<longleftrightarrow> S \<subseteq> order_inverse ` T"
proof -
  have "inj order_inverse" by (rule inj_on_inverseI [of _ order_inverse]) simp
  then have "S \<subseteq> order_inverse ` T \<longleftrightarrow> order_inverse ` S \<subseteq> order_inverse ` order_inverse ` T" by (simp add: inj_image_subset_iff)
  then show ?thesis by (simp add: image_image)
qed

lemma nesting_fields:
  assumes "nesting_compute k stmt = Some n"
  shows "elems (inner_dims n) = {d \<in> set (ks_dims k). S_Dim d \<noteq> stmt \<and> ks_order k (S_Dim d) stmt \<subseteq> {O_Inner}}"
    "elems (before_self n) = {d \<in> set (ks_dims k). S_Dim d \<noteq> stmt \<and> ks_order k (S_Dim d) stmt \<subseteq> {O_Inner, O_Before}}"
    "elems (after_self n) = {d \<in> set (ks_dims k). S_Dim d \<noteq> stmt \<and> ks_order k (S_Dim d) stmt \<subseteq> {O_Outer, O_After}}"
    "outer_dims n = get_iteration_dims k stmt"
    "vs_inv (inner_dims n)" "vs_inv (before_self n)" "vs_inv (outer_dims n)"
  using assms by (cases stmt; auto simp: nesting_compute_def bind_eq_Some_conv Let_def elems_new vs_inv_new other_dims_iff)+

text \<open>The loop keeps a dimension that is outside, unless it may be merged with one that is already kept.\<close>

lemma add_outer_fold:
  fixes k :: "('p, 't) kspace"
  defines "outside d x \<equiv> x \<noteq> d \<and> ks_order k (S_Dim x) (S_Dim d) \<subseteq> {O_Outer}"
  shows "set acc \<subseteq> set (fold (add_outer k d) xs acc)" (is ?mono)
    and "set (fold (add_outer k d) xs acc) \<subseteq> set acc \<union> {x \<in> set xs. outside d x}" (is ?sub)
    and "x \<in> set xs \<Longrightarrow> outside d x \<Longrightarrow> x \<in> set (fold (add_outer k d) xs acc)
      \<or> (\<exists>y \<in> set (fold (add_outer k d) xs acc). O_Merged \<in> ks_order k (S_Dim x) (S_Dim y))" (is "PROP ?kept")
proof -
  have step: "set acc \<subseteq> set (add_outer k d y acc)" "set (add_outer k d y acc) \<subseteq> set acc \<union> {x. x = y \<and> outside d x}"
    "outside d y \<Longrightarrow> y \<in> set (add_outer k d y acc) \<or> (\<exists>z \<in> set (add_outer k d y acc). O_Merged \<in> ks_order k (S_Dim y) (S_Dim z))" for y acc
    by (auto simp: add_outer_def outside_def)
  have mono: "set acc \<subseteq> set (fold (add_outer k d) xs acc)" for xs acc
    using step(1) by (induction xs arbitrary: acc) (simp, metis (no_types, lifting) fold_simps(2) subset_trans)
  then show ?mono .
  show ?sub
  proof (induction xs arbitrary: acc)
    case (Cons y xs)
    show ?case using Cons.IH [of "add_outer k d y acc"] step(2) [of y acc] by auto
  qed simp
  show "PROP ?kept"
  proof (induction xs arbitrary: acc)
    case (Cons y xs)
    show ?case
    proof (cases "x = y")
      case True
      then show ?thesis using step(3) [of y acc] Cons.prems(2) mono [of "add_outer k d y acc" xs] by auto
    next
      case False
      then show ?thesis using Cons.IH [of "add_outer k d y acc"] Cons.prems by simp
    qed
  qed simp
qed

text \<open>When the order of two statements is the inverse of their order the other way round, the nestings of dimensions are dual:
  a dimension is processed before another exactly when the other is after it, what is nested inside a dimension is processed before
  it, every outer dimension has the dimension inside it, and a dimension that has it inside is an outer dimension or may be
  merged with an outer dimension.\<close>
theorem nestings_dual:
  assumes "\<forall>a b. ks_order k a b = order_inverse ` ks_order k b a" "d \<in> set (ks_dims k)" "e \<in> set (ks_dims k)"
    and "nesting_compute k (S_Dim d) = Some nd" "nesting_compute k (S_Dim e) = Some ne"
  shows "(e \<in> elems (before_self nd) \<longleftrightarrow> d \<in> elems (after_self ne))
    \<and> elems (inner_dims nd) \<subseteq> elems (before_self nd) - {d}
    \<and> (e \<in> elems (outer_dims nd) \<longrightarrow> d \<in> elems (inner_dims ne))
    \<and> (d \<in> elems (inner_dims ne) \<longrightarrow> e \<in> elems (outer_dims nd) \<or> (\<exists>x \<in> elems (outer_dims nd). O_Merged \<in> ks_order k (S_Dim e) (S_Dim x)))"
proof -
  note nd = nesting_fields [OF assms(4)] and ne = nesting_fields [OF assms(5)]
  have de: "ks_order k (S_Dim d) (S_Dim e) = order_inverse ` ks_order k (S_Dim e) (S_Dim d)" using assms(1) by blast
  have before: "e \<in> elems (before_self nd) \<longleftrightarrow> d \<in> elems (after_self ne)"
    unfolding nd ne mem_Collect_eq de inverse_subset using assms(2,3) by auto
  have outer: "elems (outer_dims nd) = set (fold (add_outer k d) (ks_dims k) [])" unfolding nd by (simp add: elems_new)
  have swap: "d \<in> elems (inner_dims ne) \<longleftrightarrow> e \<noteq> d \<and> ks_order k (S_Dim e) (S_Dim d) \<subseteq> {O_Outer}"
    unfolding ne mem_Collect_eq de inverse_subset using assms(2) by auto
  have "e \<in> elems (outer_dims nd) \<longrightarrow> d \<in> elems (inner_dims ne)"
    unfolding outer swap using add_outer_fold(2) [of k d "ks_dims k" "[]"] by fastforce
  moreover have "d \<in> elems (inner_dims ne) \<longrightarrow> e \<in> elems (outer_dims nd) \<or> (\<exists>x \<in> elems (outer_dims nd). O_Merged \<in> ks_order k (S_Dim e) (S_Dim x))"
    unfolding outer swap using add_outer_fold(3) [OF assms(3)] by blast
  moreover have "elems (inner_dims nd) \<subseteq> elems (before_self nd) - {d}" unfolding nd by auto
  ultimately show ?thesis using before by blast
qed

text \<open>A kernel with the loop 1 inside the loop 0.\<close>

definition nest_order :: "stmt_id \<Rightarrow> stmt_id \<Rightarrow> order_val set" where
  "nest_order a b = (if (a, b) = (S_Dim 0, S_Dim 1) then {O_Outer} else if (a, b) = (S_Dim 1, S_Dim 0) then {O_Inner} else {O_Merged})"

definition nest_kernel :: "(unit, unit) kspace" where
  "nest_kernel = \<lparr>ks_insts = [], ks_dims = [0, 1], ks_thread_dims = [], ks_iteration_dims = \<lambda>_. [], ks_dim_size = \<lambda>_. ps_default,
     ks_side_effects = \<lambda>_. False, ks_induction_vars = [], ks_order = nest_order, ks_kind = \<lambda>_. {K_Loop},
     ks_may_map = \<lambda>_ _. False, ks_space = \<lparr>get_size = \<lambda>_. \<lparr>enabled_values = 1\<rparr>, possible_sizes = \<lambda>_. Some [4]\<rparr>, ks_param = \<lambda>_. None\<rparr>"

theorem nestings_dual_witness:
  "\<exists>n0 n1. nesting_compute nest_kernel (S_Dim 0) = Some n0 \<and> nesting_compute nest_kernel (S_Dim 1) = Some n1
    \<and> 0 \<in> elems (outer_dims n1) \<and> 1 \<in> elems (inner_dims n0)"
proof -
  have total: "\<exists>n. nesting_compute nest_kernel s = Some n" for s
    by (cases s) (auto simp: nesting_compute_def nest_kernel_def Let_def ps_product_def)
  then obtain n0 n1 where n: "nesting_compute nest_kernel (S_Dim 0) = Some n0" "nesting_compute nest_kernel (S_Dim 1) = Some n1" by blast
  have inverse: "\<forall>a b. ks_order nest_kernel a b = order_inverse ` ks_order nest_kernel b a"
    by (auto simp: nest_kernel_def nest_order_def)
  have dims: "1 \<in> set (ks_dims nest_kernel)" "0 \<in> set (ks_dims nest_kernel)" by (simp_all add: nest_kernel_def)
  have "0 \<in> elems (outer_dims n1) \<longrightarrow> 1 \<in> elems (inner_dims n0)"
    using nestings_dual [OF inverse dims n(2,1)] by blast
  moreover have "0 \<in> elems (outer_dims n1)"
    unfolding nesting_fields(4) [OF n(2)] by (simp add: nest_kernel_def nest_order_def add_outer_def elems_new)
  ultimately show ?thesis using n by blast
qed

end
