(* ===== verification/Level_Graph.thy ===== *)
theory Level_Graph
  imports Local_Info
begin

text \<open>
  The graph of levels and the passes of the performance model over it: \<^verbatim>\<open>LevelDag\<close> (\<^verbatim>\<open>src/model/level.rs\<close>), the code points
  (\<^verbatim>\<open>src/model/code_point.rs\<close>), and \<^verbatim>\<open>populate\<close>, \<^verbatim>\<open>repeat_level\<close> and \<^verbatim>\<open>apply_dim_map\<close> (\<^verbatim>\<open>src/model/mod.rs\<close>).

  A node of the graph holds a dependency map for the programs in which some dimensions are already processed; its key is the
  set of these dimensions. The latency of a statement, the orders of statements and the nestings are arguments. \<open>None\<close> is a panic.
\<close>

section \<open>The graph\<close>

record repeat_level =
  rl_level_id :: nat
  rl_iterations :: u64

record 'f level_node =
  ln_repeats :: "repeat_level list"
  ln_dim_maps :: "dim_map list"
  ln_deps :: "'f dependency_map"

record 'f level_dag =
  node_ids :: "(nat vec_set \<times> nat) list"
  ld_nodes :: "'f level_node list"

datatype dag_action = DA_Repeat repeat_level | DA_ApplyDimMap dim_map

type_synonym dag_step = "nat \<times> dag_action \<times> nat list"

definition empty_node :: "nat \<Rightarrow> 'f level_node" where
  "empty_node dep_map_size = \<lparr>ln_repeats = [], ln_dim_maps = [], ln_deps = dm_new dep_map_size\<rparr>"

definition ld_new :: "(nat \<Rightarrow> dim_kind set) \<Rightarrow> nat list \<Rightarrow> nat \<Rightarrow> 'f level_dag" where
  "ld_new kind dims dep_map_size =
     \<lparr>node_ids = [(vs_new (filter (\<lambda>d. kind d \<noteq> {K_Block}) dims), 0)], ld_nodes = [empty_node dep_map_size]\<rparr>"

definition gen_node_id ::
  "(stmt_id \<rightharpoonup> 'p nesting) \<Rightarrow> nat list \<Rightarrow> nat \<Rightarrow> 'f level_dag \<Rightarrow> (nat \<times> 'f level_dag) option" where
  "gen_node_id nesting level_dims dep_map_size dag = do {
     ns \<leftarrow> those (map (\<lambda>d. nesting (S_Dim d)) level_dims);
     key \<leftarrow> intersect_sets (map before_self ns);
     Some (case map_of (node_ids dag) key of
         Some i \<Rightarrow> (i, dag)
       | None \<Rightarrow> (length (ld_nodes dag), \<lparr>node_ids = (key, length (ld_nodes dag)) # node_ids dag,
           ld_nodes = ld_nodes dag @ [empty_node dep_map_size]\<rparr>)) }"

text \<open>\<^verbatim>\<open>RepeatLevel::new\<close>; \<open>dim_size\<close> is the size of a dimension.\<close>

definition repeat_level_new ::
  "dim_space \<Rightarrow> ('p \<Rightarrow> u32 option) \<Rightarrow> (nat \<Rightarrow> 'p partial_size) \<Rightarrow> (nat \<Rightarrow> dim_kind set) \<Rightarrow> nat \<Rightarrow> nat vec_set \<Rightarrow> repeat_level option option" where
  "repeat_level_new space param_as_size dim_size kind level_id dims = do {
     s \<leftarrow> ps_product (map dim_size (filter (is_sequential kind) (data dims)));
     r \<leftarrow> bounds space param_as_size s;
     Some (if sr_min r \<le> 1 then None else Some \<lparr>rl_level_id = level_id, rl_iterations = of_nat (sr_min r)\<rparr>) }"

definition update_node :: "nat \<Rightarrow> ('f level_node \<Rightarrow> 'f level_node) \<Rightarrow> 'f level_dag \<Rightarrow> 'f level_dag option" where
  "update_node i f dag =
     (if i < length (ld_nodes dag) then Some (dag\<lparr>ld_nodes := (ld_nodes dag)[i := f (ld_nodes dag ! i)]\<rparr>) else None)"

definition add_level ::
  "(stmt_id \<rightharpoonup> 'p nesting) \<Rightarrow> (nat \<Rightarrow> nat vec_set \<Rightarrow> repeat_level option option) \<Rightarrow> nat \<Rightarrow> nat \<times> 'f level \<Rightarrow> 'f level_dag \<Rightarrow> 'f level_dag option" where
  "add_level nesting repeat_new dep_map_size = (\<lambda>(level_id, level) dag.
     if vs_is_empty (lv_dims level) then Some dag
     else do {
       (i, dag) \<leftarrow> gen_node_id nesting (data (lv_dims level)) dep_map_size dag;
       r \<leftarrow> repeat_new level_id (lv_dims level);
       update_node i (\<lambda>n. n\<lparr>ln_repeats := ln_repeats n @ (case r of Some r \<Rightarrow> [r] | None \<Rightarrow> [])\<rparr>) dag })"

definition add_dim_map ::
  "(stmt_id \<rightharpoonup> 'p nesting) \<Rightarrow> nat \<Rightarrow> dim_map \<Rightarrow> 'f level_dag \<Rightarrow> 'f level_dag option" where
  "add_dim_map nesting dep_map_size m dag = do {
     (i, dag) \<leftarrow> gen_node_id nesting (data (src_dims m)) dep_map_size dag;
     update_node i (\<lambda>n. n\<lparr>ln_dim_maps := ln_dim_maps n @ [m]\<rparr>) dag }"

definition ld_build ::
  "(nat \<Rightarrow> dim_kind set) \<Rightarrow> nat list \<Rightarrow> (stmt_id \<rightharpoonup> 'p nesting) \<Rightarrow> (nat \<Rightarrow> nat vec_set \<Rightarrow> repeat_level option option)
    \<Rightarrow> 'f level list \<Rightarrow> dim_map list \<Rightarrow> nat \<Rightarrow> 'f level_dag option" where
  "ld_build kind dims nesting repeat_new levels dim_maps dep_map_size = do {
     dag \<leftarrow> fold_option (add_level nesting repeat_new dep_map_size) (enumerate 0 levels) (ld_new kind dims dep_map_size);
     fold_option (add_dim_map nesting dep_map_size) dim_maps dag }"

definition node_add_dep :: "'f f64_ops \<Rightarrow> nat \<Rightarrow> nat \<Rightarrow> 'f fast_bound \<Rightarrow> nat \<Rightarrow> 'f level_dag \<Rightarrow> 'f level_dag option" where
  "node_add_dep fl dep_start dep_end dep_lat i dag =
     (if i < length (ld_nodes dag) then do {
        dm \<leftarrow> dm_add_dep fl dep_start dep_end dep_lat (ln_deps (ld_nodes dag ! i));
        update_node i (\<lambda>n. n\<lparr>ln_deps := dm\<rparr>) dag }
      else None)"

definition add_if_processed ::
  "'f f64_ops \<Rightarrow> nat vec_set \<Rightarrow> nat \<Rightarrow> nat \<Rightarrow> 'f fast_bound \<Rightarrow> 'f level_dag \<Rightarrow> 'f level_dag option" where
  "add_if_processed fl dims dep_start dep_end dep_lat dag =
     fold_option (node_add_dep fl dep_start dep_end dep_lat)
       (map snd (filter (\<lambda>(node_dims, _). vs_le dims node_dims) (node_ids dag))) dag"

definition add_dependency ::
  "'f f64_ops \<Rightarrow> nat list \<Rightarrow> nat \<Rightarrow> nat \<Rightarrow> 'f fast_bound \<Rightarrow> 'f level_dag \<Rightarrow> 'f level_dag option" where
  "add_dependency fl ids dep_start dep_end dep_lat dag = fold_option (node_add_dep fl dep_start dep_end dep_lat) ids dag"

definition add_dependency_to_all ::
  "'f f64_ops \<Rightarrow> nat \<Rightarrow> nat \<Rightarrow> 'f fast_bound \<Rightarrow> 'f level_dag \<Rightarrow> 'f level_dag option" where
  "add_dependency_to_all fl dep_start dep_end dep_lat dag =
     fold_option (node_add_dep fl dep_start dep_end dep_lat) [0..<length (ld_nodes dag)] dag"

definition dependencies :: "'f level_dag \<Rightarrow> nat \<Rightarrow> 'f dependency_map option" where
  "dependencies dag i = (if i < length (ld_nodes dag) then Some (ln_deps (ld_nodes dag ! i)) else None)"

text \<open>The actions of a node, with the nodes that they update.\<close>

definition nodes_after :: "(nat vec_set \<times> nat) list \<Rightarrow> nat vec_set \<Rightarrow> nat vec_set \<Rightarrow> nat list" where
  "nodes_after ids dims action_dims =
     map snd (filter (\<lambda>(after_dims, _). vs_ge after_dims action_dims) (filter (\<lambda>(after_dims, _). vs_ge after_dims dims) ids))"

definition node_actions :: "'f level list \<Rightarrow> 'f level_dag \<Rightarrow> nat vec_set \<times> nat \<Rightarrow> dag_step list option" where
  "node_actions levels dag = (\<lambda>(dims, from).
     if from < length (ld_nodes dag) then do {
       repeats \<leftarrow> those (map (\<lambda>r. if rl_level_id r < length levels
         then Some (from, DA_Repeat r, nodes_after (node_ids dag) dims (lv_dims (levels ! rl_level_id r))) else None)
         (ln_repeats (ld_nodes dag ! from)));
       Some (repeats @ map (\<lambda>m. (from, DA_ApplyDimMap m, nodes_after (node_ids dag) dims (src_dims m))) (ln_dim_maps (ld_nodes dag ! from))) }
     else None)"

text \<open>The lists of the nodes are drained; the sort is stable.\<close>

definition processing_order :: "'f level list \<Rightarrow> 'f level_dag \<Rightarrow> (dag_step list \<times> 'f level_dag) option" where
  "processing_order levels dag = do {
     actions \<leftarrow> those (map (node_actions levels dag) (node_ids dag));
     Some (sort_key (\<lambda>(_, _, to_nodes). - int (length to_nodes)) (concat actions),
       dag\<lparr>ld_nodes := map (\<lambda>n. n\<lparr>ln_repeats := [], ln_dim_maps := []\<rparr>) (ld_nodes dag)\<rparr>) }"

section \<open>Code points\<close>

fun lesser_greater_conds :: "code_point \<Rightarrow> order_val set \<times> order_val set" where
  "lesser_greater_conds (CP_Inst _) = ({O_Before}, {O_After})"
| "lesser_greater_conds (CP_LevelEntry _) = ({O_Before, O_Outer}, {O_After})"
| "lesser_greater_conds (CP_LevelExit _) = ({O_Before}, {O_After, O_Outer})"

fun blocks :: "nat vec_set list \<Rightarrow> code_point \<Rightarrow> stmt_id list option" where
  "blocks levels (CP_Inst i) = Some [S_Inst i]"
| "blocks levels (CP_LevelEntry i) = (if i < length levels then Some (map S_Dim (data (levels ! i))) else None)"
| "blocks levels (CP_LevelExit i) = (if i < length levels then Some (map S_Dim (data (levels ! i))) else None)"

type_synonym stmt_order = "stmt_id \<Rightarrow> stmt_id \<Rightarrow> order_val set"

definition is_before_dims :: "stmt_order \<Rightarrow> nat vec_set list \<Rightarrow> nat list \<Rightarrow> code_point \<Rightarrow> bool option" where
  "is_before_dims get_order levels dims p =
     (if p = CP_LevelExit 0 then Some False
      else do {
        bs \<leftarrow> blocks levels p;
        Some (\<forall>l \<in> set bs. \<forall>d \<in> set dims.
          if l = S_Dim d then False else get_order l (S_Dim d) \<subseteq> fst (lesser_greater_conds p)) })"

definition generate_points :: "nat list \<Rightarrow> nat \<Rightarrow> code_point list" where
  "generate_points insts n = map CP_Inst insts @ map CP_LevelEntry [0..<n] @ map CP_LevelExit [0..<n]"

definition convert_order ::
  "stmt_order \<Rightarrow> stmt_id \<Rightarrow> stmt_id \<Rightarrow> order_val set \<Rightarrow> order_val set \<Rightarrow> ordering \<Rightarrow> ordering option" where
  "convert_order get_order l r lesser_cond greater_cond if_equals =
     (if l = r then Some if_equals
      else if get_order l r \<subseteq> lesser_cond then Some Less
      else if get_order l r \<subseteq> greater_cond then Some Greater
      else None)"

text \<open>The closure of \<^verbatim>\<open>code_point_dag\<close>; the outer \<open>None\<close> is a panic, when a level without dimensions is compared.\<close>

definition block_orders ::
  "stmt_order \<Rightarrow> nat vec_set list \<Rightarrow> code_point \<Rightarrow> code_point \<Rightarrow> order_val set \<Rightarrow> order_val set \<Rightarrow> ordering \<Rightarrow> ordering option option" where
  "block_orders get_order levels l r lesser_cond greater_cond if_equals = do {
     ls \<leftarrow> blocks levels l;
     rs \<leftarrow> blocks levels r;
     (case concat (map (\<lambda>a. map (\<lambda>b. convert_order get_order a b lesser_cond greater_cond if_equals) rs) ls) of
        [] \<Rightarrow> None
      | x # xs \<Rightarrow> Some (fold (\<lambda>y x. if x = y then x else None) xs x)) }"

definition code_point_cmp :: "stmt_order \<Rightarrow> nat vec_set list \<Rightarrow> code_point \<Rightarrow> code_point \<Rightarrow> ordering option option" where
  "code_point_cmp get_order levels l r =
     (let lesser_cond = fst (lesser_greater_conds l) \<union> order_inverse ` snd (lesser_greater_conds r);
          greater_cond = snd (lesser_greater_conds l) \<union> order_inverse ` fst (lesser_greater_conds r)
      in if l = CP_LevelEntry 0 \<or> r = CP_LevelExit 0 then Some (Some Less)
         else if l = CP_LevelExit 0 \<or> r = CP_LevelEntry 0 then Some (Some Greater)
         else (case (l, r) of
             (CP_LevelEntry _, CP_LevelExit _) \<Rightarrow> block_orders get_order levels l r (insert O_Merged lesser_cond) greater_cond Less
           | (CP_LevelExit _, CP_LevelEntry _) \<Rightarrow> block_orders get_order levels l r lesser_cond (insert O_Merged greater_cond) Greater
           | _ \<Rightarrow> block_orders get_order levels l r lesser_cond greater_cond Equal))"

record code_points =
  cp_dag :: "code_point dag"
  cp_ids :: "code_point \<rightharpoonup> nat"

definition code_points_build ::
  "(nat set \<Rightarrow> nat list) \<Rightarrow> stmt_order \<Rightarrow> nat list \<Rightarrow> nat vec_set list \<Rightarrow> code_points option" where
  "code_points_build iter get_order insts levels = do {
     let points = generate_points insts (length levels);
     if \<forall>(i, j) \<in> set (index_pairs (length points)). code_point_cmp get_order levels (points ! i) (points ! j) \<noteq> None then do {
       dag \<leftarrow> from_order iter points (\<lambda>l r. the (code_point_cmp get_order levels l r));
       Some \<lparr>cp_dag = dag, cp_ids = map_of (rev (zip (nodes dag) [0..<length (nodes dag)]))\<rparr> }
     else None }"

section \<open>Filling the graph\<close>

definition set_latency :: "'f f64_ops \<Rightarrow> code_points \<Rightarrow> nat \<Rightarrow> 'f fast_bound \<Rightarrow> 'f level_dag \<Rightarrow> 'f level_dag option" where
  "set_latency fl points from latency dag =
     (if from < length (after (cp_dag points)) then
        fold_option (\<lambda>to. add_dependency_to_all fl from to latency) (after (cp_dag points) ! from) dag
      else None)"

definition set_data_dep ::
  "'f f64_ops \<Rightarrow> (nat \<Rightarrow> bool) \<Rightarrow> nat \<Rightarrow> nat \<Rightarrow> (nat \<times> nat) list \<Rightarrow> 'f fast_bound \<Rightarrow> 'f level_dag \<Rightarrow> 'f level_dag option" where
  "set_data_dep fl consider from to pairs latency dag =
     (if from < to then
        (let has_src = (\<exists>p \<in> set pairs. consider (snd p));
             dst_dims = (if has_src then filter consider (map snd pairs) else [])
         in add_if_processed fl (vs_new dst_dims) from to latency dag)
      else None)"

text \<open>The operands that carry a dependency: a variable or the result of an instruction, and a reduction.\<close>

datatype operand_dep =
    OD_Variable nat "(nat \<times> nat) list"
  | OD_Inst nat "(nat \<times> nat) list"
  | OD_Reduce nat "(nat \<times> nat) list" "nat list"
  | OD_Other

text \<open>The back-edges of a reduction go to the levels whose dimensions are all reduced.\<close>

definition add_back_edges :: "nat list \<Rightarrow> nat \<Rightarrow> 'f fast_bound \<Rightarrow> 'f level list \<Rightarrow> 'f level list" where
  "add_back_edges reduce_dims point latency levels =
     map (\<lambda>l. if \<forall>d \<in> set (data (lv_dims l)). d \<in> set reduce_dims
       then l\<lparr>lv_back_edges := lv_back_edges l @ [(point, latency)]\<rparr> else l) levels"

fun set_operand_dep ::
  "'f f64_ops \<Rightarrow> (nat \<Rightarrow> bool) \<Rightarrow> code_points \<Rightarrow> (nat \<Rightarrow> 'f fast_bound option) \<Rightarrow> nat \<Rightarrow> nat \<Rightarrow> operand_dep
    \<Rightarrow> 'f level list \<times> 'f level_dag \<Rightarrow> ('f level list \<times> 'f level_dag) option" where
  "set_operand_dep fl consider points inst_latency inst point (OD_Variable pred_id pairs) (levels, dag) = do {
     pred \<leftarrow> cp_ids points (CP_Inst pred_id);
     latency \<leftarrow> inst_latency pred_id;
     dag \<leftarrow> set_data_dep fl consider pred point pairs latency dag;
     Some (levels, dag) }"
| "set_operand_dep fl consider points inst_latency inst point (OD_Inst pred_id pairs) (levels, dag) = do {
     pred \<leftarrow> cp_ids points (CP_Inst pred_id);
     latency \<leftarrow> inst_latency pred_id;
     dag \<leftarrow> set_data_dep fl consider pred point pairs latency dag;
     Some (levels, dag) }"
| "set_operand_dep fl consider points inst_latency inst point (OD_Reduce pred_id pairs reduce_dims) (levels, dag) = do {
     pred \<leftarrow> cp_ids points (CP_Inst pred_id);
     latency \<leftarrow> inst_latency pred_id;
     dag \<leftarrow> set_data_dep fl consider pred point pairs latency dag;
     latency \<leftarrow> inst_latency inst;
     Some (add_back_edges reduce_dims point latency levels, dag) }"
| "set_operand_dep fl consider points inst_latency inst point OD_Other state = Some state"

definition populate_entry ::
  "'f f64_ops \<Rightarrow> code_points \<Rightarrow> nat \<Rightarrow> nat \<Rightarrow> 'f level list \<Rightarrow> 'f level_dag \<Rightarrow> 'f level_dag option" where
  "populate_entry fl points point i levels dag = do {
     exit \<leftarrow> cp_ids points (CP_LevelExit i);
     level \<leftarrow> (if i < length levels then Some (levels ! i) else None);
     dag \<leftarrow> add_dependency_to_all fl point exit (lv_latency level) dag;
     (case lv_repeated_latency level of
        None \<Rightarrow> Some dag
      | Some latency \<Rightarrow>
          if vs_is_empty (lv_dims level) then add_dependency_to_all fl point exit latency dag
          else if point < length (before (cp_dag points)) then
            fold_option (\<lambda>from. add_if_processed fl (lv_dims level) from exit latency) (before (cp_dag points) ! point) dag
          else None) }"

definition populate_point ::
  "'f f64_ops \<Rightarrow> (nat \<Rightarrow> bool) \<Rightarrow> code_points \<Rightarrow> (nat \<Rightarrow> 'f fast_bound option) \<Rightarrow> (nat \<Rightarrow> operand_dep list) \<Rightarrow> nat \<times> code_point
    \<Rightarrow> 'f level list \<times> 'f level_dag \<Rightarrow> ('f level list \<times> 'f level_dag) option" where
  "populate_point fl consider points inst_latency operands = (\<lambda>(point, cp) (levels, dag). do {
     zero \<leftarrow> fb_zero fl;
     dag \<leftarrow> set_latency fl points point zero dag;
     (case cp of
        CP_Inst inst \<Rightarrow> fold_option (set_operand_dep fl consider points inst_latency inst point) (operands inst) (levels, dag)
      | CP_LevelEntry i \<Rightarrow> do { dag \<leftarrow> populate_entry fl points point i levels dag; Some (levels, dag) }
      | CP_LevelExit i \<Rightarrow>
          if i < length levels \<and> point < length (before (cp_dag points)) then do {
            dag \<leftarrow> fold_option (\<lambda>from. add_dependency_to_all fl from point (lv_end_latency (levels ! i))) (before (cp_dag points) ! point) dag;
            Some (levels, dag) }
          else None) })"

definition populate ::
  "'f f64_ops \<Rightarrow> (nat \<Rightarrow> bool) \<Rightarrow> code_points \<Rightarrow> (nat \<Rightarrow> 'f fast_bound option) \<Rightarrow> (nat \<Rightarrow> operand_dep list)
    \<Rightarrow> 'f level list \<times> 'f level_dag \<Rightarrow> ('f level list \<times> 'f level_dag) option" where
  "populate fl consider points inst_latency operands =
     fold_option (populate_point fl consider points inst_latency operands) (enumerate 0 (nodes (cp_dag points)))"

section \<open>Processing the graph\<close>

definition lat_at :: "'f fast_bound option list \<Rightarrow> nat \<Rightarrow> 'f fast_bound option" where
  "lat_at ls i = (if i < length ls then ls ! i else None)"

text \<open>The dependencies of a repeated level: without the data dependencies, and with them.\<close>

definition repeat_immediate ::
  "'f f64_ops \<Rightarrow> repeat_level \<Rightarrow> nat list \<Rightarrow> nat \<Rightarrow> nat \<Rightarrow> 'f fast_bound \<Rightarrow> nat \<Rightarrow> 'f level_dag \<Rightarrow> 'f level_dag option" where
  "repeat_immediate fl action to_map entry exit cycle_lat pred dag = do {
     zero \<leftarrow> fb_zero fl;
     add_dependency fl to_map pred exit
       (fb_chain fl zero entry (fb_iterate fl (rl_iterations action) (rl_level_id action) cycle_lat)) dag }"

definition repeat_predecessor ::
  "'f f64_ops \<Rightarrow> repeat_level \<Rightarrow> nat list \<Rightarrow> nat \<Rightarrow> 'f fast_bound option list \<Rightarrow> 'f fast_bound \<Rightarrow> nat \<Rightarrow> 'f level_dag \<Rightarrow> 'f level_dag option" where
  "repeat_predecessor fl action to_map entry latency_to_exit cycle_lat pred dag = do {
     init_lat \<leftarrow> lat_at latency_to_exit pred;
     add_dependency fl to_map pred entry
       (fb_chain fl init_lat entry (fb_iterate fl (rl_iterations action - 2) (rl_level_id action) cycle_lat)) dag }"

definition repeat_back_edge ::
  "'f f64_ops \<Rightarrow> repeat_level \<Rightarrow> nat list \<Rightarrow> nat \<Rightarrow> 'f fast_bound option list \<Rightarrow> nat \<Rightarrow> 'f fast_bound
    \<Rightarrow> 'f fast_bound option list \<Rightarrow> nat \<Rightarrow> 'f level_dag \<Rightarrow> 'f level_dag option" where
  "repeat_back_edge fl action to_map entry latency_to_exit point lat latencies pred dag = do {
     lat_pred \<leftarrow> lat_at latencies pred;
     exit_pred \<leftarrow> lat_at latency_to_exit pred;
     lat_entry \<leftarrow> lat_at latencies entry;
     init_lat \<leftarrow> fb_max fl (fb_chain fl lat_pred point lat) (fb_chain fl exit_pred entry lat_entry);
     dag \<leftarrow> add_dependency fl to_map pred point
       (fb_chain fl init_lat point (fb_iterate fl (rl_iterations action - 2) (rl_level_id action) lat)) dag;
     if rl_iterations action \<ge> 3 then do {
       exit_lat \<leftarrow> lat_at latency_to_exit point;
       add_dependency fl to_map pred entry
         (fb_chain fl (fb_chain fl init_lat point (fb_iterate fl (rl_iterations action - 3) (rl_level_id action) lat)) point exit_lat) dag }
     else Some dag }"

definition repeat_level_step ::
  "'f f64_ops \<Rightarrow> code_points \<Rightarrow> 'f level list \<Rightarrow> repeat_level \<Rightarrow> nat \<Rightarrow> nat list \<Rightarrow> 'f level_dag \<Rightarrow> 'f level_dag option" where
  "repeat_level_step fl points levels action from_map to_map dag =
     (if rl_iterations action \<ge> 2 then do {
        entry \<leftarrow> cp_ids points (CP_LevelEntry (rl_level_id action));
        exit \<leftarrow> cp_ids points (CP_LevelExit (rl_level_id action));
        dep_map \<leftarrow> dependencies dag from_map;
        preds \<leftarrow> predecessors (cp_dag points) entry;
        immediate \<leftarrow> dm_deps dep_map entry;
        latency_to_exit \<leftarrow> latency_to fl dep_map exit;
        cycle_lat \<leftarrow> lat_at latency_to_exit entry;
        dag \<leftarrow> fold_option (repeat_immediate fl action to_map entry exit cycle_lat) (map fst immediate) dag;
        dag \<leftarrow> fold_option (repeat_predecessor fl action to_map entry latency_to_exit cycle_lat) preds dag;
        level \<leftarrow> (if rl_level_id action < length levels then Some (levels ! rl_level_id action) else None);
        fold_option (\<lambda>(point, lat) dag. do {
            dep_map \<leftarrow> dependencies dag from_map;
            latencies \<leftarrow> latency_to fl dep_map point;
            fold_option (repeat_back_edge fl action to_map entry latency_to_exit point lat latencies) preds dag })
          (lv_back_edges level) dag }
      else None)"

text \<open>The points are taken in the order of iteration over the map of their numbers, the argument \<open>ids\<close>.\<close>

definition apply_dim_map ::
  "'f f64_ops \<Rightarrow> stmt_order \<Rightarrow> nat vec_set list \<Rightarrow> code_points \<Rightarrow> (code_point \<times> nat) list \<Rightarrow> (nat \<Rightarrow> 'f fast_bound option)
    \<Rightarrow> dim_map \<Rightarrow> nat \<Rightarrow> nat list \<Rightarrow> 'f level_dag \<Rightarrow> 'f level_dag option" where
  "apply_dim_map fl get_order level_dims points ids inst_latency m from_map to_map dag = do {
     src_point \<leftarrow> cp_ids points (CP_Inst (dmp_src m));
     dst_point \<leftarrow> cp_ids points (CP_Inst (dmp_dst m));
     dep_map \<leftarrow> dependencies dag from_map;
     latency_to_src \<leftarrow> latency_to fl dep_map src_point;
     src_dst_latency \<leftarrow> inst_latency (dmp_src m);
     fold_option (\<lambda>(p, pred) dag. do {
         is_before \<leftarrow> is_before_dims get_order level_dims (data (src_dims m)) p;
         if is_before then do {
           l \<leftarrow> lat_at latency_to_src pred;
           add_dependency fl to_map pred dst_point (fb_chain fl l src_point src_dst_latency) dag }
         else Some dag }) ids dag }"

text \<open>The processing loop of \<^verbatim>\<open>bound\<close>.\<close>

definition process_action ::
  "'f f64_ops \<Rightarrow> stmt_order \<Rightarrow> code_points \<Rightarrow> (code_point \<times> nat) list \<Rightarrow> (nat \<Rightarrow> 'f fast_bound option) \<Rightarrow> 'f level list
    \<Rightarrow> dag_step \<Rightarrow> 'f level_dag \<Rightarrow> 'f level_dag option" where
  "process_action fl get_order points ids inst_latency levels = (\<lambda>(from, action, to) dag.
     case action of
       DA_Repeat r \<Rightarrow> repeat_level_step fl points levels r from to dag
     | DA_ApplyDimMap m \<Rightarrow> apply_dim_map fl get_order (map lv_dims levels) points ids inst_latency m from to dag)"

definition operand_dim_map :: "nat \<Rightarrow> operand_dep \<Rightarrow> (nat \<times> nat \<times> (nat \<times> nat) list) list" where
  "operand_dim_map dst op = (case op of OD_Inst src pairs \<Rightarrow> [(src, dst, pairs)] | OD_Reduce src pairs _ \<Rightarrow> [(src, dst, pairs)] | _ \<Rightarrow> [])"

text \<open>
  The lower bound on the execution time. The arguments \<open>iter\<close>, \<open>stmts\<close> and \<open>ids\<close> are the orders of iteration over the hash sets
  of the graph, over the nestings and over the code points. The dimensions that the nestings and the operands mention have a
  nesting; a kernel in which one has none panics when it is looked up.
\<close>

definition build_graph ::
  "'f f64_ops \<Rightarrow> ('p, 't) kspace \<Rightarrow> (nat \<Rightarrow> operand_dep list) \<Rightarrow> (stmt_id \<rightharpoonup> 'p nesting) \<Rightarrow> (nat \<Rightarrow> 'f fast_bound option)
    \<Rightarrow> (code_points \<Rightarrow> (code_point \<times> nat) list) \<Rightarrow> code_points \<Rightarrow> 'f level list \<Rightarrow> dim_map list
    \<Rightarrow> (dag_step list \<times> 'f level list \<times> 'f level_dag) option" where
  "build_graph fl k operands nesting inst_latency ids points levels dim_maps = do {
     dag \<leftarrow> ld_build (ks_kind k) (ks_dims k) nesting (repeat_level_new (ks_space k) (ks_param k) (ks_dim_size k) (ks_kind k))
       levels dim_maps (length (nodes (cp_dag points)));
     (levels, dag) \<leftarrow> populate fl (must_consider_dim (ks_kind k)) points inst_latency operands (levels, dag);
     (steps, dag) \<leftarrow> processing_order levels dag;
     dag \<leftarrow> fold_option (process_action fl (ks_order k) points (ids points) inst_latency levels) steps dag;
     Some (steps, levels, dag) }"

definition model_bound ::
  "'f f64_ops \<Rightarrow> ('f, 'p, 't) device \<Rightarrow> (nat set \<Rightarrow> nat list) \<Rightarrow> stmt_id list \<Rightarrow> (code_points \<Rightarrow> (code_point \<times> nat) list)
    \<Rightarrow> ('p, 't) kspace \<Rightarrow> (nat \<Rightarrow> operand_dep list) \<Rightarrow> 'f explained option" where
  "model_bound fl dev iter stmts ids k operands = do {
     info \<leftarrow> local_info_compute fl dev k;
     nestings \<leftarrow> those (map (\<lambda>s. map_option (\<lambda>n. (s, outer_dims n)) (li_nesting info s)) stmts);
     let nesting = (\<lambda>d. the (li_nesting info (S_Dim d)));
     let maps = concat (map (\<lambda>i. concat (map (operand_dim_map i) (operands i))) (ks_insts k));
     let used = concat (map (\<lambda>(_, ds). data ds) nestings) @ concat (map (\<lambda>(_, _, ps). map fst ps @ map snd ps) maps);
     _ \<leftarrow> (if \<forall>d \<in> set used. li_nesting info (S_Dim d) \<noteq> None then Some () else None);
     (dims, dim_maps) \<leftarrow> generate_levels iter (ks_kind k) nestings (\<lambda>d. outer_dims (nesting d)) (\<lambda>d. data (inner_dims (nesting d))) maps;
     levels \<leftarrow> those (map (level_new fl dev k info) dims);
     points \<leftarrow> code_points_build iter (ks_order k) (ks_insts k) dims;
     let inst_latency = (\<lambda>i. do { p \<leftarrow> li_hw_pressure info (S_Inst i); hw_bound fl BL_Thread (dev_thread_rates dev) p });
     (_, levels, dag) \<leftarrow> build_graph fl k operands (li_nesting info) inst_latency ids points levels dim_maps;
     entry \<leftarrow> cp_ids points (CP_LevelEntry 0);
     exit \<leftarrow> cp_ids points (CP_LevelExit 0);
     root \<leftarrow> dependencies dag 0;
     block_lat \<leftarrow> dm_latency fl root entry exit;
     block_lat \<leftarrow> block_lat;
     lat \<leftarrow> fb_scale fl (of_nat (dev_block_parallelism dev)) (of_nat (min_num_blocks (li_parallelism info)))
       (of_nat (lcm_num_blocks (li_parallelism info))) block_lat;
     pressure \<leftarrow> sum_pressure fl dev k info BL_Global [] ps_default;
     throughput \<leftarrow> hw_bound fl BL_Global (dev_total_rates dev) pressure;
     total \<leftarrow> fb_max fl lat throughput;
     fb_explain fl (dev_bottlenecks dev) (map (data \<circ> lv_dims) levels) (nodes (cp_dag points)) total }"

section \<open>The invariant of the graph\<close>

text \<open>
  Every key has its own node, and the dependencies of every node go upwards among \<open>n\<close> points. Filling the graph keeps its shape,
  that is the keys and the pending actions of the nodes.
\<close>

definition ld_inv :: "nat \<Rightarrow> 'f level_dag \<Rightarrow> bool" where
  "ld_inv n dag \<longleftrightarrow> distinct (map fst (node_ids dag)) \<and> distinct (map snd (node_ids dag))
     \<and> snd ` set (node_ids dag) \<subseteq> {..<length (ld_nodes dag)}
     \<and> (\<forall>node \<in> set (ld_nodes dag). length (ln_deps node) = n \<and> dm_wf (ln_deps node))"

definition ld_shape :: "'f level_dag \<Rightarrow> (nat vec_set \<times> nat) list \<times> (repeat_level list \<times> dim_map list) list" where
  "ld_shape dag = (node_ids dag, map (\<lambda>n. (ln_repeats n, ln_dim_maps n)) (ld_nodes dag))"

text \<open>The graphs that the passes go through: well formed, with the given shape.\<close>

definition ld_ok :: "nat \<Rightarrow> (nat vec_set \<times> nat) list \<times> (repeat_level list \<times> dim_map list) list \<Rightarrow> 'f level_dag \<Rightarrow> bool" where
  "ld_ok n sh dag \<longleftrightarrow> ld_inv n dag \<and> ld_shape dag = sh"

lemma empty_node_deps: "length (ln_deps (empty_node n)) = n" "dm_wf (ln_deps (empty_node n))"
  by (simp_all add: empty_node_def dm_new_wf) (simp add: dm_new_def)

lemma ld_inv_new: "ld_inv n (ld_new kind dims n)"
  by (simp add: ld_inv_def ld_new_def empty_node_deps)

text \<open>The two outcomes of \<^verbatim>\<open>gen_node_id\<close>: the node of the key, or a new one.\<close>

lemma gen_node_idE:
  assumes "gen_node_id nesting dims n dag = Some (i, dag')"
  obtains key where "(key, i) \<in> set (node_ids dag)" "dag' = dag"
      "\<exists>ns. those (map (\<lambda>d. nesting (S_Dim d)) dims) = Some ns \<and> intersect_sets (map before_self ns) = Some key"
  | key where "key \<notin> fst ` set (node_ids dag)" "i = length (ld_nodes dag)"
      "dag' = \<lparr>node_ids = (key, i) # node_ids dag, ld_nodes = ld_nodes dag @ [empty_node n]\<rparr>"
      "\<exists>ns. those (map (\<lambda>d. nesting (S_Dim d)) dims) = Some ns \<and> intersect_sets (map before_self ns) = Some key"
proof -
  obtain ns key where k: "those (map (\<lambda>d. nesting (S_Dim d)) dims) = Some ns" "intersect_sets (map before_self ns) = Some key"
    "(case map_of (node_ids dag) key of Some i \<Rightarrow> (i, dag) | None \<Rightarrow> (length (ld_nodes dag),
       \<lparr>node_ids = (key, length (ld_nodes dag)) # node_ids dag, ld_nodes = ld_nodes dag @ [empty_node n]\<rparr>)) = (i, dag')"
    using assms by (auto simp: gen_node_id_def bind_eq_Some_conv)
  show thesis
  proof (cases "map_of (node_ids dag) key")
    case None
    have "key \<notin> fst ` set (node_ids dag)" using None by (simp add: map_of_eq_None_iff)
    moreover have "i = length (ld_nodes dag)"
      "dag' = \<lparr>node_ids = (key, i) # node_ids dag, ld_nodes = ld_nodes dag @ [empty_node n]\<rparr>"
      using k(3) None by auto
    ultimately show thesis using that(2) k(1,2) by blast
  next
    case (Some a)
    then have "(key, i) \<in> set (node_ids dag)" "dag' = dag" using map_of_SomeD [OF Some] k(3) by auto
    then show thesis using that(1) k(1,2) by blast
  qed
qed

lemma gen_node_id_inv:
  assumes "ld_inv n dag" "gen_node_id nesting dims n dag = Some (i, dag')"
  shows "ld_inv n dag'"
  using assms(2)
proof (cases rule: gen_node_idE)
  case (2 key)
  have "length (ld_nodes dag) \<notin> snd ` set (node_ids dag)" using assms(1) by (auto simp: ld_inv_def)
  then show ?thesis using assms(1) 2(1,2) unfolding 2(3)
    by (simp add: ld_inv_def empty_node_deps) (auto simp: less_Suc_eq)
qed (use assms in simp)

lemma ld_inv_update:
  assumes "ld_inv n dag" "length (ln_deps node) = n" "dm_wf (ln_deps node)"
  shows "ld_inv n (dag\<lparr>ld_nodes := (ld_nodes dag)[i := node]\<rparr>)"
  using assms set_update_subset_insert [of "ld_nodes dag" i node] unfolding ld_inv_def by auto

lemma update_nodeD: "update_node i f dag = Some dag' \<Longrightarrow> i < length (ld_nodes dag)
    \<and> dag' = dag\<lparr>ld_nodes := (ld_nodes dag)[i := f (ld_nodes dag ! i)]\<rparr>"
  by (auto simp: update_node_def split: if_splits)

lemma update_node_inv:
  assumes "ld_inv n dag" "update_node i f dag = Some dag'" "\<And>m. ln_deps (f m) = ln_deps m"
  shows "ld_inv n dag'"
proof -
  have "ld_nodes dag ! i \<in> set (ld_nodes dag)" using update_nodeD [OF assms(2)] by simp
  then have "length (ln_deps (f (ld_nodes dag ! i))) = n" "dm_wf (ln_deps (f (ld_nodes dag ! i)))"
    using assms(1,3) by (auto simp: ld_inv_def)
  then show ?thesis using ld_inv_update [OF assms(1)] update_nodeD [OF assms(2)] by blast
qed

lemma node_add_dep_ok:
  assumes "ld_ok n sh dag" "node_add_dep fl a b l i dag = Some dag'"
  shows "ld_ok n sh dag'"
proof -
  obtain dm where dm: "i < length (ld_nodes dag)" "dm_add_dep fl a b l (ln_deps (ld_nodes dag ! i)) = Some dm"
    "dag' = dag\<lparr>ld_nodes := (ld_nodes dag)[i := (ld_nodes dag ! i)\<lparr>ln_deps := dm\<rparr>]\<rparr>"
    using assms(2) by (auto simp: node_add_dep_def update_node_def bind_eq_Some_conv split: if_splits)
  have node: "length (ln_deps (ld_nodes dag ! i)) = n" "dm_wf (ln_deps (ld_nodes dag ! i))"
    using assms(1) nth_mem [OF dm(1)] by (auto simp: ld_ok_def ld_inv_def)
  have "dm_wf dm" by (rule dm_add_dep_wf [OF node(2) dm(2)])
  moreover have "length dm = n" using dm(2) node(1) by (auto simp: dm_add_dep_def split: if_splits option.splits)
  ultimately have "ld_inv n dag'" unfolding dm(3) using assms(1) by (intro ld_inv_update) (simp_all add: ld_ok_def)
  moreover have "ld_shape dag' = ld_shape dag"
    by (simp add: ld_shape_def dm(3) map_update) (metis (no_types, lifting) dm(1) list_update_id nth_map)
  ultimately show ?thesis using assms(1) by (simp add: ld_ok_def)
qed

lemma add_deps_ok: "fold_option (node_add_dep fl a b l) ids dag = Some dag' \<Longrightarrow> ld_ok n sh dag \<Longrightarrow> ld_ok n sh dag'"
  by (erule fold_option_inv [where P = "ld_ok n sh"]) (blast intro: node_add_dep_ok)+

text \<open>The rules with which every pass is shown to keep the graph.\<close>

named_theorems graph_ok

lemma add_if_processed_ok [graph_ok]: "ld_ok n sh dag \<Longrightarrow> add_if_processed fl dims a b l dag = Some dag' \<Longrightarrow> ld_ok n sh dag'"
  unfolding add_if_processed_def by (rule add_deps_ok)

lemma add_dependency_ok [graph_ok]: "ld_ok n sh dag \<Longrightarrow> add_dependency fl ids a b l dag = Some dag' \<Longrightarrow> ld_ok n sh dag'"
  unfolding add_dependency_def by (rule add_deps_ok)

lemma add_dependency_to_all_ok [graph_ok]: "ld_ok n sh dag \<Longrightarrow> add_dependency_to_all fl a b l dag = Some dag' \<Longrightarrow> ld_ok n sh dag'"
  unfolding add_dependency_to_all_def by (rule add_deps_ok)

lemma graph_fold_ok:
  "fold_option f xs dag = Some dag' \<Longrightarrow> ld_ok n sh dag \<Longrightarrow> (\<And>x s s'. ld_ok n sh s \<Longrightarrow> f x s = Some s' \<Longrightarrow> ld_ok n sh s') \<Longrightarrow> ld_ok n sh dag'"
  by (erule fold_option_inv [where P = "ld_ok n sh"])

end
