(* ===== verification/Level_Graph_Correct.thy ===== *)
theory Level_Graph_Correct
  imports Level_Graph
begin

text \<open>
  Correctness of the passes over the graph of levels: every pass keeps the graph well formed, and the order in which
  the actions are processed respects the updates that they make: an action comes after all the actions that update its node.
\<close>

section \<open>The passes keep the graph\<close>

lemma set_latency_ok [graph_ok]: "ld_ok n sh dag \<Longrightarrow> set_latency fl points from l dag = Some dag' \<Longrightarrow> ld_ok n sh dag'"
  by (auto simp: set_latency_def split: if_splits elim!: graph_fold_ok intro: graph_ok)

lemma set_data_dep_ok [graph_ok]: "ld_ok n sh dag \<Longrightarrow> set_data_dep fl consider from to pairs l dag = Some dag' \<Longrightarrow> ld_ok n sh dag'"
  unfolding set_data_dep_def Let_def by (auto split: if_splits intro: graph_ok)

lemma populate_entry_ok [graph_ok]:
  fixes levels :: "'f level list"
  assumes "ld_ok n sh dag" "populate_entry fl points point i levels dag = Some dag'"
  shows "ld_ok n sh dag'"
proof -
  obtain exit and level :: "'f level" and dag1 where d1: "add_dependency_to_all fl point exit (lv_latency level) dag = Some dag1"
    "(case lv_repeated_latency level of
        None \<Rightarrow> Some dag1
      | Some l \<Rightarrow>
          if vs_is_empty (lv_dims level) then add_dependency_to_all fl point exit l dag1
          else if point < length (before (cp_dag points)) then
            fold_option (\<lambda>from. add_if_processed fl (lv_dims level) from exit l) (before (cp_dag points) ! point) dag1
          else None) = Some dag'"
    using assms(2) unfolding populate_entry_def bind_eq_Some_conv by blast
  have "ld_ok n sh dag1" using assms(1) d1(1) by (rule graph_ok)
  then show ?thesis using d1(2) by (auto split: option.splits if_splits elim!: graph_fold_ok intro: graph_ok)
qed

lemma set_operand_dep_ok:
  "ld_ok n sh dag \<Longrightarrow> set_operand_dep fl consider points il inst point op (levels, dag) = Some (levels', dag')
    \<Longrightarrow> ld_ok n sh dag' \<and> map lv_dims levels' = map lv_dims levels"
  by (cases op) (auto simp: bind_eq_Some_conv add_back_edges_def intro: graph_ok)

text \<open>A state of \<^verbatim>\<open>populate\<close>: the levels keep their dimensions.\<close>

definition pop_ok :: "nat \<Rightarrow> (nat vec_set \<times> nat) list \<times> (repeat_level list \<times> dim_map list) list \<Rightarrow> nat vec_set list
    \<Rightarrow> 'f level list \<times> 'f level_dag \<Rightarrow> bool" where
  "pop_ok n sh dims st \<longleftrightarrow> ld_ok n sh (snd st) \<and> map lv_dims (fst st) = dims"

lemma populate_point_ok:
  assumes "pop_ok n sh dims st" "populate_point fl consider points il operands x st = Some st'"
  shows "pop_ok n sh dims st'"
proof -
  obtain point cp levels dag where st: "x = (point, cp)" "st = (levels, dag)" by fastforce
  obtain zero dag1 where d1: "set_latency fl points point zero dag = Some dag1" "(case cp of
        CP_Inst inst \<Rightarrow> fold_option (set_operand_dep fl consider points il inst point) (operands inst) (levels, dag1)
      | CP_LevelEntry i \<Rightarrow> do { dag \<leftarrow> populate_entry fl points point i levels dag1; Some (levels, dag) }
      | CP_LevelExit i \<Rightarrow>
          if i < length levels \<and> point < length (before (cp_dag points)) then do {
            dag \<leftarrow> fold_option (\<lambda>from. add_dependency_to_all fl from point (lv_end_latency (levels ! i))) (before (cp_dag points) ! point) dag1;
            Some (levels, dag) }
          else None) = Some st'"
    using assms(2) unfolding populate_point_def st by (auto simp: bind_eq_Some_conv)
  have ok: "ld_ok n sh dag1" "map lv_dims levels = dims" "pop_ok n sh dims (levels, dag1)"
    using assms(1) d1(1) st by (auto simp: pop_ok_def intro: graph_ok)
  show ?thesis
  proof (cases cp)
    case (CP_Inst inst)
    have step: "pop_ok n sh dims s'" if "pop_ok n sh dims s" "set_operand_dep fl consider points il inst point op s = Some s'" for op s s'
      using that set_operand_dep_ok [of n sh "snd s" fl "consider" points il inst point op "fst s" "fst s'" "snd s'"]
      by (simp add: pop_ok_def)
    have fold: "fold_option (set_operand_dep fl consider points il inst point) (operands inst) (levels, dag1) = Some st'"
      using CP_Inst d1(2) by simp
    show ?thesis using fold_option_inv [where P = "pop_ok n sh dims", OF fold ok(3)] step by blast
  next
    case (CP_LevelEntry i)
    then obtain dag2 where "populate_entry fl points point i levels dag1 = Some dag2" "st' = (levels, dag2)"
      using d1(2) by (auto simp: bind_eq_Some_conv)
    then show ?thesis using ok populate_entry_ok by (simp add: pop_ok_def) blast
  next
    case (CP_LevelExit i)
    then obtain dag2 where d2: "fold_option (\<lambda>from. add_dependency_to_all fl from point (lv_end_latency (levels ! i)))
        (before (cp_dag points) ! point) dag1 = Some dag2" "st' = (levels, dag2)"
      using d1(2) by (auto simp: bind_eq_Some_conv split: if_splits)
    have "ld_ok n sh dag2" by (rule graph_fold_ok [OF d2(1) ok(1)]) (rule add_dependency_to_all_ok)
    then show ?thesis using ok(2) d2(2) by (simp add: pop_ok_def)
  qed
qed

lemma populate_ok: "populate fl consider points il operands st = Some st' \<Longrightarrow> pop_ok n sh dims st \<Longrightarrow> pop_ok n sh dims st'"
  unfolding populate_def by (erule fold_option_inv [where P = "pop_ok n sh dims"]) (blast intro: populate_point_ok)+

lemma repeat_parts_ok [graph_ok]:
  "ld_ok n sh dag \<Longrightarrow> repeat_immediate fl r to entry exit c pred dag = Some dag' \<Longrightarrow> ld_ok n sh dag'"
  "ld_ok n sh dag \<Longrightarrow> repeat_predecessor fl r to entry ls c pred dag = Some dag' \<Longrightarrow> ld_ok n sh dag'"
  "ld_ok n sh dag \<Longrightarrow> repeat_back_edge fl r to entry ls point lat lats pred dag = Some dag' \<Longrightarrow> ld_ok n sh dag'"
  unfolding repeat_immediate_def repeat_predecessor_def repeat_back_edge_def
  by (auto simp: bind_eq_Some_conv split: if_splits intro: graph_ok)

lemma repeat_level_step_ok [graph_ok]:
  assumes "ld_ok n sh dag" "repeat_level_step fl points levels r from to dag = Some dag'"
  shows "ld_ok n sh dag'"
proof -
  obtain entry exit ls c preds imm edges dag1 dag2 where
    1: "fold_option (repeat_immediate fl r to entry exit c) imm dag = Some dag1"
    and 2: "fold_option (repeat_predecessor fl r to entry ls c) preds dag1 = Some dag2"
    and 3: "fold_option (\<lambda>(point, lat) dag. do {
            dep_map \<leftarrow> dependencies dag from;
            latencies \<leftarrow> latency_to fl dep_map point;
            fold_option (repeat_back_edge fl r to entry ls point lat latencies) preds dag }) edges dag2 = Some dag'"
    using assms(2) unfolding repeat_level_step_def by (auto simp: bind_eq_Some_conv split: if_splits)
  have "ld_ok n sh dag1" by (rule graph_fold_ok [OF 1 assms(1)]) (rule graph_ok)
  then have "ld_ok n sh dag2" by (rule graph_fold_ok [OF 2]) (rule graph_ok)
  then show ?thesis
    by (rule graph_fold_ok [OF 3]) (auto simp: bind_eq_Some_conv elim!: graph_fold_ok intro: graph_ok)
qed

lemma apply_dim_map_ok [graph_ok]:
  "ld_ok n sh dag \<Longrightarrow> apply_dim_map fl get_order dims points ids il m from to dag = Some dag' \<Longrightarrow> ld_ok n sh dag'"
  unfolding apply_dim_map_def by (auto simp: bind_eq_Some_conv split: if_splits elim!: graph_fold_ok intro: graph_ok)

lemma process_action_ok: "ld_ok n sh dag \<Longrightarrow> process_action fl get_order points ids il levels step dag = Some dag' \<Longrightarrow> ld_ok n sh dag'"
  unfolding process_action_def by (auto split: prod.splits dag_action.splits intro: graph_ok)

lemma processing_order_inv: "processing_order levels dag = Some (steps, dag') \<Longrightarrow> ld_inv n dag \<Longrightarrow> ld_inv n dag'"
  by (fastforce simp: processing_order_def bind_eq_Some_conv ld_inv_def)

lemma ld_build_inv:
  assumes "ld_build kind dims nesting repeat_new levels maps n = Some dag"
  shows "ld_inv n dag"
proof -
  have level: "ld_inv n s'" if "ld_inv n s" "add_level nesting repeat_new n x s = Some s'" for x s s'
    using that by (auto simp: add_level_def bind_eq_Some_conv split: prod.splits if_splits
        elim!: update_node_inv [OF gen_node_id_inv])
  have dmap: "ld_inv n s'" if "ld_inv n s" "add_dim_map nesting n x s = Some s'" for x s s'
    using that by (auto simp: add_dim_map_def bind_eq_Some_conv split: prod.splits elim!: update_node_inv [OF gen_node_id_inv])
  obtain d1 where d1: "fold_option (add_level nesting repeat_new n) (enumerate 0 levels) (ld_new kind dims n) = Some d1"
    "fold_option (add_dim_map nesting n) maps d1 = Some dag"
    using assms by (auto simp: ld_build_def bind_eq_Some_conv)
  have "ld_inv n d1" using fold_option_inv [where P = "ld_inv n", OF d1(1) ld_inv_new] level by blast
  then show ?thesis using fold_option_inv [where P = "ld_inv n", OF d1(2)] dmap by blast
qed

section \<open>The actions of a node are not processed in its key\<close>

text \<open>A key is well formed, and no action of its node has all its dimensions in the key.\<close>

definition key_ok :: "nat vec_set list \<Rightarrow> nat vec_set \<Rightarrow> repeat_level list \<times> dim_map list \<Rightarrow> bool" where
  "key_ok ldims key acts \<longleftrightarrow> vs_inv key
     \<and> (\<forall>r \<in> set (fst acts). rl_level_id r < length ldims \<and> vs_inv (ldims ! rl_level_id r) \<and> \<not> elems (ldims ! rl_level_id r) \<subseteq> elems key)
     \<and> (\<forall>m \<in> set (snd acts). vs_inv (src_dims m) \<and> \<not> elems (src_dims m) \<subseteq> elems key)"

definition keys_ok :: "nat vec_set list \<Rightarrow> (nat vec_set \<times> nat) list \<times> (repeat_level list \<times> dim_map list) list \<Rightarrow> bool" where
  "keys_ok ldims sh \<longleftrightarrow> (\<forall>(key, i) \<in> set (fst sh). i < length (snd sh) \<and> key_ok ldims key (snd sh ! i))"

lemma intersect_sets_spec:
  assumes "\<forall>s \<in> set sets. vs_inv s" "intersect_sets sets = Some key"
  shows "sets \<noteq> [] \<and> vs_inv key \<and> (\<forall>s \<in> set sets. elems key \<subseteq> elems s)"
proof -
  have "vs_inv s \<Longrightarrow> \<forall>t \<in> set ss. vs_inv t \<Longrightarrow> elems (fold (\<lambda>other out. vs_intersect out other) ss s) \<subseteq> elems s \<inter> (\<Inter>t \<in> set ss. elems t)"
    for s :: "'a vec_set" and ss
  proof (induction ss arbitrary: s)
    case (Cons t ss)
    have t: "vs_inv (vs_intersect s t)" "elems (vs_intersect s t) = elems s \<inter> elems t"
      using Cons.prems by (auto simp: vs_intersect_spec vs_filter_def vs_inv_filter elems_def)
    show ?case using Cons.IH [OF t(1)] Cons.prems(2) unfolding t(2) by auto
  qed simp
  then show ?thesis using assms intersect_sets_inv [OF assms] by (cases sets) (fastforce simp: intersect_sets_def)+
qed

text \<open>A nesting as it is computed: no dimension is before itself.\<close>

definition nesting_ok :: "(stmt_id \<rightharpoonup> 'p nesting) \<Rightarrow> bool" where
  "nesting_ok nesting \<longleftrightarrow> (\<forall>d n. nesting (S_Dim d) = Some n \<longrightarrow> vs_inv (before_self n) \<and> d \<notin> elems (before_self n))"

lemma nesting_compute_ok: "\<forall>d n. nesting (S_Dim d) = Some n \<longrightarrow> nesting_compute k (S_Dim d) = Some n \<Longrightarrow> nesting_ok nesting"
  unfolding nesting_ok_def using nesting_fields(2,6) by fastforce

lemma gen_node_id_keys:
  assumes "nesting_ok nesting" "ld_inv n dag" "keys_ok ldims (ld_shape dag)" "gen_node_id nesting dims n dag = Some (i, dag')"
  shows "keys_ok ldims (ld_shape dag')" "\<exists>key. (key, i) \<in> set (node_ids dag') \<and> \<not> set dims \<subseteq> elems key"
proof -
  have key: "vs_inv key \<and> \<not> set dims \<subseteq> elems key"
    if found: "\<exists>ns. those (map (\<lambda>d. nesting (S_Dim d)) dims) = Some ns \<and> intersect_sets (map before_self ns) = Some key" for key
  proof -
    obtain ns where ns: "those (map (\<lambda>d. nesting (S_Dim d)) dims) = Some ns" "intersect_sets (map before_self ns) = Some key"
      using found by blast
    note at = those_SomeD [OF ns(1)]
    have "\<forall>m \<in> set ns. vs_inv (before_self m)" using at assms(1) by (auto simp: nesting_ok_def in_set_conv_nth) blast
    then have spec: "ns \<noteq> []" "vs_inv key" "\<forall>m \<in> set ns. elems key \<subseteq> elems (before_self m)"
      using intersect_sets_spec [OF _ ns(2)] by auto
    have zero: "0 < length dims" "0 < length ns" using spec(1) at by auto
    have "dims ! 0 \<notin> elems (before_self (ns ! 0))" using at zero(1) assms(1) by (auto simp: nesting_ok_def)
    then have "dims ! 0 \<notin> elems key" using spec(3) nth_mem [OF zero(2)] by blast
    then show ?thesis using spec(2) nth_mem [OF zero(1)] by blast
  qed
  show "keys_ok ldims (ld_shape dag')"
    using assms(4)
  proof (cases rule: gen_node_idE)
    case (2 key)
    have "key_ok ldims key ([], [])" using key [OF 2(4)] by (simp add: key_ok_def)
    then show ?thesis using assms(3) 2(2) unfolding 2(3) keys_ok_def ld_shape_def
      by (auto simp: nth_append empty_node_def less_Suc_eq split: prod.splits)
  qed (use assms in simp)
  show "\<exists>key. (key, i) \<in> set (node_ids dag') \<and> \<not> set dims \<subseteq> elems key"
    using assms(4) by (cases rule: gen_node_idE) (use key in fastforce)+
qed

text \<open>Adding an action to a node, whose dimensions are not all in the key of the node.\<close>

lemma update_node_keys:
  assumes "ld_inv n dag" "keys_ok ldims (ld_shape dag)" "update_node i f dag = Some dag'" "(key, i) \<in> set (node_ids dag)"
    and "\<And>node. key_ok ldims key (ln_repeats node, ln_dim_maps node) \<Longrightarrow> key_ok ldims key (ln_repeats (f node), ln_dim_maps (f node))"
  shows "keys_ok ldims (ld_shape dag')"
proof -
  note dag' = update_nodeD [OF assms(3)]
  have "key_ok ldims key' (snd (ld_shape dag') ! j) \<and> j < length (snd (ld_shape dag'))" if "(key', j) \<in> set (node_ids dag)" for key' j
  proof (cases "j = i")
    case True
    have "key' = key" using assms(1,4) that True eq_key_imp_eq_value [of "map prod.swap (node_ids dag)" i]
      by (force simp: ld_inv_def comp_def)
    then show ?thesis using assms(2,4) assms(5) [of "ld_nodes dag ! i"] dag' True by (fastforce simp: keys_ok_def ld_shape_def)
  next
    case False
    then show ?thesis using assms(2) that dag' by (fastforce simp: keys_ok_def ld_shape_def)
  qed
  then show ?thesis using dag' by (auto simp: keys_ok_def ld_shape_def)
qed

definition build_ok :: "nat \<Rightarrow> nat vec_set list \<Rightarrow> 'f level_dag \<Rightarrow> bool" where
  "build_ok n ldims dag \<longleftrightarrow> ld_inv n dag \<and> keys_ok ldims (ld_shape dag)"

lemma add_level_ok:
  assumes "nesting_ok nesting" "build_ok n ldims dag" "add_level nesting (repeat_level_new sp pa ds kind) n (l, level) dag = Some dag'"
    and "l < length ldims" "ldims ! l = lv_dims level" "vs_inv (lv_dims level)"
  shows "build_ok n ldims dag'"
proof (cases "vs_is_empty (lv_dims level)")
  case True
  then show ?thesis using assms(2,3) by (simp add: add_level_def)
next
  case False
  obtain i dag1 r where g: "gen_node_id nesting (data (lv_dims level)) n dag = Some (i, dag1)"
    "repeat_level_new sp pa ds kind l (lv_dims level) = Some r"
    "update_node i (\<lambda>n. n\<lparr>ln_repeats := ln_repeats n @ (case r of Some r \<Rightarrow> [r] | None \<Rightarrow> [])\<rparr>) dag1 = Some dag'"
    using assms(3) False by (auto simp: add_level_def bind_eq_Some_conv)
  note inv = assms(2) [unfolded build_ok_def]
  have inv1: "ld_inv n dag1" by (rule gen_node_id_inv [OF _ g(1)]) (use inv in simp)
  note keys = gen_node_id_keys [OF assms(1) _ _ g(1), of ldims]
  obtain key where key: "(key, i) \<in> set (node_ids dag1)" "\<not> elems (lv_dims level) \<subseteq> elems key" "keys_ok ldims (ld_shape dag1)"
    using keys inv by (auto simp: elems_def)
  have "rl_level_id x = l" if "r = Some x" for x
    using g(2) that by (auto simp: repeat_level_new_def bind_eq_Some_conv split: if_splits)
  then have "keys_ok ldims (ld_shape dag')"
    using key(2) assms(4-6) by (intro update_node_keys [OF inv1 key(3) g(3) key(1)]) (auto simp: key_ok_def split: option.splits)
  moreover have "ld_inv n dag'" by (rule update_node_inv [OF inv1 g(3)]) simp
  ultimately show ?thesis by (simp add: build_ok_def)
qed

lemma add_dim_map_ok:
  assumes "nesting_ok nesting" "build_ok n ldims dag" "add_dim_map nesting n m dag = Some dag'" "vs_inv (src_dims m)"
  shows "build_ok n ldims dag'"
proof -
  obtain i dag1 where g: "gen_node_id nesting (data (src_dims m)) n dag = Some (i, dag1)"
    "update_node i (\<lambda>n. n\<lparr>ln_dim_maps := ln_dim_maps n @ [m]\<rparr>) dag1 = Some dag'"
    using assms(3) by (auto simp: add_dim_map_def bind_eq_Some_conv)
  note inv = assms(2) [unfolded build_ok_def]
  have inv1: "ld_inv n dag1" by (rule gen_node_id_inv [OF _ g(1)]) (use inv in simp)
  note keys = gen_node_id_keys [OF assms(1) _ _ g(1), of ldims]
  obtain key where key: "(key, i) \<in> set (node_ids dag1)" "\<not> elems (src_dims m) \<subseteq> elems key" "keys_ok ldims (ld_shape dag1)"
    using keys inv by (auto simp: elems_def)
  have "keys_ok ldims (ld_shape dag')"
    using key(2) assms(4) by (intro update_node_keys [OF inv1 key(3) g(2) key(1)]) (auto simp: key_ok_def)
  moreover have "ld_inv n dag'" by (rule update_node_inv [OF inv1 g(2)]) simp
  ultimately show ?thesis by (simp add: build_ok_def)
qed

lemma ld_build_ok:
  assumes "nesting_ok nesting" "ld_build kind dims nesting (repeat_level_new sp pa ds kind') levels maps n = Some dag"
    and "\<forall>l \<in> set levels. vs_inv (lv_dims l)" "\<forall>m \<in> set maps. vs_inv (src_dims m)"
  shows "build_ok n (map lv_dims levels) dag"
proof -
  let ?ok = "build_ok n (map lv_dims levels)"
  obtain d1 where d1: "fold_option (add_level nesting (repeat_level_new sp pa ds kind') n) (enumerate 0 levels) (ld_new kind dims n) = Some d1"
    "fold_option (add_dim_map nesting n) maps d1 = Some dag"
    using assms(2) by (auto simp: ld_build_def bind_eq_Some_conv)
  have new: "?ok (ld_new kind dims n)"
    by (simp add: build_ok_def ld_inv_new) (simp add: keys_ok_def ld_shape_def ld_new_def key_ok_def vs_inv_new empty_node_def)
  have "?ok s'" if step: "x \<in> set (enumerate 0 levels)" "?ok s" "add_level nesting (repeat_level_new sp pa ds kind') n x s = Some s'" for x s s'
  proof -
    have "x = (fst x, levels ! fst x) \<and> fst x < length levels"
      using step(1) unfolding in_set_enumerate_eq by (simp add: prod_eq_iff)
    then obtain l where l: "x = (l, levels ! l)" "l < length levels" by blast
    then show ?thesis using add_level_ok [OF assms(1) step(2) step(3) [unfolded l(1)]] assms(3) by simp
  qed
  then have "?ok d1" using fold_option_inv [where P = ?ok, OF d1(1) new] by blast
  then show ?thesis using fold_option_inv [where P = ?ok, OF d1(2)] add_dim_map_ok [OF assms(1)] assms(4) by blast
qed

section \<open>The processing order\<close>

text \<open>What is known of an action that is listed for a graph with well-formed keys.\<close>

definition step_ok :: "(nat vec_set \<times> nat) list \<Rightarrow> dag_step \<Rightarrow> bool" where
  "step_ok ids = (\<lambda>(from, _, to_nodes). \<exists>key dims. (key, from) \<in> set ids \<and> vs_inv dims \<and> \<not> elems dims \<subseteq> elems key
     \<and> to_nodes = nodes_after ids key dims)"

lemma node_actions_ok:
  assumes "keys_ok (map lv_dims levels) (ld_shape dag)" "p \<in> set (node_ids dag)" "node_actions levels dag p = Some acts"
  shows "\<forall>s \<in> set acts. step_ok (node_ids dag) s"
proof -
  obtain key i where p: "p = (key, i)" by fastforce
  have i: "i < length (ld_nodes dag)" "key_ok (map lv_dims levels) key (ln_repeats (ld_nodes dag ! i), ln_dim_maps (ld_nodes dag ! i))"
    using assms(1,2) by (auto simp: keys_ok_def ld_shape_def p split: prod.splits)
  obtain rs where rs: "those (map (\<lambda>r. if rl_level_id r < length levels
         then Some (i, DA_Repeat r, nodes_after (node_ids dag) key (lv_dims (levels ! rl_level_id r))) else None)
         (ln_repeats (ld_nodes dag ! i))) = Some rs"
    "acts = rs @ map (\<lambda>m. (i, DA_ApplyDimMap m, nodes_after (node_ids dag) key (src_dims m))) (ln_dim_maps (ld_nodes dag ! i))"
    using assms(3) i(1) by (auto simp: node_actions_def p bind_eq_Some_conv)
  have "step_ok (node_ids dag) s" if s: "s \<in> set rs" for s
  proof -
    obtain r where r: "r \<in> set (ln_repeats (ld_nodes dag ! i))" "rl_level_id r < length levels"
      "s = (i, DA_Repeat r, nodes_after (node_ids dag) key (lv_dims (levels ! rl_level_id r)))"
      using s those_SomeD [OF rs(1)] by (auto simp: in_set_conv_nth split: if_splits) fastforce
    have "vs_inv (map lv_dims levels ! rl_level_id r) \<and> \<not> elems (map lv_dims levels ! rl_level_id r) \<subseteq> elems key"
      using i(2) r(1) by (simp add: key_ok_def del: nth_map)
    then have "vs_inv (lv_dims (levels ! rl_level_id r))" "\<not> elems (lv_dims (levels ! rl_level_id r)) \<subseteq> elems key"
      using r(2) by simp_all
    then show ?thesis using assms(2) p unfolding r(3) step_ok_def by blast
  qed
  moreover have "step_ok (node_ids dag) (i, DA_ApplyDimMap m, nodes_after (node_ids dag) key (src_dims m))"
    if "m \<in> set (ln_dim_maps (ld_nodes dag ! i))" for m
    using that i(2) assms(2) p unfolding step_ok_def key_ok_def prod.case snd_conv by blast
  ultimately show ?thesis unfolding rs(2) by auto
qed

lemma nodes_after_spec:
  assumes "distinct (map snd ids)" "\<forall>(k, _) \<in> set ids. vs_inv k" "vs_inv key" "vs_inv dims"
  shows "distinct (nodes_after ids key dims)"
    "set (nodes_after ids key dims) = {i. \<exists>k. (k, i) \<in> set ids \<and> elems key \<union> elems dims \<subseteq> elems k}"
proof -
  show "distinct (nodes_after ids key dims)" unfolding nodes_after_def using assms(1) by (intro distinct_map_filter)
  have "vs_ge k key \<and> vs_ge k dims \<longleftrightarrow> elems key \<union> elems dims \<subseteq> elems k" if "(k, i) \<in> set ids" for k i
    using assms(2) that vs_ge_iff [OF _ assms(3), of k] vs_ge_iff [OF _ assms(4), of k] by fastforce
  then show "set (nodes_after ids key dims) = {i. \<exists>k. (k, i) \<in> set ids \<and> elems key \<union> elems dims \<subseteq> elems k}"
    unfolding nodes_after_def by (auto simp: image_iff) blast+
qed

text \<open>An action updates more nodes than the actions of the nodes that it updates.\<close>

lemma fewer_updates:
  assumes "distinct (map snd ids)" "\<forall>(k, _) \<in> set ids. vs_inv k" "step_ok ids (a, x, ta)" "step_ok ids (b, y, tb)" "b \<in> set ta"
  shows "length tb < length ta"
proof -
  obtain ka da kb db where s: "(ka, a) \<in> set ids" "vs_inv da" "ta = nodes_after ids ka da"
    "(kb, b) \<in> set ids" "vs_inv db" "\<not> elems db \<subseteq> elems kb" "tb = nodes_after ids kb db"
    using assms(3,4) unfolding step_ok_def by blast
  have inv: "vs_inv ka" "vs_inv kb" using assms(2) s(1,4) by auto
  note ta = nodes_after_spec [OF assms(1,2) inv(1) s(2), folded s(3)]
  note tb = nodes_after_spec [OF assms(1,2) inv(2) s(5), folded s(7)]
  have same: "k = kb" if "(k, b) \<in> set ids" for k
    using that s(4) assms(1) eq_key_imp_eq_value [of "map prod.swap ids" b] by (force simp: comp_def)
  have "elems ka \<union> elems da \<subseteq> elems kb" using assms(5) same ta(2) by auto
  then have "set tb \<subseteq> set ta" unfolding ta(2) tb(2) by blast
  moreover have "b \<notin> set tb" using same s(6) unfolding tb(2) by auto
  ultimately have "set tb \<subset> set ta" using assms(5) by blast
  then have "card (set tb) < card (set ta)" by (simp add: psubset_card_mono)
  then show ?thesis using distinct_card [OF ta(1)] distinct_card [OF tb(1)] by simp
qed

lemma processing_order_respects:
  assumes "ld_inv n dag" "keys_ok (map lv_dims levels) (ld_shape dag)" "processing_order levels dag = Some (steps, dag')"
    and "i < length steps" "j < length steps" "fst (steps ! j) \<in> set (snd (snd (steps ! i)))"
  shows "i < j"
proof (rule ccontr)
  assume "\<not> i < j"
  obtain acts where acts: "those (map (node_actions levels dag) (node_ids dag)) = Some acts"
    "steps = sort_key (\<lambda>(_, _, to_nodes). - int (length to_nodes)) (concat acts)"
    using assms(3) by (auto simp: processing_order_def bind_eq_Some_conv)
  have "step_ok (node_ids dag) s" if s: "s \<in> set steps" for s
  proof -
    obtain as where "as \<in> set acts" "s \<in> set as" using s acts(2) by auto
    then obtain q where "q < length (node_ids dag)" "node_actions levels dag (node_ids dag ! q) = Some as"
      using those_SomeD [OF acts(1)] by (metis in_set_conv_nth)
    then show ?thesis using node_actions_ok [OF assms(2)] \<open>s \<in> set as\<close> nth_mem by blast
  qed
  then have ok: "step_ok (node_ids dag) (steps ! i)" "step_ok (node_ids dag) (steps ! j)" using assms(4,5) by auto
  have ids: "distinct (map snd (node_ids dag))" "\<forall>(k, _) \<in> set (node_ids dag). vs_inv k"
    using assms(1,2) by (auto simp: ld_inv_def keys_ok_def ld_shape_def key_ok_def)
  have less: "length (snd (snd (steps ! j))) < length (snd (snd (steps ! i)))"
    using fewer_updates [OF ids] ok assms(6) by (metis prod.collapse)
  have "sorted (map (\<lambda>(_, _, to_nodes). - int (length to_nodes)) steps)" unfolding acts(2) by (rule sorted_sort_key)
  then have "- int (length (snd (snd (steps ! j)))) \<le> - int (length (snd (snd (steps ! i))))"
    using \<open>\<not> i < j\<close> assms(4,5) sorted_nth_mono [of "map (\<lambda>(_, _, to_nodes). - int (length to_nodes)) steps" j i]
    by (simp add: case_prod_beta)
  then show False using less by simp
qed

text \<open>
  An example with two nested loops of size 4, of which the loop 1 is the inner one. The levels are the whole program and each
  loop. The inner loop is repeated first, and its action updates the node from which the outer loop is repeated.
\<close>

definition one_bound :: "int fast_bound" where
  "one_bound = FastBound 1 1 FO_Latency"

definition nest_level :: "nat list \<Rightarrow> int level" where
  "nest_level ds = \<lparr>lv_dims = vs_new ds, lv_latency = one_bound, lv_end_latency = one_bound, lv_back_edges = [],
     lv_repeated_latency = None\<rparr>"

definition nest_levels :: "int level list" where
  "nest_levels = [nest_level [], nest_level [0], nest_level [1]]"

definition nest_sizes :: "(unit, unit) kspace" where
  "nest_sizes = nest_kernel\<lparr>ks_dim_size := \<lambda>_. ps_default\<lparr>static_factor := 4\<rparr>\<rparr>"

definition nest_points :: code_points where
  "nest_points = the (code_points_build sorted_list_of_set nest_order [] [vs_new [], vs_new [0], vs_new [1]])"

definition nest_dag :: "int level_dag" where
  "nest_dag = \<lparr>node_ids = [(\<lparr>data = []\<rparr>, 2), (\<lparr>data = [1]\<rparr>, 1), (\<lparr>data = [0, 1]\<rparr>, 0)],
     ld_nodes = [empty_node 6, (empty_node 6)\<lparr>ln_repeats := [\<lparr>rl_level_id = 1, rl_iterations = 4\<rparr>]\<rparr>,
       (empty_node 6)\<lparr>ln_repeats := [\<lparr>rl_level_id = 2, rl_iterations = 4\<rparr>]\<rparr>]\<rparr>"

definition nest_graph :: "(dag_step list \<times> int level list \<times> int level_dag) option" where
  "nest_graph = build_graph int_ops nest_sizes (\<lambda>_. []) (nesting_compute nest_sizes) (\<lambda>_. None) (\<lambda>_. []) nest_points nest_levels []"

definition nest_run :: "(dag_step list \<times> int level list \<times> int level_dag) option" where
  "nest_run = do {
     (levels, dag) \<leftarrow> populate int_ops (must_consider_dim (\<lambda>_. {K_Loop})) nest_points (\<lambda>_. None) (\<lambda>_. []) (nest_levels, nest_dag);
     (steps, dag) \<leftarrow> processing_order levels dag;
     dag \<leftarrow> fold_option (process_action int_ops nest_order nest_points [] (\<lambda>_. None) levels) steps dag;
     Some (steps, levels, dag) }"

lemma no_divisors: "vs_relative_difference \<lparr>data = []\<rparr> \<lparr>data = []\<rparr> = (\<lparr>data = []\<rparr>, \<lparr>data = []\<rparr> :: nat vec_set)"
  by code_simp

lemma nest_products: "ps_product [] = Some ps_default" "ps_product [ps_default\<lparr>static_factor := 4\<rparr>] = Some (ps_default\<lparr>static_factor := 4\<rparr>)"
  by (simp_all add: ps_product_def ps_simplify_def ps_default_def vs_default_def no_divisors vs_new_def checked_mul_def)

lemma nest_repeat:
  "repeat_level_new (ks_space nest_sizes) (ks_param nest_sizes) (ks_dim_size nest_sizes) (ks_kind nest_sizes) l \<lparr>data = [d]\<rparr>
    = Some (Some \<lparr>rl_level_id = l, rl_iterations = 4\<rparr>)"
  by (simp add: repeat_level_new_def nest_sizes_def nest_kernel_def is_sequential_def nest_products)
    (simp add: bounds_def param_factor_def ps_default_def vs_default_def to_u64_def u64_mul_def)

lemma nest_before:
  "map_option before_self (nesting_compute nest_sizes (S_Dim 0)) = Some \<lparr>data = [1]\<rparr>"
  "map_option before_self (nesting_compute nest_sizes (S_Dim 1)) = Some \<lparr>data = []\<rparr>"
  by (simp_all add: nesting_compute_def nest_sizes_def nest_kernel_def nest_order_def nest_products Let_def other_dims_def
      other_stmts_def statements_def add_outer_def vs_new_def)

lemma nest_build: "ld_build (ks_kind nest_sizes) (ks_dims nest_sizes) (nesting_compute nest_sizes)
   (repeat_level_new (ks_space nest_sizes) (ks_param nest_sizes) (ks_dim_size nest_sizes) (ks_kind nest_sizes)) nest_levels [] 6 = Some nest_dag"
proof -
  obtain n0 n1 where n: "nesting_compute nest_sizes (S_Dim 0) = Some n0" "before_self n0 = \<lparr>data = [1]\<rparr>"
    "nesting_compute nest_sizes (S_Dim (Suc 0)) = Some n1" "before_self n1 = \<lparr>data = []\<rparr>" using nest_before by auto
  have new: "ld_new (ks_kind nest_sizes) (ks_dims nest_sizes) 6 = \<lparr>node_ids = [(\<lparr>data = [0, 1]\<rparr>, 0)], ld_nodes = [empty_node 6]\<rparr>"
    by (simp add: ld_new_def nest_sizes_def nest_kernel_def vs_new_def)
  show ?thesis using n by (simp add: ld_build_def new nest_levels_def add_level_def nest_level_def vs_new_def vs_is_empty_def
        nest_repeat gen_node_id_def intersect_sets_def update_node_def nest_dag_def empty_node_def numeral_2_eq_2)
qed

lemma nest_graph_result:
  obtains steps levels dag where "nest_graph = Some (steps, levels, dag)" "length steps = 2" "length (ld_nodes dag) = 3"
    "length (nodes (cp_dag nest_points)) = 6" "fst (steps ! 1) \<in> set (snd (snd (steps ! 0)))"
proof -
  have six: "length (nodes (cp_dag nest_points)) = 6" by code_simp
  have run: "nest_graph = nest_run"
    by (simp add: nest_graph_def nest_run_def build_graph_def six nest_build) (simp add: nest_sizes_def nest_kernel_def)
  have "map_option (\<lambda>(steps, _, dag). (map (\<lambda>(from, _, to). (from, to)) steps, length (ld_nodes dag))) nest_run
    = Some ([(2, [1, 0]), (1, [0])], 3)" by code_simp
  then obtain steps levels dag where s: "nest_run = Some (steps, levels, dag)"
    "map (\<lambda>(from, _, to). (from, to)) steps = [(2, [1, 0]), (1, [0])]" "length (ld_nodes dag) = 3" by auto
  then have "length steps = 2" "fst (steps ! 1) \<in> set (snd (snd (steps ! 0)))"
    by (auto simp: map_eq_Cons_conv)
  then show thesis using that s run six by simp
qed

section \<open>Properties\<close>

lemma build_graphE:
  assumes "build_graph fl k operands nesting il ids points levels maps = Some (steps, levels', dag)"
  obtains dag0 dag1 dag2 where
    "ld_build (ks_kind k) (ks_dims k) nesting (repeat_level_new (ks_space k) (ks_param k) (ks_dim_size k) (ks_kind k))
       levels maps (length (nodes (cp_dag points))) = Some dag0"
    "populate fl (must_consider_dim (ks_kind k)) points il operands (levels, dag0) = Some (levels', dag1)"
    "processing_order levels' dag1 = Some (steps, dag2)"
    "fold_option (process_action fl (ks_order k) points (ids points) il levels') steps dag2 = Some dag"
  using assms by (auto simp: build_graph_def bind_eq_Some_conv)



text \<open>C14: With nestings as they are computed, the processing order respects the updates: an action is processed after every action
  that updates the dependencies of the node it starts from. In particular no action updates its own node.\<close>
theorem processing_order_respects_updates:
  assumes "\<forall>d n. nesting (S_Dim d) = Some n \<longrightarrow> nesting_compute k (S_Dim d) = Some n"
    and "\<forall>l \<in> set levels. vs_inv (lv_dims l)" "\<forall>m \<in> set maps. vs_inv (src_dims m)"
    and "build_graph fl k operands nesting il ids points levels maps = Some (steps, levels', dag)"
    and "i < length steps" "j < length steps" "fst (steps ! j) \<in> set (snd (snd (steps ! i)))"
  shows "i < j"
proof -
  let ?n = "length (nodes (cp_dag points))"
  obtain dag0 dag1 dag2 where d: "ld_build (ks_kind k) (ks_dims k) nesting
      (repeat_level_new (ks_space k) (ks_param k) (ks_dim_size k) (ks_kind k)) levels maps ?n = Some dag0"
    "populate fl (must_consider_dim (ks_kind k)) points il operands (levels, dag0) = Some (levels', dag1)"
    "processing_order levels' dag1 = Some (steps, dag2)"
    using build_graphE [OF assms(4)] by blast
  have ok: "build_ok ?n (map lv_dims levels) dag0" by (rule ld_build_ok [OF nesting_compute_ok [OF assms(1)] d(1) assms(2,3)])
  then have "pop_ok ?n (ld_shape dag0) (map lv_dims levels) (levels, dag0)" by (simp add: pop_ok_def ld_ok_def build_ok_def)
  then have "pop_ok ?n (ld_shape dag0) (map lv_dims levels) (levels', dag1)" by (rule populate_ok [OF d(2)])
  then have "ld_inv ?n dag1" "keys_ok (map lv_dims levels') (ld_shape dag1)"
    using ok by (simp_all add: pop_ok_def ld_ok_def build_ok_def)
  then show ?thesis using processing_order_respects [OF _ _ d(3) assms(5-7)] by blast
qed

theorem processing_order_respects_updates_witness:
  "\<exists>steps levels dag. nest_graph = Some (steps, levels, dag) \<and> fst (steps ! 1) \<in> set (snd (snd (steps ! 0)))
    \<and> fst (steps ! 0) \<notin> set (snd (snd (steps ! 1)))"
proof -
  obtain steps levels dag where g: "nest_graph = Some (steps, levels, dag)" "length steps = 2" "fst (steps ! 1) \<in> set (snd (snd (steps ! 0)))"
    using nest_graph_result by blast
  have "\<forall>l \<in> set nest_levels. vs_inv (lv_dims l)" by (simp add: nest_levels_def nest_level_def vs_inv_new)
  note order = processing_order_respects_updates [OF _ this _ g(1) [unfolded nest_graph_def], of 1 0]
  have "fst (steps ! 0) \<notin> set (snd (snd (steps ! 1)))"
  proof
    assume "fst (steps ! 0) \<in> set (snd (snd (steps ! 1)))"
    then have "1 < (0 :: nat)" by (intro order) (simp_all add: g(2))
    then show False by simp
  qed
  then show ?thesis using g by blast
qed

end
