(* ===== verification/Sort_By.thy ===== *)
theory Sort_By
  imports Telamon_Prelude
begin

text \<open>
  Sorting and searching of the standard library with a comparison that may panic: \<^verbatim>\<open>slice::sort_by\<close> (and
  \<^verbatim>\<open>sort_unstable_by\<close>, whose result is the same when no two elements compare equal) and
  \<^verbatim>\<open>slice::binary_search_by\<close>. \<open>None\<close> is a panic of the comparison.
\<close>

section \<open>Sorting\<close>

text \<open>A stable sort: an element is inserted after those that are not greater.\<close>

fun insert_by :: "('a \<Rightarrow> 'a \<Rightarrow> ordering option) \<Rightarrow> 'a \<Rightarrow> 'a list \<Rightarrow> 'a list option" where
  "insert_by compare x [] = Some [x]"
| "insert_by compare x (y # ys) = do {
     ord \<leftarrow> compare y x;
     if ord = Greater then Some (x # y # ys) else do { zs \<leftarrow> insert_by compare x ys; Some (y # zs) } }"

definition sort_by :: "('a \<Rightarrow> 'a \<Rightarrow> ordering option) \<Rightarrow> 'a list \<Rightarrow> 'a list option" where
  "sort_by compare xs = fold_option (insert_by compare) xs []"

lemma insert_by_mset: "insert_by c x ys = Some zs \<Longrightarrow> mset zs = add_mset x (mset ys)"
  by (induction ys arbitrary: zs) (auto simp: bind_eq_Some_conv split: if_splits)

lemma fold_insert_by_mset: "fold_option (insert_by c) xs ys = Some zs \<Longrightarrow> mset zs = mset xs + mset ys"
  by (induction xs arbitrary: ys) (auto simp: bind_eq_Some_conv dest!: insert_by_mset)

lemma sort_by_mset: "sort_by c xs = Some zs \<Longrightarrow> mset zs = mset xs"
  using fold_insert_by_mset unfolding sort_by_def by fastforce

lemma sort_by_set: "sort_by c xs = Some zs \<Longrightarrow> set zs = set xs"
  by (metis sort_by_mset set_mset_mset)

text \<open>A comparison that decides a list: every element is less than those that follow it.\<close>

definition decided_by :: "('a \<Rightarrow> 'a \<Rightarrow> ordering option) \<Rightarrow> 'a list \<Rightarrow> bool" where
  "decided_by c xs \<longleftrightarrow> sorted_wrt (\<lambda>x y. c x y = Some Less \<and> c y x = Some Greater) xs"

lemma decided_by_Cons [simp]:
  "decided_by c (x # xs) \<longleftrightarrow> (\<forall>y \<in> set xs. c x y = Some Less \<and> c y x = Some Greater) \<and> decided_by c xs"
  by (simp add: decided_by_def)

lemma decided_by_distinct: "decided_by c xs \<Longrightarrow> distinct xs"
  by (induction xs) (auto simp: decided_by_def)

lemma decided_by_subseq: "decided_by c xs \<Longrightarrow> decided_by c (filter P xs)"
  by (simp add: decided_by_def sorted_wrt_filter)

lemma insert_by_decided:
  assumes "decided_by c zs" "x \<in> set zs" "x \<notin> S"
  shows "insert_by c x (filter (\<lambda>z. z \<in> S) zs) = Some (filter (\<lambda>z. z \<in> insert x S) zs)"
  using assms
proof (induction zs)
  case (Cons z zs)
  show ?case
  proof (cases "z = x")
    case True
    have decided: "\<forall>y \<in> set zs. c y x = Some Greater" using Cons.prems(1) True by simp
    have "x \<notin> set zs" using Cons.prems(1) True by fastforce
    then have "filter (\<lambda>z. z \<in> insert x S) zs = filter (\<lambda>z. z \<in> S) zs" by (auto intro: filter_cong)
    moreover have "insert_by c x (filter (\<lambda>z. z \<in> S) zs) = Some (x # filter (\<lambda>z. z \<in> S) zs)"
    proof (cases "filter (\<lambda>z. z \<in> S) zs")
      case (Cons a as)
      then have "a \<in> set zs" by (metis filter_is_subset list.set_intros(1) subsetD)
      then show ?thesis using decided True Cons by simp
    qed simp
    ultimately show ?thesis using True Cons.prems(3) by simp
  next
    case False
    then show ?thesis using Cons by auto
  qed
qed simp

lemma fold_insert_by_decided:
  assumes "decided_by c zs" "distinct xs" "set xs \<subseteq> set zs" "set xs \<inter> S = {}"
  shows "fold_option (insert_by c) xs (filter (\<lambda>z. z \<in> S) zs) = Some (filter (\<lambda>z. z \<in> S \<union> set xs) zs)"
  using assms
proof (induction xs arbitrary: S)
  case (Cons x xs)
  then show ?case using Cons.IH [of "insert x S"] insert_by_decided [of c zs x S] by auto
qed simp

text \<open>A list that the comparison decides is the result of sorting any of its permutations.\<close>

lemma sort_by_decided:
  assumes "decided_by c zs" "mset xs = mset zs"
  shows "sort_by c xs = Some zs"
proof -
  have "distinct xs" "set xs = set zs"
    using decided_by_distinct assms by (metis mset_eq_imp_distinct_iff, metis mset_eq_setD)
  then show ?thesis using fold_insert_by_decided [OF assms(1), of xs "{}"] by (simp add: sort_by_def)
qed

section \<open>Searching\<close>

function bs_by_loop :: "('a \<Rightarrow> ordering option) \<Rightarrow> 'a list \<Rightarrow> nat \<Rightarrow> nat \<Rightarrow> nat option" where
  "bs_by_loop f xs base sz =
     (if sz > 1 then do {
        let half = sz div 2;
        let mid = base + half;
        ord \<leftarrow> f (xs ! mid);
        bs_by_loop f xs (if ord = Greater then base else mid) (sz - half) }
      else Some base)"
  by pat_completeness auto
termination
  by (relation "measure (\<lambda>(f, xs, base, sz). sz)") auto

declare bs_by_loop.simps [simp del]

definition binary_search_by :: "('a \<Rightarrow> ordering option) \<Rightarrow> 'a list \<Rightarrow> (nat + nat) option" where
  "binary_search_by f xs =
     (if xs = [] then Some (Inl 0)
      else do {
        base \<leftarrow> bs_by_loop f xs 0 (length xs);
        ord \<leftarrow> f (xs ! base);
        Some (case ord of Equal \<Rightarrow> Inr base | Less \<Rightarrow> Inl (base + 1) | Greater \<Rightarrow> Inl base) })"

text \<open>The positions before \<open>k\<close> are less, those from \<open>k\<close> on are greater, except for position \<open>k\<close> when it is equal.\<close>

definition pivot :: "('a \<Rightarrow> ordering option) \<Rightarrow> 'a list \<Rightarrow> nat \<Rightarrow> bool \<Rightarrow> bool" where
  "pivot f xs k found \<longleftrightarrow>
     (\<forall>i < length xs. f (xs ! i) =
        Some (if i < k then Less else if i = k \<and> found then Equal else Greater)) \<and> k + of_bool found \<le> length xs"

lemma bs_by_loop_pivot:
  assumes "pivot f xs k found" "base + sz \<le> length xs" "0 < sz"
    "base \<le> k" "base = 0 \<or> base < k + of_bool found" "k + of_bool found \<le> base + sz"
  shows "\<exists>b. bs_by_loop f xs base sz = Some b \<and> b < length xs
    \<and> (if found then b = k else if k = 0 then b = 0 else b = k - 1)"
  using assms
proof (induction f xs base sz rule: bs_by_loop.induct)
  case (1 f xs base sz)
  show ?case
  proof (cases "sz > 1")
    case True
    define half where "half = sz div 2"
    define mid where "mid = base + half"
    have mid: "mid < length xs" "0 < half" "half < sz" "half \<le> sz - half" using True "1.prems" by (auto simp: mid_def half_def)
    obtain ord where ord: "f (xs ! mid) = Some ord" "ord = Greater \<longleftrightarrow> k + of_bool found \<le> mid"
      using "1.prems"(1) mid by (auto simp: pivot_def)
    define base' where "base' = (if ord = Greater then base else mid)"
    have "base' + (sz - half) \<le> length xs" "0 < sz - half" "base' \<le> k"
      "base' = 0 \<or> base' < k + of_bool found" "k + of_bool found \<le> base' + (sz - half)"
      using "1.prems" mid ord by (auto simp: base'_def mid_def)
    then have "\<exists>b. bs_by_loop f xs base' (sz - half) = Some b \<and> b < length xs
      \<and> (if found then b = k else if k = 0 then b = 0 else b = k - 1)"
      using "1.IH" [OF True half_def mid_def, of ord, folded base'_def] ord(1) "1.prems"(1) by simp
    moreover have "bs_by_loop f xs base sz = bs_by_loop f xs base' (sz - half)"
      using True ord(1) by (simp add: bs_by_loop.simps [of f xs base sz] half_def mid_def base'_def Let_def)
    ultimately show ?thesis by metis
  next
    case False
    then show ?thesis using "1.prems" by (auto simp: bs_by_loop.simps [of f xs base sz] split: if_splits)
  qed
qed

lemma binary_search_by_pivot:
  assumes "pivot f xs k found"
  shows "binary_search_by f xs = Some (if found then Inr k else Inl k)"
proof (cases "xs = []")
  case False
  obtain b where b: "bs_by_loop f xs 0 (length xs) = Some b" "b < length xs"
    "if found then b = k else if k = 0 then b = 0 else b = k - 1"
    using bs_by_loop_pivot [OF assms, of 0 "length xs"] assms False by (auto simp: pivot_def)
  then have "f (xs ! b) = Some (if b < k then Less else if b = k \<and> found then Equal else Greater)"
    using assms by (simp add: pivot_def)
  then show ?thesis using b False by (auto simp: binary_search_by_def split: if_splits)
qed (use assms in \<open>auto simp: pivot_def binary_search_by_def\<close>)

end
