(* ===== verification/Explorer.thy ===== *)
theory Explorer
  imports Dependency_Map Sort_By "HOL-Library.Multiset"
begin

text \<open>
  The exploration of the search space by branch and bound: candidates (\<^verbatim>\<open>src/explorer/candidate.rs\<close>), the list of candidates that the
  workers share (\<^verbatim>\<open>src/explorer/parallel_list.rs\<close>), the evaluation of a candidate (\<^verbatim>\<open>StableEvaluator\<close> of \<^verbatim>\<open>src/device/context.rs\<close>), the
  callback of the workers (\<^verbatim>\<open>explore_space\<close> of \<^verbatim>\<open>src/explorer/mod.rs\<close>) and the monitor (\<^verbatim>\<open>src/explorer/monitor.rs\<close>).

  The search space is generated code: the choices of a space, the result of applying an action and the bound of the performance
  model are arguments, in the record \<open>search\<close>. The interval heap is a library: its operations are the record \<open>heap\<close>, with the laws
  \<open>heap_laws\<close>. The threads are modelled by a step relation; a step is the part of a thread that runs while it holds the lock
  of the list or of the best evaluation, or that touches no shared state.
\<close>

section \<open>Candidates\<close>

record ('s, 'a, 'f) candidate =
  cd_space :: 's
  cd_bound :: "'f explained"
  cd_depth :: nat
  cd_actions :: "'a list"

record ('s, 'a, 'f, 'k) search =
  sp_choices :: "'s \<Rightarrow> 'a list list"
  sp_apply :: "'a \<Rightarrow> 's \<Rightarrow> 's option"
  sp_bound :: "'s \<Rightarrow> 'f explained"
  sp_fix_order :: "'s \<Rightarrow> 's option"
  sp_kernel :: "'s \<Rightarrow> 'k"
  sp_run :: "'k \<Rightarrow> 'f option \<times> 'k"
  sp_check :: "'s \<Rightarrow> bool"

definition cd_with_actions :: "'s \<Rightarrow> 'f explained \<Rightarrow> 'a list \<Rightarrow> ('s, 'a, 'f) candidate" where
  "cd_with_actions space bnd actions = \<lparr>cd_space = space, cd_bound = bnd, cd_depth = length actions, cd_actions = actions\<rparr>"

definition cd_new :: "'s \<Rightarrow> 'f explained \<Rightarrow> ('s, 'a, 'f) candidate" where
  "cd_new space bnd = cd_with_actions space bnd []"

abbreviation cd_value :: "('s, 'a, 'f) candidate \<Rightarrow> 'f" where
  "cd_value c \<equiv> ex_value (cd_bound c)"

text \<open>The error is the action that cannot be applied.\<close>

definition apply_decision :: "('s, 'a, 'f, 'k) search \<Rightarrow> 'a \<Rightarrow> ('s, 'a, 'f) candidate \<Rightarrow> 'a + ('s, 'a, 'f) candidate" where
  "apply_decision sp action self = (case sp_apply sp action (cd_space self) of
     None \<Rightarrow> Inl action
   | Some space \<Rightarrow> Inr \<lparr>cd_space = space, cd_bound = sp_bound sp space, cd_depth = cd_depth self + 1, cd_actions = action # cd_actions self\<rparr>)"

definition ok_result :: "'e + 'v \<Rightarrow> 'v option" where
  "ok_result r = (case r of Inl _ \<Rightarrow> None | Inr v \<Rightarrow> Some v)"

definition apply_choice :: "('s, 'a, 'f, 'k) search \<Rightarrow> 'a list \<Rightarrow> ('s, 'a, 'f) candidate \<Rightarrow> ('s, 'a, 'f) candidate list" where
  "apply_choice sp choice self = List.map_filter (\<lambda>action. ok_result (apply_decision sp action self)) choice"

text \<open>\<^verbatim>\<open>choice::default_list(...).next()\<close>.\<close>

definition next_choice :: "('s, 'a, 'f, 'k) search \<Rightarrow> 's \<Rightarrow> 'a list option" where
  "next_choice sp space = (case sp_choices sp space of [] \<Rightarrow> None | choice # _ \<Rightarrow> Some choice)"

section \<open>The list of candidates\<close>

record ('q, 'c) heap =
  hp_new :: 'q
  hp_push :: "'c \<Rightarrow> 'q \<Rightarrow> 'q"
  hp_pop_min :: "'q \<Rightarrow> ('c \<times> 'q) option"
  hp_pop_max :: "'q \<Rightarrow> ('c \<times> 'q) option"
  hp_max :: "'q \<Rightarrow> 'c option"

record ('q, 'f) candidate_list =
  cl_cut :: 'f
  cl_queue :: 'q
  n_leaf :: nat
  n_candidate :: nat
  n_dropped :: nat

definition f_ge :: "'f f64_ops \<Rightarrow> 'f \<Rightarrow> 'f \<Rightarrow> bool" where
  "f_ge fl a b \<longleftrightarrow> f_less fl b a \<or> f_eq fl a b"

definition cl_new :: "'f f64_ops \<Rightarrow> ('q, 'c) heap \<Rightarrow> ('q, 'f) candidate_list" where
  "cl_new fl hp = \<lparr>cl_cut = f_infinity fl, cl_queue = hp_new hp, n_leaf = 0, n_candidate = 0, n_dropped = 0\<rparr>"

definition cl_drop :: "('q, 'f) candidate_list \<Rightarrow> ('q, 'f) candidate_list" where
  "cl_drop l = l\<lparr>n_dropped := n_dropped l + 1\<rparr>"

definition cl_insert ::
  "'f f64_ops \<Rightarrow> ('q, ('s, 'a, 'f) candidate) heap \<Rightarrow> ('s, 'a, 'f) candidate \<Rightarrow> ('q, 'f) candidate_list \<Rightarrow> ('q, 'f) candidate_list" where
  "cl_insert fl hp c l = (let l = l\<lparr>n_candidate := n_candidate l + 1\<rparr> in
     if f_less fl (cd_value c) (cl_cut l) then l\<lparr>cl_queue := hp_push hp c (cl_queue l)\<rparr> else cl_drop l)"

text \<open>The loop of \<^verbatim>\<open>update_cut\<close>; it ends when the heap gets smaller with every element that is popped.\<close>

partial_function (option) drop_above ::
  "'f f64_ops \<Rightarrow> ('q, ('s, 'a, 'f) candidate) heap \<Rightarrow> 'f \<Rightarrow> ('q, 'f) candidate_list \<Rightarrow> ('q, 'f) candidate_list option" where
  "drop_above fl hp new_cut l =
     (case hp_max hp (cl_queue l) of
        None \<Rightarrow> Some l
      | Some x \<Rightarrow> if f_ge fl (cd_value x) new_cut then
          (case hp_pop_max hp (cl_queue l) of
             None \<Rightarrow> None
           | Some (_, q) \<Rightarrow> drop_above fl hp new_cut (cl_drop (l\<lparr>cl_queue := q\<rparr>)))
          else Some l)"

definition cl_update_cut ::
  "'f f64_ops \<Rightarrow> ('q, ('s, 'a, 'f) candidate) heap \<Rightarrow> 'f \<Rightarrow> ('q, 'f) candidate_list \<Rightarrow> ('q, 'f) candidate_list option" where
  "cl_update_cut fl hp new_cut l = drop_above fl hp new_cut (l\<lparr>cl_cut := new_cut\<rparr>)"

definition cl_pop :: "('q, 'c) heap \<Rightarrow> ('q, 'f) candidate_list \<Rightarrow> ('c \<times> ('q, 'f) candidate_list) option" where
  "cl_pop hp l = (case hp_pop_min hp (cl_queue l) of None \<Rightarrow> None | Some (c, q) \<Rightarrow> Some (c, l\<lparr>cl_queue := q\<rparr>))"

definition insert_many ::
  "'f f64_ops \<Rightarrow> ('q, ('s, 'a, 'f) candidate) heap \<Rightarrow> ('s, 'a, 'f) candidate list \<Rightarrow> ('q, 'f) candidate_list \<Rightarrow> ('q, 'f) candidate_list" where
  "insert_many fl hp = fold (cl_insert fl hp)"

section \<open>Evaluation of a candidate\<close>

text \<open>\<^verbatim>\<open>cmp_f64\<close>, which panics on a nan.\<close>

definition cmp_f64 :: "'f f64_ops \<Rightarrow> 'f \<Rightarrow> 'f \<Rightarrow> ordering option" where
  "cmp_f64 fl a b =
     (if f_is_nan fl a \<or> f_is_nan fl b then None
      else Some (if f_less fl a b then Less else if f_less fl (f_abs fl (f_sub fl a b)) (f_epsilon fl) then Equal else Greater))"

record 'f stabilizer =
  skip_bad_candidates :: bool
  skip_threshold :: 'f
  st_num_evals :: nat
  num_outliers :: nat

text \<open>The runs of a kernel up to the first failure.\<close>

fun run_kernel :: "('k \<Rightarrow> 'f option \<times> 'k) \<Rightarrow> nat \<Rightarrow> 'k \<Rightarrow> 'f list option \<times> 'k" where
  "run_kernel run 0 k = (Some [], k)"
| "run_kernel run (Suc n) k = (case run k of
     (None, k) \<Rightarrow> (None, k)
   | (Some t, k) \<Rightarrow> (case run_kernel run n k of (ts, k) \<Rightarrow> (map_option (Cons t) ts, k)))"

text \<open>The average of the runs that are closest to the median; an index out of range panics.\<close>

definition average_runs :: "'f f64_ops \<Rightarrow> nat \<Rightarrow> nat \<Rightarrow> 'f list \<Rightarrow> 'f option" where
  "average_runs fl num_evals num_samples runtimes = do {
     by_value \<leftarrow> sort_by (cmp_f64 fl) runtimes;
     median \<leftarrow> (if num_evals div 2 < length by_value then Some (by_value ! (num_evals div 2)) else None);
     by_delta \<leftarrow> sort_by (\<lambda>a b. cmp_f64 fl (f_abs fl (f_sub fl a median)) (f_abs fl (f_sub fl b median))) by_value;
     if num_samples \<le> length by_delta then
       Some (f_div fl (fold (\<lambda>t total. f_add fl total t) (take num_samples by_delta) (f_zero fl)) (f_of_u64 fl (of_nat num_samples)))
     else None }"

text \<open>The outer \<open>None\<close> is a panic, the inner one a failed run. The constant \<open>limit\<close> is \<^verbatim>\<open>1.0e9\<close>.\<close>

definition stable_average ::
  "'f f64_ops \<Rightarrow> 'f stabilizer \<Rightarrow> ('k \<Rightarrow> 'f option \<times> 'k) \<Rightarrow> nat \<Rightarrow> 'k \<Rightarrow> 'f option option" where
  "stable_average fl st run num_evals k = (case fst (run_kernel run num_evals k) of
     None \<Rightarrow> Some None
   | Some ts \<Rightarrow> map_option Some (average_runs fl num_evals (max 1 (num_evals - num_outliers st)) ts))"

definition stable_evaluate ::
  "'f f64_ops \<Rightarrow> 'f \<Rightarrow> 'f stabilizer \<Rightarrow> ('k \<Rightarrow> 'f option \<times> 'k) \<Rightarrow> 'f option \<Rightarrow> 'f option \<Rightarrow> 'k \<Rightarrow> 'f option option" where
  "stable_evaluate fl limit st run bnd best k =
     (if skip_bad_candidates st \<and> bnd \<noteq> None then
        (let b = the bnd in
         if (case best of Some x \<Rightarrow> f_ge fl b x | None \<Rightarrow> False) then Some (Some (f_infinity fl))
         else (case run k of
             (None, _) \<Rightarrow> Some None
           | (Some t0, k) \<Rightarrow>
               if f_ge fl (f_mul fl t0 (skip_threshold st)) b then Some (Some t0)
               else stable_average fl st run (max 1 (min (st_num_evals st) (f_to_usize fl (f_div fl limit t0)))) k))
      else stable_average fl st run (st_num_evals st) k)"

section \<open>Callback of the evaluation and monitor\<close>

record 'f config =
  cf_stop_bound :: "'f option"
  cf_distance_to_best :: "'f option"
  cf_max_evaluations :: "nat option"
  cf_timeout :: bool
  cf_check_all :: bool
  cf_check_result :: bool
  cf_stabilizer :: "'f stabilizer"
  cf_limit :: 'f

record ('s, 'a, 'f) status =
  best_candidate :: "(('s, 'a, 'f) candidate \<times> 'f) option"
  num_evaluations :: nat

definition is_better :: "'f f64_ops \<Rightarrow> 'f \<Rightarrow> 'f option \<Rightarrow> bool" where
  "is_better fl eval best = (case best of None \<Rightarrow> True | Some b \<Rightarrow> f_less fl eval b)"

text \<open>The callback runs while it holds the lock of the best evaluation; it returns the evaluation that is sent and the best one.\<close>

definition eval_callback ::
  "'f f64_ops \<Rightarrow> ('s, 'a, 'f, 'k) search \<Rightarrow> 'f config \<Rightarrow> ('s, 'a, 'f) candidate \<Rightarrow> 'f option \<Rightarrow> ('f \<times> 'f option) option" where
  "eval_callback fl sp cfg leaf best = do {
     r \<leftarrow> stable_evaluate fl (cf_limit cfg) ((cf_stabilizer cfg)\<lparr>skip_bad_candidates := True\<rparr>) (sp_run sp) (Some (cd_value leaf)) best
       (sp_kernel sp (cd_space leaf));
     let eval = (case r of Some e \<Rightarrow> e | None \<Rightarrow> f_infinity fl);
     let eval = (if cf_check_result cfg \<and> f_is_finite fl eval \<and> (cf_check_all cfg \<or> is_better fl eval best) \<and> \<not> sp_check sp (cd_space leaf)
       then f_infinity fl else eval);
     Some (eval, if f_is_finite fl eval \<and> is_better fl eval best then Some eval else best) }"

definition get_new_cut :: "'f f64_ops \<Rightarrow> 'f config \<Rightarrow> 'f \<Rightarrow> 'f" where
  "get_new_cut fl cfg eval =
     (if (case cf_stop_bound cfg of Some b \<Rightarrow> f_less fl eval b | None \<Rightarrow> False) then f_zero fl
      else (case cf_distance_to_best cfg of
          Some ratio \<Rightarrow> f_mul fl (f_sub fl (f_of_u64 fl 1) (f_div fl ratio (f_of_u64 fl 100))) eval
        | None \<Rightarrow> eval))"

text \<open>The flag says that the maximal number of evaluations is reached.\<close>

definition handle_message ::
  "'f f64_ops \<Rightarrow> ('q, ('s, 'a, 'f) candidate) heap \<Rightarrow> 'f config \<Rightarrow> ('s, 'a, 'f) candidate \<times> 'f \<Rightarrow> ('s, 'a, 'f) status \<Rightarrow> ('q, 'f) candidate_list
    \<Rightarrow> (bool \<times> ('s, 'a, 'f) status \<times> ('q, 'f) candidate_list) option" where
  "handle_message fl hp cfg = (\<lambda>(cand, eval) status l. do {
     (status, l) \<leftarrow> (if is_better fl eval (map_option snd (best_candidate status)) then do {
         l \<leftarrow> cl_update_cut fl hp (get_new_cut fl cfg eval) l;
         Some (status\<lparr>best_candidate := Some (cand, eval)\<rparr>, l) }
       else Some (status, l));
     let n = num_evaluations status + 1;
     Some (if f_is_infinite fl eval then (False, status, l)
       else (case cf_max_evaluations cfg of Some m \<Rightarrow> n \<ge> m | None \<Rightarrow> False, status\<lparr>num_evaluations := n\<rparr>, l)) })"

section \<open>The workers\<close>

datatype 'c worker = W_Explore | W_Expand 'c | W_Waiting | W_Woken | W_Done

datatype 'c pop_result = Popped 'c | Ended | Blocked

record ('q, 's, 'a, 'f) explorer =
  ex_list :: "('q, 'f) candidate_list"
  ex_active :: nat
  ex_workers :: "('s, 'a, 'f) candidate worker list"
  ex_pending :: "('s, 'a, 'f) candidate list"
  ex_best :: "'f option"
  ex_channel :: "(('s, 'a, 'f) candidate \<times> 'f) list"
  ex_status :: "('s, 'a, 'f) status"
  ex_stopped :: bool

text \<open>One turn of the loop of \<^verbatim>\<open>ParallelCandidateList::pop\<close>, with the lock held; the counter would underflow at zero.\<close>

definition pop_attempt ::
  "('q, 'c) heap \<Rightarrow> ('q, 'f) candidate_list \<Rightarrow> nat \<Rightarrow> ('c pop_result \<times> ('q, 'f) candidate_list \<times> nat) option" where
  "pop_attempt hp l n = (case cl_pop hp l of
     Some (c, l) \<Rightarrow> Some (Popped c, l, n)
   | None \<Rightarrow> if n = 1 then Some (Ended, l, 0) else if n = 0 then None else Some (Blocked, l, n - 1))"

text \<open>\<^verbatim>\<open>notify_all\<close>.\<close>

definition notify_all :: "'c worker list \<Rightarrow> 'c worker list" where
  "notify_all ws = map (\<lambda>w. case w of W_Waiting \<Rightarrow> W_Woken | _ \<Rightarrow> w) ws"

text \<open>A worker that waits counts itself again before it tries to pop; it may wake up without having been notified.\<close>

definition pop_counter :: "'c worker \<Rightarrow> nat \<Rightarrow> nat option" where
  "pop_counter w n = (case w of W_Explore \<Rightarrow> Some n | W_Waiting \<Rightarrow> Some (n + 1) | W_Woken \<Rightarrow> Some (n + 1) | _ \<Rightarrow> None)"

fun after_pop :: "nat \<Rightarrow> 'c pop_result \<Rightarrow> 'c worker list \<Rightarrow> 'c worker list" where
  "after_pop i (Popped c) ws = ws[i := W_Expand c]"
| "after_pop i Ended ws = notify_all (ws[i := W_Done])"
| "after_pop i Blocked ws = ws[i := W_Waiting]"

definition explorer_start ::
  "'f f64_ops \<Rightarrow> ('q, ('s, 'a, 'f) candidate) heap \<Rightarrow> nat \<Rightarrow> ('s, 'a, 'f) candidate list \<Rightarrow> ('q, 's, 'a, 'f) explorer" where
  "explorer_start fl hp num_workers candidates =
     \<lparr>ex_list = insert_many fl hp candidates (cl_new fl hp), ex_active = num_workers, ex_workers = replicate num_workers W_Explore,
      ex_pending = [], ex_best = None, ex_channel = [], ex_status = \<lparr>best_candidate = None, num_evaluations = 0\<rparr>, ex_stopped = False\<rparr>"

inductive explore_step ::
  "'f f64_ops \<Rightarrow> ('q, ('s, 'a, 'f) candidate) heap \<Rightarrow> ('s, 'a, 'f, 'k) search \<Rightarrow> 'f config
    \<Rightarrow> ('q, 's, 'a, 'f) explorer \<Rightarrow> ('q, 's, 'a, 'f) explorer \<Rightarrow> bool"
  for fl :: "'f f64_ops" and hp :: "('q, ('s, 'a, 'f) candidate) heap" and sp :: "('s, 'a, 'f, 'k) search" and cfg :: "'f config" where
  step_pop: "i < length (ex_workers x) \<Longrightarrow> pop_counter (ex_workers x ! i) (ex_active x) = Some n
    \<Longrightarrow> pop_attempt hp (ex_list x) n = Some (r, l, n')
    \<Longrightarrow> explore_step fl hp sp cfg x (x\<lparr>ex_list := l, ex_active := n', ex_workers := after_pop i r (ex_workers x)\<rparr>)"
| step_expand: "i < length (ex_workers x) \<Longrightarrow> ex_workers x ! i = W_Expand c \<Longrightarrow> next_choice sp (cd_space c) = Some choice
    \<Longrightarrow> explore_step fl hp sp cfg x (x\<lparr>ex_list := insert_many fl hp (apply_choice sp choice c) (ex_list x),
          ex_workers := notify_all ((ex_workers x)[i := W_Explore])\<rparr>)"
| step_leaf: "i < length (ex_workers x) \<Longrightarrow> ex_workers x ! i = W_Expand c \<Longrightarrow> next_choice sp (cd_space c) = None
    \<Longrightarrow> sp_fix_order sp (cd_space c) = Some space
    \<Longrightarrow> explore_step fl hp sp cfg x (x\<lparr>ex_pending := ex_pending x @ [c\<lparr>cd_space := space\<rparr>], ex_workers := (ex_workers x)[i := W_Explore]\<rparr>)"
| step_eval: "ex_pending x = us @ leaf # vs \<Longrightarrow> eval_callback fl sp cfg leaf (ex_best x) = Some (eval, best)
    \<Longrightarrow> explore_step fl hp sp cfg x (x\<lparr>ex_pending := us @ vs, ex_best := best,
          ex_channel := (if ex_stopped x then ex_channel x else ex_channel x @ [(leaf, eval)])\<rparr>)"
| step_monitor: "\<not> ex_stopped x \<Longrightarrow> ex_channel x = m # ms \<Longrightarrow> handle_message fl hp cfg m (ex_status x) (ex_list x) = Some (False, st, l)
    \<Longrightarrow> explore_step fl hp sp cfg x (x\<lparr>ex_channel := ms, ex_status := st, ex_list := l\<rparr>)"
| step_max_evaluations: "\<not> ex_stopped x \<Longrightarrow> ex_channel x = m # ms \<Longrightarrow> handle_message fl hp cfg m (ex_status x) (ex_list x) = Some (True, st, l)
    \<Longrightarrow> cl_update_cut fl hp (f_zero fl) l = Some l'
    \<Longrightarrow> explore_step fl hp sp cfg x (x\<lparr>ex_channel := [], ex_status := st, ex_list := l', ex_stopped := True\<rparr>)"
| step_timeout: "\<not> ex_stopped x \<Longrightarrow> cf_timeout cfg \<Longrightarrow> cl_update_cut fl hp (f_zero fl) (ex_list x) = Some l'
    \<Longrightarrow> explore_step fl hp sp cfg x (x\<lparr>ex_channel := [], ex_list := l', ex_stopped := True\<rparr>)"

inductive explored ::
  "'f f64_ops \<Rightarrow> ('q, ('s, 'a, 'f) candidate) heap \<Rightarrow> ('s, 'a, 'f, 'k) search \<Rightarrow> 'f config \<Rightarrow> ('q, 's, 'a, 'f) explorer
    \<Rightarrow> ('q, 's, 'a, 'f) explorer \<Rightarrow> bool"
  for fl :: "'f f64_ops" and hp :: "('q, ('s, 'a, 'f) candidate) heap" and sp :: "('s, 'a, 'f, 'k) search" and cfg :: "'f config"
    and x0 :: "('q, 's, 'a, 'f) explorer" where
  explored_start: "explored fl hp sp cfg x0 x0"
| explored_step: "explored fl hp sp cfg x0 x \<Longrightarrow> explore_step fl hp sp cfg x x' \<Longrightarrow> explored fl hp sp cfg x0 x'"

inductive_cases explore_stepE: "explore_step fl hp sp cfg x x'"

end
