(* ===== verification/Explorer_Correct.thy ===== *)
theory Explorer_Correct
  imports Explorer
begin

text \<open>
  The protocol of the workers: what the operations of the shared list do on the multiset of candidates in the heap, that the counter
  of the list counts the workers that are not blocked, that a worker only ends when no candidate is left, and that the workers
  never block each other for ever. The laws of floats and of the heap that the exploration relies on are stated here, with a heap
  that satisfies them and a complete exploration of a small space.
\<close>

section \<open>Laws of the arguments\<close>

text \<open>The order of floats: comparisons with a nan are false, the others follow a linear order, in which infinity is above all finite floats.\<close>

definition f64_laws :: "'f f64_ops \<Rightarrow> ('f \<Rightarrow> 'o::linorder) \<Rightarrow> bool" where
  "f64_laws fl rk \<longleftrightarrow> (\<forall>a b. f_less fl a b \<longleftrightarrow> \<not> f_is_nan fl a \<and> \<not> f_is_nan fl b \<and> rk a < rk b)
     \<and> (\<forall>a b. f_eq fl a b \<longleftrightarrow> \<not> f_is_nan fl a \<and> \<not> f_is_nan fl b \<and> rk a = rk b)
     \<and> \<not> f_is_nan fl (f_infinity fl) \<and> \<not> f_is_finite fl (f_infinity fl)
     \<and> (\<forall>a. f_is_finite fl a \<longrightarrow> \<not> f_is_nan fl a \<and> rk a < rk (f_infinity fl))"

text \<open>An interval heap holds a multiset, and pops an element with the least or the greatest key.\<close>

definition heap_laws :: "('q, 'c) heap \<Rightarrow> ('q \<Rightarrow> 'c multiset) \<Rightarrow> ('c \<Rightarrow> 'o::linorder) \<Rightarrow> bool" where
  "heap_laws hp m key \<longleftrightarrow> m (hp_new hp) = {#} \<and> (\<forall>c q. m (hp_push hp c q) = add_mset c (m q))
     \<and> (\<forall>q. hp_pop_min hp q = None \<longleftrightarrow> m q = {#}) \<and> (\<forall>q. hp_pop_max hp q = None \<longleftrightarrow> m q = {#})
     \<and> (\<forall>q c q'. hp_pop_min hp q = Some (c, q') \<longrightarrow> m q = add_mset c (m q') \<and> (\<forall>c' \<in># m q. key c \<le> key c'))
     \<and> (\<forall>q c q'. hp_pop_max hp q = Some (c, q') \<longrightarrow> m q = add_mset c (m q') \<and> (\<forall>c' \<in># m q. key c' \<le> key c))
     \<and> (\<forall>q. hp_max hp q = map_option fst (hp_pop_max hp q))"

lemmas f64_lawsD = f64_laws_def [THEN iffD1, THEN conjunct1, rule_format]
  f64_laws_def [THEN iffD1, THEN conjunct2, THEN conjunct1, rule_format]

lemma f_ge_iff: "f64_laws fl rk \<Longrightarrow> f_ge fl a b \<longleftrightarrow> \<not> f_is_nan fl a \<and> \<not> f_is_nan fl b \<and> rk b \<le> rk a"
  by (auto simp: f_ge_def f64_lawsD)

lemma infinity_laws:
  assumes "f64_laws fl rk"
  shows "\<not> f_is_nan fl (f_infinity fl)" "\<not> f_is_finite fl (f_infinity fl)"
    "f_is_finite fl a \<Longrightarrow> \<not> f_is_nan fl a \<and> rk a < rk (f_infinity fl)"
  using assms by (auto simp: f64_laws_def)

section \<open>Operations of the list\<close>

abbreviation elements :: "('q \<Rightarrow> 'c multiset) \<Rightarrow> ('q, 'f) candidate_list \<Rightarrow> 'c multiset" where
  "elements m l \<equiv> m (cl_queue l)"

text \<open>Inserting keeps the candidates below the cut, and drops the others.\<close>

lemma cl_insert_spec:
  assumes "heap_laws hp m key"
  shows "elements m (cl_insert fl hp c l) = (if f_less fl (cd_value c) (cl_cut l) then add_mset c (elements m l) else elements m l)"
    "cl_cut (cl_insert fl hp c l) = cl_cut l"
  using assms by (simp_all add: cl_insert_def cl_drop_def heap_laws_def Let_def)

lemma insert_many_spec:
  assumes "heap_laws hp m key"
  shows "elements m (insert_many fl hp cs l) = mset (filter (\<lambda>c. f_less fl (cd_value c) (cl_cut l)) cs) + elements m l"
    "cl_cut (insert_many fl hp cs l) = cl_cut l"
  unfolding insert_many_def
  by (induction cs arbitrary: l) (simp_all add: cl_insert_spec [OF assms])

lemma cl_pop_spec:
  assumes "heap_laws hp m key"
  shows "cl_pop hp l = None \<longleftrightarrow> elements m l = {#}"
    "cl_pop hp l = Some (c, l') \<Longrightarrow> elements m l = add_mset c (elements m l') \<and> cl_cut l' = cl_cut l"
  using assms by (auto simp: cl_pop_def heap_laws_def split: option.splits)

text \<open>The loop of \<^verbatim>\<open>update_cut\<close> ends, and keeps exactly the candidates whose bound is not above the cut.\<close>

lemma drop_above_spec:
  assumes fl: "f64_laws fl rk" and hp: "heap_laws hp m (\<lambda>c. rk (cd_value c))"
    and cut: "\<not> f_is_nan fl new_cut" and bounds: "\<forall>c \<in># elements m l. \<not> f_is_nan fl (cd_value c)"
  shows "\<exists>l'. drop_above fl hp new_cut l = Some l' \<and> elements m l' = filter_mset (\<lambda>c. rk (cd_value c) < rk new_cut) (elements m l)
    \<and> cl_cut l' = cl_cut l"
  using bounds
proof (induction "size (elements m l)" arbitrary: l rule: less_induct)
  case less
  let ?below = "\<lambda>c. rk (cd_value c) < rk new_cut"
  show ?case
  proof (cases "hp_pop_max hp (cl_queue l)")
    case None
    then have "elements m l = {#}" "hp_max hp (cl_queue l) = None" using hp by (auto simp: heap_laws_def)
    then show ?thesis by (subst drop_above.simps) simp
  next
    case (Some p)
    obtain x q where p: "p = (x, q)" by fastforce
    have x: "elements m l = add_mset x (m q)" "\<forall>c \<in># elements m l. rk (cd_value c) \<le> rk (cd_value x)" "hp_max hp (cl_queue l) = Some x"
      using hp Some p by (auto simp: heap_laws_def)
    show ?thesis
    proof (cases "rk new_cut \<le> rk (cd_value x)")
      case True
      then have ge: "f_ge fl (cd_value x) new_cut" using less.prems cut x(1) f_ge_iff [OF fl] by auto
      let ?l = "cl_drop (l\<lparr>cl_queue := q\<rparr>)"
      have "size (elements m ?l) < size (elements m l)" "\<forall>c \<in># elements m ?l. \<not> f_is_nan fl (cd_value c)"
        using x(1) less.prems by (simp_all add: cl_drop_def)
      then obtain l' where "drop_above fl hp new_cut ?l = Some l'" "elements m l' = filter_mset ?below (elements m ?l)" "cl_cut l' = cl_cut ?l"
        using less.hyps by blast
      moreover have "drop_above fl hp new_cut l = drop_above fl hp new_cut ?l"
        using ge x(3) Some p by (subst drop_above.simps) simp
      ultimately show ?thesis using x(1) True by (simp add: cl_drop_def)
    next
      case False
      then have "\<not> f_ge fl (cd_value x) new_cut" using f_ge_iff [OF fl] by auto
      then have "drop_above fl hp new_cut l = Some l" using x(3) by (subst drop_above.simps) simp
      moreover have "filter_mset ?below (elements m l) = elements m l"
        using x(2) False by (auto simp: filter_mset_eq_conv)
      ultimately show ?thesis by simp
    qed
  qed
qed

lemma update_cut_spec:
  assumes "f64_laws fl rk" "heap_laws hp m (\<lambda>c. rk (cd_value c))" "\<not> f_is_nan fl new_cut" "\<forall>c \<in># elements m l. \<not> f_is_nan fl (cd_value c)"
  shows "\<exists>l'. cl_update_cut fl hp new_cut l = Some l' \<and> elements m l' = filter_mset (\<lambda>c. rk (cd_value c) < rk new_cut) (elements m l)
    \<and> cl_cut l' = new_cut"
  using drop_above_spec [OF assms(1-3), of "l\<lparr>cl_cut := new_cut\<rparr>"] assms(4) by (simp add: cl_update_cut_def)

text \<open>Without assumptions on the bounds, the candidates that are left were in the list.\<close>

lemma update_cut_subset:
  assumes "heap_laws hp m key"
  shows "cl_update_cut fl hp new_cut l = Some l' \<Longrightarrow> elements m l' \<subseteq># elements m l"
proof -
  have "drop_above fl hp new_cut l = Some l' \<Longrightarrow> elements m l' \<subseteq># elements m l" for l l'
  proof (induction "size (elements m l)" arbitrary: l rule: less_induct)
    case less
    show ?case
    proof (cases "hp_pop_max hp (cl_queue l)")
      case None
      then have "hp_max hp (cl_queue l) = None" using assms by (auto simp: heap_laws_def)
      then show ?thesis using less.prems by (subst (asm) drop_above.simps) simp
    next
      case (Some p)
      obtain x q where p: "p = (x, q)" by fastforce
      have x: "elements m l = add_mset x (m q)" "hp_max hp (cl_queue l) = Some x"
        using assms Some p by (auto simp: heap_laws_def)
      let ?l = "cl_drop (l\<lparr>cl_queue := q\<rparr>)"
      have "l' = l \<or> drop_above fl hp new_cut ?l = Some l'"
        using less.prems x(2) Some p by (subst (asm) drop_above.simps) (auto split: if_splits)
      then show ?thesis using less.hyps [of ?l] x(1) by (auto simp: cl_drop_def intro: subset_mset.order_trans)
    qed
  qed
  then show "cl_update_cut fl hp new_cut l = Some l' \<Longrightarrow> elements m l' \<subseteq># elements m l"
    unfolding cl_update_cut_def by fastforce
qed

section \<open>The protocol of the workers\<close>

fun is_active :: "'c worker \<Rightarrow> bool" where
  "is_active W_Explore = True"
| "is_active (W_Expand _) = True"
| "is_active _ = False"

abbreviation count_active :: "'c worker list \<Rightarrow> nat" where
  "count_active ws \<equiv> length (filter is_active ws)"

definition workers_inv :: "('q \<Rightarrow> ('s, 'a, 'f) candidate multiset) \<Rightarrow> ('q, 's, 'a, 'f) explorer \<Rightarrow> bool" where
  "workers_inv m x \<longleftrightarrow> ex_active x = count_active (ex_workers x)
     \<and> (ex_active x = 0 \<longrightarrow> W_Waiting \<notin> set (ex_workers x))
     \<and> (W_Done \<in> set (ex_workers x) \<longrightarrow> ex_active x = 0 \<and> elements m (ex_list x) = {#})"

lemma count_active_update:
  "i < length ws \<Longrightarrow> count_active (ws[i := w]) + of_bool (is_active (ws ! i)) = count_active ws + of_bool (is_active w)"
proof (induction ws arbitrary: i)
  case (Cons v ws)
  then show ?case by (cases i) (auto simp: of_bool_def)
qed simp

lemma notify_all_spec:
  "count_active (notify_all ws) = count_active ws" "W_Waiting \<notin> set (notify_all ws)"
  "W_Done \<in> set (notify_all ws) \<longleftrightarrow> W_Done \<in> set ws" "W_Expand c \<in> set (notify_all ws) \<longleftrightarrow> W_Expand c \<in> set ws"
  by (induction ws) (auto simp: notify_all_def split: worker.splits)

lemma active_worker: "i < length ws \<Longrightarrow> is_active (ws ! i) \<Longrightarrow> count_active ws \<noteq> 0"
  by (auto simp: filter_empty_conv)

lemma pop_inv:
  assumes hp: "heap_laws hp m key" and inv: "workers_inv m x" and i: "i < length (ex_workers x)"
    and n: "pop_counter (ex_workers x ! i) (ex_active x) = Some n" and r: "pop_attempt hp (ex_list x) n = Some (r, l, n')"
  shows "workers_inv m (x\<lparr>ex_list := l, ex_active := n', ex_workers := after_pop i r (ex_workers x)\<rparr>)"
proof -
  let ?ws = "ex_workers x" and ?w = "ex_workers x ! i"
  have count: "count_active (?ws[i := w]) + of_bool (is_active ?w) = count_active ?ws + of_bool (is_active w)" for w
    by (rule count_active_update [OF i])
  have n': "n = count_active ?ws + (1 - of_bool (is_active ?w))" "?w \<noteq> W_Done" "\<And>c. ?w \<noteq> W_Expand c"
    using n inv by (auto simp: pop_counter_def workers_inv_def split: worker.splits)
  have fin: "W_Done \<in> set (?ws[i := w]) \<longleftrightarrow> W_Done \<in> set ?ws \<or> w = W_Done" for w
    using i n'(2) by (auto simp: in_set_conv_nth nth_list_update)
  show ?thesis
  proof (cases "cl_pop hp (ex_list x)")
    case (Some p)
    obtain c q where p: "p = (c, q)" by fastforce
    have res: "r = Popped c" "l = q" "n' = n" using r Some p by (auto simp: pop_attempt_def)
    have "elements m (ex_list x) \<noteq> {#}" using cl_pop_spec(1) [OF hp, of "ex_list x"] Some by auto
    then have "W_Done \<notin> set ?ws" using inv by (auto simp: workers_inv_def)
    moreover have "count_active (?ws[i := W_Expand c]) = n" using count [of "W_Expand c"] n'(1) by (cases "is_active ?w") simp_all
    moreover have "count_active (?ws[i := W_Expand c]) \<noteq> 0" by (rule active_worker [of i]) (simp_all add: i)
    ultimately show ?thesis using fin [of "W_Expand c"] unfolding workers_inv_def res by simp
  next
    case None
    have empty: "elements m (ex_list x) = {#}" using cl_pop_spec(1) [OF hp, of "ex_list x"] None by simp
    show ?thesis
    proof (cases "n = 1")
      case True
      have res: "r = Ended" "l = ex_list x" "n' = 0" using r None True by (auto simp: pop_attempt_def)
      have "count_active (?ws[i := W_Done]) = 0" using count [of W_Done] n'(1) True by (cases "is_active ?w") (simp_all del: length_0_conv)
      then show ?thesis using empty unfolding workers_inv_def res by (simp add: notify_all_spec)
    next
      case False
      have res: "r = Blocked" "l = ex_list x" "n' = n - 1" "n \<noteq> 0" using r None False by (auto simp: pop_attempt_def split: if_splits)
      have "W_Done \<notin> set ?ws" using inv False res(4) n n'(1) by (auto simp: workers_inv_def pop_counter_def split: worker.splits)
      then show ?thesis using count [of W_Waiting] n'(1) False res(4) fin [of W_Waiting]
        by (cases "is_active ?w") (auto simp: workers_inv_def res)
    qed
  qed
qed

lemma expand_inv:
  assumes "workers_inv m x" "i < length (ex_workers x)" "ex_workers x ! i = W_Expand c"
  shows "workers_inv m (x\<lparr>ex_list := l, ex_workers := notify_all ((ex_workers x)[i := W_Explore])\<rparr>)"
    "workers_inv m (x\<lparr>ex_pending := p, ex_workers := (ex_workers x)[i := W_Explore]\<rparr>)"
proof -
  have active: "ex_active x \<noteq> 0" using assms active_worker [OF assms(2)] by (simp add: workers_inv_def)
  have "W_Done \<notin> set (ex_workers x)" using assms(1) active by (auto simp: workers_inv_def)
  then have "W_Done \<notin> set ((ex_workers x)[i := W_Explore])" using set_update_subset_insert by fastforce
  moreover have "count_active ((ex_workers x)[i := W_Explore]) = count_active (ex_workers x)"
    using count_active_update [OF assms(2), of W_Explore] assms(3) by simp
  ultimately show "workers_inv m (x\<lparr>ex_list := l, ex_workers := notify_all ((ex_workers x)[i := W_Explore])\<rparr>)"
    "workers_inv m (x\<lparr>ex_pending := p, ex_workers := (ex_workers x)[i := W_Explore]\<rparr>)"
    using assms(1) active by (simp_all add: workers_inv_def notify_all_spec)
qed

lemma workers_inv_list:
  assumes "workers_inv m x" "elements m l \<subseteq># elements m (ex_list x)"
    and "ex_active x' = ex_active x" "ex_workers x' = ex_workers x" "ex_list x' = l"
  shows "workers_inv m x'"
  using assms by (auto simp: workers_inv_def)

lemma handle_message_subset:
  assumes "heap_laws hp m key" "handle_message fl hp cfg msg st l = Some (stop, st', l')"
  shows "elements m l' \<subseteq># elements m l"
  using assms(2) update_cut_subset [OF assms(1)]
  by (auto simp: handle_message_def bind_eq_Some_conv Let_def split: prod.splits if_splits)

lemma step_workers_inv:
  assumes "heap_laws hp m key" "explore_step fl hp sp cfg x x'" "workers_inv m x"
  shows "workers_inv m x'"
  using assms(2)
proof (cases rule: explore_step.cases)
  case (step_pop i n r l n')
  then show ?thesis using pop_inv [OF assms(1,3)] by simp
next
  case (step_expand i c choice)
  then show ?thesis using expand_inv(1) [OF assms(3)] by simp
next
  case (step_leaf i c space)
  then show ?thesis using expand_inv(2) [OF assms(3)] by simp
next
  case (step_eval us leaf vs eval best)
  show ?thesis unfolding step_eval(1) by (rule workers_inv_list [OF assms(3)]) simp_all
next
  case (step_monitor m' ms st l)
  then show ?thesis using workers_inv_list [OF assms(3) handle_message_subset [OF assms(1)]] by simp
next
  case (step_max_evaluations m' ms st l l')
  have "elements m l' \<subseteq># elements m (ex_list x)"
    using handle_message_subset [OF assms(1) step_max_evaluations(4)] update_cut_subset [OF assms(1) step_max_evaluations(5)]
    by (rule subset_mset.order_trans [rotated])
  then show ?thesis using workers_inv_list [OF assms(3)] step_max_evaluations(1) by simp
next
  case (step_timeout l')
  then show ?thesis using workers_inv_list [OF assms(3) update_cut_subset [OF assms(1)]] by simp
qed

lemma explored_workers_inv:
  assumes "heap_laws hp m key" "explored fl hp sp cfg (explorer_start fl hp n cs) x"
  shows "workers_inv m x"
  using assms(2)
proof induction
  case explored_start
  show ?case by (simp add: workers_inv_def explorer_start_def)
next
  case (explored_step x x')
  then show ?case using step_workers_inv [OF assms(1)] by blast
qed

text \<open>A worker that is active or has been woken can take its turn; some worker can, unless all have ended.\<close>

definition can_run :: "('q, 'c) heap \<Rightarrow> ('q, 'f) candidate_list \<Rightarrow> nat \<Rightarrow> 'c worker \<Rightarrow> bool" where
  "can_run hp l n w \<longleftrightarrow> (\<exists>c. w = W_Expand c) \<or> w \<noteq> W_Waiting \<and> (\<exists>k. pop_counter w n = Some k \<and> pop_attempt hp l k \<noteq> None)"

lemma active_counted: "workers_inv m x \<Longrightarrow> w \<in> set (ex_workers x) \<Longrightarrow> is_active w \<Longrightarrow> ex_active x \<noteq> 0"
  by (auto simp: workers_inv_def in_set_conv_nth dest: active_worker)

lemma worker_can_run:
  assumes "workers_inv m x" "w \<in> set (ex_workers x)" "w \<noteq> W_Waiting" "w \<noteq> W_Done"
  shows "can_run hp (ex_list x) (ex_active x) w"
proof -
  have "ex_active x \<noteq> 0" if "w = W_Explore"
    using active_counted [OF assms(1,2)] that by simp
  then show ?thesis using assms(3,4)
    by (cases w) (auto simp: can_run_def pop_counter_def pop_attempt_def split: option.splits)
qed

lemma some_worker_runs:
  assumes "workers_inv m x" "\<exists>w \<in> set (ex_workers x). w \<noteq> W_Done"
  shows "\<exists>w \<in> set (ex_workers x). w \<noteq> W_Waiting \<and> w \<noteq> W_Done"
proof (cases "ex_active x = 0")
  case True
  then have "W_Waiting \<notin> set (ex_workers x)" using assms(1) by (simp add: workers_inv_def)
  then show ?thesis using assms(2) by metis
next
  case False
  then obtain w where "w \<in> set (ex_workers x)" "is_active w" using assms(1) by (auto simp: workers_inv_def filter_empty_conv)
  then have "w \<noteq> W_Waiting" "w \<noteq> W_Done" by auto
  then show ?thesis using \<open>w \<in> set (ex_workers x)\<close> by blast
qed

section \<open>An exploration\<close>

text \<open>A heap as a list, and the exploration of a space with one choice by one worker: the second alternative is cut off by its bound.\<close>

fun pop_by :: "('c \<Rightarrow> 'c \<Rightarrow> bool) \<Rightarrow> 'c list \<Rightarrow> ('c \<times> 'c list) option" where
  "pop_by le [] = None"
| "pop_by le (x # xs) = (case pop_by le xs of None \<Rightarrow> Some (x, []) | Some (y, ys) \<Rightarrow> if le x y then Some (x, xs) else Some (y, x # ys))"

definition list_heap :: "('c \<Rightarrow> 'o::linorder) \<Rightarrow> ('c list, 'c) heap" where
  "list_heap key = \<lparr>hp_new = [], hp_push = Cons, hp_pop_min = pop_by (\<lambda>a b. key a \<le> key b), hp_pop_max = pop_by (\<lambda>a b. key b \<le> key a),
     hp_max = (\<lambda>q. map_option fst (pop_by (\<lambda>a b. key b \<le> key a) q))\<rparr>"

lemma pop_by_None: "pop_by le q = None \<longleftrightarrow> q = []"
  by (cases q) (auto split: option.splits)

lemma pop_by_Some:
  assumes "\<And>a b c. le a b \<Longrightarrow> le b c \<Longrightarrow> le a c" "\<And>a b. le a b \<or> le b a"
  shows "pop_by le q = Some (c, q') \<Longrightarrow> mset q = add_mset c (mset q') \<and> (\<forall>c' \<in> set q. le c c')"
proof (induction q arbitrary: c q')
  case (Cons x xs)
  have "le c c" for c using assms(2) by blast
  then show ?case
  proof (cases "pop_by le xs")
    case (Some p)
    obtain y ys where p: "p = (y, ys)" by fastforce
    have xs: "mset xs = add_mset y (mset ys)" "\<forall>c \<in> set xs. le y c" using Cons.IH Some p by auto
    show ?thesis
    proof (cases "le x y")
      case True
      then have "\<forall>c \<in> set (x # xs). le x c" using xs(2) \<open>le x x\<close> by (auto intro: assms(1))
      then show ?thesis using Cons.prems Some p True by simp
    next
      case False
      then have "\<forall>c \<in> set (x # xs). le y c" using xs(2) assms(2) by auto
      then show ?thesis using Cons.prems Some p False xs(1) by auto
    qed
  qed (use Cons.prems in \<open>auto simp: pop_by_None\<close>)
qed simp

lemma pop_by_key:
  assumes "pop_by (\<lambda>a b. (if up then key a \<le> key b else key b \<le> key a)) q = Some (c, q')"
  shows "mset q = add_mset c (mset q') \<and> (\<forall>c' \<in> set q. if up then key c \<le> key c' else key c' \<le> (key c :: 'o::linorder))"
  by (rule pop_by_Some [OF _ _ assms]) (auto split: if_splits)

lemma list_heap_laws: "heap_laws (list_heap key) mset key"
proof -
  note pops = pop_by_key [of True key, simplified] pop_by_key [of False key, simplified]
  show ?thesis unfolding heap_laws_def list_heap_def
    by (simp add: pop_by_None) (intro conjI allI impI; drule pops; blast)
qed

lemma int_ops_laws: "f64_laws int_ops id"
  by (auto simp: f64_laws_def int_ops_def)


definition example_search :: "(bool list, bool, int, bool list) search" where
  "example_search = \<lparr>sp_choices = (\<lambda>s. if s = [] then [[False, True]] else []), sp_apply = (\<lambda>a s. if s = [] then Some [a] else None),
     sp_bound = (\<lambda>s. Explained (if s = [] then 2 else if hd s then 3 else 4) 0 Or_Latency), sp_fix_order = Some, sp_kernel = id,
     sp_run = (\<lambda>k. (Some (if k = [True] then 3 else 5), k)), sp_check = (\<lambda>s. s \<noteq> [])\<rparr>"

definition example_config :: "int config" where
  "example_config = \<lparr>cf_stop_bound = None, cf_distance_to_best = None, cf_max_evaluations = None, cf_timeout = False, cf_check_all = True,
     cf_check_result = True, cf_stabilizer = \<lparr>skip_bad_candidates = True, skip_threshold = 3, st_num_evals = 40, num_outliers = 8\<rparr>,
     cf_limit = 1000000000\<rparr>"

definition example_start :: "((bool list, bool, int) candidate list, bool list, bool, int) explorer" where
  "example_start = explorer_start int_ops (list_heap (\<lambda>c. id (cd_value c))) 1 [cd_new [] (sp_bound example_search [])]"

definition example_leaf :: "(bool list, bool, int) candidate" where
  "example_leaf = \<lparr>cd_space = [True], cd_bound = Explained 3 0 Or_Latency, cd_depth = 1, cd_actions = [True]\<rparr>"

definition example_end :: "((bool list, bool, int) candidate list, bool list, bool, int) explorer" where
  "example_end = \<lparr>ex_list = \<lparr>cl_cut = 3, cl_queue = [], n_leaf = 0, n_candidate = 3, n_dropped = 1\<rparr>, ex_active = 0, ex_workers = [W_Done],
     ex_pending = [], ex_best = Some 3, ex_channel = [],
     ex_status = \<lparr>best_candidate = Some (example_leaf, 3), num_evaluations = 1\<rparr>, ex_stopped = False\<rparr>"

abbreviation example_step :: "((bool list, bool, int) candidate list, bool list, bool, int) explorer \<Rightarrow> ((bool list, bool, int) candidate list, bool list, bool, int) explorer \<Rightarrow> bool" where
  "example_step \<equiv> explore_step int_ops (list_heap (\<lambda>c. id (cd_value c))) example_search example_config"

lemmas example_defs = example_search_def example_config_def example_leaf_def example_end_def example_start_def explorer_start_def
  cd_new_def cd_with_actions_def cl_new_def int_ops_def list_heap_def insert_many_def cl_insert_def cl_drop_def pop_counter_def
  pop_attempt_def cl_pop_def notify_all_def next_choice_def apply_choice_def apply_decision_def ok_result_def map_filter_def
  eval_callback_def stable_evaluate_def f_ge_def is_better_def handle_message_def get_new_cut_def cl_update_cut_def

lemma explore_stepI:
  "i < length (ex_workers x) \<Longrightarrow> pop_counter (ex_workers x ! i) (ex_active x) = Some n \<Longrightarrow> pop_attempt hp (ex_list x) n = Some (r, l, n')
    \<Longrightarrow> x' = x\<lparr>ex_list := l, ex_active := n', ex_workers := after_pop i r (ex_workers x)\<rparr> \<Longrightarrow> explore_step fl hp sp cfg x x'"
  "i < length (ex_workers x) \<Longrightarrow> ex_workers x ! i = W_Expand c \<Longrightarrow> next_choice sp (cd_space c) = Some choice
    \<Longrightarrow> x' = x\<lparr>ex_list := insert_many fl hp (apply_choice sp choice c) (ex_list x), ex_workers := notify_all ((ex_workers x)[i := W_Explore])\<rparr>
    \<Longrightarrow> explore_step fl hp sp cfg x x'"
  "i < length (ex_workers x) \<Longrightarrow> ex_workers x ! i = W_Expand c \<Longrightarrow> next_choice sp (cd_space c) = None
    \<Longrightarrow> sp_fix_order sp (cd_space c) = Some space
    \<Longrightarrow> x' = x\<lparr>ex_pending := ex_pending x @ [c\<lparr>cd_space := space\<rparr>], ex_workers := (ex_workers x)[i := W_Explore]\<rparr>
    \<Longrightarrow> explore_step fl hp sp cfg x x'"
  "ex_pending x = us @ leaf # vs \<Longrightarrow> eval_callback fl sp cfg leaf (ex_best x) = Some (eval, best)
    \<Longrightarrow> x' = x\<lparr>ex_pending := us @ vs, ex_best := best, ex_channel := (if ex_stopped x then ex_channel x else ex_channel x @ [(leaf, eval)])\<rparr>
    \<Longrightarrow> explore_step fl hp sp cfg x x'"
  "\<not> ex_stopped x \<Longrightarrow> ex_channel x = msg # ms \<Longrightarrow> handle_message fl hp cfg msg (ex_status x) (ex_list x) = Some (False, st, l)
    \<Longrightarrow> x' = x\<lparr>ex_channel := ms, ex_status := st, ex_list := l\<rparr> \<Longrightarrow> explore_step fl hp sp cfg x x'"
  by (hypsubst, rule step_pop, assumption+) (hypsubst, rule step_expand, assumption+, hypsubst, rule step_leaf, assumption+,
    hypsubst, rule step_eval, assumption+, hypsubst, rule step_monitor, assumption+)

lemma explored_example: "explored int_ops (list_heap (\<lambda>c. id (cd_value c))) example_search example_config example_start example_end"
proof -
  let ?root = "\<lparr>cd_space = [], cd_bound = Explained 2 0 Or_Latency, cd_depth = 0, cd_actions = []\<rparr> :: (bool list, bool, int) candidate"
  let ?other = "\<lparr>cd_space = [False], cd_bound = Explained 4 0 Or_Latency, cd_depth = 1, cd_actions = [False]\<rparr> :: (bool list, bool, int) candidate"
  have s0: "example_start = \<lparr>ex_list = \<lparr>cl_cut = 1000000, cl_queue = [?root], n_leaf = 0, n_candidate = 1, n_dropped = 0\<rparr>, ex_active = 1,
     ex_workers = [W_Explore], ex_pending = [], ex_best = None, ex_channel = [], ex_status = \<lparr>best_candidate = None, num_evaluations = 0\<rparr>,
     ex_stopped = False\<rparr>" (is "_ = ?s0")
    by (simp add: example_defs)
  let ?s1 = "?s0\<lparr>ex_list := \<lparr>cl_cut = 1000000, cl_queue = [], n_leaf = 0, n_candidate = 1, n_dropped = 0\<rparr>, ex_workers := [W_Expand ?root]\<rparr>"
  have s1: "example_step ?s0 ?s1" by (rule explore_stepI(1) [where i = 0 and n = 1 and n' = 1 and r = "Popped ?root" and l = "ex_list ?s1"]) (simp_all add: example_defs)
  let ?s2 = "?s0\<lparr>ex_list := \<lparr>cl_cut = 1000000, cl_queue = [example_leaf, ?other], n_leaf = 0, n_candidate = 3, n_dropped = 0\<rparr>, ex_workers := [W_Explore]\<rparr>"
  have s2: "example_step ?s1 ?s2" by (rule explore_stepI(2) [where i = 0 and c = ?root and choice = "[False, True]"]) (simp_all add: example_defs)
  let ?s3 = "?s0\<lparr>ex_list := \<lparr>cl_cut = 1000000, cl_queue = [?other], n_leaf = 0, n_candidate = 3, n_dropped = 0\<rparr>, ex_workers := [W_Expand example_leaf]\<rparr>"
  have s3: "example_step ?s2 ?s3" by (rule explore_stepI(1) [where i = 0 and n = 1 and n' = 1 and r = "Popped example_leaf" and l = "ex_list ?s3"]) (simp_all add: example_defs)
  let ?s4 = "?s3\<lparr>ex_pending := [example_leaf], ex_workers := [W_Explore]\<rparr>"
  have s4: "example_step ?s3 ?s4" by (rule explore_stepI(3) [where i = 0 and c = example_leaf and space = "[True]"]) (simp_all add: example_defs)
  let ?s5 = "?s4\<lparr>ex_pending := [], ex_best := Some 3, ex_channel := [(example_leaf, 3)]\<rparr>"
  have s5: "example_step ?s4 ?s5" by (rule explore_stepI(4) [where us = "[]" and vs = "[]" and leaf = example_leaf and eval = 3 and best = "Some 3"]) (simp_all add: example_defs)
  let ?s6 = "example_end\<lparr>ex_active := 1, ex_workers := [W_Explore]\<rparr>"
  have s6: "example_step ?s5 ?s6" by (rule explore_stepI(5) [where msg = "(example_leaf, 3)" and ms = "[]" and st = "ex_status example_end" and l = "ex_list example_end"])
      (simp_all add: example_defs drop_above.simps)
  have s7: "example_step ?s6 example_end" by (rule explore_stepI(1) [where i = 0 and n = 1 and n' = 0 and r = Ended and l = "ex_list example_end"]) (simp_all add: example_defs)
  show ?thesis unfolding s0 by (intro explored_step [OF _ s7] explored_step [OF _ s6] explored_step [OF _ s5] explored_step [OF _ s4]
        explored_step [OF _ s3] explored_step [OF _ s2] explored_step [OF _ s1] explored_start)
qed

section \<open>Property\<close>

text \<open>C11: In every state that the threads reach, the counter of the shared list is the number of the workers that are not blocked, so
  that it never underflows; while some worker has not ended, some worker can run without waiting for a notification; and once
  a worker has ended, no candidate is left in the list, none is being expanded, and every other worker has ended or has been woken up.\<close>
theorem workers_end_together:
  assumes "heap_laws hp m key" "explored fl hp sp cfg (explorer_start fl hp n cs) x"
  shows "ex_active x = count_active (ex_workers x)
    \<and> ((\<exists>w \<in> set (ex_workers x). w \<noteq> W_Done) \<longrightarrow> (\<exists>w \<in> set (ex_workers x). can_run hp (ex_list x) (ex_active x) w))
    \<and> (W_Done \<in> set (ex_workers x) \<longrightarrow> m (cl_queue (ex_list x)) = {#} \<and> set (ex_workers x) \<subseteq> {W_Done, W_Woken})"
proof -
  have inv: "workers_inv m x" by (rule explored_workers_inv [OF assms])
  have ended: "w = W_Done \<or> w = W_Woken" if "W_Done \<in> set (ex_workers x)" "w \<in> set (ex_workers x)" for w
  proof -
    have "ex_active x = 0" "W_Waiting \<notin> set (ex_workers x)" using inv that(1) by (auto simp: workers_inv_def)
    then show ?thesis using active_counted [OF inv that(2)] that(2) by (cases w) auto
  qed
  show ?thesis
  proof (intro conjI impI)
    show "ex_active x = count_active (ex_workers x)" using inv by (simp add: workers_inv_def)
    show "\<exists>w \<in> set (ex_workers x). can_run hp (ex_list x) (ex_active x) w" if "\<exists>w \<in> set (ex_workers x). w \<noteq> W_Done"
      using some_worker_runs [OF inv that] worker_can_run [OF inv] by blast
    show "m (cl_queue (ex_list x)) = {#}" if "W_Done \<in> set (ex_workers x)" using inv that by (simp add: workers_inv_def)
    show "set (ex_workers x) \<subseteq> {W_Done, W_Woken}" if "W_Done \<in> set (ex_workers x)" using ended [OF that] by blast
  qed
qed

theorem workers_end_together_witness:
  "ex_active example_end = 0 \<and> W_Done \<in> set (ex_workers example_end) \<and> set (ex_workers example_end) \<subseteq> {W_Done, W_Woken}"
  using workers_end_together [OF list_heap_laws explored_example [unfolded example_start_def]] by (simp add: example_end_def)

end
