(* ===== verification/Explorer_Optimal.thy ===== *)
theory Explorer_Optimal
  imports Explorer_Correct
begin

text \<open>
  The result of the exploration. The monitor sees the evaluations in the order in which they are made, while the callback compares
  them with the best evaluation so far; the value \<open>last_best\<close>, the best evaluation once all the messages in the channel are
  handled, relates the two. It shows that a finite evaluation that becomes the best one was checked, and that every
  implementation that is no longer to be explored is matched by an evaluation that is at least as good.
\<close>

section \<open>Messages\<close>

definition last_best :: "'f f64_ops \<Rightarrow> 'f option \<Rightarrow> ('c \<times> 'f) list \<Rightarrow> 'f option" where
  "last_best fl v ms = fold (\<lambda>(_, e) v. if is_better fl e v then Some e else v) ms v"

lemma last_best_simps [simp]:
  "last_best fl v [] = v"
  "last_best fl v ((c, e) # ms) = last_best fl (if is_better fl e v then Some e else v) ms"
  "last_best fl v (ms @ [(c, e)]) = (if is_better fl e (last_best fl v ms) then Some e else last_best fl v ms)"
  by (simp_all add: last_best_def)

lemma last_best_le:
  assumes "f64_laws fl rk" "\<not> f_is_nan fl e" "\<forall>m \<in> set ms. \<not> f_is_nan fl (snd m)"
  shows "\<exists>v. last_best fl (Some e) ms = Some v \<and> \<not> f_is_nan fl v \<and> rk v \<le> rk e"
  using assms(3)
proof (induction ms rule: rev_induct)
  case (snoc m ms)
  then obtain v where v: "last_best fl (Some e) ms = Some v" "\<not> f_is_nan fl v" "rk v \<le> rk e" by auto
  obtain c e' where "m = (c, e')" by fastforce
  then show ?case using v snoc.prems f64_lawsD(1) [OF assms(1)] by (auto simp: is_better_def)
qed (use assms(2) in simp)

text \<open>The status after a message.\<close>

lemma handle_message_status:
  assumes "handle_message fl hp cfg (c, e) st l = Some (stop, st', l')"
  shows "best_candidate st' = (if is_better fl e (map_option snd (best_candidate st)) then Some (c, e) else best_candidate st)"
    "map_option snd (best_candidate st') = (if is_better fl e (map_option snd (best_candidate st)) then Some e
      else map_option snd (best_candidate st))"
  using assms by (auto simp: handle_message_def bind_eq_Some_conv Let_def split: if_splits)

section \<open>The best candidate was checked\<close>

fun msgs_checked :: "'f f64_ops \<Rightarrow> (('s, 'a, 'f) candidate \<Rightarrow> bool) \<Rightarrow> 'f option \<Rightarrow> (('s, 'a, 'f) candidate \<times> 'f) list \<Rightarrow> bool" where
  "msgs_checked fl ok v [] = True"
| "msgs_checked fl ok v ((c, e) # ms) =
     ((f_is_finite fl e \<and> is_better fl e v \<longrightarrow> ok c) \<and> msgs_checked fl ok (if is_better fl e v then Some e else v) ms)"

lemma msgs_checked_append:
  "msgs_checked fl ok v (ms @ [(c, e)]) \<longleftrightarrow> msgs_checked fl ok v ms \<and> (f_is_finite fl e \<and> is_better fl e (last_best fl v ms) \<longrightarrow> ok c)"
  by (induction fl ok v ms rule: msgs_checked.induct) auto

definition best_below :: "'f f64_ops \<Rightarrow> 'f option \<Rightarrow> 'f option \<Rightarrow> bool" where
  "best_below fl v b \<longleftrightarrow> (\<forall>e. f_is_finite fl e \<and> is_better fl e v \<longrightarrow> is_better fl e b)"

lemma best_below_update:
  assumes "f64_laws fl rk" "best_below fl v b"
  shows "best_below fl (if is_better fl e v then Some e else v) (if f_is_finite fl e \<and> is_better fl e b then Some e else b)"
  unfolding best_below_def
proof (intro allI impI)
  fix e2 assume e2: "f_is_finite fl e2 \<and> is_better fl e2 (if is_better fl e v then Some e else v)"
  note less = f64_lawsD(1) [OF assms(1)]
  have v: "is_better fl e2 v" using e2 less by (auto simp: is_better_def split: if_splits option.splits)
  then have b: "is_better fl e2 b" using e2 assms(2) by (simp add: best_below_def)
  have "is_better fl e2 (Some e)" if "f_is_finite fl e" "is_better fl e b"
    using e2 that infinity_laws(3) [OF assms(1)] less by (auto simp: is_better_def split: if_splits option.splits)
  then show "is_better fl e2 (if f_is_finite fl e \<and> is_better fl e b then Some e else b)" using b by simp
qed

definition checked_inv :: "'f f64_ops \<Rightarrow> (('s, 'a, 'f) candidate \<Rightarrow> bool) \<Rightarrow> ('q, 's, 'a, 'f) explorer \<Rightarrow> bool" where
  "checked_inv fl ok x \<longleftrightarrow> (\<forall>c e. best_candidate (ex_status x) = Some (c, e) \<and> f_is_finite fl e \<longrightarrow> ok c)
     \<and> (\<not> ex_stopped x \<longrightarrow> (let v = map_option snd (best_candidate (ex_status x)) in
          msgs_checked fl ok v (ex_channel x) \<and> best_below fl (last_best fl v (ex_channel x)) (ex_best x)))"

lemma eval_callback_best:
  assumes "eval_callback fl sp cfg leaf best = Some (e, best')"
  shows "best' = (if f_is_finite fl e \<and> is_better fl e best then Some e else best)"
    "\<not> f_is_finite fl (f_infinity fl) \<Longrightarrow> f_is_finite fl e \<Longrightarrow> is_better fl e best \<Longrightarrow> cf_check_result cfg \<longrightarrow> sp_check sp (cd_space leaf)"
  using assms by (auto simp: eval_callback_def bind_eq_Some_conv Let_def split: if_splits)

lemma step_checked_inv:
  assumes fl: "f64_laws fl rk" and step: "explore_step fl hp sp cfg x x'"
    and inv: "checked_inv fl (\<lambda>c. cf_check_result cfg \<longrightarrow> sp_check sp (cd_space c)) x"
  shows "checked_inv fl (\<lambda>c. cf_check_result cfg \<longrightarrow> sp_check sp (cd_space c)) x'"
  using step
proof (cases rule: explore_step.cases)
  case (step_eval us leaf vs eval best)
  note cb = eval_callback_best [OF step_eval(3)]
  let ?v = "last_best fl (map_option snd (best_candidate (ex_status x))) (ex_channel x)"
  show ?thesis
  proof (cases "ex_stopped x")
    case False
    then have below: "best_below fl ?v (ex_best x)" using inv by (simp add: checked_inv_def Let_def)
    have "f_is_finite fl eval \<Longrightarrow> is_better fl eval ?v \<Longrightarrow> cf_check_result cfg \<longrightarrow> sp_check sp (cd_space leaf)"
      using cb(2) [OF infinity_laws(2) [OF fl]] below by (auto simp: best_below_def)
    moreover have "best_below fl (if is_better fl eval ?v then Some eval else ?v) best"
      unfolding cb(1) by (rule best_below_update [OF fl below])
    ultimately show ?thesis using inv False unfolding step_eval(1)
      by (auto simp: checked_inv_def Let_def msgs_checked_append)
  qed (use inv step_eval in \<open>simp add: checked_inv_def\<close>)
next
  case (step_monitor m ms st l)
  obtain c e where m: "m = (c, e)" by fastforce
  note st = handle_message_status [OF step_monitor(4) [unfolded m]]
  show ?thesis using inv step_monitor(1-3) st unfolding checked_inv_def Let_def m by (auto split: if_splits)
next
  case (step_max_evaluations m ms st l l')
  obtain c e where m: "m = (c, e)" by fastforce
  note st = handle_message_status [OF step_max_evaluations(4) [unfolded m]]
  show ?thesis using inv step_max_evaluations(1-3) st unfolding checked_inv_def Let_def m by (auto split: if_splits)
qed (use inv in \<open>simp_all add: checked_inv_def Let_def\<close>)

lemma explored_checked_inv:
  assumes "f64_laws fl rk" "explored fl hp sp cfg (explorer_start fl hp n cs) x"
  shows "checked_inv fl (\<lambda>c. cf_check_result cfg \<longrightarrow> sp_check sp (cd_space c)) x"
  using assms(2)
proof induction
  case explored_start
  show ?case by (simp add: checked_inv_def explorer_start_def best_below_def is_better_def)
next
  case (explored_step x x')
  then show ?case using step_checked_inv [OF assms(1)] by blast
qed

section \<open>The exploration is exhaustive\<close>

text \<open>The implementations below a space.\<close>

inductive leaf_of :: "('s, 'a, 'f, 'k) search \<Rightarrow> 's \<Rightarrow> 's \<Rightarrow> bool" for sp :: "('s, 'a, 'f, 'k) search" where
  leaf_here: "next_choice sp s = None \<Longrightarrow> sp_fix_order sp s = Some l \<Longrightarrow> leaf_of sp s l"
| leaf_below: "next_choice sp s = Some choice \<Longrightarrow> a \<in> set choice \<Longrightarrow> sp_apply sp a s = Some s' \<Longrightarrow> leaf_of sp s' l \<Longrightarrow> leaf_of sp s l"

inductive_cases leaf_ofE: "leaf_of sp s l"

text \<open>
  What the exploration relies on: bounds are not nan, the bound of a space is below the time of every implementation of the space,
  times are neither nan nor negative, and multiplication with the threshold of the stabilizer does not make a time smaller.
\<close>

definition sound_search :: "'f f64_ops \<Rightarrow> ('f \<Rightarrow> 'o::linorder) \<Rightarrow> ('s, 'a, 'f, 'k) search \<Rightarrow> 'f \<Rightarrow> bool" where
  "sound_search fl rk sp threshold \<longleftrightarrow> (\<forall>s. \<not> f_is_nan fl (ex_value (sp_bound sp s)))
     \<and> (\<forall>s l t k. leaf_of sp s l \<and> sp_run sp (sp_kernel sp l) = (Some t, k)
          \<longrightarrow> \<not> f_is_nan fl t \<and> rk (f_zero fl) \<le> rk t \<and> rk (ex_value (sp_bound sp s)) \<le> rk t)
     \<and> (\<forall>t. \<not> f_is_nan fl t \<and> rk (f_zero fl) \<le> rk t \<longrightarrow> f_ge fl (f_mul fl t threshold) t)"

lemmas sound_searchD = sound_search_def [THEN iffD1, THEN conjunct1, rule_format]
  sound_search_def [THEN iffD1, THEN conjunct2, THEN conjunct1, rule_format, OF _ conjI]
  sound_search_def [THEN iffD1, THEN conjunct2, THEN conjunct2, rule_format, OF _ conjI]

definition exhaustive :: "'f config \<Rightarrow> bool" where
  "exhaustive cfg \<longleftrightarrow> cf_stop_bound cfg = None \<and> cf_distance_to_best cfg = None \<and> cf_max_evaluations cfg = None \<and> \<not> cf_timeout cfg"

definition implementation :: "('s, 'a, 'f, 'k) search \<Rightarrow> ('s, 'a, 'f) candidate list \<Rightarrow> 's \<Rightarrow> bool" where
  "implementation sp cs l \<longleftrightarrow> (\<exists>c \<in> set cs. leaf_of sp (cd_space c) l)"

text \<open>Candidates still to be explored, and candidates to be evaluated.\<close>

definition open_ok :: "('s, 'a, 'f, 'k) search \<Rightarrow> ('s, 'a, 'f) candidate list \<Rightarrow> ('s, 'a, 'f) candidate \<Rightarrow> bool" where
  "open_ok sp cs c \<longleftrightarrow> cd_bound c = sp_bound sp (cd_space c) \<and> (\<forall>l. leaf_of sp (cd_space c) l \<longrightarrow> implementation sp cs l)"

definition pending_ok :: "('s, 'a, 'f, 'k) search \<Rightarrow> ('s, 'a, 'f) candidate list \<Rightarrow> ('s, 'a, 'f) candidate \<Rightarrow> bool" where
  "pending_ok sp cs c \<longleftrightarrow> implementation sp cs (cd_space c) \<and> (\<exists>s. leaf_of sp s (cd_space c) \<and> cd_bound c = sp_bound sp s)"

text \<open>An evaluation other than infinity is the time of an implementation.\<close>

definition eval_ok :: "'f f64_ops \<Rightarrow> ('s, 'a, 'f, 'k) search \<Rightarrow> ('s, 'a, 'f) candidate list \<Rightarrow> ('s, 'a, 'f) candidate \<times> 'f \<Rightarrow> bool" where
  "eval_ok fl sp cs = (\<lambda>(c, e). \<not> f_is_nan fl e \<and> (e \<noteq> f_infinity fl \<longrightarrow>
     implementation sp cs (cd_space c) \<and> (\<exists>k. sp_run sp (sp_kernel sp (cd_space c)) = (Some e, k))))"

abbreviation best_value :: "('q, 's, 'a, 'f) explorer \<Rightarrow> 'f option" where
  "best_value x \<equiv> map_option snd (best_candidate (ex_status x))"

abbreviation final_best :: "'f f64_ops \<Rightarrow> ('q, 's, 'a, 'f) explorer \<Rightarrow> 'f option" where
  "final_best fl x \<equiv> last_best fl (best_value x) (ex_channel x)"

definition below :: "('f \<Rightarrow> 'o::linorder) \<Rightarrow> 'f option \<Rightarrow> 'f \<Rightarrow> bool" where
  "below rk v t \<longleftrightarrow> (\<exists>w. v = Some w \<and> rk w \<le> rk t)"

definition open_candidates :: "('q \<Rightarrow> ('s, 'a, 'f) candidate multiset) \<Rightarrow> ('q, 's, 'a, 'f) explorer \<Rightarrow> ('s, 'a, 'f) candidate set" where
  "open_candidates m x = set_mset (elements m (ex_list x)) \<union> {c. W_Expand c \<in> set (ex_workers x)}"

definition covered ::
  "'f f64_ops \<Rightarrow> ('f \<Rightarrow> 'o::linorder) \<Rightarrow> ('q \<Rightarrow> ('s, 'a, 'f) candidate multiset) \<Rightarrow> ('s, 'a, 'f, 'k) search
    \<Rightarrow> ('q, 's, 'a, 'f) explorer \<Rightarrow> 's \<Rightarrow> 'f \<Rightarrow> bool" where
  "covered fl rk m sp x l t \<longleftrightarrow> (\<exists>c \<in> open_candidates m x. leaf_of sp (cd_space c) l) \<or> (\<exists>c \<in> set (ex_pending x). cd_space c = l)
     \<or> below rk (final_best fl x) t"

definition target :: "'f f64_ops \<Rightarrow> ('s, 'a, 'f, 'k) search \<Rightarrow> 'f config \<Rightarrow> ('s, 'a, 'f) candidate list \<Rightarrow> 's \<Rightarrow> 'f \<Rightarrow> bool" where
  "target fl sp cfg cs l t \<longleftrightarrow> implementation sp cs l \<and> (\<exists>k. sp_run sp (sp_kernel sp l) = (Some t, k)) \<and> f_is_finite fl t
     \<and> (cf_check_result cfg \<longrightarrow> sp_check sp l)"

definition search_inv ::
  "'f f64_ops \<Rightarrow> ('f \<Rightarrow> 'o::linorder) \<Rightarrow> ('q \<Rightarrow> ('s, 'a, 'f) candidate multiset) \<Rightarrow> ('s, 'a, 'f, 'k) search \<Rightarrow> 'f config
    \<Rightarrow> ('s, 'a, 'f) candidate list \<Rightarrow> ('q, 's, 'a, 'f) explorer \<Rightarrow> bool" where
  "search_inv fl rk m sp cfg cs x \<longleftrightarrow> \<not> ex_stopped x
     \<and> cl_cut (ex_list x) = (case best_value x of None \<Rightarrow> f_infinity fl | Some e \<Rightarrow> e)
     \<and> (\<forall>c \<in> open_candidates m x. open_ok sp cs c) \<and> (\<forall>c \<in> set (ex_pending x). pending_ok sp cs c)
     \<and> (\<forall>p. best_candidate (ex_status x) = Some p \<longrightarrow> eval_ok fl sp cs p) \<and> (\<forall>p \<in> set (ex_channel x). eval_ok fl sp cs p)
     \<and> (\<forall>b. ex_best x = Some b \<longrightarrow> \<not> f_is_nan fl b \<and> below rk (final_best fl x) b)
     \<and> (\<forall>l t. target fl sp cfg cs l t \<longrightarrow> covered fl rk m sp x l t)"

lemma final_best_below:
  assumes "f64_laws fl rk" "search_inv fl rk m sp cfg cs x" "best_value x = Some e"
  shows "\<exists>v. final_best fl x = Some v \<and> \<not> f_is_nan fl v \<and> rk v \<le> rk e"
proof -
  have "\<not> f_is_nan fl e" "\<forall>p \<in> set (ex_channel x). \<not> f_is_nan fl (snd p)"
    using assms(2,3) by (auto simp: search_inv_def eval_ok_def)
  then show ?thesis using last_best_le [OF assms(1)] assms(3) by auto
qed

text \<open>A candidate that is dropped because of the cut is matched by an evaluation.\<close>

lemma dropped_below:
  assumes fl: "f64_laws fl rk" and sound: "sound_search fl rk sp threshold" and inv: "search_inv fl rk m sp cfg cs x"
    and l: "target fl sp cfg cs l t" "cd_bound c = sp_bound sp (cd_space c)" "leaf_of sp (cd_space c) l"
    and drop: "\<not> f_less fl (cd_value c) (cl_cut (ex_list x))"
  shows "below rk (final_best fl x) t"
proof -
  obtain k where k: "sp_run sp (sp_kernel sp l) = (Some t, k)" using l(1) by (auto simp: target_def)
  have c: "\<not> f_is_nan fl (cd_value c)" "rk (cd_value c) \<le> rk t"
    using sound_searchD(1) [OF sound] sound_searchD(2) [OF sound l(3) k] by (simp_all add: l(2))
  have t: "rk t < rk (f_infinity fl)" using l(1) infinity_laws(3) [OF fl] by (auto simp: target_def)
  have cut: "cl_cut (ex_list x) = (case best_value x of None \<Rightarrow> f_infinity fl | Some e \<Rightarrow> e)" using inv by (simp add: search_inv_def)
  have "\<not> f_is_nan fl (cl_cut (ex_list x))"
    using inv infinity_laws(1) [OF fl] unfolding cut by (auto simp: search_inv_def eval_ok_def split: option.splits)
  then have le: "rk (cl_cut (ex_list x)) \<le> rk t" using drop c f64_lawsD(1) [OF fl] by auto
  then obtain e where e: "best_value x = Some e" "rk e \<le> rk t" using t cut by (cases "best_value x") auto
  then show ?thesis using final_best_below [OF fl inv e(1)] by (auto simp: below_def)
qed

text \<open>The evaluation of an implementation: its time, unless a better one is known.\<close>

lemma eval_callback_ok:
  assumes fl: "f64_laws fl rk" and sound: "sound_search fl rk sp (skip_threshold (cf_stabilizer cfg))" and pend: "pending_ok sp cs leaf"
    and cb: "eval_callback fl sp cfg leaf best = Some (e, best')"
  shows "eval_ok fl sp cs (leaf, e)"
    and "target fl sp cfg cs (cd_space leaf) t \<Longrightarrow> e = t \<or> (\<exists>b. best = Some b \<and> rk b \<le> rk t)"
proof -
  obtain s where s: "leaf_of sp s (cd_space leaf)" "cd_bound leaf = sp_bound sp s" "implementation sp cs (cd_space leaf)"
    using pend by (auto simp: pending_ok_def)
  let ?run = "sp_run sp (sp_kernel sp (cd_space leaf))"
  have run: "\<not> f_is_nan fl t \<and> rk (cd_value leaf) \<le> rk t \<and> f_ge fl (f_mul fl t (skip_threshold (cf_stabilizer cfg))) (cd_value leaf)"
    if "?run = (Some t, k)" for t k
    using sound_searchD(2) [OF sound s(1) that] sound_searchD(3) [OF sound, of t] sound_searchD(1) [OF sound, of s]
    by (auto simp: s(2) f_ge_iff [OF fl])
  obtain r k where r: "?run = (r, k)" by fastforce
  let ?skip = "case best of Some b \<Rightarrow> f_ge fl (cd_value leaf) b | None \<Rightarrow> False"
  let ?r = "if ?skip then Some (f_infinity fl) else r"
  have ev: "stable_evaluate fl (cf_limit cfg) ((cf_stabilizer cfg)\<lparr>skip_bad_candidates := True\<rparr>) (sp_run sp) (Some (cd_value leaf)) best
      (sp_kernel sp (cd_space leaf)) = Some ?r"
  proof (cases r)
    case None
    then show ?thesis by (simp add: stable_evaluate_def r Let_def)
  next
    case (Some t0)
    then have "f_ge fl (f_mul fl t0 (skip_threshold (cf_stabilizer cfg))) (cd_value leaf)" using run r by simp
    then show ?thesis by (simp add: stable_evaluate_def r Some Let_def)
  qed
  let ?e = "case ?r of Some e \<Rightarrow> e | None \<Rightarrow> f_infinity fl"
  have cb': "e = (if cf_check_result cfg \<and> f_is_finite fl ?e \<and> (cf_check_all cfg \<or> is_better fl ?e best) \<and> \<not> sp_check sp (cd_space leaf)
       then f_infinity fl else ?e)"
    using cb unfolding eval_callback_def ev by (simp only: Let_def bind.bind_lunit option.inject prod.inject)
  have e: "e = f_infinity fl \<or> (\<exists>k. ?run = (Some e, k))"
    using cb' r by (cases r) (simp_all split: if_splits)
  then show "eval_ok fl sp cs (leaf, e)"
    using infinity_laws(1) [OF fl] run s(3) by (auto simp: eval_ok_def)
  assume "target fl sp cfg cs (cd_space leaf) t"
  then have t: "r = Some t" "cf_check_result cfg \<longrightarrow> sp_check sp (cd_space leaf)" using r by (auto simp: target_def)
  show "e = t \<or> (\<exists>b. best = Some b \<and> rk b \<le> rk t)"
  proof (cases ?skip)
    case True
    then obtain b where "best = Some b" "rk b \<le> rk (cd_value leaf)" using f_ge_iff [OF fl] by (cases best) auto
    then show ?thesis using run [of t k] r t(1) by auto
  next
    case False
    then have "?e = t" using t(1) by simp
    then show ?thesis using cb' t(2) by auto
  qed
qed

lemma children_ok:
  assumes "open_ok sp cs c" "next_choice sp (cd_space c) = Some choice" "d \<in> set (apply_choice sp choice c)"
  shows "open_ok sp cs d"
proof -
  obtain a s where "a \<in> set choice" "sp_apply sp a (cd_space c) = Some s" "cd_space d = s" "cd_bound d = sp_bound sp s"
    using assms(3) by (auto simp: apply_choice_def apply_decision_def ok_result_def map_filter_def split: option.splits sum.splits)
  then show ?thesis using assms(1,2) leaf_below [of sp "cd_space c" choice a s] by (auto simp: open_ok_def)
qed

lemma child_of_leaf:
  assumes "leaf_of sp (cd_space c) l" "next_choice sp (cd_space c) = Some choice"
  shows "\<exists>d \<in> set (apply_choice sp choice c). leaf_of sp (cd_space d) l"
  using assms(1)
proof (cases rule: leaf_of.cases)
  case (leaf_below choice' a s')
  then have "a \<in> set choice" using assms(2) by simp
  then show ?thesis using leaf_below by (force simp: apply_choice_def apply_decision_def ok_result_def map_filter_def)
qed (use assms(2) in simp)

text \<open>The fields of the invariant.\<close>

lemma search_invD:
  assumes "search_inv fl rk m sp cfg cs x"
  shows "\<not> ex_stopped x" "cl_cut (ex_list x) = (case best_value x of None \<Rightarrow> f_infinity fl | Some e \<Rightarrow> e)"
    "c \<in> open_candidates m x \<Longrightarrow> open_ok sp cs c" "c \<in> set (ex_pending x) \<Longrightarrow> pending_ok sp cs c"
    "best_candidate (ex_status x) = Some p \<Longrightarrow> eval_ok fl sp cs p" "p \<in> set (ex_channel x) \<Longrightarrow> eval_ok fl sp cs p"
    "ex_best x = Some b \<Longrightarrow> \<not> f_is_nan fl b \<and> below rk (final_best fl x) b"
    "target fl sp cfg cs l t \<Longrightarrow> covered fl rk m sp x l t"
  using assms by (simp_all add: search_inv_def)

lemma below_trans: "below rk v t \<Longrightarrow> rk t \<le> rk t' \<Longrightarrow> below rk v t'"
  by (auto simp: below_def)

text \<open>Steps of the workers: the evaluations do not change.\<close>

lemma worker_step_inv:
  assumes inv: "search_inv fl rk m sp cfg cs x"
    and same: "ex_stopped x' = ex_stopped x" "cl_cut (ex_list x') = cl_cut (ex_list x)" "ex_status x' = ex_status x"
      "ex_channel x' = ex_channel x" "ex_best x' = ex_best x"
    and op: "\<And>c. c \<in> open_candidates m x' \<Longrightarrow> open_ok sp cs c" and pend: "\<And>c. c \<in> set (ex_pending x') \<Longrightarrow> pending_ok sp cs c"
    and cov: "\<And>l t. target fl sp cfg cs l t \<Longrightarrow> covered fl rk m sp x l t \<Longrightarrow> covered fl rk m sp x' l t"
  shows "search_inv fl rk m sp cfg cs x'"
  unfolding search_inv_def same
proof (intro conjI)
  show "\<forall>l t. target fl sp cfg cs l t \<longrightarrow> covered fl rk m sp x' l t" using cov search_invD(8) [OF inv] by blast
  show "\<forall>c \<in> open_candidates m x'. open_ok sp cs c" "\<forall>c \<in> set (ex_pending x'). pending_ok sp cs c" using op pend by blast+
qed (use inv in \<open>simp_all add: search_inv_def\<close>)

lemma expand_update:
  assumes "i < length ws"
  shows "{c. W_Expand c \<in> set (ws[i := w])} \<subseteq> {c. W_Expand c \<in> set ws} \<union> {c. w = W_Expand c}"
    "{c. W_Expand c \<in> set ws} \<subseteq> {c. W_Expand c \<in> set (ws[i := w])} \<union> {c. ws ! i = W_Expand c}"
    "w = W_Expand c \<Longrightarrow> W_Expand c \<in> set (ws[i := w])"
  using assms by (auto simp: in_set_conv_nth nth_list_update)

lemma pop_search_inv:
  assumes hp: "heap_laws hp m key" and inv: "search_inv fl rk m sp cfg cs x" and i: "i < length (ex_workers x)"
    and n: "pop_counter (ex_workers x ! i) (ex_active x) = Some n" and r: "pop_attempt hp (ex_list x) n = Some (r, l, n')"
  shows "search_inv fl rk m sp cfg cs (x\<lparr>ex_list := l, ex_active := n', ex_workers := after_pop i r (ex_workers x)\<rparr>)"
    (is "search_inv _ _ _ _ _ _ ?x")
proof -
  note upd = expand_update [OF i]
  have w: "\<And>c. ex_workers x ! i \<noteq> W_Expand c" using n by (auto simp: pop_counter_def)
  have "open_candidates m ?x = open_candidates m x \<and> cl_cut l = cl_cut (ex_list x)"
  proof (cases "cl_pop hp (ex_list x)")
    case (Some p)
    obtain c q where p: "p = (c, q)" by fastforce
    have res: "r = Popped c" "l = q" using r Some p by (auto simp: pop_attempt_def)
    have "elements m (ex_list x) = add_mset c (elements m q)" "cl_cut q = cl_cut (ex_list x)"
      using cl_pop_spec(2) [OF hp Some [unfolded p]] by auto
    moreover have "{d. W_Expand d \<in> set ((ex_workers x)[i := W_Expand c])} = {d. W_Expand d \<in> set (ex_workers x)} \<union> {c}"
      using upd(1) [of "W_Expand c"] upd(2) [of "W_Expand c"] upd(3) [of "W_Expand c"] w by auto
    ultimately show ?thesis by (auto simp: open_candidates_def res)
  next
    case None
    have res: "l = ex_list x" "r = Ended \<or> r = Blocked" using r None by (auto simp: pop_attempt_def split: if_splits)
    have "W_Expand c \<in> set ((ex_workers x)[i := v]) \<longleftrightarrow> W_Expand c \<in> set (ex_workers x)" if "v = W_Done \<or> v = W_Waiting" for v c
      using upd(1) [of v] upd(2) [of v] w that by auto
    then show ?thesis using res by (auto simp: open_candidates_def notify_all_spec)
  qed
  then show ?thesis
    by (intro worker_step_inv [OF inv]) (auto simp: search_invD [OF inv] covered_def)
qed

lemma expand_search_inv:
  assumes fl: "f64_laws fl rk" and hp: "heap_laws hp m key" and sound: "sound_search fl rk sp threshold"
    and inv: "search_inv fl rk m sp cfg cs x" and i: "i < length (ex_workers x)"
    and w: "ex_workers x ! i = W_Expand c" and choice: "next_choice sp (cd_space c) = Some choice"
  shows "search_inv fl rk m sp cfg cs (x\<lparr>ex_list := insert_many fl hp (apply_choice sp choice c) (ex_list x),
          ex_workers := notify_all ((ex_workers x)[i := W_Explore])\<rparr>)" (is "search_inv _ _ _ _ _ _ ?x")
proof -
  let ?kept = "{d \<in> set (apply_choice sp choice c). f_less fl (cd_value d) (cl_cut (ex_list x))}"
  note upd = expand_update [OF i, of W_Explore]
  have c: "c \<in> open_candidates m x" using w i by (auto simp: open_candidates_def in_set_conv_nth)
  have "open_candidates m ?x \<subseteq> open_candidates m x \<union> ?kept" and keep: "open_candidates m x \<union> ?kept \<subseteq> insert c (open_candidates m ?x)"
    using upd(1,2) w by (auto simp: open_candidates_def insert_many_spec [OF hp] notify_all_spec)
  moreover have "d \<in> ?kept \<Longrightarrow> open_ok sp cs d" for d using children_ok [OF search_invD(3) [OF inv c] choice] by simp
  moreover have "covered fl rk m sp ?x l t" if l: "target fl sp cfg cs l t" and cov: "covered fl rk m sp x l t" for l t
  proof (cases "leaf_of sp (cd_space c) l")
    case True
    then obtain d where d: "d \<in> set (apply_choice sp choice c)" "leaf_of sp (cd_space d) l" using child_of_leaf [OF _ choice] by auto
    show ?thesis
    proof (cases "f_less fl (cd_value d) (cl_cut (ex_list x))")
      case True
      then have "d \<in> open_candidates m ?x" using d(1) by (auto simp: open_candidates_def insert_many_spec [OF hp])
      then show ?thesis using d(2) by (auto simp: covered_def)
    next
      case False
      have "cd_bound d = sp_bound sp (cd_space d)" using children_ok [OF search_invD(3) [OF inv c] choice d(1)] by (simp add: open_ok_def)
      then have "below rk (final_best fl x) t" using dropped_below [OF fl sound inv l _ d(2) False] by simp
      then show ?thesis by (simp add: covered_def)
    qed
  next
    case False
    then show ?thesis using cov keep by (auto simp: covered_def)
  qed
  ultimately show ?thesis
    by (intro worker_step_inv [OF inv]) (auto simp: insert_many_spec [OF hp] search_invD(3,4) [OF inv])
qed

lemma leaf_search_inv:
  assumes inv: "search_inv fl rk m sp cfg cs x" and i: "i < length (ex_workers x)" and w: "ex_workers x ! i = W_Expand c"
    and leaf: "next_choice sp (cd_space c) = None" "sp_fix_order sp (cd_space c) = Some space"
  shows "search_inv fl rk m sp cfg cs (x\<lparr>ex_pending := ex_pending x @ [c\<lparr>cd_space := space\<rparr>], ex_workers := (ex_workers x)[i := W_Explore]\<rparr>)"
    (is "search_inv _ _ _ _ _ _ ?x")
proof -
  note upd = expand_update [OF i, of W_Explore]
  have c: "c \<in> open_candidates m x" using w i by (auto simp: open_candidates_def in_set_conv_nth)
  have sub: "open_candidates m ?x \<subseteq> open_candidates m x" and keep: "open_candidates m x \<subseteq> insert c (open_candidates m ?x)"
    using upd(1,2) w by (auto simp: open_candidates_def)
  have here: "leaf_of sp (cd_space c) space" by (rule leaf_here [OF leaf])
  then have "pending_ok sp cs (c\<lparr>cd_space := space\<rparr>)"
    using search_invD(3) [OF inv c] by (auto simp: pending_ok_def open_ok_def)
  moreover have "leaf_of sp (cd_space c) l \<Longrightarrow> l = space" for l using leaf by (auto elim: leaf_ofE)
  ultimately show ?thesis using sub keep
    by (intro worker_step_inv [OF inv]) (auto simp: search_invD(3,4) [OF inv] covered_def)
qed

text \<open>Steps of the evaluation and of the monitor.\<close>

lemma eval_ok_not_nan: "eval_ok fl sp cs p \<Longrightarrow> \<not> f_is_nan fl (snd p)"
  by (auto simp: eval_ok_def)

lemma final_best_not_nan:
  assumes "f64_laws fl rk" "search_inv fl rk m sp cfg cs x" "final_best fl x = Some v"
  shows "\<not> f_is_nan fl v"
proof -
  have msgs: "p \<in> set (ex_channel x) \<Longrightarrow> \<not> f_is_nan fl (snd p)" for p
    using search_invD(6) [OF assms(2)] eval_ok_not_nan by blast
  have "last_best fl b ms = Some v \<Longrightarrow> \<forall>p \<in> set ms. \<not> f_is_nan fl (snd p) \<Longrightarrow> (\<forall>e. b = Some e \<longrightarrow> \<not> f_is_nan fl e) \<Longrightarrow> \<not> f_is_nan fl v"
    for b ms v
    by (induction ms arbitrary: v rule: rev_induct) (auto split: if_splits)
  moreover have "\<forall>e. best_value x = Some e \<longrightarrow> \<not> f_is_nan fl e" using search_invD(5) [OF assms(2)] eval_ok_not_nan by fastforce
  ultimately show ?thesis using assms(3) msgs by blast
qed

lemma eval_search_inv:
  assumes fl: "f64_laws fl rk" and sound: "sound_search fl rk sp (skip_threshold (cf_stabilizer cfg))"
    and inv: "search_inv fl rk m sp cfg cs x" and pend: "ex_pending x = us @ leaf # vs"
    and cb: "eval_callback fl sp cfg leaf (ex_best x) = Some (eval, best)"
  shows "search_inv fl rk m sp cfg cs (x\<lparr>ex_pending := us @ vs, ex_best := best,
          ex_channel := (if ex_stopped x then ex_channel x else ex_channel x @ [(leaf, eval)])\<rparr>)" (is "search_inv _ _ _ _ _ _ ?x")
proof -
  have leaf: "pending_ok sp cs leaf" using search_invD(4) [OF inv] pend by simp
  note ok = eval_callback_ok [OF fl sound leaf cb]
  have nan: "\<not> f_is_nan fl eval" using ok(1) by (simp add: eval_ok_def)
  let ?v = "final_best fl x"
  have v': "final_best fl ?x = (if is_better fl eval ?v then Some eval else ?v)" using search_invD(1) [OF inv] by simp
  have eval: "below rk (final_best fl ?x) eval"
    using final_best_not_nan [OF fl inv] nan f64_lawsD(1) [OF fl] unfolding v' by (auto simp: below_def is_better_def split: option.splits)
  have mono: "below rk ?v t \<Longrightarrow> below rk (final_best fl ?x) t" for t
    using f64_lawsD(1) [OF fl] unfolding v' by (auto simp: below_def is_better_def)
  have op: "open_candidates m ?x = open_candidates m x" by (simp add: open_candidates_def)
  have "covered fl rk m sp ?x l t" if l: "target fl sp cfg cs l t" for l t
  proof (cases "cd_space leaf = l \<and> \<not> below rk ?v t")
    case True
    have "rk b \<le> rk t \<Longrightarrow> ex_best x = Some b \<Longrightarrow> False" for b
      using True search_invD(7) [OF inv, of b] below_trans [of rk "final_best fl x" b t] by auto
    then have "eval = t" using ok(2) [of t] l True by auto
    then show ?thesis using eval by (simp add: covered_def)
  next
    case False
    then show ?thesis using search_invD(8) [OF inv l] pend mono by (auto simp: covered_def op)
  qed
  moreover have "\<not> f_is_nan fl b \<and> below rk (final_best fl ?x) b" if "best = Some b" for b
    using that search_invD(7) [OF inv] mono eval nan unfolding eval_callback_best(1) [OF cb] by (auto split: if_splits)
  ultimately show ?thesis using inv ok(1) search_invD(1) [OF inv] pend unfolding search_inv_def op by simp
qed

lemma monitor_search_inv:
  assumes fl: "f64_laws fl rk" and hp: "heap_laws hp m (\<lambda>c. rk (cd_value c))" and sound: "sound_search fl rk sp threshold"
    and cfg: "exhaustive cfg" and inv: "search_inv fl rk m sp cfg cs x" and ch: "ex_channel x = (c, e) # ms"
    and msg: "handle_message fl hp cfg (c, e) (ex_status x) (ex_list x) = Some (False, st, l)"
  shows "search_inv fl rk m sp cfg cs (x\<lparr>ex_channel := ms, ex_status := st, ex_list := l\<rparr>)" (is "search_inv _ _ _ _ _ _ ?x")
proof -
  note status = handle_message_status [OF msg]
  have v: "final_best fl ?x = final_best fl x" using ch status(2) by simp
  have e: "eval_ok fl sp cs (c, e)" and nan: "\<not> f_is_nan fl e" using search_invD(6) [OF inv] ch by (auto simp: eval_ok_def)
  have bound: "\<not> f_is_nan fl (cd_value d)" if "d \<in># elements m (ex_list x)" for d
    using search_invD(3) [OF inv, of d] that sound_searchD(1) [OF sound] by (simp add: open_ok_def open_candidates_def)
  have l: "if is_better fl e (best_value x) then elements m l = filter_mset (\<lambda>d. rk (cd_value d) < rk e) (elements m (ex_list x)) \<and> cl_cut l = e
    else l = ex_list x"
    using msg cfg update_cut_spec [OF fl hp nan, of "ex_list x"] bound
    by (auto simp: handle_message_def exhaustive_def get_new_cut_def bind_eq_Some_conv Let_def split: if_splits)
  then have sub: "open_candidates m ?x \<subseteq> open_candidates m x" by (auto simp: open_candidates_def split: if_splits)
  have "covered fl rk m sp ?x lf t" if lf: "target fl sp cfg cs lf t" for lf t
  proof (cases "\<exists>d \<in> open_candidates m x. leaf_of sp (cd_space d) lf \<and> d \<notin> open_candidates m ?x")
    case True
    then obtain d where d: "d \<in> open_candidates m x" "leaf_of sp (cd_space d) lf" "d \<notin> open_candidates m ?x" by blast
    then have better: "is_better fl e (best_value x)" "rk e \<le> rk (cd_value d)" using l by (auto simp: open_candidates_def split: if_splits)
    obtain k where k: "sp_run sp (sp_kernel sp lf) = (Some t, k)" using lf by (auto simp: target_def)
    have "rk (cd_value d) \<le> rk t"
      using sound_searchD(2) [OF sound d(2) k] search_invD(3) [OF inv d(1)] by (simp add: open_ok_def)
    moreover have "below rk (final_best fl x) e"
      using last_best_le [OF fl nan, of ms] search_invD(6) [OF inv] ch better(1) eval_ok_not_nan [of fl sp cs] by (auto simp: below_def)
    ultimately have "below rk (final_best fl x) t" using better(2) below_trans [of rk _ e t] by auto
    then show ?thesis unfolding covered_def v by simp
  next
    case False
    then show ?thesis using search_invD(8) [OF inv lf] unfolding covered_def v by auto
  qed
  moreover have "cl_cut l = (case best_value ?x of None \<Rightarrow> f_infinity fl | Some e \<Rightarrow> e)"
    using l search_invD(2) [OF inv] status(2) by (auto split: if_splits)
  moreover have "\<forall>p. best_candidate st = Some p \<longrightarrow> eval_ok fl sp cs p" using status(1) e search_invD(5) [OF inv] by auto
  ultimately show ?thesis using inv sub ch v unfolding search_inv_def by auto
qed

lemma step_search_inv:
  assumes fl: "f64_laws fl rk" and hp: "heap_laws hp m (\<lambda>c. rk (cd_value c))"
    and sound: "sound_search fl rk sp (skip_threshold (cf_stabilizer cfg))" and cfg: "exhaustive cfg"
    and step: "explore_step fl hp sp cfg x x'" and inv: "search_inv fl rk m sp cfg cs x"
  shows "search_inv fl rk m sp cfg cs x'"
  using step
proof (cases rule: explore_step.cases)
  case step_pop
  show ?thesis unfolding step_pop(1) by (rule pop_search_inv [OF hp inv step_pop(2-4)])
next
  case step_expand
  show ?thesis unfolding step_expand(1) by (rule expand_search_inv [OF fl hp sound inv step_expand(2-4)])
next
  case step_leaf
  show ?thesis unfolding step_leaf(1) by (rule leaf_search_inv [OF inv step_leaf(2-5)])
next
  case step_eval
  show ?thesis unfolding step_eval(1) by (rule eval_search_inv [OF fl sound inv step_eval(2,3)])
next
  case (step_monitor msg ms st l)
  obtain c e where msg: "msg = (c, e)" by fastforce
  show ?thesis unfolding step_monitor(1) by (rule monitor_search_inv [OF fl hp sound cfg inv step_monitor(3,4) [unfolded msg]])
next
  case (step_max_evaluations msg ms st l l')
  then show ?thesis using cfg by (auto simp: handle_message_def exhaustive_def bind_eq_Some_conv Let_def split: prod.splits if_splits)
next
  case step_timeout
  then show ?thesis using cfg by (simp add: exhaustive_def)
qed

lemma start_search_inv:
  assumes fl: "f64_laws fl rk" and hp: "heap_laws hp m key" and sound: "sound_search fl rk sp threshold"
    and cs: "\<forall>c \<in> set cs. cd_bound c = sp_bound sp (cd_space c)"
  shows "search_inv fl rk m sp cfg cs (explorer_start fl hp n cs)" (is "search_inv _ _ _ _ _ _ ?x")
proof -
  have op: "open_candidates m ?x = {c \<in> set cs. f_less fl (cd_value c) (f_infinity fl)}"
    using hp by (auto simp: open_candidates_def explorer_start_def insert_many_spec [OF hp] cl_new_def heap_laws_def)
  have "covered fl rk m sp ?x l t" if l: "target fl sp cfg cs l t" for l t
  proof -
    obtain c k where c: "c \<in> set cs" "leaf_of sp (cd_space c) l" and k: "sp_run sp (sp_kernel sp l) = (Some t, k)" and t: "f_is_finite fl t"
      using l by (auto simp: target_def implementation_def)
    have "\<not> f_is_nan fl (cd_value c)" "rk (cd_value c) < rk (f_infinity fl)"
      using sound_searchD(1) [OF sound, of "cd_space c"] sound_searchD(2) [OF sound c(2) k] infinity_laws(3) [OF fl t] cs c(1) by auto
    then have "c \<in> open_candidates m ?x" using c(1) infinity_laws(1) [OF fl] f64_lawsD(1) [OF fl] unfolding op by simp
    then show ?thesis using c(2) by (auto simp: covered_def)
  qed
  moreover have "open_ok sp cs c" if "c \<in> set cs" for c using cs that by (auto simp: open_ok_def implementation_def)
  ultimately show ?thesis unfolding search_inv_def op
    by (simp add: explorer_start_def insert_many_spec [OF hp] cl_new_def)
qed

lemma explored_search_inv:
  assumes "f64_laws fl rk" "heap_laws hp m (\<lambda>c. rk (cd_value c))" "sound_search fl rk sp (skip_threshold (cf_stabilizer cfg))" "exhaustive cfg"
    and "\<forall>c \<in> set cs. cd_bound c = sp_bound sp (cd_space c)" "explored fl hp sp cfg (explorer_start fl hp n cs) x"
  shows "search_inv fl rk m sp cfg cs x"
  using assms(6)
proof induction
  case explored_start
  show ?case by (rule start_search_inv [OF assms(1-3,5)])
next
  case (explored_step x x')
  then show ?case using step_search_inv [OF assms(1-4)] by blast
qed

text \<open>The exploration of the example meets the assumptions.\<close>

lemma example_leaf_of: "leaf_of example_search s l \<Longrightarrow> s = [] \<and> (l = [False] \<or> l = [True]) \<or> s \<noteq> [] \<and> l = s"
  by (induction rule: leaf_of.induct) (auto simp: example_search_def next_choice_def split: if_splits)

lemma example_sound: "sound_search int_ops id example_search (skip_threshold (cf_stabilizer example_config))"
  unfolding sound_search_def
  by (intro conjI allI impI; (elim conjE)?; (drule example_leaf_of)?)
    (auto simp: example_search_def example_config_def int_ops_def f_ge_def split: if_splits)

lemma example_target: "target int_ops example_search example_config [cd_new [] (sp_bound example_search [])] [False] 5"
proof -
  have "leaf_of example_search [] [False]"
    by (rule leaf_below [of _ _ "[False, True]" False "[False]"] leaf_here | simp add: example_search_def next_choice_def)+
  then show ?thesis
    by (simp add: target_def implementation_def cd_new_def cd_with_actions_def) (simp add: example_search_def int_ops_def)
qed

section \<open>Evaluation and comparison of times\<close>

text \<open>The code compares the first run with the bound, not with the best evaluation: when the bound is sound, the first run is the result.\<close>

lemma first_run_is_result:
  assumes "f64_laws fl rk" "skip_bad_candidates st" "\<not> f_is_nan fl b" "rk b \<le> rk t0" "f_ge fl (f_mul fl t0 (skip_threshold st)) t0"
    and "run k = (Some t0, k')" "\<forall>v. best = Some v \<longrightarrow> f_less fl b v"
  shows "stable_evaluate fl limit st run (Some b) best k = Some (Some t0)"
proof -
  have "\<not> (case best of Some x \<Rightarrow> f_ge fl b x | None \<Rightarrow> False)"
    using assms(7) f_ge_iff [OF assms(1)] f64_lawsD(1) [OF assms(1)] by (cases best) auto
  moreover have "f_ge fl (f_mul fl t0 (skip_threshold st)) b" using assms(3-5) f_ge_iff [OF assms(1)] by auto
  ultimately show ?thesis using assms(2,6) by (simp add: stable_evaluate_def)
qed

text \<open>Two times closer than epsilon are in order one way and equal the other way.\<close>

lemma cmp_f64_not_antisymmetric:
  assumes "f64_laws fl rk" "f_less fl a b" "f_less fl (f_abs fl (f_sub fl b a)) (f_epsilon fl)"
  shows "cmp_f64 fl a b = Some Less \<and> cmp_f64 fl b a = Some Equal"
  using assms(2,3) f64_lawsD(1) [OF assms(1)] by (auto simp: cmp_f64_def)

section \<open>Properties\<close>

text \<open>C12: When results are checked, a candidate that the exploration holds as the best one with a finite evaluation passed the check,
  whatever the order in which the workers, the evaluations and the monitor run.\<close>
theorem returned_candidate_checked:
  assumes "f64_laws fl rk" "cf_check_result cfg" "explored fl hp sp cfg (explorer_start fl hp n cs) x"
    and "best_candidate (ex_status x) = Some (c, e)" "f_is_finite fl e"
  shows "sp_check sp (cd_space c)"
  using explored_checked_inv [OF assms(1,3)] assms(2,4,5) by (simp add: checked_inv_def)

theorem returned_candidate_checked_witness: "sp_check example_search (cd_space example_leaf)"
  by (rule returned_candidate_checked [where c = example_leaf and e = 3, OF int_ops_laws _ explored_example [unfolded example_start_def]])
    (simp_all add: example_config_def example_end_def int_ops_def)

text \<open>C10: Branch and bound is exhaustive: without limits, and with bounds that are below the times of the implementations, when all
  workers have ended and every evaluation has been handled, the exploration holds an implementation whose time is not above the
  time of any implementation of the search space that runs, in finite time, and passes the check.\<close>
theorem exploration_optimal:
  assumes "f64_laws fl rk" "heap_laws hp m (\<lambda>c. rk (cd_value c))" "sound_search fl rk sp (skip_threshold (cf_stabilizer cfg))" "exhaustive cfg"
    and "\<forall>c \<in> set cs. cd_bound c = sp_bound sp (cd_space c)" "explored fl hp sp cfg (explorer_start fl hp n cs) x"
    and "W_Done \<in> set (ex_workers x)" "ex_pending x = []" "ex_channel x = []"
    and "target fl sp cfg cs l t"
  shows "\<exists>c e k. best_candidate (ex_status x) = Some (c, e) \<and> rk e \<le> rk t
    \<and> implementation sp cs (cd_space c) \<and> sp_run sp (sp_kernel sp (cd_space c)) = (Some e, k)"
proof -
  have inv: "search_inv fl rk m sp cfg cs x" by (rule explored_search_inv [OF assms(1-6)])
  have workers: "workers_inv m x" by (rule explored_workers_inv [OF assms(2,6)])
  then have "elements m (ex_list x) = {#}" "ex_active x = 0" using assms(7) by (auto simp: workers_inv_def)
  then have "open_candidates m x = {}" using active_counted [OF workers, of "W_Expand d" for d] by (auto simp: open_candidates_def)
  then have "below rk (best_value x) t" using search_invD(8) [OF inv assms(10)] assms(8,9) by (simp add: covered_def)
  then obtain c e where best: "best_candidate (ex_status x) = Some (c, e)" and le: "rk e \<le> rk t" by (auto simp: below_def)
  moreover have "e \<noteq> f_infinity fl" using le infinity_laws(3) [OF assms(1), of t] assms(10) by (auto simp: target_def)
  ultimately show ?thesis using search_invD(5) [OF inv best] by (auto simp: eval_ok_def)
qed

theorem exploration_optimal_witness:
  "\<exists>c e k. best_candidate (ex_status example_end) = Some (c, e) \<and> id e \<le> id (5 :: int)
    \<and> implementation example_search [cd_new [] (sp_bound example_search [])] (cd_space c)
    \<and> sp_run example_search (sp_kernel example_search (cd_space c)) = (Some e, k)"
  by (rule exploration_optimal [OF int_ops_laws list_heap_laws example_sound _ _ explored_example [unfolded example_start_def] _ _ _ example_target])
    (simp_all add: exhaustive_def example_config_def example_end_def cd_new_def cd_with_actions_def)

end
