(* ===== verification/Ast.thy ===== *)
theory Ast
  imports Flat_Filters
begin

text \<open>
  The syntax tree of a constraint file and its type checker (\<^verbatim>\<open>telamon-gen/src/ast/\<close>). Names of sets and choices are declared first;
  then each statement is checked and defined, and counters, triggers and constraints are typed at the end.

  A user error is the left side of a sum, and \<open>None\<close> is a panic or, for the expansion of aliases, a loop that does not end. Names
  are ASCII, as the lexer accepts them. The order in which a hash set of strings is iterated is the parameter \<open>iter\<close>, applied to
  its elements; a hash map from names to variables is the list of its entries. The template that renders the code of a quotient
  is the parameter \<open>render\<close>.
\<close>

section \<open>Positions and errors\<close>

record lexer_position =
  lp_line :: u32
  lp_column :: u32

record position =
  pos_position :: lexer_position
  pos_filename :: "string option"

record 'a spanned =
  sp_beg :: position
  sp_end :: position
  sp_data :: 'a

definition with_data :: "'a spanned \<Rightarrow> 'b \<Rightarrow> 'b spanned" where
  "with_data s d = \<lparr>sp_beg = sp_beg s, sp_end = sp_end s, sp_data = d\<rparr>"

definition position_default :: position where
  "position_default = \<lparr>pos_position = \<lparr>lp_line = 0, lp_column = 0\<rparr>, pos_filename = None\<rparr>"

definition spanned_default :: "'a \<Rightarrow> 'a spanned" where
  "spanned_default d = \<lparr>sp_beg = position_default, sp_end = position_default, sp_data = d\<rparr>"

datatype hint = H_Set | H_SetAttribute | H_Enum | H_EnumAttribute | H_Integer | H_IntegerAttribute | H_Counter

datatype type_error =
    TE_Redefinition "hint spanned" "string spanned"
  | TE_Undefined "string spanned"
  | TE_BadSymmetricArg "string spanned" "(string spanned \<times> string) list"
  | TE_MissingEntry string "string spanned"
  | TE_Conflict "string spanned" "string spanned"

type_synonym 'a checked = "type_error + 'a"

text \<open>The operator \<^verbatim>\<open>?\<close> on results, and loops that it may leave.\<close>

definition and_then :: "'e + 'a \<Rightarrow> ('a \<Rightarrow> 'e + 'b) \<Rightarrow> 'e + 'b" where
  "and_then r f = (case r of Inl e \<Rightarrow> Inl e | Inr x \<Rightarrow> f x)"

fun fold_checked :: "('a \<Rightarrow> 's \<Rightarrow> 'e + 's) \<Rightarrow> 'a list \<Rightarrow> 's \<Rightarrow> 'e + 's" where
  "fold_checked f [] s = Inr s"
| "fold_checked f (x # xs) s = and_then (f x s) (fold_checked f xs)"

section \<open>Syntax\<close>

record set_ref =
  sr_name :: string
  sr_var :: "string option"

record var_def =
  vd_name :: "string spanned"
  vd_set :: set_ref

record ast_instance =
  ai_name :: string
  ai_vars :: "string list"

datatype ast_condition =
    AC_Is ast_instance "string list" bool
  | AC_Code string bool
  | AC_Bool bool
  | AC_CmpCode ast_instance string cmp_op
  | AC_CmpInput ast_instance ast_instance cmp_op

record constraint_decl =
  cn_forall_vars :: "var_def list"
  cn_disjunctions :: "ast_condition list list"
  cn_restrict_fragile :: bool

record trigger_decl =
  tr_foralls :: "var_def list"
  tr_conditions :: "ast_condition list"
  tr_code :: string

record quotient =
  q_item :: var_def
  q_representant :: string
  q_conditions :: "ast_condition list"
  q_equiv_relation :: "string \<times> string list"

record set_decl =
  st_name :: "string spanned"
  st_doc :: "string option"
  st_arg :: "var_def option"
  st_superset :: "set_ref option"
  st_disjoint :: "string list"
  st_keys :: "(set_def_key spanned \<times> var_def option \<times> string) list"
  st_quotient :: "quotient option"

datatype enum_statement =
    ES_Value "string spanned" "string option" "constraint_decl list"
  | ES_Alias "string spanned" "string option" "string list" "constraint_decl list"
  | ES_Symmetric "unit spanned"
  | ES_AntiSymmetric "(string \<times> string) list spanned"

record enum_decl =
  en_name :: "string spanned"
  en_doc :: "string option"
  en_variables :: "var_def list"
  en_statements :: "enum_statement list"

record integer_decl =
  in_name :: "string spanned"
  in_doc :: "string option"
  in_variables :: "var_def list"
  in_code :: string

datatype ast_counter_val = ACV_Code string | ACV_Choice ast_instance

record counter_body =
  cb_base :: string
  cb_kind :: counter_kind
  cb_iter_vars :: "var_def list"
  cb_value :: ast_counter_val
  cb_conditions :: "ast_condition list"

record counter_decl =
  ct_name :: "string spanned"
  ct_doc :: "string option"
  ct_visibility :: counter_visibility
  ct_vars :: "var_def list"
  ct_body :: counter_body

datatype choice_decl = CH_Counter counter_decl | CH_Enum enum_decl | CH_Integer integer_decl

datatype ast_check = Check_IsSymmetric string "string list"

datatype statement = S_ChoiceDef choice_decl | S_TriggerDef trigger_decl | S_SetDef set_decl | S_Require constraint_decl

record ast =
  a_statements :: "statement list"
  a_ir_desc :: ir_desc
  a_set_defs :: "set_decl list"
  a_choice_defs :: "choice_decl list"
  a_triggers :: "trigger_decl list"
  a_constraints :: "constraint_decl list"
  a_checks :: "ast_check list"

section \<open>Declared names\<close>

record checker_context =
  hash_set :: "string \<rightharpoonup> hint spanned"
  hash_choice :: "string \<rightharpoonup> hint spanned"

definition context_default :: checker_context where
  "context_default = \<lparr>hash_set = Map.empty, hash_choice = Map.empty\<rparr>"

definition declare_set :: "string spanned \<Rightarrow> checker_context \<Rightarrow> checker_context checked" where
  "declare_set object_name context =
     (case hash_set context (sp_data object_name) of
        Some pre \<Rightarrow> Inl (TE_Redefinition pre object_name)
      | None \<Rightarrow> Inr (context\<lparr>hash_set := (hash_set context)(sp_data object_name \<mapsto> with_data object_name H_Set)\<rparr>))"

definition declare_choice :: "string spanned \<Rightarrow> hint \<Rightarrow> checker_context \<Rightarrow> checker_context checked" where
  "declare_choice object_name object_type context =
     (case hash_choice context (sp_data object_name) of
        Some pre \<Rightarrow> Inl (TE_Redefinition pre object_name)
      | None \<Rightarrow> Inr (context\<lparr>hash_choice := (hash_choice context)(sp_data object_name \<mapsto> with_data object_name object_type)\<rparr>))"

definition check_set_define :: "checker_context \<Rightarrow> set_ref \<Rightarrow> bool" where
  "check_set_define context s \<longleftrightarrow> hash_set context (sr_name s) \<noteq> None"

fun choice_declare :: "choice_decl \<Rightarrow> checker_context \<Rightarrow> checker_context checked" where
  "choice_declare (CH_Integer c) context = declare_choice (in_name c) H_Integer context"
| "choice_declare (CH_Enum c) context = declare_choice (en_name c) H_Enum context"
| "choice_declare (CH_Counter c) context = declare_choice (with_data (ct_name c) (sp_data (ct_name c))) H_Counter context"

fun stmt_declare :: "statement \<Rightarrow> checker_context \<Rightarrow> checker_context checked" where
  "stmt_declare (S_SetDef def) context = declare_set (st_name def) context"
| "stmt_declare (S_ChoiceDef def) context = choice_declare def context"
| "stmt_declare _ context = Inr context"

text \<open>The variables of a choice range over declared sets.\<close>

fun check_undefined_variables :: "checker_context \<Rightarrow> string spanned \<Rightarrow> var_def list \<Rightarrow> unit checked" where
  "check_undefined_variables context name [] = Inr ()"
| "check_undefined_variables context name (v # vs) =
     (if check_set_define context (vd_set v) then check_undefined_variables context name vs
      else Inl (TE_Undefined (with_data name (sr_name (vd_set v)))))"

section \<open>Variables\<close>

record var_map =
  vm_map :: "(string \<times> variable \<times> ir_set) list"
  vm_next_arg_id :: nat
  vm_next_forall_id :: nat

definition vm_default :: var_map where
  "vm_default = \<lparr>vm_map = [], vm_next_arg_id = 0, vm_next_forall_id = 0\<rparr>"

definition vm_get_var :: "var_map \<Rightarrow> string \<Rightarrow> variable option" where
  "vm_get_var vm name = map_option fst (map_of (vm_map vm) name)"

definition vm_type_check :: "var_map \<Rightarrow> string \<Rightarrow> ir_set \<Rightarrow> variable option" where
  "vm_type_check vm name expected = do {
     (var, given) \<leftarrow> map_of (vm_map vm) name;
     if set_is_subset_of_def given expected then Some var else None }"

definition vm_env :: "var_map \<Rightarrow> var_env" where
  "vm_env vm = map snd (vm_map vm)"

definition set_ref_type_check :: "ir_desc \<Rightarrow> var_map \<Rightarrow> set_ref \<Rightarrow> ir_set option" where
  "set_ref_type_check ir vm r = do {
     def \<leftarrow> ir_get_set_def ir (sr_name r);
     var \<leftarrow> (case sr_var r of
         Some var \<Rightarrow> do { arg \<leftarrow> sd_arg def; v \<leftarrow> vm_type_check vm var arg; Some (Some v) }
       | None \<Rightarrow> if sd_arg def = None then Some None else None);
     set_new def var }"

definition decl_var :: "ir_desc \<Rightarrow> var_def \<Rightarrow> variable \<Rightarrow> var_map \<Rightarrow> (ir_set \<times> var_map) option" where
  "decl_var ir def var vm = do {
     s \<leftarrow> set_ref_type_check ir vm (vd_set def);
     if map_of (vm_map vm) (sp_data (vd_name def)) = None
     then Some (s, vm\<lparr>vm_map := vm_map vm @ [(sp_data (vd_name def), var, s)]\<rparr>)
     else None }"

definition decl_argument :: "ir_desc \<Rightarrow> var_def \<Rightarrow> var_map \<Rightarrow> (ir_set \<times> var_map) option" where
  "decl_argument ir def vm = decl_var ir def (Arg (vm_next_arg_id vm)) (vm\<lparr>vm_next_arg_id := vm_next_arg_id vm + 1\<rparr>)"

definition decl_forall :: "ir_desc \<Rightarrow> var_def \<Rightarrow> var_map \<Rightarrow> (ir_set \<times> var_map) option" where
  "decl_forall ir def vm = decl_var ir def (Forall (vm_next_forall_id vm)) (vm\<lparr>vm_next_forall_id := vm_next_forall_id vm + 1\<rparr>)"

text \<open>A \<^verbatim>\<open>map\<close> whose closure declares the variables one after the other.\<close>

fun decl_all :: "(var_def \<Rightarrow> var_map \<Rightarrow> (ir_set \<times> var_map) option) \<Rightarrow> var_def list \<Rightarrow> var_map \<Rightarrow> (ir_set list \<times> var_map) option" where
  "decl_all decl [] vm = Some ([], vm)"
| "decl_all decl (def # defs) vm = do {
     (s, vm) \<leftarrow> decl def vm;
     (ss, vm) \<leftarrow> decl_all decl defs vm;
     Some (s # ss, vm) }"

section \<open>Host code\<close>

definition is_ident_start :: "char \<Rightarrow> bool" where
  "is_ident_start c \<longleftrightarrow> (CHR ''a'' \<le> c \<and> c \<le> CHR ''z'') \<or> (CHR ''A'' \<le> c \<and> c \<le> CHR ''Z'') \<or> c = CHR ''_''"

definition is_ident_char :: "char \<Rightarrow> bool" where
  "is_ident_char c \<longleftrightarrow> is_ident_start c \<or> (CHR ''0'' \<le> c \<and> c \<le> CHR ''9'')"

text \<open>The matches of the pattern \<^verbatim>\<open>\$[a-zA-Z_][a-zA-Z_0-9]*\<close>, from left to right, without the dollar.\<close>

function code_var_names :: "string \<Rightarrow> string list" where
  "code_var_names [] = []"
| "code_var_names (c # cs) =
     (if c = CHR ''$'' \<and> cs \<noteq> [] \<and> is_ident_start (hd cs)
      then takeWhile is_ident_char cs # code_var_names (dropWhile is_ident_char cs)
      else code_var_names cs)"
  by pat_completeness auto
termination
  by (relation "measure length") (auto simp: le_imp_less_Suc length_dropWhile_le)

definition get_code_vars :: "(string list \<Rightarrow> string list) \<Rightarrow> string \<Rightarrow> string list" where
  "get_code_vars iter code = iter (remdups (code_var_names code))"

definition type_check_code :: "(string list \<Rightarrow> string list) \<Rightarrow> string \<Rightarrow> var_map \<Rightarrow> code option" where
  "type_check_code iter code vm = do {
     vars \<leftarrow> those (map (\<lambda>var. map_option (\<lambda>v. (v, var)) (vm_get_var vm var)) (filter (\<lambda>var. var \<noteq> ''fun'') (get_code_vars iter code)));
     Some \<lparr>code_text = code, code_vars = vars\<rparr> }"

section \<open>Conditions\<close>

definition type_check_enum_values :: "enum_def \<Rightarrow> string list \<Rightarrow> string fset option" where
  "type_check_enum_values e vals =
     (let vals = enum_expand e vals in if fset vals \<subseteq> set (enum_keys e) then Some vals else None)"

definition instance_type_check :: "ir_desc \<Rightarrow> var_map \<Rightarrow> ast_instance \<Rightarrow> choice_instance option" where
  "instance_type_check ir vm ci = do {
     c \<leftarrow> get_choice ir (ai_name ci);
     let sets = args_sets (c_arguments c);
     if length (ai_vars ci) = length sets then do {
       vars \<leftarrow> those (map (\<lambda>(v, s). vm_type_check vm v s) (zip (ai_vars ci) sets));
       Some \<lparr>ci_choice = ai_name ci, ci_vars = vars\<rparr> }
     else None }"

text \<open>\<^verbatim>\<open>add_input\<close> types the instance and pushes it.\<close>

definition add_input ::
  "ir_desc \<Rightarrow> var_map \<Rightarrow> ast_instance \<Rightarrow> choice_instance list \<Rightarrow> (nat \<times> choice_instance list) option" where
  "add_input ir vm ci inputs = do {
     typed \<leftarrow> instance_type_check ir vm ci;
     Some (length inputs, inputs @ [typed]) }"

fun cond_type_check ::
  "(string list \<Rightarrow> string list) \<Rightarrow> ir_desc \<Rightarrow> var_map \<Rightarrow> ast_condition \<Rightarrow> choice_instance list
    \<Rightarrow> (condition \<times> choice_instance list) option" where
  "cond_type_check iter ir vm (AC_Code code negate) inputs = do {
     code \<leftarrow> type_check_code iter code vm;
     Some (C_Code code negate, inputs) }"
| "cond_type_check iter ir vm (AC_Is lhs rhs is) inputs = do {
     c \<leftarrow> get_choice ir (ai_name lhs);
     name \<leftarrow> cd_as_enum (c_choice_def c);
     e \<leftarrow> get_enum ir name;
     (input_id, inputs) \<leftarrow> add_input ir vm lhs inputs;
     vals \<leftarrow> type_check_enum_values e rhs;
     Some (C_Enum input_id vals (\<not> is) False, inputs) }"
| "cond_type_check iter ir vm (AC_CmpCode lhs rhs op) inputs = do {
     c \<leftarrow> get_choice ir (ai_name lhs);
     if cd_as_enum (c_choice_def c) \<noteq> None then None
     else do {
       (input_id, inputs) \<leftarrow> add_input ir vm lhs inputs;
       code \<leftarrow> type_check_code iter rhs vm;
       Some (C_CmpCode input_id code op, inputs) } }"
| "cond_type_check iter ir vm (AC_CmpInput lhs rhs op) inputs =
     (if ai_name lhs = ai_name rhs then do {
        c \<leftarrow> get_choice ir (ai_name lhs);
        (lhs_input, inputs) \<leftarrow> add_input ir vm lhs inputs;
        (rhs_input, inputs) \<leftarrow> add_input ir vm rhs inputs;
        if cd_is_valid_operator (c_choice_def c) op \<and> cd_is_valid_operator (c_choice_def c) (op_inverse op)
        then Some (C_CmpInput lhs_input rhs_input op False, inputs) else None }
      else None)"
| "cond_type_check iter ir vm (AC_Bool b) inputs = Some (C_Bool b, inputs)"

text \<open>A \<^verbatim>\<open>map\<close> over conditions that share the vector of inputs.\<close>

fun conds_type_check ::
  "(string list \<Rightarrow> string list) \<Rightarrow> ir_desc \<Rightarrow> var_map \<Rightarrow> ast_condition list \<Rightarrow> choice_instance list
    \<Rightarrow> (condition list \<times> choice_instance list) option" where
  "conds_type_check iter ir vm [] inputs = Some ([], inputs)"
| "conds_type_check iter ir vm (c # cs) inputs = do {
     (c, inputs) \<leftarrow> cond_type_check iter ir vm c inputs;
     (cs, inputs) \<leftarrow> conds_type_check iter ir vm cs inputs;
     Some (c # cs, inputs) }"

fun ast_negate :: "ast_condition \<Rightarrow> ast_condition" where
  "ast_negate (AC_Is lhs rhs is) = AC_Is lhs rhs (\<not> is)"
| "ast_negate (AC_Code code negate) = AC_Code code (\<not> negate)"
| "ast_negate (AC_CmpCode lhs rhs op) = AC_CmpCode lhs rhs (op_negate op)"
| "ast_negate (AC_CmpInput lhs rhs op) = AC_CmpInput lhs rhs (op_negate op)"
| "ast_negate (AC_Bool b) = AC_Bool (\<not> b)"

definition new_is_bool :: "ast_instance \<Rightarrow> bool \<Rightarrow> ast_condition" where
  "new_is_bool choice is = AC_Is choice [''TRUE''] is"

section \<open>Constraints and triggers\<close>

definition constraint_new :: "var_def list \<Rightarrow> ast_condition list list \<Rightarrow> constraint_decl" where
  "constraint_new forall_vars disjunctions =
     \<lparr>cn_forall_vars = forall_vars, cn_disjunctions = disjunctions, cn_restrict_fragile = True\<rparr>"

definition disjunction_type_check ::
  "(string list \<Rightarrow> string list) \<Rightarrow> ir_desc \<Rightarrow> var_map \<Rightarrow> ir_set list \<Rightarrow> bool \<Rightarrow> ast_condition list \<Rightarrow> ir_constraint option" where
  "disjunction_type_check iter ir vm sets restrict_fragile disjunction = do {
     (conds, inputs) \<leftarrow> conds_type_check iter ir vm disjunction [];
     Some \<lparr>co_vars = sets, co_inputs = inputs, co_conditions = conds, co_restrict_fragile = restrict_fragile\<rparr> }"

definition constraint_type_check ::
  "(string list \<Rightarrow> string list) \<Rightarrow> ir_desc \<Rightarrow> constraint_decl \<Rightarrow> ir_constraint list option" where
  "constraint_type_check iter ir self = do {
     (sets, vm) \<leftarrow> decl_all (decl_forall ir) (cn_forall_vars self) vm_default;
     those (map (disjunction_type_check iter ir vm sets (cn_restrict_fragile self)) (cn_disjunctions self)) }"

text \<open>The action of a trigger on one of its inputs.\<close>

definition trigger_action ::
  "ir_desc \<Rightarrow> choice_instance list \<Rightarrow> condition list \<Rightarrow> var_env \<Rightarrow> code \<Rightarrow> nat
    \<Rightarrow> (string \<times> ir_set list \<times> set_constraints \<times> choice_condition \<times> code) option" where
  "trigger_action ir inputs conds env code pos = do {
     (foralls, constraints, condition, ad) \<leftarrow> cc_new ir inputs pos conds env;
     Some (ci_choice (inputs ! pos), foralls, constraints, condition, code_adapt ad code) }"

definition add_trigger_action ::
  "nat \<Rightarrow> string \<times> ir_set list \<times> set_constraints \<times> choice_condition \<times> code \<Rightarrow> ir_desc \<Rightarrow> ir_desc option" where
  "add_trigger_action tid = (\<lambda>(choice, foralls, constraints, condition, code) ir.
     ir_add_onchange choice \<lparr>oc_forall_vars = foralls, oc_set_constraints = constraints,
       oc_action = TriggerAction tid condition code False\<rparr> ir)"

definition register_trigger :: "(string list \<Rightarrow> string list) \<Rightarrow> trigger_decl \<Rightarrow> ir_desc \<Rightarrow> ir_desc option" where
  "register_trigger iter self ir = do {
     (foralls, vm) \<leftarrow> decl_all (decl_forall ir) (tr_foralls self) vm_default;
     (conds, inputs) \<leftarrow> conds_type_check iter ir vm (tr_conditions self) [];
     code \<leftarrow> type_check_code iter (tr_code self) vm;
     (inputs, ad) \<leftarrow> dedup_inputs inputs ir;
     conds \<leftarrow> those (map (cond_adapt ad) conds);
     actions \<leftarrow> those (map (trigger_action ir inputs conds (vm_env vm) code) [0..<length inputs]);
     let (tid, ir) = ir_add_trigger ir \<lparr>t_foralls = foralls, t_inputs = inputs, t_conditions = conds, t_code = code\<rparr>;
     fold_option (add_trigger_action tid) actions ir }"

end
