(* ===== verification/Ast_Define.thy ===== *)
theory Ast_Define
  imports Ast "HOL-Library.AList"
begin

text \<open>
  The definitions of a constraint file: enums and integers (\<^verbatim>\<open>ast/choice/enumeration.rs\<close>, \<^verbatim>\<open>ast/choice/integer.rs\<close>), sets with their
  quotients (\<^verbatim>\<open>ast/set.rs\<close>), counters (\<^verbatim>\<open>ast/choice/counter.rs\<close>), and the type check of the whole file (\<^verbatim>\<open>ast/mod.rs\<close>).
\<close>

section \<open>Checks on enums\<close>

text \<open>The names of the values and aliases, and the symmetries, that have been seen.\<close>

type_synonym field_state = "(string \<rightharpoonup> unit spanned) \<times> unit spanned option \<times> unit spanned option"

fun redefinition_step :: "enum_statement \<Rightarrow> field_state \<Rightarrow> field_state checked" where
  "redefinition_step (ES_AntiSymmetric spanned) (hash, symmetric, antisymmetric) =
     (case antisymmetric of
        Some earlier \<Rightarrow> Inl (TE_Redefinition (with_data earlier H_EnumAttribute) (with_data spanned ''Antisymmetric''))
      | None \<Rightarrow> Inr (hash, symmetric, Some (with_data spanned ())))"
| "redefinition_step (ES_Symmetric spanned) (hash, symmetric, antisymmetric) =
     (case symmetric of
        Some earlier \<Rightarrow> Inl (TE_Redefinition (with_data earlier H_EnumAttribute) (with_data spanned ''Symmetric''))
      | None \<Rightarrow> Inr (hash, Some (with_data spanned ()), antisymmetric))"
| "redefinition_step (ES_Value spanned _ _) (hash, symmetric, antisymmetric) =
     (case hash (sp_data spanned) of
        Some earlier \<Rightarrow> Inl (TE_Redefinition (with_data earlier H_EnumAttribute) (with_data spanned (sp_data spanned)))
      | None \<Rightarrow> Inr (hash(sp_data spanned \<mapsto> with_data spanned ()), symmetric, antisymmetric))"
| "redefinition_step (ES_Alias spanned _ _ _) (hash, symmetric, antisymmetric) =
     (case hash (sp_data spanned) of
        Some earlier \<Rightarrow> Inl (TE_Redefinition (with_data earlier H_EnumAttribute) (with_data spanned (sp_data spanned)))
      | None \<Rightarrow> Inr (hash(sp_data spanned \<mapsto> with_data spanned ()), symmetric, antisymmetric))"

definition check_redefinition_field :: "enum_decl \<Rightarrow> unit checked" where
  "check_redefinition_field self =
     and_then (fold_checked redefinition_step (en_statements self) (Map.empty, None, None)) (\<lambda>_. Inr ())"

fun parameter_step :: "var_def \<Rightarrow> (string \<rightharpoonup> unit spanned) \<Rightarrow> (string \<rightharpoonup> unit spanned) checked" where
  "parameter_step v hash =
     (let name = vd_name v in
      case hash (sp_data name) of
        Some earlier \<Rightarrow> Inl (TE_Redefinition (with_data earlier H_EnumAttribute) (with_data name (sp_data name)))
      | None \<Rightarrow> Inr (hash(sp_data name \<mapsto> with_data name ())))"

definition check_redefinition_parameter :: "enum_decl \<Rightarrow> unit checked" where
  "check_redefinition_parameter self = and_then (fold_checked parameter_step (en_variables self) Map.empty) (\<lambda>_. Inr ())"

fun conflict_step :: "enum_statement \<Rightarrow> unit spanned option \<times> unit spanned option \<Rightarrow> (unit spanned option \<times> unit spanned option) checked" where
  "conflict_step (ES_AntiSymmetric spanned) (symmetric, antisymmetric) =
     (case symmetric of
        Some s \<Rightarrow> Inl (TE_Conflict (with_data s ''Symmetric'') (with_data spanned ''Antisymmetric''))
      | None \<Rightarrow> Inr (symmetric, Some (with_data spanned ())))"
| "conflict_step (ES_Symmetric spanned) (symmetric, antisymmetric) =
     (case antisymmetric of
        Some s \<Rightarrow> Inl (TE_Conflict (with_data s ''Antisymmetric'') (with_data spanned ''Symmetric''))
      | None \<Rightarrow> Inr (Some (with_data spanned ()), antisymmetric))"
| "conflict_step _ s = Inr s"

definition check_conflict :: "enum_decl \<Rightarrow> unit checked" where
  "check_conflict self = and_then (fold_checked conflict_step (en_statements self) (None, None)) (\<lambda>_. Inr ())"

fun field_names :: "enum_statement list \<Rightarrow> string set" where
  "field_names [] = {}"
| "field_names (ES_Value spanned _ _ # ss) = insert (sp_data spanned) (field_names ss)"
| "field_names (ES_Alias spanned _ _ _ # ss) = insert (sp_data spanned) (field_names ss)"
| "field_names (_ # ss) = field_names ss"

fun check_pairs :: "string set \<Rightarrow> (string \<times> string) list spanned \<Rightarrow> (string \<times> string) list \<Rightarrow> unit checked" where
  "check_pairs hash spanned [] = Inr ()"
| "check_pairs hash spanned ((first, second) # pairs) =
     (if first \<notin> hash then Inl (TE_Undefined (with_data spanned first))
      else if second \<notin> hash then Inl (TE_Undefined (with_data spanned second))
      else check_pairs hash spanned pairs)"

fun check_alias_values :: "string set \<Rightarrow> string spanned \<Rightarrow> string list \<Rightarrow> unit checked" where
  "check_alias_values hash spanned [] = Inr ()"
| "check_alias_values hash spanned (v # vs) =
     (if v \<notin> hash then Inl (TE_Undefined (with_data spanned v)) else check_alias_values hash spanned vs)"

fun field_step :: "string set \<Rightarrow> enum_statement \<Rightarrow> unit \<Rightarrow> unit checked" where
  "field_step hash (ES_AntiSymmetric spanned) _ = check_pairs hash spanned (sp_data spanned)"
| "field_step hash (ES_Alias spanned _ vals _) _ = check_alias_values hash spanned vals"
| "field_step hash _ _ = Inr ()"

definition check_field :: "enum_decl \<Rightarrow> unit checked" where
  "check_field self = fold_checked (field_step (field_names (en_statements self))) (en_statements self) ()"

fun is_symmetry :: "enum_statement \<Rightarrow> bool" where
  "is_symmetry (ES_Symmetric _) = True"
| "is_symmetry (ES_AntiSymmetric _) = True"
| "is_symmetry _ = False"

definition bad_symmetric_arg :: "enum_decl \<Rightarrow> type_error" where
  "bad_symmetric_arg self = TE_BadSymmetricArg (en_name self) (map (\<lambda>v. (vd_name v, sr_name (vd_set v))) (en_variables self))"

definition check_two_parameter :: "enum_decl \<Rightarrow> unit checked" where
  "check_two_parameter self =
     (if list_ex is_symmetry (en_statements self) \<and> length (en_variables self) \<noteq> 2 then Inl (bad_symmetric_arg self) else Inr ())"

definition check_same_parameter :: "enum_decl \<Rightarrow> unit checked" where
  "check_same_parameter self =
     (if list_ex is_symmetry (en_statements self) then
        (case en_variables self of
           [v, w] \<Rightarrow> if sr_name (vd_set v) \<noteq> sr_name (vd_set w) then Inl (bad_symmetric_arg self) else Inr ()
         | _ \<Rightarrow> Inr ())
      else Inr ())"

section \<open>Definition of enums\<close>

text \<open>\<^verbatim>\<open>to_type_name\<close> of \<^verbatim>\<open>lib.rs\<close>, on ASCII characters.\<close>

definition to_uppercase :: "char \<Rightarrow> char" where
  "to_uppercase c = (if (CHR ''a'' \<le> c \<and> c \<le> CHR ''z'') then char_of (of_char c - 32 :: nat) else c)"

fun type_name_loop :: "string \<Rightarrow> bool \<Rightarrow> bool \<Rightarrow> string" where
  "type_name_loop [] is_new_word last_is_sep = []"
| "type_name_loop (c # cs) is_new_word last_is_sep =
     (let out = (if c \<noteq> CHR ''_'' \<or> last_is_sep then [if is_new_word then to_uppercase c else c] else []);
          last_is_sep = (c = CHR ''_'')
      in out @ type_name_loop cs (last_is_sep \<or> (CHR ''0'' \<le> c \<and> c \<le> CHR ''9'')) last_is_sep)"

definition to_type_name :: "string \<Rightarrow> string" where
  "to_type_name name = type_name_loop name True True"

datatype symmetry = Sym_Symmetric | Sym_AntiSymmetric "(string \<times> string) list"

record enum_statements =
  es_values :: "(string \<times> string option) list"
  es_aliases :: "(string \<times> string option \<times> string fset) list"
  es_symmetry :: "symmetry option"
  es_constraints :: "(string \<times> constraint_decl) list"

definition es_default :: enum_statements where
  "es_default = \<lparr>es_values = [], es_aliases = [], es_symmetry = None, es_constraints = []\<rparr>"

fun add_statement :: "enum_statement \<Rightarrow> enum_statements \<Rightarrow> enum_statements option" where
  "add_statement (ES_Value name doc constraints) s =
     (if map_of (es_values s) (sp_data name) = None
      then Some (s\<lparr>es_values := es_values s @ [(sp_data name, doc)], es_constraints := es_constraints s @ map (Pair (sp_data name)) constraints\<rparr>)
      else None)"
| "add_statement (ES_Alias name doc vals constraints) s =
     (if map_of (es_aliases s) (sp_data name) = None
      then Some (s\<lparr>es_aliases := es_aliases s @ [(sp_data name, doc, fset_of_list vals)],
        es_constraints := es_constraints s @ map (Pair (sp_data name)) constraints\<rparr>)
      else None)"
| "add_statement (ES_Symmetric _) s = (if es_symmetry s = None then Some (s\<lparr>es_symmetry := Some Sym_Symmetric\<rparr>) else None)"
| "add_statement (ES_AntiSymmetric mapping) s =
     (if es_symmetry s = None then Some (s\<lparr>es_symmetry := Some (Sym_AntiSymmetric (sp_data mapping))\<rparr>) else None)"

definition register_value_constraint ::
  "string \<Rightarrow> var_def list \<Rightarrow> string \<Rightarrow> constraint_decl \<Rightarrow> constraint_decl" where
  "register_value_constraint choice args v constraint =
     (let condition = AC_Is \<lparr>ai_name = choice, ai_vars = map (sp_data \<circ> vd_name) args\<rparr> [v] False
      in constraint\<lparr>cn_forall_vars := args @ cn_forall_vars constraint,
           cn_disjunctions := map (\<lambda>d. d @ [condition]) (cn_disjunctions constraint)\<rparr>)"

text \<open>The values of the mapping are values of the enum, and are mapped once.\<close>

fun check_mapping :: "(string \<times> string option) list \<Rightarrow> (string \<times> string) list \<Rightarrow> string set \<Rightarrow> bool" where
  "check_mapping vals [] mapped = True"
| "check_mapping vals ((l, r) # mapping) mapped =
     (map_of vals l \<noteq> None \<and> map_of vals r \<noteq> None \<and> l \<notin> mapped \<and> r \<notin> insert l mapped
      \<and> check_mapping vals mapping (insert r (insert l mapped)))"

text \<open>The loop that expands an alias; the inner \<open>None\<close> is a panic, the outer one a loop that does not end.\<close>

partial_function (option) expand_alias ::
  "(string list \<Rightarrow> string list) \<Rightarrow> string list \<Rightarrow> (string \<times> string option \<times> string fset) list \<Rightarrow> string \<Rightarrow> string list \<Rightarrow> string fset
    \<Rightarrow> string fset option option" where
  "expand_alias iter keys aliases name vals expanded =
     (if vals = [] then Some (Some expanded)
      else if last vals \<in> set keys then expand_alias iter keys aliases name (butlast vals) (finsert (last vals) expanded)
      else if name = last vals then Some None
      else (case map_of aliases (last vals) of
          Some (_, sub_vals) \<Rightarrow> expand_alias iter keys aliases name (butlast vals @ iter (sorted_list_of_fset sub_vals)) expanded
        | None \<Rightarrow> Some None))"

definition expand_one_alias ::
  "(string list \<Rightarrow> string list) \<Rightarrow> string list \<Rightarrow> string \<Rightarrow> (string \<times> string option \<times> string fset) list
    \<Rightarrow> (string \<times> string option \<times> string fset) list option" where
  "expand_one_alias iter keys name aliases =
     (if name \<in> set keys then None
      else do {
        (doc, vals) \<leftarrow> map_of aliases name;
        r \<leftarrow> expand_alias iter keys (AList.update name (doc, {||}) aliases) name (iter (sorted_list_of_fset vals)) {||};
        expanded \<leftarrow> r;
        Some (AList.update name (doc, expanded) aliases) })"

definition enum_of_statements ::
  "(string list \<Rightarrow> string list) \<Rightarrow> string \<Rightarrow> string option \<Rightarrow> enum_statements \<Rightarrow> enum_def option" where
  "enum_of_statements iter name doc stmts = do {
     inversed \<leftarrow> (case es_symmetry stmts of
         Some (Sym_AntiSymmetric mapping) \<Rightarrow> if check_mapping (es_values stmts) mapping {} then Some (Some mapping) else None
       | _ \<Rightarrow> Some None);
     e \<leftarrow> fold_option (\<lambda>(v, doc) e. enum_add_value e v doc) (es_values stmts) (enum_new name doc inversed);
     aliases \<leftarrow> fold_option (expand_one_alias iter (enum_keys e)) (map fst (es_aliases stmts)) (es_aliases stmts);
     fold_option (\<lambda>(v, doc, vals) e. enum_add_alias e v vals doc) aliases e }"

definition register_enum ::
  "(string list \<Rightarrow> string list) \<Rightarrow> enum_decl \<Rightarrow> ir_desc \<times> constraint_decl list \<Rightarrow> (ir_desc \<times> constraint_decl list) option" where
  "register_enum iter self = (\<lambda>(ir, constraints). do {
     let enum_name = to_type_name (sp_data (en_name self));
     let choice_name = sp_data (en_name self);
     stmts \<leftarrow> fold_option add_statement (en_statements self) es_default;
     let constraints = constraints @ map (\<lambda>(v, c). register_value_constraint choice_name (en_variables self) v c) (es_constraints stmts);
     (sets, _) \<leftarrow> decl_all (decl_argument ir) (en_variables self) vm_default;
     arguments \<leftarrow> args_new (zip (map (sp_data \<circ> vd_name) (en_variables self)) sets) (es_symmetry stmts \<noteq> None)
       (case es_symmetry stmts of Some (Sym_AntiSymmetric _) \<Rightarrow> True | _ \<Rightarrow> False);
     e \<leftarrow> enum_of_statements iter enum_name (en_doc self) stmts;
     ir \<leftarrow> ir_add_enum ir e;
     c \<leftarrow> choice_new choice_name (en_doc self) arguments (CD_Enum enum_name);
     ir \<leftarrow> ir_add_choice ir c;
     Some (ir, constraints) })"

definition enum_checks :: "checker_context \<Rightarrow> enum_decl \<Rightarrow> unit checked" where
  "enum_checks context self =
     and_then (check_undefined_variables context (en_name self) (en_variables self)) (\<lambda>_.
     and_then (check_redefinition_parameter self) (\<lambda>_.
     and_then (check_redefinition_field self) (\<lambda>_.
     and_then (check_field self) (\<lambda>_.
     and_then (check_two_parameter self) (\<lambda>_.
     and_then (check_same_parameter self) (\<lambda>_.
     check_conflict self))))))"

section \<open>Definition of integers\<close>

definition define_integer :: "(string list \<Rightarrow> string list) \<Rightarrow> integer_decl \<Rightarrow> ir_desc \<Rightarrow> ir_desc option" where
  "define_integer iter self ir = do {
     (sets, vm) \<leftarrow> decl_all (decl_argument ir) (in_variables self) vm_default;
     arguments \<leftarrow> args_new (zip (map (sp_data \<circ> vd_name) (in_variables self)) sets) False False;
     universe \<leftarrow> type_check_code iter (in_code self) vm;
     c \<leftarrow> choice_new (sp_data (in_name self)) (in_doc self) arguments (CD_Number universe);
     ir_add_choice ir c }"

section \<open>Checks on sets\<close>

text \<open>\<^verbatim>\<open>SetDefKey::to_string\<close>.\<close>

fun key_name :: "set_def_key \<Rightarrow> string" where
  "key_name ItemType = ''ItemType''" | "key_name IdType = ''IdType''" | "key_name ItemGetter = ''ItemGetter''"
| "key_name IdGetter = ''IdGetter''" | "key_name Iter = ''Iter''" | "key_name FromSuperset = ''FromSuperset''"
| "key_name Prefix = ''Prefix''" | "key_name NewObjs = ''NewObjs''" | "key_name Reverse = ''Reverse''"
| "key_name AddToSet = ''AddToSet''"

fun key_step :: "set_def_key spanned \<times> var_def option \<times> string \<Rightarrow> (set_def_key \<rightharpoonup> unit spanned) \<Rightarrow> (set_def_key \<rightharpoonup> unit spanned) checked" where
  "key_step (key, _, _) hash =
     (case hash (sp_data key) of
        Some pre \<Rightarrow> Inl (TE_Redefinition (with_data pre H_Set) (with_data key (key_name (sp_data key))))
      | None \<Rightarrow> Inr (hash(sp_data key \<mapsto> with_data key ())))"

definition check_redefinition_key :: "set_decl \<Rightarrow> unit checked" where
  "check_redefinition_key self = and_then (fold_checked key_step (st_keys self) Map.empty) (\<lambda>_. Inr ())"

definition missing_entry :: "set_decl \<Rightarrow> set_def_key \<Rightarrow> type_error" where
  "missing_entry self key = TE_MissingEntry (sp_data (st_name self)) (with_data (st_name self) (key_name key))"

definition check_missing_entry :: "set_decl \<Rightarrow> unit checked" where
  "check_missing_entry self =
     (let keys = map (\<lambda>(k, _, _). sp_data k) (st_keys self) in
      case List.find (\<lambda>k. k \<notin> set keys) key_REQUIRED of
        Some key \<Rightarrow> Inl (missing_entry self key)
      | None \<Rightarrow> if st_superset self \<noteq> None \<and> FromSuperset \<notin> set keys then Inl (missing_entry self FromSuperset) else Inr ())"

definition undefined_set :: "set_decl \<Rightarrow> string \<Rightarrow> type_error" where
  "undefined_set self name = TE_Undefined (with_data (st_name self) name)"

definition check_set_ref :: "checker_context \<Rightarrow> set_decl \<Rightarrow> set_ref \<Rightarrow> unit checked" where
  "check_set_ref context self r = (if check_set_define context r then Inr () else Inl (undefined_set self (sr_name r)))"

definition check_undefined_reverse_subset :: "checker_context \<Rightarrow> set_decl \<Rightarrow> unit checked" where
  "check_undefined_reverse_subset context self =
     (if st_arg self \<noteq> None then
        (case List.find (\<lambda>(k, _, _). sp_data k = Reverse) (st_keys self) of
           Some (_, Some v, _) \<Rightarrow> check_set_ref context self (vd_set v)
         | _ \<Rightarrow> Inr ())
      else Inr ())"

definition check_undefined_argument :: "checker_context \<Rightarrow> set_decl \<Rightarrow> unit checked" where
  "check_undefined_argument context self = (case st_arg self of Some v \<Rightarrow> check_set_ref context self (vd_set v) | None \<Rightarrow> Inr ())"

definition check_undefined_superset :: "checker_context \<Rightarrow> set_decl \<Rightarrow> unit checked" where
  "check_undefined_superset context self = (case st_superset self of Some r \<Rightarrow> check_set_ref context self r | None \<Rightarrow> Inr ())"

definition check_undefined_disjoint :: "checker_context \<Rightarrow> set_decl \<Rightarrow> unit checked" where
  "check_undefined_disjoint context self =
     fold_checked (\<lambda>dis _. check_set_ref context self \<lparr>sr_name = dis, sr_var = None\<rparr>) (st_disjoint self) ()"

definition set_checks :: "checker_context \<Rightarrow> set_decl \<Rightarrow> unit checked" where
  "set_checks context self =
     and_then (check_undefined_argument context self) (\<lambda>_.
     and_then (check_undefined_superset context self) (\<lambda>_.
     and_then (check_undefined_disjoint context self) (\<lambda>_.
     and_then (check_undefined_reverse_subset context self) (\<lambda>_.
     and_then (check_redefinition_key self) (\<lambda>_.
     check_missing_entry self)))))"

section \<open>Quotient sets\<close>

text \<open>\<^verbatim>\<open>print::add_to_quotient\<close>; \<open>render\<close> is the template.\<close>

definition add_to_quotient ::
  "(string \<Rightarrow> string \<Rightarrow> string \<Rightarrow> string \<Rightarrow> string option \<Rightarrow> string) \<Rightarrow> set_def \<Rightarrow> string \<Rightarrow> string \<Rightarrow> string \<Rightarrow> string option \<Rightarrow> string option" where
  "add_to_quotient render def repr_name counter_name item var = do {
     add \<leftarrow> map_of (sd_keys def) AddToSet;
     let add = str_replace add ''$item'' (''$'' @ item);
     let add = (case var of Some v \<Rightarrow> str_replace add ''$var'' (''$'' @ v) | None \<Rightarrow> add);
     Some (render repr_name counter_name add item var) }"

definition create_repr_choice :: "set_decl \<Rightarrow> string \<Rightarrow> set_def \<Rightarrow> string \<Rightarrow> ir_desc \<Rightarrow> ir_desc option" where
  "create_repr_choice self name def item_name ir = do {
     arg \<leftarrow> (case st_arg self of Some v \<Rightarrow> do { s \<leftarrow> sd_arg def; Some [(sp_data (vd_name v), s)] } | None \<Rightarrow> Some []);
     superset \<leftarrow> sd_superset def;
     args \<leftarrow> args_new (arg @ [(item_name, superset)]) False False;
     repr \<leftarrow> choice_new name None args (CD_Enum ''Bool'');
     repr \<leftarrow> c_add_fragile_values (vs_enum_values ''Bool'' {|''FALSE''|}) repr;
     ir_add_choice ir repr }"

text \<open>The counter of the objects that represent another object; the check and the definition that are added, and its name.\<close>

definition create_repr_counter ::
  "set_decl \<Rightarrow> string \<Rightarrow> string \<Rightarrow> string \<Rightarrow> var_def list \<Rightarrow> string \<Rightarrow> string list \<Rightarrow> ast_check \<times> choice_decl \<times> string" where
  "create_repr_counter self set_name repr_name item_name vars equiv_choice_name equiv_values =
     (let rhs_name = item_name @ ''_repr'';
          rhs_set = \<lparr>sr_name = set_name, sr_var = map_option (sp_data \<circ> vd_name) (st_arg self)\<rparr>;
          condition = AC_Is \<lparr>ai_name = equiv_choice_name, ai_vars = [item_name, rhs_name]\<rparr> equiv_values True;
          name = repr_name @ ''_class_counter'';
          body = \<lparr>cb_base = ''0'', cb_kind = CK_Add, cb_iter_vars = [\<lparr>vd_name = spanned_default rhs_name, vd_set = rhs_set\<rparr>],
            cb_value = ACV_Code ''1'', cb_conditions = [condition]\<rparr>
      in (Check_IsSymmetric equiv_choice_name equiv_values,
          CH_Counter \<lparr>ct_name = spanned_default name, ct_doc = None, ct_visibility = HiddenMax, ct_vars = vars, ct_body = body\<rparr>, name))"

text \<open>The constraints that make the representant flag follow the conditions and the counter.\<close>

definition quotient_constraints ::
  "set_decl \<Rightarrow> string \<Rightarrow> quotient \<Rightarrow> var_def list \<Rightarrow> ast_instance \<Rightarrow> ast_instance \<Rightarrow> constraint_decl list" where
  "quotient_constraints self set_name quot forall_vars repr_instance counter_instance =
     (let not_repr = new_is_bool repr_instance False;
          counter_leq_zero = AC_CmpCode counter_instance ''0'' Leq;
          repr_true = new_is_bool repr_instance True;
          item_def = \<lparr>vd_name = vd_name (q_item quot), vd_set = \<lparr>sr_name = set_name, sr_var = map_option (sp_data \<circ> vd_name) (st_arg self)\<rparr>\<rparr>
      in [constraint_new forall_vars (map (\<lambda>c. [not_repr, c]) (q_conditions quot) @ [[not_repr, counter_leq_zero]]),
          \<lparr>cn_forall_vars = forall_vars,
           cn_disjunctions = [[repr_true, ast_negate counter_leq_zero] @ map ast_negate (q_conditions quot)], cn_restrict_fragile = False\<rparr>,
          constraint_new ((case st_arg self of Some v \<Rightarrow> [v] | None \<Rightarrow> []) @ [item_def]) [[repr_true]]])"

definition create_quotient ::
  "(string \<Rightarrow> string \<Rightarrow> string \<Rightarrow> string \<Rightarrow> string option \<Rightarrow> string) \<Rightarrow> set_decl \<Rightarrow> quotient \<Rightarrow> set_def \<Rightarrow> ast \<Rightarrow> ast option" where
  "create_quotient render self quot def a = do {
     let repr_name = q_representant quot;
     let item_name = sp_data (vd_name (q_item quot));
     ir \<leftarrow> create_repr_choice self repr_name def item_name (a_ir_desc a);
     let arg_name = map_option (sp_data \<circ> vd_name) (st_arg self);
     let forall_vars = (case st_arg self of Some v \<Rightarrow> [v] | None \<Rightarrow> []) @ [q_item quot];
     let (check, counter, counter_name) = create_repr_counter self (sd_name def) repr_name item_name forall_vars
       (fst (q_equiv_relation quot)) (snd (q_equiv_relation quot));
     code \<leftarrow> add_to_quotient render def repr_name counter_name item_name arg_name;
     let names = map (sp_data \<circ> vd_name) forall_vars;
     let repr_instance = \<lparr>ai_name = repr_name, ai_vars = names\<rparr>;
     let counter_instance = \<lparr>ai_name = counter_name, ai_vars = names\<rparr>;
     Some (a\<lparr>a_ir_desc := ir, a_checks := a_checks a @ [check], a_choice_defs := a_choice_defs a @ [counter],
       a_constraints := a_constraints a @ quotient_constraints self (sd_name def) quot forall_vars repr_instance counter_instance,
       a_triggers := a_triggers a @ [\<lparr>tr_foralls = forall_vars,
         tr_conditions = q_conditions quot @ [AC_CmpCode counter_instance ''0'' Leq], tr_code = code\<rparr>]\<rparr>) }"

section \<open>Definition of sets\<close>

text \<open>One turn of the loop on the keys: the attributes and the reverse set.\<close>

definition define_key ::
  "ir_desc \<Rightarrow> string option \<Rightarrow> ir_set option \<Rightarrow> set_def_key spanned \<times> var_def option \<times> string
    \<Rightarrow> (set_def_key \<times> string) list \<times> (ir_set \<times> string) option \<Rightarrow> ((set_def_key \<times> string) list \<times> (ir_set \<times> string) option) option" where
  "define_key ir arg_name superset = (\<lambda>(k, var, v) (keymap, revs). do {
     let key = sp_data k;
     let v = (case arg_name of Some n \<Rightarrow> if key_is_arg_in_env key then str_replace v n ''$var'' else v | None \<Rightarrow> v);
     if key = Reverse then do {
       def \<leftarrow> var;
       let v = str_replace v (''$'' @ sp_data (vd_name def)) ''$var'';
       s \<leftarrow> set_ref_type_check ir vm_default (vd_set def);
       super \<leftarrow> superset;
       if set_is_subset_of_def super s \<and> revs = None then Some (keymap, Some (s, v)) else None }
     else if var = None \<and> map_of keymap key = None then Some (keymap @ [(key, v)], revs) else None })"

definition define_set ::
  "(string \<Rightarrow> string \<Rightarrow> string \<Rightarrow> string \<Rightarrow> string option \<Rightarrow> string) \<Rightarrow> set_decl \<Rightarrow> ast \<Rightarrow> ast option" where
  "define_set render self a = do {
     let ir = a_ir_desc a;
     let arg_name = map_option (\<lambda>v. ''$'' @ sp_data (vd_name v)) (st_arg self);
     (arg, vm) \<leftarrow> (case st_arg self of
         Some v \<Rightarrow> do { (s, vm) \<leftarrow> decl_argument ir v vm_default; Some (Some s, vm) }
       | None \<Rightarrow> Some (None, vm_default));
     superset \<leftarrow> (case st_superset self of Some r \<Rightarrow> map_option Some (set_ref_type_check ir vm r) | None \<Rightarrow> Some None);
     _ \<leftarrow> those (map (ir_get_set_def ir) (st_disjoint self));
     (keymap, revs) \<leftarrow> fold_option (define_key ir arg_name superset) (st_keys self) ([], None);
     def \<leftarrow> sd_new (sp_data (st_name self)) arg superset revs keymap (st_disjoint self);
     a \<leftarrow> (case st_quotient self of Some quot \<Rightarrow> create_quotient render self quot def a | None \<Rightarrow> Some a);
     ir \<leftarrow> ir_add_set_def (a_ir_desc a) def;
     Some (a\<lparr>a_ir_desc := ir, a_set_defs := a_set_defs a @ [self]\<rparr>) }"

section \<open>Counters\<close>

text \<open>The value is adapted twice, as in the source.\<close>

definition gen_incr_counter ::
  "string \<Rightarrow> nat \<Rightarrow> var_map \<Rightarrow> choice_instance \<Rightarrow> value_set \<Rightarrow> counter_val \<Rightarrow> ir_desc \<Rightarrow> on_change_action option" where
  "gen_incr_counter counter num_counter_args vm incr incr_condition v ir = do {
     (forall_vars, constraints, ad) \<leftarrow> adapt_env ir (vm_env vm) incr;
     let v = cv_adapt ad v;
     condition \<leftarrow> vs_adapt ad incr_condition;
     Some \<lparr>oc_forall_vars = forall_vars, oc_set_constraints = constraints,
       oc_action = IncrCounter \<lparr>ci_choice = counter, ci_vars = map (ad_variable ad \<circ> Arg) [0..<num_counter_args]\<rparr> (cv_adapt ad v) condition\<rparr> }"

fun visibility_rank :: "counter_visibility \<Rightarrow> nat" where
  "visibility_rank NoMax = 0" | "visibility_rank HiddenMax = 1" | "visibility_rank Full = 2"

fun valid_counter_value :: "counter_visibility \<Rightarrow> counter_kind \<Rightarrow> choice_def \<Rightarrow> bool" where
  "valid_counter_value caller_visibility kind (CD_Counter value_kind _ _ _ _ visibility _) \<longleftrightarrow>
     \<not> (kind = CK_Mul \<and> value_kind = CK_Add) \<and> visibility_rank caller_visibility \<ge> visibility_rank visibility"
| "valid_counter_value caller_visibility kind (CD_Number _) \<longleftrightarrow> True"
| "valid_counter_value caller_visibility kind (CD_Enum _) \<longleftrightarrow> False"

definition counter_val_choice ::
  "ast_instance \<Rightarrow> counter_visibility \<Rightarrow> string \<Rightarrow> choice_instance \<Rightarrow> value_set \<Rightarrow> counter_kind \<Rightarrow> nat \<Rightarrow> var_map \<Rightarrow> ir_desc
    \<Rightarrow> (counter_val \<times> on_change_action) option" where
  "counter_val_choice counter caller_visibility caller incr incr_condition kind num_caller_vars vm ir = do {
     value_choice \<leftarrow> get_choice ir (ai_name counter);
     if valid_counter_value caller_visibility kind (c_choice_def value_choice) then do {
       inst \<leftarrow> instance_type_check ir vm counter;
       (forall_vars, constraints, ad) \<leftarrow> adapt_env ir (vm_env vm) inst;
       condition \<leftarrow> vs_adapt ad incr_condition;
       let caller_vars = map (ad_variable ad \<circ> Arg) [0..<num_caller_vars];
       Some (CV_Choice inst, \<lparr>oc_forall_vars = forall_vars, oc_set_constraints = constraints,
         oc_action = UpdateCounter \<lparr>ci_choice = caller, ci_vars = caller_vars\<rparr> (ci_adapt ad incr) condition\<rparr>) }
     else None }"

fun forall_id :: "variable \<Rightarrow> nat option" where
  "forall_id (Forall i) = Some i"
| "forall_id (Arg _) = None"

text \<open>A single condition on an enum is the increment itself, when it uses all the variables that are iterated on.\<close>

definition direct_increment ::
  "nat \<Rightarrow> ast_condition list \<Rightarrow> var_map \<Rightarrow> ir_desc \<Rightarrow> (choice_instance \<times> value_set) option option" where
  "direct_increment num_iter_vars conds vm ir =
     (case conds of
        [AC_Is lhs rhs is] \<Rightarrow> do {
          incr \<leftarrow> instance_type_check ir vm lhs;
          if length (remdups (List.map_filter forall_id (ci_vars incr))) = num_iter_vars then do {
            c \<leftarrow> get_choice ir (ci_choice incr);
            name \<leftarrow> cd_as_enum (c_choice_def c);
            e \<leftarrow> get_enum ir name;
            vals \<leftarrow> type_check_enum_values e rhs;
            Some (Some (incr, vs_enum_values (e_name e) (if is then vals else fset_of_list (filter (\<lambda>v. v |\<notin>| vals) (enum_keys e))))) }
          else Some None }
      | _ \<Rightarrow> Some None)"

text \<open>The constraint that makes the flag of the increment follow the conditions.\<close>

definition increment_constraint :: "ast_instance \<Rightarrow> var_def list \<Rightarrow> ast_condition list \<Rightarrow> constraint_decl" where
  "increment_constraint incr_instance all_vars_defs conds =
     (let is_false = new_is_bool incr_instance False
      in constraint_new all_vars_defs (map (\<lambda>c. [c, is_false]) conds @ [map ast_negate (is_false # conds)]))"

definition gen_increment ::
  "string \<Rightarrow> (string \<times> ir_set) list \<Rightarrow> (string \<times> ir_set) list \<Rightarrow> var_def list \<Rightarrow> ast_condition list \<Rightarrow> var_map
    \<Rightarrow> ir_desc \<times> constraint_decl list \<Rightarrow> ((choice_instance \<times> value_set) \<times> ir_desc \<times> constraint_decl list) option" where
  "gen_increment counter counter_vars iter_vars all_vars_defs conds vm = (\<lambda>(ir, constraints). do {
     direct \<leftarrow> direct_increment (length iter_vars) conds vm ir;
     (case direct of
        Some r \<Rightarrow> Some (r, ir, constraints)
      | None \<Rightarrow> do {
          let name = ''increment_'' @ counter;
          args \<leftarrow> args_new (counter_vars @ iter_vars) False False;
          incr_choice \<leftarrow> choice_new name None args (CD_Enum ''Bool'');
          ir \<leftarrow> ir_add_choice ir incr_choice;
          let incr_instance = \<lparr>ai_name = name, ai_vars = map fst (counter_vars @ iter_vars)\<rparr>;
          let vars = map Arg [0..<length counter_vars] @ map Forall [0..<length iter_vars];
          Some ((\<lparr>ci_choice = name, ci_vars = vars\<rparr>, vs_enum_values ''Bool'' {|''TRUE''|}), ir,
            constraints @ [increment_constraint incr_instance all_vars_defs conds]) }) })"

definition named_sets :: "var_def list \<Rightarrow> ir_set list \<Rightarrow> (string \<times> ir_set) list" where
  "named_sets defs sets = zip (map (sp_data \<circ> vd_name) defs) sets"

definition filter_self_action :: on_change_action where
  "filter_self_action = \<lparr>oc_forall_vars = [], oc_set_constraints = [], oc_action = FilterSelf\<rparr>"

definition register_counter ::
  "(string list \<Rightarrow> string list) \<Rightarrow> counter_decl \<Rightarrow> ir_desc \<times> constraint_decl list \<Rightarrow> (ir_desc \<times> constraint_decl list) option" where
  "register_counter iter self = (\<lambda>(ir, constraints). do {
     let body = ct_body self;
     let name = sp_data (ct_name self);
     (var_sets, vm) \<leftarrow> decl_all (decl_argument ir) (ct_vars self) vm_default;
     base \<leftarrow> type_check_code iter (cb_base body) vm;
     (iter_sets, vm) \<leftarrow> decl_all (decl_forall ir) (cb_iter_vars body) vm;
     ((incr, incr_condition), ir, constraints) \<leftarrow> gen_increment name (named_sets (ct_vars self) var_sets)
       (named_sets (cb_iter_vars body) iter_sets) (ct_vars self @ cb_iter_vars body) (cb_conditions body) vm (ir, constraints);
     (v, ir) \<leftarrow> (case cb_value body of
         ACV_Code code \<Rightarrow> do { c \<leftarrow> type_check_code iter code vm; Some (CV_Code c, ir) }
       | ACV_Choice counter \<Rightarrow> do {
           (v, action) \<leftarrow> counter_val_choice counter (ct_visibility self) name incr incr_condition (cb_kind body)
             (length (ct_vars self)) vm ir;
           ir \<leftarrow> ir_add_onchange (ai_name counter) action ir;
           Some (v, ir) });
     incr_counter \<leftarrow> gen_incr_counter name (length (ct_vars self)) vm incr incr_condition v ir;
     ir \<leftarrow> ir_add_onchange (ci_choice incr) incr_counter ir;
     args \<leftarrow> args_new (named_sets (ct_vars self) var_sets) False False;
     c \<leftarrow> choice_new name (ct_doc self) args
       (CD_Counter (cb_kind body) v iter_sets incr incr_condition (ct_visibility self) base);
     ir \<leftarrow> ir_add_choice ir (c_add_onchange filter_self_action c);
     Some (ir, constraints) })"

section \<open>The type check of a file\<close>

fun run_check :: "ir_desc \<Rightarrow> ast_check \<Rightarrow> unit option" where
  "run_check ir (Check_IsSymmetric choice vals) = do {
     c \<leftarrow> get_choice ir choice;
     if args_is_symmetric (c_arguments c) then do {
       name \<leftarrow> cd_as_enum (c_choice_def c);
       e \<leftarrow> get_enum ir name;
       let value_set = enum_expand e vals;
       if enum_inverse e |`| value_set = value_set then Some () else None }
     else None }"

fun choice_define :: "(string list \<Rightarrow> string list) \<Rightarrow> checker_context \<Rightarrow> choice_decl \<Rightarrow> ast \<Rightarrow> ast checked option" where
  "choice_define iter context (CH_Counter def) a = Some (Inr (a\<lparr>a_choice_defs := a_choice_defs a @ [CH_Counter def]\<rparr>))"
| "choice_define iter context (CH_Integer def) a =
     (case check_undefined_variables context (in_name def) (in_variables def) of
        Inl e \<Rightarrow> Some (Inl e)
      | Inr _ \<Rightarrow> do { ir \<leftarrow> define_integer iter def (a_ir_desc a); Some (Inr (a\<lparr>a_ir_desc := ir\<rparr>)) })"
| "choice_define iter context (CH_Enum def) a =
     (case enum_checks context def of
        Inl e \<Rightarrow> Some (Inl e)
      | Inr _ \<Rightarrow> do {
          (ir, constraints) \<leftarrow> register_enum iter def (a_ir_desc a, a_constraints a);
          Some (Inr (a\<lparr>a_ir_desc := ir, a_constraints := constraints\<rparr>)) })"

fun stmt_define ::
  "(string list \<Rightarrow> string list) \<Rightarrow> (string \<Rightarrow> string \<Rightarrow> string \<Rightarrow> string \<Rightarrow> string option \<Rightarrow> string) \<Rightarrow> checker_context \<Rightarrow> statement \<Rightarrow> ast
    \<Rightarrow> ast checked option" where
  "stmt_define iter render context (S_SetDef def) a =
     (case set_checks context def of Inl e \<Rightarrow> Some (Inl e) | Inr _ \<Rightarrow> map_option Inr (define_set render def a))"
| "stmt_define iter render context (S_ChoiceDef def) a = choice_define iter context def a"
| "stmt_define iter render context (S_TriggerDef def) a = Some (Inr (a\<lparr>a_triggers := a_triggers a @ [def]\<rparr>))"
| "stmt_define iter render context (S_Require def) a = Some (Inr (a\<lparr>a_constraints := a_constraints a @ [def]\<rparr>))"

fun define_all ::
  "(string list \<Rightarrow> string list) \<Rightarrow> (string \<Rightarrow> string \<Rightarrow> string \<Rightarrow> string \<Rightarrow> string option \<Rightarrow> string) \<Rightarrow> checker_context \<Rightarrow> statement list \<Rightarrow> ast
    \<Rightarrow> ast checked option" where
  "define_all iter render context [] a = Some (Inr a)"
| "define_all iter render context (s # ss) a = do {
     r \<leftarrow> stmt_define iter render context s a;
     (case r of Inl e \<Rightarrow> Some (Inl e) | Inr a \<Rightarrow> define_all iter render context ss a) }"

definition register_choice ::
  "(string list \<Rightarrow> string list) \<Rightarrow> choice_decl \<Rightarrow> ir_desc \<times> constraint_decl list \<Rightarrow> (ir_desc \<times> constraint_decl list) option" where
  "register_choice iter def s = (case def of CH_Counter c \<Rightarrow> register_counter iter c s | _ \<Rightarrow> Some s)"

definition finalize :: "(string list \<Rightarrow> string list) \<Rightarrow> ast \<Rightarrow> (ir_desc \<times> ir_constraint list) option" where
  "finalize iter self = do {
     (ir, constraints) \<leftarrow> fold_option (register_choice iter) (a_choice_defs self) (a_ir_desc self, a_constraints self);
     ir \<leftarrow> fold_option (register_trigger iter) (a_triggers self) ir;
     typed \<leftarrow> those (map (constraint_type_check iter ir) constraints);
     _ \<leftarrow> those (map (run_check ir) (a_checks self));
     Some (ir, concat typed) }"

definition type_check ::
  "(string list \<Rightarrow> string list) \<Rightarrow> (string \<Rightarrow> string \<Rightarrow> string \<Rightarrow> string \<Rightarrow> string option \<Rightarrow> string) \<Rightarrow> ast
    \<Rightarrow> (ir_desc \<times> ir_constraint list) checked option" where
  "type_check iter render self =
     (case fold_checked stmt_declare (a_statements self) context_default of
        Inl e \<Rightarrow> Some (Inl e)
      | Inr context \<Rightarrow> do {
          r \<leftarrow> define_all iter render context (a_statements self) self;
          (case r of Inl e \<Rightarrow> Some (Inl e) | Inr a \<Rightarrow> map_option Inr (finalize iter a)) })"

end
