(* ===== verification/Ast_Typed.thy ===== *)
theory Ast_Typed
  imports Ast_Define Constraint_Correct
begin

text \<open>
  Soundness of the type checker: the description and the constraints of an accepted file meet what the generation of filters
  relies on. The invariant \<open>ir_inv\<close> of the description is kept by every definition; a typed condition refers to inputs that
  exist and have the right type.
\<close>

named_theorems ir_inv_intros \<open>operations that keep the invariant of the description\<close>

section \<open>The invariant of the description\<close>

definition enum_ok :: "enum_def \<Rightarrow> bool" where
  "enum_ok e \<longleftrightarrow> enum_wf e \<and> distinct (enum_keys e) \<and> (\<forall>x \<in> set (enum_keys e). enum_inverse e x \<in> set (enum_keys e))"

definition choice_inv :: "ir_desc \<Rightarrow> choice \<Rightarrow> bool" where
  "choice_inv ir c \<longleftrightarrow> (\<forall>n. c_choice_def c = CD_Enum n \<longrightarrow> get_enum ir n \<noteq> None)
     \<and> (\<forall>names s. c_arguments c = Symmetric names s True \<longrightarrow> cd_as_enum (c_choice_def c) \<noteq> None) \<and> fragile_ok ir c"

definition ir_inv :: "ir_desc \<Rightarrow> bool" where
  "ir_inv ir \<longleftrightarrow> ir_closed ir \<and> (\<exists>e. get_enum ir ''Bool'' = Some e \<and> {''TRUE'', ''FALSE''} \<subseteq> set (enum_keys e))
     \<and> (\<forall>(n, c) \<in> set (ir_choices ir). choice_inv ir c)"

lemma ir_closed_iff: "ir_closed ir \<longleftrightarrow> (\<forall>(n, e) \<in> set (ir_enums ir). e_name e = n \<and> enum_ok e)"
  by (auto simp: ir_closed_def ir_wf_def enum_ok_def)

lemma choice_inv_mono:
  assumes "choice_inv ir c" "\<And>n e. get_enum ir n = Some e \<Longrightarrow> get_enum ir' n = Some e"
  shows "choice_inv ir' c"
proof -
  have "get_enum ir n \<noteq> None \<Longrightarrow> get_enum ir' n \<noteq> None" for n using assms(2) by fastforce
  moreover have "vs_fits ir' t s \<and> vs_typed ir' [] {} s" if "vs_fits ir t s" "vs_typed ir [] {} s" for t s
    using that assms(2) by (cases s) (auto simp: vs_fits_def split: option.splits)
  ultimately show ?thesis using assms(1) by (auto simp: choice_inv_def fragile_ok_def)
qed

lemma ir_inv_cong: "ir_inv ir \<Longrightarrow> ir_choices ir' = ir_choices ir \<Longrightarrow> ir_enums ir' = ir_enums ir \<Longrightarrow> ir_inv ir'"
  using choice_inv_mono [of ir _ ir'] by (auto simp: ir_inv_def ir_closed_iff get_enum_def)

lemma ir_default_inv: "ir_default = Some ir \<Longrightarrow> ir_inv ir"
  by (auto simp: ir_default_def enum_new_def enum_add_value_def ir_add_enum_def ir_inv_def ir_closed_iff enum_ok_def enum_wf_def
      enum_keys_def enum_inverse_def get_enum_def)

lemma add_enum_inv [ir_inv_intros]:
  assumes "ir_inv ir" "ir_add_enum ir e = Some ir'" "enum_ok e"
  shows "ir_inv ir'" "get_enum ir' (e_name e) = Some e" "ir_choices ir' = ir_choices ir"
proof -
  have new: "get_enum ir (e_name e) = None" and ir': "ir' = ir\<lparr>ir_enums := ir_enums ir @ [(e_name e, e)]\<rparr>"
    using assms(2) by (auto simp: ir_add_enum_def split: if_splits)
  have mono: "get_enum ir n = Some d \<Longrightarrow> get_enum ir' n = Some d" for n d
    unfolding ir' by (simp add: get_enum_def map_add_def)
  show "get_enum ir' (e_name e) = Some e" using new unfolding ir' by (simp add: get_enum_def map_add_def)
  show "ir_choices ir' = ir_choices ir" by (simp add: ir')
  have "ir_closed ir'" using assms(1,3) unfolding ir_inv_def ir_closed_iff ir' by auto
  moreover have "choice_inv ir' c" if "(n, c) \<in> set (ir_choices ir')" for n c
    using that assms(1) choice_inv_mono [OF _ mono] by (auto simp: ir_inv_def ir')
  moreover obtain b where "get_enum ir ''Bool'' = Some b" "{''TRUE'', ''FALSE''} \<subseteq> set (enum_keys b)"
    using assms(1) by (auto simp: ir_inv_def)
  ultimately show "ir_inv ir'" using mono [of "''Bool''" b] unfolding ir_inv_def by fast
qed

lemma add_choice_inv [ir_inv_intros]:
  assumes "ir_inv ir" "ir_add_choice ir c = Some ir'" "choice_inv ir c"
  shows "ir_inv ir'"
proof -
  have ir': "ir' = ir\<lparr>ir_choices := ir_choices ir @ [(c_name c, c)]\<rparr>" using assms(2) by (auto simp: ir_add_choice_def split: if_splits)
  have "choice_inv ir d \<Longrightarrow> choice_inv ir' d" for d by (erule choice_inv_mono) (simp add: ir' get_enum_def)
  then show ?thesis using assms(1,3) by (auto simp: ir_inv_def ir_closed_iff ir' get_enum_def)
qed

lemma update_choice_inv [ir_inv_intros]:
  assumes "ir_inv ir" "ir_update_choice name f ir = Some ir'"
    and "\<And>c. c_choice_def (f c) = c_choice_def c \<and> c_arguments (f c) = c_arguments c \<and> c_no_propagate (f c) = c_no_propagate c"
  shows "ir_inv ir'"
proof -
  have ir': "ir' = ir\<lparr>ir_choices := map (\<lambda>(k, v). (k, if k = name then f v else v)) (ir_choices ir)\<rparr>"
    using assms(2) by (auto simp: ir_update_choice_def update_entry_def split: if_splits)
  have mono: "choice_inv ir d \<Longrightarrow> choice_inv ir' d" for d by (erule choice_inv_mono) (simp add: ir' get_enum_def)
  have "choice_inv ir' (f d)" if "choice_inv ir d" for d
    using mono [OF that] assms(3) [of d] by (simp add: choice_inv_def fragile_ok_def c_value_type_def)
  then show ?thesis using assms(1) mono by (auto simp: ir_inv_def ir_closed_iff ir' get_enum_def)
qed

lemma add_onchange_inv [ir_inv_intros]:
  assumes "ir_inv ir" "ir_add_onchange choice action ir = Some ir'"
  shows "ir_inv ir'"
proof -
  have upd: "ir_inv ir'" if "ir_inv ir" "ir_update_choice name (c_add_onchange a) ir = Some ir'" for ir ir' name a
    by (rule update_choice_inv [OF that]) (simp add: c_add_onchange_def)
  show ?thesis using assms by (auto simp: ir_add_onchange_def bind_eq_Some_conv split: option.splits intro: upd)
qed

lemma add_set_def_inv [ir_inv_intros]: "ir_inv ir \<Longrightarrow> ir_add_set_def ir d = Some ir' \<Longrightarrow> ir_inv ir'"
  by (rule ir_inv_cong [of ir]) (auto simp: ir_add_set_def_def split: if_splits)

lemma add_trigger_inv [ir_inv_intros]: "ir_inv ir \<Longrightarrow> ir_add_trigger ir t = (i, ir') \<Longrightarrow> ir_inv ir'"
  by (rule ir_inv_cong [of ir]) (auto simp: ir_add_trigger_def)

text \<open>New choices.\<close>

lemma choice_new_inv:
  assumes "choice_new name doc args def = Some c" "\<And>n. def = CD_Enum n \<Longrightarrow> get_enum ir n \<noteq> None"
    and "\<And>names s. args = Symmetric names s True \<Longrightarrow> cd_as_enum def \<noteq> None"
  shows "choice_inv ir c"
  using assms by (cases def) (auto simp: choice_new_def choice_inv_def fragile_ok_def vs_fits_def c_value_type_def)

lemma args_new_plain: "args_new vars False False = Some args \<Longrightarrow> args = Plain vars"
  by (simp add: args_new_def)

section \<open>Enums\<close>

lemma add_value:
  assumes "enum_add_value e v doc = Some e'"
  shows "enum_keys e' = enum_keys e @ [v]" "v \<notin> set (enum_keys e)" "e_name e' = e_name e" "e_inverse e' = e_inverse e"
  using assms by (auto simp: enum_add_value_def enum_keys_def map_of_eq_None_iff split: if_splits)

lemma add_values:
  assumes "fold_option (\<lambda>(v, doc) e. enum_add_value e v doc) vals e = Some e'" "distinct (enum_keys e)"
  shows "enum_keys e' = enum_keys e @ map fst vals \<and> distinct (enum_keys e') \<and> e_name e' = e_name e \<and> e_inverse e' = e_inverse e"
  using assms
proof (induction vals arbitrary: e)
  case (Cons p vals)
  obtain v doc where p: "p = (v, doc)" by fastforce
  obtain e1 where e1: "enum_add_value e v doc = Some e1" "fold_option (\<lambda>(v, doc) e. enum_add_value e v doc) vals e1 = Some e'"
    using Cons.prems(1) by (auto simp: p bind_eq_Some_conv)
  note e1' = add_value [OF e1(1)]
  have "distinct (enum_keys e1)" using e1' Cons.prems(2) by simp
  note ih = Cons.IH [OF e1(2) this]
  show ?case using ih [THEN conjunct1] ih [THEN conjunct2, THEN conjunct1] ih [THEN conjunct2, THEN conjunct2] e1' p by simp
qed simp

lemma add_aliases:
  assumes "fold_option (\<lambda>(v, doc, vals) e. enum_add_alias e v vals doc) aliases e = Some e'"
  shows "enum_keys e' = enum_keys e" "e_name e' = e_name e" "e_inverse e' = e_inverse e"
  using assms
  by (induction aliases arbitrary: e) (auto simp: bind_eq_Some_conv enum_add_alias_def enum_keys_def split: if_splits)

lemma check_mapping_ok:
  assumes "check_mapping vals m mapped"
  shows "distinct (map fst m @ map snd m) \<and> (set (map fst m) \<union> set (map snd m)) \<inter> mapped = {}
    \<and> set (map fst m) \<union> set (map snd m) \<subseteq> set (map fst vals)"
  using assms
proof (induction vals m mapped rule: check_mapping.induct)
  case (2 vals l r mapping mapped)
  have "l \<in> set (map fst vals)" "r \<in> set (map fst vals)" using 2 by (auto simp: map_of_eq_None_iff)
  then show ?case using 2 by auto
qed simp

lemma inverse_lookup_mem: "inverse_lookup m x = x \<or> inverse_lookup m x \<in> set (map fst m) \<union> set (map snd m)"
  by (induction m x rule: inverse_lookup.induct) auto

lemma enum_of_statements_ok:
  assumes "enum_of_statements iter name doc stmts = Some e"
  shows "enum_ok e \<and> e_name e = name \<and> enum_keys e = map fst (es_values stmts)"
proof -
  obtain inversed e0 aliases where inv: "(case es_symmetry stmts of
        Some (Sym_AntiSymmetric mapping) \<Rightarrow> if check_mapping (es_values stmts) mapping {} then Some (Some mapping) else None
      | _ \<Rightarrow> Some None) = Some inversed"
    and vals: "fold_option (\<lambda>(v, doc) e. enum_add_value e v doc) (es_values stmts) (enum_new name doc inversed) = Some e0"
    and al: "fold_option (\<lambda>(v, doc, vals) e. enum_add_alias e v vals doc) aliases e0 = Some e"
    using assms by (auto simp: enum_of_statements_def bind_eq_Some_conv)
  note v = add_values [OF vals]
  have e: "enum_keys e = map fst (es_values stmts)" "distinct (enum_keys e)" "e_name e = name" "e_inverse e = inversed"
    using v add_aliases [OF al] by (auto simp: enum_new_def enum_keys_def)
  show ?thesis
  proof (cases inversed)
    case None
    then show ?thesis using e by (simp add: enum_ok_def enum_wf_def enum_inverse_def)
  next
    case (Some m)
    then have "check_mapping (es_values stmts) m {}" using inv by (auto split: option.splits symmetry.splits if_splits)
    then have "distinct (map fst m @ map snd m)" "set (map fst m) \<union> set (map snd m) \<subseteq> set (enum_keys e)"
      using check_mapping_ok e(1) by auto
    moreover have "inverse_lookup m x \<in> set (enum_keys e)" if "x \<in> set (enum_keys e)" for x
      using inverse_lookup_mem [of m x] calculation(2) that by auto
    ultimately show ?thesis using e Some by (simp add: enum_ok_def enum_wf_def enum_inverse_def)
  qed
qed

lemma register_enum_inv:
  assumes "ir_inv ir" "register_enum iter self (ir, constraints) = Some (ir', constraints')"
  shows "ir_inv ir'"
proof -
  let ?name = "to_type_name (sp_data (en_name self))"
  obtain stmts args e ir1 c where e: "enum_of_statements iter ?name (en_doc self) stmts = Some e"
    and ir1: "ir_add_enum ir e = Some ir1" and c: "choice_new (sp_data (en_name self)) (en_doc self) args (CD_Enum ?name) = Some c"
    and ir': "ir_add_choice ir1 c = Some ir'"
    using assms(2) by (auto simp: register_enum_def bind_eq_Some_conv Let_def)
  have ok: "enum_ok e" "e_name e = ?name" using enum_of_statements_ok [OF e] by auto
  note inv = add_enum_inv [OF assms(1) ir1 ok(1)]
  have "choice_inv ir1 c" by (rule choice_new_inv [OF c]) (use inv(2) ok(2) in auto)
  then show ?thesis by (rule add_choice_inv [OF inv(1) ir'])
qed

lemma define_integer_inv:
  assumes "ir_inv ir" "define_integer iter self ir = Some ir'"
  shows "ir_inv ir'"
proof -
  obtain vars args universe c where "args_new vars False False = Some args"
    and c: "choice_new (sp_data (in_name self)) (in_doc self) args (CD_Number universe) = Some c" "ir_add_choice ir c = Some ir'"
    using assms(2) by (auto simp: define_integer_def bind_eq_Some_conv)
  then have "choice_inv ir c" by (intro choice_new_inv [OF c(1)]) (auto dest: args_new_plain)
  then show ?thesis by (rule add_choice_inv [OF assms(1) c(2)])
qed

section \<open>Sets\<close>

lemma create_repr_choice_inv:
  assumes "ir_inv ir" "create_repr_choice self name def item ir = Some ir'"
  shows "ir_inv ir'"
proof -
  obtain vars args repr repr' where args: "args_new vars False False = Some args"
    and c: "choice_new name None args (CD_Enum ''Bool'') = Some repr"
      "c_add_fragile_values (vs_enum_values ''Bool'' {|''FALSE''|}) repr = Some repr'" "ir_add_choice ir repr' = Some ir'"
    using assms(2) by (auto simp: create_repr_choice_def bind_eq_Some_conv)
  obtain e where e: "get_enum ir ''Bool'' = Some e" "''FALSE'' \<in> set (enum_keys e)" using assms(1) by (auto simp: ir_inv_def)
  have "choice_inv ir repr'"
    using c(1,2) e args_new_plain [OF args]
    by (auto simp: choice_new_def c_add_fragile_values_def vs_enum_values_def choice_inv_def fragile_ok_def vs_fits_def c_value_type_def)
  then show ?thesis by (rule add_choice_inv [OF assms(1) c(3)])
qed

lemma create_quotient_inv:
  assumes "ir_inv (a_ir_desc a)" "create_quotient render self quot def a = Some a'"
  shows "ir_inv (a_ir_desc a')"
proof -
  obtain name item ir where "create_repr_choice self name def item (a_ir_desc a) = Some ir" "a_ir_desc a' = ir"
    using assms(2) by (auto simp: create_quotient_def create_repr_counter_def bind_eq_Some_conv Let_def)
  then show ?thesis using create_repr_choice_inv [OF assms(1)] by simp
qed

lemma define_set_inv:
  assumes "ir_inv (a_ir_desc a)" "define_set render self a = Some a'"
  shows "ir_inv (a_ir_desc a')"
proof -
  obtain def a1 ir where a1: "(case st_quotient self of Some quot \<Rightarrow> create_quotient render self quot def a | None \<Rightarrow> Some a) = Some a1"
    and ir: "ir_add_set_def (a_ir_desc a1) def = Some ir" "a' = a1\<lparr>a_ir_desc := ir, a_set_defs := a_set_defs a1 @ [self]\<rparr>"
    using assms(2) by (auto simp: define_set_def bind_eq_Some_conv Let_def)
  have "ir_inv (a_ir_desc a1)" using a1 assms(1) create_quotient_inv by (auto split: option.splits)
  then show ?thesis using add_set_def_inv [OF _ ir(1)] ir(2) by simp
qed

section \<open>Counters and triggers\<close>

lemma gen_increment_inv:
  assumes "ir_inv ir" "gen_increment counter cvars ivars defs conds vm (ir, constraints) = Some (r, ir', constraints')"
  shows "ir_inv ir'"
proof -
  obtain e where e: "get_enum ir ''Bool'' = Some e" using assms(1) by (auto simp: ir_inv_def)
  have "ir_inv ir'" if "args_new vars False False = Some args" "choice_new name None args (CD_Enum ''Bool'') = Some c" "ir_add_choice ir c = Some ir'"
    for vars args name c
    by (rule add_choice_inv [OF assms(1) that(3) choice_new_inv [OF that(2)]]) (use e args_new_plain [OF that(1)] in auto)
  then show ?thesis using assms by (auto simp: gen_increment_def bind_eq_Some_conv Let_def split: option.splits)
qed

lemma register_counter_inv:
  assumes "ir_inv ir" "register_counter iter self (ir, constraints) = Some (ir', constraints')"
  shows "ir_inv ir'"
proof -
  obtain vars ivars defs vm incr cond ir1 cs1 v ir2 action ir3 args c
    where incr: "gen_increment (sp_data (ct_name self)) vars ivars defs (cb_conditions (ct_body self)) vm (ir, constraints)
        = Some ((incr, cond), ir1, cs1)"
      and v: "(case cb_value (ct_body self) of
         ACV_Code code \<Rightarrow> do { c \<leftarrow> type_check_code iter code vm; Some (CV_Code c, ir1) }
       | ACV_Choice counter \<Rightarrow> do {
           (v, action) \<leftarrow> counter_val_choice counter (ct_visibility self) (sp_data (ct_name self)) incr cond (cb_kind (ct_body self))
             (length (ct_vars self)) vm ir1;
           ir \<leftarrow> ir_add_onchange (ai_name counter) action ir1;
           Some (v, ir) }) = Some (v, ir2)"
      and ir3: "ir_add_onchange (ci_choice incr) action ir2 = Some ir3"
      and args: "args_new vars False False = Some args"
      and c: "\<exists>k its vis base. choice_new (sp_data (ct_name self)) (ct_doc self) args (CD_Counter k v its incr cond vis base) = Some c"
      and ir': "ir_add_choice ir3 (c_add_onchange filter_self_action c) = Some ir'"
    using assms(2) by (auto simp: register_counter_def bind_eq_Some_conv Let_def split: prod.splits) blast
  have "ir_inv ir1" by (rule gen_increment_inv [OF assms(1) incr])
  then have "ir_inv ir2" using v by (auto simp: bind_eq_Some_conv split: ast_counter_val.splits intro: add_onchange_inv)
  then have ir3': "ir_inv ir3" using ir3 by (rule add_onchange_inv)
  have "choice_inv ir3 c" using c choice_new_inv [of _ _ args _ c ir3] args_new_plain [OF args] by force
  then have "choice_inv ir3 (c_add_onchange filter_self_action c)"
    by (simp add: choice_inv_def c_add_onchange_def fragile_ok_def c_value_type_def)
  then show ?thesis by (rule add_choice_inv [OF ir3' ir'])
qed

lemma register_trigger_inv:
  assumes "ir_inv ir" "register_trigger iter self ir = Some ir'"
  shows "ir_inv ir'"
proof -
  obtain t tid actions where "fold_option (add_trigger_action tid) actions (ir\<lparr>ir_triggers := ir_triggers ir @ [t]\<rparr>) = Some ir'"
    using assms(2) by (auto simp: register_trigger_def ir_add_trigger_def bind_eq_Some_conv Let_def)
  moreover have "ir_inv (ir\<lparr>ir_triggers := ts\<rparr>)" for ts by (rule ir_inv_cong [OF assms(1)]) simp_all
  ultimately show ?thesis
    by (rule fold_option_inv [where P = ir_inv]) (auto simp: add_trigger_action_def intro: add_onchange_inv split: prod.splits)
qed

section \<open>Conditions\<close>

lemma instance_type_check_ok:
  assumes "ir_inv ir" "instance_type_check ir vm ci = Some typed"
  shows "ci_ok ir typed" "ci_choice typed = ai_name ci" "those (map (vm_get_var vm) (ai_vars ci)) = Some (ci_vars typed)"
proof -
  obtain c vars where c: "get_choice ir (ai_name ci) = Some c" and len: "length (ai_vars ci) = length (args_sets (c_arguments c))"
    and vars: "those (map (\<lambda>(v, s). vm_type_check vm v s) (zip (ai_vars ci) (args_sets (c_arguments c)))) = Some vars"
    and typed: "typed = \<lparr>ci_choice = ai_name ci, ci_vars = vars\<rparr>"
    using assms(2) by (auto simp: instance_type_check_def bind_eq_Some_conv Let_def split: if_splits)
  have get: "those (map (\<lambda>(v, s). vm_type_check vm v s) (zip vs ss)) = Some ws \<Longrightarrow> length vs = length ss
      \<Longrightarrow> those (map (vm_get_var vm) vs) = Some ws" for vs ss ws
    by (induction vs ss arbitrary: ws rule: list_induct2')
      (auto simp: vm_type_check_def vm_get_var_def bind_eq_Some_conv split: option.splits if_splits)
  have "length vars = length (ai_vars ci)" using get [OF vars len] by (auto dest!: those_SomeD)
  moreover have "choice_inv ir c" using assms(1) c by (auto simp: ir_inv_def get_choice_def dest: map_of_SomeD)
  ultimately show "ci_ok ir typed"
    using c len typed
    by (auto simp: ci_ok_def choice_inv_def choice_enum_def bind_eq_Some_conv split: choice_arguments.splits) (fastforce elim: cd_as_enum.elims)+
  show "ci_choice typed = ai_name ci" "those (map (vm_get_var vm) (ai_vars ci)) = Some (ci_vars typed)"
    using typed get [OF vars len] by simp_all
qed

lemma cond_typed_append: "cond_typed ir inputs c \<Longrightarrow> cond_typed ir (inputs @ rest) c"
proof -
  have "input_enum ir (inputs @ rest) i = input_enum ir inputs i" if "i < length inputs" for i
    using that by (simp add: input_enum_def nth_append)
  moreover have "input_enum ir inputs i = Some e \<Longrightarrow> input_enum ir (inputs @ rest) i = Some e" for i e
    using calculation input_enum_length by metis
  ultimately show "cond_typed ir inputs c \<Longrightarrow> cond_typed ir (inputs @ rest) c"
    by (cases c) (auto split: option.split_asm)
qed

text \<open>A typed condition extends the inputs; its inputs have the right type.\<close>

definition inputs_ok :: "ir_desc \<Rightarrow> choice_instance list \<Rightarrow> bool" where
  "inputs_ok ir inputs \<longleftrightarrow> (\<forall>ci \<in> set inputs. ci_ok ir ci)"

lemma add_inputE:
  assumes "add_input ir vm ci inputs = Some (i, inputs')" "ir_inv ir"
  obtains typed where "instance_type_check ir vm ci = Some typed" "i = length inputs" "inputs' = inputs @ [typed]" "ci_ok ir typed"
    "ci_choice typed = ai_name ci"
  using assms instance_type_check_ok [OF assms(2)] that by (auto simp: add_input_def bind_eq_Some_conv)

lemma cond_type_check_ok:
  assumes inv: "ir_inv ir" and tc: "cond_type_check iter ir vm c inputs = Some (c', inputs')" and ok: "inputs_ok ir inputs"
  shows "(\<exists>rest. inputs' = inputs @ rest) \<and> inputs_ok ir inputs' \<and> cond_typed ir inputs' c'"
proof (cases c)
  case (AC_Is lhs rhs b)
  obtain ch name e i vals where *: "get_choice ir (ai_name lhs) = Some ch" "cd_as_enum (c_choice_def ch) = Some name" "get_enum ir name = Some e"
    "add_input ir vm lhs inputs = Some (i, inputs')" "type_check_enum_values e rhs = Some vals" "c' = C_Enum i vals (\<not> b) False"
    using tc AC_Is by (auto simp: bind_eq_Some_conv)
  obtain typed where t: "i = length inputs" "inputs' = inputs @ [typed]" "ci_ok ir typed" "ci_choice typed = ai_name lhs"
    by (rule add_inputE [OF *(4) inv])
  have "input_enum ir inputs' i = Some e" using *(1-3) t by (simp add: input_enum_def)
  moreover have "fset vals \<subseteq> set (enum_keys e)" using *(5) by (auto simp: type_check_enum_values_def Let_def split: if_splits)
  ultimately show ?thesis using t ok *(6) by (simp add: inputs_ok_def)
next
  case (AC_CmpCode lhs rhs op)
  obtain ch i code where *: "get_choice ir (ai_name lhs) = Some ch" "cd_as_enum (c_choice_def ch) = None"
    "add_input ir vm lhs inputs = Some (i, inputs')" "c' = C_CmpCode i code op"
    using tc AC_CmpCode by (auto simp: bind_eq_Some_conv split: if_splits)
  obtain typed where t: "i = length inputs" "inputs' = inputs @ [typed]" "ci_ok ir typed" "ci_choice typed = ai_name lhs"
    by (rule add_inputE [OF *(3) inv])
  have "input_enum ir inputs' i = None" using *(1,2) t by (simp add: input_enum_def)
  then show ?thesis using t ok *(4) by (simp add: inputs_ok_def)
next
  case (AC_CmpInput lhs rhs op)
  obtain ch i inputs1 j where *: "ai_name lhs = ai_name rhs" "get_choice ir (ai_name lhs) = Some ch"
    "add_input ir vm lhs inputs = Some (i, inputs1)" "add_input ir vm rhs inputs1 = Some (j, inputs')"
    "cd_is_valid_operator (c_choice_def ch) op" "c' = C_CmpInput i j op False"
    using tc AC_CmpInput by (auto simp: bind_eq_Some_conv split: if_splits)
  obtain l where l: "i = length inputs" "inputs1 = inputs @ [l]" "ci_ok ir l" "ci_choice l = ai_name lhs"
    by (rule add_inputE [OF *(3) inv])
  obtain r where r: "j = length inputs1" "inputs' = inputs1 @ [r]" "ci_ok ir r" "ci_choice r = ai_name rhs"
    by (rule add_inputE [OF *(4) inv])
  have enums: "input_enum ir inputs' i = choice_enum ir (ai_name lhs)" "input_enum ir inputs' j = choice_enum ir (ai_name lhs)"
    using l r *(1) by (simp_all add: input_enum_choice_enum nth_append)
  have "op = Eq \<or> op = Neq" if "choice_enum ir (ai_name lhs) \<noteq> None"
    using *(2,5) that by (cases "c_choice_def ch") (auto simp: choice_enum_def)
  then show ?thesis using l r ok *(6) enums by (auto simp: inputs_ok_def)
qed (use tc ok in \<open>auto simp: bind_eq_Some_conv\<close>)

lemma conds_type_check_ok:
  assumes "ir_inv ir" "conds_type_check iter ir vm cs inputs = Some (cs', inputs')" "inputs_ok ir inputs"
  shows "(\<exists>rest. inputs' = inputs @ rest) \<and> inputs_ok ir inputs' \<and> (\<forall>c \<in> set cs'. cond_typed ir inputs' c)"
  using assms(2,3)
proof (induction cs arbitrary: inputs cs')
  case (Cons c cs)
  obtain c1 inputs1 cs1 where c1: "cond_type_check iter ir vm c inputs = Some (c1, inputs1)"
    and cs1: "conds_type_check iter ir vm cs inputs1 = Some (cs1, inputs')" "cs' = c1 # cs1"
    using Cons.prems(1) by (auto simp: bind_eq_Some_conv)
  have 1: "(\<exists>rest. inputs1 = inputs @ rest) \<and> inputs_ok ir inputs1 \<and> cond_typed ir inputs1 c1"
    by (rule cond_type_check_ok [OF assms(1) c1 Cons.prems(2)])
  then have 2: "(\<exists>rest. inputs' = inputs1 @ rest) \<and> inputs_ok ir inputs' \<and> (\<forall>c \<in> set cs1. cond_typed ir inputs' c)"
    using Cons.IH [OF cs1(1)] by simp
  then show ?case using 1 cs1(2) cond_typed_append by fastforce
qed simp

lemma constraint_type_check_ok:
  assumes "ir_inv ir" "constraint_type_check iter ir self = Some cos" "co \<in> set cos"
  shows "constraint_ok ir co"
proof -
  obtain sets vm where "those (map (disjunction_type_check iter ir vm sets (cn_restrict_fragile self)) (cn_disjunctions self)) = Some cos"
    using assms(2) by (auto simp: constraint_type_check_def bind_eq_Some_conv)
  then obtain d where "disjunction_type_check iter ir vm sets (cn_restrict_fragile self) d = Some co"
    using assms(3) those_SomeD by (metis in_set_conv_nth)
  then obtain conds inputs where "conds_type_check iter ir vm d [] = Some (conds, inputs)" "co_inputs co = inputs" "co_conditions co = conds"
    by (auto simp: disjunction_type_check_def bind_eq_Some_conv)
  then show ?thesis using conds_type_check_ok [OF assms(1)] by (fastforce simp: constraint_ok_def inputs_ok_def)
qed

section \<open>The whole file\<close>

lemma stmt_define_inv:
  assumes "ir_inv (a_ir_desc a)" "stmt_define iter render context s a = Some (Inr a')"
  shows "ir_inv (a_ir_desc a')"
proof (cases s)
  case (S_ChoiceDef def)
  then show ?thesis using assms
    by (cases def) (auto simp: bind_eq_Some_conv split: sum.splits intro: register_enum_inv define_integer_inv)
qed (use assms in \<open>auto split: sum.splits intro: define_set_inv\<close>)

lemma bind_checkedD:
  "(x \<bind> (\<lambda>r. case r of Inl e \<Rightarrow> Some (Inl e) | Inr a \<Rightarrow> f a)) = Some (Inr b) \<Longrightarrow> \<exists>a. x = Some (Inr a) \<and> f a = Some (Inr b)"
  by (cases x) (auto split: sum.split_asm)

lemma define_all_inv:
  assumes "ir_inv (a_ir_desc a)" "define_all iter render context ss a = Some (Inr a')"
  shows "ir_inv (a_ir_desc a')"
  using assms
proof (induction ss arbitrary: a)
  case (Cons s ss)
  then obtain a1 where "stmt_define iter render context s a = Some (Inr a1)" "define_all iter render context ss a1 = Some (Inr a')"
    by (auto dest: bind_checkedD)
  then show ?case using Cons.IH stmt_define_inv [OF Cons.prems(1)] by blast
qed simp

lemma finalize_ok:
  assumes "ir_inv (a_ir_desc a)" "finalize iter a = Some (ir, cos)"
  shows "ir_inv ir \<and> (\<forall>co \<in> set cos. constraint_ok ir co)"
proof -
  obtain ir1 cs typed where ir1: "fold_option (register_choice iter) (a_choice_defs a) (a_ir_desc a, a_constraints a) = Some (ir1, cs)"
    and ir: "fold_option (register_trigger iter) (a_triggers a) ir1 = Some ir"
    and typed: "those (map (constraint_type_check iter ir) cs) = Some typed" "cos = concat typed"
    using assms(2) by (auto simp: finalize_def bind_eq_Some_conv)
  have "ir_inv (fst (ir1, cs))"
    by (rule fold_option_inv [OF ir1, where P = "\<lambda>s. ir_inv (fst s)"])
      (use assms(1) in \<open>auto simp: register_choice_def split: choice_decl.splits intro: register_counter_inv\<close>)
  then have inv: "ir_inv ir" using fold_option_inv [OF ir, where P = ir_inv] register_trigger_inv by auto
  have "constraint_ok ir co" if co: "co \<in> set cos" for co
  proof -
    obtain cos' where cos': "cos' \<in> set typed" "co \<in> set cos'" using co typed(2) by auto
    then obtain c where "constraint_type_check iter ir c = Some cos'" using those_SomeD [OF typed(1)] by (metis in_set_conv_nth)
    then show ?thesis using constraint_type_check_ok [OF inv] cos'(2) by blast
  qed
  then show ?thesis using inv by blast
qed

lemma type_check_ok:
  assumes "ir_inv (a_ir_desc a)" "type_check iter render a = Some (Inr (ir, cos))"
  shows "ir_inv ir \<and> (\<forall>co \<in> set cos. constraint_ok ir co)"
proof -
  obtain cx a' where "define_all iter render cx (a_statements a) a = Some (Inr a')" "finalize iter a' = Some (ir, cos)"
    using assms(2) by (auto simp: type_check_def split: sum.split_asm dest!: bind_checkedD)
  then show ?thesis using finalize_ok define_all_inv [OF assms(1)] by blast
qed

end
