(* ===== verification/Ast_Meaning.thy ===== *)
theory Ast_Meaning
  imports Ast_Typed
begin

text \<open>
  The meaning of the constraints of a file. A constraint quantifies over objects, which its variables name; a choice has a value
  for every tuple of objects. Typing replaces names by numbered variables and choices by numbered inputs, and is shown to keep
  the meaning. The constraints that the checker adds for quotients and counters are shown to define the flags they introduce, and
  the checks on enums to accept exactly the enums without conflicts.
\<close>

section \<open>Meaning of conditions\<close>

text \<open>The values of choices, and of host code in an environment of the names it mentions.\<close>

record 'o world =
  w_choice :: "string \<Rightarrow> 'o list \<Rightarrow> val"
  w_code :: "string \<Rightarrow> (string \<rightharpoonup> 'o) \<Rightarrow> bool"
  w_num :: "string \<Rightarrow> (string \<rightharpoonup> 'o) \<Rightarrow> int"

definition code_names :: "string \<Rightarrow> string set" where
  "code_names text = set (code_var_names text) - {''fun''}"

definition instance_value :: "'o world \<Rightarrow> (string \<rightharpoonup> 'o) \<Rightarrow> ast_instance \<Rightarrow> val" where
  "instance_value w env ci = w_choice w (ai_name ci) (map (the \<circ> env) (ai_vars ci))"

fun ast_holds :: "ir_desc \<Rightarrow> 'o world \<Rightarrow> (string \<rightharpoonup> 'o) \<Rightarrow> ast_condition \<Rightarrow> bool" where
  "ast_holds ir w env (AC_Bool b) = b"
| "ast_holds ir w env (AC_Code text negate) = (w_code w text (env |` code_names text) \<noteq> negate)"
| "ast_holds ir w env (AC_Is lhs rhs b) =
     (case (instance_value w env lhs, choice_enum ir (ai_name lhs)) of
        (EVal x, Some e) \<Rightarrow> x \<in> set (enum_keys e) \<and> (x |\<in>| enum_expand e rhs \<longleftrightarrow> b)
      | _ \<Rightarrow> False)"
| "ast_holds ir w env (AC_CmpCode lhs rhs op) =
     (case instance_value w env lhs of IVal n \<Rightarrow> op_holds op n (w_num w rhs (env |` code_names rhs)) | EVal _ \<Rightarrow> False)"
| "ast_holds ir w env (AC_CmpInput lhs rhs op) =
     (case (instance_value w env lhs, instance_value w env rhs) of
        (IVal a, IVal b) \<Rightarrow> op_holds op a b
      | (EVal a, EVal b) \<Rightarrow> op_holds_enum op a b
      | _ \<Rightarrow> False)"

definition ast_constraint_holds :: "ir_desc \<Rightarrow> 'o world \<Rightarrow> (string \<rightharpoonup> 'o) \<Rightarrow> constraint_decl \<Rightarrow> bool" where
  "ast_constraint_holds ir w env c \<longleftrightarrow> (\<forall>d \<in> set (cn_disjunctions c). \<exists>cond \<in> set d. ast_holds ir w env cond)"

text \<open>The same world, seen by typed conditions: \<open>nu\<close> gives the object of a variable.\<close>

definition typed_val_of :: "'o world \<Rightarrow> (variable \<Rightarrow> 'o) \<Rightarrow> choice_instance \<Rightarrow> val" where
  "typed_val_of w nu ci = w_choice w (ci_choice ci) (map nu (ci_vars ci))"

definition code_env :: "(variable \<Rightarrow> 'o) \<Rightarrow> code \<Rightarrow> string \<rightharpoonup> 'o" where
  "code_env nu c = map_of (map (\<lambda>(v, n). (n, nu v)) (code_vars c))"

definition typed_code :: "'o world \<Rightarrow> (variable \<Rightarrow> 'o) \<Rightarrow> code \<Rightarrow> bool" where
  "typed_code w nu c = w_code w (code_text c) (code_env nu c)"

definition typed_num :: "'o world \<Rightarrow> (variable \<Rightarrow> 'o) \<Rightarrow> code \<Rightarrow> int" where
  "typed_num w nu c = w_num w (code_text c) (code_env nu c)"

definition names_match :: "var_map \<Rightarrow> (variable \<Rightarrow> 'o) \<Rightarrow> (string \<rightharpoonup> 'o) \<Rightarrow> bool" where
  "names_match vm nu env \<longleftrightarrow> (\<forall>n v. vm_get_var vm n = Some v \<longrightarrow> env n = Some (nu v))"

section \<open>Typing keeps the meaning\<close>

lemma those_map_conv: "those (map f xs) = Some ys \<longleftrightarrow> list_all2 (\<lambda>x y. f x = Some y) xs ys"
  by (induction xs arbitrary: ys) (auto simp: list_all2_Cons1 split: option.splits)

lemma list_all2_Ball: "list_all2 (\<lambda>x y. P y \<longleftrightarrow> Q x) xs ys \<Longrightarrow> (\<forall>y \<in> set ys. P y) \<longleftrightarrow> (\<forall>x \<in> set xs. Q x)"
  by (induction rule: list_all2_induct) auto

lemma type_check_code_env:
  assumes iter: "\<And>xs. set (iter xs) = set xs" and tc: "type_check_code iter text vm = Some c" and env: "names_match vm nu env"
  shows "code_text c = text" "code_env nu c = env |` code_names text"
proof -
  let ?names = "filter (\<lambda>var. var \<noteq> ''fun'') (get_code_vars iter text)"
  obtain vars where vars: "those (map (\<lambda>var. map_option (\<lambda>v. (v, var)) (vm_get_var vm var)) ?names) = Some vars"
    and c: "c = \<lparr>code_text = text, code_vars = vars\<rparr>"
    using tc by (auto simp: type_check_code_def bind_eq_Some_conv)
  have names: "set ?names = code_names text" by (auto simp: get_code_vars_def iter code_names_def)
  have "list_all2 (\<lambda>var p. map_option (\<lambda>v. (v, var)) (vm_get_var vm var) = Some p) xs ps
      \<Longrightarrow> map_of (map (\<lambda>(v, n). (n, nu v)) ps) = env |` set xs" for xs ps
  proof (induction xs ps rule: list_all2_induct)
    case (Cons x xs p ps)
    then obtain v where "vm_get_var vm x = Some v" "p = (v, x)" by auto
    then show ?case using Cons.IH env by (auto simp: names_match_def restrict_map_def fun_eq_iff)
  qed simp
  then show "code_text c = text" "code_env nu c = env |` code_names text"
    using vars unfolding those_map_conv by (simp_all add: c code_env_def flip: names)
qed

lemma instance_value_typed:
  assumes "ir_inv ir" "instance_type_check ir vm ci = Some typed" "names_match vm nu env"
  shows "typed_val_of w nu typed = instance_value w env ci"
proof -
  note ok = instance_type_check_ok [OF assms(1,2)]
  have "list_all2 (\<lambda>n v. vm_get_var vm n = Some v) xs vs \<Longrightarrow> map nu vs = map (the \<circ> env) xs" for xs vs
    by (induction xs vs rule: list_all2_induct) (use assms(3) in \<open>auto simp: names_match_def\<close>)
  then show ?thesis using ok by (simp add: typed_val_of_def instance_value_def those_map_conv)
qed

abbreviation typed_ctx :: "'o world \<Rightarrow> (variable \<Rightarrow> 'o) \<Rightarrow> (variable \<Rightarrow> ir_set) \<Rightarrow> choice_instance list \<Rightarrow> ctx" where
  "typed_ctx w nu sets inputs \<equiv> inst_ctx (typed_val_of w nu) (typed_code w nu) (typed_num w nu) sets inputs"

lemma cond_holds_append:
  assumes "cond_typed ir inputs c"
  shows "cond_holds ir (inputs @ rest) (inst_ctx val codes nums sets (inputs @ rest)) c
    \<longleftrightarrow> cond_holds ir inputs (inst_ctx val codes nums sets inputs) c"
proof -
  have enum: "input_enum ir (inputs @ rest) i = input_enum ir inputs i" if "i < length inputs" for i
    using that by (simp add: input_enum_def nth_append)
  have "i < length inputs" if "i \<in> cond_inputs c" for i
    using that assms by (cases c) (auto split: option.split_asm dest: input_enum_length)
  then show ?thesis by (cases c) (simp_all add: enum nth_append split: val.splits)
qed

lemma cond_type_check_meaning:
  assumes inv: "ir_inv ir" and iter: "\<And>xs. set (iter xs) = set xs" and env: "names_match vm nu env"
    and tc: "cond_type_check iter ir vm c inputs = Some (c', inputs')" and ok: "inputs_ok ir inputs"
  shows "cond_holds ir inputs' (typed_ctx w nu sets inputs') c' \<longleftrightarrow> ast_holds ir w env c"
proof (cases c)
  case (AC_Code tx negate)
  then obtain code where "type_check_code iter tx vm = Some code" "c' = C_Code code negate" using tc by (auto simp: bind_eq_Some_conv)
  then show ?thesis using type_check_code_env [OF iter _ env] AC_Code by (simp add: typed_code_def)
next
  case (AC_Is lhs rhs b)
  obtain ch name e i vals where *: "get_choice ir (ai_name lhs) = Some ch" "cd_as_enum (c_choice_def ch) = Some name" "get_enum ir name = Some e"
    "add_input ir vm lhs inputs = Some (i, inputs')" "type_check_enum_values e rhs = Some vals" "c' = C_Enum i vals (\<not> b) False"
    using tc AC_Is by (auto simp: bind_eq_Some_conv)
  obtain typed where t: "instance_type_check ir vm lhs = Some typed" "i = length inputs" "inputs' = inputs @ [typed]" "ci_choice typed = ai_name lhs"
    by (rule add_inputE [OF *(4) inv])
  have enum: "choice_enum ir (ai_name lhs) = Some e" "input_enum ir inputs' i = Some e"
    using *(1-3) t by (simp_all add: choice_enum_def input_enum_def)
  have vals: "vals = enum_expand e rhs" "fset vals \<subseteq> set (enum_keys e)"
    using *(5) by (auto simp: type_check_enum_values_def Let_def split: if_splits)
  have "x |\<in>| normalize_values vals (\<not> b) False e \<longleftrightarrow> x \<in> set (enum_keys e) \<and> (x |\<in>| vals \<longleftrightarrow> b)" for x
    using vals(2) by (auto simp: normalize_values_def Let_def fset_of_list_elem)
  then show ?thesis
    using AC_Is *(6) t(2,3) enum vals(1) instance_value_typed [OF inv t(1) env, of w] by (simp split: val.splits)
next
  case (AC_CmpCode lhs rhs op)
  obtain i code where *: "add_input ir vm lhs inputs = Some (i, inputs')" "type_check_code iter rhs vm = Some code" "c' = C_CmpCode i code op"
    using tc AC_CmpCode by (auto simp: bind_eq_Some_conv split: if_splits)
  obtain typed where t: "instance_type_check ir vm lhs = Some typed" "i = length inputs" "inputs' = inputs @ [typed]"
    by (rule add_inputE [OF *(1) inv])
  show ?thesis
    using AC_CmpCode *(3) t instance_value_typed [OF inv t(1) env, of w] type_check_code_env [OF iter *(2) env]
    by (simp add: typed_num_def split: val.splits)
next
  case (AC_CmpInput lhs rhs op)
  obtain i inputs1 j where *: "add_input ir vm lhs inputs = Some (i, inputs1)" "add_input ir vm rhs inputs1 = Some (j, inputs')"
    "c' = C_CmpInput i j op False"
    using tc AC_CmpInput by (auto simp: bind_eq_Some_conv split: if_splits)
  obtain l where l: "instance_type_check ir vm lhs = Some l" "i = length inputs" "inputs1 = inputs @ [l]" by (rule add_inputE [OF *(1) inv])
  obtain r where r: "instance_type_check ir vm rhs = Some r" "j = length inputs1" "inputs' = inputs1 @ [r]" by (rule add_inputE [OF *(2) inv])
  show ?thesis
    using AC_CmpInput *(3) l r instance_value_typed [OF inv l(1) env, of w] instance_value_typed [OF inv r(1) env, of w]
    by (simp add: nth_append split: val.splits)
qed (use tc in auto)

lemma conds_type_check_meaning:
  assumes inv: "ir_inv ir" and iter: "\<And>xs. set (iter xs) = set xs" and env: "names_match vm nu env"
    and "conds_type_check iter ir vm cs inputs = Some (cs', inputs')" "inputs_ok ir inputs"
  shows "(\<exists>c \<in> set cs'. cond_holds ir inputs' (typed_ctx w nu sets inputs') c) \<longleftrightarrow> (\<exists>c \<in> set cs. ast_holds ir w env c)"
  using assms(4,5)
proof (induction cs arbitrary: inputs cs')
  case (Cons c cs)
  obtain c1 inputs1 cs1 where c1: "cond_type_check iter ir vm c inputs = Some (c1, inputs1)"
    and cs1: "conds_type_check iter ir vm cs inputs1 = Some (cs1, inputs')" "cs' = c1 # cs1"
    using Cons.prems(1) by (auto simp: bind_eq_Some_conv)
  have 1: "inputs_ok ir inputs1" "cond_typed ir inputs1 c1" using cond_type_check_ok [OF inv c1 Cons.prems(2)] by auto
  obtain rest where rest: "inputs' = inputs1 @ rest" using conds_type_check_ok [OF inv cs1(1) 1(1)] by auto
  have "cond_holds ir inputs' (typed_ctx w nu sets inputs') c1 \<longleftrightarrow> ast_holds ir w env c"
    using cond_holds_append [OF 1(2)] cond_type_check_meaning [OF inv iter env c1 Cons.prems(2)] unfolding rest by blast
  then show ?case using Cons.IH [OF cs1(1) 1(1)] cs1(2) by simp
qed simp

text \<open>The variables of a constraint are numbered in order.\<close>

definition object_of :: "'o list \<Rightarrow> variable \<Rightarrow> 'o" where
  "object_of os v = (case v of Forall i \<Rightarrow> os ! i | Arg i \<Rightarrow> os ! i)"

lemma decl_var_map:
  assumes "decl_var ir def var vm = Some (s, vm')"
  shows "vm_map vm' = vm_map vm @ [(sp_data (vd_name def), var, s)]" "map_of (vm_map vm) (sp_data (vd_name def)) = None"
    "vm_next_arg_id vm' = vm_next_arg_id vm" "vm_next_forall_id vm' = vm_next_forall_id vm"
  using assms by (auto simp: decl_var_def bind_eq_Some_conv not_None_eq split: if_splits) (metis not_None_eq surj_pair)

lemma decl_foralls_map:
  assumes "decl_all (decl_forall ir) defs vm = Some (sets, vm')"
  shows "length sets = length defs \<and> distinct (map (sp_data \<circ> vd_name) defs)
    \<and> vm_map vm' = vm_map vm @ zip (map (sp_data \<circ> vd_name) defs) (zip (map (\<lambda>i. Forall (vm_next_forall_id vm + i)) [0..<length defs]) sets)
    \<and> set (map (sp_data \<circ> vd_name) defs) \<inter> fst ` set (vm_map vm) = {}"
  using assms
proof (induction defs arbitrary: vm sets)
  case (Cons def defs)
  obtain s vm1 ss where s: "decl_forall ir def vm = Some (s, vm1)" and ss: "decl_all (decl_forall ir) defs vm1 = Some (ss, vm')" "sets = s # ss"
    using Cons.prems by (auto simp: bind_eq_Some_conv)
  note m = decl_var_map [OF s [unfolded decl_forall_def]]
  have next1: "vm_next_forall_id vm1 = vm_next_forall_id vm + 1" using m(4) by simp
  have up: "map (\<lambda>i. Forall (vm_next_forall_id vm + i)) [0..<length (def # defs)]
      = Forall (vm_next_forall_id vm) # map (\<lambda>i. Forall (vm_next_forall_id vm1 + i)) [0..<length defs]"
    by (simp add: next1 map_upt_Suc del: upt_Suc)
  have new: "sp_data (vd_name def) \<notin> fst ` set (vm_map vm)" using m(2) by (simp add: map_of_eq_None_iff)
  show ?case using Cons.IH [OF ss(1)] m(1) ss(2) new unfolding up by auto
qed simp

lemma forall_names_match:
  assumes "decl_all (decl_forall ir) defs vm_default = Some (sets, vm)" "length os = length defs"
  shows "names_match vm (object_of os) (map_of (zip (map (sp_data \<circ> vd_name) defs) os))"
proof -
  let ?names = "map (sp_data \<circ> vd_name) defs"
  have m: "length sets = length defs" "distinct ?names" "vm_map vm = zip ?names (zip (map Forall [0..<length defs]) sets)"
    using decl_foralls_map [OF assms(1)] by (auto simp: vm_default_def)
  have "map_of (zip ?names os) n = Some (object_of os v)" if get: "vm_get_var vm n = Some v" for n v
  proof -
    obtain s where "(n, v, s) \<in> set (zip ?names (zip (map Forall [0..<length defs]) sets))"
      using get m(3) by (auto simp: vm_get_var_def dest: map_of_SomeD)
    then obtain i where i: "i < length defs" "n = ?names ! i" "v = Forall i" using m(1) by (auto simp: in_set_zip)
    have "map_of (zip ?names os) (?names ! i) = Some (os ! i)"
      using map_of_zip_nth [of ?names os i] m(2) i(1) assms(2) by simp
    then show ?thesis using i by (simp add: object_of_def)
  qed
  then show ?thesis by (simp add: names_match_def)
qed

lemma constraint_type_check_meaning:
  assumes inv: "ir_inv ir" and iter: "\<And>xs. set (iter xs) = set xs" and tc: "constraint_type_check iter ir c = Some cos"
    and os: "length os = length (cn_forall_vars c)"
  shows "(\<forall>co \<in> set cos. constraint_holds ir (typed_val_of w (object_of os)) (typed_code w (object_of os)) (typed_num w (object_of os)) sets co)
    \<longleftrightarrow> ast_constraint_holds ir w (map_of (zip (map (sp_data \<circ> vd_name) (cn_forall_vars c)) os)) c"
proof -
  obtain ss vm where vm: "decl_all (decl_forall ir) (cn_forall_vars c) vm_default = Some (ss, vm)"
    and cos: "those (map (disjunction_type_check iter ir vm ss (cn_restrict_fragile c)) (cn_disjunctions c)) = Some cos"
    using tc by (auto simp: constraint_type_check_def bind_eq_Some_conv)
  note env = forall_names_match [OF vm os]
  let ?env = "map_of (zip (map (sp_data \<circ> vd_name) (cn_forall_vars c)) os)"
  let ?holds = "constraint_holds ir (typed_val_of w (object_of os)) (typed_code w (object_of os)) (typed_num w (object_of os)) sets"
  have one: "?holds co \<longleftrightarrow> (\<exists>cond \<in> set d. ast_holds ir w ?env cond)"
    if d: "disjunction_type_check iter ir vm ss (cn_restrict_fragile c) d = Some co" for d co
  proof -
    obtain conds inputs where "conds_type_check iter ir vm d [] = Some (conds, inputs)" "co_inputs co = inputs" "co_conditions co = conds"
      using d by (auto simp: disjunction_type_check_def bind_eq_Some_conv)
    then show ?thesis using conds_type_check_meaning [OF inv iter env] by (simp add: constraint_holds_def inputs_ok_def)
  qed
  have "list_all2 (\<lambda>d co. ?holds co \<longleftrightarrow> (\<exists>cond \<in> set d. ast_holds ir w ?env cond)) (cn_disjunctions c) cos"
    by (rule list_all2_mono [OF cos [unfolded those_map_conv]]) (rule one)
  then have "(\<forall>co \<in> set cos. ?holds co) \<longleftrightarrow> (\<forall>d \<in> set (cn_disjunctions c). \<exists>cond \<in> set d. ast_holds ir w ?env cond)"
    by (rule list_all2_Ball)
  then show ?thesis by (simp add: ast_constraint_holds_def)
qed

section \<open>Flags that follow conditions\<close>

text \<open>The values that a condition reads have the types of the choices.\<close>

fun ast_ok :: "ir_desc \<Rightarrow> 'o world \<Rightarrow> (string \<rightharpoonup> 'o) \<Rightarrow> ast_condition \<Rightarrow> bool" where
  "ast_ok ir w env (AC_Is lhs rhs b) \<longleftrightarrow>
     (\<exists>e x. choice_enum ir (ai_name lhs) = Some e \<and> instance_value w env lhs = EVal x \<and> x \<in> set (enum_keys e))"
| "ast_ok ir w env (AC_CmpCode lhs rhs op) \<longleftrightarrow> (\<exists>n. instance_value w env lhs = IVal n)"
| "ast_ok ir w env (AC_CmpInput lhs rhs op) \<longleftrightarrow> (\<exists>m n. instance_value w env lhs = IVal m \<and> instance_value w env rhs = IVal n)
     \<or> (\<exists>x y. instance_value w env lhs = EVal x \<and> instance_value w env rhs = EVal y) \<and> (op = Eq \<or> op = Neq)"
| "ast_ok ir w env _ \<longleftrightarrow> True"

lemma op_negate_holds: "op_holds (op_negate op) m n \<longleftrightarrow> \<not> op_holds op m n"
  by (cases op) auto

lemma ast_negate_holds: "ast_ok ir w env c \<Longrightarrow> ast_holds ir w env (ast_negate c) \<longleftrightarrow> \<not> ast_holds ir w env c"
  by (cases c) (auto simp: op_negate_holds)

definition flag_is :: "'o world \<Rightarrow> (string \<rightharpoonup> 'o) \<Rightarrow> ast_instance \<Rightarrow> bool \<Rightarrow> bool" where
  "flag_is w env ci b \<longleftrightarrow> instance_value w env ci = EVal (if b then ''TRUE'' else ''FALSE'')"

definition bool_choice :: "ir_desc \<Rightarrow> string \<Rightarrow> bool" where
  "bool_choice ir name \<longleftrightarrow> (\<exists>e. choice_enum ir name = Some e \<and> set (enum_keys e) = {''TRUE'', ''FALSE''} \<and> e_aliases e = [])"

lemma flag_holds:
  assumes "bool_choice ir (ai_name ci)" "flag_is w env ci b"
  shows "ast_holds ir w env (new_is_bool ci v) \<longleftrightarrow> b = v" "ast_ok ir w env (new_is_bool ci v)"
proof -
  obtain e where e: "choice_enum ir (ai_name ci) = Some e" "set (enum_keys e) = {''TRUE'', ''FALSE''}" "e_aliases e = []"
    using assms(1) by (auto simp: bool_choice_def)
  have "enum_expand e [''TRUE''] = {|''TRUE''|}" using e(3) by (simp add: enum_expand_def)
  then show "ast_holds ir w env (new_is_bool ci v) \<longleftrightarrow> b = v" "ast_ok ir w env (new_is_bool ci v)"
    using assms(2) e(1,2) by (simp_all add: new_is_bool_def flag_is_def)
qed

lemma increment_constraint_spec:
  assumes "bool_choice ir (ai_name incr)" "flag_is w env incr b" "\<forall>c \<in> set conds. ast_ok ir w env c"
  shows "ast_constraint_holds ir w env (increment_constraint incr defs conds) \<longleftrightarrow> (b \<longleftrightarrow> (\<forall>c \<in> set conds. ast_holds ir w env c))"
  using assms(3) flag_holds [OF assms(1,2)]
  by (auto simp: ast_constraint_holds_def increment_constraint_def constraint_new_def Let_def ast_negate_holds)

lemma quotient_constraints_spec:
  assumes flag: "bool_choice ir (ai_name repr)" "flag_is w env repr b" and conds: "\<forall>c \<in> set (q_conditions quot). ast_ok ir w env c"
    and counter: "instance_value w env counter = IVal n" and zero: "\<And>e. w_num w ''0'' e = 0"
  shows "(\<forall>c \<in> set (take 2 (quotient_constraints self name quot vars repr counter)). ast_constraint_holds ir w env c)
    \<longleftrightarrow> (b \<longleftrightarrow> (\<forall>c \<in> set (q_conditions quot). ast_holds ir w env c) \<and> n \<le> 0)"
  using conds flag_holds [OF flag]
  by (auto simp: quotient_constraints_def constraint_new_def ast_constraint_holds_def Let_def ast_negate_holds counter zero)

end
