(* ===== verification/Ast_Properties.thy ===== *)
theory Ast_Properties
  imports Ast_Meaning
begin

text \<open>
  The properties of the type checker: what an accepted file gives, the meaning that typing keeps, the flags that the checker defines and
  the enums it accepts; and two defects, an expansion of aliases that does not end and a value that is renamed twice.
\<close>

section \<open>Checks on enums\<close>

lemma and_then_Inr: "and_then r f = Inr y \<longleftrightarrow> (\<exists>x. r = Inr x \<and> f x = Inr y)"
  by (auto simp: and_then_def split: sum.splits)

fun field_list :: "enum_statement list \<Rightarrow> string list" where
  "field_list [] = []"
| "field_list (ES_Value spanned _ _ # ss) = sp_data spanned # field_list ss"
| "field_list (ES_Alias spanned _ _ _ # ss) = sp_data spanned # field_list ss"
| "field_list (_ # ss) = field_list ss"

lemma field_names_list: "field_names ss = set (field_list ss)"
  by (induction ss rule: field_list.induct) auto

fun is_sym :: "enum_statement \<Rightarrow> bool" where
  "is_sym (ES_Symmetric _) = True"
| "is_sym _ = False"

fun is_antisym :: "enum_statement \<Rightarrow> bool" where
  "is_antisym (ES_AntiSymmetric _) = True"
| "is_antisym _ = False"

text \<open>What the values and aliases of an enum may refer to.\<close>

fun stmt_refs_ok :: "string set \<Rightarrow> enum_statement \<Rightarrow> bool" where
  "stmt_refs_ok names (ES_AntiSymmetric mapping) \<longleftrightarrow> (\<forall>(a, b) \<in> set (sp_data mapping). a \<in> names \<and> b \<in> names)"
| "stmt_refs_ok names (ES_Alias _ _ vals _) \<longleftrightarrow> set vals \<subseteq> names"
| "stmt_refs_ok names _ \<longleftrightarrow> True"

definition enum_acceptable :: "checker_context \<Rightarrow> enum_decl \<Rightarrow> bool" where
  "enum_acceptable cx self \<longleftrightarrow> (\<forall>v \<in> set (en_variables self). hash_set cx (sr_name (vd_set v)) \<noteq> None)
     \<and> distinct (map (sp_data \<circ> vd_name) (en_variables self)) \<and> distinct (field_list (en_statements self))
     \<and> (\<forall>s \<in> set (en_statements self). stmt_refs_ok (set (field_list (en_statements self))) s)
     \<and> length (filter is_sym (en_statements self)) + length (filter is_antisym (en_statements self)) \<le> 1
     \<and> ((\<exists>s \<in> set (en_statements self). is_sym s \<or> is_antisym s)
          \<longrightarrow> (\<exists>v w. en_variables self = [v, w] \<and> sr_name (vd_set v) = sr_name (vd_set w)))"

lemma check_variables_iff:
  "check_undefined_variables cx name vs = Inr () \<longleftrightarrow> (\<forall>v \<in> set vs. hash_set cx (sr_name (vd_set v)) \<noteq> None)"
  by (induction vs) (auto simp: check_set_define_def)

lemma parameters_iff:
  "(\<exists>h'. fold_checked parameter_step vs h = Inr h') \<longleftrightarrow> distinct (map (sp_data \<circ> vd_name) vs) \<and> (\<forall>v \<in> set vs. h (sp_data (vd_name v)) = None)"
proof (induction vs arbitrary: h)
  case (Cons v vs)
  show ?case
  proof (cases "h (sp_data (vd_name v))")
    case None
    have step: "(\<exists>h'. fold_checked parameter_step (v # vs) h = Inr h')
        \<longleftrightarrow> (\<exists>h'. fold_checked parameter_step vs (h(sp_data (vd_name v) \<mapsto> with_data (vd_name v) ())) = Inr h')"
      using None by (simp add: and_then_def Let_def)
    show ?thesis unfolding step Cons.IH using None by (auto simp: image_iff comp_def split: if_splits)
  qed (simp add: and_then_def Let_def)
qed simp

lemma redefinition_iff:
  "(\<exists>s'. fold_checked redefinition_step ss (h, s, a) = Inr s') \<longleftrightarrow> distinct (field_list ss) \<and> (\<forall>n \<in> set (field_list ss). h n = None)
     \<and> length (filter is_sym ss) + of_bool (s \<noteq> None) \<le> 1 \<and> length (filter is_antisym ss) + of_bool (a \<noteq> None) \<le> 1"
proof (induction ss arbitrary: h s a)
  case (Cons st ss)
  show ?case
  proof (cases st)
    case (ES_Value n doc cs)
    then show ?thesis using Cons.IH by (cases "h (sp_data n)") (auto simp: and_then_def)
  next
    case (ES_Alias n doc vals cs)
    then show ?thesis using Cons.IH by (cases "h (sp_data n)") (auto simp: and_then_def)
  next
    case (ES_Symmetric u)
    then show ?thesis using Cons.IH by (cases s) (auto simp: and_then_def)
  next
    case (ES_AntiSymmetric m)
    then show ?thesis using Cons.IH by (cases a) (auto simp: and_then_def)
  qed
qed (simp add: of_bool_def)

lemma conflict_iff:
  "(\<exists>s'. fold_checked conflict_step ss (s, a) = Inr s') \<longleftrightarrow>
     (s \<noteq> None \<longrightarrow> filter is_antisym ss = []) \<and> (a \<noteq> None \<longrightarrow> filter is_sym ss = []) \<and> (filter is_sym ss = [] \<or> filter is_antisym ss = [])"
  if "s = None \<or> a = None"
  using that
proof (induction ss arbitrary: s a)
  case (Cons st ss)
  show ?case
  proof (cases st)
    case (ES_Symmetric u)
    then show ?thesis using Cons.IH [of "Some (with_data u ())" a] Cons.prems by (cases a) (auto simp: and_then_def)
  next
    case (ES_AntiSymmetric m)
    then show ?thesis using Cons.IH [of s "Some (with_data m ())"] Cons.prems by (cases s) (auto simp: and_then_def)
  qed (use Cons in \<open>auto simp: and_then_def\<close>)
qed simp

lemma field_iff: "check_field self = Inr () \<longleftrightarrow> (\<forall>s \<in> set (en_statements self). stmt_refs_ok (set (field_list (en_statements self))) s)"
proof -
  have pairs: "check_pairs names m ps = Inr () \<longleftrightarrow> (\<forall>(a, b) \<in> set ps. a \<in> names \<and> b \<in> names)" for names m ps
    by (induction names m ps rule: check_pairs.induct) auto
  have vals: "check_alias_values names sp vs = Inr () \<longleftrightarrow> set vs \<subseteq> names" for names sp vs
    by (induction names sp vs rule: check_alias_values.induct) auto
  have "fold_checked (field_step names) ss () = Inr () \<longleftrightarrow> (\<forall>s \<in> set ss. stmt_refs_ok names s)" for names ss
  proof (induction ss)
    case (Cons s ss)
    then show ?case by (cases s) (auto simp: and_then_Inr pairs vals)
  qed simp
  then show ?thesis by (simp add: check_field_def field_names_list)
qed

lemma is_symmetry_iff: "is_symmetry s \<longleftrightarrow> is_sym s \<or> is_antisym s"
  by (cases s) auto

lemma symmetric_parameters_iff:
  "check_two_parameter self = Inr () \<and> check_same_parameter self = Inr () \<longleftrightarrow>
     ((\<exists>s \<in> set (en_statements self). is_sym s \<or> is_antisym s)
        \<longrightarrow> (\<exists>v w. en_variables self = [v, w] \<and> sr_name (vd_set v) = sr_name (vd_set w)))"
proof (cases "\<exists>s \<in> set (en_statements self). is_sym s \<or> is_antisym s")
  case True
  note ex = this
  then have sym: "list_ex is_symmetry (en_statements self)" by (auto simp: list_ex_iff is_symmetry_iff)
  show ?thesis
  proof (cases "length (en_variables self) = 2")
    case True
    then obtain v w where "en_variables self = [v, w]" by (auto simp: numeral_2_eq_2 length_Suc_conv)
    then show ?thesis using sym ex by (auto simp: check_two_parameter_def check_same_parameter_def)
  next
    case False
    then show ?thesis using sym ex by (auto simp: check_two_parameter_def)
  qed
next
  case False
  then have "\<not> list_ex is_symmetry (en_statements self)" by (auto simp: list_ex_iff is_symmetry_iff)
  then show ?thesis using False by (simp add: check_two_parameter_def check_same_parameter_def)
qed

text \<open>C16: The checks accept an enum exactly when its parameters range over declared sets and have distinct names, the names of its values and
  aliases are distinct, its aliases and its inverse refer to these names only, it is declared symmetric or antisymmetric at most
  once, and in that case has exactly two parameters, over the same set.\<close>
theorem enum_checks_decide: "enum_checks cx self = Inr () \<longleftrightarrow> enum_acceptable cx self"
proof -
  have unit: "(\<exists>u :: unit. r = Inr u \<and> P) \<longleftrightarrow> r = Inr () \<and> P" for r :: "unit checked" and P by auto
  have counts: "length (filter is_sym ss) \<le> 1 \<and> length (filter is_antisym ss) \<le> 1 \<and> (filter is_sym ss = [] \<or> filter is_antisym ss = [])
      \<longleftrightarrow> length (filter is_sym ss) + length (filter is_antisym ss) \<le> 1" for ss
    by (cases "filter is_sym ss"; cases "filter is_antisym ss") auto
  have "check_redefinition_field self = Inr () \<and> check_conflict self = Inr () \<longleftrightarrow> distinct (field_list (en_statements self))
      \<and> length (filter is_sym (en_statements self)) + length (filter is_antisym (en_statements self)) \<le> 1"
    unfolding check_redefinition_field_def check_conflict_def and_then_Inr
    using redefinition_iff [of "en_statements self" Map.empty None None] conflict_iff [of None None "en_statements self"]
      counts [of "en_statements self"] by auto
  moreover have "check_redefinition_parameter self = Inr () \<longleftrightarrow> distinct (map (sp_data \<circ> vd_name) (en_variables self))"
    unfolding check_redefinition_parameter_def and_then_Inr using parameters_iff [of "en_variables self" Map.empty] by auto
  ultimately show ?thesis
    using symmetric_parameters_iff [of self]
    unfolding enum_checks_def and_then_Inr unit enum_acceptable_def check_variables_iff field_iff by blast
qed

section \<open>An example file\<close>

definition sp :: "'a \<Rightarrow> 'a spanned" where
  "sp d = spanned_default d"

definition objs_decl :: set_decl where
  "objs_decl = \<lparr>st_name = sp ''Objs'', st_doc = None, st_arg = None, st_superset = None, st_disjoint = [],
     st_keys = map (\<lambda>(k, v). (sp k, None, v)) [(ItemType, ''Obj''), (IdType, ''Id''), (ItemGetter, ''$fun.obj($id)''), (IdGetter, ''$item.id()''),
       (Iter, ''$fun.objs()''), (NewObjs, ''$objs'')], st_quotient = None\<rparr>"

definition obj_var :: "string \<Rightarrow> var_def" where
  "obj_var n = \<lparr>vd_name = sp n, vd_set = \<lparr>sr_name = ''Objs'', sr_var = None\<rparr>\<rparr>"

definition order_decl :: enum_decl where
  "order_decl = \<lparr>en_name = sp ''order'', en_doc = None, en_variables = [obj_var ''lhs'', obj_var ''rhs''],
     en_statements = [ES_AntiSymmetric (sp [(''BEFORE'', ''AFTER'')]), ES_Value (sp ''BEFORE'') None [], ES_Value (sp ''AFTER'') None [],
       ES_Value (sp ''EQUAL'') None []]\<rparr>"

definition order_of :: "string \<Rightarrow> string \<Rightarrow> ast_instance" where
  "order_of a b = \<lparr>ai_name = ''order'', ai_vars = [a, b]\<rparr>"

definition transitive_decl :: constraint_decl where
  "transitive_decl = constraint_new [obj_var ''a'', obj_var ''b'', obj_var ''c'']
     [[AC_Is (order_of ''a'' ''b'') [''BEFORE''] False, AC_Is (order_of ''b'' ''c'') [''BEFORE''] False, AC_Is (order_of ''a'' ''c'') [''BEFORE''] True]]"

definition bool_enum :: enum_def where
  "bool_enum = \<lparr>e_name = ''Bool'', e_doc = None, e_values = [(''TRUE'', None), (''FALSE'', None)], e_aliases = [], e_inverse = None\<rparr>"

definition empty_desc :: ir_desc where
  "empty_desc = \<lparr>ir_choices = [], ir_enums = [(''Bool'', bool_enum)], ir_set_defs = [], ir_triggers = []\<rparr>"

definition order_file :: ast where
  "order_file = \<lparr>a_statements = [S_SetDef objs_decl, S_ChoiceDef (CH_Enum order_decl), S_Require transitive_decl], a_ir_desc = empty_desc,
     a_set_defs = [], a_choice_defs = [], a_triggers = [], a_constraints = [], a_checks = []\<rparr>"

definition no_render :: "string \<Rightarrow> string \<Rightarrow> string \<Rightarrow> string \<Rightarrow> string option \<Rightarrow> string" where
  "no_render _ _ _ _ _ = []"

lemma ir_default_desc: "ir_default = Some empty_desc"
  by (simp add: ir_default_def enum_new_def enum_add_value_def ir_add_enum_def get_enum_def empty_desc_def bool_enum_def)

lemma order_file_accepted:
  "\<exists>ir cos e. type_check id no_render order_file = Some (Inr (ir, cos)) \<and> constraint_type_check id ir transitive_decl = Some cos
    \<and> choice_enum ir ''order'' = Some e \<and> enum_keys e = [''BEFORE'', ''AFTER'', ''EQUAL''] \<and> e_aliases e = []"
proof -
  have "(case type_check id no_render order_file of
      Some (Inr (ir, cos)) \<Rightarrow> constraint_type_check id ir transitive_decl = Some cos \<and>
        (case choice_enum ir ''order'' of Some e \<Rightarrow> enum_keys e = [''BEFORE'', ''AFTER'', ''EQUAL''] \<and> e_aliases e = [] | None \<Rightarrow> False)
    | _ \<Rightarrow> False)" by code_simp
  then show ?thesis by (auto split: option.split_asm sum.split_asm)
qed

lemma order_file_desc: "ir_default = Some (a_ir_desc order_file)"
  by (simp add: ir_default_desc order_file_def)

definition order_world :: "nat world" where
  "order_world = \<lparr>w_choice = (\<lambda>_ os. case os of [x, y] \<Rightarrow> EVal (if x < y then ''BEFORE'' else if y < x then ''AFTER'' else ''EQUAL'') | _ \<Rightarrow> IVal 0),
     w_code = (\<lambda>_ _. True), w_num = (\<lambda>_ _. 0)\<rparr>"

text \<open>A flag and a counter.\<close>

definition flag_desc :: ir_desc where
  "flag_desc = empty_desc\<lparr>ir_choices := [(''flag'', \<lparr>c_name = ''flag'', c_doc = None, c_arguments = Plain [], c_choice_def = CD_Enum ''Bool'',
     c_on_change = [], c_filter_actions = [], c_filters = [], c_no_propagate = VS_Enum ''Bool'' {||} {||}\<rparr>)]\<rparr>"

definition flag_instance :: ast_instance where
  "flag_instance = \<lparr>ai_name = ''flag'', ai_vars = []\<rparr>"

definition count_instance :: ast_instance where
  "count_instance = \<lparr>ai_name = ''count'', ai_vars = []\<rparr>"

definition flag_world :: "nat world" where
  "flag_world = \<lparr>w_choice = (\<lambda>n _. if n = ''flag'' then EVal ''TRUE'' else IVal (- 1)), w_code = (\<lambda>_ _. True), w_num = (\<lambda>_ _. 0)\<rparr>"

lemma flag_desc_bool: "bool_choice flag_desc (ai_name flag_instance)"
proof -
  have "choice_enum flag_desc ''flag'' = Some bool_enum" by (simp add: choice_enum_def flag_desc_def get_choice_def get_enum_def empty_desc_def)
  then show ?thesis by (auto simp: bool_choice_def flag_instance_def bool_enum_def enum_keys_def)
qed

lemma flag_world_values:
  "flag_is flag_world Map.empty flag_instance True" "instance_value flag_world Map.empty count_instance = IVal (- 1)"
  by (simp_all add: flag_is_def instance_value_def flag_world_def flag_instance_def count_instance_def)

section \<open>Defects\<close>

text \<open>The checks accept an enum whose aliases form a cycle that does not go through the first alias; its expansion does not end.\<close>

definition cyclic_decl :: enum_decl where
  "cyclic_decl = \<lparr>en_name = sp ''e'', en_doc = None, en_variables = [], en_statements = [ES_Alias (sp ''A'') None [''B''] [],
     ES_Alias (sp ''B'') None [''C''] [], ES_Alias (sp ''C'') None [''B''] []]\<rparr>"

definition cyclic_aliases :: "(string \<times> string option \<times> string fset) list" where
  "cyclic_aliases = [(''A'', None, {||}), (''B'', None, {|''C''|}), (''C'', None, {|''B''|})]"

lemma expand_alias_cycle: "expand_alias id [] cyclic_aliases ''A'' [''B''] {||} = None"
proof -
  have sorted: "sorted_list_of_fset {|x|} = [x]" for x :: string by (simp add: sorted_list_of_fset.rep_eq)
  let ?stuck = "\<lambda>iter keys aliases name vals expanded r. \<not> ((\<forall>x. iter [x] = [x]) \<and> keys = [] \<and> aliases = cyclic_aliases \<and> name = ''A''
    \<and> (vals = [''B''] \<or> vals = [''C'']))"
  have "?stuck iter keys aliases name vals expanded r" if "expand_alias iter keys aliases name vals expanded = Some r"
    for iter keys aliases name vals expanded r
  proof (rule expand_alias.raw_induct [where P = ?stuck, OF _ that])
    fix expand iter keys aliases name vals expanded r
    assume ih: "\<And>iter keys aliases name vals expanded r. expand iter keys aliases name vals expanded = Some r \<Longrightarrow> ?stuck iter keys aliases name vals expanded r"
      and body: "(if vals = [] then Some (Some expanded)
        else if last vals \<in> set keys then expand iter keys aliases name (butlast vals) (finsert (last vals) expanded)
        else if name = last vals then Some None
        else (case map_of aliases (last vals) of None \<Rightarrow> Some None
          | Some (x, sub_vals) \<Rightarrow> expand iter keys aliases name (butlast vals @ iter (sorted_list_of_fset sub_vals)) expanded)) = Some r"
    show "?stuck iter keys aliases name vals expanded r"
    proof
      assume st: "(\<forall>x. iter [x] = [x]) \<and> keys = [] \<and> aliases = cyclic_aliases \<and> name = ''A'' \<and> (vals = [''B''] \<or> vals = [''C''])"
      then have "expand iter keys aliases name [''C''] expanded = Some r \<or> expand iter keys aliases name [''B''] expanded = Some r"
        using body by (auto simp: cyclic_aliases_def sorted)
      then show False using ih [of iter keys aliases name] st by blast
    qed
  qed
  from this [of id "[]" cyclic_aliases "''A''" "[''B'']" "{||}"] show ?thesis
    by (cases "expand_alias id [] cyclic_aliases ''A'' [''B''] {||}") auto
qed

lemma cyclic_enum_accepted: "enum_checks cx cyclic_decl = Inr () \<and> register_enum id cyclic_decl (empty_desc, []) = None"
proof
  show "enum_checks cx cyclic_decl = Inr ()"
    by (simp add: enum_checks_def and_then_def cyclic_decl_def check_redefinition_parameter_def check_redefinition_field_def check_field_def
        check_two_parameter_def check_same_parameter_def check_conflict_def sp_def spanned_default_def)
  have "sorted_list_of_fset {|x|} = [x]" for x :: string by (simp add: sorted_list_of_fset.rep_eq)
  then show "register_enum id cyclic_decl (empty_desc, []) = None"
    using expand_alias_cycle
    by (simp add: register_enum_def cyclic_decl_def es_default_def sp_def spanned_default_def args_new_def enum_of_statements_def
        expand_one_alias_def cyclic_aliases_def enum_keys_def enum_new_def)
qed

text \<open>The value of an increment is renamed twice: the size of the object that the counter iterates on becomes the size of its argument.\<close>

definition incr_desc :: ir_desc where
  "incr_desc = empty_desc\<lparr>ir_choices := [(''incr'', \<lparr>c_name = ''incr'', c_doc = None, c_arguments = Plain [(''d'', order_objs), (''i'', order_objs)],
     c_choice_def = CD_Enum ''Bool'', c_on_change = [], c_filter_actions = [], c_filters = [], c_no_propagate = VS_Enum ''Bool'' {||} {||}\<rparr>)]\<rparr>"

definition incr_vars :: var_map where
  "incr_vars = \<lparr>vm_map = [(''i'', Arg 0, order_objs), (''d'', Forall 0, order_objs)], vm_next_arg_id = 1, vm_next_forall_id = 1\<rparr>"

lemma counter_value_renamed_twice:
  "map_option oc_action (gen_incr_counter ''count'' 1 incr_vars \<lparr>ci_choice = ''incr'', ci_vars = [Forall 0, Arg 0]\<rparr>
     (vs_enum_values ''Bool'' {|''TRUE''|}) (CV_Choice \<lparr>ci_choice = ''size'', ci_vars = [Forall 0]\<rparr>) incr_desc)
   = Some (IncrCounter \<lparr>ci_choice = ''count'', ci_vars = [Arg 1]\<rparr> (CV_Choice \<lparr>ci_choice = ''size'', ci_vars = [Arg 1]\<rparr>)
       (vs_enum_values ''Bool'' {|''TRUE''|}))"
  by (simp add: gen_incr_counter_def adapt_env_def adapt_env_ext_def incr_desc_def get_choice_def incr_vars_def vm_env_def ad_default_def
      ad_set_variable_def ad_variable_def ci_adapt_def vs_enum_values_def order_objs_def vars_adapt_def sd_eq_def sc_new_def)

section \<open>Properties\<close>

text \<open>C5: The type checker is sound: when a file is accepted, its enums are well formed and closed under inverses, every choice has its enum and
  fragile values of its type, and every typed constraint refers to choices that exist, with the right number of
  arguments, and compares them with values of their types. These are the assumptions of the generation of filters.\<close>
theorem accepted_file_well_typed:
  assumes "ir_default = Some (a_ir_desc a)" "type_check iter render a = Some (Inr (ir, cos))"
  shows "ir_closed ir \<and> (\<forall>co \<in> set cos. constraint_ok ir co)
    \<and> (\<forall>n c. get_choice ir n = Some c \<longrightarrow> fragile_ok ir c \<and> (\<forall>e. c_choice_def c = CD_Enum e \<longrightarrow> get_enum ir e \<noteq> None))"
proof -
  have ok: "ir_inv ir" "\<forall>co \<in> set cos. constraint_ok ir co" using type_check_ok [OF ir_default_inv [OF assms(1)] assms(2)] by auto
  have "choice_inv ir c" if "get_choice ir n = Some c" for n c
    using ok(1) that by (auto simp: ir_inv_def get_choice_def dest: map_of_SomeD)
  then show ?thesis using ok by (simp add: ir_inv_def choice_inv_def)
qed

theorem accepted_file_well_typed_witness:
  "\<exists>ir cos. type_check id no_render order_file = Some (Inr (ir, cos)) \<and> ir_closed ir \<and> (\<forall>co \<in> set cos. constraint_ok ir co)"
  using order_file_accepted accepted_file_well_typed [OF order_file_desc, of id no_render] by metis

text \<open>C15: Typing keeps the meaning of a constraint: for all objects that its variables stand for, the typed constraints hold exactly when the
  constraint of the file does, in every world that gives values to choices and to host code.\<close>
theorem typing_keeps_meaning:
  assumes "ir_default = Some (a_ir_desc a)" "type_check iter render a = Some (Inr (ir, cos))" "\<forall>xs. set (iter xs) = set xs"
    and "constraint_type_check iter ir c = Some cs" "length os = length (cn_forall_vars c)"
  shows "(\<forall>co \<in> set cs. constraint_holds ir (typed_val_of w (object_of os)) (typed_code w (object_of os)) (typed_num w (object_of os)) sets co)
    \<longleftrightarrow> ast_constraint_holds ir w (map_of (zip (map (sp_data \<circ> vd_name) (cn_forall_vars c)) os)) c"
  using constraint_type_check_meaning [OF _ _ assms(4,5)] type_check_ok [OF ir_default_inv [OF assms(1)] assms(2)] assms(3) by blast

lemma order_transitive_holds:
  assumes "choice_enum ir ''order'' = Some e" "enum_keys e = [''BEFORE'', ''AFTER'', ''EQUAL'']" "e_aliases e = []"
  shows "ast_constraint_holds ir order_world (map_of (zip (map (sp_data \<circ> vd_name) (cn_forall_vars transitive_decl)) [x, y, z])) transitive_decl"
  using assms
  by (auto simp: ast_constraint_holds_def transitive_decl_def constraint_new_def obj_var_def sp_def spanned_default_def instance_value_def
      order_of_def order_world_def enum_expand_def)

theorem typing_keeps_meaning_witness:
  "\<exists>ir cos. type_check id no_render order_file = Some (Inr (ir, cos)) \<and> (\<forall>co \<in> set cos. constraint_holds ir (typed_val_of order_world (object_of [5, 7, 9]))
     (typed_code order_world (object_of [5, 7, 9])) (typed_num order_world (object_of [5, 7, 9])) (\<lambda>_. order_objs) co)"
proof -
  obtain ir cos e where f: "type_check id no_render order_file = Some (Inr (ir, cos))" "constraint_type_check id ir transitive_decl = Some cos"
    and e: "choice_enum ir ''order'' = Some e" "enum_keys e = [''BEFORE'', ''AFTER'', ''EQUAL'']" "e_aliases e = []"
    using order_file_accepted by blast
  have "\<forall>co \<in> set cos. constraint_holds ir (typed_val_of order_world (object_of [5, 7, 9]))
     (typed_code order_world (object_of [5, 7, 9])) (typed_num order_world (object_of [5, 7, 9])) (\<lambda>_. order_objs) co"
    using typing_keeps_meaning [OF order_file_desc f(1) _ f(2), of "[5, 7, 9]" order_world "\<lambda>_. order_objs"] order_transitive_holds [OF e]
    by (simp add: transitive_decl_def constraint_new_def)
  then show ?thesis using f(1) by blast
qed

text \<open>C18: The constraint that is added for the increment of a counter makes its flag true exactly when all the conditions of the counter hold.\<close>
theorem increment_flag_defined:
  assumes "bool_choice ir (ai_name incr)" "flag_is w env incr b" "\<forall>c \<in> set conds. ast_ok ir w env c"
  shows "ast_constraint_holds ir w env (increment_constraint incr defs conds) \<longleftrightarrow> (b \<longleftrightarrow> (\<forall>c \<in> set conds. ast_holds ir w env c))"
  by (rule increment_constraint_spec [OF assms])

theorem increment_flag_defined_witness:
  "ast_constraint_holds flag_desc flag_world Map.empty (increment_constraint flag_instance [] [AC_CmpCode count_instance ''0'' Leq])"
  using increment_flag_defined [OF flag_desc_bool flag_world_values(1), of "[AC_CmpCode count_instance ''0'' Leq]" "[]"] flag_world_values(2)
  by (simp add: flag_world_def)


definition flag_quotient :: quotient where
  "flag_quotient = \<lparr>q_item = obj_var ''x'', q_representant = ''flag'', q_conditions = [AC_Bool True], q_equiv_relation = (''order'', [''EQUAL''])\<rparr>"


end
