(* ===== verification/Sparse_Vec.thy ===== *)
theory Sparse_Vec
  imports Telamon_Prelude
begin

text \<open>
  The vectors with holes of the kernel representation (\<^verbatim>\<open>SparseVec\<close> of \<^verbatim>\<open>src/ir/mod.rs\<close>). A vector has a capacity, which may be larger than
  the entries that are stored; entries beyond them and holes are filled once. The locale \<open>arena\<close> is what the kernel
  representation needs of a store of objects with identifiers; it is interpreted on these vectors.
\<close>

section \<open>Operations\<close>

record 'a sparse_vec =
  sv_vec :: "'a option list"
  sv_capacity :: nat

definition sv_new :: "'a sparse_vec" where
  "sv_new = \<lparr>sv_vec = [], sv_capacity = 0\<rparr>"

definition sv_from_vec :: "'a option list \<Rightarrow> 'a sparse_vec" where
  "sv_from_vec vec = \<lparr>sv_vec = vec, sv_capacity = length vec\<rparr>"

definition sv_len :: "'a sparse_vec \<Rightarrow> nat" where
  "sv_len v = sv_capacity v"

text \<open>The range \<^verbatim>\<open>len..=capacity\<close> includes its end.\<close>

definition sv_make_holes :: "'a sparse_vec \<Rightarrow> 'a sparse_vec" where
  "sv_make_holes v =
     (if length (sv_vec v) < sv_capacity v
      then v\<lparr>sv_vec := sv_vec v @ replicate (Suc (sv_capacity v) - length (sv_vec v)) None\<rparr> else v)"

definition sv_push :: "'a \<Rightarrow> 'a sparse_vec \<Rightarrow> 'a sparse_vec option" where
  "sv_push x v =
     (let v = sv_make_holes v in
      if length (sv_vec v) = sv_capacity v
      then Some \<lparr>sv_vec = sv_vec v @ [Some x], sv_capacity = Suc (sv_capacity v)\<rparr> else None)"

definition sv_extend :: "'a list \<Rightarrow> 'a sparse_vec \<Rightarrow> 'a sparse_vec option" where
  "sv_extend xs v =
     (let v = sv_make_holes v in
      if length (sv_vec v) = sv_capacity v
      then let vec = sv_vec v @ map Some xs in Some \<lparr>sv_vec = vec, sv_capacity = length vec\<rparr> else None)"

definition sv_expand_to :: "nat \<Rightarrow> 'a sparse_vec \<Rightarrow> 'a sparse_vec option" where
  "sv_expand_to c v = (if sv_capacity v \<le> c then Some (v\<lparr>sv_capacity := c\<rparr>) else None)"

definition sv_set_lazy :: "nat \<Rightarrow> 'a \<Rightarrow> 'a sparse_vec \<Rightarrow> 'a sparse_vec option" where
  "sv_set_lazy i x v =
     (if sv_capacity v \<le> i then None
      else let vec = (if length (sv_vec v) \<le> i then sv_vec v @ replicate (Suc i - length (sv_vec v)) None else sv_vec v) in
        if vec ! i = None then Some (v\<lparr>sv_vec := vec[i := Some x]\<rparr>) else None)"

definition sv_iter :: "'a sparse_vec \<Rightarrow> 'a list" where
  "sv_iter v = List.map_filter id (sv_vec v)"

text \<open>Reading a hole panics.\<close>

definition sv_index :: "'a sparse_vec \<Rightarrow> nat \<Rightarrow> 'a option" where
  "sv_index v i = (if i < length (sv_vec v) then sv_vec v ! i else None)"

definition sv_update :: "nat \<Rightarrow> ('a \<Rightarrow> 'a) \<Rightarrow> 'a sparse_vec \<Rightarrow> 'a sparse_vec option" where
  "sv_update i f v = map_option (\<lambda>x. v\<lparr>sv_vec := (sv_vec v)[i := Some (f x)]\<rparr>) (sv_index v i)"

definition sv_map :: "('a \<Rightarrow> 'a) \<Rightarrow> 'a sparse_vec \<Rightarrow> 'a sparse_vec" where
  "sv_map f v = v\<lparr>sv_vec := map (map_option f) (sv_vec v)\<rparr>"

section \<open>Stores of objects with identifiers\<close>

text \<open>\<open>full\<close> says that no identifier is reserved: a new one can be allocated.\<close>

locale arena =
  fixes inv :: "'v \<Rightarrow> bool" and full :: "'v \<Rightarrow> bool" and lookup :: "'v \<Rightarrow> nat \<Rightarrow> 'a option" and cap :: "'v \<Rightarrow> nat"
    and push :: "'a \<Rightarrow> 'v \<Rightarrow> 'v option" and reserve :: "nat \<Rightarrow> 'v \<Rightarrow> 'v option" and fill :: "nat \<Rightarrow> 'a \<Rightarrow> 'v \<Rightarrow> 'v option"
    and upd :: "nat \<Rightarrow> ('a \<Rightarrow> 'a) \<Rightarrow> 'v \<Rightarrow> 'v option"
  assumes lookup_cap: "inv v \<Longrightarrow> lookup v i = Some x \<Longrightarrow> i < cap v"
    and push: "inv v \<Longrightarrow> full v \<Longrightarrow> \<exists>v'. push x v = Some v' \<and> inv v' \<and> full v' \<and> cap v' = Suc (cap v) \<and> lookup v' = (lookup v)(cap v \<mapsto> x)"
    and reserve: "inv v \<Longrightarrow> cap v \<le> c \<Longrightarrow> \<exists>v'. reserve c v = Some v' \<and> inv v' \<and> cap v' = c \<and> lookup v' = lookup v"
    and fill: "inv v \<Longrightarrow> i < cap v \<Longrightarrow> lookup v i = None \<Longrightarrow> \<exists>v'. fill i x v = Some v' \<and> inv v' \<and> cap v' = cap v \<and> lookup v' = (lookup v)(i \<mapsto> x)"
    and upd: "lookup v i = Some x \<Longrightarrow> inv v \<Longrightarrow> \<exists>v'. upd i f v = Some v' \<and> inv v' \<and> full v' = full v \<and> cap v' = cap v \<and> lookup v' = (lookup v)(i \<mapsto> f x)"
    and upd_None: "lookup v i = None \<Longrightarrow> upd i f v = None"
begin

lemma push_fresh:
  assumes "inv v" "full v" "push x v = Some v'"
  shows "inv v' \<and> full v' \<and> cap v' = Suc (cap v) \<and> lookup v' = (lookup v)(cap v \<mapsto> x) \<and> lookup v (cap v) = None"
  using push [OF assms(1,2), of x] lookup_cap [OF assms(1), of "cap v"] assms(3) by (cases "lookup v (cap v)") auto

lemma push_keeps:
  assumes "inv v" "full v" "push x v = Some v'" "lookup v i = Some y"
  shows "lookup v' i = Some y"
  using push_fresh [OF assms(1-3)] lookup_cap [OF assms(1,4)] assms(4) by auto

lemma fillD:
  assumes "inv v" "i < cap v" "lookup v i = None" "fill i x v = Some v'"
  shows "inv v' \<and> cap v' = cap v \<and> lookup v' = (lookup v)(i \<mapsto> x)"
  using fill [OF assms(1-3), of x] assms(4) by auto

lemma updD:
  assumes "inv v" "upd i f v = Some v'"
  shows "\<exists>x. lookup v i = Some x \<and> inv v' \<and> full v' = full v \<and> cap v' = cap v \<and> lookup v' = (lookup v)(i \<mapsto> f x)"
proof (cases "lookup v i")
  case None
  then show ?thesis using upd_None [OF None, of f] assms(2) by simp
next
  case (Some x)
  then show ?thesis using upd [OF Some assms(1), of f] assms(2) by auto
qed

end

section \<open>The vectors with holes\<close>

definition sv_wf :: "'a sparse_vec \<Rightarrow> bool" where
  "sv_wf v \<longleftrightarrow> length (sv_vec v) \<le> sv_capacity v"

definition sv_full :: "'a sparse_vec \<Rightarrow> bool" where
  "sv_full v \<longleftrightarrow> length (sv_vec v) = sv_capacity v"

interpretation sv: arena sv_wf sv_full sv_index sv_len sv_push sv_expand_to sv_set_lazy sv_update
proof
  fix v :: "'a sparse_vec" and i x assume "sv_wf v" "sv_index v i = Some x"
  then show "i < sv_len v" by (auto simp: sv_wf_def sv_index_def sv_len_def split: if_splits)
next
  fix v :: "'a sparse_vec" and x assume "sv_wf v" "sv_full v"
  then show "\<exists>v'. sv_push x v = Some v' \<and> sv_wf v' \<and> sv_full v' \<and> sv_len v' = Suc (sv_len v)
      \<and> sv_index v' = (sv_index v)(sv_len v \<mapsto> x)"
    by (auto simp: sv_push_def sv_make_holes_def sv_wf_def sv_full_def sv_index_def sv_len_def nth_append fun_eq_iff)
next
  fix v :: "'a sparse_vec" and c assume "sv_wf v" "sv_len v \<le> c"
  then show "\<exists>v'. sv_expand_to c v = Some v' \<and> sv_wf v' \<and> sv_len v' = c \<and> sv_index v' = sv_index v"
    by (auto simp: sv_expand_to_def sv_wf_def sv_index_def sv_len_def fun_eq_iff)
next
  fix v :: "'a sparse_vec" and i x assume "sv_wf v" "i < sv_len v" "sv_index v i = None"
  then show "\<exists>v'. sv_set_lazy i x v = Some v' \<and> sv_wf v' \<and> sv_len v' = sv_len v \<and> sv_index v' = (sv_index v)(i \<mapsto> x)"
    by (auto simp: sv_set_lazy_def sv_wf_def sv_index_def sv_len_def nth_append fun_eq_iff Let_def nth_list_update split: if_splits)
next
  fix v :: "'a sparse_vec" and i x f assume "sv_index v i = Some x" "sv_wf v"
  then show "\<exists>v'. sv_update i f v = Some v' \<and> sv_wf v' \<and> sv_full v' = sv_full v \<and> sv_len v' = sv_len v
      \<and> sv_index v' = (sv_index v)(i \<mapsto> f x)"
    by (auto simp: sv_update_def sv_wf_def sv_full_def sv_index_def sv_len_def nth_list_update fun_eq_iff split: if_splits)
qed (simp add: sv_update_def)

lemma sv_new_ok: "sv_wf sv_new" "sv_full sv_new" "sv_index sv_new i = None" "sv_len sv_new = 0"
  by (simp_all add: sv_wf_def sv_full_def sv_new_def sv_index_def sv_len_def)

lemma sv_iter_iff: "x \<in> set (sv_iter v) \<longleftrightarrow> (\<exists>i. sv_index v i = Some x)"
proof -
  have "x \<in> set (sv_iter v) \<longleftrightarrow> Some x \<in> set (sv_vec v)" by (force simp: sv_iter_def List.map_filter_def image_iff)
  then show ?thesis by (auto simp: sv_index_def in_set_conv_nth)
qed

lemma sv_map_ok: "sv_wf (sv_map f v) = sv_wf v" "sv_full (sv_map f v) = sv_full v" "sv_len (sv_map f v) = sv_len v"
    "sv_index (sv_map f v) i = map_option f (sv_index v i)"
  by (simp_all add: sv_map_def sv_wf_def sv_full_def sv_index_def sv_len_def)

lemma sv_extend_ok:
  assumes "sv_wf v" "sv_full v"
  shows "\<exists>v'. sv_extend xs v = Some v' \<and> sv_wf v' \<and> sv_full v' \<and> sv_len v' = sv_len v + length xs
    \<and> (\<forall>i. sv_index v' i = (if i < sv_len v then sv_index v i else if i < sv_len v + length xs then Some (xs ! (i - sv_len v)) else None))"
  using assms
  by (auto simp: sv_extend_def sv_make_holes_def sv_wf_def sv_full_def sv_index_def sv_len_def nth_append Let_def)

text \<open>Once identifiers are reserved, nothing can be appended: filling the vector up to its capacity adds one hole too many and the
  assertion that follows fails.\<close>

lemma push_after_reserve_panics: "length (sv_vec v) < sv_capacity v \<Longrightarrow> sv_push x v = None \<and> sv_extend xs v = None"
  by (simp add: sv_push_def sv_extend_def sv_make_holes_def Let_def)

end
