(* ===== verification/Kernel_IR.thy ===== *)
theory Kernel_IR
  imports Sparse_Vec Local_Info Utils_Lib "HOL-Library.FSet" "HOL-Library.AList"
begin

text \<open>
  The objects of a kernel (\<^verbatim>\<open>src/ir\<close>): types, operands, operators, instructions, dimensions, memory blocks and variables, with the
  operations on a single object. The type parameter \<open>'l\<close> is what the source calls \<^verbatim>\<open>L\<close>: \<^verbatim>\<open>()\<close> while a kernel is built, a map of reserved
  identifiers once it is frozen. Identifiers are natural numbers, with the conversions to \<^verbatim>\<open>u16\<close> and \<^verbatim>\<open>u32\<close> written out.
  An \<open>ir_error\<close> is an error that the source returns; \<open>None\<close> is a panic. Hash sets are finite sets, and \<open>iter\<close> is the order in
  which their elements are enumerated.
\<close>

section \<open>Types and errors\<close>

datatype ir_type = T_I u16 | T_F u16 | T_PtrTo nat

fun ty_is_integer :: "ir_type \<Rightarrow> bool" where
  "ty_is_integer (T_F _) = False"
| "ty_is_integer _ = True"

fun ty_is_float :: "ir_type \<Rightarrow> bool" where
  "ty_is_float (T_F _) = True"
| "ty_is_float _ = False"

fun ty_bitwidth :: "ir_type \<Rightarrow> u32 option" where
  "ty_bitwidth (T_I bits) = Some (ucast bits)"
| "ty_bitwidth (T_F bits) = Some (ucast bits)"
| "ty_bitwidth (T_PtrTo _) = None"

definition ty_len_byte :: "ir_type \<Rightarrow> u32 option" where
  "ty_len_byte t = Option.bind (ty_bitwidth t) (\<lambda>bits. div_ceil bits 8)"

datatype rounding = R_Exact | R_Nearest | R_Zero | R_Positive | R_Negative

datatype expected_type = ET_Integer | ET_Float | ET_Specific ir_type

datatype ir_type_error = ITE_InvalidType ir_type | ITE_ExpectedReturnType nat | ITE_InvalidRounding rounding ir_type
  | ITE_WrongType ir_type expected_type | ITE_UnexpectedType ir_type

datatype ir_error = IE_Type ir_type_error | IE_InvalidDimSize | IE_DuplicateIncrement nat | IE_MissingIterationDim nat
  | IE_MissingDimMapping nat nat

definition check_equals :: "ir_type \<Rightarrow> ir_type \<Rightarrow> ir_error + unit" where
  "check_equals given expected = (if given = expected then Inr () else Inl (IE_Type (ITE_WrongType given (ET_Specific expected))))"

definition check_integer :: "ir_type \<Rightarrow> ir_error + unit" where
  "check_integer given = (if ty_is_integer given then Inr () else Inl (IE_Type (ITE_WrongType given ET_Integer)))"

text \<open>The operator \<^verbatim>\<open>?\<close> on results.\<close>

definition if_ok :: "'e + 'a \<Rightarrow> ('a \<Rightarrow> 'e + 'b) \<Rightarrow> 'e + 'b" where
  "if_ok r f = (case r of Inl e \<Rightarrow> Inl e | Inr x \<Rightarrow> f x)"

fun for_ok :: "('a \<Rightarrow> 'e + unit) \<Rightarrow> 'a list \<Rightarrow> 'e + unit" where
  "for_ok f [] = Inr ()"
| "for_ok f (x # xs) = if_ok (f x) (\<lambda>_. for_ok f xs)"

lemma if_ok_Inr [simp]: "if_ok r f = Inr y \<longleftrightarrow> (\<exists>x. r = Inr x \<and> f x = Inr y)"
  by (auto simp: if_ok_def split: sum.splits)

lemma for_ok_Inr [simp]: "for_ok f xs = Inr () \<longleftrightarrow> (\<forall>x \<in> set xs. f x = Inr ())"
  by (induction xs) auto

section \<open>Parameters and access patterns\<close>

record parameter =
  par_name :: string
  par_t :: ir_type
  par_elem_t :: "ir_type option"

record signature =
  sig_name :: string
  sig_params :: "parameter list"

definition sig_new :: "string \<Rightarrow> signature" where
  "sig_new name = \<lparr>sig_name = name, sig_params = []\<rparr>"

definition sig_add_scalar :: "string \<Rightarrow> ir_type \<Rightarrow> signature \<Rightarrow> signature" where
  "sig_add_scalar name t s = s\<lparr>sig_params := sig_params s @ [\<lparr>par_name = name, par_t = t, par_elem_t = None\<rparr>]\<rparr>"

text \<open>What a kernel needs of a device: the types it supports and the type of a pointer to global memory.\<close>

record ir_device =
  dv_check_type :: "ir_type \<Rightarrow> ir_error + unit"
  dv_global_pointer :: ir_type

definition sig_add_array :: "ir_device \<Rightarrow> string \<Rightarrow> ir_type \<Rightarrow> signature \<Rightarrow> signature" where
  "sig_add_array device name elem_t s =
     s\<lparr>sig_params := sig_params s @ [\<lparr>par_name = name, par_t = dv_global_pointer device, par_elem_t = Some elem_t\<rparr>]\<rparr>"

datatype access_pattern = AP_Unknown "nat option" | AP_Tensor "nat option" "(nat \<times> parameter partial_size) list"

fun ap_is_consecutive :: "access_pattern \<Rightarrow> nat \<Rightarrow> ir_type \<Rightarrow> bool" where
  "ap_is_consecutive (AP_Unknown _) dim t = False"
| "ap_is_consecutive (AP_Tensor _ dims) dim t =
     (case Option.bind (map_of dims dim) ps_as_int of Some stride \<Rightarrow> Some stride = ty_len_byte t | None \<Rightarrow> False)"

fun ap_mem_block :: "access_pattern \<Rightarrow> nat option" where
  "ap_mem_block (AP_Unknown mem) = mem"
| "ap_mem_block (AP_Tensor mem _) = mem"

fun ap_check :: "(nat list \<Rightarrow> nat list) \<Rightarrow> access_pattern \<Rightarrow> nat fset \<Rightarrow> ir_error + unit" where
  "ap_check iter (AP_Unknown _) iter_dims = Inr ()"
| "ap_check iter (AP_Tensor _ dims) iter_dims =
     for_ok (\<lambda>dim. if dim |\<in>| iter_dims then Inr () else Inl (IE_MissingIterationDim dim)) (iter (map fst dims))"

definition ap_pointer_type :: "ir_device \<Rightarrow> access_pattern \<Rightarrow> ir_type" where
  "ap_pointer_type device p = (case ap_mem_block p of Some mem \<Rightarrow> T_PtrTo mem | None \<Rightarrow> dv_global_pointer device)"

section \<open>Maps between dimensions\<close>

text \<open>\<^verbatim>\<open>DimMap\<close> is a linked list of pairs. \<^verbatim>\<open>drain_filter\<close> removes the pairs that satisfy a predicate and returns them.\<close>

type_synonym dim_pairs = "(nat \<times> nat) list"

definition same_pair :: "nat \<Rightarrow> nat \<Rightarrow> nat \<times> nat \<Rightarrow> bool" where
  "same_pair a1 a2 pair \<longleftrightarrow> pair = (a1, a2) \<or> pair = (a2, a1)"

definition dp_merge_dims :: "nat \<Rightarrow> nat \<Rightarrow> dim_pairs \<Rightarrow> bool \<times> dim_pairs" where
  "dp_merge_dims a1 a2 m = (filter (same_pair a1 a2) m \<noteq> [], filter (Not \<circ> same_pair a1 a2) m)"

section \<open>Identifiers reserved for a lowering\<close>

record counter =
  next_mem :: nat
  next_inst :: nat
  next_dim :: nat
  next_dim_mapping :: nat

definition as_u32 :: "nat \<Rightarrow> nat" where
  "as_u32 n = n mod 2 ^ 32"

definition as_u16 :: "nat \<Rightarrow> nat" where
  "as_u16 n = n mod 2 ^ 16"

definition counter_mem :: "counter \<Rightarrow> nat \<times> counter" where
  "counter_mem c = (as_u32 (next_mem c), c\<lparr>next_mem := Suc (next_mem c)\<rparr>)"

definition counter_inst :: "counter \<Rightarrow> nat \<times> counter" where
  "counter_inst c = (as_u32 (next_inst c), c\<lparr>next_inst := Suc (next_inst c)\<rparr>)"

definition counter_dim :: "counter \<Rightarrow> nat \<times> counter" where
  "counter_dim c = (as_u32 (next_dim c), c\<lparr>next_dim := Suc (next_dim c)\<rparr>)"

text \<open>The counter of mappings is a \<^verbatim>\<open>u16\<close>; its increment may overflow.\<close>

definition counter_dim_mapping :: "counter \<Rightarrow> (nat \<times> counter) option" where
  "counter_dim_mapping c =
     (if Suc (next_dim_mapping c) < 2 ^ 16 then Some (next_dim_mapping c, c\<lparr>next_dim_mapping := Suc (next_dim_mapping c)\<rparr>) else None)"

record lowering_map =
  lm_mem_id :: nat
  lm_st_inst :: nat
  lm_st_map :: "nat \<rightharpoonup> nat \<times> nat"
  lm_ld_inst :: nat
  lm_ld_map :: "nat \<rightharpoonup> nat \<times> nat"

fun lowering_pairs :: "dim_pairs \<Rightarrow> counter \<Rightarrow> ((nat \<times> nat \<times> nat) list \<times> (nat \<times> nat \<times> nat) list \<times> counter) option" where
  "lowering_pairs [] c = Some ([], [], c)"
| "lowering_pairs ((src, dst) # m) c = do {
     let (st_dim, c) = counter_dim c;
     let (ld_dim, c) = counter_dim c;
     (st_mapping, c) \<leftarrow> counter_dim_mapping c;
     (ld_mapping, c) \<leftarrow> counter_dim_mapping c;
     (st, ld, c) \<leftarrow> lowering_pairs m c;
     Some ((src, st_dim, st_mapping) # st, (dst, ld_dim, ld_mapping) # ld, c) }"

text \<open>Collecting pairs in a hash map keeps the last pair of a key.\<close>

definition hash_collect :: "('a \<times> 'b) list \<Rightarrow> ('a \<rightharpoonup> 'b)" where
  "hash_collect ps = map_of (rev ps)"

definition for_dim_map :: "dim_pairs \<Rightarrow> counter \<Rightarrow> (lowering_map \<times> counter) option" where
  "for_dim_map m c = do {
     let (mem_id, c) = counter_mem c;
     let (st_inst, c) = counter_inst c;
     let (ld_inst, c) = counter_inst c;
     (st, ld, c) \<leftarrow> lowering_pairs m c;
     Some (\<lparr>lm_mem_id = mem_id, lm_st_inst = st_inst, lm_st_map = hash_collect st, lm_ld_inst = ld_inst, lm_ld_map = hash_collect ld\<rparr>, c) }"

record lowered_dim_map =
  ld_mem :: nat
  ld_store :: nat
  ld_load :: nat
  ld_st_dims_mapping :: "(nat \<times> nat \<times> nat) list"
  ld_ld_dims_mapping :: "(nat \<times> nat \<times> nat) list"

text \<open>A lookup and the entry it gives: the mapping, the old and the new dimension.\<close>

definition lower_dim :: "(nat \<rightharpoonup> nat \<times> nat) \<Rightarrow> nat \<Rightarrow> (nat \<times> nat \<times> nat) option" where
  "lower_dim m d = map_option (\<lambda>(new_dim, mapping). (mapping, d, new_dim)) (m d)"

definition lm_lower :: "lowering_map \<Rightarrow> dim_pairs \<Rightarrow> lowered_dim_map option" where
  "lm_lower self m = do {
     st \<leftarrow> those (map (\<lambda>(src, _). lower_dim (lm_st_map self) src) m);
     ld \<leftarrow> those (map (\<lambda>(_, dst). lower_dim (lm_ld_map self) dst) m);
     Some \<lparr>ld_mem = lm_mem_id self, ld_store = lm_st_inst self, ld_load = lm_ld_inst self,
       ld_st_dims_mapping = st, ld_ld_dims_mapping = ld\<rparr> }"

definition new_dims :: "(nat \<times> nat \<times> nat) list \<Rightarrow> nat list" where
  "new_dims ms = map (\<lambda>(_, _, d). d) ms"

definition mem_dimensions :: "lowered_dim_map \<Rightarrow> dim_pairs option" where
  "mem_dimensions l =
     (if length (ld_st_dims_mapping l) = length (ld_ld_dims_mapping l)
      then Some (zip (new_dims (ld_st_dims_mapping l)) (new_dims (ld_ld_dims_mapping l))) else None)"

section \<open>Operands\<close>

datatype 'l dim_map_scope = DS_Local | DS_Thread | DS_Global 'l

text \<open>A rational constant is its numerator and denominator.\<close>

datatype 'l operand = Op_Int int u16 | Op_Float "int \<times> int" u16 | Op_Inst nat ir_type dim_pairs "'l dim_map_scope" | Op_Index nat
  | Op_Param parameter | Op_Addr nat | Op_Reduce nat ir_type dim_pairs "nat list" | Op_InductionVar nat ir_type | Op_Variable nat ir_type

fun op_t :: "'l operand \<Rightarrow> ir_type" where
  "op_t (Op_Int _ n) = T_I n"
| "op_t (Op_Float _ n) = T_F n"
| "op_t (Op_Addr mem) = T_PtrTo mem"
| "op_t (Op_Index _) = T_I 32"
| "op_t (Op_Param p) = par_t p"
| "op_t (Op_Variable _ t) = t"
| "op_t (Op_Inst _ t _ _) = t"
| "op_t (Op_Reduce _ t _ _) = t"
| "op_t (Op_InductionVar _ t) = t"

text \<open>\<^verbatim>\<open>num_bits\<close>: the loop that shifts the absolute value. Its counter is a \<^verbatim>\<open>u16\<close>; an integer for which it would overflow is refused by
  the assertion of \<^verbatim>\<open>new_int\<close>, or panics before.\<close>

fun bits_loop :: "nat \<Rightarrow> nat" where
  "bits_loop rem = (if rem = 0 then 0 else Suc (bits_loop (rem div 2)))"

declare bits_loop.simps [simp del]

definition num_bits :: "int \<Rightarrow> nat" where
  "num_bits v = (if v < 0 then 1 else 0) + bits_loop (nat \<bar>v\<bar>)"

definition op_new_int :: "int \<Rightarrow> u16 \<Rightarrow> 'l operand option" where
  "op_new_int v len = (if num_bits v \<le> unat len then Some (Op_Int v len) else None)"

fun op_merge_dims :: "nat \<Rightarrow> nat \<Rightarrow> 'l operand \<Rightarrow> 'l operand" where
  "op_merge_dims a1 a2 (Op_Inst i t m s) = Op_Inst i t (snd (dp_merge_dims a1 a2 m)) s"
| "op_merge_dims a1 a2 (Op_Reduce i t m ds) = Op_Reduce i t (snd (dp_merge_dims a1 a2 m)) ds"
| "op_merge_dims a1 a2 op = op"

fun should_lower_map :: "nat \<Rightarrow> nat \<Rightarrow> 'l operand \<Rightarrow> bool" where
  "should_lower_map a1 a2 (Op_Inst _ _ m _) = list_ex (same_pair a1 a2) m"
| "should_lower_map a1 a2 (Op_Reduce _ _ m _) = list_ex (same_pair a1 a2) m"
| "should_lower_map a1 a2 _ = False"

fun op_as_reduction :: "'l operand \<Rightarrow> (nat \<times> dim_pairs \<times> nat list) option" where
  "op_as_reduction (Op_Reduce i _ m ds) = Some (i, m, ds)"
| "op_as_reduction _ = None"

fun op_is_constant :: "'l operand \<Rightarrow> bool" where
  "op_is_constant (Op_Int _ _) = True"
| "op_is_constant (Op_Float _ _) = True"
| "op_is_constant (Op_Addr _) = True"
| "op_is_constant (Op_Param _) = True"
| "op_is_constant _ = False"

fun op_mapped_dims :: "'l operand \<Rightarrow> dim_pairs option" where
  "op_mapped_dims (Op_Inst _ _ m _) = Some m"
| "op_mapped_dims (Op_Reduce _ _ m _) = Some m"
| "op_mapped_dims _ = None"

fun op_freeze :: "unit operand \<Rightarrow> counter \<Rightarrow> (lowering_map operand \<times> counter) option" where
  "op_freeze (Op_Int v n) c = Some (Op_Int v n, c)"
| "op_freeze (Op_Float v n) c = Some (Op_Float v n, c)"
| "op_freeze (Op_Inst i t m (DS_Global _)) c = map_option (\<lambda>(l, c). (Op_Inst i t m (DS_Global l), c)) (for_dim_map m c)"
| "op_freeze (Op_Inst i t m DS_Local) c = Some (Op_Inst i t m DS_Local, c)"
| "op_freeze (Op_Inst i t m DS_Thread) c = Some (Op_Inst i t m DS_Thread, c)"
| "op_freeze (Op_Variable v t) c = Some (Op_Variable v t, c)"
| "op_freeze (Op_Index d) c = Some (Op_Index d, c)"
| "op_freeze (Op_Param p) c = Some (Op_Param p, c)"
| "op_freeze (Op_Addr m) c = Some (Op_Addr m, c)"
| "op_freeze (Op_Reduce i t m ds) c = Some (Op_Reduce i t m ds, c)"
| "op_freeze (Op_InductionVar v t) c = Some (Op_InductionVar v t, c)"

section \<open>Operators\<close>

definition rounding_check :: "rounding \<Rightarrow> ir_type \<Rightarrow> ir_error + unit" where
  "rounding_check r t = (if ty_is_float t \<noteq> (r = R_Exact) then Inr () else Inl (IE_Type (ITE_InvalidRounding r t)))"

datatype bin_op = B_Add | B_Sub | B_Div | B_And | B_Or | B_Lt | B_Leq | B_Equals | B_Max

definition bin_t :: "bin_op \<Rightarrow> ir_type \<Rightarrow> ir_type" where
  "bin_t op t = (if op \<in> {B_Lt, B_Leq, B_Equals} then T_I 1 else t)"

definition bin_requires_rounding :: "bin_op \<Rightarrow> bool" where
  "bin_requires_rounding op \<longleftrightarrow> op \<notin> {B_Lt, B_Leq, B_Equals, B_Max}"

datatype unary_op = U_Mov | U_Cast ir_type | U_Exp ir_type

fun unary_t :: "unary_op \<Rightarrow> ir_type \<Rightarrow> ir_type" where
  "unary_t (U_Cast t) _ = t"
| "unary_t _ t = t"

datatype 'l operator = OP_BinOp bin_op "'l operand" "'l operand" rounding | OP_UnaryOp unary_op "'l operand"
  | OP_Mul "'l operand" "'l operand" rounding ir_type | OP_Mad "'l operand" "'l operand" "'l operand" rounding
  | OP_Ld ir_type "'l operand" access_pattern | OP_St "'l operand" "'l operand" bool access_pattern
  | OP_TmpLd ir_type nat | OP_TmpSt "'l operand" nat

fun operator_t :: "'l operator \<Rightarrow> ir_type option" where
  "operator_t (OP_Mad _ _ op _) = Some (op_t op)"
| "operator_t (OP_Ld t _ _) = Some t"
| "operator_t (OP_TmpLd t _) = Some t"
| "operator_t (OP_Mul _ _ _ t) = Some t"
| "operator_t (OP_BinOp operator l _ _) = Some (bin_t operator (op_t l))"
| "operator_t (OP_UnaryOp operator operand) = Some (unary_t operator (op_t operand))"
| "operator_t (OP_St _ _ _ _) = None"
| "operator_t (OP_TmpSt _ _) = None"

fun operands :: "'l operator \<Rightarrow> 'l operand list" where
  "operands (OP_BinOp _ l r _) = [l, r]"
| "operands (OP_Mul l r _ _) = [l, r]"
| "operands (OP_St l r _ _) = [l, r]"
| "operands (OP_Mad a b c _) = [a, b, c]"
| "operands (OP_UnaryOp _ op) = [op]"
| "operands (OP_Ld _ op _) = [op]"
| "operands (OP_TmpSt op _) = [op]"
| "operands (OP_TmpLd _ _) = []"

text \<open>\<^verbatim>\<open>operands_mut\<close>: a function is applied to each reference, in order, together with its position.\<close>

fun operands_mut :: "(nat \<Rightarrow> 'l operand \<Rightarrow> 'l operand) \<Rightarrow> 'l operator \<Rightarrow> 'l operator" where
  "operands_mut f (OP_BinOp op l r d) = OP_BinOp op (f 0 l) (f 1 r) d"
| "operands_mut f (OP_Mul l r d t) = OP_Mul (f 0 l) (f 1 r) d t"
| "operands_mut f (OP_St l r b p) = OP_St (f 0 l) (f 1 r) b p"
| "operands_mut f (OP_Mad a b c d) = OP_Mad (f 0 a) (f 1 b) (f 2 c) d"
| "operands_mut f (OP_UnaryOp u op) = OP_UnaryOp u (f 0 op)"
| "operands_mut f (OP_Ld t op p) = OP_Ld t (f 0 op) p"
| "operands_mut f (OP_TmpSt op m) = OP_TmpSt (f 0 op) m"
| "operands_mut f (OP_TmpLd t m) = OP_TmpLd t m"

fun has_side_effects :: "'l operator \<Rightarrow> bool" where
  "has_side_effects (OP_St _ _ b _) = b"
| "has_side_effects _ = False"

fun is_mem_access :: "'l operator \<Rightarrow> bool" where
  "is_mem_access (OP_St _ _ _ _) = True"
| "is_mem_access (OP_Ld _ _ _) = True"
| "is_mem_access (OP_TmpSt _ _) = True"
| "is_mem_access (OP_TmpLd _ _) = True"
| "is_mem_access _ = False"

definition operator_merge_dims :: "nat \<Rightarrow> nat \<Rightarrow> 'l operator \<Rightarrow> 'l operator" where
  "operator_merge_dims a1 a2 op = operands_mut (\<lambda>_. op_merge_dims a1 a2) op"

fun mem_access_pattern :: "'l operator \<Rightarrow> access_pattern option" where
  "mem_access_pattern (OP_Ld _ _ p) = Some p"
| "mem_access_pattern (OP_St _ _ _ p) = Some p"
| "mem_access_pattern (OP_TmpLd _ mem) = Some (AP_Unknown (Some mem))"
| "mem_access_pattern (OP_TmpSt _ mem) = Some (AP_Unknown (Some mem))"
| "mem_access_pattern _ = None"

definition mem_used :: "'l operator \<Rightarrow> nat option" where
  "mem_used op = Option.bind (mem_access_pattern op) ap_mem_block"

text \<open>\<^verbatim>\<open>map_operands\<close> with a function that changes a state and may panic.\<close>

fun map_operands :: "('l operand \<Rightarrow> 's \<Rightarrow> ('m operand \<times> 's) option) \<Rightarrow> 'l operator \<Rightarrow> 's \<Rightarrow> ('m operator \<times> 's) option" where
  "map_operands f (OP_BinOp op o1 o2 r) s = do { (o1, s) \<leftarrow> f o1 s; (o2, s) \<leftarrow> f o2 s; Some (OP_BinOp op o1 o2 r, s) }"
| "map_operands f (OP_UnaryOp op o1) s = do { (o1, s) \<leftarrow> f o1 s; Some (OP_UnaryOp op o1, s) }"
| "map_operands f (OP_Mul o1 o2 r t) s = do { (o1, s) \<leftarrow> f o1 s; (o2, s) \<leftarrow> f o2 s; Some (OP_Mul o1 o2 r t, s) }"
| "map_operands f (OP_Mad o1 o2 o3 r) s = do { (o1, s) \<leftarrow> f o1 s; (o2, s) \<leftarrow> f o2 s; (o3, s) \<leftarrow> f o3 s; Some (OP_Mad o1 o2 o3 r, s) }"
| "map_operands f (OP_Ld t o1 p) s = do { (o1, s) \<leftarrow> f o1 s; Some (OP_Ld t o1 p, s) }"
| "map_operands f (OP_St o1 o2 b p) s = do { (o1, s) \<leftarrow> f o1 s; (o2, s) \<leftarrow> f o2 s; Some (OP_St o1 o2 b p, s) }"
| "map_operands f (OP_TmpLd t m) s = Some (OP_TmpLd t m, s)"
| "map_operands f (OP_TmpSt o1 m) s = do { (o1, s) \<leftarrow> f o1 s; Some (OP_TmpSt o1 m, s) }"

definition operator_freeze :: "unit operator \<Rightarrow> counter \<Rightarrow> (lowering_map operator \<times> counter) option" where
  "operator_freeze op c = map_operands op_freeze op c"

section \<open>Dimensions\<close>

record ir_dim =
  d_id :: nat
  d_size :: "parameter partial_size"
  d_possible_sizes :: "u32 vec_set"
  d_iterated :: "nat list"
  d_is_thread_dim :: bool
  d_logical_dim :: "nat option"
  d_mapped_dims :: "nat vec_set"
  d_defined_vars :: "nat vec_set"
  d_inner_vars :: "nat vec_set"
  d_is_parallelizable :: bool

definition dim_with :: "nat \<Rightarrow> parameter partial_size \<Rightarrow> u32 vec_set \<Rightarrow> nat option \<Rightarrow> ir_dim" where
  "dim_with did sz sizes logical_dim =
     \<lparr>d_id = did, d_size = sz, d_possible_sizes = sizes, d_iterated = [], d_is_thread_dim = False, d_logical_dim = logical_dim,
      d_mapped_dims = vs_default, d_defined_vars = vs_default, d_inner_vars = vs_default, d_is_parallelizable = True\<rparr>"

definition dim_new :: "nat \<Rightarrow> parameter partial_size \<Rightarrow> nat option \<Rightarrow> ir_error + ir_dim" where
  "dim_new did sz logical_dim =
     (case ps_as_int sz of
        Some s \<Rightarrow> if s = 1 then Inl IE_InvalidDimSize else Inr (dim_with did sz (vs_new [s]) logical_dim)
      | None \<Rightarrow> Inr (dim_with did sz vs_default logical_dim))"

definition dim_new_static :: "nat \<Rightarrow> u32 vec_set \<Rightarrow> nat option \<Rightarrow> ir_error + ir_dim" where
  "dim_new_static did sizes logical_dim =
     (if vs_contains sizes 1 then Inl IE_InvalidDimSize else Inr (dim_with did (ps_new_dim_size did) sizes logical_dim))"

definition dim_with_same_size :: "nat \<Rightarrow> ir_dim \<Rightarrow> ir_dim option" where
  "dim_with_same_size did other =
     (case (if vs_is_empty (d_possible_sizes other) then dim_new did (d_size other) None else dim_new_static did (d_possible_sizes other) None) of
        Inr d \<Rightarrow> Some d | Inl _ \<Rightarrow> None)"

definition dim_possible_sizes :: "ir_dim \<Rightarrow> u32 list option" where
  "dim_possible_sizes d = (if vs_is_empty (d_possible_sizes d) then None else Some (data (d_possible_sizes d)))"

definition dim_add_iterated :: "nat \<Rightarrow> ir_dim \<Rightarrow> ir_dim" where
  "dim_add_iterated inst d = d\<lparr>d_iterated := d_iterated d @ [inst]\<rparr>"

definition dim_set_thread_dim :: "ir_dim \<Rightarrow> ir_dim" where
  "dim_set_thread_dim d = d\<lparr>d_is_thread_dim := True\<rparr>"

definition dim_set_sequential :: "ir_dim \<Rightarrow> ir_dim" where
  "dim_set_sequential d = d\<lparr>d_is_parallelizable := False\<rparr>"

definition dim_register_inner_var :: "nat \<Rightarrow> ir_dim \<Rightarrow> ir_dim" where
  "dim_register_inner_var v d = d\<lparr>d_inner_vars := snd (vs_insert (d_inner_vars d) v)\<rparr>"

definition dim_register_defined_var :: "nat \<Rightarrow> ir_dim \<Rightarrow> ir_dim" where
  "dim_register_defined_var v d = d\<lparr>d_defined_vars := snd (vs_insert (d_defined_vars d) v)\<rparr>"

record logical_dim =
  lg_id :: nat
  lg_static_dims :: "nat list"
  lg_nonstatic_dim :: "nat option"
  lg_possible_tilings :: "u32 vec_set"
  lg_total_size :: "parameter ir_size"

definition lg_new_static :: "nat \<Rightarrow> nat list \<Rightarrow> u32 \<Rightarrow> logical_dim" where
  "lg_new_static lid static_dims total_size =
     \<lparr>lg_id = lid, lg_static_dims = static_dims, lg_nonstatic_dim = None, lg_possible_tilings = vs_new [total_size],
      lg_total_size = size_new_const total_size\<rparr>"

definition lg_new_dynamic :: "nat \<Rightarrow> nat \<Rightarrow> nat list \<Rightarrow> u32 vec_set \<Rightarrow> parameter ir_size \<Rightarrow> logical_dim" where
  "lg_new_dynamic lid dynamic_dim static_dims possible_tilings total_size =
     \<lparr>lg_id = lid, lg_static_dims = static_dims, lg_nonstatic_dim = Some dynamic_dim, lg_possible_tilings = possible_tilings,
      lg_total_size = total_size\<rparr>"

definition lg_dimensions :: "logical_dim \<Rightarrow> nat list" where
  "lg_dimensions l = rev (lg_static_dims l) @ (case lg_nonstatic_dim l of Some d \<Rightarrow> [d] | None \<Rightarrow> [])"

record dim_mapping =
  mp_id :: nat
  mp_dims :: "nat \<times> nat"
  mp_variables :: "nat vec_set"

definition mapping_new :: "nat \<Rightarrow> nat \<times> nat \<Rightarrow> dim_mapping" where
  "mapping_new mid dims = \<lparr>mp_id = mid, mp_dims = dims, mp_variables = vs_default\<rparr>"

definition mapping_register_user :: "nat \<Rightarrow> dim_mapping \<Rightarrow> dim_mapping" where
  "mapping_register_user user m = m\<lparr>mp_variables := snd (vs_insert (mp_variables m) user)\<rparr>"

text \<open>\<^verbatim>\<open>register_dim_mapping\<close> checks that the mapping is on the dimension.\<close>

definition dim_register_mapping :: "dim_mapping \<Rightarrow> ir_dim \<Rightarrow> ir_dim option" where
  "dim_register_mapping m d =
     (let d' = d\<lparr>d_mapped_dims := snd (vs_insert (d_mapped_dims d) (mp_id m))\<rparr> in
      if d_id d' = fst (mp_dims m) \<or> d_id d' = snd (mp_dims m) then Some d' else None)"

section \<open>Memory blocks\<close>

record mem_block =
  bk_id :: nat
  bk_uses :: "nat list"
  bk_base_size :: u32
  bk_mapped_dims :: dim_pairs
  bk_maybe_mapped :: dim_pairs

definition bk_is_ready :: "mem_block \<Rightarrow> bool" where
  "bk_is_ready b \<longleftrightarrow> bk_maybe_mapped b = []"

definition bk_maps_dims :: "mem_block \<Rightarrow> nat \<Rightarrow> nat \<Rightarrow> bool" where
  "bk_maps_dims b a1 a2 \<longleftrightarrow> (a1, a2) \<in> set (bk_mapped_dims b) \<or> (a1, a2) \<in> set (bk_maybe_mapped b)"

definition bk_add_use :: "nat \<Rightarrow> mem_block \<Rightarrow> mem_block" where
  "bk_add_use inst b = b\<lparr>bk_uses := bk_uses b @ [inst]\<rparr>"

record block_map =
  bm_blocks :: "mem_block sparse_vec"
  bm_layouts :: "nat fset"

definition bm_default :: block_map where
  "bm_default = \<lparr>bm_blocks = sv_new, bm_layouts = {||}\<rparr>"

definition create_block :: "nat \<Rightarrow> u32 \<Rightarrow> dim_pairs option \<Rightarrow> block_map \<Rightarrow> (mem_block \<times> block_map) option" where
  "create_block bid base_size maybe_mapped bm =
     (let b = \<lparr>bk_id = bid, bk_uses = [], bk_base_size = base_size, bk_mapped_dims = [],
        bk_maybe_mapped = (case maybe_mapped of Some m \<Rightarrow> m | None \<Rightarrow> [])\<rparr> in
      case maybe_mapped of
        Some m \<Rightarrow> if m \<noteq> [] then Some (b, bm\<lparr>bm_layouts := finsert bid (bm_layouts bm)\<rparr>) else None
      | None \<Rightarrow> Some (b, bm))"

definition alloc_block :: "u32 \<Rightarrow> dim_pairs option \<Rightarrow> block_map \<Rightarrow> (nat \<times> block_map) option" where
  "alloc_block base_size maybe_mapped bm = do {
     let bid = as_u32 (sv_len (bm_blocks bm));
     (b, bm) \<leftarrow> create_block bid base_size maybe_mapped bm;
     blocks \<leftarrow> sv_push b (bm_blocks bm);
     Some (bid, bm\<lparr>bm_blocks := blocks\<rparr>) }"

definition expand_blocks_to :: "nat \<Rightarrow> block_map \<Rightarrow> block_map option" where
  "expand_blocks_to c bm = map_option (\<lambda>blocks. bm\<lparr>bm_blocks := blocks\<rparr>) (sv_expand_to c (bm_blocks bm))"

definition set_lazy_tmp :: "nat \<Rightarrow> ir_type \<Rightarrow> dim_pairs \<Rightarrow> block_map \<Rightarrow> block_map option" where
  "set_lazy_tmp bid t dims bm = do {
     len \<leftarrow> ty_len_byte t;
     (b, bm) \<leftarrow> create_block bid len (Some dims) bm;
     blocks \<leftarrow> sv_set_lazy bid b (bm_blocks bm);
     Some (bm\<lparr>bm_blocks := blocks\<rparr>) }"

definition register_use :: "nat \<Rightarrow> nat \<Rightarrow> block_map \<Rightarrow> block_map option" where
  "register_use mem inst bm = map_option (\<lambda>blocks. bm\<lparr>bm_blocks := blocks\<rparr>) (sv_update mem (bk_add_use inst) (bm_blocks bm))"

definition bk_merge_dims :: "nat \<Rightarrow> nat \<Rightarrow> mem_block \<Rightarrow> mem_block" where
  "bk_merge_dims a1 a2 b = b\<lparr>bk_maybe_mapped := snd (dp_merge_dims a1 a2 (bk_maybe_mapped b))\<rparr>"

text \<open>\<^verbatim>\<open>BlockMap::merge_dims\<close> returns the blocks from which a pair was removed and that become ready.\<close>

definition bm_merge_dims :: "nat \<Rightarrow> nat \<Rightarrow> block_map \<Rightarrow> nat list \<times> block_map" where
  "bm_merge_dims a1 a2 bm =
     (map bk_id (filter (\<lambda>b. fst (dp_merge_dims a1 a2 (bk_maybe_mapped b)) \<and> bk_is_ready (bk_merge_dims a1 a2 b)) (sv_iter (bm_blocks bm))),
      bm\<lparr>bm_blocks := sv_map (bk_merge_dims a1 a2) (bm_blocks bm)\<rparr>)"

definition bk_not_merged :: "nat \<Rightarrow> nat \<Rightarrow> mem_block \<Rightarrow> mem_block" where
  "bk_not_merged a1 a2 b =
     b\<lparr>bk_mapped_dims := bk_mapped_dims b @ filter (same_pair a1 a2) (bk_maybe_mapped b),
       bk_maybe_mapped := filter (Not \<circ> same_pair a1 a2) (bk_maybe_mapped b)\<rparr>"

definition not_merged_step :: "nat \<Rightarrow> nat \<Rightarrow> nat \<Rightarrow> nat list \<times> mem_block sparse_vec \<Rightarrow> (nat list \<times> mem_block sparse_vec) option" where
  "not_merged_step a1 a2 bid = (\<lambda>(to_lower, blocks). do {
     b \<leftarrow> sv_index blocks bid;
     let changed = filter (same_pair a1 a2) (bk_maybe_mapped b) \<noteq> [];
     blocks \<leftarrow> sv_update bid (bk_not_merged a1 a2) blocks;
     Some (if changed \<and> bk_is_ready (bk_not_merged a1 a2 b) then to_lower @ [bid] else to_lower, blocks) })"

definition bm_not_merged :: "(nat list \<Rightarrow> nat list) \<Rightarrow> nat \<Rightarrow> nat \<Rightarrow> block_map \<Rightarrow> (nat list \<times> block_map) option" where
  "bm_not_merged iter a1 a2 bm = do {
     (to_lower, blocks) \<leftarrow> fold_option (not_merged_step a1 a2) (iter (sorted_list_of_fset (bm_layouts bm))) ([], bm_blocks bm);
     Some (to_lower, bm\<lparr>bm_blocks := blocks\<rparr>) }"

definition bm_lower_layout :: "nat \<Rightarrow> block_map \<Rightarrow> (dim_pairs \<times> block_map) option" where
  "bm_lower_layout bid bm =
     (if bid |\<in>| bm_layouts bm then do {
        b \<leftarrow> sv_index (bm_blocks bm) bid;
        if bk_is_ready b then Some (bk_mapped_dims b, bm\<lparr>bm_layouts := bm_layouts bm |-| {|bid|}\<rparr>) else None }
      else None)"

section \<open>Variables and induction variables\<close>

datatype ir_var_def = VD_Inst nat | VD_DimMap nat "nat vec_set" | VD_Last nat "nat vec_set"

datatype memory_level = RegisterNoSync | Register | FastMemory | SlowMemory

record ir_variable =
  va_id :: nat
  va_t :: ir_type
  va_def :: ir_var_def
  va_memory_level :: memory_level
  va_dimensions :: "nat vec_set"
  va_def_points :: "stmt_id vec_set"
  va_use_points :: "stmt_id vec_set"

definition va_add_use :: "stmt_id \<Rightarrow> ir_variable \<Rightarrow> ir_variable" where
  "va_add_use stmt v = v\<lparr>va_use_points := snd (vs_insert (va_use_points v) stmt)\<rparr>"

fun vd_mapped_dims :: "ir_var_def \<Rightarrow> nat list" where
  "vd_mapped_dims (VD_DimMap _ ms) = data ms"
| "vd_mapped_dims _ = []"

record 'l induction_var =
  iv_dims :: "(nat \<times> parameter partial_size) list"
  iv_base :: "'l operand"

text \<open>The first dimension that appears a second time.\<close>

fun find_duplicate :: "nat list \<Rightarrow> nat set \<Rightarrow> nat option" where
  "find_duplicate [] seen = None"
| "find_duplicate (d # ds) seen = (if d \<in> seen then Some d else find_duplicate ds (insert d seen))"

definition iv_new :: "(nat \<times> parameter partial_size) list \<Rightarrow> 'l operand \<Rightarrow> (ir_error + 'l induction_var) option" where
  "iv_new dims base =
     (case check_integer (op_t base) of
        Inl e \<Rightarrow> Some (Inl e)
      | Inr _ \<Rightarrow>
          (case find_duplicate (map fst dims) {} of
             Some d \<Rightarrow> Some (Inl (IE_DuplicateIncrement d))
           | None \<Rightarrow>
               (case base of
                  Op_Reduce _ _ _ _ \<Rightarrow> None
                | Op_Inst _ _ _ (DS_Global _) \<Rightarrow> None
                | _ \<Rightarrow> Some (Inr \<lparr>iv_dims = dims, iv_base = base\<rparr>))))"

definition iv_merge_dims :: "nat \<Rightarrow> nat \<Rightarrow> 'l induction_var \<Rightarrow> 'l induction_var" where
  "iv_merge_dims a1 a2 v = v\<lparr>iv_base := op_merge_dims a1 a2 (iv_base v)\<rparr>"

definition iv_freeze :: "unit induction_var \<Rightarrow> counter \<Rightarrow> (lowering_map induction_var \<times> counter) option" where
  "iv_freeze v c = map_option (\<lambda>(base, c). (\<lparr>iv_dims = iv_dims v, iv_base = base\<rparr>, c)) (op_freeze (iv_base v) c)"

end
