(* ===== verification/Kernel_Function.thy ===== *)
theory Kernel_Function
  imports Kernel_IR IR_Desc
begin

text \<open>
  Instructions and the kernel that holds all the objects (\<^verbatim>\<open>src/ir/instruction.rs\<close>, \<^verbatim>\<open>variable.rs\<close>, \<^verbatim>\<open>function.rs\<close>): building a kernel, freezing it, and
  lowering point-to-point communications to temporary memory. The record \<open>ir_function\<close> has the fields of \<^verbatim>\<open>Body\<close> and then those of \<^verbatim>\<open>Function\<close>.
\<close>

section \<open>Results that may panic\<close>

definition try_ok :: "('e + 'a) option \<Rightarrow> ('a \<Rightarrow> ('e + 'b) option) \<Rightarrow> ('e + 'b) option" where
  "try_ok r f = Option.bind r (\<lambda>r. case r of Inl e \<Rightarrow> Some (Inl e) | Inr x \<Rightarrow> f x)"

fun for_try :: "('a \<Rightarrow> ('e + unit) option) \<Rightarrow> 'a list \<Rightarrow> ('e + unit) option" where
  "for_try f [] = Some (Inr ())"
| "for_try f (x # xs) = try_ok (f x) (\<lambda>_. for_try f xs)"

text \<open>A \<^verbatim>\<open>map\<close> whose closure changes a state.\<close>

fun map_accum :: "('a \<Rightarrow> 's \<Rightarrow> ('b \<times> 's) option) \<Rightarrow> 'a list \<Rightarrow> 's \<Rightarrow> ('b list \<times> 's) option" where
  "map_accum f [] s = Some ([], s)"
| "map_accum f (x # xs) s = do { (y, s) \<leftarrow> f x s; (ys, s) \<leftarrow> map_accum f xs s; Some (y # ys, s) }"

section \<open>Instructions and functions\<close>

record 'l instruction =
  i_operator :: "'l operator"
  i_id :: nat
  i_iter_dims :: "nat fset"
  i_variable :: "nat option"
  i_defined_vars :: "nat vec_set"
  i_used_vars :: "nat vec_set"

record 'l ir_body =
  b_insts :: "'l instruction sparse_vec"
  b_dims :: "ir_dim sparse_vec"
  b_static_dims :: "nat list"
  b_thread_dims :: "nat vec_set"
  b_mem_insts :: "nat list"
  b_mem_blocks :: block_map
  b_layouts_to_lower :: "nat list"
  b_induction_vars :: "'l induction_var list"
  b_logical_dims :: "logical_dim list"
  b_dim_mappings :: "dim_mapping sparse_vec"
  b_variables :: "ir_variable sparse_vec"

record 'l ir_function = "'l ir_body" +
  fn_signature :: signature
  fn_device :: ir_device

definition fn_new :: "signature \<Rightarrow> ir_device \<Rightarrow> 'l ir_function" where
  "fn_new signature device =
     \<lparr>b_insts = sv_new, b_dims = sv_new, b_static_dims = [], b_thread_dims = vs_default, b_mem_insts = [], b_mem_blocks = bm_default,
      b_layouts_to_lower = [], b_induction_vars = [], b_logical_dims = [], b_dim_mappings = sv_new, b_variables = sv_new,
      fn_signature = signature, fn_device = device\<rparr>"

abbreviation fn_inst :: "'l ir_function \<Rightarrow> nat \<Rightarrow> 'l instruction option" where
  "fn_inst f \<equiv> sv_index (b_insts f)"

abbreviation fn_dim :: "'l ir_function \<Rightarrow> nat \<Rightarrow> ir_dim option" where
  "fn_dim f \<equiv> sv_index (b_dims f)"

abbreviation fn_mapping :: "'l ir_function \<Rightarrow> nat \<Rightarrow> dim_mapping option" where
  "fn_mapping f \<equiv> sv_index (b_dim_mappings f)"

abbreviation fn_variable :: "'l ir_function \<Rightarrow> nat \<Rightarrow> ir_variable option" where
  "fn_variable f \<equiv> sv_index (b_variables f)"

abbreviation fn_block :: "'l ir_function \<Rightarrow> nat \<Rightarrow> mem_block option" where
  "fn_block f \<equiv> sv_index (bm_blocks (b_mem_blocks f))"

section \<open>Mappings between dimensions\<close>

fun find_mapping_in :: "'l ir_function \<Rightarrow> nat \<Rightarrow> nat list \<Rightarrow> nat option option" where
  "find_mapping_in f d [] = Some None"
| "find_mapping_in f d (m # ms) = do {
     mapping \<leftarrow> fn_mapping f m;
     if fst (mp_dims mapping) = d \<or> snd (mp_dims mapping) = d then Some (Some m) else find_mapping_in f d ms }"

definition find_mapping :: "'l ir_function \<Rightarrow> nat \<Rightarrow> nat \<Rightarrow> nat option option" where
  "find_mapping f d1 d2 = do { dim \<leftarrow> fn_dim f d1; find_mapping_in f d2 (data (d_mapped_dims dim)) }"

definition register_mapping :: "dim_mapping \<Rightarrow> nat \<Rightarrow> 'l ir_function \<Rightarrow> 'l ir_function option" where
  "register_mapping m d f = do {
     dim \<leftarrow> fn_dim f d;
     dim \<leftarrow> dim_register_mapping m dim;
     dims \<leftarrow> sv_update d (\<lambda>_. dim) (b_dims f);
     Some (f\<lparr>b_dims := dims\<rparr>) }"

definition create_mapping :: "nat \<Rightarrow> nat \<times> nat \<Rightarrow> 'l ir_function \<Rightarrow> (dim_mapping \<times> 'l ir_function) option" where
  "create_mapping mid dims f = do {
     let mapping = mapping_new mid dims;
     f \<leftarrow> register_mapping mapping (fst dims) f;
     f \<leftarrow> register_mapping mapping (snd dims) f;
     Some (mapping, f) }"

definition map_dimensions :: "nat \<times> nat \<Rightarrow> 'l ir_function \<Rightarrow> (nat \<times> 'l ir_function) option" where
  "map_dimensions dims f = do {
     found \<leftarrow> find_mapping f (fst dims) (snd dims);
     (case found of
        Some mid \<Rightarrow> Some (mid, f)
      | None \<Rightarrow> do {
          let mid = as_u16 (sv_len (b_dim_mappings f));
          (mapping, f) \<leftarrow> create_mapping mid dims f;
          mappings \<leftarrow> sv_push mapping (b_dim_mappings f);
          Some (mid, f\<lparr>b_dim_mappings := mappings\<rparr>) }) }"

section \<open>Instructions\<close>

definition check_product_type :: "ir_type \<Rightarrow> ir_type \<Rightarrow> ir_error + unit" where
  "check_product_type x t =
     (if x = t \<or> x = T_I 32 \<and> (t = T_I 64 \<or> (\<exists>mem. t = T_PtrTo mem)) then Inr () else Inl (IE_Type (ITE_UnexpectedType t)))"

lemma check_product_type_code [code]:
  "check_product_type x t =
     (if x = t \<or> x = T_I 32 \<and> (t = T_I 64 \<or> (case t of T_PtrTo _ \<Rightarrow> True | _ \<Rightarrow> False)) then Inr () else Inl (IE_Type (ITE_UnexpectedType t)))"
  by (cases t) (auto simp: check_product_type_def)

fun check_operand_types :: "(nat list \<Rightarrow> nat list) \<Rightarrow> ir_device \<Rightarrow> nat fset \<Rightarrow> 'l operator \<Rightarrow> ir_error + unit" where
  "check_operand_types iter device iter_dims (OP_BinOp op l r rnd) =
     if_ok (if bin_requires_rounding op then rounding_check rnd (op_t l)
            else if rnd \<noteq> R_Exact then Inl (IE_Type (ITE_InvalidRounding rnd (op_t l))) else Inr ())
       (\<lambda>_. check_equals (op_t l) (op_t r))"
| "check_operand_types iter device iter_dims (OP_Mul l r rnd t) =
     if_ok (rounding_check rnd (op_t l)) (\<lambda>_. if_ok (check_equals (op_t l) (op_t r)) (\<lambda>_. check_product_type (op_t l) t))"
| "check_operand_types iter device iter_dims (OP_Mad l r a rnd) =
     if_ok (rounding_check rnd (op_t l)) (\<lambda>_. if_ok (check_equals (op_t l) (op_t r)) (\<lambda>_. check_product_type (op_t l) (op_t a)))"
| "check_operand_types iter device iter_dims (OP_Ld _ addr p) =
     if_ok (ap_check iter p iter_dims) (\<lambda>_. check_equals (op_t addr) (ap_pointer_type device p))"
| "check_operand_types iter device iter_dims (OP_St addr _ _ p) =
     if_ok (ap_check iter p iter_dims) (\<lambda>_. check_equals (op_t addr) (ap_pointer_type device p))"
| "check_operand_types iter device iter_dims _ = Inr ()"

text \<open>Ensures that the pairs of dimensions of an operand are mapped.\<close>

definition check_pair :: "'l ir_function \<Rightarrow> nat \<times> nat \<Rightarrow> (ir_error + unit) option" where
  "check_pair f = (\<lambda>(a, b). do {
     found \<leftarrow> find_mapping f a b;
     Some (if found = None then Inl (IE_MissingDimMapping a b) else Inr ()) })"

definition check_operand :: "'l ir_function \<Rightarrow> 'l operand \<Rightarrow> (ir_error + unit) option" where
  "check_operand f op =
     try_ok (Some (dv_check_type (fn_device f) (op_t op)))
       (\<lambda>_. for_try (check_pair f) (case op_mapped_dims op of Some m \<Rightarrow> m | None \<Rightarrow> []))"

definition operator_check :: "(nat list \<Rightarrow> nat list) \<Rightarrow> 'l ir_function \<Rightarrow> nat fset \<Rightarrow> 'l operator \<Rightarrow> (ir_error + unit) option" where
  "operator_check iter f iter_dims op =
     try_ok (Some (case operator_t op of Some t \<Rightarrow> dv_check_type (fn_device f) t | None \<Rightarrow> Inr ())) (\<lambda>_.
     try_ok (for_try (check_operand f) (operands op)) (\<lambda>_.
     Some (check_operand_types iter (fn_device f) iter_dims op)))"

fun op_variable :: "'l operand \<Rightarrow> nat list" where
  "op_variable (Op_Variable v _) = [v]"
| "op_variable _ = []"

definition check_variable_dims :: "'l ir_function \<Rightarrow> nat fset \<Rightarrow> nat \<Rightarrow> (ir_error + unit) option" where
  "check_variable_dims f iter_dims v = do {
     var \<leftarrow> fn_variable f v;
     Some (for_ok (\<lambda>dim. if dim |\<in>| iter_dims then Inr () else Inl (IE_MissingIterationDim dim)) (data (va_dimensions var))) }"

definition instruction_new ::
  "(nat list \<Rightarrow> nat list) \<Rightarrow> 'l operator \<Rightarrow> nat \<Rightarrow> nat fset \<Rightarrow> 'l ir_function \<Rightarrow> (ir_error + 'l instruction) option" where
  "instruction_new iter operator iid iter_dims f =
     try_ok (operator_check iter f iter_dims operator) (\<lambda>_.
     try_ok (for_try (check_variable_dims f iter_dims) (concat (map op_variable (operands operator)))) (\<lambda>_.
     Some (Inr \<lparr>i_operator = operator, i_id = iid, i_iter_dims = iter_dims, i_variable = None, i_defined_vars = vs_default,
       i_used_vars = vs_new (concat (map op_variable (operands operator)))\<rparr>)))"

definition iter_reduced_dims :: "'l instruction \<Rightarrow> nat list" where
  "iter_reduced_dims i = concat (map (\<lambda>op. case op of Op_Reduce _ _ _ ds \<Rightarrow> ds | _ \<Rightarrow> []) (operands (i_operator i)))"

definition inst_lower_layout ::
  "'l operand \<Rightarrow> access_pattern \<Rightarrow> 'l operand \<Rightarrow> access_pattern \<Rightarrow> 'l instruction \<Rightarrow> 'l instruction option" where
  "inst_lower_layout ld_idx ld_pattern st_idx st_pattern i =
     (case i_operator i of
        OP_TmpLd t mem \<Rightarrow> if ap_mem_block ld_pattern = Some mem then Some (i\<lparr>i_operator := OP_Ld t ld_idx ld_pattern\<rparr>) else None
      | OP_TmpSt v mem \<Rightarrow> if ap_mem_block st_pattern = Some mem then Some (i\<lparr>i_operator := OP_St st_idx v False st_pattern\<rparr>) else None
      | _ \<Rightarrow> None)"

definition dim_maps_to_lower :: "nat \<Rightarrow> nat \<Rightarrow> 'l instruction \<Rightarrow> nat list" where
  "dim_maps_to_lower d1 d2 i =
     map fst (filter (\<lambda>(_, op). should_lower_map d1 d2 op) (enumerate 0 (operands (i_operator i))))"

text \<open>\<^verbatim>\<open>as_reduction\<close>: \<^verbatim>\<open>at_most_one\<close> panics on a second reduction.\<close>

definition inst_as_reduction :: "'l instruction \<Rightarrow> (nat \<times> dim_pairs \<times> nat list) option option" where
  "inst_as_reduction i =
     (case List.map_filter op_as_reduction (operands (i_operator i)) of [] \<Rightarrow> Some None | [r] \<Rightarrow> Some (Some r) | _ \<Rightarrow> None)"

definition is_reduction_common_dim :: "nat \<Rightarrow> nat \<Rightarrow> 'l instruction \<Rightarrow> bool option" where
  "is_reduction_common_dim init dim i =
     map_option (\<lambda>r. case r of Some (j, m, rd) \<Rightarrow> j = init \<and> dim \<notin> set rd \<and> (\<forall>(_, b) \<in> set m. dim \<noteq> b) | None \<Rightarrow> False) (inst_as_reduction i)"

definition inst_merge_dims :: "nat \<Rightarrow> nat \<Rightarrow> 'l instruction \<Rightarrow> 'l instruction" where
  "inst_merge_dims d1 d2 i = i\<lparr>i_operator := operator_merge_dims d1 d2 (i_operator i)\<rparr>"

definition add_iteration_dimension :: "nat \<Rightarrow> 'l instruction \<Rightarrow> 'l instruction" where
  "add_iteration_dimension dim i = i\<lparr>i_iter_dims := finsert dim (i_iter_dims i)\<rparr>"

definition inst_register_defined_var :: "nat \<Rightarrow> 'l instruction \<Rightarrow> 'l instruction" where
  "inst_register_defined_var v i = i\<lparr>i_defined_vars := snd (vs_insert (i_defined_vars i) v)\<rparr>"

definition set_result_variable :: "nat \<Rightarrow> 'l instruction \<Rightarrow> 'l instruction option" where
  "set_result_variable v i = (if i_variable i = None then Some (i\<lparr>i_variable := Some v\<rparr>) else None)"

definition inst_freeze :: "unit instruction \<Rightarrow> counter \<Rightarrow> (lowering_map instruction \<times> counter) option" where
  "inst_freeze i c = do {
     (op, c) \<leftarrow> operator_freeze (i_operator i) c;
     Some (\<lparr>i_operator = op, i_id = i_id i, i_iter_dims = i_iter_dims i, i_variable = i_variable i, i_defined_vars = i_defined_vars i,
       i_used_vars = i_used_vars i\<rparr>, c) }"

text \<open>\<^verbatim>\<open>lower_dim_map\<close> replaces an operand by the value that is loaded.\<close>

fun lowered_operand :: "nat \<Rightarrow> dim_pairs \<Rightarrow> 'l operand \<Rightarrow> 'l operand option" where
  "lowered_operand new_src new_dim_map (Op_Inst _ t _ _) = Some (Op_Inst new_src t new_dim_map DS_Local)"
| "lowered_operand new_src new_dim_map _ = None"

definition inst_lower_dim_map :: "nat \<Rightarrow> nat \<Rightarrow> dim_pairs \<Rightarrow> 'l instruction \<Rightarrow> 'l instruction option" where
  "inst_lower_dim_map pos new_src new_dim_map i =
     (if pos < length (operands (i_operator i)) then do {
        op \<leftarrow> lowered_operand new_src new_dim_map (operands (i_operator i) ! pos);
        Some (i\<lparr>i_operator := operands_mut (\<lambda>k x. if k = pos then op else x) (i_operator i)\<rparr>) }
      else None)"

section \<open>Creating instructions\<close>

definition fn_update_dim :: "nat \<Rightarrow> (ir_dim \<Rightarrow> ir_dim) \<Rightarrow> 'l ir_function \<Rightarrow> 'l ir_function option" where
  "fn_update_dim d u f = map_option (\<lambda>dims. f\<lparr>b_dims := dims\<rparr>) (sv_update d u (b_dims f))"

definition fn_update_inst :: "nat \<Rightarrow> ('l instruction \<Rightarrow> 'l instruction) \<Rightarrow> 'l ir_function \<Rightarrow> 'l ir_function option" where
  "fn_update_inst i u f = map_option (\<lambda>insts. f\<lparr>b_insts := insts\<rparr>) (sv_update i u (b_insts f))"

definition fn_update_variable :: "nat \<Rightarrow> (ir_variable \<Rightarrow> ir_variable) \<Rightarrow> 'l ir_function \<Rightarrow> 'l ir_function option" where
  "fn_update_variable v u f = map_option (\<lambda>vars. f\<lparr>b_variables := vars\<rparr>) (sv_update v u (b_variables f))"

definition fn_update_mapping :: "nat \<Rightarrow> (dim_mapping \<Rightarrow> dim_mapping) \<Rightarrow> 'l ir_function \<Rightarrow> 'l ir_function option" where
  "fn_update_mapping m u f = map_option (\<lambda>ms. f\<lparr>b_dim_mappings := ms\<rparr>) (sv_update m u (b_dim_mappings f))"

definition fn_register_use :: "nat option \<Rightarrow> nat \<Rightarrow> 'l ir_function \<Rightarrow> 'l ir_function option" where
  "fn_register_use mem iid f =
     (case mem of Some m \<Rightarrow> map_option (\<lambda>bm. f\<lparr>b_mem_blocks := bm\<rparr>) (register_use m iid (b_mem_blocks f)) | None \<Rightarrow> Some f)"

text \<open>The registration of a checked instruction in the objects that it refers to.\<close>

definition register_inst :: "(nat list \<Rightarrow> nat list) \<Rightarrow> nat \<Rightarrow> 'l instruction \<Rightarrow> 'l ir_function \<Rightarrow> 'l ir_function option" where
  "register_inst iter iid inst f = do {
     f \<leftarrow> fold_option (\<lambda>d. fn_update_dim d (dim_add_iterated iid)) (iter (sorted_list_of_fset (i_iter_dims inst))) f;
     let f = (if is_mem_access (i_operator inst) then f\<lparr>b_mem_insts := b_mem_insts f @ [iid]\<rparr> else f);
     f \<leftarrow> fn_register_use (mem_used (i_operator inst)) iid f;
     fold_option (\<lambda>v. fn_update_variable v (va_add_use (S_Inst iid))) (data (i_used_vars inst)) f }"

definition create_inst ::
  "(nat list \<Rightarrow> nat list) \<Rightarrow> nat \<Rightarrow> 'l operator \<Rightarrow> nat fset \<Rightarrow> 'l ir_function \<Rightarrow> (ir_error + 'l instruction \<times> 'l ir_function) option" where
  "create_inst iter iid op iter_dims f =
     try_ok (instruction_new iter op iid iter_dims f)
       (\<lambda>inst. map_option (\<lambda>f. Inr (inst, f)) (register_inst iter iid inst f))"

text \<open>\<^verbatim>\<open>add_inst\<close> keeps the mappings that it created when the instruction is refused.\<close>

definition map_operand_dims :: "'l operator \<Rightarrow> 'l ir_function \<Rightarrow> 'l ir_function option" where
  "map_operand_dims op f =
     fold_option (\<lambda>pair f. map_option snd (map_dimensions pair f))
       (concat (map (\<lambda>operand. case op_mapped_dims operand of Some m \<Rightarrow> m | None \<Rightarrow> []) (operands op))) f"

definition add_inst ::
  "(nat list \<Rightarrow> nat list) \<Rightarrow> unit operator \<Rightarrow> nat fset \<Rightarrow> unit ir_function \<Rightarrow> ((ir_error + nat) \<times> unit ir_function) option" where
  "add_inst iter op iter_dims f = do {
     f \<leftarrow> map_operand_dims op f;
     let iid = as_u32 (sv_len (b_insts f));
     r \<leftarrow> create_inst iter iid op iter_dims f;
     (case r of
        Inl e \<Rightarrow> Some (Inl e, f)
      | Inr (inst, f) \<Rightarrow> do {
          insts \<leftarrow> sv_push inst (b_insts f);
          Some (Inr iid, f\<lparr>b_insts := insts\<rparr>) }) }"

section \<open>Variables\<close>

fun vd_t :: "'l ir_function \<Rightarrow> ir_var_def \<Rightarrow> ir_type option" where
  "vd_t f (VD_Inst i) = do { inst \<leftarrow> fn_inst f i; operator_t (i_operator inst) }"
| "vd_t f (VD_DimMap v _) = map_option va_t (fn_variable f v)"
| "vd_t f (VD_Last v _) = map_option va_t (fn_variable f v)"

fun vd_check :: "'l ir_function \<Rightarrow> ir_var_def \<Rightarrow> (ir_error + unit) option" where
  "vd_check f (VD_Inst i) = do {
     inst \<leftarrow> fn_inst f i;
     Some (if operator_t (i_operator inst) = None then Inl (IE_Type (ITE_ExpectedReturnType i)) else Inr ()) }"
| "vd_check f _ = Some (Inr ())"

fun vd_def_points :: "'l ir_function \<Rightarrow> ir_var_def \<Rightarrow> stmt_id vec_set option" where
  "vd_def_points f (VD_Inst i) = Some (vs_new [S_Inst i])"
| "vd_def_points f (VD_DimMap v _) = map_option va_def_points (fn_variable f v)"
| "vd_def_points f (VD_Last _ ds) = Some (vs_new (map S_Dim (data ds)))"

fun vd_dimensions :: "(nat list \<Rightarrow> nat list) \<Rightarrow> 'l ir_function \<Rightarrow> ir_var_def \<Rightarrow> nat vec_set option" where
  "vd_dimensions iter f (VD_Inst i) = do {
     inst \<leftarrow> fn_inst f i;
     Some (vs_new (iter (sorted_list_of_fset (i_iter_dims inst)))) }"
| "vd_dimensions iter f (VD_Last v ds) = do {
     var \<leftarrow> fn_variable f v;
     rest \<leftarrow> iter_collect difference_next (Suc (vs_len (va_dimensions var))) (vs_difference (va_dimensions var) ds);
     Some (vs_new rest) }"
| "vd_dimensions iter f (VD_DimMap v ms) = do {
     pairs \<leftarrow> those (map (\<lambda>m. map_option mp_dims (fn_mapping f m)) (data ms));
     var \<leftarrow> fn_variable f v;
     dims \<leftarrow> those (map (hash_collect pairs) (data (va_dimensions var)));
     Some (vs_new dims) }"

definition create_variable :: "(nat list \<Rightarrow> nat list) \<Rightarrow> nat \<Rightarrow> ir_var_def \<Rightarrow> 'l ir_function \<Rightarrow> (ir_error + ir_variable) option" where
  "create_variable iter vid def f =
     try_ok (vd_check f def) (\<lambda>_. do {
       t \<leftarrow> vd_t f def;
       def_points \<leftarrow> vd_def_points f def;
       dims \<leftarrow> vd_dimensions iter f def;
       Some (Inr \<lparr>va_id = vid, va_t = t, va_def = def, va_memory_level = Register, va_dimensions = dims, va_def_points = def_points,
         va_use_points = vs_default\<rparr>) })"

fun register_def_point :: "nat \<Rightarrow> stmt_id \<Rightarrow> 'l ir_function \<Rightarrow> 'l ir_function option" where
  "register_def_point v (S_Inst i) f = fn_update_inst i (inst_register_defined_var v) f"
| "register_def_point v (S_Dim d) f = fn_update_dim d (dim_register_defined_var v) f"

fun register_result :: "ir_variable \<Rightarrow> 'l ir_function \<Rightarrow> 'l ir_function option" where
  "register_result var f =
     (case va_def var of
        VD_Inst i \<Rightarrow> do {
          inst \<leftarrow> fn_inst f i;
          inst \<leftarrow> set_result_variable (va_id var) inst;
          fn_update_inst i (\<lambda>_. inst) f }
      | _ \<Rightarrow> Some f)"

definition va_register :: "ir_variable \<Rightarrow> 'l ir_function \<Rightarrow> 'l ir_function option" where
  "va_register var f = do {
     f \<leftarrow> register_result var f;
     f \<leftarrow> fold_option (register_def_point (va_id var)) (data (va_def_points var)) f;
     f \<leftarrow> fold_option (\<lambda>d. fn_update_dim d (dim_register_inner_var (va_id var))) (data (va_dimensions var)) f;
     fold_option (\<lambda>m. fn_update_mapping m (mapping_register_user (va_id var))) (vd_mapped_dims (va_def var)) f }"

definition add_variable :: "(nat list \<Rightarrow> nat list) \<Rightarrow> ir_var_def \<Rightarrow> 'l ir_function \<Rightarrow> (ir_error + nat \<times> 'l ir_function) option" where
  "add_variable iter def f = do {
     let vid = as_u16 (sv_len (b_variables f));
     try_ok (create_variable iter vid def f) (\<lambda>var. do {
       f \<leftarrow> va_register var f;
       vars \<leftarrow> sv_push var (b_variables f);
       Some (Inr (vid, f\<lparr>b_variables := vars\<rparr>)) }) }"

text \<open>The instruction that produces a value, through the variables that it is taken from.\<close>

partial_function (option) production_inst :: "'l ir_function \<Rightarrow> ir_var_def \<Rightarrow> (nat \<times> (nat \<rightharpoonup> nat)) option" where
  "production_inst f def =
     (case def of
        VD_Inst i \<Rightarrow> Some (i, Map.empty)
      | VD_Last prev ds \<Rightarrow> do {
          var \<leftarrow> fn_variable f prev;
          (i, m) \<leftarrow> production_inst f (va_def var);
          Some (i, fold (\<lambda>d m. m(d := None)) (data ds) m) }
      | VD_DimMap prev ms \<Rightarrow> do {
          var \<leftarrow> fn_variable f prev;
          (i, m) \<leftarrow> production_inst f (va_def var);
          pairs \<leftarrow> those (map (\<lambda>k. map_option mp_dims (fn_mapping f k)) (data ms));
          Some (i, fold (\<lambda>(src, dst) m. m(src \<mapsto> dst)) pairs m) })"

section \<open>Dimensions\<close>

definition set_iteration_dim :: "nat \<Rightarrow> nat \<Rightarrow> 'l ir_function \<Rightarrow> (bool \<times> 'l ir_function) option" where
  "set_iteration_dim iid d f = do {
     inst \<leftarrow> fn_inst f iid;
     if d |\<in>| i_iter_dims inst then Some (False, f)
     else do {
       f \<leftarrow> fn_update_inst iid (add_iteration_dimension d) f;
       f \<leftarrow> fn_update_dim d (dim_add_iterated iid) f;
       Some (True, f) } }"

definition add_thread_dim :: "nat \<Rightarrow> 'l ir_function \<Rightarrow> (bool \<times> 'l ir_function) option" where
  "add_thread_dim d f = do {
     f \<leftarrow> fn_update_dim d dim_set_thread_dim f;
     let (added, dims) = vs_insert (b_thread_dims f) d;
     Some (added, f\<lparr>b_thread_dims := dims\<rparr>) }"

definition u32_div :: "u32 \<Rightarrow> u32 \<Rightarrow> u32 option" where
  "u32_div a b = (if b = 0 then None else Some (a div b))"

text \<open>The dimensions of a logical dimension: the outer one, whose size is what is left, and one per tile.\<close>

definition outer_dim ::
  "nat \<Rightarrow> nat list \<Rightarrow> parameter ir_size \<Rightarrow> u32 vec_set \<Rightarrow> (ir_error + ir_dim \<times> logical_dim) option" where
  "outer_dim logical_id dim_ids sz tiling_factors =
     (case size_as_constant sz of
        Some s \<Rightarrow> do {
          sizes \<leftarrow> those (map (u32_div s) (data tiling_factors));
          Some (if_ok (dim_new_static (hd dim_ids) (vs_new sizes) (Some logical_id))
            (\<lambda>d. Inr (d, lg_new_static logical_id dim_ids s))) }
      | None \<Rightarrow> do {
          tiled \<leftarrow> ps_from_size sz;
          Some (if_ok (dim_new (hd dim_ids) (ps_add_divisors (vs_new (tl dim_ids)) tiled) (Some logical_id))
            (\<lambda>d. Inr (d, lg_new_dynamic logical_id (hd dim_ids) (tl dim_ids) tiling_factors sz))) })"

fun tile_dims :: "nat \<Rightarrow> (nat \<times> u32 vec_set) list \<Rightarrow> ir_error + ir_dim list" where
  "tile_dims logical_id [] = Inr []"
| "tile_dims logical_id ((did, sizes) # ts) =
     if_ok (dim_new_static did sizes (Some logical_id)) (\<lambda>d. if_ok (tile_dims logical_id ts) (\<lambda>ds. Inr (d # ds)))"

definition add_logical_dim ::
  "parameter ir_size \<Rightarrow> u32 vec_set \<Rightarrow> u32 vec_set list \<Rightarrow> unit ir_function \<Rightarrow> (ir_error + nat \<times> nat list \<times> unit ir_function) option" where
  "add_logical_dim sz tiling_factors possible_tiles f = do {
     let logical_id = as_u32 (length (b_logical_dims f));
     let dim_ids = map (\<lambda>k. as_u32 (k + sv_len (b_dims f))) [0..<Suc (length possible_tiles)];
     try_ok (outer_dim logical_id dim_ids sz tiling_factors) (\<lambda>(d, logical).
       try_ok (Some (tile_dims logical_id (zip (tl dim_ids) possible_tiles))) (\<lambda>ds. do {
         dims \<leftarrow> sv_extend (d # ds) (b_dims f);
         Some (Inr (logical_id, dim_ids,
           f\<lparr>b_static_dims := b_static_dims f @ map d_id (filter (\<lambda>d. dim_possible_sizes d \<noteq> None) (d # ds)),
             b_dims := dims, b_logical_dims := b_logical_dims f @ [logical]\<rparr>)) })) }"

definition add_mem_block :: "u32 \<Rightarrow> unit ir_function \<Rightarrow> (nat \<times> unit ir_function) option" where
  "add_mem_block sz f = do {
     (mem, bm) \<leftarrow> alloc_block sz None (b_mem_blocks f);
     Some (mem, f\<lparr>b_mem_blocks := bm\<rparr>) }"

definition add_ind_var :: "'l induction_var \<Rightarrow> 'l ir_function \<Rightarrow> nat \<times> 'l ir_function" where
  "add_ind_var v f = (as_u32 (length (b_induction_vars f)), f\<lparr>b_induction_vars := b_induction_vars f @ [v]\<rparr>)"

section \<open>Freezing\<close>

text \<open>Identifiers are reserved for the lowering of every operand that may be lowered.\<close>

definition freeze_slot :: "unit instruction option \<Rightarrow> counter \<Rightarrow> (lowering_map instruction option \<times> counter) option" where
  "freeze_slot slot c =
     (case slot of None \<Rightarrow> Some (None, c) | Some i \<Rightarrow> map_option (\<lambda>(i, c). (Some i, c)) (inst_freeze i c))"

definition fn_freeze :: "unit ir_function \<Rightarrow> lowering_map ir_function option" where
  "fn_freeze f = do {
     let c = \<lparr>next_mem = sv_len (bm_blocks (b_mem_blocks f)), next_inst = sv_len (b_insts f), next_dim = sv_len (b_dims f),
       next_dim_mapping = as_u16 (sv_len (b_dim_mappings f))\<rparr>;
     (slots, c) \<leftarrow> map_accum freeze_slot (sv_vec (b_insts f)) c;
     (ind_vars, c) \<leftarrow> map_accum iv_freeze (b_induction_vars f) c;
     insts \<leftarrow> sv_expand_to (next_inst c) (sv_from_vec slots);
     dims \<leftarrow> sv_expand_to (next_dim c) (sv_from_vec (sv_vec (b_dims f)));
     blocks \<leftarrow> expand_blocks_to (next_mem c) (b_mem_blocks f);
     mappings \<leftarrow> sv_expand_to (next_dim_mapping c) (b_dim_mappings f);
     Some \<lparr>b_insts = insts, b_dims = dims, b_static_dims = b_static_dims f, b_thread_dims = b_thread_dims f, b_mem_insts = b_mem_insts f,
       b_mem_blocks = blocks, b_layouts_to_lower = b_layouts_to_lower f, b_induction_vars = ind_vars, b_logical_dims = b_logical_dims f,
       b_dim_mappings = mappings, b_variables = b_variables f, fn_signature = fn_signature f, fn_device = fn_device f\<rparr> }"

section \<open>Lowering\<close>

definition activate_mapped_dim :: "nat \<times> nat \<times> nat \<Rightarrow> 'l ir_function \<Rightarrow> 'l ir_function option" where
  "activate_mapped_dim = (\<lambda>(mapping_id, old_dim, new_dim) f. do {
     old \<leftarrow> fn_dim f old_dim;
     d \<leftarrow> dim_with_same_size new_dim old;
     let f = (if dim_possible_sizes d \<noteq> None then f\<lparr>b_static_dims := b_static_dims f @ [new_dim]\<rparr> else f);
     dims \<leftarrow> sv_set_lazy new_dim d (b_dims f);
     (mapping, f) \<leftarrow> create_mapping mapping_id (old_dim, new_dim) (f\<lparr>b_dims := dims\<rparr>);
     mappings \<leftarrow> sv_set_lazy mapping_id mapping (b_dim_mappings f);
     Some (f\<lparr>b_dim_mappings := mappings\<rparr>) })"

definition activate_mapped_dims :: "(nat \<times> nat \<times> nat) list \<Rightarrow> bool \<Rightarrow> 'l ir_function \<Rightarrow> (dim_pairs \<times> 'l ir_function) option" where
  "activate_mapped_dims ms old_to_new f = do {
     f \<leftarrow> fold_option activate_mapped_dim ms f;
     Some (map (\<lambda>(_, old_dim, new_dim). if old_to_new then (old_dim, new_dim) else (new_dim, old_dim)) ms, f) }"

text \<open>An instruction is created with an identifier that was reserved; errors are unwrapped.\<close>

definition activate_inst ::
  "(nat list \<Rightarrow> nat list) \<Rightarrow> nat \<Rightarrow> 'l operator \<Rightarrow> nat list \<Rightarrow> 'l ir_function \<Rightarrow> 'l ir_function option" where
  "activate_inst iter iid op dims f = do {
     r \<leftarrow> create_inst iter iid op (fset_of_list dims) f;
     (case r of
        Inl _ \<Rightarrow> None
      | Inr (inst, f) \<Rightarrow> do {
          insts \<leftarrow> sv_set_lazy iid inst (b_insts f);
          Some (f\<lparr>b_insts := insts\<rparr>) }) }"

definition op_new_inst :: "'l instruction \<Rightarrow> dim_pairs \<Rightarrow> 'l dim_map_scope \<Rightarrow> 'l operand option" where
  "op_new_inst inst m scope = do {
     t \<leftarrow> operator_t (i_operator inst);
     Some (Op_Inst (i_id inst) t m (case scope of DS_Global _ \<Rightarrow> if ty_len_byte t = None then DS_Thread else scope | _ \<Rightarrow> scope)) }"

text \<open>The operand to lower: \<open>Inl\<close> when it cannot be lowered.\<close>

definition operand_to_lower :: "lowering_map ir_function \<Rightarrow> nat \<Rightarrow> nat \<Rightarrow> (unit + nat \<times> ir_type \<times> lowered_dim_map) option" where
  "operand_to_lower f dst pos = do {
     inst \<leftarrow> fn_inst f dst;
     if pos < length (operands (i_operator inst)) then
       (case operands (i_operator inst) ! pos of
          Op_Inst src t m (DS_Global lowering) \<Rightarrow> map_option (\<lambda>l. Inr (src, t, l)) (lm_lower lowering m)
        | Op_Inst _ _ _ _ \<Rightarrow> Some (Inl ())
        | Op_Reduce _ _ _ _ \<Rightarrow> Some (Inl ())
        | _ \<Rightarrow> None)
     else None }"

definition lower_dim_map ::
  "(nat list \<Rightarrow> nat list) \<Rightarrow> nat \<Rightarrow> nat \<Rightarrow> lowering_map ir_function \<Rightarrow> (unit + lowered_dim_map \<times> lowering_map ir_function) option" where
  "lower_dim_map iter dst pos f =
     try_ok (operand_to_lower f dst pos) (\<lambda>(src, t, lowered). do {
       (st_dim_map, f) \<leftarrow> activate_mapped_dims (ld_st_dims_mapping lowered) True f;
       (ld_dim_map, f) \<leftarrow> activate_mapped_dims (ld_ld_dims_mapping lowered) False f;
       dims \<leftarrow> mem_dimensions lowered;
       bm \<leftarrow> set_lazy_tmp (ld_mem lowered) t dims (b_mem_blocks f);
       let f = f\<lparr>b_mem_blocks := bm\<rparr>;
       src_inst \<leftarrow> fn_inst f src;
       st_operand \<leftarrow> op_new_inst src_inst st_dim_map DS_Local;
       f \<leftarrow> activate_inst iter (ld_store lowered) (OP_TmpSt st_operand (ld_mem lowered)) (new_dims (ld_st_dims_mapping lowered)) f;
       f \<leftarrow> activate_inst iter (ld_load lowered) (OP_TmpLd t (ld_mem lowered)) (new_dims (ld_ld_dims_mapping lowered)) f;
       inst \<leftarrow> fn_inst f dst;
       inst \<leftarrow> inst_lower_dim_map pos (ld_load lowered) ld_dim_map inst;
       f \<leftarrow> fn_update_inst dst (\<lambda>_. inst) f;
       Some (Inr (lowered, f)) })"

text \<open>Merging dimensions, or not merging them, may make layouts ready.\<close>

definition fn_merge :: "nat \<Rightarrow> nat \<Rightarrow> 'l ir_function \<Rightarrow> 'l ir_function" where
  "fn_merge src dst f =
     (let (to_lower, bm) = bm_merge_dims src dst (b_mem_blocks f) in
      f\<lparr>b_insts := sv_map (inst_merge_dims src dst) (b_insts f), b_induction_vars := map (iv_merge_dims src dst) (b_induction_vars f),
        b_mem_blocks := bm, b_layouts_to_lower := b_layouts_to_lower f @ to_lower\<rparr>)"

definition fn_dim_not_merged :: "(nat list \<Rightarrow> nat list) \<Rightarrow> nat \<Rightarrow> nat \<Rightarrow> 'l ir_function \<Rightarrow> 'l ir_function option" where
  "fn_dim_not_merged iter d1 d2 f = do {
     dim \<leftarrow> fn_dim f d1;
     (to_lower, bm) \<leftarrow> bm_not_merged iter (d_id dim) d2 (b_mem_blocks f);
     Some (f\<lparr>b_mem_blocks := bm, b_layouts_to_lower := b_layouts_to_lower f @ to_lower\<rparr>) }"

text \<open>The increments of an address, from the innermost dimension outwards.\<close>

fun index_increments :: "'l ir_function \<Rightarrow> parameter partial_size \<Rightarrow> nat list \<Rightarrow> (nat \<times> parameter partial_size) list option" where
  "index_increments f sz [] = Some []"
| "index_increments f sz (d # ds) = do {
     dim \<leftarrow> fn_dim f d;
     next_size \<leftarrow> ps_mul sz (d_size dim);
     rest \<leftarrow> index_increments f next_size ds;
     Some ((d, sz) # rest) }"

definition gen_index ::
  "nat \<Rightarrow> u32 \<Rightarrow> 'l operand \<Rightarrow> nat list \<Rightarrow> 'l ir_function \<Rightarrow> ('l operand \<times> access_pattern \<times> 'l ir_function) option" where
  "gen_index mem base_incr base_addr dims f = do {
     base_size \<leftarrow> ps_new base_incr [];
     increments \<leftarrow> index_increments f base_size (rev dims);
     let pattern = AP_Tensor (Some mem) (fold (\<lambda>(d, s). AList.update d s) increments []);
     r \<leftarrow> iv_new increments base_addr;
     (case r of
        Inl _ \<Rightarrow> None
      | Inr ind_var \<Rightarrow> (let (vid, f) = add_ind_var ind_var f in Some (Op_InductionVar vid (op_t base_addr), pattern, f))) }"

definition gen_internal_index :: "nat \<Rightarrow> nat list \<Rightarrow> 'l ir_function \<Rightarrow> ('l operand \<times> access_pattern \<times> 'l ir_function) option" where
  "gen_internal_index mem dims f = do {
     b \<leftarrow> fn_block f mem;
     gen_index mem (bk_base_size b) (Op_Addr mem) dims f }"

definition fn_lower_use ::
  "'l operand \<Rightarrow> access_pattern \<Rightarrow> 'l operand \<Rightarrow> access_pattern \<Rightarrow> nat \<Rightarrow> 'l ir_function \<Rightarrow> 'l ir_function option" where
  "fn_lower_use ld_idx ld_pattern st_idx st_pattern iid f = do {
     inst \<leftarrow> fn_inst f iid;
     inst \<leftarrow> inst_lower_layout ld_idx ld_pattern st_idx st_pattern inst;
     fn_update_inst iid (\<lambda>_. inst) f }"

definition fn_lower_layout :: "nat \<Rightarrow> nat list \<Rightarrow> nat list \<Rightarrow> 'l ir_function \<Rightarrow> 'l ir_function option" where
  "fn_lower_layout mem st_dims ld_dims f = do {
     pos \<leftarrow> (case List.extract (\<lambda>x. x = mem) (b_layouts_to_lower f) of Some (xs, _, _) \<Rightarrow> Some (length xs) | None \<Rightarrow> None);
     (_, layouts) \<leftarrow> swap_remove pos (b_layouts_to_lower f);
     (_, bm) \<leftarrow> bm_lower_layout mem (b_mem_blocks f);
     (st_index, st_pattern, f) \<leftarrow> gen_internal_index mem st_dims (f\<lparr>b_layouts_to_lower := layouts, b_mem_blocks := bm\<rparr>);
     (ld_index, ld_pattern, f) \<leftarrow> gen_internal_index mem ld_dims f;
     b \<leftarrow> fn_block f mem;
     fold_option (fn_lower_use ld_index ld_pattern st_index st_pattern) (bk_uses b) f }"

end
