(* ===== verification/Kernel_Lowering.thy ===== *)
theory Kernel_Lowering
  imports Kernel_Function
begin

text \<open>
  The search space around a kernel (\<^verbatim>\<open>src/search_space\<close>, \<^verbatim>\<open>NewObjs\<close> and \<^verbatim>\<open>LoweredDimMap\<close> of \<^verbatim>\<open>src/ir/mod.rs\<close>): the decisions that follow from the operands
  of instructions and the triggers that lower communications. The domains and their propagation are generated from the constraints; they are the
  record \<open>generated\<close>. A value of an enum is the set of the alternatives that are allowed.
\<close>

section \<open>Decisions\<close>

datatype mapping_val = M_NotMapped | M_UnrollMap | M_ThreadMap

datatype mem_space = MS_Global | MS_Shared

datatype action = A_Order stmt_id stmt_id "order_val set" | A_DimMapping nat nat "mapping_val set" | A_DimKind nat "dim_kind set"
  | A_MemSpace nat "mem_space set"

section \<open>New objects\<close>

record new_objs =
  no_instructions :: "nat list"
  no_dimensions :: "nat list"
  no_static_dims :: "nat list"
  no_statements :: "stmt_id list"
  no_mem_blocks :: "nat list"
  no_mem_insts :: "nat list"
  no_iteration_dims :: "(nat \<times> nat) list"
  no_thread_dims :: "nat list"
  no_logical_dims :: "nat list"
  no_tile_dimensions :: "(nat \<times> nat) list"
  no_tiled_dimensions :: "(nat \<times> nat) list"
  no_dim_mappings :: "nat list"
  no_mapped_dims :: "(nat \<times> nat) list"
  no_static_mapped_dims :: "(nat \<times> nat) list"
  no_variables :: "nat list"
  no_use_statements :: "(nat \<times> stmt_id) list"
  no_def_statements :: "(nat \<times> stmt_id) list"
  no_var_dims :: "(nat \<times> nat) list"
  no_var_mappings :: "(nat \<times> nat) list"

definition no_default :: new_objs where
  "no_default = \<lparr>no_instructions = [], no_dimensions = [], no_static_dims = [], no_statements = [], no_mem_blocks = [], no_mem_insts = [],
     no_iteration_dims = [], no_thread_dims = [], no_logical_dims = [], no_tile_dimensions = [], no_tiled_dimensions = [], no_dim_mappings = [], no_mapped_dims = [], no_static_mapped_dims = [], no_variables = [],
     no_use_statements = [], no_def_statements = [], no_var_dims = [], no_var_mappings = []\<rparr>"

definition no_add_stmt :: "stmt_id \<Rightarrow> new_objs \<Rightarrow> new_objs" where
  "no_add_stmt s n = n\<lparr>no_statements := no_statements n @ [s]\<rparr>"

definition no_add_iteration_dim :: "nat \<Rightarrow> nat \<Rightarrow> new_objs \<Rightarrow> new_objs" where
  "no_add_iteration_dim i d n = n\<lparr>no_iteration_dims := no_iteration_dims n @ [(i, d)]\<rparr>"

definition no_add_thread_dim :: "nat \<Rightarrow> new_objs \<Rightarrow> new_objs" where
  "no_add_thread_dim d n = n\<lparr>no_thread_dims := no_thread_dims n @ [d]\<rparr>"

definition no_add_mem_block :: "nat \<Rightarrow> new_objs \<Rightarrow> new_objs" where
  "no_add_mem_block m n = n\<lparr>no_mem_blocks := no_mem_blocks n @ [m]\<rparr>"

definition no_add_instruction :: "(nat list \<Rightarrow> nat list) \<Rightarrow> 'l instruction \<Rightarrow> new_objs \<Rightarrow> new_objs" where
  "no_add_instruction iter inst n =
     (let n = no_add_stmt (S_Inst (i_id inst)) n;
          n = n\<lparr>no_iteration_dims := no_iteration_dims n @ map (Pair (i_id inst)) (iter (sorted_list_of_fset (i_iter_dims inst)))\<rparr>;
          n = (if is_mem_access (i_operator inst) then n\<lparr>no_mem_insts := no_mem_insts n @ [i_id inst]\<rparr> else n)
      in n\<lparr>no_instructions := no_instructions n @ [i_id inst]\<rparr>)"

definition no_add_dimension :: "ir_dim \<Rightarrow> new_objs \<Rightarrow> new_objs" where
  "no_add_dimension dim n =
     (let n = no_add_stmt (S_Dim (d_id dim)) n;
          n = n\<lparr>no_dimensions := no_dimensions n @ [d_id dim]\<rparr>;
          n = (if dim_possible_sizes dim \<noteq> None then n\<lparr>no_static_dims := no_static_dims n @ [d_id dim]\<rparr> else n)
      in if d_is_thread_dim dim then no_add_thread_dim (d_id dim) n else n)"

definition no_add_mapped_dim :: "'l ir_function \<Rightarrow> nat \<Rightarrow> nat \<Rightarrow> new_objs \<Rightarrow> new_objs option" where
  "no_add_mapped_dim f mid d n = do {
     dim \<leftarrow> fn_dim f d;
     let n = n\<lparr>no_mapped_dims := no_mapped_dims n @ [(mid, d)]\<rparr>;
     Some (if dim_possible_sizes dim \<noteq> None then n\<lparr>no_static_mapped_dims := no_static_mapped_dims n @ [(mid, d)]\<rparr> else n) }"

definition no_add_dim_mapping :: "'l ir_function \<Rightarrow> dim_mapping \<Rightarrow> new_objs \<Rightarrow> new_objs option" where
  "no_add_dim_mapping f mapping n = do {
     n \<leftarrow> no_add_mapped_dim f (mp_id mapping) (fst (mp_dims mapping)) (n\<lparr>no_dim_mappings := no_dim_mappings n @ [mp_id mapping]\<rparr>);
     no_add_mapped_dim f (mp_id mapping) (snd (mp_dims mapping)) n }"

definition no_add_variable :: "ir_variable \<Rightarrow> new_objs \<Rightarrow> new_objs" where
  "no_add_variable var n =
     n\<lparr>no_variables := no_variables n @ [va_id var],
       no_def_statements := no_def_statements n @ map (Pair (va_id var)) (data (va_def_points var)),
       no_use_statements := no_use_statements n @ map (Pair (va_id var)) (data (va_use_points var)),
       no_var_dims := no_var_dims n @ map (Pair (va_id var)) (data (va_dimensions var)),
       no_var_mappings := no_var_mappings n @ map (Pair (va_id var)) (vd_mapped_dims (va_def var))\<rparr>"

definition register_new_dim :: "'l ir_function \<Rightarrow> nat \<times> nat \<times> nat \<Rightarrow> new_objs \<Rightarrow> new_objs option" where
  "register_new_dim f = (\<lambda>(mapping, _, new_dim) n. do {
     dim \<leftarrow> fn_dim f new_dim;
     m \<leftarrow> fn_mapping f mapping;
     no_add_dim_mapping f m (no_add_dimension dim n) })"

definition register_new_objs :: "(nat list \<Rightarrow> nat list) \<Rightarrow> lowered_dim_map \<Rightarrow> 'l ir_function \<Rightarrow> new_objs \<Rightarrow> new_objs option" where
  "register_new_objs iter l f n = do {
     store \<leftarrow> fn_inst f (ld_store l);
     load \<leftarrow> fn_inst f (ld_load l);
     fold_option (register_new_dim f) (ld_st_dims_mapping l @ ld_ld_dims_mapping l)
       (no_add_instruction iter load (no_add_instruction iter store (no_add_mem_block (ld_mem l) n))) }"

section \<open>Decisions implied by operands\<close>

fun reduced_source :: "'l operand \<Rightarrow> nat list" where
  "reduced_source (Op_Inst i _ _ _) = [i]"
| "reduced_source (Op_Reduce i _ _ _) = [i]"
| "reduced_source _ = []"

definition order_reduce_dims :: "(nat list \<Rightarrow> nat list) \<Rightarrow> 'l ir_function \<Rightarrow> nat \<Rightarrow> action list option" where
  "order_reduce_dims iter f iid = do {
     inst \<leftarrow> fn_inst f iid;
     sources \<leftarrow> those (map (fn_inst f) (concat (map reduced_source (operands (i_operator inst)))));
     let red_dims = fset_of_list (concat (map iter_reduced_dims sources));
     Some (map (\<lambda>d. A_Order (S_Dim d) (S_Inst (i_id inst)) {O_Before}) (iter (sorted_list_of_fset red_dims))) }"

fun scope_mapping :: "'l dim_map_scope \<Rightarrow> mapping_val set" where
  "scope_mapping DS_Local = {M_UnrollMap}"
| "scope_mapping DS_Thread = {M_UnrollMap, M_ThreadMap}"
| "scope_mapping (DS_Global _) = {M_NotMapped, M_UnrollMap, M_ThreadMap}"

definition mapped_pair_actions :: "'l ir_function \<Rightarrow> 'l dim_map_scope \<Rightarrow> nat \<times> nat \<Rightarrow> action list option" where
  "mapped_pair_actions f scope = (\<lambda>(a, b). do {
     dim \<leftarrow> fn_dim f a;
     Some ([A_Order (S_Dim a) (S_Dim b) {O_Before, O_Merged}, A_DimMapping a b (scope_mapping scope)]
       @ (if dim_possible_sizes dim = None then [A_Order (S_Dim a) (S_Dim b) {O_Merged}] else [])) })"

text \<open>The base of an induction variable may be an induction variable; the first argument bounds the depth of the recursion.\<close>

fun operand_invariants_in ::
  "nat \<Rightarrow> (nat list \<Rightarrow> nat list) \<Rightarrow> 'l ir_function \<Rightarrow> 'l operand \<Rightarrow> stmt_id \<Rightarrow> action list option" where
  "operand_invariants_in n iter f (Op_Inst src t m scope) user = do {
     pairs \<leftarrow> those (map (mapped_pair_actions f scope) m);
     reduced \<leftarrow> order_reduce_dims iter f src;
     Some (concat pairs @ reduced @ [A_Order (S_Inst src) user {O_Before}]) }"
| "operand_invariants_in n iter f (Op_Reduce src t m reduce_dims) user = do {
     reduced \<leftarrow> order_reduce_dims iter f src;
     Some (concat (map (\<lambda>(a, b). [A_Order (S_Dim a) (S_Dim b) {O_Before, O_Merged}, A_DimMapping a b {M_UnrollMap, M_ThreadMap}]) m)
       @ [A_Order (S_Inst src) user {O_Before}]
       @ concat (map (\<lambda>d. [A_Order (S_Inst src) (S_Dim d) {O_Before}, A_DimKind d {K_Loop, K_Unroll}]) reduce_dims)
       @ reduced) }"
| "operand_invariants_in n iter f (Op_Index d) user = Some [A_Order (S_Dim d) user {O_Outer}]"
| "operand_invariants_in 0 iter f (Op_InductionVar v t) user = None"
| "operand_invariants_in (Suc n) iter f (Op_InductionVar v t) user =
     (if v < length (b_induction_vars f) then do {
        let var = b_induction_vars f ! v;
        base \<leftarrow> operand_invariants_in n iter f (iv_base var) user;
        rest \<leftarrow> those (map (\<lambda>(d, _). map_option (\<lambda>as. as @ [A_Order (S_Dim d) user {O_Outer}])
          (operand_invariants_in n iter f (iv_base var) (S_Dim d))) (iv_dims var));
        Some (base @ concat rest) }
      else None)"
| "operand_invariants_in n iter f op user = Some []"

definition operand_invariants :: "(nat list \<Rightarrow> nat list) \<Rightarrow> 'l ir_function \<Rightarrow> 'l operand \<Rightarrow> stmt_id \<Rightarrow> action list option" where
  "operand_invariants iter f op user = operand_invariants_in (Suc (length (b_induction_vars f))) iter f op user"

definition inst_invariants :: "(nat list \<Rightarrow> nat list) \<Rightarrow> 'l ir_function \<Rightarrow> 'l instruction \<Rightarrow> action list option" where
  "inst_invariants iter f inst =
     map_option concat (those (map (\<lambda>op. operand_invariants iter f op (S_Inst (i_id inst))) (operands (i_operator inst))))"

section \<open>Triggers\<close>

text \<open>\<^verbatim>\<open>dim_map.rs\<close>. An error makes the implementation invalid.\<close>

definition lower_dim_map_trigger ::
  "(nat list \<Rightarrow> nat list) \<Rightarrow> nat \<Rightarrow> nat \<Rightarrow> lowering_map ir_function \<times> new_objs
    \<Rightarrow> (unit + action list \<times> lowering_map ir_function \<times> new_objs) option" where
  "lower_dim_map_trigger iter iid pos = (\<lambda>(f, n).
     try_ok (lower_dim_map iter iid pos f) (\<lambda>(lowered, f). do {
       dims \<leftarrow> mem_dimensions lowered;
       inst \<leftarrow> fn_inst f iid;
       op \<leftarrow> (if pos < length (operands (i_operator inst)) then Some (operands (i_operator inst) ! pos) else None);
       invariants \<leftarrow> operand_invariants iter f op (S_Inst iid);
       n \<leftarrow> register_new_objs iter lowered f n;
       Some (Inr (map (\<lambda>(src, dst). A_Order (S_Dim src) (S_Dim dst) {O_Before, O_Merged}) dims
         @ [A_MemSpace (ld_mem lowered) {MS_Shared}, A_Order (S_Inst (ld_store lowered)) (S_Inst (ld_load lowered)) {O_Before}]
         @ invariants, f, n)) }))"

fun lower_dim_maps ::
  "(nat list \<Rightarrow> nat list) \<Rightarrow> (nat \<times> nat) list \<Rightarrow> lowering_map ir_function \<times> new_objs
    \<Rightarrow> (unit + action list \<times> lowering_map ir_function \<times> new_objs) option" where
  "lower_dim_maps iter [] (f, n) = Some (Inr ([], f, n))"
| "lower_dim_maps iter ((iid, pos) # ps) (f, n) =
     try_ok (lower_dim_map_trigger iter iid pos (f, n)) (\<lambda>(actions, f, n).
     try_ok (lower_dim_maps iter ps (f, n)) (\<lambda>(more_actions, f, n). Some (Inr (actions @ more_actions, f, n))))"

definition dim_not_mapped ::
  "(nat list \<Rightarrow> nat list) \<Rightarrow> nat \<Rightarrow> nat \<Rightarrow> lowering_map ir_function \<Rightarrow> (unit + action list \<times> lowering_map ir_function \<times> new_objs) option" where
  "dim_not_mapped iter d1 d2 f =
     lower_dim_maps iter (concat (map (\<lambda>i. map (Pair (i_id i)) (dim_maps_to_lower d1 d2 i)) (sv_iter (b_insts f)))) (f, no_default)"

definition dim_not_merged ::
  "(nat list \<Rightarrow> nat list) \<Rightarrow> nat \<Rightarrow> nat \<Rightarrow> 'l ir_function \<Rightarrow> (unit + action list \<times> 'l ir_function \<times> new_objs) option" where
  "dim_not_merged iter d1 d2 f = map_option (\<lambda>f. Inr ([], f, no_default)) (fn_dim_not_merged iter d1 d2 f)"

definition merge_dims :: "nat \<Rightarrow> nat \<Rightarrow> 'l ir_function \<Rightarrow> unit + action list \<times> 'l ir_function \<times> new_objs" where
  "merge_dims d1 d2 f = Inr ([], fn_merge d1 d2 f, no_default)"

definition add_iteration_dim :: "nat \<Rightarrow> nat \<Rightarrow> 'l ir_function \<Rightarrow> (new_objs \<times> 'l ir_function) option" where
  "add_iteration_dim iid d f = do {
     (added, f) \<leftarrow> set_iteration_dim iid d f;
     Some (if added then no_add_iteration_dim iid d no_default else no_default, f) }"

definition add_thread_dim_trigger :: "nat \<Rightarrow> 'l ir_function \<Rightarrow> (new_objs \<times> 'l ir_function) option" where
  "add_thread_dim_trigger d f = do {
     (added, f) \<leftarrow> add_thread_dim d f;
     Some (if added then no_add_thread_dim d no_default else no_default, f) }"

section \<open>The search space\<close>

text \<open>The code that is generated from the constraints.\<close>

record 'd generated =
  g_domain_new :: "lowering_map ir_function \<Rightarrow> 'd"
  g_apply_action :: "action \<Rightarrow> 'd \<Rightarrow> unit + 'd"
  g_init_domain :: "'d \<Rightarrow> lowering_map ir_function \<Rightarrow> unit + action list \<times> 'd \<times> lowering_map ir_function"
  g_apply_decisions :: "action list \<Rightarrow> lowering_map ir_function \<Rightarrow> 'd \<Rightarrow> unit + lowering_map ir_function \<times> 'd"
  g_alloc :: "lowering_map ir_function \<Rightarrow> new_objs \<Rightarrow> 'd \<Rightarrow> 'd"
  g_init_domain_partial :: "'d \<Rightarrow> lowering_map ir_function \<Rightarrow> new_objs \<Rightarrow> unit + action list \<times> 'd \<times> lowering_map ir_function"
  g_restrict_kind :: "nat \<Rightarrow> lowering_map ir_function \<Rightarrow> 'd \<Rightarrow> dim_kind set \<Rightarrow> unit + action list"

record 'd search_space =
  ss_ir_instance :: "lowering_map ir_function"
  ss_domain :: 'd

definition ss_apply_decisions :: "'d generated \<Rightarrow> action list \<Rightarrow> 'd search_space \<Rightarrow> unit + 'd search_space" where
  "ss_apply_decisions g actions s =
     if_ok (g_apply_decisions g actions (ss_ir_instance s) (ss_domain s)) (\<lambda>(f, d). Inr \<lparr>ss_ir_instance = f, ss_domain = d\<rparr>)"

fun apply_actions :: "'d generated \<Rightarrow> action list \<Rightarrow> 'd \<Rightarrow> unit + 'd" where
  "apply_actions g [] d = Inr d"
| "apply_actions g (a # as) d = if_ok (g_apply_action g a d) (apply_actions g as)"

definition ss_new ::
  "(nat list \<Rightarrow> nat list) \<Rightarrow> 'd generated \<Rightarrow> unit ir_function \<Rightarrow> action list \<Rightarrow> (unit + 'd search_space) option" where
  "ss_new iter g f actions = do {
     f \<leftarrow> fn_freeze f;
     invariants \<leftarrow> those (map (inst_invariants iter f) (sv_iter (b_insts f)));
     Some (if_ok (apply_actions g (actions @ concat invariants) (g_domain_new g f)) (\<lambda>d.
       if_ok (g_init_domain g d f) (\<lambda>(actions, d, f). ss_apply_decisions g actions \<lparr>ss_ir_instance = f, ss_domain = d\<rparr>))) }"

definition process_lowering ::
  "(nat list \<Rightarrow> nat list) \<Rightarrow> 'd generated \<Rightarrow> lowering_map ir_function \<Rightarrow> 'd \<Rightarrow> new_objs
    \<Rightarrow> (unit + action list \<times> lowering_map ir_function \<times> 'd) option" where
  "process_lowering iter g f d n =
     try_ok (Some (g_init_domain_partial g (g_alloc g f n d) f n)) (\<lambda>(actions, d, f). do {
       insts \<leftarrow> those (map (fn_inst f) (no_instructions n));
       invariants \<leftarrow> those (map (inst_invariants iter f) insts);
       Some (Inr (actions @ concat invariants, f, d)) })"

text \<open>\<^verbatim>\<open>SearchSpace::lower_layout\<close>: only the innermost dimensions may be vectorised.\<close>

fun not_vector_actions :: "'d generated \<Rightarrow> lowering_map ir_function \<Rightarrow> 'd \<Rightarrow> (nat \<times> nat) list \<Rightarrow> unit + action list" where
  "not_vector_actions g f d [] = Inr []"
| "not_vector_actions g f d ((st, ld) # ps) =
     if_ok (g_restrict_kind g st f d (- {K_InnerVector, K_OuterVector})) (\<lambda>a1.
     if_ok (g_restrict_kind g ld f d (- {K_InnerVector, K_OuterVector})) (\<lambda>a2.
     if_ok (not_vector_actions g f d ps) (\<lambda>a3. Inr (a1 @ a2 @ a3))))"

definition layout_actions ::
  "(nat list \<Rightarrow> nat list) \<Rightarrow> 'd generated \<Rightarrow> nat \<Rightarrow> nat list \<Rightarrow> nat list \<Rightarrow> lowering_map ir_function \<Rightarrow> 'd
    \<Rightarrow> (unit + action list \<times> lowering_map ir_function) option" where
  "layout_actions iter g mem st_dims ld_dims f d =
     (if length st_dims = length ld_dims then
        try_ok (Some (not_vector_actions g f d (tl (zip (rev st_dims) (rev ld_dims))))) (\<lambda>actions. do {
          f \<leftarrow> fn_lower_layout mem st_dims ld_dims f;
          b \<leftarrow> fn_block f mem;
          insts \<leftarrow> those (map (fn_inst f) (bk_uses b));
          invariants \<leftarrow> those (map (inst_invariants iter f) insts);
          Some (Inr (actions @ concat invariants, f)) })
      else None)"

definition ss_lower_layout ::
  "(nat list \<Rightarrow> nat list) \<Rightarrow> 'd generated \<Rightarrow> nat \<Rightarrow> nat list \<Rightarrow> nat list \<Rightarrow> 'd search_space \<Rightarrow> (unit + 'd search_space) option" where
  "ss_lower_layout iter g mem st_dims ld_dims s =
     try_ok (layout_actions iter g mem st_dims ld_dims (ss_ir_instance s) (ss_domain s))
       (\<lambda>(actions, f). Some (ss_apply_decisions g actions (s\<lparr>ss_ir_instance := f\<rparr>)))"

end
