(* ===== verification/Kernel_Invariant.thy ===== *)
theory Kernel_Invariant
  imports Kernel_Lowering
begin

text \<open>
  The invariant of a kernel. Objects refer to each other in both directions: an instruction to the dimensions it iterates on and a dimension
  to the instructions that it iterates, a mapping to its dimensions, an instruction to its memory block and to its variables. The
  relation \<open>dual\<close> says that the two directions agree; it is kept when a new object is registered in the objects that it refers to.
\<close>

section \<open>Cross references\<close>

definition proj :: "('a \<Rightarrow> 'b) \<Rightarrow> 'a sparse_vec \<Rightarrow> nat \<Rightarrow> 'b option" where
  "proj p v i = map_option p (sv_index v i)"

definition has :: "('a \<Rightarrow> nat set) \<Rightarrow> 'a sparse_vec \<Rightarrow> nat \<Rightarrow> nat \<Rightarrow> bool" where
  "has p v i x \<longleftrightarrow> (\<exists>s. proj p v i = Some s \<and> x \<in> s)"

definition dual :: "('a \<Rightarrow> nat set) \<Rightarrow> 'a sparse_vec \<Rightarrow> ('b \<Rightarrow> nat set) \<Rightarrow> 'b sparse_vec \<Rightarrow> bool" where
  "dual p v q w \<longleftrightarrow> (\<forall>i x. has p v i x \<longleftrightarrow> has q w x i)"

definition every :: "('a \<Rightarrow> bool) \<Rightarrow> 'a sparse_vec \<Rightarrow> bool" where
  "every P v \<longleftrightarrow> (\<forall>i x. sv_index v i = Some x \<longrightarrow> P x)"

definition ids_ok :: "('a \<Rightarrow> nat) \<Rightarrow> 'a sparse_vec \<Rightarrow> bool" where
  "ids_ok p v \<longleftrightarrow> (\<forall>i x. sv_index v i = Some x \<longrightarrow> p x = i)"

lemma dual_sym: "dual p v q w \<Longrightarrow> dual q w p v"
  by (simp add: dual_def)

lemma dual_cong: "dual p v q w \<Longrightarrow> proj p' v' = proj p v \<Longrightarrow> proj q' w' = proj q w \<Longrightarrow> dual p' v' q' w'"
  by (simp add: dual_def has_def)

text \<open>A new object at a free identifier, and the update of the objects of a set of identifiers.\<close>

definition inserted :: "nat \<Rightarrow> 'a \<Rightarrow> 'a sparse_vec \<Rightarrow> 'a sparse_vec \<Rightarrow> bool" where
  "inserted i x v v' \<longleftrightarrow> sv_wf v' \<and> sv_index v i = None \<and> sv_index v' = (sv_index v)(i \<mapsto> x)"

definition updated :: "nat set \<Rightarrow> ('a \<Rightarrow> 'a) \<Rightarrow> 'a sparse_vec \<Rightarrow> 'a sparse_vec \<Rightarrow> bool" where
  "updated S u v v' \<longleftrightarrow> sv_wf v' \<and> sv_full v' = sv_full v \<and> sv_len v' = sv_len v \<and> (\<forall>i \<in> S. sv_index v i \<noteq> None)
     \<and> (\<forall>i. sv_index v' i = (if i \<in> S then map_option u (sv_index v i) else sv_index v i))"

lemma inserted_push:
  assumes "sv_wf v" "sv_push x v = Some v'"
  shows "inserted (sv_len v) x v v' \<and> sv_full v \<and> sv_full v'"
proof -
  have "sv_full v" using assms by (auto simp: sv_push_def sv_make_holes_def sv_wf_def sv_full_def Let_def split: if_splits)
  then show ?thesis using sv.push_fresh [OF assms(1) _ assms(2)] by (simp add: inserted_def)
qed

lemma inserted_set_lazy:
  assumes "sv_wf v" "sv_set_lazy i x v = Some v'"
  shows "inserted i x v v'"
proof -
  have "i < sv_len v \<and> sv_index v i = None"
    using assms(2) by (auto simp: sv_set_lazy_def sv_len_def sv_index_def Let_def nth_append split: if_splits)
  then show ?thesis using sv.fillD [OF assms(1) _ _ assms(2)] by (simp add: inserted_def)
qed

lemma every_inserted: "every P v \<Longrightarrow> inserted i x v v' \<Longrightarrow> P x \<Longrightarrow> every P v'"
  by (simp add: every_def inserted_def)

lemma ids_inserted: "ids_ok p v \<Longrightarrow> inserted i x v v' \<Longrightarrow> p x = i \<Longrightarrow> ids_ok p v'"
  by (simp add: ids_ok_def inserted_def)

lemma every_updated: "every P v \<Longrightarrow> updated S u v v' \<Longrightarrow> (\<And>x. P x \<Longrightarrow> P (u x)) \<Longrightarrow> every P v'"
  by (fastforce simp: every_def updated_def split: if_splits)

lemma proj_updated: "updated S u v v' \<Longrightarrow> every P v \<Longrightarrow> (\<And>x. P x \<Longrightarrow> p (u x) = p x) \<Longrightarrow> proj p v' = proj p v"
proof (rule ext)
  fix i
  assume "updated S u v v'" "every P v" "\<And>x. P x \<Longrightarrow> p (u x) = p x"
  then show "proj p v' i = proj p v i" by (cases "sv_index v i") (simp_all add: proj_def updated_def every_def)
qed

lemma proj_same: "updated S u v v' \<Longrightarrow> (\<And>x. p (u x) = p x) \<Longrightarrow> proj p v' = proj p v"
  using proj_updated [of S u v v' "\<lambda>_. True" p] by (simp add: every_def)

lemma ids_updated: "ids_ok p v \<Longrightarrow> updated S u v v' \<Longrightarrow> (\<And>x. p (u x) = p x) \<Longrightarrow> ids_ok p v'"
  by (fastforce simp: ids_ok_def updated_def split: if_splits)

lemma dual_keep: "dual p v q w \<Longrightarrow> updated S u v v' \<Longrightarrow> (\<And>x. p (u x) = p x) \<Longrightarrow> dual p v' q w"
  by (rule dual_cong) (simp_all add: proj_same)

lemma dual_keep_right: "dual p v q w \<Longrightarrow> updated S u w w' \<Longrightarrow> (\<And>x. q (u x) = q x) \<Longrightarrow> dual p v q w'"
  by (rule dual_cong) (simp_all add: proj_same)

text \<open>A new object that is registered in every object that it refers to, or that refers to nothing.\<close>

lemma dual_insert_at:
  assumes "dual p v q w" "inserted i x v v'" "updated S u w w'" "S = p x" "\<And>d y. d \<in> S \<Longrightarrow> sv_index w d = Some y \<Longrightarrow> q (u y) = insert i (q y)"
  shows "dual p v' q w'"
proof -
  have "has p v' j d \<longleftrightarrow> has p v j d \<or> j = i \<and> d \<in> p x" for j d
    using assms(2) by (auto simp: has_def proj_def inserted_def)
  moreover have "has q w' d j \<longleftrightarrow> has q w d j \<or> j = i \<and> d \<in> p x" for j d
    using assms(3-5) by (cases "sv_index w d") (auto simp: has_def proj_def updated_def)
  ultimately show ?thesis using assms(1) by (simp add: dual_def)
qed

lemma dual_insert:
  assumes "dual p v q w" "inserted i x v v'" "updated S u w w'" "every P w" "S = p x" "\<And>y. P y \<Longrightarrow> q (u y) = insert i (q y)"
  shows "dual p v' q w'"
  using assms by (auto intro: dual_insert_at simp: every_def)

definition grown :: "('a \<Rightarrow> 'b set) \<Rightarrow> 'a sparse_vec \<Rightarrow> 'a sparse_vec \<Rightarrow> bool" where
  "grown p v v' \<longleftrightarrow> (\<forall>i. sv_index v' i = sv_index v i \<or> sv_index v i = None \<and> (\<forall>x. sv_index v' i = Some x \<longrightarrow> p x = {}))"

lemma dual_grown: "dual p v q w \<Longrightarrow> grown p v v' \<Longrightarrow> dual p v' q w"
proof -
  assume "dual p v q w" "grown p v v'"
  moreover have "has p v' i x \<longleftrightarrow> has p v i x" for i x
    using \<open>grown p v v'\<close> [unfolded grown_def, rule_format, of i] by (cases "sv_index v i") (auto simp: has_def proj_def)
  ultimately show ?thesis by (simp add: dual_def)
qed

lemma grown_inserted: "inserted i x v v' \<Longrightarrow> p x = {} \<Longrightarrow> grown p v v'"
  by (simp add: grown_def inserted_def)

lemma dual_new: "dual p v q w \<Longrightarrow> inserted i x v v' \<Longrightarrow> p x = {} \<Longrightarrow> dual p v' q w"
  by (blast intro: dual_grown grown_inserted)

lemma dual_new_right: "dual p v q w \<Longrightarrow> inserted i x w w' \<Longrightarrow> q x = {} \<Longrightarrow> dual p v q w'"
  by (blast intro: dual_new dual_sym)

lemma dual_link:
  assumes "dual p v q w" "updated {i} u v v'" "every P v" "\<And>x. P x \<Longrightarrow> p (u x) = insert d (p x)"
    and "updated {d} t w w'" "every Q w" "\<And>y. Q y \<Longrightarrow> q (t y) = insert i (q y)"
  shows "dual p v' q w'"
proof -
  have "has p v' j e \<longleftrightarrow> has p v j e \<or> j = i \<and> e = d" for j e
    using assms(2-4) by (cases "sv_index v j") (auto simp: has_def proj_def updated_def every_def)
  moreover have "has q w' e j \<longleftrightarrow> has q w e j \<or> j = i \<and> e = d" for j e
    using assms(5-7) by (cases "sv_index w e") (auto simp: has_def proj_def updated_def every_def)
  ultimately show ?thesis using assms(1) by (simp add: dual_def)
qed

section \<open>Updates of several objects\<close>

lemma updated_one: "sv_wf v \<Longrightarrow> sv_update i u v = Some v' \<Longrightarrow> updated {i} u v v'"
  using sv.updD [of v i u v'] by (auto simp: updated_def)

lemma updated_none: "sv_wf v \<Longrightarrow> updated {} u v v"
  by (simp add: updated_def)

lemma updated_trans:
  assumes "updated S u v v'" "updated T u v' v''" "S \<inter> T = {}"
  shows "updated (S \<union> T) u v v''"
proof -
  have "sv_index v i \<noteq> None" if "i \<in> T" for i
  proof -
    have "i \<notin> S" using that assms(3) by blast
    then have "sv_index v' i = sv_index v i" using assms(1) by (simp add: updated_def)
    then show ?thesis using that assms(2) unfolding updated_def by metis
  qed
  moreover have "sv_index v'' i = (if i \<in> S \<union> T then map_option u (sv_index v i) else sv_index v i)" for i
    using assms by (auto simp: updated_def)
  ultimately show ?thesis using assms by (auto simp: updated_def)
qed

lemma fold_updates:
  assumes "fold_option (\<lambda>i. sv_update i u) is v = Some v'" "sv_wf v" "distinct is"
  shows "updated (set is) u v v'"
  using assms
proof (induction "is" arbitrary: v)
  case Nil
  then show ?case by (simp add: updated_none)
next
  case (Cons i "is")
  then obtain t where t: "sv_update i u v = Some t" "fold_option (\<lambda>i. sv_update i u) is t = Some v'" by (auto simp: bind_eq_Some_conv)
  have one: "updated {i} u v t" using Cons.prems(2) t(1) by (rule updated_one)
  then have "updated (set is) u t v'" using Cons.IH [OF t(2)] Cons.prems(3) by (simp add: updated_def)
  from updated_trans [OF one this] show ?case using Cons.prems(3) by simp
qed

lemma update_dims_fold:
  "fold_option (\<lambda>d. fn_update_dim d u) ds f = map_option (\<lambda>v. f\<lparr>b_dims := v\<rparr>) (fold_option (\<lambda>d. sv_update d u) ds (b_dims f))"
proof (induction ds arbitrary: f)
  case (Cons d ds)
  then show ?case by (cases "sv_update d u (b_dims f)") (auto simp: fn_update_dim_def comp_def)
qed simp

lemma update_variables_fold:
  "fold_option (\<lambda>d. fn_update_variable d u) ds f = map_option (\<lambda>v. f\<lparr>b_variables := v\<rparr>) (fold_option (\<lambda>d. sv_update d u) ds (b_variables f))"
proof (induction ds arbitrary: f)
  case (Cons d ds)
  then show ?case by (cases "sv_update d u (b_variables f)") (auto simp: fn_update_variable_def comp_def)
qed simp

lemma update_mappings_fold:
  "fold_option (\<lambda>d. fn_update_mapping d u) ds f = map_option (\<lambda>v. f\<lparr>b_dim_mappings := v\<rparr>) (fold_option (\<lambda>d. sv_update d u) ds (b_dim_mappings f))"
proof (induction ds arbitrary: f)
  case (Cons d ds)
  then show ?case by (cases "sv_update d u (b_dim_mappings f)") (auto simp: fn_update_mapping_def comp_def)
qed simp

text \<open>A hash container is enumerated in some order, without repetition.\<close>

definition is_order :: "(nat list \<Rightarrow> nat list) \<Rightarrow> bool" where
  "is_order iter \<longleftrightarrow> (\<forall>xs. mset (iter xs) = mset xs)"

lemma iter_fset: "is_order iter \<Longrightarrow> set (iter (sorted_list_of_fset s)) = fset s \<and> distinct (iter (sorted_list_of_fset s))"
  unfolding is_order_def
  by (metis mset_eq_setD mset_eq_imp_distinct_iff sorted_list_of_fset.rep_eq sorted_list_of_set.distinct_sorted_key_list_of_set
      sorted_list_of_set.set_sorted_key_list_of_set finite_fset)

section \<open>The invariant\<close>

definition dim_sets_ok :: "ir_dim \<Rightarrow> bool" where
  "dim_sets_ok d \<longleftrightarrow> vs_inv (d_mapped_dims d) \<and> vs_inv (d_inner_vars d) \<and> vs_inv (d_defined_vars d)"

definition inst_sets_ok :: "'l instruction \<Rightarrow> bool" where
  "inst_sets_ok i \<longleftrightarrow> vs_inv (i_used_vars i) \<and> vs_inv (i_defined_vars i)"

fun def_ok :: "ir_var_def \<Rightarrow> bool" where
  "def_ok (VD_Inst _) = True"
| "def_ok (VD_DimMap _ ms) = vs_inv ms"
| "def_ok (VD_Last _ ds) = vs_inv ds"

definition var_sets_ok :: "ir_variable \<Rightarrow> bool" where
  "var_sets_ok v \<longleftrightarrow> vs_inv (va_use_points v) \<and> vs_inv (va_dimensions v) \<and> vs_inv (va_def_points v)"

definition mp_ends :: "dim_mapping \<Rightarrow> nat set" where
  "mp_ends m = {fst (mp_dims m), snd (mp_dims m)}"

definition inst_uses :: "ir_variable \<Rightarrow> nat set" where
  "inst_uses v = {i. S_Inst i \<in> elems (va_use_points v)}"

definition inst_defs :: "ir_variable \<Rightarrow> nat set" where
  "inst_defs v = {i. S_Inst i \<in> elems (va_def_points v)}"

definition dim_defs :: "ir_variable \<Rightarrow> nat set" where
  "dim_defs v = {d. S_Dim d \<in> elems (va_def_points v)}"

text \<open>The instruction whose result is a variable.\<close>

definition result_of :: "ir_variable \<Rightarrow> nat set" where
  "result_of v = (case va_def v of VD_Inst i \<Rightarrow> {i} | _ \<Rightarrow> {})"

text \<open>The stores hold every object at its identifier.\<close>

definition stores_ok :: "'l ir_function \<Rightarrow> bool" where
  "stores_ok f \<longleftrightarrow> sv_wf (b_insts f) \<and> sv_wf (b_dims f) \<and> sv_wf (bm_blocks (b_mem_blocks f)) \<and> sv_wf (b_dim_mappings f) \<and> sv_wf (b_variables f)
     \<and> ids_ok i_id (b_insts f) \<and> ids_ok d_id (b_dims f) \<and> ids_ok bk_id (bm_blocks (b_mem_blocks f)) \<and> ids_ok mp_id (b_dim_mappings f)
     \<and> ids_ok va_id (b_variables f) \<and> every inst_sets_ok (b_insts f) \<and> every dim_sets_ok (b_dims f)
     \<and> every (\<lambda>m. vs_inv (mp_variables m)) (b_dim_mappings f) \<and> every var_sets_ok (b_variables f)"

text \<open>References agree in both directions: iteration dimensions, mappings, memory blocks, uses, definitions, dimensions and mappings of
  variables, and the variable that holds the result of an instruction.\<close>

definition refs_ok :: "'l ir_function \<Rightarrow> bool" where
  "refs_ok f \<longleftrightarrow> dual (\<lambda>i. fset (i_iter_dims i)) (b_insts f) (\<lambda>d. set (d_iterated d)) (b_dims f)
     \<and> dual mp_ends (b_dim_mappings f) (\<lambda>d. elems (d_mapped_dims d)) (b_dims f)
     \<and> dual (\<lambda>i. set_option (mem_used (i_operator i))) (b_insts f) (\<lambda>b. set (bk_uses b)) (bm_blocks (b_mem_blocks f))
     \<and> dual (\<lambda>i. elems (i_used_vars i)) (b_insts f) inst_uses (b_variables f)
     \<and> dual (\<lambda>v. elems (va_dimensions v)) (b_variables f) (\<lambda>d. elems (d_inner_vars d)) (b_dims f)
     \<and> dual (\<lambda>v. set (vd_mapped_dims (va_def v))) (b_variables f) (\<lambda>m. elems (mp_variables m)) (b_dim_mappings f)
     \<and> dual inst_defs (b_variables f) (\<lambda>i. elems (i_defined_vars i)) (b_insts f)
     \<and> dual dim_defs (b_variables f) (\<lambda>d. elems (d_defined_vars d)) (b_dims f)
     \<and> dual result_of (b_variables f) (\<lambda>i. set_option (i_variable i)) (b_insts f)"

text \<open>The lists of static dimensions, thread dimensions and memory instructions.\<close>

definition lists_ok :: "'l ir_function \<Rightarrow> bool" where
  "lists_ok f \<longleftrightarrow> distinct (b_static_dims f) \<and> vs_inv (b_thread_dims f) \<and> distinct (b_mem_insts f)
     \<and> (\<forall>d. d \<in> set (b_static_dims f) \<longleftrightarrow> proj (\<lambda>x. vs_is_empty (d_possible_sizes x)) (b_dims f) d = Some False)
     \<and> (\<forall>d. d \<in> elems (b_thread_dims f) \<longleftrightarrow> proj d_is_thread_dim (b_dims f) d = Some True)
     \<and> (\<forall>i. i \<in> set (b_mem_insts f) \<longleftrightarrow> proj (\<lambda>x. is_mem_access (i_operator x)) (b_insts f) i = Some True)"

text \<open>The layouts to lower are those that have no pair left to decide; only layouts have such pairs.\<close>

definition layouts_ok :: "'l ir_function \<Rightarrow> bool" where
  "layouts_ok f \<longleftrightarrow> distinct (b_layouts_to_lower f)
     \<and> (\<forall>m. m \<in> set (b_layouts_to_lower f) \<longleftrightarrow> m |\<in>| bm_layouts (b_mem_blocks f) \<and> proj bk_is_ready (bm_blocks (b_mem_blocks f)) m = Some True)
     \<and> (\<forall>m. m |\<in>| bm_layouts (b_mem_blocks f) \<longrightarrow> fn_block f m \<noteq> None)
     \<and> (\<forall>m. proj bk_is_ready (bm_blocks (b_mem_blocks f)) m = Some False \<longrightarrow> m |\<in>| bm_layouts (b_mem_blocks f))"

text \<open>A variable is only taken from variables that were created before it.\<close>

fun def_source :: "ir_var_def \<Rightarrow> nat list" where
  "def_source (VD_Inst _) = []"
| "def_source (VD_DimMap v _) = [v]"
| "def_source (VD_Last v _) = [v]"

definition defs_ordered :: "(nat \<rightharpoonup> ir_var_def) \<Rightarrow> bool" where
  "defs_ordered D \<longleftrightarrow> (\<forall>v def. D v = Some def \<longrightarrow> (\<forall>p \<in> set (def_source def). p < v \<and> D p \<noteq> None))"

definition vars_ok :: "'l ir_function \<Rightarrow> bool" where
  "vars_ok f \<longleftrightarrow> defs_ordered (proj va_def (b_variables f))"

definition kernel_ok :: "'l ir_function \<Rightarrow> bool" where
  "kernel_ok f \<longleftrightarrow> stores_ok f \<and> refs_ok f \<and> lists_ok f \<and> layouts_ok f \<and> vars_ok f"

lemmas kernel_ok_defs = kernel_ok_def stores_ok_def refs_ok_def lists_ok_def layouts_ok_def vars_ok_def

lemma kernel_ok_wf: "kernel_ok f \<Longrightarrow> sv_wf (b_insts f)" "kernel_ok f \<Longrightarrow> sv_wf (b_dims f)" "kernel_ok f \<Longrightarrow> sv_wf (bm_blocks (b_mem_blocks f))"
    "kernel_ok f \<Longrightarrow> sv_wf (b_dim_mappings f)" "kernel_ok f \<Longrightarrow> sv_wf (b_variables f)"
  by (simp_all add: kernel_ok_def stores_ok_def)

lemma fn_new_ok: "kernel_ok (fn_new s dev)"
  by (simp add: kernel_ok_defs defs_ordered_def fn_new_def sv_new_ok bm_default_def ids_ok_def every_def dual_def has_def proj_def vs_default_spec)

section \<open>New instructions\<close>

text \<open>A list of identifiers of the objects with a property, when an object is inserted or updated.\<close>

lemma listed_inserted:
  assumes "distinct xs" "\<forall>i. i \<in> set xs \<longleftrightarrow> proj p v i = Some b" "inserted j x v v'" "xs' = (if p x = b then xs @ [j] else xs)"
  shows "distinct xs' \<and> (\<forall>i. i \<in> set xs' \<longleftrightarrow> proj p v' i = Some b)"
proof -
  have "proj p v j = None" "proj p v' = (proj p v)(j \<mapsto> p x)" using assms(3) by (auto simp: proj_def inserted_def fun_eq_iff)
  then show ?thesis using assms(1,2,4) by auto
qed

lemma va_add_use_uses: "var_sets_ok v \<Longrightarrow> inst_uses (va_add_use (S_Inst i) v) = insert i (inst_uses v)"
  by (auto simp: var_sets_ok_def inst_uses_def va_add_use_def vs_insert_spec)

lemma va_add_use_ok: "var_sets_ok v \<Longrightarrow> var_sets_ok (va_add_use s v)"
  by (simp add: var_sets_ok_def va_add_use_def vs_insert_spec)

lemma va_add_use_keeps [simp]: "va_id (va_add_use s v) = va_id v" "va_dimensions (va_add_use s v) = va_dimensions v"
    "va_def (va_add_use s v) = va_def v" "inst_defs (va_add_use s v) = inst_defs v" "dim_defs (va_add_use s v) = dim_defs v"
    "result_of (va_add_use s v) = result_of v"
  by (simp_all add: va_add_use_def inst_defs_def dim_defs_def result_of_def)

lemma dim_add_iterated_keeps [simp]: "d_id (dim_add_iterated i d) = d_id d" "d_mapped_dims (dim_add_iterated i d) = d_mapped_dims d"
    "d_inner_vars (dim_add_iterated i d) = d_inner_vars d" "d_defined_vars (dim_add_iterated i d) = d_defined_vars d"
    "d_possible_sizes (dim_add_iterated i d) = d_possible_sizes d" "d_is_thread_dim (dim_add_iterated i d) = d_is_thread_dim d"
    "set (d_iterated (dim_add_iterated i d)) = insert i (set (d_iterated d))" "dim_sets_ok (dim_add_iterated i d) = dim_sets_ok d"
  by (simp_all add: dim_add_iterated_def dim_sets_ok_def)

lemma bk_add_use_keeps [simp]: "bk_id (bk_add_use i b) = bk_id b" "bk_is_ready (bk_add_use i b) = bk_is_ready b"
    "set (bk_uses (bk_add_use i b)) = insert i (set (bk_uses b))"
  by (simp_all add: bk_add_use_def bk_is_ready_def)

lemma insert_inst_ok:
  assumes ok: "kernel_ok f"
    and x: "inserted iid x (b_insts f) I" "i_id x = iid" "inst_sets_ok x" "elems (i_defined_vars x) = {}" "i_variable x = None"
    and D: "updated (fset (i_iter_dims x)) (dim_add_iterated iid) (b_dims f) D"
    and B: "updated (set_option (mem_used (i_operator x))) (bk_add_use iid) (bm_blocks (b_mem_blocks f)) B"
    and V: "updated (elems (i_used_vars x)) (va_add_use (S_Inst iid)) (b_variables f) V"
    and M: "M = (if is_mem_access (i_operator x) then b_mem_insts f @ [iid] else b_mem_insts f)"
  shows "kernel_ok (f\<lparr>b_dims := D, b_mem_blocks := (b_mem_blocks f)\<lparr>bm_blocks := B\<rparr>, b_variables := V, b_mem_insts := M, b_insts := I\<rparr>)"
proof -
  let ?f = "f\<lparr>b_dims := D, b_mem_blocks := (b_mem_blocks f)\<lparr>bm_blocks := B\<rparr>, b_variables := V, b_mem_insts := M, b_insts := I\<rparr>"
  have st: "stores_ok f" and rf: "refs_ok f" and ls: "lists_ok f" and ly: "layouts_ok f" and vr: "vars_ok f"
    using ok by (simp_all add: kernel_ok_def)
  have wf: "sv_wf I" "sv_wf D" "sv_wf B" "sv_wf V" using x(1) D B V by (simp_all add: inserted_def updated_def)
  have "stores_ok ?f"
    using st wf x D B V va_add_use_ok
    by (simp add: stores_ok_def ids_inserted [OF _ x(1)] every_inserted [OF _ x(1)] ids_updated [OF _ D] ids_updated [OF _ B] ids_updated [OF _ V]
        every_updated [OF _ D] every_updated [OF _ V])
  moreover have "refs_ok ?f"
  proof -
    have every: "every dim_sets_ok (b_dims f)" "every var_sets_ok (b_variables f)" using st by (simp_all add: stores_ok_def)
    have any: "every (\<lambda>_. True) v" for v :: "'c sparse_vec" by (simp add: every_def)
    have r: "dual (\<lambda>i. fset (i_iter_dims i)) I (\<lambda>d. set (d_iterated d)) D"
      "dual (\<lambda>i. set_option (mem_used (i_operator i))) I (\<lambda>b. set (bk_uses b)) B"
      "dual (\<lambda>i. elems (i_used_vars i)) I inst_uses V"
      using rf dual_insert [OF _ x(1) D every(1)] dual_insert [OF _ x(1) B any] dual_insert [OF _ x(1) V every(2)] va_add_use_uses
      by (simp_all add: refs_ok_def)
    show ?thesis using rf r x(4,5)
      by (auto simp: refs_ok_def intro!: dual_keep [OF _ V] dual_keep_right [OF _ D] dual_new_right [OF _ x(1)])
  qed
  moreover have "lists_ok ?f"
    using ls listed_inserted [OF _ _ x(1), of "b_mem_insts f" "\<lambda>x. is_mem_access (i_operator x)" True M] M
      proj_same [OF D, of "\<lambda>x. vs_is_empty (d_possible_sizes x)"] proj_same [OF D, of d_is_thread_dim] by (simp add: lists_ok_def)
  moreover have "layouts_ok ?f" using ly proj_same [OF B, of bk_is_ready] B by (simp add: layouts_ok_def updated_def)
  ultimately show ?thesis using vr proj_same [OF V, of va_def] by (simp add: kernel_ok_def vars_ok_def)
qed

lemma vs_distinct: "vs_inv s \<Longrightarrow> distinct (data s)"
  by (simp add: vs_inv_def strict_sorted_iff)

lemma register_use_updated:
  assumes "fn_register_use mem iid f = Some f'" "sv_wf (bm_blocks (b_mem_blocks f))"
  shows "\<exists>B. f' = f\<lparr>b_mem_blocks := (b_mem_blocks f)\<lparr>bm_blocks := B\<rparr>\<rparr> \<and> updated (set_option mem) (bk_add_use iid) (bm_blocks (b_mem_blocks f)) B"
proof (cases mem)
  case None
  then show ?thesis using assms by (intro exI [of _ "bm_blocks (b_mem_blocks f)"]) (simp add: fn_register_use_def updated_none)
next
  case (Some m)
  then show ?thesis using assms updated_one [OF assms(2)] by (auto simp: fn_register_use_def register_use_def)
qed

lemma register_inst_updates:
  assumes "register_inst iter iid x f = Some f'" "is_order iter" "stores_ok f" "inst_sets_ok x"
  shows "\<exists>D B V. f' = f\<lparr>b_dims := D, b_mem_blocks := (b_mem_blocks f)\<lparr>bm_blocks := B\<rparr>, b_variables := V,
        b_mem_insts := if is_mem_access (i_operator x) then b_mem_insts f @ [iid] else b_mem_insts f\<rparr>
    \<and> updated (fset (i_iter_dims x)) (dim_add_iterated iid) (b_dims f) D
    \<and> updated (set_option (mem_used (i_operator x))) (bk_add_use iid) (bm_blocks (b_mem_blocks f)) B
    \<and> updated (elems (i_used_vars x)) (va_add_use (S_Inst iid)) (b_variables f) V"
proof -
  let ?is = "iter (sorted_list_of_fset (i_iter_dims x))" and ?M = "if is_mem_access (i_operator x) then b_mem_insts f @ [iid] else b_mem_insts f"
  obtain D where d: "fold_option (\<lambda>d. sv_update d (dim_add_iterated iid)) ?is (b_dims f) = Some D"
    and r: "Option.bind (fn_register_use (mem_used (i_operator x)) iid (f\<lparr>b_dims := D, b_mem_insts := ?M\<rparr>))
      (fold_option (\<lambda>v. fn_update_variable v (va_add_use (S_Inst iid))) (data (i_used_vars x))) = Some f'"
    using assms(1) by (auto simp: register_inst_def update_dims_fold bind_eq_Some_conv Let_def split: if_splits)
  have D: "updated (fset (i_iter_dims x)) (dim_add_iterated iid) (b_dims f) D"
    using fold_updates [OF d] assms(3) iter_fset [OF assms(2)] by (simp add: stores_ok_def)
  obtain B V where B: "updated (set_option (mem_used (i_operator x))) (bk_add_use iid) (bm_blocks (b_mem_blocks f)) B"
    and v: "fold_option (\<lambda>v. sv_update v (va_add_use (S_Inst iid))) (data (i_used_vars x)) (b_variables f) = Some V"
    and f': "f' = f\<lparr>b_dims := D, b_mem_insts := ?M, b_mem_blocks := (b_mem_blocks f)\<lparr>bm_blocks := B\<rparr>, b_variables := V\<rparr>"
    using r assms(3) by (auto simp: bind_eq_Some_conv update_variables_fold stores_ok_def dest!: register_use_updated)
  have "updated (elems (i_used_vars x)) (va_add_use (S_Inst iid)) (b_variables f) V"
    using fold_updates [OF v] assms(3,4) by (simp add: stores_ok_def inst_sets_ok_def vs_distinct elems_def)
  with D B f' show ?thesis by (intro exI [of _ D] exI [of _ B] exI [of _ V]) simp
qed

lemma try_ok_Inr: "try_ok r f = Some (Inr y) \<longleftrightarrow> (\<exists>x. r = Some (Inr x) \<and> f x = Some (Inr y))"
  by (cases r) (auto simp: try_ok_def split: sum.splits)

lemma instruction_newD:
  assumes "instruction_new iter op iid dims f = Some (Inr x)"
  shows "i_id x = iid \<and> i_operator x = op \<and> i_iter_dims x = dims \<and> inst_sets_ok x \<and> elems (i_defined_vars x) = {} \<and> i_variable x = None"
  using assms by (auto simp: instruction_new_def try_ok_Inr inst_sets_ok_def vs_inv_new vs_default_spec)

lemma create_inst_ok:
  assumes ok: "kernel_ok f" and it: "is_order iter" and c: "create_inst iter iid op dims f = Some (Inr (x, f'))"
  shows "b_insts f' = b_insts f \<and> (inserted iid x (b_insts f) I \<longrightarrow> kernel_ok (f'\<lparr>b_insts := I\<rparr>))"
proof -
  have n: "instruction_new iter op iid dims f = Some (Inr x)" and r: "register_inst iter iid x f = Some f'"
    using c by (auto simp: create_inst_def try_ok_Inr)
  note x = instruction_newD [OF n]
  obtain D B V where u: "f' = f\<lparr>b_dims := D, b_mem_blocks := (b_mem_blocks f)\<lparr>bm_blocks := B\<rparr>, b_variables := V,
        b_mem_insts := if is_mem_access (i_operator x) then b_mem_insts f @ [iid] else b_mem_insts f\<rparr>"
    "updated (fset (i_iter_dims x)) (dim_add_iterated iid) (b_dims f) D"
    "updated (set_option (mem_used (i_operator x))) (bk_add_use iid) (bm_blocks (b_mem_blocks f)) B"
    "updated (elems (i_used_vars x)) (va_add_use (S_Inst iid)) (b_variables f) V"
    using register_inst_updates [OF r it] ok x by (auto simp: kernel_ok_def)
  show ?thesis using insert_inst_ok [OF ok _ _ _ _ _ u(2-4) HOL.refl, of I] u(1) x by (simp split del: if_split)
qed

section \<open>New mappings\<close>

definition dim_map_to :: "nat \<Rightarrow> ir_dim \<Rightarrow> ir_dim" where
  "dim_map_to mid d = d\<lparr>d_mapped_dims := snd (vs_insert (d_mapped_dims d) mid)\<rparr>"

lemma dim_map_to_keeps [simp]: "d_id (dim_map_to m d) = d_id d" "d_iterated (dim_map_to m d) = d_iterated d"
    "d_inner_vars (dim_map_to m d) = d_inner_vars d" "d_defined_vars (dim_map_to m d) = d_defined_vars d"
    "d_possible_sizes (dim_map_to m d) = d_possible_sizes d" "d_is_thread_dim (dim_map_to m d) = d_is_thread_dim d"
  by (simp_all add: dim_map_to_def)

lemma dim_map_to_ok: "dim_sets_ok d \<Longrightarrow> dim_sets_ok (dim_map_to m d) \<and> elems (d_mapped_dims (dim_map_to m d)) = insert m (elems (d_mapped_dims d))"
  by (simp add: dim_sets_ok_def dim_map_to_def vs_insert_spec)

lemma dim_map_to_twice: "dim_sets_ok d \<Longrightarrow> dim_map_to m (dim_map_to m d) = dim_map_to m d"
proof -
  assume "dim_sets_ok d"
  then have "snd (vs_insert (snd (vs_insert (d_mapped_dims d) m)) m) = snd (vs_insert (d_mapped_dims d) m)"
    by (intro vs_eqI) (simp_all add: dim_sets_ok_def vs_insert_spec)
  then show ?thesis by (simp add: dim_map_to_def)
qed

lemma register_mapping_updated:
  assumes "register_mapping m d f = Some f'" "sv_wf (b_dims f)"
  shows "\<exists>D. f' = f\<lparr>b_dims := D\<rparr> \<and> updated {d} (dim_map_to (mp_id m)) (b_dims f) D"
proof -
  obtain x y D where x: "fn_dim f d = Some x" "dim_register_mapping m x = Some y" "sv_update d (\<lambda>_. y) (b_dims f) = Some D" "f' = f\<lparr>b_dims := D\<rparr>"
    using assms(1) by (auto simp: register_mapping_def bind_eq_Some_conv)
  have "y = dim_map_to (mp_id m) x" using x(2) by (auto simp: dim_register_mapping_def dim_map_to_def Let_def split: if_splits)
  then show ?thesis using x(1,4) updated_one [OF assms(2) x(3)] by (auto simp: updated_def)
qed

lemma updated_again:
  assumes "updated S u v v'" "updated S u v' v''" "every P v" "\<And>x. P x \<Longrightarrow> u (u x) = u x"
  shows "updated S u v v''"
proof -
  have "sv_index v'' i = (if i \<in> S then map_option u (sv_index v i) else sv_index v i)" for i
    using assms by (cases "sv_index v i") (auto simp: updated_def every_def)
  then show ?thesis using assms(1,2) by (simp add: updated_def)
qed

lemma create_mapping_updated:
  assumes "create_mapping mid ds f = Some (m, f')" "stores_ok f"
  shows "m = mapping_new mid ds \<and> (\<exists>D. f' = f\<lparr>b_dims := D\<rparr> \<and> updated {fst ds, snd ds} (dim_map_to mid) (b_dims f) D)"
proof -
  have wf: "sv_wf (b_dims f)" and ev: "every dim_sets_ok (b_dims f)" using assms(2) by (simp_all add: stores_ok_def)
  obtain g where g: "m = mapping_new mid ds" "register_mapping m (fst ds) f = Some g" "register_mapping m (snd ds) g = Some f'"
    using assms(1) by (auto simp: create_mapping_def bind_eq_Some_conv Let_def)
  obtain D where D: "g = f\<lparr>b_dims := D\<rparr>" "updated {fst ds} (dim_map_to mid) (b_dims f) D"
    using register_mapping_updated [OF g(2) wf] g(1) by (auto simp: mapping_new_def)
  then have "sv_wf (b_dims g)" by (simp add: updated_def)
  then obtain E where E: "f' = f\<lparr>b_dims := E\<rparr>" "updated {snd ds} (dim_map_to mid) D E"
    using register_mapping_updated [OF g(3)] D(1) g(1) by (auto simp: mapping_new_def)
  have "updated {fst ds, snd ds} (dim_map_to mid) (b_dims f) E"
  proof (cases "fst ds = snd ds")
    case True
    then show ?thesis using updated_again [OF D(2) _ ev dim_map_to_twice] E(2) by simp
  next
    case False
    then show ?thesis using updated_trans [OF D(2) E(2)] by (simp add: insert_commute)
  qed
  then show ?thesis using g(1) E(1) by blast
qed

lemma insert_mapping_ok:
  assumes ok: "kernel_ok f" and m: "create_mapping mid ds f = Some (m, f')" and M: "inserted mid m (b_dim_mappings f) M"
  shows "kernel_ok (f'\<lparr>b_dim_mappings := M\<rparr>)"
proof -
  have st: "stores_ok f" and rf: "refs_ok f" and ls: "lists_ok f" and ly: "layouts_ok f" and vr: "vars_ok f"
    using ok by (simp_all add: kernel_ok_def)
  obtain D where D: "f' = f\<lparr>b_dims := D\<rparr>" "updated {fst ds, snd ds} (dim_map_to mid) (b_dims f) D" and x: "m = mapping_new mid ds"
    using create_mapping_updated [OF m st] by blast
  have sets: "mp_id m = mid" "vs_inv (mp_variables m)" "elems (mp_variables m) = {}" "mp_ends m = {fst ds, snd ds}"
    by (simp_all add: x mapping_new_def vs_default_spec mp_ends_def)
  have wf: "sv_wf D" "sv_wf M" using D(2) M by (simp_all add: inserted_def updated_def)
  have ev: "every dim_sets_ok (b_dims f)" using st by (simp add: stores_ok_def)
  have "stores_ok (f'\<lparr>b_dim_mappings := M\<rparr>)"
    using st wf sets dim_map_to_ok
    by (simp add: D(1) stores_ok_def ids_inserted [OF _ M] every_inserted [OF _ M] ids_updated [OF _ D(2)] every_updated [OF ev D(2)])
  moreover have "refs_ok (f'\<lparr>b_dim_mappings := M\<rparr>)"
  proof -
    have "dual mp_ends M (\<lambda>d. elems (d_mapped_dims d)) D"
      using rf dual_insert [OF _ M D(2) ev] sets dim_map_to_ok by (simp add: refs_ok_def)
    then show ?thesis using rf sets
      by (auto simp: D(1) refs_ok_def intro!: dual_keep_right [OF _ D(2)] dual_new_right [OF _ M])
  qed
  moreover have "lists_ok (f'\<lparr>b_dim_mappings := M\<rparr>)"
    using ls proj_same [OF D(2), of "\<lambda>x. vs_is_empty (d_possible_sizes x)"] proj_same [OF D(2), of d_is_thread_dim] by (simp add: D(1) lists_ok_def)
  moreover have "layouts_ok (f'\<lparr>b_dim_mappings := M\<rparr>)" using ly by (simp add: D(1) layouts_ok_def)
  ultimately show ?thesis using vr by (simp add: kernel_ok_def vars_ok_def D(1))
qed

lemma create_mapping_keeps: "create_mapping mid ds f = Some (m, f') \<Longrightarrow> b_dim_mappings f' = b_dim_mappings f"
  by (auto simp: create_mapping_def register_mapping_def bind_eq_Some_conv Let_def)

lemma push_len: "sv_push x v = Some v' \<Longrightarrow> sv_len v' = Suc (sv_len v)"
  by (auto simp: sv_push_def sv_len_def sv_make_holes_def Let_def split: if_splits)

lemma map_dimensions_cases:
  assumes "map_dimensions ds f = Some (mid, f')"
  shows "f' = f \<or> (\<exists>m g M. create_mapping (as_u16 (sv_len (b_dim_mappings f))) ds f = Some (m, g) \<and> sv_push m (b_dim_mappings f) = Some M
    \<and> f' = g\<lparr>b_dim_mappings := M\<rparr> \<and> sv_len M = Suc (sv_len (b_dim_mappings f)))"
proof (cases "find_mapping f (fst ds) (snd ds) = Some None")
  case True
  then obtain m g M where g: "create_mapping (as_u16 (sv_len (b_dim_mappings f))) ds f = Some (m, g)" "sv_push m (b_dim_mappings g) = Some M"
    "f' = g\<lparr>b_dim_mappings := M\<rparr>" using assms by (auto simp: map_dimensions_def bind_eq_Some_conv Let_def)
  then show ?thesis using create_mapping_keeps [OF g(1)] push_len [OF g(2)] by auto
next
  case False
  then show ?thesis using assms by (auto simp: map_dimensions_def bind_eq_Some_conv split: option.splits)
qed

lemma map_dimensions_ok:
  assumes "kernel_ok f" "map_dimensions ds f = Some (mid, f')" "sv_len (b_dim_mappings f') \<le> 2 ^ 16"
  shows "kernel_ok f'"
  using map_dimensions_cases [OF assms(2)]
proof
  let ?mid = "sv_len (b_dim_mappings f)"
  assume "\<exists>m g M. create_mapping (as_u16 ?mid) ds f = Some (m, g) \<and> sv_push m (b_dim_mappings f) = Some M
    \<and> f' = g\<lparr>b_dim_mappings := M\<rparr> \<and> sv_len M = Suc ?mid"
  then obtain m g M where g: "create_mapping (as_u16 ?mid) ds f = Some (m, g)" "sv_push m (b_dim_mappings f) = Some M"
    "f' = g\<lparr>b_dim_mappings := M\<rparr>" "sv_len M = Suc ?mid" by blast
  have mid: "as_u16 ?mid = ?mid" using assms(3) g(3,4) by (simp add: as_u16_def)
  show ?thesis
    using insert_mapping_ok [OF assms(1) g(1) [unfolded mid]] inserted_push [OF _ g(2)] kernel_ok_wf [OF assms(1)] g(3) by simp
qed (use assms(1) in simp)

lemma map_operand_dims_ok:
  assumes "kernel_ok f" "map_operand_dims op f = Some f'" "sv_len (b_dim_mappings f') \<le> 2 ^ 16"
  shows "kernel_ok f'"
proof -
  have "sv_len (b_dim_mappings f) \<le> sv_len (b_dim_mappings f') \<and> (kernel_ok f \<longrightarrow> sv_len (b_dim_mappings f') \<le> 2 ^ 16 \<longrightarrow> kernel_ok f')"
    if "fold_option (\<lambda>pair f. map_option snd (map_dimensions pair f)) ps f = Some f'" for ps
    using that
  proof (induction ps arbitrary: f)
    case (Cons p ps)
    then obtain mid g where g: "map_dimensions p f = Some (mid, g)" "fold_option (\<lambda>pair f. map_option snd (map_dimensions pair f)) ps g = Some f'"
      by (auto simp: bind_eq_Some_conv)
    then show ?case using Cons.IH [OF g(2)] map_dimensions_cases [OF g(1)] map_dimensions_ok [of f p mid g] by auto
  qed simp
  then show ?thesis using assms by (auto simp: map_operand_dims_def)
qed

section \<open>New dimensions\<close>

definition fresh_dim :: "ir_dim \<Rightarrow> bool" where
  "fresh_dim d \<longleftrightarrow> d_iterated d = [] \<and> \<not> d_is_thread_dim d \<and> d_mapped_dims d = vs_default \<and> d_inner_vars d = vs_default \<and> d_defined_vars d = vs_default"

definition dims_grown :: "ir_dim sparse_vec \<Rightarrow> ir_dim sparse_vec \<Rightarrow> bool" where
  "dims_grown v v' \<longleftrightarrow> sv_wf v' \<and> (\<forall>i. sv_index v' i = sv_index v i
     \<or> sv_index v i = None \<and> (\<forall>x. sv_index v' i = Some x \<longrightarrow> fresh_dim x \<and> d_id x = i))"

lemma dims_grownD: "dims_grown v v' \<Longrightarrow> sv_index v' i = Some x \<Longrightarrow> sv_index v i = Some x \<or> fresh_dim x \<and> d_id x = i"
  by (metis dims_grown_def)

lemma dual_dims_grown: "dual p w q v \<Longrightarrow> dims_grown v v' \<Longrightarrow> (\<And>x. fresh_dim x \<Longrightarrow> q x = {}) \<Longrightarrow> dual p w q v'"
  by (rule dual_sym, rule dual_grown, erule dual_sym) (auto simp: grown_def dims_grown_def)

lemma grow_dims_ok:
  assumes ok: "kernel_ok f" and D: "dims_grown (b_dims f) D"
    and S: "distinct S" "\<forall>d. d \<in> set S \<longleftrightarrow> proj (\<lambda>x. vs_is_empty (d_possible_sizes x)) D d = Some False"
  shows "kernel_ok (f\<lparr>b_static_dims := S, b_dims := D\<rparr>)"
proof -
  have st: "stores_ok f" and rf: "refs_ok f" and ls: "lists_ok f" and ly: "layouts_ok f" and vr: "vars_ok f"
    using ok by (simp_all add: kernel_ok_def)
  have "ids_ok d_id D" using st dims_grownD [OF D] by (fastforce simp: stores_ok_def ids_ok_def)
  moreover have "every dim_sets_ok D"
    using st dims_grownD [OF D] by (fastforce simp: stores_ok_def every_def fresh_dim_def dim_sets_ok_def vs_default_spec)
  moreover have "sv_wf D" using D by (simp add: dims_grown_def)
  ultimately have "stores_ok (f\<lparr>b_static_dims := S, b_dims := D\<rparr>)" using st by (simp add: stores_ok_def)
  moreover have "refs_ok (f\<lparr>b_static_dims := S, b_dims := D\<rparr>)"
    using rf by (auto simp: refs_ok_def fresh_dim_def vs_default_spec intro!: dual_dims_grown [OF _ D])
  moreover have "proj d_is_thread_dim D d = Some True \<longleftrightarrow> proj d_is_thread_dim (b_dims f) d = Some True" for d
    using D [unfolded dims_grown_def, THEN conjunct2, rule_format, of d] by (cases "fn_dim f d") (auto simp: proj_def fresh_dim_def)
  with ls S have "lists_ok (f\<lparr>b_static_dims := S, b_dims := D\<rparr>)" by (simp add: lists_ok_def)
  moreover have "layouts_ok (f\<lparr>b_static_dims := S, b_dims := D\<rparr>)" using ly by (simp add: layouts_ok_def)
  ultimately show ?thesis using vr by (simp add: kernel_ok_def vars_ok_def)
qed

lemma dim_new_fresh: "dim_new did sz l = Inr d \<Longrightarrow> fresh_dim d \<and> d_id d = did"
  by (auto simp: dim_new_def dim_with_def fresh_dim_def split: option.splits if_splits)

lemma dim_new_static_fresh: "dim_new_static did sizes l = Inr d \<Longrightarrow> fresh_dim d \<and> d_id d = did"
  by (auto simp: dim_new_static_def dim_with_def fresh_dim_def split: if_splits)

lemma dim_with_same_size_fresh: "dim_with_same_size did other = Some d \<Longrightarrow> fresh_dim d \<and> d_id d = did"
  by (auto simp: dim_with_same_size_def dim_new_fresh dim_new_static_fresh split: sum.splits if_splits)

lemma outer_dim_fresh: "outer_dim lid ids sz t = Some (Inr (d, l)) \<Longrightarrow> fresh_dim d \<and> d_id d = hd ids"
  by (auto simp: outer_dim_def bind_eq_Some_conv dest: dim_new_fresh dim_new_static_fresh split: option.splits)

lemma tile_dims_fresh: "tile_dims lid ts = Inr ds \<Longrightarrow> list_all fresh_dim ds \<and> map d_id ds = map fst ts"
  by (induction lid ts arbitrary: ds rule: tile_dims.induct) (auto dest: dim_new_static_fresh)

text \<open>A logical dimension adds consecutive dimensions.\<close>

lemma extend_dims_grown:
  assumes "sv_wf v" "sv_extend ds v = Some v'" "list_all fresh_dim ds" "map d_id ds = [sv_len v..<sv_len v + length ds]"
  shows "dims_grown v v' \<and> sv_full v \<and> sv_full v'"
proof -
  have full: "sv_full v" using assms(1,2) by (auto simp: sv_extend_def sv_make_holes_def sv_wf_def sv_full_def Let_def split: if_splits)
  note e = sv_extend_ok [OF assms(1) full, of ds]
  have ids: "d_id (ds ! k) = sv_len v + k" if "k < length ds" for k
    using arg_cong [OF assms(4), of "\<lambda>xs. xs ! k"] that by simp
  have "sv_index v' i = sv_index v i \<or> sv_index v i = None \<and> (\<forall>x. sv_index v' i = Some x \<longrightarrow> fresh_dim x \<and> d_id x = i)" for i
  proof (cases "i < sv_len v")
    case False
    then have "sv_index v i = None" using sv.lookup_cap [OF assms(1), of i] by (cases "sv_index v i") auto
    then show ?thesis using e assms(2,3) False ids [of "i - sv_len v"] by (auto simp: list_all_length)
  qed (use e assms(2) in auto)
  then show ?thesis using e assms(2) full by (auto simp: dims_grown_def)
qed

lemma distinct_map_subset: "distinct (map f xs) \<Longrightarrow> distinct (map f (filter P xs))"
  by (induction xs) auto

lemma extend_listed:
  assumes "sv_wf v" "sv_extend ds v = Some v'" "map k ds = [sv_len v..<sv_len v + length ds]" "distinct xs" "\<forall>i. i \<in> set xs \<longleftrightarrow> proj p v i = Some b"
  shows "distinct (xs @ map k (filter (\<lambda>d. p d = b) ds)) \<and> (\<forall>i. i \<in> set (xs @ map k (filter (\<lambda>d. p d = b) ds)) \<longleftrightarrow> proj p v' i = Some b)"
proof -
  let ?new = "map k (filter (\<lambda>d. p d = b) ds)"
  have full: "sv_full v" using assms(1,2) by (auto simp: sv_extend_def sv_make_holes_def sv_wf_def sv_full_def Let_def split: if_splits)
  have index: "sv_index v' i = (if i < sv_len v then sv_index v i else if i < sv_len v + length ds then Some (ds ! (i - sv_len v)) else None)" for i
    using sv_extend_ok [OF assms(1) full, of ds] assms(2) by auto
  have ids: "k (ds ! j) = sv_len v + j" if "j < length ds" for j using arg_cong [OF assms(3), of "\<lambda>xs. xs ! j"] that by simp
  have old: "i < sv_len v" if "i \<in> set xs" for i using that assms(5) sv.lookup_cap [OF assms(1), of i] by (auto simp: proj_def)
  have fresh: "i \<in> set ?new \<longleftrightarrow> (\<exists>j < length ds. i = sv_len v + j \<and> p (ds ! j) = b)" for i
    using ids by (auto simp: in_set_conv_nth image_iff)
  have "i \<in> set (xs @ ?new) \<longleftrightarrow> proj p v' i = Some b" for i
  proof (cases "i < sv_len v")
    case True
    then show ?thesis using assms(5) fresh [of i] by (auto simp: proj_def index)
  next
    case False
    then have "i \<in> set ?new \<longleftrightarrow> proj p v' i = Some b" unfolding fresh by (auto simp: proj_def index intro!: exI [of _ "i - sv_len v"])
    then show ?thesis using False old by auto
  qed
  moreover have "distinct ?new" using assms(3) by (intro distinct_map_subset) simp
  moreover have "set xs \<inter> set ?new = {}" using old fresh by fastforce
  ultimately show ?thesis using assms(4) by simp
qed

lemma add_logical_dim_ok:
  assumes ok: "kernel_ok f" and a: "add_logical_dim sz tf tiles f = Some (Inr (lid, ids, f'))" and n: "sv_len (b_dims f) + length tiles < 2 ^ 32"
  shows "kernel_ok f'"
proof -
  have st: "stores_ok f" and ls: "lists_ok f" using ok by (simp_all add: kernel_ok_def)
  then have wf: "sv_wf (b_dims f)" by (simp add: stores_ok_def)
  let ?n = "sv_len (b_dims f)" and ?e = "\<lambda>x. vs_is_empty (d_possible_sizes x)"
  define dim_ids where "dim_ids = [?n..<Suc (?n + length tiles)]"
  have "map (\<lambda>k. as_u32 (k + ?n)) [0..<Suc (length tiles)] = dim_ids"
    using n by (intro nth_equalityI) (auto simp: dim_ids_def as_u32_def nth_append)
  then obtain d l ds D where u: "outer_dim (as_u32 (length (b_logical_dims f))) dim_ids sz tf = Some (Inr (d, l))"
    "tile_dims (as_u32 (length (b_logical_dims f))) (zip (tl dim_ids) tiles) = Inr ds" "sv_extend (d # ds) (b_dims f) = Some D"
    "f' = f\<lparr>b_static_dims := b_static_dims f @ map d_id (filter (\<lambda>d. dim_possible_sizes d \<noteq> None) (d # ds)),
             b_dims := D, b_logical_dims := b_logical_dims f @ [l]\<rparr>"
    using a by (auto simp: add_logical_dim_def Let_def try_ok_Inr bind_eq_Some_conv simp del: upt_Suc)
  let ?S = "b_static_dims f @ map d_id (filter (\<lambda>d. dim_possible_sizes d \<noteq> None) (d # ds))"
  have len: "length (tl dim_ids) = length tiles" by (simp add: dim_ids_def del: upt_Suc)
  have ids: "map d_id (d # ds) = dim_ids" and fresh: "list_all fresh_dim (d # ds)"
    using outer_dim_fresh [OF u(1)] tile_dims_fresh [OF u(2)] len by (simp_all add: dim_ids_def upt_rec [of ?n])
  have lends: "length ds = length tiles" using arg_cong [OF ids, of length] by (simp add: dim_ids_def del: upt_Suc)
  have D: "dims_grown (b_dims f) D" "sv_full (b_dims f)"
    using extend_dims_grown [OF wf u(3) fresh] ids lends by (simp_all add: dim_ids_def del: upt_Suc)
  have "distinct ?S \<and> (\<forall>i. i \<in> set ?S \<longleftrightarrow> proj ?e D i = Some False)"
  proof -
    have "filter (\<lambda>d. dim_possible_sizes d \<noteq> None) (d # ds) = filter (\<lambda>x. ?e x = False) (d # ds)"
      by (rule filter_cong) (simp_all add: dim_possible_sizes_def)
    moreover have "map d_id (d # ds) = [?n..<?n + length (d # ds)]" using ids lends by (simp add: dim_ids_def del: upt_Suc)
    ultimately show ?thesis using extend_listed [OF wf u(3), of d_id "b_static_dims f" ?e False] ls by (simp only: lists_ok_def) blast
  qed
  then have "kernel_ok (f\<lparr>b_static_dims := ?S, b_dims := D\<rparr>)" using grow_dims_ok [OF ok D(1)] by blast
  then show ?thesis by (simp add: u(4) kernel_ok_defs)
qed

section \<open>Memory blocks\<close>

text \<open>A new block is not used yet.\<close>

lemma create_block_new:
  assumes "create_block bid sz mm bm = Some (b, bm')"
  shows "bk_id b = bid \<and> bk_uses b = [] \<and> bk_is_ready b = (mm = None)
    \<and> bm' = bm\<lparr>bm_layouts := if mm = None then bm_layouts bm else finsert bid (bm_layouts bm)\<rparr>"
  using assms by (auto simp: create_block_def Let_def bk_is_ready_def split: option.splits if_splits)

lemma insert_block_ok:
  assumes ok: "kernel_ok f" and c: "create_block bid sz mm (b_mem_blocks f) = Some (b, bm)" and B: "inserted bid b (bm_blocks bm) B"
  shows "kernel_ok (f\<lparr>b_mem_blocks := bm\<lparr>bm_blocks := B\<rparr>\<rparr>)"
proof -
  let ?f = "f\<lparr>b_mem_blocks := bm\<lparr>bm_blocks := B\<rparr>\<rparr>"
  have st: "stores_ok f" and rf: "refs_ok f" and ls: "lists_ok f" and ly: "layouts_ok f" and vr: "vars_ok f"
    using ok by (simp_all add: kernel_ok_def)
  note b = create_block_new [OF c]
  have I: "inserted bid b (bm_blocks (b_mem_blocks f)) B" using B b by simp
  have free: "bid |\<notin>| bm_layouts (b_mem_blocks f)" using ly I by (auto simp: layouts_ok_def inserted_def)
  have "stores_ok ?f" using st b I by (simp add: stores_ok_def ids_inserted [OF _ I]) (simp add: inserted_def)
  moreover have "refs_ok ?f" using rf b by (auto simp: refs_ok_def intro: dual_new_right [OF _ I])
  moreover have "lists_ok ?f" using ls by (simp add: lists_ok_def)
  moreover have "layouts_ok ?f"
  proof -
    have "proj bk_is_ready B = (proj bk_is_ready (bm_blocks (b_mem_blocks f)))(bid \<mapsto> (mm = None))" "fn_block f bid = None"
      using I b by (auto simp: inserted_def proj_def fun_eq_iff)
    moreover have "sv_index B m \<noteq> None \<longleftrightarrow> m = bid \<or> fn_block f m \<noteq> None" for m using I by (simp add: inserted_def)
    ultimately show ?thesis using ly b free by (auto simp: layouts_ok_def)
  qed
  ultimately show ?thesis using vr by (simp add: kernel_ok_def vars_ok_def)
qed

lemma add_mem_block_ok:
  assumes "kernel_ok f" "add_mem_block sz f = Some (mem, f')" "sv_len (bm_blocks (b_mem_blocks f)) < 2 ^ 32"
  shows "kernel_ok f'"
proof -
  let ?n = "sv_len (bm_blocks (b_mem_blocks f))"
  have n: "as_u32 ?n = ?n" using assms(3) by (simp add: as_u32_def)
  obtain b bm B where u: "create_block ?n sz None (b_mem_blocks f) = Some (b, bm)" "sv_push b (bm_blocks bm) = Some B"
    "f' = f\<lparr>b_mem_blocks := bm\<lparr>bm_blocks := B\<rparr>\<rparr>"
    using assms(2) by (auto simp: add_mem_block_def alloc_block_def bind_eq_Some_conv n Let_def)
  have "bm_blocks bm = bm_blocks (b_mem_blocks f)" using create_block_new [OF u(1)] by simp
  then have "inserted ?n b (bm_blocks bm) B" using inserted_push [OF _ u(2)] assms(1) by (simp add: kernel_ok_def stores_ok_def)
  from insert_block_ok [OF assms(1) u(1) this] show ?thesis by (simp add: u(3))
qed

lemma set_lazy_tmp_ok:
  assumes "kernel_ok f" "set_lazy_tmp bid t dims (b_mem_blocks f) = Some bm'"
  shows "kernel_ok (f\<lparr>b_mem_blocks := bm'\<rparr>)"
proof -
  obtain len b bm B where u: "create_block bid len (Some dims) (b_mem_blocks f) = Some (b, bm)" "sv_set_lazy bid b (bm_blocks bm) = Some B"
    "bm' = bm\<lparr>bm_blocks := B\<rparr>"
    using assms(2) by (auto simp: set_lazy_tmp_def bind_eq_Some_conv)
  have "bm_blocks bm = bm_blocks (b_mem_blocks f)" using create_block_new [OF u(1)] by simp
  then have "inserted bid b (bm_blocks bm) B" using inserted_set_lazy [OF _ u(2)] assms(1) by (simp add: kernel_ok_def stores_ok_def)
  from insert_block_ok [OF assms(1) u(1) this] show ?thesis by (simp add: u(3))
qed

section \<open>Building instructions and dimensions\<close>

lemma create_inst_keeps: "create_inst iter iid op dims f = Some (Inr (x, f')) \<Longrightarrow> b_dim_mappings f' = b_dim_mappings f"
  by (auto simp: create_inst_def try_ok_Inr register_inst_def update_dims_fold update_variables_fold fn_register_use_def bind_eq_Some_conv Let_def
      split: option.splits if_splits)

lemma add_inst_ok:
  assumes ok: "kernel_ok f" and it: "is_order iter" and a: "add_inst iter op dims f = Some (r, f')"
    and n: "sv_len (b_dim_mappings f') \<le> 2 ^ 16" "sv_len (b_insts f') \<le> 2 ^ 32"
  shows "kernel_ok f'"
proof -
  obtain g where g: "map_operand_dims op f = Some g" using a by (auto simp: add_inst_def bind_eq_Some_conv)
  let ?c = "create_inst iter (as_u32 (sv_len (b_insts g))) op dims g"
  consider (refused) e where "?c = Some (Inl e)" "f' = g"
    | (added) x h I where "?c = Some (Inr (x, h))" "sv_push x (b_insts h) = Some I" "f' = h\<lparr>b_insts := I\<rparr>"
    using a g by (cases ?c; cases "the ?c") (auto simp: add_inst_def bind_eq_Some_conv Let_def)
  then show ?thesis
  proof cases
    case refused
    then show ?thesis using map_operand_dims_ok [OF ok g] n by simp
  next
    case added
    have ok': "kernel_ok g" using map_operand_dims_ok [OF ok g] n added(3) create_inst_keeps [OF added(1)] by simp
    have insts: "b_insts h = b_insts g" using create_inst_ok [OF ok' it added(1)] by simp
    then have "as_u32 (sv_len (b_insts g)) = sv_len (b_insts g)" using push_len [OF added(2)] n(2) added(3) by (simp add: as_u32_def)
    then show ?thesis using create_inst_ok [OF ok' it added(1), of I] inserted_push [of "b_insts g" x I] added(2,3) insts kernel_ok_wf [OF ok']
      by simp
  qed
qed

lemma set_iteration_dim_ok:
  assumes ok: "kernel_ok f" and s: "set_iteration_dim iid d f = Some (added, f')"
  shows "kernel_ok f'"
proof (cases added)
  case True
  then obtain I D where u: "sv_update iid (add_iteration_dimension d) (b_insts f) = Some I" "sv_update d (dim_add_iterated iid) (b_dims f) = Some D"
    "f' = f\<lparr>b_insts := I, b_dims := D\<rparr>"
    using s by (auto simp: set_iteration_dim_def bind_eq_Some_conv fn_update_inst_def fn_update_dim_def split: if_splits)
  have I: "updated {iid} (add_iteration_dimension d) (b_insts f) I" and D: "updated {d} (dim_add_iterated iid) (b_dims f) D"
    using u kernel_ok_wf [OF ok] by (simp_all add: updated_one)
  have st: "stores_ok f" and rf: "refs_ok f" and ls: "lists_ok f" and ly: "layouts_ok f" and vr: "vars_ok f"
    using ok by (simp_all add: kernel_ok_def)
  have keep [simp]: "i_id (add_iteration_dimension d x) = i_id x" "i_operator (add_iteration_dimension d x) = i_operator x"
    "i_used_vars (add_iteration_dimension d x) = i_used_vars x" "i_defined_vars (add_iteration_dimension d x) = i_defined_vars x"
    "i_variable (add_iteration_dimension d x) = i_variable x" "inst_sets_ok (add_iteration_dimension d x) = inst_sets_ok x"
    for x :: "'a instruction" by (simp_all add: add_iteration_dimension_def inst_sets_ok_def)
  have "stores_ok f'" using st I D
    by (simp add: u(3) stores_ok_def ids_updated [OF _ I] every_updated [OF _ I] ids_updated [OF _ D] every_updated [OF _ D]) (simp add: updated_def)
  moreover have "refs_ok f'"
  proof -
    have any: "every (\<lambda>_. True) v" for v :: "'c sparse_vec" by (simp add: every_def)
    have "dual (\<lambda>i. fset (i_iter_dims i)) I (\<lambda>d. set (d_iterated d)) D"
      using rf dual_link [OF _ I any _ D any, of "\<lambda>i. fset (i_iter_dims i)" "\<lambda>d. set (d_iterated d)"]
      by (simp add: refs_ok_def add_iteration_dimension_def)
    then show ?thesis using rf by (auto simp: u(3) refs_ok_def intro!: dual_keep [OF _ I] dual_keep_right [OF _ D] dual_keep_right [OF _ I])
  qed
  moreover have "lists_ok f'"
    using ls proj_same [OF D, of "\<lambda>x. vs_is_empty (d_possible_sizes x)"] proj_same [OF D, of d_is_thread_dim]
      proj_same [OF I, of "\<lambda>x. is_mem_access (i_operator x)"] by (simp add: u(3) lists_ok_def)
  moreover have "layouts_ok f'" using ly by (simp add: u(3) layouts_ok_def)
  ultimately show ?thesis using vr by (simp add: kernel_ok_def vars_ok_def u(3))
next
  case False
  then show ?thesis using s ok by (auto simp: set_iteration_dim_def bind_eq_Some_conv split: if_splits)
qed

lemma add_thread_dim_ok:
  assumes ok: "kernel_ok f" and s: "add_thread_dim d f = Some (added, f')"
  shows "kernel_ok f'"
proof -
  obtain D where u: "sv_update d dim_set_thread_dim (b_dims f) = Some D" "f' = f\<lparr>b_dims := D, b_thread_dims := snd (vs_insert (b_thread_dims f) d)\<rparr>"
    using s by (auto simp: add_thread_dim_def bind_eq_Some_conv fn_update_dim_def Let_def case_prod_beta)
  have D: "updated {d} dim_set_thread_dim (b_dims f) D" using u(1) kernel_ok_wf [OF ok] by (simp add: updated_one)
  have st: "stores_ok f" and rf: "refs_ok f" and ls: "lists_ok f" and ly: "layouts_ok f" and vr: "vars_ok f"
    using ok by (simp_all add: kernel_ok_def)
  have keep [simp]: "d_id (dim_set_thread_dim x) = d_id x" "d_iterated (dim_set_thread_dim x) = d_iterated x"
    "d_mapped_dims (dim_set_thread_dim x) = d_mapped_dims x" "d_inner_vars (dim_set_thread_dim x) = d_inner_vars x"
    "d_defined_vars (dim_set_thread_dim x) = d_defined_vars x" "d_possible_sizes (dim_set_thread_dim x) = d_possible_sizes x"
    "dim_sets_ok (dim_set_thread_dim x) = dim_sets_ok x" for x by (simp_all add: dim_set_thread_dim_def dim_sets_ok_def)
  have "stores_ok f'" using st D by (simp add: u(2) stores_ok_def ids_updated [OF _ D] every_updated [OF _ D]) (simp add: updated_def)
  moreover have "refs_ok f'" using rf by (auto simp: u(2) refs_ok_def intro!: dual_keep_right [OF _ D])
  moreover have "proj d_is_thread_dim D e = (if e = d then Some True else proj d_is_thread_dim (b_dims f) e)" for e
    using D by (auto simp: proj_def updated_def dim_set_thread_dim_def)
  then have "lists_ok f'"
    using ls proj_same [OF D, of "\<lambda>x. vs_is_empty (d_possible_sizes x)"] by (simp add: u(2) lists_ok_def vs_insert_spec)
  moreover have "layouts_ok f'" using ly by (simp add: u(2) layouts_ok_def)
  ultimately show ?thesis using vr by (simp add: kernel_ok_def vars_ok_def u(2))
qed

section \<open>Variables\<close>

definition set_result :: "nat \<Rightarrow> 'l instruction \<Rightarrow> 'l instruction" where
  "set_result v i = i\<lparr>i_variable := Some v\<rparr>"

lemma set_result_keeps [simp]: "i_id (set_result v i) = i_id i" "i_operator (set_result v i) = i_operator i" "i_iter_dims (set_result v i) = i_iter_dims i"
    "i_used_vars (set_result v i) = i_used_vars i" "i_defined_vars (set_result v i) = i_defined_vars i" "inst_sets_ok (set_result v i) = inst_sets_ok i"
  by (simp_all add: set_result_def inst_sets_ok_def)

lemma inst_register_keeps [simp]: "i_id (inst_register_defined_var v i) = i_id i" "i_operator (inst_register_defined_var v i) = i_operator i"
    "i_iter_dims (inst_register_defined_var v i) = i_iter_dims i" "i_used_vars (inst_register_defined_var v i) = i_used_vars i"
    "i_variable (inst_register_defined_var v i) = i_variable i"
  by (simp_all add: inst_register_defined_var_def)

lemma dim_register_keeps [simp]: "d_id (dim_register_defined_var v d) = d_id d" "d_iterated (dim_register_defined_var v d) = d_iterated d"
    "d_mapped_dims (dim_register_defined_var v d) = d_mapped_dims d" "d_inner_vars (dim_register_defined_var v d) = d_inner_vars d"
    "d_possible_sizes (dim_register_defined_var v d) = d_possible_sizes d" "d_is_thread_dim (dim_register_defined_var v d) = d_is_thread_dim d"
    "d_id (dim_register_inner_var v d) = d_id d" "d_iterated (dim_register_inner_var v d) = d_iterated d"
    "d_mapped_dims (dim_register_inner_var v d) = d_mapped_dims d" "d_defined_vars (dim_register_inner_var v d) = d_defined_vars d"
    "d_possible_sizes (dim_register_inner_var v d) = d_possible_sizes d" "d_is_thread_dim (dim_register_inner_var v d) = d_is_thread_dim d"
    "mp_id (mapping_register_user v m) = mp_id m" "mp_dims (mapping_register_user v m) = mp_dims m" "mp_ends (mapping_register_user v m) = mp_ends m"
  by (simp_all add: dim_register_defined_var_def dim_register_inner_var_def mapping_register_user_def mp_ends_def)

lemma register_ok:
  "inst_sets_ok i \<Longrightarrow> inst_sets_ok (inst_register_defined_var v i) \<and> elems (i_defined_vars (inst_register_defined_var v i)) = insert v (elems (i_defined_vars i))"
  "dim_sets_ok d \<Longrightarrow> dim_sets_ok (dim_register_defined_var v d) \<and> elems (d_defined_vars (dim_register_defined_var v d)) = insert v (elems (d_defined_vars d))"
  "dim_sets_ok d \<Longrightarrow> dim_sets_ok (dim_register_inner_var v d) \<and> elems (d_inner_vars (dim_register_inner_var v d)) = insert v (elems (d_inner_vars d))"
  "vs_inv (mp_variables m) \<Longrightarrow> vs_inv (mp_variables (mapping_register_user v m)) \<and> elems (mp_variables (mapping_register_user v m)) = insert v (elems (mp_variables m))"
  by (simp_all add: inst_sets_ok_def dim_sets_ok_def inst_register_defined_var_def dim_register_defined_var_def dim_register_inner_var_def
      mapping_register_user_def vs_insert_spec)

lemma register_result_updated:
  assumes "register_result var f = Some f'" "sv_wf (b_insts f)"
  shows "\<exists>I. f' = f\<lparr>b_insts := I\<rparr> \<and> updated (result_of var) (set_result (va_id var)) (b_insts f) I
    \<and> (\<forall>i \<in> result_of var. \<forall>y. fn_inst f i = Some y \<longrightarrow> i_variable y = None)"
proof (cases "va_def var")
  case (VD_Inst i)
  then obtain y I where y: "fn_inst f i = Some y" "i_variable y = None" "sv_update i (\<lambda>_. set_result (va_id var) y) (b_insts f) = Some I" "f' = f\<lparr>b_insts := I\<rparr>"
    using assms(1) by (auto simp: bind_eq_Some_conv set_result_variable_def fn_update_inst_def set_result_def split: if_splits)
  then show ?thesis using updated_one [OF assms(2) y(3)] VD_Inst by (auto simp: updated_def result_of_def)
qed (use assms in \<open>auto simp: result_of_def updated_none intro!: exI [of _ "b_insts f"]\<close>)

lemma register_def_points_updated:
  assumes "fold_option (register_def_point v) ps f = Some f'" "sv_wf (b_insts f)" "sv_wf (b_dims f)" "distinct ps"
  shows "\<exists>I D. f' = f\<lparr>b_insts := I, b_dims := D\<rparr> \<and> updated {i. S_Inst i \<in> set ps} (inst_register_defined_var v) (b_insts f) I
    \<and> updated {d. S_Dim d \<in> set ps} (dim_register_defined_var v) (b_dims f) D"
  using assms
proof (induction ps arbitrary: f)
  case Nil
  then show ?case by (auto simp: updated_none intro!: exI [of _ "b_insts f"] exI [of _ "b_dims f"])
next
  case (Cons p ps)
  then obtain g where g: "register_def_point v p f = Some g" "fold_option (register_def_point v) ps g = Some f'" by (auto simp: bind_eq_Some_conv)
  show ?case
  proof (cases p)
    case (S_Inst i)
    then obtain I where I: "g = f\<lparr>b_insts := I\<rparr>" "updated {i} (inst_register_defined_var v) (b_insts f) I"
      using g(1) updated_one [OF Cons.prems(2)] by (auto simp: fn_update_inst_def)
    then obtain J D where J: "f' = g\<lparr>b_insts := J, b_dims := D\<rparr>" "updated {i. S_Inst i \<in> set ps} (inst_register_defined_var v) I J"
      "updated {d. S_Dim d \<in> set ps} (dim_register_defined_var v) (b_dims f) D"
      using Cons.IH [OF g(2)] Cons.prems by (auto simp: updated_def)
    have "{j. S_Inst j \<in> set (p # ps)} = {i} \<union> {i. S_Inst i \<in> set ps}" using S_Inst by auto
    then show ?thesis using updated_trans [OF I(2) J(2)] J(1,3) I(1) S_Inst Cons.prems(4) by auto
  next
    case (S_Dim d)
    then obtain D where D: "g = f\<lparr>b_dims := D\<rparr>" "updated {d} (dim_register_defined_var v) (b_dims f) D"
      using g(1) updated_one [OF Cons.prems(3)] by (auto simp: fn_update_dim_def)
    then obtain I E where E: "f' = g\<lparr>b_insts := I, b_dims := E\<rparr>" "updated {d. S_Dim d \<in> set ps} (dim_register_defined_var v) D E"
      "updated {i. S_Inst i \<in> set ps} (inst_register_defined_var v) (b_insts f) I"
      using Cons.IH [OF g(2)] Cons.prems by (auto simp: updated_def)
    have "{j. S_Dim j \<in> set (p # ps)} = {d} \<union> {d. S_Dim d \<in> set ps}" using S_Dim by auto
    then show ?thesis using updated_trans [OF D(2) E(2)] E(1,3) D(1) S_Dim Cons.prems(4) by auto
  qed
qed

lemma va_register_updates:
  assumes r: "va_register var f = Some f'" and st: "stores_ok f" and v: "var_sets_ok var" "distinct (vd_mapped_dims (va_def var))"
  shows "\<exists>I1 I2 D1 D2 M. f' = f\<lparr>b_insts := I2, b_dims := D2, b_dim_mappings := M\<rparr>
    \<and> updated (result_of var) (set_result (va_id var)) (b_insts f) I1
    \<and> updated (inst_defs var) (inst_register_defined_var (va_id var)) I1 I2
    \<and> updated (dim_defs var) (dim_register_defined_var (va_id var)) (b_dims f) D1
    \<and> updated (elems (va_dimensions var)) (dim_register_inner_var (va_id var)) D1 D2
    \<and> updated (set (vd_mapped_dims (va_def var))) (mapping_register_user (va_id var)) (b_dim_mappings f) M
    \<and> (\<forall>i \<in> result_of var. \<forall>y. fn_inst f i = Some y \<longrightarrow> i_variable y = None)"
proof -
  let ?v = "va_id var"
  have wf: "sv_wf (b_insts f)" "sv_wf (b_dims f)" "sv_wf (b_dim_mappings f)" using st by (simp_all add: stores_ok_def)
  have d: "distinct (data (va_dimensions var))" "distinct (data (va_def_points var))" using v(1) by (simp_all add: var_sets_ok_def vs_distinct)
  obtain g where g: "register_result var f = Some g" using r by (auto simp: va_register_def bind_eq_Some_conv simp del: register_result.simps)
  obtain I1 where I1: "g = f\<lparr>b_insts := I1\<rparr>" "updated (result_of var) (set_result ?v) (b_insts f) I1"
    "\<forall>i \<in> result_of var. \<forall>y. fn_inst f i = Some y \<longrightarrow> i_variable y = None" using register_result_updated [OF g wf(1)] by blast
  obtain h where h: "fold_option (register_def_point ?v) (data (va_def_points var)) g = Some h"
    using r g by (auto simp: va_register_def bind_eq_Some_conv simp del: register_result.simps)
  obtain I2 D1 where D1: "h = f\<lparr>b_insts := I2, b_dims := D1\<rparr>" "updated (inst_defs var) (inst_register_defined_var ?v) I1 I2"
    "updated (dim_defs var) (dim_register_defined_var ?v) (b_dims f) D1"
    using register_def_points_updated [OF h] I1(1,2) wf d(2) by (auto simp: updated_def inst_defs_def dim_defs_def elems_def)
  obtain D2 M where D2: "fold_option (\<lambda>d. sv_update d (dim_register_inner_var ?v)) (data (va_dimensions var)) D1 = Some D2"
    "fold_option (\<lambda>d. sv_update d (mapping_register_user ?v)) (vd_mapped_dims (va_def var)) (b_dim_mappings f) = Some M"
    "f' = f\<lparr>b_insts := I2, b_dims := D2, b_dim_mappings := M\<rparr>"
    using r g h D1(1) by (auto simp: va_register_def bind_eq_Some_conv update_dims_fold update_mappings_fold simp del: register_result.simps)
  have "updated (elems (va_dimensions var)) (dim_register_inner_var ?v) D1 D2" "updated (set (vd_mapped_dims (va_def var))) (mapping_register_user ?v) (b_dim_mappings f) M"
    using fold_updates [OF D2(1)] fold_updates [OF D2(2)] D1(3) wf(3) d(1) v(2) by (simp_all add: elems_def updated_def)
  then show ?thesis using I1(2,3) D1(2,3) D2(3) by blast
qed

lemma insert_variable_ok:
  assumes ok: "kernel_ok f" and r: "va_register var f = Some f'" and v: "var_sets_ok var" "distinct (vd_mapped_dims (va_def var))" "va_use_points var = vs_default"
    and src: "\<And>p. p \<in> set (def_source (va_def var)) \<Longrightarrow> p < va_id var \<and> fn_variable f p \<noteq> None"
    and V: "inserted (va_id var) var (b_variables f) V"
  shows "kernel_ok (f'\<lparr>b_variables := V\<rparr>)"
proof -
  have st: "stores_ok f" and rf: "refs_ok f" and ls: "lists_ok f" and ly: "layouts_ok f" and vr: "vars_ok f"
    using ok by (simp_all add: kernel_ok_def)
  obtain I1 I2 D1 D2 M where f': "f' = f\<lparr>b_insts := I2, b_dims := D2, b_dim_mappings := M\<rparr>"
    and I1: "updated (result_of var) (set_result (va_id var)) (b_insts f) I1"
    and I2: "updated (inst_defs var) (inst_register_defined_var (va_id var)) I1 I2"
    and D1: "updated (dim_defs var) (dim_register_defined_var (va_id var)) (b_dims f) D1"
    and D2: "updated (elems (va_dimensions var)) (dim_register_inner_var (va_id var)) D1 D2"
    and M: "updated (set (vd_mapped_dims (va_def var))) (mapping_register_user (va_id var)) (b_dim_mappings f) M"
    and none: "\<forall>i \<in> result_of var. \<forall>y. fn_inst f i = Some y \<longrightarrow> i_variable y = None"
    using va_register_updates [OF r st v(1,2)] by blast
  have ev: "every inst_sets_ok I1" "every dim_sets_ok (b_dims f)" "every dim_sets_ok D1" "every (\<lambda>m. vs_inv (mp_variables m)) (b_dim_mappings f)"
    using st register_ok by (auto simp: stores_ok_def every_updated [OF _ I1] every_updated [OF _ D1])
  have "stores_ok (f'\<lparr>b_variables := V\<rparr>)"
  proof -
    have wf: "sv_wf I2" "sv_wf D2" "sv_wf M" "sv_wf V" using I2 D2 M V by (simp_all add: updated_def inserted_def)
    have "ids_ok i_id I2" by (rule ids_updated [OF ids_updated [OF _ I1] I2]) (use st in \<open>simp_all add: stores_ok_def\<close>)
    moreover have "ids_ok d_id D2" by (rule ids_updated [OF ids_updated [OF _ D1] D2]) (use st in \<open>simp_all add: stores_ok_def\<close>)
    moreover have "ids_ok mp_id M" by (rule ids_updated [OF _ M]) (use st in \<open>simp_all add: stores_ok_def\<close>)
    moreover have "every inst_sets_ok I2" "every dim_sets_ok D2" "every (\<lambda>m. vs_inv (mp_variables m)) M"
      by (rule every_updated [OF ev(1) I2] every_updated [OF ev(3) D2] every_updated [OF ev(4) M], simp add: register_ok)+
    ultimately show ?thesis using st v(1) wf by (simp add: f' stores_ok_def ids_inserted [OF _ V] every_inserted [OF _ V])
  qed
  moreover have "refs_ok (f'\<lparr>b_variables := V\<rparr>)"
  proof -
    have none': "inst_uses var = {}" using v(3) by (simp add: inst_uses_def vs_default_spec)
    have result: "dual result_of V (\<lambda>i. set_option (i_variable i)) I1"
      using rf none by (auto simp: refs_ok_def set_result_def intro!: dual_insert_at [OF _ V I1])
    have defs: "dual inst_defs V (\<lambda>i. elems (i_defined_vars i)) I2"
      by (rule dual_insert [OF dual_keep_right [OF _ I1] V I2 ev(1)]) (use rf in \<open>simp_all add: refs_ok_def register_ok\<close>)
    have ddefs: "dual dim_defs V (\<lambda>d. elems (d_defined_vars d)) D1"
      by (rule dual_insert [OF _ V D1 ev(2)]) (use rf in \<open>simp_all add: refs_ok_def register_ok\<close>)
    have vdims: "dual (\<lambda>v. elems (va_dimensions v)) V (\<lambda>d. elems (d_inner_vars d)) D2"
      by (rule dual_insert [OF dual_keep_right [OF _ D1] V D2 ev(3)]) (use rf in \<open>simp_all add: refs_ok_def register_ok\<close>)
    have maps: "dual (\<lambda>v. set (vd_mapped_dims (va_def v))) V (\<lambda>m. elems (mp_variables m)) M"
      by (rule dual_insert [OF _ V M ev(4)]) (use rf in \<open>simp_all add: refs_ok_def register_ok\<close>)
    show ?thesis using rf result defs ddefs vdims maps none'
      by (auto simp: f' refs_ok_def intro!: dual_keep [OF _ I2] dual_keep [OF _ I1] dual_keep_right [OF _ D2]
          dual_keep_right [OF _ I2] dual_keep [OF _ M] dual_new_right [OF _ V] intro: dual_keep_right [OF _ D1])
  qed
  moreover have "lists_ok (f'\<lparr>b_variables := V\<rparr>)"
    using ls proj_same [OF D1, of "\<lambda>x. vs_is_empty (d_possible_sizes x)"] proj_same [OF D1, of d_is_thread_dim]
      proj_same [OF D2, of "\<lambda>x. vs_is_empty (d_possible_sizes x)"] proj_same [OF D2, of d_is_thread_dim]
      proj_same [OF I1, of "\<lambda>x. is_mem_access (i_operator x)"] proj_same [OF I2, of "\<lambda>x. is_mem_access (i_operator x)"] by (simp add: f' lists_ok_def)
  moreover have "layouts_ok (f'\<lparr>b_variables := V\<rparr>)" using ly by (simp add: f' layouts_ok_def)
  moreover have "proj va_def V = (proj va_def (b_variables f))(va_id var \<mapsto> va_def var)" using V by (auto simp: proj_def inserted_def fun_eq_iff)
  then have "vars_ok (f'\<lparr>b_variables := V\<rparr>)" using vr src by (fastforce simp: vars_ok_def defs_ordered_def proj_def)
  ultimately show ?thesis by (simp add: kernel_ok_def)
qed

lemma create_variable_sets:
  assumes "create_variable iter vid def f = Some (Inr var)" "stores_ok f" "def_ok def"
  shows "va_id var = vid \<and> var_sets_ok var \<and> distinct (vd_mapped_dims (va_def var)) \<and> va_use_points var = vs_default
    \<and> (\<forall>p \<in> set (def_source (va_def var)). fn_variable f p \<noteq> None)"
proof -
  have "vs_inv (va_def_points x)" if "fn_variable f i = Some x" for i x using assms(2) that by (auto simp: stores_ok_def every_def var_sets_ok_def)
  moreover have "distinct (vd_mapped_dims def)" using assms(3) by (cases def) (simp_all add: vs_distinct)
  ultimately show ?thesis using assms(1)
    by (cases def) (auto simp: create_variable_def try_ok_Inr bind_eq_Some_conv var_sets_ok_def vs_inv_new vs_default_spec)
qed

lemma add_variable_ok:
  assumes ok: "kernel_ok f" and a: "add_variable iter def f = Some (Inr (vid, f'))" and def: "def_ok def" and n: "sv_len (b_variables f) < 2 ^ 16"
  shows "kernel_ok f'"
proof -
  have vid: "as_u16 (sv_len (b_variables f)) = sv_len (b_variables f)" using n by (simp add: as_u16_def)
  obtain var g V where u: "create_variable iter (sv_len (b_variables f)) def f = Some (Inr var)" "va_register var f = Some g"
    "sv_push var (b_variables g) = Some V" "f' = g\<lparr>b_variables := V\<rparr>"
    using a by (auto simp: add_variable_def try_ok_Inr bind_eq_Some_conv vid Let_def)
  have st: "stores_ok f" using ok by (simp add: kernel_ok_def)
  note v = create_variable_sets [OF u(1) st def]
  have "p < sv_len (b_variables f) \<and> fn_variable f p \<noteq> None" if "p \<in> set (def_source (va_def var))" for p
    using v that sv.lookup_cap [OF kernel_ok_wf(5) [OF ok], of p] by auto
  moreover have "b_variables g = b_variables f" using va_register_updates [OF u(2) st] v by auto
  ultimately show ?thesis using insert_variable_ok [OF ok u(2)] inserted_push [of "b_variables f" var V] u(3,4) v kernel_ok_wf(5) [OF ok] by simp
qed

lemma add_ind_var_ok: "kernel_ok f \<Longrightarrow> kernel_ok (snd (add_ind_var v f))"
  by (simp add: add_ind_var_def kernel_ok_defs)

end
