(* ===== verification/Kernel_Frozen.thy ===== *)
theory Kernel_Frozen
  imports Kernel_Invariant
begin

text \<open>
  Frozen kernels. Freezing a kernel reserves identifiers and keeps the invariant, and so do the transformations that the search applies afterwards:
  lowering a communication to temporary memory, merging dimensions or keeping them apart, and lowering the layout of a memory block. The
  relations \<open>built\<close> and \<open>reached\<close> are the kernels that a sequence of calls produces.
\<close>

section \<open>Freezing\<close>

lemma ids_ok_proj: "ids_ok p v \<longleftrightarrow> (\<forall>i k. proj p v i = Some k \<longrightarrow> k = i)"
  by (auto simp: ids_ok_def proj_def)

lemma every_proj: "every P v \<longleftrightarrow> (\<forall>i. proj P v i \<noteq> Some False)"
  by (auto simp: every_def proj_def)

lemma expand_ok:
  assumes "sv_expand_to c v = Some v'" "sv_wf v"
  shows "sv_wf v' \<and> sv_index v' = sv_index v \<and> sv_len v' = c"
  using assms by (auto simp: sv_expand_to_def sv_wf_def sv_index_def sv_len_def fun_eq_iff split: if_splits)

lemma from_vec_ok: "sv_wf (sv_from_vec xs) \<and> sv_index (sv_from_vec xs) i = (if i < length xs then xs ! i else None)"
  by (simp add: sv_from_vec_def sv_wf_def sv_index_def)

definition same_refs :: "'l instruction \<Rightarrow> 'm instruction \<Rightarrow> bool" where
  "same_refs a b \<longleftrightarrow> i_id b = i_id a \<and> i_iter_dims b = i_iter_dims a \<and> i_variable b = i_variable a \<and> i_defined_vars b = i_defined_vars a
     \<and> i_used_vars b = i_used_vars a \<and> mem_used (i_operator b) = mem_used (i_operator a) \<and> is_mem_access (i_operator b) = is_mem_access (i_operator a)"

lemma map_operands_refs:
  "map_operands f op s = Some (op', s') \<Longrightarrow> mem_access_pattern op' = mem_access_pattern op \<and> is_mem_access op' = is_mem_access op"
  by (cases op) (auto simp: bind_eq_Some_conv)

lemma freeze_slot_refs: "freeze_slot a c = Some (b, c') \<Longrightarrow> rel_option same_refs a b"
  by (auto simp: freeze_slot_def inst_freeze_def operator_freeze_def bind_eq_Some_conv same_refs_def mem_used_def dest: map_operands_refs split: option.splits)

lemma map_accum_list_all2:
  assumes "map_accum f xs s = Some (ys, s')" "\<And>x y s s'. f x s = Some (y, s') \<Longrightarrow> R x y"
  shows "list_all2 R xs ys"
  using assms(1) by (induction xs arbitrary: ys s) (auto simp: bind_eq_Some_conv dest: assms(2))

lemma refs_proj:
  assumes "\<And>i. rel_option same_refs (sv_index v i) (sv_index w i)" "\<And>a b. same_refs a b \<Longrightarrow> q b = p a"
  shows "proj q w = proj p v"
proof (rule ext)
  fix i
  show "proj q w i = proj p v i" using assms(1) [of i] assms(2) by (cases "sv_index v i"; cases "sv_index w i") (simp_all add: proj_def)
qed

lemma same_insts_ok:
  assumes ok: "kernel_ok f" and rel: "\<And>i. rel_option same_refs (fn_inst f i) (fn_inst g i)" and wf: "sv_wf (b_insts g)"
    and d: "sv_wf (b_dims g)" "fn_dim g = fn_dim f" and b: "sv_wf (bm_blocks (b_mem_blocks g))" "fn_block g = fn_block f" "bm_layouts (b_mem_blocks g) = bm_layouts (b_mem_blocks f)"
    and m: "sv_wf (b_dim_mappings g)" "fn_mapping g = fn_mapping f" and v: "b_variables g = b_variables f"
    and l: "b_static_dims g = b_static_dims f" "b_thread_dims g = b_thread_dims f" "b_mem_insts g = b_mem_insts f" "b_layouts_to_lower g = b_layouts_to_lower f"
  shows "kernel_ok g"
proof -
  have st: "stores_ok f" and rf: "refs_ok f" and ls: "lists_ok f" and ly: "layouts_ok f" and vr: "vars_ok f"
    using ok by (simp_all add: kernel_ok_def)
  note proj = refs_proj [OF rel]
  have other: "proj p (b_dims g) = proj p (b_dims f)" "proj q (bm_blocks (b_mem_blocks g)) = proj q (bm_blocks (b_mem_blocks f))"
    "proj r (b_dim_mappings g) = proj r (b_dim_mappings f)" for p :: "ir_dim \<Rightarrow> 'x" and q :: "mem_block \<Rightarrow> 'x" and r :: "dim_mapping \<Rightarrow> 'x"
    using d b m by (simp_all add: proj_def fun_eq_iff)
  have insts: "proj i_id (b_insts g) = proj i_id (b_insts f)" "proj inst_sets_ok (b_insts g) = proj inst_sets_ok (b_insts f)"
    "proj (\<lambda>i. fset (i_iter_dims i)) (b_insts g) = proj (\<lambda>i. fset (i_iter_dims i)) (b_insts f)"
    "proj (\<lambda>i. set_option (mem_used (i_operator i))) (b_insts g) = proj (\<lambda>i. set_option (mem_used (i_operator i))) (b_insts f)"
    "proj (\<lambda>i. elems (i_used_vars i)) (b_insts g) = proj (\<lambda>i. elems (i_used_vars i)) (b_insts f)"
    "proj (\<lambda>i. elems (i_defined_vars i)) (b_insts g) = proj (\<lambda>i. elems (i_defined_vars i)) (b_insts f)"
    "proj (\<lambda>i. set_option (i_variable i)) (b_insts g) = proj (\<lambda>i. set_option (i_variable i)) (b_insts f)"
    "proj (\<lambda>x. is_mem_access (i_operator x)) (b_insts g) = proj (\<lambda>x. is_mem_access (i_operator x)) (b_insts f)"
    by (rule proj, simp add: same_refs_def inst_sets_ok_def)+
  have "stores_ok g" using st wf d b m v by (simp add: stores_ok_def ids_ok_proj every_proj insts other)
  moreover have "refs_ok g" using rf by (simp add: refs_ok_def dual_def has_def insts other v)
  moreover have "lists_ok g" using ls by (simp add: lists_ok_def insts other l)
  moreover have "layouts_ok g" using ly by (simp add: layouts_ok_def other b l)
  ultimately show ?thesis using vr by (simp add: kernel_ok_def vars_ok_def v)
qed

definition start_counter :: "unit ir_function \<Rightarrow> counter" where
  "start_counter f = \<lparr>next_mem = sv_len (bm_blocks (b_mem_blocks f)), next_inst = sv_len (b_insts f), next_dim = sv_len (b_dims f),
     next_dim_mapping = as_u16 (sv_len (b_dim_mappings f))\<rparr>"

lemma fn_freezeE:
  assumes g: "fn_freeze f = Some g"
  obtains slots c1 ind_vars c2 insts dims blocks mappings
    where "map_accum freeze_slot (sv_vec (b_insts f)) (start_counter f) = Some (slots, c1)" "map_accum iv_freeze (b_induction_vars f) c1 = Some (ind_vars, c2)"
      "sv_expand_to (next_inst c2) (sv_from_vec slots) = Some insts" "sv_expand_to (next_dim c2) (sv_from_vec (sv_vec (b_dims f))) = Some dims"
      "expand_blocks_to (next_mem c2) (b_mem_blocks f) = Some blocks" "sv_expand_to (next_dim_mapping c2) (b_dim_mappings f) = Some mappings"
      "g = \<lparr>b_insts = insts, b_dims = dims, b_static_dims = b_static_dims f, b_thread_dims = b_thread_dims f, b_mem_insts = b_mem_insts f,
       b_mem_blocks = blocks, b_layouts_to_lower = b_layouts_to_lower f, b_induction_vars = ind_vars, b_logical_dims = b_logical_dims f,
       b_dim_mappings = mappings, b_variables = b_variables f, fn_signature = fn_signature f, fn_device = fn_device f\<rparr>"
proof -
  obtain slots c1 where s: "map_accum freeze_slot (sv_vec (b_insts f)) (start_counter f) = Some (slots, c1)"
    using g unfolding fn_freeze_def Let_def start_counter_def [symmetric] by (auto simp: bind_eq_Some_conv)
  obtain ind_vars c2 where v: "map_accum iv_freeze (b_induction_vars f) c1 = Some (ind_vars, c2)"
    using g s unfolding fn_freeze_def Let_def start_counter_def [symmetric] by (auto simp: bind_eq_Some_conv)
  show thesis using that [OF s v] g s v unfolding fn_freeze_def Let_def start_counter_def [symmetric] by (auto simp: bind_eq_Some_conv)
qed

lemma fn_freeze_ok:
  assumes ok: "kernel_ok f" and g: "fn_freeze f = Some g"
  shows "kernel_ok g"
  using g
proof (rule fn_freezeE)
  fix slots c1 ind_vars c2 insts dims blocks mappings
  assume s: "map_accum freeze_slot (sv_vec (b_insts f)) (start_counter f) = Some (slots, c1)"
    and u: "sv_expand_to (next_inst c2) (sv_from_vec slots) = Some insts" "sv_expand_to (next_dim c2) (sv_from_vec (sv_vec (b_dims f))) = Some dims"
      "expand_blocks_to (next_mem c2) (b_mem_blocks f) = Some blocks" "sv_expand_to (next_dim_mapping c2) (b_dim_mappings f) = Some mappings"
    and g': "g = \<lparr>b_insts = insts, b_dims = dims, b_static_dims = b_static_dims f, b_thread_dims = b_thread_dims f, b_mem_insts = b_mem_insts f,
       b_mem_blocks = blocks, b_layouts_to_lower = b_layouts_to_lower f, b_induction_vars = ind_vars, b_logical_dims = b_logical_dims f,
       b_dim_mappings = mappings, b_variables = b_variables f, fn_signature = fn_signature f, fn_device = fn_device f\<rparr>"
  have rel: "list_all2 (rel_option same_refs) (sv_vec (b_insts f)) slots"
    by (rule map_accum_list_all2 [OF s]) (rule freeze_slot_refs)
  note wf = kernel_ok_wf [OF ok]
  have "rel_option same_refs (fn_inst f i) (fn_inst g i)" for i
    using rel expand_ok [OF u(1)] from_vec_ok [of slots i] from_vec_ok [of slots]
    by (auto simp: g' sv_index_def [of "b_insts f"] list_all2_conv_all_nth)
  moreover have "fn_dim g = fn_dim f" "sv_wf dims"
    using expand_ok [OF u(2)] from_vec_ok [of "sv_vec (b_dims f)"] by (auto simp: g' sv_index_def [of "b_dims f"] fun_eq_iff)
  moreover have "fn_block g = fn_block f" "sv_wf (bm_blocks blocks)" "bm_layouts blocks = bm_layouts (b_mem_blocks f)"
    using u(3) wf by (auto simp: g' expand_blocks_to_def dest: expand_ok)
  ultimately show ?thesis
    using expand_ok [OF u(1)] from_vec_ok [of slots] expand_ok [OF u(4)] wf by (intro same_insts_ok [OF ok]) (simp_all add: g')
qed

section \<open>Lowering a communication\<close>

lemma update_inst_same_ok:
  assumes ok: "kernel_ok f" and x: "fn_inst f i = Some x" "same_refs x y" and u: "fn_update_inst i (\<lambda>_. y) f = Some f'"
  shows "kernel_ok f'"
proof -
  obtain I where I: "sv_update i (\<lambda>_. y) (b_insts f) = Some I" "f' = f\<lparr>b_insts := I\<rparr>" using u by (auto simp: fn_update_inst_def)
  have up: "updated {i} (\<lambda>_. y) (b_insts f) I" using updated_one [OF _ I(1)] kernel_ok_wf(1) [OF ok] by blast
  have "rel_option same_refs (fn_inst f j) (fn_inst f' j)" for j
    using up x by (cases "fn_inst f j") (auto simp: I(2) updated_def same_refs_def)
  then show ?thesis using up kernel_ok_wf [OF ok] by (intro same_insts_ok [OF ok]) (simp_all add: I(2) updated_def)
qed

lemma activate_mapped_dim_ok:
  assumes ok: "kernel_ok f" and a: "activate_mapped_dim (mid, old_dim, new_dim) f = Some f'"
  shows "kernel_ok f'"
proof -
  obtain old d D where d: "fn_dim f old_dim = Some old" "dim_with_same_size new_dim old = Some d" "sv_set_lazy new_dim d (b_dims f) = Some D"
    using a by (auto simp: activate_mapped_dim_def bind_eq_Some_conv Let_def split: if_splits)
  let ?e = "\<lambda>x. vs_is_empty (d_possible_sizes x)"
  define S where "S = (if dim_possible_sizes d \<noteq> None then b_static_dims f @ [new_dim] else b_static_dims f)"
  let ?g = "f\<lparr>b_static_dims := S, b_dims := D\<rparr>"
  obtain m h M where m: "create_mapping mid (old_dim, new_dim) ?g = Some (m, h)" "sv_set_lazy mid m (b_dim_mappings h) = Some M" "f' = h\<lparr>b_dim_mappings := M\<rparr>"
    using a d by (auto simp: activate_mapped_dim_def bind_eq_Some_conv Let_def S_def split: if_splits)
  have fresh: "fresh_dim d" "d_id d = new_dim" using dim_with_same_size_fresh [OF d(2)] by simp_all
  have D: "inserted new_dim d (b_dims f) D" using inserted_set_lazy [OF _ d(3)] kernel_ok_wf(2) [OF ok] by blast
  have "dims_grown (b_dims f) D" using D fresh by (auto simp: dims_grown_def inserted_def)
  moreover have "distinct S \<and> (\<forall>i. i \<in> set S \<longleftrightarrow> proj ?e D i = Some False)"
    by (rule listed_inserted [where xs = "b_static_dims f", OF _ _ D]) (use ok in \<open>simp_all add: kernel_ok_def lists_ok_def S_def dim_possible_sizes_def\<close>)
  ultimately have g: "kernel_ok ?g" using grow_dims_ok [OF ok] by blast
  have "inserted mid m (b_dim_mappings ?g) M" using inserted_set_lazy [OF _ m(2)] create_mapping_keeps [OF m(1)] kernel_ok_wf(4) [OF ok] by simp
  then show ?thesis using insert_mapping_ok [OF g m(1)] m(3) by simp
qed

lemma activate_mapped_dims_ok: "kernel_ok f \<Longrightarrow> activate_mapped_dims ms b f = Some (m, f') \<Longrightarrow> kernel_ok f'"
  by (auto simp: activate_mapped_dims_def bind_eq_Some_conv intro: fold_option_inv [of activate_mapped_dim ms f _ kernel_ok] activate_mapped_dim_ok)

lemma activate_inst_ok:
  assumes "kernel_ok f" "is_order iter" "activate_inst iter iid op dims f = Some f'"
  shows "kernel_ok f'"
proof -
  obtain x g I where u: "create_inst iter iid op (fset_of_list dims) f = Some (Inr (x, g))" "sv_set_lazy iid x (b_insts g) = Some I" "f' = g\<lparr>b_insts := I\<rparr>"
    using assms(3) by (cases "the (create_inst iter iid op (fset_of_list dims) f)") (auto simp: activate_inst_def bind_eq_Some_conv)
  have "b_insts g = b_insts f" using create_inst_ok [OF assms(1,2) u(1)] by simp
  then have "inserted iid x (b_insts f) I" using inserted_set_lazy [of "b_insts f"] u(2) kernel_ok_wf(1) [OF assms(1)] by simp
  then show ?thesis using create_inst_ok [OF assms(1,2) u(1), of I] u(3) by simp
qed

lemma operands_mut_refs: "mem_used (operands_mut h op) = mem_used op" "is_mem_access (operands_mut h op) = is_mem_access op"
  by (cases op; simp add: mem_used_def)+

lemma lower_dim_map_ok:
  assumes ok: "kernel_ok f" and it: "is_order iter" and l: "lower_dim_map iter dst pos f = Some (Inr (lowered, f'))"
  shows "kernel_ok f'"
proof -
  obtain src t where o: "operand_to_lower f dst pos = Some (Inr (src, t, lowered))"
    using l by (auto simp: lower_dim_map_def try_ok_Inr bind_eq_Some_conv)
  obtain m1 f1 where f1: "activate_mapped_dims (ld_st_dims_mapping lowered) True f = Some (m1, f1)"
    using l o by (auto simp: lower_dim_map_def try_ok_Inr bind_eq_Some_conv)
  obtain m2 f2 where f2: "activate_mapped_dims (ld_ld_dims_mapping lowered) False f1 = Some (m2, f2)"
    using l o f1 by (auto simp: lower_dim_map_def try_ok_Inr bind_eq_Some_conv)
  obtain dims bm where f3: "set_lazy_tmp (ld_mem lowered) t dims (b_mem_blocks f2) = Some bm" and dims: "mem_dimensions lowered = Some dims"
    using l o f1 f2 by (auto simp: lower_dim_map_def try_ok_Inr bind_eq_Some_conv)
  obtain st f4 where f4: "activate_inst iter (ld_store lowered) (OP_TmpSt st (ld_mem lowered)) (new_dims (ld_st_dims_mapping lowered)) (f2\<lparr>b_mem_blocks := bm\<rparr>) = Some f4"
    and f5: "Option.bind (activate_inst iter (ld_load lowered) (OP_TmpLd t (ld_mem lowered)) (new_dims (ld_ld_dims_mapping lowered)) f4) (\<lambda>f. do {
       inst \<leftarrow> fn_inst f dst;
       inst \<leftarrow> inst_lower_dim_map pos (ld_load lowered) m2 inst;
       f \<leftarrow> fn_update_inst dst (\<lambda>_. inst) f;
       Some (Inr (lowered, f)) }) = Some (Inr (lowered, f') :: unit + lowered_dim_map \<times> lowering_map ir_function)"
    using l o f1 f2 f3 dims by (auto simp: lower_dim_map_def try_ok_Inr bind_eq_Some_conv Let_def)
  obtain f5 x y where x: "activate_inst iter (ld_load lowered) (OP_TmpLd t (ld_mem lowered)) (new_dims (ld_ld_dims_mapping lowered)) f4 = Some f5"
    "fn_inst f5 dst = Some x" "inst_lower_dim_map pos (ld_load lowered) m2 x = Some y" "fn_update_inst dst (\<lambda>_. y) f5 = Some f'"
    using f5 by (auto simp: bind_eq_Some_conv)
  have "kernel_ok f2" using activate_mapped_dims_ok [OF activate_mapped_dims_ok [OF ok f1] f2] .
  from set_lazy_tmp_ok [OF this f3] have "kernel_ok f4" using activate_inst_ok [OF _ it f4] by blast
  from activate_inst_ok [OF this it x(1)] have "kernel_ok f5" .
  moreover have "same_refs x y"
    using x(3) by (auto simp: inst_lower_dim_map_def bind_eq_Some_conv same_refs_def operands_mut_refs split: if_splits)
  ultimately show ?thesis using update_inst_same_ok [OF _ x(2) _ x(4)] by blast
qed

section \<open>Layouts\<close>

lemma iter_ids_sorted:
  assumes "\<forall>i < length xs. \<forall>x. xs ! i = Some x \<longrightarrow> p x = i"
  shows "sorted_wrt (<) (map p (List.map_filter id xs)) \<and> (\<forall>x \<in> set (List.map_filter id xs). p x < length xs)"
  using assms
proof (induction xs rule: rev_induct)
  case (snoc x xs)
  have "\<forall>i < length xs. \<forall>y. xs ! i = Some y \<longrightarrow> p y = i" using snoc.prems by (auto simp: nth_append split: if_splits)
  moreover have "x = Some y \<Longrightarrow> p y = length xs" for y using snoc.prems by auto
  ultimately show ?case using snoc.IH by (cases x) (auto simp: List.map_filter_def sorted_wrt_append)
qed (simp add: List.map_filter_def)

lemma iter_ids_distinct: "ids_ok p v \<Longrightarrow> distinct (map p (sv_iter v))"
  using iter_ids_sorted [of "sv_vec v" p] by (auto simp: ids_ok_def sv_index_def sv_iter_def strict_sorted_iff)

text \<open>A change of memory blocks that keeps their identifiers and uses.\<close>

lemma change_blocks_ok:
  assumes ok: "kernel_ok f" and B: "sv_wf B" "proj bk_id B = proj bk_id (bm_blocks (b_mem_blocks f))" "proj bk_uses B = proj bk_uses (bm_blocks (b_mem_blocks f))"
    and ly: "layouts_ok (f\<lparr>b_mem_blocks := bm\<lparr>bm_blocks := B\<rparr>, b_layouts_to_lower := L\<rparr>)"
  shows "kernel_ok (f\<lparr>b_mem_blocks := bm\<lparr>bm_blocks := B\<rparr>, b_layouts_to_lower := L\<rparr>)"
proof -
  have "proj (\<lambda>b. set (bk_uses b)) v i = map_option set (proj bk_uses v i)" for v :: "mem_block sparse_vec" and i by (cases "sv_index v i") (simp_all add: proj_def)
  then have "proj (\<lambda>b. set (bk_uses b)) B = proj (\<lambda>b. set (bk_uses b)) (bm_blocks (b_mem_blocks f))" using B(3) by (intro ext) metis
  then show ?thesis using ok B(1,2) ly by (simp add: kernel_ok_def stores_ok_def refs_ok_def lists_ok_def vars_ok_def ids_ok_proj dual_def has_def)
qed

text \<open>The layouts that become ready are added to the list.\<close>

lemma ready_layouts_ok:
  assumes ly: "layouts_ok f" and B: "\<And>m. sv_index B m = map_option (u m) (fn_block f m)"
    and mono: "\<And>m b. fn_block f m = Some b \<Longrightarrow> bk_is_ready b \<Longrightarrow> bk_is_ready (u m b)"
    and new: "distinct new" "\<And>m. m \<in> set new \<longleftrightarrow> (\<exists>b. fn_block f m = Some b \<and> \<not> bk_is_ready b \<and> bk_is_ready (u m b))"
  shows "layouts_ok (f\<lparr>b_mem_blocks := (b_mem_blocks f)\<lparr>bm_blocks := B\<rparr>, b_layouts_to_lower := b_layouts_to_lower f @ new\<rparr>)"
proof -
  have proj: "proj bk_is_ready B m = map_option (\<lambda>b. bk_is_ready (u m b)) (fn_block f m)" for m by (simp add: proj_def B option.map_comp comp_def)
  have "set (b_layouts_to_lower f) \<inter> set new = {}" using ly new(2) by (auto simp: layouts_ok_def proj_def)
  moreover have "m \<in> set (b_layouts_to_lower f @ new) \<longleftrightarrow> m |\<in>| bm_layouts (b_mem_blocks f) \<and> proj bk_is_ready B m = Some True" for m
    using ly new(2) [of m] mono [of m] by (cases "fn_block f m") (auto simp: layouts_ok_def proj, auto simp: proj_def)
  moreover have "m |\<in>| bm_layouts (b_mem_blocks f)" if unready: "proj bk_is_ready B m = Some False" for m
  proof -
    obtain b where "fn_block f m = Some b" "\<not> bk_is_ready b" using unready mono by (auto simp: proj)
    then show ?thesis using ly by (auto simp: layouts_ok_def proj_def)
  qed
  moreover have "sv_index B m \<noteq> None \<longleftrightarrow> fn_block f m \<noteq> None" for m by (simp add: B)
  ultimately show ?thesis using ly new(1) by (simp add: layouts_ok_def)
qed

lemma fn_merge_ok:
  assumes ok: "kernel_ok f"
  shows "kernel_ok (fn_merge src dst f)"
proof -
  let ?B = "sv_map (bk_merge_dims src dst) (bm_blocks (b_mem_blocks f))" and ?new = "fst (bm_merge_dims src dst (b_mem_blocks f))"
  let ?f = "f\<lparr>b_insts := sv_map (inst_merge_dims src dst) (b_insts f), b_induction_vars := map (iv_merge_dims src dst) (b_induction_vars f)\<rparr>"
  have wf: "sv_wf ?B" "sv_wf (b_insts ?f)" using kernel_ok_wf [OF ok] by (simp_all add: sv_map_ok)
  have "rel_option same_refs (fn_inst f i) (fn_inst ?f i)" for i
    by (cases "fn_inst f i") (simp_all add: sv_map_ok same_refs_def inst_merge_dims_def operator_merge_dims_def operands_mut_refs)
  then have f: "kernel_ok ?f" using wf(2) kernel_ok_wf [OF ok] by (intro same_insts_ok [OF ok]) simp_all
  have ids: "ids_ok bk_id (bm_blocks (b_mem_blocks f))" using ok by (simp add: kernel_ok_def stores_ok_def)
  have "layouts_ok (?f\<lparr>b_mem_blocks := (b_mem_blocks ?f)\<lparr>bm_blocks := ?B\<rparr>, b_layouts_to_lower := b_layouts_to_lower ?f @ ?new\<rparr>)"
  proof (rule ready_layouts_ok [where u = "\<lambda>_. bk_merge_dims src dst"])
    show "distinct ?new" using distinct_map_subset [OF iter_ids_distinct [OF ids]] by (simp add: bm_merge_dims_def)
    show "m \<in> set ?new \<longleftrightarrow> (\<exists>b. fn_block ?f m = Some b \<and> \<not> bk_is_ready b \<and> bk_is_ready (bk_merge_dims src dst b))" for m
    proof -
      have "filter (same_pair src dst) xs \<noteq> [] \<and> filter (Not \<circ> same_pair src dst) xs = [] \<longleftrightarrow> xs \<noteq> [] \<and> filter (Not \<circ> same_pair src dst) xs = []" for xs
        by (cases xs) (auto simp: filter_empty_conv)
      moreover have "m \<in> set ?new \<longleftrightarrow> (\<exists>b. fn_block f m = Some b \<and> fst (dp_merge_dims src dst (bk_maybe_mapped b)) \<and> bk_is_ready (bk_merge_dims src dst b))"
        using ids by (fastforce simp: bm_merge_dims_def sv_iter_iff ids_ok_def)
      ultimately show ?thesis by (simp add: bk_is_ready_def bk_merge_dims_def dp_merge_dims_def)
    qed
  qed (use f in \<open>auto simp: kernel_ok_def sv_map_ok bk_is_ready_def bk_merge_dims_def dp_merge_dims_def\<close>)
  then have "kernel_ok (?f\<lparr>b_mem_blocks := (b_mem_blocks ?f)\<lparr>bm_blocks := ?B\<rparr>, b_layouts_to_lower := b_layouts_to_lower ?f @ ?new\<rparr>)"
    using wf(1) by (intro change_blocks_ok [OF f]) (auto simp: proj_def sv_map_ok bk_merge_dims_def option.map_comp comp_def fun_eq_iff)
  then show ?thesis by (simp add: fn_merge_def bm_merge_dims_def)
qed

lemma not_merged_step_eq:
  "not_merged_step a1 a2 m (L, v) = do {
     b \<leftarrow> sv_index v m;
     w \<leftarrow> sv_update m (bk_not_merged a1 a2) v;
     Some (if \<not> bk_is_ready b \<and> bk_is_ready (bk_not_merged a1 a2 b) then L @ [m] else L, w) }"
proof -
  have "filter (same_pair a1 a2) xs \<noteq> [] \<and> filter (Not \<circ> same_pair a1 a2) xs = [] \<longleftrightarrow> xs \<noteq> [] \<and> filter (Not \<circ> same_pair a1 a2) xs = []" for xs
    by (cases xs) (auto simp: filter_empty_conv)
  then show ?thesis by (simp add: not_merged_step_def Let_def bk_is_ready_def bk_not_merged_def cong: if_cong)
qed

lemma not_merged_fold:
  assumes "fold_option (not_merged_step a1 a2) ms (L, v) = Some (L', v')" "sv_wf v" "distinct ms"
  shows "updated (set ms) (bk_not_merged a1 a2) v v'
    \<and> (\<exists>new. L' = L @ new \<and> distinct new \<and> set new = {m \<in> set ms. \<exists>b. sv_index v m = Some b \<and> \<not> bk_is_ready b \<and> bk_is_ready (bk_not_merged a1 a2 b)})"
  using assms
proof (induction ms arbitrary: L v)
  case (Cons m ms)
  obtain b w where b: "sv_index v m = Some b" "sv_update m (bk_not_merged a1 a2) v = Some w"
    and rest: "fold_option (not_merged_step a1 a2) ms (if \<not> bk_is_ready b \<and> bk_is_ready (bk_not_merged a1 a2 b) then L @ [m] else L, w) = Some (L', v')"
    using Cons.prems(1) by (auto simp: not_merged_step_eq bind_eq_Some_conv)
  have one: "updated {m} (bk_not_merged a1 a2) v w" using updated_one [OF Cons.prems(2) b(2)] .
  have ih: "updated (set ms) (bk_not_merged a1 a2) w v'" "\<exists>new. L' = (if \<not> bk_is_ready b \<and> bk_is_ready (bk_not_merged a1 a2 b) then L @ [m] else L) @ new
      \<and> distinct new \<and> set new = {m \<in> set ms. \<exists>b. sv_index w m = Some b \<and> \<not> bk_is_ready b \<and> bk_is_ready (bk_not_merged a1 a2 b)}"
    using Cons.IH [OF rest] one Cons.prems(3) by (simp_all add: updated_def)
  have same: "sv_index w k = sv_index v k" if "k \<in> set ms" for k using one that Cons.prems(3) by (auto simp: updated_def)
  have sets: "{m \<in> set ms. \<exists>b. sv_index w m = Some b \<and> \<not> bk_is_ready b \<and> bk_is_ready (bk_not_merged a1 a2 b)}
    = {m \<in> set ms. \<exists>b. sv_index v m = Some b \<and> \<not> bk_is_ready b \<and> bk_is_ready (bk_not_merged a1 a2 b)}" using same by auto
  obtain new where new: "L' = (if \<not> bk_is_ready b \<and> bk_is_ready (bk_not_merged a1 a2 b) then L @ [m] else L) @ new" "distinct new"
    "set new = {m \<in> set ms. \<exists>b. sv_index v m = Some b \<and> \<not> bk_is_ready b \<and> bk_is_ready (bk_not_merged a1 a2 b)}"
    using ih(2) unfolding sets by blast
  let ?new = "(if \<not> bk_is_ready b \<and> bk_is_ready (bk_not_merged a1 a2 b) then [m] else []) @ new"
  have "L' = L @ ?new \<and> distinct ?new \<and> set ?new = {k \<in> set (m # ms). \<exists>b. sv_index v k = Some b \<and> \<not> bk_is_ready b \<and> bk_is_ready (bk_not_merged a1 a2 b)}"
    using new b(1) Cons.prems(3) by auto
  moreover have "updated (set (m # ms)) (bk_not_merged a1 a2) v v'" using updated_trans [OF one ih(1)] Cons.prems(3) by simp
  ultimately show ?case by blast
qed (simp add: updated_none)

lemma fn_dim_not_merged_ok:
  assumes ok: "kernel_ok f" and it: "is_order iter" and n: "fn_dim_not_merged iter d1 d2 f = Some f'"
  shows "kernel_ok f'"
proof -
  let ?ms = "iter (sorted_list_of_fset (bm_layouts (b_mem_blocks f)))" and ?B = "bm_blocks (b_mem_blocks f)"
  have ly: "layouts_ok f" using ok by (simp add: kernel_ok_def)
  obtain a1 L B where u: "fold_option (not_merged_step a1 d2) ?ms ([], ?B) = Some (L, B)"
    "f' = f\<lparr>b_mem_blocks := (b_mem_blocks f)\<lparr>bm_blocks := B\<rparr>, b_layouts_to_lower := b_layouts_to_lower f @ L\<rparr>"
    using n by (auto simp: fn_dim_not_merged_def bm_not_merged_def bind_eq_Some_conv)
  have ms: "set ?ms = fset (bm_layouts (b_mem_blocks f))" "distinct ?ms" using iter_fset [OF it] by auto
  have B: "updated (set ?ms) (bk_not_merged a1 d2) ?B B" and L: "distinct L"
    "set L = {m \<in> set ?ms. \<exists>b. sv_index ?B m = Some b \<and> \<not> bk_is_ready b \<and> bk_is_ready (bk_not_merged a1 d2 b)}"
    using not_merged_fold [OF u(1) kernel_ok_wf(3) [OF ok] ms(2)] by auto
  have "layouts_ok (f\<lparr>b_mem_blocks := (b_mem_blocks f)\<lparr>bm_blocks := B\<rparr>, b_layouts_to_lower := b_layouts_to_lower f @ L\<rparr>)"
  proof (rule ready_layouts_ok [OF ly, where u = "\<lambda>m. if m \<in> set ?ms then bk_not_merged a1 d2 else id"])
    show "sv_index B m = map_option (if m \<in> set ?ms then bk_not_merged a1 d2 else id) (fn_block f m)" for m
      using B by (simp add: updated_def option.map_id)
    show "m \<in> set L \<longleftrightarrow> (\<exists>b. fn_block f m = Some b \<and> \<not> bk_is_ready b \<and> bk_is_ready ((if m \<in> set ?ms then bk_not_merged a1 d2 else id) b))" for m
      using L(2) by auto
  qed (simp_all add: L(1) bk_is_ready_def bk_not_merged_def)
  then show ?thesis unfolding u(2)
    using B by (intro change_blocks_ok [OF ok]) (simp_all add: proj_same [OF B] bk_not_merged_def updated_def)
qed

lemma swap_remove_found:
  assumes "List.extract (\<lambda>x. x = m) xs = Some (ys, z, zs)" "swap_remove (length ys) xs = Some (r, xs')" "distinct xs"
  shows "r = m \<and> distinct xs' \<and> set xs' = set xs - {m}"
proof -
  have xs: "xs = ys @ m # zs" "m \<notin> set ys" using assms(1) by (auto simp: extract_Some_iff)
  have "xs' = ys @ (if zs = [] then [] else last zs # butlast zs)" "r = m"
    using assms(2) by (auto simp: swap_remove_def xs(1) list_update_append butlast_append split: if_splits)
  moreover have "mset (if zs = [] then [] else last zs # butlast zs) = mset zs" by (cases zs rule: rev_cases) simp_all
  ultimately have "mset xs' = mset (ys @ zs)" by simp
  then have "set xs' = set (ys @ zs)" "distinct xs' = distinct (ys @ zs)" using mset_eq_setD mset_eq_imp_distinct_iff by blast+
  then show ?thesis using \<open>r = m\<close> assms(3) xs by auto
qed

lemma gen_internal_index_adds:
  assumes "gen_internal_index mem dims f = Some (op, p, f')"
  shows "(\<exists>v. f' = f\<lparr>b_induction_vars := b_induction_vars f @ [v]\<rparr>) \<and> ap_mem_block p = Some mem"
proof -
  obtain incrs r where "iv_new incrs (Op_Addr mem :: 'a operand) = Some r"
    and res: "(case r of Inl _ \<Rightarrow> None | Inr v \<Rightarrow> Some (Op_InductionVar (as_u32 (length (b_induction_vars f))) (T_PtrTo mem),
      AP_Tensor (Some mem) (fold (\<lambda>(d, s). AList.update d s) incrs []), f\<lparr>b_induction_vars := b_induction_vars f @ [v]\<rparr>)) = Some (op, p, f')"
    using assms by (auto simp: gen_internal_index_def gen_index_def bind_eq_Some_conv add_ind_var_def Let_def)
  then show ?thesis by (cases r) auto
qed

lemma lower_use_ok:
  assumes "kernel_ok f" "fn_lower_use li lp si sp iid f = Some f'"
  shows "kernel_ok f'"
proof -
  obtain x y where x: "fn_inst f iid = Some x" "inst_lower_layout li lp si sp x = Some y" "fn_update_inst iid (\<lambda>_. y) f = Some f'"
    using assms(2) by (auto simp: fn_lower_use_def bind_eq_Some_conv)
  have "same_refs x y" using x(2) by (cases "i_operator x") (auto simp: inst_lower_layout_def same_refs_def mem_used_def split: if_splits)
  then show ?thesis using update_inst_same_ok [OF assms(1) x(1) _ x(3)] by blast
qed

lemma fn_lower_layout_ok:
  assumes ok: "kernel_ok f" and l: "fn_lower_layout mem st_dims ld_dims f = Some f'"
  shows "kernel_ok f'"
proof -
  obtain xs y zs where e: "List.extract (\<lambda>x. x = mem) (b_layouts_to_lower f) = Some (xs, y, zs)"
    using l by (auto simp: fn_lower_layout_def bind_eq_Some_conv split: option.splits)
  obtain r L ds bm where s: "swap_remove (length xs) (b_layouts_to_lower f) = Some (r, L)" "bm_lower_layout mem (b_mem_blocks f) = Some (ds, bm)"
    using l e by (auto simp: fn_lower_layout_def bind_eq_Some_conv)
  let ?f = "f\<lparr>b_layouts_to_lower := L, b_mem_blocks := bm\<rparr>"
  obtain si sp f1 where i1: "gen_internal_index mem st_dims ?f = Some (si, sp, f1)"
    using l e s by (auto simp: fn_lower_layout_def bind_eq_Some_conv)
  obtain li lp f2 where i2: "gen_internal_index mem ld_dims f1 = Some (li, lp, f2)"
    using l e s i1 by (auto simp: fn_lower_layout_def bind_eq_Some_conv)
  obtain b :: mem_block where fold: "fold_option (fn_lower_use li lp si sp) (bk_uses b) f2 = Some f'"
    using l e s i1 i2 by (auto simp: fn_lower_layout_def bind_eq_Some_conv)
  obtain b0 where b0: "fn_block f mem = Some b0" "bk_is_ready b0" and bm: "bm = (b_mem_blocks f)\<lparr>bm_layouts := bm_layouts (b_mem_blocks f) |-| {|mem|}\<rparr>"
    using s(2) by (auto simp: bm_lower_layout_def bind_eq_Some_conv split: if_splits)
  have ly: "layouts_ok f" using ok by (simp add: kernel_ok_def)
  have "distinct L \<and> set L = set (b_layouts_to_lower f) - {mem}" using swap_remove_found [OF e s(1)] ly by (simp add: layouts_ok_def)
  then have "layouts_ok ?f" using ly b0 by (auto simp: layouts_ok_def bm proj_def)
  then have "kernel_ok ?f" using ok by (simp add: kernel_ok_def stores_ok_def refs_ok_def lists_ok_def vars_ok_def bm)
  then have "kernel_ok f2" using gen_internal_index_adds [OF i1] gen_internal_index_adds [OF i2] by (auto simp: kernel_ok_defs)
  then show ?thesis by (rule fold_option_inv [OF fold]) (rule lower_use_ok)
qed

section \<open>Reachable kernels\<close>

text \<open>The kernels that are built. A step that creates an object has to leave its store within the range of the identifiers.\<close>

inductive built :: "(nat list \<Rightarrow> nat list) \<Rightarrow> unit ir_function \<Rightarrow> bool" for iter where
  B_new: "built iter (fn_new s device)"
| B_inst: "built iter f \<Longrightarrow> add_inst iter op dims f = Some (r, f') \<Longrightarrow> sv_len (b_insts f') \<le> 2 ^ 32 \<Longrightarrow> sv_len (b_dim_mappings f') \<le> 2 ^ 16 \<Longrightarrow> built iter f'"
| B_logical: "built iter f \<Longrightarrow> add_logical_dim sz tf tiles f = Some (Inr (lid, ids, f')) \<Longrightarrow> sv_len (b_dims f) + length tiles < 2 ^ 32 \<Longrightarrow> built iter f'"
| B_mem: "built iter f \<Longrightarrow> add_mem_block bytes f = Some (mem, f') \<Longrightarrow> sv_len (bm_blocks (b_mem_blocks f)) < 2 ^ 32 \<Longrightarrow> built iter f'"
| B_map: "built iter f \<Longrightarrow> map_dimensions ds f = Some (mid, f') \<Longrightarrow> sv_len (b_dim_mappings f') \<le> 2 ^ 16 \<Longrightarrow> built iter f'"
| B_variable: "built iter f \<Longrightarrow> def_ok def \<Longrightarrow> add_variable iter def f = Some (Inr (vid, f')) \<Longrightarrow> sv_len (b_variables f) < 2 ^ 16 \<Longrightarrow> built iter f'"
| B_ind_var: "built iter f \<Longrightarrow> iv_new incrs base = Some (Inr v) \<Longrightarrow> built iter (snd (add_ind_var v f))"
| B_iteration: "built iter f \<Longrightarrow> set_iteration_dim iid d f = Some (added, f') \<Longrightarrow> built iter f'"
| B_thread: "built iter f \<Longrightarrow> add_thread_dim d f = Some (added, f') \<Longrightarrow> built iter f'"

text \<open>The kernels that the search reaches from a kernel that was built and frozen.\<close>

inductive reached :: "(nat list \<Rightarrow> nat list) \<Rightarrow> lowering_map ir_function \<Rightarrow> bool" for iter where
  R_freeze: "built iter f \<Longrightarrow> fn_freeze f = Some g \<Longrightarrow> reached iter g"
| R_lower_dims: "reached iter f \<Longrightarrow> lower_dim_map iter dst pos f = Some (Inr (lowered, f')) \<Longrightarrow> reached iter f'"
| R_merge: "reached iter f \<Longrightarrow> reached iter (fn_merge src dst f)"
| R_not_merged: "reached iter f \<Longrightarrow> fn_dim_not_merged iter d1 d2 f = Some f' \<Longrightarrow> reached iter f'"
| R_lower_layout: "reached iter f \<Longrightarrow> fn_lower_layout mem st_dims ld_dims f = Some f' \<Longrightarrow> reached iter f'"
| R_iteration: "reached iter f \<Longrightarrow> set_iteration_dim iid d f = Some (added, f') \<Longrightarrow> reached iter f'"
| R_thread: "reached iter f \<Longrightarrow> add_thread_dim d f = Some (added, f') \<Longrightarrow> reached iter f'"

lemmas builder_ok = fn_new_ok add_inst_ok add_logical_dim_ok add_mem_block_ok map_dimensions_ok add_variable_ok add_ind_var_ok
  set_iteration_dim_ok add_thread_dim_ok

lemmas lowering_ok = fn_freeze_ok lower_dim_map_ok fn_merge_ok fn_dim_not_merged_ok fn_lower_layout_ok set_iteration_dim_ok add_thread_dim_ok

lemma built_ok: "built iter f \<Longrightarrow> is_order iter \<Longrightarrow> kernel_ok f"
  by (induction rule: built.induct) (blast intro: builder_ok)+

lemma reached_ok: "reached iter f \<Longrightarrow> is_order iter \<Longrightarrow> kernel_ok f"
  by (induction rule: reached.induct) (blast intro: lowering_ok built_ok)+

end
