(* ===== verification/Kernel_Properties.thy ===== *)
theory Kernel_Properties
  imports Kernel_Frozen "HOL-Library.Code_Target_Nat"
begin

text \<open>
  Properties of kernels: every kernel that can be reached satisfies the invariant, the instruction that produces the value of a variable is
  always found, the identifiers that freezing reserves are distinct, the elements of a temporary array do not overlap, and which integers fit in an operand.
\<close>

section \<open>A kernel\<close>

text \<open>A value is computed in one loop and read in another one; the communication is lowered to a temporary array.\<close>

definition any_device :: ir_device where
  "any_device = \<lparr>dv_check_type = (\<lambda>_. Inr ()), dv_global_pointer = T_I 64\<rparr>"

definition accepted :: "('e + 'a) option \<Rightarrow> 'a option" where
  "accepted r = (case r of Some (Inr x) \<Rightarrow> Some x | _ \<Rightarrow> None)"

text \<open>The identifiers of the kernel fit in their types.\<close>

definition within_ids :: "'l ir_function \<Rightarrow> 'l ir_function option" where
  "within_ids f = (if sv_len (b_insts f) < 2 ^ 32 \<and> sv_len (b_dims f) < 2 ^ 32 \<and> sv_len (b_dim_mappings f) < 2 ^ 16 \<and> sv_len (b_variables f) < 2 ^ 16
     then Some f else None)"

definition sample_built :: "unit ir_function option" where
  "sample_built = do {
     f \<leftarrow> within_ids (fn_new (sig_new ''copy'') any_device);
     (_, _, f) \<leftarrow> accepted (add_logical_dim (size_new_const 8) (vs_new [1]) [] f);
     f \<leftarrow> within_ids f;
     (_, _, f) \<leftarrow> accepted (add_logical_dim (size_new_const 8) (vs_new [1]) [] f);
     (_, f) \<leftarrow> add_inst id (OP_UnaryOp U_Mov (Op_Int 1 32)) {|0|} f;
     f \<leftarrow> within_ids f;
     (_, f) \<leftarrow> add_inst id (OP_UnaryOp U_Mov (Op_Inst 0 (T_I 32) [(0, 1)] (DS_Global ()))) {|1|} f;
     f \<leftarrow> within_ids f;
     (_, f) \<leftarrow> accepted (add_variable id (VD_Inst 0) f);
     f \<leftarrow> within_ids f;
     (_, f) \<leftarrow> accepted (add_variable id (VD_DimMap 0 (vs_new [0])) f);
     Some f }"

definition sample_lowered :: "lowering_map ir_function option" where
  "sample_lowered = do {
     f \<leftarrow> sample_built;
     f \<leftarrow> fn_freeze f;
     (_, f) \<leftarrow> accepted (lower_dim_map id 1 0 f);
     f \<leftarrow> fn_dim_not_merged id 2 3 f;
     fn_lower_layout 0 [2] [3] f }"

lemma accepted_Some: "accepted r = Some x \<longleftrightarrow> r = Some (Inr x)"
  by (auto simp: accepted_def split: option.splits sum.splits)

lemma sample_built_defined: "sample_built \<noteq> None"
  by code_simp

lemma sample_lowered_defined: "sample_lowered \<noteq> None"
  by code_simp

lemma within_ids_Some: "within_ids f = Some g \<longleftrightarrow> g = f \<and> sv_len (b_insts f) < 2 ^ 32 \<and> sv_len (b_dims f) < 2 ^ 32
    \<and> sv_len (b_dim_mappings f) < 2 ^ 16 \<and> sv_len (b_variables f) < 2 ^ 16"
  by (auto simp: within_ids_def)

lemma sample_is_built: "sample_built = Some f \<Longrightarrow> built id f"
proof -
  assume "sample_built = Some f"
  then obtain l1 i1 f1 l2 i2 f2 r3 f3 r4 f4 v5 f5 v6
    where 1: "add_logical_dim (size_new_const 8) (vs_new [1]) [] (fn_new (sig_new ''copy'') any_device) = Some (Inr (l1, i1, f1))" "sv_len (b_dims f1) < 2 ^ 32"
    and 2: "add_logical_dim (size_new_const 8) (vs_new [1]) [] f1 = Some (Inr (l2, i2, f2))"
    and 3: "add_inst id (OP_UnaryOp U_Mov (Op_Int 1 32)) {|0|} f2 = Some (r3, f3)" "sv_len (b_insts f3) < 2 ^ 32" "sv_len (b_dim_mappings f3) < 2 ^ 16"
    and 4: "add_inst id (OP_UnaryOp U_Mov (Op_Inst 0 (T_I 32) [(0, 1)] (DS_Global ()))) {|1|} f3 = Some (r4, f4)" "sv_len (b_insts f4) < 2 ^ 32"
      "sv_len (b_dim_mappings f4) < 2 ^ 16" "sv_len (b_variables f4) < 2 ^ 16"
    and 5: "add_variable id (VD_Inst 0) f4 = Some (Inr (v5, f5))" "sv_len (b_variables f5) < 2 ^ 16"
    and 6: "add_variable id (VD_DimMap 0 (vs_new [0])) f5 = Some (Inr (v6, f))"
    unfolding sample_built_def bind_eq_Some_conv accepted_Some within_ids_Some split_paired_Ex prod.case by (elim exE conjE) auto
  have "built id f1" by (rule B_logical [OF B_new 1(1)]) (simp add: fn_new_def sv_new_ok)
  then have "built id f2" using B_logical [OF _ 2] 1(2) by simp
  then have "built id f3" using B_inst [OF _ 3(1)] 3(2,3) by simp
  then have "built id f4" using B_inst [OF _ 4(1)] 4(2,3) by simp
  then have "built id f5" using B_variable [OF _ _ 5(1)] 4(4) by simp
  then show ?thesis using B_variable [OF _ _ 6] 5(2) by (simp add: vs_inv_new)
qed

lemma sample_is_reached: "sample_lowered = Some g \<Longrightarrow> reached id g"
proof -
  assume "sample_lowered = Some g"
  then obtain f f1 l f2 f3 where 1: "sample_built = Some f" "fn_freeze f = Some f1" "lower_dim_map id 1 0 f1 = Some (Inr (l, f2))"
    "fn_dim_not_merged id 2 3 f2 = Some f3" "fn_lower_layout 0 [2] [3] f3 = Some g"
    unfolding sample_lowered_def bind_eq_Some_conv accepted_Some split_paired_Ex prod.case by blast
  have "reached id f1" using sample_is_built [OF 1(1)] 1(2) by (rule R_freeze)
  then show ?thesis using R_lower_layout [OF R_not_merged [OF R_lower_dims [OF _ 1(3)] 1(4)] 1(5)] by blast
qed

text \<open>C6: Every kernel that a sequence of calls of the builder, of freezing and of the transformations of the search produces satisfies the
  invariant: objects are stored at their identifiers, all cross references agree in both directions, the lists of static dimensions, thread dimensions and
  memory instructions are exact and without repetition, the layouts to lower are those without undecided pairs, and variables are taken from older ones.\<close>
theorem reached_kernels_consistent:
  assumes "reached iter f" "is_order iter"
  shows "kernel_ok f"
  using assms by (rule reached_ok)

theorem reached_kernels_consistent_witness: "case sample_lowered of Some f \<Rightarrow> kernel_ok f | None \<Rightarrow> False"
  using sample_lowered_defined reached_kernels_consistent [OF sample_is_reached] by (auto simp: is_order_def split: option.splits)

section \<open>The production of a value\<close>

lemma those_defined: "(\<And>x. x \<in> set xs \<Longrightarrow> g x \<noteq> None) \<Longrightarrow> \<exists>ys. those (map g xs) = Some ys"
proof (induction xs)
  case (Cons x xs)
  then obtain y where "g x = Some y" by fastforce
  then show ?case using Cons by auto
qed simp

lemma production_inst_defined:
  assumes ok: "kernel_ok f" and v: "fn_variable f v = Some var"
  shows "\<exists>i m. production_inst f (va_def var) = Some (i, m)"
  using v
proof (induction v arbitrary: var rule: less_induct)
  case (less v)
  have older: "p < v \<and> (\<exists>x. fn_variable f p = Some x)" if "p \<in> set (def_source (va_def var))" for p
    using ok that less.prems by (fastforce simp: kernel_ok_def vars_ok_def defs_ordered_def proj_def)
  have mapped: "fn_mapping f k \<noteq> None" if "k \<in> set (vd_mapped_dims (va_def var))" for k
  proof -
    have "has (\<lambda>v. set (vd_mapped_dims (va_def v))) (b_variables f) v k" using that less.prems by (simp add: has_def proj_def)
    then have "has (\<lambda>m. elems (mp_variables m)) (b_dim_mappings f) k v" using ok by (simp add: kernel_ok_def refs_ok_def dual_def)
    then show ?thesis by (auto simp: has_def proj_def)
  qed
  show ?case
  proof (cases "va_def var")
    case (VD_Inst i)
    then show ?thesis by (simp add: production_inst.simps)
  next
    case (VD_Last p ds)
    then obtain x where x: "p < v" "fn_variable f p = Some x" using older by auto
    obtain i m where "production_inst f (va_def x) = Some (i, m)" using less.IH [OF x] by blast
    then show ?thesis using VD_Last x(2) by (simp add: production_inst.simps [of f "VD_Last p ds"])
  next
    case (VD_DimMap p ms)
    then obtain x where x: "p < v" "fn_variable f p = Some x" using older by auto
    obtain i m where im: "production_inst f (va_def x) = Some (i, m)" using less.IH [OF x] by blast
    obtain pairs where "those (map (\<lambda>k. map_option mp_dims (fn_mapping f k)) (data ms)) = Some pairs"
      using those_defined [of "data ms" "\<lambda>k. map_option mp_dims (fn_mapping f k)"] mapped VD_DimMap by auto
    then show ?thesis using VD_DimMap x(2) im by (auto simp: production_inst.simps [of f "VD_DimMap p ms"])
  qed
qed


lemma sample_variable: "case sample_built of Some f \<Rightarrow> map_option va_def (fn_variable f 1) = Some (VD_DimMap 0 (vs_new [0])) | None \<Rightarrow> False"
  by code_simp


section \<open>Integer operands\<close>

lemma bits_loop_le: "bits_loop n \<le> w \<longleftrightarrow> n < 2 ^ w"
proof (induction n arbitrary: w rule: bits_loop.induct)
  case (1 n)
  show ?case
  proof (cases "n = 0")
    case False
    then have step: "bits_loop n = Suc (bits_loop (n div 2))" by (simp add: bits_loop.simps [of n])
    show ?thesis
    proof (cases w)
      case (Suc k)
      then show ?thesis using 1 [OF False, of k] step by auto
    qed (use False step in simp)
  qed (simp add: bits_loop.simps [of 0])
qed

lemma op_new_int_iff:
  "op_new_int v len \<noteq> None \<longleftrightarrow> (if v < 0 then 0 < len \<and> - (2 ^ (unat len - 1)) < v else v < 2 ^ unat len)"
proof (cases "v < 0")
  case True
  have "num_bits v \<le> unat len \<longleftrightarrow> 0 < unat len \<and> bits_loop (nat \<bar>v\<bar>) \<le> unat len - 1" using True by (auto simp: num_bits_def)
  also have "\<dots> \<longleftrightarrow> 0 < unat len \<and> nat (- v) < 2 ^ (unat len - 1)" using True by (simp add: bits_loop_le)
  also have "\<dots> \<longleftrightarrow> 0 < len \<and> - v < 2 ^ (unat len - 1)" using True by (simp add: word_less_nat_alt nat_less_iff)
  finally show ?thesis using True by (auto simp: op_new_int_def)
next
  case False
  then have "num_bits v \<le> unat len \<longleftrightarrow> nat v < 2 ^ unat len" by (simp add: num_bits_def bits_loop_le)
  then show ?thesis using False by (simp add: op_new_int_def nat_less_iff)
qed

text \<open>C24: An integer is accepted for an operand of \<open>w\<close> bits exactly when it is less than \<open>2 ^ w\<close> and greater than \<open>- 2 ^ (w - 1)\<close>: the
  least value of a signed integer of this width is refused.\<close>
theorem op_new_int_accepts:
  "op_new_int v len \<noteq> None \<longleftrightarrow> (if v < 0 then 0 < len \<and> - (2 ^ (unat len - 1)) < v else v < 2 ^ unat len)"
  by (rule op_new_int_iff)

text \<open>So \<^verbatim>\<open>i8::MIN\<close> cannot be an operand of eight bits.\<close>

lemma min_value_refused: "op_new_int (- 128) 8 = None"
  using op_new_int_iff [of "- 128" 8] by simp

section \<open>Reserved identifiers\<close>

fun op_lowered :: "lowering_map operand \<Rightarrow> lowered_dim_map option list" where
  "op_lowered (Op_Inst _ _ m (DS_Global l)) = [lm_lower l m]"
| "op_lowered _ = []"

definition inst_lowered :: "lowering_map instruction \<Rightarrow> lowered_dim_map option list" where
  "inst_lowered i = concat (map op_lowered (operands (i_operator i)))"

definition lowered_dims :: "lowered_dim_map \<Rightarrow> nat list" where
  "lowered_dims l = new_dims (ld_st_dims_mapping l) @ new_dims (ld_ld_dims_mapping l)"

definition lowered_mappings :: "lowered_dim_map \<Rightarrow> nat list" where
  "lowered_mappings l = map fst (ld_st_dims_mapping l) @ map fst (ld_ld_dims_mapping l)"

definition lowered_insts :: "lowered_dim_map \<Rightarrow> nat list" where
  "lowered_insts l = [ld_store l, ld_load l]"

text \<open>A map between dimensions relates distinct dimensions to distinct dimensions.\<close>

fun one_to_one :: "'l operand \<Rightarrow> bool" where
  "one_to_one (Op_Inst _ _ m (DS_Global _)) \<longleftrightarrow> distinct (map fst m) \<and> distinct (map snd m)"
| "one_to_one _ \<longleftrightarrow> True"

text \<open>The identifiers between two values of the counters are given out, each of them once.\<close>

definition gives :: "nat \<Rightarrow> nat \<Rightarrow> nat list \<Rightarrow> bool" where
  "gives a b ids \<longleftrightarrow> a \<le> b \<and> distinct ids \<and> set ids = {a..<b}"

definition allots :: "counter \<Rightarrow> counter \<Rightarrow> lowered_dim_map list \<Rightarrow> bool" where
  "allots c c' ls \<longleftrightarrow> gives (next_mem c) (next_mem c') (map ld_mem ls) \<and> gives (next_inst c) (next_inst c') (concat (map lowered_insts ls))
     \<and> gives (next_dim c) (next_dim c') (concat (map lowered_dims ls)) \<and> gives (next_dim_mapping c) (next_dim_mapping c') (concat (map lowered_mappings ls))"

definition small :: "counter \<Rightarrow> bool" where
  "small c \<longleftrightarrow> next_mem c \<le> 2 ^ 32 \<and> next_inst c \<le> 2 ^ 32 \<and> next_dim c \<le> 2 ^ 32"

lemma gives_append: "gives a b xs \<Longrightarrow> gives b c ys \<Longrightarrow> gives a c (xs @ ys)"
  by (auto simp: gives_def)

lemma allots_append: "allots c c' xs \<Longrightarrow> allots c' c'' ys \<Longrightarrow> allots c c'' (xs @ ys)"
  by (auto simp: allots_def intro: gives_append)

lemma allots_Nil: "allots c c []"
  by (simp add: allots_def gives_def)

lemma allots_small: "allots c c' ls \<Longrightarrow> small c' \<Longrightarrow> small c"
  by (auto simp: allots_def gives_def small_def)

text \<open>Every pair takes two dimensions and two mappings.\<close>

lemma lowering_pairs_ids:
  assumes "lowering_pairs m c = Some (st, ld, c')"
  shows "map fst st = map fst m \<and> map fst ld = map snd m \<and> next_mem c' = next_mem c \<and> next_inst c' = next_inst c
    \<and> next_dim c' = next_dim c + 2 * length m
    \<and> gives (next_dim_mapping c) (next_dim_mapping c') (map (\<lambda>e. snd (snd e)) st @ map (\<lambda>e. snd (snd e)) ld)
    \<and> (next_dim c' \<le> 2 ^ 32 \<longrightarrow> gives (next_dim c) (next_dim c') (map (\<lambda>e. fst (snd e)) st @ map (\<lambda>e. fst (snd e)) ld))"
  using assms
proof (induction m arbitrary: c st ld c')
  case Nil
  then show ?case by (simp add: gives_def)
next
  case (Cons p m)
  obtain src dst where p: "p = (src, dst)" by fastforce
  let ?d = "next_dim c" and ?k = "next_dim_mapping c"
  let ?c = "c\<lparr>next_dim := Suc (Suc ?d), next_dim_mapping := Suc (Suc ?k)\<rparr>"
  obtain st' ld' where r: "lowering_pairs m ?c = Some (st', ld', c')"
    "st = (src, as_u32 ?d, ?k) # st'" "ld = (dst, as_u32 (Suc ?d), Suc ?k) # ld'"
    using Cons.prems by (auto simp: p counter_dim_def counter_dim_mapping_def bind_eq_Some_conv Let_def split: if_splits)
  have ih: "next_dim c' = Suc (Suc ?d) + 2 * length m" "gives (Suc (Suc ?k)) (next_dim_mapping c') (map (\<lambda>e. snd (snd e)) st' @ map (\<lambda>e. snd (snd e)) ld')"
    "next_dim c' \<le> 2 ^ 32 \<longrightarrow> gives (Suc (Suc ?d)) (next_dim c') (map (\<lambda>e. fst (snd e)) st' @ map (\<lambda>e. fst (snd e)) ld')"
    "map fst st' = map fst m" "map fst ld' = map snd m" "next_mem c' = next_mem c" "next_inst c' = next_inst c"
    using Cons.IH [OF r(1)] by auto
  have pair: "gives a b (a # xs @ Suc a # ys)" if "gives (Suc (Suc a)) b (xs @ ys)" for a b xs ys
  proof -
    have "set (xs @ ys) = {Suc (Suc a)..<b}" using that by (simp only: gives_def)
    then have "a \<notin> set (xs @ ys)" "Suc a \<notin> set (xs @ ys)" by (simp_all del: set_append)
    moreover have "{a..<b} = insert a (insert (Suc a) {Suc (Suc a)..<b})" using that by (auto simp: gives_def)
    ultimately show ?thesis using that by (auto simp: gives_def)
  qed
  have "as_u32 ?d = ?d \<and> as_u32 (Suc ?d) = Suc ?d" if "next_dim c' \<le> 2 ^ 32" using that ih(1) by (simp add: as_u32_def)
  then show ?case using ih p pair by (auto simp: r(2,3))
qed

lemma lower_all:
  assumes "distinct (map fst st)"
  shows "those (map (\<lambda>e. lower_dim (hash_collect st) (fst e)) st) = Some (map (\<lambda>(d, new_dim, mapping). (mapping, d, new_dim)) st)"
proof -
  have "lower_dim (hash_collect st) (fst e) = Some (snd (snd e), fst e, fst (snd e))" if "e \<in> set st" for e
  proof -
    have "map_of (rev st) (fst e) = Some (snd e)"
      by (rule map_of_is_SomeI) (use that assms in \<open>simp_all add: rev_map [symmetric]\<close>)
    then show ?thesis by (simp add: lower_dim_def hash_collect_def case_prod_beta)
  qed
  then have "those (map (\<lambda>e. lower_dim (hash_collect st) (fst e)) es) = Some (map (\<lambda>(d, new_dim, mapping). (mapping, d, new_dim)) es)" if "set es \<subseteq> set st" for es
    using that by (induction es) auto
  then show ?thesis by blast
qed

lemma for_dim_map_allots:
  assumes "for_dim_map m c = Some (l, c')" "distinct (map fst m)" "distinct (map snd m)" "small c'"
  shows "\<exists>x. lm_lower l m = Some x \<and> allots c c' [x]"
proof -
  let ?c = "c\<lparr>next_mem := Suc (next_mem c), next_inst := Suc (Suc (next_inst c))\<rparr>"
  obtain st ld where r: "lowering_pairs m ?c = Some (st, ld, c')" and l: "l = \<lparr>lm_mem_id = as_u32 (next_mem c), lm_st_inst = as_u32 (next_inst c),
      lm_st_map = hash_collect st, lm_ld_inst = as_u32 (Suc (next_inst c)), lm_ld_map = hash_collect ld\<rparr>"
    using assms(1) by (auto simp: for_dim_map_def counter_mem_def counter_inst_def bind_eq_Some_conv Let_def)
  note p = lowering_pairs_ids [OF r]
  let ?e = "\<lambda>(d, new_dim, mapping). (mapping, d, new_dim)"
  have st: "those (map (\<lambda>(src, _). lower_dim (hash_collect st) src) m) = Some (map ?e st)"
  proof -
    have "map (\<lambda>(src, _). lower_dim (hash_collect st) src) m = map (\<lambda>e. lower_dim (hash_collect st) (fst e)) st"
      using arg_cong [OF conjunct1 [OF p], of "map (lower_dim (hash_collect st))"] by (simp add: comp_def case_prod_beta)
    then show ?thesis using lower_all [of st] assms(2) p by simp
  qed
  have ld: "those (map (\<lambda>(_, dst). lower_dim (hash_collect ld) dst) m) = Some (map ?e ld)"
  proof -
    have "map fst ld = map snd m" using p by blast
    then have "map (\<lambda>e. g (snd e)) m = map (\<lambda>e. g (fst e)) ld" for g :: "nat \<Rightarrow> (nat \<times> nat \<times> nat) option" 
    proof -
      have "map g (map snd m) = map g (map fst ld)" by (simp only: \<open>map fst ld = map snd m\<close>)
      then show ?thesis by (simp add: comp_def)
    qed
    then have "map (\<lambda>(_, dst). lower_dim (hash_collect ld) dst) m = map (\<lambda>e. lower_dim (hash_collect ld) (fst e)) ld"
      unfolding case_prod_beta by blast
    then show ?thesis using lower_all [of ld] assms(3) \<open>map fst ld = map snd m\<close> by simp
  qed
  let ?x = "\<lparr>ld_mem = next_mem c, ld_store = next_inst c, ld_load = Suc (next_inst c), ld_st_dims_mapping = map ?e st, ld_ld_dims_mapping = map ?e ld\<rparr>"
  have ids: "as_u32 (next_mem c) = next_mem c" "as_u32 (next_inst c) = next_inst c" "as_u32 (Suc (next_inst c)) = Suc (next_inst c)"
    using assms(4) p by (simp_all add: small_def as_u32_def)
  have "lm_lower l m = Some ?x" using st ld ids by (simp add: l lm_lower_def)
  moreover have "lowered_dims ?x = map (\<lambda>e. fst (snd e)) st @ map (\<lambda>e. fst (snd e)) ld" "lowered_mappings ?x = map (\<lambda>e. snd (snd e)) st @ map (\<lambda>e. snd (snd e)) ld"
    by (simp_all add: lowered_dims_def lowered_mappings_def new_dims_def comp_def case_prod_beta)
  then have "allots c c' [?x]" using p assms(4) by (auto simp: allots_def small_def lowered_insts_def) (auto simp: gives_def)
  ultimately show ?thesis by blast
qed

text \<open>What a step of freezing reserves.\<close>

definition reserves :: "counter \<Rightarrow> counter \<Rightarrow> lowered_dim_map option list \<Rightarrow> bool" where
  "reserves c c' os \<longleftrightarrow> small c' \<longrightarrow> (\<exists>ls. os = map Some ls \<and> allots c c' ls)"

lemma reserves_Nil: "reserves c c []"
  by (simp add: reserves_def allots_Nil)

lemma reserves_append: "reserves c c' xs \<Longrightarrow> reserves c' c'' ys \<Longrightarrow> reserves c c'' (xs @ ys)"
  unfolding reserves_def by (metis allots_append allots_small map_append)

lemma op_freeze_reserves: "op_freeze op c = Some (op', c') \<Longrightarrow> one_to_one op \<Longrightarrow> reserves c c' (op_lowered op')"
proof (induction op c rule: op_freeze.induct)
  case (3 i t m u c)
  then obtain l where l: "for_dim_map m c = Some (l, c')" "op' = Op_Inst i t m (DS_Global l)" by auto
  then have "\<exists>x. lm_lower l m = Some x \<and> allots c c' [x]" if "small c'" using for_dim_map_allots [OF l(1)] 3(2) that by simp
  then show ?case unfolding reserves_def l(2) by (metis list.map(1,2) op_lowered.simps(1))
qed (auto simp: reserves_Nil)

lemma operator_freeze_reserves:
  assumes "operator_freeze op c = Some (op', c')" "\<forall>x \<in> set (operands op). one_to_one x"
  shows "reserves c c' (concat (map op_lowered (operands op')))"
  using assms by (cases op)
    (auto simp: operator_freeze_def bind_eq_Some_conv intro!: reserves_append reserves_Nil dest!: op_freeze_reserves)

lemma freeze_slots_reserves:
  assumes "map_accum freeze_slot slots c = Some (slots', c')" "\<And>i x. Some i \<in> set slots \<Longrightarrow> x \<in> set (operands (i_operator i)) \<Longrightarrow> one_to_one x"
  shows "reserves c c' (concat (map inst_lowered (List.map_filter id slots')))"
  using assms
proof (induction slots arbitrary: c slots')
  case Nil
  then show ?case by (simp add: List.map_filter_def reserves_Nil)
next
  case (Cons slot slots)
  then obtain slot' c1 rest where r: "freeze_slot slot c = Some (slot', c1)" "map_accum freeze_slot slots c1 = Some (rest, c')" "slots' = slot' # rest"
    by (auto simp: bind_eq_Some_conv)
  have ih: "reserves c1 c' (concat (map inst_lowered (List.map_filter id rest)))" by (rule Cons.IH [OF r(2)]) (use Cons.prems(2) in auto)
  have "reserves c c1 (concat (map inst_lowered (List.map_filter id [slot'])))"
  proof (cases slot)
    case None
    then show ?thesis using r(1) by (simp add: freeze_slot_def List.map_filter_def reserves_Nil)
  next
    case (Some i)
    then show ?thesis using r(1) Cons.prems(2) [of i]
      by (auto simp: freeze_slot_def inst_freeze_def bind_eq_Some_conv List.map_filter_def inst_lowered_def dest: operator_freeze_reserves)
  qed
  from reserves_append [OF this ih] show ?case by (cases slot') (simp_all add: r(3) List.map_filter_def comp_def)
qed

lemma map_accum_le:
  assumes "map_accum h xs s = Some (ys, s')" "\<And>x y s s'. h x s = Some (y, s') \<Longrightarrow> (k s :: nat) \<le> k s'"
  shows "k s \<le> k s'"
  using assms(1)
proof (induction xs arbitrary: ys s)
  case (Cons x xs)
  then obtain y t zs where "h x s = Some (y, t)" "map_accum h xs t = Some (zs, s')" by (auto simp: bind_eq_Some_conv)
  then show ?case using Cons.IH assms(2) order_trans by blast
qed simp

lemma op_freeze_le:
  assumes "op_freeze op c = Some (op', c')"
  shows "next_mem c \<le> next_mem c' \<and> next_inst c \<le> next_inst c' \<and> next_dim c \<le> next_dim c' \<and> next_dim_mapping c \<le> next_dim_mapping c'"
  using assms
proof (induction op c rule: op_freeze.induct)
  case (3 i t m u c)
  then obtain l where "for_dim_map m c = Some (l, c')" by auto
  then show ?case by (auto simp: for_dim_map_def counter_mem_def counter_inst_def bind_eq_Some_conv Let_def gives_def dest!: lowering_pairs_ids)
qed auto

lemma iv_freeze_le:
  assumes "iv_freeze v c = Some (v', c')"
  shows "next_mem c \<le> next_mem c' \<and> next_inst c \<le> next_inst c' \<and> next_dim c \<le> next_dim c' \<and> next_dim_mapping c \<le> next_dim_mapping c'"
  using assms op_freeze_le by (auto simp: iv_freeze_def)

lemma sv_len_expand: "sv_expand_to c v = Some v' \<Longrightarrow> sv_len v' = c"
  by (auto simp: sv_expand_to_def sv_len_def split: if_splits)

text \<open>C7: Freezing reserves, for the operands whose communication may be lowered, identifiers of memory blocks, instructions, dimensions
  and mappings that are not used yet, that lie within the capacity of the stores and that are all different, so that each of the lowerings can take
  place, in any order.\<close>
theorem freeze_reserves_distinct:
  assumes "fn_freeze f = Some g" "\<forall>i \<in> set (sv_iter (b_insts f)). \<forall>x \<in> set (operands (i_operator i)). one_to_one x"
    and "sv_len (bm_blocks (b_mem_blocks g)) \<le> 2 ^ 32" "sv_len (b_insts g) \<le> 2 ^ 32" "sv_len (b_dims g) \<le> 2 ^ 32" "sv_len (b_dim_mappings f) < 2 ^ 16"
  shows "\<exists>ls. concat (map inst_lowered (sv_iter (b_insts g))) = map Some ls
    \<and> distinct (map ld_mem ls) \<and> set (map ld_mem ls) \<subseteq> {sv_len (bm_blocks (b_mem_blocks f))..<sv_len (bm_blocks (b_mem_blocks g))}
    \<and> distinct (concat (map lowered_insts ls)) \<and> set (concat (map lowered_insts ls)) \<subseteq> {sv_len (b_insts f)..<sv_len (b_insts g)}
    \<and> distinct (concat (map lowered_dims ls)) \<and> set (concat (map lowered_dims ls)) \<subseteq> {sv_len (b_dims f)..<sv_len (b_dims g)}
    \<and> distinct (concat (map lowered_mappings ls))
    \<and> set (concat (map lowered_mappings ls)) \<subseteq> {sv_len (b_dim_mappings f)..<sv_len (b_dim_mappings g)}"
  using assms(1)
proof (rule fn_freezeE)
  fix slots c1 ind_vars c2 insts dims blocks mappings
  assume s: "map_accum freeze_slot (sv_vec (b_insts f)) (start_counter f) = Some (slots, c1)"
    and v: "map_accum iv_freeze (b_induction_vars f) c1 = Some (ind_vars, c2)"
    and u: "sv_expand_to (next_inst c2) (sv_from_vec slots) = Some insts" "sv_expand_to (next_dim c2) (sv_from_vec (sv_vec (b_dims f))) = Some dims"
      "expand_blocks_to (next_mem c2) (b_mem_blocks f) = Some blocks" "sv_expand_to (next_dim_mapping c2) (b_dim_mappings f) = Some mappings"
    and g: "g = \<lparr>b_insts = insts, b_dims = dims, b_static_dims = b_static_dims f, b_thread_dims = b_thread_dims f, b_mem_insts = b_mem_insts f,
       b_mem_blocks = blocks, b_layouts_to_lower = b_layouts_to_lower f, b_induction_vars = ind_vars, b_logical_dims = b_logical_dims f,
       b_dim_mappings = mappings, b_variables = b_variables f, fn_signature = fn_signature f, fn_device = fn_device f\<rparr>"
  have len: "sv_len (b_insts g) = next_inst c2" "sv_len (b_dims g) = next_dim c2" "sv_len (bm_blocks (b_mem_blocks g)) = next_mem c2"
    "sv_len (b_dim_mappings g) = next_dim_mapping c2"
    using u by (auto simp: g expand_blocks_to_def dest: sv_len_expand)
  have le: "next_mem c1 \<le> next_mem c2" "next_inst c1 \<le> next_inst c2" "next_dim c1 \<le> next_dim c2" "next_dim_mapping c1 \<le> next_dim_mapping c2"
    using map_accum_le [OF v, of next_mem] map_accum_le [OF v, of next_inst] map_accum_le [OF v, of next_dim] map_accum_le [OF v, of next_dim_mapping]
      iv_freeze_le by blast+
  have "sv_iter (b_insts g) = List.map_filter id slots"
    using u(1) by (auto simp: g sv_iter_def sv_expand_to_def sv_from_vec_def split: if_splits)
  moreover have "reserves (start_counter f) c1 (concat (map inst_lowered (List.map_filter id slots)))"
    by (rule freeze_slots_reserves [OF s]) (use assms(2) in \<open>force simp: sv_iter_def List.map_filter_def\<close>)
  moreover have "small c1" using le len assms(3-5) by (simp add: small_def)
  ultimately obtain ls where ls: "concat (map inst_lowered (sv_iter (b_insts g))) = map Some ls" "allots (start_counter f) c1 ls"
    by (auto simp: reserves_def)
  then show ?thesis using le assms(6) by (intro exI [of _ ls]) (simp add: allots_def gives_def len start_counter_def as_u16_def)
qed

lemma sample_maps: "case sample_built of Some f \<Rightarrow> list_all (\<lambda>i. list_all one_to_one (operands (i_operator i))) (sv_iter (b_insts f)) | None \<Rightarrow> False"
  by code_simp

lemma sample_frozen_len: "case Option.bind sample_built fn_freeze of
    Some g \<Rightarrow> sv_len (bm_blocks (b_mem_blocks g)) = 1 \<and> sv_len (b_insts g) = 4 \<and> sv_len (b_dims g) = 4 \<and> sv_len (b_dim_mappings g) = 3 | None \<Rightarrow> False"
  by code_simp

lemma sample_len: "case sample_built of Some f \<Rightarrow> sv_len (bm_blocks (b_mem_blocks f)) = 0 \<and> sv_len (b_insts f) = 2 \<and> sv_len (b_dims f) = 2 \<and> sv_len (b_dim_mappings f) = 1 | None \<Rightarrow> False"
  by code_simp

theorem freeze_reserves_distinct_witness:
  "case Option.bind sample_built fn_freeze of
     Some g \<Rightarrow> (\<exists>ls. concat (map inst_lowered (sv_iter (b_insts g))) = map Some ls \<and> set (concat (map lowered_dims ls)) \<subseteq> {2..<4}
       \<and> distinct (concat (map lowered_dims ls)))
   | None \<Rightarrow> False"
proof -
  obtain f where f: "sample_built = Some f" using sample_built_defined by blast
  obtain g where g: "fn_freeze f = Some g" using sample_frozen_len unfolding f by (cases "fn_freeze f") auto
  have len: "sv_len (bm_blocks (b_mem_blocks g)) = 1" "sv_len (b_insts g) = 4" "sv_len (b_dims g) = 4" "sv_len (b_dims f) = 2" "sv_len (b_dim_mappings f) = 1"
    using sample_frozen_len sample_len unfolding f by (simp_all add: g)
  have "\<forall>i \<in> set (sv_iter (b_insts f)). \<forall>x \<in> set (operands (i_operator i)). one_to_one x" using sample_maps unfolding f by (simp add: list_all_iff)
  from freeze_reserves_distinct [OF g this] show ?thesis unfolding f by (auto simp: g len)
qed

section \<open>Addresses\<close>

text \<open>The offset of an element: the increments are those of nested loops, the innermost first.\<close>

definition incr_value :: "(nat \<Rightarrow> nat) \<Rightarrow> 'p partial_size \<Rightarrow> nat" where
  "incr_value sizes s = unat (static_factor s) * prod_list (map sizes (data (dim_factors s)))"

definition iv_offset :: "(nat \<Rightarrow> nat) \<Rightarrow> (nat \<Rightarrow> nat) \<Rightarrow> (nat \<times> 'p partial_size) list \<Rightarrow> nat" where
  "iv_offset sizes pos incrs = sum_list (map (\<lambda>(d, s). pos d * incr_value sizes s) incrs)"

fun offset :: "(nat \<Rightarrow> nat) \<Rightarrow> (nat \<Rightarrow> nat) \<Rightarrow> nat \<Rightarrow> nat list \<Rightarrow> nat" where
  "offset sizes pos stride [] = 0"
| "offset sizes pos stride (d # ds) = pos d * stride + offset sizes pos (stride * sizes d) ds"

lemma offset_bound:
  assumes "\<forall>d \<in> set ds. pos d < sizes d" "r < stride"
  shows "offset sizes pos stride ds + r < stride * prod_list (map sizes ds)"
  using assms
proof (induction ds arbitrary: stride r)
  case (Cons d ds)
  have "pos d * stride + r < Suc (pos d) * stride" using Cons.prems(2) by simp
  also have "\<dots> \<le> sizes d * stride" using Cons.prems(1) by (intro mult_right_mono) auto
  finally have "pos d * stride + r < stride * sizes d" by (simp add: mult.commute)
  from Cons.IH [OF _ this] show ?case using Cons.prems(1) by (simp add: ac_simps)
qed simp

lemma offset_inj:
  assumes "\<forall>d \<in> set ds. p d < sizes d \<and> q d < sizes d" "r < stride" "r' < stride" "offset sizes p stride ds + r = offset sizes q stride ds + r'"
  shows "(\<forall>d \<in> set ds. p d = q d) \<and> r = r'"
  using assms
proof (induction ds arbitrary: stride r r')
  case (Cons d ds)
  have lt: "x * stride + t < stride * sizes d" if "x < sizes d" "t < stride" for x t
  proof -
    have "x * stride + t < Suc x * stride" using that(2) by simp
    also have "\<dots> \<le> sizes d * stride" using that(1) by (intro mult_right_mono) auto
    finally show ?thesis by (simp add: mult.commute)
  qed
  have "(\<forall>d \<in> set ds. p d = q d) \<and> p d * stride + r = q d * stride + r'"
  proof -
    have lt2: "p d * stride + r < stride * sizes d" "q d * stride + r' < stride * sizes d" using Cons.prems(1-3) by (simp_all add: lt)
    have eq: "offset sizes p (stride * sizes d) ds + (p d * stride + r) = offset sizes q (stride * sizes d) ds + (q d * stride + r')"
      using Cons.prems(4) by simp
    show ?thesis by (rule Cons.IH [OF _ lt2 eq]) (use Cons.prems(1) in simp)
  qed
  moreover have "p d = q d \<and> r = r'" if "p d * stride + r = q d * stride + r'"
  proof -
    have "(p d * stride + r) div stride = p d" "(q d * stride + r') div stride = q d" using Cons.prems(2,3) by simp_all
    then show ?thesis using that by auto
  qed
  ultimately show ?case by auto
qed simp

text \<open>The size of a static dimension is the dimension itself.\<close>

definition plain_dim :: "'l ir_function \<Rightarrow> nat \<Rightarrow> bool" where
  "plain_dim f d \<longleftrightarrow> (\<exists>x. fn_dim f d = Some x \<and> d_size x = ps_new_dim_size d)"

lemma plain_mul:
  assumes "ps_mul s (ps_new_dim_size d) = Some s'" "vs_inv (dim_factors s)" "divisors s = vs_default" "d \<notin> elems (dim_factors s)"
  shows "vs_inv (dim_factors s') \<and> divisors s' = vs_default \<and> elems (dim_factors s') = insert d (elems (dim_factors s)) \<and> static_factor s' = static_factor s
    \<and> incr_value sizes s' = incr_value sizes s * sizes d"
proof -
  let ?u = "vs_union (dim_factors s) (vs_new [d])"
  have u: "vs_inv ?u" "elems ?u = insert d (elems (dim_factors s))" using vs_union_spec [OF assms(2) vs_inv_new, of "[d]"] by (auto simp: elems_new)
  have e: "vs_union vs_default vs_default = (vs_default :: nat vec_set)" by (rule vs_eqI) (simp_all add: vs_union_spec vs_default_spec)
  have "vs_relative_difference ?u vs_default = (?u, vs_default)"
    using vs_relative_difference_spec [OF u(1) vs_default_spec(1)] by (simp add: vs_filter_def vs_default_def elems_def)
  then have s': "dim_factors s' = ?u" "divisors s' = vs_default" "static_factor s' = static_factor s"
    using assms(1,3) e by (auto simp: ps_mul_def ps_simplify_def ps_new_dim_size_def ps_default_def bind_eq_Some_conv checked_mul_def Let_def split: if_splits)
  have "finite (elems (dim_factors s))" by (simp add: elems_def)
  then have "incr_value sizes s' = incr_value sizes s * sizes d" using prod_data [OF u(1)] prod_data [OF assms(2)] u(2) s' assms(4) by (simp add: incr_value_def)
  then show ?thesis using s' u by simp
qed

lemma index_increments_offset:
  assumes "index_increments f s ds = Some incrs" "\<forall>d \<in> set ds. plain_dim f d" "distinct ds" "vs_inv (dim_factors s)" "divisors s = vs_default"
    "set ds \<inter> elems (dim_factors s) = {}"
  shows "map fst incrs = ds \<and> iv_offset sizes pos incrs = offset sizes pos (incr_value sizes s) ds"
  using assms
proof (induction ds arbitrary: s incrs)
  case (Cons d ds)
  obtain s' rest where r: "ps_mul s (ps_new_dim_size d) = Some s'" "index_increments f s' ds = Some rest" "incrs = (d, s) # rest"
    using Cons.prems(1,2) by (auto simp: bind_eq_Some_conv plain_dim_def)
  note m = plain_mul [OF r(1), of sizes]
  have "map fst rest = ds \<and> iv_offset sizes pos rest = offset sizes pos (incr_value sizes s') ds"
    by (rule Cons.IH [OF r(2)]) (use Cons.prems m in auto)
  then show ?case using Cons.prems m by (simp add: r(3) iv_offset_def)
qed (simp add: iv_offset_def)

lemma find_duplicate_None: "find_duplicate ds seen = None \<Longrightarrow> distinct ds \<and> set ds \<inter> seen = {}"
  by (induction ds arbitrary: seen) (auto split: if_splits)

lemma gen_index_increments:
  assumes "gen_index mem base addr dims f = Some (op, p, f')" "\<forall>d \<in> set dims. plain_dim f d"
  shows "\<exists>v. b_induction_vars f' = b_induction_vars f @ [v] \<and> distinct dims \<and> map fst (iv_dims v) = rev dims \<and> base \<noteq> 0
    \<and> iv_offset sizes pos (iv_dims v) = offset sizes pos (unat base) (rev dims)"
proof -
  obtain s incrs r where s: "ps_new base [] = Some s" "index_increments f s (rev dims) = Some incrs" "iv_new incrs addr = Some r"
    and res: "(case r of Inl _ \<Rightarrow> None | Inr v \<Rightarrow> Some (Op_InductionVar (as_u32 (length (b_induction_vars f))) (op_t addr),
      AP_Tensor (Some mem) (fold (\<lambda>(d, s). AList.update d s) incrs []), f\<lparr>b_induction_vars := b_induction_vars f @ [v]\<rparr>)) = Some (op, p, f')"
    using assms(1) by (auto simp: gen_index_def bind_eq_Some_conv add_ind_var_def Let_def)
  obtain v where v: "iv_new incrs addr = Some (Inr v)" "f' = f\<lparr>b_induction_vars := b_induction_vars f @ [v]\<rparr>" using s(3) res by (cases r) auto
  have new: "iv_dims v = incrs" "find_duplicate (map fst incrs) {} = None"
    using v(1) by (auto simp: iv_new_def split: sum.splits option.splits operand.splits dim_map_scope.splits)
  have base: "vs_inv (dim_factors s)" "divisors s = vs_default" "elems (dim_factors s) = {}" "incr_value sizes s = unat base" "base \<noteq> 0"
    using s(1) by (auto simp: ps_new_def ps_default_def vs_default_spec incr_value_def split: if_splits) (simp add: vs_default_def)
  have keys: "map fst incrs = ds" if "index_increments f s ds = Some incrs" for ds s incrs
    using that by (induction ds arbitrary: s incrs) (auto simp: bind_eq_Some_conv)
  then have "map fst incrs = rev dims" using s(2) by blast
  then have dist: "distinct dims" using find_duplicate_None [OF new(2)] by simp
  then show ?thesis using index_increments_offset [OF s(2), of sizes pos] assms(2) base new(1) v(2) by simp
qed

text \<open>C8: The addresses that are generated for a temporary array are those of a dense array: two elements never share a byte and every byte
  lies within the product of the sizes of the dimensions and of the size of an element.\<close>
theorem generated_addresses_dense:
  assumes "gen_index mem base addr dims f = Some (op, pattern, f')" "\<forall>d \<in> set dims. plain_dim f d"
  shows "\<exists>v. b_induction_vars f' = b_induction_vars f @ [v]
    \<and> (\<forall>sizes p r. (\<forall>d \<in> set dims. p d < sizes d) \<longrightarrow> r < unat base \<longrightarrow> iv_offset sizes p (iv_dims v) + r < unat base * prod_list (map sizes dims))
    \<and> (\<forall>sizes p q r r'. (\<forall>d \<in> set dims. p d < sizes d \<and> q d < sizes d) \<longrightarrow> r < unat base \<longrightarrow> r' < unat base
         \<longrightarrow> iv_offset sizes p (iv_dims v) + r = iv_offset sizes q (iv_dims v) + r' \<longrightarrow> (\<forall>d \<in> set dims. p d = q d) \<and> r = r')"
proof -
  obtain v where v: "b_induction_vars f' = b_induction_vars f @ [v]" using gen_index_increments [OF assms] by blast
  have off: "iv_offset sizes pos (iv_dims v) = offset sizes pos (unat base) (rev dims)" for sizes pos
    using gen_index_increments [OF assms, of sizes pos] v by auto
  have "prod_list (map sizes (rev dims)) = prod_list (map sizes dims)" for sizes :: "nat \<Rightarrow> nat" by (simp add: rev_map [symmetric])
  then show ?thesis
    using v offset_bound [of "rev dims" _ _ _ "unat base"] offset_inj [of "rev dims" _ _ _ _ "unat base"] by (intro exI [of _ v]) (auto simp: off)
qed

definition sample_index :: "(nat list \<times> nat list) option" where
  "sample_index = do {
     f \<leftarrow> sample_built;
     (_, _, f') \<leftarrow> gen_index 0 4 (Op_Addr 0) [0, 1] f;
     Some (map fst (iv_dims (last (b_induction_vars f'))), map length [b_induction_vars f, b_induction_vars f']) }"

lemma sample_index_defined: "sample_index = Some ([1, 0], [0, 1])"
  by code_simp

lemma sample_plain: "case sample_built of Some f \<Rightarrow> list_all (\<lambda>d. map_option d_size (fn_dim f d) = Some (ps_new_dim_size d)) [0, 1] | None \<Rightarrow> False"
  by code_simp

theorem generated_addresses_dense_witness:
  "case sample_built of
     Some f \<Rightarrow> (case gen_index 0 4 (Op_Addr 0) [0, 1] f of
       Some (_, _, f') \<Rightarrow> (\<exists>v. b_induction_vars f' = b_induction_vars f @ [v] \<and> iv_offset (\<lambda>_. 8) (\<lambda>_. 7) (iv_dims v) + 3 < 4 * (8 * 8))
     | None \<Rightarrow> False)
   | None \<Rightarrow> False"
proof -
  obtain f where f: "sample_built = Some f" using sample_built_defined by blast
  obtain op p f' where g: "gen_index 0 4 (Op_Addr 0) [0, 1] f = Some (op, p, f')"
    using sample_index_defined unfolding sample_index_def f by (auto simp: bind_eq_Some_conv)
  have "\<forall>d \<in> set [0, 1]. plain_dim f d" using sample_plain unfolding f by (auto simp: plain_dim_def)
  from generated_addresses_dense [OF g this]
  obtain v where v: "b_induction_vars f' = b_induction_vars f @ [v]"
    and b: "\<forall>sizes p r. (\<forall>d \<in> set [0, 1]. p d < sizes d) \<longrightarrow> r < unat (4 :: u32) \<longrightarrow> iv_offset sizes p (iv_dims v) + r < unat (4 :: u32) * prod_list (map sizes [0, 1])"
    by blast
  show ?thesis using v b [rule_format, of "\<lambda>_. 7" "\<lambda>_. 8" 3] unfolding f option.case g prod.case by auto
qed

section \<open>Reductions\<close>

text \<open>The kernel of the comment of \<^verbatim>\<open>order_reduce_dims\<close>: two reductions and an instruction that uses their results.\<close>

definition reduce_kernel :: "unit ir_function option" where
  "reduce_kernel = do {
     (_, _, f) \<leftarrow> accepted (add_logical_dim (size_new_const 8) (vs_new [1]) [] (fn_new (sig_new ''reduce'') any_device));
     (_, _, f) \<leftarrow> accepted (add_logical_dim (size_new_const 8) (vs_new [1]) [] f);
     (_, _, f) \<leftarrow> accepted (add_logical_dim (size_new_const 8) (vs_new [1]) [] f);
     (_, f) \<leftarrow> add_inst id (OP_UnaryOp U_Mov (Op_Int 0 32)) {||} f;
     (_, f) \<leftarrow> add_inst id (OP_UnaryOp U_Mov (Op_Int 0 32)) {||} f;
     (_, f) \<leftarrow> add_inst id (OP_BinOp B_Add (Op_Int 1 32) (Op_Reduce 0 (T_I 32) [] [0]) R_Exact) {|0|} f;
     (_, f) \<leftarrow> add_inst id (OP_BinOp B_Add (Op_Int 1 32) (Op_Reduce 1 (T_I 32) [] [1]) R_Exact) {|1|} f;
     (_, f) \<leftarrow> add_inst id (OP_BinOp B_Add (Op_Inst 2 (T_I 32) [] DS_Local) (Op_Inst 3 (T_I 32) [] DS_Local) R_Exact) {|2|} f;
     Some f }"

text \<open>The dimensions of the reductions are not ordered before the instruction that uses their results: the function is called with the source
  of the operand and not with its user.\<close>

lemma reduction_dims_not_ordered:
  "Option.bind reduce_kernel (\<lambda>f. Option.bind (fn_inst f 4) (inst_invariants id f)) =
     Some [A_Order (S_Inst 2) (S_Inst 4) {O_Before}, A_Order (S_Inst 3) (S_Inst 4) {O_Before}]"
  by code_simp

end
