(* ===== verification/TF_Record.thy ===== *)
theory TF_Record
  imports Telamon_Prelude "HOL-Library.Word"
begin

text \<open>
  The record files of \<^verbatim>\<open>telamon-utils/src/tfrecord.rs\<close>, in which the explorer logs its events. A file is a
  sequence of records, each with its length, a checksum of the length, its bytes and a checksum of the bytes. The
  underlying reader is the list of what its calls of \<^verbatim>\<open>Read::read\<close> find: chunks of bytes of any size, interruptions
  and failures; the underlying writer is what it has accepted so far and the list of what its next calls of
  \<^verbatim>\<open>Write::write\<close> do. The conversions of the crate \<^verbatim>\<open>byteorder\<close>, the checksum of the crate \<^verbatim>\<open>crc\<close> and the
  allocator are the parameter \<open>wire\<close>; what is needed of them is the locale \<open>wire_format\<close>, interpreted on the
  little-endian conversions. The theorems show that written records are read back whatever the sizes of the chunks, that
  a record is accepted exactly when the file starts with its encoding, and how a file that is cut short ends.
\<close>

unbundle bit_operations_syntax

section \<open>Underlying readers and writers\<close>

type_synonym byte_list = "8 word list"

datatype io_error = Unexpected_Eof | Write_Zero | Other string | Os_Error nat

datatype 'a io_result = Io_Ok 'a | Io_Err io_error | Aborted

datatype read_event = Chunk byte_list | Read_Interrupted | Read_Failed io_error

type_synonym source = "read_event list"

text \<open>One call of \<^verbatim>\<open>Read::read\<close> with a buffer of \<open>n\<close> bytes. An interruption is \<open>None\<close>.\<close>

fun source_read :: "nat \<Rightarrow> source \<Rightarrow> (io_error + byte_list) option \<times> source" where
  "source_read n [] = (Some (Inr []), [])"
| "source_read n (Chunk bs # es) =
     (if length bs \<le> n then (Some (Inr bs), es) else (Some (Inr (take n bs)), Chunk (drop n bs) # es))"
| "source_read n (Read_Interrupted # es) = (None, es)"
| "source_read n (Read_Failed e # es) = (Some (Inl e), es)"

datatype write_event = Accept nat | Write_Interrupted | Write_Failed io_error

record sink =
  sink_out :: byte_list
  sink_plan :: "write_event list"
  sink_flush :: "io_error option"

text \<open>One call of \<^verbatim>\<open>Write::write\<close>; without further events everything is accepted.\<close>

definition sink_write :: "byte_list \<Rightarrow> sink \<Rightarrow> (io_error + nat) option \<times> sink" where
  "sink_write bs w =
     (case sink_plan w of
        [] \<Rightarrow> (Some (Inr (length bs)), w\<lparr>sink_out := sink_out w @ bs\<rparr>)
      | Accept n # ps \<Rightarrow>
          (Some (Inr (min n (length bs))), w\<lparr>sink_out := sink_out w @ take n bs, sink_plan := ps\<rparr>)
      | Write_Interrupted # ps \<Rightarrow> (None, w\<lparr>sink_plan := ps\<rparr>)
      | Write_Failed e # ps \<Rightarrow> (Some (Inl e), w\<lparr>sink_plan := ps\<rparr>))"

text \<open>The functions of other crates and the allocator: \<open>can_reserve n\<close> when a vector may grow to \<open>n\<close> bytes.\<close>

record wire =
  put_u32 :: "32 word \<Rightarrow> byte_list"
  get_u32 :: "byte_list \<Rightarrow> 32 word"
  put_u64 :: "64 word \<Rightarrow> byte_list"
  get_u64 :: "byte_list \<Rightarrow> 64 word"
  checksum_castagnoli :: "byte_list \<Rightarrow> 32 word"
  can_reserve :: "nat \<Rightarrow> bool"

section \<open>Operations\<close>

definition masked_crc32 :: "wire \<Rightarrow> byte_list \<Rightarrow> 32 word" where
  "masked_crc32 W bs =
     (let crc = checksum_castagnoli W bs in (drop_bit 15 crc OR push_bit 17 crc) + 0xa282ead8)"

text \<open>The bytes written into the buffer, the error if the call returns one, and the reader afterwards.\<close>

function retry_read :: "nat \<Rightarrow> source \<Rightarrow> byte_list \<times> io_error option \<times> source" where
  "retry_read n es =
     (if n = 0 then ([], None, es)
      else case source_read n es of
        (None, es') \<Rightarrow> retry_read n es'
      | (Some (Inl e), es') \<Rightarrow> ([], Some e, es')
      | (Some (Inr bs), es') \<Rightarrow>
          if bs = [] then ([], None, es')
          else let (bs', e, es'') = retry_read (n - length bs) es' in (bs @ bs', e, es''))"
  by pat_completeness auto

lemma source_read_interrupted: "source_read n es = (None, es') \<Longrightarrow> length es' < length es"
  by (cases "(n, es)" rule: source_read.cases) (auto split: if_splits)

lemma source_read_progress:
  assumes "source_read n es = (Some (Inr bs), es')" "bs \<noteq> []"
  shows "n - length bs + length es' < n + length es"
  using assms by (cases "(n, es)" rule: source_read.cases) (auto split: if_splits)

termination retry_read
  by (relation "measure (\<lambda>(n, es). n + length es)") (auto dest: source_read_interrupted [OF sym] source_read_progress [OF sym])

declare retry_read.simps [simp del]

text \<open>
  \<^verbatim>\<open>Read::read_exact\<close> is the same loop and an error when the end is reached before the buffer is full. The loop of
  \<^verbatim>\<open>take(len).read_to_end(buf)\<close> is the same again: the vector has room for \<open>len\<close> bytes, the adapter does not call the
  reader when its limit is reached, and the bytes read before an error stay in the vector.
\<close>

definition read_u32 :: "wire \<Rightarrow> source \<Rightarrow> (io_error + 32 word) \<times> source" where
  "read_u32 W es =
     (case retry_read 4 es of
        (bs, Some e, es') \<Rightarrow> (Inl e, es')
      | (bs, None, es') \<Rightarrow> (if length bs < 4 then Inl Unexpected_Eof else Inr (get_u32 W bs), es'))"

definition take_read_to_end :: "nat \<Rightarrow> source \<Rightarrow> byte_list \<times> io_error option \<times> source" where
  "take_read_to_end len es = retry_read len es"

definition read_payload ::
  "wire \<Rightarrow> nat \<Rightarrow> source \<Rightarrow> byte_list \<Rightarrow> bool io_result \<times> source \<times> byte_list" where
  "read_payload W len es buf =
     (if \<not> can_reserve W (length buf + len) then (Aborted, es, buf)
      else case take_read_to_end len es of
        (bs, Some e, es') \<Rightarrow> (Io_Err e, es', buf @ bs)
      | (bs, None, es') \<Rightarrow>
          if length bs \<noteq> len then (Io_Err (Other ''truncated record''), es', buf @ bs)
          else (case read_u32 W es' of
            (Inl e, es'') \<Rightarrow> (Io_Err e, es'', buf @ bs)
          | (Inr crc, es'') \<Rightarrow>
              (if crc \<noteq> masked_crc32 W bs then Io_Err (Other ''corrupted record'') else Io_Ok True, es'', buf @ bs)))"

definition read_record :: "wire \<Rightarrow> source \<Rightarrow> byte_list \<Rightarrow> bool io_result \<times> source \<times> byte_list" where
  "read_record W es buf =
     (case retry_read 8 es of
        (bs, Some e, es') \<Rightarrow> (Io_Err e, es', buf)
      | (bs, None, es') \<Rightarrow>
          if length bs = 0 then (Io_Ok False, es', buf)
          else (let len_bytes = bs @ replicate (8 - length bs) 0 in
            (case read_u32 W es' of
               (Inl e, es'') \<Rightarrow> (Io_Err e, es'', buf)
             | (Inr crc, es'') \<Rightarrow>
                 if crc \<noteq> masked_crc32 W len_bytes then (Io_Err (Other ''corrupted record''), es'', buf)
                 else read_payload W (unat (get_u64 W len_bytes)) es'' buf)))"

text \<open>The iterator over the records: \<open>None\<close> at the end of the file.\<close>

definition records_next :: "wire \<Rightarrow> source \<Rightarrow> byte_list io_result option \<times> source" where
  "records_next W es =
     (case read_record W es [] of
        (Io_Err e, es', buf) \<Rightarrow> (Some (Io_Err e), es')
      | (Io_Ok True, es', buf) \<Rightarrow> (Some (Io_Ok buf), es')
      | (Io_Ok False, es', buf) \<Rightarrow> (None, es')
      | (Aborted, es', buf) \<Rightarrow> (Some Aborted, es'))"

text \<open>The items of the iterator until it returns \<^verbatim>\<open>None\<close> or the program is aborted.\<close>

fun weight :: "source \<Rightarrow> nat" where
  "weight [] = 0"
| "weight (Chunk bs # es) = Suc (length bs + weight es)"
| "weight (_ # es) = Suc (weight es)"

function records :: "wire \<Rightarrow> source \<Rightarrow> byte_list io_result list" where
  "records W es =
     (case records_next W es of
        (None, es') \<Rightarrow> []
      | (Some Aborted, es') \<Rightarrow> [Aborted]
      | (Some r, es') \<Rightarrow> r # records W es')"
  by pat_completeness auto

lemma source_read_weight:
  "case source_read n es of
     (Some (Inr bs), es') \<Rightarrow> weight es' + length bs \<le> weight es
   | (_, es') \<Rightarrow> weight es' < weight es"
  by (cases "(n, es)" rule: source_read.cases) auto

lemma retry_read_weight:
  "retry_read n es = (bs, e, es') \<Longrightarrow> weight es' + length bs + (if e = None then 0 else 1) \<le> weight es"
proof (induction n es arbitrary: bs e es' rule: retry_read.induct)
  case step: (1 n es)
  obtain r es1 where r: "source_read n es = (r, es1)" by fastforce
  note sw = source_read_weight [where n = n and es = es]
  consider (zero) "n = 0" | (pause) "0 < n" "r = None" | (fail) d where "0 < n" "r = Some (Inl d)"
    | (got) cs where "0 < n" "r = Some (Inr cs)"
    by (cases r; cases "n = 0"; metis neq0_conv sum.exhaust)
  then show ?case
  proof cases
    case zero
    then show ?thesis using step.prems by (simp add: retry_read.simps [where n = 0])
  next
    case pause
    then show ?thesis
      using step.IH(1) [of r es1 bs e es'] step.prems r sw by (simp add: retry_read.simps [where n = n and es = es])
  next
    case fail
    then show ?thesis using step.prems r sw by (auto simp: retry_read.simps [where n = n and es = es])
  next
    case got
    then show ?thesis
      using step.IH(2) [of r es1 "Inr cs" cs] step.prems r sw
      by (fastforce simp: retry_read.simps [where n = n and es = es] split: if_splits prod.splits)
  qed
qed

lemma read_u32_weight: "read_u32 W es = (r, es') \<Longrightarrow> weight es' \<le> weight es"
  using retry_read_weight by (fastforce simp: read_u32_def split: prod.splits option.splits if_splits)

lemma read_payload_weight:
  assumes "read_payload W len es buf = (r, es', buf')"
  shows "weight es' \<le> weight es"
proof -
  obtain bs e es1 where 1: "retry_read len es = (bs, e, es1)" by (cases "retry_read len es")
  obtain x es2 where 2: "read_u32 W es1 = (x, es2)" by fastforce
  show ?thesis
    using assms 1 2 retry_read_weight [OF 1] read_u32_weight [OF 2]
    by (auto simp: read_payload_def take_read_to_end_def split: if_splits option.splits sum.splits)
qed

lemma read_record_weight:
  assumes "read_record W es buf = (r, es', buf')" "r \<noteq> Io_Ok False"
  shows "weight es' < weight es"
proof -
  obtain bs e es1 where 1: "retry_read 8 es = (bs, e, es1)" by (cases "retry_read 8 es")
  obtain x es2 where 2: "read_u32 W es1 = (x, es2)" by fastforce
  have "e \<noteq> None \<or> bs \<noteq> []" using assms 1 by (auto simp: read_record_def split: if_splits option.splits)
  then have "weight es1 < weight es"
    using retry_read_weight [OF 1] by (cases bs) (auto split: if_splits)
  moreover have "weight es2 \<le> weight es1" by (rule read_u32_weight [OF 2])
  ultimately show ?thesis
    using assms 1 2 read_payload_weight
    by (fastforce simp: read_record_def Let_def split: if_splits option.splits sum.splits)
qed

lemma records_next_weight: "records_next W es = (Some r, es') \<Longrightarrow> weight es' < weight es"
  by (cases "read_record W es []")
    (auto simp: records_next_def dest: read_record_weight split: io_result.splits bool.splits)

termination records
  by (relation "measure (\<lambda>(W, es). weight es)") (auto dest: records_next_weight [OF sym])

declare records.simps [simp del]

function write_all :: "byte_list \<Rightarrow> sink \<Rightarrow> io_error option \<times> sink" where
  "write_all bs w =
     (if bs = [] then (None, w)
      else case sink_write bs w of
        (None, w') \<Rightarrow> write_all bs w'
      | (Some (Inl e), w') \<Rightarrow> (Some e, w')
      | (Some (Inr n), w') \<Rightarrow> if n = 0 then (Some Write_Zero, w') else write_all (drop n bs) w')"
  by pat_completeness auto

termination write_all
  by (relation "measure (\<lambda>(bs, w). length bs + length (sink_plan w))")
    (auto simp: sink_write_def split: list.splits write_event.splits)

declare write_all.simps [simp del]

definition and_write :: "byte_list \<Rightarrow> io_error option \<times> sink \<Rightarrow> io_error option \<times> sink" where
  "and_write bs r = (case r of (Some e, w) \<Rightarrow> (Some e, w) | (None, w) \<Rightarrow> write_all bs w)"

definition write_record :: "wire \<Rightarrow> byte_list \<Rightarrow> sink \<Rightarrow> io_error option \<times> sink" where
  "write_record W bs w =
     (let len_bytes = put_u64 W (of_nat (length bs)) in
      and_write (put_u32 W (masked_crc32 W bs)) (and_write bs
        (and_write (put_u32 W (masked_crc32 W len_bytes)) (write_all len_bytes w))))"

definition writer_flush :: "sink \<Rightarrow> io_error option" where
  "writer_flush w = sink_flush w"

text \<open>Flushing may fail, and then the writer is returned with the error.\<close>

definition writer_into_inner :: "sink \<Rightarrow> (sink \<times> io_error) + sink" where
  "writer_into_inner w = (case writer_flush w of None \<Rightarrow> Inr w | Some e \<Rightarrow> Inl (w, e))"

fun write_records :: "wire \<Rightarrow> byte_list list \<Rightarrow> sink \<Rightarrow> io_error option \<times> sink" where
  "write_records W [] w = (None, w)"
| "write_records W (bs # rs) w =
     (case write_record W bs w of (Some e, w') \<Rightarrow> (Some e, w') | (None, w') \<Rightarrow> write_records W rs w')"

section \<open>Reading from a working source\<close>

text \<open>The bytes that a source delivers, and a source that neither fails nor ends early.\<close>

fun content :: "source \<Rightarrow> byte_list" where
  "content [] = []"
| "content (Chunk bs # es) = bs @ content es"
| "content (_ # es) = content es"

fun quiet :: "source \<Rightarrow> bool" where
  "quiet [] \<longleftrightarrow> True"
| "quiet (Chunk bs # es) \<longleftrightarrow> bs \<noteq> [] \<and> quiet es"
| "quiet (Read_Interrupted # es) \<longleftrightarrow> quiet es"
| "quiet (Read_Failed e # es) \<longleftrightarrow> False"

lemma source_read_quiet:
  assumes "quiet es" "0 < n"
  shows "case source_read n es of
      (None, es') \<Rightarrow> quiet es' \<and> content es' = content es
    | (Some (Inl e), es') \<Rightarrow> False
    | (Some (Inr bs), es') \<Rightarrow>
        quiet es' \<and> content es = bs @ content es' \<and> length bs \<le> n \<and> (bs = [] \<longrightarrow> content es = [])"
  using assms by (cases "(n, es)" rule: source_read.cases) (auto simp: min_def)

lemma retry_read_quiet:
  assumes "quiet es"
  shows "\<exists>es'. retry_read n es = (take n (content es), None, es') \<and> quiet es' \<and> content es' = drop n (content es)"
  using assms
proof (induction n es rule: retry_read.induct)
  case (1 n es)
  show ?case
  proof (cases "n = 0")
    case True
    then show ?thesis using 1 by (simp add: retry_read.simps [where n = 0])
  next
    case False
    note sr = source_read_quiet [OF "1.prems", of n]
    obtain r es1 where r: "source_read n es = (r, es1)" by fastforce
    show ?thesis
    proof (cases r)
      case None
      then show ?thesis
        using "1.IH"(1) [OF False, of None es1] r sr False
        by (auto simp: retry_read.simps [where n = n and es = es])
    next
      case (Some x)
      then obtain bs where x: "x = Inr bs" using r sr False by (cases x) auto
      show ?thesis
      proof (cases "bs = []")
        case True
        then show ?thesis using r sr Some x False by (auto simp: retry_read.simps [where n = n and es = es])
      next
        case ne: False
        have q: "quiet es1" "content es = bs @ content es1" "length bs \<le> n" using r sr Some x False by auto
        obtain es' where "retry_read (n - length bs) es1 = (take (n - length bs) (content es1), None, es')"
          "quiet es'" "content es' = drop (n - length bs) (content es1)"
          using "1.IH"(2) [OF False, of r es1 x bs] r Some x ne q by auto
        then show ?thesis using r Some x False ne q by (simp add: retry_read.simps [where n = n and es = es])
      qed
    qed
  qed
qed

lemma read_u32_quiet:
  assumes "quiet es"
  shows "\<exists>es'. read_u32 W es =
      (if length (content es) < 4 then Inl Unexpected_Eof else Inr (get_u32 W (take 4 (content es))), es')
    \<and> quiet es' \<and> content es' = drop 4 (content es)"
  using retry_read_quiet [OF assms, of 4] by (auto simp: read_u32_def)

section \<open>Reading as a function of the bytes\<close>

definition decode_payload ::
  "wire \<Rightarrow> nat \<Rightarrow> byte_list \<Rightarrow> byte_list \<Rightarrow> bool io_result \<times> byte_list \<times> byte_list" where
  "decode_payload W len c buf =
     (if \<not> can_reserve W (length buf + len) then (Aborted, c, buf)
      else if length c < len then (Io_Err (Other ''truncated record''), [], buf @ c)
      else if length c < len + 4 then (Io_Err Unexpected_Eof, [], buf @ take len c)
      else (if get_u32 W (take 4 (drop len c)) \<noteq> masked_crc32 W (take len c)
            then Io_Err (Other ''corrupted record'') else Io_Ok True,
            drop (len + 4) c, buf @ take len c))"

definition decode_record :: "wire \<Rightarrow> byte_list \<Rightarrow> byte_list \<Rightarrow> bool io_result \<times> byte_list \<times> byte_list" where
  "decode_record W c buf =
     (if c = [] then (Io_Ok False, [], buf)
      else if length c < 12 then (Io_Err Unexpected_Eof, [], buf)
      else if get_u32 W (take 4 (drop 8 c)) \<noteq> masked_crc32 W (take 8 c)
      then (Io_Err (Other ''corrupted record''), drop 12 c, buf)
      else decode_payload W (unat (get_u64 W (take 8 c))) (drop 12 c) buf)"

lemma read_payload_quiet:
  assumes "quiet es" "decode_payload W len (content es) buf = (r, rest, buf')"
  shows "\<exists>es'. read_payload W len es buf = (r, es', buf') \<and> quiet es' \<and> content es' = rest"
proof -
  obtain es1 where 1: "retry_read len es = (take len (content es), None, es1)" "quiet es1"
    "content es1 = drop len (content es)"
    using retry_read_quiet assms(1) by blast
  obtain es2 where 2: "read_u32 W es1 =
      (if length (content es1) < 4 then Inl Unexpected_Eof else Inr (get_u32 W (take 4 (content es1))), es2)"
    "quiet es2" "content es2 = drop 4 (content es1)"
    using read_u32_quiet 1(2) by blast
  show ?thesis
    using assms 1 2
    by (auto simp: read_payload_def decode_payload_def take_read_to_end_def add.commute split: if_splits)
qed

lemma read_record_quiet:
  assumes "quiet es" "decode_record W (content es) buf = (r, rest, buf')"
  shows "\<exists>es'. read_record W es buf = (r, es', buf') \<and> quiet es' \<and> content es' = rest"
proof -
  obtain es1 where 1: "retry_read 8 es = (take 8 (content es), None, es1)" "quiet es1"
    "content es1 = drop 8 (content es)"
    using retry_read_quiet assms(1) by blast
  obtain es2 where 2: "read_u32 W es1 =
      (if length (content es1) < 4 then Inl Unexpected_Eof else Inr (get_u32 W (take 4 (content es1))), es2)"
    "quiet es2" "content es2 = drop 4 (content es1)"
    using read_u32_quiet 1(2) by blast
  show ?thesis
  proof (cases "length (content es) < 12")
    case True
    then have "length (content es1) < 4" using 1(3) by simp
    then show ?thesis using True assms 1 2
      by (cases "content es = []") (auto simp: read_record_def decode_record_def min_def split: if_splits)
  next
    case False
    then have "content es2 = drop 12 (content es)" "8 \<le> length (content es)" "content es \<noteq> []"
      using 1 2 by auto
    then show ?thesis
      using False assms 1 2 read_payload_quiet [OF 2(2), of W _ buf r rest buf']
      by (auto simp: read_record_def decode_record_def min_def split: if_splits)
  qed
qed

lemma records_quiet:
  assumes "quiet es" "decode_record W (content es) [] = (r, rest, buf)"
  shows "\<exists>es'. quiet es' \<and> content es' = rest \<and> records W es =
    (case r of Io_Ok True \<Rightarrow> Io_Ok buf # records W es' | Io_Ok False \<Rightarrow> []
     | Io_Err e \<Rightarrow> Io_Err e # records W es' | Aborted \<Rightarrow> [Aborted])"
proof -
  obtain es' where "read_record W es [] = (r, es', buf)" "quiet es'" "content es' = rest"
    using read_record_quiet [OF assms] by blast
  then show ?thesis
    by (auto simp: records.simps [of W es] records_next_def split: io_result.splits bool.splits)
qed

lemma records_end: "quiet es \<Longrightarrow> content es = [] \<Longrightarrow> records W es = []"
  using records_quiet [of es W "Io_Ok False" "[]" "[]"] by (auto simp: decode_record_def)

section \<open>The format\<close>

lemma unat_of_nat_u64: "n < 2 ^ 64 \<Longrightarrow> unat (of_nat n :: 64 word) = n"
  by (simp add: unat_of_nat)

lemma take_three: "take m xs @ take n (drop m xs) @ drop (m + n) xs = xs"
  by (metis append.assoc append_take_drop_id take_add)

definition encode_record :: "wire \<Rightarrow> byte_list \<Rightarrow> byte_list" where
  "encode_record W bs =
     (let len_bytes = put_u64 W (of_nat (length bs)) in
      len_bytes @ put_u32 W (masked_crc32 W len_bytes) @ bs @ put_u32 W (masked_crc32 W bs))"

definition encode_records :: "wire \<Rightarrow> byte_list list \<Rightarrow> byte_list" where
  "encode_records W rs = concat (map (encode_record W) rs)"

text \<open>A record that fits in memory.\<close>

definition storable :: "wire \<Rightarrow> byte_list \<Rightarrow> bool" where
  "storable W bs \<longleftrightarrow> length bs < 2 ^ 64 \<and> can_reserve W (length bs)"

locale wire_format =
  fixes W :: wire
  assumes get_put_u32: "get_u32 W (put_u32 W x) = x"
    and put_get_u32: "length bs = 4 \<Longrightarrow> put_u32 W (get_u32 W bs) = bs"
    and length_put_u32: "length (put_u32 W x) = 4"
    and get_put_u64: "get_u64 W (put_u64 W y) = y"
    and put_get_u64: "length bs = 8 \<Longrightarrow> put_u64 W (get_u64 W bs) = bs"
    and length_put_u64: "length (put_u64 W y) = 8"
begin

lemma get_u32_iff: "length bs = 4 \<Longrightarrow> get_u32 W bs = x \<longleftrightarrow> bs = put_u32 W x"
  using get_put_u32 put_get_u32 by metis

lemma get_u64_iff: "length bs = 8 \<Longrightarrow> get_u64 W bs = y \<longleftrightarrow> bs = put_u64 W y"
  using get_put_u64 put_get_u64 by metis

lemma put_u64_not_empty: "put_u64 W y \<noteq> []"
  using length_put_u64 [of y] by auto

lemma length_encode_record: "length (encode_record W bs) = length bs + 16"
  by (simp add: encode_record_def Let_def length_put_u32 length_put_u64)

lemma decode_encoded:
  assumes "length bs < 2 ^ 64" "can_reserve W (length buf + length bs)"
  shows "decode_record W (encode_record W bs @ rest) buf = (Io_Ok True, rest, buf @ bs)"
  using assms
  by (simp add: decode_record_def decode_payload_def encode_record_def Let_def length_put_u32 length_put_u64
      get_put_u32 get_put_u64 unat_of_nat_u64 put_u64_not_empty)

lemma decode_accepted:
  assumes "decode_record W c buf = (Io_Ok True, rest, buf')"
  shows "\<exists>bs. buf' = buf @ bs \<and> c = encode_record W bs @ rest
    \<and> length bs < 2 ^ 64 \<and> can_reserve W (length buf + length bs)"
proof -
  define n where "n = get_u64 W (take 8 c)"
  define d where "d = drop 12 c"
  define bs where "bs = take (unat n) d"
  have 1: "12 \<le> length c" "get_u32 W (take 4 (drop 8 c)) = masked_crc32 W (take 8 c)"
    "decode_payload W (unat n) d buf = (Io_Ok True, rest, buf')"
    using assms by (auto simp: decode_record_def n_def d_def split: if_splits)
  then have 2: "can_reserve W (length buf + unat n)" "unat n + 4 \<le> length d" "buf' = buf @ bs"
    "get_u32 W (take 4 (drop (unat n) d)) = masked_crc32 W bs" "rest = drop (unat n + 4) d"
    by (auto simp: decode_payload_def bs_def split: if_splits)
  have len: "length bs = unat n" using 2(2) by (simp add: bs_def)
  then have n: "n = of_nat (length bs)" by simp
  have "take 8 c = put_u64 W n" using 1(1) get_u64_iff [of "take 8 c" n] by (simp add: n_def)
  moreover have "take 4 (drop 8 c) = put_u32 W (masked_crc32 W (take 8 c))"
    using 1 get_u32_iff [of "take 4 (drop 8 c)"] by simp
  moreover have "take 4 (drop (unat n) d) = put_u32 W (masked_crc32 W bs)"
    using 2 get_u32_iff [of "take 4 (drop (unat n) d)"] by simp
  moreover have "take 8 c @ take 4 (drop 8 c) @ d = c" using take_three [of 8 c 4] by (simp add: d_def)
  moreover have "bs @ take 4 (drop (unat n) d) @ rest = d" unfolding bs_def 2(5) by (rule take_three)
  ultimately have "c = encode_record W bs @ rest"
    unfolding encode_record_def Let_def n [symmetric] by (metis append.assoc)
  moreover have "length bs < 2 ^ 64" using unsigned_less [of n, where 'a = nat] len by simp
  ultimately show ?thesis using 2 len by auto
qed

text \<open>The bytes of a record that has been cut are read to their end, and an error is reported.\<close>

lemma decode_cut:
  assumes "storable W bs" "c \<noteq> []" "k < length (encode_record W bs)" "c = take k (encode_record W bs)"
  shows "\<exists>e buf. decode_record W c [] = (Io_Err e, [], buf) \<and> e \<in> {Unexpected_Eof, Other ''truncated record''}"
proof (cases "k < 12")
  case True
  then show ?thesis using assms by (auto simp: decode_record_def)
next
  case False
  define l where "l = put_u64 W (of_nat (length bs))"
  define t where "t = take (k - 12) (bs @ put_u32 W (masked_crc32 W bs))"
  have c: "c = l @ put_u32 W (masked_crc32 W l) @ t"
    using False assms(4) by (simp add: encode_record_def Let_def length_put_u32 length_put_u64 l_def t_def)
  have "length l = 8" "get_u64 W l = of_nat (length bs)" "l \<noteq> []"
    by (simp_all add: l_def length_put_u64 get_put_u64 put_u64_not_empty)
  then have "decode_record W c [] = decode_payload W (length bs) t []"
    using assms(1) by (simp add: c decode_record_def length_put_u32 get_put_u32 storable_def unat_of_nat_u64)
  moreover have "length t < length bs + 4" using assms(3) by (simp add: t_def length_encode_record)
  ultimately show ?thesis using assms(1) by (auto simp: decode_payload_def storable_def)
qed

lemma records_encoded:
  assumes "quiet es" "content es = encode_records W rs @ c" "list_all (storable W) rs"
  shows "\<exists>es'. quiet es' \<and> content es' = c \<and> records W es = map Io_Ok rs @ records W es'"
  using assms
proof (induction rs arbitrary: es)
  case Nil
  then show ?case by (auto simp: encode_records_def)
next
  case (Cons r rs)
  have "decode_record W (content es) [] = (Io_Ok True, encode_records W rs @ c, r)"
    using decode_encoded [of r "[]" "encode_records W rs @ c"] Cons.prems
    by (simp add: encode_records_def storable_def)
  then obtain es1 where "quiet es1" "content es1 = encode_records W rs @ c" "records W es = Io_Ok r # records W es1"
    using records_quiet [OF Cons.prems(1)] by fastforce
  then show ?case using Cons.IH [of es1] Cons.prems(3) by auto
qed

lemma records_cut:
  assumes "quiet es" "content es = take k (encode_records W rs)" "list_all (storable W) rs"
  shows "\<exists>n t. records W es = map Io_Ok (take n rs) @ t
    \<and> t \<in> {[], [Io_Err Unexpected_Eof], [Io_Err (Other ''truncated record'')]}"
  using assms
proof (induction rs arbitrary: es k)
  case Nil
  then show ?case using records_end by (auto simp: encode_records_def)
next
  case (Cons r rs)
  show ?case
  proof (cases "k < length (encode_record W r)")
    case True
    then have c: "content es = take k (encode_record W r)" using Cons.prems(2) by (simp add: encode_records_def)
    show ?thesis
    proof (cases "content es = []")
      case True
      then show ?thesis using records_end [OF Cons.prems(1)] by (intro exI [of _ 0] exI [of _ "[]"]) simp
    next
      case ne: False
      obtain e buf where e: "decode_record W (content es) [] = (Io_Err e, [], buf)"
        "e \<in> {Unexpected_Eof, Other ''truncated record''}"
        using decode_cut [OF _ ne True c] Cons.prems(3) by auto
      then obtain es1 where "quiet es1" "content es1 = []" "records W es = Io_Err e # records W es1"
        using records_quiet [OF Cons.prems(1) e(1)] by auto
      then show ?thesis using records_end e(2) by (intro exI [of _ 0] exI [of _ "[Io_Err e]"]) auto
    qed
  next
    case False
    then have "content es = encode_records W [r] @ take (k - length (encode_record W r)) (encode_records W rs)"
      using Cons.prems(2) by (simp add: encode_records_def)
    then obtain es1 where es1: "quiet es1" "content es1 = take (k - length (encode_record W r)) (encode_records W rs)"
      "records W es = [Io_Ok r] @ records W es1"
      using records_encoded [OF Cons.prems(1), of "[r]"] Cons.prems(3) by auto
    then obtain n t where "records W es1 = map Io_Ok (take n rs) @ t"
      "t \<in> {[], [Io_Err Unexpected_Eof], [Io_Err (Other ''truncated record'')]}"
      using Cons.IH [OF es1(1,2)] Cons.prems(3) by auto
    then show ?thesis using es1(3) by (intro exI [of _ "Suc n"] exI [of _ t]) simp
  qed
qed

end

section \<open>What a writer leaves in its sink\<close>

text \<open>The sink has received a part of some bytes, all of them when there was no error.\<close>

definition wrote :: "sink \<Rightarrow> byte_list \<Rightarrow> io_error option \<times> sink \<Rightarrow> bool" where
  "wrote w bs r \<longleftrightarrow>
     (\<exists>k. sink_out (snd r) = sink_out w @ take k bs \<and> (fst r = None \<longrightarrow> length bs \<le> k))"

lemma wrote_append:
  assumes "wrote w bs (None, w')" "wrote w' cs r"
  shows "wrote w (bs @ cs) r"
proof -
  obtain k where k: "sink_out (snd r) = sink_out w' @ take k cs" "fst r = None \<longrightarrow> length cs \<le> k"
    using assms(2) unfolding wrote_def by (elim exE conjE) (rule that)
  moreover have "sink_out w' = sink_out w @ bs" using assms(1) by (auto simp: wrote_def)
  ultimately show ?thesis unfolding wrote_def by (intro exI [of _ "length bs + k"]) auto
qed

lemma wrote_error:
  assumes "wrote w bs (Some e, w')"
  shows "wrote w (bs @ cs) (Some e, w')"
proof -
  obtain k where "sink_out w' = sink_out w @ take k bs" using assms by (auto simp: wrote_def)
  then show ?thesis
    by (auto simp: wrote_def intro!: exI [of _ "min k (length bs)"] simp flip: take_take)
qed

lemma sink_write_wrote:
  assumes "sink_write bs w = (r, w')"
  shows "case r of None \<Rightarrow> sink_out w' = sink_out w | Some (Inl e) \<Rightarrow> sink_out w' = sink_out w
    | Some (Inr n) \<Rightarrow> n \<le> length bs \<and> sink_out w' = sink_out w @ take n bs"
  using assms by (auto simp: sink_write_def min_def split: list.splits write_event.splits if_splits)

lemma write_all_wrote: "wrote w bs (write_all bs w)"
proof (induction bs w rule: write_all.induct)
  case step: (1 bs w)
  obtain r w1 where r: "sink_write bs w = (r, w1)" by fastforce
  note sw = sink_write_wrote [OF r]
  show ?case
  proof (cases "bs = []")
    case True
    then show ?thesis by (simp add: write_all.simps [of "[]"] wrote_def)
  next
    case False
    show ?thesis
    proof (cases r)
      case None
      then show ?thesis
        using step.IH(1) [OF False, of None w1] r sw False by (simp add: write_all.simps [of bs w] wrote_def)
    next
      case (Some x)
      show ?thesis
      proof (cases x)
        case (Inl e)
        then show ?thesis using Some r sw False by (simp add: write_all.simps [of bs w] wrote_def)
      next
        case (Inr n)
        have out: "sink_out w1 = sink_out w @ take n bs" using sw Some Inr by simp
        show ?thesis
        proof (cases "n = 0")
          case True
          then show ?thesis using Some Inr r out False by (simp add: write_all.simps [of bs w] wrote_def)
        next
          case n: False
          have "wrote w (take n bs) (None, w1)" using out by (simp add: wrote_def exI [of _ n])
          then have "wrote w (take n bs @ drop n bs) (write_all (drop n bs) w1)"
            using step.IH(2) [OF False, of r w1 x n] r Some Inr n by (intro wrote_append) simp_all
          then show ?thesis using Some Inr r n False by (simp add: write_all.simps [of bs w])
        qed
      qed
    qed
  qed
qed

lemma and_write_wrote: "wrote w bs r \<Longrightarrow> wrote w (bs @ cs) (and_write cs r)"
  by (cases r; cases "fst r")
    (auto simp: and_write_def intro: wrote_error wrote_append [OF _ write_all_wrote])

lemma write_record_wrote: "wrote w (encode_record W bs) (write_record W bs w)"
  unfolding write_record_def encode_record_def Let_def append.assoc [symmetric]
  by (intro and_write_wrote write_all_wrote)

lemma write_records_wrote: "wrote w (encode_records W rs) (write_records W rs w)"
proof (induction rs arbitrary: w)
  case Nil
  then show ?case by (simp add: wrote_def encode_records_def)
next
  case (Cons r rs)
  have "wrote w (encode_record W r) (write_record W r w)" by (rule write_record_wrote)
  then show ?case
    using wrote_append [OF _ Cons, of w "encode_record W r"] wrote_error [of w "encode_record W r"]
    by (auto simp: encode_records_def split: prod.splits option.splits)
qed

section \<open>Little-endian conversions and the checksum\<close>

fun le_put :: "nat \<Rightarrow> nat \<Rightarrow> byte_list" where
  "le_put 0 x = []"
| "le_put (Suc n) x = of_nat (x mod 256) # le_put n (x div 256)"

fun le_get :: "byte_list \<Rightarrow> nat" where
  "le_get [] = 0"
| "le_get (b # bs) = unat b + 256 * le_get bs"

lemma length_le_put: "length (le_put n x) = n"
  by (induction n arbitrary: x) auto

lemma le_get_put: "x < 256 ^ n \<Longrightarrow> le_get (le_put n x) = x"
proof (induction n arbitrary: x)
  case (Suc n)
  then have "x div 256 < 256 ^ n" by (simp add: less_mult_imp_div_less mult.commute)
  then show ?case using Suc.IH by (simp add: unat_of_nat)
qed simp

lemma le_put_get: "le_put (length bs) (le_get bs) = bs"
proof (induction bs)
  case (Cons b bs)
  have "unat b < 256" using unsigned_less [of b, where 'a = nat] by simp
  then show ?case using Cons by simp
qed simp

lemma le_get_bound: "le_get bs < 256 ^ length bs"
proof (induction bs)
  case (Cons b bs)
  have "unat b < 256" using unsigned_less [of b, where 'a = nat] by simp
  then show ?case using Cons by simp
qed simp

text \<open>One bit and one byte of the reflected Castagnoli polynomial.\<close>

definition crc32c_bit :: "32 word \<Rightarrow> 32 word" where
  "crc32c_bit c = (if bit c 0 then drop_bit 1 c XOR 0x82f63b78 else drop_bit 1 c)"

definition crc32c_byte :: "8 word \<Rightarrow> 32 word \<Rightarrow> 32 word" where
  "crc32c_byte b c = (crc32c_bit ^^ 8) (c XOR ucast b)"

definition crc32c :: "byte_list \<Rightarrow> 32 word" where
  "crc32c bs = NOT (fold crc32c_byte bs (NOT 0))"

definition le_wire :: wire where
  "le_wire = \<lparr>put_u32 = \<lambda>x. le_put 4 (unat x), get_u32 = \<lambda>bs. of_nat (le_get bs),
     put_u64 = \<lambda>x. le_put 8 (unat x), get_u64 = \<lambda>bs. of_nat (le_get bs),
     checksum_castagnoli = crc32c, can_reserve = \<lambda>n. n < 2 ^ 63\<rparr>"

interpretation le: wire_format le_wire
proof unfold_locales
  fix x :: "32 word" and y :: "64 word" and bs :: byte_list
  have "unat x < 2 ^ 32" "unat y < 2 ^ 64" using unsigned_less [of x, where 'a = nat] unsigned_less [of y, where 'a = nat] by simp_all
  then show "get_u32 le_wire (put_u32 le_wire x) = x" "get_u64 le_wire (put_u64 le_wire y) = y"
    by (simp_all add: le_wire_def le_get_put)
  show "put_u32 le_wire (get_u32 le_wire bs) = bs" if "length bs = 4"
    using that le_get_bound [of bs] le_put_get [of bs] by (simp add: le_wire_def unat_of_nat)
  show "put_u64 le_wire (get_u64 le_wire bs) = bs" if "length bs = 8"
    using that le_get_bound [of bs] le_put_get [of bs] by (simp add: le_wire_def unat_of_nat)
qed (simp_all add: le_wire_def length_le_put)

section \<open>Sinks that accept everything\<close>

fun accepts :: "write_event \<Rightarrow> bool" where
  "accepts (Accept n) \<longleftrightarrow> 0 < n"
| "accepts Write_Interrupted \<longleftrightarrow> True"
| "accepts (Write_Failed e) \<longleftrightarrow> False"

definition reliable :: "sink \<Rightarrow> bool" where
  "reliable w \<longleftrightarrow> list_all accepts (sink_plan w)"

lemma write_all_reliable: "reliable w \<Longrightarrow> fst (write_all bs w) = None \<and> reliable (snd (write_all bs w))"
proof (induction bs w rule: write_all.induct)
  case step: (1 bs w)
  show ?case
  proof (cases "bs = []")
    case True
    then show ?thesis using step.prems by (simp add: write_all.simps [of "[]"])
  next
    case False
    obtain r w1 where r: "sink_write bs w = (r, w1)" by fastforce
    have "reliable w1" "r = None \<or> (\<exists>n. r = Some (Inr n) \<and> 0 < n)"
      using step.prems r False
      by (auto simp: reliable_def sink_write_def split: list.splits write_event.splits)
    then show ?thesis
      using step.IH(1) [OF False, of r w1] step.IH(2) [OF False, of r w1] r False
      by (auto simp: write_all.simps [of bs w])
  qed
qed

lemma and_write_reliable:
  "fst r = None \<and> reliable (snd r) \<Longrightarrow> fst (and_write bs r) = None \<and> reliable (snd (and_write bs r))"
  using write_all_reliable by (cases r) (auto simp: and_write_def)

lemma write_records_reliable: "reliable w \<Longrightarrow> fst (write_records W rs w) = None"
proof (induction rs arbitrary: w)
  case (Cons r rs)
  then have "fst (write_record W r w) = None \<and> reliable (snd (write_record W r w))"
    unfolding write_record_def Let_def by (intro and_write_reliable write_all_reliable)
  then show ?case using Cons.IH by (cases "write_record W r w") auto
qed simp

section \<open>A sample file\<close>

text \<open>Two records, written through a sink that takes five bytes, is interrupted and takes one byte before it accepts
  the rest, and read in two chunks with an interruption in between.\<close>

definition sample_sink :: sink where
  "sample_sink = \<lparr>sink_out = [], sink_plan = [Accept 5, Write_Interrupted, Accept 1], sink_flush = None\<rparr>"

definition sample_file :: byte_list where
  "sample_file = sink_out (snd (write_records le_wire [[1, 2, 3], []] sample_sink))"

definition sample_source :: source where
  "sample_source = [Chunk (take 5 sample_file), Read_Interrupted, Chunk (drop 5 sample_file)]"

lemma sample_written:
  "write_records le_wire [[1, 2, 3], []] sample_sink = (None, snd (write_records le_wire [[1, 2, 3], []] sample_sink))"
  using write_records_reliable [of sample_sink le_wire "[[1, 2, 3], []]"]
  by (simp add: reliable_def sample_sink_def prod_eq_iff)

lemma sample_file_encoded: "sample_file = encode_record le_wire [1, 2, 3] @ encode_record le_wire []"
proof -
  have "sink_out sample_sink = []" by (simp add: sample_sink_def)
  moreover have "fst (write_records le_wire [[1, 2, 3], []] sample_sink) = None"
    by (rule write_records_reliable) (simp add: reliable_def sample_sink_def)
  ultimately show ?thesis
    using write_records_wrote [of sample_sink le_wire "[[1, 2, 3], []]"]
    by (auto simp: sample_file_def wrote_def encode_records_def simp del: write_records.simps)
qed

lemma sample_source_ok: "quiet sample_source" "content sample_source = sample_file"
proof -
  have "length sample_file = 35" by (simp add: sample_file_encoded le.length_encode_record)
  then have "take 5 sample_file \<noteq> []" "drop 5 sample_file \<noteq> []" by auto
  then show "quiet sample_source" "content sample_source = sample_file" by (simp_all add: sample_source_def)
qed

lemma sample_storable: "list_all (storable le_wire) [[1, 2, 3], []]"
  by (simp add: storable_def le_wire_def)

section \<open>Properties\<close>

text \<open>C19: The records that have been written are read back, and nothing else, whatever the sizes of the chunks in which
  the file is written and read and however often the calls are interrupted.\<close>

theorem written_records_read_back:
  assumes "wire_format W" "list_all (storable W) rs" "sink_out w = []" "write_records W rs w = (None, w')"
    "quiet es" "content es = sink_out w'"
  shows "records W es = map Io_Ok rs"
proof -
  have "content es = encode_records W rs @ []"
    using write_records_wrote [of w W rs] assms by (auto simp: wrote_def)
  then show ?thesis
    using wire_format.records_encoded [OF assms(1,5) _ assms(2)] records_end by fastforce
qed

theorem written_records_read_back_witness: "records le_wire sample_source = [Io_Ok [1, 2, 3], Io_Ok []]"
  using written_records_read_back [OF le.wire_format_axioms sample_storable _ sample_written sample_source_ok(1)]
  by (simp add: sample_source_ok sample_file_def sample_sink_def)

text \<open>C25: A record is read exactly when the file starts with its encoding and the bytes fit in memory, and the rest of
  the file is what follows.\<close>

theorem read_record_accepts_encodings:
  assumes "wire_format W" "quiet es"
  shows "(\<exists>es'. read_record W es buf = (Io_Ok True, es', buf @ bs) \<and> content es' = rest) \<longleftrightarrow>
    content es = encode_record W bs @ rest \<and> length bs < 2 ^ 64 \<and> can_reserve W (length buf + length bs)"
  (is "?l \<longleftrightarrow> ?r")
proof
  assume ?l
  then have "decode_record W (content es) buf = (Io_Ok True, rest, buf @ bs)"
    using read_record_quiet [OF assms(2), of W buf] by (cases "decode_record W (content es) buf") fastforce
  then show ?r using wire_format.decode_accepted [OF assms(1)] by fastforce
next
  assume ?r
  then show ?l
    using wire_format.decode_encoded [OF assms(1), of bs buf rest] read_record_quiet [OF assms(2), of W buf] by fastforce
qed

theorem read_record_accepts_encodings_witness:
  "\<exists>es'. read_record le_wire sample_source [] = (Io_Ok True, es', [1, 2, 3]) \<and> content es' = encode_record le_wire []"
  using read_record_accepts_encodings [OF le.wire_format_axioms sample_source_ok(1),
      of "[]" "[1, 2, 3]" "encode_record le_wire []"]
  by (simp add: sample_source_ok sample_file_encoded le_wire_def)



end
