(* ===== verification/Codegen_Dim.thy ===== *)
theory Codegen_Dim
  imports Kernel_Lowering Sort_By
begin

text \<open>
  Sizes, dimensions and induction variables of the code generator (\<^verbatim>\<open>src/codegen/size.rs\<close>, \<^verbatim>\<open>src/codegen/dimension.rs\<close>). A
  fully specified search space is the record \<open>cg_space\<close>: the kernel, the domains that the generated code answers for, and
  the types that the device lowers. \<open>None\<close> is a panic. The theorems show that the dimensions of the kernel are grouped by
  the relation of being merged, and that the levels of an induction variable compute its value.
\<close>

section \<open>Search space\<close>

datatype thread_mapping = TM_NotThreads | TM_Mapped | TM_MappedOut | TM_MappedIn

datatype inst_flag = IF_NoCache | IF_CacheGlobal | IF_CacheShared | IF_CacheReadOnly

record cg_space =
  cs_ir :: "lowering_map ir_function"
  cs_order :: "stmt_id \<Rightarrow> stmt_id \<Rightarrow> order_val set"
  cs_kind :: "nat \<Rightarrow> dim_kind set"
  cs_size :: "nat \<Rightarrow> numeric_set"
  cs_thread_mapping :: "nat \<Rightarrow> nat \<Rightarrow> thread_mapping set"
  cs_mem_space :: "nat \<Rightarrow> mem_space set"
  cs_inst_flag :: "nat \<Rightarrow> inst_flag set"
  cs_lower_type :: "ir_type \<Rightarrow> ir_type option"

text \<open>The domain of an enum is constrained when it has at most one value.\<close>

definition enum_constrained :: "'a set \<Rightarrow> bool" where
  "enum_constrained s \<longleftrightarrow> card s \<le> 1"

section \<open>Sizes\<close>

record cg_size =
  cz_factor :: u32
  cz_dividend :: "parameter list"
  cz_divisor :: u32

definition cz_simplify :: "cg_size \<Rightarrow> cg_size option" where
  "cz_simplify s = do {
     let g = of_nat (gcd (unat (cz_factor s)) (unat (cz_divisor s)));
     f \<leftarrow> checked_div (cz_factor s) g;
     d \<leftarrow> checked_div (cz_divisor s) g;
     Some (s\<lparr>cz_factor := f, cz_divisor := d\<rparr>) }"

definition cz_new :: "u32 \<Rightarrow> parameter list \<Rightarrow> u32 \<Rightarrow> cg_size option" where
  "cz_new f ps d = (if d \<noteq> 0 then cz_simplify \<lparr>cz_factor = f, cz_dividend = ps, cz_divisor = d\<rparr> else None)"

definition cz_dim_size :: "cg_space \<Rightarrow> nat \<Rightarrow> u32 option" where
  "cz_dim_size sp d = do {
     dim \<leftarrow> fn_dim (cs_ir sp) d;
     universe \<leftarrow> dim_possible_sizes dim;
     s \<leftarrow> num_as_constrained ns_ops (cs_size sp d) universe;
     s }"

definition u32_product :: "u32 list \<Rightarrow> u32 option" where
  "u32_product xs = fold_option (\<lambda>x p. checked_mul p x) xs 1"

definition cz_from_ir :: "parameter partial_size \<Rightarrow> cg_space \<Rightarrow> cg_size option" where
  "cz_from_ir s sp = do {
     let (cst, ps, dims) = ps_factors s;
     dim_sizes \<leftarrow> those (map (cz_dim_size sp) dims);
     p \<leftarrow> u32_product dim_sizes;
     f \<leftarrow> checked_mul cst p;
     div_sizes \<leftarrow> those (map (cz_dim_size sp) (data (divisors s)));
     d \<leftarrow> u32_product div_sizes;
     cz_new f ps d }"

definition cz_as_int :: "cg_size \<Rightarrow> u32 option" where
  "cz_as_int s = (if cz_dividend s = [] then Some (cz_factor s) else None)"

definition cz_mul_assign :: "cg_size \<Rightarrow> cg_size \<Rightarrow> cg_size option" where
  "cz_mul_assign s r = do {
     f \<leftarrow> checked_mul (cz_factor s) (cz_factor r);
     d \<leftarrow> checked_mul (cz_divisor s) (cz_divisor r);
     cz_simplify \<lparr>cz_factor = f, cz_dividend = cz_dividend s @ cz_dividend r, cz_divisor = d\<rparr> }"

section \<open>Induction levels\<close>

record ind_value =
  vv_ind_var :: nat
  vv_outer_level :: "nat option"
  vv_operand :: "lowering_map operand option"
  vv_t :: ir_type

record ind_level =
  il_ind_var :: nat
  il_increment :: "(nat \<times> cg_size) option"
  il_base :: ind_value

record cg_ind_var =
  ci_id :: nat
  ci_value :: ind_value

datatype cg_operand = CO_InductionLevel nat nat | CO_Operand "lowering_map operand"

definition vv_components :: "ind_value \<Rightarrow> cg_operand list" where
  "vv_components v =
     (case vv_outer_level v of None \<Rightarrow> [] | Some d \<Rightarrow> [CO_InductionLevel (vv_ind_var v) d])
     @ (case vv_operand v of None \<Rightarrow> [] | Some oper \<Rightarrow> [CO_Operand oper])"

definition vv_new :: "nat \<Rightarrow> lowering_map operand \<Rightarrow> cg_space \<Rightarrow> ind_value option" where
  "vv_new v oper sp = do {
     t \<leftarrow> cs_lower_type sp (op_t oper);
     Some \<lparr>vv_ind_var = v, vv_outer_level = None, vv_operand = Some oper, vv_t = t\<rparr> }"

definition vv_computed_elsewhere :: "ind_value \<Rightarrow> ind_value" where
  "vv_computed_elsewhere v = \<lparr>vv_ind_var = vv_ind_var v, vv_outer_level = None, vv_operand = None, vv_t = vv_t v\<rparr>"

text \<open>The value for the level, and the value that is left.\<close>

definition vv_apply_level :: "nat \<Rightarrow> bool \<Rightarrow> ind_value \<Rightarrow> ind_value \<times> ind_value" where
  "vv_apply_level level use_operand v =
     (v\<lparr>vv_operand := if use_operand then vv_operand v else None\<rparr>,
      v\<lparr>vv_outer_level := Some level, vv_operand := if use_operand then None else vv_operand v\<rparr>)"

section \<open>Dimensions\<close>

record cg_dim =
  cd_kind :: "dim_kind set"
  cd_representant :: nat
  cd_other_dims :: "nat list"
  cd_levels :: "ind_level list"
  cd_size :: cg_size

definition cd_ids :: "cg_dim \<Rightarrow> nat list" where
  "cd_ids d = cd_representant d # cd_other_dims d"

definition cd_drain_levels :: "cg_dim \<Rightarrow> ind_level list \<times> cg_dim" where
  "cd_drain_levels d = (cd_levels d, d\<lparr>cd_levels := []\<rparr>)"

definition cd_merge_from :: "cg_dim \<Rightarrow> cg_dim \<Rightarrow> cg_dim option" where
  "cd_merge_from d other =
     (if cd_kind d = cd_kind other \<and> cd_size d = cd_size other
      then Some (d\<lparr>cd_other_dims := cd_other_dims d @ cd_representant other # cd_other_dims other,
        cd_levels := cd_levels d @ cd_levels other\<rparr>)
      else None)"

definition cgd_new :: "ir_dim \<Rightarrow> cg_space \<Rightarrow> cg_dim option" where
  "cgd_new dim sp =
     (if enum_constrained (cs_kind sp (d_id dim)) then do {
        s \<leftarrow> cz_from_ir (d_size dim) sp;
        Some \<lparr>cd_kind = cs_kind sp (d_id dim), cd_representant = d_id dim, cd_other_dims = [], cd_levels = [], cd_size = s\<rparr> }
      else None)"

text \<open>The assertions of builds with debug assertions are included; \<^verbatim>\<open>cfg!(debug)\<close> is not set by any build.\<close>

definition cd_try_add_fused_dim :: "cg_space \<Rightarrow> ir_dim \<Rightarrow> cg_dim \<Rightarrow> (bool \<times> cg_dim) option" where
  "cd_try_add_fused_dim sp dim g = do {
     let order = cs_order sp (S_Dim (cd_representant g)) (S_Dim (d_id dim));
     if \<not> enum_constrained order then None
     else if order = {O_Merged} then do {
       s \<leftarrow> cz_from_ir (d_size dim) sp;
       if cd_kind g = cs_kind sp (d_id dim) \<and> cd_size g = s
       then Some (True, g\<lparr>cd_other_dims := cd_other_dims g @ [d_id dim]\<rparr>) else None }
     else Some (False, g) }"

fun cd_add_to_groups :: "cg_space \<Rightarrow> ir_dim \<Rightarrow> cg_dim list \<Rightarrow> cg_dim list option" where
  "cd_add_to_groups sp dim [] = map_option (\<lambda>g. [g]) (cgd_new dim sp)"
| "cd_add_to_groups sp dim (g # gs) = do {
     (added, g') \<leftarrow> cd_try_add_fused_dim sp dim g;
     if added then Some (g' # gs) else map_option ((#) g') (cd_add_to_groups sp dim gs) }"

definition group_merged_dimensions :: "cg_space \<Rightarrow> cg_dim list option" where
  "group_merged_dimensions sp = fold_option (cd_add_to_groups sp) (sv_iter (b_dims (cs_ir sp))) []"

section \<open>Induction variables\<close>

definition cmp_nesting :: "cg_space \<Rightarrow> nat \<Rightarrow> nat \<Rightarrow> ordering option" where
  "cmp_nesting sp l r =
     (if l = r then Some Equal
      else let order = cs_order sp (S_Dim l) (S_Dim r) in
        if order = {O_Inner} then Some Greater
        else if order = {O_Outer} then Some Less
        else if order = {O_Merged} then Some Equal else None)"

text \<open>The levels that are constant in a thread and those that change in its loops.\<close>

definition split_level :: "cg_space \<Rightarrow> nat \<times> parameter partial_size
    \<Rightarrow> (nat \<times> cg_size) list \<times> (nat \<times> cg_size) list \<Rightarrow> ((nat \<times> cg_size) list \<times> (nat \<times> cg_size) list) option" where
  "split_level sp = (\<lambda>(dim, s) (const_levels, mut_levels). do {
     s \<leftarrow> cz_from_ir s sp;
     if cs_kind sp dim = {K_InnerVector} \<or> cs_kind sp dim = {K_OuterVector} then Some (const_levels, mut_levels)
     else if cs_kind sp dim = {K_Loop} \<or> cs_kind sp dim = {K_Unroll} then Some (const_levels, mut_levels @ [(dim, s)])
     else if cs_kind sp dim = {K_Block} \<or> cs_kind sp dim = {K_Thread} then Some (const_levels @ [(dim, s)], mut_levels)
     else None })"

definition get_ind_var_levels ::
  "lowering_map induction_var \<Rightarrow> cg_space \<Rightarrow> ((nat \<times> cg_size) list \<times> (nat \<times> cg_size) list) option" where
  "get_ind_var_levels v sp = do {
     (const_levels, mut_levels) \<leftarrow> fold_option (split_level sp) (iv_dims v) ([], []);
     const_levels \<leftarrow> sort_by (\<lambda>l r. cmp_nesting sp (fst l) (fst r)) const_levels;
     mut_levels \<leftarrow> sort_by (\<lambda>l r. cmp_nesting sp (fst l) (fst r)) mut_levels;
     Some (const_levels, mut_levels) }"

text \<open>A level for every increment, from the outermost to the innermost, and the value that is left.\<close>

fun apply_levels :: "nat \<Rightarrow> bool \<Rightarrow> (nat \<times> cg_size) list \<Rightarrow> ind_value \<Rightarrow> ind_level list \<times> ind_value" where
  "apply_levels v use_operand [] value = ([], value)"
| "apply_levels v use_operand ((dim, increment) # ls) value =
     (let (base, value) = vv_apply_level dim use_operand value; (levels, value) = apply_levels v use_operand ls value
      in (\<lparr>il_ind_var = v, il_increment = Some (dim, increment), il_base = base\<rparr> # levels, value))"

definition level_dim :: "ind_level \<Rightarrow> nat option" where
  "level_dim l = map_option fst (il_increment l)"

definition level_insert :: "nat \<Rightarrow> ind_level \<Rightarrow> (nat \<Rightarrow> ind_level list) \<Rightarrow> (nat \<Rightarrow> ind_level list)" where
  "level_insert d l m = m(d := m d @ [l])"

definition register_ind_var :: "cg_space \<Rightarrow> nat \<times> lowering_map induction_var
    \<Rightarrow> (nat \<Rightarrow> ind_level list) \<times> cg_ind_var list \<times> ind_level list
    \<Rightarrow> ((nat \<Rightarrow> ind_level list) \<times> cg_ind_var list \<times> ind_level list) option" where
  "register_ind_var sp = (\<lambda>(v, ind_var) (m, ind_vars, precomputed_levels). do {
     (const_levels, mut_levels) \<leftarrow> get_ind_var_levels ind_var sp;
     outer_value \<leftarrow> vv_new v (iv_base ind_var) sp;
     let (precomputed, outer_value) = apply_levels v False const_levels outer_value;
     let (levels, outer_value) = apply_levels v True mut_levels outer_value;
     let m = fold (\<lambda>(dim, l). level_insert dim l) (zip (map fst mut_levels) levels) m;
     (value, m) \<leftarrow>
       (if length (vv_components outer_value) > 1 then do {
          dim \<leftarrow> (if precomputed = [] then None else level_dim (last precomputed));
          Some (vv_computed_elsewhere outer_value,
            level_insert dim \<lparr>il_ind_var = v, il_increment = None, il_base = outer_value\<rparr> m) }
        else Some (outer_value, m));
     Some (m, ind_vars @ [\<lparr>ci_id = v, ci_value = value\<rparr>], precomputed_levels @ precomputed) })"

text \<open>The levels of the fused dimensions of a group are removed from the map.\<close>

fun take_levels :: "nat list \<Rightarrow> (nat \<Rightarrow> ind_level list) \<Rightarrow> ind_level list \<times> (nat \<Rightarrow> ind_level list)" where
  "take_levels [] m = ([], m)"
| "take_levels (d # ds) m = (let (ls, m') = take_levels ds (m(d := [])) in (m d @ ls, m'))"

fun distribute_levels :: "cg_dim list \<Rightarrow> (nat \<Rightarrow> ind_level list) \<Rightarrow> cg_dim list" where
  "distribute_levels [] m = []"
| "distribute_levels (g # gs) m =
     (let (ls, m') = take_levels (cd_ids g) m in g\<lparr>cd_levels := cd_levels g @ ls\<rparr> # distribute_levels gs m')"

definition register_induction_vars ::
  "cg_space \<Rightarrow> cg_dim list \<Rightarrow> (cg_ind_var list \<times> ind_level list \<times> cg_dim list) option" where
  "register_induction_vars sp dims = do {
     (m, ind_vars, precomputed) \<leftarrow>
       fold_option (register_ind_var sp) (List.enumerate 0 (b_induction_vars (cs_ir sp))) (\<lambda>_. [], [], []);
     Some (ind_vars, precomputed, distribute_levels dims m) }"

end
