(* ===== verification/Codegen_Levels.thy ===== *)
theory Codegen_Levels
  imports Codegen_Dim
begin

text \<open>
  What the dimensions and the induction levels of the code generator mean: the groups of dimensions are the classes of
  the merged dimensions, and computing the induction levels from the outermost dimension to the innermost one gives every
  induction variable its base plus its increments, multiplied by the indexes of the dimensions that are not vectorised.
\<close>

section \<open>Groups of dimensions\<close>

definition cg_merged :: "cg_space \<Rightarrow> nat \<Rightarrow> nat \<Rightarrow> bool" where
  "cg_merged sp a b \<longleftrightarrow> cs_order sp (S_Dim a) (S_Dim b) = {O_Merged}"

text \<open>The decisions on the dimensions are taken, and the merged dimensions are a partial equivalence with the same kind and size.\<close>

definition dims_specified :: "cg_space \<Rightarrow> ir_dim list \<Rightarrow> bool" where
  "dims_specified sp dims \<longleftrightarrow>
     distinct (map d_id dims)
   \<and> (\<forall>x \<in> set dims. enum_constrained (cs_kind sp (d_id x)) \<and> cz_from_ir (d_size x) sp \<noteq> None)
   \<and> (\<forall>x \<in> set dims. \<forall>y \<in> set dims. x \<noteq> y \<longrightarrow> enum_constrained (cs_order sp (S_Dim (d_id x)) (S_Dim (d_id y)))
       \<and> cg_merged sp (d_id x) (d_id y) = cg_merged sp (d_id y) (d_id x)
       \<and> (cg_merged sp (d_id x) (d_id y) \<longrightarrow>
            cs_kind sp (d_id x) = cs_kind sp (d_id y) \<and> cz_from_ir (d_size x) sp = cz_from_ir (d_size y) sp))
   \<and> (\<forall>x \<in> set dims. \<forall>y \<in> set dims. \<forall>z \<in> set dims. x \<noteq> y \<and> y \<noteq> z \<and> x \<noteq> z \<longrightarrow>
        cg_merged sp (d_id x) (d_id y) \<longrightarrow> cg_merged sp (d_id y) (d_id z) \<longrightarrow> cg_merged sp (d_id x) (d_id z))"

text \<open>A group for some dimensions: the representative, the others, their kind and size.\<close>

definition group_for :: "cg_space \<Rightarrow> ir_dim list \<Rightarrow> cg_dim \<Rightarrow> bool" where
  "group_for sp dims g \<longleftrightarrow>
     (\<exists>x \<in> set dims. cd_representant g = d_id x \<and> cd_kind g = cs_kind sp (d_id x) \<and> cz_from_ir (d_size x) sp = Some (cd_size g))
   \<and> cd_levels g = [] \<and> (\<forall>b \<in> set (cd_other_dims g). cg_merged sp (cd_representant g) b)"

definition groups_of :: "cg_space \<Rightarrow> ir_dim list \<Rightarrow> cg_dim list \<Rightarrow> bool" where
  "groups_of sp dims gs \<longleftrightarrow>
     mset (concat (map cd_ids gs)) = mset (map d_id dims) \<and> list_all (group_for sp dims) gs
   \<and> sorted_wrt (\<lambda>g h. \<not> cg_merged sp (cd_representant g) (cd_representant h)) gs"

lemma group_for_mono: "group_for sp xs g \<Longrightarrow> set xs \<subseteq> set ys \<Longrightarrow> group_for sp ys g"
  unfolding group_for_def by blast

lemma try_add_fused:
  assumes "dims_specified sp dims" "x \<in> set dims" "d_id x \<notin> set (cd_ids g)" "group_for sp dims g"
  shows "cd_try_add_fused_dim sp x g =
    Some (if cg_merged sp (cd_representant g) (d_id x) then (True, g\<lparr>cd_other_dims := cd_other_dims g @ [d_id x]\<rparr>) else (False, g))"
proof -
  obtain y where y: "y \<in> set dims" "cd_representant g = d_id y" "cd_kind g = cs_kind sp (d_id y)"
    "cz_from_ir (d_size y) sp = Some (cd_size g)"
    using assms(4) by (auto simp: group_for_def)
  have "y \<noteq> x" using assms(3) y(2) by (auto simp: cd_ids_def)
  then have "enum_constrained (cs_order sp (S_Dim (d_id y)) (S_Dim (d_id x)))"
    "cg_merged sp (d_id y) (d_id x) \<longrightarrow>
       cs_kind sp (d_id y) = cs_kind sp (d_id x) \<and> cz_from_ir (d_size y) sp = cz_from_ir (d_size x) sp"
    using assms(1,2) y(1) unfolding dims_specified_def by blast+
  then show ?thesis using y
    by (cases "cz_from_ir (d_size x) sp") (auto simp: cd_try_add_fused_dim_def cg_merged_def)
qed

lemma add_to_groups:
  assumes "dims_specified sp dims" "x \<in> set dims" "list_all (group_for sp dims) gs"
    "\<forall>g \<in> set gs. d_id x \<notin> set (cd_ids g)"
    "sorted_wrt (\<lambda>g h. \<not> cg_merged sp (cd_representant g) (cd_representant h)) gs"
  shows "\<exists>gs'. cd_add_to_groups sp x gs = Some gs'
    \<and> mset (concat (map cd_ids gs')) = add_mset (d_id x) (mset (concat (map cd_ids gs)))
    \<and> list_all (group_for sp dims) gs'
    \<and> (map cd_representant gs' = map cd_representant gs
       \<or> map cd_representant gs' = map cd_representant gs @ [d_id x] \<and> (\<forall>g \<in> set gs. \<not> cg_merged sp (cd_representant g) (d_id x)))"
  using assms(3-5)
proof (induction gs)
  case Nil
  have c: "enum_constrained (cs_kind sp (d_id x))" "cz_from_ir (d_size x) sp \<noteq> None"
    using assms(1,2) unfolding dims_specified_def by blast+
  then obtain s where s: "cz_from_ir (d_size x) sp = Some s" by blast
  have "group_for sp dims \<lparr>cd_kind = cs_kind sp (d_id x), cd_representant = d_id x, cd_other_dims = [], cd_levels = [], cd_size = s\<rparr>"
    using assms(2) s by (auto simp: group_for_def)
  then show ?case using c s by (simp add: cgd_new_def cd_ids_def)
next
  case (Cons g gs)
  have g: "group_for sp dims g" "d_id x \<notin> set (cd_ids g)" using Cons.prems by simp_all
  note t = try_add_fused [OF assms(1,2) g(2,1)]
  show ?case
  proof (cases "cg_merged sp (cd_representant g) (d_id x)")
    case True
    have "group_for sp dims (g\<lparr>cd_other_dims := cd_other_dims g @ [d_id x]\<rparr>)"
      using g(1) True by (auto simp: group_for_def)
    then show ?thesis using t True Cons.prems by (simp add: cd_ids_def)
  next
    case False
    obtain gs' where "cd_add_to_groups sp x gs = Some gs'"
      "mset (concat (map cd_ids gs')) = add_mset (d_id x) (mset (concat (map cd_ids gs)))" "list_all (group_for sp dims) gs'"
      "map cd_representant gs' = map cd_representant gs
       \<or> map cd_representant gs' = map cd_representant gs @ [d_id x] \<and> (\<forall>g \<in> set gs. \<not> cg_merged sp (cd_representant g) (d_id x))"
      using Cons.IH Cons.prems by auto
    then show ?thesis using t False g(1) by (intro exI [of _ "g # gs'"]) auto
  qed
qed

lemma sorted_wrt_representants:
  "sorted_wrt (\<lambda>g h. \<not> cg_merged sp (cd_representant g) (cd_representant h)) gs
   \<longleftrightarrow> sorted_wrt (\<lambda>a b. \<not> cg_merged sp a b) (map cd_representant gs)"
  by (simp add: sorted_wrt_map)

lemma fold_add_to_groups:
  assumes "dims_specified sp dims" "set xs \<union> set ys \<subseteq> set dims" "distinct (map d_id (xs @ ys))"
    "mset (concat (map cd_ids gs)) = mset (map d_id xs)" "list_all (group_for sp dims) gs"
    "sorted_wrt (\<lambda>g h. \<not> cg_merged sp (cd_representant g) (cd_representant h)) gs"
  shows "\<exists>gs'. fold_option (cd_add_to_groups sp) ys gs = Some gs'
    \<and> mset (concat (map cd_ids gs')) = mset (map d_id (xs @ ys)) \<and> list_all (group_for sp dims) gs'
    \<and> sorted_wrt (\<lambda>g h. \<not> cg_merged sp (cd_representant g) (cd_representant h)) gs'"
  using assms(2-)
proof (induction ys arbitrary: xs gs)
  case (Cons y ys)
  have "set (concat (map cd_ids gs)) = d_id ` set xs"
    using Cons.prems(3) by (metis mset_eq_setD set_map)
  then have fresh: "\<forall>g \<in> set gs. d_id y \<notin> set (cd_ids g)" using Cons.prems(2) by auto
  obtain gs1 where gs1: "cd_add_to_groups sp y gs = Some gs1"
    "mset (concat (map cd_ids gs1)) = add_mset (d_id y) (mset (concat (map cd_ids gs)))" "list_all (group_for sp dims) gs1"
    "map cd_representant gs1 = map cd_representant gs
     \<or> map cd_representant gs1 = map cd_representant gs @ [d_id y] \<and> (\<forall>g \<in> set gs. \<not> cg_merged sp (cd_representant g) (d_id y))"
    using add_to_groups [OF assms(1) _ Cons.prems(4) fresh Cons.prems(5)] Cons.prems(1) by auto
  have "sorted_wrt (\<lambda>g h. \<not> cg_merged sp (cd_representant g) (cd_representant h)) gs1"
    using gs1(4) Cons.prems(5) unfolding sorted_wrt_representants by (auto simp: sorted_wrt_append)
  then show ?case
    using Cons.IH [of "xs @ [y]" gs1] Cons.prems gs1 by auto
qed simp

lemma groups_built:
  assumes "dims_specified sp (sv_iter (b_dims (cs_ir sp)))"
  shows "\<exists>gs. group_merged_dimensions sp = Some gs \<and> groups_of sp (sv_iter (b_dims (cs_ir sp))) gs"
  using fold_add_to_groups [OF assms, of "[]" "sv_iter (b_dims (cs_ir sp))" "[]"] assms
  by (auto simp: group_merged_dimensions_def groups_of_def dims_specified_def)

text \<open>Being equal or merged is an equivalence on the dimensions of the kernel.\<close>

definition fused :: "cg_space \<Rightarrow> nat \<Rightarrow> nat \<Rightarrow> bool" where
  "fused sp a b \<longleftrightarrow> a = b \<or> cg_merged sp a b"

lemma fused_sym:
  assumes "dims_specified sp dims" "a \<in> d_id ` set dims" "b \<in> d_id ` set dims" "fused sp a b"
  shows "fused sp b a"
proof -
  obtain x y where "x \<in> set dims" "y \<in> set dims" "a = d_id x" "b = d_id y" using assms(2,3) by blast
  then show ?thesis using assms(1,4) unfolding dims_specified_def fused_def by metis
qed

lemma fused_trans:
  assumes "dims_specified sp dims" "a \<in> d_id ` set dims" "b \<in> d_id ` set dims" "c \<in> d_id ` set dims"
    "fused sp a b" "fused sp b c"
  shows "fused sp a c"
proof (cases "a = b \<or> b = c \<or> a = c")
  case False
  obtain x y z where xyz: "x \<in> set dims" "y \<in> set dims" "z \<in> set dims" "a = d_id x" "b = d_id y" "c = d_id z"
    using assms(2-4) by blast
  then have "x \<noteq> y" "y \<noteq> z" "x \<noteq> z" "cg_merged sp (d_id x) (d_id y)" "cg_merged sp (d_id y) (d_id z)"
    using False assms(5,6) by (auto simp: fused_def)
  then have "cg_merged sp (d_id x) (d_id z)" using assms(1) xyz(1-3) unfolding dims_specified_def by blast
  then show ?thesis using xyz by (simp add: fused_def)
qed (use assms in \<open>auto simp: fused_def\<close>)

lemma group_ids_fused:
  assumes "group_for sp dims g" "a \<in> set (cd_ids g)"
  shows "fused sp (cd_representant g) a"
  using assms by (auto simp: group_for_def cd_ids_def fused_def)

lemma representants_apart:
  assumes "dims_specified sp dims" "groups_of sp dims gs" "g \<in> set gs" "h \<in> set gs"
    "fused sp (cd_representant g) (cd_representant h)"
  shows "g = h"
proof (rule ccontr)
  assume ne: "g \<noteq> h"
  have ids: "set (concat (map cd_ids gs)) = d_id ` set dims" "distinct (concat (map cd_ids gs))"
    using assms(1,2) unfolding groups_of_def dims_specified_def
    by (metis mset_eq_setD set_map, metis mset_eq_imp_distinct_iff)
  then have r: "cd_representant g \<in> d_id ` set dims" "cd_representant h \<in> d_id ` set dims"
    using assms(3,4) by (auto simp: cd_ids_def)
  have "cd_representant g \<noteq> cd_representant h"
  proof
    assume eq: "cd_representant g = cd_representant h"
    have "\<forall>x \<in> set gs. \<forall>y \<in> set gs. x \<noteq> y \<longrightarrow> set (cd_ids x) \<inter> set (cd_ids y) = {}"
      using ids(2) by (induction gs) auto
    then show False using eq ne assms(3,4) by (fastforce simp: cd_ids_def)
  qed
  then have m: "cg_merged sp (cd_representant g) (cd_representant h)" "cg_merged sp (cd_representant h) (cd_representant g)"
    using assms(5) fused_sym [OF assms(1) r] by (auto simp: fused_def)
  obtain i j where ij: "i < length gs" "j < length gs" "g = gs ! i" "h = gs ! j" "i \<noteq> j"
    using assms(3,4) ne by (metis in_set_conv_nth)
  then show False
    using assms(2) m unfolding groups_of_def sorted_wrt_iff_nth_less by (metis linorder_less_linear)
qed

lemma group_iff_fused:
  assumes "dims_specified sp dims" "groups_of sp dims gs" "a \<in> d_id ` set dims" "b \<in> d_id ` set dims"
  shows "(\<exists>g \<in> set gs. a \<in> set (cd_ids g) \<and> b \<in> set (cd_ids g)) \<longleftrightarrow> fused sp a b"
proof -
  have ids: "set (concat (map cd_ids gs)) = d_id ` set dims"
    using assms(2) unfolding groups_of_def by (metis mset_eq_setD set_map)
  have gf: "group_for sp dims g" if "g \<in> set gs" for g using assms(2) that by (simp add: groups_of_def list_all_iff)
  have r: "cd_representant g \<in> d_id ` set dims" if "g \<in> set gs" for g
    using ids that by (auto simp: cd_ids_def)
  note sym = fused_sym [OF assms(1)] and trans = fused_trans [OF assms(1)]
  obtain g h where g: "g \<in> set gs" "a \<in> set (cd_ids g)" and h: "h \<in> set gs" "b \<in> set (cd_ids h)"
    using assms(3,4) unfolding ids [symmetric] by auto
  have ga: "fused sp (cd_representant g) a" "fused sp (cd_representant h) b"
    using group_ids_fused gf g h by blast+
  show ?thesis
  proof
    assume "\<exists>g \<in> set gs. a \<in> set (cd_ids g) \<and> b \<in> set (cd_ids g)"
    then obtain k where "k \<in> set gs" "fused sp (cd_representant k) a" "fused sp (cd_representant k) b"
      using group_ids_fused gf by blast
    then show "fused sp a b" using sym trans r assms(3,4) by metis
  next
    assume "fused sp a b"
    then have "fused sp (cd_representant g) (cd_representant h)"
      using ga sym trans r [OF g(1)] r [OF h(1)] assms(3,4) by metis
    then have "g = h" using representants_apart [OF assms(1,2) g(1) h(1)] by blast
    then show "\<exists>g \<in> set gs. a \<in> set (cd_ids g) \<and> b \<in> set (cd_ids g)" using g h by blast
  qed
qed

section \<open>Values of induction variables\<close>

text \<open>
  An environment gives the value of the level of a variable for a dimension, and of the variable itself when it is computed
  separately. The values of operands and sizes and the indexes of the dimensions are fixed at a point of the execution.
\<close>

record cg_point =
  pt_operand :: "lowering_map operand \<Rightarrow> int"
  pt_size :: "cg_size \<Rightarrow> int"
  pt_index :: "nat \<Rightarrow> int"

type_synonym level_env = "nat \<times> nat option \<Rightarrow> int"

fun component_value :: "cg_point \<Rightarrow> level_env \<Rightarrow> cg_operand \<Rightarrow> int" where
  "component_value pt env (CO_InductionLevel v d) = env (v, Some d)"
| "component_value pt env (CO_Operand oper) = pt_operand pt oper"

definition value_sum :: "cg_point \<Rightarrow> level_env \<Rightarrow> ind_value \<Rightarrow> int" where
  "value_sum pt env v = sum_list (map (component_value pt env) (vv_components v))"

definition run_level :: "cg_point \<Rightarrow> ind_level \<Rightarrow> level_env \<Rightarrow> level_env" where
  "run_level pt l env =
     env((il_ind_var l, level_dim l) := value_sum pt env (il_base l)
       + (case il_increment l of None \<Rightarrow> 0 | Some (d, s) \<Rightarrow> pt_index pt d * pt_size pt s))"

definition run_levels :: "cg_point \<Rightarrow> ind_level list \<Rightarrow> level_env \<Rightarrow> level_env" where
  "run_levels pt = fold (run_level pt)"

definition var_value :: "cg_point \<Rightarrow> level_env \<Rightarrow> cg_ind_var \<Rightarrow> int" where
  "var_value pt env v =
     (if vv_components (ci_value v) = [] then env (ci_id v, None) else value_sum pt env (ci_value v))"

definition increments :: "cg_point \<Rightarrow> (nat \<times> cg_size) list \<Rightarrow> int" where
  "increments pt ls = (\<Sum>(d, s) \<leftarrow> ls. pt_index pt d * pt_size pt s)"

lemma run_levels_append: "run_levels pt (xs @ ys) env = run_levels pt ys (run_levels pt xs env)"
  by (simp add: run_levels_def)

lemma apply_levels_value:
  assumes "apply_levels v use_op ls val = (levels, val')" "vv_ind_var val = v"
  shows "value_sum pt (run_levels pt levels env) val' = value_sum pt env val + increments pt ls"
  using assms
proof (induction ls arbitrary: val levels env)
  case (Cons l ls)
  obtain d s where l: "l = (d, s)" by fastforce
  obtain b w where bw: "vv_apply_level d use_op val = (b, w)" by fastforce
  obtain lv w' where lv: "apply_levels v use_op ls w = (lv, w')" by fastforce
  have "vv_ind_var w = v" using bw Cons.prems(2) by (auto simp: vv_apply_level_def)
  define lev where "lev = \<lparr>il_ind_var = v, il_increment = Some (d, s), il_base = b\<rparr>"
  have levels: "levels = lev # lv" "val' = w'" using Cons.prems(1) l bw lv by (auto simp: lev_def)
  have "value_sum pt (run_level pt lev env) w = value_sum pt env val + pt_index pt d * pt_size pt s"
    using bw Cons.prems(2)
    by (cases use_op; cases "vv_outer_level val"; cases "vv_operand val")
      (auto simp: run_level_def lev_def vv_apply_level_def value_sum_def vv_components_def level_dim_def)
  moreover have "value_sum pt (run_levels pt lv (run_level pt lev env)) w' = value_sum pt (run_level pt lev env) w + increments pt ls"
    using Cons.IH [of w lv] lv levels(2) \<open>vv_ind_var w = v\<close> by simp
  ultimately show ?case using levels l by (simp add: run_levels_def increments_def)
qed (simp add: run_levels_def increments_def)

lemma apply_levels_vars:
  assumes "apply_levels v use_op ls val = (levels, val')" "vv_ind_var val = v"
  shows "map level_dim levels = map (Some \<circ> fst) ls"
    "list_all (\<lambda>l. il_ind_var l = v \<and> vv_ind_var (il_base l) = v) levels" "vv_ind_var val' = v"
  using assms
proof (induction ls arbitrary: val levels)
  case (Cons l ls)
  case 1
  then show ?case using Cons(1)
    by (cases l) (auto simp: vv_apply_level_def level_dim_def split: prod.splits)
next
  case (Cons l ls)
  case 2
  then show ?case using Cons(2)
    by (cases l) (auto simp: vv_apply_level_def split: prod.splits)
next
  case (Cons l ls)
  case 3
  then show ?case using Cons(3)
    by (cases l) (auto simp: vv_apply_level_def split: prod.splits)
qed simp_all

text \<open>The levels of the other variables do not matter.\<close>

definition levels_of :: "nat \<Rightarrow> ind_level list \<Rightarrow> ind_level list" where
  "levels_of v ls = filter (\<lambda>l. il_ind_var l = v) ls"

definition own_levels :: "ind_level list \<Rightarrow> bool" where
  "own_levels ls \<longleftrightarrow> list_all (\<lambda>l. vv_ind_var (il_base l) = il_ind_var l) ls"

lemma value_sum_cong:
  "(\<And>d. env (vv_ind_var b, d) = env' (vv_ind_var b, d)) \<Longrightarrow> value_sum pt env b = value_sum pt env' b"
  by (auto simp: value_sum_def vv_components_def split: option.splits)

lemma run_levels_of:
  assumes "own_levels ls" "\<And>d. env (v, d) = env' (v, d)"
  shows "run_levels pt ls env (v, d) = run_levels pt (levels_of v ls) env' (v, d)"
  using assms
proof (induction ls arbitrary: env env')
  case (Cons l ls)
  show ?case
  proof (cases "il_ind_var l = v")
    case True
    then have "run_level pt l env (v, d) = run_level pt l env' (v, d)" for d
      using Cons.prems value_sum_cong [of env "il_base l" env' pt] by (simp add: run_level_def own_levels_def)
    then show ?thesis
      using True Cons.IH [of "run_level pt l env" "run_level pt l env'"] Cons.prems(1)
      by (simp add: run_levels_def levels_of_def own_levels_def)
  next
    case False
    then have "run_level pt l env (v, d) = env' (v, d)" for d using Cons.prems(2) by (simp add: run_level_def)
    then show ?thesis
      using False Cons.IH [of "run_level pt l env" env'] Cons.prems(1)
      by (simp add: run_levels_def levels_of_def own_levels_def)
  qed
qed (simp add: run_levels_def levels_of_def)

lemma var_value_of:
  assumes "own_levels ls" "vv_ind_var (ci_value c) = ci_id c"
  shows "var_value pt (run_levels pt ls env) c = var_value pt (run_levels pt (levels_of (ci_id c) ls) env) c"
  using run_levels_of [OF assms(1), of env "ci_id c" env] assms(2)
  by (auto simp: var_value_def intro!: value_sum_cong)

section \<open>The levels of one variable\<close>

definition is_const_dim :: "cg_space \<Rightarrow> nat \<Rightarrow> bool" where
  "is_const_dim sp d \<longleftrightarrow> cs_kind sp d = {K_Block} \<or> cs_kind sp d = {K_Thread}"

definition is_mut_dim :: "cg_space \<Rightarrow> nat \<Rightarrow> bool" where
  "is_mut_dim sp d \<longleftrightarrow> cs_kind sp d = {K_Loop} \<or> cs_kind sp d = {K_Unroll}"

definition is_vector_dim :: "cg_space \<Rightarrow> nat \<Rightarrow> bool" where
  "is_vector_dim sp d \<longleftrightarrow> cs_kind sp d = {K_InnerVector} \<or> cs_kind sp d = {K_OuterVector}"

lemmas dim_classes = is_const_dim_def is_mut_dim_def is_vector_dim_def

text \<open>The decisions on an induction variable are taken; \<open>nest\<close> are its dimensions from the outermost to the innermost one.\<close>

definition ind_var_specified :: "cg_space \<Rightarrow> lowering_map induction_var \<Rightarrow> nat list \<Rightarrow> bool" where
  "ind_var_specified sp iv nest \<longleftrightarrow>
     cs_lower_type sp (op_t (iv_base iv)) \<noteq> None
   \<and> list_all (\<lambda>(d, s). cz_from_ir s sp \<noteq> None \<and> (is_const_dim sp d \<or> is_mut_dim sp d \<or> is_vector_dim sp d)) (iv_dims iv)
   \<and> mset nest = mset (map fst (iv_dims iv)) \<and> decided_by (cmp_nesting sp) nest"

definition sized_dims :: "cg_space \<Rightarrow> lowering_map induction_var \<Rightarrow> (nat \<times> cg_size) list" where
  "sized_dims sp iv = map (\<lambda>(d, s). (d, the (cz_from_ir s sp))) (iv_dims iv)"

lemma split_levels:
  assumes "list_all (\<lambda>(d, s). cz_from_ir s sp \<noteq> None \<and> (is_const_dim sp d \<or> is_mut_dim sp d \<or> is_vector_dim sp d)) xs"
  shows "fold_option (split_level sp) xs (c, m) =
    Some (c @ filter (is_const_dim sp \<circ> fst) (map (\<lambda>(d, s). (d, the (cz_from_ir s sp))) xs),
          m @ filter (is_mut_dim sp \<circ> fst) (map (\<lambda>(d, s). (d, the (cz_from_ir s sp))) xs))"
  using assms
proof (induction xs arbitrary: c m)
  case (Cons x xs)
  obtain d s z where x: "x = (d, s)" "cz_from_ir s sp = Some z" using Cons.prems by (cases x) auto
  have "is_const_dim sp d \<or> is_mut_dim sp d \<or> is_vector_dim sp d" using Cons.prems x by simp
  then have "split_level sp x (c, m) = Some (c @ filter (is_const_dim sp \<circ> fst) [(d, z)], m @ filter (is_mut_dim sp \<circ> fst) [(d, z)])"
    using x by (auto simp: split_level_def dim_classes)
  then show ?case using Cons x by simp
qed simp

definition ordered_levels :: "cg_space \<Rightarrow> lowering_map induction_var \<Rightarrow> (nat \<Rightarrow> bool) \<Rightarrow> nat list \<Rightarrow> (nat \<times> cg_size) list" where
  "ordered_levels sp iv P nest = map (\<lambda>d. (d, the (map_of (sized_dims sp iv) d))) (filter P nest)"

lemma decided_by_map: "decided_by c (map f xs) \<longleftrightarrow> decided_by (\<lambda>x y. c (f x) (f y)) xs"
  by (simp add: decided_by_def sorted_wrt_map)

lemma sized_dims_conv:
  assumes "distinct (map fst (iv_dims iv))"
  shows "sized_dims sp iv = map (\<lambda>d. (d, the (map_of (sized_dims sp iv) d))) (map fst (iv_dims iv))"
proof -
  have "map fst (sized_dims sp iv) = map fst (iv_dims iv)" by (auto simp: sized_dims_def)
  then have "distinct (map fst (sized_dims sp iv))" using assms by simp
  then have "\<forall>x \<in> set (sized_dims sp iv). x = (fst x, the (map_of (sized_dims sp iv) (fst x)))" by auto
  then have "sized_dims sp iv = map (\<lambda>x. (fst x, the (map_of (sized_dims sp iv) (fst x)))) (sized_dims sp iv)"
    by (metis (mono_tags, lifting) map_idI)
  also have "\<dots> = map (\<lambda>d. (d, the (map_of (sized_dims sp iv) d))) (map fst (sized_dims sp iv))" by simp
  finally show ?thesis using \<open>map fst (sized_dims sp iv) = _\<close> by simp
qed

lemma ind_var_levels:
  assumes "ind_var_specified sp iv nest"
  shows "get_ind_var_levels iv sp =
    Some (ordered_levels sp iv (is_const_dim sp) nest, ordered_levels sp iv (is_mut_dim sp) nest)"
proof -
  have nest: "mset nest = mset (map fst (iv_dims iv))" "decided_by (cmp_nesting sp) nest"
    using assms by (auto simp: ind_var_specified_def)
  have "distinct (map fst (iv_dims iv))" using decided_by_distinct nest by (metis mset_eq_imp_distinct_iff)
  note sized = sized_dims_conv [OF this, of sp]
  have "sort_by (\<lambda>l r. cmp_nesting sp (fst l) (fst r)) (filter (P \<circ> fst) (sized_dims sp iv)) = Some (ordered_levels sp iv P nest)" for P
  proof (rule sort_by_decided)
    show "decided_by (\<lambda>l r. cmp_nesting sp (fst l) (fst r)) (ordered_levels sp iv P nest)"
      using decided_by_subseq [OF nest(2)] by (simp add: ordered_levels_def decided_by_map)
    show "mset (filter (P \<circ> fst) (sized_dims sp iv)) = mset (ordered_levels sp iv P nest)"
      unfolding ordered_levels_def mset_map mset_filter nest(1)
      by (subst sized) (simp add: filter_map comp_def flip: mset_map mset_filter)
  qed
  then show ?thesis
    using assms split_levels [of sp "iv_dims iv" "[]" "[]"]
    by (simp add: get_ind_var_levels_def ind_var_specified_def flip: sized_dims_def)
qed

lemma increments_all:
  assumes "ind_var_specified sp iv nest"
  shows "increments pt (ordered_levels sp iv (is_const_dim sp) nest) + increments pt (ordered_levels sp iv (is_mut_dim sp) nest)
    = (\<Sum>(d, s) \<leftarrow> iv_dims iv. if is_vector_dim sp d then 0 else pt_index pt d * pt_size pt (the (cz_from_ir s sp)))"
proof -
  define f where "f = (\<lambda>d. pt_index pt d * pt_size pt (the (map_of (sized_dims sp iv) d)))"
  have nest: "mset nest = mset (map fst (iv_dims iv))" "decided_by (cmp_nesting sp) nest"
    and kinds: "\<forall>d \<in> set (map fst (iv_dims iv)). is_const_dim sp d \<or> is_mut_dim sp d \<or> is_vector_dim sp d"
    using assms by (auto simp: ind_var_specified_def list_all_iff)
  have "distinct (map fst (iv_dims iv))" using decided_by_distinct nest by (metis mset_eq_imp_distinct_iff)
  note sized = sized_dims_conv [OF this, of sp]
  have part: "increments pt (ordered_levels sp iv P nest) = (\<Sum>d \<leftarrow> nest. if P d then f d else 0)" for P
    unfolding f_def by (simp add: increments_def ordered_levels_def comp_def sum_list_map_filter')
  have "set nest = set (map fst (iv_dims iv))" using nest(1) by (metis mset_eq_setD)
  then have "\<forall>d \<in> set nest. (if is_const_dim sp d then f d else 0) + (if is_mut_dim sp d then f d else 0)
      = (if is_vector_dim sp d then 0 else f d)"
    using kinds by (auto simp: dim_classes)
  then have "increments pt (ordered_levels sp iv (is_const_dim sp) nest) + increments pt (ordered_levels sp iv (is_mut_dim sp) nest)
      = (\<Sum>d \<leftarrow> nest. if is_vector_dim sp d then 0 else f d)"
    unfolding part sum_list_addf [symmetric] by (intro arg_cong [of _ _ sum_list] map_cong) simp_all
  also have "\<dots> = (\<Sum>d \<leftarrow> map fst (iv_dims iv). if is_vector_dim sp d then 0 else f d)"
    by (simp only: sum_mset_sum_list [symmetric] mset_map nest(1))
  also have "\<dots> = (\<Sum>x \<leftarrow> sized_dims sp iv. if is_vector_dim sp (fst x) then 0 else pt_index pt (fst x) * pt_size pt (snd x))"
    using arg_cong [OF sized, of "\<lambda>xs. \<Sum>x \<leftarrow> xs. if is_vector_dim sp (fst x) then 0 else pt_index pt (fst x) * pt_size pt (snd x)"]
    by (simp add: comp_def f_def cong: if_cong)
  finally show ?thesis by (simp add: sized_dims_def comp_def case_prod_unfold cong: if_cong)
qed

lemma apply_levels_left:
  assumes "apply_levels v use_op ls val = (levels, val')"
  shows "vv_outer_level val' = (if ls = [] then vv_outer_level val else Some (fst (last ls)))
    \<and> vv_operand val' = (if use_op \<and> ls \<noteq> [] then None else vv_operand val)"
  using assms
proof (induction ls arbitrary: val levels)
  case (Cons l ls)
  obtain d s where l: "l = (d, s)" by fastforce
  define w where "w = snd (vv_apply_level d use_op val)"
  have w: "vv_outer_level w = Some d" "vv_operand w = (if use_op then None else vv_operand val)"
    by (simp_all add: w_def vv_apply_level_def)
  obtain lv where "apply_levels v use_op ls w = (lv, val')"
    using Cons.prems l by (auto simp: w_def split: prod.splits)
  then show ?case using Cons.IH [of w lv] w l by (cases "ls = []") simp_all
qed simp

definition attached :: "nat list \<Rightarrow> ind_level list \<Rightarrow> nat \<Rightarrow> ind_level list" where
  "attached ds ls d = map snd (filter (\<lambda>x. fst x = d) (zip ds ls))"

lemma fold_level_insert:
  "length ds = length ls \<Longrightarrow> fold (\<lambda>(d, l). level_insert d l) (zip ds ls) m = (\<lambda>d. m d @ attached ds ls d)"
proof (induction ds ls arbitrary: m rule: list_induct2)
  case (Cons d ds l ls)
  then show ?case by (auto simp: level_insert_def attached_def fun_eq_iff)
qed (simp add: attached_def)

text \<open>What registering a variable adds: the levels computed first, those attached to dimensions, and the variable.\<close>

lemma register_ind_var_ok:
  assumes "ind_var_specified sp iv nest"
  obtains ps ds ls c where
    "\<And>m vars pre. register_ind_var sp (v, iv) (m, vars, pre) = Some (\<lambda>d. m d @ attached ds ls d, vars @ [c], pre @ ps)"
    "length ds = length ls" "ds = filter (\<lambda>d. d \<in> set ds) nest"
    "list_all (\<lambda>l. il_ind_var l = v \<and> vv_ind_var (il_base l) = v) (ps @ ls)" "ci_id c = v" "vv_ind_var (ci_value c) = v"
    "\<And>pt env. var_value pt (run_levels pt (ps @ ls) env) c = pt_operand pt (iv_base iv)
      + (\<Sum>(d, s) \<leftarrow> iv_dims iv. if is_vector_dim sp d then 0 else pt_index pt d * pt_size pt (the (cz_from_ir s sp)))"
proof -
  define cl where "cl = ordered_levels sp iv (is_const_dim sp) nest"
  define ml where "ml = ordered_levels sp iv (is_mut_dim sp) nest"
  note lv = ind_var_levels [OF assms, folded cl_def ml_def] and inc = increments_all [OF assms, folded cl_def ml_def]
  obtain t where t: "cs_lower_type sp (op_t (iv_base iv)) = Some t" using assms by (auto simp: ind_var_specified_def)
  define v0 where "v0 = \<lparr>vv_ind_var = v, vv_outer_level = None, vv_operand = Some (iv_base iv), vv_t = t\<rparr>"
  obtain ps v1 where 1: "apply_levels v False cl v0 = (ps, v1)" by fastforce
  obtain ls v2 where 2: "apply_levels v True ml v1 = (ls, v2)" by fastforce
  note a1 = apply_levels_vars [OF 1] and a2 = apply_levels_vars [OF 2]
  have v0: "vv_ind_var v0 = v" and v1: "vv_ind_var v1 = v" and v2: "vv_ind_var v2 = v"
    using a1(3) a2(3) by (simp_all add: v0_def)
  have own: "list_all (\<lambda>l. il_ind_var l = v \<and> vv_ind_var (il_base l) = v) (ps @ ls)" using a1(2) a2(2) v0 v1 by simp
  have len: "length (map fst ml) = length ls" using a2(1) v1 by (metis length_map)
  have val: "value_sum pt (run_levels pt (ps @ ls) env) v2 = pt_operand pt (iv_base iv)
      + (\<Sum>(d, s) \<leftarrow> iv_dims iv. if is_vector_dim sp d then 0 else pt_index pt d * pt_size pt (the (cz_from_ir s sp)))" for pt env
    using apply_levels_value [OF 1 v0, of pt env] apply_levels_value [OF 2 v1, of pt "run_levels pt ps env"] inc [of pt]
    by (simp add: run_levels_append v0_def value_sum_def vv_components_def)
  have left: "vv_operand v2 = (if ml = [] then Some (iv_base iv) else None)"
    "vv_outer_level v2 = (if ml = [] then (if cl = [] then None else Some (fst (last cl))) else Some (fst (last ml)))"
    using apply_levels_left [OF 1] apply_levels_left [OF 2] by (auto simp: v0_def)
  have sub: "map fst cl = filter (is_const_dim sp) nest" "map fst ml = filter (is_mut_dim sp) nest"
    by (simp_all add: cl_def ml_def ordered_levels_def comp_def)
  have distinct: "distinct nest" using assms decided_by_distinct by (auto simp: ind_var_specified_def)
  have reg: "register_ind_var sp (v, iv) (m, vars, pre) = do {
      (value, m) \<leftarrow> (if length (vv_components v2) > 1 then do {
          dim \<leftarrow> (if ps = [] then None else level_dim (last ps));
          Some (vv_computed_elsewhere v2, level_insert dim \<lparr>il_ind_var = v, il_increment = None, il_base = v2\<rparr> (\<lambda>d. m d @ attached (map fst ml) ls d)) }
        else Some (v2, \<lambda>d. m d @ attached (map fst ml) ls d));
      Some (m, vars @ [\<lparr>ci_id = v, ci_value = value\<rparr>], pre @ ps) }" for m vars pre
    using lv t 1 2 by (simp add: register_ind_var_def vv_new_def fold_level_insert [OF len] flip: v0_def)
  show thesis
  proof (cases "ml = [] \<and> cl \<noteq> []")
    case True
    have dims: "map level_dim ps = map (Some \<circ> fst) cl" by (rule a1(1) [OF v0])
    then have ne: "ps \<noteq> []" using True by auto
    have ps: "level_dim (last ps) = Some (fst (last cl))"
      using arg_cong [OF dims, of last] True ne by (simp add: last_map)
    define e where "e = \<lparr>il_ind_var = v, il_increment = None, il_base = v2\<rparr>"
    have comps: "length (vv_components v2) = 2" using left True by (simp add: vv_components_def)
    have "ls = []" using len True by simp
    have cd: "fst (last cl) \<in> set nest" 
      using True arg_cong [OF sub(1), of set] last_in_set [of cl] by auto
    show thesis
    proof (rule that [of "[fst (last cl)]" "[e]" "\<lparr>ci_id = v, ci_value = vv_computed_elsewhere v2\<rparr>" ps])
      show "register_ind_var sp (v, iv) (m, vars, pre) =
          Some (\<lambda>d. m d @ attached [fst (last cl)] [e] d, vars @ [\<lparr>ci_id = v, ci_value = vv_computed_elsewhere v2\<rparr>], pre @ ps)" for m vars pre
        using comps ps ne \<open>ls = []\<close> by (auto simp: reg level_insert_def attached_def e_def fun_eq_iff)
      show "[fst (last cl)] = filter (\<lambda>d. d \<in> set [fst (last cl)]) nest"
        using distinct cd by (induction nest) (auto simp: filter_empty_conv eq_commute [of "[]"])
      show "list_all (\<lambda>l. il_ind_var l = v \<and> vv_ind_var (il_base l) = v) (ps @ [e])" using own v2 by (simp add: e_def)
      show "var_value pt (run_levels pt (ps @ [e]) env) \<lparr>ci_id = v, ci_value = vv_computed_elsewhere v2\<rparr> = pt_operand pt (iv_base iv)
        + (\<Sum>(d, s) \<leftarrow> iv_dims iv. if is_vector_dim sp d then 0 else pt_index pt d * pt_size pt (the (cz_from_ir s sp)))" for pt env
        using val [of pt env] \<open>ls = []\<close>
        by (simp add: run_levels_append var_value_def vv_computed_elsewhere_def vv_components_def)
          (simp add: run_levels_def run_level_def e_def level_dim_def)
    qed (simp_all add: vv_computed_elsewhere_def v2)
  next
    case False
    then have comps: "length (vv_components v2) = 1" using left by (auto simp: vv_components_def)
    show thesis
    proof (rule that [of "map fst ml" ls "\<lparr>ci_id = v, ci_value = v2\<rparr>" ps])
      show "register_ind_var sp (v, iv) (m, vars, pre) =
          Some (\<lambda>d. m d @ attached (map fst ml) ls d, vars @ [\<lparr>ci_id = v, ci_value = v2\<rparr>], pre @ ps)" for m vars pre
        using comps by (simp add: reg)
      show "map fst ml = filter (\<lambda>d. d \<in> set (map fst ml)) nest" unfolding sub by (auto intro: filter_cong)
      show "var_value pt (run_levels pt (ps @ ls) env) \<lparr>ci_id = v, ci_value = v2\<rparr> = pt_operand pt (iv_base iv)
        + (\<Sum>(d, s) \<leftarrow> iv_dims iv. if is_vector_dim sp d then 0 else pt_index pt d * pt_size pt (the (cz_from_ir s sp)))" for pt env
        using val [of pt env] comps by (auto simp: var_value_def)
    qed (use len own v2 in simp_all)
  qed
qed

lemma attached_Cons: "attached (d # ds) (l # ls) n = (if d = n then l # attached ds ls n else attached ds ls n)"
  by (simp add: attached_def)

lemma attached_fresh: "n \<notin> set ds \<Longrightarrow> attached ds ls n = []"
  by (auto simp: attached_def filter_empty_conv dest: set_zip_leftD)

lemma concat_attached:
  assumes "length ds = length ls" "ds = filter (\<lambda>d. d \<in> set ds) nest" "distinct nest"
  shows "concat (map (attached ds ls) nest) = ls"
  using assms
proof (induction nest arbitrary: ds ls)
  case (Cons n nest)
  show ?case
  proof (cases "n \<in> set ds")
    case True
    then obtain ds' l ls' where d: "ds = n # ds'" "ls = l # ls'" "ds' = filter (\<lambda>d. d \<in> set ds) nest"
      using Cons.prems by (cases ls) auto
    have "n \<notin> set ds'" using d(3) Cons.prems(3) by auto
    have "filter (\<lambda>d. d \<in> set ds) nest = filter (\<lambda>d. d \<in> set ds') nest"
      using d(1) Cons.prems(3) by (intro filter_cong) auto
    then have e: "ds' = filter (\<lambda>d. d \<in> set ds') nest" by (rule trans [OF d(3)])
    have IH: "concat (map (attached ds' ls') nest) = ls'"
      by (rule Cons.IH [OF _ e]) (use Cons.prems(1,3) d(1,2) in simp_all)
    have "map (attached ds ls) nest = map (attached ds' ls') nest"
      using Cons.prems(3) d(1,2) by (intro map_cong) (auto simp: attached_Cons)
    moreover have "attached ds ls n = [l]"
      using d(1,2) attached_fresh [OF \<open>n \<notin> set ds'\<close>] by (simp add: attached_Cons)
    ultimately show ?thesis using IH d(2) by (simp only: list.map concat.simps append.simps)
  next
    case False
    then have "attached ds ls n = []" by (rule attached_fresh)
    moreover have "filter (\<lambda>d. d \<in> set ds) (n # nest) = filter (\<lambda>d. d \<in> set ds) nest" using False by simp
    then have e: "ds = filter (\<lambda>d. d \<in> set ds) nest" by (rule trans [OF Cons.prems(2)])
    then have "concat (map (attached ds ls) nest) = ls" by (rule Cons.IH [OF Cons.prems(1)]) (use Cons.prems(3) in simp)
    ultimately show ?thesis by simp
  qed
qed (simp add: attached_def)

section \<open>All variables\<close>

text \<open>The result of registering one variable alone.\<close>

definition alone :: "cg_space \<Rightarrow> nat \<times> lowering_map induction_var \<Rightarrow> (nat \<Rightarrow> ind_level list) \<times> cg_ind_var list \<times> ind_level list" where
  "alone sp x = the (register_ind_var sp x (\<lambda>_. [], [], []))"

abbreviation alone_map where "alone_map sp x \<equiv> fst (alone sp x)"
abbreviation alone_var where "alone_var sp x \<equiv> hd (fst (snd (alone sp x)))"
abbreviation alone_pre where "alone_pre sp x \<equiv> snd (snd (alone sp x))"

lemma alone_ok:
  assumes "ind_var_specified sp iv nest"
  shows "register_ind_var sp (v, iv) (m, vars, pre) =
      Some (\<lambda>d. m d @ alone_map sp (v, iv) d, vars @ [alone_var sp (v, iv)], pre @ alone_pre sp (v, iv))"
    "own_levels (alone_pre sp (v, iv))" "own_levels (alone_map sp (v, iv) d)"
    "levels_of u (alone_pre sp (v, iv)) = (if u = v then alone_pre sp (v, iv) else [])"
    "levels_of u (alone_map sp (v, iv) d) = (if u = v then alone_map sp (v, iv) d else [])"
    "ci_id (alone_var sp (v, iv)) = v" "vv_ind_var (ci_value (alone_var sp (v, iv))) = v"
    "d \<notin> set nest \<Longrightarrow> alone_map sp (v, iv) d = []"
    "var_value pt (run_levels pt (alone_pre sp (v, iv) @ concat (map (alone_map sp (v, iv)) nest)) env) (alone_var sp (v, iv))
      = pt_operand pt (iv_base iv)
      + (\<Sum>(d, s) \<leftarrow> iv_dims iv. if is_vector_dim sp d then 0 else pt_index pt d * pt_size pt (the (cz_from_ir s sp)))"
proof -
  obtain ps ds ls c where
    reg: "\<And>m vars pre. register_ind_var sp (v, iv) (m, vars, pre) = Some (\<lambda>d. m d @ attached ds ls d, vars @ [c], pre @ ps)"
    and ds: "length ds = length ls" "ds = filter (\<lambda>d. d \<in> set ds) nest"
    and own: "list_all (\<lambda>l. il_ind_var l = v \<and> vv_ind_var (il_base l) = v) (ps @ ls)" "ci_id c = v" "vv_ind_var (ci_value c) = v"
    and val: "\<And>pt env. var_value pt (run_levels pt (ps @ ls) env) c = pt_operand pt (iv_base iv)
      + (\<Sum>(d, s) \<leftarrow> iv_dims iv. if is_vector_dim sp d then 0 else pt_index pt d * pt_size pt (the (cz_from_ir s sp)))"
    by (rule register_ind_var_ok [OF assms, of v]) (rule that)
  have a: "alone_map sp (v, iv) = attached ds ls" "alone_var sp (v, iv) = c" "alone_pre sp (v, iv) = ps"
    by (simp_all add: alone_def reg)
  have att: "set (attached ds ls d) \<subseteq> set ls" for d by (auto simp: attached_def dest: set_zip_rightD)
  have distinct: "distinct nest" using assms decided_by_distinct by (auto simp: ind_var_specified_def)
  have cc: "concat (map (attached ds ls) nest) = ls" by (rule concat_attached [OF ds distinct])
  show "register_ind_var sp (v, iv) (m, vars, pre) =
      Some (\<lambda>d. m d @ alone_map sp (v, iv) d, vars @ [alone_var sp (v, iv)], pre @ alone_pre sp (v, iv))"
    by (simp add: a reg)
  show "own_levels (alone_pre sp (v, iv))" "own_levels (alone_map sp (v, iv) d)"
    using own(1) att [of d] unfolding a by (auto simp: own_levels_def list_all_iff)
  show "levels_of u (alone_pre sp (v, iv)) = (if u = v then alone_pre sp (v, iv) else [])"
    using own(1) unfolding a by (auto simp: levels_of_def list_all_iff filter_id_conv filter_empty_conv)
  show "levels_of u (alone_map sp (v, iv) d) = (if u = v then alone_map sp (v, iv) d else [])"
    using own(1) att [of d] unfolding a by (auto simp: levels_of_def list_all_iff filter_id_conv filter_empty_conv subset_iff)
  show "ci_id (alone_var sp (v, iv)) = v" "vv_ind_var (ci_value (alone_var sp (v, iv))) = v" using own a by simp_all
  show "alone_map sp (v, iv) d = []" if "d \<notin> set nest"
  proof -
    have "d \<notin> set ds" using that arg_cong [OF ds(2), of set] by auto
    then show ?thesis unfolding a by (rule attached_fresh)
  qed
  show "var_value pt (run_levels pt (alone_pre sp (v, iv) @ concat (map (alone_map sp (v, iv)) nest)) env) (alone_var sp (v, iv))
      = pt_operand pt (iv_base iv)
      + (\<Sum>(d, s) \<leftarrow> iv_dims iv. if is_vector_dim sp d then 0 else pt_index pt d * pt_size pt (the (cz_from_ir s sp)))"
    unfolding a cc by (rule val)
qed

lemma levels_of_simps [simp]:
  "levels_of v [] = []" "levels_of v (xs @ ys) = levels_of v xs @ levels_of v ys"
  by (simp_all add: levels_of_def)

lemma own_levels_simps [simp]: "own_levels []" "own_levels (xs @ ys) \<longleftrightarrow> own_levels xs \<and> own_levels ys"
  by (simp_all add: own_levels_def)

lemma levels_of_concat: "levels_of v (concat xss) = concat (map (levels_of v) xss)"
  by (induction xss) simp_all

lemma own_levels_concat: "own_levels (concat xss) \<longleftrightarrow> list_all own_levels xss"
  by (induction xss) simp_all

lemma register_all:
  assumes "\<forall>(v, iv) \<in> set xs. ind_var_specified sp iv (nest v)"
  shows "fold_option (register_ind_var sp) xs (m, vars, pre) =
    Some (\<lambda>d. m d @ concat (map (\<lambda>x. alone_map sp x d) xs), vars @ map (alone_var sp) xs, pre @ concat (map (alone_pre sp) xs))"
  using assms
proof (induction xs arbitrary: m vars pre)
  case (Cons x xs)
  obtain v iv where x: "x = (v, iv)" by fastforce
  have "ind_var_specified sp iv (nest v)" using Cons.prems x by simp
  then show ?case using alone_ok(1) [of sp iv "nest v" v] Cons x by simp
qed simp

lemma take_levels_distinct:
  "distinct ds \<Longrightarrow> take_levels ds m = (concat (map m ds), \<lambda>d. if d \<in> set ds then [] else m d)"
proof (induction ds arbitrary: m)
  case (Cons d ds)
  then have "map (m(d := [])) ds = map m ds" by auto
  then show ?case using Cons by (auto simp: fun_eq_iff)
qed simp

lemma distribute_levels_distinct:
  assumes "distinct (concat (map cd_ids gs))" "\<forall>g \<in> set gs. cd_levels g = []" "g' \<in> set (distribute_levels gs m)"
  shows "cd_levels g' = concat (map m (cd_ids g'))"
  using assms
proof (induction gs arbitrary: m)
  case (Cons g gs)
  let ?m = "\<lambda>d. if d \<in> set (cd_ids g) then [] else m d"
  have t: "take_levels (cd_ids g) m = (concat (map m (cd_ids g)), ?m)" using Cons.prems(1) by (intro take_levels_distinct) simp
  show ?case
  proof (cases "g' \<in> set (distribute_levels gs ?m)")
    case True
    have ids: "set (cd_ids h) \<subseteq> set (concat (map cd_ids gs))" if "h \<in> set (distribute_levels gs m')" for h m'
      using that by (induction gs arbitrary: m') (auto simp: cd_ids_def split: prod.splits)
    have "cd_levels g' = concat (map ?m (cd_ids g'))" using Cons.IH [of ?m] Cons.prems True by simp
    also have "map ?m (cd_ids g') = map m (cd_ids g')" using ids [OF True] Cons.prems(1) by (intro map_cong) auto
    finally show ?thesis .
  next
    case False
    then show ?thesis using Cons.prems t by (auto simp: cd_ids_def)
  qed
qed simp

lemma concat_map_only:
  assumes "\<And>x. x \<notin> S \<Longrightarrow> f x = []"
  shows "concat (map f xs) = concat (map f (filter (\<lambda>x. x \<in> S) xs))"
  using assms by (induction xs) auto

lemma enumerate_filter_eq:
  "filter (\<lambda>p. fst p = v) (List.enumerate n xs) = (if n \<le> v \<and> v < n + length xs then [(v, xs ! (v - n))] else [])"
proof (induction xs arbitrary: n)
  case (Cons x xs)
  have "(x # xs) ! (v - n) = xs ! (v - Suc n)" if "Suc n \<le> v"
    using that by (metis Suc_diff_le diff_Suc_Suc nth_Cons_Suc)
  then show ?case using Cons by auto
qed simp

lemma enumerate_only:
  assumes "v < length xs" "\<And>u x. (u, x) \<in> set (List.enumerate 0 xs) \<Longrightarrow> u \<noteq> v \<Longrightarrow> f (u, x) = []"
  shows "concat (map f (List.enumerate 0 xs)) = f (v, xs ! v)"
proof -
  have "concat (map f ys) = concat (map f (filter (\<lambda>p. fst p = v) ys))" if "set ys \<subseteq> set (List.enumerate 0 xs)" for ys
    using that assms(2) by (induction ys) auto
  then show ?thesis using assms(1) by (simp add: enumerate_filter_eq)
qed

section \<open>A sample kernel\<close>

text \<open>Two merged loops 0 and 1 inside a thread dimension 2, and an induction variable over 0 and 2.\<close>

definition sample_dim :: "nat \<Rightarrow> u32 \<Rightarrow> ir_dim" where
  "sample_dim d n = dim_with d (ps_default\<lparr>static_factor := n\<rparr>) (vs_new [n]) None"

definition sample_order :: "stmt_id \<Rightarrow> stmt_id \<Rightarrow> order_val set" where
  "sample_order a b = (if a = S_Dim 2 then {O_Outer} else if b = S_Dim 2 then {O_Inner} else {O_Merged})"

definition sample_iv :: "lowering_map induction_var" where
  "sample_iv = \<lparr>iv_dims = [(0, ps_default\<lparr>static_factor := 8\<rparr>), (2, ps_default\<lparr>static_factor := 2\<rparr>)], iv_base = Op_Int 100 32\<rparr>"

definition sample_space :: cg_space where
  "sample_space =
     \<lparr>cs_ir = (fn_new (sig_new ''sample'') \<lparr>dv_check_type = (\<lambda>_. Inr ()), dv_global_pointer = T_I 64\<rparr>)
        \<lparr>b_dims := sv_from_vec [Some (sample_dim 0 4), Some (sample_dim 1 4), Some (sample_dim 2 16)],
         b_induction_vars := [sample_iv]\<rparr>,
      cs_order = sample_order, cs_kind = (\<lambda>d. if d = 2 then {K_Thread} else {K_Loop}), cs_size = (\<lambda>_. \<lparr>enabled_values = 1\<rparr>),
      cs_thread_mapping = (\<lambda>_ _. {}), cs_mem_space = (\<lambda>_. {}), cs_inst_flag = (\<lambda>_. {}), cs_lower_type = Some\<rparr>"

definition const_size :: "u32 \<Rightarrow> cg_size" where
  "const_size n = \<lparr>cz_factor = n, cz_dividend = [], cz_divisor = 1\<rparr>"

lemma sample_from_ir [simp]: "cz_from_ir (ps_default\<lparr>static_factor := n\<rparr>) sp = Some (const_size n)"
  using unsigned_less [of n, where 'a = nat]
  by (simp add: cz_from_ir_def ps_factors_def ps_default_def vs_default_def u32_product_def cz_new_def cz_simplify_def
      const_size_def checked_mul_def checked_div_def)

lemma sample_dims [simp]:
  "sv_iter (b_dims (cs_ir sample_space)) = [sample_dim 0 4, sample_dim 1 4, sample_dim 2 16]"
  by (simp add: sample_space_def sv_iter_def sv_from_vec_def List.map_filter_def)

lemma sample_dim_simps [simp]: "d_id (sample_dim d n) = d" "d_size (sample_dim d n) = ps_default\<lparr>static_factor := n\<rparr>"
  by (simp_all add: sample_dim_def dim_with_def)

lemma sample_space_simps [simp]:
  "cs_order sample_space = sample_order" "cs_kind sample_space = (\<lambda>d. if d = 2 then {K_Thread} else {K_Loop})"
  "cs_lower_type sample_space = Some" "b_induction_vars (cs_ir sample_space) = [sample_iv]"
  by (simp_all add: sample_space_def)

lemma sample_specified: "dims_specified sample_space (sv_iter (b_dims (cs_ir sample_space)))"
proof -
  have "sample_dim 0 4 \<noteq> sample_dim 1 4" "sample_dim 0 4 \<noteq> sample_dim 2 16" "sample_dim 1 4 \<noteq> sample_dim 2 16"
    by (simp_all add: sample_dim_def dim_with_def)
  then show ?thesis
    by (auto simp: dims_specified_def enum_constrained_def cg_merged_def sample_order_def)
qed

lemma sample_iv_specified: "ind_var_specified sample_space sample_iv [2, 0]"
  by (simp add: ind_var_specified_def sample_iv_def dim_classes cmp_nesting_def sample_order_def decided_by_def)

section \<open>Properties\<close>

text \<open>C21: Grouping the dimensions of a fully specified kernel never panics; every dimension is in exactly one group, and two
  dimensions are in the same group exactly when they are equal or merged.\<close>

theorem groups_are_merged_classes:
  assumes "dims_specified sp (sv_iter (b_dims (cs_ir sp)))"
  shows "\<exists>gs. group_merged_dimensions sp = Some gs
    \<and> mset (concat (map cd_ids gs)) = mset (map d_id (sv_iter (b_dims (cs_ir sp))))
    \<and> (\<forall>x \<in> set (sv_iter (b_dims (cs_ir sp))). \<forall>y \<in> set (sv_iter (b_dims (cs_ir sp))).
         (\<exists>g \<in> set gs. d_id x \<in> set (cd_ids g) \<and> d_id y \<in> set (cd_ids g)) \<longleftrightarrow> d_id x = d_id y \<or> cg_merged sp (d_id x) (d_id y))"
proof -
  obtain gs where gs: "group_merged_dimensions sp = Some gs" "groups_of sp (sv_iter (b_dims (cs_ir sp))) gs"
    using groups_built [OF assms] by blast
  have "(\<exists>g \<in> set gs. d_id x \<in> set (cd_ids g) \<and> d_id y \<in> set (cd_ids g)) \<longleftrightarrow> d_id x = d_id y \<or> cg_merged sp (d_id x) (d_id y)"
    if "x \<in> set (sv_iter (b_dims (cs_ir sp)))" "y \<in> set (sv_iter (b_dims (cs_ir sp)))" for x y
    using group_iff_fused [OF assms gs(2), of "d_id x" "d_id y"] that by (simp add: fused_def)
  then show ?thesis using gs by (auto simp: groups_of_def)
qed

theorem groups_are_merged_classes_witness:
  "\<exists>gs. group_merged_dimensions sample_space = Some gs \<and> mset (concat (map cd_ids gs)) = {#0, 1, 2#}
    \<and> (\<exists>g \<in> set gs. 0 \<in> set (cd_ids g) \<and> 1 \<in> set (cd_ids g)) \<and> \<not> (\<exists>g \<in> set gs. 0 \<in> set (cd_ids g) \<and> 2 \<in> set (cd_ids g))"
proof -
  have "cg_merged sample_space 0 1" "\<not> cg_merged sample_space 0 2" by (simp_all add: cg_merged_def sample_order_def)
  then show ?thesis using groups_are_merged_classes [OF sample_specified] by auto
qed



text \<open>The groups of the sample kernel.\<close>

definition sample_groups :: "cg_dim list" where
  "sample_groups =
     [\<lparr>cd_kind = {K_Loop}, cd_representant = 0, cd_other_dims = [1], cd_levels = [], cd_size = const_size 4\<rparr>,
      \<lparr>cd_kind = {K_Thread}, cd_representant = 2, cd_other_dims = [], cd_levels = [], cd_size = const_size 16\<rparr>]"


end
