(* ===== verification/Codegen_Cfg.thy ===== *)
theory Codegen_Cfg
  imports Codegen_Dim
begin

text \<open>
  The control flow graph of the generated code (\<^verbatim>\<open>src/codegen/cfg.rs\<close>) and its instructions. Entering and leaving the dimensions and
  executing the instructions are events; the events are sorted by the order of the statements and the graph is read from
  the sorted list. \<open>None\<close> is a panic.
\<close>

section \<open>Instructions and the graph\<close>

record cg_inst =
  cn_instruction :: "lowering_map instruction"
  cn_instantiation_dims :: "(nat \<times> u32) list"
  cn_mem_flag :: "inst_flag set option"
  cn_t :: "ir_type option"

definition cn_id :: "cg_inst \<Rightarrow> nat" where
  "cn_id i = i_id (cn_instruction i)"

text \<open>The two lists of an instruction are the dimensions of the outer and of the inner vector level.\<close>

datatype cfg =
  Cfg_Root "cfg list"
| Cfg_Loop cg_dim "cfg list"
| Cfg_Instruction "cg_dim list" "cg_dim list" cg_inst
| Cfg_Threads "nat option list" "ind_level list" "cfg list"

fun cfg_dimensions :: "cfg \<Rightarrow> cg_dim list" where
  "cfg_dimensions (Cfg_Root body) = concat (map cfg_dimensions body)"
| "cfg_dimensions (Cfg_Threads _ _ body) = concat (map cfg_dimensions body)"
| "cfg_dimensions (Cfg_Loop dim body) = dim # concat (map cfg_dimensions body)"
| "cfg_dimensions (Cfg_Instruction outer inner _) = outer @ inner"

fun cfg_instructions :: "cfg \<Rightarrow> cg_inst list" where
  "cfg_instructions (Cfg_Root body) = concat (map cfg_instructions body)"
| "cfg_instructions (Cfg_Loop _ body) = concat (map cfg_instructions body)"
| "cfg_instructions (Cfg_Threads _ _ body) = concat (map cfg_instructions body)"
| "cfg_instructions (Cfg_Instruction _ _ i) = [i]"

fun cfg_induction_levels :: "cfg \<Rightarrow> ind_level list" where
  "cfg_induction_levels (Cfg_Threads _ ls body) = concat (map cfg_induction_levels body) @ ls"
| "cfg_induction_levels (Cfg_Root body) = concat (map cfg_induction_levels body)"
| "cfg_induction_levels (Cfg_Loop dim body) = concat (map cfg_induction_levels body) @ cd_levels dim"
| "cfg_induction_levels (Cfg_Instruction _ _ _) = []"

section \<open>Events\<close>

datatype entry_event = Entry_SeqDim cg_dim | Entry_ThreadDim nat "ind_level list"

datatype exit_event = Exit_SeqDim | Exit_ThreadDim

datatype cfg_event = Ev_Exec cg_inst | Ev_Enter nat entry_event | Ev_Exit nat exit_event

fun ev_stmt_id :: "cfg_event \<Rightarrow> stmt_id" where
  "ev_stmt_id (Ev_Exec i) = S_Inst (cn_id i)"
| "ev_stmt_id (Ev_Enter d _) = S_Dim d"
| "ev_stmt_id (Ev_Exit d _) = S_Dim d"

fun ev_cmp_within_stmt :: "cfg_event \<Rightarrow> cfg_event \<Rightarrow> ordering" where
  "ev_cmp_within_stmt (Ev_Enter _ _) (Ev_Enter _ _) = Equal"
| "ev_cmp_within_stmt (Ev_Exec _) (Ev_Exec _) = Equal"
| "ev_cmp_within_stmt (Ev_Exit _ _) (Ev_Exit _ _) = Equal"
| "ev_cmp_within_stmt (Ev_Enter _ _) _ = Less"
| "ev_cmp_within_stmt _ (Ev_Exit _ _) = Less"
| "ev_cmp_within_stmt (Ev_Exit _ _) _ = Greater"
| "ev_cmp_within_stmt _ (Ev_Enter _ _) = Greater"

fun is_exec :: "cfg_event \<Rightarrow> bool" where
  "is_exec (Ev_Exec _) = True" | "is_exec _ = False"

fun is_enter :: "cfg_event \<Rightarrow> bool" where
  "is_enter (Ev_Enter _ _) = True" | "is_enter _ = False"

fun is_exit :: "cfg_event \<Rightarrow> bool" where
  "is_exit (Ev_Exit _ _) = True" | "is_exit _ = False"

definition ev_cmp :: "cg_space \<Rightarrow> cfg_event \<Rightarrow> cfg_event \<Rightarrow> ordering option" where
  "ev_cmp sp l r =
     (let ls = ev_stmt_id l; rs = ev_stmt_id r in
      if ls = rs then Some (ev_cmp_within_stmt l r)
      else let order = cs_order sp ls rs in
        if order = {O_Merged} then Some (ev_cmp_within_stmt l r)
        else if is_exec l \<and> is_exec r \<and> order = {O_Before, O_After} then Some (cmp ls rs)
        else if order = {O_Before} \<or> is_enter l \<and> order = {O_Outer} \<or> is_exit r \<and> order = {O_Inner} then Some Less
        else if order = {O_After} \<or> is_enter r \<and> order = {O_Inner} \<or> is_exit l \<and> order = {O_Outer} then Some Greater
        else None)"

section \<open>Reading the graph from the events\<close>

text \<open>\<^verbatim>\<open>get_level\<close>: the level of a vector dimension, which is added to it.\<close>

definition push_vector_dim :: "cg_dim \<Rightarrow> cg_dim list \<times> cg_dim list \<Rightarrow> (cg_dim list \<times> cg_dim list) option" where
  "push_vector_dim dim = (\<lambda>(outer, inner).
     if cd_kind dim = {K_OuterVector} then Some (outer @ [dim], inner)
     else if cd_kind dim = {K_InnerVector} then Some (outer, inner @ [dim]) else None)"

fun pop_entries :: "cfg_event list \<Rightarrow> cg_dim list \<times> cg_dim list \<Rightarrow> ((cg_dim list \<times> cg_dim list) \<times> cg_inst \<times> cfg_event list) option" where
  "pop_entries [] dims = None"
| "pop_entries (Ev_Exec i # es) dims = Some (dims, i, es)"
| "pop_entries (Ev_Enter _ (Entry_SeqDim dim) # es) dims = do { dims \<leftarrow> push_vector_dim dim dims; pop_entries es dims }"
| "pop_entries (_ # es) dims = None"

fun pop_exits :: "nat \<Rightarrow> cfg_event list \<Rightarrow> cfg_event list option" where
  "pop_exits 0 es = Some es"
| "pop_exits (Suc n) (Ev_Exit _ Exit_SeqDim # es) = pop_exits n es"
| "pop_exits (Suc n) _ = None"

definition vector_inst_from_events :: "cg_dim \<Rightarrow> cfg_event list \<Rightarrow> (cfg \<times> cfg_event list) option" where
  "vector_inst_from_events dim es = do {
     dims \<leftarrow> push_vector_dim dim ([], []);
     ((outer, inner), i, es) \<leftarrow> pop_entries es dims;
     es \<leftarrow> pop_exits (length outer + length inner) es;
     Some (Cfg_Instruction outer inner i, es) }"

text \<open>\<^verbatim>\<open>kind().is(VECTOR).as_bool().unwrap()\<close>.\<close>

definition kind_is :: "dim_kind set \<Rightarrow> dim_kind set \<Rightarrow> bool option" where
  "kind_is k s = (if k \<inter> s = {} then Some False else if k \<subseteq> s then Some True else None)"

definition vec_set_at :: "nat \<Rightarrow> 'a \<Rightarrow> 'a list \<Rightarrow> 'a list option" where
  "vec_set_at i x xs = (if i < length xs then Some (xs[i := x]) else None)"

fun thread_entries :: "cfg_event list \<Rightarrow> nat option list \<Rightarrow> ind_level list \<Rightarrow> (nat option list \<times> ind_level list \<times> cfg_event list) option" where
  "thread_entries (Ev_Enter d (Entry_ThreadDim pos levels) # es) ids ls =
     (if pos < length ids \<and> ids ! pos = None then thread_entries es (ids[pos := Some d]) (ls @ levels) else None)"
| "thread_entries es ids ls = Some (ids, ls, es)"

fun is_thread_exit :: "cfg_event \<Rightarrow> bool" where
  "is_thread_exit (Ev_Exit _ Exit_ThreadDim) = True" | "is_thread_exit _ = False"

function body_from_events :: "cfg_event list \<Rightarrow> nat \<Rightarrow> (cfg list \<times> cfg_event list) option" where
  "body_from_events [] n = Some ([], [])"
| "body_from_events (Ev_Exec i # es) n = do {
     (body, rest) \<leftarrow> body_from_events es n;
     Some (Cfg_Instruction [] [] i # body, rest) }"
| "body_from_events (Ev_Enter d (Entry_SeqDim dim) # es) n =
     (if d = cd_representant dim then do {
        vector \<leftarrow> kind_is (cd_kind dim) {K_InnerVector, K_OuterVector};
        (c, es) \<leftarrow>
          (if vector then vector_inst_from_events dim es
           else map_option (\<lambda>(body, es). (Cfg_Loop dim body, es)) (body_from_events es n));
        (body, rest) \<leftarrow> body_from_events es n;
        Some (c # body, rest) }
      else None)"
| "body_from_events (Ev_Exit _ Exit_SeqDim # es) n = Some ([], es)"
| "body_from_events (Ev_Enter d (Entry_ThreadDim pos levels) # es) n = do {
     ids \<leftarrow> vec_set_at pos (Some d) (replicate n None);
     (ids, levels, es) \<leftarrow> thread_entries es ids levels;
     (inner, es) \<leftarrow> body_from_events es 0;
     (body, rest) \<leftarrow> body_from_events es n;
     Some (Cfg_Threads ids levels inner # body, rest) }"
| "body_from_events (Ev_Exit _ Exit_ThreadDim # es) n = Some ([], dropWhile is_thread_exit es)"
  by pat_completeness auto

lemma pop_entries_length: "pop_entries es dims = Some (dims', i, es') \<Longrightarrow> length es' < length es"
  by (induction es dims rule: pop_entries.induct) (auto simp: bind_eq_Some_conv)

lemma pop_exits_length: "pop_exits n es = Some es' \<Longrightarrow> length es' \<le> length es"
  by (induction n es rule: pop_exits.induct) auto

lemma vector_inst_length: "vector_inst_from_events dim es = Some (c, es') \<Longrightarrow> length es' < length es"
  by (auto simp: vector_inst_from_events_def bind_eq_Some_conv dest!: pop_entries_length pop_exits_length)

lemma thread_entries_length: "thread_entries es ids ls = Some (ids', ls', es') \<Longrightarrow> length es' \<le> length es"
  by (induction es ids ls rule: thread_entries.induct) (auto split: if_splits)

lemma body_from_events_length:
  assumes "body_from_events_dom (es, n)" "body_from_events es n = Some (body, rest)"
  shows "length rest \<le> length es"
  using assms
proof (induction es n arbitrary: body rest rule: body_from_events.pinduct)
  case (3 d dim es n)
  then obtain vector c es1 body1 where 1: "d = cd_representant dim" "kind_is (cd_kind dim) {K_InnerVector, K_OuterVector} = Some vector"
    "(if vector then vector_inst_from_events dim es
      else map_option (\<lambda>(body, es). (Cfg_Loop dim body, es)) (body_from_events es n)) = Some (c, es1)"
    "body_from_events es1 n = Some (body1, rest)"
    by (auto simp: body_from_events.psimps bind_eq_Some_conv split: if_split_asm)
  have "length es1 \<le> length es"
  proof (cases vector)
    case True
    then show ?thesis using 1(3) vector_inst_length by fastforce
  next
    case False
    then show ?thesis using 1 "3.IH"(1) by auto
  qed
  moreover have "length rest \<le> length es1" using "3.IH"(2) [of vector "(c, es1)" c es1] 1 by auto
  ultimately show ?case by simp
next
  case (5 d pos levels es n)
  then obtain ids ids1 ls1 es1 inner es2 body1 where "vec_set_at pos (Some d) (replicate n None) = Some ids"
    "thread_entries es ids levels = Some (ids1, ls1, es1)" "body_from_events es1 0 = Some (inner, es2)"
    "body_from_events es2 n = Some (body1, rest)"
    by (auto simp: body_from_events.psimps bind_eq_Some_conv)
  then show ?case using "5.IH"(1) "5.IH"(2) thread_entries_length by fastforce
next
  case (6 d es n)
  then show ?case by (auto simp: body_from_events.psimps length_dropWhile_le le_SucI)
qed (auto simp: body_from_events.psimps bind_eq_Some_conv le_SucI)

lemma threads_progress:
  "thread_entries es a l = Some (x, y, b) \<Longrightarrow> body_from_events_dom (b, 0) \<Longrightarrow> body_from_events b 0 = Some (c, d) \<Longrightarrow>
    length d < Suc (length es)"
  by (meson body_from_events_length le_imp_less_Suc le_trans thread_entries_length)

termination body_from_events
proof (relation "measure (\<lambda>(es, n). length es)", goal_cases)
  case 1
  then show ?case by simp
qed (auto dest: vector_inst_length thread_entries_length body_from_events_length threads_progress split: if_splits)

fun handle_threads :: "cfg \<Rightarrow> bool" where
  "handle_threads (Cfg_Root inners) \<longleftrightarrow> list_ex handle_threads inners"
| "handle_threads (Cfg_Loop _ inners) \<longleftrightarrow> list_ex handle_threads inners"
| "handle_threads (Cfg_Threads _ _ _) \<longleftrightarrow> True"
| "handle_threads (Cfg_Instruction _ _ _) \<longleftrightarrow> False"

lemma size_list_dropWhile: "size_list f (dropWhile P xs) \<le> size_list f xs"
  by (induction xs) auto

text \<open>The groups of \<^verbatim>\<open>group_by\<close> are the longest runs of graphs that all handle threads or all do not.\<close>

function add_empty_threads :: "nat \<Rightarrow> cfg list \<Rightarrow> cfg list"
  and add_empty_threads_in :: "nat \<Rightarrow> cfg \<Rightarrow> cfg" where
  "add_empty_threads n [] = []"
| "add_empty_threads n (c # cs) =
     (if handle_threads c then add_empty_threads_in n c # add_empty_threads n cs
      else Cfg_Threads (replicate n None) [] (c # takeWhile (\<lambda>c. \<not> handle_threads c) cs)
        # add_empty_threads n (dropWhile (\<lambda>c. \<not> handle_threads c) cs))"
| "add_empty_threads_in n (Cfg_Root inner) = Cfg_Root (add_empty_threads n inner)"
| "add_empty_threads_in n (Cfg_Loop dim inner) = Cfg_Loop dim (add_empty_threads n inner)"
| "add_empty_threads_in n (Cfg_Instruction outer inner i) = Cfg_Instruction outer inner i"
| "add_empty_threads_in n (Cfg_Threads ids levels inner) = Cfg_Threads ids levels inner"
  by pat_completeness auto
termination
  by (relation "measure (\<lambda>x. case x of Inl (n, cs) \<Rightarrow> size_list size cs | Inr (n, c) \<Rightarrow> size c)")
    (auto simp: less_Suc_eq_le size_list_dropWhile trans_le_add2)

definition from_events :: "cfg_event list \<Rightarrow> nat \<Rightarrow> cfg option" where
  "from_events es n = do {
     (body, rest) \<leftarrow> body_from_events es n;
     if rest = [] then Some (Cfg_Root (add_empty_threads n body)) else None }"

section \<open>Generating the events\<close>

definition split_dim :: "cg_dim \<Rightarrow> cg_dim list \<times> cg_dim list \<times> cfg_event list \<Rightarrow> cg_dim list \<times> cg_dim list \<times> cfg_event list" where
  "split_dim dim = (\<lambda>(blocks, threads, events).
     if cd_kind dim = {K_Block} then (blocks @ [dim], threads, events)
     else if cd_kind dim = {K_Thread} then
       (blocks, threads @ [dim], events @ [Ev_Exit (cd_representant dim) Exit_ThreadDim])
     else (blocks, threads,
       events @ [Ev_Exit (cd_representant dim) Exit_SeqDim, Ev_Enter (cd_representant dim) (Entry_SeqDim dim)]))"

definition cmp_blocks :: "cg_space \<Rightarrow> cg_dim \<Rightarrow> cg_dim \<Rightarrow> ordering option" where
  "cmp_blocks sp l r =
     (if cd_representant l = cd_representant r then Some Equal
      else let order = cs_order sp (S_Dim (cd_representant l)) (S_Dim (cd_representant r)) in
        if order = {O_Outer} then Some Less else if order = {O_Inner} then Some Greater else None)"

definition cmp_thread_group :: "cg_space \<Rightarrow> cg_dim \<Rightarrow> cg_dim list \<Rightarrow> ordering option" where
  "cmp_thread_group sp dim probe =
     (case probe of
        [] \<Rightarrow> None
      | first # _ \<Rightarrow>
          if cd_representant first = cd_representant dim then Some Equal
          else let mapping = cs_thread_mapping sp (cd_representant first) (cd_representant dim) in
            if mapping = {TM_MappedOut} then Some Less
            else if mapping = {TM_MappedIn} then Some Greater
            else if mapping = {TM_Mapped} then Some Equal else None)"

definition insert_thread_dim :: "cg_space \<Rightarrow> cg_dim \<Rightarrow> cg_dim list list \<Rightarrow> cg_dim list list option" where
  "insert_thread_dim sp dim groups = do {
     pos \<leftarrow> binary_search_by (cmp_thread_group sp dim) groups;
     Some (case pos of
        Inr p \<Rightarrow> groups[p := groups ! p @ [dim]]
      | Inl p \<Rightarrow> take p groups @ [dim] # drop p groups) }"

text \<open>The events that enter the thread dimensions of a group, and the dimension that they are merged to.\<close>

definition enter_thread_group :: "nat \<times> cg_dim list \<Rightarrow> (cg_dim \<times> cfg_event list) option" where
  "enter_thread_group = (\<lambda>(pos, dims). do {
     let drained = map cd_drain_levels dims;
     let events = map (\<lambda>(levels, dim). Ev_Enter (cd_representant dim) (Entry_ThreadDim pos levels)) drained;
     merged \<leftarrow> (case map snd drained of [] \<Rightarrow> None | dim # rest \<Rightarrow> fold_option (\<lambda>y x. cd_merge_from x y) rest dim);
     Some (merged, events) })"

definition gen_events ::
  "cg_space \<Rightarrow> cg_inst list \<Rightarrow> cg_dim list \<Rightarrow> (cg_dim list \<times> cg_dim list \<times> cfg_event list) option" where
  "gen_events sp insts dims = do {
     let (blocks, threads, events) = fold split_dim dims ([], [], map Ev_Exec insts);
     blocks \<leftarrow> sort_by (cmp_blocks sp) blocks;
     groups \<leftarrow> fold_option (insert_thread_dim sp) threads [];
     entered \<leftarrow> those (map enter_thread_group (List.enumerate 0 groups));
     Some (blocks, map fst entered, events @ concat (map snd entered)) }"

definition cfg_build :: "cg_space \<Rightarrow> cg_inst list \<Rightarrow> cg_dim list \<Rightarrow> (cg_dim list \<times> cg_dim list \<times> cfg) option" where
  "cfg_build sp insts dims = do {
     (blocks, threads, events) \<leftarrow> gen_events sp insts dims;
     events \<leftarrow> sort_by (ev_cmp sp) events;
     c \<leftarrow> from_events events (length threads);
     Some (blocks, threads, c) }"

end
