(* ===== verification/Codegen_Cfg_Correct.thy ===== *)
theory Codegen_Cfg_Correct
  imports Codegen_Cfg
begin

text \<open>
  Correctness of the control flow graph: \<open>walk\<close> relates the events met when walking a nest of loops, vectors and threads to the
  graph. The graph is read back from the events, every instruction is placed below exactly one set of threads, and sorting the
  events by the orders of the search space gives the nest that the orders describe.
\<close>

section \<open>Walking a graph\<close>

definition enter_seq :: "cg_dim \<Rightarrow> cfg_event" where
  "enter_seq dim = Ev_Enter (cd_representant dim) (Entry_SeqDim dim)"

definition enter_thread :: "nat \<times> nat \<times> ind_level list \<Rightarrow> cfg_event" where
  "enter_thread = (\<lambda>(d, pos, levels). Ev_Enter d (Entry_ThreadDim pos levels))"

definition thread_ids :: "nat \<Rightarrow> (nat \<times> nat \<times> ind_level list) list \<Rightarrow> nat option list" where
  "thread_ids n ts = fold (\<lambda>(d, pos, _) ids. ids[pos := Some d]) ts (replicate n None)"

definition is_vector_kind :: "dim_kind set \<Rightarrow> bool" where
  "is_vector_kind k \<longleftrightarrow> k = {K_OuterVector} \<or> k = {K_InnerVector}"

inductive walk :: "nat \<Rightarrow> cfg_event list \<Rightarrow> cfg list \<Rightarrow> bool" where
  walk_end: "walk n [] []"
| walk_exec: "walk n es cs \<Longrightarrow> walk n (Ev_Exec i # es) (Cfg_Instruction [] [] i # cs)"
| walk_loop: "cd_kind dim \<inter> {K_InnerVector, K_OuterVector} = {} \<Longrightarrow> walk n inner body \<Longrightarrow> walk n es cs \<Longrightarrow>
    walk n (enter_seq dim # inner @ Ev_Exit x Exit_SeqDim # es) (Cfg_Loop dim body # cs)"
| walk_vector: "ds \<noteq> [] \<Longrightarrow> list_all (is_vector_kind \<circ> cd_kind) ds \<Longrightarrow> length xs = length ds \<Longrightarrow> walk n es cs \<Longrightarrow>
    walk n (map enter_seq ds @ Ev_Exec i # map (\<lambda>x. Ev_Exit x Exit_SeqDim) xs @ es)
      (Cfg_Instruction (filter (\<lambda>d. cd_kind d = {K_OuterVector}) ds) (filter (\<lambda>d. cd_kind d = {K_InnerVector}) ds) i # cs)"
| walk_threads: "ts \<noteq> [] \<Longrightarrow> distinct (map (fst \<circ> snd) ts) \<Longrightarrow> list_all (\<lambda>t. fst (snd t) < n) ts \<Longrightarrow> xs \<noteq> [] \<Longrightarrow>
    walk 0 inner body \<Longrightarrow> walk n es cs \<Longrightarrow>
    walk n (map enter_thread ts @ inner @ map (\<lambda>x. Ev_Exit x Exit_ThreadDim) xs @ es)
      (Cfg_Threads (thread_ids n ts) (concat (map (snd \<circ> snd) ts)) body # cs)"

section \<open>Reading it back\<close>

fun starts_with :: "(cfg_event \<Rightarrow> bool) \<Rightarrow> cfg_event list \<Rightarrow> bool" where
  "starts_with P [] \<longleftrightarrow> False"
| "starts_with P (e # es) \<longleftrightarrow> P e"

fun is_thread_enter :: "cfg_event \<Rightarrow> bool" where
  "is_thread_enter (Ev_Enter _ (Entry_ThreadDim _ _)) = True" | "is_thread_enter _ = False"

lemma pop_entries_vector:
  assumes "list_all (is_vector_kind \<circ> cd_kind) ds"
  shows "pop_entries (map enter_seq ds @ Ev_Exec i # es) (outer, inner) =
    Some ((outer @ filter (\<lambda>d. cd_kind d = {K_OuterVector}) ds, inner @ filter (\<lambda>d. cd_kind d = {K_InnerVector}) ds), i, es)"
  using assms
proof (induction ds arbitrary: outer inner)
  case (Cons d ds)
  then have "is_vector_kind (cd_kind d)" by simp
  then show ?case using Cons by (auto simp: enter_seq_def push_vector_dim_def is_vector_kind_def)
qed simp

lemma pop_exits_all: "pop_exits (length xs) (map (\<lambda>x. Ev_Exit x Exit_SeqDim) xs @ es) = Some es"
  by (induction xs) auto

lemma vector_kinds_length:
  "list_all (is_vector_kind \<circ> cd_kind) ds \<Longrightarrow>
    length (filter (\<lambda>d. cd_kind d = {K_OuterVector}) ds) + length (filter (\<lambda>d. cd_kind d = {K_InnerVector}) ds) = length ds"
  by (induction ds) (auto simp: is_vector_kind_def)

lemma vector_inst_walk:
  assumes "list_all (is_vector_kind \<circ> cd_kind) (d # ds)" "length xs = Suc (length ds)"
  shows "vector_inst_from_events d (map enter_seq ds @ Ev_Exec i # map (\<lambda>x. Ev_Exit x Exit_SeqDim) xs @ es) =
    Some (Cfg_Instruction (filter (\<lambda>d. cd_kind d = {K_OuterVector}) (d # ds)) (filter (\<lambda>d. cd_kind d = {K_InnerVector}) (d # ds)) i, es)"
proof -
  have "pop_entries (map enter_seq (d # ds) @ Ev_Exec i # map (\<lambda>x. Ev_Exit x Exit_SeqDim) xs @ es) ([], []) =
    Some ((filter (\<lambda>d. cd_kind d = {K_OuterVector}) (d # ds), filter (\<lambda>d. cd_kind d = {K_InnerVector}) (d # ds)), i,
      map (\<lambda>x. Ev_Exit x Exit_SeqDim) xs @ es)"
    using pop_entries_vector [OF assms(1), of i "map (\<lambda>x. Ev_Exit x Exit_SeqDim) xs @ es" "[]" "[]"] by (simp only: append_Nil)
  then obtain dims where "push_vector_dim d ([], []) = Some dims"
    "pop_entries (map enter_seq ds @ Ev_Exec i # map (\<lambda>x. Ev_Exit x Exit_SeqDim) xs @ es) dims =
     Some ((filter (\<lambda>d. cd_kind d = {K_OuterVector}) (d # ds), filter (\<lambda>d. cd_kind d = {K_InnerVector}) (d # ds)), i,
      map (\<lambda>x. Ev_Exit x Exit_SeqDim) xs @ es)"
    by (auto simp: enter_seq_def bind_eq_Some_conv)
  then show ?thesis
    using vector_kinds_length [OF assms(1)] assms(2) pop_exits_all [of xs es]
    by (simp add: vector_inst_from_events_def del: filter.simps)
qed

lemma thread_entries_walk:
  assumes "distinct (map (fst \<circ> snd) ts)" "list_all (\<lambda>t. fst (snd t) < length ids \<and> ids ! fst (snd t) = None) ts"
    "\<not> starts_with is_thread_enter es"
  shows "thread_entries (map enter_thread ts @ es) ids ls =
    Some (fold (\<lambda>(d, pos, _) ids. ids[pos := Some d]) ts ids, ls @ concat (map (snd \<circ> snd) ts), es)"
  using assms
proof (induction ts arbitrary: ids ls)
  case Nil
  then show ?case by (cases "(es, ids, ls)" rule: thread_entries.cases) auto
next
  case (Cons t ts)
  obtain d pos levels where t: "t = (d, pos, levels)" by (metis prod.exhaust)
  have "list_all (\<lambda>t. fst (snd t) < length (ids[pos := Some d]) \<and> ids[pos := Some d] ! fst (snd t) = None) ts"
    using Cons.prems t by (fastforce simp: list_all_iff nth_list_update)
  then show ?case using Cons t by (simp add: enter_thread_def)
qed

lemma walk_starts: "walk n es cs \<Longrightarrow> \<not> starts_with is_exit es \<and> (n = 0 \<longrightarrow> \<not> starts_with is_thread_enter es)"
proof (induction rule: walk.induct)
  case (walk_vector ds xs n es cs i)
  then show ?case by (cases ds) (simp_all add: enter_seq_def)
next
  case (walk_threads ts n xs inner body es cs)
  then show ?case by (cases ts) (auto simp: enter_thread_def)
qed (simp_all add: enter_seq_def)

lemma dropWhile_thread_exits:
  "\<not> starts_with is_thread_exit es \<Longrightarrow> dropWhile is_thread_exit (map (\<lambda>x. Ev_Exit x Exit_ThreadDim) xs @ es) = es"
  by (induction xs) (cases es; simp)+

lemma body_from_walk:
  assumes "walk n es cs" "n = 0 \<or> \<not> starts_with is_thread_exit tail"
  shows "body_from_events (es @ tail) n = map_option (\<lambda>(body, rest). (cs @ body, rest)) (body_from_events tail n)"
  using assms
proof (induction arbitrary: tail rule: walk.induct)
  case (walk_end n)
  then show ?case by (simp add: option.map_ident split: option.splits)
next
  case (walk_exec n es cs i)
  then show ?case by (cases "body_from_events tail n") auto
next
  case (walk_loop dim n inner body es cs x)
  have "body_from_events (inner @ Ev_Exit x Exit_SeqDim # es @ tail) n = Some (body, es @ tail)"
    using walk_loop.IH(1) [of "Ev_Exit x Exit_SeqDim # es @ tail"] by simp
  then show ?case
    using walk_loop.hyps(1) walk_loop.IH(2) [OF walk_loop.prems]
    by (cases "body_from_events tail n") (auto simp: enter_seq_def kind_is_def)
next
  case (walk_vector ds xs n es cs i)
  obtain d ds' where d: "ds = d # ds'" using walk_vector.hyps(1) by (cases ds) auto
  have "kind_is (cd_kind d) {K_InnerVector, K_OuterVector} = Some True"
    using walk_vector.hyps(2) d by (auto simp: kind_is_def is_vector_kind_def)
  moreover have "vector_inst_from_events d (map enter_seq ds' @ Ev_Exec i # map (\<lambda>x. Ev_Exit x Exit_SeqDim) xs @ es @ tail) =
    Some (Cfg_Instruction (filter (\<lambda>d. cd_kind d = {K_OuterVector}) ds) (filter (\<lambda>d. cd_kind d = {K_InnerVector}) ds) i, es @ tail)"
    unfolding d by (rule vector_inst_walk) (use walk_vector.hyps d in simp_all)
  ultimately show ?case
    using walk_vector.IH [OF walk_vector.prems] d
    by (cases "body_from_events tail n") (auto simp: enter_seq_def)
next
  case (walk_threads ts n xs inner body es cs)
  obtain d pos levels ts' where t: "ts = (d, pos, levels) # ts'" using walk_threads.hyps(1) by (metis list.exhaust prod.exhaust)
  obtain x xs' where x: "xs = x # xs'" using walk_threads.hyps(4) by (cases xs) auto
  have n: "0 < n" using walk_threads.hyps(3) t by auto
  let ?rest = "inner @ map (\<lambda>x. Ev_Exit x Exit_ThreadDim) xs @ es @ tail"
  have "\<not> starts_with is_thread_enter ?rest"
    using walk_starts [OF walk_threads.hyps(5)] x by (cases inner) auto
  moreover have "list_all (\<lambda>t. fst (snd t) < length ((replicate n None)[pos := Some d]) \<and> (replicate n None)[pos := Some d] ! fst (snd t) = None) ts'"
    using walk_threads.hyps(2,3) t by (force simp: list_all_iff nth_list_update)
  ultimately have 1: "thread_entries (map enter_thread ts' @ ?rest) ((replicate n None)[pos := Some d]) levels =
      Some (thread_ids n ts, concat (map (snd \<circ> snd) ts), ?rest)"
    using thread_entries_walk [of ts' "(replicate n None)[pos := Some d]" ?rest levels] walk_threads.hyps(2) t
    by (simp add: thread_ids_def)
  have "\<not> starts_with is_thread_exit (es @ tail)"
    using walk_starts [OF walk_threads.hyps(6)] walk_threads.prems n by (cases es) (auto elim: is_thread_exit.elims)
  then have 2: "body_from_events ?rest 0 = Some (body, es @ tail)"
    using walk_threads.IH(1) [of "map (\<lambda>x. Ev_Exit x Exit_ThreadDim) xs @ es @ tail"] x dropWhile_thread_exits [of "es @ tail" xs'] by simp
  have 3: "vec_set_at pos (Some d) (replicate n None) = Some ((replicate n None)[pos := Some d])"
    using walk_threads.hyps(3) t by (simp add: vec_set_at_def)
  show ?case
    using walk_threads.IH(2) [OF walk_threads.prems] 1 2 3 t
    by (cases "body_from_events tail n") (auto simp: enter_thread_def)
qed

lemma from_walk: "walk n es cs \<Longrightarrow> from_events es n = Some (Cfg_Root (add_empty_threads n cs))"
  using body_from_walk [of n es cs "[]"] by (simp add: from_events_def)

section \<open>Instructions and threads\<close>

definition executed :: "cfg_event list \<Rightarrow> cg_inst list" where
  "executed es = concat (map (\<lambda>e. case e of Ev_Exec i \<Rightarrow> [i] | _ \<Rightarrow> []) es)"

lemma executed_simps [simp]:
  "executed [] = []" "executed (Ev_Exec i # es) = i # executed es" "executed (Ev_Enter d e # es) = executed es"
  "executed (Ev_Exit d x # es) = executed es" "executed (es @ es') = executed es @ executed es'"
  by (simp_all add: executed_def)

lemma executed_others [simp]:
  "executed (map enter_seq ds) = []" "executed (map enter_thread ts) = []" "executed (map (\<lambda>x. Ev_Exit x e) xs) = []"
  by (induction ds, simp_all add: enter_seq_def) (induction ts, auto simp: enter_thread_def, induction xs, auto)

lemma walk_instructions: "walk n es cs \<Longrightarrow> concat (map cfg_instructions cs) = executed es"
  by (induction rule: walk.induct) (simp_all add: enter_seq_def)

text \<open>The number of sets of threads around every instruction.\<close>

fun thread_depths :: "nat \<Rightarrow> cfg \<Rightarrow> nat list" where
  "thread_depths k (Cfg_Root body) = concat (map (thread_depths k) body)"
| "thread_depths k (Cfg_Loop _ body) = concat (map (thread_depths k) body)"
| "thread_depths k (Cfg_Threads _ _ body) = concat (map (thread_depths (Suc k)) body)"
| "thread_depths k (Cfg_Instruction _ _ _) = [k]"

fun flat_threads :: "cfg \<Rightarrow> bool" where
  "flat_threads (Cfg_Root body) \<longleftrightarrow> list_all flat_threads body"
| "flat_threads (Cfg_Loop _ body) \<longleftrightarrow> list_all flat_threads body"
| "flat_threads (Cfg_Threads _ _ body) \<longleftrightarrow> list_all (\<lambda>c. \<not> handle_threads c) body"
| "flat_threads (Cfg_Instruction _ _ _) \<longleftrightarrow> True"

lemma no_threads_depth: "\<not> handle_threads c \<Longrightarrow> set (thread_depths k c) \<subseteq> {k}"
  by (induction c) (auto simp: list_ex_iff)

lemma walk_no_threads: "walk n es cs \<Longrightarrow> n = 0 \<Longrightarrow> list_all (\<lambda>c. \<not> handle_threads c) cs"
proof (induction rule: walk.induct)
  case (walk_threads ts n xs inner body es cs)
  then show ?case by (cases ts) auto
qed (auto simp: list_all_iff list_ex_iff)

lemma walk_flat: "walk n es cs \<Longrightarrow> list_all flat_threads cs"
  by (induction rule: walk.induct) (simp_all add: walk_no_threads)

lemma add_empty_threads_instructions:
  "concat (map cfg_instructions (add_empty_threads n cs)) = concat (map cfg_instructions cs)"
  "cfg_instructions (add_empty_threads_in n c) = cfg_instructions c"
proof (induction n cs and n c rule: add_empty_threads_add_empty_threads_in.induct)
  case (2 n c cs)
  have "concat (map cfg_instructions (takeWhile P cs)) @ concat (map cfg_instructions (dropWhile P cs)) = concat (map cfg_instructions cs)" for P
    by (simp flip: concat_append map_append)
  then show ?case using 2 by simp
qed simp_all

lemma add_empty_threads_depth:
  "list_all flat_threads cs \<Longrightarrow> set (concat (map (thread_depths 0) (add_empty_threads n cs))) \<subseteq> {1}"
  "flat_threads c \<Longrightarrow> handle_threads c \<Longrightarrow> set (thread_depths 0 (add_empty_threads_in n c)) \<subseteq> {1}"
proof (induction n cs and n c rule: add_empty_threads_add_empty_threads_in.induct)
  case (2 n c cs)
  show ?case
  proof (cases "handle_threads c")
    case True
    then show ?thesis using 2 by simp
  next
    case False
    have "set (thread_depths (Suc 0) c') \<subseteq> {1}" if "c' \<in> set (c # takeWhile (\<lambda>c. \<not> handle_threads c) cs)" for c'
      using that False no_threads_depth [of c' 1] by (auto dest: set_takeWhileD)
    moreover have "list_all flat_threads (dropWhile (\<lambda>c. \<not> handle_threads c) cs)"
      using "2.prems" by (auto simp: list_all_iff dest: set_dropWhileD)
    ultimately show ?thesis using 2 False by fastforce
  qed
next
  case (6 n ids levels inner)
  then show ?case using no_threads_depth [of _ 1] by (fastforce simp: list_all_iff)
qed simp_all

section \<open>Sorted events\<close>

text \<open>A statement encloses another in a list of events.\<close>

definition encloses :: "cfg_event list \<Rightarrow> stmt_id \<Rightarrow> stmt_id \<Rightarrow> bool" where
  "encloses es a b \<longleftrightarrow>
     (\<exists>i < length es. \<exists>k < length es. is_enter (es ! i) \<and> ev_stmt_id (es ! i) = a \<and> is_exit (es ! k) \<and> ev_stmt_id (es ! k) = a
        \<and> (\<forall>j < length es. ev_stmt_id (es ! j) = b \<longrightarrow> i < j \<and> j < k))"

text \<open>
  The orders of the search space describe a list of events: every dimension is entered once and then left, and the order of two
  statements is that of their places, where instructions of unspecified order are in the order of their identifiers.
\<close>

definition placed_pair :: "cg_space \<Rightarrow> cfg_event list \<Rightarrow> cfg_event \<Rightarrow> cfg_event \<Rightarrow> bool" where
  "placed_pair sp es x y \<longleftrightarrow>
     (let a = ev_stmt_id x; b = ev_stmt_id y in
      if a = b then is_enter x \<and> is_exit y
      else if encloses es a b then cs_order sp a b = {O_Outer} \<and> cs_order sp b a = {O_Inner}
      else if encloses es b a then cs_order sp a b = {O_Inner} \<and> cs_order sp b a = {O_Outer}
      else cs_order sp a b = {O_Before} \<and> cs_order sp b a = {O_After}
        \<or> is_exec x \<and> is_exec y \<and> a < b \<and> cs_order sp a b = {O_Before, O_After} \<and> cs_order sp b a = {O_Before, O_After})"

definition placed :: "cg_space \<Rightarrow> cfg_event list \<Rightarrow> bool" where
  "placed sp es \<longleftrightarrow> sorted_wrt (placed_pair sp es) es"

lemma event_kinds: "is_enter e \<or> is_exec e \<or> is_exit e" "\<not> (is_enter e \<and> is_exit e)" "\<not> (is_exec e \<and> is_exit e)" "\<not> (is_exec e \<and> is_enter e)"
  by (cases e; simp)+

lemma within_stmt:
  "is_enter x \<Longrightarrow> is_exit y \<Longrightarrow> ev_cmp_within_stmt x y = Less \<and> ev_cmp_within_stmt y x = Greater"
  by (cases x; cases y) auto

lemma dim_event: "ev_stmt_id x = ev_stmt_id e \<Longrightarrow> is_enter e \<Longrightarrow> is_enter x \<or> is_exit x"
  by (cases x; cases e) auto

lemma placed_decided:
  assumes "placed sp es"
  shows "decided_by (ev_cmp sp) es"
  unfolding decided_by_def sorted_wrt_iff_nth_less
proof (intro allI impI)
  fix i j assume ij: "i < j" "j < length es"
  have pair: "placed_pair sp es (es ! i) (es ! j)" if "i < j" "j < length es" for i j
    using assms that by (simp add: placed_def sorted_wrt_iff_nth_less)
  have once: "is_enter (es ! i) \<and> is_exit (es ! j)" if "i < j" "j < length es" "ev_stmt_id (es ! i) = ev_stmt_id (es ! j)" for i j
    using pair [OF that(1,2)] that(3) by (simp add: placed_pair_def)
  let ?a = "ev_stmt_id (es ! i)" and ?b = "ev_stmt_id (es ! j)"
  show "ev_cmp sp (es ! i) (es ! j) = Some Less \<and> ev_cmp sp (es ! j) (es ! i) = Some Greater"
  proof (cases "?a = ?b")
    case True
    then show ?thesis using once [OF ij] within_stmt by (simp add: ev_cmp_def)
  next
    case ne: False
    have outer: "is_enter (es ! i)" if enc: "encloses es ?a ?b"
    proof (rule ccontr)
      assume "\<not> is_enter (es ! i)"
      moreover obtain k where k: "k < length es" "is_exit (es ! k)" "ev_stmt_id (es ! k) = ?a" "j < k"
        using enc ij by (auto simp: encloses_def)
      ultimately show False using once [of i k] ij by auto
    qed
    have inner: "is_exit (es ! j)" if enc: "encloses es ?b ?a"
    proof -
      obtain k where "k < length es" "is_enter (es ! k)" "ev_stmt_id (es ! k) = ?b" "k < i"
        using enc ij by (auto simp: encloses_def)
      then show ?thesis using once [of k j] ij by auto
    qed
    have ne': "?b \<noteq> ?a" using ne by simp
    consider (outer) "encloses es ?a ?b" "cs_order sp ?a ?b = {O_Outer}" "cs_order sp ?b ?a = {O_Inner}"
      | (inner) "encloses es ?b ?a" "cs_order sp ?a ?b = {O_Inner}" "cs_order sp ?b ?a = {O_Outer}"
      | (before) "cs_order sp ?a ?b = {O_Before}" "cs_order sp ?b ?a = {O_After}"
      | (ids) "is_exec (es ! i)" "is_exec (es ! j)" "?a < ?b" "cs_order sp ?a ?b = {O_Before, O_After}" "cs_order sp ?b ?a = {O_Before, O_After}"
      using pair [OF ij] ne unfolding placed_pair_def Let_def by (auto split: if_split_asm)
    then show ?thesis
    proof cases
      case outer
      then show ?thesis using \<open>encloses es ?a ?b \<Longrightarrow> is_enter (es ! i)\<close> event_kinds(2) [of "es ! i"] ne ne'
        by (simp add: ev_cmp_def Let_def)
    next
      case inner
      then show ?thesis using \<open>encloses es ?b ?a \<Longrightarrow> is_exit (es ! j)\<close> event_kinds(2) [of "es ! j"] ne ne'
        by (simp add: ev_cmp_def Let_def)
    next
      case before
      then show ?thesis using ne ne' by (simp add: ev_cmp_def Let_def doubleton_eq_iff)
    next
      case ids
      then have "cmp ?a ?b = Less" "cmp ?b ?a = Greater" by simp_all
      then show ?thesis using ids ne ne' by (simp add: ev_cmp_def Let_def doubleton_eq_iff)
    qed
  qed
qed

section \<open>Groups of threads\<close>

definition block_dims_of :: "cg_dim list \<Rightarrow> cg_dim list" where
  "block_dims_of dims = filter (\<lambda>d. cd_kind d = {K_Block}) dims"

definition thread_dims_of :: "cg_dim list \<Rightarrow> cg_dim list" where
  "thread_dims_of dims = filter (\<lambda>d. cd_kind d = {K_Thread}) dims"

definition dim_events :: "cg_dim \<Rightarrow> cfg_event list" where
  "dim_events d =
     (if cd_kind d = {K_Block} then []
      else if cd_kind d = {K_Thread} then [Ev_Exit (cd_representant d) Exit_ThreadDim]
      else [Ev_Exit (cd_representant d) Exit_SeqDim, enter_seq d])"

lemma fold_split_dim:
  "fold split_dim dims (bs, ts, es) = (bs @ block_dims_of dims, ts @ thread_dims_of dims, es @ concat (map dim_events dims))"
  by (induction dims arbitrary: bs ts es)
    (auto simp: split_dim_def block_dims_of_def thread_dims_of_def dim_events_def enter_seq_def)

text \<open>
  The mapping of thread dimensions to the threads of the device: \<open>r\<close> gives the place of a dimension, and dimensions in the same place
  have the same size.
\<close>

definition threads_ranked :: "cg_space \<Rightarrow> (nat \<Rightarrow> nat) \<Rightarrow> cg_dim list \<Rightarrow> bool" where
  "threads_ranked sp r ts \<longleftrightarrow>
     distinct (map cd_representant ts)
   \<and> (\<forall>x \<in> set ts. \<forall>y \<in> set ts. x \<noteq> y \<longrightarrow>
        cs_thread_mapping sp (cd_representant x) (cd_representant y) =
          (if r (cd_representant x) < r (cd_representant y) then {TM_MappedOut}
           else if r (cd_representant x) = r (cd_representant y) then {TM_Mapped} else {TM_MappedIn})
      \<and> (r (cd_representant x) = r (cd_representant y) \<longrightarrow> cd_size x = cd_size y))"

abbreviation dim_rank :: "(nat \<Rightarrow> nat) \<Rightarrow> cg_dim \<Rightarrow> nat" where
  "dim_rank r d \<equiv> r (cd_representant d)"

definition thread_ranks :: "(nat \<Rightarrow> nat) \<Rightarrow> cg_dim list \<Rightarrow> nat list" where
  "thread_ranks r ts = sorted_list_of_set (dim_rank r ` set ts)"

definition thread_groups :: "(nat \<Rightarrow> nat) \<Rightarrow> cg_dim list \<Rightarrow> cg_dim list list" where
  "thread_groups r ts = map (\<lambda>k. filter (\<lambda>d. dim_rank r d = k) ts) (thread_ranks r ts)"

lemma insort_split:
  assumes "sorted xs" "k \<notin> set xs"
  shows "insort k xs = take (rank xs k) xs @ k # drop (rank xs k) xs"
  using assms
proof (induction xs)
  case (Cons x xs)
  show ?case
  proof (cases "x < k")
    case True
    then show ?thesis using Cons by (simp add: rank_def)
  next
    case False
    then have "filter (\<lambda>y. y < k) (x # xs) = []" using Cons.prems by (auto simp: filter_empty_conv)
    then have "rank (x # xs) k = 0" by (simp only: rank_def list.size)
    moreover have "k \<le> x" using False by simp
    ultimately show ?thesis by simp
  qed
qed (simp add: rank_def)

lemma thread_ranks_strict: "sorted_wrt (<) (thread_ranks r ts)" "set (thread_ranks r ts) = dim_rank r ` set ts"
  by (simp_all add: thread_ranks_def)

lemma thread_ranks_snoc:
  "thread_ranks r (ts @ [x]) =
    (if dim_rank r x \<in> dim_rank r ` set ts then thread_ranks r ts
     else take (rank (thread_ranks r ts) (dim_rank r x)) (thread_ranks r ts) @ dim_rank r x
       # drop (rank (thread_ranks r ts) (dim_rank r x)) (thread_ranks r ts))"
proof (cases "dim_rank r x \<in> dim_rank r ` set ts")
  case True
  then have "dim_rank r ` set (ts @ [x]) = dim_rank r ` set ts" by auto
  then show ?thesis using True by (simp only: thread_ranks_def if_True)
next
  case False
  then show ?thesis
    using insort_split [of "thread_ranks r ts" "dim_rank r x"] by (simp add: thread_ranks_def sorted_list_of_set_insert)
qed

lemma thread_groups_pivot:
  assumes "threads_ranked sp r all_dims" "set ts \<subseteq> set all_dims" "x \<in> set all_dims" "x \<notin> set ts"
  shows "pivot (cmp_thread_group sp x) (thread_groups r ts) (rank (thread_ranks r ts) (dim_rank r x))
    (dim_rank r x \<in> dim_rank r ` set ts)"
proof -
  let ?ks = "thread_ranks r ts" and ?k = "dim_rank r x"
  have less: "?ks ! i < ?k \<longleftrightarrow> i < rank ?ks ?k" if "i < length ?ks" for i
    using rank_nth [OF thread_ranks_strict(1) that] .
  have eq: "?ks ! i = ?k \<longleftrightarrow> i = rank ?ks ?k \<and> ?k \<in> dim_rank r ` set ts" if "i < length ?ks" for i
  proof
    assume "?ks ! i = ?k"
    then have "?k \<in> set ?ks" using that nth_mem by fastforce
    then show "i = rank ?ks ?k \<and> ?k \<in> dim_rank r ` set ts"
      using rank_mem [OF thread_ranks_strict(1), of ?k r ts] that \<open>?ks ! i = ?k\<close> thread_ranks_strict [of r ts]
      by (metis nth_eq_iff_index_eq strict_sorted_iff)
  next
    assume "i = rank ?ks ?k \<and> ?k \<in> dim_rank r ` set ts"
    then show "?ks ! i = ?k" using rank_mem(2) [OF thread_ranks_strict(1), of ?k r ts] by (simp add: thread_ranks_strict)
  qed
  have "cmp_thread_group sp x (thread_groups r ts ! i) =
      Some (if i < rank ?ks ?k then Less else if i = rank ?ks ?k \<and> ?k \<in> dim_rank r ` set ts then Equal else Greater)"
    if i: "i < length ?ks" for i
  proof -
    have "?ks ! i \<in> dim_rank r ` set ts" using nth_mem [OF i] by (simp add: thread_ranks_strict)
    then have "filter (\<lambda>d. dim_rank r d = ?ks ! i) ts \<noteq> []" by (auto simp: filter_empty_conv)
    then obtain y ys where y: "thread_groups r ts ! i = y # ys" using i by (auto simp: thread_groups_def neq_Nil_conv)
    then have "y \<in> set (filter (\<lambda>d. dim_rank r d = ?ks ! i) ts)" using i by (simp add: thread_groups_def)
    then have yr: "y \<in> set ts" "dim_rank r y = ?ks ! i" by auto
    then have "y \<in> set all_dims" "y \<noteq> x" using assms by auto
    then have "cs_thread_mapping sp (cd_representant y) (cd_representant x) =
        (if dim_rank r y < ?k then {TM_MappedOut} else if dim_rank r y = ?k then {TM_Mapped} else {TM_MappedIn})"
      "cd_representant y \<noteq> cd_representant x"
      using assms(1,3) unfolding threads_ranked_def by (blast, metis distinct_map inj_onD)
    then show ?thesis using y yr(2) less [OF i] eq [OF i] by (auto simp: cmp_thread_group_def)
  qed
  moreover have "rank ?ks ?k + of_bool (?k \<in> dim_rank r ` set ts) \<le> length (thread_groups r ts)"
    using rank_mem(1) [OF thread_ranks_strict(1), of ?k r ts] by (auto simp: thread_groups_def thread_ranks_strict Suc_le_eq)
  ultimately show ?thesis by (simp add: pivot_def thread_groups_def)
qed

lemma insert_thread_dim_groups:
  assumes "threads_ranked sp r all_dims" "set ts \<subseteq> set all_dims" "x \<in> set all_dims" "x \<notin> set ts"
  shows "insert_thread_dim sp x (thread_groups r ts) = Some (thread_groups r (ts @ [x]))"
proof -
  let ?ks = "thread_ranks r ts" and ?k = "dim_rank r x"
  note s = binary_search_by_pivot [OF thread_groups_pivot [OF assms]]
  show ?thesis
  proof (cases "?k \<in> dim_rank r ` set ts")
    case True
    then have m: "rank ?ks ?k < length ?ks" "?ks ! rank ?ks ?k = ?k"
      using rank_mem [OF thread_ranks_strict(1), of ?k r ts] by (simp_all add: thread_ranks_strict)
    have "(thread_groups r ts)[rank ?ks ?k := thread_groups r ts ! rank ?ks ?k @ [x]] = thread_groups r (ts @ [x])"
    proof (rule nth_equalityI)
      fix i assume "i < length ((thread_groups r ts)[rank ?ks ?k := thread_groups r ts ! rank ?ks ?k @ [x]])"
      then have i: "i < length ?ks" by (simp add: thread_groups_def)
      have "?k = ?ks ! i \<longleftrightarrow> i = rank ?ks ?k"
        using i m thread_ranks_strict(1) [of r ts] by (metis nth_eq_iff_index_eq strict_sorted_iff)
      then show "(thread_groups r ts)[rank ?ks ?k := thread_groups r ts ! rank ?ks ?k @ [x]] ! i = thread_groups r (ts @ [x]) ! i"
        using True i m by (auto simp: thread_groups_def thread_ranks_snoc nth_list_update)
    qed (use True in \<open>simp add: thread_groups_def thread_ranks_snoc\<close>)
    then show ?thesis using s True by (simp add: insert_thread_dim_def)
  next
    case False
    have same: "filter (\<lambda>d. dim_rank r d = k) (ts @ [x]) = filter (\<lambda>d. dim_rank r d = k) ts" if "k \<in> set ?ks" for k
      using that False by (auto simp: thread_ranks_strict)
    have "dim_rank r d \<noteq> ?k" if "d \<in> set ts" for d using False that by (metis (no_types, lifting) image_eqI)
    then have "filter (\<lambda>d. dim_rank r d = ?k) (ts @ [x]) = [x]" by (auto simp: filter_empty_conv)
    moreover have "?k \<notin> set ?ks" using False by (simp add: thread_ranks_strict)
    ultimately have "thread_groups r (ts @ [x]) = take (rank ?ks ?k) (thread_groups r ts) @ [x] # drop (rank ?ks ?k) (thread_groups r ts)"
      using False same by (auto simp: thread_groups_def thread_ranks_snoc take_map drop_map dest: in_set_takeD in_set_dropD)
    then show ?thesis using s False by (simp add: insert_thread_dim_def)
  qed
qed

lemma fold_insert_thread_dim:
  assumes "threads_ranked sp r (ts @ xs)"
  shows "fold_option (insert_thread_dim sp) xs (thread_groups r ts) = Some (thread_groups r (ts @ xs))"
  using assms
proof (induction xs arbitrary: ts)
  case (Cons x xs)
  have "x \<notin> set ts" using Cons.prems by (auto simp: threads_ranked_def)
  then have "insert_thread_dim sp x (thread_groups r ts) = Some (thread_groups r (ts @ [x]))"
    using insert_thread_dim_groups [OF Cons.prems, of ts x] by auto
  then show ?case using Cons.IH [of "ts @ [x]"] Cons.prems by simp
qed simp

section \<open>Building the graph\<close>

lemma fold_merge_from:
  assumes "\<forall>y \<in> set ys. cd_kind y = cd_kind x \<and> cd_size y = cd_size x \<and> cd_levels y = []"
  shows "fold_option (\<lambda>y x. cd_merge_from x y) ys x = Some (x\<lparr>cd_other_dims := cd_other_dims x @ concat (map cd_ids ys)\<rparr>)"
  using assms
proof (induction ys arbitrary: x)
  case (Cons y ys)
  have "cd_merge_from x y = Some (x\<lparr>cd_other_dims := cd_other_dims x @ cd_ids y\<rparr>)"
    using Cons.prems by (simp add: cd_merge_from_def cd_ids_def)
  moreover have "\<forall>z \<in> set ys. cd_kind z = cd_kind (x\<lparr>cd_other_dims := cd_other_dims x @ cd_ids y\<rparr>)
      \<and> cd_size z = cd_size (x\<lparr>cd_other_dims := cd_other_dims x @ cd_ids y\<rparr>) \<and> cd_levels z = []"
    using Cons.prems by simp
  note Cons.IH [OF this]
  ultimately show ?case by simp
qed simp

definition merged_threads :: "cg_dim list \<Rightarrow> cg_dim" where
  "merged_threads g = (hd g)\<lparr>cd_other_dims := cd_other_dims (hd g) @ concat (map cd_ids (tl g)), cd_levels := []\<rparr>"

definition group_entries :: "nat \<times> cg_dim list \<Rightarrow> cfg_event list" where
  "group_entries = (\<lambda>(pos, g). map (\<lambda>d. enter_thread (cd_representant d, pos, cd_levels d)) g)"

lemma enter_thread_group_ok:
  assumes "g \<noteq> []" "\<forall>x \<in> set g. cd_kind x = cd_kind (hd g) \<and> cd_size x = cd_size (hd g)"
  shows "enter_thread_group (pos, g) = Some (merged_threads g, group_entries (pos, g))"
proof -
  obtain x xs where g: "g = x # xs" using assms(1) by (cases g) auto
  have ids: "map (cd_ids \<circ> (\<lambda>d. d\<lparr>cd_levels := []\<rparr>)) xs = map cd_ids xs" by (simp add: cd_ids_def)
  have "fold_option (\<lambda>y x. cd_merge_from x y) (map (\<lambda>d. d\<lparr>cd_levels := []\<rparr>) xs) (x\<lparr>cd_levels := []\<rparr>) = Some (merged_threads g)"
    using assms(2) g by (subst fold_merge_from) (simp_all add: ids merged_threads_def)
  then show ?thesis
    by (simp add: enter_thread_group_def cd_drain_levels_def g group_entries_def enter_thread_def comp_def)
qed

definition thread_entry_events :: "(nat \<Rightarrow> nat) \<Rightarrow> cg_dim list \<Rightarrow> cfg_event list" where
  "thread_entry_events r ts = concat (map group_entries (List.enumerate 0 (thread_groups r ts)))"

lemma threads_ranked_size:
  assumes "threads_ranked sp r ts" "x \<in> set ts" "y \<in> set ts" "dim_rank r x = dim_rank r y"
  shows "cd_size x = cd_size y"
  using bspec [OF bspec [OF conjunct2 [OF assms(1) [unfolded threads_ranked_def]] assms(2)] assms(3)] assms(4)
  by (cases "x = y") simp_all

lemma thread_group_uniform:
  assumes "threads_ranked sp r (thread_dims_of dims)" "g \<in> set (thread_groups r (thread_dims_of dims))"
  shows "g \<noteq> []" "\<forall>x \<in> set g. cd_kind x = cd_kind (hd g) \<and> cd_size x = cd_size (hd g)"
proof -
  obtain k where k: "k \<in> dim_rank r ` set (thread_dims_of dims)" "g = filter (\<lambda>d. dim_rank r d = k) (thread_dims_of dims)"
    using assms(2) thread_ranks_strict(2) [of r "thread_dims_of dims"] by (auto simp: thread_groups_def)
  then show ne: "g \<noteq> []" by (auto simp: filter_empty_conv)
  have m: "x \<in> set (thread_dims_of dims)" "dim_rank r x = k" "cd_kind x = {K_Thread}" if "x \<in> set g" for x
    using that k(2) by (auto simp: thread_dims_of_def)
  have h: "hd g \<in> set g" using ne by simp
  show "\<forall>x \<in> set g. cd_kind x = cd_kind (hd g) \<and> cd_size x = cd_size (hd g)"
  proof
    fix x assume x: "x \<in> set g"
    have "cd_size x = cd_size (hd g)"
      by (rule threads_ranked_size [OF assms(1) m(1) [OF x] m(1) [OF h]]) (simp only: m(2) [OF x] m(2) [OF h])
    then show "cd_kind x = cd_kind (hd g) \<and> cd_size x = cd_size (hd g)" by (simp only: m(3) [OF x] m(3) [OF h])
  qed
qed

lemma those_all_Some: "\<forall>x \<in> set xs. f x = Some (g x) \<Longrightarrow> those (map f xs) = Some (map g xs)"
  by (induction xs) auto

lemma gen_events_ok:
  assumes "threads_ranked sp r (thread_dims_of dims)" "mset bs = mset (block_dims_of dims)" "decided_by (cmp_blocks sp) bs"
  shows "gen_events sp insts dims =
    Some (bs, map merged_threads (thread_groups r (thread_dims_of dims)),
      map Ev_Exec insts @ concat (map dim_events dims) @ thread_entry_events r (thread_dims_of dims))"
proof -
  let ?ts = "thread_dims_of dims"
  have "fold_option (insert_thread_dim sp) ?ts [] = Some (thread_groups r ?ts)"
    using fold_insert_thread_dim [of sp r "[]" ?ts] assms(1) by (simp add: thread_groups_def thread_ranks_def)
  moreover have "those (map enter_thread_group (List.enumerate 0 (thread_groups r ?ts))) =
      Some (map (\<lambda>x. (merged_threads (snd x), group_entries x)) (List.enumerate 0 (thread_groups r ?ts)))"
    using enter_thread_group_ok thread_group_uniform [OF assms(1)]
    by (intro those_all_Some) (auto simp: in_set_enumerate_eq)
  moreover have "sort_by (cmp_blocks sp) (block_dims_of dims) = Some bs" using sort_by_decided assms(2,3) by metis
  moreover have "map (merged_threads \<circ> snd) (List.enumerate 0 gs) = map merged_threads gs" for gs
    by (simp flip: map_map)
  ultimately show ?thesis
    by (simp add: gen_events_def fold_split_dim thread_entry_events_def comp_def)
qed

section \<open>A sample nest\<close>

text \<open>A block dimension 0, a thread dimension 1 with the loop 2 and the instruction 0 in it, and the instruction 1 after them.\<close>

definition nest_inst :: "nat \<Rightarrow> cg_inst" where
  "nest_inst i =
     \<lparr>cn_instruction = \<lparr>i_operator = OP_UnaryOp U_Mov (Op_Int 0 32), i_id = i, i_iter_dims = {||}, i_variable = None,
        i_defined_vars = vs_default, i_used_vars = vs_default\<rparr>,
      cn_instantiation_dims = [], cn_mem_flag = None, cn_t = None\<rparr>"

definition nest_dim :: "nat \<Rightarrow> dim_kind \<Rightarrow> cg_dim" where
  "nest_dim d k = \<lparr>cd_kind = {k}, cd_representant = d, cd_other_dims = [], cd_levels = [],
     cd_size = \<lparr>cz_factor = 4, cz_dividend = [], cz_divisor = 1\<rparr>\<rparr>"

fun nest_order :: "stmt_id \<Rightarrow> stmt_id \<Rightarrow> order_val set" where
  "nest_order (S_Dim a) (S_Dim b) = (if a < b then {O_Outer} else {O_Inner})"
| "nest_order (S_Dim a) (S_Inst i) = (if i = 0 then {O_Outer} else {O_Before})"
| "nest_order (S_Inst i) (S_Dim a) = (if i = 0 then {O_Inner} else {O_After})"
| "nest_order (S_Inst i) (S_Inst j) = (if i < j then {O_Before} else {O_After})"

definition nest_space :: cg_space where
  "nest_space =
     \<lparr>cs_ir = fn_new (sig_new ''nest'') \<lparr>dv_check_type = (\<lambda>_. Inr ()), dv_global_pointer = T_I 64\<rparr>,
      cs_order = nest_order, cs_kind = (\<lambda>_. {}), cs_size = (\<lambda>_. \<lparr>enabled_values = 1\<rparr>),
      cs_thread_mapping = (\<lambda>_ _. {}), cs_mem_space = (\<lambda>_. {}), cs_inst_flag = (\<lambda>_. {}), cs_lower_type = Some\<rparr>"

definition nest_dims :: "cg_dim list" where
  "nest_dims = [nest_dim 2 K_Loop, nest_dim 0 K_Block, nest_dim 1 K_Thread]"

definition nest_events :: "cfg_event list" where
  "nest_events = [Ev_Enter 1 (Entry_ThreadDim 0 []), Ev_Enter 2 (Entry_SeqDim (nest_dim 2 K_Loop)), Ev_Exec (nest_inst 0),
     Ev_Exit 2 Exit_SeqDim, Ev_Exit 1 Exit_ThreadDim, Ev_Exec (nest_inst 1)]"

lemma nest_placed: "placed nest_space nest_events"
  by (simp add: placed_def placed_pair_def encloses_def nest_events_def nest_space_def nest_inst_def cn_id_def
      All_less_Suc Ex_less_Suc numeral_eq_Suc)

definition nest_cfg :: "cfg list" where
  "nest_cfg = [Cfg_Threads [Some 1] [] [Cfg_Loop (nest_dim 2 K_Loop) [Cfg_Instruction [] [] (nest_inst 0)]], Cfg_Instruction [] [] (nest_inst 1)]"

lemma nest_walk: "walk 1 nest_events nest_cfg"
proof -
  have "walk 0 [Ev_Exec (nest_inst 0)] [Cfg_Instruction [] [] (nest_inst 0)]" by (intro walk_exec walk_end)
  then have loop: "walk 0 (enter_seq (nest_dim 2 K_Loop) # [Ev_Exec (nest_inst 0)] @ Ev_Exit 2 Exit_SeqDim # [])
      [Cfg_Loop (nest_dim 2 K_Loop) [Cfg_Instruction [] [] (nest_inst 0)]]"
    by (intro walk_loop walk_end) (simp_all add: nest_dim_def)
  have "walk 1 [Ev_Exec (nest_inst 1)] [Cfg_Instruction [] [] (nest_inst 1)]" by (intro walk_exec walk_end)
  then show ?thesis
    using walk_threads [of "[(1, 0, [])]" 1 "[1]", OF _ _ _ _ loop]
    by (simp add: nest_events_def nest_cfg_def enter_thread_def enter_seq_def thread_ids_def nest_dim_def)
qed

lemma nest_thread_dims: "thread_dims_of nest_dims = [nest_dim 1 K_Thread]" "block_dims_of nest_dims = [nest_dim 0 K_Block]"
  by (simp_all add: thread_dims_of_def block_dims_of_def nest_dims_def nest_dim_def)

text \<open>C9: When the orders of the search space describe a nest of loops, vectors and threads, and the thread mappings the places of
  the thread dimensions, building the graph never panics and gives that nest, with the block and thread dimensions in order;
  its instructions are those of the kernel in the order of the nest, each below exactly one set of threads.\<close>

theorem build_follows_orders:
  assumes "threads_ranked sp r (thread_dims_of dims)" "mset bs = mset (block_dims_of dims)" "decided_by (cmp_blocks sp) bs"
    "mset es = mset (map Ev_Exec insts @ concat (map dim_events dims) @ thread_entry_events r (thread_dims_of dims))"
    "placed sp es" "walk (length (thread_ranks r (thread_dims_of dims))) es cs"
  shows "\<exists>threads c. cfg_build sp insts dims = Some (bs, threads, c)
    \<and> map (mset \<circ> cd_ids) threads = map (\<lambda>g. mset (concat (map cd_ids g))) (thread_groups r (thread_dims_of dims))
    \<and> c = Cfg_Root (add_empty_threads (length threads) cs)
    \<and> cfg_instructions c = executed es \<and> set (thread_depths 0 c) \<subseteq> {1}"
proof -
  let ?gs = "thread_groups r (thread_dims_of dims)"
  let ?n = "length ?gs"
  have n: "?n = length (thread_ranks r (thread_dims_of dims))" by (simp add: thread_groups_def)
  have "sort_by (ev_cmp sp) (map Ev_Exec insts @ concat (map dim_events dims) @ thread_entry_events r (thread_dims_of dims)) = Some es"
    by (rule sort_by_decided [OF placed_decided [OF assms(5)]]) (simp only: assms(4))
  then have "cfg_build sp insts dims = Some (bs, map merged_threads ?gs, Cfg_Root (add_empty_threads ?n cs))"
    using gen_events_ok [OF assms(1-3), of insts] from_walk [OF assms(6)] n by (simp add: cfg_build_def)
  moreover have "cd_ids (merged_threads g) = concat (map cd_ids g)" if "g \<in> set ?gs" for g
    using thread_group_uniform(1) [OF assms(1) that] by (cases g) (simp_all add: merged_threads_def cd_ids_def)
  then have "map (mset \<circ> cd_ids) (map merged_threads ?gs) = map (\<lambda>g. mset (concat (map cd_ids g))) ?gs" by simp
  moreover have "cfg_instructions (Cfg_Root (add_empty_threads ?n cs)) = executed es"
    using walk_instructions [OF assms(6)] add_empty_threads_instructions(1) by simp
  moreover have "set (thread_depths 0 (Cfg_Root (add_empty_threads ?n cs))) \<subseteq> {1}"
    using add_empty_threads_depth(1) [OF walk_flat [OF assms(6)]] by simp
  ultimately show ?thesis by (metis length_map)
qed

theorem build_follows_orders_witness:
  "\<exists>threads c. cfg_build nest_space [nest_inst 0, nest_inst 1] nest_dims = Some ([nest_dim 0 K_Block], threads, c)
    \<and> length threads = 1 \<and> c = Cfg_Root (add_empty_threads 1 nest_cfg)
    \<and> cfg_instructions c = [nest_inst 0, nest_inst 1] \<and> set (thread_depths 0 c) \<subseteq> {1}"
proof -
  let ?ts = "thread_dims_of nest_dims"
  have r: "thread_ranks (\<lambda>d. d) ?ts = [1]" by (simp add: thread_ranks_def nest_thread_dims nest_dim_def)
  have g: "thread_groups (\<lambda>d. d) ?ts = [[nest_dim 1 K_Thread]]"
    unfolding thread_groups_def r by (simp add: nest_thread_dims nest_dim_def)
  have "threads_ranked nest_space (\<lambda>d. d) ?ts" "decided_by (cmp_blocks nest_space) [nest_dim 0 K_Block]"
    by (simp_all add: threads_ranked_def nest_thread_dims decided_by_def)
  moreover have "mset nest_events = mset (map Ev_Exec [nest_inst 0, nest_inst 1] @ concat (map dim_events nest_dims)
      @ thread_entry_events (\<lambda>d. d) ?ts)"
    unfolding thread_entry_events_def g
    by (simp add: nest_events_def nest_dims_def dim_events_def group_entries_def enter_seq_def enter_thread_def nest_dim_def)
  moreover have "executed nest_events = [nest_inst 0, nest_inst 1]" by (simp add: nest_events_def)
  ultimately show ?thesis
    using build_follows_orders [of nest_space "\<lambda>d. d" nest_dims "[nest_dim 0 K_Block]" nest_events "[nest_inst 0, nest_inst 1]" nest_cfg]
      nest_placed nest_walk
    by (auto simp: nest_thread_dims(2) r g dest: arg_cong [of _ _ length])
qed

end
