(* ===== verification/Spec2Isabelle.thy ===== *)
theory Spec2Isabelle
  imports Vec_Set Domain_Conversions IR_Set Truth_Table_Correct Util_Iterators Constraint_Correct Level_Graph_Correct Explorer_Optimal Ast_Properties
    Kernel_Properties TF_Record Codegen_Levels Codegen_Cfg_Correct
begin

text \<open>
  Telamon searches for the fastest implementation of a computational kernel. A kernel is described in an intermediate
  representation whose implementation decisions (loop kinds, orders, sizes, memory spaces) are left open. The \<^emph>\<open>search
  space\<close> holds, for each decision, a \<^emph>\<open>domain\<close>: the set of the values it can still take. Constraints between decisions are
  written in a language of their own and compiled by \<^verbatim>\<open>telamon-gen\<close> to \<^emph>\<open>filters\<close>, which remove values from domains. A \<^emph>\<open>performance
  model\<close> computes a lower bound of the time of all the implementations of a partially decided space, and the \<^emph>\<open>explorer\<close> uses
  it to cut the search. This development models these parts, in the order in which they depend on each other.

  \<^bold>\<open>Conventions.\<close> A function that may panic returns an option and \<open>None\<close> is the panic; where the source returns an option or a
  result itself, that value is inside. A method on \<^verbatim>\<open>&mut self\<close> returns the new state. Fixed-width integers are words where
  the width matters; positions in vectors are natural numbers. What the program does not define is an argument: the order in
  which a hash container is iterated (\<open>iter\<close>), the operations on floats (\<open>f64_ops\<close>, with the laws \<open>f64_laws\<close>), the methods of a device
  and of a context, the template of the code of a quotient set (\<open>render\<close>), the generated code of a search space (the record \<open>search\<close>) and the interval heap of a library (the record \<open>heap\<close>,
  with the laws \<open>heap_laws\<close>). Every theorem with assumptions comes with a theorem that applies it to a concrete input.

  \<^bold>\<open>Utilities\<close> (\<^verbatim>\<open>telamon-utils/src\<close>).
  \<^item> \<open>Telamon_Prelude\<close>, \<open>Utils_Lib\<close>: conventions, checked arithmetic, sorted lists; \<^verbatim>\<open>Trivalent\<close> and the integer helpers of \<^verbatim>\<open>lib.rs\<close>.
  \<^item> \<open>Vec_Set\<close> (\<^verbatim>\<open>vec_set.rs\<close>): the ordered vector set with the cursors and raw copies of the source. Every operation computes
    the operation on sets; the locale \<open>set_adt\<close> is the contract of a set, interpreted on \<^verbatim>\<open>VecSet\<close>.
  \<^item> \<open>ND_Array\<close> (\<^verbatim>\<open>ndarray.rs\<close>): arrays of several dimensions, their ranges and split views: ranges enumerate all indexes in order and
    the parts of a split view partition it.
  \<^item> \<open>Util_Iterators\<close> (\<^verbatim>\<open>iterator.rs\<close>): small combinators and \<^verbatim>\<open>PartialPermutations\<close>, which yields every injective tuple once.
  \<^item> \<open>TF_Record\<close> (\<^verbatim>\<open>tfrecord.rs\<close>): the record files of the event log. The reader is the list of the chunks, interruptions and failures that it
    delivers and the writer has a plan of what its next calls do; what other crates compute is the record \<open>wire\<close> with the laws of the locale
    \<open>wire_format\<close>, interpreted on the little-endian conversions. Written records are read back, a record is accepted exactly when the file starts
    with its encoding, and a cut is reported.
  \<^item> \<open>Sort_By\<close>: sorting and binary search with a comparison that may panic.
  \<^item> \<open>Dag\<close> (\<^verbatim>\<open>dag.rs\<close>): the minimal graph of a partial order. The locale \<open>comparison\<close> is what it needs of the comparison; it is
    interpreted on vector sets and on levels.

  \<^bold>\<open>Runtime of the generated code\<close> (\<^verbatim>\<open>telamon-gen/src/print/runtime\<close>).
  \<^item> \<open>Domains\<close>, \<open>Domain_Laws\<close>, \<open>Domain_Conversions\<close>: \<^verbatim>\<open>Range\<close>, \<^verbatim>\<open>HalfRange\<close> and \<^verbatim>\<open>NumericSet\<close>. The traits \<^verbatim>\<open>Domain\<close> and \<^verbatim>\<open>NumSet\<close> are the
    locales \<open>domain_laws\<close> and \<open>num_set\<close>, interpreted on every implementation; constructors, comparisons, conversions and
    differences are exact, or their error is stated.

  \<^bold>\<open>Compiler of constraints\<close> (\<^verbatim>\<open>telamon-gen/src\<close>).
  \<^item> \<open>IR_Types\<close>, \<open>IR_Set\<close>, \<open>IR_Filter\<close>, \<open>IR_Desc\<close> (\<^verbatim>\<open>ir/\<close>): sets of objects, adaptators, value sets, conditions, rules, filters, choices
    with their actions and the description that collects them.
  \<^item> \<open>Ast\<close>, \<open>Ast_Define\<close> (\<^verbatim>\<open>ast/\<close>): the syntax of a file of constraints and its type check, with the checks on sets and enums, the expansion
    of aliases, quotient sets, counters and triggers. \<open>Ast_Typed\<close>, \<open>Ast_Meaning\<close>, \<open>Ast_Properties\<close>: an accepted file satisfies the
    assumptions of the stages that follow, typing keeps the meaning of constraints, and the flags that are added mean what they stand for.
  \<^item> \<open>IR_Semantics\<close>, \<open>Filter_Semantics\<close>: the meaning of conditions, rules and filters in a context of values.
  \<^item> \<open>Flat_Filters\<close>, \<open>Constraint_Correct\<close> (\<^verbatim>\<open>constraint.rs\<close>, \<^verbatim>\<open>flat_filter.rs\<close>): the filter generated for an input of a constraint allows
    exactly the values that satisfy the constraint, and removing duplicate inputs keeps it.
  \<^item> \<open>Truth_Table\<close>, \<open>Truth_Table_Cells\<close>, \<open>Truth_Table_Correct\<close> (\<^verbatim>\<open>truth_table.rs\<close>): the decision tree built from rules allows exactly the
    values that the rules allow, in every context.

  \<^bold>\<open>Performance model\<close> (\<^verbatim>\<open>src/model\<close>, \<^verbatim>\<open>src/ir/size.rs\<close>).
  \<^item> \<open>Sizes\<close>: partial sizes, the bounds and the factors of their values.
  \<^item> \<open>Perf_Bounds\<close> (\<^verbatim>\<open>hw_pressure.rs\<close>), \<open>Dependency_Map\<close> (\<^verbatim>\<open>dependency_map.rs\<close>): bounds with their explanation, pressure on the hardware, and
    the longest chains of dependencies between code points.
  \<^item> \<open>Levels\<close>, \<open>Local_Info\<close> (\<^verbatim>\<open>level.rs\<close>, \<^verbatim>\<open>local_info.rs\<close>): the levels of loops, the nesting, pressure and parallelism of statements.
  \<^item> \<open>Level_Graph\<close>, \<open>Level_Graph_Correct\<close> (\<^verbatim>\<open>level.rs\<close>, \<^verbatim>\<open>code_point.rs\<close>, \<^verbatim>\<open>mod.rs\<close>): the graph of levels and the passes that compute the
    bound of a space; the passes keep it well formed and are processed in an order that respects their updates.

  \<^bold>\<open>Kernels and their search space\<close> (\<^verbatim>\<open>src/ir\<close>, \<^verbatim>\<open>src/search_space\<close>).
  \<^item> \<open>Sparse_Vec\<close> (\<^verbatim>\<open>SparseVec\<close> of \<^verbatim>\<open>mod.rs\<close>): vectors with holes. The locale \<open>arena\<close> is the contract of a store of objects with
    identifiers that can be reserved; it is interpreted on them.
  \<^item> \<open>Kernel_IR\<close>, \<open>Kernel_Function\<close>: types, operands, operators, instructions, dimensions, memory blocks, variables, and the kernel that
    holds them (the record \<open>ir_function\<close>, with the fields of \<^verbatim>\<open>Body\<close> and \<^verbatim>\<open>Function\<close>): its builder, freezing, and the lowering of communications and layouts. The type
    parameter is the \<^verbatim>\<open>L\<close> of the source. An error of the source is on the left of a sum; the device is the record \<open>ir_device\<close>.
  \<^item> \<open>Kernel_Lowering\<close> (\<^verbatim>\<open>search_space/\<close>): the decisions that operands imply, the triggers and the search space; the code that is generated from the
    constraints is the record \<open>generated\<close>.
  \<^item> \<open>Kernel_Invariant\<close>, \<open>Kernel_Frozen\<close>: the invariant \<open>kernel_ok\<close> and its preservation by every operation; \<open>built\<close> and \<open>reached\<close> are the kernels
    that sequences of calls produce. The relations \<open>inserted\<close>, \<open>updated\<close> and \<open>dual\<close> carry these proofs.
  \<^item> \<open>Kernel_Properties\<close>: reachable kernels are consistent, reserved identifiers are distinct, the addresses of temporary arrays are dense, the
    producer of a value is always found, and which integers an operand accepts.

  \<^bold>\<open>Code generation\<close> (\<^verbatim>\<open>src/codegen\<close>).
  \<^item> \<open>Codegen_Dim\<close> (\<^verbatim>\<open>size.rs\<close>, \<^verbatim>\<open>dimension.rs\<close>): sizes, dimensions and induction variables of a fully specified space, which is the record \<open>cg_space\<close>.
  \<^item> \<open>Codegen_Levels\<close>: the groups of dimensions are the classes of merged dimensions, and the induction levels compute the values of the
    induction variables.
  \<^item> \<open>Codegen_Cfg\<close>, \<open>Codegen_Cfg_Correct\<close> (\<^verbatim>\<open>cfg.rs\<close>): the events of entering, executing and leaving, their order and the control flow graph that is
    read from the sorted events. The relation \<open>walk\<close> gives the events of a graph; sorting and reading them rebuilds the graph.

  \<^bold>\<open>Explorer\<close> (\<^verbatim>\<open>src/explorer\<close>, \<^verbatim>\<open>src/device/context.rs\<close>).
  \<^item> \<open>Explorer\<close>: candidates, the list shared by the workers, the evaluation of a candidate and the monitor. The threads are the step
    relation \<open>explore_step\<close>; a step is what a thread does while it holds a lock.
  \<^item> \<open>Explorer_Correct\<close>, \<open>Explorer_Optimal\<close>: the workers end together and never block, the candidate that is kept was checked, and the search
    without limits is exhaustive.

  \<^bold>\<open>Termination and fuel.\<close> Loops over a cursor are recursive functions with a measure. An iterator is collected with fuel, and the
  theorems on it show that the fuel used is enough (the length of the inputs for merges, the number of indexes for ranges,
  the number of permutations for permutations of variables). The expansion of aliases may not end, and is a partial function.
  The loop of \<^verbatim>\<open>update_cut\<close>, whose end depends on the heap, is one too;
  \<open>drop_above_spec\<close> shows that it ends for every heap that obeys the laws. \<open>production_inst\<close> follows variables and is a partial function, which
  is shown to be defined on kernels that are built. \<open>operand_invariants_in\<close> recurses into the base of induction variables, at most once per
  induction variable.

  \<^bold>\<open>Not modelled.\<close> The lexer (generated C code), the grammar (generated by lalrpop) and the printer, whose output is Rust text made by
  templates; the printing and serialisation of kernels, the printing of the device code and the names of its registers; tree search (MCTS), logging,
  the offline tools, the device backends, the bindings and the example kernels. In the exploration the bounded channel
  is unbounded, and restarts, which the shared list ignores, are left out.
\<close>

section \<open>From the file to the constraints that are compiled\<close>

lemma dedup_all:
  assumes "ir_closed ir" "\<forall>co \<in> set cs. constraint_ok ir co" "val_respects ir val"
  shows "\<exists>cs'. those (map (co_dedup_inputs ir) cs) = Some cs'
    \<and> list_all2 (\<lambda>co co'. constraint_holds ir val codes nums sets co' \<longleftrightarrow> constraint_holds ir val codes nums sets co) cs cs'"
  using assms(2)
proof (induction cs)
  case (Cons co cs)
  obtain co' where "co_dedup_inputs ir co = Some co'"
    "constraint_holds ir val codes nums sets co' \<longleftrightarrow> constraint_holds ir val codes nums sets co"
    using co_dedup_inputs_spec [OF assms(1) _ assms(3), of co codes nums sets] Cons.prems by auto
  moreover obtain cs' where "those (map (co_dedup_inputs ir) cs) = Some cs'"
    "list_all2 (\<lambda>co co'. constraint_holds ir val codes nums sets co' \<longleftrightarrow> constraint_holds ir val codes nums sets co) cs cs'"
    using Cons by auto
  ultimately show ?case by (intro exI [of _ "co' # cs'"]) simp
qed simp

text \<open>A world whose choices respect the symmetries of the description.\<close>

lemma order_world_respects:
  assumes "\<forall>n c. get_choice ir n = Some c \<longrightarrow> c_arguments c = Symmetric names s True \<and> choice_enum ir n = Some e"
    and "e_inverse e = Some [(''BEFORE'', ''AFTER'')]"
  shows "val_respects ir (typed_val_of order_world nu)"
  unfolding val_respects_def
proof (intro allI impI)
  fix ci b ci'
  assume n: "ci_normalize ir ci = Some (b, ci')"
  then obtain c v0 v1 where c: "get_choice ir (ci_choice ci) = Some c" "ci_vars ci = [v0, v1]"
    "(b, ci') = (if v0 > v1 then (True, ci\<lparr>ci_vars := [v1, v0]\<rparr>) else (False, ci))"
    using assms(1) by (auto simp: ci_normalize_def bind_eq_Some_conv split: list.split_asm)
  then have "choice_enum ir (ci_choice ci) = Some e" using assms(1) by blast
  then show "typed_val_of order_world nu ci = val_inverse b (choice_enum ir (ci_choice ci)) (typed_val_of order_world nu ci')"
    using c(2,3) assms(2)
    by (auto simp: typed_val_of_def order_world_def val_inverse_def inverse_if_def enum_inverse_def split: if_splits)
qed

lemma order_file_choices:
  "\<exists>ir cos e names s. type_check id no_render order_file = Some (Inr (ir, cos)) \<and> constraint_type_check id ir transitive_decl = Some cos
    \<and> choice_enum ir ''order'' = Some e \<and> enum_keys e = [''BEFORE'', ''AFTER'', ''EQUAL''] \<and> e_aliases e = []
    \<and> e_inverse e = Some [(''BEFORE'', ''AFTER'')]
    \<and> (\<forall>n c. get_choice ir n = Some c \<longrightarrow> c_arguments c = Symmetric names s True \<and> choice_enum ir n = Some e)"
proof -
  have "(case type_check id no_render order_file of
      Some (Inr (ir, cos)) \<Rightarrow> constraint_type_check id ir transitive_decl = Some cos \<and>
        (case choice_enum ir ''order'' of Some e \<Rightarrow> enum_keys e = [''BEFORE'', ''AFTER'', ''EQUAL''] \<and> e_aliases e = []
           \<and> e_inverse e = Some [(''BEFORE'', ''AFTER'')] | None \<Rightarrow> False) \<and>
        map fst (ir_choices ir) = [''order''] \<and> (case c_arguments (snd (hd (ir_choices ir))) of Symmetric _ _ b \<Rightarrow> b | _ \<Rightarrow> False)
    | _ \<Rightarrow> False)" by code_simp
  then obtain ir cos e where f: "type_check id no_render order_file = Some (Inr (ir, cos))"
      "constraint_type_check id ir transitive_decl = Some cos"
    and e: "choice_enum ir ''order'' = Some e" "enum_keys e = [''BEFORE'', ''AFTER'', ''EQUAL'']" "e_aliases e = []"
      "e_inverse e = Some [(''BEFORE'', ''AFTER'')]"
    and one: "map fst (ir_choices ir) = [''order'']" "case c_arguments (snd (hd (ir_choices ir))) of Symmetric _ _ b \<Rightarrow> b | _ \<Rightarrow> False"
    by (auto split: option.split_asm sum.split_asm prod.split_asm)
  then obtain n c where c: "ir_choices ir = [(n, c)]" "n = ''order''" "case c_arguments c of Symmetric _ _ b \<Rightarrow> b | _ \<Rightarrow> False"
    by (auto simp: map_eq_Cons_conv)
  obtain names s where "c_arguments c = Symmetric names s True" using c(3) by (auto split: choice_arguments.split_asm)
  then have "\<forall>n' c'. get_choice ir n' = Some c' \<longrightarrow> c_arguments c' = Symmetric names s True \<and> choice_enum ir n' = Some e"
    using c(1,2) e(1) by (simp add: get_choice_def)
  then show ?thesis using f e by blast
qed



end
